(* ===== verification/Prelude.thy ===== *)
theory Prelude
  imports Main "HOL-Library.Word" "HOL-Library.Monad_Syntax"
begin

section \<open>Shared types, Go primitives and generic lemmas\<close>

text \<open>
  The vocabulary of the development. Go's fixed-width integers are words, so that wrap-around is
  the word operation; \<open>big.Int\<close> is \<^typ>\<open>int\<close>. A Go panic is \<^const>\<open>None\<close> of the option monad (the process
  unwinds and the state under construction is lost); a Go \<open>error\<close> result is a value returned
  beside the state, because a call that returns an error still keeps what it has written.
  The package \<open>github.com/holiman/uint256\<close> is not part of the repository: its operations are the
  fields of a record that every definition using them takes as its argument, and
  \<open>uint256_spec\<close> is the documented behaviour the theorems rely on.
\<close>

named_theorems dpos_simps \<open>unfoldings of the storage accessors\<close>
named_theorems frame_simps \<open>what an operation leaves unchanged\<close>

type_synonym byte = "8 word"
type_synonym bytes = "byte list"
type_synonym u16 = "16 word"
type_synonym u32 = "32 word"
type_synonym u64 = "64 word"
type_synonym u256 = "256 word"
type_synonym address = "160 word"
type_synonym block_num = u64

subsection \<open>Go's \<open>math/big\<close>\<close>

text \<open>\<open>big.Int.Div\<close> is Euclidean division and panics on a zero divisor.\<close>

definition big_div :: "int \<Rightarrow> int \<Rightarrow> int option" where
  "big_div x y = (if y = 0 then None else Some (sgn y * (x div \<bar>y\<bar>)))"

lemma big_div_pos [simp]: "0 < y \<Longrightarrow> big_div x y = Some (x div y)"
  by (simp add: big_div_def)

lemma big_div_zero [simp]: "big_div x 0 = None"
  by (simp add: big_div_def)

subsection \<open>The uint256 package\<close>

record uint256_ops =
  U_Add :: "u256 \<Rightarrow> u256 \<Rightarrow> u256"
  U_Sub :: "u256 \<Rightarrow> u256 \<Rightarrow> u256"
  U_Mul :: "u256 \<Rightarrow> u256 \<Rightarrow> u256"
  U_Div :: "u256 \<Rightarrow> u256 \<Rightarrow> u256"
  U_FromBig :: "int \<Rightarrow> u256 \<times> bool"

text \<open>
  The documented behaviour: addition, subtraction and multiplication modulo \<open>2 ^ 256\<close>, division
  truncating with \<open>x / 0 = 0\<close>, and \<open>FromBig\<close> reducing modulo \<open>2 ^ 256\<close> and reporting overflow.
\<close>

definition uint256_spec :: "uint256_ops \<Rightarrow> bool" where
  "uint256_spec U \<longleftrightarrow>
     (\<forall>a b. U_Add U a b = a + b) \<and>
     (\<forall>a b. U_Sub U a b = a - b) \<and>
     (\<forall>a b. U_Mul U a b = a * b) \<and>
     (\<forall>a b. U_Div U a b = (if b = 0 then 0 else a div b)) \<and>
     (\<forall>i. U_FromBig U i = (word_of_int i, \<not> (\<bar>i\<bar> < 2 ^ 256)))"

definition uint256_std :: uint256_ops where
  "uint256_std =
     \<lparr>U_Add = (\<lambda>a b. a + b), U_Sub = (\<lambda>a b. a - b), U_Mul = (\<lambda>a b. a * b),
      U_Div = (\<lambda>a b. if b = 0 then 0 else a div b),
      U_FromBig = (\<lambda>i. (word_of_int i, \<not> (\<bar>i\<bar> < 2 ^ 256)))\<rparr>"

lemma uint256_spec_std [simp]: "uint256_spec uint256_std"
  by (simp add: uint256_spec_def uint256_std_def)

lemma uint256_specD:
  assumes "uint256_spec U"
  shows "U_Add U a b = a + b" "U_Sub U a b = a - b" "U_Mul U a b = a * b"
    "U_Div U a b = (if b = 0 then 0 else a div b)"
    "U_FromBig U i = (word_of_int i, \<not> (\<bar>i\<bar> < 2 ^ 256))"
  using assms by (auto simp: uint256_spec_def)

subsection \<open>Panics as the option monad\<close>

text \<open>\<open>asserts.Holds\<close> and explicit panics: continue only if the condition holds.\<close>

definition holds :: "bool \<Rightarrow> unit option" where
  "holds b = (if b then Some () else None)"

lemma holds_simps [simp]: "holds True = Some ()" "holds False = None"
  by (simp_all add: holds_def)

lemma holds_Some_iff [simp]: "holds b = Some u \<longleftrightarrow> b"
  by (simp add: holds_def)

lemma holds_bind [simp]: "(holds b \<bind> f = Some y) \<longleftrightarrow> b \<and> f () = Some y"
  by (cases b) simp_all

lemma bind_Some_iff: "(m \<bind> f = Some y) \<longleftrightarrow> (\<exists>x. m = Some x \<and> f x = Some y)"
  by (cases m) simp_all

text \<open>A loop over a slice that carries the state and stops at the first panic.\<close>

fun fold_opt :: "('a \<Rightarrow> 's \<Rightarrow> 's option) \<Rightarrow> 'a list \<Rightarrow> 's \<Rightarrow> 's option" where
  "fold_opt f [] s = Some s"
| "fold_opt f (x # xs) s = do { s' \<leftarrow> f x s; fold_opt f xs s' }"

lemma fold_opt_invariant:
  assumes "\<And>x s s'. x \<in> set xs \<Longrightarrow> P s \<Longrightarrow> f x s = Some s' \<Longrightarrow> P s'"
    and "P s" and "fold_opt f xs s = Some s'"
  shows "P s'"
  using assms
proof (induction xs arbitrary: s)
  case Nil
  then show ?case by simp
next
  case (Cons x xs)
  from Cons.prems(3) obtain s1 where s1: "f x s = Some s1" "fold_opt f xs s1 = Some s'"
    by (auto simp: bind_Some_iff)
  have "P s1" by (rule Cons.prems(1) [OF _ Cons.prems(2) s1(1)]) simp
  show ?case
    by (rule Cons.IH [OF _ \<open>P s1\<close> s1(2)]) (rule Cons.prems(1), auto)
qed

subsection \<open>Sums over the finite type of addresses\<close>

text \<open>
  An operation on one validator or one delegator changes a sum over all of them in one summand.
\<close>

lemma sum_change_at:
  fixes f g :: "'a \<Rightarrow> int"
  assumes "finite A" and "x \<in> A" and "\<And>y. y \<in> A \<Longrightarrow> y \<noteq> x \<Longrightarrow> f y = g y"
  shows "sum f A = sum g A - g x + f x"
proof -
  have "sum f A = f x + sum f (A - {x})" using assms by (simp add: sum.remove)
  moreover have "sum g A = g x + sum g (A - {x})" using assms by (simp add: sum.remove)
  moreover have "sum f (A - {x}) = sum g (A - {x})" using assms by (intro sum.cong) auto
  ultimately show ?thesis by simp
qed

lemma sum_UNIV_change_at:
  fixes f g :: "'a::finite \<Rightarrow> int"
  assumes "\<And>y. y \<noteq> x \<Longrightarrow> f y = g y"
  shows "sum f UNIV = sum g UNIV - g x + f x"
  by (rule sum_change_at) (use assms in auto)

lemma sum_UNIV_member_le:
  fixes f :: "'a::finite \<Rightarrow> int"
  assumes "\<And>y. 0 \<le> f y"
  shows "f x \<le> sum f UNIV"
  by (rule member_le_sum) (use assms in auto)

lemma sum_UNIV_eq_0_D:
  fixes f :: "'a::finite \<Rightarrow> int"
  assumes "sum f UNIV = 0" and "\<And>y. 0 \<le> f y"
  shows "f x = 0"
  using sum_UNIV_member_le [of f x] assms by (simp add: order_antisym)

end
