(* ===== verification/Chain_Config.thy ===== *)
theory Chain_Config
  imports Prelude
begin

section \<open>Chain configuration and hard forks\<close>

text \<open>
  \<open>src/taraxa/state/chain_config/chain_config.go\<close>: the configuration records and the predicates
  that say which hard fork a block is on. A Go map of balances is an association list, one of its
  enumerations: Go iterates over a map in an unspecified order, so a function of the map has to be
  invariant under permutation of the list. \<open>params.ChainConfig\<close> holds only the chain id.
\<close>

type_synonym balance_map = "(address \<times> int) list"

record Redelegation =
  rd_Validator :: address
  rd_Delegator :: address
  rd_Amount :: int

record MagnoliaHfConfig =
  magnolia_BlockNum :: u64
  magnolia_JailTime :: u64

record AspenHfConfig =
  aspen_BlockNumPartOne :: u64
  aspen_BlockNumPartTwo :: u64
  aspen_MaxSupply :: int
  aspen_GeneratedRewards :: int

record FicusHfConfig =
  ficus_BlockNum :: u64
  ficus_PillarBlocksInterval :: u64
  ficus_BridgeContractAddress :: address

record CornusHfConfig =
  cornus_BlockNum :: u64
  cornus_DelegationLockingPeriod :: u32
  cornus_DagGasLimit :: u64
  cornus_PbftGasLimit :: u64

record SoleiroliaHfConfig =
  soleirolia_BlockNum :: u64
  soleirolia_TrxMinGasPrice :: u64
  soleirolia_TrxMaxGasLimit :: u64

record HardforksConfig =
  FixRedelegateBlockNum :: u64
  Redelegations :: "Redelegation list"
  RewardsDistributionFrequency :: "(u64 \<times> u32) list"
  MagnoliaHf :: MagnoliaHfConfig
  PhalaenopsisHfBlockNum :: u64
  FixClaimAllBlockNum :: u64
  AspenHf :: AspenHfConfig
  FicusHf :: FicusHfConfig
  CornusHf :: CornusHfConfig
  SoleiroliaHf :: SoleiroliaHfConfig

definition IsOnFixClaimAllHardfork :: "HardforksConfig \<Rightarrow> block_num \<Rightarrow> bool" where
  "IsOnFixClaimAllHardfork c block \<longleftrightarrow> block \<ge> FixClaimAllBlockNum c"

definition IsOnPhalaenopsisHardfork :: "HardforksConfig \<Rightarrow> block_num \<Rightarrow> bool" where
  "IsOnPhalaenopsisHardfork c block \<longleftrightarrow> block \<ge> PhalaenopsisHfBlockNum c"

definition IsOnMagnoliaHardfork :: "HardforksConfig \<Rightarrow> block_num \<Rightarrow> bool" where
  "IsOnMagnoliaHardfork c block \<longleftrightarrow> block \<ge> magnolia_BlockNum (MagnoliaHf c)"

definition IsOnAspenHardforkPartOne :: "HardforksConfig \<Rightarrow> block_num \<Rightarrow> bool" where
  "IsOnAspenHardforkPartOne c block \<longleftrightarrow> block \<ge> aspen_BlockNumPartOne (AspenHf c)"

definition IsOnAspenHardforkPartTwo :: "HardforksConfig \<Rightarrow> block_num \<Rightarrow> bool" where
  "IsOnAspenHardforkPartTwo c block \<longleftrightarrow> block \<ge> aspen_BlockNumPartTwo (AspenHf c)"

definition IsOnFicusHardfork :: "HardforksConfig \<Rightarrow> block_num \<Rightarrow> bool" where
  "IsOnFicusHardfork c block \<longleftrightarrow> block \<ge> ficus_BlockNum (FicusHf c)"

definition IsOnCornusHardfork :: "HardforksConfig \<Rightarrow> block_num \<Rightarrow> bool" where
  "IsOnCornusHardfork c block \<longleftrightarrow> block \<ge> cornus_BlockNum (CornusHf c)"

definition IsCornusHardfork :: "HardforksConfig \<Rightarrow> block_num \<Rightarrow> bool" where
  "IsCornusHardfork c block \<longleftrightarrow> block = cornus_BlockNum (CornusHf c)"

text \<open>\<open>types.BlockNumberNIL = ^BlockNum(0)\<close>.\<close>

definition BlockNumberNIL :: block_num where
  "BlockNumberNIL = - 1"

definition isForked :: "block_num \<Rightarrow> block_num \<Rightarrow> bool" where
  "isForked fork_start block_num \<longleftrightarrow>
     (if fork_start = BlockNumberNIL \<or> block_num = BlockNumberNIL then False
      else fork_start \<le> block_num)"

record Rules =
  IsMagnolia :: bool
  IsAspenPartOne :: bool
  IsAspenPartTwo :: bool
  IsFicus :: bool
  IsCornus :: bool

definition HardforkRules :: "HardforksConfig \<Rightarrow> block_num \<Rightarrow> Rules" where
  "HardforkRules c num =
     \<lparr>IsMagnolia = isForked (magnolia_BlockNum (MagnoliaHf c)) num,
      IsAspenPartOne = isForked (aspen_BlockNumPartOne (AspenHf c)) num,
      IsAspenPartTwo = isForked (aspen_BlockNumPartTwo (AspenHf c)) num,
      IsFicus = isForked (ficus_BlockNum (FicusHf c)) num,
      IsCornus = isForked (cornus_BlockNum (CornusHf c)) num\<rparr>"

record GenesisValidator =
  gv_Address :: address
  gv_Owner :: address
  gv_VrfKey :: bytes
  gv_Commission :: u16
  gv_Endpoint :: string
  gv_Description :: string
  gv_Delegations :: balance_map

record DPOSConfig =
  EligibilityBalanceThreshold :: int
  VoteEligibilityBalanceStep :: int
  ValidatorMaximumStake :: int
  MinimumDeposit :: int
  MaxBlockAuthorReward :: u16
  DagProposersReward :: u16
  CommissionChangeDelta :: u16
  CommissionChangeFrequency :: u32
  DelegationDelay :: u32
  DelegationLockingPeriod :: u32
  BlocksPerYear :: u32
  YieldPercentage :: u16
  InitialValidators :: "GenesisValidator list"

record ChainConfig =
  ChainId :: u64
  GenesisBalances :: balance_map
  DPOS :: DPOSConfig
  Hardforks :: HardforksConfig

definition RewardsEnabled :: "ChainConfig \<Rightarrow> bool" where
  "RewardsEnabled c \<longleftrightarrow> YieldPercentage (DPOS c) > 0"

definition GenesisBalancesSum :: "ChainConfig \<Rightarrow> int" where
  "GenesisBalancesSum c = foldl (\<lambda>sum entry. sum + snd entry) 0 (GenesisBalances c)"

subsection \<open>Hard forks are monotone in the block number\<close>

text \<open>
  The predicates and the rules handed to the interpreter agree except on the block numbers that
  stand for "never".
\<close>

lemmas hardfork_defs =
  IsOnFixClaimAllHardfork_def IsOnPhalaenopsisHardfork_def IsOnMagnoliaHardfork_def
  IsOnAspenHardforkPartOne_def IsOnAspenHardforkPartTwo_def IsOnFicusHardfork_def
  IsOnCornusHardfork_def IsCornusHardfork_def

lemma isForked_iff:
  "isForked f b \<longleftrightarrow> f \<le> b \<and> f \<noteq> BlockNumberNIL \<and> b \<noteq> BlockNumberNIL"
  by (auto simp: isForked_def)

lemma HardforkRules_agree:
  assumes "num \<noteq> BlockNumberNIL"
  shows "IsMagnolia (HardforkRules c num) = IsOnMagnoliaHardfork c num"
    and "IsFicus (HardforkRules c num) = IsOnFicusHardfork c num"
    and "IsCornus (HardforkRules c num) = IsOnCornusHardfork c num"
proof -
  have "f \<noteq> BlockNumberNIL" if "f \<le> num" for f :: block_num
    using that assms by (metis BlockNumberNIL_def word_n1_ge word_order.extremum_uniqueI)
  then show "IsMagnolia (HardforkRules c num) = IsOnMagnoliaHardfork c num"
    and "IsFicus (HardforkRules c num) = IsOnFicusHardfork c num"
    and "IsCornus (HardforkRules c num) = IsOnCornusHardfork c num"
    using assms by (auto simp: HardforkRules_def hardfork_defs isForked_iff)
qed

text \<open>The sum of the genesis balances does not depend on the order the Go map is iterated in.\<close>

lemma foldl_snd_sum: "foldl (\<lambda>sum entry. sum + snd entry) (a::int) xs = a + sum_list (map snd xs)"
  by (induction xs arbitrary: a) auto

lemma GenesisBalancesSum_sum_list: "GenesisBalancesSum c = sum_list (map snd (GenesisBalances c))"
  by (simp add: GenesisBalancesSum_def foldl_snd_sum)

end
