(* ===== verification/Byte_Codecs.thy ===== *)
theory Byte_Codecs
  imports Prelude
begin

unbundle bit_operations_syntax

section \<open>Integers as bytes\<close>

text \<open>
  The fixed-width and compact encodings that build storage keys and slots:
  \<open>uint32ToBytes\<close> and \<open>bytesToUint32\<close> of \<open>storage/iterable_map.go\<close>, \<open>Uint64ToBytes\<close> and
  \<open>BytesToUint64\<close> of \<open>storage/ids_imap.go\<close> (little endian), the big-endian encodings of
  \<open>util/bin/index.go\<close>, \<open>BlockToBytes\<close> of the DPOS contract and the byte views of an address.
  An index out of range is a panic, \<^const>\<open>None\<close>.
\<close>

subsection \<open>Little endian\<close>

definition le_encode :: "nat \<Rightarrow> 'a::len word \<Rightarrow> bytes" where
  "le_encode n v = map (\<lambda>i. ucast (drop_bit (8 * i) v AND 0xff)) [0..<n]"

definition le_decode :: "nat \<Rightarrow> bytes \<Rightarrow> 'a::len word" where
  "le_decode n b = foldl (\<lambda>r i. r OR push_bit (8 * i) (ucast (b ! i))) 0 [0..<n]"

definition uint32ToBytes :: "u32 \<Rightarrow> bytes" where
  "uint32ToBytes val = le_encode 4 val"

definition bytesToUint32 :: "bytes \<Rightarrow> u32 option" where
  "bytesToUint32 val = (if length val < 4 then None else Some (le_decode 4 val))"

definition Uint64ToBytes :: "u64 \<Rightarrow> bytes" where
  "Uint64ToBytes val = le_encode 8 val"

definition BytesToUint64 :: "bytes \<Rightarrow> u64 option" where
  "BytesToUint64 val = (if length val < 8 then None else Some (le_decode 8 val))"

subsection \<open>Big endian\<close>

definition be_encode :: "nat \<Rightarrow> 'a::len word \<Rightarrow> bytes" where
  "be_encode n v = map (\<lambda>k. ucast (drop_bit (8 * k) v)) (rev [0..<n])"

definition be_decode :: "bytes \<Rightarrow> 'a::len word" where
  "be_decode b = foldl (\<lambda>r x. push_bit 8 r OR ucast x) 0 b"

definition ENC_b_endian_64 :: "u64 \<Rightarrow> bytes" where
  "ENC_b_endian_64 v = be_encode 8 v"

definition DEC_b_endian_64 :: "bytes \<Rightarrow> u64 option" where
  "DEC_b_endian_64 b = (if length b \<noteq> 8 then None else Some (be_decode b))"

definition SizeInBytes :: "u64 \<Rightarrow> nat" where
  "SizeInBytes i =
     (if i < 2 ^ 8 then 1 else if i < 2 ^ 16 then 2 else if i < 2 ^ 24 then 3
      else if i < 2 ^ 32 then 4 else if i < 2 ^ 40 then 5 else if i < 2 ^ 48 then 6
      else if i < 2 ^ 56 then 7 else 8)"

definition ENC_b_endian_compact_64_1 :: "u64 \<Rightarrow> bytes" where
  "ENC_b_endian_compact_64_1 i = be_encode (SizeInBytes i) i"

definition DEC_b_endian_compact_64 :: "bytes \<Rightarrow> u64 option" where
  "DEC_b_endian_compact_64 b = (if length b > 8 then None else Some (be_decode b))"

text \<open>\<open>big.Int.Bytes\<close> of a block number: minimal big endian, empty for zero.\<close>

definition BlockToBytes :: "block_num \<Rightarrow> bytes" where
  "BlockToBytes number = (if number = 0 then [] else be_encode (SizeInBytes number) number)"

text \<open>
  \<open>Address.Bytes\<close> and \<open>BytesToAddress\<close>: a longer slice is cropped from the left, a shorter one
  padded on the left, which is what decoding into 160 bits does.
\<close>

definition address_Bytes :: "address \<Rightarrow> bytes" where
  "address_Bytes a = be_encode 20 a"

definition BytesToAddress :: "bytes \<Rightarrow> address" where
  "BytesToAddress b = be_decode b"

subsection \<open>Round trips\<close>

lemma length_le_encode [simp]: "length (le_encode n v) = n"
  by (simp add: le_encode_def)

lemma length_be_encode [simp]: "length (be_encode n v) = n"
  by (simp add: be_encode_def)

lemma foldl_or_bit:
  "bit (foldl (\<lambda>r i. r OR f i) (a::'a::len word) xs) n \<longleftrightarrow> bit a n \<or> (\<exists>i\<in>set xs. bit (f i) n)"
  by (induction xs arbitrary: a) (auto simp: bit_or_iff)

lemma bit_0xff: "bit (0xff :: 'a::len word) n \<longleftrightarrow> n < LENGTH('a) \<and> n < 8"
proof -
  have "(0xff :: 'a word) = mask 8" by (simp add: mask_eq_exp_minus_1)
  then show ?thesis by (simp only: bit_mask_iff possible_bit_word)
qed

lemma ucast_byte_and_0xff: "(ucast (x AND 0xff) :: byte) = ucast (x::'a::len word)"
proof (rule bit_word_eqI)
  fix n assume "n < LENGTH(8)"
  then have "bit (0xff :: 'a word) n \<longleftrightarrow> n < LENGTH('a)" by (simp only: bit_0xff) auto
  then show "bit (ucast (x AND 0xff) :: byte) n \<longleftrightarrow> bit (ucast x :: byte) n"
    by (simp only: bit_ucast_iff bit_and_iff) (auto dest: bit_imp_le_length)
qed

lemma le_encode_nth: "i < n \<Longrightarrow> le_encode n v ! i = ucast (drop_bit (8 * i) v)"
  by (simp only: le_encode_def ucast_byte_and_0xff) simp

lemma le_decode_encode:
  fixes v :: "'a::len word"
  assumes "LENGTH('a) \<le> 8 * n"
  shows "le_decode n (le_encode n v) = v"
proof (rule bit_word_eqI)
  fix k assume k: "k < LENGTH('a)"
  have "bit (le_decode n (le_encode n v) :: 'a word) k \<longleftrightarrow>
      (\<exists>i<n. 8 * i \<le> k \<and> bit (ucast (le_encode n v ! i) :: 'a word) (k - 8 * i))"
    using k by (auto simp: le_decode_def foldl_or_bit bit_push_bit_iff)
  also have "\<dots> \<longleftrightarrow> (\<exists>i<n. 8 * i \<le> k \<and> k - 8 * i < 8 \<and> bit v k)"
  proof (intro ex_cong1 conj_cong refl)
    fix i assume "i < n" "8 * i \<le> k"
    then show "bit (ucast (le_encode n v ! i) :: 'a word) (k - 8 * i) \<longleftrightarrow> k - 8 * i < 8 \<and> bit v k"
      using k by (auto simp: le_encode_nth bit_ucast_iff bit_drop_bit_eq)
  qed
  also have "\<dots> \<longleftrightarrow> bit v k"
  proof
    assume "bit v k"
    moreover have "k div 8 < n" using k assms by (simp add: less_mult_imp_div_less)
    ultimately show "\<exists>i<n. 8 * i \<le> k \<and> k - 8 * i < 8 \<and> bit v k"
      by (intro exI [of _ "k div 8"]) (auto simp: minus_mult_div_eq_mod)
  qed auto
  finally show "bit (le_decode n (le_encode n v) :: 'a word) k \<longleftrightarrow> bit v k" .
qed

lemma be_encode_Suc: "be_encode (Suc n) v = ucast (drop_bit (8 * n) v) # be_encode n v"
  by (simp add: be_encode_def)

lemma be_decode_acc:
  fixes a v :: "'a::len word"
  shows "foldl (\<lambda>r x. push_bit 8 r OR ucast x) a (be_encode n v) =
    push_bit (8 * n) a OR take_bit (8 * n) v"
proof (induction n arbitrary: a)
  case 0
  then show ?case by (simp add: be_encode_def)
next
  case (Suc n)
  show ?case
    by (simp add: be_encode_Suc Suc)
      (rule bit_word_eqI, auto simp: bit_or_iff bit_push_bit_iff bit_take_bit_iff bit_ucast_iff
        bit_drop_bit_eq not_le algebra_simps)
qed

lemma be_decode_encode: "be_decode (be_encode n v) = take_bit (8 * n) v"
  by (simp add: be_decode_def be_decode_acc)

lemma take_bit_word_id: "LENGTH('a) \<le> n \<Longrightarrow> take_bit n (v::'a::len word) = v"
  by (rule bit_word_eqI) (simp add: bit_take_bit_iff)

lemma take_bit_less_id:
  assumes "(v::'a::len word) < 2 ^ n"
  shows "take_bit n v = v"
proof -
  have "uint (2 ^ n :: 'a word) = 2 ^ n mod 2 ^ LENGTH('a)"
    by (metis of_int_numeral of_int_power uint_word_of_int)
  also have "\<dots> \<le> 2 ^ n" by (simp add: zmod_le_nonneg_dividend)
  finally have "uint v < 2 ^ n" using assms by (simp add: word_less_def)
  then have "uint (take_bit n v) = uint v"
    by (simp add: unsigned_take_bit_eq take_bit_int_eq_self)
  then show ?thesis by (rule unsigned_word_eqI)
qed

lemma SizeInBytes_take_bit: "take_bit (8 * SizeInBytes i) i = i"
  by (auto simp: SizeInBytes_def take_bit_word_id intro!: take_bit_less_id)

lemma SizeInBytes_le: "SizeInBytes i \<le> 8"
  by (simp add: SizeInBytes_def)

theorem uint32_roundtrip: "bytesToUint32 (uint32ToBytes v) = Some v"
  by (simp add: bytesToUint32_def uint32ToBytes_def le_decode_encode)

theorem Uint64_roundtrip: "BytesToUint64 (Uint64ToBytes v) = Some v"
  by (simp add: BytesToUint64_def Uint64ToBytes_def le_decode_encode)

theorem b_endian_64_roundtrip: "DEC_b_endian_64 (ENC_b_endian_64 v) = Some v"
  by (simp add: DEC_b_endian_64_def ENC_b_endian_64_def be_decode_encode take_bit_word_id)

theorem b_endian_compact_64_roundtrip:
  "DEC_b_endian_compact_64 (ENC_b_endian_compact_64_1 v) = Some v"
  by (simp add: DEC_b_endian_compact_64_def ENC_b_endian_compact_64_1_def be_decode_encode
      SizeInBytes_take_bit SizeInBytes_le not_less)

theorem address_roundtrip: "BytesToAddress (address_Bytes a) = a"
  by (simp add: BytesToAddress_def address_Bytes_def be_decode_encode take_bit_word_id)

lemma BlockToBytes_decode: "be_decode (BlockToBytes n) = n"
  by (simp add: BlockToBytes_def be_decode_encode SizeInBytes_take_bit) (simp add: be_decode_def)

lemma BlockToBytes_inject [simp]: "BlockToBytes m = BlockToBytes n \<longleftrightarrow> m = n"
  by (metis BlockToBytes_decode)

lemma length_BlockToBytes: "length (BlockToBytes n) \<le> 8"
  by (simp add: BlockToBytes_def SizeInBytes_le)

lemma address_Bytes_inject [simp]: "address_Bytes a = address_Bytes b \<longleftrightarrow> a = b"
  by (metis address_roundtrip)

lemma length_address_Bytes [simp]: "length (address_Bytes a) = 20"
  by (simp add: address_Bytes_def)

lemma uint32ToBytes_inject [simp]: "uint32ToBytes a = uint32ToBytes b \<longleftrightarrow> a = b"
  by (metis uint32_roundtrip option.inject)

lemma Uint64ToBytes_inject [simp]: "Uint64ToBytes a = Uint64ToBytes b \<longleftrightarrow> a = b"
  by (metis Uint64_roundtrip option.inject)

lemma length_uint32ToBytes [simp]: "length (uint32ToBytes v) = 4"
  by (simp add: uint32ToBytes_def)

lemma length_Uint64ToBytes [simp]: "length (Uint64ToBytes v) = 8"
  by (simp add: Uint64ToBytes_def)

lemma uint32ToBytes_neq_Nil [simp]: "uint32ToBytes v \<noteq> []"
  by (metis length_uint32ToBytes list.size(3) zero_neq_numeral)

end
