(* ===== verification/Contract_Storage.thy ===== *)
theory Contract_Storage
  imports Byte_Codecs
begin

section \<open>The contract storage wrapper\<close>

text \<open>
  \<open>src/taraxa/state/contracts/storage/storage.go\<close>. A precompiled contract reads and writes its
  storage through \<open>StorageWrapper\<close>: a cache in front of the state reader. A write goes to the cache
  and to the account's dirty raw storage; a read that misses the cache asks the backend, which
  answers from the database and does not see the dirty writes of the current block, so reading
  one's own writes rests on the cache alone. \<open>CommitCall\<close> clears the cache after the dirty
  entries have reached the database. Storage keys are hashes: keccak256 comes from
  \<open>golang.org/x/crypto/sha3\<close> and is the parameter \<open>H\<close>; the type of its values is left open.
\<close>

record 'h StorageWrapper =
  sw_cache :: "'h \<rightharpoonup> bytes"
  sw_db :: "'h \<rightharpoonup> bytes"
  sw_dirty :: "'h \<rightharpoonup> bytes"

definition Stor_k_1 :: "(bytes \<Rightarrow> 'h) \<Rightarrow> bytes list \<Rightarrow> 'h" where
  "Stor_k_1 H parts = H (concat parts)"

definition ClearCache :: "'h StorageWrapper \<Rightarrow> 'h StorageWrapper" where
  "ClearCache self = self\<lparr>sw_cache := Map.empty\<rparr>"

text \<open>\<open>Get\<close> calls back with the value, or not at all: \<^const>\<open>None\<close>.\<close>

definition StorageGet :: "'h \<Rightarrow> 'h StorageWrapper \<Rightarrow> bytes option \<times> 'h StorageWrapper" where
  "StorageGet k self =
     (case sw_cache self k of
        Some val \<Rightarrow> (if length val \<noteq> 0 then Some val else None, self)
      | None \<Rightarrow>
          (case sw_db self k of
             None \<Rightarrow> (None, self)
           | Some b \<Rightarrow> (Some b, self\<lparr>sw_cache := (sw_cache self)(k \<mapsto> b)\<rparr>)))"

definition StoragePut :: "'h \<Rightarrow> bytes \<Rightarrow> 'h StorageWrapper \<Rightarrow> 'h StorageWrapper" where
  "StoragePut k v self =
     self\<lparr>sw_cache := (sw_cache self)(k \<mapsto> v), sw_dirty := (sw_dirty self)(k \<mapsto> v)\<rparr>"

text \<open>
  What the end of a block does to the wrapper: the dirty entries reach the database (an empty value
  deletes the key), and \<open>CommitCall\<close> clears the cache.
\<close>

definition StorageCommit :: "'h StorageWrapper \<Rightarrow> 'h StorageWrapper" where
  "StorageCommit self = ClearCache
     (self\<lparr>sw_db := (\<lambda>k. case sw_dirty self k of
                         None \<Rightarrow> sw_db self k
                       | Some v \<Rightarrow> if v = [] then None else Some v),
           sw_dirty := Map.empty\<rparr>)"

subsection \<open>The contract of a key-value store\<close>

text \<open>
  What the components above rely on: a read returns the last value written, and the empty value is
  an absent one. \<open>abs\<close> is the store seen as a function from keys to bytes.
\<close>

type_synonym 'h plain_store = "'h \<Rightarrow> bytes"

definition plain_get :: "'h \<Rightarrow> 'h plain_store \<Rightarrow> bytes option \<times> 'h plain_store" where
  "plain_get k st = (if st k = [] then None else Some (st k), st)"

definition plain_put :: "'h \<Rightarrow> bytes \<Rightarrow> 'h plain_store \<Rightarrow> 'h plain_store" where
  "plain_put k v st = st(k := v)"

datatype 'h storage_op = OpGet 'h | OpPut 'h bytes | OpCommit

fun run_ops :: "('h \<Rightarrow> 's \<Rightarrow> bytes option \<times> 's) \<Rightarrow> ('h \<Rightarrow> bytes \<Rightarrow> 's \<Rightarrow> 's) \<Rightarrow> ('s \<Rightarrow> 's)
    \<Rightarrow> 'h storage_op list \<Rightarrow> 's \<Rightarrow> bytes option list \<times> 's" where
  "run_ops get put com [] s = ([], s)"
| "run_ops get put com (OpGet k # ops) s =
     (let (r, s1) = get k s; (rs, s2) = run_ops get put com ops s1 in (r # rs, s2))"
| "run_ops get put com (OpPut k v # ops) s = run_ops get put com ops (put k v s)"
| "run_ops get put com (OpCommit # ops) s = run_ops get put com ops (com s)"

locale kv_store =
  fixes get :: "'h \<Rightarrow> 's \<Rightarrow> bytes option \<times> 's"
    and put :: "'h \<Rightarrow> bytes \<Rightarrow> 's \<Rightarrow> 's"
    and com :: "'s \<Rightarrow> 's"
    and abs :: "'s \<Rightarrow> 'h plain_store"
    and inv :: "'s \<Rightarrow> bool"
  assumes get_result: "inv s \<Longrightarrow> fst (get k s) = (if abs s k = [] then None else Some (abs s k))"
    and get_abs: "inv s \<Longrightarrow> abs (snd (get k s)) = abs s"
    and get_inv: "inv s \<Longrightarrow> inv (snd (get k s))"
    and put_abs: "inv s \<Longrightarrow> abs (put k v s) = (abs s)(k := v)"
    and put_inv: "inv s \<Longrightarrow> inv (put k v s)"
    and com_abs: "inv s \<Longrightarrow> abs (com s) = abs s"
    and com_inv: "inv s \<Longrightarrow> inv (com s)"
begin

lemma read_own_write:
  assumes "inv s" and "v \<noteq> []"
  shows "fst (get k (put k v s)) = Some v"
  using assms by (simp add: get_result put_abs put_inv)

lemma read_deleted:
  assumes "inv s"
  shows "fst (get k (put k [] s)) = None"
  using assms by (simp add: get_result put_abs put_inv)

lemma read_after_commit:
  assumes "inv s"
  shows "fst (get k (com s)) = fst (get k s)"
  using assms by (simp add: get_result com_abs com_inv)

lemma run_ops_refines:
  assumes "inv s"
  shows "fst (run_ops get put com ops s) = fst (run_ops plain_get plain_put (\<lambda>st. st) ops (abs s))"
  using assms
proof (induction ops arbitrary: s)
  case Nil
  then show ?case by simp
next
  case (Cons op ops)
  show ?case
  proof (cases op)
    case (OpGet k)
    have "fst (run_ops get put com ops (snd (get k s))) =
        fst (run_ops plain_get plain_put (\<lambda>st. st) ops (abs s))"
      using Cons.IH [OF get_inv [OF Cons.prems, of k]] get_abs [OF Cons.prems, of k] by simp
    then show ?thesis
      using OpGet get_result [OF Cons.prems, of k]
      by (simp add: plain_get_def [of k "abs s"] split_beta Let_def)
  next
    case (OpPut k v)
    then show ?thesis
      using Cons.IH [OF put_inv [OF Cons.prems, of k v]] put_abs [OF Cons.prems, of k v]
      by (simp add: plain_put_def)
  next
    case OpCommit
    then show ?thesis
      using Cons.IH [OF com_inv [OF Cons.prems]] com_abs [OF Cons.prems] by simp
  qed
qed

end

subsection \<open>The wrapper keeps the contract\<close>

text \<open>The invariant: what is dirty is cached, what is cached and clean is what the database holds.\<close>

definition sw_coherent :: "'h StorageWrapper \<Rightarrow> bool" where
  "sw_coherent s \<longleftrightarrow>
     (\<forall>k v. sw_dirty s k = Some v \<longrightarrow> sw_cache s k = Some v) \<and>
     (\<forall>k v. sw_cache s k = Some v \<longrightarrow> sw_dirty s k = None \<longrightarrow> sw_db s k = Some v) \<and>
     (\<forall>k. sw_db s k \<noteq> Some [])"

definition sw_abs :: "'h StorageWrapper \<Rightarrow> 'h plain_store" where
  "sw_abs s k =
     (case sw_dirty s k of Some v \<Rightarrow> v | None \<Rightarrow> (case sw_db s k of Some v \<Rightarrow> v | None \<Rightarrow> []))"

definition sw_init :: "('h \<rightharpoonup> bytes) \<Rightarrow> 'h StorageWrapper" where
  "sw_init d = \<lparr>sw_cache = Map.empty, sw_db = d, sw_dirty = Map.empty\<rparr>"

lemma sw_init_coherent: "(\<And>k. d k \<noteq> Some []) \<Longrightarrow> sw_coherent (sw_init d)"
  by (simp add: sw_coherent_def sw_init_def)

lemma sw_get_result:
  assumes "sw_coherent s"
  shows "fst (StorageGet k s) = (if sw_abs s k = [] then None else Some (sw_abs s k))"
proof (cases "sw_cache s k")
  case None
  then have "sw_dirty s k = None" using assms unfolding sw_coherent_def by (metis option.exhaust)
  then show ?thesis
    using None assms by (auto simp: StorageGet_def sw_abs_def sw_coherent_def split: option.splits)
next
  case (Some v)
  then show ?thesis
    using assms by (auto simp: StorageGet_def sw_abs_def sw_coherent_def split: option.splits)
qed

lemma sw_get_cache_cases:
  "snd (StorageGet k s) = s \<or>
   (\<exists>b. sw_cache s k = None \<and> sw_db s k = Some b \<and>
        snd (StorageGet k s) = s\<lparr>sw_cache := (sw_cache s)(k \<mapsto> b)\<rparr>)"
  by (auto simp: StorageGet_def split: option.splits)

lemma sw_get_coherent:
  assumes "sw_coherent s"
  shows "sw_coherent (snd (StorageGet k s))"
  using sw_get_cache_cases [of k s]
proof
  assume "snd (StorageGet k s) = s"
  then show ?thesis using assms by simp
next
  assume "\<exists>b. sw_cache s k = None \<and> sw_db s k = Some b \<and>
        snd (StorageGet k s) = s\<lparr>sw_cache := (sw_cache s)(k \<mapsto> b)\<rparr>"
  then obtain b where b: "sw_cache s k = None" "sw_db s k = Some b"
    "snd (StorageGet k s) = s\<lparr>sw_cache := (sw_cache s)(k \<mapsto> b)\<rparr>" by blast
  have "sw_dirty s k = None"
    using assms b(1) unfolding sw_coherent_def by (metis option.exhaust option.distinct(1))
  then show ?thesis using assms b by (auto simp: sw_coherent_def)
qed

lemma sw_get_abs: "sw_abs (snd (StorageGet k s)) = sw_abs s"
  using sw_get_cache_cases [of k s] by (auto simp: sw_abs_def fun_eq_iff split: option.splits)

interpretation sw: kv_store StorageGet StoragePut StorageCommit sw_abs sw_coherent
proof unfold_locales
  fix s :: "'h StorageWrapper" and k v
  assume s: "sw_coherent s"
  show "fst (StorageGet k s) = (if sw_abs s k = [] then None else Some (sw_abs s k))"
    by (rule sw_get_result [OF s])
  show "sw_abs (snd (StorageGet k s)) = sw_abs s" by (rule sw_get_abs)
  show "sw_coherent (snd (StorageGet k s))" by (rule sw_get_coherent [OF s])
  show "sw_abs (StoragePut k v s) = (sw_abs s)(k := v)"
    by (auto simp: sw_abs_def StoragePut_def fun_eq_iff split: option.splits)
  show "sw_coherent (StoragePut k v s)"
    using s by (auto simp: sw_coherent_def StoragePut_def)
  show "sw_abs (StorageCommit s) = sw_abs s"
    by (auto simp: sw_abs_def StorageCommit_def ClearCache_def fun_eq_iff split: option.splits)
  show "sw_coherent (StorageCommit s)"
    using s by (auto simp: sw_coherent_def StorageCommit_def ClearCache_def split: option.splits)
qed

end
