(* ===== verification/Iterable_Map.thy ===== *)
theory Iterable_Map
  imports Contract_Storage
begin

section \<open>Iterable maps\<close>

text \<open>
  \<open>src/taraxa/state/contracts/storage/iterable_map.go\<close>, \<open>addresses_imap.go\<close> and \<open>ids_imap.go\<close>: a
  set of byte strings that can be iterated over in batches, kept in contract storage as a counter,
  the items by position (positions start at 1, 0 means absent) and the position of every item;
  removal moves the last item into the gap. Two models are related here: the code over hashed
  storage keys, and the sequence of items it stands for, which the contracts above use.
\<close>

subsection \<open>The code over storage\<close>

record 'h IterableMapReader =
  items_storage_prefix :: bytes
  items_count_storage_key :: 'h
  items_pos_storage_prefix :: bytes

definition field_items :: bytes where "field_items = [0]"
definition field_items_count :: bytes where "field_items_count = [1]"
definition field_items_pos :: bytes where "field_items_pos = [2]"

text \<open>
  \<open>Init\<close> appends to the same \<open>prefix\<close> slice twice. When the slice has spare capacity both results
  share one backing array, and the second \<open>append\<close> overwrites the byte the first one wrote;
  \<open>spare\<close> says whether it has.
\<close>

definition IterableMap_Init :: "(bytes \<Rightarrow> 'h) \<Rightarrow> bool \<Rightarrow> bytes \<Rightarrow> 'h IterableMapReader" where
  "IterableMap_Init H spare prefix =
     \<lparr>items_storage_prefix = prefix @ (if spare then field_items_pos else field_items),
      items_count_storage_key = Stor_k_1 H [prefix, field_items_count],
      items_pos_storage_prefix = prefix @ field_items_pos\<rparr>"

definition items_k :: "(bytes \<Rightarrow> 'h) \<Rightarrow> 'h IterableMapReader \<Rightarrow> u32 \<Rightarrow> 'h" where
  "items_k H m pos = Stor_k_1 H [items_storage_prefix m, uint32ToBytes pos]"

definition pos_k :: "(bytes \<Rightarrow> 'h) \<Rightarrow> 'h IterableMapReader \<Rightarrow> bytes \<Rightarrow> 'h" where
  "pos_k H m item = Stor_k_1 H [items_pos_storage_prefix m, item]"

text \<open>Reading a four-byte slot; a shorter value is an index out of range.\<close>

definition get_u32 :: "'h \<Rightarrow> 'h plain_store \<Rightarrow> u32 option" where
  "get_u32 k st = (case fst (plain_get k st) of None \<Rightarrow> Some 0 | Some b \<Rightarrow> bytesToUint32 b)"

definition IMap_GetCount :: "'h IterableMapReader \<Rightarrow> 'h plain_store \<Rightarrow> u32 option" where
  "IMap_GetCount m st = get_u32 (items_count_storage_key m) st"

definition IMap_itemExists ::
    "(bytes \<Rightarrow> 'h) \<Rightarrow> 'h IterableMapReader \<Rightarrow> bytes \<Rightarrow> 'h plain_store \<Rightarrow> (bool \<times> u32) option" where
  "IMap_itemExists H m item st = do { pos \<leftarrow> get_u32 (pos_k H m item) st; Some (pos \<noteq> 0, pos) }"

definition ItemExists ::
    "(bytes \<Rightarrow> 'h) \<Rightarrow> 'h IterableMapReader \<Rightarrow> bytes \<Rightarrow> 'h plain_store \<Rightarrow> bool option" where
  "ItemExists H m item st = do { r \<leftarrow> IMap_itemExists H m item st; Some (fst r) }"

definition CreateItem :: "(bytes \<Rightarrow> 'h) \<Rightarrow> 'h IterableMapReader \<Rightarrow> bytes \<Rightarrow> 'h plain_store
    \<Rightarrow> (u32 \<times> 'h plain_store) option" where
  "CreateItem H m item st = do {
     (item_exists, _) \<leftarrow> IMap_itemExists H m item st;
     holds (\<not> item_exists);
     items_count \<leftarrow> IMap_GetCount m st;
     let new_item_pos = items_count + 1;
     let st1 = plain_put (items_k H m new_item_pos) item st;
     let st2 = plain_put (pos_k H m item) (uint32ToBytes new_item_pos) st1;
     let st3 = plain_put (items_count_storage_key m) (uint32ToBytes new_item_pos) st2;
     Some (new_item_pos, st3)
   }"

definition RemoveItem :: "(bytes \<Rightarrow> 'h) \<Rightarrow> 'h IterableMapReader \<Rightarrow> bytes \<Rightarrow> 'h plain_store
    \<Rightarrow> (u32 \<times> 'h plain_store) option" where
  "RemoveItem H m item st = do {
     items_count \<leftarrow> IMap_GetCount m st;
     holds (items_count \<noteq> 0);
     (item_exists, delete_item_pos) \<leftarrow> IMap_itemExists H m item st;
     holds item_exists;
     if delete_item_pos = items_count then
       (let st1 = plain_put (items_k H m delete_item_pos) [] st;
            st2 = plain_put (pos_k H m item) [] st1;
            st3 = plain_put (items_count_storage_key m) (uint32ToBytes (items_count - 1)) st2
        in Some (items_count - 1, st3))
     else do {
       let last_item_at_pos_k = items_k H m items_count;
       last_item \<leftarrow> fst (plain_get last_item_at_pos_k st);
       let st1 = plain_put (pos_k H m last_item) (uint32ToBytes delete_item_pos) st;
       let st2 = plain_put (items_k H m delete_item_pos) last_item st1;
       let st3 = plain_put (pos_k H m item) [] st2;
       let st4 = plain_put last_item_at_pos_k [] st3;
       let st5 = plain_put (items_count_storage_key m) (uint32ToBytes (items_count - 1)) st4;
       Some (items_count - 1, st5)
     }
   }"

text \<open>
  \<open>GetItems\<close>: the loop runs from \<open>start_idx + 1\<close> while the index is at most \<open>end_idx\<close> and at most
  the count, in 32-bit arithmetic. The result slice has the length the code reserves; every index
  the loop writes has to lie in it, and an item that is not found is a panic.
\<close>

definition get_items_reserved :: "u32 \<Rightarrow> u32 \<Rightarrow> u32 \<Rightarrow> nat" where
  "get_items_reserved start_idx count items_count =
     (if items_count \<le> start_idx + count then unat (items_count - start_idx) else unat count)"

fun get_items_loop :: "(bytes \<Rightarrow> 'h) \<Rightarrow> 'h IterableMapReader \<Rightarrow> 'h plain_store \<Rightarrow> u32 \<Rightarrow> u32 list
    \<Rightarrow> bytes list \<Rightarrow> bytes list option" where
  "get_items_loop H m st start_idx [] result = Some result"
| "get_items_loop H m st start_idx (idx # idxs) result = do {
     item \<leftarrow> fst (plain_get (items_k H m idx) st);
     let i = unat (idx - start_idx - 1);
     holds (i < length result);
     get_items_loop H m st start_idx idxs (result[i := item])
   }"

definition loop_indices :: "u32 \<Rightarrow> u32 \<Rightarrow> u32 list" where
  "loop_indices start_idx stop =
     map (\<lambda>i. of_nat i) [unat (start_idx + 1)..<Suc (unat stop)]"

definition GetItems :: "(bytes \<Rightarrow> 'h) \<Rightarrow> 'h IterableMapReader \<Rightarrow> u32 \<Rightarrow> u32 \<Rightarrow> 'h plain_store
    \<Rightarrow> (bytes list \<times> bool) option" where
  "GetItems H m start_idx count st = do {
     items_count \<leftarrow> IMap_GetCount m st;
     if items_count = 0 then Some ([], True)
     else do {
       let end_idx = start_idx + count;
       if start_idx \<ge> items_count then Some ([], True)
       else do {
         let reserved = replicate (get_items_reserved start_idx count items_count) [];
         result \<leftarrow> get_items_loop H m st start_idx
                     (loop_indices start_idx (min end_idx items_count)) reserved;
         Some (result, items_count \<le> end_idx)
       }
     }
   }"

subsection \<open>The sequence an iterable map stands for\<close>

text \<open>
  The operations on the sequence of items: append a new item, move the last item into the gap of a
  removed one. Creating an item that is there and removing one that is not are panics, as in the
  code. These are the maps of addresses and ids of \<open>AddressesIMap\<close> and \<open>IdsIMap\<close>.
\<close>

definition item_index :: "'a \<Rightarrow> 'a list \<Rightarrow> nat" where
  "item_index x xs = length (takeWhile (\<lambda>y. y \<noteq> x) xs)"

definition swap_remove :: "nat \<Rightarrow> 'a list \<Rightarrow> 'a list" where
  "swap_remove i xs = butlast (xs[i := last xs])"

definition seq_count :: "'a list \<Rightarrow> u32" where
  "seq_count xs = of_nat (length xs)"

definition seq_create :: "'a \<Rightarrow> 'a list \<Rightarrow> (u32 \<times> 'a list) option" where
  "seq_create x xs = (if x \<in> set xs then None else Some (of_nat (Suc (length xs)), xs @ [x]))"

definition seq_remove :: "'a \<Rightarrow> 'a list \<Rightarrow> (u32 \<times> 'a list) option" where
  "seq_remove x xs =
     (if x \<in> set xs then Some (of_nat (length xs - 1), swap_remove (item_index x xs) xs) else None)"

text \<open>
  A batch of items in the code's 32-bit arithmetic: when \<open>start_idx + count\<close> wraps around, the
  slice of \<open>count\<close> entries the code reserves stays empty, shown here by \<^const>\<open>None\<close> entries.
\<close>

definition seq_get_items :: "u32 \<Rightarrow> u32 \<Rightarrow> 'a list \<Rightarrow> 'a option list \<times> bool" where
  "seq_get_items start_idx count xs =
     (if xs = [] \<or> length xs \<le> unat start_idx then ([], True)
      else if unat (start_idx + count) < unat start_idx then (replicate (unat count) None, False)
      else (map Some (take (unat count) (drop (unat start_idx) xs)),
            length xs \<le> unat (start_idx + count)))"

lemma swap_remove_nth:
  assumes "i < length xs" and "j < length xs - 1"
  shows "swap_remove i xs ! j = (if j = i then last xs else xs ! j)"
  using assms by (simp add: swap_remove_def nth_butlast)

lemma length_swap_remove [simp]: "length (swap_remove i xs) = length xs - 1"
  by (simp add: swap_remove_def)

lemma distinct_swap_remove:
  assumes "distinct xs" and "i < length xs"
  shows "distinct (swap_remove i xs)"
  unfolding distinct_conv_nth
proof (intro allI impI)
  fix j k
  assume jk: "j < length (swap_remove i xs)" "k < length (swap_remove i xs)" "j \<noteq> k"
  have l: "last xs = xs ! (length xs - 1)" using assms by (intro last_conv_nth) auto
  show "swap_remove i xs ! j \<noteq> swap_remove i xs ! k"
    using jk assms by (simp add: swap_remove_nth l nth_eq_iff_index_eq)
qed

lemma set_swap_remove:
  assumes "distinct xs" and "i < length xs"
  shows "set (swap_remove i xs) = set xs - {xs ! i}"
proof -
  let ?n = "length xs - 1"
  have l: "last xs = xs ! ?n" using assms by (intro last_conv_nth) auto
  have n: "j < length xs \<longleftrightarrow> j < ?n \<or> j = ?n" for j using assms by auto
  have "set (swap_remove i xs) = (\<lambda>j. if j = i then xs ! ?n else xs ! j) ` {..<?n}"
    using assms l by (force simp: set_conv_nth swap_remove_nth)
  also have "\<dots> = set xs - {xs ! i}"
  proof (cases "i = ?n")
    case True
    then show ?thesis
      using assms n by (fastforce simp: set_conv_nth image_iff nth_eq_iff_index_eq)
  next
    case False
    then have i: "i < ?n" using assms(2) by simp
    show ?thesis
    proof (intro set_eqI iffI)
      fix x assume "x \<in> (\<lambda>j. if j = i then xs ! ?n else xs ! j) ` {..<?n}"
      then obtain j where "j < ?n" "x = (if j = i then xs ! ?n else xs ! j)" by auto
      then show "x \<in> set xs - {xs ! i}"
        using assms i False by (auto simp: nth_eq_iff_index_eq)
    next
      fix x assume "x \<in> set xs - {xs ! i}"
      then obtain j where j: "j < length xs" "x = xs ! j" "j \<noteq> i" by (auto simp: set_conv_nth)
      show "x \<in> (\<lambda>j. if j = i then xs ! ?n else xs ! j) ` {..<?n}"
        by (rule image_eqI [of _ _ "if j = ?n then i else j"]) (use j i n in auto)
    qed
  qed
  finally show ?thesis .
qed

lemma item_index_less: "x \<in> set xs \<Longrightarrow> item_index x xs < length xs"
  by (induction xs) (auto simp: item_index_def)

lemma nth_item_index: "x \<in> set xs \<Longrightarrow> xs ! item_index x xs = x"
  by (induction xs) (auto simp: item_index_def)

lemma item_index_nth: "distinct xs \<Longrightarrow> i < length xs \<Longrightarrow> item_index (xs ! i) xs = i"
  by (metis item_index_less nth_eq_iff_index_eq nth_item_index nth_mem)

subsection \<open>The contract of an iterable set\<close>

locale iterable_set =
  fixes items :: "'s \<Rightarrow> 'a list"
    and inv :: "'s \<Rightarrow> bool"
    and valid :: "'a \<Rightarrow> bool"
    and count :: "'s \<Rightarrow> u32 option"
    and exists :: "'a \<Rightarrow> 's \<Rightarrow> bool option"
    and create :: "'a \<Rightarrow> 's \<Rightarrow> (u32 \<times> 's) option"
    and remove :: "'a \<Rightarrow> 's \<Rightarrow> (u32 \<times> 's) option"
  assumes inv_distinct: "inv s \<Longrightarrow> distinct (items s)"
    and inv_length: "inv s \<Longrightarrow> length (items s) < 2 ^ 32 - 1"
    and count_items: "inv s \<Longrightarrow> count s = Some (of_nat (length (items s)))"
    and exists_items: "inv s \<Longrightarrow> valid x \<Longrightarrow> exists x s = Some (x \<in> set (items s))"
    and create_panics: "inv s \<Longrightarrow> valid x \<Longrightarrow> x \<in> set (items s) \<Longrightarrow> create x s = None"
    and create_appends: "inv s \<Longrightarrow> valid x \<Longrightarrow> x \<notin> set (items s) \<Longrightarrow> length (items s) + 1 < 2 ^ 32 - 1
      \<Longrightarrow> \<exists>s'. create x s = Some (of_nat (Suc (length (items s))), s') \<and> inv s' \<and>
            items s' = items s @ [x]"
    and remove_panics: "inv s \<Longrightarrow> valid x \<Longrightarrow> x \<notin> set (items s) \<Longrightarrow> remove x s = None"
    and remove_swaps: "inv s \<Longrightarrow> valid x \<Longrightarrow> x \<in> set (items s)
      \<Longrightarrow> \<exists>s'. remove x s = Some (of_nat (length (items s) - 1), s') \<and> inv s' \<and>
            items s' = swap_remove (item_index x (items s)) (items s)"
begin

lemma exists_after_create:
  assumes "inv s" "valid x" "valid y" "x \<notin> set (items s)" "length (items s) + 1 < 2 ^ 32 - 1"
  obtains s' where "create x s = Some (of_nat (Suc (length (items s))), s')" "inv s'"
    "exists y s' = Some (y = x \<or> y \<in> set (items s))"
proof -
  from create_appends [OF assms(1,2,4,5)] obtain s' where
    "create x s = Some (of_nat (Suc (length (items s))), s')" "inv s'" "items s' = items s @ [x]"
    by blast
  with exists_items [OF \<open>inv s'\<close> \<open>valid y\<close>] that show ?thesis by auto
qed

lemma items_after_remove:
  assumes "inv s" "valid x" "x \<in> set (items s)"
  obtains s' where "remove x s = Some (of_nat (length (items s) - 1), s')" "inv s'"
    "set (items s') = set (items s) - {x}" "length (items s') = length (items s) - 1"
proof -
  from remove_swaps [OF assms] obtain s' where s': "remove x s = Some (of_nat (length (items s) - 1), s')"
    "inv s'" "items s' = swap_remove (item_index x (items s)) (items s)" by blast
  have "set (items s') = set (items s) - {x}"
    using s'(3) set_swap_remove [OF inv_distinct [OF assms(1)] item_index_less [OF assms(3)]]
      nth_item_index [OF assms(3)] by simp
  with s' that show ?thesis by simp
qed

lemma create_remove_roundtrip:
  assumes "inv s" "valid x" "x \<notin> set (items s)" "length (items s) + 1 < 2 ^ 32 - 1"
  obtains c s1 s2 where "create x s = Some (c, s1)" "remove x s1 = Some (c - 1, s2)" "inv s2"
    "items s2 = items s"
proof -
  from create_appends [OF assms] obtain s1 where
    s1: "create x s = Some (of_nat (Suc (length (items s))), s1)" "inv s1" "items s1 = items s @ [x]"
    by blast
  from remove_swaps [OF s1(2) assms(2)] s1(3) obtain s2 where
    s2: "remove x s1 = Some (of_nat (length (items s)), s2)" "inv s2"
      "items s2 = swap_remove (item_index x (items s1)) (items s1)" by auto
  have "item_index x (items s @ [x]) = length (items s)"
    using assms(3) by (simp add: item_index_def takeWhile_append)
  with s1(3) s2(3) have "items s2 = items s" by (simp add: swap_remove_def)
  with s1 s2 show ?thesis by (intro that [of "of_nat (Suc (length (items s)))" s1 s2]) auto
qed

end

subsection \<open>The sequence keeps the contract\<close>

definition seq_inv :: "'a list \<Rightarrow> bool" where
  "seq_inv xs \<longleftrightarrow> distinct xs \<and> length xs < 2 ^ 32 - 1"

definition seq_exists :: "'a \<Rightarrow> 'a list \<Rightarrow> bool option" where
  "seq_exists x xs = Some (x \<in> set xs)"

interpretation seq: iterable_set "\<lambda>xs. xs" seq_inv "\<lambda>_. True" "\<lambda>xs. Some (seq_count xs)" seq_exists
  seq_create seq_remove
  by unfold_locales
    (auto simp: seq_inv_def seq_count_def seq_exists_def seq_create_def seq_remove_def
      distinct_swap_remove item_index_less)

end
