(* ===== verification/Iterable_Map_Refinement.thy ===== *)
theory Iterable_Map_Refinement
  imports Iterable_Map
begin

section \<open>Iterable maps over hashed storage keys refine sequences\<close>

text \<open>
  The code of \<open>iterable_map.go\<close> over storage keeps the contract \<open>iterable_set\<close>, for items of a fixed
  length (20 bytes for addresses, 8 for ids), whether or not the two prefixes share their backing
  array. The only assumption on the hash is that it has no collision on the keys of this map; it
  is part of the invariant.
\<close>

definition imap_preimages :: "bool \<Rightarrow> bytes \<Rightarrow> nat \<Rightarrow> bytes set" where
  "imap_preimages spare prefix n =
     {prefix @ field_items_count} \<union>
     range (\<lambda>p. prefix @ (if spare then field_items_pos else field_items) @ uint32ToBytes p) \<union>
     (\<lambda>item. prefix @ field_items_pos @ item) ` {item. length item = n}"

definition imap_items :: "(bytes \<Rightarrow> 'h) \<Rightarrow> 'h IterableMapReader \<Rightarrow> 'h plain_store \<Rightarrow> bytes list" where
  "imap_items H m st =
     (case IMap_GetCount m st of
        None \<Rightarrow> []
      | Some c \<Rightarrow> map (\<lambda>i. st (items_k H m (of_nat (Suc i)))) [0..<unat c])"

definition imap_repr ::
    "(bytes \<Rightarrow> 'h) \<Rightarrow> 'h IterableMapReader \<Rightarrow> nat \<Rightarrow> 'h plain_store \<Rightarrow> bytes list \<Rightarrow> bool" where
  "imap_repr H m n st xs \<longleftrightarrow>
     distinct xs \<and> (\<forall>x\<in>set xs. length x = n) \<and> length xs < 2 ^ 32 - 1 \<and>
     IMap_GetCount m st = Some (of_nat (length xs)) \<and>
     (\<forall>i<length xs. st (items_k H m (of_nat (Suc i))) = xs ! i) \<and>
     (\<forall>i<length xs. st (pos_k H m (xs ! i)) = uint32ToBytes (of_nat (Suc i))) \<and>
     (\<forall>item. length item = n \<longrightarrow> item \<notin> set xs \<longrightarrow> st (pos_k H m item) = [])"

definition imap_inv :: "(bytes \<Rightarrow> 'h) \<Rightarrow> bool \<Rightarrow> bytes \<Rightarrow> nat \<Rightarrow> 'h plain_store \<Rightarrow> bool" where
  "imap_inv H spare prefix n st \<longleftrightarrow>
     inj_on H (imap_preimages spare prefix n) \<and> 0 < n \<and> (spare \<longrightarrow> n \<noteq> 4) \<and>
     (\<exists>xs. imap_repr H (IterableMap_Init H spare prefix) n st xs)"

subsection \<open>Keys do not collide\<close>

lemma imap_key_defs:
  "items_k H (IterableMap_Init H spare prefix) p =
     H (prefix @ (if spare then field_items_pos else field_items) @ uint32ToBytes p)"
  "pos_k H (IterableMap_Init H spare prefix) item = H (prefix @ field_items_pos @ item)"
  "items_count_storage_key (IterableMap_Init H spare prefix) = H (prefix @ field_items_count)"
  by (auto simp: items_k_def pos_k_def IterableMap_Init_def Stor_k_1_def)

lemma imap_preimagesI:
  "prefix @ field_items_count \<in> imap_preimages spare prefix n"
  "prefix @ (if spare then field_items_pos else field_items) @ uint32ToBytes p \<in> imap_preimages spare prefix n"
  "length item = n \<Longrightarrow> prefix @ field_items_pos @ item \<in> imap_preimages spare prefix n"
  by (auto simp: imap_preimages_def)

lemma imap_keys_distinct:
  assumes "inj_on H (imap_preimages spare prefix n)" and "spare \<longrightarrow> n \<noteq> 4"
  defines "m \<equiv> IterableMap_Init H spare prefix"
  shows "items_k H m p = items_k H m q \<longleftrightarrow> p = q"
    and "length x = n \<Longrightarrow> length y = n \<Longrightarrow> pos_k H m x = pos_k H m y \<longleftrightarrow> x = y"
    and "length x = n \<Longrightarrow> items_k H m p \<noteq> pos_k H m x"
    and "items_k H m p \<noteq> items_count_storage_key m"
    and "length x = n \<Longrightarrow> pos_k H m x \<noteq> items_count_storage_key m"
proof -
  note eq = inj_on_eq_iff [OF assms(1)]
  show "items_k H m p = items_k H m q \<longleftrightarrow> p = q"
    unfolding m_def imap_key_defs by (subst eq) (simp_all only: imap_preimagesI, simp)
  show "pos_k H m x = pos_k H m y \<longleftrightarrow> x = y" if "length x = n" "length y = n"
    unfolding m_def imap_key_defs using that by (subst eq) (simp_all add: imap_preimagesI)
  show "items_k H m p \<noteq> pos_k H m x" if "length x = n"
  proof
    assume "items_k H m p = pos_k H m x"
    then have e: "(if spare then field_items_pos else field_items) @ uint32ToBytes p = field_items_pos @ x"
      unfolding m_def imap_key_defs
      by (subst (asm) eq) (use that in \<open>simp_all only: imap_preimagesI same_append_eq\<close>)
    show False
    proof (cases spare)
      case True
      with e have "uint32ToBytes p = x" by simp
      then have "length x = 4" by auto
      with True that assms(2) show False by simp
    next
      case False
      with e show False by (simp add: field_items_def field_items_pos_def)
    qed
  qed
  show "items_k H m p \<noteq> items_count_storage_key m"
    unfolding m_def imap_key_defs
    by (subst eq)
      (simp_all only: imap_preimagesI, auto simp: field_items_pos_def field_items_def field_items_count_def)
  show "pos_k H m x \<noteq> items_count_storage_key m" if "length x = n"
    unfolding m_def imap_key_defs using that
    by (subst eq) (simp_all only: imap_preimagesI, simp add: field_items_pos_def field_items_count_def)
qed

subsection \<open>Reading the representation\<close>

lemma get_u32_slot: "st k = uint32ToBytes v \<Longrightarrow> get_u32 k st = Some v"
  by (simp add: get_u32_def plain_get_def uint32_roundtrip)

lemma get_u32_empty: "st k = [] \<Longrightarrow> get_u32 k st = Some 0"
  by (simp add: get_u32_def plain_get_def)

lemma unat_of_nat_u32: "n < 2 ^ 32 \<Longrightarrow> unat (of_nat n :: u32) = n"
  by (simp add: unat_of_nat)

lemma of_nat_u32_eq: "a < 2 ^ 32 \<Longrightarrow> b < 2 ^ 32 \<Longrightarrow> (of_nat a :: u32) = of_nat b \<longleftrightarrow> a = b"
  by (metis unat_of_nat_u32)

lemma imap_items_repr:
  assumes "imap_repr H m n st xs"
  shows "imap_items H m st = xs"
proof -
  have "unat (of_nat (length xs) :: u32) = length xs"
    using assms by (intro unat_of_nat_u32) (simp add: imap_repr_def)
  then show ?thesis
    using assms by (auto simp: imap_items_def imap_repr_def intro!: nth_equalityI)
qed

lemma imap_exists_repr:
  assumes r: "imap_repr H m n st xs" and "length x = n"
  shows "x \<in> set xs \<Longrightarrow> IMap_itemExists H m x st = Some (True, of_nat (Suc (item_index x xs)))"
    and "x \<notin> set xs \<Longrightarrow> IMap_itemExists H m x st = Some (False, 0)"
proof -
  assume x: "x \<in> set xs"
  let ?i = "item_index x xs"
  have i: "?i < length xs" "xs ! ?i = x" using x by (simp_all add: item_index_less nth_item_index)
  then have "st (pos_k H m x) = uint32ToBytes (of_nat (Suc ?i))"
    using r unfolding imap_repr_def by metis
  moreover have "(of_nat (Suc ?i) :: u32) \<noteq> 0"
    using r i(1) of_nat_u32_eq [of "Suc ?i" 0] by (simp add: imap_repr_def)
  ultimately show "IMap_itemExists H m x st = Some (True, of_nat (Suc ?i))"
    by (simp add: IMap_itemExists_def get_u32_slot)
next
  assume "x \<notin> set xs"
  then have "st (pos_k H m x) = []" using assms by (simp add: imap_repr_def)
  then show "IMap_itemExists H m x st = Some (False, 0)"
    by (simp add: IMap_itemExists_def get_u32_empty)
qed

subsection \<open>Creating and removing\<close>

lemma imap_keys_in:
  fixes H spare prefix n
  defines "m \<equiv> IterableMap_Init H spare prefix"
  shows "items_k H m p \<in> H ` imap_preimages spare prefix n"
    and "length x = n \<Longrightarrow> pos_k H m x \<in> H ` imap_preimages spare prefix n"
    and "items_count_storage_key m \<in> H ` imap_preimages spare prefix n"
  unfolding m_def imap_key_defs by (intro imageI imap_preimagesI; assumption)+

lemma create_repr:
  assumes inj: "inj_on H (imap_preimages spare prefix n)" and n4: "spare \<longrightarrow> n \<noteq> 4"
    and r: "imap_repr H m n st xs" and m: "m = IterableMap_Init H spare prefix"
    and x: "length x = n" "x \<notin> set xs" and room: "length xs + 1 < 2 ^ 32 - 1"
  obtains st' where "CreateItem H m x st = Some (of_nat (Suc (length xs)), st')"
    "imap_repr H m n st' (xs @ [x])"
    "\<And>k. k \<notin> H ` imap_preimages spare prefix n \<Longrightarrow> st' k = st k"
proof -
  note keys = imap_keys_distinct [OF inj n4, folded m]
  let ?c = "of_nat (Suc (length xs)) :: u32"
  let ?st = "st(items_k H m ?c := x, pos_k H m x := uint32ToBytes ?c,
    items_count_storage_key m := uint32ToBytes ?c)"
  have cnt: "IMap_GetCount m st = Some (of_nat (length xs))" using r by (simp add: imap_repr_def)
  have "CreateItem H m x st = Some (?c, ?st)"
    by (simp add: CreateItem_def imap_exists_repr(2) [OF r x] cnt plain_put_def add.commute Let_def)
  moreover have "imap_repr H m n ?st (xs @ [x])"
    unfolding imap_repr_def
  proof (intro conjI allI ballI impI)
    show "distinct (xs @ [x])" using r x by (simp add: imap_repr_def)
    show "length y = n" if "y \<in> set (xs @ [x])" for y using that r x by (auto simp: imap_repr_def)
    show "length (xs @ [x]) < 2 ^ 32 - 1" using room by simp
    show "IMap_GetCount m ?st = Some (of_nat (length (xs @ [x])))"
      by (simp add: IMap_GetCount_def get_u32_slot)
    fix i assume i: "i < length (xs @ [x])"
    have c: "(of_nat (Suc i) :: u32) = ?c \<longleftrightarrow> i = length xs"
      using i room by (subst of_nat_u32_eq) auto
    have ln: "i < length xs \<Longrightarrow> length (xs ! i) = n" using r by (auto simp: imap_repr_def)
    show "?st (items_k H m (of_nat (Suc i))) = (xs @ [x]) ! i"
      using i r c by (auto simp: keys x nth_append imap_repr_def simp del: of_nat_Suc)
    show "?st (pos_k H m ((xs @ [x]) ! i)) = uint32ToBytes (of_nat (Suc i))"
    proof (cases "i = length xs")
      case True
      then show ?thesis by (simp add: keys x del: of_nat_Suc)
    next
      case False
      then have il: "i < length xs" using i by simp
      then have "xs ! i \<noteq> x" using x by auto
      then show ?thesis
        using il r ln keys(2) [OF ln [OF il] x(1)] keys(3) [OF ln [OF il], THEN not_sym] keys(5) [OF ln [OF il]]
        by (auto simp: nth_append imap_repr_def simp del: of_nat_Suc)
    qed
  next
    fix item assume item: "length item = n" "item \<notin> set (xs @ [x])"
    then show "?st (pos_k H m item) = []"
      using r keys(2) [OF item(1) x(1)] keys(3) [OF item(1), THEN not_sym] keys(5) [OF item(1)]
      by (auto simp: imap_repr_def simp del: of_nat_Suc)
  qed
  moreover have "?st k = st k" if "k \<notin> H ` imap_preimages spare prefix n" for k
    using that x imap_keys_in [where H = H and spare = spare and prefix = prefix and n = n]
    unfolding m by auto
  ultimately show ?thesis by (rule that)
qed

text \<open>The storage after a removal, in both of the code's branches.\<close>

definition removed_store :: "(bytes \<Rightarrow> 'h) \<Rightarrow> 'h IterableMapReader \<Rightarrow> nat \<Rightarrow> bytes list
    \<Rightarrow> 'h plain_store \<Rightarrow> 'h plain_store" where
  "removed_store H m i xs st =
     (let d = of_nat (Suc i); c = of_nat (length xs);
          st1 = (if Suc i = length xs then st(items_k H m d := [])
                 else st(pos_k H m (last xs) := uint32ToBytes d, items_k H m d := last xs))
      in st1(pos_k H m (xs ! i) := [], items_k H m c := [],
             items_count_storage_key m := uint32ToBytes (of_nat (length xs - 1))))"

lemma remove_computes:
  assumes inj: "inj_on H (imap_preimages spare prefix n)" and n4: "spare \<longrightarrow> n \<noteq> 4" and n0: "0 < n"
    and r: "imap_repr H m n st xs" and m: "m = IterableMap_Init H spare prefix"
    and x: "length x = n" "x \<in> set xs"
  shows "RemoveItem H m x st =
    Some (of_nat (length xs - 1), removed_store H m (item_index x xs) xs st)"
proof -
  let ?i = "item_index x xs"
  have i: "?i < length xs" "xs ! ?i = x" using x by (simp_all add: item_index_less nth_item_index)
  have ne: "xs \<noteq> []" and small: "length xs < 2 ^ 32 - 1" using i r by (auto simp: imap_repr_def)
  have cnt: "IMap_GetCount m st = Some (of_nat (length xs))" using r by (simp add: imap_repr_def)
  have c0: "(of_nat (length xs) :: u32) \<noteq> 0"
    using of_nat_u32_eq [of "length xs" 0] ne small by simp
  have dc: "(of_nat (Suc ?i) :: u32) = of_nat (length xs) \<longleftrightarrow> Suc ?i = length xs"
    using i small by (subst of_nat_u32_eq) auto
  have pred: "(of_nat (length xs) - 1 :: u32) = of_nat (length xs - 1)"
    using ne by (cases xs) simp_all
  have "Suc (length xs - 1) = length xs" and "length xs - 1 < length xs" using ne by simp_all
  then have lastx: "st (items_k H m (of_nat (length xs))) = last xs"
    using r ne unfolding imap_repr_def by (metis last_conv_nth)
  note twist = fun_upd_twist [OF imap_keys_distinct(3) [OF inj n4 x(1), folded m]]
  have "length (last xs) = n" using r ne by (simp add: imap_repr_def)
  then have "last xs \<noteq> []" using n0 by auto
  then have getlast: "fst (plain_get (items_k H m (of_nat (length xs))) st) = Some (last xs)"
    by (simp add: plain_get_def lastx)
  show ?thesis
  proof (cases "Suc ?i = length xs")
    case True
    then show ?thesis
      using dc c0 i
      by (simp add: RemoveItem_def cnt imap_exists_repr(1) [OF r x] removed_store_def Let_def
          plain_put_def pred twist del: of_nat_Suc)
  next
    case False
    then show ?thesis
      using dc c0 i
      by (simp add: RemoveItem_def cnt imap_exists_repr(1) [OF r x] removed_store_def Let_def
          plain_put_def pred getlast del: of_nat_Suc)
  qed
qed

lemma removed_store_repr:
  assumes inj: "inj_on H (imap_preimages spare prefix n)" and n4: "spare \<longrightarrow> n \<noteq> 4"
    and r: "imap_repr H m n st xs" and m: "m = IterableMap_Init H spare prefix"
    and i: "i < length xs"
  shows "imap_repr H m n (removed_store H m i xs st) (swap_remove i xs)"
proof -
  note keys = imap_keys_distinct [OF inj n4, folded m]
  let ?st = "removed_store H m i xs st" and ?xs = "swap_remove i xs" and ?n = "length xs - 1"
  have dist: "distinct xs" and len: "\<And>y. y \<in> set xs \<Longrightarrow> length y = n" and small: "length xs < 2 ^ 32 - 1"
    and it: "\<And>j. j < length xs \<Longrightarrow> st (items_k H m (of_nat (Suc j))) = xs ! j"
    and po: "\<And>j. j < length xs \<Longrightarrow> st (pos_k H m (xs ! j)) = uint32ToBytes (of_nat (Suc j))"
    and ab: "\<And>y. length y = n \<Longrightarrow> y \<notin> set xs \<Longrightarrow> st (pos_k H m y) = []"
    using r by (auto simp: imap_repr_def)
  have l: "last xs = xs ! ?n" and lset: "last xs \<in> set xs" using i by (cases "xs = []"; simp add: last_conv_nth)+
  have ll: "length (last xs) = n" and lx: "length (xs ! i) = n" using len lset i by auto
  have idx: "(of_nat (Suc j) :: u32) = of_nat (Suc k) \<longleftrightarrow> j = k" if "j < length xs" "k < length xs" for j k
    using that small by (subst of_nat_u32_eq) auto
  have cs: "(of_nat (length xs) :: u32) = of_nat (Suc ?n)" using i by simp
  have st_items: "?st (items_k H m (of_nat (Suc j))) = (if j = i then last xs else xs ! j)" if "j < ?n" for j
    using that i it idx [of j i] idx [of j ?n] keys(1,4) keys(3) [OF ll] keys(3) [OF lx]
    by (auto simp: removed_store_def Let_def cs simp del: of_nat_Suc)
  have st_pos: "?st (pos_k H m y) = (if y = xs ! i then [] else if y = last xs then uint32ToBytes (of_nat (Suc i))
      else st (pos_k H m y))" if "length y = n" for y
  proof (cases "Suc i = length xs")
    case True
    then have "i = ?n" by simp
    then have "last xs = xs ! i" using l by simp
    with True show ?thesis
      using keys(2) [OF that lx] keys(3) [OF that, THEN not_sym] keys(5) [OF that]
      by (simp add: removed_store_def Let_def del: of_nat_Suc)
  next
    case False
    then show ?thesis
      using keys(2) [OF that lx] keys(2) [OF that ll] keys(3) [OF that, THEN not_sym] keys(5) [OF that]
      by (simp add: removed_store_def Let_def del: of_nat_Suc)
  qed
  show ?thesis
    unfolding imap_repr_def
  proof (intro conjI allI ballI impI)
    show "distinct ?xs" by (rule distinct_swap_remove [OF dist i])
    show "length y = n" if "y \<in> set ?xs" for y using that len set_swap_remove [OF dist i] by auto
    show "length ?xs < 2 ^ 32 - 1" using small by simp
    show "IMap_GetCount m ?st = Some (of_nat (length ?xs))"
      by (simp add: IMap_GetCount_def removed_store_def Let_def get_u32_slot)
    fix j assume "j < length ?xs"
    then have j: "j < ?n" by simp
    show "?st (items_k H m (of_nat (Suc j))) = ?xs ! j"
      using st_items [OF j] swap_remove_nth [OF i j] by simp
    have "xs ! j \<noteq> last xs" using j l dist by (simp add: nth_eq_iff_index_eq)
    moreover have "j \<noteq> i \<Longrightarrow> xs ! j \<noteq> xs ! i" using j i dist by (simp add: nth_eq_iff_index_eq)
    moreover have "j = i \<Longrightarrow> last xs \<noteq> xs ! i" using j i l dist by (simp add: nth_eq_iff_index_eq)
    ultimately show "?st (pos_k H m (?xs ! j)) = uint32ToBytes (of_nat (Suc j))"
      using st_pos [OF ll] st_pos [of "xs ! j"] len [of "xs ! j"] po [of j] j swap_remove_nth [OF i j] by auto
  next
    fix item assume "length item = n" "item \<notin> set ?xs"
    then show "?st (pos_k H m item) = []"
      using st_pos ab set_swap_remove [OF dist i] lset by auto
  qed
qed

lemma imap_invD:
  assumes "imap_inv H spare prefix n st"
  shows "inj_on H (imap_preimages spare prefix n)" "spare \<longrightarrow> n \<noteq> 4" "0 < n"
    "imap_repr H (IterableMap_Init H spare prefix) n st (imap_items H (IterableMap_Init H spare prefix) st)"
  using assms imap_items_repr unfolding imap_inv_def by fastforce+

lemma imap_invI:
  assumes "inj_on H (imap_preimages spare prefix n)" "spare \<longrightarrow> n \<noteq> 4" "0 < n"
    "imap_repr H (IterableMap_Init H spare prefix) n st xs"
  shows "imap_inv H spare prefix n st"
  using assms unfolding imap_inv_def by blast

subsection \<open>The code keeps the contract\<close>

interpretation imap: iterable_set
  "imap_items H (IterableMap_Init H spare prefix)" "imap_inv H spare prefix n" "\<lambda>x. length x = n"
  "IMap_GetCount (IterableMap_Init H spare prefix)" "ItemExists H (IterableMap_Init H spare prefix)"
  "CreateItem H (IterableMap_Init H spare prefix)" "RemoveItem H (IterableMap_Init H spare prefix)"
  for H :: "bytes \<Rightarrow> 'h" and spare prefix n
proof unfold_locales
  let ?m = "IterableMap_Init H spare prefix"
  fix s and x :: bytes
  assume s: "imap_inv H spare prefix n s"
  note d = imap_invD [OF s]
  let ?xs = "imap_items H ?m s"
  show "distinct ?xs" "length ?xs < 2 ^ 32 - 1" "IMap_GetCount ?m s = Some (of_nat (length ?xs))"
    using d(4) by (auto simp: imap_repr_def)
  assume x: "length x = n"
  show "ItemExists H ?m x s = Some (x \<in> set ?xs)"
    using imap_exists_repr [OF d(4) x] by (cases "x \<in> set ?xs") (auto simp: ItemExists_def)
  show "CreateItem H ?m x s = None" if "x \<in> set ?xs"
    using imap_exists_repr(1) [OF d(4) x that] by (simp add: CreateItem_def)
  show "\<exists>s'. CreateItem H ?m x s = Some (of_nat (Suc (length ?xs)), s') \<and> imap_inv H spare prefix n s' \<and>
      imap_items H ?m s' = ?xs @ [x]" if "x \<notin> set ?xs" "length ?xs + 1 < 2 ^ 32 - 1"
    by (rule create_repr [OF d(1,2,4) refl x that])
      (use imap_invI [OF d(1-3)] imap_items_repr in blast)
  show "RemoveItem H ?m x s = None" if "x \<notin> set ?xs"
    using imap_exists_repr(2) [OF d(4) x that] d(4)
    by (simp add: RemoveItem_def imap_repr_def bind_eq_None_conv holds_def)
  show "\<exists>s'. RemoveItem H ?m x s = Some (of_nat (length ?xs - 1), s') \<and> imap_inv H spare prefix n s' \<and>
      imap_items H ?m s' = swap_remove (item_index x ?xs) ?xs" if "x \<in> set ?xs"
    using remove_computes [OF d(1-4) refl x that]
      removed_store_repr [OF d(1,2,4) refl item_index_less [OF that]]
    by (blast intro: imap_invI [OF d(1-3)] imap_items_repr)
qed

subsection \<open>Batches\<close>

lemma get_items_loop_fills:
  assumes items: "\<And>j. j < length xs \<Longrightarrow> fst (plain_get (items_k H m (of_nat (Suc j))) st) = Some (xs ! j)"
    and "start \<le> a" "a \<le> b" "b \<le> length xs" "length xs < 2 ^ 32 - 1" "length res = b - start"
  shows "get_items_loop H m st (of_nat start) (map of_nat [Suc a..<Suc b]) res =
    Some (take (a - start) res @ map ((!) xs) [a..<b])"
  using assms(2-)
proof (induction "b - a" arbitrary: a res)
  case 0
  then show ?case by simp
next
  case (Suc k)
  then have ab: "a < b" by simp
  have "(of_nat (Suc a) - of_nat start - 1 :: u32) = of_nat (a - start)"
    using Suc.prems(1) by (simp add: of_nat_diff)
  then have i: "unat (of_nat (Suc a) - of_nat start - 1 :: u32) = a - start"
    using Suc.prems by (simp add: unat_of_nat_u32 del: of_nat_Suc of_nat_diff)
  have "get_items_loop H m st (of_nat start) (map of_nat [Suc (Suc a)..<Suc b]) (res[a - start := xs ! a]) =
      Some (take (Suc a - start) (res[a - start := xs ! a]) @ map ((!) xs) [Suc a..<b])"
    using Suc.prems Suc.hyps(2) ab by (intro Suc.hyps(1)) auto
  moreover have "take (Suc a - start) (res[a - start := xs ! a]) = take (a - start) res @ [xs ! a]"
    using Suc.prems ab by (simp add: Suc_diff_le take_Suc_conv_app_nth)
  moreover have "[Suc a..<Suc b] = Suc a # [Suc (Suc a)..<Suc b]" "[a..<b] = a # [Suc a..<b]"
    using ab by (simp_all add: upt_conv_Cons)
  moreover have "a - start < length res" using Suc.prems ab by simp
  ultimately show ?case
    using items [of a] Suc.prems ab i by (simp add: Let_def del: upt_Suc of_nat_Suc)
qed

lemma map_nth_slice: "map ((!) xs) [s..<min (s + c) (length xs)] = take c (drop s xs)"
  by (rule nth_equalityI) (auto simp: less_diff_conv add.commute)

lemma GetItems_computes:
  assumes inv: "imap_inv H spare prefix n st" and fits: "unat start_idx + unat count < 2 ^ 32"
  defines "m \<equiv> IterableMap_Init H spare prefix"
  defines "xs \<equiv> imap_items H m st"
  shows "GetItems H m start_idx count st =
    Some (take (unat count) (drop (unat start_idx) xs), length xs \<le> unat start_idx + unat count)"
proof -
  note d = imap_invD [OF inv, folded m_def, folded xs_def]
  have small: "length xs < 2 ^ 32 - 1" and cnt: "IMap_GetCount m st = Some (of_nat (length xs))"
    using d(4) by (auto simp: imap_repr_def)
  have ulen: "unat (of_nat (length xs) :: u32) = length xs" using small by (intro unat_of_nat_u32) simp
  have uend: "unat (start_idx + count) = unat start_idx + unat count"
    using fits by (simp add: unat_word_ariths)
  have le_iff: "(of_nat (length xs) \<le> start_idx) \<longleftrightarrow> length xs \<le> unat start_idx"
    "(of_nat (length xs) \<le> start_idx + count) \<longleftrightarrow> length xs \<le> unat start_idx + unat count"
    by (simp_all only: word_le_nat_alt ulen uend)
  have zero: "(of_nat (length xs) :: u32) = 0 \<longleftrightarrow> xs = []"
    using of_nat_u32_eq [of "length xs" 0] small by simp
  show ?thesis
  proof (cases "xs = [] \<or> length xs \<le> unat start_idx")
    case True
    then show ?thesis using zero le_iff by (auto simp: GetItems_def cnt Let_def)
  next
    case False
    let ?s = "unat start_idx" and ?b = "min (unat start_idx + unat count) (length xs)"
    have items: "fst (plain_get (items_k H m (of_nat (Suc j))) st) = Some (xs ! j)" if "j < length xs" for j
    proof -
      have "st (items_k H m (of_nat (Suc j))) = xs ! j" "length (xs ! j) = n"
        using that d(4) by (auto simp: imap_repr_def)
      then show ?thesis using d(3) by (auto simp: plain_get_def)
    qed
    have s1: "unat (start_idx + 1) = Suc ?s"
      using False small by (simp add: unat_word_ariths)
    have stop: "unat (min (start_idx + count) (of_nat (length xs))) = ?b"
      by (auto simp: min_def le_iff word_le_nat_alt uend ulen)
    have res: "get_items_reserved start_idx count (of_nat (length xs)) = ?b - ?s"
      using False ulen by (auto simp: get_items_reserved_def le_iff unat_sub word_le_nat_alt min_def uend)
    have "get_items_loop H m st (of_nat ?s) (map of_nat [Suc ?s..<Suc ?b]) (replicate (?b - ?s) []) =
        Some (map ((!) xs) [?s..<?b])"
      using False small by (subst get_items_loop_fills [OF items]) auto
    moreover note map_nth_slice [of xs ?s "unat count"]
    ultimately show ?thesis
      using False zero by (simp add: GetItems_def cnt Let_def le_iff loop_indices_def s1 stop res del: upt_Suc)
  qed
qed

end
