(* ===== verification/Storage_Properties.thy ===== *)
theory Storage_Properties
  imports Contract_Storage Iterable_Map_Refinement Byte_Codecs
begin

section \<open>What the contracts' storage promises\<close>

text \<open>
  The properties of the storage layer under the two contracts: the caching wrapper, the map with
  iteration order that is laid over it, and the encodings of the values it keeps.
\<close>

subsection \<open>The encodings\<close>

text \<open>C23: the integers kept in storage survive their encodings: little endian in the iterable maps,
  big endian and compact big endian (whatever the number of leading zero bytes) elsewhere.\<close>

theorem integer_encodings_roundtrip:
  "bytesToUint32 (uint32ToBytes m) = Some m \<and> BytesToUint64 (Uint64ToBytes n) = Some n \<and>
   DEC_b_endian_64 (ENC_b_endian_64 n) = Some n \<and>
   DEC_b_endian_compact_64 (ENC_b_endian_compact_64_1 n) = Some n \<and> be_decode (BlockToBytes n) = n \<and>
   BytesToAddress (address_Bytes a) = a"
  by (simp add: uint32_roundtrip Uint64_roundtrip b_endian_64_roundtrip b_endian_compact_64_roundtrip
      BlockToBytes_decode address_roundtrip)

subsection \<open>The caching wrapper\<close>

text \<open>C20: a program of reads, writes and commits cannot tell the wrapper with its cache from a plain map of
  keys to values in which the empty value means absence.\<close>

theorem wrapper_refines_plain_store:
  assumes "sw_coherent s"
  shows "fst (run_ops StorageGet StoragePut StorageCommit ops s) =
    fst (run_ops plain_get plain_put (\<lambda>st. st) ops (sw_abs s))"
  by (rule sw.run_ops_refines [OF assms])

theorem wrapper_refines_plain_store_witness:
  "fst (run_ops StorageGet StoragePut StorageCommit
      [OpGet 1, OpPut 1 [7], OpGet 1, OpCommit, OpGet 1, OpPut 1 [], OpGet (1::nat)] (sw_init [1 \<mapsto> [5]])) =
    [Some [5], Some [7], Some [7], None]"
proof -
  have c: "sw_coherent (sw_init [1::nat \<mapsto> [5]])" by (rule sw_init_coherent) simp
  show ?thesis
    unfolding wrapper_refines_plain_store [OF c]
    by (simp add: sw_init_def sw_abs_def plain_get_def plain_put_def)
qed

subsection \<open>The iterable map\<close>

definition demo_imap :: "bytes plain_store" where
  "demo_imap = snd (the (CreateItem (\<lambda>b. b) (IterableMap_Init (\<lambda>b. b) False [9]) [1, 2] (\<lambda>_. [])))"

lemma empty_imap: "imap_inv (\<lambda>b. b) False [9] 2 (\<lambda>_. [])"
  and empty_imap_items: "imap_items (\<lambda>b. b) (IterableMap_Init (\<lambda>b. b) False [9]) (\<lambda>_. []) = []"
proof -
  have r: "imap_repr (\<lambda>b. b) (IterableMap_Init (\<lambda>b. b) False [9]) 2 (\<lambda>_. []) []"
    by (simp add: imap_repr_def IMap_GetCount_def get_u32_empty)
  then show "imap_inv (\<lambda>b. b) False [9] 2 (\<lambda>_. [])" by (intro imap_invI) simp_all
  show "imap_items (\<lambda>b. b) (IterableMap_Init (\<lambda>b. b) False [9]) (\<lambda>_. []) = []" by (rule imap_items_repr [OF r])
qed

lemma demo_imap: "imap_inv (\<lambda>b. b) False [9] 2 demo_imap"
  "imap_items (\<lambda>b. b) (IterableMap_Init (\<lambda>b. b) False [9]) demo_imap = [[1, 2]]"
  using imap.create_appends [OF empty_imap, of "[1, 2]"] empty_imap_items
  by (auto simp: demo_imap_def)

text \<open>C21: over any storage that represents a list of items, \<open>CreateItem\<close> appends a new item and \<open>RemoveItem\<close>
  then takes it away again, in spite of the swap with the last position: the items and their order are as before.\<close>

theorem imap_create_then_remove:
  assumes "imap_inv H spare prefix n st" and "length x = n"
    and "x \<notin> set (imap_items H (IterableMap_Init H spare prefix) st)"
    and "length (imap_items H (IterableMap_Init H spare prefix) st) + 1 < 2 ^ 32 - 1"
  shows "\<exists>c st1 st2. CreateItem H (IterableMap_Init H spare prefix) x st = Some (c, st1) \<and>
    imap_items H (IterableMap_Init H spare prefix) st1 = imap_items H (IterableMap_Init H spare prefix) st @ [x] \<and>
    RemoveItem H (IterableMap_Init H spare prefix) x st1 = Some (c - 1, st2) \<and>
    imap_inv H spare prefix n st2 \<and>
    imap_items H (IterableMap_Init H spare prefix) st2 = imap_items H (IterableMap_Init H spare prefix) st"
proof -
  obtain c st1 st2 where r: "CreateItem H (IterableMap_Init H spare prefix) x st = Some (c, st1)"
    "RemoveItem H (IterableMap_Init H spare prefix) x st1 = Some (c - 1, st2)" "imap_inv H spare prefix n st2"
    "imap_items H (IterableMap_Init H spare prefix) st2 = imap_items H (IterableMap_Init H spare prefix) st"
    by (rule imap.create_remove_roundtrip [OF assms])
  then show ?thesis using imap.create_appends [OF assms] by auto
qed

theorem imap_create_then_remove_witness:
  "\<exists>c st1 st2. CreateItem (\<lambda>b. b) (IterableMap_Init (\<lambda>b. b) False [9]) [3, 4] demo_imap = Some (c, st1) \<and>
    imap_items (\<lambda>b. b) (IterableMap_Init (\<lambda>b. b) False [9]) st1 = [[1, 2], [3, 4]] \<and>
    RemoveItem (\<lambda>b. b) (IterableMap_Init (\<lambda>b. b) False [9]) [3, 4] st1 = Some (c - 1, st2) \<and>
    imap_inv (\<lambda>b. b) False [9] 2 st2 \<and>
    imap_items (\<lambda>b. b) (IterableMap_Init (\<lambda>b. b) False [9]) st2 = [[1, 2]]"
  using imap_create_then_remove [OF demo_imap(1), of "[3, 4]"] by (simp add: demo_imap(2))

text \<open>C22: a batch read of the iterable map returns exactly the slice of the items it asks for, and says whether
  it was the last one; it neither panics nor reads past the end.\<close>

theorem imap_batch_is_slice:
  assumes "imap_inv H spare prefix n st" and "unat start_idx + unat count < 2 ^ 32"
  shows "GetItems H (IterableMap_Init H spare prefix) start_idx count st =
    Some (take (unat count) (drop (unat start_idx) (imap_items H (IterableMap_Init H spare prefix) st)),
      length (imap_items H (IterableMap_Init H spare prefix) st) \<le> unat start_idx + unat count)"
  by (rule GetItems_computes [OF assms])

theorem imap_batch_is_slice_witness:
  "GetItems (\<lambda>b. b) (IterableMap_Init (\<lambda>b. b) False [9]) 0 20 demo_imap = Some ([[1, 2]], True) \<and>
   GetItems (\<lambda>b. b) (IterableMap_Init (\<lambda>b. b) False [9]) 5 20 demo_imap = Some ([], True)"
  using imap_batch_is_slice [OF demo_imap(1), of 0 20] imap_batch_is_slice [OF demo_imap(1), of 5 20]
  by (simp add: demo_imap(2))

end
