(* ===== verification/Dpos_Store.thy ===== *)
theory Dpos_Store
  imports Chain_Config Iterable_Map
begin

section \<open>The DPOS contract's stores\<close>

text \<open>
  \<open>validators.go\<close>, \<open>delegations.go\<close> and \<open>undelegations.go\<close> of
  \<open>src/taraxa/state/contracts/dpos/precompiled\<close>, and the records of the contract. Every storage slot
  is keyed by the hash of a field byte, addresses and a block number or id, and holds the RLP of
  one record; here each such family of slots is a map from what its key is built from to the
  record, an absent or emptied slot being \<^const>\<open>None\<close>. An iterable map is the sequence of its
  items. RLP refuses a negative integer and \<open>MustEncodeToBytes\<close> then panics: saving checks it.
\<close>

subsection \<open>Records\<close>

record ValidatorV1 =
  v_TotalStake :: int
  v_Commission :: u16
  v_LastCommissionChange :: block_num
  v_LastUpdated :: block_num

record Validator = ValidatorV1 +
  v_UndelegationsCount :: u16

record ValidatorInfo =
  vi_Description :: string
  vi_Endpoint :: string

record ValidatorRewards =
  vr_RewardsPool :: int
  vr_CommissionRewardsPool :: int

record Delegation =
  d_Stake :: int
  d_LastUpdated :: block_num

record UndelegationV1 =
  u_Amount :: int
  u_Block :: block_num

record UndelegationV2 = UndelegationV1 +
  u_Id :: u64

record State =
  st_RewardsPer1Stake :: int
  st_Count :: u32

text \<open>The slot of a validator holds the record of before or of after the Magnolia hard fork.\<close>

datatype validator_slot = SlotV1 ValidatorV1 | SlotV2 Validator

text \<open>The events of \<open>dpos_logs.go\<close>.\<close>

datatype dpos_log =
    DelegatedLog address address int
  | UndelegatedV1Log address address int
  | UndelegatedV2Log address address u64 int
  | UndelegateConfirmedV1Log address address int
  | UndelegateConfirmedV2Log address address u64 int
  | UndelegateCanceledV1Log address address int
  | UndelegateCanceledV2Log address address u64 int
  | RedelegatedLog address address address int
  | RewardsClaimedLog address address int
  | CommissionRewardsClaimedLog address address int
  | CommissionSetLog address u16
  | ValidatorRegisteredLog address
  | ValidatorInfoSetLog address

definition MakeUndelegateConfirmedLog :: "address \<Rightarrow> address \<Rightarrow> u64 option \<Rightarrow> int \<Rightarrow> dpos_log" where
  "MakeUndelegateConfirmedLog delegator validator undelegation_id amount =
     (case undelegation_id of
        Some i \<Rightarrow> UndelegateConfirmedV2Log delegator validator i amount
      | None \<Rightarrow> UndelegateConfirmedV1Log delegator validator amount)"

definition MakeUndelegateCanceledLog :: "address \<Rightarrow> address \<Rightarrow> u64 option \<Rightarrow> int \<Rightarrow> dpos_log" where
  "MakeUndelegateCanceledLog delegator validator undelegation_id amount =
     (case undelegation_id of
        Some i \<Rightarrow> UndelegateCanceledV2Log delegator validator i amount
      | None \<Rightarrow> UndelegateCanceledV1Log delegator validator amount)"

text \<open>
  The contract: its storage (the \<open>s_\<close> fields), the values it keeps in memory between blocks
  (\<open>c_\<close>) and the part of the EVM state it acts on (\<open>w_\<close>: balances, nonces, logs and the number of
  the block being executed). \<open>s_undelegation\<close> keys are as in the code: delegator, validator, id.
\<close>

record dpos =
  s_validator :: "address \<Rightarrow> validator_slot option"
  s_validator_info :: "address \<Rightarrow> ValidatorInfo option"
  s_validator_rewards :: "address \<Rightarrow> ValidatorRewards option"
  s_validator_owner :: "address \<Rightarrow> address option"
  s_validator_vrf :: "address \<Rightarrow> bytes option"
  s_validators_list :: "address list"
  s_delegation :: "address \<times> address \<Rightarrow> Delegation option"
  s_delegator_validators :: "address \<Rightarrow> address list"
  s_undelegation_v1 :: "address \<times> address \<Rightarrow> UndelegationV1 option"
  s_v1_validators :: "address \<Rightarrow> address list"
  s_undelegation_v2 :: "address \<times> address \<times> u64 \<Rightarrow> UndelegationV2 option"
  s_v2_validators :: "address \<Rightarrow> address list"
  s_v2_ids :: "address \<times> address \<Rightarrow> u64 list"
  s_last_unique_id :: "address \<Rightarrow> u64 option"
  s_state :: "address \<times> block_num \<Rightarrow> State option"
  s_eligible_vote_count :: "u64 option"
  s_amount_delegated :: "u256 option"
  s_minted_tokens :: "u256 option"
  s_total_supply :: "u256 option"
  s_yield :: "u64 option"
  c_eligible_vote_count_orig :: u64
  c_eligible_vote_count :: u64
  c_amount_delegated_orig :: u256
  c_amount_delegated :: u256
  c_minted_tokens :: u256
  c_total_supply :: "u256 option"
  c_lazy_init_done :: bool
  w_balance :: "address \<Rightarrow> int"
  w_nonce :: "address \<Rightarrow> int"
  w_logs :: "dpos_log list"
  w_block :: block_num

subsection \<open>Batches of an address map (\<open>addresses_imap.go\<close>, \<open>ids_imap.go\<close>)\<close>

text \<open>An entry the code leaves empty is the zero address; decoding it as an id is a panic.\<close>

definition GetAccounts :: "u32 \<Rightarrow> u32 \<Rightarrow> address list \<Rightarrow> address list \<times> bool" where
  "GetAccounts batch count xs =
     (let (items, end) = seq_get_items (batch * count) count xs
      in (map (\<lambda>i. case i of None \<Rightarrow> 0 | Some a \<Rightarrow> a) items, end))"

definition GetAllAccounts :: "address list \<Rightarrow> address list" where
  "GetAllAccounts xs = map (\<lambda>i. case i of None \<Rightarrow> 0 | Some a \<Rightarrow> a) (fst (seq_get_items 0 (seq_count xs) xs))"

definition GetIdsFromIdx :: "u32 \<Rightarrow> u32 \<Rightarrow> u64 list \<Rightarrow> (u64 list \<times> bool) option" where
  "GetIdsFromIdx start_idx count xs =
     (let (items, end) = seq_get_items start_idx count xs
      in if None \<in> set items then None else Some (map the items, end))"

subsection \<open>Validators\<close>

definition ValidatorExists :: "dpos \<Rightarrow> address \<Rightarrow> bool" where
  "ValidatorExists s validator \<longleftrightarrow> validator \<in> set (s_validators_list s)"

fun decode_validator :: "validator_slot \<Rightarrow> Validator" where
  "decode_validator (SlotV2 x) = x"
| "decode_validator (SlotV1 x) =
     \<lparr>v_TotalStake = v_TotalStake x, v_Commission = v_Commission x,
      v_LastCommissionChange = v_LastCommissionChange x, v_LastUpdated = v_LastUpdated x,
      v_UndelegationsCount = 0\<rparr>"

definition GetValidator :: "dpos \<Rightarrow> address \<Rightarrow> Validator option" where
  "GetValidator s validator = map_option decode_validator (s_validator s validator)"

definition GetValidatorInfo :: "dpos \<Rightarrow> address \<Rightarrow> ValidatorInfo option" where
  "GetValidatorInfo s validator = s_validator_info s validator"

definition GetValidatorRewards :: "dpos \<Rightarrow> address \<Rightarrow> ValidatorRewards option" where
  "GetValidatorRewards s validator = s_validator_rewards s validator"

definition GetValidatorOwner :: "dpos \<Rightarrow> address \<Rightarrow> address" where
  "GetValidatorOwner s validator = (case s_validator_owner s validator of None \<Rightarrow> 0 | Some a \<Rightarrow> a)"

definition CheckValidatorOwner :: "dpos \<Rightarrow> address \<Rightarrow> address \<Rightarrow> bool" where
  "CheckValidatorOwner s owner validator \<longleftrightarrow> owner = GetValidatorOwner s validator"

definition GetVrfKey :: "dpos \<Rightarrow> address \<Rightarrow> bytes option" where
  "GetVrfKey s validator = s_validator_vrf s validator"

definition GetValidatorsAddresses :: "dpos \<Rightarrow> u32 \<Rightarrow> u32 \<Rightarrow> address list \<times> bool" where
  "GetValidatorsAddresses s batch count = GetAccounts batch count (s_validators_list s)"

definition GetValidatorsCount :: "dpos \<Rightarrow> u32" where
  "GetValidatorsCount s = seq_count (s_validators_list s)"

definition SaveValidator :: "bool \<Rightarrow> address \<Rightarrow> Validator \<Rightarrow> dpos \<Rightarrow> dpos option" where
  "SaveValidator extended_validator a validator s = do {
     holds (0 \<le> v_TotalStake validator);
     Some (s\<lparr>s_validator := (s_validator s)(a \<mapsto>
       (if extended_validator then SlotV2 validator else SlotV1 (ValidatorV1.truncate validator)))\<rparr>)
   }"

definition SaveValidatorRewards :: "address \<Rightarrow> ValidatorRewards \<Rightarrow> dpos \<Rightarrow> dpos option" where
  "SaveValidatorRewards a rewards s = do {
     holds (0 \<le> vr_RewardsPool rewards \<and> 0 \<le> vr_CommissionRewardsPool rewards);
     Some (s\<lparr>s_validator_rewards := (s_validator_rewards s)(a \<mapsto> rewards)\<rparr>)
   }"

definition SaveValidatorInfo :: "address \<Rightarrow> ValidatorInfo \<Rightarrow> dpos \<Rightarrow> dpos option" where
  "SaveValidatorInfo a info s = Some (s\<lparr>s_validator_info := (s_validator_info s)(a \<mapsto> info)\<rparr>)"

definition ModifyValidator :: "bool \<Rightarrow> address \<Rightarrow> Validator \<Rightarrow> dpos \<Rightarrow> dpos option" where
  "ModifyValidator extended_validator a validator s = do {
     holds (ValidatorExists s a);
     SaveValidator extended_validator a validator s
   }"

definition ModifyValidatorInfo :: "address \<Rightarrow> ValidatorInfo \<Rightarrow> dpos \<Rightarrow> dpos option" where
  "ModifyValidatorInfo a info s = do { holds (ValidatorExists s a); SaveValidatorInfo a info s }"

definition ModifyValidatorRewards :: "address \<Rightarrow> ValidatorRewards \<Rightarrow> dpos \<Rightarrow> dpos option" where
  "ModifyValidatorRewards a rewards s = do { holds (ValidatorExists s a); SaveValidatorRewards a rewards s }"

definition AddValidatorRewards :: "address \<Rightarrow> int \<Rightarrow> int \<Rightarrow> dpos \<Rightarrow> dpos option" where
  "AddValidatorRewards a commission_reward reward s = do {
     holds (ValidatorExists s a);
     rewards \<leftarrow> GetValidatorRewards s a;
     ModifyValidatorRewards a
       (rewards\<lparr>vr_CommissionRewardsPool := vr_CommissionRewardsPool rewards + commission_reward,
               vr_RewardsPool := vr_RewardsPool rewards + reward\<rparr>) s
   }"

definition CreateValidator :: "bool \<Rightarrow> address \<Rightarrow> address \<Rightarrow> bytes \<Rightarrow> block_num \<Rightarrow> u16 \<Rightarrow> string \<Rightarrow> string
    \<Rightarrow> dpos \<Rightarrow> (Validator \<times> dpos) option" where
  "CreateValidator extended_validator owner_address a vrf_key block commission description endpoint s = do {
     let validator = \<lparr>v_TotalStake = 0, v_Commission = commission, v_LastCommissionChange = block,
                      v_LastUpdated = block, v_UndelegationsCount = 0\<rparr>;
     s1 \<leftarrow> SaveValidator extended_validator a validator s;
     s2 \<leftarrow> SaveValidatorInfo a \<lparr>vi_Description = description, vi_Endpoint = endpoint\<rparr> s1;
     s3 \<leftarrow> SaveValidatorRewards a \<lparr>vr_RewardsPool = 0, vr_CommissionRewardsPool = 0\<rparr> s2;
     let s4 = s3\<lparr>s_validator_owner := (s_validator_owner s3)(a \<mapsto> owner_address),
                 s_validator_vrf := (s_validator_vrf s3)(a := (if vrf_key = [] then None else Some vrf_key))\<rparr>;
     (_, l) \<leftarrow> seq_create a (s_validators_list s4);
     Some (validator, s4\<lparr>s_validators_list := l\<rparr>)
   }"

definition DeleteValidator :: "address \<Rightarrow> dpos \<Rightarrow> dpos option" where
  "DeleteValidator a s = do {
     (_, l) \<leftarrow> seq_remove a (s_validators_list s);
     Some (s\<lparr>s_validator := (s_validator s)(a := None),
             s_validator_info := (s_validator_info s)(a := None),
             s_validator_owner := (s_validator_owner s)(a := None),
             s_validator_vrf := (s_validator_vrf s)(a := None),
             s_validator_rewards := (s_validator_rewards s)(a := None),
             s_validators_list := l\<rparr>)
   }"

subsection \<open>Delegations\<close>

definition DelegationExists :: "dpos \<Rightarrow> address \<Rightarrow> address \<Rightarrow> bool" where
  "DelegationExists s delegator validator \<longleftrightarrow> validator \<in> set (s_delegator_validators s delegator)"

definition GetDelegationsCount :: "dpos \<Rightarrow> address \<Rightarrow> u32" where
  "GetDelegationsCount s delegator = seq_count (s_delegator_validators s delegator)"

definition GetDelegation :: "dpos \<Rightarrow> address \<Rightarrow> address \<Rightarrow> Delegation option" where
  "GetDelegation s delegator validator = s_delegation s (delegator, validator)"

definition SaveDelegation :: "address \<Rightarrow> address \<Rightarrow> Delegation \<Rightarrow> dpos \<Rightarrow> dpos option" where
  "SaveDelegation delegator validator delegation s = do {
     holds (0 \<le> d_Stake delegation);
     Some (s\<lparr>s_delegation := (s_delegation s)((delegator, validator) \<mapsto> delegation)\<rparr>)
   }"

definition ModifyDelegation :: "address \<Rightarrow> address \<Rightarrow> Delegation \<Rightarrow> dpos \<Rightarrow> dpos option" where
  "ModifyDelegation delegator validator delegation s = do {
     holds (DelegationExists s delegator validator);
     SaveDelegation delegator validator delegation s
   }"

definition CreateDelegation :: "address \<Rightarrow> address \<Rightarrow> block_num \<Rightarrow> int \<Rightarrow> dpos \<Rightarrow> dpos option" where
  "CreateDelegation delegator validator block stake s = do {
     s1 \<leftarrow> SaveDelegation delegator validator \<lparr>d_Stake = stake, d_LastUpdated = block\<rparr> s;
     (_, l) \<leftarrow> seq_create validator (s_delegator_validators s1 delegator);
     Some (s1\<lparr>s_delegator_validators := (s_delegator_validators s1)(delegator := l)\<rparr>)
   }"

definition RemoveDelegation :: "address \<Rightarrow> address \<Rightarrow> dpos \<Rightarrow> dpos option" where
  "RemoveDelegation delegator validator s = do {
     let s1 = s\<lparr>s_delegation := (s_delegation s)((delegator, validator) := None)\<rparr>;
     (_, l) \<leftarrow> seq_remove validator (s_delegator_validators s1 delegator);
     Some (s1\<lparr>s_delegator_validators := (s_delegator_validators s1)(delegator := l)\<rparr>)
   }"

definition GetDelegatorValidatorsAddresses :: "dpos \<Rightarrow> address \<Rightarrow> u32 \<Rightarrow> u32 \<Rightarrow> address list \<times> bool" where
  "GetDelegatorValidatorsAddresses s delegator batch count =
     GetAccounts batch count (s_delegator_validators s delegator)"

definition GetAllDelegatorValidatorsAddresses :: "dpos \<Rightarrow> address \<Rightarrow> address list" where
  "GetAllDelegatorValidatorsAddresses s delegator = GetAllAccounts (s_delegator_validators s delegator)"

subsection \<open>Undelegations\<close>

text \<open>Version 1 allows one undelegation per delegator and validator, version 2 numbers them.\<close>

definition UndelegationV1Exists :: "dpos \<Rightarrow> address \<Rightarrow> address \<Rightarrow> bool" where
  "UndelegationV1Exists s delegator validator \<longleftrightarrow> validator \<in> set (s_v1_validators s delegator)"

definition undelegationV2Exists :: "dpos \<Rightarrow> address \<Rightarrow> address \<Rightarrow> u64 \<Rightarrow> bool" where
  "undelegationV2Exists s delegator validator undelegation_id \<longleftrightarrow>
     undelegation_id \<in> set (s_v2_ids s (delegator, validator))"

definition UndelegationExists :: "dpos \<Rightarrow> address \<Rightarrow> address \<Rightarrow> u64 option \<Rightarrow> bool" where
  "UndelegationExists s delegator validator undelegation_id =
     (case undelegation_id of
        Some i \<Rightarrow> undelegationV2Exists s delegator validator i
      | None \<Rightarrow> UndelegationV1Exists s delegator validator)"

definition GetUndelegationV1 :: "dpos \<Rightarrow> address \<Rightarrow> address \<Rightarrow> UndelegationV1 option" where
  "GetUndelegationV1 s delegator validator = s_undelegation_v1 s (delegator, validator)"

definition GetUndelegationV2 :: "dpos \<Rightarrow> address \<Rightarrow> address \<Rightarrow> u64 \<Rightarrow> UndelegationV2 option" where
  "GetUndelegationV2 s delegator validator undelegation_id =
     s_undelegation_v2 s (delegator, validator, undelegation_id)"

definition GetUndelegationBaseObject ::
    "dpos \<Rightarrow> address \<Rightarrow> address \<Rightarrow> u64 option \<Rightarrow> UndelegationV1 option" where
  "GetUndelegationBaseObject s delegator validator undelegation_id =
     (case undelegation_id of
        Some i \<Rightarrow> map_option UndelegationV1.truncate (GetUndelegationV2 s delegator validator i)
      | None \<Rightarrow> GetUndelegationV1 s delegator validator)"

definition GetUndelegationsV1Count :: "dpos \<Rightarrow> address \<Rightarrow> u32" where
  "GetUndelegationsV1Count s delegator = seq_count (s_v1_validators s delegator)"

definition GetUndelegationsV2Count :: "dpos \<Rightarrow> address \<Rightarrow> u32" where
  "GetUndelegationsV2Count s delegator =
     foldl (\<lambda>count validator. count + seq_count (s_v2_ids s (delegator, validator))) 0
       (GetAllAccounts (s_v2_validators s delegator))"

definition CreateUndelegationV1 :: "address \<Rightarrow> address \<Rightarrow> block_num \<Rightarrow> int \<Rightarrow> dpos \<Rightarrow> dpos option" where
  "CreateUndelegationV1 delegator validator block amount s = do {
     holds (0 \<le> amount);
     let s1 = s\<lparr>s_undelegation_v1 := (s_undelegation_v1 s)((delegator, validator) \<mapsto>
                 \<lparr>u_Amount = amount, u_Block = block\<rparr>)\<rparr>;
     (_, l) \<leftarrow> seq_create validator (s_v1_validators s1 delegator);
     Some (s1\<lparr>s_v1_validators := (s_v1_validators s1)(delegator := l)\<rparr>)
   }"

definition genUniqueId :: "address \<Rightarrow> dpos \<Rightarrow> u64 \<times> dpos" where
  "genUniqueId delegator s =
     (let unique_id = (case s_last_unique_id s delegator of None \<Rightarrow> 0 | Some i \<Rightarrow> i) + 1
      in (unique_id, s\<lparr>s_last_unique_id := (s_last_unique_id s)(delegator \<mapsto> unique_id)\<rparr>))"

definition CreateUndelegationV2 ::
    "address \<Rightarrow> address \<Rightarrow> block_num \<Rightarrow> int \<Rightarrow> dpos \<Rightarrow> (u64 \<times> dpos) option" where
  "CreateUndelegationV2 delegator validator block amount s = do {
     let (unique_id, s1) = genUniqueId delegator s;
     holds (0 \<le> amount);
     let s2 = s1\<lparr>s_undelegation_v2 := (s_undelegation_v2 s1)((delegator, validator, unique_id) \<mapsto>
                 \<lparr>u_Amount = amount, u_Block = block, u_Id = unique_id\<rparr>)\<rparr>;
     (n, ids) \<leftarrow> seq_create unique_id (s_v2_ids s2 (delegator, validator));
     let s3 = s2\<lparr>s_v2_ids := (s_v2_ids s2)((delegator, validator) := ids)\<rparr>;
     if n = 1 then do {
       (_, l) \<leftarrow> seq_create validator (s_v2_validators s3 delegator);
       Some (unique_id, s3\<lparr>s_v2_validators := (s_v2_validators s3)(delegator := l)\<rparr>)
     } else Some (unique_id, s3)
   }"

definition removeUndelegationV1 :: "address \<Rightarrow> address \<Rightarrow> dpos \<Rightarrow> dpos option" where
  "removeUndelegationV1 delegator validator s = do {
     let s1 = s\<lparr>s_undelegation_v1 := (s_undelegation_v1 s)((delegator, validator) := None)\<rparr>;
     (_, l) \<leftarrow> seq_remove validator (s_v1_validators s1 delegator);
     Some (s1\<lparr>s_v1_validators := (s_v1_validators s1)(delegator := l)\<rparr>)
   }"

definition removeUndelegationV2 :: "address \<Rightarrow> address \<Rightarrow> u64 \<Rightarrow> dpos \<Rightarrow> dpos option" where
  "removeUndelegationV2 delegator validator undelegation_id s = do {
     let s1 = s\<lparr>s_undelegation_v2 := (s_undelegation_v2 s)((delegator, validator, undelegation_id) := None)\<rparr>;
     (n, ids) \<leftarrow> seq_remove undelegation_id (s_v2_ids s1 (delegator, validator));
     let s2 = s1\<lparr>s_v2_ids := (s_v2_ids s1)((delegator, validator) := ids)\<rparr>;
     if n = 0 then do {
       (_, l) \<leftarrow> seq_remove validator (s_v2_validators s2 delegator);
       Some (s2\<lparr>s_v2_validators := (s_v2_validators s2)(delegator := l)\<rparr>)
     } else Some s2
   }"

definition RemoveUndelegation :: "address \<Rightarrow> address \<Rightarrow> u64 option \<Rightarrow> dpos \<Rightarrow> dpos option" where
  "RemoveUndelegation delegator validator undelegation_id s =
     (case undelegation_id of
        Some i \<Rightarrow> removeUndelegationV2 delegator validator i s
      | None \<Rightarrow> removeUndelegationV1 delegator validator s)"

definition GetUndelegationsV1Validators :: "dpos \<Rightarrow> address \<Rightarrow> u32 \<Rightarrow> u32 \<Rightarrow> address list \<times> bool" where
  "GetUndelegationsV1Validators s delegator batch count = GetAccounts batch count (s_v1_validators s delegator)"

definition GetUndelegationsV2Validator :: "dpos \<Rightarrow> address \<Rightarrow> u32 \<Rightarrow> address option \<times> bool" where
  "GetUndelegationsV2Validator s delegator validator_idx =
     (let (validators, end) = GetAccounts validator_idx 1 (s_v2_validators s delegator)
      in (case validators of [] \<Rightarrow> None | v # _ \<Rightarrow> Some v, end))"

end
