(* ===== verification/Dpos_Contract.thy ===== *)
theory Dpos_Contract
  imports Dpos_Store
begin

section \<open>The DPOS contract: delegation and rewards\<close>

text \<open>
  The methods of \<open>src/taraxa/state/contracts/dpos/precompiled/dpos_contract.go\<close> that change state.
  A method returns the contract after the call and Go's \<open>error\<close>; a panic is \<^const>\<open>None\<close>. The
  block \<open>state == nil\<close> (take over the rewards of the validator's pool into a new state for this block)
  and the block that pays a delegator's reward occur, line by line the same, in five methods; they are
  \<open>settle\<close> and \<open>claim_delegator\<close>. \<open>self.cfg\<close> and \<open>self.evm\<close>'s block number are constant during
  a call.
\<close>

datatype dpos_error =
    ErrInsufficientBalance | ErrNonExistentValidator | ErrNonExistentDelegation | ErrExistentDelegation
  | ErrExistentUndelegation | ErrNonExistentUndelegation | ErrLockedUndelegation | ErrExistentValidator
  | ErrSameValidator | ErrInvalidRedelegation | ErrBrokenState | ErrValidatorsMaxStakeExceeded
  | ErrInsufficientDelegation | ErrCallIsNotToplevel | ErrWrongProof | ErrWrongOwnerAcc | ErrWrongVrfKey
  | ErrForbiddenCommissionChange | ErrCommissionOverflow | ErrMaxEndpointLengthExceeded
  | ErrMaxDescriptionLengthExceeded | ErrMethodNotSupported | ErrNonPayableMethod
  | ErrForValidator dpos_error address
  | ErrAbi
  | ErrEcrecover

record CallFrame =
  CallerAccount :: address
  Account :: address
  Value :: int

definition dpos_contract_address :: address where
  "dpos_contract_address = 0xFE"

definition MaxEndpointLength :: nat where "MaxEndpointLength = 50"
definition MaxDescriptionLength :: nat where "MaxDescriptionLength = 100"
definition MaxCommission :: u64 where "MaxCommission = 10000"
definition VrfKeyLength :: nat where "VrfKeyLength = 32"
definition ClaimAllRewardsMaxCount :: u32 where "ClaimAllRewardsMaxCount = 10"

type_synonym dpos_result = "(dpos \<times> dpos_error option) option"

subsection \<open>Helpers\<close>

definition add64p :: "u64 \<Rightarrow> u64 \<Rightarrow> u64 option" where
  "add64p a b = (let c = a + b in if c < a \<or> c < b then None else Some c)"

definition getDelta :: "u16 \<Rightarrow> u16 \<Rightarrow> u16" where
  "getDelta x y = (if x < y then y - x else x - y)"

definition MaxU64 :: "u64 \<Rightarrow> u64 \<Rightarrow> u64" where
  "MaxU64 x y = (if x < y then y else x)"

text \<open>\<open>tmp.Div\<close> panics on a zero step; \<open>asserts.Holds(tmp.IsUint64())\<close>.\<close>

definition voteCount :: "int \<Rightarrow> ChainConfig \<Rightarrow> block_num \<Rightarrow> u64 option" where
  "voteCount staking_balance cfg block = do {
     tmp1 \<leftarrow> (if IsOnAspenHardforkPartOne (Hardforks cfg) block
                \<and> staking_balance \<ge> ValidatorMaximumStake (DPOS cfg)
              then big_div (ValidatorMaximumStake (DPOS cfg)) (VoteEligibilityBalanceStep (DPOS cfg))
              else Some 0);
     tmp2 \<leftarrow> (if staking_balance \<ge> EligibilityBalanceThreshold (DPOS cfg)
              then big_div staking_balance (VoteEligibilityBalanceStep (DPOS cfg))
              else Some tmp1);
     holds (0 \<le> tmp2 \<and> tmp2 < 2 ^ 64);
     Some (word_of_int tmp2)
   }"

definition calculateRewardPer1Stake :: "ChainConfig \<Rightarrow> int \<Rightarrow> int \<Rightarrow> int option" where
  "calculateRewardPer1Stake cfg rewardsPool stake =
     big_div (rewardsPool * ValidatorMaximumStake (DPOS cfg)) stake"

definition calculateDelegatorReward :: "ChainConfig \<Rightarrow> int \<Rightarrow> int \<Rightarrow> int option" where
  "calculateDelegatorReward cfg rewardPer1Stake stake =
     big_div (rewardPer1Stake * stake) (ValidatorMaximumStake (DPOS cfg))"

definition transferContractBalance :: "CallFrame \<Rightarrow> int \<Rightarrow> dpos \<Rightarrow> dpos option" where
  "transferContractBalance ctx balance s = do {
     holds (\<not> w_balance s (Account ctx) < balance);
     let b1 = (w_balance s)(Account ctx := w_balance s (Account ctx) - balance);
     Some (s\<lparr>w_balance := b1(CallerAccount ctx := b1 (CallerAccount ctx) + balance)\<rparr>)
   }"

definition AddLog :: "dpos_log \<Rightarrow> dpos \<Rightarrow> dpos" where
  "AddLog l s = s\<lparr>w_logs := w_logs s @ [l]\<rparr>"

subsection \<open>States of the rewards distribution\<close>

definition state_get :: "dpos \<Rightarrow> address \<Rightarrow> block_num \<Rightarrow> State option" where
  "state_get s validator_addr block = s_state s (validator_addr, block)"

definition state_put :: "address \<Rightarrow> block_num \<Rightarrow> State option \<Rightarrow> dpos \<Rightarrow> dpos option" where
  "state_put validator_addr block state s = do {
     holds (case state of None \<Rightarrow> True | Some st \<Rightarrow> 0 \<le> st_RewardsPer1Stake st);
     Some (s\<lparr>s_state := (s_state s)((validator_addr, block) := state)\<rparr>)
   }"

definition state_get_and_decrement :: "address \<Rightarrow> block_num \<Rightarrow> dpos \<Rightarrow> (State \<times> dpos) option" where
  "state_get_and_decrement validator_addr block s = do {
     st \<leftarrow> state_get s validator_addr block;
     let st1 = st\<lparr>st_Count := st_Count st - 1\<rparr>;
     s1 \<leftarrow> state_put validator_addr block (if st_Count st1 = 0 then None else Some st1) s;
     Some (st1, s1)
   }"

text \<open>
  The state of the validator for this block: the stored one, or a new one that takes over the
  rewards accumulated since the validator's last update.
\<close>

definition settle :: "ChainConfig \<Rightarrow> block_num \<Rightarrow> address \<Rightarrow> Validator \<Rightarrow> ValidatorRewards \<Rightarrow> dpos
    \<Rightarrow> (State \<times> Validator \<times> ValidatorRewards \<times> dpos) option" where
  "settle cfg block a validator validator_rewards s =
     (case state_get s a block of
        Some state \<Rightarrow> Some (state, validator, validator_rewards, s)
      | None \<Rightarrow> do {
          (old_state, s1) \<leftarrow> state_get_and_decrement a (v_LastUpdated validator) s;
          inc \<leftarrow> (if v_TotalStake validator > 0
                  then calculateRewardPer1Stake cfg (vr_RewardsPool validator_rewards) (v_TotalStake validator)
                  else Some 0);
          Some (\<lparr>st_RewardsPer1Stake = st_RewardsPer1Stake old_state + inc, st_Count = 1\<rparr>,
                validator\<lparr>v_LastUpdated := block\<rparr>,
                validator_rewards\<lparr>vr_RewardsPool := 0\<rparr>, s1)
        })"

text \<open>The reward of a delegation since its last update, paid to the caller.\<close>

definition claim_delegator :: "ChainConfig \<Rightarrow> CallFrame \<Rightarrow> address \<Rightarrow> State \<Rightarrow> Delegation \<Rightarrow> dpos \<Rightarrow> dpos option" where
  "claim_delegator cfg ctx a state delegation s = do {
     (old_state, s1) \<leftarrow> state_get_and_decrement a (d_LastUpdated delegation) s;
     let reward_per_stake = st_RewardsPer1Stake state - st_RewardsPer1Stake old_state;
     reward \<leftarrow> calculateDelegatorReward cfg reward_per_stake (d_Stake delegation);
     if reward > 0 then do {
       s2 \<leftarrow> transferContractBalance ctx reward s1;
       Some (AddLog (RewardsClaimedLog (CallerAccount ctx) a reward) s2)
     } else Some s1
   }"

text \<open>The change of the number of eligible votes when a validator's votes change.\<close>

definition update_votes :: "u64 \<Rightarrow> u64 \<Rightarrow> dpos \<Rightarrow> dpos option" where
  "update_votes prev_vote_count new_vote_count s =
     (if prev_vote_count \<noteq> new_vote_count then do {
        c \<leftarrow> add64p (c_eligible_vote_count s - prev_vote_count) new_vote_count;
        Some (s\<lparr>c_eligible_vote_count := c\<rparr>)
      } else Some s)"

subsection \<open>Delegate\<close>

definition delegate_update_values ::
    "uint256_ops \<Rightarrow> ChainConfig \<Rightarrow> CallFrame \<Rightarrow> Validator \<Rightarrow> u64 \<Rightarrow> dpos \<Rightarrow> (Validator \<times> dpos) option" where
  "delegate_update_values U cfg ctx validator prev_vote_count s = do {
     let validator = validator\<lparr>v_TotalStake := v_TotalStake validator + Value ctx\<rparr>;
     let s1 = s\<lparr>c_amount_delegated := U_Add U (c_amount_delegated s) (fst (U_FromBig U (Value ctx)))\<rparr>;
     new_vote_count \<leftarrow> voteCount (v_TotalStake validator) cfg (w_block s1);
     s2 \<leftarrow> update_votes prev_vote_count new_vote_count s1;
     Some (validator, s2)
   }"

definition delegate :: "uint256_ops \<Rightarrow> ChainConfig \<Rightarrow> CallFrame \<Rightarrow> block_num \<Rightarrow> address \<Rightarrow> dpos \<Rightarrow> dpos_result" where
  "delegate U cfg ctx block a s =
     (case GetValidator s a of
        None \<Rightarrow> Some (s, Some ErrNonExistentValidator)
      | Some validator \<Rightarrow>
          if ValidatorMaximumStake (DPOS cfg) < Value ctx + v_TotalStake validator
          then Some (s, Some ErrValidatorsMaxStakeExceeded)
          else let delegation = GetDelegation s (CallerAccount ctx) a in
            if delegation = None \<and> MinimumDeposit (DPOS cfg) > Value ctx
            then Some (s, Some ErrInsufficientDelegation)
            else do {
              validator_rewards \<leftarrow> GetValidatorRewards s a;
              (state, validator1, validator_rewards1, s1) \<leftarrow> settle cfg block a validator validator_rewards s;
              prev_vote_count \<leftarrow> voteCount (v_TotalStake validator1) cfg block;
              s2 \<leftarrow> (case delegation of
                        None \<Rightarrow> CreateDelegation (CallerAccount ctx) a block (Value ctx) s1
                      | Some d \<Rightarrow> do {
                          s1a \<leftarrow> claim_delegator cfg ctx a state d s1;
                          ModifyDelegation (CallerAccount ctx) a
                            (d\<lparr>d_Stake := d_Stake d + Value ctx, d_LastUpdated := block\<rparr>) s1a
                        });
              (validator2, s3) \<leftarrow> delegate_update_values U cfg ctx validator1 prev_vote_count s2;
              s4 \<leftarrow> state_put a block (Some (state\<lparr>st_Count := st_Count state + 1\<rparr>)) s3;
              s5 \<leftarrow> ModifyValidator (IsOnMagnoliaHardfork (Hardforks cfg) block) a validator2 s4;
              s6 \<leftarrow> ModifyValidatorRewards a validator_rewards1 s5;
              Some (AddLog (DelegatedLog (CallerAccount ctx) a (Value ctx)) s6, None)
            })"

subsection \<open>Undelegate\<close>

definition delegation_locking_period :: "ChainConfig \<Rightarrow> block_num \<Rightarrow> u64" where
  "delegation_locking_period cfg block =
     (if \<not> IsOnCornusHardfork (Hardforks cfg) block then ucast (DelegationLockingPeriod (DPOS cfg))
      else ucast (cornus_DelegationLockingPeriod (CornusHf (Hardforks cfg))))"

text \<open>The undelegation request at the end of \<open>undelegate\<close>, and its event.\<close>

definition create_undelegation ::
    "ChainConfig \<Rightarrow> CallFrame \<Rightarrow> block_num \<Rightarrow> address \<Rightarrow> int \<Rightarrow> bool \<Rightarrow> dpos \<Rightarrow> (u64 \<times> dpos) option" where
  "create_undelegation cfg ctx block a amount v2 s =
     (let until = block + delegation_locking_period cfg block in
      if v2 then do {
        (undelegation_id, s1) \<leftarrow> CreateUndelegationV2 (CallerAccount ctx) a until amount s;
        Some (undelegation_id, AddLog (UndelegatedV2Log (CallerAccount ctx) a undelegation_id amount) s1)
      } else do {
        s1 \<leftarrow> CreateUndelegationV1 (CallerAccount ctx) a until amount s;
        Some (0, AddLog (UndelegatedV1Log (CallerAccount ctx) a amount) s1)
      })"

definition undelegate :: "uint256_ops \<Rightarrow> ChainConfig \<Rightarrow> CallFrame \<Rightarrow> block_num \<Rightarrow> address \<Rightarrow> int \<Rightarrow> bool \<Rightarrow> dpos
    \<Rightarrow> (dpos \<times> (dpos_error + u64)) option" where
  "undelegate U cfg ctx block a amount v2 s =
     (if \<not> v2 \<and> UndelegationV1Exists s (CallerAccount ctx) a
      then Some (s, Inl ErrExistentUndelegation)
      else case GetValidator s a of
        None \<Rightarrow> Some (s, Inl ErrNonExistentValidator)
      | Some validator \<Rightarrow>
        (case GetDelegation s (CallerAccount ctx) a of
           None \<Rightarrow> Some (s, Inl ErrNonExistentDelegation)
         | Some delegation \<Rightarrow>
             if d_Stake delegation < amount then Some (s, Inl ErrInsufficientDelegation)
             else if d_Stake delegation \<noteq> amount \<and> MinimumDeposit (DPOS cfg) > d_Stake delegation - amount
             then Some (s, Inl ErrInsufficientDelegation)
             else do {
               validator_rewards \<leftarrow> GetValidatorRewards s a;
               prev_vote_count \<leftarrow> voteCount (v_TotalStake validator) cfg block;
               (state, validator1, validator_rewards1, s1) \<leftarrow> settle cfg block a validator validator_rewards s;
               s2 \<leftarrow> claim_delegator cfg ctx a state delegation s1;
               let delegation1 = delegation\<lparr>d_Stake := d_Stake delegation - amount\<rparr>;
               let validator2 = validator1\<lparr>v_TotalStake := v_TotalStake validator1 - amount,
                                           v_UndelegationsCount := v_UndelegationsCount validator1 + 1\<rparr>;
               (state1, s3) \<leftarrow>
                 (if d_Stake delegation1 = 0 then do {
                    s2a \<leftarrow> RemoveDelegation (CallerAccount ctx) a s2;
                    Some (state, s2a)
                  } else do {
                    s2a \<leftarrow> ModifyDelegation (CallerAccount ctx) a (delegation1\<lparr>d_LastUpdated := block\<rparr>) s2;
                    Some (state\<lparr>st_Count := st_Count state + 1\<rparr>, s2a)
                  });
               let s4 = s3\<lparr>c_amount_delegated := U_Sub U (c_amount_delegated s3) (fst (U_FromBig U amount))\<rparr>;
               new_vote_count \<leftarrow> voteCount (v_TotalStake validator2) cfg block;
               s5 \<leftarrow> update_votes prev_vote_count new_vote_count s4;
               s6 \<leftarrow>
                 (if \<not> IsOnMagnoliaHardfork (Hardforks cfg) block \<and> v_TotalStake validator2 = 0
                     \<and> vr_CommissionRewardsPool validator_rewards1 = 0
                  then do {
                    s5a \<leftarrow> DeleteValidator a s5;
                    state_put a block None s5a
                  } else do {
                    s5a \<leftarrow> state_put a block (Some state1) s5;
                    s5b \<leftarrow> ModifyValidator (IsOnMagnoliaHardfork (Hardforks cfg) block) a validator2 s5a;
                    ModifyValidatorRewards a validator_rewards1 s5b
                  });
               (undelegation_id, s7) \<leftarrow> create_undelegation cfg ctx block a amount v2 s6;
               Some (s7, Inr undelegation_id)
             }))"

text \<open>
  After the Magnolia hard fork a validator without stake and commission is deleted only with its last
  undelegation. From the Ficus hard fork on its new counter is saved otherwise.
\<close>

definition confirm_update_validator :: "ChainConfig \<Rightarrow> block_num \<Rightarrow> address \<Rightarrow> dpos \<Rightarrow> dpos option" where
  "confirm_update_validator cfg block a s =
     (if IsOnMagnoliaHardfork (Hardforks cfg) block then
        (case GetValidator s a of
           None \<Rightarrow> Some s
         | Some validator \<Rightarrow> do {
             let validator1 = (if v_UndelegationsCount validator > 0
                 then validator\<lparr>v_UndelegationsCount := v_UndelegationsCount validator - 1\<rparr> else validator);
             unused \<leftarrow> (if v_UndelegationsCount validator1 = 0 \<and> v_TotalStake validator1 = 0
                        then map_option (\<lambda>r. vr_CommissionRewardsPool r = 0) (GetValidatorRewards s a)
                        else Some False);
             if unused then do {
               s1 \<leftarrow> DeleteValidator a s;
               (_, s2) \<leftarrow> state_get_and_decrement a (v_LastUpdated validator1) s1;
               Some s2
             } else if IsOnFicusHardfork (Hardforks cfg) block
             then ModifyValidator (IsOnMagnoliaHardfork (Hardforks cfg) block) a validator1 s
             else Some s
           })
      else Some s)"

definition confirmUndelegate :: "ChainConfig \<Rightarrow> CallFrame \<Rightarrow> block_num \<Rightarrow> address \<Rightarrow> u64 option \<Rightarrow> dpos \<Rightarrow> dpos_result" where
  "confirmUndelegate cfg ctx block a undelegation_id s =
     (if \<not> UndelegationExists s (CallerAccount ctx) a undelegation_id
      then Some (s, Some ErrNonExistentUndelegation)
      else do {
        undelegation \<leftarrow> GetUndelegationBaseObject s (CallerAccount ctx) a undelegation_id;
        if u_Block undelegation > block then Some (s, Some ErrLockedUndelegation)
        else do {
          s1 \<leftarrow> RemoveUndelegation (CallerAccount ctx) a undelegation_id s;
          s2 \<leftarrow> confirm_update_validator cfg block a s1;
          s3 \<leftarrow> transferContractBalance ctx (u_Amount undelegation) s2;
          Some (AddLog (MakeUndelegateConfirmedLog (CallerAccount ctx) a undelegation_id
                          (u_Amount undelegation)) s3, None)
        }
      })"

definition cancelUndelegate :: "uint256_ops \<Rightarrow> ChainConfig \<Rightarrow> CallFrame \<Rightarrow> block_num \<Rightarrow> address \<Rightarrow> u64 option
    \<Rightarrow> dpos \<Rightarrow> dpos_result" where
  "cancelUndelegate U cfg ctx block a undelegation_id s =
     (if \<not> UndelegationExists s (CallerAccount ctx) a undelegation_id
      then Some (s, Some ErrNonExistentUndelegation)
      else case GetValidator s a of
        None \<Rightarrow> Some (s, Some ErrNonExistentValidator)
      | Some validator \<Rightarrow> do {
          validator_rewards \<leftarrow> GetValidatorRewards s a;
          prev_vote_count \<leftarrow> voteCount (v_TotalStake validator) cfg block;
          undelegation \<leftarrow> GetUndelegationBaseObject s (CallerAccount ctx) a undelegation_id;
          s1 \<leftarrow> RemoveUndelegation (CallerAccount ctx) a undelegation_id s;
          (state, validator1, validator_rewards1, s2) \<leftarrow> settle cfg block a validator validator_rewards s1;
          s3 \<leftarrow> (case GetDelegation s2 (CallerAccount ctx) a of
                    None \<Rightarrow> CreateDelegation (CallerAccount ctx) a block (u_Amount undelegation) s2
                  | Some d \<Rightarrow> do {
                      s2a \<leftarrow> claim_delegator cfg ctx a state d s2;
                      ModifyDelegation (CallerAccount ctx) a
                        (d\<lparr>d_Stake := d_Stake d + u_Amount undelegation, d_LastUpdated := block\<rparr>) s2a
                    });
          let validator2 = validator1\<lparr>v_TotalStake := v_TotalStake validator1 + u_Amount undelegation\<rparr>;
          let validator3 = (if v_UndelegationsCount validator2 > 0
                then validator2\<lparr>v_UndelegationsCount := v_UndelegationsCount validator2 - 1\<rparr> else validator2);
          let s4 = s3\<lparr>c_amount_delegated :=
                 U_Add U (c_amount_delegated s3) (fst (U_FromBig U (u_Amount undelegation)))\<rparr>;
          new_vote_count \<leftarrow> voteCount (v_TotalStake validator3) cfg block;
          s5 \<leftarrow> update_votes prev_vote_count new_vote_count s4;
          s6 \<leftarrow> state_put a block (Some (state\<lparr>st_Count := st_Count state + 1\<rparr>)) s5;
          s7 \<leftarrow> ModifyValidator (IsOnMagnoliaHardfork (Hardforks cfg) block) a validator3 s6;
          s8 \<leftarrow> ModifyValidatorRewards a validator_rewards1 s7;
          Some (AddLog (MakeUndelegateCanceledLog (CallerAccount ctx) a undelegation_id
                          (u_Amount undelegation)) s8, None)
        })"

subsection \<open>Redelegate\<close>

text \<open>The first half takes the stake from one validator \dots\<close>

definition redelegate_from :: "ChainConfig \<Rightarrow> CallFrame \<Rightarrow> block_num \<Rightarrow> address \<Rightarrow> int \<Rightarrow> Validator \<Rightarrow> Delegation
    \<Rightarrow> dpos \<Rightarrow> dpos option" where
  "redelegate_from cfg ctx block a amount validator_from delegation s = do {
     validator_rewards_from \<leftarrow> GetValidatorRewards s a;
     prev_vote_count_from \<leftarrow> voteCount (v_TotalStake validator_from) cfg block;
     (state, validator1, validator_rewards1, s1) \<leftarrow> settle cfg block a validator_from validator_rewards_from s;
     s2 \<leftarrow> claim_delegator cfg ctx a state delegation s1;
     let delegation1 = delegation\<lparr>d_Stake := d_Stake delegation - amount\<rparr>;
     let validator2 = validator1\<lparr>v_TotalStake := v_TotalStake validator1 - amount\<rparr>;
     (state1, s3) \<leftarrow>
       (if d_Stake delegation1 = 0 then do {
          s2a \<leftarrow> RemoveDelegation (CallerAccount ctx) a s2;
          Some (state, s2a)
        } else do {
          s2a \<leftarrow> ModifyDelegation (CallerAccount ctx) a (delegation1\<lparr>d_LastUpdated := block\<rparr>) s2;
          Some (state\<lparr>st_Count := st_Count state + 1\<rparr>, s2a)
        });
     s4 \<leftarrow>
       (if v_TotalStake validator2 = 0 \<and> vr_CommissionRewardsPool validator_rewards1 = 0 then
          (if \<not> IsOnMagnoliaHardfork (Hardforks cfg) block \<or> v_UndelegationsCount validator2 = 0 then do {
             s3a \<leftarrow> DeleteValidator a s3;
             state_put a block None s3a
           } else if IsOnFicusHardfork (Hardforks cfg) block
           then ModifyValidator (IsOnMagnoliaHardfork (Hardforks cfg) block) a validator2 s3
           else Some s3)
        else do {
          s3a \<leftarrow> state_put a block (Some state1) s3;
          s3b \<leftarrow> ModifyValidator (IsOnMagnoliaHardfork (Hardforks cfg) block) a validator2 s3a;
          ModifyValidatorRewards a validator_rewards1 s3b
        });
     new_vote_count \<leftarrow> voteCount (v_TotalStake validator2) cfg block;
     update_votes prev_vote_count_from new_vote_count s4
   }"

text \<open>
  \dots\ and the second gives it to another one, whose records were read before the first half ran.
\<close>

definition redelegate_to :: "ChainConfig \<Rightarrow> CallFrame \<Rightarrow> block_num \<Rightarrow> address \<Rightarrow> int \<Rightarrow> Validator \<Rightarrow> ValidatorRewards
    \<Rightarrow> dpos \<Rightarrow> dpos option" where
  "redelegate_to cfg ctx block a amount validator_to validator_rewards_to s = do {
     prev_vote_count_to \<leftarrow> voteCount (v_TotalStake validator_to) cfg block;
     (state, validator1, validator_rewards1, s1) \<leftarrow> settle cfg block a validator_to validator_rewards_to s;
     s2 \<leftarrow> (case GetDelegation s1 (CallerAccount ctx) a of
               None \<Rightarrow> CreateDelegation (CallerAccount ctx) a block amount s1
             | Some d \<Rightarrow> do {
                 s1a \<leftarrow> claim_delegator cfg ctx a state d s1;
                 ModifyDelegation (CallerAccount ctx) a
                   (d\<lparr>d_Stake := d_Stake d + amount, d_LastUpdated := block\<rparr>) s1a
               });
     let validator2 = validator1\<lparr>v_TotalStake := v_TotalStake validator1 + amount\<rparr>;
     new_vote_count \<leftarrow> voteCount (v_TotalStake validator2) cfg block;
     s3 \<leftarrow> update_votes prev_vote_count_to new_vote_count s2;
     s4 \<leftarrow> state_put a block (Some (state\<lparr>st_Count := st_Count state + 1\<rparr>)) s3;
     s5 \<leftarrow> ModifyValidator (IsOnMagnoliaHardfork (Hardforks cfg) block) a validator2 s4;
     ModifyValidatorRewards a validator_rewards1 s5
   }"

definition redelegate :: "ChainConfig \<Rightarrow> CallFrame \<Rightarrow> block_num \<Rightarrow> address \<Rightarrow> address \<Rightarrow> int \<Rightarrow> dpos \<Rightarrow> dpos_result" where
  "redelegate cfg ctx block from to amount s =
     (if FixRedelegateBlockNum (Hardforks cfg) < block \<and> from = to then Some (s, Some ErrSameValidator)
      else if IsOnAspenHardforkPartTwo (Hardforks cfg) block \<and> amount \<le> 0
      then Some (s, Some ErrInvalidRedelegation)
      else case GetValidator s from of
        None \<Rightarrow> Some (s, Some ErrNonExistentValidator)
      | Some validator_from \<Rightarrow>
        (case GetValidator s to of
           None \<Rightarrow> Some (s, Some ErrNonExistentValidator)
         | Some validator_to \<Rightarrow>
             if ValidatorMaximumStake (DPOS cfg) \<noteq> 0
                \<and> ValidatorMaximumStake (DPOS cfg) < amount + v_TotalStake validator_to
             then Some (s, Some ErrValidatorsMaxStakeExceeded)
             else do {
               _ \<leftarrow> voteCount (v_TotalStake validator_from) cfg block;
               _ \<leftarrow> voteCount (v_TotalStake validator_to) cfg block;
               case GetDelegation s (CallerAccount ctx) from of
                 None \<Rightarrow> Some (s, Some ErrNonExistentDelegation)
               | Some delegation \<Rightarrow>
                   if d_Stake delegation < amount then Some (s, Some ErrInsufficientDelegation)
                   else if d_Stake delegation \<noteq> amount
                        \<and> MinimumDeposit (DPOS cfg) > d_Stake delegation - amount
                   then Some (s, Some ErrInsufficientDelegation)
                   else do {
                     validator_rewards_to \<leftarrow> GetValidatorRewards s to;
                     s1 \<leftarrow> redelegate_from cfg ctx block from amount validator_from delegation s;
                     s2 \<leftarrow> redelegate_to cfg ctx block to amount validator_to validator_rewards_to s1;
                     Some (AddLog (RedelegatedLog (CallerAccount ctx) from to amount) s2, None)
                   }
             }))"

subsection \<open>Claiming rewards\<close>

definition claimRewards :: "ChainConfig \<Rightarrow> CallFrame \<Rightarrow> block_num \<Rightarrow> address \<Rightarrow> dpos \<Rightarrow> dpos_result" where
  "claimRewards cfg ctx block a s =
     (case GetDelegation s (CallerAccount ctx) a of
        None \<Rightarrow> Some (s, Some ErrNonExistentDelegation)
      | Some delegation \<Rightarrow>
        (case (state_get s a block, GetValidator s a) of
           (None, None) \<Rightarrow> Some (s, Some ErrNonExistentValidator)
         | (st, v) \<Rightarrow> do {
             (state, s1) \<leftarrow>
               (case st of
                  Some state \<Rightarrow> Some (state, s)
                | None \<Rightarrow> do {
                    validator \<leftarrow> v;
                    validator_rewards \<leftarrow> GetValidatorRewards s a;
                    (state, validator1, validator_rewards1, s1) \<leftarrow> settle cfg block a validator validator_rewards s;
                    s2 \<leftarrow> ModifyValidator (IsOnMagnoliaHardfork (Hardforks cfg) block) a validator1 s1;
                    s3 \<leftarrow> ModifyValidatorRewards a validator_rewards1 s2;
                    Some (state, s3)
                  });
             s2 \<leftarrow> claim_delegator cfg ctx a state delegation s1;
             s3 \<leftarrow> ModifyDelegation (CallerAccount ctx) a (delegation\<lparr>d_LastUpdated := block\<rparr>) s2;
             s4 \<leftarrow> state_put a block (Some (state\<lparr>st_Count := st_Count state + 1\<rparr>)) s3;
             Some (s4, None)
           }))"

fun claim_all :: "ChainConfig \<Rightarrow> CallFrame \<Rightarrow> block_num \<Rightarrow> address list \<Rightarrow> dpos \<Rightarrow> dpos_result" where
  "claim_all cfg ctx block [] s = Some (s, None)"
| "claim_all cfg ctx block (a # as) s = do {
     (s1, err) \<leftarrow> claimRewards cfg ctx block a s;
     case err of
       Some e \<Rightarrow> Some (s1, Some (ErrForValidator e a))
     | None \<Rightarrow> claim_all cfg ctx block as s1
   }"

definition claimAllRewards :: "ChainConfig \<Rightarrow> CallFrame \<Rightarrow> block_num \<Rightarrow> dpos \<Rightarrow> dpos_result" where
  "claimAllRewards cfg ctx block s =
     claim_all cfg ctx block (GetAllDelegatorValidatorsAddresses s (CallerAccount ctx)) s"

definition claimAllRewardsPreAspenHF :: "ChainConfig \<Rightarrow> CallFrame \<Rightarrow> block_num \<Rightarrow> u32 \<Rightarrow> dpos
    \<Rightarrow> (bool \<times> dpos \<times> dpos_error option) option" where
  "claimAllRewardsPreAspenHF cfg ctx block batch s =
     (let (addresses, end) = GetDelegatorValidatorsAddresses s (CallerAccount ctx) batch ClaimAllRewardsMaxCount
      in map_option (\<lambda>r. (end, r)) (claim_all cfg ctx block addresses s))"

definition claimCommissionRewards :: "ChainConfig \<Rightarrow> CallFrame \<Rightarrow> block_num \<Rightarrow> address \<Rightarrow> dpos \<Rightarrow> dpos_result" where
  "claimCommissionRewards cfg ctx block a s =
     (if \<not> CheckValidatorOwner s (CallerAccount ctx) a then Some (s, Some ErrWrongOwnerAcc)
      else case GetValidator s a of
        None \<Rightarrow> Some (s, Some ErrNonExistentValidator)
      | Some validator \<Rightarrow> do {
          validator_rewards \<leftarrow> GetValidatorRewards s a;
          let commission = vr_CommissionRewardsPool validator_rewards;
          s1 \<leftarrow> transferContractBalance ctx commission s;
          let s2 = AddLog (CommissionRewardsClaimedLog (CallerAccount ctx) a commission) s1;
          let validator_rewards1 = validator_rewards\<lparr>vr_CommissionRewardsPool := 0\<rparr>;
          s3 \<leftarrow>
            (if v_TotalStake validator = 0 then
               (if \<not> IsOnMagnoliaHardfork (Hardforks cfg) block \<or> v_UndelegationsCount validator = 0 then do {
                  s2a \<leftarrow> DeleteValidator a s2;
                  (_, s2b) \<leftarrow> state_get_and_decrement a (v_LastUpdated validator) s2a;
                  Some s2b
                } else if IsOnPhalaenopsisHardfork (Hardforks cfg) block
                then ModifyValidatorRewards a validator_rewards1 s2
                else Some s2)
             else ModifyValidatorRewards a validator_rewards1 s2);
          Some (s3, None)
        })"

subsection \<open>Registering and changing a validator\<close>

text \<open>
  The cryptographic primitives are parameters: keccak256 and the recovery of a public key from a
  signature, which fails with \<^const>\<open>None\<close>.
\<close>

record crypto_ops =
  K_Hash :: "bytes \<Rightarrow> bytes"
  K_Ecrecover :: "bytes \<Rightarrow> bytes \<Rightarrow> bytes option"

definition validateProof :: "crypto_ops \<Rightarrow> bytes \<Rightarrow> address \<Rightarrow> dpos_error option" where
  "validateProof K proof validator =
     (if length proof \<noteq> 65 then Some ErrWrongProof
      else case K_Ecrecover K (K_Hash K (address_Bytes validator)) (take 64 proof @ [proof ! 64 - 27]) of
        None \<Rightarrow> Some ErrEcrecover
      | Some pubKey \<Rightarrow>
          if BytesToAddress (drop 12 (K_Hash K (drop 1 pubKey))) \<noteq> validator then Some ErrWrongProof
          else None)"

record RegisterValidatorArgs =
  rv_Validator :: address
  rv_Proof :: bytes
  rv_VrfKey :: bytes
  rv_Commission :: u16
  rv_Description :: string
  rv_Endpoint :: string

definition registerValidatorWithoutChecks ::
    "uint256_ops \<Rightarrow> ChainConfig \<Rightarrow> CallFrame \<Rightarrow> block_num \<Rightarrow> RegisterValidatorArgs \<Rightarrow> dpos \<Rightarrow> dpos_result" where
  "registerValidatorWithoutChecks U cfg ctx block args s =
     (let a = rv_Validator args; owner_address = CallerAccount ctx;
          magnolia = IsOnMagnoliaHardfork (Hardforks cfg) block in
      if length (rv_Endpoint args) > MaxEndpointLength then Some (s, Some ErrMaxEndpointLengthExceeded)
      else if length (rv_Description args) > MaxDescriptionLength
      then Some (s, Some ErrMaxDescriptionLengthExceeded)
      else if length (rv_VrfKey args) \<noteq> VrfKeyLength then Some (s, Some ErrWrongVrfKey)
      else if MaxCommission < ucast (rv_Commission args) then Some (s, Some ErrCommissionOverflow)
      else if ValidatorExists s a then Some (s, Some ErrExistentValidator)
      else if GetDelegation s owner_address a \<noteq> None then Some (s, Some ErrExistentDelegation)
      else if state_get s a block \<noteq> None then Some (s, Some ErrBrokenState)
      else if ValidatorMaximumStake (DPOS cfg) < Value ctx then Some (s, Some ErrValidatorsMaxStakeExceeded)
      else do {
        (validator, s1) \<leftarrow> CreateValidator magnolia owner_address a (rv_VrfKey args) block
                             (rv_Commission args) (rv_Description args) (rv_Endpoint args) s;
        let s2 = AddLog (ValidatorRegisteredLog a) s1;
        if Value ctx > 0 then do {
          let s3 = AddLog (DelegatedLog owner_address a (Value ctx)) s2;
          s4 \<leftarrow> CreateDelegation owner_address a block (Value ctx) s3;
          (validator1, s5) \<leftarrow> delegate_update_values U cfg ctx validator 0 s4;
          s6 \<leftarrow> ModifyValidator magnolia a validator1 s5;
          s7 \<leftarrow> state_put a block (Some \<lparr>st_RewardsPer1Stake = 0, st_Count = 2\<rparr>) s6;
          Some (s7, None)
        } else do {
          s3 \<leftarrow> state_put a block (Some \<lparr>st_RewardsPer1Stake = 0, st_Count = 1\<rparr>) s2;
          Some (s3, None)
        }
      })"

definition registerValidator ::
    "uint256_ops \<Rightarrow> crypto_ops \<Rightarrow> ChainConfig \<Rightarrow> CallFrame \<Rightarrow> block_num \<Rightarrow> RegisterValidatorArgs \<Rightarrow> dpos
    \<Rightarrow> dpos_result" where
  "registerValidator U K cfg ctx block args s =
     (case validateProof K (rv_Proof args) (rv_Validator args) of
        Some err \<Rightarrow> Some (s, Some err)
      | None \<Rightarrow>
          if MinimumDeposit (DPOS cfg) > Value ctx then Some (s, Some ErrInsufficientDelegation)
          else registerValidatorWithoutChecks U cfg ctx block args s)"

definition setValidatorInfo :: "CallFrame \<Rightarrow> address \<Rightarrow> string \<Rightarrow> string \<Rightarrow> dpos \<Rightarrow> dpos_result" where
  "setValidatorInfo ctx a description endpoint s =
     (if length endpoint > MaxEndpointLength then Some (s, Some ErrMaxEndpointLengthExceeded)
      else if length description > MaxDescriptionLength then Some (s, Some ErrMaxDescriptionLengthExceeded)
      else if \<not> CheckValidatorOwner s (CallerAccount ctx) a then Some (s, Some ErrWrongOwnerAcc)
      else case GetValidatorInfo s a of
        None \<Rightarrow> Some (s, Some ErrNonExistentValidator)
      | Some validator_info \<Rightarrow> do {
          s1 \<leftarrow> ModifyValidatorInfo a
                 (validator_info\<lparr>vi_Description := description, vi_Endpoint := endpoint\<rparr>) s;
          Some (AddLog (ValidatorInfoSetLog a) s1, None)
        })"

definition setCommission :: "ChainConfig \<Rightarrow> CallFrame \<Rightarrow> block_num \<Rightarrow> address \<Rightarrow> u16 \<Rightarrow> dpos \<Rightarrow> dpos_result" where
  "setCommission cfg ctx block a commission s =
     (if \<not> CheckValidatorOwner s (CallerAccount ctx) a then Some (s, Some ErrWrongOwnerAcc)
      else if MaxCommission < ucast commission then Some (s, Some ErrCommissionOverflow)
      else case GetValidator s a of
        None \<Rightarrow> Some (s, Some ErrNonExistentValidator)
      | Some validator \<Rightarrow>
          if CommissionChangeFrequency (DPOS cfg) \<noteq> 0
             \<and> ucast (CommissionChangeFrequency (DPOS cfg)) > block - v_LastCommissionChange validator
          then Some (s, Some ErrForbiddenCommissionChange)
          else if CommissionChangeDelta (DPOS cfg) \<noteq> 0
             \<and> CommissionChangeDelta (DPOS cfg) < getDelta (v_Commission validator) commission
          then Some (s, Some ErrForbiddenCommissionChange)
          else do {
            s1 \<leftarrow> ModifyValidator (IsOnMagnoliaHardfork (Hardforks cfg) block) a
                   (validator\<lparr>v_Commission := commission, v_LastCommissionChange := block\<rparr>) s;
            Some (AddLog (CommissionSetLog a commission) s1, None)
          })"

end
