(* ===== verification/Dpos_Ledger.thy ===== *)
theory Dpos_Ledger
  imports Dpos_Contract
begin

section \<open>The ledger of one validator\<close>

text \<open>
  The bookkeeping behind the rewards of one validator, apart from the rest of the contract. A
  view holds what the contract stores about the validator: its record, its rewards, its delegations by
  delegator and its reward states by block. A state is shared: its counter says how many records (the
  validator, and delegations) were last updated in its block, and the state is erased when the counter
  reaches zero. \<open>wf_view\<close> is the invariant of that sharing and \<open>vw_debt\<close> what the contract owes because of
  the validator, in units of one token divided by \<open>ValidatorMaximumStake\<close>, so that the truncating
  divisions of the code become exact inequalities.
\<close>

record vview =
  vw_val :: "Validator option"
  vw_rew :: "ValidatorRewards option"
  vw_del :: "address \<Rightarrow> Delegation option"
  vw_st :: "block_num \<Rightarrow> State option"

definition cnt_of :: "State option \<Rightarrow> nat" where
  "cnt_of st = (case st of None \<Rightarrow> 0 | Some x \<Rightarrow> unat (st_Count x))"

definition rps_of :: "State option \<Rightarrow> int" where
  "rps_of st = (case st of None \<Rightarrow> 0 | Some x \<Rightarrow> st_RewardsPer1Stake x)"

definition stake_of :: "Delegation option \<Rightarrow> int" where
  "stake_of x = (case x of None \<Rightarrow> 0 | Some d \<Rightarrow> d_Stake d)"

definition at_block :: "vview \<Rightarrow> block_num \<Rightarrow> address set" where
  "at_block V b = {d. \<exists>del. vw_del V d = Some del \<and> d_LastUpdated del = b}"

definition vw_refs :: "vview \<Rightarrow> block_num \<Rightarrow> nat" where
  "vw_refs V b =
     (case vw_val V of None \<Rightarrow> 0 | Some v \<Rightarrow> if v_LastUpdated v = b then 1 else 0) + card (at_block V b)"

definition vw_total :: "vview \<Rightarrow> int" where
  "vw_total V = (case vw_val V of None \<Rightarrow> 0 | Some v \<Rightarrow> v_TotalStake v)"

definition vw_pending :: "vview \<Rightarrow> int \<Rightarrow> address \<Rightarrow> int" where
  "vw_pending V R d =
     (case vw_del V d of None \<Rightarrow> 0 | Some del \<Rightarrow> (R - rps_of (vw_st V (d_LastUpdated del))) * d_Stake del)"

definition vw_cur :: "vview \<Rightarrow> int" where
  "vw_cur V = (case vw_val V of None \<Rightarrow> 0 | Some v \<Rightarrow> rps_of (vw_st V (v_LastUpdated v)))"

definition rewards_of :: "ValidatorRewards option \<Rightarrow> int" where
  "rewards_of r = (case r of None \<Rightarrow> 0 | Some x \<Rightarrow> vr_RewardsPool x + vr_CommissionRewardsPool x)"

definition vw_debt :: "int \<Rightarrow> vview \<Rightarrow> int" where
  "vw_debt M V =
     (if vw_val V = None then 0
      else M * (vw_total V + rewards_of (vw_rew V)) + (\<Sum>d\<in>UNIV. vw_pending V (vw_cur V) d))"

definition wf_view :: "block_num \<Rightarrow> vview \<Rightarrow> bool" where
  "wf_view blk V \<longleftrightarrow>
     (\<forall>b. vw_refs V b \<le> cnt_of (vw_st V b)) \<and>
     (\<forall>b. 0 \<le> rps_of (vw_st V b)) \<and>
     (\<forall>b. vw_st V b \<noteq> None \<longrightarrow> b \<le> blk) \<and>
     (case vw_val V of
        None \<Rightarrow> vw_rew V = None \<and> (\<forall>d. vw_del V d = None)
      | Some v \<Rightarrow>
          (\<exists>r. vw_rew V = Some r \<and> 0 \<le> vr_RewardsPool r \<and> 0 \<le> vr_CommissionRewardsPool r) \<and>
          v_TotalStake v = (\<Sum>d\<in>UNIV. stake_of (vw_del V d)) \<and>
          (vw_st V blk \<noteq> None \<longrightarrow> v_LastUpdated v = blk) \<and>
          (\<forall>d del. vw_del V d = Some del \<longrightarrow>
             0 < d_Stake del \<and> rps_of (vw_st V (d_LastUpdated del)) \<le> vw_cur V))"

subsection \<open>Consequences of the invariant\<close>

lemma wf_viewD:
  assumes "wf_view blk V" and "vw_val V = Some v"
  shows "\<And>b. vw_refs V b \<le> cnt_of (vw_st V b)" and "\<And>b. 0 \<le> rps_of (vw_st V b)"
    and "\<And>b. vw_st V b \<noteq> None \<Longrightarrow> b \<le> blk"
    and "v_TotalStake v = (\<Sum>d\<in>UNIV. stake_of (vw_del V d))"
    and "vw_st V blk \<noteq> None \<Longrightarrow> v_LastUpdated v = blk"
    and "\<And>d del. vw_del V d = Some del \<Longrightarrow> 0 < d_Stake del"
    and "\<And>d del. vw_del V d = Some del \<Longrightarrow> rps_of (vw_st V (d_LastUpdated del)) \<le> vw_cur V"
  using assms unfolding wf_view_def by auto

lemma wf_view_rewards:
  assumes "wf_view blk V" and "vw_val V = Some v"
  obtains r where "vw_rew V = Some r" "0 \<le> vr_RewardsPool r" "0 \<le> vr_CommissionRewardsPool r"
  using assms unfolding wf_view_def by auto

lemma stake_of_nonneg:
  assumes "wf_view blk V"
  shows "0 \<le> stake_of (vw_del V d)"
proof (cases "vw_val V")
  case None
  then show ?thesis using assms by (simp add: wf_view_def stake_of_def)
next
  case (Some v)
  then show ?thesis
    using wf_viewD(6) [OF assms Some, of d] by (auto simp: stake_of_def order_less_imp_le split: option.splits)
qed

lemma vw_pending_nonneg:
  assumes "wf_view blk V" and "vw_cur V \<le> R"
  shows "0 \<le> vw_pending V R d"
proof (cases "vw_val V")
  case None
  then show ?thesis using assms by (simp add: wf_view_def vw_pending_def)
next
  case (Some v)
  show ?thesis
  proof (cases "vw_del V d")
    case None
    then show ?thesis by (simp add: vw_pending_def)
  next
    case (Some del)
    have "0 < d_Stake del" "rps_of (vw_st V (d_LastUpdated del)) \<le> R"
      using wf_viewD(6,7) [OF assms(1) \<open>vw_val V = Some v\<close> Some] assms(2) by simp_all
    then show ?thesis using Some by (simp add: vw_pending_def)
  qed
qed

lemma vw_debt_nonneg:
  assumes "wf_view blk V" and "0 < M"
  shows "0 \<le> vw_debt M V"
proof (cases "vw_val V")
  case None
  then show ?thesis by (simp add: vw_debt_def)
next
  case (Some v)
  obtain r where r: "vw_rew V = Some r" "0 \<le> vr_RewardsPool r" "0 \<le> vr_CommissionRewardsPool r"
    by (rule wf_view_rewards [OF assms(1) Some])
  have "0 \<le> vw_total V"
    using wf_viewD(4) [OF assms(1) Some] Some
    by (simp add: vw_total_def sum_nonneg stake_of_nonneg [OF assms(1)])
  moreover have "0 \<le> (\<Sum>d\<in>UNIV. vw_pending V (vw_cur V) d)"
    by (intro sum_nonneg vw_pending_nonneg [OF assms(1)]) simp
  ultimately show ?thesis using r assms(2) by (simp add: vw_debt_def rewards_of_def Some)
qed

lemma view_state_exists:
  assumes "wf_view blk V" and "vw_val V = Some v"
  obtains st where "vw_st V (v_LastUpdated v) = Some st" "0 < unat (st_Count st)"
    "0 \<le> st_RewardsPer1Stake st"
proof -
  have "vw_refs V (v_LastUpdated v) \<ge> 1" using assms(2) by (simp add: vw_refs_def)
  then have "1 \<le> cnt_of (vw_st V (v_LastUpdated v))"
    using wf_viewD(1) [OF assms] order_trans by blast
  then obtain st where st: "vw_st V (v_LastUpdated v) = Some st" "0 < unat (st_Count st)"
    by (auto simp: cnt_of_def split: option.splits)
  then show ?thesis using that wf_viewD(2) [OF assms, of "v_LastUpdated v"] by (simp add: rps_of_def)
qed

lemma no_stake_no_delegation:
  assumes "wf_view blk V" and "vw_val V = Some v" and "v_TotalStake v = 0"
  shows "vw_del V d = None"
proof (rule ccontr)
  assume "vw_del V d \<noteq> None"
  then obtain del where del: "vw_del V d = Some del" by blast
  have "stake_of (vw_del V d) = 0"
    by (rule sum_UNIV_eq_0_D)
      (use wf_viewD(4) [OF assms(1,2)] assms(3) stake_of_nonneg [OF assms(1)] in simp_all)
  then show False using wf_viewD(6) [OF assms(1,2) del] del by (simp add: stake_of_def)
qed


subsection \<open>Releasing a reference\<close>

definition decr_st :: "block_num \<Rightarrow> (block_num \<Rightarrow> State option) \<Rightarrow> block_num \<Rightarrow> State option" where
  "decr_st b st = st(b := (case st b of
     None \<Rightarrow> None
   | Some x \<Rightarrow> if st_Count x - 1 = 0 then None else Some (x\<lparr>st_Count := st_Count x - 1\<rparr>)))"

lemma word_minus_one:
  assumes "(0::nat) < unat (c::'a::len word)"
  shows "unat (c - 1) = unat c - 1"
  using assms by (metis unat_gt_0 unat_minus_one)

lemma decr_st_other [simp]: "b' \<noteq> b \<Longrightarrow> decr_st b st b' = st b'"
  by (simp add: decr_st_def)

lemma cnt_decr_st:
  assumes "0 < cnt_of (st b)"
  shows "cnt_of (decr_st b st b) = cnt_of (st b) - 1"
  using assms
  by (auto simp: decr_st_def cnt_of_def word_minus_one split: option.splits)

lemma rps_decr_st:
  assumes "1 < cnt_of (st b)"
  shows "rps_of (decr_st b st b) = rps_of (st b)"
  using assms
  by (auto simp: decr_st_def cnt_of_def rps_of_def split: option.splits)

lemma rps_decr_nonneg: "0 \<le> rps_of (st c) \<Longrightarrow> 0 \<le> rps_of (decr_st b st c)"
  by (auto simp: decr_st_def rps_of_def split: option.splits)

lemma decr_st_dom: "decr_st b st c \<noteq> None \<Longrightarrow> st c \<noteq> None"
  by (auto simp: decr_st_def split: option.splits if_splits)

lemma finite_at_block [simp]: "finite (at_block V b)"
  by (rule finite_subset [of _ UNIV]) auto

lemma div_mult_le: "(0::int) < y \<Longrightarrow> x div y * y \<le> x"
  by (simp flip: minus_mod_eq_div_mult)

subsection \<open>Taking over the pool into the state of the block\<close>

text \<open>
  What holds between \<open>settle\<close> and the moment the new state is written: \<open>state\<close> is the state of this
  block held in memory, \<open>st\<close> the stored states, in which the validator's own reference is released.
\<close>

definition settled :: "int \<Rightarrow> block_num \<Rightarrow> vview \<Rightarrow> State \<Rightarrow> ValidatorRewards \<Rightarrow> (block_num \<Rightarrow> State option) \<Rightarrow> bool" where
  "settled M blk V state r1 st \<longleftrightarrow>
     (\<exists>r. vw_rew V = Some r \<and> vr_CommissionRewardsPool r1 = vr_CommissionRewardsPool r \<and>
        0 \<le> vr_RewardsPool r1 \<and>
        M * vr_RewardsPool r1 + (\<Sum>d\<in>UNIV. vw_pending V (st_RewardsPer1Stake state) d) \<le>
        M * vr_RewardsPool r + (\<Sum>d\<in>UNIV. vw_pending V (vw_cur V) d)) \<and>
     (\<forall>b. b \<noteq> blk \<longrightarrow> card (at_block V b) \<le> cnt_of (st b)) \<and>
     (at_block V blk \<noteq> {} \<longrightarrow> st blk = Some state) \<and>
     1 + card (at_block V blk) \<le> unat (st_Count state) \<and>
     (\<forall>d del. vw_del V d = Some del \<longrightarrow> rps_of (st (d_LastUpdated del)) = rps_of (vw_st V (d_LastUpdated del))) \<and>
     vw_cur V \<le> st_RewardsPer1Stake state \<and>
     (\<forall>b. 0 \<le> rps_of (st b)) \<and> (\<forall>b. st b \<noteq> None \<longrightarrow> b \<le> blk)"

lemma pending_shift:
  "vw_pending V (R + i) d = vw_pending V R d + i * stake_of (vw_del V d)"
  by (simp add: vw_pending_def stake_of_def algebra_simps split: option.splits)

lemma settled_existing:
  assumes wf: "wf_view blk V" and v: "vw_val V = Some v" and r: "vw_rew V = Some r"
    and st: "vw_st V blk = Some state"
  shows "settled M blk V state r (vw_st V)"
proof -
  have lu: "v_LastUpdated v = blk" using wf_viewD(5) [OF wf v] st by simp
  have cur: "vw_cur V = st_RewardsPer1Stake state" using lu v st by (simp add: vw_cur_def rps_of_def)
  have "0 \<le> vr_RewardsPool r" using wf_view_rewards [OF wf v] r by (metis option.inject)
  moreover have "card (at_block V b) \<le> cnt_of (vw_st V b)" for b
    using wf_viewD(1) [OF wf v, of b] by (simp add: vw_refs_def v)
  moreover have "1 + card (at_block V blk) \<le> unat (st_Count state)"
    using wf_viewD(1) [OF wf v, of blk] v lu st by (simp add: vw_refs_def cnt_of_def)
  ultimately show ?thesis
    using st r wf_viewD(2,3) [OF wf v] by (simp add: settled_def cur)
qed

lemma settled_new:
  assumes wf: "wf_view blk V" and v: "vw_val V = Some v" and r: "vw_rew V = Some r" and M: "0 < M"
    and none: "vw_st V blk = None" and old: "vw_st V (v_LastUpdated v) = Some old"
    and inc: "inc = (if 0 < v_TotalStake v then vr_RewardsPool r * M div v_TotalStake v else 0)"
  shows "settled M blk V \<lparr>st_RewardsPer1Stake = st_RewardsPer1Stake old + inc, st_Count = 1\<rparr>
    (r\<lparr>vr_RewardsPool := 0\<rparr>) (decr_st (v_LastUpdated v) (vw_st V))"
proof -
  let ?lu = "v_LastUpdated v" and ?st = "decr_st (v_LastUpdated v) (vw_st V)"
  have pool: "0 \<le> vr_RewardsPool r" using wf_view_rewards [OF wf v] r by (metis option.inject)
  have lu: "?lu \<noteq> blk" using none old by auto
  have cur: "vw_cur V = st_RewardsPer1Stake old" using v old by (simp add: vw_cur_def rps_of_def)
  have inc0: "0 \<le> inc" using inc pool M by (simp add: pos_imp_zdiv_nonneg_iff)
  have incT: "inc * v_TotalStake v \<le> M * vr_RewardsPool r"
    using inc pool M div_mult_le [of "v_TotalStake v" "vr_RewardsPool r * M"] by (auto simp: mult.commute [of M])
  have tot: "v_TotalStake v = (\<Sum>d\<in>UNIV. stake_of (vw_del V d))" by (rule wf_viewD(4) [OF wf v])
  have cnt: "card (at_block V b) + of_bool (b = ?lu) \<le> cnt_of (vw_st V b)" for b
    using wf_viewD(1) [OF wf v, of b] v by (auto simp: vw_refs_def)
  have pend: "(\<Sum>d\<in>UNIV. vw_pending V (st_RewardsPer1Stake old + inc) d) \<le>
      M * vr_RewardsPool r + (\<Sum>d\<in>UNIV. vw_pending V (vw_cur V) d)"
    using incT by (simp add: pending_shift cur sum.distrib tot flip: sum_distrib_left)
  have empty: "at_block V blk = {}"
    using cnt [of blk] none by (simp add: cnt_of_def)
  have refs: "card (at_block V b) \<le> cnt_of (?st b)" for b
  proof (cases "b = ?lu")
    case True
    then show ?thesis using cnt [of b] cnt_decr_st [of "vw_st V" ?lu] by simp
  next
    case False
    then show ?thesis using cnt [of b] by simp
  qed
  have rps: "rps_of (?st (d_LastUpdated del)) = rps_of (vw_st V (d_LastUpdated del))"
    if "vw_del V d = Some del" for d del
  proof (cases "d_LastUpdated del = ?lu")
    case True
    then have "d \<in> at_block V ?lu" using that by (simp add: at_block_def)
    then have "0 < card (at_block V ?lu)" by (auto simp: card_gt_0_iff)
    then show ?thesis using True cnt [of ?lu] rps_decr_st [of "vw_st V" ?lu] by simp
  next
    case False
    then show ?thesis by simp
  qed
  have dom: "\<forall>b. ?st b \<noteq> None \<longrightarrow> b \<le> blk" using wf_viewD(3) [OF wf v] decr_st_dom by blast
  show ?thesis
    unfolding settled_def
    using refs rps pend empty inc0 r wf_viewD(2) [OF wf v] dom by (auto simp: cur rps_decr_nonneg)
qed


subsection \<open>Changing one delegation\<close>

text \<open>
  The common shape of delegating, undelegating, redelegating and claiming: the delegator's reference
  is released and its reward \<open>payout\<close> paid, the delegation gets its new value and, if it is kept, a
  reference to the state of this block, and the state, the validator and its rewards are written.
\<close>

definition claimed :: "vview \<Rightarrow> address \<Rightarrow> (block_num \<Rightarrow> State option) \<Rightarrow> block_num \<Rightarrow> State option" where
  "claimed V d st = (case vw_del V d of None \<Rightarrow> st | Some del \<Rightarrow> decr_st (d_LastUpdated del) st)"

definition payout :: "int \<Rightarrow> vview \<Rightarrow> int \<Rightarrow> address \<Rightarrow> int" where
  "payout M V R d = vw_pending V R d div M"

definition touched :: "block_num \<Rightarrow> vview \<Rightarrow> State \<Rightarrow> ValidatorRewards \<Rightarrow> (block_num \<Rightarrow> State option)
    \<Rightarrow> Validator \<Rightarrow> address \<Rightarrow> Delegation option \<Rightarrow> vview" where
  "touched blk V state r1 st v' d newdel =
     \<lparr>vw_val = Some v', vw_rew = Some r1, vw_del = (vw_del V)(d := newdel),
      vw_st = (claimed V d st)(blk :=
        Some (state\<lparr>st_Count := st_Count state + (if newdel = None then 0 else 1)\<rparr>))\<rparr>"

lemma settledD:
  assumes "settled M blk V state r1 st"
  shows "\<And>b. b \<noteq> blk \<Longrightarrow> card (at_block V b) \<le> cnt_of (st b)"
    and "at_block V blk \<noteq> {} \<Longrightarrow> st blk = Some state"
    and "1 + card (at_block V blk) \<le> unat (st_Count state)"
    and "\<And>d del. vw_del V d = Some del \<Longrightarrow>
      rps_of (st (d_LastUpdated del)) = rps_of (vw_st V (d_LastUpdated del))"
    and "vw_cur V \<le> st_RewardsPer1Stake state"
    and "\<And>b. 0 \<le> rps_of (st b)" and "\<And>b. st b \<noteq> None \<Longrightarrow> b \<le> blk"
    and "0 \<le> vr_RewardsPool r1"
  using assms unfolding settled_def by blast+

lemma settled_rps_at_block:
  assumes "settled M blk V state r1 st" and "vw_del V d = Some del" and "d_LastUpdated del = blk"
  shows "rps_of (vw_st V blk) = st_RewardsPer1Stake state"
proof -
  have "at_block V blk \<noteq> {}" using assms(2,3) by (auto simp: at_block_def)
  then have "st blk = Some state" by (rule settledD(2) [OF assms(1)])
  then show ?thesis using settledD(4) [OF assms(1,2)] assms(3) by (simp add: rps_of_def)
qed

lemma claimed_refs:
  assumes "settled M blk V state r1 st" and "b \<noteq> blk"
  shows "card (at_block V b - {d}) \<le> cnt_of (claimed V d st b)"
proof (cases "d \<in> at_block V b")
  case True
  then obtain del where del: "vw_del V d = Some del" "d_LastUpdated del = b" by (auto simp: at_block_def)
  have "0 < card (at_block V b)" using True by (auto simp: card_gt_0_iff)
  then show ?thesis
    using settledD(1) [OF assms] del True cnt_decr_st [of st b]
    by (simp add: claimed_def card_Diff_singleton)
next
  case False
  then have "claimed V d st b = st b"
    by (auto simp: claimed_def at_block_def split: option.splits)
  then show ?thesis using settledD(1) [OF assms] False by simp
qed

lemma claimed_rps:
  assumes s: "settled M blk V state r1 st" and x: "vw_del V x = Some del" "x \<noteq> d" and b: "d_LastUpdated del \<noteq> blk"
  shows "rps_of (claimed V d st (d_LastUpdated del)) = rps_of (vw_st V (d_LastUpdated del))"
proof (cases "d \<in> at_block V (d_LastUpdated del)")
  case True
  then obtain del' where del': "vw_del V d = Some del'" "d_LastUpdated del' = d_LastUpdated del"
    by (auto simp: at_block_def)
  have "x \<in> at_block V (d_LastUpdated del)" using x(1) by (simp add: at_block_def)
  then have "{x, d} \<subseteq> at_block V (d_LastUpdated del)" using True by simp
  then have "card {x, d} \<le> card (at_block V (d_LastUpdated del))" by (rule card_mono [rotated]) simp
  then have "1 < cnt_of (st (d_LastUpdated del))" using settledD(1) [OF s b] x(2) by simp
  then show ?thesis
    using rps_decr_st [of st "d_LastUpdated del"] del' settledD(4) [OF s x(1)] by (simp add: claimed_def)
next
  case False
  then have "claimed V d st (d_LastUpdated del) = st (d_LastUpdated del)"
    by (auto simp: claimed_def at_block_def split: option.splits)
  then show ?thesis using settledD(4) [OF s x(1)] by simp
qed

lemma claimed_facts:
  assumes "settled M blk V state r1 st"
  shows "0 \<le> rps_of (claimed V d st b)" and "claimed V d st b \<noteq> None \<Longrightarrow> b \<le> blk"
proof -
  show "0 \<le> rps_of (claimed V d st b)"
    using settledD(6) [OF assms] by (simp add: claimed_def rps_decr_nonneg split: option.splits)
  assume "claimed V d st b \<noteq> None"
  then have "st b \<noteq> None" by (cases "vw_del V d") (use decr_st_dom in \<open>force simp: claimed_def\<close>)+
  then show "b \<le> blk" by (rule settledD(7) [OF assms])
qed

lemma touched_cur:
  assumes "v_LastUpdated v' = blk"
  shows "vw_cur (touched blk V state r1 st v' d newdel) = st_RewardsPer1Stake state"
  using assms by (simp add: touched_def vw_cur_def rps_of_def)

lemma touched_pending:
  assumes s: "settled M blk V state r1 st" and new: "\<And>x. newdel = Some x \<Longrightarrow> d_LastUpdated x = blk"
  shows "vw_pending (touched blk V state r1 st v' d newdel) (st_RewardsPer1Stake state) x =
    (if x = d then 0 else vw_pending V (st_RewardsPer1Stake state) x)"
proof (cases "x = d")
  case True
  then show ?thesis
    using new by (cases newdel) (simp_all add: touched_def vw_pending_def rps_of_def)
next
  case False
  show ?thesis
  proof (cases "vw_del V x")
    case None
    then show ?thesis using False by (simp add: touched_def vw_pending_def)
  next
    case (Some del)
    show ?thesis
    proof (cases "d_LastUpdated del = blk")
      case True
      then show ?thesis
        using False Some settled_rps_at_block [OF s Some True]
        by (simp add: touched_def vw_pending_def rps_of_def)
    next
      case b: False
      then show ?thesis
        using False Some claimed_rps [OF s Some False b]
        by (simp add: touched_def vw_pending_def)
    qed
  qed
qed


lemma at_block_touched:
  assumes "\<And>x. newdel = Some x \<Longrightarrow> d_LastUpdated x = blk"
  shows "at_block (touched blk V state r1 st v' d newdel) b =
    at_block V b - {d} \<union> (if newdel \<noteq> None \<and> b = blk then {d} else {})"
  using assms by (auto simp: touched_def at_block_def split: if_splits)

lemma touched_refs:
  assumes s: "settled M blk V state r1 st" and lu: "v_LastUpdated v' = blk"
    and new: "\<And>x. newdel = Some x \<Longrightarrow> d_LastUpdated x = blk" and room: "unat (st_Count state) + 1 < 2 ^ 32"
  shows "vw_refs (touched blk V state r1 st v' d newdel) b \<le>
    cnt_of (vw_st (touched blk V state r1 st v' d newdel) b)" (is "vw_refs ?V b \<le> _")
proof -
  have at: "at_block ?V b = at_block V b - {d} \<union> (if newdel \<noteq> None \<and> b = blk then {d} else {})"
    by (rule at_block_touched) (rule new)
  have val: "vw_val ?V = Some v'" by (simp add: touched_def)
  show ?thesis
  proof (cases "b = blk")
    case True
    have inc: "unat (st_Count state + 1) = unat (st_Count state) + 1"
      using room by (simp add: unat_word_ariths)
    have "card (at_block V blk - {d}) \<le> card (at_block V blk)" by (rule card_mono) auto
    then have "1 + card (at_block V blk - {d}) \<le> unat (st_Count state)"
      using settledD(3) [OF s] by simp
    moreover have "card (at_block V blk - {d} \<union> {d}) = card (at_block V blk - {d}) + 1"
      by (simp add: card.insert_remove)
    ultimately show ?thesis
      unfolding vw_refs_def at val using True lu inc by (auto simp: touched_def cnt_of_def)
  next
    case False
    then show ?thesis
      unfolding vw_refs_def at val using lu claimed_refs [OF s False] by (simp add: touched_def)
  qed
qed

lemma touched_wf:
  assumes wf: "wf_view blk V" and v: "vw_val V = Some v" and s: "settled M blk V state r1 st"
    and lu: "v_LastUpdated v' = blk"
    and tot: "v_TotalStake v' = v_TotalStake v - stake_of (vw_del V d) + stake_of newdel"
    and new: "\<And>x. newdel = Some x \<Longrightarrow> d_LastUpdated x = blk \<and> 0 < d_Stake x"
    and room: "unat (st_Count state) + 1 < 2 ^ 32"
  shows "wf_view blk (touched blk V state r1 st v' d newdel)" (is "wf_view blk ?V")
proof -
  have new': "\<And>x. newdel = Some x \<Longrightarrow> d_LastUpdated x = blk" using new by blast
  have R0: "0 \<le> st_RewardsPer1Stake state"
    using settledD(5) [OF s] wf_viewD(2) [OF wf v, of "v_LastUpdated v"] v by (simp add: vw_cur_def)
  have sum: "(\<Sum>x\<in>UNIV. stake_of (vw_del ?V x)) =
      (\<Sum>x\<in>UNIV. stake_of (vw_del V x)) - stake_of (vw_del V d) + stake_of newdel"
    by (subst sum_UNIV_change_at [of d _ "\<lambda>x. stake_of (vw_del V x)"]) (simp_all add: touched_def)
  have comm: "0 \<le> vr_CommissionRewardsPool r1"
    using s wf_view_rewards [OF wf v] unfolding settled_def by (metis option.inject)
  have rps: "rps_of (vw_st ?V (d_LastUpdated del)) \<le> st_RewardsPer1Stake state"
    if "vw_del ?V x = Some del" for x del
  proof (cases "d_LastUpdated del = blk")
    case True
    then show ?thesis by (simp add: touched_def rps_of_def)
  next
    case b: False
    then have x: "x \<noteq> d" "vw_del V x = Some del" using that new' by (auto simp: touched_def split: if_splits)
    then show ?thesis
      using claimed_rps [OF s x(2,1) b] wf_viewD(7) [OF wf v x(2)] settledD(5) [OF s] b
      by (simp add: touched_def)
  qed
  have pos: "0 < d_Stake del" if "vw_del ?V x = Some del" for x del
    using that new wf_viewD(6) [OF wf v] by (auto simp: touched_def split: if_splits)
  have st: "0 \<le> rps_of (vw_st ?V b)" "vw_st ?V b \<noteq> None \<Longrightarrow> b \<le> blk" for b
    using claimed_facts [OF s, of d b] R0 by (auto simp: touched_def rps_of_def split: if_splits)
  have val: "vw_val ?V = Some v'" "vw_rew ?V = Some r1" by (simp_all add: touched_def)
  show ?thesis
    unfolding wf_view_def
    using touched_refs [OF s lu new' room] st sum tot wf_viewD(4) [OF wf v] settledD(8) [OF s] comm rps pos
    by (auto simp: val touched_cur [OF lu] lu)
qed

lemma touched_debt:
  assumes v: "vw_val V = Some v" and M: "0 < M" and s: "settled M blk V state r1 st"
    and lu: "v_LastUpdated v' = blk"
    and tot: "v_TotalStake v' = v_TotalStake v - stake_of (vw_del V d) + stake_of newdel"
    and new: "\<And>x. newdel = Some x \<Longrightarrow> d_LastUpdated x = blk"
  shows "vw_debt M (touched blk V state r1 st v' d newdel) + M * payout M V (st_RewardsPer1Stake state) d
    \<le> vw_debt M V + M * (stake_of newdel - stake_of (vw_del V d))" (is "vw_debt M ?V + _ \<le> _")
proof -
  let ?R = "st_RewardsPer1Stake state"
  obtain r where r: "vw_rew V = Some r" "vr_CommissionRewardsPool r1 = vr_CommissionRewardsPool r"
    "M * vr_RewardsPool r1 + (\<Sum>x\<in>UNIV. vw_pending V ?R x) \<le>
     M * vr_RewardsPool r + (\<Sum>x\<in>UNIV. vw_pending V (vw_cur V) x)"
    using s unfolding settled_def by blast
  have "(\<Sum>x\<in>UNIV. vw_pending ?V ?R x) = (\<Sum>x\<in>UNIV. vw_pending V ?R x) - vw_pending V ?R d"
    by (subst sum_UNIV_change_at [of d _ "vw_pending V ?R"]) (simp_all add: touched_pending [OF s new])
  moreover have "M * payout M V ?R d \<le> vw_pending V ?R d"
    using div_mult_le [OF M] by (simp add: payout_def mult.commute)
  moreover have "vw_debt M ?V = M * (v_TotalStake v' + vr_RewardsPool r1 + vr_CommissionRewardsPool r1)
      + (\<Sum>x\<in>UNIV. vw_pending ?V ?R x)"
    unfolding vw_debt_def touched_cur [OF lu]
    by (simp add: touched_def vw_total_def rewards_of_def algebra_simps)
  moreover have "vw_debt M V = M * (v_TotalStake v + vr_RewardsPool r + vr_CommissionRewardsPool r)
      + (\<Sum>x\<in>UNIV. vw_pending V (vw_cur V) x)"
    using v r(1) by (simp add: vw_debt_def vw_total_def rewards_of_def)
  ultimately show ?thesis using r(2,3) tot by (simp add: algebra_simps)
qed


subsection \<open>The other changes of a view\<close>

lemma deleted_wf:
  assumes "\<And>b. 0 \<le> rps_of (st b)" and "\<And>b. st b \<noteq> None \<Longrightarrow> b \<le> blk"
    and "vw_val V = None" "vw_rew V = None" "\<And>d. vw_del V d = None" "vw_st V = st"
  shows "wf_view blk V" and "vw_debt M V = 0"
  using assms by (auto simp: wf_view_def vw_refs_def at_block_def vw_debt_def)

lemma record_changed:
  assumes wf: "wf_view blk V" and v: "vw_val V = Some v"
    and eq: "v_TotalStake v' = v_TotalStake v" "v_LastUpdated v' = v_LastUpdated v"
    and V': "vw_val V' = Some v'" "vw_rew V' = vw_rew V" "vw_del V' = vw_del V" "vw_st V' = vw_st V"
  shows "wf_view blk V'" and "vw_debt M V' = vw_debt M V"
proof -
  have cur: "vw_cur V' = vw_cur V" using v V' eq by (simp add: vw_cur_def)
  have pend: "vw_pending V' R = vw_pending V R" for R by (rule ext) (simp add: V' vw_pending_def split: option.splits)
  show "wf_view blk V'"
    using wf v V' eq by (simp add: wf_view_def cur vw_refs_def at_block_def)
  show "vw_debt M V' = vw_debt M V"
    using v V' eq by (simp add: vw_debt_def cur vw_total_def pend)
qed

lemma rewards_changed:
  assumes wf: "wf_view blk V" and v: "vw_val V = Some v"
    and r': "0 \<le> vr_RewardsPool r'" "0 \<le> vr_CommissionRewardsPool r'"
    and V': "vw_val V' = vw_val V" "vw_rew V' = Some r'" "vw_del V' = vw_del V" "vw_st V' = vw_st V"
  shows "wf_view blk V'"
    and "vw_debt M V' = vw_debt M V + M * (rewards_of (Some r') - rewards_of (vw_rew V))"
proof -
  have cur: "vw_cur V' = vw_cur V" using v V' by (simp add: vw_cur_def)
  have pend: "vw_pending V' R = vw_pending V R" for R by (rule ext) (simp add: V' vw_pending_def split: option.splits)
  show "wf_view blk V'"
    using wf v V' r' by (simp add: wf_view_def cur vw_refs_def at_block_def)
  show "vw_debt M V' = vw_debt M V + M * (rewards_of (Some r') - rewards_of (vw_rew V))"
    using v V' by (simp add: vw_debt_def cur vw_total_def pend algebra_simps)
qed

lemma registered_wf:
  assumes st: "\<And>b. 0 \<le> rps_of (st b)" "\<And>b. st b \<noteq> None \<Longrightarrow> b \<le> blk"
    and v: "v_TotalStake v = stake_of newdel" "v_LastUpdated v = blk"
    and new: "\<And>x. newdel = Some x \<Longrightarrow> d_LastUpdated x = blk \<and> 0 < d_Stake x"
    and V: "vw_val V = Some v" "vw_rew V = Some \<lparr>vr_RewardsPool = 0, vr_CommissionRewardsPool = 0\<rparr>"
      "vw_del V = Map.empty(d := newdel)"
      "vw_st V = st(blk \<mapsto> \<lparr>st_RewardsPer1Stake = 0, st_Count = (if newdel = None then 1 else 2)\<rparr>)"
  shows "wf_view blk V" and "vw_debt M V = M * stake_of newdel"
proof -
  have at: "at_block V b = (if newdel \<noteq> None \<and> b = blk then {d} else {})" for b
    using new V(3) by (auto simp: at_block_def split: if_splits)
  have refs: "vw_refs V b \<le> cnt_of (vw_st V b)" for b
    unfolding vw_refs_def at using V v(2) by (auto simp: cnt_of_def)
  have sum: "(\<Sum>x\<in>UNIV. stake_of (vw_del V x)) = stake_of newdel"
    by (subst sum_UNIV_change_at [of d _ "\<lambda>_. 0"]) (simp_all add: V stake_of_def)
  have cur: "vw_cur V = 0" using V v by (simp add: vw_cur_def rps_of_def)
  have pend: "vw_pending V 0 x = 0" for x
    using V new by (auto simp: vw_pending_def rps_of_def split: option.splits if_splits)
  have del: "0 < d_Stake del \<and> rps_of (vw_st V (d_LastUpdated del)) \<le> 0" if "vw_del V x = Some del" for x del
    using that V new by (auto simp: rps_of_def split: if_splits)
  show "wf_view blk V"
    unfolding wf_view_def using refs st v sum del
    by (auto simp: V(1,2) cur) (auto simp: V(4) rps_of_def split: if_splits)
  show "vw_debt M V = M * stake_of newdel"
    using V v by (simp add: vw_debt_def cur pend vw_total_def rewards_of_def)
qed

lemma wf_view_later:
  assumes "wf_view blk V" and "blk < blk'"
  shows "wf_view blk' V"
proof -
  have "vw_st V blk' = None" using assms by (auto simp: wf_view_def dest: leD)
  then show ?thesis
    using assms by (auto simp: wf_view_def dest: order.trans less_imp_le split: option.splits)
qed

end
