(* ===== verification/Dpos_Invariant.thy ===== *)
theory Dpos_Invariant
  imports Dpos_Ledger
begin

section \<open>The invariant of the DPOS contract\<close>

text \<open>
  What holds between calls. The iterable lists name exactly the records that are stored; the view of every
  validator is well formed; the number of eligible votes and the delegated amount kept in memory
  are the sums over the validators. \<open>owed\<close> is what the contract has to be able to pay, again in units
  of a token divided by \<open>ValidatorMaximumStake\<close>: the debt of every validator and the stake under
  undelegation. The contract is solvent when its balance covers it, \<open>extra\<close> being the value a call
  brought with it and has not booked yet.
\<close>

definition view :: "dpos \<Rightarrow> address \<Rightarrow> vview" where
  "view s a = \<lparr>vw_val = GetValidator s a, vw_rew = GetValidatorRewards s a,
     vw_del = (\<lambda>d. s_delegation s (d, a)), vw_st = (\<lambda>b. s_state s (a, b))\<rparr>"

text \<open>\<open>l k\<close> lists, without repetition, the second components of the keys \<open>(k, x)\<close> that \<open>m\<close> holds.\<close>

definition indexes :: "('k \<Rightarrow> 'a list) \<Rightarrow> ('k \<times> 'a \<Rightarrow> 'b option) \<Rightarrow> bool" where
  "indexes l m \<longleftrightarrow> (\<forall>k. distinct (l k)) \<and> (\<forall>k x. x \<in> set (l k) \<longleftrightarrow> m (k, x) \<noteq> None)"

definition validators_wf :: "dpos \<Rightarrow> bool" where
  "validators_wf s \<longleftrightarrow>
     indexes (\<lambda>_::unit. s_validators_list s) (\<lambda>(_, a). s_validator s a) \<and>
     (\<forall>a. s_validator_info s a \<noteq> None \<longleftrightarrow> s_validator s a \<noteq> None)"

definition delegations_wf :: "dpos \<Rightarrow> bool" where
  "delegations_wf s \<longleftrightarrow> indexes (s_delegator_validators s) (s_delegation s)"

definition undelegations_v1_wf :: "dpos \<Rightarrow> bool" where
  "undelegations_v1_wf s \<longleftrightarrow>
     indexes (s_v1_validators s) (s_undelegation_v1 s) \<and>
     (\<forall>k u. s_undelegation_v1 s k = Some u \<longrightarrow> 0 < u_Amount u)"

definition last_id :: "dpos \<Rightarrow> address \<Rightarrow> u64" where
  "last_id s d = (case s_last_unique_id s d of None \<Rightarrow> 0 | Some i \<Rightarrow> i)"

definition undelegations_v2_wf :: "dpos \<Rightarrow> bool" where
  "undelegations_v2_wf s \<longleftrightarrow>
     indexes (s_v2_ids s) (\<lambda>(k, i). s_undelegation_v2 s (fst k, snd k, i)) \<and>
     indexes (s_v2_validators s) (\<lambda>k. if s_v2_ids s k = [] then None else Some ()) \<and>
     (\<forall>k. length (s_v2_ids s k) < 2 ^ 32) \<and>
     (\<forall>d a i. i \<in> set (s_v2_ids s (d, a)) \<longrightarrow> i \<le> last_id s d) \<and>
     (\<forall>k u. s_undelegation_v2 s k = Some u \<longrightarrow> 0 < u_Amount u)"

definition amount_of :: "('z UndelegationV1_scheme) option \<Rightarrow> int" where
  "amount_of u = (case u of None \<Rightarrow> 0 | Some x \<Rightarrow> u_Amount x)"

definition undelegated :: "dpos \<Rightarrow> int" where
  "undelegated s = (\<Sum>k\<in>UNIV. amount_of (s_undelegation_v1 s k)) + (\<Sum>k\<in>UNIV. amount_of (s_undelegation_v2 s k))"

definition total_stake :: "dpos \<Rightarrow> int" where
  "total_stake s = (\<Sum>a\<in>UNIV. vw_total (view s a))"

definition votes :: "ChainConfig \<Rightarrow> int \<Rightarrow> int" where
  "votes cfg stake =
     (if EligibilityBalanceThreshold (DPOS cfg) \<le> stake then stake div VoteEligibilityBalanceStep (DPOS cfg) else 0)"

definition total_votes :: "ChainConfig \<Rightarrow> dpos \<Rightarrow> int" where
  "total_votes cfg s = (\<Sum>a\<in>UNIV. votes cfg (vw_total (view s a)))"

definition owed :: "ChainConfig \<Rightarrow> dpos \<Rightarrow> int" where
  "owed cfg s =
     (\<Sum>a\<in>UNIV. vw_debt (ValidatorMaximumStake (DPOS cfg)) (view s a))
     + ValidatorMaximumStake (DPOS cfg) * undelegated s"

definition solvent :: "ChainConfig \<Rightarrow> int \<Rightarrow> dpos \<Rightarrow> bool" where
  "solvent cfg extra s \<longleftrightarrow>
     owed cfg s + ValidatorMaximumStake (DPOS cfg) * extra
     \<le> ValidatorMaximumStake (DPOS cfg) * w_balance s dpos_contract_address"

definition ledger_inv :: "ChainConfig \<Rightarrow> dpos \<Rightarrow> bool" where
  "ledger_inv cfg s \<longleftrightarrow>
     validators_wf s \<and> delegations_wf s \<and> undelegations_v1_wf s \<and> undelegations_v2_wf s \<and>
     (\<forall>a. wf_view (w_block s) (view s a)) \<and>
     uint (c_eligible_vote_count s) = total_votes cfg s"

definition dpos_inv :: "ChainConfig \<Rightarrow> dpos \<Rightarrow> bool" where
  "dpos_inv cfg s \<longleftrightarrow> ledger_inv cfg s \<and> c_amount_delegated s = word_of_int (total_stake s)"

text \<open>
  What the configuration has to satisfy, and the room the counters need: a state's 32-bit
  counter, the 64-bit number of votes.
\<close>

definition config_ok :: "ChainConfig \<Rightarrow> bool" where
  "config_ok cfg \<longleftrightarrow>
     0 < ValidatorMaximumStake (DPOS cfg) \<and> 0 < MinimumDeposit (DPOS cfg) \<and>
     0 < VoteEligibilityBalanceStep (DPOS cfg) \<and>
     EligibilityBalanceThreshold (DPOS cfg) \<le> ValidatorMaximumStake (DPOS cfg)"

definition room :: "ChainConfig \<Rightarrow> address \<Rightarrow> dpos \<Rightarrow> bool" where
  "room cfg a s \<longleftrightarrow>
     (\<forall>b st. s_state s (a, b) = Some st \<longrightarrow> unat (st_Count st) + 1 < 2 ^ 32) \<and>
     w_balance s dpos_contract_address < 2 ^ 64 * VoteEligibilityBalanceStep (DPOS cfg)"

subsection \<open>Arithmetic of the totals\<close>

lemma ledger_invD:
  assumes "ledger_inv cfg s"
  shows "validators_wf s" "delegations_wf s" "undelegations_v1_wf s" "undelegations_v2_wf s"
    "wf_view (w_block s) (view s a)" "uint (c_eligible_vote_count s) = total_votes cfg s"
  using assms by (auto simp: ledger_inv_def)

lemma view_sels [simp]:
  "vw_val (view s a) = GetValidator s a" "vw_rew (view s a) = GetValidatorRewards s a"
  "vw_del (view s a) d = s_delegation s (d, a)" "vw_st (view s a) b = s_state s (a, b)"
  by (simp_all add: view_def)

lemma view_eqI:
  assumes "GetValidator s a = GetValidator s' a" "GetValidatorRewards s a = GetValidatorRewards s' a"
    "\<And>d. s_delegation s (d, a) = s_delegation s' (d, a)" "\<And>b. s_state s (a, b) = s_state s' (a, b)"
  shows "view s a = view s' a"
  using assms by (simp add: view_def)

lemma amount_of_nonneg:
  assumes "\<And>u. x = Some u \<Longrightarrow> 0 < u_Amount u"
  shows "0 \<le> amount_of x"
  using assms by (auto simp: amount_of_def order_less_imp_le split: option.splits)

lemma undelegated_nonneg:
  assumes "ledger_inv cfg s"
  shows "0 \<le> undelegated s"
    and "amount_of (s_undelegation_v1 s k) \<le> undelegated s"
    and "amount_of (s_undelegation_v2 s k') \<le> undelegated s"
proof -
  have n1: "0 \<le> amount_of (s_undelegation_v1 s k)" for k
    using ledger_invD(3) [OF assms] unfolding undelegations_v1_wf_def by (intro amount_of_nonneg) blast
  have n2: "0 \<le> amount_of (s_undelegation_v2 s k)" for k
    using ledger_invD(4) [OF assms] unfolding undelegations_v2_wf_def by (intro amount_of_nonneg) blast
  have s1: "0 \<le> (\<Sum>k\<in>UNIV. amount_of (s_undelegation_v1 s k))" by (intro sum_nonneg n1)
  have s2: "0 \<le> (\<Sum>k\<in>UNIV. amount_of (s_undelegation_v2 s k))" by (intro sum_nonneg n2)
  show "0 \<le> undelegated s" using s1 s2 by (simp add: undelegated_def)
  show "amount_of (s_undelegation_v1 s k) \<le> undelegated s"
    using sum_UNIV_member_le [of "\<lambda>k. amount_of (s_undelegation_v1 s k)", OF n1] s2
    by (simp add: undelegated_def add_increasing2)
  show "amount_of (s_undelegation_v2 s k') \<le> undelegated s"
    using sum_UNIV_member_le [of "\<lambda>k. amount_of (s_undelegation_v2 s k)", OF n2] s1
    by (simp add: undelegated_def add_increasing)
qed

lemma vw_total_nonneg:
  assumes "wf_view blk V"
  shows "0 \<le> vw_total V"
  using wf_viewD(4) [OF assms] stake_of_nonneg [OF assms]
  by (auto simp: vw_total_def sum_nonneg split: option.splits)

lemma vw_total_le_debt:
  assumes wf: "wf_view blk V" and M: "0 < M"
  shows "M * vw_total V \<le> vw_debt M V"
proof (cases "vw_val V")
  case None
  then show ?thesis by (simp add: vw_debt_def vw_total_def)
next
  case (Some v)
  obtain r where r: "vw_rew V = Some r" "0 \<le> vr_RewardsPool r" "0 \<le> vr_CommissionRewardsPool r"
    by (rule wf_view_rewards [OF wf Some])
  have "0 \<le> (\<Sum>d\<in>UNIV. vw_pending V (vw_cur V) d)"
    by (intro sum_nonneg vw_pending_nonneg [OF wf]) simp
  then show ?thesis using r M by (simp add: vw_debt_def Some rewards_of_def distrib_left)
qed

lemma stake_le_owed:
  assumes "ledger_inv cfg s" and "config_ok cfg"
  shows "ValidatorMaximumStake (DPOS cfg) * (total_stake s + undelegated s) \<le> owed cfg s"
  using assms(2) vw_total_le_debt [OF ledger_invD(5) [OF assms(1)]]
  by (simp add: owed_def total_stake_def distrib_left sum_distrib_left sum_mono config_ok_def)

lemma debt_le_owed:
  assumes "ledger_inv cfg s" and "config_ok cfg"
  shows "vw_debt (ValidatorMaximumStake (DPOS cfg)) (view s a) \<le> owed cfg s"
  using undelegated_nonneg(1) [OF assms(1)] assms(2)
    sum_UNIV_member_le [of "\<lambda>a. vw_debt (ValidatorMaximumStake (DPOS cfg)) (view s a)" a]
    vw_debt_nonneg [OF ledger_invD(5) [OF assms(1)]]
  by (simp add: owed_def config_ok_def add_increasing2)

lemma votes_le:
  assumes "config_ok cfg" and "0 \<le> t"
  shows "0 \<le> votes cfg t" and "VoteEligibilityBalanceStep (DPOS cfg) * votes cfg t \<le> t"
  using assms div_mult_le [of "VoteEligibilityBalanceStep (DPOS cfg)" t]
  by (auto simp: votes_def config_ok_def pos_imp_zdiv_nonneg_iff mult.commute)

lemma total_votes_le:
  assumes "ledger_inv cfg s" and "config_ok cfg"
  shows "VoteEligibilityBalanceStep (DPOS cfg) * total_votes cfg s \<le> total_stake s"
    and "votes cfg (vw_total (view s a)) \<le> total_votes cfg s"
  using votes_le [OF assms(2) vw_total_nonneg [OF ledger_invD(5) [OF assms(1)]]]
  by (auto simp: total_votes_def total_stake_def sum_distrib_left intro!: sum_mono sum_UNIV_member_le)

subsection \<open>Votes\<close>

lemma div_less_of_mult:
  assumes "(0::int) < k" and "t < n * k"
  shows "t div k < n"
proof (rule ccontr)
  assume "\<not> t div k < n"
  then have "n * k \<le> t div k * k" using assms(1) by (intro mult_right_mono) simp_all
  also have "\<dots> \<le> t" by (rule div_mult_le [OF assms(1)])
  finally show False using assms(2) by simp
qed

lemma voteCount_votes:
  assumes "config_ok cfg" and "0 \<le> t" and "t < 2 ^ 64 * VoteEligibilityBalanceStep (DPOS cfg)"
  shows "voteCount t cfg b = Some (word_of_int (votes cfg t))"
proof -
  have step: "0 < VoteEligibilityBalanceStep (DPOS cfg)" using assms(1) by (simp add: config_ok_def)
  have "t div VoteEligibilityBalanceStep (DPOS cfg) < 2 ^ 64"
    using assms(3) by (rule div_less_of_mult [OF step])
  moreover have "0 \<le> t div VoteEligibilityBalanceStep (DPOS cfg)"
    using step assms(2) by (simp add: pos_imp_zdiv_nonneg_iff)
  ultimately show ?thesis
    using assms(1) step by (auto simp: voteCount_def votes_def config_ok_def)
qed

lemma add64p_ok:
  assumes "uint a + uint b < 2 ^ 64"
  shows "add64p a b = Some (a + b)"
proof -
  have "uint (a + b) = uint a + uint b" using assms by (simp add: uint_word_ariths)
  then show ?thesis by (simp add: add64p_def word_less_def)
qed

lemma update_votes_ok:
  assumes c: "uint (c_eligible_vote_count s) = t" and old: "0 \<le> old" "old \<le> t" and new: "0 \<le> new"
    and fits: "t - old + new < 2 ^ 64"
  shows "update_votes (word_of_int old) (word_of_int new) s =
    Some (s\<lparr>c_eligible_vote_count := word_of_int (t - old + new)\<rparr>)"
proof -
  have t: "t < 2 ^ 64" using uint_lt2p [of "c_eligible_vote_count s"] c by simp
  have cw: "c_eligible_vote_count s = word_of_int t" using c by (metis word_of_int_uint)
  have uo: "uint (word_of_int old :: u64) = old" "uint (word_of_int new :: u64) = new"
    using old new fits t by (simp_all add: uint_word_of_int)
  have sub: "uint (c_eligible_vote_count s - word_of_int old) = t - old"
    using c uo old t by (simp add: uint_word_ariths)
  have "add64p (c_eligible_vote_count s - word_of_int old) (word_of_int new) =
      Some (c_eligible_vote_count s - word_of_int old + word_of_int new)"
    by (rule add64p_ok) (use sub uo fits in simp)
  moreover have "c_eligible_vote_count s - word_of_int old + word_of_int new = word_of_int (t - old + new)"
    by (simp add: cw)
  ultimately show ?thesis
    by (cases "(word_of_int old :: u64) = word_of_int new") (simp_all add: update_votes_def cw)
qed


subsection \<open>The building blocks of the operations\<close>

definition put_states :: "address \<Rightarrow> (block_num \<Rightarrow> State option) \<Rightarrow> (address \<times> block_num \<Rightarrow> State option)
    \<Rightarrow> address \<times> block_num \<Rightarrow> State option" where
  "put_states a st m = (\<lambda>(x, b). if x = a then st b else m (x, b))"

lemma put_states_apply [simp]: "put_states a st m (x, b) = (if x = a then st b else m (x, b))"
  by (simp add: put_states_def)

lemma put_states_same [simp]: "put_states a (\<lambda>b. m (a, b)) m = m"
  by (auto simp: put_states_def fun_eq_iff)

lemma put_states_upd [simp]: "(put_states a st m)((a, b) := x) = put_states a (st(b := x)) m"
  by (auto simp: put_states_def fun_eq_iff)

lemma put_states_twice [simp]: "put_states a st' (put_states a st m) = put_states a st' m"
  by (auto simp: put_states_def fun_eq_iff)

lemma s_state_update_as_put: "m((a, b) := x) = put_states a ((\<lambda>c. m (a, c))(b := x)) m"
  by (auto simp: put_states_def fun_eq_iff)

lemma state_get_and_decrement_ok:
  assumes "s_state s (a, b) = Some st" and "0 \<le> st_RewardsPer1Stake st"
  shows "state_get_and_decrement a b s = Some (st\<lparr>st_Count := st_Count st - 1\<rparr>,
    s\<lparr>s_state := put_states a (decr_st b (\<lambda>c. s_state s (a, c))) (s_state s)\<rparr>)"
  using assms
  by (simp add: state_get_and_decrement_def state_get_def state_put_def decr_st_def s_state_update_as_put
      Let_def split: option.splits)

lemma settle_ok:
  assumes wf: "wf_view (w_block s) (view s a)" and v: "GetValidator s a = Some v"
    and r: "GetValidatorRewards s a = Some r" and M: "0 < ValidatorMaximumStake (DPOS cfg)"
    and room: "room cfg a s"
  obtains state r1 st where
    "settle cfg (w_block s) a v r s =
       Some (state, v\<lparr>v_LastUpdated := w_block s\<rparr>, r1, s\<lparr>s_state := put_states a st (s_state s)\<rparr>)"
    "settled (ValidatorMaximumStake (DPOS cfg)) (w_block s) (view s a) state r1 st"
    "unat (st_Count state) + 1 < 2 ^ 32"
proof (cases "s_state s (a, w_block s)")
  case (Some state)
  have "settled (ValidatorMaximumStake (DPOS cfg)) (w_block s) (view s a) state r (vw_st (view s a))"
    by (rule settled_existing [OF wf]) (simp_all add: v r Some)
  moreover have "v\<lparr>v_LastUpdated := w_block s\<rparr> = v"
    using wf_viewD(5) [OF wf, of v] v Some by simp
  moreover have "vw_st (view s a) = (\<lambda>b. s_state s (a, b))" by (simp add: fun_eq_iff)
  moreover have "unat (st_Count state) + 1 < 2 ^ 32" using room Some unfolding room_def by blast
  ultimately show ?thesis
    using that [of state r "vw_st (view s a)"] Some by (simp add: settle_def state_get_def)
next
  case None
  obtain old where old: "s_state s (a, v_LastUpdated v) = Some old" "0 \<le> st_RewardsPer1Stake old"
    using view_state_exists [OF wf, of v] v by auto
  let ?inc = "if 0 < v_TotalStake v
    then vr_RewardsPool r * ValidatorMaximumStake (DPOS cfg) div v_TotalStake v else 0"
  let ?state = "\<lparr>st_RewardsPer1Stake = st_RewardsPer1Stake old + ?inc, st_Count = 1\<rparr>"
  have st: "vw_st (view s a) = (\<lambda>b. s_state s (a, b))" by (simp add: fun_eq_iff)
  have "settled (ValidatorMaximumStake (DPOS cfg)) (w_block s) (view s a) ?state
      (r\<lparr>vr_RewardsPool := 0\<rparr>) (decr_st (v_LastUpdated v) (vw_st (view s a)))"
    by (rule settled_new [OF wf _ _ M]) (simp_all add: v r None old)
  then show ?thesis
    using that [of ?state "r\<lparr>vr_RewardsPool := 0\<rparr>" "decr_st (v_LastUpdated v) (vw_st (view s a))"] None old
    by (auto simp: settle_def state_get_def state_get_and_decrement_ok [OF old] calculateRewardPer1Stake_def st)
qed

lemma claim_ok:
  assumes wf: "wf_view blk (view s0 a)" and s: "settled M blk (view s0 a) state r1 st"
    and del: "s_delegation s0 (CallerAccount ctx, a) = Some del" and val: "GetValidator s0 a = Some v"
    and M: "M = ValidatorMaximumStake (DPOS cfg)" "0 < M" and acc: "Account ctx = dpos_contract_address"
    and st1: "s_state s1 = put_states a st m"
    and bal: "payout M (view s0 a) (st_RewardsPer1Stake state) (CallerAccount ctx) \<le> w_balance s1 dpos_contract_address"
  obtains bal' logs where
    "claim_delegator cfg ctx a state del s1 =
       Some (s1\<lparr>s_state := put_states a (claimed (view s0 a) (CallerAccount ctx) st) m, w_balance := bal', w_logs := logs\<rparr>)"
    "w_balance s1 dpos_contract_address - payout M (view s0 a) (st_RewardsPer1Stake state) (CallerAccount ctx)
       \<le> bal' dpos_contract_address"
    "bal' dpos_contract_address \<le> w_balance s1 dpos_contract_address"
proof -
  let ?V = "view s0 a" and ?d = "CallerAccount ctx" and ?R = "st_RewardsPer1Stake state"
  let ?b = "d_LastUpdated del"
  have mem: "?d \<in> at_block ?V ?b" using del by (simp add: at_block_def)
  then have card: "0 < card (at_block ?V ?b)" by (auto simp: card_gt_0_iff)
  have "st ?b \<noteq> None"
  proof (cases "?b = blk")
    case True
    then show ?thesis using settledD(2) [OF s] mem by auto
  next
    case False
    then show ?thesis using settledD(1) [OF s False] card by (auto simp: cnt_of_def split: option.splits)
  qed
  then obtain old where old: "st ?b = Some old" by blast
  have rps: "st_RewardsPer1Stake old = rps_of (vw_st ?V ?b)"
    using settledD(4) [OF s, of ?d del] del old by (simp add: rps_of_def)
  have old0: "0 \<le> st_RewardsPer1Stake old" using wf_viewD(2) [OF wf, of v ?b] val rps by simp
  have dec: "state_get_and_decrement a ?b s1 = Some (old\<lparr>st_Count := st_Count old - 1\<rparr>,
      s1\<lparr>s_state := put_states a (claimed ?V ?d st) m\<rparr>)"
    using state_get_and_decrement_ok [of s1 a ?b old] old old0 st1 del by (simp add: claimed_def)
  have calc: "calculateDelegatorReward cfg (?R - st_RewardsPer1Stake old) (d_Stake del) = Some (payout M ?V ?R ?d)"
    using del rps M by (simp add: payout_def vw_pending_def calculateDelegatorReward_def)
  show ?thesis
  proof (cases "0 < payout M ?V ?R ?d")
    case True
    let ?b1 = "(w_balance s1)(dpos_contract_address := w_balance s1 dpos_contract_address - payout M ?V ?R ?d)"
    let ?bal = "?b1(?d := ?b1 ?d + payout M ?V ?R ?d)"
    show ?thesis
      by (rule that [of "w_logs s1 @ [RewardsClaimedLog ?d a (payout M ?V ?R ?d)]" ?bal])
        (use True bal in \<open>auto simp: claim_delegator_def dec calc transferContractBalance_def AddLog_def acc Let_def\<close>)
  next
    case False
    have "0 \<le> payout M ?V ?R ?d"
      using vw_pending_nonneg [OF wf settledD(5) [OF s]] M(2)
      by (simp add: payout_def pos_imp_zdiv_nonneg_iff)
    then show ?thesis
      using that [of "w_logs s1" "w_balance s1"] False
      by (simp add: claim_delegator_def dec calc Let_def)
  qed
qed


subsection \<open>Effect of a change to one validator on the totals\<close>

lemma view_changed:
  assumes inv: "ledger_inv cfg s" and others: "\<And>x. x \<noteq> a \<Longrightarrow> view s' x = view s x"
  shows "owed cfg s' = owed cfg s - vw_debt (ValidatorMaximumStake (DPOS cfg)) (view s a)
      + vw_debt (ValidatorMaximumStake (DPOS cfg)) (view s' a)
      + ValidatorMaximumStake (DPOS cfg) * (undelegated s' - undelegated s)"
    and "total_stake s' = total_stake s - vw_total (view s a) + vw_total (view s' a)"
    and "total_votes cfg s' = total_votes cfg s - votes cfg (vw_total (view s a)) + votes cfg (vw_total (view s' a))"
proof -
  show "total_stake s' = total_stake s - vw_total (view s a) + vw_total (view s' a)"
    unfolding total_stake_def by (rule sum_UNIV_change_at) (simp add: others)
  show "total_votes cfg s' = total_votes cfg s - votes cfg (vw_total (view s a)) + votes cfg (vw_total (view s' a))"
    unfolding total_votes_def by (rule sum_UNIV_change_at) (simp add: others)
  have "(\<Sum>x\<in>UNIV. vw_debt (ValidatorMaximumStake (DPOS cfg)) (view s' x)) =
      (\<Sum>x\<in>UNIV. vw_debt (ValidatorMaximumStake (DPOS cfg)) (view s x))
      - vw_debt (ValidatorMaximumStake (DPOS cfg)) (view s a)
      + vw_debt (ValidatorMaximumStake (DPOS cfg)) (view s' a)"
    by (rule sum_UNIV_change_at) (simp add: others)
  then show "owed cfg s' = owed cfg s - vw_debt (ValidatorMaximumStake (DPOS cfg)) (view s a)
      + vw_debt (ValidatorMaximumStake (DPOS cfg)) (view s' a)
      + ValidatorMaximumStake (DPOS cfg) * (undelegated s' - undelegated s)"
    by (simp add: owed_def algebra_simps)
qed

lemma votes_ok:
  assumes inv: "ledger_inv cfg s" and cfg: "config_ok cfg" and T': "0 \<le> T'"
    and fits: "total_stake s - vw_total (view s a) + T' < 2 ^ 64 * VoteEligibilityBalanceStep (DPOS cfg)"
      "total_stake s < 2 ^ 64 * VoteEligibilityBalanceStep (DPOS cfg)"
  defines "n \<equiv> total_votes cfg s - votes cfg (vw_total (view s a)) + votes cfg T'"
  shows "voteCount (vw_total (view s a)) cfg b = Some (word_of_int (votes cfg (vw_total (view s a))))"
    and "voteCount T' cfg b = Some (word_of_int (votes cfg T'))"
    and "c_eligible_vote_count s1 = c_eligible_vote_count s \<Longrightarrow>
      update_votes (word_of_int (votes cfg (vw_total (view s a)))) (word_of_int (votes cfg T')) s1 =
      Some (s1\<lparr>c_eligible_vote_count := word_of_int n\<rparr>)"
    and "uint (word_of_int n :: u64) = n"
proof -
  let ?T = "vw_total (view s a)" and ?k = "VoteEligibilityBalanceStep (DPOS cfg)"
  note T0 = vw_total_nonneg [OF ledger_invD(5) [OF inv]]
  have k: "0 < ?k" using cfg by (simp add: config_ok_def)
  have T_le: "?T \<le> total_stake s" unfolding total_stake_def by (rule sum_UNIV_member_le) (rule T0)
  note old = votes_le [OF cfg T0 [of a]] and new = votes_le [OF cfg T']
  have o: "votes cfg ?T \<le> total_votes cfg s" by (rule total_votes_le(2) [OF inv cfg])
  have "?k * (total_votes cfg s - votes cfg ?T) \<le> total_stake s - ?T"
  proof -
    have "total_votes cfg s - votes cfg ?T = (\<Sum>x\<in>UNIV - {a}. votes cfg (vw_total (view s x)))"
      unfolding total_votes_def by (simp add: sum_diff1)
    moreover have "total_stake s - ?T = (\<Sum>x\<in>UNIV - {a}. vw_total (view s x))"
      unfolding total_stake_def by (simp add: sum_diff1)
    ultimately show ?thesis
      using votes_le(2) [OF cfg T0] by (simp add: sum_distrib_left sum_mono)
  qed
  then have "?k * n \<le> total_stake s - ?T + T'"
    using new(2) unfolding n_def by (simp add: distrib_left)
  then have "?k * n < ?k * 2 ^ 64" using fits(1) by (simp add: mult.commute)
  then have n64: "n < 2 ^ 64" using k by simp
  show "voteCount ?T cfg b = Some (word_of_int (votes cfg ?T))"
    by (rule voteCount_votes [OF cfg T0]) (use T_le fits in simp)
  show "voteCount T' cfg b = Some (word_of_int (votes cfg T'))"
    by (rule voteCount_votes [OF cfg T']) (use T_le fits in simp)
  show "uint (word_of_int n :: u64) = n"
  proof -
    have "0 \<le> n" using o new(1) by (simp add: n_def)
    then show ?thesis using n64 by (simp add: uint_word_of_int)
  qed
  assume "c_eligible_vote_count s1 = c_eligible_vote_count s"
  then show "update_votes (word_of_int (votes cfg ?T)) (word_of_int (votes cfg T')) s1 =
      Some (s1\<lparr>c_eligible_vote_count := word_of_int n\<rparr>)"
    unfolding n_def
    by (intro update_votes_ok) (use ledger_invD(6) [OF inv] old(1) o new(1) n64 in \<open>simp_all add: n_def\<close>)
qed

subsection \<open>Lists that index a map\<close>

lemma indexesD:
  assumes "indexes l m"
  shows "distinct (l k)" and "x \<in> set (l k) \<longleftrightarrow> m (k, x) \<noteq> None"
  using assms by (simp_all add: indexes_def)

lemma indexes_update:
  assumes "indexes l m" and "m (k, x) \<noteq> None"
  shows "indexes l (m((k, x) \<mapsto> y))"
  using assms by (auto simp: indexes_def)

lemma indexes_insert:
  assumes "indexes l m" and "m (k, x) = None"
  shows "seq_create x (l k) = Some (of_nat (Suc (length (l k))), l k @ [x])"
    and "indexes (l(k := l k @ [x])) (m((k, x) \<mapsto> y))"
proof -
  have x: "x \<notin> set (l k)" using indexesD(2) [OF assms(1)] assms(2) by simp
  then show "seq_create x (l k) = Some (of_nat (Suc (length (l k))), l k @ [x])"
    by (simp add: seq_create_def)
  show "indexes (l(k := l k @ [x])) (m((k, x) \<mapsto> y))"
    using assms x by (auto simp: indexes_def)
qed

lemma indexes_remove:
  assumes "indexes l m" and "m (k, x) \<noteq> None"
  shows "seq_remove x (l k) =
      Some (of_nat (length (l k) - 1), swap_remove (item_index x (l k)) (l k))"
    and "indexes (l(k := swap_remove (item_index x (l k)) (l k))) (m((k, x) := None))"
proof -
  have x: "x \<in> set (l k)" using indexesD(2) [OF assms(1)] assms(2) by simp
  then show "seq_remove x (l k) = Some (of_nat (length (l k) - 1), swap_remove (item_index x (l k)) (l k))"
    by (simp add: seq_remove_def)
  note d = indexesD(1) [OF assms(1), of k] item_index_less [OF x]
  have "set (swap_remove (item_index x (l k)) (l k)) = set (l k) - {x}"
    using set_swap_remove [OF d] nth_item_index [OF x] by simp
  then show "indexes (l(k := swap_remove (item_index x (l k)) (l k))) (m((k, x) := None))"
    using assms distinct_swap_remove [OF d] by (auto simp: indexes_def)
qed

end
