(* ===== verification/Dpos_Booking.thy ===== *)
theory Dpos_Booking
  imports Dpos_Invariant
begin

section \<open>Booking stake: what the operations share\<close>

text \<open>
  The steps that the operations of the DPOS contract are made of, each shown to return and to
  keep the invariant: adding stake to a delegation, taking stake away, deleting a validator without stake.
  The operations themselves follow in the next theory.
\<close>

subsection \<open>Shared steps\<close>

definition slot_of :: "bool \<Rightarrow> Validator \<Rightarrow> validator_slot" where
  "slot_of ext v = (if ext then SlotV2 v else SlotV1 (ValidatorV1.truncate v))"

lemma decode_slot [simp]:
  "v_TotalStake (decode_validator (slot_of ext v)) = v_TotalStake v"
  "v_LastUpdated (decode_validator (slot_of ext v)) = v_LastUpdated v"
  by (simp_all add: slot_of_def ValidatorV1.truncate_def)

lemma ModifyValidator_ok:
  assumes "a \<in> set (s_validators_list s)" and "0 \<le> v_TotalStake v"
  shows "ModifyValidator ext a v s = Some (s\<lparr>s_validator := (s_validator s)(a \<mapsto> slot_of ext v)\<rparr>)"
  using assms by (simp add: ModifyValidator_def ValidatorExists_def SaveValidator_def slot_of_def)

lemma ModifyValidatorRewards_ok:
  assumes "a \<in> set (s_validators_list s)" and "0 \<le> vr_RewardsPool r" "0 \<le> vr_CommissionRewardsPool r"
  shows "ModifyValidatorRewards a r s = Some (s\<lparr>s_validator_rewards := (s_validator_rewards s)(a \<mapsto> r)\<rparr>)"
  using assms by (simp add: ModifyValidatorRewards_def ValidatorExists_def SaveValidatorRewards_def)

lemma GetValidator_listed:
  assumes "validators_wf s" and "GetValidator s a = Some v"
  shows "a \<in> set (s_validators_list s)"
  using assms unfolding validators_wf_def indexes_def by (auto simp: GetValidator_def)

lemma validators_wf_update:
  assumes "validators_wf s" and "GetValidator s a = Some v"
    and "s_validators_list s' = s_validators_list s" "s_validator s' = (s_validator s)(a \<mapsto> x)"
      "s_validator_info s' = s_validator_info s"
  shows "validators_wf s'"
  using assms unfolding validators_wf_def indexes_def by (auto simp: GetValidator_def)

lemma settled_rewards:
  assumes wf: "wf_view blk V" and v: "vw_val V = Some v" and s: "settled M blk V state r1 st"
  shows "0 \<le> vr_RewardsPool r1" "0 \<le> vr_CommissionRewardsPool r1" "0 \<le> st_RewardsPer1Stake state"
proof -
  show "0 \<le> vr_RewardsPool r1" by (rule settledD(8) [OF s])
  show "0 \<le> vr_CommissionRewardsPool r1"
    using s wf_view_rewards [OF wf v] unfolding settled_def by (metis option.inject)
  show "0 \<le> st_RewardsPer1Stake state"
    using settledD(5) [OF s] wf_viewD(2) [OF wf v, of "v_LastUpdated v"] v by (simp add: vw_cur_def)
qed

lemma payout_le_debt:
  assumes wf: "wf_view blk V" and v: "vw_val V = Some v" and s: "settled M blk V state r1 st" and M: "0 < M"
  shows "0 \<le> payout M V (st_RewardsPer1Stake state) d"
    and "M * (payout M V (st_RewardsPer1Stake state) d + v_TotalStake v) \<le> vw_debt M V"
proof -
  let ?R = "st_RewardsPer1Stake state"
  note pend = vw_pending_nonneg [OF wf settledD(5) [OF s]]
  show "0 \<le> payout M V ?R d" using pend M by (simp add: payout_def pos_imp_zdiv_nonneg_iff)
  obtain r where r: "vw_rew V = Some r" "vr_CommissionRewardsPool r1 = vr_CommissionRewardsPool r"
    "M * vr_RewardsPool r1 + (\<Sum>x\<in>UNIV. vw_pending V ?R x) \<le>
     M * vr_RewardsPool r + (\<Sum>x\<in>UNIV. vw_pending V (vw_cur V) x)"
    using s unfolding settled_def by blast
  have "M * payout M V ?R d \<le> vw_pending V ?R d"
    using div_mult_le [OF M] by (simp add: payout_def mult.commute)
  also have "\<dots> \<le> (\<Sum>x\<in>UNIV. vw_pending V ?R x)" by (rule sum_UNIV_member_le) (rule pend)
  finally have "M * payout M V ?R d \<le> (\<Sum>x\<in>UNIV. vw_pending V ?R x)" .
  moreover have "0 \<le> M * vr_RewardsPool r1" "0 \<le> M * vr_CommissionRewardsPool r"
    using settled_rewards [OF wf v s] M r(2) by simp_all
  moreover have "vw_debt M V = M * (v_TotalStake v + vr_RewardsPool r + vr_CommissionRewardsPool r)
      + (\<Sum>x\<in>UNIV. vw_pending V (vw_cur V) x)"
    using v r(1) by (simp add: vw_debt_def vw_total_def rewards_of_def)
  ultimately show "M * (payout M V ?R d + v_TotalStake v) \<le> vw_debt M V"
    using r(3) by (simp add: distrib_left)
qed

lemma balance_covers:
  assumes inv: "ledger_inv cfg s" and cfg: "config_ok cfg" and sol: "solvent cfg extra s" and x: "0 \<le> extra"
    and le: "ValidatorMaximumStake (DPOS cfg) * p \<le> owed cfg s"
  shows "p + extra \<le> w_balance s dpos_contract_address"
proof -
  let ?M = "ValidatorMaximumStake (DPOS cfg)"
  have M: "0 < ?M" using cfg by (simp add: config_ok_def)
  have "?M * (p + extra) \<le> ?M * w_balance s dpos_contract_address"
    using le sol by (simp add: solvent_def distrib_left)
  then show ?thesis using M by simp
qed

lemma payout_covered:
  assumes inv: "ledger_inv cfg s" and cfg: "config_ok cfg" and sol: "solvent cfg extra s" and x: "0 \<le> extra"
    and v: "GetValidator s a = Some v"
    and s: "settled (ValidatorMaximumStake (DPOS cfg)) (w_block s) (view s a) state r1 st"
  shows "payout (ValidatorMaximumStake (DPOS cfg)) (view s a) (st_RewardsPer1Stake state) d + extra
    \<le> w_balance s dpos_contract_address"
proof (rule balance_covers [OF inv cfg sol x])
  let ?M = "ValidatorMaximumStake (DPOS cfg)"
  have M: "0 < ?M" using cfg by (simp add: config_ok_def)
  note wf = ledger_invD(5) [OF inv, of a]
  have "0 \<le> v_TotalStake v" using vw_total_nonneg [OF wf] v by (simp add: vw_total_def)
  then have "?M * payout ?M (view s a) (st_RewardsPer1Stake state) d \<le> vw_debt ?M (view s a)"
    using payout_le_debt(2) [OF wf _ s M, of v d] v M
    by (simp add: distrib_left) (smt (verit) mult_nonneg_nonneg)
  then show "?M * payout ?M (view s a) (st_RewardsPer1Stake state) d \<le> owed cfg s"
    using debt_le_owed [OF inv cfg, of a] by simp
qed

lemma stakes_fit:
  assumes inv: "ledger_inv cfg s" and cfg: "config_ok cfg" and sol: "solvent cfg extra s" and x: "0 \<le> extra"
    and room: "room cfg a s"
  shows "total_stake s + undelegated s + extra < 2 ^ 64 * VoteEligibilityBalanceStep (DPOS cfg)"
  using balance_covers [OF inv cfg sol x stake_le_owed [OF inv cfg]] room by (simp add: room_def)

subsection \<open>Booking a delegation\<close>

text \<open>
  The two ways a delegation changes: stake is added (delegate, cancel, the second half of redelegate)
  or taken away (undelegate, the first half of redelegate).
\<close>

lemma stake_added_ok:
  assumes inv: "ledger_inv cfg s" and v: "GetValidator s a = Some v"
    and s: "settled M (w_block s) (view s a) state r1 st"
    and M: "M = ValidatorMaximumStake (DPOS cfg)" "0 < M" and acc: "Account ctx = dpos_contract_address"
    and s1: "s_state s1 = put_states a st (s_state s)" "s_delegation s1 = s_delegation s"
      "s_delegator_validators s1 = s_delegator_validators s" "w_balance s1 = w_balance s"
    and bal: "payout M (view s a) (st_RewardsPer1Stake state) (CallerAccount ctx) \<le> w_balance s dpos_contract_address"
    and amount: "0 \<le> amount"
  defines "new \<equiv> \<lparr>d_Stake = stake_of (s_delegation s (CallerAccount ctx, a)) + amount, d_LastUpdated = w_block s\<rparr>"
  obtains bal' logs l where
    "(case s_delegation s (CallerAccount ctx, a) of
        None \<Rightarrow> CreateDelegation (CallerAccount ctx) a (w_block s) amount s1
      | Some d \<Rightarrow> do {
          s1a \<leftarrow> claim_delegator cfg ctx a state d s1;
          ModifyDelegation (CallerAccount ctx) a
            (d\<lparr>d_Stake := d_Stake d + amount, d_LastUpdated := w_block s\<rparr>) s1a
        }) =
      Some (s1\<lparr>s_delegation := (s_delegation s)((CallerAccount ctx, a) \<mapsto> new), s_delegator_validators := l,
              s_state := put_states a (claimed (view s a) (CallerAccount ctx) st) (s_state s),
              w_balance := bal', w_logs := logs\<rparr>)"
    "indexes l ((s_delegation s)((CallerAccount ctx, a) \<mapsto> new))"
    "w_balance s dpos_contract_address - payout M (view s a) (st_RewardsPer1Stake state) (CallerAccount ctx)
       \<le> bal' dpos_contract_address"
proof (cases "s_delegation s (CallerAccount ctx, a)")
  case None
  have idx: "indexes (s_delegator_validators s) (s_delegation s)"
    using ledger_invD(2) [OF inv] by (simp add: delegations_wf_def)
  show ?thesis
    by (rule that [of "w_logs s1" "w_balance s1" "(s_delegator_validators s)(CallerAccount ctx :=
          s_delegator_validators s (CallerAccount ctx) @ [a])"])
      (use None s1 amount indexes_insert [OF idx None] in
        \<open>simp_all add: CreateDelegation_def SaveDelegation_def new_def stake_of_def claimed_def payout_def
          vw_pending_def\<close>)
next
  case (Some del)
  obtain bal' logs where claim: "claim_delegator cfg ctx a state del s1 =
      Some (s1\<lparr>s_state := put_states a (claimed (view s a) (CallerAccount ctx) st) (s_state s),
               w_balance := bal', w_logs := logs\<rparr>)"
    "w_balance s1 dpos_contract_address - payout M (view s a) (st_RewardsPer1Stake state) (CallerAccount ctx)
      \<le> bal' dpos_contract_address"
    using claim_ok [OF ledger_invD(5) [OF inv] s Some v M acc s1(1)] bal s1(4) by metis
  have idx: "indexes (s_delegator_validators s) (s_delegation s)"
    using ledger_invD(2) [OF inv] by (simp add: delegations_wf_def)
  have pos: "0 < d_Stake del" using wf_viewD(6) [OF ledger_invD(5) [OF inv], of a v] v Some by simp
  have new: "new = del\<lparr>d_Stake := d_Stake del + amount, d_LastUpdated := w_block s\<rparr>"
    by (simp add: new_def Some stake_of_def)
  show ?thesis
    by (rule that [of logs bal' "s_delegator_validators s"])
      (use Some claim s1 amount pos indexesD(2) [OF idx, of a "CallerAccount ctx"] indexes_update [OF idx] in
        \<open>simp_all add: ModifyDelegation_def DelegationExists_def SaveDelegation_def new\<close>)
qed


lemma stake_removed_ok:
  assumes inv: "ledger_inv cfg s" and v: "GetValidator s a = Some v"
    and s: "settled M (w_block s) (view s a) state r1 st"
    and M: "M = ValidatorMaximumStake (DPOS cfg)" "0 < M" and acc: "Account ctx = dpos_contract_address"
    and s1: "s_state s1 = put_states a st (s_state s)" "s_delegation s1 = s_delegation s"
      "s_delegator_validators s1 = s_delegator_validators s" "w_balance s1 = w_balance s"
    and bal: "payout M (view s a) (st_RewardsPer1Stake state) (CallerAccount ctx) \<le> w_balance s dpos_contract_address"
    and del: "s_delegation s (CallerAccount ctx, a) = Some del" and amount: "amount \<le> d_Stake del"
  defines "new \<equiv> (if d_Stake del = amount then None
     else Some (del\<lparr>d_Stake := d_Stake del - amount, d_LastUpdated := w_block s\<rparr>))"
  obtains bal' logs l s1a where
    "claim_delegator cfg ctx a state del s1 = Some s1a"
    "(if d_Stake del - amount = 0 then do {
        s2a \<leftarrow> RemoveDelegation (CallerAccount ctx) a s1a;
        Some (state, s2a)
      } else do {
        s2a \<leftarrow> ModifyDelegation (CallerAccount ctx) a
                 (del\<lparr>d_Stake := d_Stake del - amount, d_LastUpdated := w_block s\<rparr>) s1a;
        Some (state\<lparr>st_Count := st_Count state + 1\<rparr>, s2a)
      }) =
      Some (state\<lparr>st_Count := st_Count state + (if new = None then 0 else 1)\<rparr>,
            s1\<lparr>s_delegation := (s_delegation s)((CallerAccount ctx, a) := new), s_delegator_validators := l,
              s_state := put_states a (claimed (view s a) (CallerAccount ctx) st) (s_state s),
              w_balance := bal', w_logs := logs\<rparr>)"
    "indexes l ((s_delegation s)((CallerAccount ctx, a) := new))"
    "w_balance s dpos_contract_address - payout M (view s a) (st_RewardsPer1Stake state) (CallerAccount ctx)
       \<le> bal' dpos_contract_address"
    "bal' dpos_contract_address \<le> w_balance s dpos_contract_address"
proof -
  obtain bal' logs where claim: "claim_delegator cfg ctx a state del s1 =
      Some (s1\<lparr>s_state := put_states a (claimed (view s a) (CallerAccount ctx) st) (s_state s),
               w_balance := bal', w_logs := logs\<rparr>)"
    "w_balance s1 dpos_contract_address - payout M (view s a) (st_RewardsPer1Stake state) (CallerAccount ctx)
      \<le> bal' dpos_contract_address"
    "bal' dpos_contract_address \<le> w_balance s1 dpos_contract_address"
    using claim_ok [OF ledger_invD(5) [OF inv] s del v M acc s1(1)] bal s1(4) by metis
  have idx: "indexes (s_delegator_validators s) (s_delegation s)"
    using ledger_invD(2) [OF inv] by (simp add: delegations_wf_def)
  have ex: "s_delegation s (CallerAccount ctx, a) \<noteq> None" using del by simp
  show ?thesis
  proof (cases "d_Stake del = amount")
    case True
    show ?thesis
      by (rule that [of _ logs bal' "(s_delegator_validators s)(CallerAccount ctx :=
            swap_remove (item_index a (s_delegator_validators s (CallerAccount ctx)))
              (s_delegator_validators s (CallerAccount ctx)))", OF claim(1)])
        (use True claim(2,3) s1 indexes_remove [OF idx ex] in \<open>simp_all add: RemoveDelegation_def new_def\<close>)
  next
    case False
    show ?thesis
      by (rule that [of _ logs bal' "s_delegator_validators s", OF claim(1)])
        (use False amount claim(2,3) s1 ex indexesD(2) [OF idx, of a "CallerAccount ctx"] indexes_update [OF idx ex] in
          \<open>simp_all add: ModifyDelegation_def DelegationExists_def SaveDelegation_def new_def\<close>)
  qed
qed

subsection \<open>The state after a booking\<close>

lemma touch_result:
  assumes inv: "ledger_inv cfg s" and cfg: "config_ok cfg" and v: "GetValidator s a = Some v"
    and s: "settled (ValidatorMaximumStake (DPOS cfg)) (w_block s) (view s a) state r1 st"
    and fits: "unat (st_Count state) + 1 < 2 ^ 32"
    and s'a: "view s' a = touched (w_block s) (view s a) state r1 st v' d new"
    and others: "\<And>x. x \<noteq> a \<Longrightarrow> view s' x = view s x" and blk: "w_block s' = w_block s"
    and lists: "validators_wf s'" "delegations_wf s'" "undelegations_v1_wf s'" "undelegations_v2_wf s'"
    and v': "v_LastUpdated v' = w_block s"
      "v_TotalStake v' = v_TotalStake v - stake_of (s_delegation s (d, a)) + stake_of new"
    and new: "\<And>x. new = Some x \<Longrightarrow> d_LastUpdated x = w_block s \<and> 0 < d_Stake x"
    and vc: "uint (c_eligible_vote_count s') =
      total_votes cfg s - votes cfg (v_TotalStake v) + votes cfg (v_TotalStake v')"
  shows "ledger_inv cfg s'"
    and "total_stake s' = total_stake s + stake_of new - stake_of (s_delegation s (d, a))"
    and "owed cfg s' + ValidatorMaximumStake (DPOS cfg) *
        payout (ValidatorMaximumStake (DPOS cfg)) (view s a) (st_RewardsPer1Stake state) d
      \<le> owed cfg s + ValidatorMaximumStake (DPOS cfg) *
        (stake_of new - stake_of (s_delegation s (d, a)) + (undelegated s' - undelegated s))"
proof -
  let ?M = "ValidatorMaximumStake (DPOS cfg)"
  have M: "0 < ?M" using cfg by (simp add: config_ok_def)
  note wf = ledger_invD(5) [OF inv]
  have val: "vw_val (view s a) = Some v" using v by simp
  have tot: "v_TotalStake v' = v_TotalStake v - stake_of (vw_del (view s a) d) + stake_of new" using v'(2) by simp
  have tv: "vw_total (view s a) = v_TotalStake v" "vw_total (view s' a) = v_TotalStake v'"
    using v s'a by (simp_all add: vw_total_def touched_def)
  note ch = view_changed [of cfg s a s', OF inv others]
  have wf': "wf_view (w_block s') (view s' x)" for x
    using touched_wf [OF wf val s v'(1) tot new fits] wf others by (cases "x = a") (simp_all add: s'a blk)
  show "ledger_inv cfg s'"
    unfolding ledger_inv_def using lists wf' vc ch(3) by (simp add: tv)
  show "total_stake s' = total_stake s + stake_of new - stake_of (s_delegation s (d, a))"
    using ch(2) v'(2) by (simp add: tv)
  show "owed cfg s' + ?M * payout ?M (view s a) (st_RewardsPer1Stake state) d
      \<le> owed cfg s + ?M * (stake_of new - stake_of (s_delegation s (d, a)) + (undelegated s' - undelegated s))"
    using touched_debt [OF val M s v'(1) tot, folded s'a] new ch(1)
    by (simp add: algebra_simps)
qed


text \<open>
  What booking the delegation \<open>new\<close> of \<open>d\<close> leaves behind; the operations differ only in the order in
  which they write these fields.
\<close>

definition booked :: "address \<Rightarrow> address \<Rightarrow> Delegation option \<Rightarrow> State \<Rightarrow> (block_num \<Rightarrow> State option) \<Rightarrow> (address \<Rightarrow> int)
    \<Rightarrow> (address \<Rightarrow> address list) \<Rightarrow> u64 \<Rightarrow> bool \<Rightarrow> Validator \<Rightarrow> ValidatorRewards \<Rightarrow> dpos \<Rightarrow> dpos" where
  "booked a d new state st bal l n ext v' r1 s =
     s\<lparr>s_validator := (s_validator s)(a \<mapsto> slot_of ext v'),
       s_validator_rewards := (s_validator_rewards s)(a \<mapsto> r1),
       s_delegation := (s_delegation s)((d, a) := new),
       s_delegator_validators := l,
       s_state := put_states a ((claimed (view s a) d st)(w_block s \<mapsto>
         state\<lparr>st_Count := st_Count state + (if new = None then 0 else 1)\<rparr>)) (s_state s),
       c_eligible_vote_count := n, w_balance := bal\<rparr>"

lemma booked_view:
  "view (booked a d new state st bal l n ext v' r1 s) a =
     touched (w_block s) (view s a) state r1 st (decode_validator (slot_of ext v')) d new"
  "x \<noteq> a \<Longrightarrow> view (booked a d new state st bal l n ext v' r1 s) x = view s x"
  by (auto simp: booked_def touched_def view_def GetValidator_def GetValidatorRewards_def fun_eq_iff)

lemma booked_wf:
  fixes state :: State and st :: "block_num \<Rightarrow> State option" and bal :: "address \<Rightarrow> int" and n :: u64
    and ext :: bool and v' :: Validator and r1 :: ValidatorRewards
  assumes "ledger_inv cfg s" and "GetValidator s a = Some v" and "indexes l ((s_delegation s)((d, a) := new))"
  defines "s' \<equiv> booked a d new state st bal l n ext v' r1 s"
  shows "validators_wf s'" "delegations_wf s'" "undelegations_v1_wf s'" "undelegations_v2_wf s'"
    "undelegated s' = undelegated s"
proof -
  show "validators_wf s'"
    by (rule validators_wf_update [OF ledger_invD(1) [OF assms(1)] assms(2)]) (simp_all add: s'_def booked_def)
  show "delegations_wf s'" using assms(3) by (simp add: s'_def booked_def delegations_wf_def)
  show "undelegations_v1_wf s'" "undelegations_v2_wf s'" "undelegated s' = undelegated s"
    using ledger_invD(3,4) [OF assms(1)]
    by (simp_all add: s'_def booked_def undelegations_v1_wf_def undelegations_v2_wf_def undelegated_def last_id_def)
qed

lemma booked_result:
  fixes ext :: bool
  assumes inv: "ledger_inv cfg s" and cfg: "config_ok cfg" and v: "GetValidator s a = Some v"
    and sd: "settled (ValidatorMaximumStake (DPOS cfg)) (w_block s) (view s a) state r1 st"
    and fits: "unat (st_Count state) + 1 < 2 ^ 32"
    and idx: "indexes l ((s_delegation s)((d, a) := new))"
    and v': "v_LastUpdated v' = w_block s"
      "v_TotalStake v' = v_TotalStake v - stake_of (s_delegation s (d, a)) + stake_of new"
    and new: "\<forall>x. new = Some x \<longrightarrow> d_LastUpdated x = w_block s \<and> 0 < d_Stake x"
    and n: "uint n = total_votes cfg s - votes cfg (v_TotalStake v) + votes cfg (v_TotalStake v')"
    and bal: "w_balance s dpos_contract_address
        - payout (ValidatorMaximumStake (DPOS cfg)) (view s a) (st_RewardsPer1Stake state) d
        \<le> bal dpos_contract_address"
    and sol: "solvent cfg extra s"
  defines "s' \<equiv> booked a d new state st bal l n ext v' r1 s"
  shows "ledger_inv cfg s'"
    and "total_stake s' = total_stake s + stake_of new - stake_of (s_delegation s (d, a))"
    and "solvent cfg (extra + stake_of (s_delegation s (d, a)) - stake_of new) s'"
proof -
  let ?M = "ValidatorMaximumStake (DPOS cfg)"
  have M: "0 \<le> ?M" using cfg by (simp add: config_ok_def)
  note wf = booked_wf [OF inv v idx, of state st bal n ext v' r1, folded s'_def]
  have blk: "w_block s' = w_block s" and c: "c_eligible_vote_count s' = n"
    and b: "w_balance s' = bal" by (simp_all add: s'_def booked_def)
  have va: "view s' a = touched (w_block s) (view s a) state r1 st (decode_validator (slot_of ext v')) d new"
    and vx: "\<And>x. x \<noteq> a \<Longrightarrow> view s' x = view s x"
    by (simp_all add: s'_def booked_view)
  have lu: "v_LastUpdated (decode_validator (slot_of ext v')) = w_block s"
    and tot: "v_TotalStake (decode_validator (slot_of ext v')) =
      v_TotalStake v - stake_of (s_delegation s (d, a)) + stake_of new"
    and vc: "uint (c_eligible_vote_count s') = total_votes cfg s - votes cfg (v_TotalStake v)
      + votes cfg (v_TotalStake (decode_validator (slot_of ext v')))"
    using v' n c by simp_all
  note tr = touch_result [OF inv cfg v sd fits va vx blk wf(1-4) lu tot new [rule_format] vc]
  show "ledger_inv cfg s'" by (rule tr(1))
  show "total_stake s' = total_stake s + stake_of new - stake_of (s_delegation s (d, a))" by (rule tr(2))
  note tr(3)
  moreover have "?M * (w_balance s dpos_contract_address - payout ?M (view s a) (st_RewardsPer1Stake state) d)
      \<le> ?M * bal dpos_contract_address"
    by (rule mult_left_mono [OF bal M])
  ultimately show "solvent cfg (extra + stake_of (s_delegation s (d, a)) - stake_of new) s'"
    using sol unfolding solvent_def wf(5) b by (simp add: algebra_simps)
qed


lemma settle_here:
  assumes inv: "ledger_inv cfg s" and cfg: "config_ok cfg" and room: "room cfg a s"
    and v: "GetValidator s a = Some v"
  obtains r state r1 st where
    "GetValidatorRewards s a = Some r"
    "settle cfg (w_block s) a v r s =
       Some (state, v\<lparr>v_LastUpdated := w_block s\<rparr>, r1, s\<lparr>s_state := put_states a st (s_state s)\<rparr>)"
    "settled (ValidatorMaximumStake (DPOS cfg)) (w_block s) (view s a) state r1 st"
    "unat (st_Count state) + 1 < 2 ^ 32"
    "0 \<le> vr_RewardsPool r1" "0 \<le> vr_CommissionRewardsPool r1" "0 \<le> st_RewardsPer1Stake state"
    "vr_CommissionRewardsPool r1 = vr_CommissionRewardsPool r"
proof -
  have M: "0 < ValidatorMaximumStake (DPOS cfg)" using cfg by (simp add: config_ok_def)
  note wf = ledger_invD(5) [OF inv, of a]
  have val: "vw_val (view s a) = Some v" using v by simp
  obtain r where r: "GetValidatorRewards s a = Some r" using wf_view_rewards [OF wf val] by auto
  obtain state r1 st where *: "settle cfg (w_block s) a v r s =
       Some (state, v\<lparr>v_LastUpdated := w_block s\<rparr>, r1, s\<lparr>s_state := put_states a st (s_state s)\<rparr>)"
    "settled (ValidatorMaximumStake (DPOS cfg)) (w_block s) (view s a) state r1 st"
    "unat (st_Count state) + 1 < 2 ^ 32"
    by (rule settle_ok [OF wf v r M room])
  show ?thesis
    by (rule that [OF r * settled_rewards [OF wf val *(2)]]) (use *(2) r in \<open>auto simp: settled_def\<close>)
qed

lemma votes_here:
  assumes inv: "ledger_inv cfg s" and cfg: "config_ok cfg" and room: "room cfg a s"
    and sol: "solvent cfg extra s" "0 \<le> extra" and v: "GetValidator s a = Some v"
    and T': "0 \<le> T'" "T' \<le> v_TotalStake v + extra"
  obtains n where
    "voteCount (v_TotalStake v) cfg (w_block s) = Some (word_of_int (votes cfg (v_TotalStake v)))"
    "voteCount T' cfg (w_block s) = Some (word_of_int (votes cfg T'))"
    "\<And>s1. c_eligible_vote_count s1 = c_eligible_vote_count s \<Longrightarrow>
       update_votes (word_of_int (votes cfg (v_TotalStake v))) (word_of_int (votes cfg T')) s1 =
       Some (s1\<lparr>c_eligible_vote_count := n\<rparr>)"
    "uint n = total_votes cfg s - votes cfg (v_TotalStake v) + votes cfg T'"
proof -
  have tv: "vw_total (view s a) = v_TotalStake v" using v by (simp add: vw_total_def)
  note fit = stakes_fit [OF inv cfg sol room]
  have "0 \<le> undelegated s" by (rule undelegated_nonneg(1) [OF inv])
  then have fits: "total_stake s - vw_total (view s a) + T' < 2 ^ 64 * VoteEligibilityBalanceStep (DPOS cfg)"
      "total_stake s < 2 ^ 64 * VoteEligibilityBalanceStep (DPOS cfg)"
    using fit T' sol(2) tv by simp_all
  note vo = votes_ok [OF inv cfg T'(1) fits, unfolded tv]
  show ?thesis by (rule that [OF vo(1,2) vo(3) vo(4)]) simp
qed

lemma add_booking:
  assumes inv: "ledger_inv cfg s" and cfg: "config_ok cfg" and room: "room cfg a s"
    and sol: "solvent cfg extra s" and amount: "0 \<le> amount" "amount \<le> extra"
    and acc: "Account ctx = dpos_contract_address" and v: "GetValidator s a = Some v"
    and pos: "s_delegation s (CallerAccount ctx, a) = None \<Longrightarrow> 0 < amount"
    and sd: "settled (ValidatorMaximumStake (DPOS cfg)) (w_block s) (view s a) state r1 st"
    and cnt: "unat (st_Count state) + 1 < 2 ^ 32"
    and n: "uint n = total_votes cfg s - votes cfg (v_TotalStake v) + votes cfg (v_TotalStake v + amount)"
  obtains new bal' logs l where
    "(case s_delegation s (CallerAccount ctx, a) of
        None \<Rightarrow> CreateDelegation (CallerAccount ctx) a (w_block s) amount (s\<lparr>s_state := put_states a st (s_state s)\<rparr>)
      | Some d \<Rightarrow> do {
          s1a \<leftarrow> claim_delegator cfg ctx a state d (s\<lparr>s_state := put_states a st (s_state s)\<rparr>);
          ModifyDelegation (CallerAccount ctx) a
            (d\<lparr>d_Stake := d_Stake d + amount, d_LastUpdated := w_block s\<rparr>) s1a
        }) =
      Some ((s\<lparr>s_state := put_states a st (s_state s)\<rparr>)\<lparr>
              s_delegation := (s_delegation s)((CallerAccount ctx, a) \<mapsto> new), s_delegator_validators := l,
              s_state := put_states a (claimed (view s a) (CallerAccount ctx) st) (s_state s),
              w_balance := bal', w_logs := logs\<rparr>)"
    "\<And>ext v'. v_LastUpdated v' = w_block s \<Longrightarrow> v_TotalStake v' = v_TotalStake v + amount \<Longrightarrow>
       ledger_inv cfg (booked a (CallerAccount ctx) (Some new) state st bal' l n ext v' r1 s) \<and>
       total_stake (booked a (CallerAccount ctx) (Some new) state st bal' l n ext v' r1 s) = total_stake s + amount \<and>
       solvent cfg (extra - amount) (booked a (CallerAccount ctx) (Some new) state st bal' l n ext v' r1 s)"
proof -
  let ?M = "ValidatorMaximumStake (DPOS cfg)" and ?d = "CallerAccount ctx"
  let ?old = "stake_of (s_delegation s (?d, a))"
  let ?s1 = "s\<lparr>s_state := put_states a st (s_state s)\<rparr>"
  define new where "new = \<lparr>d_Stake = ?old + amount, d_LastUpdated = w_block s\<rparr>"
  have M: "0 < ?M" using cfg by (simp add: config_ok_def)
  have bal: "payout ?M (view s a) (st_RewardsPer1Stake state) ?d \<le> w_balance s dpos_contract_address"
    using payout_covered [OF inv cfg sol _ v sd, of ?d] amount by simp
  have s1: "s_state ?s1 = put_states a st (s_state s)" "s_delegation ?s1 = s_delegation s"
    "s_delegator_validators ?s1 = s_delegator_validators s" "w_balance ?s1 = w_balance s" by simp_all
  have new0: "0 < d_Stake new"
    using pos amount wf_viewD(6) [OF ledger_invD(5) [OF inv], of a v ?d] v
    by (cases "s_delegation s (?d, a)") (auto simp: new_def stake_of_def)
  show ?thesis
  proof (rule stake_added_ok [OF inv v sd refl M acc s1 bal amount(1), folded new_def])
    fix bal' logs l
    assume 1: "(case s_delegation s (?d, a) of
        None \<Rightarrow> CreateDelegation ?d a (w_block s) amount ?s1
      | Some d \<Rightarrow> do {
          s1a \<leftarrow> claim_delegator cfg ctx a state d ?s1;
          ModifyDelegation ?d a (d\<lparr>d_Stake := d_Stake d + amount, d_LastUpdated := w_block s\<rparr>) s1a
        }) =
      Some (?s1\<lparr>s_delegation := (s_delegation s)((?d, a) \<mapsto> new), s_delegator_validators := l,
              s_state := put_states a (claimed (view s a) ?d st) (s_state s), w_balance := bal', w_logs := logs\<rparr>)"
      and 2: "indexes l ((s_delegation s)((?d, a) \<mapsto> new))"
      and 3: "w_balance s dpos_contract_address - payout ?M (view s a) (st_RewardsPer1Stake state) ?d
         \<le> bal' dpos_contract_address"
    have res: "ledger_inv cfg (booked a ?d (Some new) state st bal' l n ext v' r1 s) \<and>
         total_stake (booked a ?d (Some new) state st bal' l n ext v' r1 s) = total_stake s + amount \<and>
         solvent cfg (extra - amount) (booked a ?d (Some new) state st bal' l n ext v' r1 s)"
      if v': "v_LastUpdated v' = w_block s" "v_TotalStake v' = v_TotalStake v + amount" for ext v'
    proof -
      have tot: "v_TotalStake v' = v_TotalStake v - ?old + stake_of (Some new)"
        using v'(2) by (simp add: new_def stake_of_def)
      have n': "uint n = total_votes cfg s - votes cfg (v_TotalStake v) + votes cfg (v_TotalStake v')"
        using n v'(2) by simp
      have nw: "\<forall>x. Some new = Some x \<longrightarrow> d_LastUpdated x = w_block s \<and> 0 < d_Stake x"
        using new0 by (auto simp: new_def)
      note b = booked_result [where new = "Some new" and ext = ext and bal = bal',
          OF inv cfg v sd cnt 2 v'(1) tot nw n' 3 sol]
      have st_new: "stake_of (Some new) = ?old + amount" by (simp add: new_def stake_of_def)
      show ?thesis using b unfolding st_new by simp
    qed
    show thesis by (rule that [OF 1 res])
  qed
qed


subsection \<open>What the invariant does not depend on\<close>

lemma view_frame [simp]:
  "view (s\<lparr>w_logs := x\<rparr>) a = view s a" "view (s\<lparr>c_amount_delegated := y\<rparr>) a = view s a"
  "view (s\<lparr>w_balance := z\<rparr>) a = view s a"
  by (simp_all add: view_def GetValidator_def GetValidatorRewards_def)

lemmas store_wf_defs =
  validators_wf_def delegations_wf_def undelegations_v1_wf_def undelegations_v2_wf_def last_id_def

lemma ledger_frame [simp]:
  "ledger_inv cfg (s\<lparr>w_logs := x\<rparr>) = ledger_inv cfg s"
  "ledger_inv cfg (s\<lparr>c_amount_delegated := y\<rparr>) = ledger_inv cfg s"
  "ledger_inv cfg (s\<lparr>w_balance := z\<rparr>) = ledger_inv cfg s"
  by (simp_all add: ledger_inv_def store_wf_defs total_votes_def)

lemma total_stake_frame [simp]:
  "total_stake (s\<lparr>w_logs := x\<rparr>) = total_stake s" "total_stake (s\<lparr>c_amount_delegated := y\<rparr>) = total_stake s"
  "total_stake (s\<lparr>w_balance := z\<rparr>) = total_stake s"
  by (simp_all add: total_stake_def)

lemma owed_frame [simp]:
  "owed cfg (s\<lparr>w_logs := x\<rparr>) = owed cfg s" "owed cfg (s\<lparr>c_amount_delegated := y\<rparr>) = owed cfg s"
  "owed cfg (s\<lparr>w_balance := z\<rparr>) = owed cfg s"
  by (simp_all add: owed_def undelegated_def)

lemma solvent_frame [simp]:
  "solvent cfg e (s\<lparr>w_logs := x\<rparr>) = solvent cfg e s"
  "solvent cfg e (s\<lparr>c_amount_delegated := y\<rparr>) = solvent cfg e s"
  by (simp_all add: solvent_def)

lemma booked_block [simp]: "w_block (booked a d new state st bal l n ext v' r1 s) = w_block s"
  by (simp add: booked_def)

subsection \<open>Adding stake\<close>

text \<open>Everything an operation that adds stake needs to know about the steps it takes from \<open>s\<close>.\<close>

definition add_booked :: "ChainConfig \<Rightarrow> CallFrame \<Rightarrow> address \<Rightarrow> int \<Rightarrow> int \<Rightarrow> dpos \<Rightarrow> Validator \<Rightarrow> ValidatorRewards
    \<Rightarrow> State \<Rightarrow> ValidatorRewards \<Rightarrow> (block_num \<Rightarrow> State option) \<Rightarrow> u64 \<Rightarrow> Delegation \<Rightarrow> (address \<Rightarrow> int)
    \<Rightarrow> dpos_log list \<Rightarrow> (address \<Rightarrow> address list) \<Rightarrow> bool" where
  "add_booked cfg ctx a amount extra s v r state r1 st n new bal logs l \<longleftrightarrow>
     a \<in> set (s_validators_list s) \<and> 0 \<le> v_TotalStake v \<and>
     GetValidatorRewards s a = Some r \<and>
     settle cfg (w_block s) a v r s =
       Some (state, v\<lparr>v_LastUpdated := w_block s\<rparr>, r1, s\<lparr>s_state := put_states a st (s_state s)\<rparr>) \<and>
     0 \<le> vr_RewardsPool r1 \<and> 0 \<le> vr_CommissionRewardsPool r1 \<and> 0 \<le> st_RewardsPer1Stake state \<and>
     voteCount (v_TotalStake v) cfg (w_block s) = Some (word_of_int (votes cfg (v_TotalStake v))) \<and>
     voteCount (v_TotalStake v + amount) cfg (w_block s) = Some (word_of_int (votes cfg (v_TotalStake v + amount))) \<and>
     (\<forall>s1. c_eligible_vote_count s1 = c_eligible_vote_count s \<longrightarrow>
        update_votes (word_of_int (votes cfg (v_TotalStake v))) (word_of_int (votes cfg (v_TotalStake v + amount))) s1 =
        Some (s1\<lparr>c_eligible_vote_count := n\<rparr>)) \<and>
     (case s_delegation s (CallerAccount ctx, a) of
        None \<Rightarrow> CreateDelegation (CallerAccount ctx) a (w_block s) amount (s\<lparr>s_state := put_states a st (s_state s)\<rparr>)
      | Some d \<Rightarrow> do {
          s1a \<leftarrow> claim_delegator cfg ctx a state d (s\<lparr>s_state := put_states a st (s_state s)\<rparr>);
          ModifyDelegation (CallerAccount ctx) a
            (d\<lparr>d_Stake := d_Stake d + amount, d_LastUpdated := w_block s\<rparr>) s1a
        }) =
      Some ((s\<lparr>s_state := put_states a st (s_state s)\<rparr>)\<lparr>
              s_delegation := (s_delegation s)((CallerAccount ctx, a) \<mapsto> new), s_delegator_validators := l,
              s_state := put_states a (claimed (view s a) (CallerAccount ctx) st) (s_state s),
              w_balance := bal, w_logs := logs\<rparr>) \<and>
     (\<forall>ext v'. v_LastUpdated v' = w_block s \<longrightarrow> v_TotalStake v' = v_TotalStake v + amount \<longrightarrow>
       ledger_inv cfg (booked a (CallerAccount ctx) (Some new) state st bal l n ext v' r1 s) \<and>
       total_stake (booked a (CallerAccount ctx) (Some new) state st bal l n ext v' r1 s) = total_stake s + amount \<and>
       solvent cfg (extra - amount) (booked a (CallerAccount ctx) (Some new) state st bal l n ext v' r1 s))"

lemma add_stake:
  assumes inv: "ledger_inv cfg s" and cfg: "config_ok cfg" and room: "room cfg a s"
    and sol: "solvent cfg extra s" and amount: "0 \<le> amount" "amount \<le> extra"
    and acc: "Account ctx = dpos_contract_address" and v: "GetValidator s a = Some v"
    and pos: "s_delegation s (CallerAccount ctx, a) = None \<Longrightarrow> 0 < amount"
  obtains r state r1 st n new bal logs l where
    "add_booked cfg ctx a amount extra s v r state r1 st n new bal logs l"
proof -
  have T: "0 \<le> v_TotalStake v"
    using vw_total_nonneg [OF ledger_invD(5) [OF inv], of a] v by (simp add: vw_total_def)
  note mem = GetValidator_listed [OF ledger_invD(1) [OF inv] v]
  obtain r state r1 st where set: "GetValidatorRewards s a = Some r"
    "settle cfg (w_block s) a v r s =
       Some (state, v\<lparr>v_LastUpdated := w_block s\<rparr>, r1, s\<lparr>s_state := put_states a st (s_state s)\<rparr>)"
    and sd: "settled (ValidatorMaximumStake (DPOS cfg)) (w_block s) (view s a) state r1 st"
    and cnt: "unat (st_Count state) + 1 < 2 ^ 32"
    and nn: "0 \<le> vr_RewardsPool r1" "0 \<le> vr_CommissionRewardsPool r1" "0 \<le> st_RewardsPer1Stake state"
    using settle_here [OF inv cfg room v] by metis
  have T1: "0 \<le> v_TotalStake v + amount" "v_TotalStake v + amount \<le> v_TotalStake v + extra" "0 \<le> extra"
    using T amount by simp_all
  obtain n where vc: "voteCount (v_TotalStake v) cfg (w_block s) = Some (word_of_int (votes cfg (v_TotalStake v)))"
    "voteCount (v_TotalStake v + amount) cfg (w_block s) = Some (word_of_int (votes cfg (v_TotalStake v + amount)))"
    and uv: "\<And>s1. c_eligible_vote_count s1 = c_eligible_vote_count s \<Longrightarrow>
       update_votes (word_of_int (votes cfg (v_TotalStake v))) (word_of_int (votes cfg (v_TotalStake v + amount))) s1 =
       Some (s1\<lparr>c_eligible_vote_count := n\<rparr>)"
    and n: "uint n = total_votes cfg s - votes cfg (v_TotalStake v) + votes cfg (v_TotalStake v + amount)"
    by (rule votes_here [OF inv cfg room sol T1(3) v T1(1,2)]) metis
  show ?thesis
    by (rule add_booking [OF inv cfg room sol amount acc v pos sd cnt n], assumption,
        rule that [of r state r1 st n])
      (unfold add_booked_def, intro conjI allI impI,
        (rule mem T set nn vc | (rule uv, assumption) | assumption | simp)+)
qed

subsection \<open>Deleting a validator\<close>

definition deleted :: "address \<Rightarrow> (block_num \<Rightarrow> State option) \<Rightarrow> dpos \<Rightarrow> dpos" where
  "deleted a st s =
     s\<lparr>s_validator := (s_validator s)(a := None), s_validator_info := (s_validator_info s)(a := None),
       s_validator_rewards := (s_validator_rewards s)(a := None),
       s_validator_owner := (s_validator_owner s)(a := None), s_validator_vrf := (s_validator_vrf s)(a := None),
       s_validators_list := swap_remove (item_index a (s_validators_list s)) (s_validators_list s),
       s_state := put_states a st (s_state s)\<rparr>"

lemma DeleteValidator_ok:
  assumes "a \<in> set (s_validators_list s)"
  shows "DeleteValidator a s = Some (deleted a (\<lambda>b. s_state s (a, b)) s)"
  using assms by (simp add: DeleteValidator_def seq_remove_def deleted_def)

lemma validators_wf_delete:
  assumes "validators_wf s" and "GetValidator s a = Some v"
  shows "validators_wf (deleted a st s)"
proof -
  have ex: "(case ((), a) of (_, x) \<Rightarrow> s_validator s x) \<noteq> None" using assms(2) by (auto simp: GetValidator_def)
  have "indexes (\<lambda>_::unit. s_validators_list s) (\<lambda>(_, a). s_validator s a)"
    using assms(1) by (simp add: validators_wf_def)
  from indexes_remove(2) [OF this, of "()" a] ex
  have "indexes (\<lambda>_::unit. swap_remove (item_index a (s_validators_list s)) (s_validators_list s))
     (\<lambda>(_, x). ((s_validator s)(a := None)) x)"
    by (simp add: fun_upd_def case_prod_unfold indexes_def)
  then show ?thesis using assms(1) by (auto simp: validators_wf_def deleted_def)
qed

lemma votes_0 [simp]: "votes cfg 0 = 0"
  by (simp add: votes_def)

lemma deleted_result:
  assumes inv: "ledger_inv cfg s" and cfg: "config_ok cfg" and v: "GetValidator s a = Some v"
    and T: "v_TotalStake v = 0" and st: "\<And>b. 0 \<le> rps_of (st b)" "\<And>b. st b \<noteq> None \<Longrightarrow> b \<le> w_block s"
    and r: "GetValidatorRewards s a = Some r" and sol: "solvent cfg extra s"
  shows "ledger_inv cfg (deleted a st s)" and "total_stake (deleted a st s) = total_stake s"
    and "solvent cfg (extra + vr_CommissionRewardsPool r) (deleted a st s)"
proof -
  let ?s' = "deleted a st s" and ?M = "ValidatorMaximumStake (DPOS cfg)"
  have M: "0 < ?M" using cfg by (simp add: config_ok_def)
  note wf = ledger_invD(5) [OF inv, of a]
  have val: "vw_val (view s a) = Some v" using v by simp
  have none: "s_delegation s (d, a) = None" for d
    using no_stake_no_delegation [OF wf val T, of d] by simp
  have va: "vw_val (view ?s' a) = None" "vw_rew (view ?s' a) = None" "vw_del (view ?s' a) d = None"
    "vw_st (view ?s' a) = st" for d
    by (simp_all add: deleted_def none GetValidator_def GetValidatorRewards_def fun_eq_iff)
  note D = deleted_wf [OF st va(1,2,3,4)]
  have others: "view ?s' x = view s x" if "x \<noteq> a" for x
    using that by (intro view_eqI) (simp_all add: deleted_def GetValidator_def GetValidatorRewards_def)
  note ch = view_changed [of cfg s a ?s', OF inv others]
  have tv: "vw_total (view s a) = 0" "vw_total (view ?s' a) = 0"
    using v T va(1) by (simp_all add: vw_total_def)
  have same: "w_block ?s' = w_block s" "c_eligible_vote_count ?s' = c_eligible_vote_count s"
    "undelegated ?s' = undelegated s" "w_balance ?s' = w_balance s"
    by (simp_all add: deleted_def undelegated_def)
  have lists: "validators_wf ?s'" "delegations_wf ?s'" "undelegations_v1_wf ?s'" "undelegations_v2_wf ?s'"
    using validators_wf_delete [OF ledger_invD(1) [OF inv] v] ledger_invD(2-4) [OF inv]
    by (simp_all add: deleted_def delegations_wf_def undelegations_v1_wf_def undelegations_v2_wf_def last_id_def)
  have wf': "wf_view (w_block ?s') (view ?s' x)" for x
    using D(1) ledger_invD(5) [OF inv] others by (cases "x = a") (simp_all add: same)
  show "ledger_inv cfg ?s'"
    unfolding ledger_inv_def using lists wf' ch(3) tv same ledger_invD(6) [OF inv] by simp
  show "total_stake ?s' = total_stake s" using ch(2) tv by simp
  have "?M * vr_CommissionRewardsPool r \<le> vw_debt ?M (view s a)"
  proof -
    have "0 \<le> (\<Sum>d\<in>UNIV. vw_pending (view s a) (vw_cur (view s a)) d)"
      by (intro sum_nonneg vw_pending_nonneg [OF wf]) simp
    moreover have "0 \<le> ?M * vr_RewardsPool r"
      using wf_view_rewards [OF wf val] r M by (metis option.inject view_sels(2) mult_nonneg_nonneg less_imp_le)
    ultimately show ?thesis using v r T by (simp add: vw_debt_def rewards_of_def vw_total_def distrib_left)
  qed
  then show "solvent cfg (extra + vr_CommissionRewardsPool r) ?s'"
    using sol ch(1) D(2) unfolding solvent_def by (simp add: same distrib_left)
qed


subsection \<open>Taking stake away\<close>

definition rem_booked :: "ChainConfig \<Rightarrow> CallFrame \<Rightarrow> address \<Rightarrow> int \<Rightarrow> int \<Rightarrow> dpos \<Rightarrow> Validator \<Rightarrow> Delegation
    \<Rightarrow> ValidatorRewards \<Rightarrow> State \<Rightarrow> ValidatorRewards \<Rightarrow> (block_num \<Rightarrow> State option) \<Rightarrow> u64 \<Rightarrow> Delegation option
    \<Rightarrow> (address \<Rightarrow> int) \<Rightarrow> dpos_log list \<Rightarrow> (address \<Rightarrow> address list) \<Rightarrow> dpos \<Rightarrow> bool" where
  "rem_booked cfg ctx a amount extra s v del r state r1 st n new bal logs l s1 \<longleftrightarrow>
     a \<in> set (s_validators_list s) \<and> 0 \<le> v_TotalStake v - amount \<and>
     GetValidatorRewards s a = Some r \<and>
     settle cfg (w_block s) a v r s =
       Some (state, v\<lparr>v_LastUpdated := w_block s\<rparr>, r1, s\<lparr>s_state := put_states a st (s_state s)\<rparr>) \<and>
     0 \<le> vr_RewardsPool r1 \<and> 0 \<le> vr_CommissionRewardsPool r1 \<and> 0 \<le> st_RewardsPer1Stake state \<and>
     vr_CommissionRewardsPool r1 = vr_CommissionRewardsPool r \<and>
     voteCount (v_TotalStake v) cfg (w_block s) = Some (word_of_int (votes cfg (v_TotalStake v))) \<and>
     voteCount (v_TotalStake v - amount) cfg (w_block s) = Some (word_of_int (votes cfg (v_TotalStake v - amount))) \<and>
     (\<forall>s1. c_eligible_vote_count s1 = c_eligible_vote_count s \<longrightarrow>
        update_votes (word_of_int (votes cfg (v_TotalStake v))) (word_of_int (votes cfg (v_TotalStake v - amount))) s1 =
        Some (s1\<lparr>c_eligible_vote_count := n\<rparr>)) \<and>
     claim_delegator cfg ctx a state del (s\<lparr>s_state := put_states a st (s_state s)\<rparr>) = Some s1 \<and>
     (if d_Stake del - amount = 0 then do {
        s2a \<leftarrow> RemoveDelegation (CallerAccount ctx) a s1;
        Some (state, s2a)
      } else do {
        s2a \<leftarrow> ModifyDelegation (CallerAccount ctx) a
                 (del\<lparr>d_Stake := d_Stake del - amount, d_LastUpdated := w_block s\<rparr>) s1;
        Some (state\<lparr>st_Count := st_Count state + 1\<rparr>, s2a)
      }) =
      Some (state\<lparr>st_Count := st_Count state + (if new = None then 0 else 1)\<rparr>,
            (s\<lparr>s_state := put_states a st (s_state s)\<rparr>)\<lparr>
              s_delegation := (s_delegation s)((CallerAccount ctx, a) := new), s_delegator_validators := l,
              s_state := put_states a (claimed (view s a) (CallerAccount ctx) st) (s_state s),
              w_balance := bal, w_logs := logs\<rparr>) \<and>
     bal dpos_contract_address \<le> w_balance s dpos_contract_address \<and>
     (\<forall>ext v'. v_LastUpdated v' = w_block s \<longrightarrow> v_TotalStake v' = v_TotalStake v - amount \<longrightarrow>
       ledger_inv cfg (booked a (CallerAccount ctx) new state st bal l n ext v' r1 s) \<and>
       total_stake (booked a (CallerAccount ctx) new state st bal l n ext v' r1 s) = total_stake s - amount \<and>
       solvent cfg (extra + amount) (booked a (CallerAccount ctx) new state st bal l n ext v' r1 s))"

lemma remove_stake:
  assumes inv: "ledger_inv cfg s" and cfg: "config_ok cfg" and room: "room cfg a s"
    and sol: "solvent cfg extra s" "0 \<le> extra" and acc: "Account ctx = dpos_contract_address"
    and v: "GetValidator s a = Some v" and del: "s_delegation s (CallerAccount ctx, a) = Some del"
    and amount: "0 \<le> amount" "amount \<le> d_Stake del"
  obtains r state r1 st n new bal logs l s1 where
    "rem_booked cfg ctx a amount extra s v del r state r1 st n new bal logs l s1"
proof -
  let ?M = "ValidatorMaximumStake (DPOS cfg)" and ?d = "CallerAccount ctx"
  have M: "0 < ?M" using cfg by (simp add: config_ok_def)
  note mem = GetValidator_listed [OF ledger_invD(1) [OF inv] v]
  note wf = ledger_invD(5) [OF inv, of a]
  have val: "vw_val (view s a) = Some v" using v by simp
  have "stake_of (vw_del (view s a) ?d) \<le> v_TotalStake v"
    unfolding wf_viewD(4) [OF wf val]
    by (rule sum_UNIV_member_le [of "\<lambda>d. stake_of (vw_del (view s a) d)"]) (rule stake_of_nonneg [OF wf])
  then have T: "0 \<le> v_TotalStake v - amount" using amount del by (simp add: stake_of_def)
  obtain r state r1 st where set: "GetValidatorRewards s a = Some r"
    "settle cfg (w_block s) a v r s =
       Some (state, v\<lparr>v_LastUpdated := w_block s\<rparr>, r1, s\<lparr>s_state := put_states a st (s_state s)\<rparr>)"
    and sd: "settled ?M (w_block s) (view s a) state r1 st" and cnt: "unat (st_Count state) + 1 < 2 ^ 32"
    and nn: "0 \<le> vr_RewardsPool r1" "0 \<le> vr_CommissionRewardsPool r1" "0 \<le> st_RewardsPer1Stake state"
      "vr_CommissionRewardsPool r1 = vr_CommissionRewardsPool r"
    using settle_here [OF inv cfg room v] by metis
  have T1: "v_TotalStake v - amount \<le> v_TotalStake v + extra" using sol(2) amount by simp
  obtain n where vc: "voteCount (v_TotalStake v) cfg (w_block s) = Some (word_of_int (votes cfg (v_TotalStake v)))"
    "voteCount (v_TotalStake v - amount) cfg (w_block s) = Some (word_of_int (votes cfg (v_TotalStake v - amount)))"
    and uv: "\<And>s1. c_eligible_vote_count s1 = c_eligible_vote_count s \<Longrightarrow>
       update_votes (word_of_int (votes cfg (v_TotalStake v))) (word_of_int (votes cfg (v_TotalStake v - amount))) s1 =
       Some (s1\<lparr>c_eligible_vote_count := n\<rparr>)"
    and n: "uint n = total_votes cfg s - votes cfg (v_TotalStake v) + votes cfg (v_TotalStake v - amount)"
    by (rule votes_here [OF inv cfg room sol v T T1]) metis
  have bal: "payout ?M (view s a) (st_RewardsPer1Stake state) ?d \<le> w_balance s dpos_contract_address"
    using payout_covered [OF inv cfg sol v sd, of ?d] sol(2) by simp
  let ?s1 = "s\<lparr>s_state := put_states a st (s_state s)\<rparr>"
  have s1: "s_state ?s1 = put_states a st (s_state s)" "s_delegation ?s1 = s_delegation s"
    "s_delegator_validators ?s1 = s_delegator_validators s" "w_balance ?s1 = w_balance s" by simp_all
  let ?new = "if d_Stake del = amount then None
    else Some (del\<lparr>d_Stake := d_Stake del - amount, d_LastUpdated := w_block s\<rparr>)"
  have st_new: "stake_of ?new = d_Stake del - amount" "stake_of (s_delegation s (?d, a)) = d_Stake del"
    using del by (simp_all add: stake_of_def)
  have nw: "\<forall>x. ?new = Some x \<longrightarrow> d_LastUpdated x = w_block s \<and> 0 < d_Stake x" using amount by auto
  have res: "ledger_inv cfg (booked a ?d ?new state st bal' l n ext v' r1 s) \<and>
       total_stake (booked a ?d ?new state st bal' l n ext v' r1 s) = total_stake s - amount \<and>
       solvent cfg (extra + amount) (booked a ?d ?new state st bal' l n ext v' r1 s)"
    if idx: "indexes l ((s_delegation s)((?d, a) := ?new))"
      and b: "w_balance s dpos_contract_address - payout ?M (view s a) (st_RewardsPer1Stake state) ?d
         \<le> bal' dpos_contract_address"
      and v': "v_LastUpdated v' = w_block s" "v_TotalStake v' = v_TotalStake v - amount" for l bal' ext v'
  proof -
    have tot: "v_TotalStake v' = v_TotalStake v - stake_of (s_delegation s (?d, a)) + stake_of ?new"
      unfolding st_new using v'(2) by simp
    have n': "uint n = total_votes cfg s - votes cfg (v_TotalStake v) + votes cfg (v_TotalStake v')"
      using n v'(2) by simp
    note br = booked_result [where new = ?new and ext = ext and bal = bal',
        OF inv cfg v sd cnt idx v'(1) tot nw n' b sol(1), unfolded st_new]
    show ?thesis using br by (simp add: algebra_simps)
  qed
  show ?thesis
    by (rule stake_removed_ok [OF inv v sd refl M acc s1 bal del amount(2)],
        rule that [of r state r1 st n ?new])
      (unfold rem_booked_def, intro conjI allI impI,
        (rule mem T set nn vc | (rule uv, assumption) | assumption
          | (drule (3) res, (elim conjE)?, assumption))+)
qed

end
