(* ===== verification/Dpos_Undelegations.thy ===== *)
theory Dpos_Undelegations
  imports Dpos_Booking
begin

section \<open>Undelegation requests and the invariant\<close>

text \<open>
  Creating and removing an undelegation request, of version 1 (one per delegator and validator) and of
  version 2 (numbered), keeps the lists and the requests together. A new id is greater than every
  id the delegator has had.
\<close>

lemma requests_changed:
  assumes inv: "ledger_inv cfg s" and wf: "undelegations_v1_wf s'" "undelegations_v2_wf s'"
    and same: "s_validator s' = s_validator s" "s_validator_info s' = s_validator_info s"
      "s_validator_rewards s' = s_validator_rewards s" "s_validators_list s' = s_validators_list s"
      "s_delegation s' = s_delegation s" "s_delegator_validators s' = s_delegator_validators s"
      "s_state s' = s_state s" "w_block s' = w_block s" "w_balance s' = w_balance s"
      "c_eligible_vote_count s' = c_eligible_vote_count s"
  shows "ledger_inv cfg s'" and "view s' a = view s a" and "total_stake s' = total_stake s"
    and "solvent cfg extra s \<Longrightarrow> solvent cfg (extra - (undelegated s' - undelegated s)) s'"
    and "room cfg a s' = room cfg a s"
proof -
  have view: "view s' a = view s a" for a
    using same by (intro view_eqI) (simp_all add: GetValidator_def GetValidatorRewards_def)
  show "view s' a = view s a" by (rule view)
  show "total_stake s' = total_stake s" by (simp add: total_stake_def view)
  show "ledger_inv cfg s'"
    using inv wf same unfolding ledger_inv_def by (simp add: view total_votes_def validators_wf_def delegations_wf_def)
  show "solvent cfg (extra - (undelegated s' - undelegated s)) s'" if "solvent cfg extra s"
    using that same by (simp add: solvent_def owed_def view algebra_simps)
  show "room cfg a s' = room cfg a s" using same by (simp add: room_def)
qed

subsection \<open>Version 1\<close>

lemma v1_created:
  fixes b :: block_num
  assumes inv: "ledger_inv cfg s" and none: "s_undelegation_v1 s (d, a) = None" and amount: "0 < amount"
  defines "s' \<equiv> s\<lparr>s_undelegation_v1 := (s_undelegation_v1 s)((d, a) \<mapsto> \<lparr>u_Amount = amount, u_Block = b\<rparr>),
      s_v1_validators := (s_v1_validators s)(d := s_v1_validators s d @ [a])\<rparr>"
  shows "CreateUndelegationV1 d a b amount s = Some s'" and "undelegations_v1_wf s'" and "undelegations_v2_wf s'"
    and "undelegated s' = undelegated s + amount"
proof -
  have wf: "indexes (s_v1_validators s) (s_undelegation_v1 s)"
    and pos: "\<forall>k u. s_undelegation_v1 s k = Some u \<longrightarrow> 0 < u_Amount u"
    using ledger_invD(3) [OF inv] by (simp_all add: undelegations_v1_wf_def)
  show "CreateUndelegationV1 d a b amount s = Some s'"
    using amount indexes_insert(1) [OF wf none] by (simp add: CreateUndelegationV1_def s'_def)
  show "undelegations_v1_wf s'"
    unfolding undelegations_v1_wf_def s'_def using indexes_insert(2) [OF wf none] pos amount by simp
  show "undelegations_v2_wf s'"
    using ledger_invD(4) [OF inv] by (simp add: undelegations_v2_wf_def last_id_def s'_def)
  have "(\<Sum>k\<in>UNIV. amount_of (s_undelegation_v1 s' k)) =
      (\<Sum>k\<in>UNIV. amount_of (s_undelegation_v1 s k)) - amount_of (s_undelegation_v1 s (d, a))
      + amount_of (s_undelegation_v1 s' (d, a))"
    by (rule sum_UNIV_change_at) (simp add: s'_def)
  then show "undelegated s' = undelegated s + amount"
    using none by (simp add: undelegated_def s'_def amount_of_def)
qed

lemma v1_removed:
  assumes inv: "ledger_inv cfg s" and u: "s_undelegation_v1 s (d, a) = Some u"
  defines "s' \<equiv> s\<lparr>s_undelegation_v1 := (s_undelegation_v1 s)((d, a) := None),
      s_v1_validators := (s_v1_validators s)(d := swap_remove (item_index a (s_v1_validators s d)) (s_v1_validators s d))\<rparr>"
  shows "removeUndelegationV1 d a s = Some s'" and "undelegations_v1_wf s'" and "undelegations_v2_wf s'"
    and "undelegated s' = undelegated s - u_Amount u"
proof -
  have wf: "indexes (s_v1_validators s) (s_undelegation_v1 s)"
    and pos: "\<forall>k u. s_undelegation_v1 s k = Some u \<longrightarrow> 0 < u_Amount u"
    using ledger_invD(3) [OF inv] by (simp_all add: undelegations_v1_wf_def)
  have ex: "s_undelegation_v1 s (d, a) \<noteq> None" using u by simp
  show "removeUndelegationV1 d a s = Some s'"
    using indexes_remove(1) [OF wf ex] by (simp add: removeUndelegationV1_def s'_def)
  show "undelegations_v1_wf s'"
    unfolding undelegations_v1_wf_def s'_def using indexes_remove(2) [OF wf ex] pos by simp
  show "undelegations_v2_wf s'"
    using ledger_invD(4) [OF inv] by (simp add: undelegations_v2_wf_def last_id_def s'_def)
  have "(\<Sum>k\<in>UNIV. amount_of (s_undelegation_v1 s' k)) =
      (\<Sum>k\<in>UNIV. amount_of (s_undelegation_v1 s k)) - amount_of (s_undelegation_v1 s (d, a))
      + amount_of (s_undelegation_v1 s' (d, a))"
    by (rule sum_UNIV_change_at) (simp add: s'_def)
  then show "undelegated s' = undelegated s - u_Amount u"
    using u by (simp add: undelegated_def s'_def amount_of_def)
qed

subsection \<open>Version 2\<close>

lemma undelegations_v2_wfD:
  assumes "undelegations_v2_wf s"
  shows "indexes (s_v2_ids s) (\<lambda>(k, i). s_undelegation_v2 s (fst k, snd k, i))"
    and "indexes (s_v2_validators s) (\<lambda>k. if s_v2_ids s k = [] then None else Some ())"
    and "length (s_v2_ids s k) < 2 ^ 32"
    and "i \<in> set (s_v2_ids s (d, a)) \<Longrightarrow> i \<le> last_id s d"
    and "s_undelegation_v2 s (d, a, i) = Some u \<Longrightarrow> 0 < u_Amount u"
  using assms unfolding undelegations_v2_wf_def by blast+

lemma v2_map_upd:
  "(\<lambda>(k, i). (m((d, a, j) := x)) (fst k, snd k, i)) = (\<lambda>(k, i). m (fst k, snd k, i))(((d, a), j) := x)"
  by (auto simp: fun_eq_iff)

lemma v2_id_fresh:
  assumes wf: "undelegations_v2_wf s" and room: "last_id s d \<noteq> - 1"
  shows "last_id s d < last_id s d + 1" and "s_undelegation_v2 s (d, a, last_id s d + 1) = None"
    and "i \<in> set (s_v2_ids s (d, x)) \<Longrightarrow> i \<le> last_id s d + 1"
proof -
  show less: "last_id s d < last_id s d + 1" using room inc_less_eq_triv_imp [of "last_id s d"] by (meson leI)
  have "last_id s d + 1 \<notin> set (s_v2_ids s (d, a))"
    using undelegations_v2_wfD(4) [OF wf, of "last_id s d + 1" d a] less by auto
  then show "s_undelegation_v2 s (d, a, last_id s d + 1) = None"
    using indexesD(2) [OF undelegations_v2_wfD(1) [OF wf], of "last_id s d + 1" "(d, a)"] by simp
  show "i \<le> last_id s d + 1" if "i \<in> set (s_v2_ids s (d, x))"
    using undelegations_v2_wfD(4) [OF wf that] less by simp
qed


lemma v2_created:
  assumes inv: "ledger_inv cfg s" and amount: "0 < amount"
    and room: "last_id s d \<noteq> - 1" "length (s_v2_ids s (d, a)) + 1 < 2 ^ 32"
  obtains s' l where "CreateUndelegationV2 d a b amount s = Some (last_id s d + 1, s')"
    "s' = s\<lparr>s_last_unique_id := (s_last_unique_id s)(d \<mapsto> last_id s d + 1),
      s_undelegation_v2 := (s_undelegation_v2 s)((d, a, last_id s d + 1) \<mapsto>
        \<lparr>u_Amount = amount, u_Block = b, u_Id = last_id s d + 1\<rparr>),
      s_v2_ids := (s_v2_ids s)((d, a) := s_v2_ids s (d, a) @ [last_id s d + 1]), s_v2_validators := l\<rparr>"
    "undelegations_v1_wf s'" "undelegations_v2_wf s'" "undelegated s' = undelegated s + amount"
proof -
  let ?i = "last_id s d + 1" and ?ids = "s_v2_ids s (d, a)"
  let ?u = "\<lparr>u_Amount = amount, u_Block = b, u_Id = last_id s d + 1\<rparr>"
  have wf: "undelegations_v2_wf s" by (rule ledger_invD(4) [OF inv])
  note W = undelegations_v2_wfD [OF wf] and F = v2_id_fresh [OF wf room(1)]
  let ?l = "if ?ids = [] then (s_v2_validators s)(d := s_v2_validators s d @ [a]) else s_v2_validators s"
  define s' where "s' = s\<lparr>s_last_unique_id := (s_last_unique_id s)(d \<mapsto> ?i),
      s_undelegation_v2 := (s_undelegation_v2 s)((d, a, ?i) \<mapsto> ?u),
      s_v2_ids := (s_v2_ids s)((d, a) := ?ids @ [?i]), s_v2_validators := ?l\<rparr>"
  have none: "(case ((d, a), ?i) of (k, i) \<Rightarrow> s_undelegation_v2 s (fst k, snd k, i)) = None" using F(2) by simp
  note ids = indexes_insert [OF W(1) none]
  have n: "(of_nat (Suc (length ?ids)) :: u32) = 1 \<longleftrightarrow> ?ids = []"
  proof -
    have "unat (of_nat (Suc (length ?ids)) :: u32) = Suc (length ?ids)"
      unfolding unat_of_nat using room(2) by simp
    then show ?thesis by (metis One_nat_def length_0_conv of_nat_1 old.nat.inject unat_1)
  qed
  have vals: "indexes ?l (\<lambda>k. if ((s_v2_ids s)((d, a) := ?ids @ [?i])) k = [] then None else Some ())"
  proof (cases "?ids = []")
    case True
    have eq: "(\<lambda>k. if ((s_v2_ids s)((d, a) := ?ids @ [?i])) k = [] then None else Some ()) =
        (\<lambda>k. if s_v2_ids s k = [] then None else Some ())((d, a) \<mapsto> ())" by auto
    show ?thesis unfolding eq using indexes_insert(2) [OF W(2), of d a] True by simp
  next
    case False
    then have eq: "(\<lambda>k. if ((s_v2_ids s)((d, a) := ?ids @ [?i])) k = [] then None else Some ()) =
        (\<lambda>k. if s_v2_ids s k = [] then None else Some ())" by auto
    show ?thesis unfolding eq using W(2) False by simp
  qed
  have "CreateUndelegationV2 d a b amount s = Some (?i, s')"
    using amount ids(1) n indexes_insert(1) [OF W(2), of d a]
    by (auto simp: CreateUndelegationV2_def genUniqueId_def s'_def Let_def simp flip: last_id_def)
  moreover have "undelegations_v1_wf s'"
    using ledger_invD(3) [OF inv] by (simp add: undelegations_v1_wf_def s'_def)
  moreover have "undelegations_v2_wf s'"
  proof -
    have "i \<le> last_id s' d'" if "i \<in> set (s_v2_ids s' (d', a'))" for d' a' i
      using that F(3) W(4) by (auto simp: s'_def last_id_def split: if_splits)
    moreover have "0 < u_Amount u" if "s_undelegation_v2 s' k = Some u" for k u
      using that W(5) amount by (cases k) (auto simp: s'_def split: if_splits)
    moreover have "indexes (s_v2_ids s') (\<lambda>(k, i). s_undelegation_v2 s' (fst k, snd k, i))"
      using ids(2) by (simp add: s'_def v2_map_upd del: fun_upd_apply)
    moreover have "indexes (s_v2_validators s') (\<lambda>k. if s_v2_ids s' k = [] then None else Some ())"
      using vals by (simp add: s'_def)
    moreover have "length (s_v2_ids s' k) < 2 ^ 32" for k
      using W(3) room(2) by (simp add: s'_def)
    ultimately show ?thesis unfolding undelegations_v2_wf_def by blast
  qed
  moreover have "undelegated s' = undelegated s + amount"
  proof -
    have "(\<Sum>k\<in>UNIV. amount_of (s_undelegation_v2 s' k)) =
        (\<Sum>k\<in>UNIV. amount_of (s_undelegation_v2 s k)) - amount_of (s_undelegation_v2 s (d, a, ?i))
        + amount_of (s_undelegation_v2 s' (d, a, ?i))"
      by (rule sum_UNIV_change_at) (simp add: s'_def)
    then show ?thesis using F(2) by (simp add: undelegated_def s'_def amount_of_def)
  qed
  ultimately show ?thesis using that [of s' ?l] s'_def by blast
qed


lemma v2_removed:
  assumes inv: "ledger_inv cfg s" and u: "s_undelegation_v2 s (d, a, i) = Some u"
  obtains s' l where "removeUndelegationV2 d a i s = Some s'"
    "s' = s\<lparr>s_undelegation_v2 := (s_undelegation_v2 s)((d, a, i) := None),
      s_v2_ids := (s_v2_ids s)((d, a) := swap_remove (item_index i (s_v2_ids s (d, a))) (s_v2_ids s (d, a))),
      s_v2_validators := l\<rparr>"
    "undelegations_v1_wf s'" "undelegations_v2_wf s'" "undelegated s' = undelegated s - u_Amount u"
proof -
  let ?ids = "s_v2_ids s (d, a)"
  let ?ids' = "swap_remove (item_index i ?ids) ?ids"
  have wf: "undelegations_v2_wf s" by (rule ledger_invD(4) [OF inv])
  note W = undelegations_v2_wfD [OF wf]
  have ex: "(case ((d, a), i) of (k, i) \<Rightarrow> s_undelegation_v2 s (fst k, snd k, i)) \<noteq> None" using u by simp
  have mem: "i \<in> set ?ids" using indexesD(2) [OF W(1), of i "(d, a)"] ex by simp
  note ids = indexes_remove [OF W(1) ex]
  have sub: "set ?ids' \<subseteq> set ?ids"
    using set_swap_remove [OF indexesD(1) [OF W(1)] item_index_less [OF mem]] by auto
  have va: "(if ?ids = [] then None else Some ()) \<noteq> None" using mem by auto
  let ?l = "if ?ids' = [] then (s_v2_validators s)(d := swap_remove (item_index a (s_v2_validators s d)) (s_v2_validators s d))
    else s_v2_validators s"
  define s' where "s' = s\<lparr>s_undelegation_v2 := (s_undelegation_v2 s)((d, a, i) := None),
      s_v2_ids := (s_v2_ids s)((d, a) := ?ids'), s_v2_validators := ?l\<rparr>"
  have n: "(of_nat (length ?ids - 1) :: u32) = 0 \<longleftrightarrow> ?ids' = []"
  proof -
    have "unat (of_nat (length ?ids - 1) :: u32) = length ?ids'"
      unfolding unat_of_nat using W(3) [of "(d, a)"] by (simp add: less_imp_diff_less)
    then show ?thesis by (metis length_0_conv unat_eq_zero)
  qed
  have vals: "indexes ?l (\<lambda>k. if ((s_v2_ids s)((d, a) := ?ids')) k = [] then None else Some ())"
  proof (cases "?ids' = []")
    case True
    then have eq: "(\<lambda>k. if ((s_v2_ids s)((d, a) := ?ids')) k = [] then None else Some ()) =
        (\<lambda>k. if s_v2_ids s k = [] then None else Some ())((d, a) := None)" by auto
    show ?thesis unfolding eq using indexes_remove(2) [OF W(2) va] True by simp
  next
    case False
    then have eq: "(\<lambda>k. if ((s_v2_ids s)((d, a) := ?ids')) k = [] then None else Some ()) =
        (\<lambda>k. if s_v2_ids s k = [] then None else Some ())" using mem by (auto simp: fun_eq_iff)
    show ?thesis unfolding eq using W(2) False by simp
  qed
  have "removeUndelegationV2 d a i s = Some s'"
    using ids(1) n indexes_remove(1) [OF W(2) va] by (auto simp: removeUndelegationV2_def s'_def Let_def)
  moreover have "undelegations_v1_wf s'"
    using ledger_invD(3) [OF inv] by (simp add: undelegations_v1_wf_def s'_def)
  moreover have "undelegations_v2_wf s'"
  proof -
    have "j \<le> last_id s' d'" if "j \<in> set (s_v2_ids s' (d', a'))" for d' a' j
      using that sub W(4) by (auto simp: s'_def last_id_def split: if_splits)
    moreover have "0 < u_Amount u" if "s_undelegation_v2 s' k = Some u" for k u
      using that W(5) by (cases k) (auto simp: s'_def split: if_splits)
    moreover have "indexes (s_v2_ids s') (\<lambda>(k, i). s_undelegation_v2 s' (fst k, snd k, i))"
      using ids(2) by (simp add: s'_def v2_map_upd del: fun_upd_apply)
    moreover have "indexes (s_v2_validators s') (\<lambda>k. if s_v2_ids s' k = [] then None else Some ())"
      using vals by (simp add: s'_def)
    moreover have "length (s_v2_ids s' k) < 2 ^ 32" for k
      using W(3) [of k] W(3) [of "(d, a)"] by (auto simp: s'_def)
    ultimately show ?thesis unfolding undelegations_v2_wf_def by blast
  qed
  moreover have "undelegated s' = undelegated s - u_Amount u"
  proof -
    have "(\<Sum>k\<in>UNIV. amount_of (s_undelegation_v2 s' k)) =
        (\<Sum>k\<in>UNIV. amount_of (s_undelegation_v2 s k)) - amount_of (s_undelegation_v2 s (d, a, i))
        + amount_of (s_undelegation_v2 s' (d, a, i))"
      by (rule sum_UNIV_change_at) (simp add: s'_def)
    then show ?thesis using u by (simp add: undelegated_def s'_def amount_of_def)
  qed
  ultimately show ?thesis using that [of s' ?l] s'_def by blast
qed

subsection \<open>Both versions\<close>

text \<open>Room for one more request: only version 2 needs it.\<close>

definition request_room :: "dpos \<Rightarrow> address \<Rightarrow> address \<Rightarrow> bool" where
  "request_room s d a \<longleftrightarrow> last_id s d \<noteq> - 1 \<and> length (s_v2_ids s (d, a)) + 1 < 2 ^ 32"

definition same_ledger :: "dpos \<Rightarrow> dpos \<Rightarrow> bool" where
  "same_ledger s s' \<longleftrightarrow>
     s_validator s' = s_validator s \<and> s_validator_info s' = s_validator_info s \<and>
     s_validator_rewards s' = s_validator_rewards s \<and> s_validators_list s' = s_validators_list s \<and>
     s_delegation s' = s_delegation s \<and> s_delegator_validators s' = s_delegator_validators s \<and>
     s_state s' = s_state s \<and> w_block s' = w_block s \<and> w_balance s' = w_balance s \<and>
     c_eligible_vote_count s' = c_eligible_vote_count s \<and> c_amount_delegated s' = c_amount_delegated s"

lemma request_created:
  assumes inv: "ledger_inv cfg s" and amount: "0 < amount"
    and fresh: "\<not> v2 \<Longrightarrow> s_undelegation_v1 s (CallerAccount ctx, a) = None"
    and room: "v2 \<Longrightarrow> request_room s (CallerAccount ctx) a" and sol: "solvent cfg extra s"
  obtains i s' where "create_undelegation cfg ctx block a amount v2 s = Some (i, s')"
    "ledger_inv cfg s'" "same_ledger s s'" "total_stake s' = total_stake s" "solvent cfg (extra - amount) s'"
proof -
  let ?b = "block + delegation_locking_period cfg block" and ?d = "CallerAccount ctx"
  have "\<exists>i s' log. create_undelegation cfg ctx block a amount v2 s = Some (i, AddLog log s') \<and> same_ledger s s' \<and>
      undelegations_v1_wf s' \<and> undelegations_v2_wf s' \<and> undelegated s' = undelegated s + amount"
  proof (cases v2)
    case True
    then have "last_id s ?d \<noteq> - 1" "length (s_v2_ids s (?d, a)) + 1 < 2 ^ 32"
      using room by (simp_all add: request_room_def)
    then show ?thesis
      by (rule v2_created [OF inv amount, of _ a ?b])
        (force simp: create_undelegation_def True same_ledger_def Let_def)
  next
    case False
    show ?thesis
      using v1_created [OF inv fresh [OF False] amount, of ?b]
      by (force simp: create_undelegation_def False same_ledger_def Let_def)
  qed
  then obtain i s' log where s': "create_undelegation cfg ctx block a amount v2 s = Some (i, AddLog log s')"
    "same_ledger s s'" "undelegations_v1_wf s'" "undelegations_v2_wf s'" "undelegated s' = undelegated s + amount"
    by blast
  note ch = requests_changed [OF inv s'(3,4)]
  show ?thesis
    by (rule that [OF s'(1)])
      (use s'(2,5) ch(1,3) ch(4) [OF _ _ _ _ _ _ _ _ _ _ sol] in \<open>simp_all add: same_ledger_def AddLog_def\<close>)
qed

lemma request_removed:
  assumes inv: "ledger_inv cfg s" and ex: "UndelegationExists s d a i" and sol: "solvent cfg extra s"
  obtains u s' where "GetUndelegationBaseObject s d a i = Some u" "RemoveUndelegation d a i s = Some s'"
    "0 < u_Amount u" "ledger_inv cfg s'" "same_ledger s s'" "total_stake s' = total_stake s"
    "solvent cfg (extra + u_Amount u) s'" "w_logs s' = w_logs s"
proof -
  have "\<exists>u s'. GetUndelegationBaseObject s d a i = Some u \<and> RemoveUndelegation d a i s = Some s' \<and> 0 < u_Amount u \<and>
      same_ledger s s' \<and> undelegations_v1_wf s' \<and> undelegations_v2_wf s' \<and>
      undelegated s' = undelegated s - u_Amount u \<and> w_logs s' = w_logs s"
  proof (cases i)
    case None
    have "a \<in> set (s_v1_validators s d)" using ex None by (simp add: UndelegationExists_def UndelegationV1Exists_def)
    then obtain u where u: "s_undelegation_v1 s (d, a) = Some u"
      using ledger_invD(3) [OF inv] unfolding undelegations_v1_wf_def indexes_def by auto
    have "0 < u_Amount u" using ledger_invD(3) [OF inv] u unfolding undelegations_v1_wf_def by blast
    then show ?thesis
      using v1_removed [OF inv u] u None
      by (simp add: GetUndelegationBaseObject_def GetUndelegationV1_def RemoveUndelegation_def same_ledger_def)
  next
    case (Some j)
    have "j \<in> set (s_v2_ids s (d, a))" using ex Some by (simp add: UndelegationExists_def undelegationV2Exists_def)
    then obtain u where u: "s_undelegation_v2 s (d, a, j) = Some u"
      using indexesD(2) [OF undelegations_v2_wfD(1) [OF ledger_invD(4) [OF inv]], of j "(d, a)"] by auto
    have "0 < u_Amount u" by (rule undelegations_v2_wfD(5) [OF ledger_invD(4) [OF inv] u])
    moreover obtain s' l where s': "removeUndelegationV2 d a j s = Some s'"
      "s' = s\<lparr>s_undelegation_v2 := (s_undelegation_v2 s)((d, a, j) := None),
        s_v2_ids := (s_v2_ids s)((d, a) := swap_remove (item_index j (s_v2_ids s (d, a))) (s_v2_ids s (d, a))),
        s_v2_validators := l\<rparr>"
      "undelegations_v1_wf s'" "undelegations_v2_wf s'" "undelegated s' = undelegated s - u_Amount u"
      by (rule v2_removed [OF inv u])
    moreover have "same_ledger s s'" "w_logs s' = w_logs s" by (simp_all add: s'(2) same_ledger_def)
    ultimately show ?thesis
      using u Some
      by (simp add: GetUndelegationBaseObject_def GetUndelegationV2_def RemoveUndelegation_def
          UndelegationV1.truncate_def)
  qed
  then obtain u s' where s': "GetUndelegationBaseObject s d a i = Some u" "RemoveUndelegation d a i s = Some s'"
    "0 < u_Amount u" "same_ledger s s'" "undelegations_v1_wf s'" "undelegations_v2_wf s'"
    "undelegated s' = undelegated s - u_Amount u" "w_logs s' = w_logs s" by blast
  note ch = requests_changed [OF inv s'(5,6)]
  show ?thesis
    by (rule that [OF s'(1-3)])
      (use s'(4,7,8) ch(1,3) ch(4) [OF _ _ _ _ _ _ _ _ _ _ sol] in \<open>simp_all add: same_ledger_def\<close>)
qed

end
