(* ===== verification/Dpos_Safety.thy ===== *)
theory Dpos_Safety
  imports Dpos_Undelegations
begin

section \<open>The operations keep the invariant and never panic\<close>

text \<open>
  For every operation that changes state: called in a state that satisfies the invariant and with a
  balance that covers what the contract owes, it returns (no panic), a call that returns an error has
  changed nothing, and a successful one keeps the invariant and the solvency.
\<close>

text \<open>The outcome that every operation of the contract has.\<close>

definition safe_result :: "ChainConfig \<Rightarrow> dpos \<Rightarrow> (dpos \<times> dpos_error option) option \<Rightarrow> bool" where
  "safe_result cfg s res \<longleftrightarrow>
     (\<exists>s' err. res = Some (s', err) \<and> (err \<noteq> None \<longrightarrow> s' = s) \<and>
        (err = None \<longrightarrow> dpos_inv cfg s' \<and> solvent cfg 0 s' \<and> w_block s' = w_block s))"

subsection \<open>Delegate\<close>

lemma delegate_safe:
  assumes inv: "dpos_inv cfg s" and cfg: "config_ok cfg" and room: "room cfg a s" and U: "uint256_spec U"
    and sol: "solvent cfg (Value ctx) s" and val: "0 \<le> Value ctx" and acc: "Account ctx = dpos_contract_address"
  shows "safe_result cfg s (delegate U cfg ctx (w_block s) a s)"
proof (cases "\<exists>v. GetValidator s a = Some v \<and> Value ctx + v_TotalStake v \<le> ValidatorMaximumStake (DPOS cfg) \<and>
    \<not> (GetDelegation s (CallerAccount ctx) a = None \<and> MinimumDeposit (DPOS cfg) > Value ctx)")
  case False
  then show ?thesis
    by (auto simp: safe_result_def delegate_def Let_def not_le split: option.splits)
next
  case True
  let ?d = "CallerAccount ctx" and ?b = "w_block s" and ?x = "Value ctx"
  let ?ext = "IsOnMagnoliaHardfork (Hardforks cfg) ?b"
  from True obtain v where v: "GetValidator s a = Some v"
    and max: "\<not> ValidatorMaximumStake (DPOS cfg) < ?x + v_TotalStake v"
    and min: "\<not> (s_delegation s (?d, a) = None \<and> MinimumDeposit (DPOS cfg) > ?x)"
    by (auto simp: GetDelegation_def)
  have L: "ledger_inv cfg s" and am: "c_amount_delegated s = word_of_int (total_stake s)"
    using inv by (simp_all add: dpos_inv_def)
  have pos: "0 < ?x" if "s_delegation s (?d, a) = None" using min that cfg by (simp add: config_ok_def)
  obtain r state r1 st n new bal logs l where
    "add_booked cfg ctx a ?x ?x s v r state r1 st n new bal logs l"
    by (rule add_stake [OF L cfg room sol val order_refl acc v pos])
  note B = this [unfolded add_booked_def]
  let ?v' = "v\<lparr>v_LastUpdated := ?b, v_TotalStake := v_TotalStake v + ?x\<rparr>"
  let ?s' = "(booked a ?d (Some new) state st bal l n ?ext ?v' r1 s)\<lparr>
    c_amount_delegated := c_amount_delegated s + word_of_int ?x, w_logs := logs @ [DelegatedLog ?d a ?x]\<rparr>"
  have "delegate U cfg ctx ?b a s = Some (?s', None)"
    unfolding delegate_def
    using v max min val
    by (simp add: GetDelegation_def B delegate_update_values_def uint256_specD [OF U] state_put_def
        ModifyValidator_ok ModifyValidatorRewards_ok AddLog_def booked_def Let_def)
  moreover have "dpos_inv cfg ?s'" "solvent cfg 0 ?s'"
    using B am by (simp_all add: dpos_inv_def)
  ultimately show ?thesis by (auto simp: safe_result_def)
qed



subsection \<open>Undelegate\<close>

definition forget_id :: "(dpos \<times> (dpos_error + u64)) option \<Rightarrow> dpos_result" where
  "forget_id = map_option (\<lambda>(s, r). (s, case r of Inl e \<Rightarrow> Some e | Inr _ \<Rightarrow> None))"

lemma undelegate_booking:
  assumes L: "ledger_inv cfg s" and cfg: "config_ok cfg" and U: "uint256_spec U"
    and v: "GetValidator s a = Some v" and del: "s_delegation s (CallerAccount ctx, a) = Some del"
    and amount: "0 < amount" "amount \<le> d_Stake del"
    and ok: "\<not> (d_Stake del \<noteq> amount \<and> MinimumDeposit (DPOS cfg) > d_Stake del - amount)"
    and v1: "\<not> (\<not> v2 \<and> UndelegationV1Exists s (CallerAccount ctx) a)"
    and B: "rem_booked cfg ctx a amount 0 s v del r state r1 st n new bal logs l s1"
  obtains s6 where
    "undelegate U cfg ctx (w_block s) a amount v2 s = do {
       (i, s7) \<leftarrow> create_undelegation cfg ctx (w_block s) a amount v2 s6; Some (s7, Inr i) }"
    "ledger_inv cfg s6" "total_stake s6 = total_stake s - amount" "solvent cfg amount s6"
    "c_amount_delegated s6 = c_amount_delegated s - word_of_int amount" "w_block s6 = w_block s"
    "s_undelegation_v1 s6 = s_undelegation_v1 s" "s_v2_ids s6 = s_v2_ids s" "s_last_unique_id s6 = s_last_unique_id s"
proof -
  let ?d = "CallerAccount ctx" and ?b = "w_block s" and ?ext = "IsOnMagnoliaHardfork (Hardforks cfg) (w_block s)"
  note B' = B [unfolded rem_booked_def]
  let ?fin = "\<lambda>x. create_undelegation cfg ctx ?b a amount v2 x \<bind> (\<lambda>(i, s7). Some (s7, Inr i :: dpos_error + u64))"
  let ?v' = "v\<lparr>v_LastUpdated := ?b, v_TotalStake := v_TotalStake v - amount,
    v_UndelegationsCount := v_UndelegationsCount v + 1\<rparr>"
  let ?k = "(booked a ?d new state st bal l n ?ext ?v' r1 s)\<lparr>
    c_amount_delegated := c_amount_delegated s - word_of_int amount, w_logs := logs\<rparr>"
  have guards: "(\<not> v2 \<and> UndelegationV1Exists s ?d a) = False" "(d_Stake del < amount) = False"
    "(d_Stake del \<noteq> amount \<and> d_Stake del - amount < MinimumDeposit (DPOS cfg)) = False"
    using v1 amount ok by auto
  have k: "ledger_inv cfg ?k" "total_stake ?k = total_stake s - amount" "solvent cfg amount ?k"
    using B' by simp_all
  show ?thesis
  proof (cases "\<not> ?ext \<and> v_TotalStake v - amount = 0 \<and> vr_CommissionRewardsPool r1 = 0")
    case False
    then have keep: "(\<not> ?ext \<and> v_TotalStake v = amount \<and> vr_CommissionRewardsPool r = 0) = False" using B' by auto
    have "undelegate U cfg ctx ?b a amount v2 s = ?fin ?k"
      using v del amount B'
      by (simp add: guards keep undelegate_def GetDelegation_def uint256_specD [OF U] state_put_def ModifyValidator_ok
          ModifyValidatorRewards_ok booked_def Let_def not_less split del: if_split)
        (rule arg_cong [where f = ?fin], rule dpos.equality, simp_all)
    then show ?thesis by (rule that [OF _ k]) (simp_all add: booked_def)
  next
    case True
    let ?st = "(claimed (view s a) ?d st)(?b := None)"
    let ?s6 = "deleted a ?st ?k"
    have eq: "undelegate U cfg ctx ?b a amount v2 s = ?fin ?s6"
      using v del amount B' True
      by (simp add: guards undelegate_def GetDelegation_def uint256_specD [OF U] state_put_def DeleteValidator_ok
          booked_def deleted_def Let_def not_less split del: if_split)
        (rule arg_cong [where f = ?fin], rule dpos.equality, simp_all)
    have r: "GetValidatorRewards ?k a = Some r1" and val: "GetValidator ?k a = Some (decode_validator (slot_of ?ext ?v'))"
      and t: "v_TotalStake (decode_validator (slot_of ?ext ?v')) = 0" and c0: "vr_CommissionRewardsPool r1 = 0"
      using True by (simp_all add: booked_def GetValidatorRewards_def GetValidator_def)
    note W = wf_viewD [OF ledger_invD(5) [OF k(1)], of a, simplified view_sels, OF val]
    have st: "0 \<le> rps_of (?st b)" "?st b \<noteq> None \<Longrightarrow> b \<le> w_block ?k" for b
      using W(2,3) [of b] by (auto simp: booked_def rps_of_def split: if_splits)
    note D = deleted_result [OF k(1) cfg val t st r k(3), unfolded c0 add_0_right]
    show ?thesis
      by (rule that [OF eq D(1) trans [OF D(2) k(2)] D(3)]) (simp_all add: deleted_def booked_def)
  qed
qed

lemma undelegate_safe:
  assumes inv: "dpos_inv cfg s" and cfg: "config_ok cfg" and room: "room cfg a s" and U: "uint256_spec U"
    and sol: "solvent cfg 0 s" and acc: "Account ctx = dpos_contract_address" and amount: "0 < amount"
    and req: "v2 \<Longrightarrow> request_room s (CallerAccount ctx) a"
  shows "safe_result cfg s (forget_id (undelegate U cfg ctx (w_block s) a amount v2 s))"
proof (cases "\<exists>v del. GetValidator s a = Some v \<and> s_delegation s (CallerAccount ctx, a) = Some del \<and>
    amount \<le> d_Stake del \<and> \<not> (d_Stake del \<noteq> amount \<and> MinimumDeposit (DPOS cfg) > d_Stake del - amount) \<and>
    \<not> (\<not> v2 \<and> UndelegationV1Exists s (CallerAccount ctx) a)")
  case False
  then show ?thesis
    by (auto simp: safe_result_def forget_id_def undelegate_def GetDelegation_def not_le split: option.splits)
next
  case True
  then obtain v del where v: "GetValidator s a = Some v" and del: "s_delegation s (CallerAccount ctx, a) = Some del"
    and g: "amount \<le> d_Stake del" "\<not> (d_Stake del \<noteq> amount \<and> MinimumDeposit (DPOS cfg) > d_Stake del - amount)"
      "\<not> (\<not> v2 \<and> UndelegationV1Exists s (CallerAccount ctx) a)" by blast
  have L: "ledger_inv cfg s" and am: "c_amount_delegated s = word_of_int (total_stake s)"
    using inv by (simp_all add: dpos_inv_def)
  obtain r state r1 st n new bal logs l s1 where
    B: "rem_booked cfg ctx a amount 0 s v del r state r1 st n new bal logs l s1"
    by (rule remove_stake [OF L cfg room sol order_refl acc v del less_imp_le [OF amount] g(1)])
  obtain s6 where eq: "undelegate U cfg ctx (w_block s) a amount v2 s = do {
       (i, s7) \<leftarrow> create_undelegation cfg ctx (w_block s) a amount v2 s6; Some (s7, Inr i) }"
    and s6: "ledger_inv cfg s6" "total_stake s6 = total_stake s - amount" "solvent cfg amount s6"
      "c_amount_delegated s6 = c_amount_delegated s - word_of_int amount" "w_block s6 = w_block s"
    and req6: "s_undelegation_v1 s6 = s_undelegation_v1 s" "s_v2_ids s6 = s_v2_ids s"
      "s_last_unique_id s6 = s_last_unique_id s"
    by (rule undelegate_booking [OF L cfg U v del amount g B])
  have fresh: "s_undelegation_v1 s6 (CallerAccount ctx, a) = None" if "\<not> v2"
    using g(3) that ledger_invD(3) [OF L]
    unfolding undelegations_v1_wf_def indexes_def req6 by (auto simp: UndelegationV1Exists_def)
  have room6: "request_room s6 (CallerAccount ctx) a" if v2
    using req [OF that] by (simp add: request_room_def last_id_def req6)
  obtain i s7 where "create_undelegation cfg ctx (w_block s) a amount v2 s6 = Some (i, s7)"
    and s7: "ledger_inv cfg s7" "same_ledger s6 s7" "total_stake s7 = total_stake s6" "solvent cfg (amount - amount) s7"
    by (rule request_created [OF s6(1) amount fresh room6 s6(3)])
  then have "forget_id (undelegate U cfg ctx (w_block s) a amount v2 s) = Some (s7, None)"
    by (simp add: eq forget_id_def)
  moreover have "dpos_inv cfg s7" "solvent cfg 0 s7" "w_block s7 = w_block s"
    using s6 s7 am by (simp_all add: dpos_inv_def same_ledger_def)
  ultimately show ?thesis by (auto simp: safe_result_def)
qed


subsection \<open>Cancel an undelegation\<close>

lemma cancelUndelegate_safe:
  assumes inv: "dpos_inv cfg s" and cfg: "config_ok cfg" and room: "room cfg a s" and U: "uint256_spec U"
    and sol: "solvent cfg 0 s" and acc: "Account ctx = dpos_contract_address"
  shows "safe_result cfg s (cancelUndelegate U cfg ctx (w_block s) a i s)"
proof (cases "UndelegationExists s (CallerAccount ctx) a i \<and> GetValidator s a \<noteq> None")
  case False
  then show ?thesis by (auto simp: safe_result_def cancelUndelegate_def)
next
  case True
  let ?d = "CallerAccount ctx" and ?b = "w_block s" and ?ext = "IsOnMagnoliaHardfork (Hardforks cfg) (w_block s)"
  from True obtain v where v: "GetValidator s a = Some v" and ex: "UndelegationExists s ?d a i" by blast
  have L: "ledger_inv cfg s" and am: "c_amount_delegated s = word_of_int (total_stake s)"
    using inv by (simp_all add: dpos_inv_def)
  obtain u s1 where u: "GetUndelegationBaseObject s ?d a i = Some u" "RemoveUndelegation ?d a i s = Some s1" "0 < u_Amount u"
    and s1: "ledger_inv cfg s1" "same_ledger s s1" "total_stake s1 = total_stake s" "solvent cfg (0 + u_Amount u) s1"
    by (rule request_removed [OF L ex sol])
  have same: "w_block s1 = ?b" "GetValidator s1 a = Some v" "GetValidatorRewards s1 a = GetValidatorRewards s a"
    "c_amount_delegated s1 = c_amount_delegated s" "room cfg a s1"
    using s1(2) v room by (simp_all add: same_ledger_def GetValidator_def GetValidatorRewards_def room_def)
  have sol1: "solvent cfg (u_Amount u) s1" using s1(4) by simp
  obtain r state r1 st n new bal logs l where
    "add_booked cfg ctx a (u_Amount u) (u_Amount u) s1 v r state r1 st n new bal logs l"
    by (rule add_stake [OF s1(1) cfg same(5) sol1 less_imp_le [OF u(3)] order_refl acc same(2) u(3)])
  note B = this [unfolded add_booked_def same]
  let ?v1 = "v\<lparr>v_LastUpdated := ?b, v_TotalStake := v_TotalStake v + u_Amount u\<rparr>"
  let ?v' = "if v_UndelegationsCount v > 0 then ?v1\<lparr>v_UndelegationsCount := v_UndelegationsCount v - 1\<rparr> else ?v1"
  let ?s' = "(booked a ?d (Some new) state st bal l n ?ext ?v' r1 s1)\<lparr>
    c_amount_delegated := c_amount_delegated s + word_of_int (u_Amount u),
    w_logs := logs @ [MakeUndelegateCanceledLog ?d a i (u_Amount u)]\<rparr>"
  have "cancelUndelegate U cfg ctx ?b a i s = Some (?s', None)"
    using v ex u B
    by (simp add: cancelUndelegate_def GetDelegation_def uint256_specD [OF U] state_put_def
        ModifyValidator_ok ModifyValidatorRewards_ok AddLog_def booked_def Let_def same del: not_gr_zero)
  moreover have "dpos_inv cfg ?s'" "solvent cfg 0 ?s'"
    using B am s1(3) by (simp_all add: dpos_inv_def)
  ultimately show ?thesis using same by (auto simp: safe_result_def)
qed


subsection \<open>Changes of a validator's own records\<close>

lemma record_result:
  fixes ext :: bool
  assumes inv: "ledger_inv cfg s" and v: "GetValidator s a = Some v"
    and eq: "v_TotalStake v' = v_TotalStake v" "v_LastUpdated v' = v_LastUpdated v"
  defines "s' \<equiv> s\<lparr>s_validator := (s_validator s)(a \<mapsto> slot_of ext v')\<rparr>"
  shows "ledger_inv cfg s'" "total_stake s' = total_stake s" "solvent cfg extra s' = solvent cfg extra s"
proof -
  have others: "view s' x = view s x" if "x \<noteq> a" for x
    using that by (intro view_eqI) (simp_all add: s'_def GetValidator_def GetValidatorRewards_def)
  have val: "vw_val (view s a) = Some v" using v by simp
  have V': "vw_val (view s' a) = Some (decode_validator (slot_of ext v'))" "vw_rew (view s' a) = vw_rew (view s a)"
    "vw_del (view s' a) = vw_del (view s a)" "vw_st (view s' a) = vw_st (view s a)"
    by (simp_all add: s'_def GetValidator_def GetValidatorRewards_def view_def)
  note ch = view_changed [of cfg s a s', OF inv others]
  note rc = record_changed [OF ledger_invD(5) [OF inv] val _ _ V', simplified decode_slot, OF eq]
  have tv: "vw_total (view s' a) = vw_total (view s a)" using val V'(1) eq by (simp add: vw_total_def)
  have same: "w_block s' = w_block s" "c_eligible_vote_count s' = c_eligible_vote_count s"
    "undelegated s' = undelegated s" "w_balance s' = w_balance s"
    by (simp_all add: s'_def undelegated_def)
  have wf': "wf_view (w_block s') (view s' x)" for x
    using rc(1) ledger_invD(5) [OF inv] others by (cases "x = a") (simp_all add: same)
  have "validators_wf s'"
    by (rule validators_wf_update [OF ledger_invD(1) [OF inv] v]) (simp_all add: s'_def)
  moreover have "delegations_wf s'" "undelegations_v1_wf s'" "undelegations_v2_wf s'"
    using ledger_invD(2-4) [OF inv]
    by (simp_all add: s'_def delegations_wf_def undelegations_v1_wf_def undelegations_v2_wf_def last_id_def)
  ultimately show "ledger_inv cfg s'"
    unfolding ledger_inv_def using wf' ch(3) tv same ledger_invD(6) [OF inv] by simp
  show "total_stake s' = total_stake s" using ch(2) tv by simp
  show "solvent cfg extra s' = solvent cfg extra s" using ch(1) rc(2) same by (simp add: solvent_def)
qed

lemma rewards_result:
  assumes inv: "ledger_inv cfg s" and v: "GetValidator s a = Some v" and r: "GetValidatorRewards s a = Some r"
    and r': "0 \<le> vr_RewardsPool r'" "0 \<le> vr_CommissionRewardsPool r'"
  defines "s' \<equiv> s\<lparr>s_validator_rewards := (s_validator_rewards s)(a \<mapsto> r')\<rparr>"
  shows "ledger_inv cfg s'" "total_stake s' = total_stake s"
    "solvent cfg extra s \<Longrightarrow> solvent cfg (extra + rewards_of (Some r) - rewards_of (Some r')) s'"
proof -
  have others: "view s' x = view s x" if "x \<noteq> a" for x
    using that by (intro view_eqI) (simp_all add: s'_def GetValidator_def GetValidatorRewards_def)
  have val: "vw_val (view s a) = Some v" using v by simp
  have V': "vw_val (view s' a) = vw_val (view s a)" "vw_rew (view s' a) = Some r'"
    "vw_del (view s' a) = vw_del (view s a)" "vw_st (view s' a) = vw_st (view s a)"
    by (simp_all add: s'_def GetValidator_def GetValidatorRewards_def view_def)
  note ch = view_changed [of cfg s a s', OF inv others]
  note rc = rewards_changed [OF ledger_invD(5) [OF inv] val r' V']
  have tv: "vw_total (view s' a) = vw_total (view s a)" using val V'(1) by (simp add: vw_total_def)
  have same: "w_block s' = w_block s" "c_eligible_vote_count s' = c_eligible_vote_count s"
    "undelegated s' = undelegated s" "w_balance s' = w_balance s"
    by (simp_all add: s'_def undelegated_def)
  have wf': "wf_view (w_block s') (view s' x)" for x
    using rc(1) ledger_invD(5) [OF inv] others by (cases "x = a") (simp_all add: same)
  have "validators_wf s'" "delegations_wf s'" "undelegations_v1_wf s'" "undelegations_v2_wf s'"
    using ledger_invD(1-4) [OF inv]
    by (simp_all add: s'_def validators_wf_def delegations_wf_def undelegations_v1_wf_def undelegations_v2_wf_def
        last_id_def)
  then show "ledger_inv cfg s'"
    unfolding ledger_inv_def using wf' ch(3) tv same ledger_invD(6) [OF inv] by simp
  show "total_stake s' = total_stake s" using ch(2) tv by simp
  show "solvent cfg (extra + rewards_of (Some r) - rewards_of (Some r')) s'" if "solvent cfg extra s"
    using that ch(1) rc(2) same r unfolding solvent_def by (simp add: algebra_simps)
qed

lemma transfer_ok:
  assumes acc: "Account ctx = dpos_contract_address" and x: "0 \<le> x" "x \<le> w_balance s dpos_contract_address"
    and sol: "solvent cfg (extra + x) s" and cfg: "config_ok cfg"
  obtains bal where "transferContractBalance ctx x s = Some (s\<lparr>w_balance := bal\<rparr>)"
    "solvent cfg extra (s\<lparr>w_balance := bal\<rparr>)"
proof -
  let ?b1 = "(w_balance s)(dpos_contract_address := w_balance s dpos_contract_address - x)"
  let ?bal = "?b1(CallerAccount ctx := ?b1 (CallerAccount ctx) + x)"
  have M: "0 < ValidatorMaximumStake (DPOS cfg)" using cfg by (simp add: config_ok_def)
  have le: "w_balance s dpos_contract_address - x \<le> ?bal dpos_contract_address" using x by auto
  have "ValidatorMaximumStake (DPOS cfg) * (w_balance s dpos_contract_address - x)
      \<le> ValidatorMaximumStake (DPOS cfg) * ?bal dpos_contract_address"
    by (rule mult_left_mono [OF le]) (use M in simp)
  then have "solvent cfg extra (s\<lparr>w_balance := ?bal\<rparr>)"
    using sol by (simp add: solvent_def algebra_simps)
  then show ?thesis
    using that [of ?bal] x acc by (simp add: transferContractBalance_def Let_def)
qed

lemma safe_error [simp]: "safe_result cfg s (Some (s, Some e))"
  by (simp add: safe_result_def)

lemma safe_ok:
  assumes "ledger_inv cfg s'" "c_amount_delegated s' = word_of_int (total_stake s')" "solvent cfg 0 s'"
    "w_block s' = w_block s"
  shows "safe_result cfg s (Some (s', None))"
  using assms by (simp add: safe_result_def dpos_inv_def)

lemma setCommission_safe:
  assumes inv: "dpos_inv cfg s" and sol: "solvent cfg 0 s"
  shows "safe_result cfg s (setCommission cfg ctx (w_block s) a commission s)"
proof (cases "GetValidator s a")
  case None
  then show ?thesis by (simp add: setCommission_def)
next
  case (Some v)
  let ?ext = "IsOnMagnoliaHardfork (Hardforks cfg) (w_block s)"
  let ?v = "v\<lparr>v_Commission := commission, v_LastCommissionChange := w_block s\<rparr>"
  have L: "ledger_inv cfg s" and am: "c_amount_delegated s = word_of_int (total_stake s)"
    using inv by (simp_all add: dpos_inv_def)
  have T: "0 \<le> v_TotalStake v" using vw_total_nonneg [OF ledger_invD(5) [OF L], of a] Some by (simp add: vw_total_def)
  note R = record_result [OF L Some, of ?v, simplified]
  have "safe_result cfg s (Some ((s\<lparr>s_validator := (s_validator s)(a \<mapsto> slot_of ?ext ?v)\<rparr>)\<lparr>
      w_logs := w_logs s @ [CommissionSetLog a commission]\<rparr>, None))"
    by (rule safe_ok) (use R am sol in simp_all)
  then show ?thesis
    using Some T by (simp add: setCommission_def AddLog_def
        ModifyValidator_ok [OF GetValidator_listed [OF ledger_invD(1) [OF L] Some]])
qed

lemma info_frame:
  assumes "ledger_inv cfg s" and "s_validator_info s a \<noteq> None"
  shows "ledger_inv cfg (s\<lparr>s_validator_info := (s_validator_info s)(a \<mapsto> x)\<rparr>)"
    and "total_stake (s\<lparr>s_validator_info := i\<rparr>) = total_stake s"
    and "solvent cfg e (s\<lparr>s_validator_info := i\<rparr>) = solvent cfg e s"
proof -
  have view: "view (s\<lparr>s_validator_info := i\<rparr>) b = view s b" for i b
    by (rule view_eqI) (simp_all add: GetValidator_def GetValidatorRewards_def)
  show "ledger_inv cfg (s\<lparr>s_validator_info := (s_validator_info s)(a \<mapsto> x)\<rparr>)"
    using assms unfolding ledger_inv_def
    by (auto simp: view total_votes_def store_wf_defs)
  show "total_stake (s\<lparr>s_validator_info := i\<rparr>) = total_stake s" by (simp add: total_stake_def view)
  show "solvent cfg e (s\<lparr>s_validator_info := i\<rparr>) = solvent cfg e s"
    by (simp add: solvent_def owed_def view undelegated_def)
qed

lemma setValidatorInfo_safe:
  assumes inv: "dpos_inv cfg s" and sol: "solvent cfg 0 s"
  shows "safe_result cfg s (setValidatorInfo ctx a description endpoint s)"
proof (cases "s_validator_info s a")
  case None
  then show ?thesis by (simp add: setValidatorInfo_def GetValidatorInfo_def)
next
  case (Some i)
  have L: "ledger_inv cfg s" and am: "c_amount_delegated s = word_of_int (total_stake s)"
    using inv by (simp_all add: dpos_inv_def)
  have mem: "a \<in> set (s_validators_list s)"
    using ledger_invD(1) [OF L] Some unfolding validators_wf_def indexes_def by auto
  have ex: "s_validator_info s a \<noteq> None" using Some by simp
  let ?i = "i\<lparr>vi_Description := description, vi_Endpoint := endpoint\<rparr>"
  have "safe_result cfg s (Some ((s\<lparr>s_validator_info := (s_validator_info s)(a \<mapsto> ?i)\<rparr>)\<lparr>
      w_logs := w_logs s @ [ValidatorInfoSetLog a]\<rparr>, None))"
    by (rule safe_ok) (use info_frame [OF L ex] am sol in simp_all)
  then show ?thesis
    using Some mem by (simp add: setValidatorInfo_def GetValidatorInfo_def ModifyValidatorInfo_def SaveValidatorInfo_def
        ValidatorExists_def AddLog_def)
qed

end
