(* ===== verification/Dpos_Claims.thy ===== *)
theory Dpos_Claims
  imports Dpos_Safety
begin

section \<open>Confirming undelegations and claiming rewards\<close>

text \<open>
  The operations that pay out: \<open>confirmUndelegate\<close>, \<open>claimCommissionRewards\<close>, \<open>claimRewards\<close> and the
  claims over all validators of a delegator.
\<close>

subsection \<open>Confirm an undelegation\<close>

lemma delete_and_release:
  assumes L: "ledger_inv cfg s" and cfg: "config_ok cfg" and v: "GetValidator s a = Some v" and T: "v_TotalStake v = 0"
    and r: "GetValidatorRewards s a = Some r" and sol: "solvent cfg extra s"
  defines "s' \<equiv> deleted a (decr_st (v_LastUpdated v) (\<lambda>b. s_state s (a, b))) s"
  obtains st where
    "do { s1 \<leftarrow> DeleteValidator a s; state_get_and_decrement a (v_LastUpdated v) s1 } = Some (st, s')"
    "ledger_inv cfg s'" "total_stake s' = total_stake s" "solvent cfg (extra + vr_CommissionRewardsPool r) s'"
proof -
  note wf = ledger_invD(5) [OF L, of a]
  have val: "vw_val (view s a) = Some v" using v by simp
  obtain old where old: "s_state s (a, v_LastUpdated v) = Some old" "0 \<le> st_RewardsPer1Stake old"
    using view_state_exists [OF wf val] by auto
  note mem = GetValidator_listed [OF ledger_invD(1) [OF L] v]
  have st: "0 \<le> rps_of (decr_st (v_LastUpdated v) (\<lambda>b. s_state s (a, b)) b)"
    "decr_st (v_LastUpdated v) (\<lambda>b. s_state s (a, b)) b \<noteq> None \<Longrightarrow> b \<le> w_block s" for b
    using wf_viewD(2,3) [OF wf val, of b] decr_st_dom [of "v_LastUpdated v" "\<lambda>b. s_state s (a, b)" b]
    by (simp_all add: rps_decr_nonneg)
  note D = deleted_result [where st = "decr_st (v_LastUpdated v) (\<lambda>b. s_state s (a, b))",
      OF L cfg v T st r sol, folded s'_def]
  have "state_get_and_decrement a (v_LastUpdated v) (deleted a (\<lambda>b. s_state s (a, b)) s) =
      Some (old\<lparr>st_Count := st_Count old - 1\<rparr>, s')"
    using state_get_and_decrement_ok [of "deleted a (\<lambda>b. s_state s (a, b)) s" a "v_LastUpdated v" old] old
    by (simp add: deleted_def s'_def)
  then have "do { s1 \<leftarrow> DeleteValidator a s; state_get_and_decrement a (v_LastUpdated v) s1 } =
      Some (old\<lparr>st_Count := st_Count old - 1\<rparr>, s')"
    by (simp add: DeleteValidator_ok [OF mem])
  then show ?thesis using that D by blast
qed

lemma confirm_update_ok:
  assumes L: "ledger_inv cfg s" and cfg: "config_ok cfg" and sol: "solvent cfg extra s"
  obtains s' where "confirm_update_validator cfg block a s = Some s'" "ledger_inv cfg s'"
    "total_stake s' = total_stake s" "solvent cfg extra s'" "c_amount_delegated s' = c_amount_delegated s"
    "w_block s' = w_block s" "w_balance s' = w_balance s"
proof (cases "IsOnMagnoliaHardfork (Hardforks cfg) block \<and> GetValidator s a \<noteq> None")
  case False
  then have "confirm_update_validator cfg block a s = Some s"
    by (auto simp: confirm_update_validator_def split: option.splits)
  then show ?thesis using that L sol by blast
next
  case True
  then obtain v where mag: "IsOnMagnoliaHardfork (Hardforks cfg) block" and v: "GetValidator s a = Some v" by blast
  note wf = ledger_invD(5) [OF L, of a]
  obtain r where r: "GetValidatorRewards s a = Some r" using wf_view_rewards [OF wf, of v] v by auto
  have T0: "0 \<le> v_TotalStake v" using vw_total_nonneg [OF wf] v by (simp add: vw_total_def)
  note mem = GetValidator_listed [OF ledger_invD(1) [OF L] v]
  let ?v1 = "if v_UndelegationsCount v > 0 then v\<lparr>v_UndelegationsCount := v_UndelegationsCount v - 1\<rparr> else v"
  have v1: "v_TotalStake ?v1 = v_TotalStake v" "v_LastUpdated ?v1 = v_LastUpdated v" by simp_all
  show ?thesis
  proof (cases "v_UndelegationsCount ?v1 = 0 \<and> v_TotalStake v = 0 \<and> vr_CommissionRewardsPool r = 0")
    case gone: True
    then have T: "v_TotalStake v = 0" and c0: "vr_CommissionRewardsPool r = 0" by simp_all
    let ?s' = "deleted a (decr_st (v_LastUpdated v) (\<lambda>b. s_state s (a, b))) s"
    obtain st where del: "do { s1 \<leftarrow> DeleteValidator a s; state_get_and_decrement a (v_LastUpdated v) s1 } = Some (st, ?s')"
      and D: "ledger_inv cfg ?s'" "total_stake ?s' = total_stake s" "solvent cfg (extra + vr_CommissionRewardsPool r) ?s'"
      by (rule delete_and_release [OF L cfg v T r sol])
    have "confirm_update_validator cfg block a s =
        map_option snd (do { s1 \<leftarrow> DeleteValidator a s; state_get_and_decrement a (v_LastUpdated v) s1 })"
      using mag v gone r v1
      by (cases "DeleteValidator a s")
        (auto simp: confirm_update_validator_def Let_def map_conv_bind_option case_prod_unfold comp_def)
    then show ?thesis
      using del D c0 by (intro that [of ?s']) (simp_all add: deleted_def)
  next
    case stays: False
    let ?k = "s\<lparr>s_validator := (s_validator s)(a \<mapsto> slot_of True ?v1)\<rparr>"
    note R = record_result [where ext = True, OF L v v1]
    have "confirm_update_validator cfg block a s = Some (if IsOnFicusHardfork (Hardforks cfg) block then ?k else s)"
      using mag v stays r v1 T0
      by (auto simp: confirm_update_validator_def Let_def ModifyValidator_ok [OF mem])
    then show ?thesis
      using that [of "if IsOnFicusHardfork (Hardforks cfg) block then ?k else s"] R L sol by simp
  qed
qed

lemma confirmUndelegate_safe:
  assumes inv: "dpos_inv cfg s" and cfg: "config_ok cfg" and sol: "solvent cfg 0 s"
    and acc: "Account ctx = dpos_contract_address"
  shows "safe_result cfg s (confirmUndelegate cfg ctx (w_block s) a i s)"
proof (cases "UndelegationExists s (CallerAccount ctx) a i")
  case False
  then show ?thesis by (simp add: confirmUndelegate_def)
next
  case True
  let ?d = "CallerAccount ctx"
  have L: "ledger_inv cfg s" and am: "c_amount_delegated s = word_of_int (total_stake s)"
    using inv by (simp_all add: dpos_inv_def)
  obtain u s1 where u: "GetUndelegationBaseObject s ?d a i = Some u" "RemoveUndelegation ?d a i s = Some s1" "0 < u_Amount u"
    and s1: "ledger_inv cfg s1" "same_ledger s s1" "total_stake s1 = total_stake s" "solvent cfg (0 + u_Amount u) s1"
    by (rule request_removed [OF L True sol])
  obtain s2 where s2: "confirm_update_validator cfg (w_block s) a s1 = Some s2" "ledger_inv cfg s2"
    "total_stake s2 = total_stake s1" "solvent cfg (0 + u_Amount u) s2" "c_amount_delegated s2 = c_amount_delegated s1"
    "w_block s2 = w_block s1" "w_balance s2 = w_balance s1"
    by (rule confirm_update_ok [OF s1(1) cfg s1(4)])
  have cov: "u_Amount u \<le> w_balance s2 dpos_contract_address"
    using balance_covers [OF s2(2) cfg s2(4), of 0] u(3) debt_le_owed [OF s2(2) cfg, of a]
      vw_debt_nonneg [OF ledger_invD(5) [OF s2(2)], of "ValidatorMaximumStake (DPOS cfg)" a] cfg
    by (simp add: config_ok_def)
  obtain bal where bal: "transferContractBalance ctx (u_Amount u) s2 = Some (s2\<lparr>w_balance := bal\<rparr>)"
    "solvent cfg 0 (s2\<lparr>w_balance := bal\<rparr>)"
    by (rule transfer_ok [OF acc less_imp_le [OF u(3)] cov s2(4) cfg])
  have "safe_result cfg s (Some ((s2\<lparr>w_balance := bal\<rparr>)\<lparr>
      w_logs := w_logs s2 @ [MakeUndelegateConfirmedLog ?d a i (u_Amount u)]\<rparr>, None))"
    by (rule safe_ok) (use s1 s2 bal am in \<open>simp_all add: same_ledger_def\<close>)
  then show ?thesis using True u s2 bal by (simp add: confirmUndelegate_def AddLog_def)
qed


subsection \<open>Claim the commission\<close>

text \<open>
  Between the Magnolia and the Phalaenopsis hard fork a validator without stake that still has
  undelegations keeps its commission after it has been paid; that case is excluded.
\<close>

lemma commission_le_debt:
  assumes wf: "wf_view blk V" and v: "vw_val V = Some v" and r: "vw_rew V = Some r" and M: "0 < M"
  shows "M * vr_CommissionRewardsPool r \<le> vw_debt M V"
proof -
  have "0 \<le> vw_total V" by (rule vw_total_nonneg [OF wf])
  moreover have "0 \<le> vr_RewardsPool r" using wf_view_rewards [OF wf v] r by (metis option.inject)
  moreover have "0 \<le> (\<Sum>d\<in>UNIV. vw_pending V (vw_cur V) d)"
    by (intro sum_nonneg vw_pending_nonneg [OF wf]) simp
  ultimately show ?thesis using v r M by (simp add: vw_debt_def rewards_of_def distrib_left)
qed

lemma claimCommissionRewards_safe:
  assumes inv: "dpos_inv cfg s" and cfg: "config_ok cfg" and sol: "solvent cfg 0 s"
    and acc: "Account ctx = dpos_contract_address" and fork: "IsOnPhalaenopsisHardfork (Hardforks cfg) (w_block s)"
  shows "safe_result cfg s (claimCommissionRewards cfg ctx (w_block s) a s)"
proof (cases "CheckValidatorOwner s (CallerAccount ctx) a \<and> GetValidator s a \<noteq> None")
  case False
  then show ?thesis by (auto simp: claimCommissionRewards_def)
next
  case True
  then obtain v where own: "CheckValidatorOwner s (CallerAccount ctx) a" and v: "GetValidator s a = Some v" by blast
  have L: "ledger_inv cfg s" and am: "c_amount_delegated s = word_of_int (total_stake s)"
    using inv by (simp_all add: dpos_inv_def)
  have M: "0 < ValidatorMaximumStake (DPOS cfg)" using cfg by (simp add: config_ok_def)
  note wf = ledger_invD(5) [OF L, of a]
  obtain r where r: "GetValidatorRewards s a = Some r" "0 \<le> vr_RewardsPool r" "0 \<le> vr_CommissionRewardsPool r"
    using wf_view_rewards [OF wf, of v] v by auto
  let ?c = "vr_CommissionRewardsPool r" and ?r1 = "r\<lparr>vr_CommissionRewardsPool := 0\<rparr>"
  have "ValidatorMaximumStake (DPOS cfg) * ?c \<le> owed cfg s"
    using commission_le_debt [OF wf _ _ M, of v r] debt_le_owed [OF L cfg, of a] v r(1) by simp
  then have cov: "?c \<le> w_balance s dpos_contract_address" using balance_covers [OF L cfg sol] by simp
  have sol': "solvent cfg (- ?c + ?c) s" using sol by simp
  obtain bal where tr: "transferContractBalance ctx ?c s = Some (s\<lparr>w_balance := bal\<rparr>)"
    "solvent cfg (- ?c) (s\<lparr>w_balance := bal\<rparr>)"
    by (rule transfer_ok [OF acc r(3) cov sol' cfg])
  let ?s2 = "(s\<lparr>w_balance := bal\<rparr>)\<lparr>w_logs := w_logs s @ [CommissionRewardsClaimedLog (CallerAccount ctx) a ?c]\<rparr>"
  have s2: "GetValidator ?s2 a = Some v" "GetValidatorRewards ?s2 a = Some r" "ledger_inv cfg ?s2"
    "total_stake ?s2 = total_stake s" "solvent cfg (- ?c) ?s2" "w_block ?s2 = w_block s"
    "c_amount_delegated ?s2 = c_amount_delegated s"
    using v r L tr(2) by (simp_all add: GetValidator_def GetValidatorRewards_def)
  note mem = GetValidator_listed [OF ledger_invD(1) [OF s2(3)] s2(1)]
  show ?thesis
  proof (cases "v_TotalStake v = 0 \<and> (\<not> IsOnMagnoliaHardfork (Hardforks cfg) (w_block s) \<or> v_UndelegationsCount v = 0)")
    case False
    have r1: "0 \<le> vr_RewardsPool ?r1" "0 \<le> vr_CommissionRewardsPool ?r1" using r by simp_all
    note R = rewards_result [OF s2(3,1,2) r1]
    have "safe_result cfg s (Some (?s2\<lparr>s_validator_rewards := (s_validator_rewards ?s2)(a \<mapsto> ?r1)\<rparr>, None))"
      by (rule safe_ok) (use R(1,2) R(3) [OF s2(5)] s2 am in \<open>simp_all add: rewards_of_def\<close>)
    moreover have "claimCommissionRewards cfg ctx (w_block s) a s =
        map_option (\<lambda>s3. (s3, None)) (ModifyValidatorRewards a ?r1 ?s2)"
      using own v r tr(1) False fork
      by (auto simp: claimCommissionRewards_def AddLog_def Let_def map_conv_bind_option comp_def)
    ultimately show ?thesis by (simp add: ModifyValidatorRewards_ok [OF mem r1])
  next
    case True
    let ?s' = "deleted a (decr_st (v_LastUpdated v) (\<lambda>b. s_state ?s2 (a, b))) ?s2"
    have T: "v_TotalStake v = 0" using True by simp
    obtain st where del: "do { s1 \<leftarrow> DeleteValidator a ?s2; state_get_and_decrement a (v_LastUpdated v) s1 } = Some (st, ?s')"
      and D: "ledger_inv cfg ?s'" "total_stake ?s' = total_stake ?s2" "solvent cfg (- ?c + ?c) ?s'"
      by (rule delete_and_release [OF s2(3) cfg s2(1) T s2(2,5)])
    have "safe_result cfg s (Some (?s', None))"
      by (rule safe_ok) (use D s2 am in \<open>simp_all add: deleted_def\<close>)
    moreover have "claimCommissionRewards cfg ctx (w_block s) a s =
        map_option (\<lambda>(_, s3). (s3, None)) (do { s1 \<leftarrow> DeleteValidator a ?s2; state_get_and_decrement a (v_LastUpdated v) s1 })"
      using own v r tr(1) True
      by (cases "DeleteValidator a ?s2")
        (auto simp: claimCommissionRewards_def AddLog_def Let_def map_conv_bind_option comp_def case_prod_unfold)
    ultimately show ?thesis by (simp add: del)
  qed
qed


subsection \<open>Claim rewards\<close>

text \<open>Room for \<open>k\<close> claims in a row: each adds at most one to the counter of a state.\<close>

definition claims_room :: "ChainConfig \<Rightarrow> nat \<Rightarrow> dpos \<Rightarrow> bool" where
  "claims_room cfg k s \<longleftrightarrow>
     (\<forall>x st. s_state s x = Some st \<longrightarrow> unat (st_Count st) + k < 2 ^ 32) \<and> k + 1 < 2 ^ 32 \<and>
     w_balance s dpos_contract_address < 2 ^ 64 * VoteEligibilityBalanceStep (DPOS cfg)"

lemma claims_room_room: "claims_room cfg (Suc k) s \<Longrightarrow> room cfg a s"
  unfolding claims_room_def room_def by fastforce

text \<open>The state of this block, written back to the validator only when it is new.\<close>

definition claim_prepare :: "ChainConfig \<Rightarrow> block_num \<Rightarrow> address \<Rightarrow> dpos \<Rightarrow> (State \<times> dpos) option" where
  "claim_prepare cfg block a s =
     (case state_get s a block of
        Some state \<Rightarrow> Some (state, s)
      | None \<Rightarrow> do {
          validator \<leftarrow> GetValidator s a;
          validator_rewards \<leftarrow> GetValidatorRewards s a;
          (state, validator1, validator_rewards1, s1) \<leftarrow> settle cfg block a validator validator_rewards s;
          s2 \<leftarrow> ModifyValidator (IsOnMagnoliaHardfork (Hardforks cfg) block) a validator1 s1;
          s3 \<leftarrow> ModifyValidatorRewards a validator_rewards1 s2;
          Some (state, s3)
        })"

lemma claim_prepare_ok:
  assumes L: "ledger_inv cfg s" and cfg: "config_ok cfg" and room: "room cfg a s" and v: "GetValidator s a = Some v"
  obtains state r1 st v1 sv sr where
    "claim_prepare cfg (w_block s) a s = Some (state,
       s\<lparr>s_state := put_states a st (s_state s), s_validator := sv, s_validator_rewards := sr\<rparr>)"
    "settled (ValidatorMaximumStake (DPOS cfg)) (w_block s) (view s a) state r1 st"
    "unat (st_Count state) + 1 < 2 ^ 32" "0 \<le> st_RewardsPer1Stake state"
    "sr a = Some r1" "map_option decode_validator (sv a) = Some v1"
    "v_LastUpdated v1 = w_block s" "v_TotalStake v1 = v_TotalStake v"
    "\<forall>x. x \<noteq> a \<longrightarrow> sv x = s_validator s x" "\<forall>x. x \<noteq> a \<longrightarrow> sr x = s_validator_rewards s x"
    "unat (st_Count state) = 1 \<or> s_state s (a, w_block s) = Some state"
    "\<forall>b x. st b = Some x \<longrightarrow> (\<exists>y. s_state s (a, b) = Some y \<and> unat (st_Count x) \<le> unat (st_Count y))"
proof (cases "s_state s (a, w_block s)")
  case (Some state)
  note wf = ledger_invD(5) [OF L, of a]
  obtain r where r: "GetValidatorRewards s a = Some r" using wf_view_rewards [OF wf, of v] v by auto
  have val: "vw_val (view s a) = Some v" "vw_rew (view s a) = Some r" "vw_st (view s a) (w_block s) = Some state"
    using v r Some by simp_all
  note sd = settled_existing [OF wf val, of "ValidatorMaximumStake (DPOS cfg)"]
  have lu: "v_LastUpdated v = w_block s" using wf_viewD(5) [OF wf val(1)] val(3) by simp
  have st: "vw_st (view s a) = (\<lambda>b. s_state s (a, b))" by (simp add: fun_eq_iff)
  have "unat (st_Count state) + 1 < 2 ^ 32" using room Some unfolding room_def by blast
  then show ?thesis
    using Some settled_rewards(3) [OF wf val(1) sd] v r lu
    by (intro that [where st = "vw_st (view s a)" and state = state and sv = "s_validator s"
          and sr = "s_validator_rewards s" and ?r1.0 = r and ?v1.0 = v])
      (auto simp: claim_prepare_def state_get_def st sd [unfolded st] GetValidator_def GetValidatorRewards_def)
next
  case None
  note wf = ledger_invD(5) [OF L, of a] and mem = GetValidator_listed [OF ledger_invD(1) [OF L] v]
  have T: "0 \<le> v_TotalStake v" using vw_total_nonneg [OF wf] v by (simp add: vw_total_def)
  have M: "0 < ValidatorMaximumStake (DPOS cfg)" using cfg by (simp add: config_ok_def)
  obtain r where r: "GetValidatorRewards s a = Some r" using wf_view_rewards [OF wf, of v] v by auto
  have val: "vw_val (view s a) = Some v" "vw_rew (view s a) = Some r" "vw_st (view s a) (w_block s) = None"
    using v r None by simp_all
  obtain old where old: "s_state s (a, v_LastUpdated v) = Some old" "0 \<le> st_RewardsPer1Stake old" "0 < unat (st_Count old)"
    using view_state_exists [OF wf val(1)] by auto
  have old': "vw_st (view s a) (v_LastUpdated v) = Some old" using old by simp
  define inc where "inc = (if 0 < v_TotalStake v
    then vr_RewardsPool r * ValidatorMaximumStake (DPOS cfg) div v_TotalStake v else 0)"
  let ?state = "\<lparr>st_RewardsPer1Stake = st_RewardsPer1Stake old + inc, st_Count = 1\<rparr>"
  let ?st = "decr_st (v_LastUpdated v) (\<lambda>b. s_state s (a, b))" and ?r1 = "r\<lparr>vr_RewardsPool := 0\<rparr>"
  have st: "vw_st (view s a) = (\<lambda>b. s_state s (a, b))" by (simp add: fun_eq_iff)
  note sd = settled_new [OF wf val(1,2) M val(3) old' inc_def, unfolded st]
  note nn = settled_rewards [OF wf val(1) sd]
  let ?v1 = "v\<lparr>v_LastUpdated := w_block s\<rparr>" and ?ext = "IsOnMagnoliaHardfork (Hardforks cfg) (w_block s)"
  have "\<exists>y. s_state s (a, b) = Some y \<and> unat (st_Count x) \<le> unat (st_Count y)" if "?st b = Some x" for b x
    using that old by (cases "b = v_LastUpdated v") (auto simp: decr_st_def word_minus_one split: if_splits)
  then show ?thesis
    using None v r T mem nn old sd
    by (intro that [where st = ?st and state = ?state and sv = "(s_validator s)(a \<mapsto> slot_of ?ext ?v1)"
          and sr = "(s_validator_rewards s)(a \<mapsto> ?r1)" and ?r1.0 = ?r1
          and ?v1.0 = "decode_validator (slot_of ?ext ?v1)"])
      (simp_all add: claim_prepare_def settle_def state_get_def state_get_and_decrement_ok inc_def
        calculateRewardPer1Stake_def ModifyValidator_ok ModifyValidatorRewards_ok)
qed

lemma claimRewards_prepare:
  "claimRewards cfg ctx block a s =
     (case GetDelegation s (CallerAccount ctx) a of
        None \<Rightarrow> Some (s, Some ErrNonExistentDelegation)
      | Some delegation \<Rightarrow>
          if state_get s a block = None \<and> GetValidator s a = None then Some (s, Some ErrNonExistentValidator)
          else do {
            (state, s1) \<leftarrow> claim_prepare cfg block a s;
            s2 \<leftarrow> claim_delegator cfg ctx a state delegation s1;
            s3 \<leftarrow> ModifyDelegation (CallerAccount ctx) a (delegation\<lparr>d_LastUpdated := block\<rparr>) s2;
            s4 \<leftarrow> state_put a block (Some (state\<lparr>st_Count := st_Count state + 1\<rparr>)) s3;
            Some (s4, None)
          })"
  by (auto simp: claimRewards_def claim_prepare_def split: option.splits)

lemma claimed_count:
  assumes s: "settled M blk V state r1 st" and b: "b \<noteq> blk" and x: "claimed V d st b = Some x"
  shows "\<exists>y. st b = Some y \<and> unat (st_Count x) \<le> unat (st_Count y)"
proof (cases "d \<in> at_block V b")
  case True
  then obtain del where del: "vw_del V d = Some del" "d_LastUpdated del = b" by (auto simp: at_block_def)
  have "0 < card (at_block V b)" using True by (auto simp: card_gt_0_iff)
  then have "0 < cnt_of (st b)" using settledD(1) [OF s b] by simp
  then show ?thesis
    using x del by (auto simp: claimed_def decr_st_def cnt_of_def word_minus_one split: option.splits if_splits)
next
  case False
  then have "claimed V d st b = st b" by (auto simp: claimed_def at_block_def split: option.splits)
  then show ?thesis using x by (intro exI [of _ x]) simp
qed

text \<open>What a successful claim computes.\<close>

definition claim_done :: "ChainConfig \<Rightarrow> address \<Rightarrow> address \<Rightarrow> dpos \<Rightarrow> Delegation \<Rightarrow> State \<Rightarrow> ValidatorRewards
    \<Rightarrow> (block_num \<Rightarrow> State option) \<Rightarrow> Validator \<Rightarrow> dpos \<Rightarrow> bool" where
  "claim_done cfg d a s del state r1 st v1 s' \<longleftrightarrow>
     settled (ValidatorMaximumStake (DPOS cfg)) (w_block s) (view s a) state r1 st \<and>
     unat (st_Count state) + 1 < 2 ^ 32 \<and> v_LastUpdated v1 = w_block s \<and>
     GetValidator s' a = Some v1 \<and> GetValidatorRewards s' a = Some r1 \<and>
     (\<forall>x. x \<noteq> a \<longrightarrow> s_validator s' x = s_validator s x \<and> s_validator_rewards s' x = s_validator_rewards s x) \<and>
     (unat (st_Count state) = 1 \<or> s_state s (a, w_block s) = Some state) \<and>
     (\<forall>b x. st b = Some x \<longrightarrow> (\<exists>y. s_state s (a, b) = Some y \<and> unat (st_Count x) \<le> unat (st_Count y))) \<and>
     w_balance s dpos_contract_address - payout (ValidatorMaximumStake (DPOS cfg)) (view s a) (st_RewardsPer1Stake state) d
       \<le> w_balance s' dpos_contract_address \<and>
     w_balance s' dpos_contract_address \<le> w_balance s dpos_contract_address \<and>
     (\<exists>sv sr bal logs. s' = s\<lparr>s_validator := sv, s_validator_rewards := sr,
        s_delegation := (s_delegation s)((d, a) \<mapsto> del\<lparr>d_LastUpdated := w_block s\<rparr>),
        s_state := put_states a ((claimed (view s a) d st)(w_block s \<mapsto>
          state\<lparr>st_Count := st_Count state + 1\<rparr>)) (s_state s),
        w_balance := bal, w_logs := logs\<rparr>)"

lemma claim_computes:
  assumes L: "ledger_inv cfg s" and cfg: "config_ok cfg" and room: "room cfg a s"
    and sol: "solvent cfg 0 s" and acc: "Account ctx = dpos_contract_address"
    and v: "GetValidator s a = Some v" and del: "s_delegation s (CallerAccount ctx, a) = Some del"
  obtains state r1 st v1 s' where "claimRewards cfg ctx (w_block s) a s = Some (s', None)"
    "claim_done cfg (CallerAccount ctx) a s del state r1 st v1 s'" "v_TotalStake v1 = v_TotalStake v"
proof -
  let ?M = "ValidatorMaximumStake (DPOS cfg)" and ?d = "CallerAccount ctx" and ?b = "w_block s"
  have M: "0 < ?M" using cfg by (simp add: config_ok_def)
  note wf = ledger_invD(5) [OF L, of a]
  have pos: "0 < d_Stake del" using wf_viewD(6) [OF wf, of v ?d] v del by simp
  obtain state r1 st v1 sv sr where prep: "claim_prepare cfg ?b a s = Some (state,
       s\<lparr>s_state := put_states a st (s_state s), s_validator := sv, s_validator_rewards := sr\<rparr>)"
    and sd: "settled ?M ?b (view s a) state r1 st" and cnt: "unat (st_Count state) + 1 < 2 ^ 32"
      "0 \<le> st_RewardsPer1Stake state"
    and sv: "sr a = Some r1" "map_option decode_validator (sv a) = Some v1" "v_LastUpdated v1 = ?b"
      "v_TotalStake v1 = v_TotalStake v" "\<forall>x. x \<noteq> a \<longrightarrow> sv x = s_validator s x"
      "\<forall>x. x \<noteq> a \<longrightarrow> sr x = s_validator_rewards s x"
    and small: "unat (st_Count state) = 1 \<or> s_state s (a, ?b) = Some state"
      "\<forall>b x. st b = Some x \<longrightarrow> (\<exists>y. s_state s (a, b) = Some y \<and> unat (st_Count x) \<le> unat (st_Count y))"
    by (rule claim_prepare_ok [OF L cfg room v])
  let ?s1 = "s\<lparr>s_state := put_states a st (s_state s), s_validator := sv, s_validator_rewards := sr\<rparr>"
  have bal: "payout ?M (view s a) (st_RewardsPer1Stake state) ?d \<le> w_balance ?s1 dpos_contract_address"
    using payout_covered [OF L cfg sol _ v sd, of ?d] by simp
  have st1: "s_state ?s1 = put_states a st (s_state s)" by simp
  obtain bal' logs where claim: "claim_delegator cfg ctx a state del ?s1 =
      Some (?s1\<lparr>s_state := put_states a (claimed (view s a) ?d st) (s_state s), w_balance := bal', w_logs := logs\<rparr>)"
    and b': "w_balance ?s1 dpos_contract_address - payout ?M (view s a) (st_RewardsPer1Stake state) ?d \<le> bal' dpos_contract_address"
      "bal' dpos_contract_address \<le> w_balance ?s1 dpos_contract_address"
    by (rule claim_ok [OF wf sd del v refl M acc st1 bal])
  let ?s' = "s\<lparr>s_validator := sv, s_validator_rewards := sr,
    s_delegation := (s_delegation s)((?d, a) \<mapsto> del\<lparr>d_LastUpdated := ?b\<rparr>),
    s_state := put_states a ((claimed (view s a) ?d st)(?b \<mapsto> state\<lparr>st_Count := st_Count state + 1\<rparr>)) (s_state s),
    w_balance := bal', w_logs := logs\<rparr>"
  have "a \<in> set (s_delegator_validators s ?d)"
    using ledger_invD(2) [OF L] del unfolding delegations_wf_def indexes_def by simp
  then have "claimRewards cfg ctx ?b a s = Some (?s', None)"
    using del v prep claim pos cnt(2)
    by (simp add: claimRewards_prepare GetDelegation_def ModifyDelegation_def DelegationExists_def SaveDelegation_def
        state_put_def)
  moreover have "claim_done cfg ?d a s del state r1 st v1 ?s'"
    unfolding claim_done_def using sd cnt sv small b' by (simp add: GetValidator_def GetValidatorRewards_def) blast
  ultimately show ?thesis using that sv(4) by blast
qed

lemma claim_keeps:
  assumes L: "ledger_inv cfg s" and cfg: "config_ok cfg" and sol: "solvent cfg 0 s"
    and v: "GetValidator s a = Some v" and del: "s_delegation s (d, a) = Some del"
    and D: "claim_done cfg d a s del state r1 st v1 s'" and T: "v_TotalStake v1 = v_TotalStake v"
  shows "ledger_inv cfg s'" "total_stake s' = total_stake s" "solvent cfg 0 s'"
proof -
  let ?M = "ValidatorMaximumStake (DPOS cfg)" and ?b = "w_block s" and ?new = "del\<lparr>d_LastUpdated := w_block s\<rparr>"
  note D' = D [unfolded claim_done_def]
  from D' obtain sv sr bal logs where s': "s' = s\<lparr>s_validator := sv, s_validator_rewards := sr,
      s_delegation := (s_delegation s)((d, a) \<mapsto> ?new),
      s_state := put_states a ((claimed (view s a) d st)(?b \<mapsto> state\<lparr>st_Count := st_Count state + 1\<rparr>)) (s_state s),
      w_balance := bal, w_logs := logs\<rparr>" by blast
  have M: "0 < ?M" using cfg by (simp add: config_ok_def)
  have pos: "0 < d_Stake del" using wf_viewD(6) [OF ledger_invD(5) [OF L], of a v d] v del by simp
  have s'v: "view s' a = touched ?b (view s a) state r1 st v1 d (Some ?new)"
    using D' by (simp add: s' touched_def view_def fun_eq_iff)
  have s'o: "view s' x = view s x" if "x \<noteq> a" for x
    using that D' by (intro view_eqI) (simp_all add: s' GetValidator_def GetValidatorRewards_def)
  have same: "w_block s' = ?b" "c_eligible_vote_count s' = c_eligible_vote_count s" "undelegated s' = undelegated s"
    by (simp_all add: s' undelegated_def)
  have idx: "indexes (s_delegator_validators s) (s_delegation s)"
    using ledger_invD(2) [OF L] by (simp add: delegations_wf_def)
  obtain sl where sl: "s_validator s' a = Some sl" using D' by (auto simp: GetValidator_def)
  have "s_validator s' = (s_validator s)(a \<mapsto> sl)" using D' sl by (auto simp: fun_eq_iff)
  then have lists: "validators_wf s'" "delegations_wf s'" "undelegations_v1_wf s'" "undelegations_v2_wf s'"
    using validators_wf_update [OF ledger_invD(1) [OF L] v, of s' sl] indexes_update [OF idx, of d a] del
      ledger_invD(3,4) [OF L]
    by (simp_all add: s' delegations_wf_def undelegations_v1_wf_def undelegations_v2_wf_def last_id_def)
  have tot: "v_TotalStake v1 = v_TotalStake v - stake_of (s_delegation s (d, a)) + stake_of (Some ?new)"
    using T del by (simp add: stake_of_def)
  have nw: "\<And>x. Some ?new = Some x \<Longrightarrow> d_LastUpdated x = ?b \<and> 0 < d_Stake x" using pos by auto
  have vc: "uint (c_eligible_vote_count s') = total_votes cfg s - votes cfg (v_TotalStake v) + votes cfg (v_TotalStake v1)"
    using ledger_invD(6) [OF L] T same(2) by simp
  have sd: "settled ?M ?b (view s a) state r1 st" and cnt: "unat (st_Count state) + 1 < 2 ^ 32"
    and lu: "v_LastUpdated v1 = ?b" using D' by blast+
  note R = touch_result [OF L cfg v sd cnt s'v s'o same(1) lists lu tot nw vc]
  show "ledger_inv cfg s'" by (rule R(1))
  show "total_stake s' = total_stake s" using R(2) del by (simp add: stake_of_def)
  have "?M * (w_balance s dpos_contract_address - payout ?M (view s a) (st_RewardsPer1Stake state) d)
      \<le> ?M * w_balance s' dpos_contract_address"
    by (rule mult_left_mono) (use D' M in simp_all)
  then show "solvent cfg 0 s'"
    using R(3) sol del same unfolding solvent_def by (simp add: stake_of_def algebra_simps)
qed

lemma claim_room:
  assumes room: "claims_room cfg (Suc k) s" and D: "claim_done cfg d a s del state r1 st v1 s'"
  shows "claims_room cfg k s'"
proof -
  note D' = D [unfolded claim_done_def]
  have sd: "settled (ValidatorMaximumStake (DPOS cfg)) (w_block s) (view s a) state r1 st" using D' by blast
  have cnt: "unat (st_Count x) + Suc k < 2 ^ 32" if "s_state s z = Some x" for x z
    using room that unfolding claims_room_def by blast
  have k: "Suc k + 1 < 2 ^ 32" using room by (simp add: claims_room_def)
  have inc: "unat (st_Count state + 1) = unat (st_Count state) + 1"
    using D' by (simp add: unat_word_ariths)
  have st': "s_state s' = put_states a ((claimed (view s a) d st)(w_block s \<mapsto>
      state\<lparr>st_Count := st_Count state + 1\<rparr>)) (s_state s)" using D' by auto
  have "unat (st_Count x) + k < 2 ^ 32" if "s_state s' z = Some x" for x z
  proof (cases z)
    case (Pair y b)
    consider "y \<noteq> a" | "y = a" "b = w_block s" | "y = a" "b \<noteq> w_block s" by blast
    then show ?thesis
    proof cases
      case 1
      then show ?thesis using that cnt [of "(y, b)" x] Pair by (simp add: st')
    next
      case 2
      then have "x = state\<lparr>st_Count := st_Count state + 1\<rparr>" using that Pair by (simp add: st')
      moreover have "unat (st_Count state) = 1 \<or> s_state s (a, w_block s) = Some state" using D' by blast
      ultimately show ?thesis using cnt [of "(a, w_block s)" state] inc k by auto
    next
      case 3
      then have "claimed (view s a) d st b = Some x" using that Pair by (simp add: st')
      from claimed_count [OF sd 3(2) this] obtain y' where "st b = Some y'" "unat (st_Count x) \<le> unat (st_Count y')"
        by blast
      moreover from this(1) obtain z' where "s_state s (a, b) = Some z'" "unat (st_Count y') \<le> unat (st_Count z')"
        using D' by blast
      ultimately show ?thesis using cnt [of "(a, b)" z'] by simp
    qed
  qed
  moreover have "w_balance s' dpos_contract_address \<le> w_balance s dpos_contract_address" using D' by blast
  ultimately show ?thesis
    using room k unfolding claims_room_def by fastforce
qed


lemma delegation_validator:
  assumes "ledger_inv cfg s" and "s_delegation s (d, a) = Some del"
  obtains v where "GetValidator s a = Some v"
  using ledger_invD(5) [OF assms(1), of a] assms(2) by (cases "GetValidator s a") (auto simp: wf_view_def)

lemma claimRewards_safe:
  assumes inv: "dpos_inv cfg s" and cfg: "config_ok cfg" and room: "room cfg a s"
    and sol: "solvent cfg 0 s" and acc: "Account ctx = dpos_contract_address"
  shows "safe_result cfg s (claimRewards cfg ctx (w_block s) a s)"
proof (cases "s_delegation s (CallerAccount ctx, a)")
  case None
  then show ?thesis by (simp add: claimRewards_def GetDelegation_def)
next
  case (Some del)
  have L: "ledger_inv cfg s" and am: "c_amount_delegated s = word_of_int (total_stake s)"
    using inv by (simp_all add: dpos_inv_def)
  obtain v where v: "GetValidator s a = Some v" by (rule delegation_validator [OF L Some])
  obtain state r1 st v1 s' where c: "claimRewards cfg ctx (w_block s) a s = Some (s', None)"
    and D: "claim_done cfg (CallerAccount ctx) a s del state r1 st v1 s'" and T: "v_TotalStake v1 = v_TotalStake v"
    by (rule claim_computes [OF L cfg room sol acc v Some])
  note K = claim_keeps [OF L cfg sol v Some D T]
  have "safe_result cfg s (Some (s', None))"
    by (rule safe_ok) (use K am D in \<open>auto simp: claim_done_def\<close>)
  then show ?thesis by (simp add: c)
qed

subsection \<open>Claim from all validators\<close>

lemma claim_all_safe:
  assumes "dpos_inv cfg s" and cfg: "config_ok cfg" and "claims_room cfg (length as) s"
    and "solvent cfg 0 s" and acc: "Account ctx = dpos_contract_address"
    and "\<And>a. a \<in> set as \<Longrightarrow> s_delegation s (CallerAccount ctx, a) \<noteq> None"
  obtains s' where "claim_all cfg ctx (w_block s) as s = Some (s', None)" "dpos_inv cfg s'" "solvent cfg 0 s'"
    "w_block s' = w_block s"
  using assms
proof (induction as arbitrary: s thesis)
  case Nil
  then show ?case by simp
next
  case (Cons a as)
  have L: "ledger_inv cfg s" and am: "c_amount_delegated s = word_of_int (total_stake s)"
    using Cons.prems(2) by (simp_all add: dpos_inv_def)
  have room: "claims_room cfg (Suc (length as)) s" using Cons.prems(4) by simp
  obtain del where del: "s_delegation s (CallerAccount ctx, a) = Some del" using Cons.prems(7) [of a] by auto
  obtain v where v: "GetValidator s a = Some v" by (rule delegation_validator [OF L del])
  obtain state r1 st v1 s1 where c: "claimRewards cfg ctx (w_block s) a s = Some (s1, None)"
    and D: "claim_done cfg (CallerAccount ctx) a s del state r1 st v1 s1" and T: "v_TotalStake v1 = v_TotalStake v"
    by (rule claim_computes [OF L cfg claims_room_room [OF room] Cons.prems(5) acc v del])
  note K = claim_keeps [OF L cfg Cons.prems(5) v del D T] and R = claim_room [OF room D]
  have s1: "w_block s1 = w_block s" "c_amount_delegated s1 = c_amount_delegated s"
    "\<And>x. s_delegation s x \<noteq> None \<Longrightarrow> s_delegation s1 x \<noteq> None"
    using D by (auto simp: claim_done_def)
  show ?case
  proof (rule Cons.IH [of s1])
    show "dpos_inv cfg s1" using K am s1 by (simp add: dpos_inv_def)
    show "config_ok cfg" "Account ctx = dpos_contract_address" by (rule cfg, rule acc)
    show "claims_room cfg (length as) s1" by (rule R)
    show "solvent cfg 0 s1" by (rule K(3))
    show "s_delegation s1 (CallerAccount ctx, x) \<noteq> None" if "x \<in> set as" for x
      using Cons.prems(7) [of x] s1(3) that by simp
    fix s' assume "claim_all cfg ctx (w_block s1) as s1 = Some (s', None)" "dpos_inv cfg s'" "solvent cfg 0 s'"
      "w_block s' = w_block s1"
    then show thesis using Cons.prems(1) [of s'] c s1(1) by simp
  qed
qed

lemma GetAllAccounts_all: "length xs < 2 ^ 32 \<Longrightarrow> GetAllAccounts xs = xs"
proof -
  assume "length xs < 2 ^ 32"
  then have "unat (seq_count xs) = length xs" by (simp add: seq_count_def unat_of_nat)
  then show ?thesis by (simp add: GetAllAccounts_def seq_get_items_def comp_def)
qed

lemma claimAllRewards_safe:
  assumes inv: "dpos_inv cfg s" and cfg: "config_ok cfg" and sol: "solvent cfg 0 s"
    and acc: "Account ctx = dpos_contract_address"
    and room: "claims_room cfg (length (s_delegator_validators s (CallerAccount ctx))) s"
  shows "\<exists>s'. claimAllRewards cfg ctx (w_block s) s = Some (s', None) \<and> dpos_inv cfg s' \<and> solvent cfg 0 s' \<and>
    w_block s' = w_block s"
proof -
  let ?as = "s_delegator_validators s (CallerAccount ctx)"
  have "length ?as < 2 ^ 32" using room by (simp add: claims_room_def)
  then have all: "GetAllAccounts ?as = ?as" by (rule GetAllAccounts_all)
  have mem: "s_delegation s (CallerAccount ctx, a) \<noteq> None" if "a \<in> set ?as" for a
    using ledger_invD(2) [of cfg s] inv that unfolding dpos_inv_def delegations_wf_def indexes_def by blast
  obtain s' where "claim_all cfg ctx (w_block s) ?as s = Some (s', None)" "dpos_inv cfg s'" "solvent cfg 0 s'"
    "w_block s' = w_block s"
    by (rule claim_all_safe [OF inv cfg room sol acc mem])
  then show ?thesis by (simp add: claimAllRewards_def GetAllDelegatorValidatorsAddresses_def all)
qed

end
