(* ===== verification/Dpos_Queries.thy ===== *)
theory Dpos_Queries
  imports Dpos_Contract
begin

section \<open>Queries of the DPOS contract\<close>

text \<open>
  The read-only methods of \<open>dpos_contract.go\<close> with the structures they return
  (\<open>dpos/solidity/dpos_contract_solidity_structs.go\<close>) and the counts its gas computation uses. A
  query leaves the contract unchanged and returns its value; a panic is \<^const>\<open>None\<close>. The loop of
  \<open>getUndelegationsV2\<close> runs over a 32-bit index until no validator is found at it; its model carries
  fuel, one unit per validator and one for the last test, which is enough whenever the list of
  validators is shorter than \<open>2 ^ 32 - 1\<close>.
\<close>

record DposInterfaceValidatorBasicInfo =
  bi_TotalStake :: int
  bi_CommissionReward :: int
  bi_Commission :: u16
  bi_LastCommissionChange :: u64
  bi_UndelegationsCount :: u16
  bi_Owner :: address
  bi_Description :: string
  bi_Endpoint :: string

record DposInterfaceValidatorData =
  vd_Account :: address
  vd_Info :: DposInterfaceValidatorBasicInfo

record DposInterfaceDelegatorInfo =
  di_Stake :: int
  di_Rewards :: int

record DposInterfaceDelegationData =
  dd_Account :: address
  dd_Delegation :: DposInterfaceDelegatorInfo

record DposInterfaceUndelegationData =
  ud_Stake :: int
  ud_Block :: u64
  ud_Validator :: address
  ud_ValidatorExists :: bool

record DposInterfaceUndelegationV2Data =
  ud2_UndelegationData :: DposInterfaceUndelegationData
  ud2_UndelegationId :: u64

definition GetValidatorsMaxCount :: u32 where "GetValidatorsMaxCount = 20"
definition GetDelegationsMaxCount :: u32 where "GetDelegationsMaxCount = 20"
definition GetUndelegationsMaxCount :: u32 where "GetUndelegationsMaxCount = 20"

text \<open>A loop that appends one value per element and stops at the first panic.\<close>

fun map_opt :: "('a \<Rightarrow> 'b option) \<Rightarrow> 'a list \<Rightarrow> 'b list option" where
  "map_opt f [] = Some []"
| "map_opt f (x # xs) = do { y \<leftarrow> f x; ys \<leftarrow> map_opt f xs; Some (y # ys) }"

subsection \<open>Validators\<close>

definition validator_basic_info :: "dpos \<Rightarrow> address \<Rightarrow> Validator \<Rightarrow> DposInterfaceValidatorBasicInfo option" where
  "validator_basic_info s a validator = do {
     validator_info \<leftarrow> GetValidatorInfo s a;
     validator_rewards \<leftarrow> GetValidatorRewards s a;
     Some \<lparr>bi_TotalStake = v_TotalStake validator,
           bi_CommissionReward = vr_CommissionRewardsPool validator_rewards,
           bi_Commission = v_Commission validator,
           bi_LastCommissionChange = v_LastCommissionChange validator,
           bi_UndelegationsCount = v_UndelegationsCount validator,
           bi_Owner = GetValidatorOwner s a,
           bi_Description = vi_Description validator_info,
           bi_Endpoint = vi_Endpoint validator_info\<rparr>
   }"

definition getValidator :: "dpos \<Rightarrow> address \<Rightarrow> (dpos_error + DposInterfaceValidatorBasicInfo) option" where
  "getValidator s a =
     (case GetValidator s a of
        None \<Rightarrow> Some (Inl ErrNonExistentValidator)
      | Some validator \<Rightarrow> map_option Inr (validator_basic_info s a validator))"

definition to_validator_data :: "dpos \<Rightarrow> address \<Rightarrow> DposInterfaceValidatorData option" where
  "to_validator_data s validator_address = do {
     validator \<leftarrow> GetValidator s validator_address;
     info \<leftarrow> validator_basic_info s validator_address validator;
     Some \<lparr>vd_Account = validator_address, vd_Info = info\<rparr>
   }"

definition getValidators :: "dpos \<Rightarrow> u32 \<Rightarrow> (DposInterfaceValidatorData list \<times> bool) option" where
  "getValidators s batch = do {
     let (validators_addresses, end) = GetValidatorsAddresses s batch GetValidatorsMaxCount;
     validators \<leftarrow> map_opt (to_validator_data s) validators_addresses;
     Some (validators, end)
   }"

text \<open>The loop of \<open>getValidatorsFor\<close>: \<open>full\<close> is \<open>len(validators) == GetValidatorsMaxCount\<close>.\<close>

fun validators_for_loop :: "dpos \<Rightarrow> address \<Rightarrow> u32 \<Rightarrow> address list \<Rightarrow> u32 \<Rightarrow> DposInterfaceValidatorData list
    \<Rightarrow> (DposInterfaceValidatorData list \<times> bool) option" where
  "validators_for_loop s owner to_skip [] skipped validators = Some (validators, True)"
| "validators_for_loop s owner to_skip (a # as) skipped validators =
     (if GetValidatorOwner s a \<noteq> owner then validators_for_loop s owner to_skip as skipped validators
      else if skipped < to_skip then validators_for_loop s owner to_skip as (skipped + 1) validators
      else if length validators \<noteq> unat GetValidatorsMaxCount then do {
        v \<leftarrow> to_validator_data s a;
        validators_for_loop s owner to_skip as skipped (validators @ [v])
      } else Some (validators, False))"

definition getValidatorsFor :: "dpos \<Rightarrow> address \<Rightarrow> u32 \<Rightarrow> (DposInterfaceValidatorData list \<times> bool) option" where
  "getValidatorsFor s owner batch =
     validators_for_loop s owner (batch * GetValidatorsMaxCount)
       (fst (GetValidatorsAddresses s 0 (GetValidatorsCount s))) 0 []"

subsection \<open>Delegations\<close>

definition getTotalDelegation :: "dpos \<Rightarrow> address \<Rightarrow> int option" where
  "getTotalDelegation s delegator =
     fold_opt (\<lambda>validator totalDelegation. do {
         delegation \<leftarrow> GetDelegation s delegator validator;
         Some (totalDelegation + d_Stake delegation)
       })
       (fst (GetDelegatorValidatorsAddresses s delegator 0 (GetDelegationsCount s delegator))) 0"

definition delegation_data :: "ChainConfig \<Rightarrow> dpos \<Rightarrow> address \<Rightarrow> address \<Rightarrow> DposInterfaceDelegationData option" where
  "delegation_data cfg s delegator a = do {
     delegation \<leftarrow> GetDelegation s delegator a;
     validator \<leftarrow> GetValidator s a;
     validator_rewards \<leftarrow> GetValidatorRewards s a;
     state \<leftarrow> state_get s a (v_LastUpdated validator);
     old_state \<leftarrow> state_get s a (d_LastUpdated delegation);
     reward_per_stake \<leftarrow>
       (if v_TotalStake validator > 0 then do {
          inc \<leftarrow> calculateRewardPer1Stake cfg (vr_RewardsPool validator_rewards) (v_TotalStake validator);
          Some (st_RewardsPer1Stake state + inc - st_RewardsPer1Stake old_state)
        } else Some 0);
     rewards \<leftarrow> calculateDelegatorReward cfg reward_per_stake (d_Stake delegation);
     Some \<lparr>dd_Account = a, dd_Delegation = \<lparr>di_Stake = d_Stake delegation, di_Rewards = rewards\<rparr>\<rparr>
   }"

definition getDelegations :: "ChainConfig \<Rightarrow> dpos \<Rightarrow> address \<Rightarrow> u32
    \<Rightarrow> (DposInterfaceDelegationData list \<times> bool) option" where
  "getDelegations cfg s delegator batch = do {
     let (addresses, end) = GetDelegatorValidatorsAddresses s delegator batch GetDelegationsMaxCount;
     delegations \<leftarrow> map_opt (delegation_data cfg s delegator) addresses;
     Some (delegations, end)
   }"

subsection \<open>Undelegations\<close>

definition getUndelegationV1 :: "dpos \<Rightarrow> address \<Rightarrow> address \<Rightarrow> DposInterfaceUndelegationData option" where
  "getUndelegationV1 s delegator validator =
     map_option (\<lambda>undelegation.
         \<lparr>ud_Stake = u_Amount undelegation, ud_Block = u_Block undelegation,
          ud_Validator = validator, ud_ValidatorExists = ValidatorExists s validator\<rparr>)
       (GetUndelegationV1 s delegator validator)"

definition getUndelegationV2 :: "dpos \<Rightarrow> address \<Rightarrow> address \<Rightarrow> u64 \<Rightarrow> DposInterfaceUndelegationV2Data option" where
  "getUndelegationV2 s delegator validator undelegation_id =
     map_option (\<lambda>undelegation.
         \<lparr>ud2_UndelegationData =
            \<lparr>ud_Stake = u_Amount undelegation, ud_Block = u_Block undelegation,
             ud_Validator = validator, ud_ValidatorExists = ValidatorExists s validator\<rparr>,
          ud2_UndelegationId = u_Id undelegation\<rparr>)
       (GetUndelegationV2 s delegator validator undelegation_id)"

definition getUndelegations :: "dpos \<Rightarrow> address \<Rightarrow> u32 \<Rightarrow> DposInterfaceUndelegationData list \<times> bool" where
  "getUndelegations s delegator batch =
     (let (validators, end) = GetUndelegationsV1Validators s delegator batch GetUndelegationsMaxCount
      in (List.map_filter (getUndelegationV1 s delegator) validators, end))"

fun undelegations_v2_loop :: "nat \<Rightarrow> dpos \<Rightarrow> address \<Rightarrow> u32 \<Rightarrow> u32 \<Rightarrow> DposInterfaceUndelegationV2Data list
    \<Rightarrow> (DposInterfaceUndelegationV2Data list \<times> bool) option" where
  "undelegations_v2_loop 0 s delegator validator_idx to_skip_count undelegations = None"
| "undelegations_v2_loop (Suc fuel) s delegator validator_idx to_skip_count undelegations =
     (let (v, validators_end) = GetUndelegationsV2Validator s delegator validator_idx in
      case v of
        None \<Rightarrow> Some (undelegations, True)
      | Some validator \<Rightarrow>
          let undelegations_ids_count = seq_count (s_v2_ids s (delegator, validator)) in
          if undelegations_ids_count \<le> to_skip_count
          then undelegations_v2_loop fuel s delegator (validator_idx + 1)
                 (to_skip_count - undelegations_ids_count) undelegations
          else do {
            (ids, ids_end) \<leftarrow> GetIdsFromIdx to_skip_count
               (GetUndelegationsMaxCount - of_nat (length undelegations)) (s_v2_ids s (delegator, validator));
            let undelegations1 = undelegations @
               List.map_filter (getUndelegationV2 s delegator validator) ids;
            if (of_nat (length undelegations1) :: u32) = GetUndelegationsMaxCount
            then Some (undelegations1, \<not> (\<not> validators_end \<or> \<not> ids_end))
            else undelegations_v2_loop fuel s delegator (validator_idx + 1) 0 undelegations1
          })"

definition getUndelegationsV2 :: "dpos \<Rightarrow> address \<Rightarrow> u32
    \<Rightarrow> (DposInterfaceUndelegationV2Data list \<times> bool) option" where
  "getUndelegationsV2 s delegator batch =
     undelegations_v2_loop (Suc (length (s_v2_validators s delegator))) s delegator 0
       (batch * GetUndelegationsMaxCount) []"

subsection \<open>Counts for the gas of a query\<close>

definition batch_items_count :: "u64 \<Rightarrow> u64 \<Rightarrow> u64 \<Rightarrow> u64" where
  "batch_items_count actual_count batch max_batch_items_count =
     (if actual_count = 0 then 1
      else let batch_shift_count = batch * max_batch_items_count in
        if batch_shift_count \<ge> actual_count then 1
        else let items_to_be_returned_count = actual_count - batch_shift_count in
          if items_to_be_returned_count > max_batch_items_count then max_batch_items_count
          else items_to_be_returned_count)"

fun storage_reads_loop :: "nat \<Rightarrow> dpos \<Rightarrow> address \<Rightarrow> u64 \<Rightarrow> u32 \<Rightarrow> u64 \<Rightarrow> u64 \<Rightarrow> u64 \<Rightarrow> u64 option" where
  "storage_reads_loop 0 s delegator max_batch validator_idx to_skip_count reads processed = None"
| "storage_reads_loop (Suc fuel) s delegator max_batch validator_idx to_skip_count reads processed =
     (case fst (GetUndelegationsV2Validator s delegator validator_idx) of
        None \<Rightarrow> Some reads
      | Some validator \<Rightarrow>
          let ids_count = ucast (seq_count (s_v2_ids s (delegator, validator))); reads1 = reads + 1 + 1 in
          if ids_count \<le> to_skip_count
          then storage_reads_loop fuel s delegator max_batch (validator_idx + 1) (to_skip_count - ids_count)
                 reads1 processed
          else
            let to_be_processed = max_batch - processed;
                ids_left = ids_count - to_skip_count;
                to_be_processed = (if ids_left < to_be_processed then ids_left else to_be_processed);
                processed1 = processed + to_be_processed;
                reads2 = reads1 + 2 * to_be_processed
            in if processed1 = max_batch then Some reads2
               else storage_reads_loop fuel s delegator max_batch (validator_idx + 1) 0 reads2 processed1)"

definition getUndelegationsV2StorageReadsCount :: "dpos \<Rightarrow> address \<Rightarrow> u32 \<Rightarrow> u64 \<Rightarrow> u64 option" where
  "getUndelegationsV2StorageReadsCount s delegator batch max_batch_items_count =
     storage_reads_loop (Suc (length (s_v2_validators s delegator))) s delegator max_batch_items_count 0
       (ucast batch * max_batch_items_count) 0 0"

end
