(* ===== verification/Dpos_Query_Facts.thy ===== *)
theory Dpos_Query_Facts
  imports Dpos_Claims Dpos_Queries
begin

section \<open>What the queries return\<close>

text \<open>
  Under the invariant the queries never panic; a batch is the slice of the iterable list it names, the
  total delegation of an account is the sum over all validators, and the batches of
  \<open>getUndelegationsV2\<close> are the slices of the requests of all validators put one after the other.
\<close>

subsection \<open>Batches\<close>

lemma GetAccounts_slice:
  assumes fits: "length xs + unat count < 2 ^ 32"
  shows "GetAccounts batch count xs =
    (take (unat count) (drop (unat (batch * count)) xs), length xs \<le> unat (batch * count) + unat count)"
proof (cases "length xs \<le> unat (batch * count)")
  case True
  then show ?thesis by (simp add: GetAccounts_def seq_get_items_def)
next
  case False
  then have "unat (batch * count + count) = unat (batch * count) + unat count"
    unfolding unat_word_ariths(1) using fits by simp
  then show ?thesis using False by (auto simp: GetAccounts_def seq_get_items_def comp_def)
qed

lemma GetAccounts_all:
  assumes "2 * length xs < 2 ^ 32"
  shows "fst (GetAccounts 0 (seq_count xs) xs) = xs"
proof -
  have n: "unat (seq_count xs) = length xs" using assms by (simp add: seq_count_def unat_of_nat)
  show ?thesis using GetAccounts_slice [of xs "seq_count xs" 0] assms by (simp add: n)
qed

lemma map_opt_total:
  assumes "\<And>x. x \<in> set xs \<Longrightarrow> f x = Some (g x)"
  shows "map_opt f xs = Some (map g xs)"
  using assms by (induction xs) simp_all

subsection \<open>Validators\<close>

lemma listed_validator:
  assumes inv: "ledger_inv cfg s" and a: "a \<in> set (s_validators_list s)"
  obtains d where "to_validator_data s a = Some d" "vd_Account d = a"
proof -
  obtain v where v: "GetValidator s a = Some v"
    using ledger_invD(1) [OF inv] a unfolding validators_wf_def indexes_def
    by (auto simp: GetValidator_def)
  obtain i where i: "GetValidatorInfo s a = Some i"
    using ledger_invD(1) [OF inv] v unfolding validators_wf_def
    by (auto simp: GetValidator_def GetValidatorInfo_def)
  obtain r where "GetValidatorRewards s a = Some r"
    using wf_view_rewards [OF ledger_invD(5) [OF inv], of a v] v by auto
  then show ?thesis using that v i by (simp add: to_validator_data_def validator_basic_info_def)
qed

lemma getValidators_slice:
  assumes inv: "ledger_inv cfg s" and fits: "length (s_validators_list s) + 20 < 2 ^ 32"
  shows "\<exists>ds end. getValidators s batch = Some (ds, end) \<and>
    map vd_Account ds = take 20 (drop (unat (batch * 20)) (s_validators_list s)) \<and>
    (end \<longleftrightarrow> length (s_validators_list s) \<le> unat (batch * 20) + 20)"
proof -
  let ?as = "take 20 (drop (unat (batch * 20)) (s_validators_list s))"
  have acc: "GetValidatorsAddresses s batch GetValidatorsMaxCount =
      (?as, length (s_validators_list s) \<le> unat (batch * 20) + 20)"
    using GetAccounts_slice [of "s_validators_list s" 20 batch] fits
    by (simp add: GetValidatorsAddresses_def GetValidatorsMaxCount_def)
  have ex: "\<exists>d. to_validator_data s a = Some d \<and> vd_Account d = a" if "a \<in> set ?as" for a
    using listed_validator [OF inv, of a] in_set_takeD [OF that, THEN in_set_dropD] by metis
  have "map_opt (to_validator_data s) ?as = Some (map (\<lambda>a. the (to_validator_data s a)) ?as)"
    by (rule map_opt_total) (use ex in fastforce)
  moreover have "map (\<lambda>a. vd_Account (the (to_validator_data s a))) ?as = ?as"
    by (rule map_idI) (use ex in fastforce)
  ultimately show ?thesis by (simp add: getValidators_def acc comp_def)
qed

lemma validators_for_loop_slice:
  assumes "\<And>a. a \<in> set as \<Longrightarrow> to_validator_data s a = Some (data a)"
    and "skipped \<le> to_skip" and "length acc \<le> 20"
  shows "validators_for_loop s owner to_skip as skipped acc =
    Some (acc @ map data (take (20 - length acc) (drop (unat (to_skip - skipped))
            (filter (\<lambda>a. GetValidatorOwner s a = owner) as))),
          length (filter (\<lambda>a. GetValidatorOwner s a = owner) as) \<le> unat (to_skip - skipped) + (20 - length acc))"
  using assms
proof (induction as arbitrary: skipped acc)
  case Nil
  then show ?case by simp
next
  case (Cons a as)
  show ?case
  proof (cases "GetValidatorOwner s a = owner")
    case False
    then show ?thesis using Cons by simp
  next
    case own: True
    show ?thesis
    proof (cases "skipped < to_skip")
      case True
      then have le: "skipped + 1 \<le> to_skip" by (rule inc_le)
      have u: "unat (to_skip - skipped) = Suc (unat (to_skip - (skipped + 1)))"
      proof -
        have ne: "to_skip - skipped \<noteq> 0" using True by auto
        have eq: "to_skip - (skipped + 1) = to_skip - skipped - 1" by simp
        have "0 < unat (to_skip - skipped)" using ne by (simp add: unat_gt_0)
        then show ?thesis unfolding eq unat_minus_one [OF ne] by simp
      qed
      have step: "validators_for_loop s owner to_skip (a # as) skipped acc =
          validators_for_loop s owner to_skip as (skipped + 1) acc" using own True by simp
      have dat: "to_validator_data s x = Some (data x)" if "x \<in> set as" for x using Cons.prems(1) that by simp
      show ?thesis using Cons.IH [OF dat le Cons.prems(3)] unfolding step u by (simp add: own)
    next
      case False
      then have eq: "skipped = to_skip" using Cons.prems(2) by simp
      show ?thesis
      proof (cases "length acc = 20")
        case True
        then show ?thesis using own eq by (simp add: GetValidatorsMaxCount_def)
      next
        case nf: False
        then have "length (acc @ [data a]) \<le> 20" using Cons.prems(3) by simp
        from Cons.IH [OF Cons.prems(1) Cons.prems(2) this] show ?thesis
          using Cons.prems(1,3) own eq nf by (auto simp: GetValidatorsMaxCount_def take_Cons' Suc_diff_le)
      qed
    qed
  qed
qed

lemma getValidatorsFor_slice:
  assumes inv: "ledger_inv cfg s" and fits: "2 * length (s_validators_list s) < 2 ^ 32"
  shows "\<exists>ds end. getValidatorsFor s owner batch = Some (ds, end) \<and>
    map vd_Account ds = take 20 (drop (unat (batch * 20))
      (filter (\<lambda>a. GetValidatorOwner s a = owner) (s_validators_list s))) \<and>
    (end \<longleftrightarrow> length (filter (\<lambda>a. GetValidatorOwner s a = owner) (s_validators_list s)) \<le> unat (batch * 20) + 20)"
proof -
  let ?own = "filter (\<lambda>a. GetValidatorOwner s a = owner) (s_validators_list s)"
  have ex: "\<exists>d. to_validator_data s a = Some d \<and> vd_Account d = a" if "a \<in> set (s_validators_list s)" for a
    using listed_validator [OF inv that] by metis
  have sk: "unat (batch * GetValidatorsMaxCount) = unat (batch * 20)"
    by (simp add: GetValidatorsMaxCount_def)
  have all: "fst (GetValidatorsAddresses s 0 (GetValidatorsCount s)) = s_validators_list s"
    using GetAccounts_all [OF fits] by (simp add: GetValidatorsAddresses_def GetValidatorsCount_def)
  have "to_validator_data s a = Some (the (to_validator_data s a))" if "a \<in> set (s_validators_list s)" for a
    using ex [OF that] by auto
  from validators_for_loop_slice [OF this, of _ 0 "batch * GetValidatorsMaxCount" "[]" owner]
  have "getValidatorsFor s owner batch = Some (map (\<lambda>a. the (to_validator_data s a)) (take 20 (drop (unat (batch * 20)) ?own)),
      length ?own \<le> unat (batch * 20) + 20)"
    by (simp add: getValidatorsFor_def all sk)
  moreover have "map (\<lambda>a. vd_Account (the (to_validator_data s a))) (take 20 (drop (unat (batch * 20)) ?own)) =
      take 20 (drop (unat (batch * 20)) ?own)"
  proof (rule map_idI)
    fix a assume "a \<in> set (take 20 (drop (unat (batch * 20)) ?own))"
    then have "a \<in> set ?own" by (meson in_set_dropD in_set_takeD)
    then show "vd_Account (the (to_validator_data s a)) = a" using ex [of a] by auto
  qed
  ultimately show ?thesis by (simp add: comp_def)
qed

subsection \<open>Delegations\<close>

lemma fold_sum:
  assumes "\<And>x. x \<in> set xs \<Longrightarrow> f x = Some (g x)"
  shows "fold_opt (\<lambda>x (t::int). do { y \<leftarrow> f x; Some (t + h y) }) xs t = Some (t + (\<Sum>x\<leftarrow>xs. h (g x)))"
  using assms by (induction xs arbitrary: t) simp_all

lemma getTotalDelegation_sum:
  assumes inv: "ledger_inv cfg s" and fits: "2 * length (s_delegator_validators s d) < 2 ^ 32"
  shows "getTotalDelegation s d = Some (\<Sum>a\<in>UNIV. stake_of (s_delegation s (d, a)))"
proof -
  let ?as = "s_delegator_validators s d"
  have dist: "distinct ?as" and mem: "\<And>a. a \<in> set ?as \<longleftrightarrow> s_delegation s (d, a) \<noteq> None"
    using ledger_invD(2) [OF inv] by (simp_all add: delegations_wf_def indexes_def)
  have "(\<Sum>a\<leftarrow>?as. d_Stake (the (s_delegation s (d, a)))) = (\<Sum>a\<in>set ?as. d_Stake (the (s_delegation s (d, a))))"
    by (rule sum_list_distinct_conv_sum_set [OF dist])
  also have "\<dots> = (\<Sum>a\<in>set ?as. stake_of (s_delegation s (d, a)))"
    by (rule sum.cong) (auto simp: mem stake_of_def split: option.splits)
  also have "\<dots> = (\<Sum>a\<in>UNIV. stake_of (s_delegation s (d, a)))"
    by (rule sum.mono_neutral_left) (auto simp: mem stake_of_def)
  finally have sum: "(\<Sum>a\<leftarrow>?as. d_Stake (the (s_delegation s (d, a)))) = \<dots>" .
  have "fold_opt (\<lambda>a t. do { x \<leftarrow> GetDelegation s d a; Some (t + d_Stake x) }) ?as 0 =
      Some (0 + (\<Sum>a\<leftarrow>?as. d_Stake (the (s_delegation s (d, a)))))"
    by (rule fold_sum) (use mem in \<open>auto simp: GetDelegation_def\<close>)
  then show ?thesis
    using GetAccounts_all [OF fits]
    by (simp add: getTotalDelegation_def GetDelegatorValidatorsAddresses_def GetDelegationsCount_def sum)
qed


text \<open>The states that a delegation and its validator refer to are there.\<close>

lemma delegation_records:
  assumes inv: "ledger_inv cfg s" and del: "s_delegation s (d, a) = Some del"
  obtains v r st old where "GetValidator s a = Some v" "GetValidatorRewards s a = Some r"
    "s_state s (a, v_LastUpdated v) = Some st" "s_state s (a, d_LastUpdated del) = Some old"
    "0 < d_Stake del" "0 < v_TotalStake v" "0 \<le> vr_RewardsPool r"
    "st_RewardsPer1Stake old \<le> st_RewardsPer1Stake st"
proof -
  note wf = ledger_invD(5) [OF inv, of a]
  obtain v where v: "GetValidator s a = Some v" by (rule delegation_validator [OF inv del])
  then have val: "vw_val (view s a) = Some v" by simp
  obtain r where r: "GetValidatorRewards s a = Some r" "0 \<le> vr_RewardsPool r"
    using wf_view_rewards [OF wf val] by auto
  obtain st where st: "s_state s (a, v_LastUpdated v) = Some st"
    by (rule view_state_exists [OF wf val]) simp
  have mem: "d \<in> at_block (view s a) (d_LastUpdated del)" using del by (simp add: at_block_def)
  then have "0 < card (at_block (view s a) (d_LastUpdated del))" by (auto simp: card_gt_0_iff)
  moreover have "vw_refs (view s a) (d_LastUpdated del) \<le> cnt_of (s_state s (a, d_LastUpdated del))"
    using wf_viewD(1) [OF wf val, of "d_LastUpdated del"] by simp
  ultimately obtain old where old: "s_state s (a, d_LastUpdated del) = Some old"
    by (cases "s_state s (a, d_LastUpdated del)") (auto simp: vw_refs_def cnt_of_def split: if_splits)
  have D: "0 < d_Stake del" "rps_of (vw_st (view s a) (d_LastUpdated del)) \<le> vw_cur (view s a)"
    using wf_viewD(6,7) [OF wf val, of d del] del by simp_all
  have "stake_of (vw_del (view s a) d) \<le> (\<Sum>x\<in>UNIV. stake_of (vw_del (view s a) x))"
    by (rule sum_UNIV_member_le [of "\<lambda>x. stake_of (vw_del (view s a) x)"]) (rule stake_of_nonneg [OF wf])
  then have "0 < v_TotalStake v" using wf_viewD(4) [OF wf val] D(1) del by (simp add: stake_of_def)
  then show ?thesis
    using that [OF v r(1) st old D(1)] r(2) D(2) v st old by (simp add: vw_cur_def rps_of_def)
qed

lemma delegation_data_ok:
  assumes inv: "ledger_inv cfg s" and cfg: "config_ok cfg" and del: "s_delegation s (d, a) = Some del"
  shows "\<exists>x. delegation_data cfg s d a = Some x \<and> dd_Account x = a \<and> di_Stake (dd_Delegation x) = d_Stake del \<and>
    0 \<le> di_Rewards (dd_Delegation x)"
proof -
  obtain v r st old where R: "GetValidator s a = Some v" "GetValidatorRewards s a = Some r"
    "s_state s (a, v_LastUpdated v) = Some st" "s_state s (a, d_LastUpdated del) = Some old"
    "0 < d_Stake del" "0 < v_TotalStake v" "0 \<le> vr_RewardsPool r"
    "st_RewardsPer1Stake old \<le> st_RewardsPer1Stake st"
    by (rule delegation_records [OF inv del])
  have M: "0 < ValidatorMaximumStake (DPOS cfg)" using cfg by (simp add: config_ok_def)
  have "0 \<le> vr_RewardsPool r * ValidatorMaximumStake (DPOS cfg) div v_TotalStake v"
    using R(6,7) M by (simp add: pos_imp_zdiv_nonneg_iff)
  then have "0 \<le> (st_RewardsPer1Stake st + vr_RewardsPool r * ValidatorMaximumStake (DPOS cfg) div v_TotalStake v
      - st_RewardsPer1Stake old) * d_Stake del" using R(5,8) by simp
  then show ?thesis
    using R del M
    by (simp add: delegation_data_def GetDelegation_def state_get_def calculateRewardPer1Stake_def
        calculateDelegatorReward_def pos_imp_zdiv_nonneg_iff)
qed

text \<open>
  What \<open>getDelegations\<close> reports as the reward of a delegation is what \<open>claimRewards\<close> pays.
\<close>

lemma settle_new:
  assumes "settle cfg b a v r s = Some (state, v1, r1, s1)" and "s_state s (a, b) = None"
    and "s_state s (a, v_LastUpdated v) = Some st"
  shows "Some (st_RewardsPer1Stake state - st_RewardsPer1Stake st) =
      (if v_TotalStake v > 0 then calculateRewardPer1Stake cfg (vr_RewardsPool r) (v_TotalStake v) else Some 0)"
    and "w_balance s1 = w_balance s"
    and "s_state s1 (a, c) = Some y \<Longrightarrow> \<exists>z. s_state s (a, c) = Some z \<and> st_RewardsPer1Stake y = st_RewardsPer1Stake z"
  using assms
  by (auto simp: settle_def state_get_def state_get_and_decrement_def state_put_def bind_Some_iff Let_def
      split: if_splits)

lemma claim_delegator_pays:
  assumes "claim_delegator cfg ctx a state del s = Some s'" and "CallerAccount ctx \<noteq> Account ctx"
    and "0 < ValidatorMaximumStake (DPOS cfg)"
  shows "\<exists>old. s_state s (a, d_LastUpdated del) = Some old \<and>
    w_balance s' (CallerAccount ctx) = w_balance s (CallerAccount ctx) +
      max 0 ((st_RewardsPer1Stake state - st_RewardsPer1Stake old) * d_Stake del
        div ValidatorMaximumStake (DPOS cfg))"
proof -
  let ?reward = "\<lambda>old. (st_RewardsPer1Stake state - st_RewardsPer1Stake old) * d_Stake del
        div ValidatorMaximumStake (DPOS cfg)"
  obtain old1 s1 where g: "state_get_and_decrement a (d_LastUpdated del) s = Some (old1, s1)"
    using assms(1) by (cases "state_get_and_decrement a (d_LastUpdated del) s") (auto simp: claim_delegator_def)
  then obtain old where old: "s_state s (a, d_LastUpdated del) = Some old"
    "st_RewardsPer1Stake old1 = st_RewardsPer1Stake old" "w_balance s1 = w_balance s"
    by (auto simp: state_get_and_decrement_def state_get_def state_put_def bind_Some_iff Let_def)
  have "w_balance s' (CallerAccount ctx) = w_balance s1 (CallerAccount ctx) + max 0 (?reward old)"
  proof (cases "0 < ?reward old")
    case True
    then show ?thesis
      using assms g old(2)
      by (simp add: claim_delegator_def calculateDelegatorReward_def transferContractBalance_def)
        (auto simp: AddLog_def Let_def)
  next
    case False
    then show ?thesis using assms g old(2) by (simp add: claim_delegator_def calculateDelegatorReward_def)
  qed
  then show ?thesis using old by auto
qed

lemma reported_reward_paid:
  assumes inv: "ledger_inv cfg s" and cfg: "config_ok cfg" and room: "room cfg a s" and sol: "solvent cfg 0 s"
    and acc: "Account ctx = dpos_contract_address" "CallerAccount ctx \<noteq> dpos_contract_address"
    and new: "s_state s (a, w_block s) = None"
    and data: "delegation_data cfg s (CallerAccount ctx) a = Some x"
  shows "\<exists>s'. claimRewards cfg ctx (w_block s) a s = Some (s', None) \<and>
    w_balance s' (CallerAccount ctx) = w_balance s (CallerAccount ctx) + di_Rewards (dd_Delegation x)"
proof -
  let ?d = "CallerAccount ctx" and ?M = "ValidatorMaximumStake (DPOS cfg)"
  obtain del where del: "s_delegation s (?d, a) = Some del"
    using data by (auto simp: delegation_data_def GetDelegation_def bind_Some_iff)
  obtain v r st old where R: "GetValidator s a = Some v" "GetValidatorRewards s a = Some r"
    "s_state s (a, v_LastUpdated v) = Some st" "s_state s (a, d_LastUpdated del) = Some old"
    "0 < d_Stake del" "0 < v_TotalStake v" "0 \<le> vr_RewardsPool r"
    "st_RewardsPer1Stake old \<le> st_RewardsPer1Stake st"
    by (rule delegation_records [OF inv del])
  have M: "0 < ?M" using cfg by (simp add: config_ok_def)
  obtain s' where s': "claimRewards cfg ctx (w_block s) a s = Some (s', None)"
    by (rule claim_computes [OF inv cfg room sol acc(1) R(1) del])
  have dd: "x = \<lparr>dd_Account = a, dd_Delegation = \<lparr>di_Stake = d_Stake del,
      di_Rewards = (st_RewardsPer1Stake st + vr_RewardsPool r * ?M div v_TotalStake v - st_RewardsPer1Stake old)
        * d_Stake del div ?M\<rparr>\<rparr>"
    using data R del M
    by (simp add: delegation_data_def GetDelegation_def state_get_def calculateRewardPer1Stake_def
        calculateDelegatorReward_def)
  have nn: "0 \<le> di_Rewards (dd_Delegation x)" using delegation_data_ok [OF inv cfg del] data by auto
  from s' obtain state v1 r1 s1 s2 s3 s4 where
    set: "settle cfg (w_block s) a v r s = Some (state, v1, r1, s1)"
    and mid: "ModifyValidator (IsOnMagnoliaHardfork (Hardforks cfg) (w_block s)) a v1 s1 = Some s2"
      "ModifyValidatorRewards a r1 s2 = Some s3"
    and claim: "claim_delegator cfg ctx a state del s3 = Some s4" and fin: "w_balance s' = w_balance s4"
    using R(1,2) del new
    by (auto simp: claimRewards_def state_get_def GetDelegation_def bind_Some_iff ModifyDelegation_def
        SaveDelegation_def state_put_def)
  note S = settle_new [OF set new R(3)]
  have frame: "s_state s3 = s_state s1" "w_balance s3 = w_balance s1"
    using mid by (auto simp: ModifyValidator_def SaveValidator_def ModifyValidatorRewards_def SaveValidatorRewards_def)
  obtain old' where old': "s_state s1 (a, d_LastUpdated del) = Some old'"
    "w_balance s4 ?d = w_balance s1 ?d +
      max 0 ((st_RewardsPer1Stake state - st_RewardsPer1Stake old') * d_Stake del div ?M)"
    using claim_delegator_pays [OF claim _ M] acc frame by auto
  have "st_RewardsPer1Stake old' = st_RewardsPer1Stake old" using S(3) [OF old'(1)] R(4) by auto
  moreover have "st_RewardsPer1Stake state = st_RewardsPer1Stake st + vr_RewardsPool r * ?M div v_TotalStake v"
    using S(1) R(6) by (simp add: calculateRewardPer1Stake_def)
  ultimately have "w_balance s4 ?d = w_balance s1 ?d + di_Rewards (dd_Delegation x)"
    using old'(2) nn by (simp add: dd)
  then show ?thesis using s' fin frame S(2) by simp
qed


lemma getDelegations_slice:
  assumes inv: "ledger_inv cfg s" and cfg: "config_ok cfg"
    and fits: "length (s_delegator_validators s d) + 20 < 2 ^ 32"
  shows "\<exists>ds end. getDelegations cfg s d batch = Some (ds, end) \<and>
    map (\<lambda>x. (dd_Account x, di_Stake (dd_Delegation x))) ds =
      map (\<lambda>a. (a, stake_of (s_delegation s (d, a)))) (take 20 (drop (unat (batch * 20)) (s_delegator_validators s d))) \<and>
    (end \<longleftrightarrow> length (s_delegator_validators s d) \<le> unat (batch * 20) + 20)"
proof -
  let ?l = "s_delegator_validators s d"
  let ?as = "take 20 (drop (unat (batch * 20)) ?l)"
  have acc: "GetDelegatorValidatorsAddresses s d batch GetDelegationsMaxCount = (?as, length ?l \<le> unat (batch * 20) + 20)"
    using GetAccounts_slice [of ?l 20 batch] fits
    by (simp add: GetDelegatorValidatorsAddresses_def GetDelegationsMaxCount_def mult.commute)
  have ex: "\<exists>x. delegation_data cfg s d a = Some x \<and> dd_Account x = a \<and>
      di_Stake (dd_Delegation x) = stake_of (s_delegation s (d, a))" if "a \<in> set ?as" for a
  proof -
    have "a \<in> set ?l" using that by (meson in_set_dropD in_set_takeD)
    then obtain del where del: "s_delegation s (d, a) = Some del"
      using ledger_invD(2) [OF inv] unfolding delegations_wf_def indexes_def by blast
    then show ?thesis using delegation_data_ok [OF inv cfg del] by (auto simp: stake_of_def)
  qed
  have "map_opt (delegation_data cfg s d) ?as = Some (map (\<lambda>a. the (delegation_data cfg s d a)) ?as)"
    by (rule map_opt_total) (use ex in fastforce)
  moreover have "map (\<lambda>a. (dd_Account (the (delegation_data cfg s d a)),
      di_Stake (dd_Delegation (the (delegation_data cfg s d a))))) ?as = map (\<lambda>a. (a, stake_of (s_delegation s (d, a)))) ?as"
    by (rule map_cong [OF refl]) (use ex in fastforce)
  ultimately show ?thesis by (simp add: getDelegations_def acc comp_def)
qed

subsection \<open>Undelegations\<close>

definition v2_requests :: "dpos \<Rightarrow> address \<Rightarrow> address list \<Rightarrow> (address \<times> u64) list" where
  "v2_requests s d vs = concat (map (\<lambda>a. map (Pair a) (s_v2_ids s (d, a))) vs)"

lemma v2_requests_Cons [simp]: "v2_requests s d (a # vs) = map (Pair a) (s_v2_ids s (d, a)) @ v2_requests s d vs"
  and v2_requests_Nil [simp]: "v2_requests s d [] = []"
  by (simp_all add: v2_requests_def)

definition request_data :: "dpos \<Rightarrow> address \<Rightarrow> address \<times> u64 \<Rightarrow> DposInterfaceUndelegationV2Data" where
  "request_data s d = (\<lambda>(a, i). the (getUndelegationV2 s d a i))"

lemma ids_data:
  assumes "\<And>i. i \<in> set ids \<Longrightarrow> s_undelegation_v2 s (d, a, i) \<noteq> None"
  shows "List.map_filter (getUndelegationV2 s d a) ids = map (request_data s d) (map (Pair a) ids)"
  using assms
  by (induction ids) (auto simp: List.map_filter_def getUndelegationV2_def GetUndelegationV2_def request_data_def)

lemma GetIdsFromIdx_slice:
  assumes "length ids + unat count < 2 ^ 32" and "unat start < length ids"
  shows "GetIdsFromIdx start count ids =
    Some (take (unat count) (drop (unat start) ids), length ids \<le> unat start + unat count)"
proof -
  have "unat (start + count) = unat start + unat count" using assms by (simp add: unat_word_ariths)
  then show ?thesis using assms by (auto simp: GetIdsFromIdx_def seq_get_items_def comp_def)
qed

lemma next_v2_validator:
  assumes "length (s_v2_validators s d) + 1 < 2 ^ 32" and "unat idx \<le> length (s_v2_validators s d)"
  shows "GetUndelegationsV2Validator s d idx =
    (case drop (unat idx) (s_v2_validators s d) of
       [] \<Rightarrow> (None, True) | a # vs \<Rightarrow> (Some a, vs = []))"
proof -
  have "GetAccounts idx 1 (s_v2_validators s d) =
      (take 1 (drop (unat idx) (s_v2_validators s d)), length (s_v2_validators s d) \<le> unat idx + 1)"
    using GetAccounts_slice [of "s_v2_validators s d" 1 idx] assms uint_lt2p [of idx] by (simp add: unsigned_less)
  moreover have "length (drop (unat idx) (s_v2_validators s d)) = length (s_v2_validators s d) - unat idx" by simp
  ultimately show ?thesis
    using assms(2) by (cases "drop (unat idx) (s_v2_validators s d)") (auto simp: GetUndelegationsV2Validator_def simp flip: length_0_conv)
qed


lemma v2_loop_slice:
  assumes inv: "undelegations_v2_wf s" and fits: "length vs0 + 1 < 2 ^ 32"
    "\<And>a. length (s_v2_ids s (d, a)) + 20 < 2 ^ 32" and vs0: "vs0 = s_v2_validators s d"
  shows "drop (unat idx) vs0 = vs \<Longrightarrow> unat idx \<le> length vs0 \<Longrightarrow> length acc < 20 \<Longrightarrow> length vs < fuel \<Longrightarrow>
    undelegations_v2_loop fuel s d idx skip acc =
      Some (acc @ map (request_data s d) (take (20 - length acc) (drop (unat skip) (v2_requests s d vs))),
            length (v2_requests s d vs) \<le> unat skip + (20 - length acc))"
proof (induction fuel arbitrary: idx skip acc vs)
  case 0
  then show ?case by simp
next
  case (Suc fuel)
  note W = undelegations_v2_wfD [OF inv]
  have nxt: "GetUndelegationsV2Validator s d idx =
      (case vs of [] \<Rightarrow> (None, True) | a # vs' \<Rightarrow> (Some a, vs' = []))"
    using next_v2_validator [of s d idx] fits(1) Suc.prems vs0 by simp
  show ?case
  proof (cases vs)
    case Nil
    then show ?thesis by (simp add: nxt)
  next
    case (Cons a vs')
    let ?ids = "s_v2_ids s (d, a)" and ?k = "20 - length acc"
    have lt: "unat idx < length vs0" using Suc.prems(1) Cons by (metis drop_all leI list.distinct(1))
    have i1: "unat (idx + 1) = unat idx + 1" using lt fits(1) by (simp add: unat_word_ariths)
    have vs': "drop (unat (idx + 1)) vs0 = vs'" "unat (idx + 1) \<le> length vs0" "length vs' < fuel"
      using Suc.prems(1,4) lt Cons unfolding i1 by (simp_all add: drop_Suc drop_tl)
    have ne: "x \<in> set vs \<Longrightarrow> s_v2_ids s (d, x) \<noteq> []" for x
      using indexesD(2) [OF W(2), of x d] Suc.prems(1) vs0 in_set_dropD by fastforce
    have fpos: "0 < length (v2_requests s d vs')" if "vs' \<noteq> []"
      using that ne Cons by (cases vs') simp_all
    have n: "unat (seq_count ?ids) = length ?ids" using fits(2) [of a] by (simp add: seq_count_def unat_of_nat)
    show ?thesis
    proof (cases "length ?ids \<le> unat skip")
      case True
      then have le: "seq_count ?ids \<le> skip" by (simp add: word_le_nat_alt n)
      then have sk: "unat (skip - seq_count ?ids) = unat skip - length ?ids" by (simp add: unat_sub n)
      note IH = Suc.IH [OF vs'(1,2) Suc.prems(3) vs'(3), of "skip - seq_count ?ids"]
      have "undelegations_v2_loop (Suc fuel) s d idx skip acc =
          undelegations_v2_loop fuel s d (idx + 1) (skip - seq_count ?ids) acc"
        using nxt le Cons by simp
      then show ?thesis using IH True unfolding sk by (auto simp: Cons)
    next
      case False
      then have le: "\<not> seq_count ?ids \<le> skip" by (simp add: word_le_nat_alt n)
      have k: "unat (GetUndelegationsMaxCount - of_nat (length acc)) = ?k"
      proof -
        have l: "unat (of_nat (length acc) :: u32) = length acc" using Suc.prems(3) by (simp add: unat_of_nat)
        then have "of_nat (length acc) \<le> GetUndelegationsMaxCount"
          using Suc.prems(3) by (simp add: word_le_nat_alt GetUndelegationsMaxCount_def)
        from unat_sub [OF this] show ?thesis by (simp add: l GetUndelegationsMaxCount_def)
      qed
      have get: "GetIdsFromIdx skip (GetUndelegationsMaxCount - of_nat (length acc)) ?ids =
          Some (take ?k (drop (unat skip) ?ids), length ?ids \<le> unat skip + ?k)"
        using GetIdsFromIdx_slice [of ?ids "GetUndelegationsMaxCount - of_nat (length acc)" skip] fits(2) [of a] False
        unfolding k by simp
      have st: "s_undelegation_v2 s (d, a, i) \<noteq> None" if "i \<in> set (take ?k (drop (unat skip) ?ids))" for i
        using indexesD(2) [OF W(1), of i "(d, a)"] in_set_dropD [OF in_set_takeD [OF that]] by simp
      note dat = ids_data [of "take ?k (drop (unat skip) ?ids)", OF st]
      let ?acc = "acc @ map (request_data s d) (map (Pair a) (take ?k (drop (unat skip) ?ids)))"
      have la: "length ?acc = length acc + min ?k (length ?ids - unat skip)" by simp
      have full: "(of_nat (length ?acc) :: u32) = GetUndelegationsMaxCount \<longleftrightarrow> length ?acc = 20"
      proof -
        have "length ?acc \<le> 20" unfolding la using Suc.prems(3) by linarith
        moreover have "unat (of_nat m :: u32) = m" if "m \<le> 20" for m using that by (simp add: unat_of_nat)
        ultimately have "unat (of_nat (length ?acc) :: u32) = length ?acc" by blast
        moreover have "unat GetUndelegationsMaxCount = 20" by (simp add: GetUndelegationsMaxCount_def)
        ultimately show ?thesis by (metis word_unat_eq_iff)
      qed
      have step: "undelegations_v2_loop (Suc fuel) s d idx skip acc =
         (if length ?acc = 20 then Some (?acc, vs' = [] \<and> length ?ids \<le> unat skip + ?k)
          else undelegations_v2_loop fuel s d (idx + 1) 0 ?acc)"
        using nxt le Cons get dat full by (simp add: Let_def)
      show ?thesis
      proof (cases "length ?acc = 20")
        case True
        then have kn: "?k \<le> length ?ids - unat skip" using la Suc.prems(3) by linarith
        then show ?thesis unfolding step using True fpos False Suc.prems(3) kn
          by (cases "vs' = []") (auto simp: Cons take_map drop_map simp del: length_greater_0_conv)
      next
        case nf: False
        then have kn: "length ?ids - unat skip < ?k" using la Suc.prems(3) by linarith
        then have "length ?acc < 20" using la by simp
        from Suc.IH [OF vs'(1,2) this vs'(3), of 0] show ?thesis
          unfolding step using nf kn False by (auto simp: Cons take_map drop_map)
      qed
    qed
  qed
qed

lemma getUndelegationsV2_slice:
  assumes inv: "undelegations_v2_wf s" and fits: "length (s_v2_validators s d) + 1 < 2 ^ 32"
    "\<And>a. length (s_v2_ids s (d, a)) + 20 < 2 ^ 32"
  shows "getUndelegationsV2 s d batch =
    Some (map (request_data s d) (take 20 (drop (unat (batch * 20)) (v2_requests s d (s_v2_validators s d)))),
          length (v2_requests s d (s_v2_validators s d)) \<le> unat (batch * 20) + 20)"
proof -
  have "unat (batch * GetUndelegationsMaxCount) = unat (batch * 20)"
    by (simp add: GetUndelegationsMaxCount_def)
  then show ?thesis
    using v2_loop_slice [OF inv fits(1,2) refl, of 0 "s_v2_validators s d" "[]" "Suc (length (s_v2_validators s d))"
        "batch * GetUndelegationsMaxCount"]
    by (simp add: getUndelegationsV2_def del: undelegations_v2_loop.simps)
qed


text \<open>The count of storage reads ends as well: one unit of fuel for each validator and one more.\<close>

lemma storage_reads_total:
  assumes fits: "length (s_v2_validators s d) + 1 < 2 ^ 32"
  shows "unat idx \<le> length (s_v2_validators s d) \<Longrightarrow> length (s_v2_validators s d) - unat idx < fuel \<Longrightarrow>
    \<exists>n. storage_reads_loop fuel s d max_batch idx skip reads processed = Some n"
proof (induction fuel arbitrary: idx skip reads processed)
  case 0
  then show ?case by simp
next
  case (Suc fuel)
  note nxt = next_v2_validator [OF fits Suc.prems(1)]
  show ?case
  proof (cases "drop (unat idx) (s_v2_validators s d)")
    case Nil
    then show ?thesis by (simp add: nxt)
  next
    case (Cons a vs)
    then have lt: "unat idx < length (s_v2_validators s d)" by (metis drop_all leI list.distinct(1))
    have i1: "unat (idx + 1) = unat idx + 1" using lt fits by (simp add: unat_word_ariths)
    have "unat (idx + 1) \<le> length (s_v2_validators s d)" "length (s_v2_validators s d) - unat (idx + 1) < fuel"
      using lt Suc.prems(2) unfolding i1 by simp_all
    note IH = Suc.IH [OF this]
    show ?thesis using IH by (simp add: nxt Cons Let_def)
  qed
qed

lemma storage_reads_count_total:
  assumes "length (s_v2_validators s d) + 1 < 2 ^ 32"
  shows "\<exists>n. getUndelegationsV2StorageReadsCount s d batch m = Some n"
  using storage_reads_total [OF assms, of 0] by (simp add: getUndelegationsV2StorageReadsCount_def del: storage_reads_loop.simps)

end
