(* ===== verification/Dpos_Redelegate.thy ===== *)
theory Dpos_Redelegate
  imports Dpos_Claims
begin

section \<open>Redelegating and registering\<close>

text \<open>
  \<open>redelegate\<close> moves stake from one validator to another: the first half takes it away, the second
  adds it, and in between the books are out of balance by the amount moved. \<open>registerValidator\<close> makes a
  new validator with its first delegation.
\<close>

subsection \<open>Redelegate\<close>

text \<open>
  The branch in which the validator loses its last stake while it has open undelegations is
  excluded: there the code saves the validator without its reward state.
\<close>

definition redelegate_keeps_state :: "ChainConfig \<Rightarrow> dpos \<Rightarrow> address \<Rightarrow> int \<Rightarrow> bool" where
  "redelegate_keeps_state cfg s from amount \<longleftrightarrow>
     (\<forall>v r. GetValidator s from = Some v \<longrightarrow> GetValidatorRewards s from = Some r \<longrightarrow>
        v_TotalStake v - amount = 0 \<longrightarrow> vr_CommissionRewardsPool r = 0 \<longrightarrow>
        \<not> IsOnMagnoliaHardfork (Hardforks cfg) (w_block s) \<or> v_UndelegationsCount v = 0)"

lemma deleted_view:
  assumes "x \<noteq> a"
  shows "view (deleted a st s) x = view s x"
  using assms by (intro view_eqI) (simp_all add: deleted_def GetValidator_def GetValidatorRewards_def)

lemma redelegate_from_ok:
  assumes L: "ledger_inv cfg s" and cfg: "config_ok cfg" and room: "room cfg a s" and sol: "solvent cfg 0 s"
    and acc: "Account ctx = dpos_contract_address" and v: "GetValidator s a = Some v"
    and del: "s_delegation s (CallerAccount ctx, a) = Some del" and amount: "0 \<le> amount" "amount \<le> d_Stake del"
    and keeps: "redelegate_keeps_state cfg s a amount"
  obtains s' where "redelegate_from cfg ctx (w_block s) a amount v del s = Some s'"
    "ledger_inv cfg s'" "total_stake s' = total_stake s - amount" "solvent cfg amount s'"
    "c_amount_delegated s' = c_amount_delegated s" "w_block s' = w_block s"
    "\<forall>x. x \<noteq> a \<longrightarrow> view s' x = view s x"
    "w_balance s' dpos_contract_address \<le> w_balance s dpos_contract_address"
proof -
  let ?d = "CallerAccount ctx" and ?b = "w_block s" and ?ext = "IsOnMagnoliaHardfork (Hardforks cfg) (w_block s)"
  obtain r state r1 st n new bal logs l s1 where
    B: "rem_booked cfg ctx a amount 0 s v del r state r1 st n new bal logs l s1"
    by (rule remove_stake [OF L cfg room sol order_refl acc v del amount])
  note B' = B [unfolded rem_booked_def]
  have r: "GetValidatorRewards s a = Some r" using B' by blast
  let ?v' = "v\<lparr>v_LastUpdated := ?b, v_TotalStake := v_TotalStake v - amount\<rparr>"
  let ?k = "(booked a ?d new state st bal l n ?ext ?v' r1 s)\<lparr>w_logs := logs\<rparr>"
  have bal: "bal dpos_contract_address \<le> w_balance s dpos_contract_address" using B' by simp
  have k: "ledger_inv cfg ?k" "total_stake ?k = total_stake s - amount" "solvent cfg amount ?k"
    using B' by simp_all
  have kv: "view ?k x = view s x" if "x \<noteq> a" for x using that by (simp add: booked_view)
  show ?thesis
  proof (cases "v_TotalStake v - amount = 0 \<and> vr_CommissionRewardsPool r1 = 0")
    case False
    then have keep: "(v_TotalStake v = amount \<and> vr_CommissionRewardsPool r = 0) = False" using B' by auto
    have "redelegate_from cfg ctx ?b a amount v del s = Some ?k"
      using v del amount B'
      by (simp add: keep redelegate_from_def state_put_def ModifyValidator_ok
          ModifyValidatorRewards_ok booked_def Let_def not_less split del: if_split)
    then show ?thesis by (rule that [OF _ k]) (simp_all add: booked_view(2), simp_all add: booked_def bal)
  next
    case True
    let ?st = "(claimed (view s a) ?d st)(?b := None)"
    let ?s6 = "deleted a ?st ?k"
    have c0: "vr_CommissionRewardsPool r1 = 0" using True by simp
    have gone: "\<not> ?ext \<or> v_UndelegationsCount v = 0"
      using keeps v r True B' unfolding redelegate_keeps_state_def by metis
    have eq: "redelegate_from cfg ctx ?b a amount v del s = Some ?s6"
      using v del amount B' True gone
      by (simp add: redelegate_from_def state_put_def DeleteValidator_ok
          booked_def deleted_def Let_def not_less split del: if_split)
    have r1: "GetValidatorRewards ?k a = Some r1" and val: "GetValidator ?k a = Some (decode_validator (slot_of ?ext ?v'))"
      and t: "v_TotalStake (decode_validator (slot_of ?ext ?v')) = 0"
      using True by (simp_all add: booked_def GetValidatorRewards_def GetValidator_def)
    note W = wf_viewD [OF ledger_invD(5) [OF k(1)], of a, simplified view_sels, OF val]
    have st: "0 \<le> rps_of (?st b)" "?st b \<noteq> None \<Longrightarrow> b \<le> w_block ?k" for b
      using W(2,3) [of b] by (auto simp: booked_def rps_of_def split: if_splits)
    note D = deleted_result [where st = ?st, OF k(1) cfg val t st r1 k(3), unfolded c0 add_0_right]
    have sv: "view ?s6 x = view s x" if "x \<noteq> a" for x
      using kv [OF that] by (simp only: deleted_view [OF that])
    show ?thesis
      by (rule that [OF eq D(1) trans [OF D(2) k(2)] D(3)]) (simp_all add: sv, simp_all add: deleted_def booked_def bal)
  qed
qed

lemma redelegate_to_ok:
  assumes L: "ledger_inv cfg s" and cfg: "config_ok cfg" and room: "room cfg a s" and sol: "solvent cfg amount s"
    and acc: "Account ctx = dpos_contract_address" and v: "GetValidator s a = Some v" and amount: "0 < amount"
    and r: "GetValidatorRewards s a = Some r"
  obtains s' where "redelegate_to cfg ctx (w_block s) a amount v r s = Some s'"
    "ledger_inv cfg s'" "total_stake s' = total_stake s + amount" "solvent cfg 0 s'"
    "c_amount_delegated s' = c_amount_delegated s" "w_block s' = w_block s"
proof -
  let ?d = "CallerAccount ctx" and ?b = "w_block s" and ?ext = "IsOnMagnoliaHardfork (Hardforks cfg) (w_block s)"
  obtain r' state r1 st n new bal logs l where
    "add_booked cfg ctx a amount amount s v r' state r1 st n new bal logs l"
    by (rule add_stake [OF L cfg room sol less_imp_le [OF amount] order_refl acc v amount])
  note B = this [unfolded add_booked_def]
  have r': "r' = r" using B r by simp
  let ?v' = "v\<lparr>v_LastUpdated := ?b, v_TotalStake := v_TotalStake v + amount\<rparr>"
  let ?k = "(booked a ?d (Some new) state st bal l n ?ext ?v' r1 s)\<lparr>w_logs := logs\<rparr>"
  have "redelegate_to cfg ctx ?b a amount v r s = Some ?k"
    using B amount unfolding r'
    by (simp add: redelegate_to_def GetDelegation_def state_put_def ModifyValidator_ok ModifyValidatorRewards_ok
        booked_def Let_def)
  moreover have "ledger_inv cfg ?k" "total_stake ?k = total_stake s + amount" "solvent cfg 0 ?k" using B by simp_all
  ultimately show ?thesis by (rule that) (simp_all add: booked_def)
qed


lemma voteCount_here:
  assumes L: "ledger_inv cfg s" and cfg: "config_ok cfg" and room: "room cfg a s" and sol: "solvent cfg 0 s"
    and v: "GetValidator s a = Some v"
  shows "voteCount (v_TotalStake v) cfg (w_block s) = Some (word_of_int (votes cfg (v_TotalStake v)))"
proof -
  have "0 \<le> v_TotalStake v" using vw_total_nonneg [OF ledger_invD(5) [OF L], of a] v by (simp add: vw_total_def)
  moreover have "v_TotalStake v \<le> v_TotalStake v + 0" by simp
  ultimately show ?thesis by (rule votes_here [OF L cfg room sol order_refl v])
qed

lemma redelegate_safe:
  assumes inv: "dpos_inv cfg s" and cfg: "config_ok cfg" and room: "room cfg from s" "room cfg to s"
    and sol: "solvent cfg 0 s" and acc: "Account ctx = dpos_contract_address" and amount: "0 < amount"
    and fixed: "FixRedelegateBlockNum (Hardforks cfg) < w_block s"
    and keeps: "redelegate_keeps_state cfg s from amount"
  shows "safe_result cfg s (redelegate cfg ctx (w_block s) from to amount s)"
proof (cases "\<exists>v w del. from \<noteq> to \<and> GetValidator s from = Some v \<and> GetValidator s to = Some w \<and>
    amount + v_TotalStake w \<le> ValidatorMaximumStake (DPOS cfg) \<and>
    s_delegation s (CallerAccount ctx, from) = Some del \<and> amount \<le> d_Stake del \<and>
    \<not> (d_Stake del \<noteq> amount \<and> MinimumDeposit (DPOS cfg) > d_Stake del - amount)")
  case False
  have L: "ledger_inv cfg s" using inv by (simp add: dpos_inv_def)
  note vc = voteCount_here [OF L cfg _ sol]
  show ?thesis
    using False fixed amount vc [OF room(1)] vc [OF room(2)] cfg
    by (auto simp: safe_result_def redelegate_def GetDelegation_def not_le config_ok_def split: option.splits)
next
  case True
  then obtain v w del where ne: "from \<noteq> to" and v: "GetValidator s from = Some v" and w: "GetValidator s to = Some w"
    and max: "amount + v_TotalStake w \<le> ValidatorMaximumStake (DPOS cfg)"
    and del: "s_delegation s (CallerAccount ctx, from) = Some del" "amount \<le> d_Stake del"
    and min: "\<not> (d_Stake del \<noteq> amount \<and> MinimumDeposit (DPOS cfg) > d_Stake del - amount)" by blast
  have L: "ledger_inv cfg s" and am: "c_amount_delegated s = word_of_int (total_stake s)"
    using inv by (simp_all add: dpos_inv_def)
  obtain s1 where half1: "redelegate_from cfg ctx (w_block s) from amount v del s = Some s1"
    and s1: "ledger_inv cfg s1" "total_stake s1 = total_stake s - amount" "solvent cfg amount s1"
    "c_amount_delegated s1 = c_amount_delegated s" "w_block s1 = w_block s"
    and eqv: "\<forall>x. x \<noteq> from \<longrightarrow> view s1 x = view s x"
    and bal: "w_balance s1 dpos_contract_address \<le> w_balance s dpos_contract_address"
    by (rule redelegate_from_ok [OF L cfg room(1) sol acc v del(1) less_imp_le [OF amount] del(2) keeps])
  have V: "view s1 to = view s to" using eqv ne by simp
  have w1: "GetValidator s1 to = Some w" using V w by (metis view_sels(1))
  obtain r where r: "GetValidatorRewards s to = Some r"
    using wf_view_rewards [OF ledger_invD(5) [OF L], of to w] w by auto
  have r1: "GetValidatorRewards s1 to = Some r" using V r by (metis view_sels(2))
  have "s_state s1 (to, b) = s_state s (to, b)" for b using V by (metis view_sels(4))
  then have room1: "room cfg to s1" using room(2) bal by (simp add: room_def)
  obtain s2 where half2: "redelegate_to cfg ctx (w_block s1) to amount w r s1 = Some s2"
    and s2: "ledger_inv cfg s2" "total_stake s2 = total_stake s1 + amount" "solvent cfg 0 s2"
    "c_amount_delegated s2 = c_amount_delegated s1" "w_block s2 = w_block s1"
    by (rule redelegate_to_ok [OF s1(1) cfg room1 s1(3) acc w1 amount r1])
  note vc = voteCount_here [OF L cfg _ sol]
  have "redelegate cfg ctx (w_block s) from to amount s =
      Some (AddLog (RedelegatedLog (CallerAccount ctx) from to amount) s2, None)"
    using ne v w max del min amount r half1 half2 s1(5) vc [OF room(1) v] vc [OF room(2) w]
    by (auto simp: redelegate_def GetDelegation_def not_less)
  moreover have "dpos_inv cfg s2" using s2 s1 am by (simp add: dpos_inv_def)
  ultimately show ?thesis using s2(3,5) s1(5) by (auto simp: safe_result_def AddLog_def dpos_inv_def)
qed


subsection \<open>Registering a validator\<close>

definition registered :: "bool \<Rightarrow> CallFrame \<Rightarrow> RegisterValidatorArgs \<Rightarrow> u64 \<Rightarrow> dpos \<Rightarrow> dpos" where
  "registered ext ctx args n s =
     (let a = rv_Validator args; d = CallerAccount ctx; x = Value ctx; b = w_block s;
          new = (if 0 < x then Some \<lparr>d_Stake = x, d_LastUpdated = b\<rparr> else None) in
      s\<lparr>s_validator := (s_validator s)(a \<mapsto> slot_of ext
           \<lparr>v_TotalStake = x, v_Commission = rv_Commission args, v_LastCommissionChange = b, v_LastUpdated = b,
            v_UndelegationsCount = 0\<rparr>),
        s_validator_info := (s_validator_info s)(a \<mapsto>
           \<lparr>vi_Description = rv_Description args, vi_Endpoint = rv_Endpoint args\<rparr>),
        s_validator_rewards := (s_validator_rewards s)(a \<mapsto> \<lparr>vr_RewardsPool = 0, vr_CommissionRewardsPool = 0\<rparr>),
        s_validator_owner := (s_validator_owner s)(a \<mapsto> d),
        s_validator_vrf := (s_validator_vrf s)(a \<mapsto> rv_VrfKey args),
        s_validators_list := s_validators_list s @ [a],
        s_delegation := (s_delegation s)((d, a) := new),
        s_delegator_validators := (if 0 < x then (s_delegator_validators s)(d := s_delegator_validators s d @ [a])
           else s_delegator_validators s),
        s_state := (s_state s)((a, b) \<mapsto> \<lparr>st_RewardsPer1Stake = 0, st_Count = (if 0 < x then 2 else 1)\<rparr>),
        c_eligible_vote_count := n,
        c_amount_delegated := c_amount_delegated s + word_of_int x\<rparr>)"

lemma registered_lists:
  assumes L: "ledger_inv cfg s" and a: "GetValidator s (rv_Validator args) = None"
    and none: "s_delegation s (CallerAccount ctx, rv_Validator args) = None"
  shows "validators_wf (registered ext ctx args n s)" "delegations_wf (registered ext ctx args n s)"
    "undelegations_v1_wf (registered ext ctx args n s)" "undelegations_v2_wf (registered ext ctx args n s)"
    "undelegated (registered ext ctx args n s) = undelegated s"
proof -
  let ?a = "rv_Validator args" and ?s' = "registered ext ctx args n s"
  note defs = registered_def Let_def
  have na: "s_validator s ?a = None" using a by (simp add: GetValidator_def)
  show "validators_wf ?s'"
    using ledger_invD(1) [OF L] na by (auto simp: validators_wf_def indexes_def defs)
  show "delegations_wf ?s'"
    using ledger_invD(2) [OF L] none indexes_insert(2) [of "s_delegator_validators s" "s_delegation s"]
    by (cases "0 < Value ctx") (auto simp: delegations_wf_def defs fun_upd_idem)
  show "undelegations_v1_wf ?s'" "undelegations_v2_wf ?s'" "undelegated ?s' = undelegated s"
    using ledger_invD(3,4) [OF L]
    by (simp_all add: undelegations_v1_wf_def undelegations_v2_wf_def undelegated_def last_id_def defs)
qed

lemma registered_result:
  fixes ext :: bool
  assumes L: "ledger_inv cfg s" and cfg: "config_ok cfg" and a: "GetValidator s (rv_Validator args) = None"
    and val: "0 \<le> Value ctx" and sol: "solvent cfg (extra + Value ctx) s"
    and n: "uint n = total_votes cfg s + votes cfg (Value ctx)"
  defines "s' \<equiv> registered ext ctx args n s"
  shows "ledger_inv cfg s'" "total_stake s' = total_stake s + Value ctx" "solvent cfg extra s'"
proof -
  let ?a = "rv_Validator args" and ?d = "CallerAccount ctx" and ?M = "ValidatorMaximumStake (DPOS cfg)"
  let ?new = "if 0 < Value ctx then Some \<lparr>d_Stake = Value ctx, d_LastUpdated = w_block s\<rparr> else None"
  note wf = ledger_invD(5) [OF L, of ?a]
  have none: "s_delegation s (d, ?a) = None" for d
    using wf a by (simp add: wf_view_def)
  have st: "0 \<le> rps_of (s_state s (?a, b))" "s_state s (?a, b) \<noteq> None \<Longrightarrow> b \<le> w_block s" for b
    using wf by (auto simp: wf_view_def)
  have sn: "stake_of ?new = Value ctx" using val by (simp add: stake_of_def)
  define v where "v = decode_validator (slot_of ext \<lparr>v_TotalStake = Value ctx, v_Commission = rv_Commission args,
    v_LastCommissionChange = w_block s, v_LastUpdated = w_block s, v_UndelegationsCount = 0\<rparr>)"
  have v: "v_TotalStake v = stake_of ?new" "v_LastUpdated v = w_block s" by (simp_all add: v_def sn)
  have nw: "d_LastUpdated x = w_block s \<and> 0 < d_Stake x" if "?new = Some x" for x
    using that by (auto split: if_splits)
  have V: "vw_val (view s' ?a) = Some v"
    "vw_rew (view s' ?a) = Some \<lparr>vr_RewardsPool = 0, vr_CommissionRewardsPool = 0\<rparr>"
    "vw_del (view s' ?a) = Map.empty(?d := ?new)"
    "vw_st (view s' ?a) = (\<lambda>b. s_state s (?a, b))(w_block s \<mapsto>
       \<lparr>st_RewardsPer1Stake = 0, st_Count = (if ?new = None then 1 else 2)\<rparr>)"
    using none by (auto simp: view_def s'_def registered_def Let_def GetValidator_def GetValidatorRewards_def v_def)
  note R = registered_wf [OF st v nw V, unfolded sn]
  have others: "view s' x = view s x" if "x \<noteq> ?a" for x
    using that by (intro view_eqI)
      (simp_all add: s'_def registered_def Let_def GetValidator_def GetValidatorRewards_def)
  note ch = view_changed [of cfg s ?a s', OF L others]
  note W = registered_lists [OF L a none, where ext = ext and n = n and ctx = ctx, folded s'_def]
  have t: "vw_total (view s ?a) = 0" "vw_total (view s' ?a) = Value ctx" "vw_debt ?M (view s ?a) = 0"
    using a V(1) v sn by (simp_all add: vw_total_def vw_debt_def)
  have same: "w_block s' = w_block s" "c_eligible_vote_count s' = n" "w_balance s' = w_balance s"
    by (simp_all add: s'_def registered_def Let_def)
  have wf': "wf_view (w_block s') (view s' x)" for x
    using R(1) ledger_invD(5) [OF L] others by (cases "x = ?a") (simp_all add: same)
  show "ledger_inv cfg s'" unfolding ledger_inv_def using W wf' ch(3) t n same by simp
  show "total_stake s' = total_stake s + Value ctx" using ch(2) t by simp
  show "solvent cfg extra s'" using sol ch(1) t R(2) W(5) by (simp add: solvent_def same distrib_left)
qed


lemma first_votes:
  assumes L: "ledger_inv cfg s" and cfg: "config_ok cfg" and room: "room cfg a s" and val: "0 \<le> x"
    and sol: "solvent cfg x s"
  shows "voteCount x cfg (w_block s) = Some (word_of_int (votes cfg x))"
    and "c_eligible_vote_count s1 = c_eligible_vote_count s \<Longrightarrow>
      update_votes 0 (word_of_int (votes cfg x)) s1 =
        Some (s1\<lparr>c_eligible_vote_count := word_of_int (total_votes cfg s + votes cfg x)\<rparr>)"
    and "uint (word_of_int (total_votes cfg s + votes cfg x) :: u64) = total_votes cfg s + votes cfg x"
proof -
  let ?k = "VoteEligibilityBalanceStep (DPOS cfg)"
  have k: "0 < ?k" using cfg by (simp add: config_ok_def)
  have fit: "total_stake s + x < 2 ^ 64 * ?k"
    using stakes_fit [OF L cfg sol val room] undelegated_nonneg(1) [OF L] by simp
  have tv: "0 \<le> total_votes cfg s" using uint_ge_0 [of "c_eligible_vote_count s"] ledger_invD(6) [OF L] by simp
  have ts2: "?k * total_votes cfg s \<le> total_stake s" by (rule total_votes_le(1) [OF L cfg])
  have "0 \<le> ?k * total_votes cfg s" using k tv by simp
  then have ts: "0 \<le> total_stake s" using ts2 by simp
  note vx = votes_le [OF cfg val]
  have "?k * (total_votes cfg s + votes cfg x) < ?k * 2 ^ 64"
    using ts2 vx(2) fit unfolding distrib_left mult.commute [of "2 ^ 64"] by linarith
  then have lt: "total_votes cfg s + votes cfg x < 2 ^ 64" by (rule mult_left_less_imp_less [OF _ less_imp_le [OF k]])
  show "voteCount x cfg (w_block s) = Some (word_of_int (votes cfg x))"
    by (rule voteCount_votes [OF cfg val]) (use fit ts in simp)
  show "update_votes 0 (word_of_int (votes cfg x)) s1 =
        Some (s1\<lparr>c_eligible_vote_count := word_of_int (total_votes cfg s + votes cfg x)\<rparr>)"
    if "c_eligible_vote_count s1 = c_eligible_vote_count s"
    using update_votes_ok [of s1 "total_votes cfg s" 0 "votes cfg x"] that ledger_invD(6) [OF L] tv vx lt by simp
  show "uint (word_of_int (total_votes cfg s + votes cfg x) :: u64) = total_votes cfg s + votes cfg x"
    using tv vx(1) lt unfolding uint_word_of_int by simp
qed

lemma registerValidatorWithoutChecks_safe:
  assumes inv: "dpos_inv cfg s" and cfg: "config_ok cfg" and room: "room cfg (rv_Validator args) s"
    and U: "uint256_spec U" and sol: "solvent cfg (Value ctx) s" and val: "0 \<le> Value ctx"
  shows "safe_result cfg s (registerValidatorWithoutChecks U cfg ctx (w_block s) args s)"
proof (cases "length (rv_Endpoint args) \<le> MaxEndpointLength \<and> length (rv_Description args) \<le> MaxDescriptionLength \<and>
    length (rv_VrfKey args) = VrfKeyLength \<and> \<not> MaxCommission < ucast (rv_Commission args) \<and>
    \<not> ValidatorExists s (rv_Validator args) \<and> GetDelegation s (CallerAccount ctx) (rv_Validator args) = None \<and>
    state_get s (rv_Validator args) (w_block s) = None \<and> \<not> ValidatorMaximumStake (DPOS cfg) < Value ctx")
  case False
  then show ?thesis by (auto simp: safe_result_def registerValidatorWithoutChecks_def Let_def)
next
  case True
  let ?a = "rv_Validator args" and ?d = "CallerAccount ctx" and ?ext = "IsOnMagnoliaHardfork (Hardforks cfg) (w_block s)"
  have L: "ledger_inv cfg s" and am: "c_amount_delegated s = word_of_int (total_stake s)"
    using inv by (simp_all add: dpos_inv_def)
  have a: "GetValidator s ?a = None" and na: "?a \<notin> set (s_validators_list s)"
    using True ledger_invD(1) [OF L] by (auto simp: ValidatorExists_def validators_wf_def indexes_def GetValidator_def)
  have d: "s_delegation s (?d, ?a) = None" using True by (simp add: GetDelegation_def)
  have nd: "?a \<notin> set (s_delegator_validators s ?d)"
    using ledger_invD(2) [OF L] d by (simp add: delegations_wf_def indexes_def)
  note F = first_votes [OF L cfg room val sol]
  let ?n = "if 0 < Value ctx then word_of_int (total_votes cfg s + votes cfg (Value ctx)) else c_eligible_vote_count s"
  have n: "uint ?n = total_votes cfg s + votes cfg (Value ctx)"
    using F(3) ledger_invD(6) [OF L] val by auto
  have sol0: "solvent cfg (0 + Value ctx) s" using sol by simp
  note R = registered_result [where ext = ?ext, OF L cfg a val sol0 n]
  have vrf: "rv_VrfKey args \<noteq> []" using True by (auto simp: VrfKeyLength_def)
  obtain logs where "registerValidatorWithoutChecks U cfg ctx (w_block s) args s =
      Some ((registered ?ext ctx args ?n s)\<lparr>w_logs := logs\<rparr>, None)"
  proof (cases "0 < Value ctx")
    case pos: True
    show ?thesis
      by (rule that [of "w_logs s @ [ValidatorRegisteredLog ?a, DelegatedLog ?d ?a (Value ctx)]"])
        (use True pos na nd vrf F(1,2) in \<open>simp add: registerValidatorWithoutChecks_def CreateValidator_def
          SaveValidator_def SaveValidatorInfo_def SaveValidatorRewards_def seq_create_def AddLog_def
          CreateDelegation_def SaveDelegation_def delegate_update_values_def uint256_specD [OF U] ModifyValidator_def
          ValidatorExists_def state_put_def registered_def slot_of_def Let_def not_less\<close>)
  next
    case False
    then have "Value ctx = 0" using val by simp
    then show ?thesis
      by (intro that [of "w_logs s @ [ValidatorRegisteredLog ?a]"])
        (use True na vrf d in \<open>simp add: registerValidatorWithoutChecks_def CreateValidator_def
          SaveValidator_def SaveValidatorInfo_def SaveValidatorRewards_def seq_create_def AddLog_def
          state_put_def registered_def slot_of_def Let_def not_less fun_upd_idem\<close>)
  qed
  moreover have "dpos_inv cfg ((registered ?ext ctx args ?n s)\<lparr>w_logs := logs\<rparr>)"
    using R am by (simp add: dpos_inv_def) (simp add: registered_def Let_def)
  moreover have "w_block (registered ?ext ctx args ?n s) = w_block s" by (simp add: registered_def Let_def)
  ultimately show ?thesis using R(3) by (auto simp: safe_result_def)
qed

lemma registerValidator_safe:
  assumes "dpos_inv cfg s" and "config_ok cfg" and "room cfg (rv_Validator args) s" and "uint256_spec U"
    and "solvent cfg (Value ctx) s" and "0 \<le> Value ctx"
  shows "safe_result cfg s (registerValidator U K cfg ctx (w_block s) args s)"
  using registerValidatorWithoutChecks_safe [OF assms]
  by (auto simp: registerValidator_def safe_result_def split: option.splits)

end
