(* ===== verification/Dpos_Rewards.thy ===== *)
theory Dpos_Rewards
  imports Dpos_Contract
begin

section \<open>Block rewards, genesis and the end of a block\<close>

text \<open>
  \<open>yield_curve.go\<close>, \<open>dpos_hardforks.go\<close> and, of \<open>dpos_contract.go\<close>, \<open>lazy_init\<close>, \<open>EndBlockCall\<close>,
  \<open>ApplyGenesis\<close> and \<open>DistributeRewards\<close>; the statistics come from
  \<open>rewards_stats/rewards_stats.go\<close>. The conversions of the uint256 package between a value and its
  big integer, bytes or \<open>uint64\<close> are the conversions between words and \<^typ>\<open>int\<close>. A value is stored
  as its minimal bytes, so that zero empties its slot. The Go map of statistics is an association
  list, one of its enumerations. Messages printed on inconsistent statistics change nothing and are
  left out.
\<close>

subsection \<open>The yield curve\<close>

definition YieldFractionDecimalPrecision :: u256 where
  "YieldFractionDecimalPrecision = 1000000"

definition YieldCurve_Init :: "uint256_ops \<Rightarrow> ChainConfig \<Rightarrow> u256 option" where
  "YieldCurve_Init U cfg =
     (let (max_supply, overflow) = U_FromBig U (aspen_MaxSupply (AspenHf (Hardforks cfg)))
      in if overflow then None else Some max_supply)"

definition calculateCurrentYield :: "uint256_ops \<Rightarrow> u256 \<Rightarrow> u256 \<Rightarrow> u256" where
  "calculateCurrentYield U max_supply current_total_tara_supply =
     U_Div U (U_Mul U (U_Sub U max_supply current_total_tara_supply) YieldFractionDecimalPrecision)
       current_total_tara_supply"

definition CalculateBlockReward :: "uint256_ops \<Rightarrow> ChainConfig \<Rightarrow> u256 \<Rightarrow> u256 \<Rightarrow> u256 \<Rightarrow> u256 \<times> u256" where
  "CalculateBlockReward U cfg max_supply current_total_delegation current_total_tara_supply =
     (let yield = calculateCurrentYield U max_supply current_total_tara_supply
      in (U_Div U (U_Mul U current_total_delegation yield)
            (U_Mul U YieldFractionDecimalPrecision (ucast (BlocksPerYear (DPOS cfg)))), yield))"

definition CalculateTotalSupply :: "uint256_ops \<Rightarrow> ChainConfig \<Rightarrow> u256 \<Rightarrow> u256 option" where
  "CalculateTotalSupply U cfg minted_tokens =
     (let total_supply = GenesisBalancesSum cfg + uint minted_tokens
                         + aspen_GeneratedRewards (AspenHf (Hardforks cfg));
          (total, overflow) = U_FromBig U total_supply
      in if overflow then None else Some total)"

subsection \<open>Slots of single values\<close>

definition u256_slot :: "u256 \<Rightarrow> u256 option" where
  "u256_slot v = (if v = 0 then None else Some v)"

definition saveTotalSupplyDb :: "dpos \<Rightarrow> dpos option" where
  "saveTotalSupplyDb s = do { t \<leftarrow> c_total_supply s; Some (s\<lparr>s_total_supply := u256_slot t\<rparr>) }"

definition saveMintedTokensDb :: "dpos \<Rightarrow> dpos" where
  "saveMintedTokensDb s = s\<lparr>s_minted_tokens := u256_slot (c_minted_tokens s)\<rparr>"

definition eraseMintedTokensDb :: "dpos \<Rightarrow> dpos" where
  "eraseMintedTokensDb s = s\<lparr>s_minted_tokens := None\<rparr>"

definition saveYieldDb :: "u64 \<Rightarrow> dpos \<Rightarrow> dpos" where
  "saveYieldDb yield s = s\<lparr>s_yield := Some yield\<rparr>"

definition AddBalance :: "address \<Rightarrow> int \<Rightarrow> dpos \<Rightarrow> dpos" where
  "AddBalance a b s = s\<lparr>w_balance := (w_balance s)(a := w_balance s a + b)\<rparr>"

text \<open>\<open>EVMStateStorage.SubBalance\<close>: only if the account has the amount.\<close>

definition SubBalance :: "address \<Rightarrow> int \<Rightarrow> dpos \<Rightarrow> dpos" where
  "SubBalance a b s =
     (if w_balance s a \<ge> b then s\<lparr>w_balance := (w_balance s)(a := w_balance s a - b)\<rparr> else s)"

definition IncrementNonce :: "address \<Rightarrow> dpos \<Rightarrow> dpos" where
  "IncrementNonce a s = s\<lparr>w_nonce := (w_nonce s)(a := w_nonce s a + 1)\<rparr>"

definition lazy_init :: "uint256_ops \<Rightarrow> ChainConfig \<Rightarrow> dpos \<Rightarrow> dpos option" where
  "lazy_init U cfg s =
     (if c_lazy_init_done s then Some s
      else do {
        YieldCurve_Init U cfg;
        let votes = (case s_eligible_vote_count s of None \<Rightarrow> c_eligible_vote_count_orig s | Some c \<Rightarrow> c);
        let amount = (case s_amount_delegated s of None \<Rightarrow> 0 | Some a \<Rightarrow> a);
        let supply = (case s_total_supply s of None \<Rightarrow> c_total_supply s | Some t \<Rightarrow> Some t);
        let minted = (if supply = None then (case s_minted_tokens s of None \<Rightarrow> 0 | Some m \<Rightarrow> m) else 0);
        Some (s\<lparr>c_eligible_vote_count_orig := votes, c_eligible_vote_count := votes,
                c_amount_delegated_orig := amount, c_amount_delegated := amount,
                c_total_supply := supply, c_minted_tokens := minted, c_lazy_init_done := True\<rparr>)
      })"

subsection \<open>The end of a block\<close>

definition fix_redelegation :: "ChainConfig \<Rightarrow> block_num \<Rightarrow> Redelegation \<Rightarrow> dpos \<Rightarrow> dpos option" where
  "fix_redelegation cfg block_num redelegation s = do {
     delegation \<leftarrow> GetDelegation s (rd_Delegator redelegation) (rd_Validator redelegation);
     val \<leftarrow> GetValidator s (rd_Validator redelegation);
     let state = state_get s (rd_Validator redelegation) (d_LastUpdated delegation);
     let wrong_state = state_get s (rd_Validator redelegation) (v_LastUpdated val);
     holds (\<not> (wrong_state \<noteq> None \<or> state = None));
     ModifyValidator (IsOnMagnoliaHardfork (Hardforks cfg) block_num) (rd_Validator redelegation)
       (val\<lparr>v_LastUpdated := d_LastUpdated delegation,
            v_TotalStake := v_TotalStake val - rd_Amount redelegation\<rparr>) s
   }"

definition fixRedelegateBlockNumFunc :: "ChainConfig \<Rightarrow> block_num \<Rightarrow> dpos \<Rightarrow> dpos option" where
  "fixRedelegateBlockNumFunc cfg block_num s =
     fold_opt (fix_redelegation cfg block_num) (Redelegations (Hardforks cfg)) s"

definition EndBlockCall :: "ChainConfig \<Rightarrow> block_num \<Rightarrow> dpos \<Rightarrow> dpos option" where
  "EndBlockCall cfg block_num s =
     (if \<not> c_lazy_init_done s then Some s
      else do {
        let s1 = (if c_eligible_vote_count_orig s \<noteq> c_eligible_vote_count s
                  then s\<lparr>s_eligible_vote_count := Some (c_eligible_vote_count s),
                         c_eligible_vote_count_orig := c_eligible_vote_count s\<rparr> else s);
        let s2 = (if c_amount_delegated_orig s1 \<noteq> c_amount_delegated s1
                  then s1\<lparr>s_amount_delegated := u256_slot (c_amount_delegated s1),
                          c_amount_delegated_orig := c_amount_delegated s1\<rparr> else s1);
        if block_num = FixRedelegateBlockNum (Hardforks cfg)
        then fixRedelegateBlockNumFunc cfg block_num s2
        else Some s2
      })"

text \<open>Before the second part of the Aspen hard fork the reward is the nil pointer.\<close>

definition processBlockReward :: "uint256_ops \<Rightarrow> ChainConfig \<Rightarrow> block_num \<Rightarrow> dpos \<Rightarrow> (u256 option \<times> dpos) option" where
  "processBlockReward U cfg block_num s =
     (if IsOnAspenHardforkPartTwo (Hardforks cfg) block_num then do {
        max_supply \<leftarrow> YieldCurve_Init U cfg;
        s1 \<leftarrow> (if c_total_supply s = None then do {
                 total \<leftarrow> CalculateTotalSupply U cfg (c_minted_tokens s);
                 s1a \<leftarrow> saveTotalSupplyDb (s\<lparr>c_total_supply := Some total\<rparr>);
                 Some (eraseMintedTokensDb s1a)
               } else Some s);
        total_supply \<leftarrow> c_total_supply s1;
        let (blockReward, yield) = CalculateBlockReward U cfg max_supply (c_amount_delegated s1) total_supply;
        Some (Some blockReward, saveYieldDb (ucast yield) s1)
      } else Some (None, s))"

subsection \<open>Genesis\<close>

definition genesis_delegation :: "uint256_ops \<Rightarrow> ChainConfig \<Rightarrow> address \<Rightarrow> address \<times> int \<Rightarrow> dpos \<Rightarrow> dpos option" where
  "genesis_delegation U cfg validator entry s = do {
     let (delegator, amount) = entry;
     let s1 = AddBalance dpos_contract_address amount (SubBalance delegator amount s);
     (s2, err) \<leftarrow> delegate U cfg
        \<lparr>CallerAccount = delegator, Account = dpos_contract_address, Value = amount\<rparr> 0 validator s1;
     holds (err = None);
     Some s2
   }"

definition apply_genesis_entry :: "uint256_ops \<Rightarrow> ChainConfig \<Rightarrow> GenesisValidator \<Rightarrow> dpos \<Rightarrow> dpos option" where
  "apply_genesis_entry U cfg validator_info s = do {
     let args = \<lparr>rv_Validator = gv_Address validator_info, rv_Proof = [], rv_VrfKey = gv_VrfKey validator_info,
                 rv_Commission = gv_Commission validator_info, rv_Description = gv_Description validator_info,
                 rv_Endpoint = gv_Endpoint validator_info\<rparr>;
     (s1, err) \<leftarrow> registerValidatorWithoutChecks U cfg
        \<lparr>CallerAccount = gv_Owner validator_info, Account = dpos_contract_address, Value = 0\<rparr> 0 args s;
     holds (err = None);
     fold_opt (genesis_delegation U cfg (gv_Address validator_info)) (gv_Delegations validator_info) s1
   }"

definition ApplyGenesis :: "uint256_ops \<Rightarrow> ChainConfig \<Rightarrow> dpos \<Rightarrow> dpos option" where
  "ApplyGenesis U cfg s = do {
     s1 \<leftarrow> lazy_init U cfg s;
     s2 \<leftarrow> fold_opt (apply_genesis_entry U cfg) (InitialValidators (DPOS cfg)) s1;
     (_, s3) \<leftarrow> processBlockReward U cfg 0 s2;
     s4 \<leftarrow> EndBlockCall cfg 0 s3;
     Some (IncrementNonce dpos_contract_address s4)
   }"

subsection \<open>Distributing the block reward\<close>

record ValidatorStats =
  vs_DagBlocksCount :: u32
  vs_VoteWeight :: u64
  vs_FeesRewards :: "int option"

record RewardsStats =
  rs_BlockAuthor :: address
  rs_ValidatorsStats :: "(address \<times> ValidatorStats) list"
  rs_TotalDagBlocksCount :: u32
  rs_TotalVotesWeight :: u64
  rs_MaxVotesWeight :: u64

definition block_reward :: "uint256_ops \<Rightarrow> ChainConfig \<Rightarrow> dpos \<Rightarrow> (u256 \<times> dpos) option" where
  "block_reward U cfg s =
     (if IsOnAspenHardforkPartTwo (Hardforks cfg) (w_block s) then do {
        (r, s1) \<leftarrow> processBlockReward U cfg (w_block s) s;
        reward \<leftarrow> r;
        Some (reward, s1)
      } else
        Some (U_Div U (U_Mul U (c_amount_delegated s) (ucast (YieldPercentage (DPOS cfg))))
                (U_Mul U 100 (ucast (BlocksPerYear (DPOS cfg)))), s))"

text \<open>The shares of the proposers, of the voters and of the block author.\<close>

definition reward_split :: "uint256_ops \<Rightarrow> ChainConfig \<Rightarrow> RewardsStats \<Rightarrow> u256 \<Rightarrow> u256 \<times> u256 \<times> u256" where
  "reward_split U cfg rewardsStats blockReward =
     (if rs_TotalVotesWeight rewardsStats > 0 then
        let dagProposersReward = U_Div U (U_Mul U blockReward (ucast (DagProposersReward (DPOS cfg)))) 100;
            votesReward = U_Sub U blockReward dagProposersReward;
            bonusReward = U_Div U (U_Mul U blockReward (ucast (MaxBlockAuthorReward (DPOS cfg)))) 100;
            votesReward = U_Sub U votesReward bonusReward;
            maxVotesWeigh = MaxU64 (rs_MaxVotesWeight rewardsStats) (rs_TotalVotesWeight rewardsStats);
            blockAuthorReward =
              (if maxVotesWeigh = rs_TotalVotesWeight rewardsStats then bonusReward
               else
                 let twoTPlusOne = maxVotesWeigh * 2 div 3 + 1;
                     bonusVotesWeight = (if rs_TotalVotesWeight rewardsStats \<ge> twoTPlusOne
                                         then rs_TotalVotesWeight rewardsStats - twoTPlusOne else 0)
                 in U_Div U (U_Mul U bonusReward (ucast bonusVotesWeight))
                      (ucast (maxVotesWeigh - twoTPlusOne)))
        in (dagProposersReward, votesReward, blockAuthorReward)
      else (blockReward, 0, 0))"

definition commission_part :: "uint256_ops \<Rightarrow> Validator \<Rightarrow> u256 \<Rightarrow> u256" where
  "commission_part U validator reward =
     U_Div U (U_Mul U reward (ucast (v_Commission validator))) (ucast MaxCommission)"

text \<open>The loop carries \<open>newMintedRewards\<close>, \<open>totalReward\<close> and the contract.\<close>

definition reward_author :: "uint256_ops \<Rightarrow> address \<Rightarrow> u256 \<Rightarrow> u256 \<times> u256 \<times> dpos \<Rightarrow> (u256 \<times> u256 \<times> dpos) option" where
  "reward_author U blockAuthorAddr blockAuthorReward acc =
     (let (newMintedRewards, totalReward, s) = acc in
      if blockAuthorReward > 0 then
        (case GetValidator s blockAuthorAddr of
           None \<Rightarrow> Some acc
         | Some block_author \<Rightarrow> do {
             let commission = commission_part U block_author blockAuthorReward;
             let delegatorsRewards = U_Sub U blockAuthorReward commission;
             s1 \<leftarrow> AddValidatorRewards blockAuthorAddr (uint commission) (uint delegatorsRewards) s;
             Some (U_Add U newMintedRewards blockAuthorReward, U_Add U totalReward blockAuthorReward, s1)
           })
      else Some acc)"

definition validator_reward :: "uint256_ops \<Rightarrow> RewardsStats \<Rightarrow> u256 \<Rightarrow> u256 \<Rightarrow> ValidatorStats \<Rightarrow> u256" where
  "validator_reward U rewardsStats dagProposersReward votesReward validatorStats =
     (let r1 = (if vs_DagBlocksCount validatorStats > 0
                then U_Div U (U_Mul U (ucast (vs_DagBlocksCount validatorStats)) dagProposersReward)
                       (ucast (rs_TotalDagBlocksCount rewardsStats))
                else 0)
      in if vs_VoteWeight validatorStats > 0
         then U_Add U r1 (U_Div U (U_Mul U (ucast (vs_VoteWeight validatorStats)) votesReward)
                            (ucast (rs_TotalVotesWeight rewardsStats)))
         else r1)"

definition reward_validator :: "uint256_ops \<Rightarrow> RewardsStats \<Rightarrow> u256 \<Rightarrow> u256 \<Rightarrow> address \<times> ValidatorStats
    \<Rightarrow> u256 \<times> u256 \<times> dpos \<Rightarrow> (u256 \<times> u256 \<times> dpos) option" where
  "reward_validator U rewardsStats dagProposersReward votesReward entry acc =
     (let (validatorAddress, validatorStats) = entry; (newMintedRewards, totalReward, s) = acc;
          validatorReward = validator_reward U rewardsStats dagProposersReward votesReward validatorStats
      in case GetValidator s validatorAddress of
           None \<Rightarrow> Some acc
         | Some validator \<Rightarrow> do {
             let validatorCommission = commission_part U validator validatorReward;
             let delegatorRewards = U_Sub U validatorReward validatorCommission;
             let (commission1, s1) =
               (case vs_FeesRewards validatorStats of
                  None \<Rightarrow> (validatorCommission, s)
                | Some fees \<Rightarrow>
                    if fees > 0
                    then (U_Add U validatorCommission (fst (U_FromBig U fees)),
                          AddBalance dpos_contract_address fees s)
                    else (validatorCommission, s));
             s2 \<leftarrow> AddValidatorRewards validatorAddress (uint commission1) (uint delegatorRewards) s1;
             Some (U_Add U newMintedRewards validatorReward, U_Add U totalReward validatorReward, s2)
           })"

definition DistributeRewards :: "uint256_ops \<Rightarrow> ChainConfig \<Rightarrow> RewardsStats \<Rightarrow> dpos \<Rightarrow> (u256 \<times> dpos) option" where
  "DistributeRewards U cfg rewardsStats s = do {
     s0 \<leftarrow> lazy_init U cfg s;
     let current_block_num = w_block s0;
     (blockReward, s1) \<leftarrow> block_reward U cfg s0;
     let (dagProposersReward, votesReward, blockAuthorReward) = reward_split U cfg rewardsStats blockReward;
     acc \<leftarrow> reward_author U (rs_BlockAuthor rewardsStats) blockAuthorReward (0, 0, s1);
     (newMintedRewards, totalReward, s2) \<leftarrow>
        fold_opt (reward_validator U rewardsStats dagProposersReward votesReward)
          (rs_ValidatorsStats rewardsStats) acc;
     let s3 = AddBalance dpos_contract_address (uint totalReward) s2;
     s4 \<leftarrow> (if IsOnAspenHardforkPartTwo (Hardforks cfg) current_block_num then do {
              supply \<leftarrow> c_total_supply s3;
              saveTotalSupplyDb (s3\<lparr>c_total_supply := Some (U_Add U supply newMintedRewards)\<rparr>)
            } else if IsOnAspenHardforkPartOne (Hardforks cfg) current_block_num
            then Some (saveMintedTokensDb
                   (s3\<lparr>c_minted_tokens := U_Add U (c_minted_tokens s3) newMintedRewards\<rparr>))
            else Some s3);
     Some (newMintedRewards, s4)
   }"

end
