(* ===== verification/Slashing.thy ===== *)
theory Slashing
  imports Dpos_Contract
begin

section \<open>The slashing contract\<close>

text \<open>
  \<open>src/taraxa/state/contracts/slashing/precompiled/slashing_contract.go\<close> and \<open>reader.go\<close>: proofs of
  double voting and the jail. Three views of the contract's storage occur in the code and are kept
  apart: what the storage wrapper reads and writes during a block, what its backend answers (the
  database, without the writes of the current block, which is what \<open>CleanupJailedValidators\<close> reads)
  and the delayed state of \<open>DelegationDelay\<close> blocks ago behind \<open>delayedReader\<close>. The RLP form of
  a vote comes as parameters: decoding (a failure is a panic) and the bytes whose hash is signed.
\<close>

datatype slashing_error =
    ErrInvalidVoteSignature | ErrInvalidVotesValidator | ErrNotAValidator | ErrInvalidVotesPeriodRoundStep
  | ErrInvalidVotesBlockHash | ErrIdenticalVotes | ErrExistingDoubleVotingProof | ErrSlashingAbi

record VrfPbftSortition =
  sort_Period :: u64
  sort_Round :: u32
  sort_Step :: u32

record Vote =
  vote_BlockHash :: bytes
  vote_VrfSortitionBytes :: bytes
  vote_VrfSortition :: VrfPbftSortition
  vote_Signature :: bytes

record vote_codec =
  VC_Decode :: "bytes \<Rightarrow> Vote option"
  VC_HashData :: "bytes \<Rightarrow> bytes \<Rightarrow> bytes"

record slashing_store =
  sl_jail_block :: "address \<Rightarrow> block_num option"
  sl_proofs :: "bytes \<times> bytes \<Rightarrow> bool"
  sl_jailed :: "address list option"

datatype slashing_log = JailedLog address block_num block_num nat

record slashing =
  sc_cur :: slashing_store
  sc_db :: slashing_store
  sc_delayed :: slashing_store
  sc_eligible :: "address \<Rightarrow> bool"
  sc_nonce :: int
  sc_logs :: "slashing_log list"
  sc_nextCleanUpBlock :: block_num

definition DOUBLE_VOTING :: nat where "DOUBLE_VOTING = 1"

subsection \<open>The reader\<close>

definition reader_getJailBlock :: "slashing_store \<Rightarrow> address \<Rightarrow> bool \<times> block_num" where
  "reader_getJailBlock st a =
     (case sl_jail_block st a of None \<Rightarrow> (False, 0) | Some b \<Rightarrow> (True, b))"

definition IsJailed :: "ChainConfig \<Rightarrow> slashing_store \<Rightarrow> block_num \<Rightarrow> address \<Rightarrow> bool" where
  "IsJailed cfg st block a \<longleftrightarrow>
     (if \<not> IsOnMagnoliaHardfork (Hardforks cfg) block then False
      else let (jailed, jail_block) = reader_getJailBlock st a in
        if \<not> jailed then False else if jail_block < block then False else True)"

definition GetJailedValidators :: "slashing_store \<Rightarrow> address list" where
  "GetJailedValidators st = (case sl_jailed st of None \<Rightarrow> [] | Some l \<Rightarrow> l)"

subsection \<open>Jailing\<close>

definition storageInitialization :: "slashing \<Rightarrow> slashing" where
  "storageInitialization c = (if sc_nonce c = 0 then c\<lparr>sc_nonce := sc_nonce c + 1\<rparr> else c)"

definition addToJailedValidators :: "address \<Rightarrow> slashing \<Rightarrow> slashing" where
  "addToJailedValidators validator c =
     (let jailed_validators = GetJailedValidators (sc_delayed c) in
      if validator \<in> set jailed_validators then c
      else c\<lparr>sc_cur := (sc_cur c)\<lparr>sl_jailed := Some (jailed_validators @ [validator])\<rparr>\<rparr>)"

definition jailValidator :: "ChainConfig \<Rightarrow> block_num \<Rightarrow> address \<Rightarrow> slashing \<Rightarrow> block_num \<times> slashing" where
  "jailValidator cfg current_block validator c =
     (let jail_block = current_block + magnolia_JailTime (MagnoliaHf (Hardforks cfg));
          c1 = c\<lparr>sc_cur := (sc_cur c)\<lparr>sl_jail_block := (sl_jail_block (sc_cur c))(validator \<mapsto> jail_block)\<rparr>\<rparr>;
          c2 = addToJailedValidators validator c1
      in (jail_block, storageInitialization c2))"

definition slashing_getJailBlock :: "slashing \<Rightarrow> address \<Rightarrow> block_num" where
  "slashing_getJailBlock c validator = snd (reader_getJailBlock (sc_delayed c) validator)"

text \<open>
  Dropping the validators whose time is over. The smallest jail block of the list, those dropped
  included, is when the next clean-up is due.
\<close>

definition min_unjail_step :: "slashing_store \<Rightarrow> block_num \<Rightarrow> address \<Rightarrow> block_num" where
  "min_unjail_step st min_unjail_block validator =
     (let jail_block = snd (reader_getJailBlock st validator) in
      if min_unjail_block = 0 \<or> jail_block < min_unjail_block then jail_block else min_unjail_block)"

definition CleanupJailedValidators :: "block_num \<Rightarrow> slashing \<Rightarrow> slashing" where
  "CleanupJailedValidators currentBlock c =
     (if sc_nextCleanUpBlock c > currentBlock then c
      else let jailed_validators = GetJailedValidators (sc_db c) in
        if jailed_validators = [] then c
        else
          let kept = filter (\<lambda>v. snd (reader_getJailBlock (sc_db c) v) > currentBlock) jailed_validators;
              min_unjail_block = foldl (min_unjail_step (sc_db c)) 0 jailed_validators;
              c1 = (if min_unjail_block \<noteq> 0 then c\<lparr>sc_nextCleanUpBlock := min_unjail_block\<rparr> else c)
          in c1\<lparr>sc_cur := (sc_cur c1)\<lparr>sl_jailed := Some kept\<rparr>\<rparr>)"

text \<open>
  A new block: what was written reaches the database, and \<open>CommitCall\<close> clears the cache and
  installs the new delayed reader.
\<close>

definition slashing_CommitCall :: "slashing_store \<Rightarrow> (address \<Rightarrow> bool) \<Rightarrow> slashing \<Rightarrow> slashing" where
  "slashing_CommitCall delayed eligible c =
     c\<lparr>sc_db := sc_cur c, sc_delayed := delayed, sc_eligible := eligible\<rparr>"

subsection \<open>Proofs of double voting\<close>

fun bytes_Compare :: "bytes \<Rightarrow> bytes \<Rightarrow> int" where
  "bytes_Compare [] [] = 0"
| "bytes_Compare [] (y # ys) = - 1"
| "bytes_Compare (x # xs) [] = 1"
| "bytes_Compare (x # xs) (y # ys) =
     (if x < y then - 1 else if y < x then 1 else bytes_Compare xs ys)"

definition genDoubleVotingProofDbKey :: "bytes \<Rightarrow> bytes \<Rightarrow> (bytes \<times> bytes) option" where
  "genDoubleVotingProofDbKey vote_a_hash vote_b_hash =
     (let cmp_res = bytes_Compare vote_a_hash vote_b_hash in
      if cmp_res = - 1 then Some (vote_a_hash, vote_b_hash)
      else if cmp_res = 1 then Some (vote_b_hash, vote_a_hash)
      else None)"

definition doubleVotingProoExists :: "bytes \<times> bytes \<Rightarrow> slashing \<Rightarrow> bool" where
  "doubleVotingProoExists db_key c = sl_proofs (sc_cur c) db_key"

definition saveDoubleVotingProof :: "bytes \<times> bytes \<Rightarrow> slashing \<Rightarrow> slashing" where
  "saveDoubleVotingProof db_key c =
     c\<lparr>sc_cur := (sc_cur c)\<lparr>sl_proofs := (sl_proofs (sc_cur c))(db_key := True)\<rparr>\<rparr>"

definition NewVote :: "vote_codec \<Rightarrow> bytes \<Rightarrow> Vote option" where
  "NewVote V vote_rlp = VC_Decode V vote_rlp"

definition vote_GetHash :: "crypto_ops \<Rightarrow> vote_codec \<Rightarrow> Vote \<Rightarrow> bytes" where
  "vote_GetHash K V vote = K_Hash K (VC_HashData V (vote_BlockHash vote) (vote_VrfSortitionBytes vote))"

definition validateVoteSig :: "crypto_ops \<Rightarrow> bytes \<Rightarrow> bytes \<Rightarrow> address option" where
  "validateVoteSig K vote_hash signature =
     map_option (\<lambda>pubKey. BytesToAddress (drop 12 (K_Hash K (drop 1 pubKey)))) (K_Ecrecover K vote_hash signature)"

definition ZeroHash :: bytes where "ZeroHash = replicate 32 0"

text \<open>The checks on a pair of votes that do not depend on the contract's state.\<close>

definition check_votes :: "Vote \<Rightarrow> Vote \<Rightarrow> slashing_error option" where
  "check_votes vote_a vote_b =
     (let sa = vote_VrfSortition vote_a; sb = vote_VrfSortition vote_b in
      if sort_Period sa \<noteq> sort_Period sb \<or> sort_Round sa \<noteq> sort_Round sb \<or> sort_Step sa \<noteq> sort_Step sb
      then Some ErrInvalidVotesPeriodRoundStep
      else if vote_BlockHash vote_a = vote_BlockHash vote_b then Some ErrInvalidVotesBlockHash
      else if sort_Step sa \<ge> 5 \<and> sort_Step sa mod 2 = 1
           \<and> ((vote_BlockHash vote_a = ZeroHash \<and> vote_BlockHash vote_b \<noteq> ZeroHash)
              \<or> (vote_BlockHash vote_a \<noteq> ZeroHash \<and> vote_BlockHash vote_b = ZeroHash))
      then Some ErrInvalidVotesBlockHash
      else None)"

definition commitDoubleVotingProof :: "crypto_ops \<Rightarrow> vote_codec \<Rightarrow> ChainConfig \<Rightarrow> block_num \<Rightarrow> bytes \<Rightarrow> bytes
    \<Rightarrow> slashing \<Rightarrow> (slashing \<times> slashing_error option) option" where
  "commitDoubleVotingProof K V cfg block VoteA VoteB c = do {
     vote_a \<leftarrow> NewVote V VoteA;
     let vote_a_hash = vote_GetHash K V vote_a;
     vote_b \<leftarrow> NewVote V VoteB;
     let vote_b_hash = vote_GetHash K V vote_b;
     if vote_a_hash = vote_b_hash then Some (c, Some ErrIdenticalVotes)
     else do {
       proof_db_key \<leftarrow> genDoubleVotingProofDbKey vote_a_hash vote_b_hash;
       if doubleVotingProoExists proof_db_key c then Some (c, Some ErrExistingDoubleVotingProof)
       else case check_votes vote_a vote_b of
         Some err \<Rightarrow> Some (c, Some err)
       | None \<Rightarrow>
         (case validateVoteSig K vote_a_hash (vote_Signature vote_a) of
            None \<Rightarrow> Some (c, Some ErrInvalidVoteSignature)
          | Some vote_a_validator \<Rightarrow>
            (case validateVoteSig K vote_b_hash (vote_Signature vote_b) of
               None \<Rightarrow> Some (c, Some ErrInvalidVoteSignature)
             | Some vote_b_validator \<Rightarrow>
                 if vote_a_validator \<noteq> vote_b_validator then Some (c, Some ErrInvalidVotesValidator)
                 else if \<not> sc_eligible c vote_a_validator then Some (c, Some ErrNotAValidator)
                 else
                   let (jail_block, c1) = jailValidator cfg block vote_a_validator c;
                       c2 = saveDoubleVotingProof proof_db_key c1
                   in Some (c2\<lparr>sc_logs := sc_logs c2 @ [JailedLog vote_a_validator block jail_block DOUBLE_VOTING]\<rparr>,
                            None)))
     }
   }"

subsection \<open>Dispatch\<close>

text \<open>The input after the ABI has decoded it: the method and its arguments, or the error.\<close>

datatype slashing_call =
    CommitDoubleVotingProof bytes bytes
  | GetJailBlockCall address
  | GetJailedValidatorsCall
  | OtherSlashingMethod

datatype slashing_output = SOut_none | SOut_block block_num | SOut_addresses "address list"

definition CommitDoubleVotingProofGas :: u64 where "CommitDoubleVotingProofGas = 20000"
definition getJailBlockGas :: u64 where "getJailBlockGas = 5000"
definition DefaultSlashingMethodGas :: u64 where "DefaultSlashingMethodGas = 5000"

definition slashing_RequiredGas :: "slashing_call option \<Rightarrow> u64" where
  "slashing_RequiredGas input =
     (case input of
        None \<Rightarrow> 0
      | Some (CommitDoubleVotingProof _ _) \<Rightarrow> CommitDoubleVotingProofGas
      | Some (GetJailBlockCall _) \<Rightarrow> getJailBlockGas
      | Some GetJailedValidatorsCall \<Rightarrow> getJailBlockGas
      | Some OtherSlashingMethod \<Rightarrow> DefaultSlashingMethodGas)"

definition slashing_Run :: "crypto_ops \<Rightarrow> vote_codec \<Rightarrow> ChainConfig \<Rightarrow> block_num \<Rightarrow> slashing_call option
    \<Rightarrow> slashing \<Rightarrow> (slashing \<times> (slashing_error + slashing_output)) option" where
  "slashing_Run K V cfg block input c =
     (case input of
        None \<Rightarrow> Some (c, Inl ErrSlashingAbi)
      | Some (CommitDoubleVotingProof a b) \<Rightarrow> do {
          (c1, err) \<leftarrow> commitDoubleVotingProof K V cfg block a b c;
          Some (c1, case err of None \<Rightarrow> Inr SOut_none | Some e \<Rightarrow> Inl e)
        }
      | Some (GetJailBlockCall a) \<Rightarrow> Some (c, Inr (SOut_block (slashing_getJailBlock c a)))
      | Some GetJailedValidatorsCall \<Rightarrow> Some (c, Inr (SOut_addresses (GetJailedValidators (sc_delayed c))))
      | Some OtherSlashingMethod \<Rightarrow> Some (c, Inr SOut_none))"

end
