(* ===== verification/Dpos_Reader.thy ===== *)
theory Dpos_Reader
  imports Dpos_Rewards Slashing
begin

section \<open>Readers and the API of the DPOS contract\<close>

text \<open>
  \<open>reader.go\<close> and \<open>api.go\<close> of \<open>src/taraxa/state/contracts/dpos/precompiled\<close>. A reader looks at the
  state of one block: the storage a factory returns for the block is a snapshot of the DPOS contract
  and one of the slashing contract. The delayed reader, which consensus uses, looks at the state of
  \<open>DelegationDelay\<close> blocks ago.
\<close>

record Reader =
  r_cfg :: ChainConfig
  r_block_n :: block_num
  r_storage :: dpos
  r_slashing :: slashing_store

definition delayed_block :: "ChainConfig \<Rightarrow> block_num \<Rightarrow> block_num" where
  "delayed_block cfg blk_n =
     (if ucast (DelegationDelay (DPOS cfg)) < blk_n then blk_n - ucast (DelegationDelay (DPOS cfg)) else 0)"

definition Reader_Init :: "ChainConfig \<Rightarrow> block_num \<Rightarrow> (block_num \<Rightarrow> dpos) \<Rightarrow> (block_num \<Rightarrow> slashing_store) \<Rightarrow> Reader" where
  "Reader_Init cfg blk_n dpos_factory slashing_factory =
     \<lparr>r_cfg = cfg, r_block_n = blk_n, r_storage = dpos_factory blk_n,
      r_slashing = slashing_factory (delayed_block cfg blk_n)\<rparr>"

definition InitDelayedReader ::
    "ChainConfig \<Rightarrow> block_num \<Rightarrow> (block_num \<Rightarrow> dpos) \<Rightarrow> (block_num \<Rightarrow> slashing_store) \<Rightarrow> Reader" where
  "InitDelayedReader cfg blk_n dpos_factory slashing_factory =
     \<lparr>r_cfg = cfg, r_block_n = delayed_block cfg blk_n, r_storage = dpos_factory (delayed_block cfg blk_n),
      r_slashing = slashing_factory (delayed_block cfg blk_n)\<rparr>"

definition GetStakingBalance :: "Reader \<Rightarrow> address \<Rightarrow> int" where
  "GetStakingBalance r addr =
     (case s_validator (r_storage r) addr of None \<Rightarrow> 0 | Some slot \<Rightarrow> v_TotalStake (decode_validator slot))"

definition GetEligibleVoteCount :: "Reader \<Rightarrow> address \<Rightarrow> u64 option" where
  "GetEligibleVoteCount r addr = voteCount (GetStakingBalance r addr) (r_cfg r) (r_block_n r)"

definition TotalEligibleVoteCount :: "Reader \<Rightarrow> u64 option" where
  "TotalEligibleVoteCount r =
     fold_opt (\<lambda>addr ret. do { c \<leftarrow> GetEligibleVoteCount r addr; Some (ret - c) })
       (GetJailedValidators (r_slashing r))
       (case s_eligible_vote_count (r_storage r) of None \<Rightarrow> 0 | Some c \<Rightarrow> c)"

definition TotalAmountDelegated :: "Reader \<Rightarrow> int" where
  "TotalAmountDelegated r = (case s_amount_delegated (r_storage r) of None \<Rightarrow> 0 | Some a \<Rightarrow> uint a)"

definition reader_IsEligible :: "Reader \<Rightarrow> address \<Rightarrow> bool" where
  "reader_IsEligible r a \<longleftrightarrow> EligibilityBalanceThreshold (DPOS (r_cfg r)) \<le> GetStakingBalance r a"

definition GetValidatorsTotalStakes :: "Reader \<Rightarrow> (address \<times> int) list" where
  "GetValidatorsTotalStakes r =
     map (\<lambda>a. (a, GetStakingBalance r a))
       (fst (GetAccounts 0 (seq_count (s_validators_list (r_storage r))) (s_validators_list (r_storage r))))"

fun vote_counts_loop :: "Reader \<Rightarrow> address list \<Rightarrow> (address \<times> u64) list option" where
  "vote_counts_loop r [] = Some []"
| "vote_counts_loop r (a # as) = do {
     c \<leftarrow> voteCount (GetStakingBalance r a) (r_cfg r) (r_block_n r);
     rest \<leftarrow> vote_counts_loop r as;
     Some ((a, c) # rest)
   }"

definition GetValidatorsVoteCounts :: "Reader \<Rightarrow> (address \<times> u64) list option" where
  "GetValidatorsVoteCounts r = vote_counts_loop r
     (fst (GetAccounts 0 (seq_count (s_validators_list (r_storage r))) (s_validators_list (r_storage r))))"

definition reader_GetVrfKey :: "Reader \<Rightarrow> address \<Rightarrow> bytes" where
  "reader_GetVrfKey r a = (case s_validator_vrf (r_storage r) a of None \<Rightarrow> [] | Some k \<Rightarrow> k)"

definition GetYield :: "Reader \<Rightarrow> u64" where
  "GetYield r =
     (if \<not> IsOnAspenHardforkPartTwo (Hardforks (r_cfg r)) (r_block_n r) then 0
      else case s_yield (r_storage r) of None \<Rightarrow> 0 | Some y \<Rightarrow> y)"

definition GetTotalSupply :: "Reader \<Rightarrow> int" where
  "GetTotalSupply r =
     (if \<not> IsOnAspenHardforkPartTwo (Hardforks (r_cfg r)) (r_block_n r) then 0
      else case s_total_supply (r_storage r) of None \<Rightarrow> 0 | Some t \<Rightarrow> uint t)"

subsection \<open>The API\<close>

record DposConfigWithBlock =
  cb_DposConfig :: DPOSConfig
  cb_Blk_n :: block_num

record API =
  config_by_block :: "DposConfigWithBlock list"
  api_config :: ChainConfig

text \<open>
  \<open>Init\<close> checks the configuration and panics on a bad one; the nil checks have no counterpart, a
  big integer of the model is never nil. The warning about a high yield changes nothing.
\<close>

definition num_1e38 :: int where "num_1e38 = 10 ^ 38"

definition API_Init :: "uint256_ops \<Rightarrow> ChainConfig \<Rightarrow> API \<Rightarrow> API option" where
  "API_Init U cfg api = do {
     holds (DelegationDelay (DPOS cfg) \<le> DelegationLockingPeriod (DPOS cfg));
     holds (DelegationDelay (DPOS cfg) \<le> cornus_DelegationLockingPeriod (CornusHf (Hardforks cfg)));
     holds (ValidatorMaximumStake (DPOS cfg) \<ge> MinimumDeposit (DPOS cfg));
     holds (ValidatorMaximumStake (DPOS cfg) > 0);
     holds (ValidatorMaximumStake (DPOS cfg) < num_1e38);
     holds (MaxBlockAuthorReward (DPOS cfg) \<le> 100);
     holds (aspen_BlockNumPartTwo (AspenHf (Hardforks cfg)) \<ge> aspen_BlockNumPartOne (AspenHf (Hardforks cfg)));
     let total_supply = GenesisBalancesSum cfg + aspen_GeneratedRewards (AspenHf (Hardforks cfg));
     holds (aspen_MaxSupply (AspenHf (Hardforks cfg)) \<ge> total_supply);
     holds (snd (U_FromBig U total_supply) = False);
     YieldCurve_Init U cfg;
     Some (api\<lparr>api_config := cfg\<rparr>)
   }"

text \<open>The entry whose interval of blocks contains the block; an interval ends where the next begins.\<close>

fun config_loop :: "DposConfigWithBlock list \<Rightarrow> block_num \<Rightarrow> DPOSConfig option" where
  "config_loop [] blk_n = None"
| "config_loop (e # es) blk_n =
     (let next_block_num = (case es of [] \<Rightarrow> - 1 | e' # _ \<Rightarrow> cb_Blk_n e') in
      if cb_Blk_n e \<le> blk_n \<and> next_block_num > blk_n then Some (cb_DposConfig e)
      else config_loop es blk_n)"

definition GetConfigByBlockNum :: "API \<Rightarrow> block_num \<Rightarrow> ChainConfig" where
  "GetConfigByBlockNum api blk_n =
     (case config_loop (config_by_block api) blk_n of
        Some d \<Rightarrow> (api_config api)\<lparr>DPOS := d\<rparr>
      | None \<Rightarrow> api_config api)"

definition UpdateConfig :: "block_num \<Rightarrow> ChainConfig \<Rightarrow> API \<Rightarrow> API" where
  "UpdateConfig blk_n cfg api =
     api\<lparr>config_by_block := config_by_block api @ [\<lparr>cb_DposConfig = DPOS cfg, cb_Blk_n = blk_n\<rparr>],
         api_config := cfg\<rparr>"

definition NewDelayedReader :: "API \<Rightarrow> block_num \<Rightarrow> (block_num \<Rightarrow> dpos) \<Rightarrow> (block_num \<Rightarrow> slashing_store) \<Rightarrow> Reader" where
  "NewDelayedReader api blk_n = InitDelayedReader (GetConfigByBlockNum api blk_n) blk_n"

definition NewReader :: "API \<Rightarrow> block_num \<Rightarrow> (block_num \<Rightarrow> dpos) \<Rightarrow> (block_num \<Rightarrow> slashing_store) \<Rightarrow> Reader" where
  "NewReader api blk_n = Reader_Init (GetConfigByBlockNum api blk_n) blk_n"

end
