(* ===== verification/Dpos_Dispatch.thy ===== *)
theory Dpos_Dispatch
  imports Dpos_Queries Dpos_Reader
begin

section \<open>Calls into the DPOS contract\<close>

text \<open>
  \<open>RequiredGas\<close> and \<open>Run\<close> of \<open>dpos_contract.go\<close>: the EVM hands over the call frame, the input bytes and the
  call depth. Finding the method of a selector and unpacking its arguments is the ABI package's work and a
  parameter; \<^const>\<open>None\<close> is its error. A result that the code packs with the ABI stays the value it packs.
\<close>

datatype dpos_method =
    M_delegate | M_undelegate | M_undelegateV2 | M_confirmUndelegate | M_confirmUndelegateV2
  | M_cancelUndelegate | M_cancelUndelegateV2 | M_reDelegate | M_claimRewards
  | M_claimAllRewards | M_claimAllRewards_old | M_claimCommissionRewards | M_setCommission
  | M_registerValidator | M_setValidatorInfo | M_isValidatorEligible | M_getTotalEligibleVotesCount
  | M_getValidatorEligibleVotesCount | M_getValidator | M_getValidators | M_getValidatorsFor
  | M_getTotalDelegation | M_getDelegations | M_getUndelegations | M_getUndelegationsV2
  | M_getUndelegationV2 | M_other

record abi_ops =
  AB_MethodById :: "bytes \<Rightarrow> dpos_method option"
  AB_Address :: "bytes \<Rightarrow> address option"
  AB_AddressAmount :: "bytes \<Rightarrow> (address \<times> int) option"
  AB_AddressId :: "bytes \<Rightarrow> (address \<times> u64) option"
  AB_AddressBatch :: "bytes \<Rightarrow> (address \<times> u32) option"
  AB_Batch :: "dpos_method \<Rightarrow> bytes \<Rightarrow> u32 option"
  AB_Redelegate :: "bytes \<Rightarrow> (address \<times> address \<times> int) option"
  AB_SetCommission :: "bytes \<Rightarrow> (address \<times> u16) option"
  AB_SetValidatorInfo :: "bytes \<Rightarrow> (address \<times> string \<times> string) option"
  AB_RegisterValidator :: "bytes \<Rightarrow> RegisterValidatorArgs option"
  AB_UndelegationV2 :: "bytes \<Rightarrow> (address \<times> address \<times> u64) option"

datatype dpos_output =
    Out_none
  | Out_id u64
  | Out_bool bool
  | Out_count u64
  | Out_validator DposInterfaceValidatorBasicInfo
  | Out_validators "DposInterfaceValidatorData list \<times> bool"
  | Out_total int
  | Out_delegations "DposInterfaceDelegationData list \<times> bool"
  | Out_undelegations "DposInterfaceUndelegationData list \<times> bool"
  | Out_undelegations_v2 "DposInterfaceUndelegationV2Data list \<times> bool"
  | Out_undelegation_v2 DposInterfaceUndelegationV2Data

type_synonym run_result = "(dpos \<times> (dpos_error + dpos_output)) option"

subsection \<open>Gas\<close>

definition RegisterValidatorGas :: u64 where "RegisterValidatorGas = 80000"
definition SetCommissionGas :: u64 where "SetCommissionGas = 20000"
definition DelegateGas :: u64 where "DelegateGas = 40000"
definition UndelegateGas :: u64 where "UndelegateGas = 60000"
definition ConfirmUndelegateGas :: u64 where "ConfirmUndelegateGas = 20000"
definition CancelUndelegateGas :: u64 where "CancelUndelegateGas = 60000"
definition ReDelegateGas :: u64 where "ReDelegateGas = 80000"
definition ClaimRewardsGas :: u64 where "ClaimRewardsGas = 40000"
definition ClaimCommissionRewardsGas :: u64 where "ClaimCommissionRewardsGas = 20000"
definition SetValidatorInfoGas :: u64 where "SetValidatorInfoGas = 20000"
definition DposGetMethodsGas :: u64 where "DposGetMethodsGas = 5000"
definition DposBatchGetMethodsGas :: u64 where "DposBatchGetMethodsGas = 5000"
definition DefaultDposMethodGas :: u64 where "DefaultDposMethodGas = 20000"
definition TransferIntoDPoSContractGas :: u64 where "TransferIntoDPoSContractGas = 1000"

lemmas gas_defs =
  RegisterValidatorGas_def SetCommissionGas_def DelegateGas_def UndelegateGas_def
  ConfirmUndelegateGas_def CancelUndelegateGas_def ReDelegateGas_def ClaimRewardsGas_def
  ClaimCommissionRewardsGas_def SetValidatorInfoGas_def DposGetMethodsGas_def
  DposBatchGetMethodsGas_def DefaultDposMethodGas_def TransferIntoDPoSContractGas_def

definition IsTransferIntoDPoSContract :: "ChainConfig \<Rightarrow> bytes \<Rightarrow> block_num \<Rightarrow> bool" where
  "IsTransferIntoDPoSContract cfg input blockNum \<longleftrightarrow>
     input = [0x44, 0xdf, 0x8e, 0x70] \<and> IsOnPhalaenopsisHardfork (Hardforks cfg) blockNum"

definition isPayableMethod :: "dpos_method \<Rightarrow> bool" where
  "isPayableMethod m \<longleftrightarrow> m = M_registerValidator \<or> m = M_delegate"

definition GetOldClaimAllRewardsABI :: "bytes \<Rightarrow> dpos_method option" where
  "GetOldClaimAllRewardsABI input =
     (if take 4 input = [0x09, 0xb7, 0x2e, 0x00] then Some M_claimAllRewards_old else None)"

text \<open>The method a call is for; \<open>Inl\<close> tells the transfer without data from an unknown method.\<close>

datatype no_method = TransferInto | UnknownMethod

definition find_method :: "abi_ops \<Rightarrow> ChainConfig \<Rightarrow> bytes \<Rightarrow> block_num \<Rightarrow> no_method + dpos_method" where
  "find_method A cfg input block_num =
     (case AB_MethodById A input of
        Some m \<Rightarrow> Inr m
      | None \<Rightarrow>
          if IsTransferIntoDPoSContract cfg input block_num then Inl TransferInto
          else if \<not> IsOnFixClaimAllHardfork (Hardforks cfg) block_num then
            (case GetOldClaimAllRewardsABI input of None \<Rightarrow> Inl UnknownMethod | Some m \<Rightarrow> Inr m)
          else Inl UnknownMethod)"

definition claim_all_gas :: "abi_ops \<Rightarrow> ChainConfig \<Rightarrow> CallFrame \<Rightarrow> dpos_method \<Rightarrow> bytes \<Rightarrow> dpos \<Rightarrow> u64" where
  "claim_all_gas A cfg ctx m input s =
     (let count = ucast (GetDelegationsCount s (CallerAccount ctx)) in
      if IsOnAspenHardforkPartOne (Hardforks cfg) (w_block s)
      then count * (DposBatchGetMethodsGas + ClaimRewardsGas)
      else case AB_Batch A m input of
        None \<Rightarrow> 0
      | Some batch \<Rightarrow> batch_items_count count (ucast batch) (ucast ClaimAllRewardsMaxCount)
                      * (DposBatchGetMethodsGas + ClaimRewardsGas))"

definition query_gas :: "abi_ops \<Rightarrow> ChainConfig \<Rightarrow> dpos_method \<Rightarrow> bytes \<Rightarrow> dpos \<Rightarrow> u64 option" where
  "query_gas A cfg m input s =
     (let cornus = IsOnCornusHardfork (Hardforks cfg) (w_block s) in
      case m of
        M_getValidators \<Rightarrow> Some (case AB_Batch A m input of
            None \<Rightarrow> 0
          | Some batch \<Rightarrow> batch_items_count (ucast (GetValidatorsCount s)) (ucast batch)
                            (ucast GetValidatorsMaxCount) * DposBatchGetMethodsGas)
      | M_getValidatorsFor \<Rightarrow> Some (case AB_AddressBatch A input of
            None \<Rightarrow> 0
          | Some _ \<Rightarrow> ucast GetValidatorsMaxCount * DposBatchGetMethodsGas)
      | M_getTotalDelegation \<Rightarrow> Some (case AB_Address A input of
            None \<Rightarrow> 0
          | Some d \<Rightarrow> ucast (GetDelegationsCount s d) * DposBatchGetMethodsGas)
      | M_getDelegations \<Rightarrow> Some (case AB_AddressBatch A input of
            None \<Rightarrow> 0
          | Some (d, batch) \<Rightarrow> batch_items_count (ucast (GetDelegationsCount s d)) (ucast batch)
                                 (ucast GetDelegationsMaxCount) * DposBatchGetMethodsGas)
      | M_getUndelegations \<Rightarrow> Some (case AB_AddressBatch A input of
            None \<Rightarrow> 0
          | Some (d, batch) \<Rightarrow> batch_items_count (ucast (GetUndelegationsV1Count s d)) (ucast batch)
                                 (ucast GetUndelegationsMaxCount) * DposBatchGetMethodsGas)
      | M_getUndelegationsV2 \<Rightarrow>
          if \<not> cornus then Some 0
          else (case AB_AddressBatch A input of
              None \<Rightarrow> Some 0
            | Some (d, batch) \<Rightarrow> do {
                n \<leftarrow> getUndelegationsV2StorageReadsCount s d batch (ucast GetUndelegationsMaxCount);
                Some (n * DposBatchGetMethodsGas)
              })
      | M_getUndelegationV2 \<Rightarrow> Some (if \<not> cornus then 0 else DposGetMethodsGas)
      | _ \<Rightarrow> Some DefaultDposMethodGas)"

definition method_gas :: "abi_ops \<Rightarrow> ChainConfig \<Rightarrow> CallFrame \<Rightarrow> dpos_method \<Rightarrow> bytes \<Rightarrow> dpos \<Rightarrow> u64 option" where
  "method_gas A cfg ctx m input s =
     (let cornus = IsOnCornusHardfork (Hardforks cfg) (w_block s) in
      case m of
        M_delegate \<Rightarrow> Some DelegateGas
      | M_undelegate \<Rightarrow> Some UndelegateGas
      | M_undelegateV2 \<Rightarrow> Some (if \<not> cornus then 0 else UndelegateGas)
      | M_confirmUndelegate \<Rightarrow> Some ConfirmUndelegateGas
      | M_confirmUndelegateV2 \<Rightarrow> Some (if \<not> cornus then 0 else ConfirmUndelegateGas)
      | M_cancelUndelegate \<Rightarrow> Some CancelUndelegateGas
      | M_cancelUndelegateV2 \<Rightarrow> Some (if \<not> cornus then 0 else CancelUndelegateGas)
      | M_reDelegate \<Rightarrow> Some ReDelegateGas
      | M_claimCommissionRewards \<Rightarrow> Some ClaimCommissionRewardsGas
      | M_setCommission \<Rightarrow> Some SetCommissionGas
      | M_registerValidator \<Rightarrow> Some RegisterValidatorGas
      | M_setValidatorInfo \<Rightarrow> Some SetValidatorInfoGas
      | M_isValidatorEligible \<Rightarrow> Some DefaultDposMethodGas
      | M_getTotalEligibleVotesCount \<Rightarrow> Some DefaultDposMethodGas
      | M_getValidatorEligibleVotesCount \<Rightarrow> Some DefaultDposMethodGas
      | M_getValidator \<Rightarrow> Some DposGetMethodsGas
      | M_claimRewards \<Rightarrow> Some ClaimRewardsGas
      | M_claimAllRewards \<Rightarrow> Some (claim_all_gas A cfg ctx m input s)
      | M_claimAllRewards_old \<Rightarrow> Some (claim_all_gas A cfg ctx m input s)
      | _ \<Rightarrow> query_gas A cfg m input s)"

text \<open>\<open>lazy_init\<close> fills the values kept in memory, so \<open>RequiredGas\<close> returns the contract as well.\<close>

definition RequiredGas :: "abi_ops \<Rightarrow> uint256_ops \<Rightarrow> ChainConfig \<Rightarrow> CallFrame \<Rightarrow> bytes \<Rightarrow> dpos \<Rightarrow> (u64 \<times> dpos) option" where
  "RequiredGas A U cfg ctx input s =
     (if length input < 4 then Some (0, s)
      else do {
        s1 \<leftarrow> lazy_init U cfg s;
        case find_method A cfg input (w_block s1) of
          Inl TransferInto \<Rightarrow> Some (TransferIntoDPoSContractGas, s1)
        | Inl UnknownMethod \<Rightarrow> Some (0, s1)
        | Inr m \<Rightarrow>
            if IsOnCornusHardfork (Hardforks cfg) (w_block s1) \<and> Value ctx > 0 \<and> \<not> isPayableMethod m
            then Some (0, s1)
            else do { g \<leftarrow> method_gas A cfg ctx m (drop 4 input) s1; Some (g, s1) }
      })"

subsection \<open>Running a call\<close>

definition lift_result :: "dpos_result \<Rightarrow> run_result" where
  "lift_result r = map_option (\<lambda>(s, err). (s, case err of None \<Rightarrow> Inr Out_none | Some e \<Rightarrow> Inl e)) r"

text \<open>Unpack the arguments and go on, or return the ABI's error.\<close>

definition with_args :: "'a option \<Rightarrow> dpos \<Rightarrow> ('a \<Rightarrow> run_result) \<Rightarrow> run_result" where
  "with_args args s f = (case args of None \<Rightarrow> Some (s, Inl ErrAbi) | Some a \<Rightarrow> f a)"

text \<open>The queries.\<close>

definition run_query :: "abi_ops \<Rightarrow> ChainConfig \<Rightarrow> Reader \<Rightarrow> dpos_method \<Rightarrow> bytes \<Rightarrow> dpos \<Rightarrow> run_result" where
  "run_query A cfg delayedStorage m input s =
     (let cornus = IsOnCornusHardfork (Hardforks cfg) (w_block s) in
      case m of
        M_isValidatorEligible \<Rightarrow> with_args (AB_Address A input) s (\<lambda>a.
          Some (s, Inr (Out_bool (reader_IsEligible delayedStorage a))))
      | M_getTotalEligibleVotesCount \<Rightarrow> do {
          c \<leftarrow> TotalEligibleVoteCount delayedStorage; Some (s, Inr (Out_count c)) }
      | M_getValidatorEligibleVotesCount \<Rightarrow> with_args (AB_Address A input) s (\<lambda>a. do {
          c \<leftarrow> GetEligibleVoteCount delayedStorage a; Some (s, Inr (Out_count c)) })
      | M_getValidator \<Rightarrow> with_args (AB_Address A input) s (\<lambda>a. do {
          r \<leftarrow> getValidator s a; Some (s, map_sum (\<lambda>e. e) Out_validator r) })
      | M_getValidators \<Rightarrow> with_args (AB_Batch A m input) s (\<lambda>batch. do {
          r \<leftarrow> getValidators s batch; Some (s, Inr (Out_validators r)) })
      | M_getValidatorsFor \<Rightarrow> with_args (AB_AddressBatch A input) s (\<lambda>(owner, batch). do {
          r \<leftarrow> getValidatorsFor s owner batch; Some (s, Inr (Out_validators r)) })
      | M_getTotalDelegation \<Rightarrow> with_args (AB_Address A input) s (\<lambda>d. do {
          r \<leftarrow> getTotalDelegation s d; Some (s, Inr (Out_total r)) })
      | M_getDelegations \<Rightarrow> with_args (AB_AddressBatch A input) s (\<lambda>(d, batch). do {
          r \<leftarrow> getDelegations cfg s d batch; Some (s, Inr (Out_delegations r)) })
      | M_getUndelegations \<Rightarrow> with_args (AB_AddressBatch A input) s (\<lambda>(d, batch).
          Some (s, Inr (Out_undelegations (getUndelegations s d batch))))
      | M_getUndelegationsV2 \<Rightarrow>
          if \<not> cornus then Some (s, Inl ErrMethodNotSupported)
          else with_args (AB_AddressBatch A input) s (\<lambda>(d, batch). do {
            r \<leftarrow> getUndelegationsV2 s d batch; Some (s, Inr (Out_undelegations_v2 r)) })
      | M_getUndelegationV2 \<Rightarrow>
          if \<not> cornus then Some (s, Inl ErrMethodNotSupported)
          else with_args (AB_UndelegationV2 A input) s (\<lambda>(d, v, i).
            Some (s, case getUndelegationV2 s d v i of
                       None \<Rightarrow> Inl ErrNonExistentUndelegation
                     | Some u \<Rightarrow> Inr (Out_undelegation_v2 u)))
      | _ \<Rightarrow> Some (s, Inr Out_none))"

definition run_method :: "abi_ops \<Rightarrow> uint256_ops \<Rightarrow> crypto_ops \<Rightarrow> ChainConfig \<Rightarrow> Reader \<Rightarrow> CallFrame
    \<Rightarrow> dpos_method \<Rightarrow> bytes \<Rightarrow> dpos \<Rightarrow> run_result" where
  "run_method A U K cfg delayedStorage ctx m input s =
     (let block = w_block s; cornus = IsOnCornusHardfork (Hardforks cfg) block in
      case m of
        M_delegate \<Rightarrow> with_args (AB_Address A input) s (\<lambda>a. lift_result (delegate U cfg ctx block a s))
      | M_undelegate \<Rightarrow> with_args (AB_AddressAmount A input) s (\<lambda>(a, amount).
          map_option (\<lambda>(s1, r). (s1, map_sum (\<lambda>e. e) (\<lambda>_. Out_none) r)) (undelegate U cfg ctx block a amount False s))
      | M_undelegateV2 \<Rightarrow>
          if \<not> cornus then Some (s, Inl ErrMethodNotSupported)
          else with_args (AB_AddressAmount A input) s (\<lambda>(a, amount).
            map_option (\<lambda>(s1, r). (s1, map_sum (\<lambda>e. e) Out_id r)) (undelegate U cfg ctx block a amount True s))
      | M_confirmUndelegate \<Rightarrow> with_args (AB_Address A input) s (\<lambda>a.
          lift_result (confirmUndelegate cfg ctx block a None s))
      | M_confirmUndelegateV2 \<Rightarrow>
          if \<not> cornus then Some (s, Inl ErrMethodNotSupported)
          else with_args (AB_AddressId A input) s (\<lambda>(a, i).
            lift_result (confirmUndelegate cfg ctx block a (Some i) s))
      | M_cancelUndelegate \<Rightarrow> with_args (AB_Address A input) s (\<lambda>a.
          lift_result (cancelUndelegate U cfg ctx block a None s))
      | M_cancelUndelegateV2 \<Rightarrow>
          if \<not> cornus then Some (s, Inl ErrMethodNotSupported)
          else with_args (AB_AddressId A input) s (\<lambda>(a, i).
            lift_result (cancelUndelegate U cfg ctx block a (Some i) s))
      | M_reDelegate \<Rightarrow> with_args (AB_Redelegate A input) s (\<lambda>(from, to, amount).
          lift_result (redelegate cfg ctx block from to amount s))
      | M_claimRewards \<Rightarrow> with_args (AB_Address A input) s (\<lambda>a. lift_result (claimRewards cfg ctx block a s))
      | M_claimCommissionRewards \<Rightarrow> with_args (AB_Address A input) s (\<lambda>a.
          lift_result (claimCommissionRewards cfg ctx block a s))
      | M_setCommission \<Rightarrow> with_args (AB_SetCommission A input) s (\<lambda>(a, commission).
          lift_result (setCommission cfg ctx block a commission s))
      | M_registerValidator \<Rightarrow> with_args (AB_RegisterValidator A input) s (\<lambda>args.
          lift_result (registerValidator U K cfg ctx block args s))
      | M_setValidatorInfo \<Rightarrow> with_args (AB_SetValidatorInfo A input) s (\<lambda>(a, description, endpoint).
          lift_result (setValidatorInfo ctx a description endpoint s))
      | _ \<Rightarrow>
          if m = M_claimAllRewards \<or> m = M_claimAllRewards_old then
            (if IsOnAspenHardforkPartOne (Hardforks cfg) block then lift_result (claimAllRewards cfg ctx block s)
             else with_args (AB_Batch A m input) s (\<lambda>batch. do {
               (end, s1, err) \<leftarrow> claimAllRewardsPreAspenHF cfg ctx block batch s;
               Some (s1, case err of Some e \<Rightarrow> Inl e | None \<Rightarrow> Inr (Out_bool end)) }))
          else run_query A cfg delayedStorage m input s)"

definition Run :: "abi_ops \<Rightarrow> uint256_ops \<Rightarrow> crypto_ops \<Rightarrow> ChainConfig \<Rightarrow> Reader \<Rightarrow> CallFrame \<Rightarrow> nat \<Rightarrow> bytes
    \<Rightarrow> dpos \<Rightarrow> run_result" where
  "Run A U K cfg delayedStorage ctx depth input s =
     (if length input < 4 then Some (s, Inl ErrAbi)
      else if FixRedelegateBlockNum (Hardforks cfg) > w_block s \<and> depth \<noteq> 0
      then Some (s, Inl ErrCallIsNotToplevel)
      else do {
        s1 \<leftarrow> lazy_init U cfg s;
        case find_method A cfg input (w_block s1) of
          Inl TransferInto \<Rightarrow> Some (s1, Inr Out_none)
        | Inl UnknownMethod \<Rightarrow> Some (s1, Inl ErrAbi)
        | Inr m \<Rightarrow>
            if IsOnCornusHardfork (Hardforks cfg) (w_block s1) \<and> Value ctx > 0 \<and> \<not> isPayableMethod m
            then Some (s1, Inl ErrNonPayableMethod)
            else run_method A U K cfg delayedStorage ctx m (drop 4 input) s1
      })"

end
