(* ===== verification/Dpos_Frame.thy ===== *)
theory Dpos_Frame
  imports Dpos_Dispatch Dpos_Booking
begin

section \<open>What the operations leave alone\<close>

text \<open>
  No operation raises a commission above \<open>MaxCommission\<close> or forgets that the contract is initialised. The
  proofs follow the code: a result is looked at through \<open>ensures\<close>, with one rule for each building block.
\<close>

definition commissions_ok :: "dpos \<Rightarrow> bool" where
  "commissions_ok s \<longleftrightarrow> (\<forall>a v. GetValidator s a = Some v \<longrightarrow> uint (v_Commission v) \<le> 10000)"

definition commissions_kept :: "dpos \<Rightarrow> dpos \<Rightarrow> bool" where
  "commissions_kept s s' \<longleftrightarrow> c_lazy_init_done s' = c_lazy_init_done s \<and> (commissions_ok s \<longrightarrow> commissions_ok s')"

lemma commissions_ok_iff:
  "commissions_ok s \<longleftrightarrow> (\<forall>a x. s_validator s a = Some x \<longrightarrow> uint (v_Commission (decode_validator x)) \<le> 10000)"
  by (auto simp: commissions_ok_def GetValidator_def)

lemma commissions_kept_refl [simp]: "commissions_kept s s"
  by (simp add: commissions_kept_def)

lemma commissions_kept_trans: "commissions_kept s s1 \<Longrightarrow> commissions_kept s1 s2 \<Longrightarrow> commissions_kept s s2"
  by (simp add: commissions_kept_def)

lemma commissions_kept_upd [simp]:
  "commissions_kept s (s'\<lparr>c_amount_delegated := x\<rparr>) = commissions_kept s s'"
  "commissions_kept s (AddLog l s') = commissions_kept s s'"
  by (simp_all add: commissions_kept_def commissions_ok_iff AddLog_def)

subsection \<open>Results\<close>

definition ensures :: "('a \<Rightarrow> bool) \<Rightarrow> 'a option \<Rightarrow> bool" where
  "ensures Q m \<longleftrightarrow> (\<forall>x. m = Some x \<longrightarrow> Q x)"

named_theorems frame_rules \<open>what the building blocks ensure\<close>

lemma ensures_flow [frame_rules]:
  "ensures (\<lambda>x. ensures Q (f x)) m \<Longrightarrow> ensures Q (m \<bind> f)"
  "Q x \<Longrightarrow> ensures Q (Some x)"
  "(c \<Longrightarrow> ensures Q m1) \<Longrightarrow> (\<not> c \<Longrightarrow> ensures Q m2) \<Longrightarrow> ensures Q (if c then m1 else m2)"
  "(o1 = None \<Longrightarrow> ensures Q m1) \<Longrightarrow> (\<And>y. o1 = Some y \<Longrightarrow> ensures Q (g y)) \<Longrightarrow>
    ensures Q (case o1 of None \<Rightarrow> m1 | Some y \<Rightarrow> g y)"
  by (auto simp: ensures_def bind_Some_iff split: option.splits)

lemma ensures_pure [frame_rules]:
  "(\<And>x. P x) \<Longrightarrow> ensures P (voteCount t cfg b)"
  "(\<And>x. R x) \<Longrightarrow> ensures R (GetValidatorRewards s a)"
  "(c \<Longrightarrow> T ()) \<Longrightarrow> ensures T (holds c)"
  "(\<And>x. S x) \<Longrightarrow> ensures S (calculateDelegatorReward cfg i j)"
  "(\<And>x. S x) \<Longrightarrow> ensures S (calculateRewardPer1Stake cfg i j)"
  "(\<And>u. V u) \<Longrightarrow> ensures V (GetUndelegationBaseObject s d a k)"
  "(\<And>r. W (f r)) \<Longrightarrow> ensures W (map_option f (GetValidatorRewards s a))"
  by (auto simp: ensures_def)

lemma ensures_block:
  assumes "\<And>s'. m = Some s' \<Longrightarrow> commissions_kept s s'" and "commissions_kept s0 s"
    and "\<And>s'. commissions_kept s0 s' \<Longrightarrow> Q s'"
  shows "ensures Q m"
  unfolding ensures_def using assms(3) commissions_kept_trans [OF assms(2) assms(1)] by blast

lemma ensures_block_pair:
  assumes "\<And>x s'. m = Some (x, s') \<Longrightarrow> commissions_kept s s'" and "commissions_kept s0 s"
    and "\<And>x s'. commissions_kept s0 s' \<Longrightarrow> Q (x, s')"
  shows "ensures Q m"
  using assms unfolding ensures_def by (metis commissions_kept_trans surj_pair)

subsection \<open>The building blocks\<close>

lemma frame_blocks:
  "state_put a b st s = Some s' \<Longrightarrow> commissions_kept s s'"
  "state_get_and_decrement a b s = Some (x, s') \<Longrightarrow> commissions_kept s s'"
  "transferContractBalance ctx y s = Some s' \<Longrightarrow> commissions_kept s s'"
  "update_votes m n s = Some s' \<Longrightarrow> commissions_kept s s'"
  "ModifyValidatorRewards a r s = Some s' \<Longrightarrow> commissions_kept s s'"
  "ModifyValidatorInfo a i s = Some s' \<Longrightarrow> commissions_kept s s'"
  "ModifyDelegation d a del s = Some s' \<Longrightarrow> commissions_kept s s'"
  "CreateDelegation d a b z s = Some s' \<Longrightarrow> commissions_kept s s'"
  "RemoveDelegation d a s = Some s' \<Longrightarrow> commissions_kept s s'"
  "RemoveUndelegation d a j s = Some s' \<Longrightarrow> commissions_kept s s'"
proof -
  show "state_put a b st s = Some s' \<Longrightarrow> commissions_kept s s'"
    by (auto simp: commissions_kept_def commissions_ok_iff state_put_def)
  show "state_get_and_decrement a b s = Some (x, s') \<Longrightarrow> commissions_kept s s'"
    by (auto simp: commissions_kept_def commissions_ok_iff state_get_and_decrement_def state_put_def bind_Some_iff Let_def)
  show "transferContractBalance ctx y s = Some s' \<Longrightarrow> commissions_kept s s'"
    by (auto simp: commissions_kept_def commissions_ok_iff transferContractBalance_def Let_def)
  show "update_votes m n s = Some s' \<Longrightarrow> commissions_kept s s'"
    by (auto simp: commissions_kept_def commissions_ok_iff update_votes_def bind_Some_iff split: if_splits)
  show "ModifyValidatorRewards a r s = Some s' \<Longrightarrow> commissions_kept s s'"
    "ModifyValidatorInfo a i s = Some s' \<Longrightarrow> commissions_kept s s'"
    by (auto simp: commissions_kept_def commissions_ok_iff ModifyValidatorRewards_def SaveValidatorRewards_def
        ModifyValidatorInfo_def SaveValidatorInfo_def)
  show "ModifyDelegation d a del s = Some s' \<Longrightarrow> commissions_kept s s'"
    "CreateDelegation d a b z s = Some s' \<Longrightarrow> commissions_kept s s'"
    "RemoveDelegation d a s = Some s' \<Longrightarrow> commissions_kept s s'"
    by (auto simp: commissions_kept_def commissions_ok_iff ModifyDelegation_def SaveDelegation_def CreateDelegation_def
        RemoveDelegation_def bind_Some_iff)
  show "RemoveUndelegation d a j s = Some s' \<Longrightarrow> commissions_kept s s'"
    by (cases j) (auto simp: commissions_kept_def commissions_ok_iff RemoveUndelegation_def removeUndelegationV1_def
        removeUndelegationV2_def bind_Some_iff Let_def split: if_splits)
qed

lemma frame_blocks_create:
  "CreateUndelegationV1 d a b x s = Some s' \<Longrightarrow> commissions_kept s s'"
  "CreateUndelegationV2 d a b x s = Some (i, s') \<Longrightarrow> commissions_kept s s'"
  "DeleteValidator a s = Some s' \<Longrightarrow> commissions_kept s s'"
  by (auto simp: CreateUndelegationV1_def CreateUndelegationV2_def DeleteValidator_def genUniqueId_def
      commissions_kept_def commissions_ok_iff bind_Some_iff Let_def split: if_splits)

lemma ensures_blocks [frame_rules]:
  assumes kept: "commissions_kept s0 s" and Q: "\<And>s'. commissions_kept s0 s' \<Longrightarrow> Q s'"
  shows "ensures Q (state_put a b st s)"
    "ensures Q (transferContractBalance ctx y s)"
    "ensures Q (update_votes m n s)"
    "ensures Q (ModifyValidatorRewards a r s)"
    "ensures Q (ModifyValidatorInfo a i s)"
    "ensures Q (ModifyDelegation d a del s)"
    "ensures Q (CreateDelegation d a b z s)"
    "ensures Q (RemoveDelegation d a s)"
    "ensures Q (RemoveUndelegation d a j s)"
    "ensures Q (CreateUndelegationV1 d a b z s)"
    "ensures Q (DeleteValidator a s)"
  by (rule ensures_block [OF _ kept Q], erule frame_blocks frame_blocks_create, assumption)+

lemma ensures_decrement [frame_rules]:
  assumes kept: "commissions_kept s0 s" and Q: "\<And>x s'. commissions_kept s0 s' \<Longrightarrow> Q (x, s')"
  shows "ensures Q (state_get_and_decrement a b s)"
  by (rule ensures_block_pair [of _ s s0 Q, OF _ kept Q], erule frame_blocks, assumption)

lemma ensures_create_v2 [frame_rules]:
  assumes kept: "commissions_kept s0 s" and Q: "\<And>x s'. commissions_kept s0 s' \<Longrightarrow> Q (x, s')"
  shows "ensures Q (CreateUndelegationV2 d a b z s)"
  by (rule ensures_block_pair [of _ s s0 Q, OF _ kept Q], erule frame_blocks_create, assumption)

lemma ensures_ModifyValidator [frame_rules]:
  assumes "commissions_kept s0 s" and "commissions_ok s0 \<Longrightarrow> uint (v_Commission v) \<le> 10000"
    and "\<And>s'. commissions_kept s0 s' \<Longrightarrow> Q s'"
  shows "ensures Q (ModifyValidator ext a v s)"
proof -
  have "commissions_kept s0 s'" if "ModifyValidator ext a v s = Some s'" for s'
    using that assms(1,2)
    by (auto simp: ModifyValidator_def SaveValidator_def commissions_kept_def commissions_ok_iff
        ValidatorV1.truncate_def split: if_splits)
  then show ?thesis using assms(3) by (simp add: ensures_def)
qed

lemma ensures_settle [frame_rules]:
  assumes "commissions_kept s0 s"
    and "\<And>state v1 r1 s'. commissions_kept s0 s' \<Longrightarrow> v_Commission v1 = v_Commission v \<Longrightarrow> Q (state, v1, r1, s')"
  shows "ensures Q (settle cfg b a v r s)"
proof -
  have "\<exists>state v1 r1 s'. p = (state, v1, r1, s') \<and> commissions_kept s s' \<and> v_Commission v1 = v_Commission v"
    if "settle cfg b a v r s = Some p" for p
    using that by (auto simp: settle_def bind_Some_iff dest!: frame_blocks(2) split: option.splits)
  then show ?thesis using assms unfolding ensures_def by (metis commissions_kept_trans)
qed

lemma kept_commission: "GetValidator s a = Some v \<Longrightarrow> commissions_ok s \<Longrightarrow> uint (v_Commission v) \<le> 10000"
  by (simp add: commissions_ok_def)

lemma later_commission:
  "GetValidator s' a = Some v \<Longrightarrow> commissions_kept s s' \<Longrightarrow> commissions_ok s \<Longrightarrow> uint (v_Commission v) \<le> 10000"
  by (simp add: commissions_ok_def commissions_kept_def)

subsection \<open>The operations\<close>

lemma ensures_claim_delegator [frame_rules]:
  assumes "commissions_kept s0 s" and "\<And>s'. commissions_kept s0 s' \<Longrightarrow> Q s'"
  shows "ensures Q (claim_delegator cfg ctx a state del s)"
  unfolding claim_delegator_def Let_def
  by (auto intro!: frame_rules assms)


lemma ensures_update_values [frame_rules]:
  assumes "commissions_kept s0 s"
    and "\<And>v1 s'. commissions_kept s0 s' \<Longrightarrow> v_Commission v1 = v_Commission v \<Longrightarrow> Q (v1, s')"
  shows "ensures Q (delegate_update_values U cfg ctx v n s)"
  unfolding delegate_update_values_def Let_def
  by (auto intro!: frame_rules assms)

lemma ensures_create_undelegation [frame_rules]:
  assumes "commissions_kept s0 s" and "\<And>i s'. commissions_kept s0 s' \<Longrightarrow> Q (i, s')"
  shows "ensures Q (create_undelegation cfg ctx b a x v2 s)"
  unfolding create_undelegation_def Let_def
  by (auto intro!: frame_rules assms)

definition kept_result :: "dpos \<Rightarrow> dpos_result \<Rightarrow> bool" where
  "kept_result s r \<longleftrightarrow> ensures (\<lambda>(s', err). commissions_kept s s') r"

lemma delegate_frame: "kept_result s (delegate U cfg ctx b a s)"
  unfolding kept_result_def delegate_def Let_def
  by (auto intro!: frame_rules dest: kept_commission)

lemma undelegate_frame: "ensures (\<lambda>(s', x). commissions_kept s s') (undelegate U cfg ctx b a x v2 s)"
  unfolding undelegate_def Let_def
  by (auto intro!: frame_rules dest: kept_commission)

lemma confirmUndelegate_frame: "kept_result s (confirmUndelegate cfg ctx b a i s)"
  unfolding kept_result_def confirmUndelegate_def confirm_update_validator_def Let_def
  by (auto intro!: frame_rules dest: later_commission split: if_splits)

lemma cancelUndelegate_frame: "kept_result s (cancelUndelegate U cfg ctx b a i s)"
  unfolding kept_result_def cancelUndelegate_def Let_def
  by (auto intro!: frame_rules dest: kept_commission)

lemma claimRewards_frame: "kept_result s (claimRewards cfg ctx b a s)"
  unfolding kept_result_def claimRewards_def Let_def
  by (auto intro!: frame_rules dest: kept_commission split: option.split)

lemma claimCommissionRewards_frame: "kept_result s (claimCommissionRewards cfg ctx b a s)"
  unfolding kept_result_def claimCommissionRewards_def Let_def
  by (auto intro!: frame_rules dest: kept_commission)

lemma setValidatorInfo_frame: "kept_result s (setValidatorInfo ctx a d e s)"
  unfolding kept_result_def setValidatorInfo_def Let_def
  by (auto intro!: frame_rules dest: kept_commission)

lemma setCommission_frame: "kept_result s (setCommission cfg ctx b a c s)"
  unfolding kept_result_def setCommission_def Let_def
  by (auto intro!: frame_rules simp: MaxCommission_def word_less_def uint_up_ucast is_up)


lemma ensures_redelegate_halves [frame_rules]:
  assumes "commissions_kept s0 s" and "commissions_ok s0 \<Longrightarrow> uint (v_Commission v) \<le> 10000"
    and "\<And>s'. commissions_kept s0 s' \<Longrightarrow> Q s'"
  shows "ensures Q (redelegate_from cfg ctx b a x v del s)" "ensures Q (redelegate_to cfg ctx b a x v r s)"
  unfolding redelegate_from_def redelegate_to_def Let_def
  by (auto intro!: frame_rules assms)

lemma redelegate_frame: "kept_result s (redelegate cfg ctx b from to x s)"
  unfolding kept_result_def redelegate_def Let_def
  by (auto intro!: frame_rules dest: kept_commission)

lemma claim_all_frame: "kept_result s (claim_all cfg ctx b as s)"
proof (induction as arbitrary: s)
  case Nil
  then show ?case by (simp add: kept_result_def ensures_def)
next
  case (Cons a as)
  have "ensures (\<lambda>(s', err). commissions_kept s s') (claim_all cfg ctx b as s1)" if "commissions_kept s s1" for s1
    using Cons [of s1] that commissions_kept_trans [OF that] by (fastforce simp: kept_result_def ensures_def)
  then show ?case
    using claimRewards_frame [of s cfg ctx b a]
    by (fastforce simp: kept_result_def ensures_def bind_Some_iff split: option.splits)
qed

lemma ensures_CreateValidator [frame_rules]:
  assumes "commissions_kept s0 s" and "uint c \<le> 10000"
    and "\<And>v s'. commissions_kept s0 s' \<Longrightarrow> v_Commission v = c \<Longrightarrow> Q (v, s')"
  shows "ensures Q (CreateValidator ext owner a vrf b c d e s)"
proof -
  have "commissions_kept s0 s' \<and> v_Commission v = c" if "CreateValidator ext owner a vrf b c d e s = Some (v, s')" for v s'
    using that assms(1,2)
    by (auto simp: CreateValidator_def SaveValidator_def SaveValidatorInfo_def SaveValidatorRewards_def Let_def
        bind_Some_iff commissions_kept_def commissions_ok_iff ValidatorV1.truncate_def split: if_splits)
  then show ?thesis using assms(3) by (auto simp: ensures_def)
qed

lemma commission_checked: "\<not> MaxCommission < ucast c \<longleftrightarrow> uint (c :: u16) \<le> 10000"
  by (auto simp: MaxCommission_def word_less_def uint_up_ucast is_up)

lemma registerValidator_frame:
  "kept_result s (registerValidatorWithoutChecks U cfg ctx b args s)"
  "kept_result s (registerValidator U K cfg ctx b args s)"
proof -
  show "kept_result s (registerValidatorWithoutChecks U cfg ctx b args s)"
    unfolding kept_result_def registerValidatorWithoutChecks_def Let_def
    by (auto intro!: frame_rules simp: commission_checked)
  then show "kept_result s (registerValidator U K cfg ctx b args s)"
    by (auto simp: registerValidator_def kept_result_def ensures_def split: option.splits)
qed

subsection \<open>A call\<close>

definition kept_run :: "dpos \<Rightarrow> run_result \<Rightarrow> bool" where
  "kept_run s r \<longleftrightarrow> ensures (\<lambda>(s', x). commissions_kept s s') r"

lemma kept_run_rules:
  "kept_result s r \<Longrightarrow> kept_run s (lift_result r)"
  "(\<And>x. kept_run s (f x)) \<Longrightarrow> kept_run s (with_args args s f)"
  "kept_run s (Some (s, y))"
  "kept_run s (q \<bind> (\<lambda>x. Some (s, g x)))"
  by (auto simp: kept_run_def kept_result_def ensures_def lift_result_def with_args_def bind_Some_iff split: option.splits)

lemma undelegate_run:
  assumes "ensures (\<lambda>(s', x). commissions_kept s s') r"
  shows "kept_run s (map_option (\<lambda>(s1, x). (s1, h x)) r)"
  using assms by (auto simp: kept_run_def ensures_def)

lemma run_query_frame: "kept_run s (run_query A cfg rd m input s)"
  by (cases m) (auto simp: run_query_def Let_def intro!: kept_run_rules)

lemma run_method_frame: "kept_run s (run_method A U K cfg rd ctx m input s)"
proof -
  have batch: "kept_run s (claimAllRewardsPreAspenHF cfg ctx (w_block s) b s \<bind> (\<lambda>(e, s1, err).
      Some (s1, case err of Some x \<Rightarrow> Inl x | None \<Rightarrow> Inr (Out_bool e))))" for b
    using claim_all_frame [of s cfg ctx "w_block s"]
    by (auto simp: kept_run_def kept_result_def ensures_def claimAllRewardsPreAspenHF_def bind_Some_iff split: prod.splits)
  have all: "kept_result s (claimAllRewards cfg ctx (w_block s) s)"
    unfolding claimAllRewards_def by (rule claim_all_frame)
  show ?thesis
    by (cases m)
      (auto simp: run_method_def Let_def intro!: kept_run_rules undelegate_run delegate_frame undelegate_frame
        confirmUndelegate_frame cancelUndelegate_frame redelegate_frame claimRewards_frame claimCommissionRewards_frame
        setCommission_frame setValidatorInfo_frame registerValidator_frame batch all run_query_frame)
qed

lemma Run_frame:
  assumes "c_lazy_init_done s"
  shows "kept_run s (Run A U K cfg rd ctx depth input s)"
  using assms run_method_frame
  by (auto simp: Run_def lazy_init_def kept_run_rules split: sum.splits no_method.splits)

end
