(* ===== verification/Dpos_Reward_Facts.thy ===== *)
theory Dpos_Reward_Facts
  imports Dpos_Redelegate Dpos_Frame "HOL-Library.Multiset"
begin

section \<open>The distribution of block rewards\<close>

text \<open>
  Three facts about \<open>DistributeRewards\<close>: its result does not depend on the order in which Go
  enumerates the map of statistics; it keeps the invariant, and the balance it adds covers what it
  promises; with consistent statistics it mints at most the block reward.
\<close>

subsection \<open>Order of the statistics\<close>

lemma fold_opt_step: "fold_opt f (x # xs) = (\<lambda>s. f x s \<bind> fold_opt f xs)"
  by (simp add: fun_eq_iff)

lemma fold_opt_front:
  assumes "\<And>x s. x \<in> set xs \<Longrightarrow> f x s \<bind> f y = f y s \<bind> f x"
  shows "fold_opt f (xs @ y # ys) s = fold_opt f (y # xs @ ys) s"
  using assms
proof (induction xs arbitrary: s)
  case Nil
  then show ?case by simp
next
  case (Cons x xs)
  have "fold_opt f ((x # xs) @ y # ys) s = f x s \<bind> (\<lambda>s'. f y s' \<bind> fold_opt f (xs @ ys))"
    using Cons by (simp cong: Option.bind_cong)
  also have "\<dots> = (f y s \<bind> f x) \<bind> fold_opt f (xs @ ys)"
    using Cons.prems [of x s] by (metis Option.bind_assoc list.set_intros(1))
  finally show ?case by (simp add: fold_opt_step)
qed

lemma fold_opt_permute:
  assumes "mset xs = mset ys" and "\<And>x y s. x \<in> set xs \<Longrightarrow> y \<in> set xs \<Longrightarrow> f x s \<bind> f y = f y s \<bind> f x"
  shows "fold_opt f xs s = fold_opt f ys s"
  using assms
proof (induction xs arbitrary: ys s)
  case Nil
  then show ?case by simp
next
  case (Cons x xs)
  have "x \<in> set ys" using Cons.prems(1) by (metis list.set_intros(1) set_mset_mset)
  then obtain us vs where ys: "ys = us @ x # vs" by (auto simp: in_set_conv_decomp)
  have m: "mset xs = mset (us @ vs)" using Cons.prems(1) ys by simp
  then have sub: "set us \<subseteq> set xs" by (metis Un_upper1 set_append set_mset_mset)
  have "fold_opt f ys s = fold_opt f (x # us @ vs) s"
    unfolding ys by (rule fold_opt_front) (use Cons.prems(2) sub in auto)
  also have "\<dots> = fold_opt f (x # xs) s"
    using Cons.IH [OF m] Cons.prems(2) by (simp cong: Option.bind_cong)
  finally show ?case by simp
qed

text \<open>What one turn of the loop does.\<close>

definition fees_of :: "ValidatorStats \<Rightarrow> int" where
  "fees_of st = (case vs_FeesRewards st of None \<Rightarrow> 0 | Some f \<Rightarrow> if f > 0 then f else 0)"

definition earned :: "int \<Rightarrow> int \<Rightarrow> ValidatorRewards \<Rightarrow> ValidatorRewards" where
  "earned commission reward r =
     r\<lparr>vr_CommissionRewardsPool := vr_CommissionRewardsPool r + commission, vr_RewardsPool := vr_RewardsPool r + reward\<rparr>"

definition can_earn :: "dpos \<Rightarrow> address \<Rightarrow> int \<Rightarrow> int \<Rightarrow> bool" where
  "can_earn s a commission reward \<longleftrightarrow> a \<in> set (s_validators_list s) \<and>
     (\<exists>r. s_validator_rewards s a = Some r \<and> 0 \<le> vr_RewardsPool r + reward \<and> 0 \<le> vr_CommissionRewardsPool r + commission)"

lemma AddValidatorRewards_eq:
  "AddValidatorRewards a c x s =
     (if can_earn s a c x
      then Some (s\<lparr>s_validator_rewards := (s_validator_rewards s)(a := map_option (earned c x) (s_validator_rewards s a))\<rparr>)
      else None)"
  by (cases "s_validator_rewards s a")
    (simp_all add: AddValidatorRewards_def ModifyValidatorRewards_def SaveValidatorRewards_def ValidatorExists_def
      GetValidatorRewards_def can_earn_def earned_def holds_def)

lemma reward_validator_eq:
  assumes "uint256_spec U"
  shows "reward_validator U rs dag vrew (a, st) (m, t, s) =
    (case GetValidator s a of
       None \<Rightarrow> Some (m, t, s)
     | Some v \<Rightarrow>
         let x = validator_reward U rs dag vrew st; c = commission_part U v x;
             commission = uint (c + word_of_int (fees_of st)); reward = uint (x - c) in
         if can_earn s a commission reward
         then Some (m + x, t + x,
           s\<lparr>s_validator_rewards := (s_validator_rewards s)(a := map_option (earned commission reward) (s_validator_rewards s a)),
             w_balance := (w_balance s)(dpos_contract_address := w_balance s dpos_contract_address + fees_of st)\<rparr>)
         else None)"
proof (cases "GetValidator s a")
  case None
  then show ?thesis by (simp add: reward_validator_def)
next
  case (Some v)
  have frame: "can_earn (s\<lparr>w_balance := w\<rparr>) a c x = can_earn s a c x" for w c x by (simp add: can_earn_def)
  consider "vs_FeesRewards st = None" | f where "vs_FeesRewards st = Some f" "0 < f"
    | f where "vs_FeesRewards st = Some f" "\<not> 0 < f" by fastforce
  then show ?thesis
    by cases (simp_all add: Some reward_validator_def uint256_specD [OF assms] AddValidatorRewards_eq fees_of_def
        AddBalance_def frame Let_def)
qed

lemma reward_validator_commute:
  assumes U: "uint256_spec U" and ne: "fst e1 \<noteq> fst e2 \<or> e1 = e2"
  shows "reward_validator U rs dag vrew e1 acc \<bind> reward_validator U rs dag vrew e2 =
    reward_validator U rs dag vrew e2 acc \<bind> reward_validator U rs dag vrew e1"
proof (cases "e1 = e2")
  case True
  then show ?thesis by simp
next
  case False
  obtain a x b y m t s where e: "e1 = (a, x)" "e2 = (b, y)" "acc = (m, t, s)" by (metis surj_pair)
  have ab: "a \<noteq> b" using ne False e by simp
  have frame: "GetValidator (s\<lparr>s_validator_rewards := r, w_balance := w\<rparr>) c = GetValidator s c" for r w c
    by (simp add: GetValidator_def)
  have earn: "can_earn (s\<lparr>s_validator_rewards := (s_validator_rewards s)(c := z), w_balance := w\<rparr>) c' i j = can_earn s c' i j"
    if "c \<noteq> c'" for c c' z w i j using that by (simp add: can_earn_def)
  show ?thesis
    unfolding e
    using ab ab [symmetric]
    by (cases "GetValidator s a"; cases "GetValidator s b")
      (simp_all add: reward_validator_eq [OF U] frame earn Let_def fun_upd_twist [OF ab] add_ac)
qed

lemma DistributeRewards_order:
  assumes U: "uint256_spec U" and perm: "mset (rs_ValidatorsStats rs) = mset stats"
    and keys: "distinct (map fst (rs_ValidatorsStats rs))"
  shows "DistributeRewards U cfg (rs\<lparr>rs_ValidatorsStats := stats\<rparr>) s = DistributeRewards U cfg rs s"
proof -
  have split: "reward_split U cfg (rs\<lparr>rs_ValidatorsStats := stats\<rparr>) = reward_split U cfg rs"
    by (simp add: reward_split_def fun_eq_iff Let_def)
  have "validator_reward U (rs\<lparr>rs_ValidatorsStats := stats\<rparr>) = validator_reward U rs"
    by (simp add: validator_reward_def fun_eq_iff)
  then have turn: "reward_validator U (rs\<lparr>rs_ValidatorsStats := stats\<rparr>) = reward_validator U rs"
    by (simp add: reward_validator_def fun_eq_iff)
  have com: "fst x \<noteq> fst y \<or> x = y" if "x \<in> set (rs_ValidatorsStats rs)" "y \<in> set (rs_ValidatorsStats rs)" for x y
    using that keys by (metis distinct_map inj_on_eq_iff)
  have "fold_opt (reward_validator U rs d v) stats acc = fold_opt (reward_validator U rs d v) (rs_ValidatorsStats rs) acc"
    for d v acc
    by (rule fold_opt_permute [OF perm [symmetric]])
      (use com perm in \<open>metis reward_validator_commute [OF U] set_mset_mset\<close>)
  then show ?thesis by (simp add: DistributeRewards_def split turn)
qed


subsection \<open>Shares\<close>

text \<open>\<open>c\<close> parts of \<open>T\<close> of an amount, as the code computes it: rounded down, nothing of zero parts.\<close>

definition share :: "int \<Rightarrow> int \<Rightarrow> int \<Rightarrow> int" where
  "share c D T = (if T = 0 then 0 else c * D div T)"

lemma share_bounds:
  assumes "0 \<le> c" "0 \<le> D" "0 \<le> T"
  shows "0 \<le> share c D T" and "c \<le> T \<Longrightarrow> share c D T \<le> D"
proof -
  show "0 \<le> share c D T" using assms by (simp add: share_def pos_imp_zdiv_nonneg_iff)
  assume "c \<le> T"
  then have "c * D div T \<le> T * D div T" if "0 < T" using assms that by (intro zdiv_mono1 mult_right_mono) auto
  then show "share c D T \<le> D" using assms by (simp add: share_def)
qed

lemma share_add:
  assumes "0 \<le> T"
  shows "share c D T + share c' D T \<le> share (c + c') D T"
proof (cases "T = 0")
  case True
  then show ?thesis by (simp add: share_def)
next
  case False
  then have T: "0 < T" using assms by simp
  have "(c * D div T + c' * D div T) * T \<le> c * D + c' * D"
    using div_mult_le [OF T, of "c * D"] div_mult_le [OF T, of "c' * D"] by (simp add: distrib_right)
  from zdiv_mono1 [OF this T] show ?thesis using T by (simp add: share_def distrib_right)
qed

lemma sum_share:
  assumes "0 \<le> T"
  shows "(\<Sum>x\<leftarrow>xs. share (f x) D T) \<le> share (\<Sum>x\<leftarrow>xs. f x) D T"
proof (induction xs)
  case Nil
  then show ?case by (simp add: share_def)
next
  case (Cons x xs)
  then show ?case using share_add [OF assms, of "f x" D "\<Sum>x\<leftarrow>xs. f x"] by simp
qed

lemma uint_share:
  assumes U: "uint256_spec U" and small: "uint c * uint D < 2 ^ 256"
  shows "uint (U_Div U (U_Mul U c D) T) = share (uint c) (uint D) (uint T)"
proof -
  have "uint (c * D) = uint c * uint D" using small by (simp add: uint_word_ariths)
  then show ?thesis
    by (auto simp: uint256_specD [OF U] share_def uint_div uint_0_iff)
qed


subsection \<open>One validator earns\<close>

lemma commission_part_le:
  assumes U: "uint256_spec U" and "uint (v_Commission v) \<le> 10000" and "uint x < 2 ^ 200"
  shows "uint (commission_part U v x) \<le> uint x"
    and "uint (x - commission_part U v x) = uint x - uint (commission_part U v x)"
proof -
  have c: "uint (ucast (v_Commission v) :: u256) = uint (v_Commission v)" "uint (ucast MaxCommission :: u256) = 10000"
    by (simp_all add: uint_up_ucast is_up MaxCommission_def)
  have "uint x * uint (v_Commission v) \<le> 2 ^ 200 * 10000" using assms by (intro mult_mono) auto
  then have small: "uint x * uint (ucast (v_Commission v) :: u256) < 2 ^ 256" by (simp add: c)
  have "uint (commission_part U v x) = share (uint (v_Commission v)) (uint x) 10000"
    using uint_share [OF U small, of "ucast MaxCommission"]
    by (simp add: commission_part_def c share_def mult.commute)
  then show le: "uint (commission_part U v x) \<le> uint x" using share_bounds(2) [of _ "uint x" 10000] assms(2) by simp
  show "uint (x - commission_part U v x) = uint x - uint (commission_part U v x)"
    using le by (simp add: uint_sub_if')
qed

lemma earn_ok:
  assumes L: "ledger_inv cfg s" and U: "uint256_spec U" and v: "GetValidator s a = Some v"
    and com: "uint (v_Commission v) \<le> 10000" and x: "uint x < 2 ^ 200" and f: "0 \<le> f" "f < 2 ^ 255"
    and sol: "solvent cfg e s"
  defines "c \<equiv> uint (commission_part U v x + word_of_int f)" and "y \<equiv> uint (x - commission_part U v x)"
  defines "s' \<equiv> s\<lparr>s_validator_rewards := (s_validator_rewards s)(a := map_option (earned c y) (s_validator_rewards s a))\<rparr>"
  shows "can_earn s a c y" "ledger_inv cfg s'" "total_stake s' = total_stake s" "solvent cfg (e - uint x - f) s'"
proof -
  note P = commission_part_le [OF U com x]
  have uf: "uint (word_of_int f :: u256) = f" unfolding uint_word_of_int using f by simp
  have c: "c = uint (commission_part U v x) + f"
    unfolding c_def using P(1) x f uf by (simp add: uint_word_ariths)
  have y: "y = uint x - uint (commission_part U v x)" unfolding y_def by (rule P(2))
  obtain r where r: "GetValidatorRewards s a = Some r" "0 \<le> vr_RewardsPool r" "0 \<le> vr_CommissionRewardsPool r"
    using wf_view_rewards [OF ledger_invD(5) [OF L], of a v] v by auto
  have nn: "0 \<le> c" "0 \<le> y" by (simp_all add: c_def y_def)
  have lst: "a \<in> set (s_validators_list s)" by (rule GetValidator_listed [OF ledger_invD(1) [OF L] v])
  show "can_earn s a c y" using r nn lst by (auto simp: can_earn_def GetValidatorRewards_def)
  have r': "0 \<le> vr_RewardsPool (earned c y r)" "0 \<le> vr_CommissionRewardsPool (earned c y r)"
    using r nn by (simp_all add: earned_def)
  have s': "s' = s\<lparr>s_validator_rewards := (s_validator_rewards s)(a \<mapsto> earned c y r)\<rparr>"
    using r(1) by (simp add: s'_def GetValidatorRewards_def)
  note R = rewards_result [OF L v r(1) r', folded s']
  show "ledger_inv cfg s'" "total_stake s' = total_stake s" by (rule R(1), rule R(2))
  have "e + rewards_of (Some r) - rewards_of (Some (earned c y r)) = e - uint x - f"
    unfolding c y by (simp add: rewards_of_def earned_def)
  then show "solvent cfg (e - uint x - f) s'" using R(3) [OF sol] by metis
qed

lemma balance_added:
  fixes b :: int
  assumes "ledger_inv cfg s" and "solvent cfg e s"
  defines "s' \<equiv> s\<lparr>w_balance := (w_balance s)(dpos_contract_address := w_balance s dpos_contract_address + b)\<rparr>"
  shows "ledger_inv cfg s'" "total_stake s' = total_stake s" "solvent cfg (e + b) s'"
proof -
  have v: "view s' x = view s x" for x
    by (intro view_eqI) (simp_all add: s'_def GetValidator_def GetValidatorRewards_def)
  then show "total_stake s' = total_stake s" by (simp add: total_stake_def)
  have o: "owed cfg s' = owed cfg s" using v by (simp add: owed_def undelegated_def s'_def)
  show "ledger_inv cfg s'"
    using assms(1) v unfolding ledger_inv_def
    by (simp add: s'_def validators_wf_def delegations_wf_def undelegations_v1_wf_def undelegations_v2_wf_def last_id_def
        total_votes_def)
  show "solvent cfg (e + b) s'" using assms(2) o by (simp add: solvent_def s'_def distrib_left)
qed


subsection \<open>The loop over the statistics\<close>

definition reward_of :: "RewardsStats \<Rightarrow> int \<Rightarrow> int \<Rightarrow> ValidatorStats \<Rightarrow> int" where
  "reward_of rs D V st =
     share (uint (vs_DagBlocksCount st)) D (uint (rs_TotalDagBlocksCount rs))
     + share (uint (vs_VoteWeight st)) V (uint (rs_TotalVotesWeight rs))"

definition stats_ok :: "RewardsStats \<Rightarrow> bool" where
  "stats_ok rs \<longleftrightarrow>
     (\<Sum>e\<leftarrow>rs_ValidatorsStats rs. uint (vs_DagBlocksCount (snd e))) \<le> uint (rs_TotalDagBlocksCount rs) \<and>
     (\<Sum>e\<leftarrow>rs_ValidatorsStats rs. uint (vs_VoteWeight (snd e))) \<le> uint (rs_TotalVotesWeight rs) \<and>
     uint (rs_MaxVotesWeight rs) < 2 ^ 63 \<and> uint (rs_TotalVotesWeight rs) < 2 ^ 63 \<and>
     (\<forall>e \<in> set (rs_ValidatorsStats rs). fees_of (snd e) < 2 ^ 255)"

lemma reward_of_nonneg: "0 \<le> D \<Longrightarrow> 0 \<le> V \<Longrightarrow> 0 \<le> reward_of rs D V st"
  by (simp add: reward_of_def share_bounds(1))

lemma rewards_within:
  assumes "stats_ok rs" and "0 \<le> D" "0 \<le> V"
  shows "(\<Sum>e\<leftarrow>rs_ValidatorsStats rs. reward_of rs D V (snd e)) \<le> D + V"
proof -
  let ?l = "rs_ValidatorsStats rs"
  have nn: "0 \<le> (\<Sum>e\<leftarrow>?l. uint (f (snd e)))" for f :: "ValidatorStats \<Rightarrow> 'a::len word"
    by (rule sum_list_nonneg) auto
  have "(\<Sum>e\<leftarrow>?l. share (uint (vs_DagBlocksCount (snd e))) D (uint (rs_TotalDagBlocksCount rs)))
      \<le> share (\<Sum>e\<leftarrow>?l. uint (vs_DagBlocksCount (snd e))) D (uint (rs_TotalDagBlocksCount rs))"
    by (rule sum_share) simp
  also have "\<dots> \<le> D" using assms nn by (intro share_bounds(2)) (simp_all add: stats_ok_def)
  finally have 1: "(\<Sum>e\<leftarrow>?l. share (uint (vs_DagBlocksCount (snd e))) D (uint (rs_TotalDagBlocksCount rs))) \<le> D" .
  have "(\<Sum>e\<leftarrow>?l. share (uint (vs_VoteWeight (snd e))) V (uint (rs_TotalVotesWeight rs)))
      \<le> share (\<Sum>e\<leftarrow>?l. uint (vs_VoteWeight (snd e))) V (uint (rs_TotalVotesWeight rs))"
    by (rule sum_share) simp
  also have "\<dots> \<le> V" using assms nn by (intro share_bounds(2)) (simp_all add: stats_ok_def)
  finally show ?thesis using 1 by (simp add: reward_of_def sum_list_addf)
qed

lemma uint_validator_reward:
  assumes U: "uint256_spec U" and D: "uint D < 2 ^ 150" and V: "uint V < 2 ^ 150"
  shows "uint (validator_reward U rs D V st) = reward_of rs (uint D) (uint V) st"
proof -
  have c: "uint (ucast (vs_DagBlocksCount st) :: u256) = uint (vs_DagBlocksCount st)"
    "uint (ucast (rs_TotalDagBlocksCount rs) :: u256) = uint (rs_TotalDagBlocksCount rs)"
    "uint (ucast (vs_VoteWeight st) :: u256) = uint (vs_VoteWeight st)"
    "uint (ucast (rs_TotalVotesWeight rs) :: u256) = uint (rs_TotalVotesWeight rs)"
    by (simp_all add: uint_up_ucast is_up)
  have l: "uint (vs_DagBlocksCount st) < 2 ^ 32" "uint (vs_VoteWeight st) < 2 ^ 64"
    using uint_lt2p [of "vs_DagBlocksCount st"] uint_lt2p [of "vs_VoteWeight st"] by simp_all
  have p1: "uint (vs_DagBlocksCount st) * uint D \<le> 2 ^ 32 * 2 ^ 150" by (rule mult_mono) (use l D in simp_all)
  have p2: "uint (vs_VoteWeight st) * uint V \<le> 2 ^ 64 * 2 ^ 150" by (rule mult_mono) (use l V in simp_all)
  note p = p1 p2
  have d: "uint (U_Div U (U_Mul U (ucast (vs_DagBlocksCount st)) D) (ucast (rs_TotalDagBlocksCount rs))) =
      share (uint (vs_DagBlocksCount st)) (uint D) (uint (rs_TotalDagBlocksCount rs))"
    using uint_share [OF U, of "ucast (vs_DagBlocksCount st)" D "ucast (rs_TotalDagBlocksCount rs)"] p(1) by (simp add: c)
  have v: "uint (U_Div U (U_Mul U (ucast (vs_VoteWeight st)) V) (ucast (rs_TotalVotesWeight rs))) =
      share (uint (vs_VoteWeight st)) (uint V) (uint (rs_TotalVotesWeight rs))"
    using uint_share [OF U, of "ucast (vs_VoteWeight st)" V "ucast (rs_TotalVotesWeight rs)"] p(2) by (simp add: c)
  have le: "share x y z \<le> x * y" if "0 \<le> x" "0 \<le> y" "0 \<le> z" for x y z :: int
    using that zdiv_mono2 [of "x * y" 1 z] by (simp add: share_def)
  let ?d = "U_Div U (U_Mul U (ucast (vs_DagBlocksCount st)) D) (ucast (rs_TotalDagBlocksCount rs))"
  let ?v = "U_Div U (U_Mul U (ucast (vs_VoteWeight st)) V) (ucast (rs_TotalVotesWeight rs))"
  have "uint ?d \<le> 2 ^ 32 * 2 ^ 150" "uint ?v \<le> 2 ^ 64 * 2 ^ 150"
    using le [of "uint (vs_DagBlocksCount st)" "uint D"] le [of "uint (vs_VoteWeight st)" "uint V"] p unfolding d v
    by (meson order_trans uint_ge_0)+
  then have sum: "uint (?d + ?v) = uint ?d + uint ?v" by (simp add: uint_word_ariths)
  have z: "share 0 y z = 0" for y z by (simp add: share_def)
  have pos: "0 < c \<or> uint c = 0" for c :: "'a::len word" by (cases "c = 0") (simp_all add: word_gt_0)
  show ?thesis
    using sum d v pos [of "vs_DagBlocksCount st"] pos [of "vs_VoteWeight st"]
    by (auto simp: validator_reward_def reward_of_def uint256_specD(1) [OF U] z Let_def)
qed


text \<open>What the distribution may change, and the books while it runs: \<open>t\<close> is promised and not yet paid in.\<close>

definition reward_frame :: "dpos \<Rightarrow> dpos \<Rightarrow> bool" where
  "reward_frame s s' \<longleftrightarrow> s_validator s' = s_validator s \<and> w_block s' = w_block s \<and>
     c_lazy_init_done s' = c_lazy_init_done s \<and>
     c_amount_delegated s' = c_amount_delegated s \<and> c_total_supply s' = c_total_supply s \<and>
     c_minted_tokens s' = c_minted_tokens s \<and> total_stake s' = total_stake s"

lemma reward_frame_refl: "reward_frame s s"
  by (simp add: reward_frame_def)

lemma reward_frame_trans: "reward_frame s s1 \<Longrightarrow> reward_frame s1 s2 \<Longrightarrow> reward_frame s s2"
  by (simp add: reward_frame_def)

definition promised :: "ChainConfig \<Rightarrow> int \<Rightarrow> u256 \<times> u256 \<times> dpos \<Rightarrow> bool" where
  "promised cfg B acc \<longleftrightarrow> (case acc of (m, t, s) \<Rightarrow>
     m = t \<and> uint t \<le> B \<and> ledger_inv cfg s \<and> solvent cfg (- uint t) s)"

lemma reward_validator_ok:
  assumes U: "uint256_spec U" and DV: "uint D < 2 ^ 150" "uint V < 2 ^ 150" and com: "commissions_ok s"
    and acc: "promised cfg B (m, t, s)" and fees: "fees_of st < 2 ^ 255"
    and B: "B + reward_of rs (uint D) (uint V) st < 2 ^ 200"
  shows "\<exists>m' t' s'. reward_validator U rs D V (a, st) (m, t, s) = Some (m', t', s') \<and>
    promised cfg (B + reward_of rs (uint D) (uint V) st) (m', t', s') \<and> reward_frame s s'"
proof (cases "GetValidator s a")
  case None
  then show ?thesis
    using acc reward_of_nonneg [of "uint D" "uint V" rs st]
    by (auto simp: reward_validator_eq [OF U] promised_def reward_frame_refl)
next
  case (Some v)
  let ?x = "validator_reward U rs D V st" and ?f = "fees_of st"
  have x: "uint ?x = reward_of rs (uint D) (uint V) st" by (rule uint_validator_reward [OF U DV])
  have A: "m = t" "uint t \<le> B" "ledger_inv cfg s" "solvent cfg (- uint t) s"
    using acc by (simp_all add: promised_def)
  have "uint ?x < 2 ^ 200" "uint t + uint ?x < 2 ^ 200"
    using A(2) B uint_ge_0 [of t] unfolding x by linarith+
  then have lt: "uint ?x < 2 ^ 200" "uint t + uint ?x < 2 ^ 256" by simp_all
  have f: "0 \<le> ?f" by (simp add: fees_of_def split: option.splits)
  have c: "uint (v_Commission v) \<le> 10000" using com Some by (simp add: commissions_ok_def)
  note E = earn_ok [OF A(3) U Some c lt(1) f fees A(4)]
  note K = balance_added [OF E(2,4), of ?f]
  have t: "uint (t + ?x) = uint t + uint ?x" using lt(2) by (simp add: uint_word_ariths)
  have "promised cfg (B + reward_of rs (uint D) (uint V) st) (m + ?x, t + ?x, (let c = commission_part U v ?x;
       commission = uint (c + word_of_int ?f); reward = uint (?x - c) in
     s\<lparr>s_validator_rewards := (s_validator_rewards s)(a := map_option (earned commission reward) (s_validator_rewards s a)),
       w_balance := (w_balance s)(dpos_contract_address := w_balance s dpos_contract_address + ?f)\<rparr>))"
    unfolding promised_def Let_def using K(1,3) A(1,2) t x by (simp add: algebra_simps)
  then show ?thesis
    using E(1,3) K(2) by (auto simp: reward_validator_eq [OF U] Some Let_def reward_frame_def)
qed

lemma rewards_loop_ok:
  assumes U: "uint256_spec U" and DV: "uint D < 2 ^ 150" "uint V < 2 ^ 150" and com: "commissions_ok s"
    and acc: "promised cfg B (m, t, s)" and fees: "\<And>e. e \<in> set xs \<Longrightarrow> fees_of (snd e) < 2 ^ 255"
    and B: "B + (\<Sum>e\<leftarrow>xs. reward_of rs (uint D) (uint V) (snd e)) < 2 ^ 200"
  shows "\<exists>m' t' s'. fold_opt (reward_validator U rs D V) xs (m, t, s) = Some (m', t', s') \<and>
    promised cfg (B + (\<Sum>e\<leftarrow>xs. reward_of rs (uint D) (uint V) (snd e))) (m', t', s') \<and> reward_frame s s'"
  using com acc fees B
proof (induction xs arbitrary: m t s B)
  case Nil
  then show ?case by (simp add: reward_frame_refl)
next
  case (Cons e xs)
  obtain a st where e: "e = (a, st)" by (cases e)
  let ?R = "reward_of rs (uint D) (uint V)"
  have nn: "0 \<le> (\<Sum>e\<leftarrow>xs. ?R (snd e))" by (rule sum_list_nonneg) (auto intro: reward_of_nonneg)
  have B: "B + ?R st < 2 ^ 200" using Cons.prems(4) nn e by simp
  have f: "fees_of st < 2 ^ 255" using Cons.prems(3) [of e] e by simp
  from reward_validator_ok [OF U DV Cons.prems(1,2) f B, of a]
  obtain m1 t1 s1 where s1: "reward_validator U rs D V e (m, t, s) = Some (m1, t1, s1)"
    "promised cfg (B + ?R st) (m1, t1, s1)" "reward_frame s s1" unfolding e by blast
  have com: "commissions_ok s1" using Cons.prems(1) s1(3) by (simp add: commissions_ok_def reward_frame_def GetValidator_def)
  have fs: "fees_of (snd x) < 2 ^ 255" if "x \<in> set xs" for x using Cons.prems(3) that by simp
  have B1: "B + ?R st + (\<Sum>e\<leftarrow>xs. ?R (snd e)) < 2 ^ 200" using Cons.prems(4) e by (simp add: add.assoc)
  from Cons.IH [OF com s1(2) fs B1]
  obtain m' t' s' where "fold_opt (reward_validator U rs D V) xs (m1, t1, s1) = Some (m', t', s')"
    "promised cfg (B + ?R st + (\<Sum>e\<leftarrow>xs. ?R (snd e))) (m', t', s')" "reward_frame s1 s'" by blast
  then show ?case using s1(1) reward_frame_trans [OF s1(3)] e by (auto simp: add.assoc)
qed


subsection \<open>The shares of a block\<close>

definition percentages_ok :: "ChainConfig \<Rightarrow> bool" where
  "percentages_ok cfg \<longleftrightarrow> uint (DagProposersReward (DPOS cfg)) + uint (MaxBlockAuthorReward (DPOS cfg)) \<le> 100"

lemma percentage:
  fixes p :: u16
  assumes U: "uint256_spec U" and B: "uint B < 2 ^ 150"
  shows "uint (U_Div U (U_Mul U B (ucast p)) 100) = share (uint p) (uint B) 100"
proof -
  have p: "uint (ucast p :: u256) = uint p" by (simp add: uint_up_ucast is_up)
  have "uint B * uint p \<le> 2 ^ 150 * 2 ^ 16"
    by (rule mult_mono) (use B uint_lt2p [of p] in simp_all)
  then have "uint B * uint (ucast p :: u256) < 2 ^ 256" by (simp add: p)
  from uint_share [OF U this, of 100] show ?thesis by (simp add: p share_def mult.commute)
qed

lemma uint_ucast_64: "uint (ucast (w :: u64) :: u256) = uint w"
  by (simp add: uint_up_ucast is_up)

lemma bonus_weight_le:
  fixes T M :: u64
  assumes M: "uint M < 2 ^ 63" and lt: "T < M" and T: "0 < T"
  defines "q \<equiv> M * 2 div 3 + 1"
  shows "uint (if T \<ge> q then T - q else 0) \<le> uint (M - q)"
proof -
  have M2: "uint (M * 2) = uint M * 2" using M by (simp add: uint_word_ariths)
  have d: "uint (M * 2 div 3) = uint M * 2 div 3" by (simp add: uint_div M2)
  have "0 \<le> uint M * 2 div 3 + 1" "uint M * 2 div 3 + 1 < 2 ^ 64"
    using M uint_ge_0 [of M] by (simp_all add: pos_imp_zdiv_nonneg_iff add_nonneg_pos del: uint_ge_0)
  then have q: "uint q = uint M * 2 div 3 + 1" unfolding q_def by (simp add: uint_word_ariths d)
  have t: "uint T < uint M" "0 < uint T" using lt T by (simp_all add: word_less_def)
  have le: "uint q \<le> uint M" unfolding q using t by linarith
  have "uint (M - q) = uint M - uint q" using le by (simp add: uint_sub_if')
  moreover have "uint (T - q) = uint T - uint q" if "q \<le> T" using that by (simp add: word_le_def uint_sub_if')
  ultimately show ?thesis using t le by auto
qed

lemma reward_split_bounds:
  assumes U: "uint256_spec U" and pc: "percentages_ok cfg" and B: "uint B < 2 ^ 150" and st: "stats_ok rs"
    and split: "reward_split U cfg rs B = (D, V, A)"
  shows "uint D + uint V + uint A \<le> uint B"
proof (cases "rs_TotalVotesWeight rs > 0")
  case False
  then show ?thesis using split by (simp add: reward_split_def)
next
  case True
  let ?p = "uint (DagProposersReward (DPOS cfg))" and ?q = "uint (MaxBlockAuthorReward (DPOS cfg))"
  let ?d = "U_Div U (U_Mul U B (ucast (DagProposersReward (DPOS cfg)))) 100"
  let ?b = "U_Div U (U_Mul U B (ucast (MaxBlockAuthorReward (DPOS cfg)))) 100"
  let ?T = "rs_TotalVotesWeight rs"
  let ?M = "MaxU64 (rs_MaxVotesWeight rs) ?T"
  let ?two = "?M * 2 div 3 + 1"
  let ?w = "if ?T \<ge> ?two then ?T - ?two else 0"
  have d: "uint ?d = share ?p (uint B) 100" and b: "uint ?b = share ?q (uint B) 100"
    by (rule percentage [OF U B])+
  have pq: "?p + ?q \<le> 100" using pc by (simp add: percentages_ok_def)
  have "share (?p + ?q) (uint B) 100 \<le> uint B" using pq by (intro share_bounds(2)) simp_all
  then have sum: "uint ?d + uint ?b \<le> uint B" using share_add [of 100 ?p "uint B" ?q] unfolding d b by linarith
  have sub: "uint (B - ?d) = uint B - uint ?d" using sum uint_ge_0 [of ?b]
    by (subst uint_sub_if', subst if_P) linarith+
  have V: "uint (B - ?d - ?b) = uint B - uint ?d - uint ?b" using sum sub by (subst uint_sub_if') simp
  have A: "uint (if ?M = ?T then ?b else U_Div U (U_Mul U ?b (ucast ?w)) (ucast (?M - ?two))) \<le> uint ?b"
  proof (cases "?M = ?T")
    case ne: False
    then have lt: "?T < ?M" by (auto simp: MaxU64_def split: if_splits)
    have M: "uint ?M < 2 ^ 63" using st by (simp add: stats_ok_def MaxU64_def)
    have c: "uint (ucast ?w :: u256) = uint ?w" "uint (ucast (?M - ?two) :: u256) = uint (?M - ?two)"
      by (rule uint_ucast_64)+
    have bb: "uint ?b \<le> 2 ^ 150" using sum B uint_ge_0 [of ?d] by linarith
    have "uint ?b * uint ?w \<le> 2 ^ 150 * 2 ^ 64"
      by (rule mult_mono [OF bb]) (use uint_lt2p [of ?w] in simp_all)
    then have "uint ?b * uint (ucast ?w :: u256) < 2 ^ 256" unfolding c by simp
    from uint_share [OF U this, of "ucast (?M - ?two)"]
    have "uint (U_Div U (U_Mul U ?b (ucast ?w)) (ucast (?M - ?two))) = share (uint ?w) (uint ?b) (uint (?M - ?two))"
      unfolding c by (simp add: share_def mult.commute)
    also have "\<dots> \<le> uint ?b"
      by (rule share_bounds(2)) (use bonus_weight_le [OF M lt True] in simp_all)
    finally show ?thesis using ne by simp
  qed simp
  have "reward_split U cfg rs B =
      (?d, B - ?d - ?b, if ?M = ?T then ?b else U_Div U (U_Mul U ?b (ucast ?w)) (ucast (?M - ?two)))"
    unfolding reward_split_def Let_def uint256_specD(2) [OF U] using True by (rule if_P)
  from trans [OF split [symmetric] this] have "D = ?d" "V = B - ?d - ?b"
    "A = (if ?M = ?T then ?b else U_Div U (U_Mul U ?b (ucast ?w)) (ucast (?M - ?two)))"
    by (simp_all only: prod.inject)
  then show ?thesis using V A by simp
qed


subsection \<open>The whole distribution\<close>

lemma reward_author_ok:
  assumes U: "uint256_spec U" and com: "commissions_ok s" and A: "uint A < 2 ^ 200"
    and L: "ledger_inv cfg s" and sol: "solvent cfg 0 s"
  shows "\<exists>m t s'. reward_author U a A (0, 0, s) = Some (m, t, s') \<and>
    promised cfg (uint A) (m, t, s') \<and> reward_frame s s'"
proof (cases "A > 0 \<and> GetValidator s a \<noteq> None")
  case False
  then show ?thesis
    using L sol by (auto simp: reward_author_def promised_def reward_frame_refl split: option.splits)
next
  case True
  then obtain v where v: "GetValidator s a = Some v" by blast
  have c: "uint (v_Commission v) \<le> 10000" using com v by (simp add: commissions_ok_def)
  have z: "(0::int) < 2 ^ 255" by simp
  note E = earn_ok [OF L U v c A order_refl z sol]
  show ?thesis
    using True E
    by (auto simp: reward_author_def v uint256_specD [OF U] AddValidatorRewards_eq promised_def reward_frame_def Let_def)
qed

text \<open>The values about supply and yield are none of the ledger's.\<close>

definition supply_only :: "dpos \<Rightarrow> dpos \<Rightarrow> bool" where
  "supply_only s s' \<longleftrightarrow> (\<exists>a b c d e. s' = s\<lparr>s_minted_tokens := a, s_total_supply := b, s_yield := c,
     c_minted_tokens := d, c_total_supply := e\<rparr>)"

lemma supply_only_ledger:
  assumes "supply_only s s'"
  shows "ledger_inv cfg s' = ledger_inv cfg s" "total_stake s' = total_stake s" "solvent cfg e s' = solvent cfg e s"
    "w_block s' = w_block s" "c_amount_delegated s' = c_amount_delegated s" "s_validator s' = s_validator s"
    "c_lazy_init_done s' = c_lazy_init_done s"
proof -
  obtain a b c d e where s': "s' = s\<lparr>s_minted_tokens := a, s_total_supply := b, s_yield := c,
     c_minted_tokens := d, c_total_supply := e\<rparr>" using assms unfolding supply_only_def by blast
  have v: "view s' x = view s x" for x
    by (intro view_eqI) (simp_all add: s' GetValidator_def GetValidatorRewards_def)
  have u: "undelegated s' = undelegated s" by (simp add: s' undelegated_def)
  show "total_stake s' = total_stake s" using v by (simp add: total_stake_def)
  show "solvent cfg e s' = solvent cfg e s" for e using v u by (simp add: solvent_def owed_def) (simp add: s')
  show "ledger_inv cfg s' = ledger_inv cfg s"
    using v unfolding ledger_inv_def total_votes_def
    by (simp, simp add: s' validators_wf_def delegations_wf_def undelegations_v1_wf_def undelegations_v2_wf_def last_id_def)
  show "w_block s' = w_block s" "c_amount_delegated s' = c_amount_delegated s" "s_validator s' = s_validator s"
    "c_lazy_init_done s' = c_lazy_init_done s"
    by (simp_all add: s')
qed

lemma supply_onlyI: "supply_only s (s\<lparr>s_minted_tokens := a, s_total_supply := b, s_yield := c,
     c_minted_tokens := d, c_total_supply := e\<rparr>)"
  unfolding supply_only_def by blast

lemma supply_only_cong:
  assumes "s' = s\<lparr>s_minted_tokens := s_minted_tokens s', s_total_supply := s_total_supply s', s_yield := s_yield s',
     c_minted_tokens := c_minted_tokens s', c_total_supply := c_total_supply s'\<rparr>"
  shows "supply_only s s'"
  using assms unfolding supply_only_def by blast

lemma block_reward_frame:
  assumes "block_reward U cfg s = Some (B, s1)"
  shows "supply_only s s1" "IsOnAspenHardforkPartTwo (Hardforks cfg) (w_block s) \<Longrightarrow> c_total_supply s1 \<noteq> None"
  using assms
  by (auto simp: block_reward_def processBlockReward_def bind_Some_iff saveYieldDb_def saveTotalSupplyDb_def
      eraseMintedTokensDb_def CalculateBlockReward_def Let_def intro!: supply_only_cong split: if_splits prod.splits)

definition book_minted :: "uint256_ops \<Rightarrow> ChainConfig \<Rightarrow> block_num \<Rightarrow> u256 \<Rightarrow> dpos \<Rightarrow> dpos option" where
  "book_minted U cfg b m s =
     (if IsOnAspenHardforkPartTwo (Hardforks cfg) b then do {
        supply \<leftarrow> c_total_supply s;
        saveTotalSupplyDb (s\<lparr>c_total_supply := Some (U_Add U supply m)\<rparr>)
      } else if IsOnAspenHardforkPartOne (Hardforks cfg) b
      then Some (saveMintedTokensDb (s\<lparr>c_minted_tokens := U_Add U (c_minted_tokens s) m\<rparr>))
      else Some s)"

lemma book_minted_ok:
  assumes "IsOnAspenHardforkPartTwo (Hardforks cfg) b \<Longrightarrow> c_total_supply s \<noteq> None"
  shows "\<exists>s'. book_minted U cfg b m s = Some s' \<and> supply_only s s'"
  using assms
  by (cases "IsOnAspenHardforkPartTwo (Hardforks cfg) b")
    (auto simp: book_minted_def saveTotalSupplyDb_def saveMintedTokensDb_def intro!: supply_only_cong)

lemma DistributeRewards_ok:
  assumes U: "uint256_spec U" and inv: "dpos_inv cfg s" and sol: "solvent cfg 0 s" and init: "c_lazy_init_done s"
    and com: "commissions_ok s" and pc: "percentages_ok cfg" and st: "stats_ok rs"
    and reward: "block_reward U cfg s = Some (B, s1)" "uint B < 2 ^ 150"
  shows "\<exists>minted s'. DistributeRewards U cfg rs s = Some (minted, s') \<and> uint minted \<le> uint B \<and>
    dpos_inv cfg s' \<and> solvent cfg 0 s' \<and> w_block s' = w_block s \<and> commissions_kept s s'"
proof -
  obtain D V A where sp: "reward_split U cfg rs B = (D, V, A)" by (metis surj_pair)
  note S = reward_split_bounds [OF U pc reward(2) st sp]
  have DVA: "uint D < 2 ^ 150" "uint V < 2 ^ 150" "uint A < 2 ^ 150"
    using S reward(2) uint_ge_0 [of D] uint_ge_0 [of V] uint_ge_0 [of A] by linarith+
  note F = supply_only_ledger [OF block_reward_frame(1) [OF reward(1)]]
  have L1: "ledger_inv cfg s1" "solvent cfg 0 s1" "commissions_ok s1"
    using inv sol com F by (simp_all add: dpos_inv_def commissions_ok_def GetValidator_def)
  have A: "uint A < 2 ^ 200" using DVA(3) by simp
  from reward_author_ok [OF U L1(3) A L1(1,2), of "rs_BlockAuthor rs"]
  obtain m t s2 where s2: "reward_author U (rs_BlockAuthor rs) A (0, 0, s1) = Some (m, t, s2)"
    "promised cfg (uint A) (m, t, s2)" "reward_frame s1 s2" by blast
  have com2: "commissions_ok s2" using L1(3) s2(3) by (simp add: commissions_ok_def reward_frame_def GetValidator_def)
  let ?R = "\<Sum>e\<leftarrow>rs_ValidatorsStats rs. reward_of rs (uint D) (uint V) (snd e)"
  have R: "uint A + ?R \<le> uint B" using rewards_within [OF st, of "uint D" "uint V"] S by simp
  then have R': "uint A + ?R < 2 ^ 200" using reward(2) by simp
  have fees: "fees_of (snd e) < 2 ^ 255" if "e \<in> set (rs_ValidatorsStats rs)" for e
    using st that by (simp add: stats_ok_def)
  from rewards_loop_ok [OF U DVA(1,2) com2 s2(2) fees R']
  obtain m' t' s3 where s3: "fold_opt (reward_validator U rs D V) (rs_ValidatorsStats rs) (m, t, s2) = Some (m', t', s3)"
    "promised cfg (uint A + ?R) (m', t', s3)" "reward_frame s2 s3" by blast
  have P: "m' = t'" "uint t' \<le> uint B" "ledger_inv cfg s3" "solvent cfg (- uint t') s3"
    using s3(2) R by (simp_all add: promised_def)
  let ?s4 = "AddBalance dpos_contract_address (uint t') s3"
  have K: "ledger_inv cfg ?s4" "total_stake ?s4 = total_stake s3" "solvent cfg 0 ?s4"
    using balance_added [OF P(3,4), of "uint t'"] by (simp_all add: AddBalance_def)
  have fr: "reward_frame s1 s3" by (rule reward_frame_trans [OF s2(3) s3(3)])
  have ts: "c_total_supply ?s4 \<noteq> None" if "IsOnAspenHardforkPartTwo (Hardforks cfg) (w_block s)"
    using block_reward_frame(2) [OF reward(1) that] fr by (simp add: AddBalance_def reward_frame_def)
  have run: "DistributeRewards U cfg rs s =
      book_minted U cfg (w_block s) m' ?s4 \<bind> (\<lambda>s4. Some (m', s4))"
    by (simp add: DistributeRewards_def lazy_init_def init reward sp s2(1) s3(1) Let_def book_minted_def)
  obtain s5 where s5: "DistributeRewards U cfg rs s = Some (m', s5)" "supply_only ?s4 s5"
    using book_minted_ok [of cfg "w_block s" ?s4 U m'] ts by (auto simp: run)
  note G = supply_only_ledger [OF s5(2)]
  have "dpos_inv cfg s5" "solvent cfg 0 s5" "w_block s5 = w_block s" "commissions_kept s s5"
    using K G fr inv F by (simp_all add: dpos_inv_def reward_frame_def AddBalance_def commissions_kept_def commissions_ok_iff)
  then show ?thesis using s5(1) P by auto
qed

end
