(* ===== verification/Dpos_Machine.thy ===== *)
theory Dpos_Machine
  imports Dpos_Query_Facts Dpos_Reward_Facts Dpos_Dispatch
begin

section \<open>Calls into the contract, and the contract over many blocks\<close>

text \<open>
  The EVM's \<open>CALL\<close> of the contract (\<open>EVM.call\<close> of \<open>src/core/vm/evm.go\<close> for this callee) and the
  contract as a machine: calls, the distribution of rewards and the end of a block, in any order. Calls never
  panic, a failing call leaves the state as it was, and the contract can always pay what it owes.
  The limits under which this holds are those of the counters' widths.
\<close>

subsection \<open>Limits\<close>

definition within_limits :: "ChainConfig \<Rightarrow> int \<Rightarrow> dpos \<Rightarrow> bool" where
  "within_limits cfg extra s \<longleftrightarrow>
     w_balance s dpos_contract_address + extra < 2 ^ 64 * VoteEligibilityBalanceStep (DPOS cfg) \<and>
     (\<forall>k st. s_state s k = Some st \<longrightarrow> unat (st_Count st) < 2 ^ 31) \<and>
     length (s_validators_list s) < 2 ^ 30 \<and>
     (\<forall>d. length (s_delegator_validators s d) < 2 ^ 30) \<and>
     (\<forall>d. length (s_v2_validators s d) < 2 ^ 30) \<and>
     (\<forall>k. length (s_v2_ids s k) < 2 ^ 30) \<and>
     (\<forall>d. last_id s d \<noteq> - 1)"

lemma within_limitsD:
  assumes "within_limits cfg 0 s"
  shows "room cfg a s" "request_room s d a" "k < 2 ^ 30 \<Longrightarrow> claims_room cfg k s"
    "2 * length (s_validators_list s) < 2 ^ 32" "length (s_validators_list s) + 20 < 2 ^ 32"
    "2 * length (s_delegator_validators s d) < 2 ^ 32" "length (s_delegator_validators s d) + 20 < 2 ^ 32"
    "length (s_v2_validators s d) + 1 < 2 ^ 32" "length (s_v2_ids s (d, a)) + 20 < 2 ^ 32"
proof -
  have l: "length (s_validators_list s) < 2 ^ 30" "length (s_delegator_validators s d) < 2 ^ 30"
    "length (s_v2_validators s d) < 2 ^ 30" "length (s_v2_ids s (d, a)) < 2 ^ 30"
    using assms by (simp_all add: within_limits_def)
  have c: "s_state s x = Some st \<Longrightarrow> unat (st_Count st) < 2 ^ 31" for x st
    using assms unfolding within_limits_def by blast
  have c2: "unat (st_Count st) + n < 2 ^ 32" if "s_state s x = Some st" "n < 2 ^ 31" for x st n
    using c [OF that(1)] that(2) by simp
  show "room cfg a s" unfolding room_def using c2 [where n = 1] assms by (auto simp: within_limits_def)
  have "last_id s d \<noteq> - 1" using assms by (simp add: within_limits_def)
  then show "request_room s d a" using l(4) by (simp add: request_room_def)
  show "claims_room cfg k s" if "k < 2 ^ 30"
    unfolding claims_room_def using c2 [where n = k] that assms by (auto simp: within_limits_def)
  show "2 * length (s_validators_list s) < 2 ^ 32" "length (s_validators_list s) + 20 < 2 ^ 32"
    "2 * length (s_delegator_validators s d) < 2 ^ 32" "length (s_delegator_validators s d) + 20 < 2 ^ 32"
    "length (s_v2_validators s d) + 1 < 2 ^ 32" "length (s_v2_ids s (d, a)) + 20 < 2 ^ 32"
    using l by simp_all
qed

definition reader_ok :: "Reader \<Rightarrow> bool" where
  "reader_ok r \<longleftrightarrow> config_ok (r_cfg r) \<and>
     (\<forall>a. 0 \<le> GetStakingBalance r a \<and>
        GetStakingBalance r a < 2 ^ 64 * VoteEligibilityBalanceStep (DPOS (r_cfg r)))"

lemma reader_counts:
  assumes "reader_ok r"
  shows "\<exists>c. GetEligibleVoteCount r a = Some c" "\<exists>c. TotalEligibleVoteCount r = Some c"
proof -
  have v: "\<exists>c. GetEligibleVoteCount r a = Some c" for a
    using assms voteCount_votes [of "r_cfg r" "GetStakingBalance r a"]
    by (simp add: reader_ok_def GetEligibleVoteCount_def)
  show "\<exists>c. GetEligibleVoteCount r a = Some c" by (rule v)
  have "\<exists>c. fold_opt (\<lambda>addr ret. do { c \<leftarrow> GetEligibleVoteCount r addr; Some (ret - c) }) xs n = Some c" for xs n
  proof (induction xs arbitrary: n)
    case (Cons x xs)
    obtain c where "GetEligibleVoteCount r x = Some c" using v by blast
    then show ?case using Cons by simp
  qed simp
  then show "\<exists>c. TotalEligibleVoteCount r = Some c" by (simp add: TotalEligibleVoteCount_def)
qed

subsection \<open>Every method is safe\<close>

definition safe_run :: "ChainConfig \<Rightarrow> dpos \<Rightarrow> run_result \<Rightarrow> bool" where
  "safe_run cfg s res \<longleftrightarrow>
     (\<exists>s' r. res = Some (s', r) \<and> (\<forall>e. r = Inl e \<longrightarrow> s' = s) \<and>
        (\<forall>out. r = Inr out \<longrightarrow> dpos_inv cfg s' \<and> solvent cfg 0 s' \<and> w_block s' = w_block s))"

text \<open>
  The cases excluded: an amount of zero, a redelegation that leaves a validator without its state
  and, for the forks, blocks before the repairs of \<open>redelegate\<close> and \<open>claimCommissionRewards\<close>.
\<close>

definition sound_call :: "abi_ops \<Rightarrow> ChainConfig \<Rightarrow> dpos_method \<Rightarrow> bytes \<Rightarrow> dpos \<Rightarrow> bool" where
  "sound_call A cfg m input s \<longleftrightarrow>
     (m = M_undelegate \<or> m = M_undelegateV2 \<longrightarrow> (\<forall>a x. AB_AddressAmount A input = Some (a, x) \<longrightarrow> 0 < x)) \<and>
     (m = M_reDelegate \<longrightarrow> (\<forall>from to x. AB_Redelegate A input = Some (from, to, x) \<longrightarrow>
        0 < x \<and> redelegate_keeps_state cfg s from x))"

definition after_fixes :: "ChainConfig \<Rightarrow> block_num \<Rightarrow> bool" where
  "after_fixes cfg b \<longleftrightarrow> FixRedelegateBlockNum (Hardforks cfg) < b \<and> IsOnPhalaenopsisHardfork (Hardforks cfg) b"

lemma safe_run_query:
  assumes "dpos_inv cfg s" "solvent cfg 0 s"
  shows "safe_run cfg s (Some (s, r))"
  using assms by (auto simp: safe_run_def)

lemma safe_run_lift:
  assumes "safe_result cfg s r"
  shows "safe_run cfg s (lift_result r)"
proof -
  obtain s' err where "r = Some (s', err)" "err \<noteq> None \<longrightarrow> s' = s"
    "err = None \<longrightarrow> dpos_inv cfg s' \<and> solvent cfg 0 s' \<and> w_block s' = w_block s"
    using assms unfolding safe_result_def by blast
  then show ?thesis by (cases err) (simp_all add: lift_result_def safe_run_def)
qed

lemma safe_run_args:
  assumes "\<And>x. args = Some x \<Longrightarrow> safe_run cfg s (f x)"
  shows "safe_run cfg s (with_args args s f)"
  using assms by (auto simp: with_args_def safe_run_def split: option.splits)

lemma safe_run_undelegate:
  assumes "safe_result cfg s (forget_id r)"
  shows "safe_run cfg s (map_option (\<lambda>(s1, x). (s1, map_sum (\<lambda>e. e) g x)) r)"
proof (cases r)
  case None
  then show ?thesis using assms by (simp add: safe_result_def forget_id_def)
next
  case (Some p)
  obtain s1 x where "p = (s1, x)" by (cases p)
  then show ?thesis using assms Some by (cases x) (auto simp: safe_result_def safe_run_def forget_id_def)
qed

lemma solvent_less:
  assumes "solvent cfg x s" and "0 \<le> x" and "config_ok cfg"
  shows "solvent cfg 0 s"
proof -
  have "0 \<le> ValidatorMaximumStake (DPOS cfg) * x" using assms by (simp add: config_ok_def)
  then show ?thesis using assms(1) by (simp add: solvent_def)
qed

lemma run_query_safe:
  assumes inv: "dpos_inv cfg s" and cfg: "config_ok cfg" and sol: "solvent cfg 0 s"
    and lim: "within_limits cfg 0 s" and rd: "reader_ok rd"
  shows "safe_run cfg s (run_query A cfg rd m input s)"
proof -
  have L: "ledger_inv cfg s" using inv by (simp add: dpos_inv_def)
  note Q = safe_run_query [OF inv sol] and lims = within_limitsD [OF lim]
  have total: "safe_run cfg s (q \<bind> (\<lambda>x. Some (s, f x)))" if "\<exists>x. q = Some x" for q :: "'q option" and f
    using that Q by auto
  have val: "\<exists>x. getValidator s a = Some x" for a
  proof (cases "GetValidator s a")
    case (Some v)
    then show ?thesis
      using listed_validator [OF L GetValidator_listed [OF ledger_invD(1) [OF L] Some]]
      by (auto simp: getValidator_def to_validator_data_def bind_Some_iff)
  qed (simp add: getValidator_def)
  have vs: "\<exists>x. getValidators s b = Some x" for b using getValidators_slice [OF L lims(5)] by blast
  have vf: "\<exists>x. getValidatorsFor s a b = Some x" for a b using getValidatorsFor_slice [OF L lims(4)] by blast
  have td: "\<exists>x. getTotalDelegation s d = Some x" for d using getTotalDelegation_sum [OF L lims(6)] by blast
  have ds: "\<exists>x. getDelegations cfg s d b = Some x" for d b using getDelegations_slice [OF L cfg lims(7)] by blast
  have u2: "\<exists>x. getUndelegationsV2 s d b = Some x" for d b
    using getUndelegationsV2_slice [OF ledger_invD(4) [OF L] lims(8,9)] by blast
  note T = total [OF reader_counts(1) [OF rd]] total [OF reader_counts(2) [OF rd]] total [OF val] total [OF vs]
    total [OF vf] total [OF td] total [OF ds] total [OF u2]
  show ?thesis
    by (cases m) (auto simp: run_query_def Let_def intro!: safe_run_args Q T)
qed


lemma claim_batch_safe:
  assumes inv: "dpos_inv cfg s" and cfg: "config_ok cfg" and sol: "solvent cfg 0 s"
    and acc: "Account ctx = dpos_contract_address" and lim: "within_limits cfg 0 s"
  shows "\<exists>e s'. claimAllRewardsPreAspenHF cfg ctx (w_block s) b s = Some (e, s', None) \<and> dpos_inv cfg s' \<and>
    solvent cfg 0 s' \<and> w_block s' = w_block s"
proof -
  let ?l = "s_delegator_validators s (CallerAccount ctx)"
  let ?as = "take 10 (drop (unat (b * 10)) ?l)"
  have "length ?l + 10 < 2 ^ 32" using within_limitsD(7) [OF lim, of "CallerAccount ctx"] by simp
  then obtain e where acc': "GetDelegatorValidatorsAddresses s (CallerAccount ctx) b ClaimAllRewardsMaxCount = (?as, e)"
    using GetAccounts_slice [of ?l 10 b] by (simp add: GetDelegatorValidatorsAddresses_def ClaimAllRewardsMaxCount_def)
  have mem: "s_delegation s (CallerAccount ctx, a) \<noteq> None" if "a \<in> set ?as" for a
    using ledger_invD(2) [of cfg s] inv in_set_dropD [OF in_set_takeD [OF that]]
    unfolding dpos_inv_def delegations_wf_def indexes_def by blast
  have room: "claims_room cfg (length ?as) s" by (rule within_limitsD(3) [OF lim]) simp
  obtain s' where "claim_all cfg ctx (w_block s) ?as s = Some (s', None)" "dpos_inv cfg s'" "solvent cfg 0 s'"
    "w_block s' = w_block s"
    by (rule claim_all_safe [OF inv cfg room sol acc mem])
  then show ?thesis by (simp add: claimAllRewardsPreAspenHF_def acc')
qed

lemma run_method_safe:
  assumes inv: "dpos_inv cfg s" and cfg: "config_ok cfg" and U: "uint256_spec U"
    and val: "0 \<le> Value ctx" and sol: "solvent cfg (Value ctx) s" and acc: "Account ctx = dpos_contract_address"
    and lim: "within_limits cfg 0 s" and rd: "reader_ok rd"
    and ok: "sound_call A cfg m input s" and fixed: "after_fixes cfg (w_block s)"
  shows "safe_run cfg s (run_method A U K cfg rd ctx m input s)"
proof -
  have sol0: "solvent cfg 0 s" by (rule solvent_less [OF sol val cfg])
  note room = within_limitsD(1) [OF lim] and Q = run_query_safe [OF inv cfg sol0 lim rd]
  have fork: "IsOnPhalaenopsisHardfork (Hardforks cfg) (w_block s)" "FixRedelegateBlockNum (Hardforks cfg) < w_block s"
    using fixed by (simp_all add: after_fixes_def)
  have err: "safe_run cfg s (Some (s, Inl e))" for e by (simp add: safe_run_def)
  note simple = delegate_safe [OF inv cfg room U sol val acc] confirmUndelegate_safe [OF inv cfg sol0 acc]
    cancelUndelegate_safe [OF inv cfg room U sol0 acc] claimRewards_safe [OF inv cfg room sol0 acc]
    claimCommissionRewards_safe [OF inv cfg sol0 acc fork(1)] setCommission_safe [OF inv sol0]
    registerValidator_safe [OF inv cfg room U sol val] setValidatorInfo_safe [OF inv sol0]
  have und: "safe_result cfg s (forget_id (undelegate U cfg ctx (w_block s) a x v2 s))"
    if "m = M_undelegate \<or> m = M_undelegateV2" "AB_AddressAmount A input = Some (a, x)" for a x v2
    using ok that unfolding sound_call_def
    by (intro undelegate_safe [OF inv cfg room U sol0 acc _ within_limitsD(2) [OF lim]]) blast
  have red: "safe_result cfg s (redelegate cfg ctx (w_block s) from to x s)"
    if "m = M_reDelegate" "AB_Redelegate A input = Some (from, to, x)" for "from" to x
    using ok that unfolding sound_call_def
    by (intro redelegate_safe [OF inv cfg room room sol0 acc _ fork(2)]) blast+
  have "length (s_delegator_validators s (CallerAccount ctx)) < 2 ^ 30" using lim by (simp add: within_limits_def)
  then have all: "safe_run cfg s (lift_result (claimAllRewards cfg ctx (w_block s) s))"
    using claimAllRewards_safe [OF inv cfg sol0 acc within_limitsD(3) [OF lim]]
    by (auto simp: lift_result_def safe_run_def)
  have batch: "safe_run cfg s (claimAllRewardsPreAspenHF cfg ctx (w_block s) b s \<bind> (\<lambda>(e, s1, err).
      Some (s1, case err of Some x \<Rightarrow> Inl x | None \<Rightarrow> Inr (Out_bool e))))" for b
    using claim_batch_safe [OF inv cfg sol0 acc lim, of b] by (auto simp: safe_run_def)
  show ?thesis
    by (cases m)
      (auto simp: run_method_def Let_def intro!: safe_run_args safe_run_lift safe_run_undelegate simple und red all batch Q err)
qed


subsection \<open>The EVM calls the contract\<close>

datatype vm_error = ErrDepth | ErrInsufficientBalanceForTransfer | ErrOutOfGas | ErrContract dpos_error

definition max_call_depth :: nat where "max_call_depth = 1024"

definition ledger_transfer :: "address \<Rightarrow> address \<Rightarrow> int \<Rightarrow> dpos \<Rightarrow> dpos" where
  "ledger_transfer from to amount s =
     (let b1 = (w_balance s)(from := w_balance s from - amount)
      in s\<lparr>w_balance := b1(to := b1 to + amount)\<rparr>)"

text \<open>
  \<open>RevertToSnapshot\<close> undoes what the journal recorded: balances, nonces and logs. The contract writes
  its storage around the journal, and the values it keeps in memory are not journaled either.
\<close>

definition revert_to :: "dpos \<Rightarrow> dpos \<Rightarrow> dpos" where
  "revert_to s0 s = s\<lparr>w_balance := w_balance s0, w_nonce := w_nonce s0, w_logs := w_logs s0\<rparr>"

definition vm_call :: "abi_ops \<Rightarrow> uint256_ops \<Rightarrow> crypto_ops \<Rightarrow> ChainConfig \<Rightarrow> Reader \<Rightarrow> nat \<Rightarrow> address \<Rightarrow> bytes \<Rightarrow> u64 \<Rightarrow> int
    \<Rightarrow> dpos \<Rightarrow> (dpos \<times> u64 \<times> (vm_error + dpos_output)) option" where
  "vm_call A U K cfg rd depth caller input gas val s =
     (if depth > max_call_depth then Some (s, gas, Inl ErrDepth)
      else if caller \<noteq> 0 \<and> \<not> w_balance s caller \<ge> val
      then Some (s, gas, Inl ErrInsufficientBalanceForTransfer)
      else do {
        let s1 = ledger_transfer caller dpos_contract_address val s;
        let frame = \<lparr>CallerAccount = caller, Account = dpos_contract_address, Value = val\<rparr>;
        (gas_required, s2) \<leftarrow> RequiredGas A U cfg frame input s1;
        if gas_required \<le> gas then do {
          (s3, r) \<leftarrow> Run A U K cfg rd frame depth input s2;
          Some (case r of
              Inr out \<Rightarrow> (s3, gas - gas_required, Inr out)
            | Inl e \<Rightarrow> (revert_to s s3, gas - gas_required, Inl (ErrContract e)))
        } else Some (revert_to s s2, gas, Inl ErrOutOfGas)
      })"

lemma RequiredGas_total:
  assumes init: "c_lazy_init_done s" and lim: "\<And>d. length (s_v2_validators s d) + 1 < 2 ^ 32"
  shows "\<exists>g. RequiredGas A U cfg ctx input s = Some (g, s)"
proof -
  have q: "\<exists>g. query_gas A cfg m x s = Some g" for m x
    using storage_reads_count_total [OF lim]
    by (cases m) (auto simp: query_gas_def Let_def bind_Some_iff split: option.splits)
  have "\<exists>g. method_gas A cfg ctx m x s = Some g" for m x
    using q by (cases m) (auto simp: method_gas_def Let_def)
  then show ?thesis
    using init by (auto simp: RequiredGas_def lazy_init_def bind_Some_iff split: sum.splits no_method.splits)
qed

lemma transfer_in:
  assumes "dpos_inv cfg s" and "solvent cfg 0 s" and "caller \<noteq> dpos_contract_address"
  shows "dpos_inv cfg (ledger_transfer caller dpos_contract_address x s)"
    and "solvent cfg x (ledger_transfer caller dpos_contract_address x s)"
proof -
  let ?b = "w_balance (ledger_transfer caller dpos_contract_address x s)"
  have b: "?b dpos_contract_address = w_balance s dpos_contract_address + x" using assms(3) by (simp add: ledger_transfer_def)
  have t: "ledger_transfer caller dpos_contract_address x s = s\<lparr>w_balance := ?b\<rparr>" by (simp add: ledger_transfer_def Let_def)
  have L: "ledger_inv cfg s" using assms(1) by (simp add: dpos_inv_def)
  have v: "view (s\<lparr>w_balance := w\<rparr>) a = view s a" for w a
    by (intro view_eqI) (simp_all add: GetValidator_def GetValidatorRewards_def)
  have o: "owed cfg (s\<lparr>w_balance := w\<rparr>) = owed cfg s" "total_stake (s\<lparr>w_balance := w\<rparr>) = total_stake s" for w
    by (simp_all add: owed_def total_stake_def undelegated_def v)
  have "ledger_inv cfg (s\<lparr>w_balance := w\<rparr>)" for w
    using L v unfolding ledger_inv_def total_votes_def
    by (simp add: validators_wf_def delegations_wf_def undelegations_v1_wf_def undelegations_v2_wf_def last_id_def)
  then show "dpos_inv cfg (ledger_transfer caller dpos_contract_address x s)"
    using assms(1) o(2) by (subst t) (simp add: dpos_inv_def)
  show "solvent cfg x (ledger_transfer caller dpos_contract_address x s)"
    using assms(2) o(1) b unfolding solvent_def by (subst t) (simp add: distrib_left)
qed

definition sound_input :: "abi_ops \<Rightarrow> ChainConfig \<Rightarrow> bytes \<Rightarrow> dpos \<Rightarrow> bool" where
  "sound_input A cfg input s \<longleftrightarrow>
     (\<forall>m. find_method A cfg input (w_block s) = Inr m \<longrightarrow> sound_call A cfg m (drop 4 input) s)"

lemma Run_safe:
  assumes inv: "dpos_inv cfg s" and cfg: "config_ok cfg" and U: "uint256_spec U"
    and val: "0 \<le> Value ctx" and sol: "solvent cfg (Value ctx) s" and acc: "Account ctx = dpos_contract_address"
    and lim: "within_limits cfg 0 s" and rd: "reader_ok rd" and init: "c_lazy_init_done s"
    and ok: "sound_input A cfg input s" and fixed: "after_fixes cfg (w_block s)"
  shows "safe_run cfg s (Run A U K cfg rd ctx depth input s)"
proof -
  have err: "safe_run cfg s (Some (s, Inl e))" for e by (simp add: safe_run_def)
  have out: "safe_run cfg s (Some (s, Inr x))" for x
    by (rule safe_run_query [OF inv solvent_less [OF sol val cfg]])
  have m: "safe_run cfg s (run_method A U K cfg rd ctx m (drop 4 input) s)"
    if "find_method A cfg input (w_block s) = Inr m" for m
    using ok that by (intro run_method_safe [OF inv cfg U val sol acc lim rd _ fixed]) (simp add: sound_input_def)
  show ?thesis
    using m init by (auto simp: Run_def lazy_init_def err out split: sum.splits no_method.splits)
qed


lemma vm_call_safe:
  assumes inv: "dpos_inv cfg s" and cfg: "config_ok cfg" and U: "uint256_spec U" and sol: "solvent cfg 0 s"
    and init: "c_lazy_init_done s" and caller: "caller \<noteq> dpos_contract_address" and val: "0 \<le> val"
    and lim: "within_limits cfg val s" and rd: "reader_ok rd"
    and ok: "sound_input A cfg input s" and fixed: "after_fixes cfg (w_block s)"
  shows "\<exists>s' g r. vm_call A U K cfg rd depth caller input gas val s = Some (s', g, r) \<and> g \<le> gas \<and>
    (\<forall>e. r = Inl e \<longrightarrow> s' = s) \<and> dpos_inv cfg s' \<and> solvent cfg 0 s' \<and> w_block s' = w_block s \<and>
    commissions_kept s s'"
proof (cases "depth > max_call_depth \<or> (caller \<noteq> 0 \<and> \<not> w_balance s caller \<ge> val)")
  case True
  then show ?thesis using inv sol by (auto simp: vm_call_def)
next
  case False
  let ?s1 = "ledger_transfer caller dpos_contract_address val s"
  let ?fr = "\<lparr>CallerAccount = caller, Account = dpos_contract_address, Value = val\<rparr>"
  note T = transfer_in [OF inv sol caller, of val]
  have s1: "c_lazy_init_done ?s1" "w_block ?s1 = w_block s" "s_v2_validators ?s1 = s_v2_validators s"
    using init by (simp_all add: ledger_transfer_def Let_def)
  have lim1: "within_limits cfg 0 ?s1"
    using lim caller by (simp add: within_limits_def ledger_transfer_def last_id_def Let_def)
  have ok1: "sound_input A cfg input ?s1"
    using ok unfolding sound_input_def sound_call_def s1(2)
    by (simp add: redelegate_keeps_state_def ledger_transfer_def GetValidator_def GetValidatorRewards_def Let_def)
  have undone: "revert_to s ?s1 = s" by (simp add: revert_to_def ledger_transfer_def Let_def)
  have kept1: "commissions_kept s ?s1"
    by (simp add: ledger_transfer_def Let_def commissions_kept_def commissions_ok_iff)
  obtain g where g: "RequiredGas A U cfg ?fr input ?s1 = Some (g, ?s1)"
    using RequiredGas_total [OF s1(1) within_limitsD(8) [OF lim1]] by blast
  have run: "safe_run cfg ?s1 (Run A U K cfg rd ?fr depth input ?s1)"
    by (rule Run_safe [OF T(1) cfg U _ _ _ lim1 rd s1(1) ok1]) (use T(2) val fixed s1(2) in simp_all)
  then obtain s' r where r: "Run A U K cfg rd ?fr depth input ?s1 = Some (s', r)"
    "\<forall>e. r = Inl e \<longrightarrow> s' = ?s1"
    "\<forall>out. r = Inr out \<longrightarrow> dpos_inv cfg s' \<and> solvent cfg 0 s' \<and> w_block s' = w_block s"
    unfolding safe_run_def s1(2) by blast
  have kept: "commissions_kept s s'"
    using Run_frame [OF s1(1), of A U K cfg rd ?fr depth input] r(1) kept1 commissions_kept_trans
    by (simp add: kept_run_def ensures_def)
  have sub: "gas - g \<le> gas" if "g \<le> gas" using that by (simp add: word_sub_le)
  show ?thesis
  proof (cases "g \<le> gas")
    case le: True
    show ?thesis
    proof (cases r)
      case (Inl e)
      then show ?thesis
        using False g le r(1,2) undone sub inv sol by (simp add: vm_call_def)
    next
      case (Inr out)
      then show ?thesis
        using False g le r(1,3) sub kept by (auto simp: vm_call_def)
    qed
  next
    case le: False
    then show ?thesis using False g undone inv sol by (simp add: vm_call_def)
  qed
qed

subsection \<open>The contract over many blocks\<close>

datatype dpos_event =
    Ev_call nat address bytes u64 int
  | Ev_rewards RewardsStats
  | Ev_next_block block_num

definition dpos_exec :: "abi_ops \<Rightarrow> uint256_ops \<Rightarrow> crypto_ops \<Rightarrow> ChainConfig \<Rightarrow> (block_num \<Rightarrow> Reader) \<Rightarrow> dpos_event
    \<Rightarrow> dpos \<Rightarrow> dpos option" where
  "dpos_exec A U K cfg rd ev s =
     (case ev of
        Ev_call depth caller input gas val \<Rightarrow>
          map_option fst (vm_call A U K cfg (rd (w_block s)) depth caller input gas val s)
      | Ev_rewards rs \<Rightarrow> map_option snd (DistributeRewards U cfg rs s)
      | Ev_next_block b \<Rightarrow> map_option (\<lambda>s'. s'\<lparr>w_block := b\<rparr>) (EndBlockCall cfg (w_block s) s))"

definition machine_inv :: "ChainConfig \<Rightarrow> dpos \<Rightarrow> bool" where
  "machine_inv cfg s \<longleftrightarrow> dpos_inv cfg s \<and> solvent cfg 0 s \<and> c_lazy_init_done s \<and> commissions_ok s \<and>
     after_fixes cfg (w_block s)"

definition admissible :: "abi_ops \<Rightarrow> uint256_ops \<Rightarrow> ChainConfig \<Rightarrow> (block_num \<Rightarrow> Reader) \<Rightarrow> dpos_event \<Rightarrow> dpos \<Rightarrow> bool" where
  "admissible A U cfg rd ev s \<longleftrightarrow>
     (case ev of
        Ev_call depth caller input gas val \<Rightarrow>
          caller \<noteq> dpos_contract_address \<and> 0 \<le> val \<and> within_limits cfg val s \<and> reader_ok (rd (w_block s)) \<and>
          sound_input A cfg input s
      | Ev_rewards rs \<Rightarrow> percentages_ok cfg \<and> stats_ok rs \<and>
          (\<exists>B s1. block_reward U cfg s = Some (B, s1) \<and> uint B < 2 ^ 150)
      | Ev_next_block b \<Rightarrow> w_block s < b)"

text \<open>A run of a machine whose steps may panic.\<close>

fun admissible_run :: "('e \<Rightarrow> 's \<Rightarrow> 's option) \<Rightarrow> ('e \<Rightarrow> 's \<Rightarrow> bool) \<Rightarrow> 'e list \<Rightarrow> 's \<Rightarrow> bool" where
  "admissible_run exec ok [] s = True"
| "admissible_run exec ok (e # es) s = (ok e s \<and> (\<forall>s'. exec e s = Some s' \<longrightarrow> admissible_run exec ok es s'))"

locale total_machine =
  fixes exec :: "'e \<Rightarrow> 's \<Rightarrow> 's option"
    and ok :: "'e \<Rightarrow> 's \<Rightarrow> bool"
    and inv :: "'s \<Rightarrow> bool"
  assumes step: "inv s \<Longrightarrow> ok e s \<Longrightarrow> \<exists>s'. exec e s = Some s' \<and> inv s'"
begin

lemma run_total:
  assumes "inv s" and "admissible_run exec ok es s"
  shows "\<exists>s'. fold_opt exec es s = Some s' \<and> inv s'"
  using assms
proof (induction es arbitrary: s)
  case Nil
  then show ?case by simp
next
  case (Cons e es)
  obtain s1 where s1: "exec e s = Some s1" "inv s1" using step [OF Cons.prems(1), of e] Cons.prems(2) by auto
  then have "admissible_run exec ok es s1" using Cons.prems(2) by simp
  from Cons.IH [OF s1(2) this] show ?case using s1(1) by simp
qed

end

lemma later_block:
  assumes inv: "dpos_inv cfg s" and b: "w_block s < b"
  shows "dpos_inv cfg (s\<lparr>w_block := b\<rparr>)" and "solvent cfg x (s\<lparr>w_block := b\<rparr>) = solvent cfg x s"
proof -
  have L: "ledger_inv cfg s" using inv by (simp add: dpos_inv_def)
  have v: "view (s\<lparr>w_block := b\<rparr>) a = view s a" for a
    by (intro view_eqI) (simp_all add: GetValidator_def GetValidatorRewards_def)
  have o: "owed cfg (s\<lparr>w_block := b\<rparr>) = owed cfg s" "total_stake (s\<lparr>w_block := b\<rparr>) = total_stake s"
    "total_votes cfg (s\<lparr>w_block := b\<rparr>) = total_votes cfg s"
    by (simp_all add: owed_def total_stake_def undelegated_def total_votes_def v)
  have "ledger_inv cfg (s\<lparr>w_block := b\<rparr>)"
    using L wf_view_later [OF ledger_invD(5) [OF L] b] unfolding ledger_inv_def o
    by (simp add: v validators_wf_def delegations_wf_def undelegations_v1_wf_def undelegations_v2_wf_def last_id_def)
  then show "dpos_inv cfg (s\<lparr>w_block := b\<rparr>)" using inv o by (simp add: dpos_inv_def)
  show "solvent cfg x (s\<lparr>w_block := b\<rparr>) = solvent cfg x s" by (simp add: solvent_def o)
qed

lemma EndBlockCall_keeps:
  assumes inv: "dpos_inv cfg s" and sol: "solvent cfg 0 s" and fixed: "after_fixes cfg (w_block s)"
  shows "\<exists>s'. EndBlockCall cfg (w_block s) s = Some s' \<and> dpos_inv cfg s' \<and> solvent cfg 0 s' \<and>
    w_block s' = w_block s \<and> commissions_kept s s'"
proof -
  have ne: "w_block s \<noteq> FixRedelegateBlockNum (Hardforks cfg)" using fixed by (auto simp: after_fixes_def)
  have frame: "dpos_inv cfg (s\<lparr>s_eligible_vote_count := a, s_amount_delegated := b, c_eligible_vote_count_orig := c,
      c_amount_delegated_orig := d\<rparr>) \<and> solvent cfg 0 (s\<lparr>s_eligible_vote_count := a, s_amount_delegated := b,
      c_eligible_vote_count_orig := c, c_amount_delegated_orig := d\<rparr>)" for a b c d
  proof -
    let ?s = "s\<lparr>s_eligible_vote_count := a, s_amount_delegated := b, c_eligible_vote_count_orig := c,
      c_amount_delegated_orig := d\<rparr>"
    have v: "view ?s x = view s x" for x
      by (intro view_eqI) (simp_all add: GetValidator_def GetValidatorRewards_def)
    have o: "owed cfg ?s = owed cfg s" "total_stake ?s = total_stake s" "total_votes cfg ?s = total_votes cfg s"
      by (simp_all add: owed_def total_stake_def undelegated_def total_votes_def v)
    have "ledger_inv cfg ?s"
      using inv unfolding dpos_inv_def ledger_inv_def o
      by (simp add: v validators_wf_def delegations_wf_def undelegations_v1_wf_def undelegations_v2_wf_def last_id_def)
    then show ?thesis using inv sol o by (simp add: dpos_inv_def solvent_def)
  qed
  have ex: "\<exists>a b c d. EndBlockCall cfg (w_block s) s = Some (s\<lparr>s_eligible_vote_count := a, s_amount_delegated := b,
      c_eligible_vote_count_orig := c, c_amount_delegated_orig := d\<rparr>)"
  proof -
    have "EndBlockCall cfg (w_block s) s = Some (s\<lparr>
        s_eligible_vote_count := (if c_lazy_init_done s \<and> c_eligible_vote_count_orig s \<noteq> c_eligible_vote_count s
          then Some (c_eligible_vote_count s) else s_eligible_vote_count s),
        s_amount_delegated := (if c_lazy_init_done s \<and> c_amount_delegated_orig s \<noteq> c_amount_delegated s
          then u256_slot (c_amount_delegated s) else s_amount_delegated s),
        c_eligible_vote_count_orig := (if c_lazy_init_done s then c_eligible_vote_count s else c_eligible_vote_count_orig s),
        c_amount_delegated_orig := (if c_lazy_init_done s then c_amount_delegated s else c_amount_delegated_orig s)\<rparr>)"
      using ne by (auto simp: EndBlockCall_def Let_def)
    then show ?thesis by blast
  qed
  then show ?thesis using frame by (auto simp: commissions_kept_def commissions_ok_iff)
qed

lemma machine_step:
  assumes cfg: "config_ok cfg" and U: "uint256_spec U" and inv: "machine_inv cfg s" and ok: "admissible A U cfg rd ev s"
  shows "\<exists>s'. dpos_exec A U K cfg rd ev s = Some s' \<and> machine_inv cfg s'"
proof -
  have I: "dpos_inv cfg s" "solvent cfg 0 s" "c_lazy_init_done s" "commissions_ok s" "after_fixes cfg (w_block s)"
    using inv by (simp_all add: machine_inv_def)
  show ?thesis
  proof (cases ev)
    case (Ev_call depth caller input gas val)
    then have o: "caller \<noteq> dpos_contract_address" "0 \<le> val" "within_limits cfg val s" "reader_ok (rd (w_block s))"
      "sound_input A cfg input s" using ok by (simp_all add: admissible_def)
    from vm_call_safe [OF I(1) cfg U I(2,3) o I(5), of K depth gas]
    show ?thesis using I by (auto simp: dpos_exec_def Ev_call machine_inv_def commissions_kept_def)
  next
    case (Ev_rewards rs)
    then obtain B s1 where o: "percentages_ok cfg" "stats_ok rs" "block_reward U cfg s = Some (B, s1)" "uint B < 2 ^ 150"
      using ok by (auto simp: admissible_def)
    from DistributeRewards_ok [OF U I(1,2,3,4) o]
    show ?thesis using I by (auto simp: dpos_exec_def Ev_rewards machine_inv_def commissions_kept_def)
  next
    case (Ev_next_block b)
    then have b: "w_block s < b" using ok by (simp add: admissible_def)
    from EndBlockCall_keeps [OF I(1,2,5)]
    obtain s' where s': "EndBlockCall cfg (w_block s) s = Some s'" "dpos_inv cfg s'" "solvent cfg 0 s'"
      "w_block s' = w_block s" "commissions_kept s s'" by blast
    have lb: "w_block s' < b" using b s'(4) by simp
    have "after_fixes cfg b"
      using I(5) b by (auto simp: after_fixes_def IsOnPhalaenopsisHardfork_def dest: order.strict_trans)
    then show ?thesis
      using s' later_block [OF s'(2) lb] I
      by (auto simp: dpos_exec_def Ev_next_block machine_inv_def commissions_kept_def commissions_ok_iff)
  qed
qed

interpretation dm: total_machine "dpos_exec A U K cfg rd" "admissible A U cfg rd"
  "\<lambda>s. config_ok cfg \<and> uint256_spec U \<and> machine_inv cfg s" for A U K cfg rd
  by unfold_locales (use machine_step in blast)

subsection \<open>Restarting the node\<close>

text \<open>
  A new process makes a new \<open>Contract\<close>, whose values in memory are Go's zero values until
  \<open>lazy_init\<close> reads them from storage.
\<close>

definition restart :: "dpos \<Rightarrow> dpos" where
  "restart s = s\<lparr>c_eligible_vote_count_orig := 0, c_eligible_vote_count := 0, c_amount_delegated_orig := 0,
     c_amount_delegated := 0, c_minted_tokens := 0, c_total_supply := None, c_lazy_init_done := False\<rparr>"

definition stored_counters :: "dpos \<Rightarrow> bool" where
  "stored_counters s \<longleftrightarrow>
     c_eligible_vote_count_orig s = (case s_eligible_vote_count s of None \<Rightarrow> 0 | Some c \<Rightarrow> c) \<and>
     c_amount_delegated_orig s = (case s_amount_delegated s of None \<Rightarrow> 0 | Some a \<Rightarrow> a)"

lemma lazy_init_stored:
  assumes "lazy_init U cfg (restart s) = Some s'"
  shows "stored_counters s'" "c_lazy_init_done s'"
    "c_eligible_vote_count s' = (case s_eligible_vote_count s of None \<Rightarrow> 0 | Some c \<Rightarrow> c)"
    "c_amount_delegated s' = (case s_amount_delegated s of None \<Rightarrow> 0 | Some a \<Rightarrow> a)"
  using assms by (auto simp: lazy_init_def restart_def stored_counters_def bind_Some_iff Let_def split: option.splits)

lemma restart_restores:
  assumes "c_lazy_init_done s" and "stored_counters s" and "b \<noteq> FixRedelegateBlockNum (Hardforks cfg)"
    and "EndBlockCall cfg b s = Some s1" and "lazy_init U cfg (restart s1) = Some s2"
  shows "c_eligible_vote_count s2 = c_eligible_vote_count s \<and> c_amount_delegated s2 = c_amount_delegated s \<and>
    stored_counters s2"
proof -
  have "(case s_eligible_vote_count s1 of None \<Rightarrow> 0 | Some c \<Rightarrow> c) = c_eligible_vote_count s"
    "(case s_amount_delegated s1 of None \<Rightarrow> 0 | Some c \<Rightarrow> c) = c_amount_delegated s"
    using assms(1-4) by (auto simp: EndBlockCall_def stored_counters_def u256_slot_def Let_def split: if_splits)
  then show ?thesis using lazy_init_stored [OF assms(5)] by simp
qed

end
