(* ===== verification/Dpos_Demo.thy ===== *)
theory Dpos_Demo
  imports Dpos_Machine
begin

section \<open>A small ledger\<close>

text \<open>
  A concrete configuration and a contract with two validators and an open undelegation, on which the
  theorems are instantiated. Its states are made by the operations themselves, so that the library
  shows they satisfy the invariant.
\<close>

definition demo_cfg :: ChainConfig where
  "demo_cfg =
     \<lparr>ChainId = 841, GenesisBalances = [(7, 5000), (8, 5000)],
      DPOS = \<lparr>EligibilityBalanceThreshold = 100, VoteEligibilityBalanceStep = 10, ValidatorMaximumStake = 1000,
        MinimumDeposit = 10, MaxBlockAuthorReward = 10, DagProposersReward = 50, CommissionChangeDelta = 0,
        CommissionChangeFrequency = 0, DelegationDelay = 5, DelegationLockingPeriod = 5, BlocksPerYear = 100,
        YieldPercentage = 20, InitialValidators = []\<rparr>,
      Hardforks = \<lparr>FixRedelegateBlockNum = 1, Redelegations = [], RewardsDistributionFrequency = [],
        MagnoliaHf = \<lparr>magnolia_BlockNum = 1, magnolia_JailTime = 50\<rparr>, PhalaenopsisHfBlockNum = 1,
        FixClaimAllBlockNum = 1,
        AspenHf = \<lparr>aspen_BlockNumPartOne = 1, aspen_BlockNumPartTwo = 1, aspen_MaxSupply = 20000,
          aspen_GeneratedRewards = 0\<rparr>,
        FicusHf = \<lparr>ficus_BlockNum = 1, ficus_PillarBlocksInterval = 10, ficus_BridgeContractAddress = 0\<rparr>,
        CornusHf = \<lparr>cornus_BlockNum = 1, cornus_DelegationLockingPeriod = 6, cornus_DagGasLimit = 0,
          cornus_PbftGasLimit = 0\<rparr>,
        SoleiroliaHf = \<lparr>soleirolia_BlockNum = 1, soleirolia_TrxMinGasPrice = 0, soleirolia_TrxMaxGasLimit = 0\<rparr>\<rparr>\<rparr>"

definition demo_empty :: dpos where
  "demo_empty =
     \<lparr>s_validator = Map.empty, s_validator_info = Map.empty, s_validator_rewards = Map.empty,
      s_validator_owner = Map.empty, s_validator_vrf = Map.empty, s_validators_list = [],
      s_delegation = Map.empty, s_delegator_validators = (\<lambda>_. []), s_undelegation_v1 = Map.empty,
      s_v1_validators = (\<lambda>_. []), s_undelegation_v2 = Map.empty, s_v2_validators = (\<lambda>_. []), s_v2_ids = (\<lambda>_. []),
      s_last_unique_id = Map.empty, s_state = Map.empty, s_eligible_vote_count = None, s_amount_delegated = None,
      s_minted_tokens = None, s_total_supply = None, s_yield = None, c_eligible_vote_count_orig = 0,
      c_eligible_vote_count = 0, c_amount_delegated_orig = 0, c_amount_delegated = 0, c_minted_tokens = 0,
      c_total_supply = None, c_lazy_init_done = True,
      w_balance = (\<lambda>a. if a = dpos_contract_address then 1000 else 5000), w_nonce = (\<lambda>_. 0), w_logs = [], w_block = 5\<rparr>"

definition demo_args :: "address \<Rightarrow> RegisterValidatorArgs" where
  "demo_args a = \<lparr>rv_Validator = a, rv_Proof = [], rv_VrfKey = replicate 32 1, rv_Commission = 1000,
     rv_Description = ''v'', rv_Endpoint = ''e''\<rparr>"

definition demo_ctx :: "address \<Rightarrow> int \<Rightarrow> CallFrame" where
  "demo_ctx d x = \<lparr>CallerAccount = d, Account = dpos_contract_address, Value = x\<rparr>"

definition demo_one :: dpos where
  "demo_one = registered True (demo_ctx 7 200) (demo_args 1) 20 demo_empty"

definition demo :: dpos where
  "demo = registered True (demo_ctx 8 100) (demo_args 2) 30 demo_one"

definition demo_requested :: dpos where
  "demo_requested = fst (the (undelegate uint256_std demo_cfg (demo_ctx 7 0) 5 1 50 True demo))"

definition demo_later :: dpos where
  "demo_later = demo_requested\<lparr>w_block := 20\<rparr>"

lemmas demo_defs = demo_cfg_def demo_empty_def demo_args_def demo_ctx_def demo_one_def demo_def registered_def

lemma demo_config [simp]: "config_ok demo_cfg"
  by (simp add: config_ok_def demo_cfg_def)

lemma empty_inv: "ledger_inv demo_cfg demo_empty" "total_stake demo_empty = 0" "total_votes demo_cfg demo_empty = 0"
  "owed demo_cfg demo_empty = 0"
proof -
  have v: "GetValidator demo_empty a = None" "GetValidatorRewards demo_empty a = None" "s_delegation demo_empty (d, a) = None"
    "s_state demo_empty (a, b) = None" for a d b
    by (simp_all add: demo_empty_def GetValidator_def GetValidatorRewards_def)
  have t: "vw_total (view demo_empty a) = 0" "vw_debt m (view demo_empty a) = 0" for a m
    by (simp_all add: vw_total_def vw_debt_def v)
  have u: "undelegated demo_empty = 0" by (simp add: undelegated_def demo_empty_def amount_of_def)
  show "total_stake demo_empty = 0" "total_votes demo_cfg demo_empty = 0" "owed demo_cfg demo_empty = 0"
    by (simp_all add: total_stake_def total_votes_def owed_def t u)
  have "at_block (view demo_empty a) b = {}" for a b by (auto simp: at_block_def v)
  then have "wf_view (w_block demo_empty) (view demo_empty a)" for a
    by (simp add: wf_view_def v vw_refs_def rps_of_def)
  then show "ledger_inv demo_cfg demo_empty"
    unfolding ledger_inv_def
    by (simp add: \<open>total_votes demo_cfg demo_empty = 0\<close>)
      (simp add: validators_wf_def delegations_wf_def undelegations_v1_wf_def undelegations_v2_wf_def indexes_def
        demo_empty_def)
qed


lemma demo_votes [simp]: "votes demo_cfg 200 = 20" "votes demo_cfg 100 = 10" "votes demo_cfg 0 = 0"
  by (simp_all add: votes_def demo_cfg_def)

lemma demo_ctx_sels [simp]: "CallerAccount (demo_ctx d x) = d" "Account (demo_ctx d x) = dpos_contract_address"
  "Value (demo_ctx d x) = x"
  by (simp_all add: demo_ctx_def)

lemma demo_one_inv: "ledger_inv demo_cfg demo_one" "total_stake demo_one = 200" "solvent demo_cfg 800 demo_one"
  "total_votes demo_cfg demo_one = 20"
proof -
  have a: "GetValidator demo_empty (rv_Validator (demo_args 1)) = None" by (simp add: demo_empty_def GetValidator_def)
  have sol: "solvent demo_cfg (800 + Value (demo_ctx 7 200)) demo_empty"
    by (simp add: solvent_def empty_inv(4), simp add: demo_empty_def)
  have val: "0 \<le> Value (demo_ctx 7 200)" by simp
  have n: "uint (20 :: u64) = total_votes demo_cfg demo_empty + votes demo_cfg (Value (demo_ctx 7 200))"
    by (simp add: empty_inv)
  note R = registered_result [OF empty_inv(1) demo_config a val sol n, of True, folded demo_one_def]
  show L: "ledger_inv demo_cfg demo_one" "total_stake demo_one = 200" "solvent demo_cfg 800 demo_one"
    using R by (simp_all add: empty_inv)
  show "total_votes demo_cfg demo_one = 20"
    using ledger_invD(6) [OF L(1)] by (simp add: demo_one_def registered_def Let_def)
qed

lemma demo_ledger: "ledger_inv demo_cfg demo" "total_stake demo = 300" "solvent demo_cfg 700 demo"
proof -
  have a: "GetValidator demo_one (rv_Validator (demo_args 2)) = None"
    by (simp add: demo_defs GetValidator_def Let_def)
  have sol: "solvent demo_cfg (700 + Value (demo_ctx 8 100)) demo_one" using demo_one_inv(3) by simp
  have val: "0 \<le> Value (demo_ctx 8 100)" by simp
  have n: "uint (30 :: u64) = total_votes demo_cfg demo_one + votes demo_cfg (Value (demo_ctx 8 100))"
    by (simp add: demo_one_inv)
  note R = registered_result [OF demo_one_inv(1) demo_config a val sol n, of True, folded demo_def]
  show L: "ledger_inv demo_cfg demo" "total_stake demo = 300" "solvent demo_cfg 700 demo"
    using R by (simp_all add: demo_one_inv)
qed

lemma demo_inv: "dpos_inv demo_cfg demo"
  unfolding dpos_inv_def using demo_ledger by simp (simp add: demo_defs Let_def)

lemma demo_solvent: "solvent demo_cfg x demo" if "x \<le> 700"
  using demo_ledger(3) that by (simp add: solvent_def demo_cfg_def)

lemma demo_block [simp]: "w_block demo = 5" "c_lazy_init_done demo"
  by (simp_all add: demo_defs Let_def)

lemma demo_fixed [simp]: "5 \<le> b \<Longrightarrow> after_fixes demo_cfg b"
  by (auto simp: after_fixes_def demo_cfg_def IsOnPhalaenopsisHardfork_def word_less_def word_le_def)

lemma demo_limits: "within_limits demo_cfg x demo" if "x \<le> 700"
  using that by (auto simp: within_limits_def demo_defs Let_def last_id_def dpos_contract_address_def)

lemma demo_room [simp]: "room demo_cfg a demo"
  by (rule within_limitsD(1) [OF demo_limits]) simp

lemma demo_commissions [simp]: "commissions_ok demo"
  by (simp add: commissions_ok_iff demo_defs Let_def slot_of_def)

lemma demo_machine: "machine_inv demo_cfg demo"
  using demo_inv demo_solvent [of 0] by (simp add: machine_inv_def)

subsection \<open>After an undelegation\<close>

lemma undelegate_result:
  assumes "undelegate U cfg ctx b a x v2 s = Some (s', r)" and "GetValidator s a = Some v"
    and "s_delegation s (CallerAccount ctx, a) = Some del" and "x \<le> d_Stake del"
    and "\<not> (d_Stake del \<noteq> x \<and> MinimumDeposit (DPOS cfg) > d_Stake del - x)" and v2
  shows "\<exists>i. r = Inr i"
  using assms by (auto simp: undelegate_def GetDelegation_def bind_Some_iff)

lemma demo_validator:
  "GetValidator demo 1 = Some \<lparr>v_TotalStake = 200, v_Commission = 1000, v_LastCommissionChange = 5, v_LastUpdated = 5,
     v_UndelegationsCount = 0\<rparr>"
  "s_delegation demo (7, 1) = Some \<lparr>d_Stake = 200, d_LastUpdated = 5\<rparr>"
  by (simp_all add: demo_defs GetValidator_def slot_of_def Let_def)

lemma demo_request_room [simp]: "request_room demo d a"
  by (rule within_limitsD(2) [OF demo_limits]) simp

lemma demo_requested_inv:
  "\<exists>i. undelegate uint256_std demo_cfg (demo_ctx 7 0) 5 1 50 True demo = Some (demo_requested, Inr i)"
  "dpos_inv demo_cfg demo_requested" "solvent demo_cfg 0 demo_requested" "w_block demo_requested = 5"
proof -
  have "safe_result demo_cfg demo (forget_id (undelegate uint256_std demo_cfg (demo_ctx 7 0) (w_block demo) 1 50 True demo))"
    by (rule undelegate_safe [OF demo_inv demo_config demo_room uint256_spec_std demo_solvent]) simp_all
  then obtain s' err where s': "forget_id (undelegate uint256_std demo_cfg (demo_ctx 7 0) 5 1 50 True demo) = Some (s', err)"
    "err = None \<longrightarrow> dpos_inv demo_cfg s' \<and> solvent demo_cfg 0 s' \<and> w_block s' = 5"
    by (auto simp: safe_result_def)
  then obtain r where r: "undelegate uint256_std demo_cfg (demo_ctx 7 0) 5 1 50 True demo = Some (s', r)"
    "err = (case r of Inl e \<Rightarrow> Some e | Inr _ \<Rightarrow> None)" by (auto simp: forget_id_def)
  have "\<exists>i. r = Inr i"
    by (rule undelegate_result [OF r(1) demo_validator(1), unfolded demo_ctx_sels, OF demo_validator(2)])
      (simp_all add: demo_cfg_def)
  then obtain i where i: "r = Inr i" by blast
  have eq: "demo_requested = s'" using r(1) by (simp add: demo_requested_def)
  show "\<exists>i. undelegate uint256_std demo_cfg (demo_ctx 7 0) 5 1 50 True demo = Some (demo_requested, Inr i)"
    "dpos_inv demo_cfg demo_requested" "solvent demo_cfg 0 demo_requested" "w_block demo_requested = 5"
    using s'(2) r i eq by simp_all
qed

lemma demo_later_inv: "dpos_inv demo_cfg demo_later" "solvent demo_cfg 0 demo_later" "w_block demo_later = 20"
  unfolding demo_later_def
  using later_block [OF demo_requested_inv(2), of 20] demo_requested_inv(3,4) by simp_all

end
