(* ===== verification/Dpos_Effects.thy ===== *)
theory Dpos_Effects
  imports Dpos_Machine
begin

section \<open>What the operations do to the books\<close>

text \<open>
  The effect of each operation on what its caller sees: the stakes of the delegations, the total
  stakes of the validators and the open undelegations. The proofs walk through an operation with
  the rules of \<open>Dpos_Frame\<close>, keeping only how each building block changes these four records.
\<close>

definition same_books :: "dpos \<Rightarrow> dpos \<Rightarrow> bool" where
  "same_books s s' \<longleftrightarrow> s_delegation s' = s_delegation s \<and> s_validator s' = s_validator s \<and>
     s_undelegation_v1 s' = s_undelegation_v1 s \<and> s_undelegation_v2 s' = s_undelegation_v2 s"

definition delegation_set :: "address \<times> address \<Rightarrow> Delegation option \<Rightarrow> dpos \<Rightarrow> dpos \<Rightarrow> bool" where
  "delegation_set k x s s' \<longleftrightarrow> same_books (s\<lparr>s_delegation := (s_delegation s)(k := x)\<rparr>) s'"

definition total_of :: "dpos \<Rightarrow> address \<Rightarrow> int option" where
  "total_of s a = map_option v_TotalStake (GetValidator s a)"

lemma total_of_slot: "total_of s a = map_option (\<lambda>x. v_TotalStake (decode_validator x)) (s_validator s a)"
  by (simp add: total_of_def GetValidator_def option.map_comp comp_def)

lemma same_books_refl [simp]: "same_books s s"
  by (simp add: same_books_def)

lemmas book_defs = same_books_def delegation_set_def

lemma effect_blocks:
  "state_put a b st s = Some s' \<Longrightarrow> same_books s s'"
  "update_votes m n s = Some s' \<Longrightarrow> same_books s s'"
  "transferContractBalance ctx x s = Some s' \<Longrightarrow> same_books s s'"
  "ModifyValidatorRewards a r s = Some s' \<Longrightarrow> same_books s s'"
  "CreateDelegation d a b x s = Some s' \<Longrightarrow> delegation_set (d, a) (Some \<lparr>d_Stake = x, d_LastUpdated = b\<rparr>) s s'"
  "ModifyDelegation d a del s = Some s' \<Longrightarrow> delegation_set (d, a) (Some del) s s'"
  "RemoveDelegation d a s = Some s' \<Longrightarrow> delegation_set (d, a) None s s'"
  "ModifyValidator ext a v s = Some s' \<Longrightarrow> same_books (s\<lparr>s_validator := (s_validator s)(a \<mapsto> slot_of ext v)\<rparr>) s'"
  "DeleteValidator a s = Some s' \<Longrightarrow> same_books (s\<lparr>s_validator := (s_validator s)(a := None)\<rparr>) s'"
  by (auto simp: book_defs state_put_def update_votes_def transferContractBalance_def ModifyValidatorRewards_def
      CreateDelegation_def ModifyDelegation_def RemoveDelegation_def ModifyValidator_def SaveValidatorRewards_def
      SaveDelegation_def SaveValidator_def DeleteValidator_def slot_of_def bind_Some_iff Let_def split: if_splits)

definition request_set :: "address \<Rightarrow> address \<Rightarrow> u64 option \<Rightarrow> (int \<times> block_num) option \<Rightarrow> dpos \<Rightarrow> dpos \<Rightarrow> bool" where
  "request_set d a i x s s' \<longleftrightarrow>
     (case i of
        None \<Rightarrow> same_books (s\<lparr>s_undelegation_v1 := (s_undelegation_v1 s)((d, a) :=
          map_option (\<lambda>(y, b). \<lparr>u_Amount = y, u_Block = b\<rparr>) x)\<rparr>) s'
      | Some j \<Rightarrow> same_books (s\<lparr>s_undelegation_v2 := (s_undelegation_v2 s)((d, a, j) :=
          map_option (\<lambda>(y, b). \<lparr>u_Amount = y, u_Block = b, u_Id = j\<rparr>) x)\<rparr>) s')"

definition request_of :: "dpos \<Rightarrow> address \<Rightarrow> address \<Rightarrow> u64 option \<Rightarrow> (int \<times> block_num) option" where
  "request_of s d a i = map_option (\<lambda>u. (u_Amount u, u_Block u)) (GetUndelegationBaseObject s d a i)"

lemma request_of_slot:
  "request_of s d a None = map_option (\<lambda>u. (u_Amount u, u_Block u)) (s_undelegation_v1 s (d, a))"
  "request_of s d a (Some j) = map_option (\<lambda>u. (u_Amount u, u_Block u)) (s_undelegation_v2 s (d, a, j))"
  by (simp_all add: request_of_def GetUndelegationBaseObject_def GetUndelegationV1_def GetUndelegationV2_def
      option.map_comp comp_def UndelegationV1.defs)

lemma request_effects:
  "RemoveUndelegation d a i s = Some s' \<Longrightarrow> request_set d a i None s s'"
  "create_undelegation cfg ctx b a x v2 s = Some (j, s') \<Longrightarrow>
     request_set (CallerAccount ctx) a (if v2 then Some j else None)
       (Some (x, b + delegation_locking_period cfg b)) s s'"
proof -
  show "RemoveUndelegation d a i s = Some s' \<Longrightarrow> request_set d a i None s s'"
    by (cases i) (auto simp: request_set_def same_books_def RemoveUndelegation_def removeUndelegationV1_def
        removeUndelegationV2_def bind_Some_iff Let_def split: if_splits)
  show "create_undelegation cfg ctx b a x v2 s = Some (j, s') \<Longrightarrow>
     request_set (CallerAccount ctx) a (if v2 then Some j else None)
       (Some (x, b + delegation_locking_period cfg b)) s s'"
    by (cases v2) (auto simp: request_set_def same_books_def create_undelegation_def CreateUndelegationV1_def
        CreateUndelegationV2_def genUniqueId_def AddLog_def bind_Some_iff Let_def split: if_splits)
qed

lemma decrement_effect: "state_get_and_decrement a b s = Some (st, s') \<Longrightarrow> same_books s s'"
  by (auto simp: state_get_and_decrement_def bind_Some_iff Let_def dest: effect_blocks)

lemma claim_effect: "claim_delegator cfg ctx a st d s = Some s' \<Longrightarrow> same_books s s'"
  by (auto simp: claim_delegator_def bind_Some_iff Let_def same_books_def AddLog_def split: if_splits
      dest!: effect_blocks decrement_effect)

lemma settle_effect:
  "settle cfg b a v r s = Some (st, v1, r1, s') \<Longrightarrow> same_books s s' \<and> v_TotalStake v1 = v_TotalStake v \<and>
     v_UndelegationsCount v1 = v_UndelegationsCount v \<and> vr_CommissionRewardsPool r1 = vr_CommissionRewardsPool r"
  by (auto simp: settle_def bind_Some_iff Let_def split: if_splits option.splits
      dest!: effect_blocks decrement_effect)

lemma delegate_update_effect:
  "delegate_update_values U cfg ctx v n s = Some (v', s') \<Longrightarrow>
     same_books s s' \<and> v' = v\<lparr>v_TotalStake := v_TotalStake v + Value ctx\<rparr>"
  by (auto simp: delegate_update_values_def bind_Some_iff Let_def same_books_def dest!: effect_blocks)

lemmas effects = effect_blocks request_effects decrement_effect claim_effect settle_effect delegate_update_effect

lemma effect_rules:
  "(\<And>s'. same_books s s' \<Longrightarrow> Q s') \<Longrightarrow> ensures Q (state_put a b st s)"
  "(\<And>s'. same_books s s' \<Longrightarrow> Q s') \<Longrightarrow> ensures Q (update_votes m n s)"
  "(\<And>s'. same_books s s' \<Longrightarrow> Q s') \<Longrightarrow> ensures Q (ModifyValidatorRewards a r s)"
  "(\<And>s'. same_books s s' \<Longrightarrow> Q s') \<Longrightarrow> ensures Q (claim_delegator cfg ctx a state del s)"
  "(\<And>s'. delegation_set (d, a) (Some \<lparr>d_Stake = x, d_LastUpdated = b\<rparr>) s s' \<Longrightarrow> Q s') \<Longrightarrow>
     ensures Q (CreateDelegation d a b x s)"
  "(\<And>s'. delegation_set (d, a) (Some del) s s' \<Longrightarrow> Q s') \<Longrightarrow> ensures Q (ModifyDelegation d a del s)"
  "(\<And>s'. delegation_set (d, a) None s s' \<Longrightarrow> Q s') \<Longrightarrow> ensures Q (RemoveDelegation d a s)"
  "(\<And>s'. same_books (s\<lparr>s_validator := (s_validator s)(a \<mapsto> slot_of ext v)\<rparr>) s' \<Longrightarrow> Q s') \<Longrightarrow>
     ensures Q (ModifyValidator ext a v s)"
  "(\<And>s'. same_books (s\<lparr>s_validator := (s_validator s)(a := None)\<rparr>) s' \<Longrightarrow> Q s') \<Longrightarrow> ensures Q (DeleteValidator a s)"
  "(\<And>s'. request_set d a i None s s' \<Longrightarrow> Q s') \<Longrightarrow> ensures Q (RemoveUndelegation d a i s)"
  "(\<And>u. request_of s d a i = Some (u_Amount u, u_Block u) \<Longrightarrow> V u) \<Longrightarrow>
     ensures V (GetUndelegationBaseObject s d a i)"
  by (auto simp: ensures_def request_of_def dest: effects)

lemma effect_rules_pairs:
  "(\<And>st v1 r1 s'. same_books s s' \<Longrightarrow> v_TotalStake v1 = v_TotalStake v \<Longrightarrow>
     v_UndelegationsCount v1 = v_UndelegationsCount v \<Longrightarrow>
     vr_CommissionRewardsPool r1 = vr_CommissionRewardsPool r \<Longrightarrow> R (st, v1, r1, s')) \<Longrightarrow>
     ensures R (settle cfg b a v r s)"
  "(\<And>s'. same_books s s' \<Longrightarrow> P (v\<lparr>v_TotalStake := v_TotalStake v + Value ctx\<rparr>, s')) \<Longrightarrow>
     ensures P (delegate_update_values U cfg ctx v k s)"
  "(\<And>j s'. request_set (CallerAccount ctx) a (if v2 then Some j else None)
       (Some (x, b + delegation_locking_period cfg b)) s s' \<Longrightarrow> T (j, s')) \<Longrightarrow>
     ensures T (create_undelegation cfg ctx b a x v2 s)"
  using effects by (fastforce simp: ensures_def)+

lemmas walk = ensures_flow effect_rules ensures_pure(1-5) effect_rules_pairs
lemmas book_simps = book_defs AddLog_def GetDelegation_def stake_of_def total_of_slot GetValidator_def fun_eq_iff
  request_set_def request_of_slot

subsection \<open>The operations\<close>

definition stake_moved :: "address \<Rightarrow> address \<Rightarrow> int \<Rightarrow> dpos \<Rightarrow> dpos \<Rightarrow> bool" where
  "stake_moved d a x s s' \<longleftrightarrow>
     stake_of (s_delegation s' (d, a)) = stake_of (s_delegation s (d, a)) + x \<and>
     (\<forall>k. k \<noteq> (d, a) \<longrightarrow> s_delegation s' k = s_delegation s k) \<and>
     (\<forall>c. c \<noteq> a \<longrightarrow> total_of s' c = total_of s c) \<and>
     (\<exists>t. total_of s a = Some t \<and> (total_of s' a = Some (t + x) \<or> (t + x = 0 \<and> total_of s' a = None)))"

lemma delegate_effect:
  "ensures (\<lambda>(s', err). err = None \<longrightarrow> stake_moved (CallerAccount ctx) a (Value ctx) s s' \<and>
     (\<exists>t. total_of s' a = Some t \<and> t \<le> ValidatorMaximumStake (DPOS cfg)) \<and>
     s_undelegation_v1 s' = s_undelegation_v1 s \<and> s_undelegation_v2 s' = s_undelegation_v2 s)
   (delegate U cfg ctx b a s)"
  unfolding delegate_def Let_def stake_moved_def
  by (auto intro!: walk simp: book_simps)

lemma cancelUndelegate_effect:
  "ensures (\<lambda>(s', err). err = None \<longrightarrow> (\<exists>x b. request_of s (CallerAccount ctx) a i = Some (x, b) \<and>
      stake_moved (CallerAccount ctx) a x s s' \<and> total_of s' a \<noteq> None \<and>
      request_of s' (CallerAccount ctx) a i = None))
   (cancelUndelegate U cfg ctx b a i s)"
  unfolding cancelUndelegate_def Let_def stake_moved_def
  by (cases i) (auto intro!: walk simp: book_simps)

lemma undelegate_effect:
  "ensures (\<lambda>(s', r). \<forall>j. r = Inr j \<longrightarrow> stake_moved (CallerAccount ctx) a (- x) s s' \<and>
      request_of s' (CallerAccount ctx) a (if v2 then Some j else None) =
        Some (x, b + delegation_locking_period cfg b))
   (undelegate U cfg ctx b a x v2 s)"
  unfolding undelegate_def Let_def stake_moved_def
  by (cases v2) (auto intro!: walk simp: book_simps)

lemma claimRewards_effect:
  "ensures (\<lambda>(s', err). (\<forall>k. stake_of (s_delegation s' k) = stake_of (s_delegation s k)) \<and> total_of s' = total_of s)
   (claimRewards cfg ctx b a s)"
  unfolding claimRewards_def Let_def stake_moved_def
  by (auto intro!: walk simp: book_simps split: option.splits if_splits)

lemma ensuresD: "ensures Q m \<Longrightarrow> m = Some x \<Longrightarrow> Q x"
  by (simp add: ensures_def)

lemma redelegate_from_effect:
  assumes v: "GetValidator s a = Some v" and del: "s_delegation s (CallerAccount ctx, a) = Some del"
    and keeps: "redelegate_keeps_state cfg s a x" "b = w_block s"
  shows "ensures (\<lambda>s'. stake_moved (CallerAccount ctx) a (- x) s s') (redelegate_from cfg ctx b a x v del s)"
proof (cases "GetValidatorRewards s a")
  case None
  then show ?thesis by (simp add: redelegate_from_def ensures_def)
next
  case (Some r)
  then have "v_TotalStake v - x = 0 \<Longrightarrow> vr_CommissionRewardsPool r = 0 \<Longrightarrow>
     \<not> IsOnMagnoliaHardfork (Hardforks cfg) b \<or> v_UndelegationsCount v = 0"
    using keeps v by (simp add: redelegate_keeps_state_def)
  then show ?thesis
    using v del unfolding redelegate_from_def Let_def stake_moved_def Some
    by (auto intro!: walk simp: book_simps)
qed

lemma redelegate_to_effect:
  assumes "total_of s a = Some (v_TotalStake v)"
  shows "ensures (\<lambda>s'. stake_moved (CallerAccount ctx) a x s s' \<and> total_of s' a \<noteq> None) (redelegate_to cfg ctx b a x v r s)"
  using assms unfolding redelegate_to_def Let_def stake_moved_def
  by (auto intro!: walk simp: book_simps)

lemma confirm_pays:
  assumes inv: "dpos_inv cfg s" and cfg: "config_ok cfg" and sol: "solvent cfg 0 s"
    and acc: "Account ctx = dpos_contract_address" "CallerAccount ctx \<noteq> dpos_contract_address"
    and ex: "UndelegationExists s (CallerAccount ctx) a i"
  shows "\<exists>u. GetUndelegationBaseObject s (CallerAccount ctx) a i = Some u \<and> 0 < u_Amount u \<and>
    (w_block s < u_Block u \<longrightarrow>
       confirmUndelegate cfg ctx (w_block s) a i s = Some (s, Some ErrLockedUndelegation)) \<and>
    (u_Block u \<le> w_block s \<longrightarrow>
       (\<exists>s'. confirmUndelegate cfg ctx (w_block s) a i s = Some (s', None) \<and> dpos_inv cfg s' \<and> solvent cfg 0 s' \<and>
          w_balance s' (CallerAccount ctx) = w_balance s (CallerAccount ctx) + u_Amount u))"
proof -
  have L: "ledger_inv cfg s" using inv by (simp add: dpos_inv_def)
  obtain u s1 where u: "GetUndelegationBaseObject s (CallerAccount ctx) a i = Some u"
      "RemoveUndelegation (CallerAccount ctx) a i s = Some s1" "0 < u_Amount u"
    and s1: "ledger_inv cfg s1" "same_ledger s s1" "total_stake s1 = total_stake s" "solvent cfg (0 + u_Amount u) s1"
    by (rule request_removed [OF L ex sol])
  obtain s2 where s2: "confirm_update_validator cfg (w_block s) a s1 = Some s2" "ledger_inv cfg s2"
    "total_stake s2 = total_stake s1" "solvent cfg (0 + u_Amount u) s2" "c_amount_delegated s2 = c_amount_delegated s1"
    "w_block s2 = w_block s1" "w_balance s2 = w_balance s1"
    by (rule confirm_update_ok [OF s1(1) cfg s1(4)])
  from confirmUndelegate_safe [OF inv cfg sol acc(1), of a i] obtain s' err where
    r: "confirmUndelegate cfg ctx (w_block s) a i s = Some (s', err)"
      "err = None \<longrightarrow> dpos_inv cfg s' \<and> solvent cfg 0 s'"
    by (auto simp: safe_result_def)
  have "w_balance s' (CallerAccount ctx) = w_balance s (CallerAccount ctx) + u_Amount u \<and> err = None"
    if "u_Block u \<le> w_block s"
    using r(1) ex u s2 s1(2) that acc
    by (auto simp: confirmUndelegate_def transferContractBalance_def AddLog_def same_ledger_def Let_def bind_Some_iff
        split: if_splits)
  then show ?thesis using r u ex by (auto simp: confirmUndelegate_def not_le)
qed

lemma undelegate_cancel:
  assumes "undelegate U cfg ctx b a x v2 s = Some (s1, Inr j)"
    and "cancelUndelegate U cfg ctx b' a (if v2 then Some j else None) s1 = Some (s2, None)"
  shows "stake_of (s_delegation s2 k) = stake_of (s_delegation s k)" "total_of s2 = total_of s"
proof -
  have u: "stake_moved (CallerAccount ctx) a (- x) s s1"
    "request_of s1 (CallerAccount ctx) a (if v2 then Some j else None) = Some (x, b + delegation_locking_period cfg b)"
    using ensuresD [OF undelegate_effect assms(1)] by simp_all
  have "stake_moved (CallerAccount ctx) a x s1 s2" "total_of s2 a \<noteq> None"
    using ensuresD [OF cancelUndelegate_effect assms(2)] u(2) by auto
  note m = u(1) this
  show "stake_of (s_delegation s2 k) = stake_of (s_delegation s k)"
    using m by (cases k; cases "k = (CallerAccount ctx, a)") (auto simp: stake_moved_def)
  have "total_of s2 c = total_of s c" for c
    using m by (cases "c = a") (auto simp: stake_moved_def)
  then show "total_of s2 = total_of s" by blast
qed

end
