(* ===== verification/Dpos_Properties.thy ===== *)
theory Dpos_Properties
  imports Dpos_Demo Dpos_Effects
begin

section \<open>What the DPOS contract promises\<close>

text \<open>
  The properties of the contract's operations, each with an instance on the small ledger. An
  operation is safe when it returns (it does not panic), leaves the state alone if it reports an
  error, and otherwise keeps the invariant of the ledger and the contract's ability to pay.
\<close>

subsection \<open>Operations of a delegator\<close>

lemma demo_facts: "GetValidatorRewards demo 1 = Some \<lparr>vr_RewardsPool = 0, vr_CommissionRewardsPool = 0\<rparr>"
  "s_state demo (1, 5) = Some \<lparr>st_RewardsPer1Stake = 0, st_Count = 2\<rparr>"
  "w_balance demo dpos_contract_address = 1000"
  "1 \<in> set (s_validators_list demo)" "1 \<in> set (s_delegator_validators demo 7)"
  "s_last_unique_id demo 7 = None" "s_v2_ids demo (7, 1) = []" "s_v2_validators demo 7 = []"
  "c_eligible_vote_count demo = 30"
  by (simp_all add: demo_defs GetValidatorRewards_def Let_def)

lemma demo_cfg_facts: "voteCount 200 demo_cfg 5 = Some 20" "voteCount 150 demo_cfg 5 = Some 15"
  "IsOnMagnoliaHardfork (Hardforks demo_cfg) 5" "MinimumDeposit (DPOS demo_cfg) = 10"
  "ValidatorMaximumStake (DPOS demo_cfg) = 1000" "VoteEligibilityBalanceStep (DPOS demo_cfg) = 10"
  by (simp_all add: voteCount_def demo_cfg_def IsOnAspenHardforkPartOne_def IsOnMagnoliaHardfork_def)

text \<open>C6: delegating the value received with the call never panics and keeps the ledger consistent (stakes, states of
  the rewards with their reference counts, votes, indexes and the total) and the contract solvent; on
  success exactly the caller's stake and the validator's total grow, by the value, and the total stays within the maximum.\<close>

theorem delegate_correct:
  assumes "dpos_inv cfg s" and "config_ok cfg" and "room cfg a s" and "uint256_spec U"
    and "solvent cfg (Value ctx) s" and "0 \<le> Value ctx" and "Account ctx = dpos_contract_address"
  shows "safe_result cfg s (delegate U cfg ctx (w_block s) a s) \<and>
    (\<forall>s'. delegate U cfg ctx (w_block s) a s = Some (s', None) \<longrightarrow>
       stake_moved (CallerAccount ctx) a (Value ctx) s s' \<and>
       (\<exists>t. total_of s' a = Some t \<and> t \<le> ValidatorMaximumStake (DPOS cfg)))"
  using delegate_safe [OF assms] ensuresD [OF delegate_effect] by fastforce

theorem delegate_correct_witness:
  "\<exists>s'. delegate uint256_std demo_cfg (demo_ctx 8 50) 5 1 demo = Some (s', None) \<and> dpos_inv demo_cfg s' \<and>
     stake_of (s_delegation s' (8, 1)) = 50 \<and> total_of s' 1 = Some 250"
proof -
  note C = delegate_correct [OF demo_inv demo_config demo_room uint256_spec_std demo_solvent, of "demo_ctx 8 50" 1]
  then obtain s' err where r: "delegate uint256_std demo_cfg (demo_ctx 8 50) 5 1 demo = Some (s', err)"
    "err = None \<longrightarrow> dpos_inv demo_cfg s'"
    by (auto simp: safe_result_def)
  moreover have "err = None"
    using r(1) by (auto simp: delegate_def demo_validator demo_cfg_facts bind_Some_iff Let_def)
  moreover have "s_delegation demo (8, 1) = None" by (simp add: demo_defs Let_def)
  ultimately show ?thesis
    using C by (auto simp: stake_moved_def total_of_def demo_validator stake_of_def)
qed

text \<open>C7: undelegating a positive amount, in both versions of the request, is safe; on success exactly the
  caller's stake and the validator's total shrink by the amount (the validator may be removed if nothing is left), and
  a request over the amount is open, locked for the locking period of the block's fork.\<close>

theorem undelegate_correct:
  assumes "dpos_inv cfg s" and "config_ok cfg" and "room cfg a s" and "uint256_spec U"
    and "solvent cfg 0 s" and "Account ctx = dpos_contract_address" and "0 < amount"
    and "v2 \<Longrightarrow> request_room s (CallerAccount ctx) a"
  shows "safe_result cfg s (forget_id (undelegate U cfg ctx (w_block s) a amount v2 s)) \<and>
    (\<forall>s' j. undelegate U cfg ctx (w_block s) a amount v2 s = Some (s', Inr j) \<longrightarrow>
       stake_moved (CallerAccount ctx) a (- amount) s s' \<and>
       request_of s' (CallerAccount ctx) a (if v2 then Some j else None) =
         Some (amount, w_block s + delegation_locking_period cfg (w_block s)))"
  using undelegate_safe [OF assms] ensuresD [OF undelegate_effect] by fastforce

theorem undelegate_correct_witness:
  "safe_result demo_cfg demo (forget_id (undelegate uint256_std demo_cfg (demo_ctx 7 0) 5 1 50 True demo))"
  using undelegate_correct
    [OF demo_inv demo_config demo_room uint256_spec_std demo_solvent, of "demo_ctx 7 0" 50 True 1]
  by simp

text \<open>C8: an undelegation is paid after its locking period and not before: until then confirming it
  fails without effect; afterwards the contract always can pay it and the caller receives its amount.\<close>

theorem undelegation_paid_when_unlocked:
  assumes "dpos_inv cfg s" and "config_ok cfg" and "solvent cfg 0 s"
    and "Account ctx = dpos_contract_address" and "CallerAccount ctx \<noteq> dpos_contract_address"
    and "UndelegationExists s (CallerAccount ctx) a i"
  shows "\<exists>u. GetUndelegationBaseObject s (CallerAccount ctx) a i = Some u \<and> 0 < u_Amount u \<and>
    (w_block s < u_Block u \<longrightarrow>
       confirmUndelegate cfg ctx (w_block s) a i s = Some (s, Some ErrLockedUndelegation)) \<and>
    (u_Block u \<le> w_block s \<longrightarrow>
       (\<exists>s'. confirmUndelegate cfg ctx (w_block s) a i s = Some (s', None) \<and> dpos_inv cfg s' \<and> solvent cfg 0 s' \<and>
          w_balance s' (CallerAccount ctx) = w_balance s (CallerAccount ctx) + u_Amount u))"
  by (rule confirm_pays [OF assms])

lemma demo_request:
  "\<exists>j. undelegate uint256_std demo_cfg (demo_ctx 7 0) 5 1 50 True demo = Some (demo_requested, Inr j) \<and>
     request_of demo_requested 7 1 (Some j) = Some (50, 11) \<and> UndelegationExists demo_requested 7 1 (Some j)"
proof -
  obtain j where j: "undelegate uint256_std demo_cfg (demo_ctx 7 0) 5 1 50 True demo = Some (demo_requested, Inr j)"
    using demo_requested_inv(1) by blast
  have p: "delegation_locking_period demo_cfg 5 = 6"
    by (simp add: delegation_locking_period_def demo_cfg_def IsOnCornusHardfork_def)
  have r: "request_of demo_requested 7 1 (Some j) = Some (50, 11)" using ensuresD [OF undelegate_effect j] by (simp add: p)
  have "undelegations_v2_wf demo_requested"
    using demo_requested_inv(2) by (simp add: dpos_inv_def ledger_inv_def)
  then have "j \<in> set (s_v2_ids demo_requested (7, 1))"
    using r unfolding undelegations_v2_wf_def indexes_def by (auto simp: request_of_slot)
  then show ?thesis using j r by (auto simp: UndelegationExists_def undelegationV2Exists_def)
qed

theorem undelegation_paid_when_unlocked_witness:
  "\<exists>j. confirmUndelegate demo_cfg (demo_ctx 7 0) 5 1 (Some j) demo_requested = Some (demo_requested, Some ErrLockedUndelegation) \<and>
     (\<exists>s'. confirmUndelegate demo_cfg (demo_ctx 7 0) 20 1 (Some j) demo_later = Some (s', None) \<and>
        w_balance s' 7 = w_balance demo_later 7 + 50)"
proof -
  obtain j where j: "request_of demo_requested 7 1 (Some j) = Some (50, 11)"
    "UndelegationExists demo_requested 7 1 (Some j)"
    using demo_request by blast
  have later: "request_of demo_later 7 1 (Some j) = Some (50, 11)" "UndelegationExists demo_later 7 1 (Some j)"
    using j by (simp_all add: demo_later_def request_of_slot UndelegationExists_def undelegationV2Exists_def)
  have c: "CallerAccount (demo_ctx 7 0) \<noteq> dpos_contract_address" "Account (demo_ctx 7 0) = dpos_contract_address"
    by (simp_all add: dpos_contract_address_def)
  show ?thesis
    using undelegation_paid_when_unlocked [OF demo_requested_inv(2) demo_config demo_requested_inv(3) c(2,1), of 1 "Some j"]
      undelegation_paid_when_unlocked [OF demo_later_inv(1) demo_config demo_later_inv(2) c(2,1), of 1 "Some j"] j later
    by (auto simp: request_of_def demo_requested_inv(4) demo_later_inv(3) intro!: exI [of _ j])
qed

lemma demo_requested_room: "room demo_cfg a demo_requested"
proof -
  have "s_state demo_requested = (s_state demo)((1, 5) \<mapsto> \<lparr>st_RewardsPer1Stake = 0, st_Count = 3\<rparr>) \<and>
      w_balance demo_requested = w_balance demo"
    unfolding demo_requested_def undelegate_def
    by (simp add: demo_validator demo_facts demo_cfg_facts GetDelegation_def settle_def state_get_def
        claim_delegator_def state_get_and_decrement_def state_put_def calculateDelegatorReward_def ModifyDelegation_def
        SaveDelegation_def DelegationExists_def update_votes_def add64p_def Let_def ModifyValidator_def
        ValidatorExists_def SaveValidator_def ModifyValidatorRewards_def SaveValidatorRewards_def
        create_undelegation_def CreateUndelegationV2_def genUniqueId_def seq_create_def AddLog_def)
  then show ?thesis
    using demo_room [of a] by (auto simp: room_def demo_cfg_facts demo_facts)
qed

text \<open>C9: cancelling the undelegation that was just made restores every stake and every validator's total.\<close>

theorem cancel_undoes_undelegate:
  assumes "undelegate U cfg ctx b a amount v2 s = Some (s1, Inr j)"
    and "cancelUndelegate U cfg ctx b' a (if v2 then Some j else None) s1 = Some (s2, None)"
  shows "(\<forall>k. stake_of (s_delegation s2 k) = stake_of (s_delegation s k)) \<and> total_of s2 = total_of s"
  using undelegate_cancel [OF assms] by blast

theorem cancel_undoes_undelegate_witness:
  "\<exists>j s1 s2. undelegate uint256_std demo_cfg (demo_ctx 7 0) 5 1 50 True demo = Some (s1, Inr j) \<and>
     cancelUndelegate uint256_std demo_cfg (demo_ctx 7 0) 5 1 (Some j) s1 = Some (s2, None) \<and>
     stake_of (s_delegation s2 (7, 1)) = 200 \<and> total_of s2 1 = Some 200"
proof -
  obtain j where j: "undelegate uint256_std demo_cfg (demo_ctx 7 0) 5 1 50 True demo = Some (demo_requested, Inr j)"
    "UndelegationExists demo_requested 7 1 (Some j)"
    using demo_request by blast
  have v: "GetValidator demo_requested 1 \<noteq> None"
    using ensuresD [OF undelegate_effect j(1)] by (auto simp: stake_moved_def total_of_def demo_validator)
  obtain s2 where s2: "cancelUndelegate uint256_std demo_cfg (demo_ctx 7 0) 5 1 (Some j) demo_requested = Some (s2, None)"
    using cancelUndelegate_safe [OF demo_requested_inv(2) demo_config demo_requested_room uint256_spec_std demo_requested_inv(3),
        of "demo_ctx 7 0" 1 "Some j"] v j(2)
    by (auto simp: safe_result_def cancelUndelegate_def bind_Some_iff Let_def demo_requested_inv(4))
  have "total_of demo 1 = Some 200" "stake_of (s_delegation demo (7, 1)) = 200"
    by (simp_all add: total_of_def stake_of_def demo_validator)
  then show ?thesis using j(1) s2 cancel_undoes_undelegate [OF j(1), of 5 s2] by auto
qed



subsection \<open>Rewards\<close>

text \<open>C11: claiming all rewards goes through every validator of the delegator without an error, and leaves the
  contract able to pay everybody else.\<close>

theorem claimAllRewards_correct:
  assumes "dpos_inv cfg s" and "config_ok cfg" and "solvent cfg 0 s" and "Account ctx = dpos_contract_address"
    and "claims_room cfg (length (s_delegator_validators s (CallerAccount ctx))) s"
  shows "\<exists>s'. claimAllRewards cfg ctx (w_block s) s = Some (s', None) \<and> dpos_inv cfg s' \<and> solvent cfg 0 s' \<and>
    w_block s' = w_block s"
  by (rule claimAllRewards_safe [OF assms])

theorem claimAllRewards_correct_witness:
  "\<exists>s'. claimAllRewards demo_cfg (demo_ctx 7 0) 5 demo = Some (s', None) \<and> dpos_inv demo_cfg s'"
proof -
  have "s_delegator_validators demo 7 = [1]" by (simp add: demo_defs Let_def)
  then have "claims_room demo_cfg (length (s_delegator_validators demo (CallerAccount (demo_ctx 7 0)))) demo"
    using within_limitsD(3) [OF demo_limits [of 0], of 1] by simp
  then show ?thesis
    using claimAllRewards_correct [OF demo_inv demo_config demo_solvent, of "demo_ctx 7 0"] by auto
qed

text \<open>C12: the reward that \<open>getDelegations\<close> reports for a delegation is exactly what \<open>claimRewards\<close> pays for it
  (in a block in which the validator has not been touched yet), although the two compute it separately.\<close>

theorem reported_reward_is_paid:
  assumes "ledger_inv cfg s" and "config_ok cfg" and "room cfg a s" and "solvent cfg 0 s"
    and "Account ctx = dpos_contract_address" and "CallerAccount ctx \<noteq> dpos_contract_address"
    and "s_state s (a, w_block s) = None" and "delegation_data cfg s (CallerAccount ctx) a = Some x"
  shows "\<exists>s'. claimRewards cfg ctx (w_block s) a s = Some (s', None) \<and>
    w_balance s' (CallerAccount ctx) = w_balance s (CallerAccount ctx) + di_Rewards (dd_Delegation x)"
  by (rule reported_reward_paid [OF assms])

theorem reported_reward_is_paid_witness:
  "\<exists>x s'. delegation_data demo_cfg (demo\<lparr>w_block := 20\<rparr>) 7 1 = Some x \<and>
     claimRewards demo_cfg (demo_ctx 7 0) 20 1 (demo\<lparr>w_block := 20\<rparr>) = Some (s', None) \<and>
     w_balance s' 7 = w_balance demo 7 + di_Rewards (dd_Delegation x)"
proof -
  let ?s = "demo\<lparr>w_block := 20\<rparr>"
  have i: "ledger_inv demo_cfg ?s" "solvent demo_cfg 0 ?s"
    using later_block [OF demo_inv, of 20] demo_solvent [of 0] by (simp_all add: dpos_inv_def)
  have r: "room demo_cfg 1 ?s" using demo_room [of 1] by (simp add: room_def)
  have n: "s_state ?s (1, w_block ?s) = None" by (simp add: demo_defs Let_def)
  have c: "CallerAccount (demo_ctx 7 0) \<noteq> dpos_contract_address" by (simp add: dpos_contract_address_def)
  have d: "s_delegation ?s (7, 1) = Some \<lparr>d_Stake = 200, d_LastUpdated = 5\<rparr>" by (simp add: demo_validator)
  obtain x where x: "delegation_data demo_cfg ?s (CallerAccount (demo_ctx 7 0)) 1 = Some x"
    using delegation_data_ok [OF i(1) demo_config d] by auto
  show ?thesis using reported_reward_is_paid [OF i(1) demo_config r i(2) _ c n x] x by auto
qed

text \<open>C13: distributing the rewards of a block never panics, mints at most the reward of the block, in spite
  of all roundings, and keeps the contract solvent: the pools grow by no more than the balance does.\<close>

theorem DistributeRewards_mints_at_most_reward:
  assumes "uint256_spec U" and "dpos_inv cfg s" and "solvent cfg 0 s" and "c_lazy_init_done s"
    and "commissions_ok s" and "percentages_ok cfg" and "stats_ok rs"
    and "block_reward U cfg s = Some (B, s1)" and "uint B < 2 ^ 150"
  shows "\<exists>minted s'. DistributeRewards U cfg rs s = Some (minted, s') \<and> uint minted \<le> uint B \<and>
    dpos_inv cfg s' \<and> solvent cfg 0 s' \<and> w_block s' = w_block s \<and> commissions_kept s s'"
  by (rule DistributeRewards_ok [OF assms])

definition demo_stats :: RewardsStats where
  "demo_stats = \<lparr>rs_BlockAuthor = 1,
     rs_ValidatorsStats = [(1, \<lparr>vs_DagBlocksCount = 3, vs_VoteWeight = 8, vs_FeesRewards = Some 40\<rparr>),
       (2, \<lparr>vs_DagBlocksCount = 2, vs_VoteWeight = 5, vs_FeesRewards = None\<rparr>)],
     rs_TotalDagBlocksCount = 5, rs_TotalVotesWeight = 13, rs_MaxVotesWeight = 14\<rparr>"

lemma demo_stats: "stats_ok demo_stats" "percentages_ok demo_cfg"
  by (simp_all add: stats_ok_def demo_stats_def fees_of_def percentages_ok_def demo_cfg_def)

lemma demo_block_reward: "\<exists>s1. block_reward uint256_std demo_cfg demo = Some (3, s1)"
proof -
  have c: "c_total_supply demo = None" "c_minted_tokens demo = 0" "c_amount_delegated demo = 300"
    using demo_inv demo_ledger(2) by (simp_all add: demo_defs Let_def dpos_inv_def)
  have f: "IsOnAspenHardforkPartTwo (Hardforks demo_cfg) 5" by (simp add: IsOnAspenHardforkPartTwo_def demo_cfg_def)
  have g: "GenesisBalancesSum demo_cfg = 10000" by (simp add: GenesisBalancesSum_def demo_cfg_def)
  show ?thesis
    by (simp add: block_reward_def processBlockReward_def f c g YieldCurve_Init_def CalculateTotalSupply_def
        saveTotalSupplyDb_def CalculateBlockReward_def calculateCurrentYield_def YieldFractionDecimalPrecision_def
        eraseMintedTokensDb_def saveYieldDb_def)
      (simp add: demo_cfg_def uint256_std_def)
qed

theorem DistributeRewards_mints_at_most_reward_witness:
  "\<exists>minted s'. DistributeRewards uint256_std demo_cfg demo_stats demo = Some (minted, s') \<and> uint minted \<le> 3 \<and>
     dpos_inv demo_cfg s' \<and> solvent demo_cfg 0 s'"
proof -
  obtain s1 where "block_reward uint256_std demo_cfg demo = Some (3, s1)" using demo_block_reward by blast
  from DistributeRewards_mints_at_most_reward [OF uint256_spec_std demo_inv demo_solvent demo_block(2) demo_commissions
      demo_stats(2,1) this]
  show ?thesis by auto
qed

text \<open>C14: the order in which the validators' statistics come (in the code, the iteration order of a Go map, which
  is random) does not influence the distribution.\<close>

theorem DistributeRewards_order_irrelevant:
  assumes "uint256_spec U" and "mset (rs_ValidatorsStats rs) = mset stats"
    and "distinct (map fst (rs_ValidatorsStats rs))"
  shows "DistributeRewards U cfg (rs\<lparr>rs_ValidatorsStats := stats\<rparr>) s = DistributeRewards U cfg rs s"
  by (rule DistributeRewards_order [OF assms])

theorem DistributeRewards_order_irrelevant_witness:
  "DistributeRewards uint256_std demo_cfg (demo_stats\<lparr>rs_ValidatorsStats := rev (rs_ValidatorsStats demo_stats)\<rparr>) demo =
   DistributeRewards uint256_std demo_cfg demo_stats demo"
  by (rule DistributeRewards_order_irrelevant) (simp_all add: demo_stats_def)

subsection \<open>Queries\<close>

text \<open>C15: the total delegation reported for a delegator is the sum of the stakes of all its delegations.\<close>

theorem getTotalDelegation_is_sum:
  assumes "ledger_inv cfg s" and "2 * length (s_delegator_validators s d) < 2 ^ 32"
  shows "getTotalDelegation s d = Some (\<Sum>a\<in>UNIV. stake_of (s_delegation s (d, a)))"
  by (rule getTotalDelegation_sum [OF assms])

theorem getTotalDelegation_is_sum_witness: "getTotalDelegation demo 7 = Some (\<Sum>a\<in>UNIV. stake_of (s_delegation demo (7, a)))"
  by (rule getTotalDelegation_is_sum [OF demo_ledger(1)]) (rule within_limitsD(6) [OF demo_limits [of 0, simplified]])

text \<open>C16: a batch of the validators of an owner is the slice of 20 of them in the order of the contract's
  list, skipping the earlier batches, and the end is reported exactly when nothing is left.\<close>

theorem getValidatorsFor_is_slice:
  assumes "ledger_inv cfg s" and "2 * length (s_validators_list s) < 2 ^ 32"
  shows "\<exists>ds end. getValidatorsFor s owner batch = Some (ds, end) \<and>
    map vd_Account ds = take 20 (drop (unat (batch * 20))
      (filter (\<lambda>a. GetValidatorOwner s a = owner) (s_validators_list s))) \<and>
    (end \<longleftrightarrow> length (filter (\<lambda>a. GetValidatorOwner s a = owner) (s_validators_list s)) \<le> unat (batch * 20) + 20)"
  by (rule getValidatorsFor_slice [OF assms])

theorem getValidatorsFor_is_slice_witness:
  "\<exists>ds. getValidatorsFor demo 7 0 = Some (ds, True) \<and> map vd_Account ds = [1]"
proof -
  have "filter (\<lambda>a. GetValidatorOwner demo a = 7) (s_validators_list demo) = [1]"
    by (simp add: demo_defs Let_def GetValidatorOwner_def)
  then show ?thesis
    using getValidatorsFor_is_slice [OF demo_ledger(1) within_limitsD(4) [OF demo_limits [of 0, simplified]], of 7 0]
    by auto
qed

text \<open>C17: a batch of undelegations (second version) is the slice of 20 of the requests of the delegator, validator
  by validator, although the code walks over validators and their numbers of requests with a skip counter;
  in particular that loop ends.\<close>

theorem getUndelegationsV2_is_slice:
  assumes "undelegations_v2_wf s" and "length (s_v2_validators s d) + 1 < 2 ^ 32"
    and "\<And>a. length (s_v2_ids s (d, a)) + 20 < 2 ^ 32"
  shows "getUndelegationsV2 s d batch =
    Some (map (request_data s d) (take 20 (drop (unat (batch * 20)) (v2_requests s d (s_v2_validators s d)))),
          length (v2_requests s d (s_v2_validators s d)) \<le> unat (batch * 20) + 20)"
  by (rule getUndelegationsV2_slice [OF assms])

theorem getUndelegationsV2_is_slice_witness: "getUndelegationsV2 demo 7 3 = Some ([], True)"
proof -
  note l = within_limitsD [OF demo_limits [of 0, simplified]]
  have "undelegations_v2_wf demo" using demo_ledger(1) by (simp add: ledger_inv_def)
  from getUndelegationsV2_is_slice [OF this l(8,9), of 7 3] show ?thesis by (simp add: demo_facts)
qed

definition demo_abi :: abi_ops where
  "demo_abi = \<lparr>AB_MethodById = (\<lambda>input. if take 1 input = [1] then Some M_delegate else None),
     AB_Address = (\<lambda>_. Some 1), AB_AddressAmount = (\<lambda>_. None), AB_AddressId = (\<lambda>_. None),
     AB_AddressBatch = (\<lambda>_. None), AB_Batch = (\<lambda>_ _. None), AB_Redelegate = (\<lambda>_. None),
     AB_SetCommission = (\<lambda>_. None), AB_SetValidatorInfo = (\<lambda>_. None), AB_RegisterValidator = (\<lambda>_. None),
     AB_UndelegationV2 = (\<lambda>_. None)\<rparr>"

text \<open>C18: the gas of every call can be computed, also where it depends on the number of storage reads of a
  query, which a loop counts; computing it changes nothing.\<close>

theorem RequiredGas_is_total:
  assumes "c_lazy_init_done s" and "\<And>d. length (s_v2_validators s d) + 1 < 2 ^ 32"
  shows "\<exists>g. RequiredGas A U cfg ctx input s = Some (g, s)"
  by (rule RequiredGas_total [OF assms])

theorem RequiredGas_is_total_witness: "\<exists>g. RequiredGas demo_abi uint256_std demo_cfg (demo_ctx 7 0) [1, 2, 3, 4] demo = Some (g, demo)"
  by (rule RequiredGas_is_total [OF demo_block(2)]) (rule within_limitsD(8) [OF demo_limits [of 0, simplified]])

subsection \<open>Restarting\<close>

text \<open>C19: a node that stops after the end of a block and starts again has the same number of eligible votes
  and the same total of delegated tokens as before, read back from the storage.\<close>

theorem restart_keeps_counters:
  assumes "c_lazy_init_done s" and "stored_counters s" and "b \<noteq> FixRedelegateBlockNum (Hardforks cfg)"
    and "EndBlockCall cfg b s = Some s1" and "lazy_init U cfg (restart s1) = Some s2"
  shows "c_eligible_vote_count s2 = c_eligible_vote_count s \<and> c_amount_delegated s2 = c_amount_delegated s \<and>
    stored_counters s2"
  by (rule restart_restores [OF assms])

theorem restart_keeps_counters_witness:
  "\<exists>s1 s2. EndBlockCall demo_cfg 5 demo = Some s1 \<and> lazy_init uint256_std demo_cfg (restart s1) = Some s2 \<and>
     c_eligible_vote_count s2 = 30"
proof -
  have st: "stored_counters demo" by (simp add: stored_counters_def demo_defs Let_def)
  have b: "(5 :: block_num) \<noteq> FixRedelegateBlockNum (Hardforks demo_cfg)" by (simp add: demo_cfg_def)
  obtain s1 where s1: "EndBlockCall demo_cfg 5 demo = Some s1" using b by (simp add: EndBlockCall_def Let_def)
  have "YieldCurve_Init uint256_std demo_cfg = Some 20000"
    by (simp add: YieldCurve_Init_def demo_cfg_def uint256_std_def)
  then have "\<exists>s2. lazy_init uint256_std demo_cfg (restart s1) = Some s2" by (simp add: lazy_init_def Let_def)
  then obtain s2 where s2: "lazy_init uint256_std demo_cfg (restart s1) = Some s2" by blast
  show ?thesis using restart_keeps_counters [OF demo_block(2) st b s1 s2] s1 s2 by (simp add: demo_facts)
qed

end
