(* ===== verification/Slashing_Facts.thy ===== *)
theory Slashing_Facts
  imports Slashing
begin

section \<open>Proofs of double voting and the jail\<close>

text \<open>
  A pair of votes has one key, whichever is given first, so that a proof counts once. A refused
  proof changes nothing; an accepted one jails the voter until the end of the jail time.
\<close>

subsection \<open>Keys\<close>

lemma bytes_Compare_values: "bytes_Compare xs ys = - 1 \<or> bytes_Compare xs ys = 0 \<or> bytes_Compare xs ys = 1"
  by (induction xs ys rule: bytes_Compare.induct) auto

lemma bytes_Compare_swap: "bytes_Compare ys xs = - bytes_Compare xs ys"
  by (induction xs ys rule: bytes_Compare.induct) (auto simp: not_less_iff_gr_or_eq)

lemma bytes_Compare_eq: "bytes_Compare xs ys = 0 \<longleftrightarrow> xs = ys"
  by (induction xs ys rule: bytes_Compare.induct) (auto simp: not_less_iff_gr_or_eq)

lemma key_swap: "genDoubleVotingProofDbKey y x = genDoubleVotingProofDbKey x y"
  using bytes_Compare_values [of x y] bytes_Compare_swap [of y x]
  by (auto simp: genDoubleVotingProofDbKey_def Let_def)

lemma key_none: "genDoubleVotingProofDbKey x y = None \<longleftrightarrow> x = y"
  using bytes_Compare_values [of x y] bytes_Compare_eq [of x y]
  by (auto simp: genDoubleVotingProofDbKey_def Let_def)

lemma key_pair:
  assumes "genDoubleVotingProofDbKey x y = Some k"
  shows "k = (x, y) \<or> k = (y, x)"
  using assms by (auto simp: genDoubleVotingProofDbKey_def Let_def split: if_splits)

lemma key_eq:
  "genDoubleVotingProofDbKey x y = genDoubleVotingProofDbKey x' y' \<longleftrightarrow> {x, y} = {x', y'} \<or> (x = y \<and> x' = y')"
proof
  assume eq: "genDoubleVotingProofDbKey x y = genDoubleVotingProofDbKey x' y'"
  show "{x, y} = {x', y'} \<or> (x = y \<and> x' = y')"
  proof (cases "genDoubleVotingProofDbKey x y")
    case None
    then show ?thesis using eq key_none by metis
  next
    case (Some k)
    then show ?thesis using key_pair [OF Some] key_pair [of x' y' k] eq by auto
  qed
next
  assume "{x, y} = {x', y'} \<or> (x = y \<and> x' = y')"
  then consider "x = x'" "y = y'" | "x = y'" "y = x'" | "x = y" "x' = y'" by (auto simp: doubleton_eq_iff)
  then show "genDoubleVotingProofDbKey x y = genDoubleVotingProofDbKey x' y'"
    using key_none [of x y] key_none [of x' y'] key_swap [of y x] by cases simp_all
qed

subsection \<open>Committing a proof\<close>

lemma commit_outcome:
  assumes "commitDoubleVotingProof K V cfg block a b c = Some (c', err)"
  shows "(\<exists>e. err = Some e \<and> c' = c) \<or>
    (err = None \<and> (\<exists>va vb k w. NewVote V a = Some va \<and> NewVote V b = Some vb \<and>
       vote_GetHash K V va \<noteq> vote_GetHash K V vb \<and>
       genDoubleVotingProofDbKey (vote_GetHash K V va) (vote_GetHash K V vb) = Some k \<and>
       \<not> sl_proofs (sc_cur c) k \<and> check_votes va vb = None \<and>
       validateVoteSig K (vote_GetHash K V va) (vote_Signature va) = Some w \<and>
       validateVoteSig K (vote_GetHash K V vb) (vote_Signature vb) = Some w \<and> sc_eligible c w \<and>
       sl_proofs (sc_cur c') = (sl_proofs (sc_cur c))(k := True) \<and>
       sl_jail_block (sc_cur c') = (sl_jail_block (sc_cur c))(w \<mapsto> block + magnolia_JailTime (MagnoliaHf (Hardforks cfg)))))"
  using assms
  by (auto simp: commitDoubleVotingProof_def bind_Some_iff Let_def jailValidator_def saveDoubleVotingProof_def
      addToJailedValidators_def storageInitialization_def doubleVotingProoExists_def
      split: if_splits option.splits)

lemma commit_twice:
  assumes "commitDoubleVotingProof K V cfg block a b c = Some (c', None)"
    and "{x, y} = {a, b}" and "x \<noteq> y"
  shows "commitDoubleVotingProof K V cfg' block' x y c' = Some (c', Some ErrExistingDoubleVotingProof)"
proof -
  from commit_outcome [OF assms(1)] obtain va vb k where
    v: "NewVote V a = Some va" "NewVote V b = Some vb" "vote_GetHash K V va \<noteq> vote_GetHash K V vb"
    "genDoubleVotingProofDbKey (vote_GetHash K V va) (vote_GetHash K V vb) = Some k" "sl_proofs (sc_cur c') k"
    by auto
  have "x = a \<and> y = b \<or> x = b \<and> y = a" using assms(2,3) by (auto simp: doubleton_eq_iff)
  then show ?thesis
    using v key_swap [of "vote_GetHash K V vb" "vote_GetHash K V va"]
    by (auto simp: commitDoubleVotingProof_def doubleVotingProoExists_def Let_def)
qed

lemma jailed_until:
  assumes "commitDoubleVotingProof K V cfg block a b c = Some (c', None)"
    and fork: "IsOnMagnoliaHardfork (Hardforks cfg) block"
  shows "\<exists>w. sc_eligible c w \<and> (\<forall>n \<ge> block. IsJailed cfg (sc_db (slashing_CommitCall d e c')) n w \<longleftrightarrow>
    n \<le> block + magnolia_JailTime (MagnoliaHf (Hardforks cfg)))"
proof -
  from commit_outcome [OF assms(1)] obtain w where
    w: "sc_eligible c w" "sl_jail_block (sc_cur c') w = Some (block + magnolia_JailTime (MagnoliaHf (Hardforks cfg)))"
    by auto
  have "IsOnMagnoliaHardfork (Hardforks cfg) n" if "block \<le> n" for n
    using fork that by (auto simp: IsOnMagnoliaHardfork_def dest: order.trans)
  then show ?thesis
    using w by (intro exI [of _ w]) (auto simp: IsJailed_def reader_getJailBlock_def slashing_CommitCall_def not_less)
qed

end
