(* ===== verification/Word_Facts.thy ===== *)
theory Word_Facts
  imports Byte_Codecs
begin

section \<open>Machine words and byte strings\<close>

text \<open>Lemmas on words as numbers and on big endian byte strings that the codecs and the virtual machine share.\<close>

unbundle bit_operations_syntax

lemma unat_of_nat_small: "n < 2 ^ LENGTH('a) \<Longrightarrow> unat (of_nat n :: 'a::len word) = n"
  by (simp add: unsigned_of_nat take_bit_nat_eq_self)

lemma ucast_of_nat_small: "n < 2 ^ LENGTH('a) \<Longrightarrow> (ucast (of_nat n :: 'a::len word) :: 'b::len word) = of_nat n"
  by (metis of_nat_unat unat_of_nat_small)

lemma unat_add_small: "unat a + unat b < 2 ^ LENGTH('a) \<Longrightarrow> unat (a + b) = unat a + unat (b :: 'a::len word)"
  by (metis of_nat_add of_nat_unat ucast_id unat_of_nat_small)

lemma unat_sub_le: "b \<le> a \<Longrightarrow> unat (a - b) = unat a - unat (b :: 'a::len word)"
  by (rule unat_sub)

lemma unat_bound: "unat (a :: 'a::len word) < 2 ^ LENGTH('a)"
  by (rule unsigned_less)

lemma unat_ucast_byte [simp]: "unat (ucast (y :: byte) :: u64) = unat y"
  using unat_bound [of y] by (simp add: unsigned_ucast_eq take_bit_nat_eq_self)

lemma ucast_byte_eq_1: "(ucast (y :: byte) :: u64) = 1 \<longleftrightarrow> unat y = 1"
  by (simp add: word_unat_eq_iff)

lemma unat_1_plus_byte: "unat (1 + ucast (y :: byte) :: u64) = Suc (unat y)"
  using unat_bound [of y] by (subst unat_add_small) simp_all

text \<open>The number that a byte string stands for, the highest byte first.\<close>

fun be_val :: "bytes \<Rightarrow> nat" where
  "be_val [] = 0"
| "be_val (x # xs) = unat x * 256 ^ length xs + be_val xs"

lemma be_val_less: "be_val bs < 256 ^ length bs"
proof (induction bs)
  case (Cons x xs)
  have "unat x \<le> 255" using unat_bound [of x] by simp
  then have "unat x * 256 ^ length xs \<le> 255 * 256 ^ length xs" by (rule mult_right_mono) simp
  moreover have "be_val (x # xs) = unat x * 256 ^ length xs + be_val xs" "256 ^ length (x # xs) = 256 * (256 :: nat) ^ length xs"
    by simp_all
  ultimately show ?case using Cons by linarith
qed simp

lemma be_val_ge: "bs \<noteq> [] \<Longrightarrow> hd bs \<noteq> 0 \<Longrightarrow> 256 ^ (length bs - 1) \<le> be_val bs"
proof (cases bs)
  case (Cons x xs)
  assume "hd bs \<noteq> 0"
  with Cons have "1 \<le> unat x" by (simp add: Suc_le_eq unat_gt_0)
  then have "1 * 256 ^ length xs \<le> unat x * 256 ^ length xs" by (rule mult_right_mono) simp
  also have "\<dots> \<le> be_val bs" using Cons by simp
  finally show ?thesis using Cons by simp
qed simp

lemma be_val_inj: "length xs = length ys \<Longrightarrow> be_val xs = be_val ys \<Longrightarrow> xs = ys"
proof (induction xs ys rule: list_induct2)
  case (Cons x xs y ys)
  have l: "be_val xs < 256 ^ length xs" "be_val ys < 256 ^ length xs"
    using be_val_less [of xs] be_val_less [of ys] Cons.hyps by simp_all
  have e: "unat x * 256 ^ length xs + be_val xs = unat y * 256 ^ length xs + be_val ys"
    using Cons.prems Cons.hyps by simp
  have "unat x = unat y"
    using arg_cong [OF e, of "\<lambda>n. n div 256 ^ length xs"] l by simp
  with e Cons.IH show ?case by (simp add: word_unat_eq_iff)
qed simp

lemma or_byte:
  assumes "unat a * 256 + unat x < 2 ^ LENGTH('a)"
  shows "unat (push_bit 8 a OR ucast (x :: byte) :: 'a::len word) = unat a * 256 + unat x"
proof -
  have "push_bit 8 a + ucast x = (push_bit 8 a OR ucast x :: 'a word)"
    by (rule disjunctive_add) (auto simp: bit_simps dest: bit_imp_le_length)
  moreover have p: "unat (push_bit 8 a) = unat a * 256" using assms
    by (simp only: unsigned_push_bit_eq) (simp add: push_bit_eq_mult take_bit_nat_eq_self)
  moreover have u: "unat (ucast x :: 'a word) = unat x"
    using assms by (simp add: unsigned_ucast_eq take_bit_nat_eq_self)
  ultimately show ?thesis using assms unat_add_small [of "push_bit 8 a" "ucast x :: 'a word"] by simp
qed

lemma be_fold_val:
  assumes "unat a * 256 ^ length bs + be_val bs < 2 ^ LENGTH('a)"
  shows "unat (foldl (\<lambda>r x. push_bit 8 r OR ucast x) (a :: 'a::len word) bs) = unat a * 256 ^ length bs + be_val bs"
  using assms
proof (induction bs arbitrary: a)
  case (Cons x xs)
  have "(unat a * 256 + unat x) * 1 \<le> (unat a * 256 + unat x) * 256 ^ length xs" by (rule mult_left_mono) simp_all
  with Cons.prems have "unat a * 256 + unat x < 2 ^ LENGTH('a)" by (simp add: algebra_simps)
  then have "unat (push_bit 8 a OR ucast x) = unat a * 256 + unat x" by (rule or_byte)
  with Cons.IH [of "push_bit 8 a OR ucast x"] Cons.prems show ?case by (simp add: algebra_simps)
qed simp

lemma be_decode_val: "8 * length bs \<le> LENGTH('a) \<Longrightarrow> unat (be_decode bs :: 'a::len word) = be_val bs"
proof -
  assume l: "8 * length bs \<le> LENGTH('a)"
  have "be_val bs < 2 ^ (8 * length bs)" using be_val_less [of bs] by (simp add: power_mult)
  also have "\<dots> \<le> 2 ^ LENGTH('a)" using l by (intro power_increasing) simp_all
  finally show ?thesis using be_fold_val [of "0 :: 'a word" bs] by (simp add: be_decode_def)
qed

lemma be_encode_decode:
  assumes "8 * length bs \<le> LENGTH('a)"
  shows "be_encode (length bs) (be_decode bs :: 'a::len word) = bs"
proof (rule be_val_inj)
  let ?v = "be_decode bs :: 'a word"
  have "unat ?v < 2 ^ (8 * length bs)" using be_val_less [of bs] be_decode_val [OF assms] by (simp add: power_mult)
  then have "take_bit (8 * length bs) ?v = ?v"
    by (intro word_unat_eq_iff [THEN iffD2]) (simp add: unsigned_take_bit_eq take_bit_nat_eq_self)
  then have "be_decode (be_encode (length bs) ?v) = ?v" by (simp add: be_decode_encode)
  then have "unat (be_decode (be_encode (length bs) ?v) :: 'a word) = unat ?v" by simp
  then show "be_val (be_encode (length bs) ?v) = be_val bs"
    using assms by (simp add: be_decode_val)
qed simp

lemma SizeInBytes_bounds:
  assumes "1 \<le> n" and "n \<le> 8" and "unat i < 256 ^ n" and "256 ^ (n - 1) \<le> unat i"
  shows "SizeInBytes i = n"
proof -
  consider "n = 1" | "n = 2" | "n = 3" | "n = 4" | "n = 5" | "n = 6" | "n = 7" | "n = 8" using assms(1,2) by linarith
  then show ?thesis using assms(3,4)
    by cases (simp_all add: SizeInBytes_def word_less_nat_alt)
qed

lemma SizeInBytes_ge1 [simp]: "Suc 0 \<le> SizeInBytes i" "SizeInBytes i \<noteq> 0" "0 < SizeInBytes i"
  by (simp_all add: SizeInBytes_def)

lemma SizeInBytes_ge: "256 \<le> unat i \<Longrightarrow> 256 ^ (SizeInBytes i - 1) \<le> unat i"
  by (simp add: SizeInBytes_def word_less_nat_alt)

lemma SizeInBytes_lt: "unat i < 256 ^ SizeInBytes i"
  using unat_bound [of i] by (simp add: SizeInBytes_def word_less_nat_alt)

lemma be_encode_val: "unat v < 256 ^ n \<Longrightarrow> 8 * n \<le> LENGTH('a) \<Longrightarrow> be_val (be_encode n (v :: 'a::len word)) = unat v"
  using be_decode_val [of "be_encode n v", where ?'a = 'a]
  by (simp add: be_decode_encode unsigned_take_bit_eq take_bit_nat_eq_self power_mult)

end
