(* ===== verification/Rlp.thy ===== *)
theory Rlp
  imports Word_Facts
begin

section \<open>Recursive length prefix encoding\<close>

text \<open>
  \<open>src/rlp\<close>: the encoder of \<open>encode.go\<close>, which collects the bytes of strings in one buffer and the headers of lists in
  another, since the size of a list is known only when it ends, and the functions of \<open>raw.go\<close> that take encoded values
  apart. Sizes in the encoder are 32 bits wide, in the headers 64. What reflection finds in a Go value is a tree of byte
  strings and lists here.
\<close>

unbundle bit_operations_syntax

datatype rlp_item = RStr bytes | RList "rlp_item list"

datatype rlp_error = ErrUnexpectedEOF | ErrCanonSize | ErrValueTooLarge | ErrExpectedString | ErrExpectedList
  | ErrNegativeBigInt

definition EmptyString :: byte where "EmptyString = 0x80"

subsection \<open>Headers\<close>

definition headsize :: "u64 \<Rightarrow> byte" where
  "headsize n = (if n < 56 then 1 else 1 + of_nat (SizeInBytes n))"

text \<open>\<open>putint\<close>: a tag that says how many bytes follow, and the bytes that \<open>i\<close> needs, the highest first.\<close>

definition putint :: "u64 \<Rightarrow> byte \<Rightarrow> bytes" where
  "putint i tag =
     (if i < 2 ^ 8 then (1 + tag) # be_encode 1 i
      else if i < 2 ^ 16 then (2 + tag) # be_encode 2 i
      else if i < 2 ^ 24 then (3 + tag) # be_encode 3 i
      else if i < 2 ^ 32 then (4 + tag) # be_encode 4 i
      else if i < 2 ^ 40 then (5 + tag) # be_encode 5 i
      else if i < 2 ^ 48 then (6 + tag) # be_encode 6 i
      else if i < 2 ^ 56 then (7 + tag) # be_encode 7 i
      else (8 + tag) # be_encode 8 i)"

definition puthead :: "byte \<Rightarrow> byte \<Rightarrow> u64 \<Rightarrow> bytes" where
  "puthead smalltag largetag n = (if n < 56 then [smalltag + ucast n] else putint n largetag)"

definition ToRLPString :: "bytes \<Rightarrow> bytes" where
  "ToRLPString str =
     (let size = length str in
      if size = 1 \<and> str ! 0 \<le> 0x7F then [str ! 0]
      else if size < 56 then (EmptyString + of_nat size) # str
      else putint (of_nat size) 0xB7 @ str)"

definition ToRLPStringSimple :: "bytes \<Rightarrow> bytes" where
  "ToRLPStringSimple str = ToRLPString str"

subsection \<open>The encoder\<close>

record ListHead =
  lh_strpos :: u32
  base_lhsize :: u32
  elems_size :: u32
  closed :: bool

record Encoder =
  enc_str :: bytes
  lheads :: "ListHead list"
  lhsize :: u32

definition enc_Reset :: "Encoder \<Rightarrow> Encoder" where
  "enc_Reset e = e\<lparr>enc_str := [], lheads := [], lhsize := 0\<rparr>"

definition empty_encoder :: Encoder where
  "empty_encoder = \<lparr>enc_str = [], lheads = [], lhsize = 0\<rparr>"

definition enc_Size :: "Encoder \<Rightarrow> u32" where
  "enc_Size e = of_nat (length (enc_str e)) + lhsize e"

definition enc_ListSize :: "nat \<Rightarrow> Encoder \<Rightarrow> u32 option" where
  "enc_ListSize list_pos e =
     (if list_pos < length (lheads e) then
        let lh = lheads e ! list_pos in
        if closed lh then Some (elems_size lh + ucast (headsize (ucast (elems_size lh)))) else None
      else None)"

definition enc_ListStart :: "Encoder \<Rightarrow> nat \<times> Encoder" where
  "enc_ListStart e =
     (length (lheads e),
      e\<lparr>lheads := lheads e @ [\<lparr>lh_strpos = of_nat (length (enc_str e)), base_lhsize = lhsize e, elems_size = 0,
          closed = False\<rparr>]\<rparr>)"

definition enc_ListEnd :: "nat \<Rightarrow> Encoder \<Rightarrow> Encoder option" where
  "enc_ListEnd list_pos e =
     (if list_pos < length (lheads e) then
        let lh = lheads e ! list_pos in
        if \<not> closed lh then
          let size = enc_Size e - lh_strpos lh - base_lhsize lh in
          Some (e\<lparr>lheads := (lheads e)[list_pos := lh\<lparr>elems_size := size, closed := True\<rparr>],
                  lhsize := lhsize e + ucast (headsize (ucast size))\<rparr>)
        else None
      else None)"

definition enc_RevertToListStart :: "nat \<Rightarrow> Encoder \<Rightarrow> Encoder option" where
  "enc_RevertToListStart list_pos e =
     (if list_pos < length (lheads e) \<and> unat (lh_strpos (lheads e ! list_pos)) \<le> length (enc_str e) then
        let lh = lheads e ! list_pos in
        Some (e\<lparr>lheads := take list_pos (lheads e), enc_str := take (unat (lh_strpos lh)) (enc_str e),
                lhsize := base_lhsize lh\<rparr>)
      else None)"

text \<open>\<open>Flush\<close> goes through the list heads in the order in which the lists start; slicing backwards panics.\<close>

fun flush_heads :: "nat \<Rightarrow> ListHead list \<Rightarrow> bytes \<Rightarrow> bytes option" where
  "flush_heads strpos [] str = (if strpos \<le> length str then Some (drop strpos str) else None)"
| "flush_heads strpos (lh # lhs) str = do {
     _ \<leftarrow> holds (strpos \<le> unat (lh_strpos lh) \<and> unat (lh_strpos lh) \<le> length str);
     _ \<leftarrow> holds (closed lh);
     out \<leftarrow> flush_heads (unat (lh_strpos lh)) lhs str;
     Some (drop strpos (take (unat (lh_strpos lh)) str) @ puthead 0xC0 0xF7 (ucast (elems_size lh)) @ out) }"

text \<open>\<open>list_pos\<close> is \<open>-1\<close> for everything.\<close>

definition enc_Flush :: "int \<Rightarrow> Encoder \<Rightarrow> bytes option" where
  "enc_Flush list_pos e =
     (if list_pos = -1 then flush_heads 0 (lheads e) (enc_str e)
      else if 0 \<le> list_pos \<and> nat list_pos < length (lheads e) then
        flush_heads (unat (lh_strpos (lheads e ! nat list_pos))) (drop (nat list_pos) (lheads e)) (enc_str e)
      else None)"

definition enc_ToBytes :: "int \<Rightarrow> Encoder \<Rightarrow> bytes option" where
  "enc_ToBytes since_list_pos e = enc_Flush since_list_pos e"

definition AppendRaw :: "bytes \<Rightarrow> Encoder \<Rightarrow> Encoder option" where
  "AppendRaw b e =
     (if int (2 ^ 32 - 1) - int (length (enc_str e)) > int (length b) then Some (e\<lparr>enc_str := enc_str e @ b\<rparr>) else None)"

definition AppendEmptyString :: "Encoder \<Rightarrow> Encoder option" where
  "AppendEmptyString e = AppendRaw [EmptyString] e"

definition AppendString :: "bytes \<Rightarrow> Encoder \<Rightarrow> Encoder option" where
  "AppendString str e = (if length str = 0 then AppendEmptyString e else AppendRaw (ToRLPString str) e)"

definition AppendUint :: "u64 \<Rightarrow> Encoder \<Rightarrow> Encoder option" where
  "AppendUint i e =
     (if i = 0 then AppendEmptyString e
      else if i < 128 then AppendRaw [ucast i] e
      else AppendRaw (putint i EmptyString) e)"

text \<open>\<open>big.Int.Bytes\<close>: the absolute value in as few bytes as it needs, the highest first.\<close>

fun nat_bytes :: "nat \<Rightarrow> bytes" where
  "nat_bytes n = (if n = 0 then [] else nat_bytes (n div 256) @ [of_nat (n mod 256)])"

declare nat_bytes.simps [simp del]

definition big_Bytes :: "int \<Rightarrow> bytes" where
  "big_Bytes i = nat_bytes (nat \<bar>i\<bar>)"

definition AppendBigInt :: "int \<Rightarrow> Encoder \<Rightarrow> (Encoder \<times> rlp_error option) option" where
  "AppendBigInt i e =
     (if i = 0 then map_option (\<lambda>e'. (e', None)) (AppendEmptyString e)
      else if i > 0 then map_option (\<lambda>e'. (e', None)) (AppendString (big_Bytes i) e)
      else Some (e, Some ErrNegativeBigInt))"

text \<open>The writers of \<open>[]byte\<close> and \<open>[]interface{}\<close>.\<close>

fun write_item :: "rlp_item \<Rightarrow> Encoder \<Rightarrow> Encoder option"
and write_items :: "rlp_item list \<Rightarrow> Encoder \<Rightarrow> Encoder option" where
  "write_item (RStr b) e = AppendString b e"
| "write_item (RList xs) e = (let (pos, e1) = enc_ListStart e in do { e2 \<leftarrow> write_items xs e1; enc_ListEnd pos e2 })"
| "write_items [] e = Some e"
| "write_items (x # xs) e = do { e1 \<leftarrow> write_item x e; write_items xs e1 }"

definition EncodeToBytes :: "rlp_item \<Rightarrow> bytes option" where
  "EncodeToBytes val = do { e \<leftarrow> write_item val empty_encoder; enc_ToBytes (-1) e }"

subsection \<open>Taking values apart\<close>

datatype Kind = KByte | KString | KList

definition readSize :: "bytes \<Rightarrow> byte \<Rightarrow> rlp_error + u64" where
  "readSize b slen =
     (if unat slen > length b then Inl ErrUnexpectedEOF
      else
        let s = (if 1 \<le> slen \<and> slen \<le> 8 then be_decode (take (unat slen) b) else 0) in
        if s < 56 \<or> b ! 0 = 0 then Inl ErrCanonSize else Inr s)"

definition ReadKind :: "bytes \<Rightarrow> rlp_error + Kind \<times> byte \<times> u64" where
  "ReadKind buf =
     (let buflen = of_nat (length buf) :: u64 in
      if buflen = 0 then Inl ErrUnexpectedEOF
      else
        let b = buf ! 0;
            r = (if b < 0x80 then Inr (KByte, 0, 1)
                 else if b < 0xB8 then
                   let contentsize = ucast (b - 0x80) :: u64 in
                   if contentsize = 1 \<and> buflen > 1 \<and> buf ! 1 < 128 then Inl ErrCanonSize
                   else Inr (KString, 1, contentsize)
                 else if b < 0xC0 then
                   (case readSize (tl buf) (b - 0xB7) of
                      Inl e \<Rightarrow> Inl e | Inr contentsize \<Rightarrow> Inr (KString, b - 0xB7 + 1, contentsize))
                 else if b < 0xF8 then Inr (KList, 1, ucast (b - 0xC0))
                 else
                   (case readSize (tl buf) (b - 0xF7) of
                      Inl e \<Rightarrow> Inl e | Inr contentsize \<Rightarrow> Inr (KList, b - 0xF7 + 1, contentsize)))
        in case r of
             Inl e \<Rightarrow> Inl e
           | Inr (k, tagsize, contentsize) \<Rightarrow>
               if contentsize > buflen - ucast tagsize then Inl ErrValueTooLarge
               else Inr (k, tagsize, ucast tagsize + contentsize))"

definition Split :: "bytes \<Rightarrow> rlp_error + Kind \<times> bytes \<times> bytes" where
  "Split b =
     (case ReadKind b of
        Inl e \<Rightarrow> Inl e
      | Inr (k, tagsize, total_size) \<Rightarrow>
          Inr (k, drop (unat tagsize) (take (unat total_size) b), drop (unat total_size) b))"

definition SplitString :: "bytes \<Rightarrow> rlp_error + bytes \<times> bytes" where
  "SplitString b =
     (case Split b of
        Inl e \<Rightarrow> Inl e
      | Inr (k, content, rest) \<Rightarrow> if k = KList then Inl ErrExpectedString else Inr (content, rest))"

definition SplitList :: "bytes \<Rightarrow> rlp_error + bytes \<times> bytes" where
  "SplitList b =
     (case Split b of
        Inl e \<Rightarrow> Inl e
      | Inr (k, content, rest) \<Rightarrow> if k \<noteq> KList then Inl ErrExpectedList else Inr (content, rest))"

text \<open>Every value has at least one byte, so the loop ends; the fuel is the length of the input.\<close>

fun count_values :: "nat \<Rightarrow> bytes \<Rightarrow> nat \<Rightarrow> rlp_error + nat" where
  "count_values fuel [] i = Inr i"
| "count_values 0 (x # xs) i = Inl ErrUnexpectedEOF"
| "count_values (Suc fuel) (x # xs) i =
     (case ReadKind (x # xs) of
        Inl e \<Rightarrow> Inl e
      | Inr (_, _, total_size) \<Rightarrow> count_values fuel (drop (unat total_size) (x # xs)) (i + 1))"

definition CountValues :: "bytes \<Rightarrow> rlp_error + nat" where
  "CountValues b = count_values (length b) b 0"

end
