(* ===== verification/Rlp_Facts.thy ===== *)
theory Rlp_Facts
  imports Rlp
begin

section \<open>The encoder writes the recursive length prefix encoding\<close>

text \<open>
  The encoding as it is defined, without buffers: a list is the header with the length of what its elements encode to,
  followed by them. The encoder, which knows the length of a list only after the elements and puts the headers in
  their places at the end, computes the same bytes.
\<close>

unbundle bit_operations_syntax

fun rlp_encode :: "rlp_item \<Rightarrow> bytes" where
  "rlp_encode (RStr b) = ToRLPString b"
| "rlp_encode (RList xs) =
     (let payload = concat (map rlp_encode xs) in puthead 0xC0 0xF7 (of_nat (length payload)) @ payload)"

subsection \<open>Sizes\<close>

lemma putint_SizeInBytes: "putint i tag = (of_nat (SizeInBytes i) + tag) # be_encode (SizeInBytes i) i"
  by (simp add: putint_def SizeInBytes_def)

lemma headsize_small: "unat (headsize n) = (if n < 56 then 1 else 1 + SizeInBytes n)"
proof -
  have "unat (of_nat (Suc (SizeInBytes n)) :: byte) = Suc (SizeInBytes n)"
    using SizeInBytes_le [of n] by (intro unat_of_nat_small) simp
  then show ?thesis by (simp add: headsize_def)
qed

lemma length_puthead: "length (puthead s l n) = unat (headsize n)"
  by (simp add: headsize_small puthead_def putint_SizeInBytes)

subsection \<open>Flushing\<close>

definition prepend :: "bytes \<Rightarrow> bytes option \<Rightarrow> bytes option" where
  "prepend a r = map_option (\<lambda>b. a @ b) r"

lemma prepend_simps [simp]:
  "prepend [] r = r" "prepend a (prepend b r) = prepend (a @ b) r" "prepend a None = None" "prepend a (Some b) = Some (a @ b)"
  by (cases r; simp add: prepend_def)+

lemma flush_skip:
  assumes "p + k \<le> length str" and "\<forall>h\<in>set hs. p + k \<le> unat (lh_strpos h)"
  shows "flush_heads p hs str = prepend (take k (drop p str)) (flush_heads (p + k) hs str)"
proof (cases hs)
  case Nil
  then show ?thesis using assms by (simp add: add.commute) (metis append_take_drop_id drop_drop add.commute)
next
  case (Cons h hs')
  let ?q = "unat (lh_strpos h)"
  have q: "p + k \<le> ?q" using assms(2) Cons by simp
  have "drop p (take ?q str) = take k (drop p str) @ drop (p + k) (take ?q str)"
    using append_take_drop_id [of k "drop p (take ?q str)", symmetric] q by (simp add: drop_take add.commute min_def)
  then show ?thesis using Cons q by (cases "flush_heads ?q hs' str") (auto simp: holds_def)
qed

text \<open>
  Between \<open>e\<close> and \<open>e'\<close> the encoder took in what flushes to \<open>out\<close>, whatever comes after.
\<close>

definition writes :: "bytes \<Rightarrow> Encoder \<Rightarrow> Encoder \<Rightarrow> bool" where
  "writes out e e' \<longleftrightarrow>
     (\<exists>s hs n. enc_str e' = enc_str e @ s \<and> lheads e' = lheads e @ hs \<and> lhsize e' = lhsize e + of_nat n \<and>
       length s + n = length out \<and> (\<forall>h\<in>set hs. length (enc_str e) \<le> unat (lh_strpos h)) \<and>
       (\<forall>post hs2. (\<forall>h\<in>set hs2. length (enc_str e') \<le> unat (lh_strpos h)) \<longrightarrow>
          flush_heads (length (enc_str e)) (hs @ hs2) (enc_str e' @ post) =
          prepend out (flush_heads (length (enc_str e')) hs2 (enc_str e' @ post))))"

lemma writesE:
  assumes "writes out e e'"
  obtains s hs n where "enc_str e' = enc_str e @ s" "lheads e' = lheads e @ hs" "lhsize e' = lhsize e + of_nat n"
    "length s + n = length out" "\<And>h. h \<in> set hs \<Longrightarrow> length (enc_str e) \<le> unat (lh_strpos h)"
    "\<And>post hs2. \<forall>h\<in>set hs2. length (enc_str e') \<le> unat (lh_strpos h) \<Longrightarrow>
       flush_heads (length (enc_str e)) (hs @ hs2) (enc_str e' @ post) =
       prepend out (flush_heads (length (enc_str e')) hs2 (enc_str e' @ post))"
  using assms unfolding writes_def by blast

lemma writes_nil: "writes [] e e"
  unfolding writes_def by (intro exI [of _ "[]"] exI [of _ 0]) simp

lemma writes_length: "writes out e e' \<Longrightarrow> length (enc_str e') \<le> length (enc_str e) + length out"
  by (elim writesE) simp

lemma writes_append:
  assumes "writes out e e1" and "writes out' e1 e2"
  shows "writes (out @ out') e e2"
proof -
  from assms(1) obtain s hs n where 1: "enc_str e1 = enc_str e @ s" "lheads e1 = lheads e @ hs"
    "lhsize e1 = lhsize e + of_nat n" "length s + n = length out"
    "\<And>h. h \<in> set hs \<Longrightarrow> length (enc_str e) \<le> unat (lh_strpos h)"
    "\<And>post hs2. \<forall>h\<in>set hs2. length (enc_str e1) \<le> unat (lh_strpos h) \<Longrightarrow>
       flush_heads (length (enc_str e)) (hs @ hs2) (enc_str e1 @ post) =
       prepend out (flush_heads (length (enc_str e1)) hs2 (enc_str e1 @ post))" by (rule writesE) blast
  from assms(2) obtain s' hs' n' where 2: "enc_str e2 = enc_str e1 @ s'" "lheads e2 = lheads e1 @ hs'"
    "lhsize e2 = lhsize e1 + of_nat n'" "length s' + n' = length out'"
    "\<And>h. h \<in> set hs' \<Longrightarrow> length (enc_str e1) \<le> unat (lh_strpos h)"
    "\<And>post hs2. \<forall>h\<in>set hs2. length (enc_str e2) \<le> unat (lh_strpos h) \<Longrightarrow>
       flush_heads (length (enc_str e1)) (hs' @ hs2) (enc_str e2 @ post) =
       prepend out' (flush_heads (length (enc_str e2)) hs2 (enc_str e2 @ post))" by (rule writesE) blast
  have f: "flush_heads (length (enc_str e)) ((hs @ hs') @ hs2) (enc_str e2 @ post) =
      prepend (out @ out') (flush_heads (length (enc_str e2)) hs2 (enc_str e2 @ post))"
    if "\<forall>h\<in>set hs2. length (enc_str e2) \<le> unat (lh_strpos h)" for post hs2
  proof -
    have le: "\<forall>h\<in>set (hs' @ hs2). length (enc_str e1) \<le> unat (lh_strpos h)"
      using that 2(1,5) by (auto intro: order_trans [rotated])
    show ?thesis using 1(6) [OF le, of "s' @ post"] 2(6) [OF that, of post] 2(1)
      by simp
  qed
  have le: "length (enc_str e) \<le> unat (lh_strpos h)" if "h \<in> set (hs @ hs')" for h
    using that 1(1) 1(5) [of h] 2(5) [of h] by auto
  show ?thesis unfolding writes_def
    by (rule exI [of _ "s @ s'"], rule exI [of _ "hs @ hs'"], rule exI [of _ "n + n'"])
      (use 1(1-4) 2(1-4) f le in auto)
qed

lemma writes_raw: "AppendRaw b e = Some e' \<Longrightarrow> writes b e e'"
  unfolding writes_def AppendRaw_def
  by (rule exI [of _ b], rule exI [of _ "[]"], rule exI [of _ 0])
    (auto split: if_splits simp: flush_skip [where k = "length b"])

lemma AppendRaw_total:
  "length (enc_str e) + length b < 2 ^ 32 - 1 \<Longrightarrow> AppendRaw b e = Some (e\<lparr>enc_str := enc_str e @ b\<rparr>)"
  by (simp add: AppendRaw_def)

lemma AppendString_raw: "AppendString b e = AppendRaw (ToRLPString b) e"
  by (simp add: AppendString_def AppendEmptyString_def ToRLPString_def)

lemma writes_list:
  assumes "enc_ListStart e = (pos, e1)" and "writes out e1 e2"
    and "length (enc_str e) < 2 ^ 32" and "length out < 2 ^ 32"
  shows "\<exists>e3. enc_ListEnd pos e2 = Some e3 \<and> writes (puthead 0xC0 0xF7 (of_nat (length out)) @ out) e e3"
proof -
  let ?h = "\<lparr>lh_strpos = of_nat (length (enc_str e)), base_lhsize = lhsize e, elems_size = 0, closed = False\<rparr>"
  let ?k = "unat (headsize (of_nat (length out)))"
  have e1: "pos = length (lheads e)" "enc_str e1 = enc_str e" "lheads e1 = lheads e @ [?h]" "lhsize e1 = lhsize e"
    using assms(1) by (auto simp: enc_ListStart_def)
  from assms(2) obtain s hs n where w: "enc_str e2 = enc_str e1 @ s" "lheads e2 = lheads e1 @ hs"
    "lhsize e2 = lhsize e1 + of_nat n" "length s + n = length out"
    "\<And>h. h \<in> set hs \<Longrightarrow> length (enc_str e1) \<le> unat (lh_strpos h)"
    "\<And>post hs2. \<forall>h\<in>set hs2. length (enc_str e2) \<le> unat (lh_strpos h) \<Longrightarrow>
       flush_heads (length (enc_str e1)) (hs @ hs2) (enc_str e2 @ post) =
       prepend out (flush_heads (length (enc_str e2)) hs2 (enc_str e2 @ post))" by (rule writesE) blast
  have sz: "enc_Size e2 - of_nat (length (enc_str e)) - lhsize e = of_nat (length out)"
    using w(1,3,4) e1 by (simp add: enc_Size_def flip: w(4))
  have c: "(ucast (of_nat (length out) :: u32) :: u64) = of_nat (length out)"
    using assms(4) by (intro ucast_of_nat_small) simp
  let ?h' = "?h\<lparr>elems_size := of_nat (length out), closed := True\<rparr>"
  let ?e3 = "e2\<lparr>lheads := lheads e @ ?h' # hs, lhsize := lhsize e2 + of_nat ?k\<rparr>"
  have end3: "enc_ListEnd pos e2 = Some ?e3"
    using e1 w(2) sz c by (simp add: enc_ListEnd_def Let_def list_update_append)
  have p: "unat (of_nat (length (enc_str e)) :: u32) = length (enc_str e)"
    using assms(3) by (intro unat_of_nat_small) simp
  have f: "flush_heads (length (enc_str e)) ((?h' # hs) @ hs2) (enc_str ?e3 @ post) =
      prepend (puthead 0xC0 0xF7 (of_nat (length out)) @ out)
        (flush_heads (length (enc_str ?e3)) hs2 (enc_str ?e3 @ post))"
    if "\<forall>h\<in>set hs2. length (enc_str ?e3) \<le> unat (lh_strpos h)" for post hs2
    using w(6) [of hs2 post] that e1 w(1) p c
    by (cases "flush_heads (length (enc_str e2)) hs2 (enc_str e2 @ post)") simp_all
  have "writes (puthead 0xC0 0xF7 (of_nat (length out)) @ out) e ?e3" unfolding writes_def
    by (rule exI [of _ s], rule exI [of _ "?h' # hs"], rule exI [of _ "?k + n"])
      (use w e1 f p in \<open>auto simp: length_puthead\<close>)
  with end3 show ?thesis by blast
qed

lemma write_item_writes:
  "length (enc_str e) + length (rlp_encode x) < 2 ^ 32 - 1 \<Longrightarrow>
     \<exists>e'. write_item x e = Some e' \<and> writes (rlp_encode x) e e'"
  "length (enc_str e) + length (concat (map rlp_encode xs)) < 2 ^ 32 - 1 \<Longrightarrow>
     \<exists>e'. write_items xs e = Some e' \<and> writes (concat (map rlp_encode xs)) e e'"
proof (induction x e and xs e rule: write_item_write_items.induct)
  case (1 b e)
  then show ?case using AppendRaw_total [of e "ToRLPString b"] by (auto simp: AppendString_raw intro: writes_raw)
next
  case (2 xs e)
  obtain pos e1 where s: "enc_ListStart e = (pos, e1)" by (cases "enc_ListStart e")
  let ?out = "concat (map rlp_encode xs)"
  have l: "length (enc_str e) + length ?out < 2 ^ 32 - 1" using 2(2) by (simp add: Let_def)
  have "enc_str e1 = enc_str e" using s by (auto simp: enc_ListStart_def)
  with 2(1) [OF s [symmetric] refl] l obtain e2 where e2: "write_items xs e1 = Some e2" "writes ?out e1 e2" by auto
  then show ?case using writes_list [OF s e2(2)] l s by (auto simp: Let_def)
next
  case (3 e)
  then show ?case by (simp add: writes_nil)
next
  case (4 x xs e)
  then obtain e1 where e1: "write_item x e = Some e1" "writes (rlp_encode x) e e1" by auto
  with writes_length [OF e1(2)] 4 obtain e2 where "write_items xs e1 = Some e2" "writes (concat (map rlp_encode xs)) e1 e2"
    by auto
  with e1 writes_append show ?case by auto
qed

lemma EncodeToBytes_eq:
  assumes "length (rlp_encode x) < 2 ^ 32 - 1"
  shows "EncodeToBytes x = Some (rlp_encode x)"
proof -
  obtain e where e: "write_item x empty_encoder = Some e" "writes (rlp_encode x) empty_encoder e"
    using write_item_writes(1) [of empty_encoder x] assms by (auto simp: empty_encoder_def)
  from e(2) obtain s hs n where "lheads e = lheads empty_encoder @ hs"
    "\<And>post hs2. \<forall>h\<in>set hs2. length (enc_str e) \<le> unat (lh_strpos h) \<Longrightarrow>
       flush_heads (length (enc_str empty_encoder)) (hs @ hs2) (enc_str e @ post) =
       prepend (rlp_encode x) (flush_heads (length (enc_str e)) hs2 (enc_str e @ post))"
    by (rule writesE) blast
  from this(1) this(2) [of "[]" "[]"] show ?thesis
    using e(1) by (simp add: EncodeToBytes_def enc_ToBytes_def enc_Flush_def empty_encoder_def)
qed

end
