(* ===== verification/Rlp_Split.thy ===== *)
theory Rlp_Split
  imports Rlp_Facts
begin

section \<open>Taking encoded values apart\<close>

text \<open>
  \<open>Split\<close> accepts a byte string if and only if it starts with the one encoding of a value, and then returns that value's
  content and what follows it.
\<close>

unbundle bit_operations_syntax

subsection \<open>Sizes in headers\<close>

lemma readSize_putint:
  assumes "56 \<le> i"
  shows "readSize (be_encode (SizeInBytes i) i @ r) (of_nat (SizeInBytes i)) = Inr i"
proof -
  let ?n = "SizeInBytes i"
  have n: "1 \<le> ?n" "?n \<le> 8" by (simp_all add: SizeInBytes_le)
  have u: "unat (of_nat ?n :: byte) = ?n" using n by (intro unat_of_nat_small) simp
  have small: "1 \<le> (of_nat ?n :: byte)" "(of_nat ?n :: byte) \<le> 8" using n u by (simp_all add: word_le_nat_alt)
  have dec: "be_decode (be_encode ?n i) = i" by (simp add: be_decode_encode SizeInBytes_take_bit)
  have hd: "be_encode ?n i ! 0 \<noteq> 0"
  proof
    assume z: "be_encode ?n i ! 0 = 0"
    obtain x xs where e: "be_encode ?n i = x # xs" using n by (cases "be_encode ?n i") (auto simp flip: length_0_conv)
    then have "length xs = ?n - 1" by (metis length_be_encode length_Cons diff_Suc_1)
    moreover have "be_val xs < 256 ^ length xs" by (rule be_val_less)
    moreover have "unat i = be_val xs" using z e be_encode_val [of i ?n] SizeInBytes_lt [of i] n by simp
    ultimately have lt: "unat i < 256 ^ (?n - 1)" by simp
    show False
    proof (cases "256 \<le> unat i")
      case False
      then have "?n = 1" by (simp add: SizeInBytes_def word_less_nat_alt)
      with lt assms show False by (simp add: word_le_nat_alt)
    qed (use SizeInBytes_ge [of i] lt in simp)
  qed
  show ?thesis using n u small dec hd assms by (simp add: readSize_def nth_append not_less)
qed

lemma readSizeD:
  assumes "readSize b y = Inr s"
  shows "1 \<le> unat y" "unat y \<le> 8" "unat y \<le> length b" "56 \<le> s" "SizeInBytes s = unat y"
    "be_encode (unat y) s = take (unat y) b"
proof -
  let ?n = "unat y"
  have len: "?n \<le> length b" using assms by (auto simp: readSize_def split: if_splits)
  have y: "1 \<le> y" "y \<le> 8" using assms by (auto simp: readSize_def Let_def split: if_splits)
  with assms len have s: "s = be_decode (take ?n b)" "56 \<le> s" "b ! 0 \<noteq> 0"
    by (auto simp: readSize_def Let_def split: if_splits)
  show n: "1 \<le> ?n" "?n \<le> 8" using y by (simp_all add: word_le_nat_alt)
  then have l: "length (take ?n b) = ?n" using len by simp
  have v: "unat s = be_val (take ?n b)" unfolding s(1) using n l by (intro be_decode_val) simp
  have "hd (take ?n b) = b ! 0" using n len by (cases b) (auto simp: take_Cons')
  moreover have "take ?n b \<noteq> []" using n len by (cases b) auto
  ultimately show "SizeInBytes s = ?n"
    using be_val_less [of "take ?n b"] be_val_ge [of "take ?n b"] n l v s(3)
    by (intro SizeInBytes_bounds) auto
  show "be_encode ?n s = take ?n b" unfolding s(1) using be_encode_decode [of "take ?n b", where ?'a = 64] l n by simp
  show "?n \<le> length b" "56 \<le> s" using len s by simp_all
qed

subsection \<open>The cases of the first byte\<close>

lemma Split_by_first:
  assumes "length xs < 2 ^ 64 - 1"
  shows Split_byte: "x < 0x80 \<Longrightarrow> Split (x # xs) = Inr (KByte, [x], xs)"
    and Split_string: "0x80 \<le> x \<Longrightarrow> x < 0xB8 \<Longrightarrow> n = unat (x - 0x80) \<Longrightarrow>
      Split (x # xs) =
        (if n = 1 \<and> xs \<noteq> [] \<and> xs ! 0 < 128 then Inl ErrCanonSize
         else if n \<le> length xs then Inr (KString, take n xs, drop n xs) else Inl ErrValueTooLarge)"
    and Split_list: "0xC0 \<le> x \<Longrightarrow> x < 0xF8 \<Longrightarrow> n = unat (x - 0xC0) \<Longrightarrow>
      Split (x # xs) = (if n \<le> length xs then Inr (KList, take n xs, drop n xs) else Inl ErrValueTooLarge)"
proof -
  have buf: "unat (of_nat (Suc (length xs)) :: u64) = Suc (length xs)"
    using assms by (intro unat_of_nat_small) simp
  then have nz: "(of_nat (Suc (length xs)) :: u64) \<noteq> 0" by (metis unat_0 nat.distinct(1))
  note w = word_less_nat_alt word_le_nat_alt
  have d1: "unat (of_nat (Suc (length xs)) - 1 :: u64) = length xs"
    using buf nz by (subst unat_sub) (simp_all add: w)
  { assume "x < 0x80"
    then show "Split (x # xs) = Inr (KByte, [x], xs)"
      using buf nz by (simp add: Split_def ReadKind_def Let_def w del: of_nat_Suc) }
  { assume "0x80 \<le> x" "x < 0xB8" "n = unat (x - 0x80)"
    then show "Split (x # xs) =
        (if n = 1 \<and> xs \<noteq> [] \<and> xs ! 0 < 128 then Inl ErrCanonSize
         else if n \<le> length xs then Inr (KString, take n xs, drop n xs) else Inl ErrValueTooLarge)"
      using buf nz d1 by (auto simp: Split_def ReadKind_def Let_def w ucast_byte_eq_1 unat_1_plus_byte simp del: of_nat_Suc) }
  show "0xC0 \<le> x \<Longrightarrow> x < 0xF8 \<Longrightarrow> n = unat (x - 0xC0) \<Longrightarrow>
      Split (x # xs) = (if n \<le> length xs then Inr (KList, take n xs, drop n xs) else Inl ErrValueTooLarge)"
    using buf nz d1 by (auto simp: Split_def ReadKind_def Let_def w ucast_byte_eq_1 unat_1_plus_byte simp del: of_nat_Suc)
qed

lemma Split_large:
  assumes l: "length xs < 2 ^ 64 - 1"
    and x: "lo = 0xB7 \<and> k = KString \<and> 0xB8 \<le> x \<and> x < 0xC0 \<or> lo = 0xF7 \<and> k = KList \<and> 0xF8 \<le> x" and m: "m = unat (x - lo)"
  shows "Split (x # xs) =
    (case readSize xs (x - lo) of
       Inl e \<Rightarrow> Inl e
     | Inr s \<Rightarrow>
         if unat s \<le> length xs - m then Inr (k, take (unat s) (drop m xs), drop (m + unat s) xs) else Inl ErrValueTooLarge)"
proof -
  have buf: "unat (of_nat (Suc (length xs)) :: u64) = Suc (length xs)"
    using l by (intro unat_of_nat_small) simp
  have nz: "(of_nat (Suc (length xs)) :: u64) \<noteq> 0" using buf by (metis unat_0 nat.distinct(1))
  show ?thesis
proof (cases "readSize xs (x - lo)")
  case (Inl e)
  from x show ?thesis
    by (elim disjE conjE; use Inl nz in \<open>simp add: Split_def ReadKind_def Let_def word_less_nat_alt word_le_nat_alt del: of_nat_Suc\<close>)
next
  case (Inr s)
  note r = readSizeD [OF Inr]
  have t: "unat (x - lo + 1) = Suc m" using r(2) m by (subst unat_add_small) simp_all
  have d: "unat (of_nat (Suc (length xs)) - ucast (x - lo + 1) :: u64) = length xs - m"
    using buf t r(3) m by (subst unat_sub) (simp_all add: word_le_nat_alt del: of_nat_Suc)
  have tot: "unat (ucast (x - lo + 1) + s :: u64) = Suc m + unat s" if "unat s \<le> length xs - m"
    using that t l r(3) m by (subst unat_add_small) simp_all
  have k: "ReadKind (x # xs) =
      (if unat s \<le> length xs - m then Inr (k, x - lo + 1, ucast (x - lo + 1) + s) else Inl ErrValueTooLarge)"
    using x by (elim disjE conjE; use Inr d nz in \<open>simp add: ReadKind_def Let_def word_less_nat_alt word_le_nat_alt not_less del: of_nat_Suc\<close>)
  show ?thesis using k tot t Inr
    by (simp add: Split_def drop_take add.commute)
qed
qed

subsection \<open>Split accepts the encodings\<close>

text \<open>The encoding of the content of a value of each kind; a byte is the value that stands for itself.\<close>

definition encodes :: "Kind \<Rightarrow> bytes \<Rightarrow> bytes \<Rightarrow> bool" where
  "encodes k c enc \<longleftrightarrow>
     (case k of
        KByte \<Rightarrow> length c = 1 \<and> c ! 0 < 0x80 \<and> enc = c
      | KString \<Rightarrow> \<not> (length c = 1 \<and> c ! 0 < 0x80) \<and> enc = puthead 0x80 0xB7 (of_nat (length c)) @ c
      | KList \<Rightarrow> enc = puthead 0xC0 0xF7 (of_nat (length c)) @ c)"

lemma length_of_nat_less56: "length c < 2 ^ 64 \<Longrightarrow> (of_nat (length c) :: u64) < 56 \<longleftrightarrow> length c < 56"
  by (simp add: word_less_nat_alt unat_of_nat_small)

lemma Split_small_header:
  assumes "length (c @ r) < 2 ^ 64 - 1" and "length c < 56"
  shows "\<not> (length c = 1 \<and> c ! 0 < 0x80) \<Longrightarrow> Split ((0x80 + of_nat (length c)) # c @ r) = Inr (KString, c, r)"
    and "Split ((0xC0 + of_nat (length c)) # c @ r) = Inr (KList, c, r)"
proof -
  have n: "unat (of_nat (length c) :: byte) = length c" using assms(2) by (intro unat_of_nat_small) simp
  have u: "unat (0x80 + of_nat (length c) :: byte) = 128 + length c" "unat (0xC0 + of_nat (length c) :: byte) = 192 + length c"
    using assms(2) n by (subst unat_add_small; simp)+
  show "Split ((0xC0 + of_nat (length c)) # c @ r) = Inr (KList, c, r)"
    using assms u n by (subst Split_list [where n = "length c"]) (simp_all add: word_less_nat_alt word_le_nat_alt)
  assume c: "\<not> (length c = 1 \<and> c ! 0 < 0x80)"
  have "\<not> (length c = 1 \<and> c @ r \<noteq> [] \<and> (c @ r) ! 0 < 128)" using c by (auto simp: nth_append)
  then show "Split ((0x80 + of_nat (length c)) # c @ r) = Inr (KString, c, r)"
    using assms u n by (subst Split_string [where n = "length c"]) (auto simp: word_less_nat_alt word_le_nat_alt)
qed

lemma Split_large_header:
  assumes "length (putint (of_nat (length c)) lo @ c @ r) < 2 ^ 64" and "56 \<le> length c"
    and lo: "lo = 0xB7 \<and> k = KString \<or> lo = 0xF7 \<and> k = KList"
  shows "Split (putint (of_nat (length c)) lo @ c @ r) = Inr (k, c, r)"
proof -
  let ?i = "of_nat (length c) :: u64" let ?n = "SizeInBytes ?i" let ?x = "of_nat ?n + lo :: byte"
  let ?xs = "be_encode ?n ?i @ c @ r"
  have u: "unat ?i = length c" using assms(1) by (intro unat_of_nat_small) simp
  have n: "1 \<le> ?n" "?n \<le> 8" by (simp_all add: SizeInBytes_le)
  have un: "unat (of_nat ?n :: byte) = ?n" using n by (intro unat_of_nat_small) simp
  have ux: "unat ?x = ?n + unat lo" using un n lo by (subst unat_add_small) auto
  have x: "lo = 0xB7 \<and> k = KString \<and> 0xB8 \<le> ?x \<and> ?x < 0xC0 \<or> lo = 0xF7 \<and> k = KList \<and> 0xF8 \<le> ?x"
    using lo n ux by (auto simp: word_less_nat_alt word_le_nat_alt)
  have "56 \<le> ?i" using assms(2) u by (simp add: word_le_nat_alt)
  then have rs: "readSize ?xs (?x - lo) = Inr ?i" using readSize_putint [of ?i "c @ r"] by simp
  have l: "length ?xs < 2 ^ 64 - 1" using assms(1) by (simp add: putint_SizeInBytes)
  show ?thesis using Split_large [OF l x refl] rs u un by (simp add: putint_SizeInBytes)
qed

lemma Split_encodes:
  assumes "encodes k c enc" and "length (enc @ r) < 2 ^ 64"
  shows "Split (enc @ r) = Inr (k, c, r)"
proof (cases k)
  case KByte
  then obtain x where "enc = [x]" "c = [x]" "x < 0x80" using assms(1) by (cases c) (auto simp: encodes_def)
  then show ?thesis using KByte assms(2) by (simp add: Split_byte)
next
  case KString
  then have e: "\<not> (length c = 1 \<and> c ! 0 < 0x80)" "enc = puthead 0x80 0xB7 (of_nat (length c)) @ c"
    using assms(1) by (auto simp: encodes_def)
  moreover have "(of_nat (length c) :: u64) < 56 \<longleftrightarrow> length c < 56"
    using e assms(2) by (intro length_of_nat_less56) simp
  ultimately show ?thesis using KString assms(2) Split_small_header(1) [of c r] Split_large_header [of c "0xB7" r KString]
    by (cases "length c < 56") (simp_all add: puthead_def ucast_of_nat_small)
next
  case KList
  then have e: "enc = puthead 0xC0 0xF7 (of_nat (length c)) @ c" using assms(1) by (auto simp: encodes_def)
  moreover have "(of_nat (length c) :: u64) < 56 \<longleftrightarrow> length c < 56"
    using e assms(2) by (intro length_of_nat_less56) simp
  ultimately show ?thesis using KList assms(2) Split_small_header(2) [of c r] Split_large_header [of c "0xF7" r KList]
    by (cases "length c < 56") (simp_all add: puthead_def ucast_of_nat_small)
qed

lemma Split_only_encodings:
  assumes "Split b = Inr (k, c, r)" and "length b < 2 ^ 64"
  obtains enc where "encodes k c enc" "b = enc @ r"
proof -
  obtain x xs where b: "b = x # xs" using assms(1) by (cases b) (auto simp: Split_def ReadKind_def)
  have l: "length xs < 2 ^ 64 - 1" using assms(2) b by simp
  note w = word_less_nat_alt word_le_nat_alt
  have small: "(of_nat (unat (x - st)) :: byte) = x - st" for st :: byte by simp
  have ux: "unat x < 256" using unat_bound [of x] by simp
  have head: "puthead st lt (of_nat (length (take n xs))) @ take n xs = x # take n xs" if "n \<le> length xs" "n < 56" "n = unat (x - st)"
    for n st lt
    using that by (simp add: puthead_def w unat_of_nat_small ucast_of_nat_small min_def)
  have large: "puthead st lo (of_nat (length c)) @ c @ r = x # xs"
    if "readSize xs (x - lo) = Inr s" "unat s \<le> length xs - unat (x - lo)" "c = take (unat s) (drop (unat (x - lo)) xs)"
      "r = drop (unat (x - lo) + unat s) xs" for s lo st
  proof -
    note rs = readSizeD [OF that(1)]
    have c: "length c = unat s" using that(2,3) by simp
    have "c @ r = drop (unat (x - lo)) xs"
      using that(3,4) append_take_drop_id [of "unat s" "drop (unat (x - lo)) xs"] by (simp add: add.commute)
    then show ?thesis using rs c leD [OF rs(4)] by (simp add: puthead_def putint_SizeInBytes)
  qed
  consider "x < 0x80" | "0x80 \<le> x" "x < 0xB8" | "0xB8 \<le> x" "x < 0xC0" | "0xC0 \<le> x" "x < 0xF8" | "0xF8 \<le> x"
    by (meson not_less)
  then show thesis
  proof cases
    case 1
    then show ?thesis using assms(1) b l that [of "[x]"] by (auto simp: Split_byte encodes_def)
  next
    case 2
    let ?n = "unat (x - 0x80)"
    have "?n < 56" using 2 by (simp add: w unat_sub)
    moreover have f: "k = KString" "c = take ?n xs" "r = drop ?n xs" "?n \<le> length xs" "\<not> (?n = 1 \<and> xs \<noteq> [] \<and> xs ! 0 < 128)"
      using assms(1) b Split_string [OF l 2 refl] by (auto split: if_splits)
    ultimately have h: "puthead 0x80 0xB7 (of_nat (length c)) @ c = x # c" using head [of ?n "0x80" "0xB7"] by simp
    have "\<not> (length c = 1 \<and> c ! 0 < 0x80)" using f by (cases xs) auto
    with f b h show ?thesis by (intro that [of "x # c"]) (simp_all add: encodes_def)
  next
    case 3
    with assms(1) b Split_large [OF l, of "0xB7" KString x] obtain s where s: "readSize xs (x - 0xB7) = Inr s"
      "unat s \<le> length xs - unat (x - 0xB7)" "k = KString" "c = take (unat s) (drop (unat (x - 0xB7)) xs)"
      "r = drop (unat (x - 0xB7) + unat s) xs" by (auto split: sum.splits if_splits)
    have "length c \<noteq> 1" using s readSizeD(4) [OF s(1)] by (simp add: w)
    with s large [OF s(1,2,4,5), of "0x80"] b show ?thesis by (intro that [of "puthead 0x80 0xB7 (of_nat (length c)) @ c"]) (auto simp: encodes_def)
  next
    case 4
    let ?n = "unat (x - 0xC0)"
    have "?n < 56" using 4 by (simp add: w unat_sub)
    moreover have f: "k = KList" "c = take ?n xs" "r = drop ?n xs" "?n \<le> length xs"
      using assms(1) b Split_list [OF l 4 refl] by (auto split: if_splits)
    ultimately have "puthead 0xC0 0xF7 (of_nat (length c)) @ c = x # c" using head [of ?n "0xC0" "0xF7"] by simp
    with f b show ?thesis by (intro that [of "x # c"]) (simp_all add: encodes_def)
  next
    case 5
    with assms(1) b Split_large [OF l, of "0xF7" KList x] obtain s where s: "readSize xs (x - 0xF7) = Inr s"
      "unat s \<le> length xs - unat (x - 0xF7)" "k = KList" "c = take (unat s) (drop (unat (x - 0xF7)) xs)"
      "r = drop (unat (x - 0xF7) + unat s) xs" by (auto split: sum.splits if_splits)
    with large [OF s(1,2,4,5), of "0xC0"] b show ?thesis by (intro that [of "puthead 0xC0 0xF7 (of_nat (length c)) @ c"]) (auto simp: encodes_def)
  qed
qed

lemma rlp_encode_encodes:
  "encodes (if length b = 1 \<and> b ! 0 < 0x80 then KByte else KString) b (rlp_encode (RStr b))" if "length b < 2 ^ 64"
proof -
  have x: "x \<le> 0x7F \<longleftrightarrow> x < (0x80 :: byte)" for x :: byte by (simp add: word_less_nat_alt word_le_nat_alt) linarith
  show ?thesis
    using that length_of_nat_less56 [OF that]
    by (cases "length b = 1 \<and> b ! 0 < 0x80"; cases "length b < 56")
      (auto simp: encodes_def ToRLPString_def Let_def x puthead_def EmptyString_def ucast_of_nat_small length_Suc_conv)
qed

lemma rlp_encode_list_encodes:
  "encodes KList (concat (map rlp_encode xs)) (rlp_encode (RList xs))"
  by (simp add: encodes_def Let_def)

end
