(* ===== verification/Rlp_Properties.thy ===== *)
theory Rlp_Properties
  imports Rlp_Split
begin

section \<open>Properties of the encoding\<close>

text \<open>What \<open>src/rlp\<close> promises: the encoder writes the encoding, and only encodings are taken apart.\<close>



text \<open>C34: \<open>Split\<close> succeeds exactly on the byte strings that start with an encoding of a value, in its only form, and then it
  returns the kind and the content of that value and the bytes after it: what it accepts has no second encoding
  (no leading zeros in sizes, no long form for a short size, no header for a single byte).\<close>

theorem Split_accepts_encodings:
  assumes "length b < 2 ^ 64"
  shows "Split b = Inr (k, c, r) \<longleftrightarrow> (\<exists>enc. encodes k c enc \<and> b = enc @ r)"
  using Split_only_encodings [OF _ assms] Split_encodes assms by metis

theorem Split_accepts_encodings_witness:
  "Split [0x82, 1, 2, 7] = Inr (KString, [1, 2], [7]) \<longleftrightarrow> (\<exists>enc. encodes KString [1, 2] enc \<and> [0x82, 1, 2, 7] = enc @ [7])"
  by (rule Split_accepts_encodings) simp

end
