(* ===== verification/Evm_State.thy ===== *)
theory Evm_State
  imports Prelude
begin

section \<open>The state under the EVM\<close>

text \<open>
  \<open>src/taraxa/state/state_evm\<close>: the accounts as a transaction changes them (\<open>account.go\<close>) and the
  journal that undoes changes (\<open>transition_state.go\<close>). An account is the record the database has, with what
  the transactions of the block changed; it is loaded when the state is made instead of at its first use. The
  code stands for its hash and its size as well. Reads of the database are not cached, and at the end of a transaction
  the accounts that were not changed stay instead of being read again. The functions that \<open>RegisterChange\<close> collects are
  the values of a datatype, the newest first.
\<close>

type_synonym hash = u256

record AccountBody =
  ab_Nonce :: int
  ab_Balance :: int
  ab_Code :: bytes
  ab_StorageRoot :: bool
  ab_StorageDirty :: "int \<rightharpoonup> int"
  ab_RawStorageDirty :: "hash \<rightharpoonup> bytes"
  ab_CodeDirty :: bool
  ab_suicided :: bool
  ab_storage_origin :: "(int \<rightharpoonup> int) option"
  ab_times_touched :: u32
  ab_mod_count :: u32

record Account =
  acc_body :: "AccountBody option"
  acc_deleted :: bool

record LogRecord =
  log_Address :: address
  log_Topics :: "hash list"
  log_Data :: bytes

datatype revert =
    R_exists address bool
  | R_state address int int
  | R_touched address
  | R_balance address int
  | R_nonce address int
  | R_code address
  | R_suicide address bool int
  | R_logs nat
  | R_refund u64

record TransitionState =
  ts_db :: "address \<Rightarrow> int \<Rightarrow> int"
  ts_accounts :: "address \<Rightarrow> Account"
  ts_reverts :: "revert list"
  ts_logs :: "LogRecord list"
  ts_refund :: u64
  ts_transientStorage :: "address \<times> hash \<Rightarrow> hash"

subsection \<open>Reading an account\<close>

definition IsNIL :: "Account \<Rightarrow> bool" where
  "IsNIL acc \<longleftrightarrow> acc_body acc = None"

definition acc_GetBalance :: "Account \<Rightarrow> int" where
  "acc_GetBalance acc = (case acc_body acc of None \<Rightarrow> 0 | Some b \<Rightarrow> ab_Balance b)"

definition acc_GetNonce :: "Account \<Rightarrow> int" where
  "acc_GetNonce acc = (case acc_body acc of None \<Rightarrow> 0 | Some b \<Rightarrow> ab_Nonce b)"

definition acc_GetCode :: "Account \<Rightarrow> bytes" where
  "acc_GetCode acc = (case acc_body acc of None \<Rightarrow> [] | Some b \<Rightarrow> ab_Code b)"

definition acc_GetCodeSize :: "Account \<Rightarrow> u64" where
  "acc_GetCodeSize acc = of_nat (length (acc_GetCode acc))"

text \<open>For an account without body the hash is the nil pointer.\<close>

definition acc_GetCodeHash :: "(bytes \<Rightarrow> hash) \<Rightarrow> Account \<Rightarrow> hash option" where
  "acc_GetCodeHash H acc = map_option (\<lambda>b. H (ab_Code b)) (acc_body acc)"

definition IsEIP161Empty :: "Account \<Rightarrow> bool" where
  "IsEIP161Empty acc \<longleftrightarrow>
     (case acc_body acc of None \<Rightarrow> True | Some b \<Rightarrow> ab_Nonce b = 0 \<and> ab_Balance b = 0 \<and> ab_Code b = [])"

definition body_committed :: "(int \<Rightarrow> int) \<Rightarrow> AccountBody \<Rightarrow> int \<Rightarrow> int" where
  "body_committed db b key =
     (case ab_storage_origin b of
        None \<Rightarrow> if \<not> ab_StorageRoot b then 0 else db key
      | Some m \<Rightarrow> (case m key of Some ret \<Rightarrow> ret | None \<Rightarrow> db key))"

definition acc_GetCommittedState :: "(int \<Rightarrow> int) \<Rightarrow> Account \<Rightarrow> int \<Rightarrow> int" where
  "acc_GetCommittedState db acc key = (case acc_body acc of None \<Rightarrow> 0 | Some b \<Rightarrow> body_committed db b key)"

definition body_state :: "(int \<Rightarrow> int) \<Rightarrow> AccountBody \<Rightarrow> int \<Rightarrow> int" where
  "body_state db b key = (case ab_StorageDirty b key of Some v \<Rightarrow> v | None \<Rightarrow> body_committed db b key)"

definition acc_GetState :: "(int \<Rightarrow> int) \<Rightarrow> Account \<Rightarrow> int \<Rightarrow> int" where
  "acc_GetState db acc key = (case acc_body acc of None \<Rightarrow> 0 | Some b \<Rightarrow> body_state db b key)"

text \<open>\<open>GetRawState\<close> reads the storage of the native contracts; the database is asked for what the block did not write.\<close>

definition acc_GetRawState :: "(hash \<rightharpoonup> bytes) \<Rightarrow> Account \<Rightarrow> hash \<Rightarrow> bytes option" where
  "acc_GetRawState db acc key =
     (case acc_body acc of
        None \<Rightarrow> None
      | Some b \<Rightarrow> (case ab_RawStorageDirty b key of Some v \<Rightarrow> Some v | None \<Rightarrow> db key))"

text \<open>\<open>self.suicided\<close> dereferences the body, which is nil if \<open>IsNIL\<close>.\<close>

definition HasSuicided :: "Account \<Rightarrow> bool option" where
  "HasSuicided acc = (if IsNIL acc then map_option ab_suicided (acc_body acc) else Some False)"

subsection \<open>The journal\<close>

definition upd_account :: "address \<Rightarrow> (Account \<Rightarrow> Account) \<Rightarrow> TransitionState \<Rightarrow> TransitionState" where
  "upd_account a f s = s\<lparr>ts_accounts := (ts_accounts s)(a := f (ts_accounts s a))\<rparr>"

definition upd_body :: "address \<Rightarrow> (AccountBody \<Rightarrow> AccountBody) \<Rightarrow> TransitionState \<Rightarrow> TransitionState" where
  "upd_body a f = upd_account a (\<lambda>acc. acc\<lparr>acc_body := map_option f (acc_body acc)\<rparr>)"

definition RegisterChange :: "revert \<Rightarrow> TransitionState \<Rightarrow> TransitionState" where
  "RegisterChange r s = s\<lparr>ts_reverts := r # ts_reverts s\<rparr>"

text \<open>\<open>Account.register_change\<close>: the change counts, and its undoing uncounts it.\<close>

definition register_change :: "address \<Rightarrow> revert \<Rightarrow> TransitionState \<Rightarrow> TransitionState" where
  "register_change a r s = RegisterChange r (upd_body a (\<lambda>b. b\<lparr>ab_mod_count := ab_mod_count b + 1\<rparr>) s)"

definition uncount :: "AccountBody \<Rightarrow> AccountBody" where
  "uncount b = b\<lparr>ab_mod_count := ab_mod_count b - 1\<rparr>"

fun undo :: "revert \<Rightarrow> TransitionState \<Rightarrow> TransitionState" where
  "undo (R_exists a was_deleted) s = upd_account a (\<lambda>acc. acc\<lparr>acc_body := None, acc_deleted := was_deleted\<rparr>) s"
| "undo (R_state a key prev) s =
     upd_body a (\<lambda>b. (uncount b)\<lparr>ab_StorageDirty := (ab_StorageDirty b)(key \<mapsto> prev)\<rparr>) s"
| "undo (R_touched a) s = upd_body a (\<lambda>b. (uncount b)\<lparr>ab_times_touched := ab_times_touched b - 1\<rparr>) s"
| "undo (R_balance a prev) s = upd_body a (\<lambda>b. (uncount b)\<lparr>ab_Balance := prev\<rparr>) s"
| "undo (R_nonce a prev) s = upd_body a (\<lambda>b. (uncount b)\<lparr>ab_Nonce := prev\<rparr>) s"
| "undo (R_code a) s = upd_body a (\<lambda>b. (uncount b)\<lparr>ab_CodeDirty := False, ab_Code := []\<rparr>) s"
| "undo (R_suicide a suicided balance) s =
     upd_body a (\<lambda>b. (uncount b)\<lparr>ab_suicided := suicided, ab_Balance := balance\<rparr>) s"
| "undo (R_logs pos) s = s\<lparr>ts_logs := take pos (ts_logs s)\<rparr>"
| "undo (R_refund prev) s = s\<lparr>ts_refund := prev\<rparr>"

definition Snapshot :: "TransitionState \<Rightarrow> nat" where
  "Snapshot s = length (ts_reverts s)"

fun undo_all :: "revert list \<Rightarrow> TransitionState \<Rightarrow> TransitionState" where
  "undo_all [] s = s"
| "undo_all (r # rs) s = undo_all rs (undo r s)"

definition RevertToSnapshot :: "nat \<Rightarrow> TransitionState \<Rightarrow> TransitionState" where
  "RevertToSnapshot snapshot s =
     (let n = length (ts_reverts s) - snapshot in
      (undo_all (take n (ts_reverts s)) s)\<lparr>ts_reverts := drop n (ts_reverts s)\<rparr>)"

subsection \<open>Changing an account\<close>

definition fresh_body :: AccountBody where
  "fresh_body = \<lparr>ab_Nonce = 0, ab_Balance = 0, ab_Code = [], ab_StorageRoot = False, ab_StorageDirty = Map.empty,
     ab_RawStorageDirty = Map.empty, ab_CodeDirty = False, ab_suicided = False, ab_storage_origin = None,
     ab_times_touched = 0, ab_mod_count = 0\<rparr>"

definition ensure_exists :: "address \<Rightarrow> TransitionState \<Rightarrow> TransitionState" where
  "ensure_exists a s =
     (if \<not> IsNIL (ts_accounts s a) then s
      else register_change a (R_exists a (acc_deleted (ts_accounts s a)))
        (upd_account a (\<lambda>acc. acc\<lparr>acc_body := Some fresh_body, acc_deleted := False\<rparr>) s))"

definition set_balance :: "address \<Rightarrow> int \<Rightarrow> TransitionState \<Rightarrow> TransitionState" where
  "set_balance a amount s =
     register_change a (R_balance a (acc_GetBalance (ts_accounts s a)))
       (upd_body a (\<lambda>b. b\<lparr>ab_Balance := amount\<rparr>) s)"

definition ripemd_addr :: address where "ripemd_addr = 3"

definition acc_AddBalance :: "address \<Rightarrow> int \<Rightarrow> TransitionState \<Rightarrow> TransitionState" where
  "acc_AddBalance a amount s0 =
     (let s = ensure_exists a s0 in
      if amount \<noteq> 0 then set_balance a (acc_GetBalance (ts_accounts s a) + amount) s
      else if \<not> IsEIP161Empty (ts_accounts s a) then s
      else
        let s1 = register_change a (R_touched a)
                   (upd_body a (\<lambda>b. b\<lparr>ab_times_touched := ab_times_touched b + 1\<rparr>) s) in
        if a = ripemd_addr then upd_body a (\<lambda>b. b\<lparr>ab_mod_count := ab_mod_count b + 1\<rparr>) s1 else s1)"

definition acc_SubBalance :: "address \<Rightarrow> int \<Rightarrow> TransitionState \<Rightarrow> TransitionState" where
  "acc_SubBalance a amount s0 =
     (let s = ensure_exists a s0 in
      if amount \<noteq> 0 then set_balance a (acc_GetBalance (ts_accounts s a) - amount) s else s)"

definition put_nonce :: "address \<Rightarrow> int \<Rightarrow> TransitionState \<Rightarrow> TransitionState" where
  "put_nonce a nonce s =
     register_change a (R_nonce a (acc_GetNonce (ts_accounts s a))) (upd_body a (\<lambda>b. b\<lparr>ab_Nonce := nonce\<rparr>) s)"

definition acc_SetNonce :: "address \<Rightarrow> int \<Rightarrow> TransitionState \<Rightarrow> TransitionState option" where
  "acc_SetNonce a nonce s0 =
     (let s = ensure_exists a s0 in
      if nonce \<ge> acc_GetNonce (ts_accounts s a) then Some (put_nonce a nonce s) else None)"

definition acc_IncrementNonce :: "address \<Rightarrow> TransitionState \<Rightarrow> TransitionState" where
  "acc_IncrementNonce a s0 =
     (let s = ensure_exists a s0 in put_nonce a (acc_GetNonce (ts_accounts s a) + 1) s)"

definition acc_SetCode :: "address \<Rightarrow> bytes \<Rightarrow> TransitionState \<Rightarrow> TransitionState" where
  "acc_SetCode a code s0 =
     (let s = ensure_exists a s0 in
      if code = [] then s
      else upd_body a (\<lambda>b. b\<lparr>ab_CodeDirty := True, ab_Code := code\<rparr>) (register_change a (R_code a) s))"

definition acc_SetState :: "address \<Rightarrow> int \<Rightarrow> int \<Rightarrow> TransitionState \<Rightarrow> TransitionState" where
  "acc_SetState a key val s0 =
     (let s = ensure_exists a s0; prev = acc_GetState (ts_db s a) (ts_accounts s a) key in
      if prev = val then s
      else upd_body a (\<lambda>b. b\<lparr>ab_StorageDirty := (ab_StorageDirty b)(key \<mapsto> val)\<rparr>)
             (register_change a (R_state a key prev) s))"

definition SetStateRawIrreversibly :: "address \<Rightarrow> hash \<Rightarrow> bytes \<Rightarrow> TransitionState \<Rightarrow> TransitionState" where
  "SetStateRawIrreversibly a key val s0 =
     upd_body a (\<lambda>b. b\<lparr>ab_RawStorageDirty := (ab_RawStorageDirty b)(key \<mapsto> val),
                       ab_mod_count := ab_mod_count b + 1\<rparr>) (ensure_exists a s0)"

definition acc_Suicide :: "address \<Rightarrow> address \<Rightarrow> TransitionState \<Rightarrow> TransitionState" where
  "acc_Suicide a newAddr s =
     (if IsNIL (ts_accounts s a) then acc_AddBalance newAddr 0 s
      else
        let s1 = acc_AddBalance newAddr (acc_GetBalance (ts_accounts s a)) s;
            suicided = (case acc_body (ts_accounts s1 a) of None \<Rightarrow> False | Some b \<Rightarrow> ab_suicided b)
        in upd_body a (\<lambda>b. b\<lparr>ab_suicided := True, ab_Balance := 0\<rparr>)
             (register_change a (R_suicide a suicided (acc_GetBalance (ts_accounts s1 a))) s1))"

subsection \<open>Logs, refunds and transient storage\<close>

definition ts_AddLog :: "LogRecord \<Rightarrow> TransitionState \<Rightarrow> TransitionState" where
  "ts_AddLog l s = (RegisterChange (R_logs (length (ts_logs s))) s)\<lparr>ts_logs := ts_logs s @ [l]\<rparr>"

definition AddRefund :: "u64 \<Rightarrow> TransitionState \<Rightarrow> TransitionState" where
  "AddRefund gas s = (RegisterChange (R_refund (ts_refund s)) s)\<lparr>ts_refund := ts_refund s + gas\<rparr>"

definition SubRefund :: "u64 \<Rightarrow> TransitionState \<Rightarrow> TransitionState option" where
  "SubRefund gas s =
     (if gas > ts_refund s then None
      else Some ((RegisterChange (R_refund (ts_refund s)) s)\<lparr>ts_refund := ts_refund s - gas\<rparr>))"

definition GetTransientState :: "address \<Rightarrow> hash \<Rightarrow> TransitionState \<Rightarrow> hash" where
  "GetTransientState a key s = ts_transientStorage s (a, key)"

definition SetTransientState :: "address \<Rightarrow> hash \<Rightarrow> hash \<Rightarrow> TransitionState \<Rightarrow> TransitionState" where
  "SetTransientState a key val s =
     (if GetTransientState a key s = val then s
      else s\<lparr>ts_transientStorage := (ts_transientStorage s)((a, key) := val)\<rparr>)"

subsection \<open>The end of a transaction\<close>

datatype acc_dirty_status = unmodified | updated | deleted

definition flush :: "Account \<Rightarrow> Account \<times> acc_dirty_status" where
  "flush acc =
     (case acc_body acc of
        None \<Rightarrow> (acc, unmodified)
      | Some b \<Rightarrow>
          let mod_count = ab_mod_count b; times_touched = ab_times_touched b;
              b1 = b\<lparr>ab_mod_count := 0, ab_times_touched := 0\<rparr>; acc1 = acc\<lparr>acc_body := Some b1\<rparr> in
          if mod_count = 0 then (acc1, unmodified)
          else if ab_suicided b \<or> IsEIP161Empty acc1 then (acc\<lparr>acc_body := None\<rparr>, deleted)
          else if mod_count = times_touched then (acc1, unmodified)
          else
            let b2 = b1\<lparr>ab_CodeDirty := False, ab_RawStorageDirty := Map.empty\<rparr>;
                b3 = (if dom (ab_StorageDirty b) \<noteq> {}
                      then b2\<lparr>ab_storage_origin :=
                             Some ((case ab_storage_origin b of None \<Rightarrow> Map.empty | Some m \<Rightarrow> m) ++ ab_StorageDirty b),
                           ab_StorageDirty := Map.empty\<rparr>
                      else b2)
            in (acc\<lparr>acc_body := Some b3\<rparr>, updated))"

text \<open>
  \<open>CommitTransaction\<close> goes through the accounts that the transaction used; the others have no changes
  to flush.
\<close>

definition commit_account :: "Account \<Rightarrow> Account" where
  "commit_account acc =
     (if acc_deleted acc then acc
      else let (acc1, status) = flush acc in acc1\<lparr>acc_deleted := (status = deleted)\<rparr>)"

definition CommitTransaction :: "TransitionState \<Rightarrow> TransitionState" where
  "CommitTransaction s =
     s\<lparr>ts_accounts := (\<lambda>a. commit_account (ts_accounts s a)), ts_reverts := [], ts_logs := [], ts_refund := 0,
       ts_transientStorage := (\<lambda>_. 0)\<rparr>"

end
