(* ===== verification/Evm_Base.thy ===== *)
theory Evm_Base
  imports Evm_State Rlp
begin

section \<open>Words, memory and stack of the virtual machine\<close>

text \<open>
  The leaves of \<open>src/core/vm\<close>: what the interpreter uses of the package \<open>uint256\<close>, the errors, the constants, the
  helpers of \<open>common.go\<close>, the memory with the pool that it lives in (\<open>memory.go\<close>), the stack (\<open>stack.go\<close>), the
  memory that an instruction needs (\<open>memory_table.go\<close>) and the stack checks (\<open>stack_table.go\<close>). The stack is a list with
  the top first. A panic is \<^const>\<open>None\<close>.
\<close>

unbundle bit_operations_syntax

subsection \<open>The package uint256\<close>

text \<open>
  The package is not part of the repository: its functions are fields of a record. Setting a constant (\<open>SetOne\<close>,
  \<open>Clear\<close>, \<open>SetAllOne\<close>, \<open>NewInt\<close>) is writing it.
\<close>

record evm_uint256 = uint256_ops +
  U_SDiv :: "u256 \<Rightarrow> u256 \<Rightarrow> u256"
  U_Mod :: "u256 \<Rightarrow> u256 \<Rightarrow> u256"
  U_SMod :: "u256 \<Rightarrow> u256 \<Rightarrow> u256"
  U_Exp :: "u256 \<Rightarrow> u256 \<Rightarrow> u256"
  U_ExtendSign :: "u256 \<Rightarrow> u256 \<Rightarrow> u256"
  U_Not :: "u256 \<Rightarrow> u256"
  U_Lt :: "u256 \<Rightarrow> u256 \<Rightarrow> bool"
  U_Gt :: "u256 \<Rightarrow> u256 \<Rightarrow> bool"
  U_Slt :: "u256 \<Rightarrow> u256 \<Rightarrow> bool"
  U_Sgt :: "u256 \<Rightarrow> u256 \<Rightarrow> bool"
  U_Eq :: "u256 \<Rightarrow> u256 \<Rightarrow> bool"
  U_IsZero :: "u256 \<Rightarrow> bool"
  U_And :: "u256 \<Rightarrow> u256 \<Rightarrow> u256"
  U_Or :: "u256 \<Rightarrow> u256 \<Rightarrow> u256"
  U_Xor :: "u256 \<Rightarrow> u256 \<Rightarrow> u256"
  U_Byte :: "u256 \<Rightarrow> u256 \<Rightarrow> u256"
  U_AddMod :: "u256 \<Rightarrow> u256 \<Rightarrow> u256 \<Rightarrow> u256"
  U_MulMod :: "u256 \<Rightarrow> u256 \<Rightarrow> u256 \<Rightarrow> u256"
  U_LtUint64 :: "u256 \<Rightarrow> u64 \<Rightarrow> bool"
  U_GtUint64 :: "u256 \<Rightarrow> u64 \<Rightarrow> bool"
  U_Lsh :: "u256 \<Rightarrow> u64 \<Rightarrow> u256"
  U_Rsh :: "u256 \<Rightarrow> u64 \<Rightarrow> u256"
  U_SRsh :: "u256 \<Rightarrow> u64 \<Rightarrow> u256"
  U_Sign :: "u256 \<Rightarrow> int"
  U_BitLen :: "u256 \<Rightarrow> int"
  U_Uint64 :: "u256 \<Rightarrow> u64"
  U_Uint64WithOverflow :: "u256 \<Rightarrow> u64 \<times> bool"
  U_IsUint64 :: "u256 \<Rightarrow> bool"
  U_SetUint64 :: "u64 \<Rightarrow> u256"
  U_SetBytes :: "bytes \<Rightarrow> u256"
  U_Bytes20 :: "u256 \<Rightarrow> address"
  U_Bytes32 :: "u256 \<Rightarrow> hash"
  U_ToBig :: "u256 \<Rightarrow> int"
  U_WriteToSlice :: "u256 \<Rightarrow> bytes"

text \<open>
  The documented behaviour that the theorems rely on: conversions to 64 bits keep the low 64 bits and report what does
  not fit, comparisons are those of unsigned numbers, an unsigned word has the sign and the length of its value.
\<close>

definition uint256_conversions :: "'a evm_uint256_scheme \<Rightarrow> bool" where
  "uint256_conversions U \<longleftrightarrow>
     (\<forall>a b. U_Add U a b = a + b) \<and>
     (\<forall>a. U_Uint64 U a = ucast a) \<and> (\<forall>a. U_Uint64WithOverflow U a = (ucast a, \<not> unat a < 2 ^ 64)) \<and>
     (\<forall>a. U_IsUint64 U a \<longleftrightarrow> unat a < 2 ^ 64) \<and> (\<forall>a b. U_Lt U a b \<longleftrightarrow> a < b) \<and> (\<forall>a b. U_Gt U a b \<longleftrightarrow> a > b) \<and>
     (\<forall>a. U_IsZero U a \<longleftrightarrow> a = 0) \<and> (\<forall>a. (U_Sign U a = 0) \<longleftrightarrow> a = 0) \<and> (\<forall>a. (U_BitLen U a > 0) \<longleftrightarrow> a \<noteq> 0) \<and>
     (\<forall>a. U_ToBig U a = uint a)"

lemma uint256_conversionsD:
  assumes "uint256_conversions U"
  shows "U_Add U a b = a + b" "U_Uint64 U a = ucast a" "U_Uint64WithOverflow U a = (ucast a, \<not> unat a < 2 ^ 64)"
    "U_IsUint64 U a \<longleftrightarrow> unat a < 2 ^ 64" "U_Lt U a b \<longleftrightarrow> a < b" "U_Gt U a b \<longleftrightarrow> a > b" "U_IsZero U a \<longleftrightarrow> a = 0"
    "(U_Sign U a = 0) \<longleftrightarrow> a = 0" "(U_BitLen U a > 0) \<longleftrightarrow> a \<noteq> 0" "U_ToBig U a = uint a"
  using assms by (auto simp: uint256_conversions_def)

subsection \<open>Errors\<close>

datatype evm_error =
    ErrOutOfGas | ErrIntrinsicGas | ErrCodeStoreOutOfGas | ErrDepth | ErrInsufficientBalanceForTransfer
  | ErrContractAddressCollision | ErrInsufficientBalanceForGas | ErrNonceTooLow | ErrWriteProtection
  | ErrReturnDataOutOfBounds | ErrExecutionReverted | ErrMaxCodeSizeExceeded
  | ErrInvalidOpcode byte | ErrStackUnderflow nat nat | ErrStackLimit nat | ErrInvalidJump byte u256 | ErrGasUintOverflow
  | ErrPrecompiled string

subsection \<open>Constants\<close>

definition CallValueTransferGas :: u64 where "CallValueTransferGas = 9000"
definition CallNewAccountGas :: u64 where "CallNewAccountGas = 25000"
definition TxGas :: u64 where "TxGas = 21000"
definition TxGasContractCreation :: u64 where "TxGasContractCreation = 53000"
definition TxDataZeroGas :: u64 where "TxDataZeroGas = 4"
definition QuadCoeffDiv :: u64 where "QuadCoeffDiv = 512"
definition LogDataGas :: u64 where "LogDataGas = 8"
definition CallStipend :: u64 where "CallStipend = 2300"
definition Keccak256WordGas :: u64 where "Keccak256WordGas = 6"
definition NetSstoreNoopGas :: u64 where "NetSstoreNoopGas = 200"
definition NetSstoreInitGas :: u64 where "NetSstoreInitGas = 20000"
definition NetSstoreCleanGas :: u64 where "NetSstoreCleanGas = 5000"
definition NetSstoreDirtyGas :: u64 where "NetSstoreDirtyGas = 200"
definition NetSstoreClearRefund :: u64 where "NetSstoreClearRefund = 15000"
definition NetSstoreResetRefund :: u64 where "NetSstoreResetRefund = 4800"
definition NetSstoreResetClearRefund :: u64 where "NetSstoreResetClearRefund = 19800"
definition JumpdestGas :: u64 where "JumpdestGas = 1"
definition CreateDataGas :: u64 where "CreateDataGas = 200"
definition CallCreateDepth :: u16 where "CallCreateDepth = 1024"
definition ExpGas :: u64 where "ExpGas = 10"
definition LogGas :: u64 where "LogGas = 375"
definition CopyGas :: u64 where "CopyGas = 3"
definition StackLimit :: nat where "StackLimit = 1024"
definition LogTopicGas :: u64 where "LogTopicGas = 375"
definition CreateGas :: u64 where "CreateGas = 32000"
definition Create2Gas :: u64 where "Create2Gas = 32000"
definition SuicideRefundGas :: u64 where "SuicideRefundGas = 24000"
definition MemoryGas :: u64 where "MemoryGas = 3"
definition TxDataNonZeroGas :: u64 where "TxDataNonZeroGas = 68"
definition MaxCodeSize :: nat where "MaxCodeSize = 24576"

definition GasQuickStep :: u64 where "GasQuickStep = 2"
definition GasFastestStep :: u64 where "GasFastestStep = 3"
definition GasFastStep :: u64 where "GasFastStep = 5"
definition GasMidStep :: u64 where "GasMidStep = 8"
definition GasSlowStep :: u64 where "GasSlowStep = 10"
definition GasExtStep :: u64 where "GasExtStep = 20"

record GasTable =
  gt_ExtcodeSize :: u64
  gt_ExtcodeCopy :: u64
  gt_ExtcodeHash :: u64
  gt_Balance :: u64
  gt_SLoad :: u64
  gt_Calls :: u64
  gt_Suicide :: u64
  gt_ExpByte :: u64
  gt_CreateBySuicide :: u64
  gt_WarmStorageReadCost :: u64

definition GasTableCalifornicum :: GasTable where
  "GasTableCalifornicum = \<lparr>gt_ExtcodeSize = 700, gt_ExtcodeCopy = 700, gt_ExtcodeHash = 700, gt_Balance = 700,
     gt_SLoad = 800, gt_Calls = 700, gt_Suicide = 5000, gt_ExpByte = 50, gt_CreateBySuicide = 25000,
     gt_WarmStorageReadCost = 100\<rparr>"

subsection \<open>Helpers\<close>

definition MaxUint64 :: u64 where "MaxUint64 = - 1"

definition SafeAdd :: "u64 \<Rightarrow> u64 \<Rightarrow> u64 \<times> bool" where
  "SafeAdd x y = (x + y, y > MaxUint64 - x)"

definition SafeMul :: "u64 \<Rightarrow> u64 \<Rightarrow> u64 \<times> bool" where
  "SafeMul x y = (if x = 0 \<or> y = 0 then (0, False) else (x * y, y > MaxUint64 div x))"

text \<open>\<open>if z, overflow = ...; overflow \<open>{\<close> return 0, errGasUintOverflow \<open>}\<close>\<close>: \<^const>\<open>None\<close> is the error of a gas function.\<close>

definition no_overflow :: "'a \<times> bool \<Rightarrow> 'a option" where
  "no_overflow r = (if snd r then None else Some (fst r))"

definition safe_add :: "u64 \<Rightarrow> u64 \<Rightarrow> u64 option" where "safe_add x y = no_overflow (SafeAdd x y)"
definition safe_mul :: "u64 \<Rightarrow> u64 \<Rightarrow> u64 option" where "safe_mul x y = no_overflow (SafeMul x y)"

definition calcMemSize :: "'a evm_uint256_scheme \<Rightarrow> u256 \<Rightarrow> u256 \<Rightarrow> u256" where
  "calcMemSize U off l = (if U_Sign U l = 0 then 0 else U_Add U off l)"

definition calcMemSize64WithUint :: "'a evm_uint256_scheme \<Rightarrow> u256 \<Rightarrow> u64 \<Rightarrow> u64 \<times> bool" where
  "calcMemSize64WithUint U off length64 =
     (if length64 = 0 then (0, False)
      else
        let (offset64, overflow) = U_Uint64WithOverflow U off in
        if overflow then (0, True)
        else let val = offset64 + length64 in (val, val < offset64))"

definition RightPadBytes :: "bytes \<Rightarrow> nat \<Rightarrow> bytes" where
  "RightPadBytes b l = (if l \<le> length b then b else b @ replicate (l - length b) 0)"

text \<open>\<open>data[start:end]\<close> panics if \<open>end < start\<close>, which a wrapped sum can be.\<close>

definition getData :: "bytes \<Rightarrow> u64 \<Rightarrow> u64 \<Rightarrow> bytes option" where
  "getData data start0 sz =
     (let len = of_nat (length data) :: u64;
          start = (if start0 > len then len else start0);
          stop0 = start + sz;
          stop = (if stop0 > len then len else stop0) in
      if start \<le> stop then Some (RightPadBytes (drop (unat start) (take (unat stop) data)) (nat (sint sz))) else None)"

definition toWordSize :: "u64 \<Rightarrow> u64" where
  "toWordSize n = (if n > MaxUint64 - 31 then MaxUint64 div 32 + 1 else (n + 31) div 32)"

definition allZero :: "bytes \<Rightarrow> bool" where
  "allZero b \<longleftrightarrow> list_all (\<lambda>x. x = 0) b"

subsection \<open>Memory\<close>

text \<open>
  A frame's memory is a slice of the pool's buffer as long as it fits there, so it has a capacity beyond its length; what is
  there is zero, because a frame clears what it used when it gives it back. \<open>buf_len\<close> is the length of the pool's buffer.
\<close>

record Memory =
  mem_store :: bytes
  mem_cap :: nat
  using_pool :: bool
  pool_offset :: int
  lastGasCost :: u64

definition mem_Init :: "int \<Rightarrow> Memory" where
  "mem_Init reserved = \<lparr>mem_store = [], mem_cap = 0, using_pool = True, pool_offset = reserved, lastGasCost = 0\<rparr>"

definition mem_Len :: "Memory \<Rightarrow> u64" where
  "mem_Len m = of_nat (length (mem_store m))"

text \<open>\<open>m.store[lo:hi]\<close>: up to the capacity.\<close>

definition mem_slice :: "Memory \<Rightarrow> int \<Rightarrow> int \<Rightarrow> bytes option" where
  "mem_slice m lo hi =
     (if 0 \<le> lo \<and> lo \<le> hi \<and> hi \<le> int (mem_cap m)
      then Some (drop (nat lo) (take (nat hi) (mem_store m @ replicate (mem_cap m - length (mem_store m)) 0)))
      else None)"

text \<open>Go's \<open>copy\<close>, and writing to a part of the store.\<close>

definition go_copy :: "bytes \<Rightarrow> bytes \<Rightarrow> bytes" where
  "go_copy dst src = take (length dst) src @ drop (length src) dst"

definition store_at :: "nat \<Rightarrow> bytes \<Rightarrow> bytes \<Rightarrow> bytes" where
  "store_at pos part store = take pos store @ part @ drop (pos + length part) store"

definition mem_Set :: "u64 \<Rightarrow> u64 \<Rightarrow> bytes \<Rightarrow> Memory \<Rightarrow> Memory option" where
  "mem_Set offset sz val m =
     (if sz > 0 then
        if offset + sz > mem_Len m then None
        else do {
          dst \<leftarrow> mem_slice m (uint offset) (uint (offset + sz));
          Some (m\<lparr>mem_store := store_at (unat offset) (go_copy dst val) (mem_store m)\<rparr>) }
      else Some m)"

definition mem_Set32 :: "'a evm_uint256_scheme \<Rightarrow> u64 \<Rightarrow> u256 \<Rightarrow> Memory \<Rightarrow> Memory option" where
  "mem_Set32 U offset val m =
     (let stop = offset + 32 in
      if stop > mem_Len m then None
      else do {
        _ \<leftarrow> mem_slice m (uint offset) (uint stop);
        Some (m\<lparr>mem_store := store_at (unat offset) (U_WriteToSlice U val) (mem_store m)\<rparr>) })"

text \<open>\<open>Resize\<close> also says what the pool has reserved afterwards.\<close>

definition mem_Resize :: "nat \<Rightarrow> int \<Rightarrow> u64 \<Rightarrow> Memory \<Rightarrow> Memory \<times> int" where
  "mem_Resize buf_len reserved sz m =
     (if sz \<le> mem_Len m then (m, reserved)
      else
        let pool_reserved = pool_offset m + sint sz; n = unat sz; grown = mem_store m @ replicate (n - length (mem_store m)) 0 in
        if using_pool m \<and> pool_reserved \<le> int buf_len
        then (m\<lparr>mem_store := grown, mem_cap := nat (int buf_len - pool_offset m)\<rparr>, pool_reserved)
        else (m\<lparr>mem_store := grown, mem_cap := n, using_pool := False\<rparr>, if using_pool m then pool_offset m else reserved))"

definition mem_Release :: "Memory \<Rightarrow> int \<Rightarrow> int" where
  "mem_Release m reserved = (if using_pool m then pool_offset m else reserved)"

text \<open>The offset and the size are \<open>int64\<close>.\<close>

definition mem_GetPtr :: "Memory \<Rightarrow> u64 \<Rightarrow> u64 \<Rightarrow> bytes option" where
  "mem_GetPtr m offset sz =
     (if sz = 0 then Some []
      else if int (length (mem_store m)) > sint offset then mem_slice m (sint offset) (sint (offset + sz))
      else Some [])"

text \<open>\<open>make\<close> panics on a negative length.\<close>

definition mem_GetCopy :: "Memory \<Rightarrow> u64 \<Rightarrow> u64 \<Rightarrow> bytes option" where
  "mem_GetCopy m offset sz =
     (if sz = 0 then Some []
      else if int (length (mem_store m)) > sint offset then do {
        _ \<leftarrow> holds (0 \<le> sint sz);
        src \<leftarrow> mem_slice m (sint offset) (sint (offset + sz));
        Some (go_copy (replicate (unat sz) 0) src) }
      else Some [])"

definition mem_Copy :: "u64 \<Rightarrow> u64 \<Rightarrow> u64 \<Rightarrow> Memory \<Rightarrow> Memory option" where
  "mem_Copy dst src len m =
     (if len = 0 then Some m
      else if unat dst > length (mem_store m) then None
      else do {
        from_src \<leftarrow> mem_slice m (uint src) (uint (src + len));
        Some (m\<lparr>mem_store := store_at (unat dst) (go_copy (drop (unat dst) (mem_store m)) from_src) (mem_store m)\<rparr>) })"

subsection \<open>Stack\<close>

type_synonym stack = "u256 list"

definition st_pop :: "stack \<Rightarrow> (u256 \<times> stack) option" where
  "st_pop st = (case st of [] \<Rightarrow> None | x # xs \<Rightarrow> Some (x, xs))"

definition Back :: "nat \<Rightarrow> stack \<Rightarrow> u256 option" where
  "Back n st = (if n < length st then Some (st ! n) else None)"

definition st_dup :: "nat \<Rightarrow> stack \<Rightarrow> stack option" where
  "st_dup n st = (if 1 \<le> n \<and> n \<le> length st then Some (st ! (n - 1) # st) else None)"

definition st_swap :: "nat \<Rightarrow> stack \<Rightarrow> stack option" where
  "st_swap n st = (if 1 \<le> n \<and> n \<le> length st then Some (st[n - 1 := st ! 0, 0 := st ! (n - 1)]) else None)"

definition st_require :: "nat \<Rightarrow> stack \<Rightarrow> evm_error option" where
  "st_require n st = (if length st < n then Some (ErrStackUnderflow (length st) n) else None)"

definition makeStackFunc :: "nat \<Rightarrow> nat \<Rightarrow> stack \<Rightarrow> evm_error option" where
  "makeStackFunc pop push st =
     (case st_require pop st of
        Some e \<Rightarrow> Some e
      | None \<Rightarrow> if length st + push - pop > StackLimit then Some (ErrStackLimit (length st)) else None)"

definition makeDupStackFunc :: "nat \<Rightarrow> stack \<Rightarrow> evm_error option" where
  "makeDupStackFunc n = makeStackFunc n (n + 1)"

definition makeSwapStackFunc :: "nat \<Rightarrow> stack \<Rightarrow> evm_error option" where
  "makeSwapStackFunc n = makeStackFunc n n"

subsection \<open>The memory that an instruction needs\<close>

type_synonym memorySizeFunc = "stack \<Rightarrow> u256 option"

definition mem_at :: "'a evm_uint256_scheme \<Rightarrow> nat \<Rightarrow> nat \<Rightarrow> memorySizeFunc" where
  "mem_at U i j st = do { off \<leftarrow> Back i st; l \<leftarrow> Back j st; Some (calcMemSize U off l) }"

definition bigMax :: "'a evm_uint256_scheme \<Rightarrow> u256 \<Rightarrow> u256 \<Rightarrow> u256" where
  "bigMax U x y = (if U_Lt U x y then y else x)"

definition memoryKeccak256 :: "'a evm_uint256_scheme \<Rightarrow> memorySizeFunc" where "memoryKeccak256 U = mem_at U 0 1"
definition memoryCallDataCopy :: "'a evm_uint256_scheme \<Rightarrow> memorySizeFunc" where "memoryCallDataCopy U = mem_at U 0 2"
definition memoryReturnDataCopy :: "'a evm_uint256_scheme \<Rightarrow> memorySizeFunc" where "memoryReturnDataCopy U = mem_at U 0 2"
definition memoryCodeCopy :: "'a evm_uint256_scheme \<Rightarrow> memorySizeFunc" where "memoryCodeCopy U = mem_at U 0 2"
definition memoryExtCodeCopy :: "'a evm_uint256_scheme \<Rightarrow> memorySizeFunc" where "memoryExtCodeCopy U = mem_at U 1 3"
definition memoryCreate :: "'a evm_uint256_scheme \<Rightarrow> memorySizeFunc" where "memoryCreate U = mem_at U 1 2"
definition memoryCreate2 :: "'a evm_uint256_scheme \<Rightarrow> memorySizeFunc" where "memoryCreate2 U = mem_at U 1 2"
definition memoryReturn :: "'a evm_uint256_scheme \<Rightarrow> memorySizeFunc" where "memoryReturn U = mem_at U 0 1"
definition memoryRevert :: "'a evm_uint256_scheme \<Rightarrow> memorySizeFunc" where "memoryRevert U = mem_at U 0 1"
definition memoryLog :: "'a evm_uint256_scheme \<Rightarrow> memorySizeFunc" where "memoryLog U = mem_at U 0 1"

definition memoryMLoad :: "'a evm_uint256_scheme \<Rightarrow> memorySizeFunc" where
  "memoryMLoad U st = do { off \<leftarrow> Back 0 st; Some (calcMemSize U off 32) }"

definition memoryMStore8 :: "'a evm_uint256_scheme \<Rightarrow> memorySizeFunc" where
  "memoryMStore8 U st = do { off \<leftarrow> Back 0 st; Some (calcMemSize U off 1) }"

definition memoryMStore :: "'a evm_uint256_scheme \<Rightarrow> memorySizeFunc" where
  "memoryMStore U st = do { off \<leftarrow> Back 0 st; Some (calcMemSize U off 32) }"

definition memoryMcopy :: "'a evm_uint256_scheme \<Rightarrow> memorySizeFunc" where
  "memoryMcopy U st = do {
     dest \<leftarrow> Back 0 st; source \<leftarrow> Back 1 st; l \<leftarrow> Back 2 st;
     let mStart = (if U_Gt U source dest then source else dest);
     let need = calcMemSize U mStart l;
     Some (if U_IsUint64 U need then need else 0) }"

definition memoryCall :: "'a evm_uint256_scheme \<Rightarrow> memorySizeFunc" where
  "memoryCall U st = do { x \<leftarrow> mem_at U 5 6 st; y \<leftarrow> mem_at U 3 4 st; Some (bigMax U x y) }"

definition memoryDelegateCall :: "'a evm_uint256_scheme \<Rightarrow> memorySizeFunc" where
  "memoryDelegateCall U st = do { x \<leftarrow> mem_at U 4 5 st; y \<leftarrow> mem_at U 2 3 st; Some (bigMax U x y) }"

definition memoryStaticCall :: "'a evm_uint256_scheme \<Rightarrow> memorySizeFunc" where
  "memoryStaticCall U st = do { x \<leftarrow> mem_at U 4 5 st; y \<leftarrow> mem_at U 2 3 st; Some (bigMax U x y) }"

end
