(* ===== verification/Evm_Gas.thy ===== *)
theory Evm_Gas
  imports Evm_Base
begin

section \<open>The machine and the gas of its instructions\<close>

text \<open>
  The state of the interpreter and \<open>src/core/vm/gas.go\<close>. \<open>evm_env\<close> is what stays the same during a transaction: the
  block, the transaction, the chain, the tables that \<open>SetBlock\<close> chose, the size of the memory pool, and the code that is
  not modelled (the package \<open>uint256\<close>, the hash function, the precompiled contracts). \<open>EVM\<close> is what changes.
  \<open>machine\<close> is what an instruction works on. Accounts are referred to by address. The cache of jump destination
  analyses is left out, since an entry is what \<open>codeBitmap\<close> computes from the code.
\<close>

record EvmFrame =
  f_CallerAccount :: address
  f_Account :: address
  f_Input :: bytes
  f_Gas :: u64
  f_Value :: int

record EVM =
  evm_state :: TransitionState
  evm_depth :: u16
  call_gas_tmp :: u64
  evm_read_only :: bool
  last_retval :: bytes
  pool_reserved :: int

text \<open>
  What a precompiled contract returns is a new slice or its input, which is a part of the caller's memory.
\<close>

datatype retval = RetFresh bytes | RetInput

record precompiled =
  pc_RequiredGas :: "EvmFrame \<Rightarrow> EVM \<Rightarrow> u64"
  pc_Run :: "EvmFrame \<Rightarrow> EVM \<Rightarrow> (retval \<times> evm_error option \<times> EVM) option"

record evm_env =
  env_U :: evm_uint256
  env_keccak :: "bytes \<Rightarrow> hash"
  env_precompiles :: "address \<Rightarrow> precompiled option"
  env_get_hash :: "u64 \<Rightarrow> int"
  env_Number :: u64
  env_Author :: address
  env_GasLimit :: u64
  env_Time :: u64
  env_Difficulty :: int
  env_From :: address
  env_GasPrice :: int
  env_ChainId :: u64
  env_IsFicus :: bool
  env_IsCornus :: bool
  env_gas_table :: GasTable
  env_buf_len :: nat

record Contract = EvmFrame +
  c_code :: bytes

record machine =
  m_pc :: u64
  m_evm :: EVM
  m_contract :: Contract
  m_mem :: Memory
  m_stack :: stack

definition get_account :: "evm_env \<Rightarrow> u256 \<Rightarrow> EVM \<Rightarrow> Account" where
  "get_account E addr_as_u256 evm = ts_accounts (evm_state evm) (U_Bytes20 (env_U E) addr_as_u256)"

definition contract_account :: "machine \<Rightarrow> Account" where
  "contract_account m = ts_accounts (evm_state (m_evm m)) (f_Account (m_contract m))"

definition UseGas :: "u64 \<Rightarrow> Contract \<Rightarrow> Contract option" where
  "UseGas gas c = (if f_Gas c < gas then None else Some (c\<lparr>f_Gas := f_Gas c - gas\<rparr>))"

subsection \<open>Intrinsic gas\<close>

definition IntrinsicGas :: "bytes \<Rightarrow> bool \<Rightarrow> evm_error + u64" where
  "IntrinsicGas data contractCreation =
     (let gas = (if contractCreation then TxGasContractCreation else TxGas) in
      if length data > 0 then
        let nz = of_nat (length (filter (\<lambda>byt. byt \<noteq> 0) data)) in
        if (MaxUint64 - gas) div TxDataNonZeroGas < nz then Inl ErrOutOfGas
        else
          let gas1 = gas + nz * TxDataNonZeroGas; z = of_nat (length data) - nz in
          if (MaxUint64 - gas1) div TxDataZeroGas < z then Inl ErrOutOfGas
          else Inr (gas1 + z * TxDataZeroGas)
      else Inr gas)"

subsection \<open>Calls and memory\<close>

definition callGas :: "'a evm_uint256_scheme \<Rightarrow> GasTable \<Rightarrow> u64 \<Rightarrow> u64 \<Rightarrow> u256 \<Rightarrow> u64 option" where
  "callGas U gasTable availableGas0 base callCost =
     (let availableGas = availableGas0 - base; gas = availableGas - availableGas div 64 in
      if gt_CreateBySuicide gasTable > 0 \<and> (U_BitLen U callCost > 64 \<or> gas < U_Uint64 U callCost) then Some gas
      else if U_BitLen U callCost > 64 then None
      else Some (U_Uint64 U callCost))"

definition memoryGasCost :: "Memory \<Rightarrow> u64 \<Rightarrow> u64 option \<times> Memory" where
  "memoryGasCost mem newMemSize0 =
     (if newMemSize0 = 0 then (Some 0, mem)
      else if newMemSize0 > 0xffffffffe0 then (None, mem)
      else
        let newMemSizeWords = toWordSize newMemSize0; newMemSize = newMemSizeWords * 32 in
        if newMemSize > mem_Len mem then
          let square = newMemSizeWords * newMemSizeWords;
              linCoef = newMemSizeWords * MemoryGas;
              quadCoef = square div QuadCoeffDiv;
              newTotalFee = linCoef + quadCoef;
              fee = newTotalFee - lastGasCost mem
          in (Some fee, mem\<lparr>lastGasCost := newTotalFee\<rparr>)
        else (Some 0, mem))"

text \<open>
  A gas function returns its error or the gas, and the machine with what it changed: the fee that the memory has paid, the
  gas for the call that follows, refunds. A panic is \<^const>\<open>None\<close>.
\<close>

type_synonym gasFunc = "machine \<Rightarrow> u64 \<Rightarrow> (u64 option \<times> machine) option"

text \<open>The functions that charge for memory and then add to it.\<close>

definition mem_gas :: "(u64 \<Rightarrow> u64 option) \<Rightarrow> gasFunc" where
  "mem_gas rest m memorySize =
     (let (gas, mem) = memoryGasCost (m_mem m) memorySize in Some (gas \<bind> rest, m\<lparr>m_mem := mem\<rparr>))"

text \<open>The words of a size on the stack at a price per word.\<close>

definition word_gas :: "'a evm_uint256_scheme \<Rightarrow> u64 \<Rightarrow> u256 \<Rightarrow> u64 \<Rightarrow> u64 option" where
  "word_gas U price sz gas = do {
     n \<leftarrow> no_overflow (U_Uint64WithOverflow U sz);
     wordGas \<leftarrow> safe_mul (toWordSize n) price;
     safe_add gas wordGas }"

definition constGasFunc :: "u64 \<Rightarrow> gasFunc" where
  "constGasFunc gas m memorySize = Some (Some gas, m)"

definition memoryCopierGas :: "evm_env \<Rightarrow> nat \<Rightarrow> u64 \<Rightarrow> gasFunc" where
  "memoryCopierGas E stackpos staticGas m memorySize = do {
     sz \<leftarrow> Back stackpos (m_stack m);
     mem_gas (\<lambda>gas. do { gas1 \<leftarrow> safe_add gas staticGas; word_gas (env_U E) CopyGas sz gas1 }) m memorySize }"

definition gasCallDataCopy :: "evm_env \<Rightarrow> gasFunc" where "gasCallDataCopy E = memoryCopierGas E 2 GasFastestStep"
definition gasCodeCopy :: "evm_env \<Rightarrow> gasFunc" where "gasCodeCopy E = memoryCopierGas E 2 GasFastestStep"
definition gasMcopy :: "evm_env \<Rightarrow> gasFunc" where "gasMcopy E = memoryCopierGas E 2 GasFastestStep"
definition gasReturnDataCopy :: "evm_env \<Rightarrow> gasFunc" where "gasReturnDataCopy E = memoryCopierGas E 2 GasFastestStep"

definition upd_state :: "(TransitionState \<Rightarrow> TransitionState) \<Rightarrow> machine \<Rightarrow> machine" where
  "upd_state f m = m\<lparr>m_evm := (m_evm m)\<lparr>evm_state := f (evm_state (m_evm m))\<rparr>\<rparr>"

definition sub_refund :: "u64 \<Rightarrow> machine \<Rightarrow> machine option" where
  "sub_refund gas m = map_option (\<lambda>s. upd_state (\<lambda>_. s) m) (SubRefund gas (evm_state (m_evm m)))"

definition gasSStore :: "evm_env \<Rightarrow> gasFunc" where
  "gasSStore E m memorySize = do {
     y \<leftarrow> Back 1 (m_stack m); x \<leftarrow> Back 0 (m_stack m);
     let U = env_U E;
     let y_big = U_ToBig U y;
     let x_big = U_ToBig U x;
     let db = ts_db (evm_state (m_evm m)) (f_Account (m_contract m));
     let current = acc_GetState db (contract_account m) x_big;
     let original = acc_GetCommittedState db (contract_account m) x_big;
     if current = y_big then Some (Some NetSstoreNoopGas, m)
     else if original = current then
       if original = 0 then Some (Some NetSstoreInitGas, m)
       else Some (Some NetSstoreCleanGas, if U_Sign U y = 0 then upd_state (AddRefund NetSstoreClearRefund) m else m)
     else do {
       m1 \<leftarrow> (if original \<noteq> 0 then
                if current = 0 then sub_refund NetSstoreClearRefund m
                else if U_Sign U y = 0 then Some (upd_state (AddRefund NetSstoreClearRefund) m)
                else Some m
              else Some m);
       let m2 = (if original = y_big then
                   if original = 0 then upd_state (AddRefund NetSstoreResetClearRefund) m1
                   else upd_state (AddRefund NetSstoreResetRefund) m1
                 else m1);
       Some (Some NetSstoreDirtyGas, m2) } }"

definition makeGasLog :: "evm_env \<Rightarrow> u64 \<Rightarrow> gasFunc" where
  "makeGasLog E n m memorySize = do {
     sz \<leftarrow> Back 1 (m_stack m);
     case no_overflow (U_Uint64WithOverflow (env_U E) sz) of
       None \<Rightarrow> Some (None, m)
     | Some requestedSize \<Rightarrow>
         mem_gas (\<lambda>gas. do {
           gas1 \<leftarrow> safe_add gas LogGas;
           gas2 \<leftarrow> safe_add gas1 (n * LogTopicGas);
           memorySizeGas \<leftarrow> safe_mul requestedSize LogDataGas;
           safe_add gas2 memorySizeGas }) m memorySize }"

definition gasKeccak256 :: "evm_env \<Rightarrow> gasFunc" where
  "gasKeccak256 E m memorySize = do {
     sz \<leftarrow> Back 1 (m_stack m);
     mem_gas (\<lambda>gas. do { gas1 \<leftarrow> safe_add gas Keccak256WordGas; word_gas (env_U E) Keccak256WordGas sz gas1 }) m memorySize }"

definition gasExtCodeCopy :: "evm_env \<Rightarrow> gasFunc" where
  "gasExtCodeCopy E m memorySize = do {
     sz \<leftarrow> Back 3 (m_stack m);
     mem_gas (\<lambda>gas. do {
       gas1 \<leftarrow> safe_add gas (gt_ExtcodeCopy (env_gas_table E)); word_gas (env_U E) CopyGas sz gas1 }) m memorySize }"

definition gasExtCodeHash :: "evm_env \<Rightarrow> gasFunc" where
  "gasExtCodeHash E m memorySize = Some (Some (gt_ExtcodeHash (env_gas_table E)), m)"

definition gasMLoad :: gasFunc where "gasMLoad = mem_gas (\<lambda>gas. safe_add gas GasFastestStep)"
definition gasMStore8 :: gasFunc where "gasMStore8 = mem_gas (\<lambda>gas. safe_add gas GasFastestStep)"
definition gasMStore :: gasFunc where "gasMStore = mem_gas (\<lambda>gas. safe_add gas GasFastestStep)"
definition gasCreate :: gasFunc where "gasCreate = mem_gas (\<lambda>gas. safe_add gas CreateGas)"

definition gasCreate2 :: "evm_env \<Rightarrow> gasFunc" where
  "gasCreate2 E m memorySize = do {
     sz \<leftarrow> Back 2 (m_stack m);
     mem_gas (\<lambda>gas. do { gas1 \<leftarrow> safe_add gas Create2Gas; word_gas (env_U E) Keccak256WordGas sz gas1 }) m memorySize }"

definition gasBalance :: "evm_env \<Rightarrow> gasFunc" where
  "gasBalance E m memorySize = Some (Some (gt_Balance (env_gas_table E)), m)"

definition gasExtCodeSize :: "evm_env \<Rightarrow> gasFunc" where
  "gasExtCodeSize E m memorySize = Some (Some (gt_ExtcodeSize (env_gas_table E)), m)"

definition gasSLoad :: "evm_env \<Rightarrow> gasFunc" where
  "gasSLoad E m memorySize = Some (Some (gt_SLoad (env_gas_table E)), m)"

definition gasTLoad :: "evm_env \<Rightarrow> gasFunc" where
  "gasTLoad E m memorySize = Some (Some (gt_WarmStorageReadCost (env_gas_table E)), m)"

definition gasExp :: "evm_env \<Rightarrow> gasFunc" where
  "gasExp E m memorySize = do {
     e \<leftarrow> Back 1 (m_stack m);
     let expByteLen = (word_of_int ((U_BitLen (env_U E) e + 7) div 8) :: u64);
     Some (safe_add (expByteLen * gt_ExpByte (env_gas_table E)) ExpGas, m) }"

text \<open>
  The end of the four functions for calls: memory is charged to the base price, \<open>callGas\<close> decides what the call gets, and both
  are the cost.
\<close>

definition call_cost :: "evm_env \<Rightarrow> u64 \<Rightarrow> gasFunc" where
  "call_cost E base m memorySize = do {
     callCost \<leftarrow> Back 0 (m_stack m);
     let (memoryGas, mem) = memoryGasCost (m_mem m) memorySize;
     let m1 = m\<lparr>m_mem := mem\<rparr>;
     case memoryGas \<bind> safe_add base of
       None \<Rightarrow> Some (None, m1)
     | Some gas \<Rightarrow>
         (case callGas (env_U E) (env_gas_table E) (f_Gas (m_contract m)) gas callCost of
            None \<Rightarrow> Some (None, m1\<lparr>m_evm := (m_evm m1)\<lparr>call_gas_tmp := 0\<rparr>\<rparr>)
          | Some tmp \<Rightarrow> Some (safe_add gas tmp, m1\<lparr>m_evm := (m_evm m1)\<lparr>call_gas_tmp := tmp\<rparr>\<rparr>)) }"

definition gasCall :: "evm_env \<Rightarrow> gasFunc" where
  "gasCall E m memorySize = do {
     val \<leftarrow> Back 2 (m_stack m); addr \<leftarrow> Back 1 (m_stack m);
     let transfersValue = (\<not> U_IsZero (env_U E) val);
     let acc = get_account E addr (m_evm m);
     let gas = gt_Calls (env_gas_table E);
     let gas1 = (if transfersValue \<and> IsEIP161Empty acc then gas + CallNewAccountGas else gas);
     let gas2 = (if transfersValue then gas1 + CallValueTransferGas else gas1);
     call_cost E gas2 m memorySize }"

definition gasCallCode :: "evm_env \<Rightarrow> gasFunc" where
  "gasCallCode E m memorySize = do {
     val \<leftarrow> Back 2 (m_stack m);
     let gas = gt_Calls (env_gas_table E);
     call_cost E (if U_Sign (env_U E) val \<noteq> 0 then gas + CallValueTransferGas else gas) m memorySize }"

definition gasDelegateCall :: "evm_env \<Rightarrow> gasFunc" where
  "gasDelegateCall E m memorySize = call_cost E (gt_Calls (env_gas_table E)) m memorySize"

definition gasStaticCall :: "evm_env \<Rightarrow> gasFunc" where
  "gasStaticCall E m memorySize = call_cost E (gt_Calls (env_gas_table E)) m memorySize"

definition gasReturn :: gasFunc where "gasReturn = mem_gas Some"
definition gasRevert :: gasFunc where "gasRevert = mem_gas Some"

definition gasSuicide :: "evm_env \<Rightarrow> gasFunc" where
  "gasSuicide E m memorySize = do {
     x \<leftarrow> Back 0 (m_stack m);
     let new_acc = get_account E x (m_evm m);
     let gas = gt_Suicide (env_gas_table E);
     let gas1 = (if IsEIP161Empty new_acc \<and> acc_GetBalance (contract_account m) \<noteq> 0
                 then gas + gt_CreateBySuicide (env_gas_table E) else gas);
     suicided \<leftarrow> HasSuicided (contract_account m);
     Some (Some gas1, if \<not> suicided then upd_state (AddRefund SuicideRefundGas) m else m) }"

definition gasPush :: gasFunc where "gasPush = constGasFunc GasFastestStep"
definition gasSwap :: gasFunc where "gasSwap = constGasFunc GasFastestStep"
definition gasDup :: gasFunc where "gasDup = constGasFunc GasFastestStep"

end
