(* ===== verification/Evm_Analysis.thy ===== *)
theory Evm_Analysis
  imports Word_Facts
begin

section \<open>Code and data\<close>

text \<open>
  \<open>src/core/vm/analysis.go\<close>: which bytes of a contract are instructions and which are the operands of push
  instructions. The bit of a position is set if the byte is data. Writing or reading outside of the vector panics.
\<close>

unbundle bit_operations_syntax

type_synonym bitvec = bytes

definition PUSH1 :: byte where "PUSH1 = 0x60"
definition PUSH32 :: byte where "PUSH32 = 0x7f"
definition JUMPDEST :: byte where "JUMPDEST = 0x5b"

definition or_at :: "nat \<Rightarrow> byte \<Rightarrow> bitvec \<Rightarrow> bitvec option" where
  "or_at i msk bits = (if i < length bits then Some (bits[i := bits ! i OR msk]) else None)"

definition bits_set :: "nat \<Rightarrow> bitvec \<Rightarrow> bitvec option" where
  "bits_set pos bits = or_at (pos div 8) (drop_bit (pos mod 8) 0x80) bits"

definition bits_set8 :: "nat \<Rightarrow> bitvec \<Rightarrow> bitvec option" where
  "bits_set8 pos bits = do {
     bits1 \<leftarrow> or_at (pos div 8) (drop_bit (pos mod 8) 0xFF) bits;
     or_at (pos div 8 + 1) (NOT (drop_bit (pos mod 8) 0xFF)) bits1 }"

definition codeSegment :: "nat \<Rightarrow> bitvec \<Rightarrow> bool option" where
  "codeSegment pos bits =
     (if pos div 8 < length bits then Some (bits ! (pos div 8) AND drop_bit (pos mod 8) 0x80 = 0) else None)"

fun set_data :: "nat \<Rightarrow> nat \<Rightarrow> bitvec \<Rightarrow> bitvec option" where
  "set_data numbits pc bits =
     (if numbits \<ge> 8 then do { bits1 \<leftarrow> bits_set8 pc bits; set_data (numbits - 8) (pc + 8) bits1 }
      else if numbits > 0 then do { bits1 \<leftarrow> bits_set pc bits; set_data (numbits - 1) (pc + 1) bits1 }
      else Some bits)"

declare set_data.simps [simp del]

definition push_size :: "byte \<Rightarrow> nat" where
  "push_size op = (if op \<ge> PUSH1 \<and> op \<le> PUSH32 then unat (op - PUSH1 + 1) else 0)"

function bitmap_loop :: "bytes \<Rightarrow> nat \<Rightarrow> bitvec \<Rightarrow> bitvec option" where
  "bitmap_loop code pc bits =
     (if pc < length code then do {
        bits1 \<leftarrow> set_data (push_size (code ! pc)) (pc + 1) bits;
        bitmap_loop code (pc + 1 + push_size (code ! pc)) bits1 }
      else Some bits)"
  by pat_completeness auto
termination by (relation "measure (\<lambda>(code, pc, bits). length code - pc)") auto

declare bitmap_loop.simps [simp del]

definition codeBitmap :: "bytes \<Rightarrow> bitvec option" where
  "codeBitmap code = bitmap_loop code 0 (replicate (length code div 8 + 1 + 4) 0)"

subsection \<open>Instructions, one after the other\<close>

text \<open>The positions at which execution that starts at the beginning and does not jump finds instructions.\<close>

inductive op_start :: "bytes \<Rightarrow> nat \<Rightarrow> bool" for code where
  start_first: "op_start code 0"
| start_next: "op_start code p \<Longrightarrow> p < length code \<Longrightarrow> op_start code (p + 1 + push_size (code ! p))"

inductive_cases op_startE: "op_start code p"

lemma op_start_disjoint:
  assumes "op_start code q" and "op_start code p" and "p < q"
  shows "p + 1 + push_size (code ! p) \<le> q"
  using assms
proof (induction q arbitrary: p rule: less_induct)
  case (less q)
  from \<open>p < q\<close> obtain q' where q': "q = q' + 1 + push_size (code ! q')" "op_start code q'"
    using \<open>op_start code q\<close> by (auto elim: op_startE)
  then have "q' < q" by simp
  consider "p < q'" | "p = q'" | "q' < p" by linarith
  then show ?case
  proof cases
    case 1
    then show ?thesis using less.IH [OF \<open>q' < q\<close> q'(2) less.prems(2)] \<open>q' < q\<close> by simp
  next
    case 2
    then show ?thesis using q'(1) by simp
  next
    case 3
    then show ?thesis using less.IH [OF less.prems(3) less.prems(2) q'(2)] q'(1) less.prems(3) by simp
  qed
qed

subsection \<open>The bit vector as a set of positions\<close>

definition is_set :: "bitvec \<Rightarrow> nat \<Rightarrow> bool" where
  "is_set bits pos \<longleftrightarrow> pos div 8 < length bits \<and> bit (bits ! (pos div 8)) (7 - pos mod 8)"

lemma bit_0x80: "bit (0x80 :: byte) n \<longleftrightarrow> n = 7"
proof -
  have "(0x80 :: byte) = push_bit 7 1" by simp
  then show ?thesis by (simp only: bit_push_bit_iff bit_1_iff) (auto simp: possible_bit_word)
qed

lemma bit_shifted_0x80: "bit (drop_bit k 0x80 :: byte) n \<longleftrightarrow> k + n = 7"
  by (simp only: bit_drop_bit_eq o_apply bit_0x80)

lemma bit_shifted_0xFF: "k < 8 \<Longrightarrow> j < 8 \<Longrightarrow> bit (drop_bit k 0xFF :: byte) (7 - j) \<longleftrightarrow> k \<le> j"
  by (simp only: bit_drop_bit_eq o_apply bit_0xff) (simp, arith)

lemma codeSegment_is_set: "pos div 8 < length bits \<Longrightarrow> codeSegment pos bits = Some (\<not> is_set bits pos)"
proof -
  have "(x AND drop_bit k 0x80 = 0) \<longleftrightarrow> \<not> bit x (7 - k)" if "k < 8" for x :: byte and k
  proof -
    have n: "bit (x AND drop_bit k 0x80) n \<longleftrightarrow> n = 7 - k \<and> bit x n" for n
      unfolding bit_and_iff bit_shifted_0x80 using that by auto
    have "(x AND drop_bit k 0x80 = 0) \<longleftrightarrow> (\<forall>n. \<not> bit (x AND drop_bit k 0x80) n)"
      by (metis bit_0_eq bot_apply bot_bool_def bit_eq_iff)
    then show ?thesis unfolding n by simp
  qed
  then show "pos div 8 < length bits \<Longrightarrow> codeSegment pos bits = Some (\<not> is_set bits pos)"
    by (simp add: codeSegment_def is_set_def)
qed

lemma or_at_is_set:
  assumes "i < length bits"
  shows "or_at i msk bits = Some (bits[i := bits ! i OR msk])"
    "is_set (bits[i := bits ! i OR msk]) pos \<longleftrightarrow> is_set bits pos \<or> pos div 8 = i \<and> bit msk (7 - pos mod 8)"
  using assms by (auto simp: or_at_def is_set_def nth_list_update bit_or_iff)

lemma bits_set_correct:
  assumes "pos div 8 < length bits"
  shows "\<exists>bits'. bits_set pos bits = Some bits' \<and> length bits' = length bits \<and> (\<forall>q. is_set bits' q \<longleftrightarrow> is_set bits q \<or> q = pos)"
proof -
  have "(q div 8 = pos div 8 \<and> bit (drop_bit (pos mod 8) 0x80 :: byte) (7 - q mod 8)) \<longleftrightarrow> q = pos" for q
  proof -
    have "pos mod 8 + (7 - q mod 8) = 7 \<longleftrightarrow> q mod 8 = pos mod 8"
      using mod_less_divisor [of 8 q] mod_less_divisor [of 8 pos] by linarith
    then show ?thesis unfolding bit_shifted_0x80 by (metis div_mult_mod_eq)
  qed
  then show ?thesis
    using or_at_is_set [OF assms, of "drop_bit (pos mod 8) 0x80"] unfolding bits_set_def by (metis length_list_update)
qed

lemma bits_set8_correct:
  assumes "pos div 8 + 1 < length bits"
  shows "\<exists>bits'. bits_set8 pos bits = Some bits' \<and> length bits' = length bits \<and>
    (\<forall>q. is_set bits' q \<longleftrightarrow> is_set bits q \<or> pos \<le> q \<and> q < pos + 8)"
proof -
  let ?i = "pos div 8" let ?k = "pos mod 8"
  let ?b1 = "bits[?i := bits ! ?i OR drop_bit ?k 0xFF]"
  let ?b2 = "?b1[?i + 1 := ?b1 ! (?i + 1) OR NOT (drop_bit ?k 0xFF)]"
  have m1: "bit (drop_bit ?k 0xFF :: byte) (7 - j) \<longleftrightarrow> ?k \<le> j" if "j < 8" for j
    using that by (intro bit_shifted_0xFF) simp_all
  have m2: "bit (NOT (drop_bit ?k 0xFF) :: byte) (7 - j) \<longleftrightarrow> j < ?k" if "j < 8" for j
    using m1 [OF that] that by (simp only: bit_not_iff) (auto simp: possible_bit_word)
  have q: "q mod 8 < 8" for q :: nat by simp
  have split: "(q div 8 = ?i \<and> ?k \<le> q mod 8 \<or> q div 8 = ?i + 1 \<and> q mod 8 < ?k) \<longleftrightarrow> pos \<le> q \<and> q < pos + 8" for q
  proof -
    have e: "pos = 8 * ?i + ?k" "q = 8 * (q div 8) + q mod 8" by simp_all
    have "(b = a \<and> k \<le> j \<or> b = a + 1 \<and> j < k) \<longleftrightarrow> 8 * a + k \<le> 8 * b + j \<and> 8 * b + j < 8 * a + k + 8"
      if "k < 8" "j < 8" for a b j k :: nat using that by linarith
    from this [OF q [of pos] q [of q], where a = ?i and b = "q div 8"] show ?thesis unfolding e [symmetric] .
  qed
  have i: "?i < length bits" "?i + 1 < length ?b1" using assms by simp_all
  have "is_set ?b2 q \<longleftrightarrow> is_set bits q \<or> pos \<le> q \<and> q < pos + 8" for q
    using or_at_is_set(2) [OF i(2), of "NOT (drop_bit ?k 0xFF)" q] or_at_is_set(2) [OF i(1), of "drop_bit ?k 0xFF" q]
      m1 [OF q] m2 [OF q] split [of q] by auto
  moreover have "bits_set8 pos bits = Some ?b2" unfolding bits_set8_def using or_at_is_set(1) [OF i(1)] or_at_is_set(1) [OF i(2)] by simp
  ultimately show ?thesis by simp
qed

lemma set_data_correct:
  assumes "n > 0 \<Longrightarrow> (pc + n) div 8 < length bits"
  shows "\<exists>bits'. set_data n pc bits = Some bits' \<and> length bits' = length bits \<and>
    (\<forall>q. is_set bits' q \<longleftrightarrow> is_set bits q \<or> pc \<le> q \<and> q < pc + n)"
  using assms
proof (induction n pc bits rule: set_data.induct)
  case (1 n pc bits)
  consider "8 \<le> n" | "0 < n" "n < 8" | "n = 0" by linarith
  then show ?case
  proof cases
    case a: 1
    have "(pc + 8) div 8 \<le> (pc + n) div 8" using a by (intro div_le_mono) simp
    with a "1.prems" have "pc div 8 + 1 < length bits" by simp
    from bits_set8_correct [OF this] obtain b1 where b1: "bits_set8 pc bits = Some b1" "length b1 = length bits"
      "\<forall>q. is_set b1 q \<longleftrightarrow> is_set bits q \<or> pc \<le> q \<and> q < pc + 8" by auto
    have "n - 8 > 0 \<Longrightarrow> (pc + 8 + (n - 8)) div 8 < length b1" using "1.prems" b1 a by simp
    then have "\<exists>b2. set_data (n - 8) (pc + 8) b1 = Some b2 \<and> length b2 = length b1 \<and>
        (\<forall>q. is_set b2 q \<longleftrightarrow> is_set b1 q \<or> pc + 8 \<le> q \<and> q < pc + 8 + (n - 8))"
      by (rule "1.IH"(1) [OF a b1(1)])
    then obtain b2 where "set_data (n - 8) (pc + 8) b1 = Some b2" "length b2 = length b1"
      and q: "\<And>q. is_set b2 q \<longleftrightarrow> is_set b1 q \<or> pc + 8 \<le> q \<and> q < pc + 8 + (n - 8)" by blast
    then have "set_data n pc bits = Some b2" using a b1(1) by (subst set_data.simps) simp
    moreover have "is_set b2 q \<longleftrightarrow> is_set bits q \<or> pc \<le> q \<and> q < pc + n" for q
      using q [of q] spec [OF b1(3), of q] a by auto
    ultimately show ?thesis using b1(2) \<open>length b2 = length b1\<close> by simp
  next
    case b: 2
    have "pc div 8 \<le> (pc + n) div 8" using b by (intro div_le_mono) simp
    with b "1.prems" have "pc div 8 < length bits" by simp
    from bits_set_correct [OF this] obtain b1 where b1: "bits_set pc bits = Some b1" "length b1 = length bits"
      "\<forall>q. is_set b1 q \<longleftrightarrow> is_set bits q \<or> q = pc" by auto
    have "n - 1 > 0 \<Longrightarrow> (pc + 1 + (n - 1)) div 8 < length b1" using "1.prems" b1 b by simp
    then have "\<exists>b2. set_data (n - 1) (pc + 1) b1 = Some b2 \<and> length b2 = length b1 \<and>
        (\<forall>q. is_set b2 q \<longleftrightarrow> is_set b1 q \<or> pc + 1 \<le> q \<and> q < pc + 1 + (n - 1))"
      using b by (intro "1.IH"(2) [OF _ b(1) b1(1)]) simp_all
    then obtain b2 where "set_data (n - 1) (pc + 1) b1 = Some b2" "length b2 = length b1"
      and q: "\<And>q. is_set b2 q \<longleftrightarrow> is_set b1 q \<or> pc + 1 \<le> q \<and> q < pc + 1 + (n - 1)" by blast
    then have "set_data n pc bits = Some b2" using b b1(1) by (subst set_data.simps) simp
    moreover have "is_set b2 q \<longleftrightarrow> is_set bits q \<or> pc \<le> q \<and> q < pc + n" for q
      using q [of q] spec [OF b1(3), of q] b by auto
    ultimately show ?thesis using b1(2) \<open>length b2 = length b1\<close> by simp
  next
    case 3
    then show ?thesis by (subst set_data.simps) auto
  qed
qed

lemma push_size_le: "push_size op \<le> 32"
proof -
  have "unat (op - PUSH1 + 1) \<le> 32" if "op \<ge> PUSH1" "op \<le> PUSH32"
  proof -
    have "unat (op - PUSH1) \<le> 31" using that by (simp add: PUSH1_def PUSH32_def unat_sub word_le_nat_alt)
    then show ?thesis by (subst unat_add_small) simp_all
  qed
  then show ?thesis by (simp add: push_size_def)
qed

lemma bitmap_loop_correct:
  assumes "op_start code pc" and "length bits = length code div 8 + 5"
    and "\<forall>q. is_set bits q \<longleftrightarrow> q < pc \<and> \<not> op_start code q"
  shows "\<exists>bits'. bitmap_loop code pc bits = Some bits' \<and> length bits' = length bits \<and>
    (\<forall>q < length code. is_set bits' q \<longleftrightarrow> \<not> op_start code q)"
  using assms
proof (induction code pc bits rule: bitmap_loop.induct)
  case (1 code pc bits)
  show ?case
  proof (cases "pc < length code")
    case True
    let ?n = "push_size (code ! pc)"
    have "(pc + 1 + ?n) div 8 \<le> (length code + 32) div 8"
      using True push_size_le [of "code ! pc"] by (intro div_le_mono) simp
    also have "\<dots> = length code div 8 + 4" by simp
    finally have bound: "(pc + 1 + ?n) div 8 < length bits" using "1.prems"(2) by simp
    from set_data_correct [OF bound] obtain b1 where b1: "set_data ?n (pc + 1) bits = Some b1" "length b1 = length bits"
      "\<forall>q. is_set b1 q \<longleftrightarrow> is_set bits q \<or> pc + 1 \<le> q \<and> q < pc + 1 + ?n" by auto
    let ?pc = "pc + 1 + ?n"
    have st: "op_start code ?pc" using "1.prems"(1) True by (rule start_next)
    have "is_set b1 q \<longleftrightarrow> q < ?pc \<and> \<not> op_start code q" for q
      using spec [OF b1(3), of q] spec [OF "1.prems"(3), of q] "1.prems"(1) op_start_disjoint [OF _ "1.prems"(1), of q]
      by (cases q pc rule: linorder_cases) auto
    with "1.IH" [OF True b1(1) st] "1.prems"(2) b1(2) obtain b2 where
      "bitmap_loop code ?pc b1 = Some b2" "length b2 = length b1" "\<forall>q < length code. is_set b2 q \<longleftrightarrow> \<not> op_start code q" by auto
    then show ?thesis using True b1 by (subst bitmap_loop.simps) simp
  next
    case False
    then show ?thesis using "1.prems" by (subst bitmap_loop.simps) simp
  qed
qed

lemma codeBitmap_correct:
  obtains bits where "codeBitmap code = Some bits"
    "\<And>pos. pos < length code \<Longrightarrow> codeSegment pos bits = Some (op_start code pos)"
proof -
  let ?z = "replicate (length code div 8 + 1 + 4) 0 :: bitvec"
  have "\<not> is_set ?z q" for q by (simp add: is_set_def)
  then obtain bits where b: "codeBitmap code = Some bits" "length bits = length ?z"
    "\<forall>q < length code. is_set bits q \<longleftrightarrow> \<not> op_start code q"
    using bitmap_loop_correct [of code 0 ?z] start_first by (auto simp: codeBitmap_def)
  have "pos div 8 < length bits" if "pos < length code" for pos
    using div_le_mono [of pos "length code" 8] that b(2) by simp
  with b have "codeSegment pos bits = Some (op_start code pos)" if "pos < length code" for pos
    using that codeSegment_is_set [of pos bits] by simp
  with b(1) show thesis by (rule that)
qed

end
