(* ===== verification/Evm_Instructions.thy ===== *)
theory Evm_Instructions
  imports Evm_Gas Evm_Analysis
begin

section \<open>Instructions that stay in their frame\<close>

text \<open>
  The functions of \<open>src/core/vm/instructions.go\<close> and \<open>eips.go\<close> except calls and creations. An instruction takes the machine
  and returns the slice and the error that the Go function returns, and the machine; a panic is \<^const>\<open>None\<close>. What is popped and
  then peeked and overwritten is the next element of the list replaced.
\<close>

type_synonym op_result = "(bytes \<times> evm_error option \<times> machine) option"

definition op_done :: "stack \<Rightarrow> machine \<Rightarrow> op_result" where
  "op_done st m = Some ([], None, m\<lparr>m_stack := st\<rparr>)"

definition unop :: "(u256 \<Rightarrow> u256) \<Rightarrow> machine \<Rightarrow> op_result" where
  "unop f m = do { (x, st) \<leftarrow> st_pop (m_stack m); op_done (f x # st) m }"

definition binop :: "(u256 \<Rightarrow> u256 \<Rightarrow> u256) \<Rightarrow> machine \<Rightarrow> op_result" where
  "binop f m = do { (x, st1) \<leftarrow> st_pop (m_stack m); (y, st2) \<leftarrow> st_pop st1; op_done (f x y # st2) m }"

definition ternop :: "(u256 \<Rightarrow> u256 \<Rightarrow> u256 \<Rightarrow> u256) \<Rightarrow> machine \<Rightarrow> op_result" where
  "ternop f m = do {
     (x, st1) \<leftarrow> st_pop (m_stack m); (y, st2) \<leftarrow> st_pop st1; (z, st3) \<leftarrow> st_pop st2; op_done (f x y z # st3) m }"

definition pushop :: "u256 \<Rightarrow> machine \<Rightarrow> op_result" where
  "pushop v m = op_done (v # m_stack m) m"

definition truth :: "bool \<Rightarrow> u256" where "truth b = (if b then 1 else 0)"

subsection \<open>Arithmetic and logic\<close>

definition opAdd :: "evm_env \<Rightarrow> machine \<Rightarrow> op_result" where "opAdd E = binop (U_Add (env_U E))"
definition opSub :: "evm_env \<Rightarrow> machine \<Rightarrow> op_result" where "opSub E = binop (U_Sub (env_U E))"
definition opMul :: "evm_env \<Rightarrow> machine \<Rightarrow> op_result" where "opMul E = binop (U_Mul (env_U E))"
definition opDiv :: "evm_env \<Rightarrow> machine \<Rightarrow> op_result" where "opDiv E = binop (U_Div (env_U E))"
definition opSdiv :: "evm_env \<Rightarrow> machine \<Rightarrow> op_result" where "opSdiv E = binop (U_SDiv (env_U E))"
definition opMod :: "evm_env \<Rightarrow> machine \<Rightarrow> op_result" where "opMod E = binop (U_Mod (env_U E))"
definition opSmod :: "evm_env \<Rightarrow> machine \<Rightarrow> op_result" where "opSmod E = binop (U_SMod (env_U E))"
definition opExp :: "evm_env \<Rightarrow> machine \<Rightarrow> op_result" where "opExp E = binop (U_Exp (env_U E))"

definition opSignExtend :: "evm_env \<Rightarrow> machine \<Rightarrow> op_result" where
  "opSignExtend E = binop (\<lambda>back num. U_ExtendSign (env_U E) num back)"

definition opNot :: "evm_env \<Rightarrow> machine \<Rightarrow> op_result" where "opNot E = unop (U_Not (env_U E))"
definition opLt :: "evm_env \<Rightarrow> machine \<Rightarrow> op_result" where "opLt E = binop (\<lambda>x y. truth (U_Lt (env_U E) x y))"
definition opGt :: "evm_env \<Rightarrow> machine \<Rightarrow> op_result" where "opGt E = binop (\<lambda>x y. truth (U_Gt (env_U E) x y))"
definition opSlt :: "evm_env \<Rightarrow> machine \<Rightarrow> op_result" where "opSlt E = binop (\<lambda>x y. truth (U_Slt (env_U E) x y))"
definition opSgt :: "evm_env \<Rightarrow> machine \<Rightarrow> op_result" where "opSgt E = binop (\<lambda>x y. truth (U_Sgt (env_U E) x y))"
definition opEq :: "evm_env \<Rightarrow> machine \<Rightarrow> op_result" where "opEq E = binop (\<lambda>x y. truth (U_Eq (env_U E) x y))"
definition opIszero :: "evm_env \<Rightarrow> machine \<Rightarrow> op_result" where "opIszero E = unop (\<lambda>x. truth (U_IsZero (env_U E) x))"
definition opAnd :: "evm_env \<Rightarrow> machine \<Rightarrow> op_result" where "opAnd E = binop (U_And (env_U E))"
definition opOr :: "evm_env \<Rightarrow> machine \<Rightarrow> op_result" where "opOr E = binop (U_Or (env_U E))"
definition opXor :: "evm_env \<Rightarrow> machine \<Rightarrow> op_result" where "opXor E = binop (U_Xor (env_U E))"
definition opByte :: "evm_env \<Rightarrow> machine \<Rightarrow> op_result" where "opByte E = binop (\<lambda>th val. U_Byte (env_U E) val th)"

definition opAddmod :: "evm_env \<Rightarrow> machine \<Rightarrow> op_result" where
  "opAddmod E = ternop (\<lambda>x y z. if U_IsZero (env_U E) z then 0 else U_AddMod (env_U E) x y z)"

definition opMulmod :: "evm_env \<Rightarrow> machine \<Rightarrow> op_result" where "opMulmod E = ternop (U_MulMod (env_U E))"

definition opSHL :: "evm_env \<Rightarrow> machine \<Rightarrow> op_result" where
  "opSHL E = binop (\<lambda>shift val.
     if U_LtUint64 (env_U E) shift 256 then U_Lsh (env_U E) val (U_Uint64 (env_U E) shift) else 0)"

definition opSHR :: "evm_env \<Rightarrow> machine \<Rightarrow> op_result" where
  "opSHR E = binop (\<lambda>shift val.
     if U_LtUint64 (env_U E) shift 256 then U_Rsh (env_U E) val (U_Uint64 (env_U E) shift) else 0)"

definition opSAR :: "evm_env \<Rightarrow> machine \<Rightarrow> op_result" where
  "opSAR E = binop (\<lambda>shift val.
     if U_GtUint64 (env_U E) shift 256 then if U_Sign (env_U E) val \<ge> 0 then 0 else - 1
     else U_SRsh (env_U E) val (U_Uint64 (env_U E) shift))"

definition opKeccak256 :: "evm_env \<Rightarrow> machine \<Rightarrow> op_result" where
  "opKeccak256 E m = do {
     (offset, st1) \<leftarrow> st_pop (m_stack m); (sz, st2) \<leftarrow> st_pop st1;
     data \<leftarrow> mem_GetPtr (m_mem m) (U_Uint64 (env_U E) offset) (U_Uint64 (env_U E) sz);
     op_done (U_SetBytes (env_U E) (be_encode 32 (env_keccak E data)) # st2) m }"

subsection \<open>The transaction, the block and other accounts\<close>

definition opAddress :: "evm_env \<Rightarrow> machine \<Rightarrow> op_result" where
  "opAddress E m = pushop (U_SetBytes (env_U E) (address_Bytes (f_Account (m_contract m)))) m"

definition opBalance :: "evm_env \<Rightarrow> machine \<Rightarrow> op_result" where
  "opBalance E m = unop (\<lambda>slot. fst (U_FromBig (env_U E) (acc_GetBalance (get_account E slot (m_evm m))))) m"

definition opOrigin :: "evm_env \<Rightarrow> machine \<Rightarrow> op_result" where
  "opOrigin E m = pushop (U_SetBytes (env_U E) (address_Bytes (env_From E))) m"

definition opCaller :: "evm_env \<Rightarrow> machine \<Rightarrow> op_result" where
  "opCaller E m = pushop (U_SetBytes (env_U E) (address_Bytes (f_CallerAccount (m_contract m)))) m"

definition opCallValue :: "evm_env \<Rightarrow> machine \<Rightarrow> op_result" where
  "opCallValue E m = pushop (fst (U_FromBig (env_U E) (f_Value (m_contract m)))) m"

definition opCallDataLoad :: "evm_env \<Rightarrow> machine \<Rightarrow> op_result" where
  "opCallDataLoad E m = do {
     (x, st) \<leftarrow> st_pop (m_stack m);
     let (offset, overflow) = U_Uint64WithOverflow (env_U E) x;
     if \<not> overflow then do {
       data \<leftarrow> getData (f_Input (m_contract m)) offset 32;
       op_done (U_SetBytes (env_U E) data # st) m }
     else op_done (0 # st) m }"

definition opCallDataSize :: "evm_env \<Rightarrow> machine \<Rightarrow> op_result" where
  "opCallDataSize E m = pushop (U_SetUint64 (env_U E) (of_nat (length (f_Input (m_contract m))))) m"

text \<open>The three instructions that copy a part of some data, padded with zeros, to memory.\<close>

definition copy_data :: "evm_env \<Rightarrow> bytes \<Rightarrow> stack \<Rightarrow> machine \<Rightarrow> op_result" where
  "copy_data E data st m = do {
     (memOffset, st1) \<leftarrow> st_pop st; (dataOffset, st2) \<leftarrow> st_pop st1; (len, st3) \<leftarrow> st_pop st2;
     let (off, overflow) = U_Uint64WithOverflow (env_U E) dataOffset;
     let dataOffset64 = (if overflow then 0xffffffffffffffff else off);
     part \<leftarrow> getData data dataOffset64 (U_Uint64 (env_U E) len);
     mem \<leftarrow> mem_Set (U_Uint64 (env_U E) memOffset) (U_Uint64 (env_U E) len) part (m_mem m);
     op_done st3 (m\<lparr>m_mem := mem\<rparr>) }"

definition opCallDataCopy :: "evm_env \<Rightarrow> machine \<Rightarrow> op_result" where
  "opCallDataCopy E m = copy_data E (f_Input (m_contract m)) (m_stack m) m"

definition opReturnDataSize :: "evm_env \<Rightarrow> machine \<Rightarrow> op_result" where
  "opReturnDataSize E m = pushop (U_SetUint64 (env_U E) (of_nat (length (last_retval (m_evm m))))) m"

text \<open>After the check, \<open>last_retval[offset64:end64]\<close> panics if \<open>offset64 > end64\<close>, which a wrapped sum can be.\<close>

definition opReturnDataCopy :: "evm_env \<Rightarrow> machine \<Rightarrow> op_result" where
  "opReturnDataCopy E m = do {
     (memOffset, st1) \<leftarrow> st_pop (m_stack m); (dataOffset, st2) \<leftarrow> st_pop st1; (len, st3) \<leftarrow> st_pop st2;
     let (offset64, overflow) = U_Uint64WithOverflow (env_U E) dataOffset;
     if overflow then Some ([], Some ErrReturnDataOutOfBounds, m\<lparr>m_stack := st3\<rparr>)
     else do {
       let (end64, overflow1) = U_Uint64WithOverflow (env_U E) (U_Add (env_U E) dataOffset len);
       let retval = last_retval (m_evm m);
       if overflow1 \<or> of_nat (length retval) < end64 then Some ([], Some ErrReturnDataOutOfBounds, m\<lparr>m_stack := st3\<rparr>)
       else do {
         _ \<leftarrow> holds (offset64 \<le> end64);
         mem \<leftarrow> mem_Set (U_Uint64 (env_U E) memOffset) (U_Uint64 (env_U E) len)
                  (drop (unat offset64) (take (unat end64) retval)) (m_mem m);
         op_done st3 (m\<lparr>m_mem := mem\<rparr>) } } }"

definition opExtCodeSize :: "evm_env \<Rightarrow> machine \<Rightarrow> op_result" where
  "opExtCodeSize E m = unop (\<lambda>slot. U_SetUint64 (env_U E) (acc_GetCodeSize (get_account E slot (m_evm m)))) m"

definition opCodeSize :: "evm_env \<Rightarrow> machine \<Rightarrow> op_result" where
  "opCodeSize E m = pushop (U_SetUint64 (env_U E) (of_nat (length (c_code (m_contract m))))) m"

definition opCodeCopy :: "evm_env \<Rightarrow> machine \<Rightarrow> op_result" where
  "opCodeCopy E m = copy_data E (c_code (m_contract m)) (m_stack m) m"

definition opExtCodeCopy :: "evm_env \<Rightarrow> machine \<Rightarrow> op_result" where
  "opExtCodeCopy E m = do {
     (addr, st) \<leftarrow> st_pop (m_stack m);
     copy_data E (acc_GetCode (get_account E addr (m_evm m))) st m }"

definition opExtCodeHash :: "evm_env \<Rightarrow> machine \<Rightarrow> op_result" where
  "opExtCodeHash E m = do {
     (slot, st) \<leftarrow> st_pop (m_stack m);
     let acc = get_account E slot (m_evm m);
     if IsEIP161Empty acc then op_done (0 # st) m
     else do {
       h \<leftarrow> acc_GetCodeHash (env_keccak E) acc;
       op_done (U_SetBytes (env_U E) (be_encode 32 h) # st) m } }"

definition opGasprice :: "evm_env \<Rightarrow> machine \<Rightarrow> op_result" where
  "opGasprice E m = pushop (fst (U_FromBig (env_U E) (env_GasPrice E))) m"

definition opBlockhash :: "evm_env \<Rightarrow> machine \<Rightarrow> op_result" where
  "opBlockhash E = unop (\<lambda>num.
     let (num64, overflow) = U_Uint64WithOverflow (env_U E) num;
         upper = env_Number E;
         lower = (if upper < 257 then 0 else upper - 256) in
     if overflow then 0
     else if num64 \<ge> lower \<and> num64 < upper then fst (U_FromBig (env_U E) (env_get_hash E num64))
     else 0)"

definition opCoinbase :: "evm_env \<Rightarrow> machine \<Rightarrow> op_result" where
  "opCoinbase E m = pushop (U_SetBytes (env_U E) (address_Bytes (env_Author E))) m"

definition opTimestamp :: "evm_env \<Rightarrow> machine \<Rightarrow> op_result" where
  "opTimestamp E m = pushop (U_SetUint64 (env_U E) (env_Time E)) m"

definition opNumber :: "evm_env \<Rightarrow> machine \<Rightarrow> op_result" where
  "opNumber E m = pushop (U_SetUint64 (env_U E) (env_Number E)) m"

definition opDifficulty :: "evm_env \<Rightarrow> machine \<Rightarrow> op_result" where
  "opDifficulty E m = pushop (fst (U_FromBig (env_U E) (env_Difficulty E))) m"

definition opGasLimit :: "evm_env \<Rightarrow> machine \<Rightarrow> op_result" where
  "opGasLimit E m = pushop (U_SetUint64 (env_U E) (env_GasLimit E)) m"

definition opChainID :: "evm_env \<Rightarrow> machine \<Rightarrow> op_result" where
  "opChainID E m = pushop (U_SetUint64 (env_U E) (env_ChainId E)) m"

definition opSelfBalance :: "evm_env \<Rightarrow> machine \<Rightarrow> op_result" where
  "opSelfBalance E m = pushop (fst (U_FromBig (env_U E) (acc_GetBalance (contract_account m)))) m"

subsection \<open>Stack, memory and storage\<close>

definition opPop :: "machine \<Rightarrow> op_result" where
  "opPop m = do { (_, st) \<leftarrow> st_pop (m_stack m); op_done st m }"

definition opMload :: "evm_env \<Rightarrow> machine \<Rightarrow> op_result" where
  "opMload E m = do {
     (v, st) \<leftarrow> st_pop (m_stack m);
     b \<leftarrow> mem_GetPtr (m_mem m) (U_Uint64 (env_U E) v) 32;
     op_done (U_SetBytes (env_U E) b # st) m }"

definition opMstore :: "evm_env \<Rightarrow> machine \<Rightarrow> op_result" where
  "opMstore E m = do {
     (mStart, st1) \<leftarrow> st_pop (m_stack m); (val, st2) \<leftarrow> st_pop st1;
     mem \<leftarrow> mem_Set32 (env_U E) (U_Uint64 (env_U E) mStart) val (m_mem m);
     op_done st2 (m\<lparr>m_mem := mem\<rparr>) }"

definition opMstore8 :: "evm_env \<Rightarrow> machine \<Rightarrow> op_result" where
  "opMstore8 E m = do {
     (off, st1) \<leftarrow> st_pop (m_stack m); (val, st2) \<leftarrow> st_pop st1;
     let i = unat (U_Uint64 (env_U E) off);
     _ \<leftarrow> holds (i < length (mem_store (m_mem m)));
     op_done st2 (m\<lparr>m_mem := (m_mem m)\<lparr>mem_store := (mem_store (m_mem m))[i := ucast (U_Uint64 (env_U E) val)]\<rparr>\<rparr>) }"

definition opSload :: "evm_env \<Rightarrow> machine \<Rightarrow> op_result" where
  "opSload E m = unop (\<lambda>loc. fst (U_FromBig (env_U E)
     (acc_GetState (ts_db (evm_state (m_evm m)) (f_Account (m_contract m))) (contract_account m) (U_ToBig (env_U E) loc)))) m"

definition opSstore :: "evm_env \<Rightarrow> machine \<Rightarrow> op_result" where
  "opSstore E m = do {
     (loc, st1) \<leftarrow> st_pop (m_stack m); (val, st2) \<leftarrow> st_pop st1;
     op_done st2
       (upd_state (acc_SetState (f_Account (m_contract m)) (U_ToBig (env_U E) loc) (U_ToBig (env_U E) val)) m) }"

definition opPc :: "evm_env \<Rightarrow> machine \<Rightarrow> op_result" where
  "opPc E m = pushop (U_SetUint64 (env_U E) (m_pc m)) m"

definition opMsize :: "evm_env \<Rightarrow> machine \<Rightarrow> op_result" where
  "opMsize E m = pushop (U_SetUint64 (env_U E) (mem_Len (m_mem m))) m"

definition opGas :: "evm_env \<Rightarrow> machine \<Rightarrow> op_result" where
  "opGas E m = pushop (U_SetUint64 (env_U E) (f_Gas (m_contract m))) m"

definition opPush0 :: "machine \<Rightarrow> op_result" where "opPush0 = pushop 0"

definition opTload :: "evm_env \<Rightarrow> machine \<Rightarrow> op_result" where
  "opTload E m = unop (\<lambda>loc. U_SetBytes (env_U E) (be_encode 32
     (GetTransientState (f_Account (m_contract m)) (U_Bytes32 (env_U E) loc) (evm_state (m_evm m))))) m"

definition opTstore :: "evm_env \<Rightarrow> machine \<Rightarrow> op_result" where
  "opTstore E m =
     (if evm_read_only (m_evm m) then Some ([], Some ErrWriteProtection, m)
      else do {
        (loc, st1) \<leftarrow> st_pop (m_stack m); (val, st2) \<leftarrow> st_pop st1;
        op_done st2
          (upd_state (SetTransientState (f_Account (m_contract m)) (U_Bytes32 (env_U E) loc) (U_Bytes32 (env_U E) val)) m) })"

definition opMcopy :: "evm_env \<Rightarrow> machine \<Rightarrow> op_result" where
  "opMcopy E m = do {
     (dst, st1) \<leftarrow> st_pop (m_stack m); (src, st2) \<leftarrow> st_pop st1; (len, st3) \<leftarrow> st_pop st2;
     mem \<leftarrow> mem_Copy (U_Uint64 (env_U E) dst) (U_Uint64 (env_U E) src) (U_Uint64 (env_U E) len) (m_mem m);
     op_done st3 (m\<lparr>m_mem := mem\<rparr>) }"

subsection \<open>Jumps\<close>

definition GetOp :: "u64 \<Rightarrow> Contract \<Rightarrow> byte" where
  "GetOp n c = (if n < of_nat (length (c_code c)) then c_code c ! unat n else 0)"

definition ValidJumpdest :: "evm_env \<Rightarrow> Contract \<Rightarrow> u256 \<Rightarrow> bool option" where
  "ValidJumpdest E c dest =
     (let (udest, overflow) = U_Uint64WithOverflow (env_U E) dest in
      if overflow \<or> GetOp udest c \<noteq> JUMPDEST then Some False
      else do { analysis \<leftarrow> codeBitmap (c_code c); codeSegment (unat udest) analysis })"

definition jump_to :: "evm_env \<Rightarrow> u256 \<Rightarrow> machine \<Rightarrow> op_result" where
  "jump_to E pos m = do {
     valid \<leftarrow> ValidJumpdest E (m_contract m) pos;
     if \<not> valid then Some ([], Some (ErrInvalidJump (GetOp (U_Uint64 (env_U E) pos) (m_contract m)) pos), m)
     else Some ([], None, m\<lparr>m_pc := U_Uint64 (env_U E) pos\<rparr>) }"

definition opJump :: "evm_env \<Rightarrow> machine \<Rightarrow> op_result" where
  "opJump E m = do { (pos, st) \<leftarrow> st_pop (m_stack m); jump_to E pos (m\<lparr>m_stack := st\<rparr>) }"

definition opJumpi :: "evm_env \<Rightarrow> machine \<Rightarrow> op_result" where
  "opJumpi E m = do {
     (pos, st1) \<leftarrow> st_pop (m_stack m); (cond, st2) \<leftarrow> st_pop st1;
     if \<not> U_IsZero (env_U E) cond then jump_to E pos (m\<lparr>m_stack := st2\<rparr>)
     else Some ([], None, m\<lparr>m_stack := st2, m_pc := m_pc m + 1\<rparr>) }"

definition opJumpdest :: "machine \<Rightarrow> op_result" where "opJumpdest m = Some ([], None, m)"

subsection \<open>Ends of a frame\<close>

definition opReturn :: "evm_env \<Rightarrow> machine \<Rightarrow> op_result" where
  "opReturn E m = do {
     (offset, st1) \<leftarrow> st_pop (m_stack m); (sz, st2) \<leftarrow> st_pop st1;
     ret \<leftarrow> mem_GetCopy (m_mem m) (U_Uint64 (env_U E) offset) (U_Uint64 (env_U E) sz);
     Some (ret, None, m\<lparr>m_stack := st2\<rparr>) }"

definition opRevert :: "evm_env \<Rightarrow> machine \<Rightarrow> op_result" where
  "opRevert E m = do {
     (offset, st1) \<leftarrow> st_pop (m_stack m); (sz, st2) \<leftarrow> st_pop st1;
     ret \<leftarrow> mem_GetPtr (m_mem m) (U_Uint64 (env_U E) offset) (U_Uint64 (env_U E) sz);
     Some (ret, None, m\<lparr>m_stack := st2\<rparr>) }"

definition opStop :: "machine \<Rightarrow> op_result" where "opStop m = Some ([], None, m)"

definition opSuicide :: "evm_env \<Rightarrow> machine \<Rightarrow> op_result" where
  "opSuicide E m = do {
     (beneficiary, st) \<leftarrow> st_pop (m_stack m);
     op_done st (upd_state (acc_Suicide (f_Account (m_contract m)) (U_Bytes20 (env_U E) beneficiary)) m) }"

subsection \<open>Families of instructions\<close>

fun pop_topics :: "evm_env \<Rightarrow> nat \<Rightarrow> stack \<Rightarrow> (hash list \<times> stack) option" where
  "pop_topics E 0 st = Some ([], st)"
| "pop_topics E (Suc n) st = do {
     (addr, st1) \<leftarrow> st_pop st;
     (topics, st2) \<leftarrow> pop_topics E n st1;
     Some (U_Bytes32 (env_U E) addr # topics, st2) }"

definition makeLog :: "evm_env \<Rightarrow> nat \<Rightarrow> machine \<Rightarrow> op_result" where
  "makeLog E n m = do {
     (mStart, st1) \<leftarrow> st_pop (m_stack m); (mSize, st2) \<leftarrow> st_pop st1;
     (topics, st3) \<leftarrow> pop_topics E n st2;
     data \<leftarrow> mem_GetCopy (m_mem m) (U_Uint64 (env_U E) mStart) (U_Uint64 (env_U E) mSize);
     op_done st3
       (upd_state (ts_AddLog \<lparr>log_Address = f_Account (m_contract m), log_Topics = topics, log_Data = data\<rparr>) m) }"

definition go_slice :: "bytes \<Rightarrow> int \<Rightarrow> int \<Rightarrow> bytes option" where
  "go_slice b lo hi =
     (if 0 \<le> lo \<and> lo \<le> hi \<and> hi \<le> int (length b) then Some (drop (nat lo) (take (nat hi) b)) else None)"

definition makePush :: "evm_env \<Rightarrow> u64 \<Rightarrow> nat \<Rightarrow> machine \<Rightarrow> op_result" where
  "makePush E n pushByteSize m = do {
     let code = c_code (m_contract m);
     let codeLen = int (length code);
     let startMin = (if sint (m_pc m + 1) < codeLen then sint (m_pc m + 1) else codeLen);
     let endMin = (if startMin + int pushByteSize < codeLen then startMin + int pushByteSize else codeLen);
     part \<leftarrow> go_slice code startMin endMin;
     op_done (U_SetBytes (env_U E) (RightPadBytes part pushByteSize) # m_stack m) (m\<lparr>m_pc := m_pc m + n\<rparr>) }"

definition makeDup :: "nat \<Rightarrow> machine \<Rightarrow> op_result" where
  "makeDup n m = do { st \<leftarrow> st_dup n (m_stack m); op_done st m }"

definition makeSwap :: "nat \<Rightarrow> machine \<Rightarrow> op_result" where
  "makeSwap n m = do { st \<leftarrow> st_swap (n + 1) (m_stack m); op_done st m }"

end
