(* ===== verification/Evm_Interpreter.thy ===== *)
theory Evm_Interpreter
  imports Evm_Instructions
begin

section \<open>Calls, creations and the interpreter\<close>

text \<open>
  \<open>src/core/vm/evm.go\<close>, the call and create instructions of \<open>instructions.go\<close>, and the table of instructions of
  \<open>jump_table.go\<close>. A run either panics, returns, or has no fuel left. The functions that start a run take the runner as an
  argument; \<open>run_loop\<close> ties the knot. One unit of fuel is used per instruction and one per frame. Tracing is not modelled.
\<close>

datatype 'a outcome = NoFuel | Panic | Done 'a

definition or_panic :: "'a option \<Rightarrow> 'a outcome" where
  "or_panic r = (case r of None \<Rightarrow> Panic | Some x \<Rightarrow> Done x)"

definition and_then :: "'a outcome \<Rightarrow> ('a \<Rightarrow> 'b outcome) \<Rightarrow> 'b outcome" where
  "and_then r f = (case r of NoFuel \<Rightarrow> NoFuel | Panic \<Rightarrow> Panic | Done x \<Rightarrow> f x)"

lemma and_then_simps [simp]: "and_then NoFuel f = NoFuel" "and_then Panic f = Panic" "and_then (Done x) f = f x"
  by (simp_all add: and_then_def)

text \<open>A runner executes a contract in read-only mode or not: the result, the error, the gas that is left.\<close>

type_synonym runner = "Contract \<Rightarrow> bool \<Rightarrow> EVM \<Rightarrow> (bytes \<times> evm_error option \<times> u64 \<times> EVM) outcome"

datatype call_type = CALL | CALLCODE | DELEGATECALL | STATICCALL

definition ContractAccWrapper :: "address \<Rightarrow> Contract" where
  "ContractAccWrapper a = \<lparr>f_CallerAccount = a, f_Account = a, f_Input = [], f_Gas = 0, f_Value = 0, c_code = []\<rparr>"

definition NewContract :: "EvmFrame \<Rightarrow> bytes \<Rightarrow> Contract" where
  "NewContract frame code = \<lparr>f_CallerAccount = f_CallerAccount frame, f_Account = f_Account frame, f_Input = f_Input frame,
     f_Gas = f_Gas frame, f_Value = f_Value frame, c_code = code\<rparr>"

definition BalanceGTE :: "Account \<Rightarrow> int \<Rightarrow> bool" where
  "BalanceGTE acc val \<longleftrightarrow> val = 0 \<or> acc_GetBalance acc \<ge> val"

definition transfer :: "address \<Rightarrow> address \<Rightarrow> int \<Rightarrow> TransitionState \<Rightarrow> TransitionState" where
  "transfer from_addr to_addr amount s = acc_AddBalance to_addr amount (acc_SubBalance from_addr amount s)"

definition upd_ts :: "(TransitionState \<Rightarrow> TransitionState) \<Rightarrow> EVM \<Rightarrow> EVM" where
  "upd_ts f evm = evm\<lparr>evm_state := f (evm_state evm)\<rparr>"

abbreviation evm_account :: "address \<Rightarrow> EVM \<Rightarrow> Account" where
  "evm_account a evm \<equiv> ts_accounts (evm_state evm) a"

subsection \<open>Addresses of new contracts\<close>

text \<open>\<open>crypto.CreateAddress\<close>: the last 20 bytes of the hash of the encoded pair of address and nonce.\<close>

definition CreateAddress :: "(bytes \<Rightarrow> hash) \<Rightarrow> address \<Rightarrow> int \<Rightarrow> address option" where
  "CreateAddress H b nonce = do {
     _ \<leftarrow> holds (nonce \<ge> 0);
     enc \<leftarrow> EncodeToBytes (RList [RStr (address_Bytes b), RStr (big_Bytes nonce)]);
     Some (ucast (H enc)) }"

definition CreateAddress2 :: "(bytes \<Rightarrow> hash) \<Rightarrow> address \<Rightarrow> hash \<Rightarrow> hash \<Rightarrow> address" where
  "CreateAddress2 H b salt inithash = ucast (H (0xff # address_Bytes b @ be_encode 32 salt @ be_encode 32 inithash))"

subsection \<open>Creations\<close>

text \<open>After the code of the creation ran: what it returned becomes the code of the new account if that can be paid.\<close>

definition store_code :: "address \<Rightarrow> bytes \<times> evm_error option \<times> u64 \<times> EVM \<Rightarrow> evm_error option \<times> u64 \<times> EVM" where
  "store_code addr r =
     (let (ret, err0, gas, evm) = r;
          err = (if err0 = None \<and> length ret > MaxCodeSize then Some ErrMaxCodeSizeExceeded else err0);
          createDataGas = of_nat (length ret) * CreateDataGas in
      if err = None then
        if gas < createDataGas then (Some ErrCodeStoreOutOfGas, gas, evm)
        else (None, gas - createDataGas, upd_ts (acc_SetCode addr ret) evm)
      else (err, gas, evm))"

definition finish_creation :: "nat \<Rightarrow> address \<Rightarrow> bytes \<times> evm_error option \<times> u64 \<times> EVM
    \<Rightarrow> (bytes \<times> u64 \<times> evm_error option \<times> EVM) outcome" where
  "finish_creation snapshot addr r =
     (let (err, gas, evm) = store_code addr r in
      if err \<noteq> None
      then Done (fst r, if err \<noteq> Some ErrExecutionReverted then 0 else gas, err, upd_ts (RevertToSnapshot snapshot) evm)
      else Done (fst r, gas, None, evm))"

definition evm_create :: "evm_env \<Rightarrow> runner \<Rightarrow> address \<Rightarrow> bytes \<Rightarrow> u64 \<Rightarrow> int \<Rightarrow> address \<Rightarrow> EVM
    \<Rightarrow> (bytes \<times> u64 \<times> evm_error option \<times> EVM) outcome" where
  "evm_create E run caller code gas val addr evm =
     (if evm_depth evm > CallCreateDepth then Done ([], gas, Some ErrDepth, evm)
      else if caller \<noteq> 0 \<and> \<not> BalanceGTE (evm_account caller evm) val
      then Done ([], gas, Some ErrInsufficientBalanceForTransfer, evm)
      else
        let evm1 = upd_ts (acc_IncrementNonce caller) evm; new_acc = evm_account addr evm1 in
        if acc_GetNonce new_acc \<noteq> 0 \<or> acc_GetCodeSize new_acc \<noteq> 0
        then Done ([], 0, Some ErrContractAddressCollision, evm1)
        else
          let snapshot = Snapshot (evm_state evm1);
              evm2 = upd_ts (transfer caller addr val) (upd_ts (acc_IncrementNonce addr) evm1);
              contract = NewContract \<lparr>f_CallerAccount = caller, f_Account = addr, f_Input = [], f_Gas = gas, f_Value = val\<rparr> code
          in and_then (run contract False evm2) (finish_creation snapshot addr))"

definition create_1 :: "evm_env \<Rightarrow> runner \<Rightarrow> address \<Rightarrow> bytes \<Rightarrow> u64 \<Rightarrow> int \<Rightarrow> EVM
    \<Rightarrow> (bytes \<times> address \<times> u64 \<times> evm_error option \<times> EVM) outcome" where
  "create_1 E run caller code gas val evm =
     and_then (or_panic (CreateAddress (env_keccak E) caller (acc_GetNonce (evm_account caller evm)))) (\<lambda>contractAddr.
     and_then (evm_create E run caller code gas val contractAddr evm) (\<lambda>(ret, leftOverGas, err, evm1).
       Done (ret, contractAddr, leftOverGas, err, evm1)))"

definition create_2 :: "evm_env \<Rightarrow> runner \<Rightarrow> address \<Rightarrow> bytes \<Rightarrow> u64 \<Rightarrow> int \<Rightarrow> hash \<Rightarrow> EVM
    \<Rightarrow> (bytes \<times> address \<times> u64 \<times> evm_error option \<times> EVM) outcome" where
  "create_2 E run caller code gas endowment salt evm =
     (let contractAddr = CreateAddress2 (env_keccak E) caller salt (env_keccak E code) in
      and_then (evm_create E run caller code gas endowment contractAddr evm) (\<lambda>(ret, leftOverGas, err, evm1).
        Done (ret, contractAddr, leftOverGas, err, evm1)))"

subsection \<open>Calls\<close>

text \<open>The transfer of a call, or the touch of a static call; then the frame that the code runs in.\<close>

definition enter_call :: "call_type \<Rightarrow> address \<Rightarrow> address \<Rightarrow> int \<Rightarrow> EVM \<Rightarrow> EVM" where
  "enter_call typ caller_acc callee val evm =
     (case typ of
        CALL \<Rightarrow> upd_ts (transfer caller_acc callee val) evm
      | STATICCALL \<Rightarrow> upd_ts (acc_AddBalance callee 0) evm
      | _ \<Rightarrow> evm)"

definition call_frame :: "call_type \<Rightarrow> Contract \<Rightarrow> address \<Rightarrow> bytes \<Rightarrow> u64 \<Rightarrow> int \<Rightarrow> EvmFrame" where
  "call_frame typ caller callee input gas val =
     (let caller_acc = f_Account caller in
      case typ of
        CALLCODE \<Rightarrow> \<lparr>f_CallerAccount = caller_acc, f_Account = caller_acc, f_Input = input, f_Gas = gas, f_Value = val\<rparr>
      | DELEGATECALL \<Rightarrow> \<lparr>f_CallerAccount = f_CallerAccount caller, f_Account = caller_acc, f_Input = input, f_Gas = gas,
                         f_Value = f_Value caller\<rparr>
      | _ \<Rightarrow> \<lparr>f_CallerAccount = caller_acc, f_Account = callee, f_Input = input, f_Gas = gas, f_Value = val\<rparr>)"

definition call_body :: "evm_env \<Rightarrow> runner \<Rightarrow> bool \<Rightarrow> EvmFrame \<Rightarrow> address \<Rightarrow> EVM
    \<Rightarrow> (retval \<times> u64 \<times> evm_error option \<times> EVM) outcome" where
  "call_body E run read_only frame callee evm =
     (let gas = f_Gas frame; code = acc_GetCode (evm_account callee evm) in
      case env_precompiles E callee of
        Some p \<Rightarrow>
          let gas_required = pc_RequiredGas p frame evm in
          if gas_required \<le> gas then
            and_then (or_panic (pc_Run p frame evm)) (\<lambda>(ret, err, evm1). Done (ret, gas - gas_required, err, evm1))
          else Done (RetFresh [], gas, Some ErrOutOfGas, evm)
      | None \<Rightarrow>
          if code \<noteq> [] then
            and_then (run (NewContract frame code) read_only evm)
              (\<lambda>(ret, err, gas_left, evm1). Done (RetFresh ret, gas_left, err, evm1))
          else Done (RetFresh [], gas, None, evm))"

definition leave_call :: "evm_env \<Rightarrow> nat \<Rightarrow> address \<Rightarrow> retval \<times> u64 \<times> evm_error option \<times> EVM
    \<Rightarrow> (retval \<times> u64 \<times> evm_error option \<times> EVM) outcome" where
  "leave_call E snapshot callee r =
     (let (ret, gas_left, err, evm) = r in
      if err \<noteq> None then
        Done (ret, if err \<noteq> Some ErrExecutionReverted \<and> env_precompiles E callee = None then 0 else gas_left, err,
              upd_ts (RevertToSnapshot snapshot) evm)
      else Done (ret, gas_left, None, evm))"

text \<open>\<open>value\<close> is nil for \<open>DELEGATECALL\<close>, where nothing reads it.\<close>

definition evm_call :: "evm_env \<Rightarrow> runner \<Rightarrow> call_type \<Rightarrow> Contract \<Rightarrow> address \<Rightarrow> bytes \<Rightarrow> u64 \<Rightarrow> int \<Rightarrow> EVM
    \<Rightarrow> (retval \<times> u64 \<times> evm_error option \<times> EVM) outcome" where
  "evm_call E run typ caller callee input gas val evm =
     (let caller_acc = f_Account caller in
      if evm_depth evm > CallCreateDepth then Done (RetFresh [], gas, Some ErrDepth, evm)
      else if (typ = CALL \<or> typ = CALLCODE) \<and> caller_acc \<noteq> 0 \<and> \<not> BalanceGTE (evm_account caller_acc evm) val
      then Done (RetFresh [], gas, Some ErrInsufficientBalanceForTransfer, evm)
      else if typ = CALL \<and> val = 0 \<and> IsNIL (evm_account callee evm) \<and> env_precompiles E callee = None
      then Done (RetFresh [], gas, None, evm)
      else
        and_then (call_body E run (typ = STATICCALL) (call_frame typ caller callee input gas val) callee
                    (enter_call typ caller_acc callee val evm))
          (leave_call E (Snapshot (evm_state evm)) callee))"

subsection \<open>Call and create instructions\<close>

type_synonym executionFunc = "runner \<Rightarrow> machine \<Rightarrow> (bytes \<times> evm_error option \<times> machine) outcome"

text \<open>
  After a call: success or not is pushed, the result is written to memory, the gas comes back. A result that is the input is
  a part of the memory, and is returned as it is after that writing.
\<close>

definition finish_call :: "evm_env \<Rightarrow> stack \<Rightarrow> u256 \<times> u256 \<Rightarrow> bytes \<Rightarrow> u256 \<times> u256 \<Rightarrow> machine
    \<Rightarrow> retval \<times> u64 \<times> evm_error option \<times> EVM \<Rightarrow> (bytes \<times> evm_error option \<times> machine) outcome" where
  "finish_call E st inPos args retPos m res = or_panic (do {
     let (ret, returnGas, err, evm) = res;
     let U = env_U E;
     let ret_bytes = (case ret of RetFresh b \<Rightarrow> b | RetInput \<Rightarrow> args);
     mem \<leftarrow> (if err = None \<or> err = Some ErrExecutionReverted
            then mem_Set (U_Uint64 U (fst retPos)) (U_Uint64 U (snd retPos)) ret_bytes (m_mem m)
            else Some (m_mem m));
     out \<leftarrow> (case ret of RetFresh b \<Rightarrow> Some b
                      | RetInput \<Rightarrow> mem_GetPtr mem (U_Uint64 U (fst inPos)) (U_Uint64 U (snd inPos)));
     let c = m_contract m;
     Some (out, None, m\<lparr>m_stack := (if err \<noteq> None then 0 else 1) # st, m_mem := mem, m_evm := evm,
                        m_contract := c\<lparr>f_Gas := f_Gas c + returnGas\<rparr>\<rparr>) })"

text \<open>\<open>CALL\<close> and \<open>CALLCODE\<close>, with a value; \<open>DELEGATECALL\<close> and \<open>STATICCALL\<close>, without.\<close>

definition value_call :: "call_type \<Rightarrow> evm_env \<Rightarrow> executionFunc" where
  "value_call typ E run m =
     (let U = env_U E in
      and_then (or_panic (do {
        (_, st1) \<leftarrow> st_pop (m_stack m); (addr, st2) \<leftarrow> st_pop st1; (val, st3) \<leftarrow> st_pop st2;
        (inOffset, st4) \<leftarrow> st_pop st3; (inSize, st5) \<leftarrow> st_pop st4; (retOffset, st6) \<leftarrow> st_pop st5; (retSize, st7) \<leftarrow> st_pop st6;
        args \<leftarrow> mem_GetPtr (m_mem m) (U_Uint64 U inOffset) (U_Uint64 U inSize);
        Some (addr, val, (inOffset, inSize), args, (retOffset, retSize), st7) }))
      (\<lambda>(addr, val, inPos, args, retPos, st).
        let tmp = call_gas_tmp (m_evm m); gas = (if \<not> U_IsZero U val then tmp + CallStipend else tmp) in
        and_then (evm_call E run typ (m_contract m) (U_Bytes20 U addr) args gas (U_ToBig U val) (m_evm m))
          (finish_call E st inPos args retPos m)))"

definition plain_call :: "call_type \<Rightarrow> evm_env \<Rightarrow> executionFunc" where
  "plain_call typ E run m =
     (let U = env_U E in
      and_then (or_panic (do {
        (_, st1) \<leftarrow> st_pop (m_stack m); (addr, st2) \<leftarrow> st_pop st1;
        (inOffset, st3) \<leftarrow> st_pop st2; (inSize, st4) \<leftarrow> st_pop st3; (retOffset, st5) \<leftarrow> st_pop st4; (retSize, st6) \<leftarrow> st_pop st5;
        args \<leftarrow> mem_GetPtr (m_mem m) (U_Uint64 U inOffset) (U_Uint64 U inSize);
        Some (addr, (inOffset, inSize), args, (retOffset, retSize), st6) }))
      (\<lambda>(addr, inPos, args, retPos, st).
        and_then (evm_call E run typ (m_contract m) (U_Bytes20 U addr) args (call_gas_tmp (m_evm m)) 0 (m_evm m))
          (finish_call E st inPos args retPos m)))"

definition opCall :: "evm_env \<Rightarrow> executionFunc" where "opCall = value_call CALL"
definition opCallCode :: "evm_env \<Rightarrow> executionFunc" where "opCallCode = value_call CALLCODE"
definition opDelegateCall :: "evm_env \<Rightarrow> executionFunc" where "opDelegateCall = plain_call DELEGATECALL"
definition opStaticCall :: "evm_env \<Rightarrow> executionFunc" where "opStaticCall = plain_call STATICCALL"

definition finish_create :: "evm_env \<Rightarrow> stack \<Rightarrow> machine \<Rightarrow> bytes \<times> address \<times> u64 \<times> evm_error option \<times> EVM
    \<Rightarrow> (bytes \<times> evm_error option \<times> machine) outcome" where
  "finish_create E st m r =
     (let (res, addr, returnGas, suberr, evm) = r;
          stackvalue = (if suberr \<noteq> None then 0 else U_SetBytes (env_U E) (address_Bytes addr));
          c = m_contract m in
      Done (if suberr = Some ErrExecutionReverted then res else [], None,
            m\<lparr>m_stack := stackvalue # st, m_evm := evm, m_contract := c\<lparr>f_Gas := f_Gas c + returnGas\<rparr>\<rparr>))"

text \<open>All but a 64th of the gas goes to the creation.\<close>

definition spend_for_create :: "machine \<Rightarrow> u64 \<times> machine" where
  "spend_for_create m =
     (let c = m_contract m; gas = f_Gas c - f_Gas c div 64 in
      (gas, m\<lparr>m_contract := (case UseGas gas c of Some c1 \<Rightarrow> c1 | None \<Rightarrow> c)\<rparr>))"

definition opCreate :: "evm_env \<Rightarrow> executionFunc" where
  "opCreate E run m =
     (let U = env_U E in
      and_then (or_panic (do {
        (val, st1) \<leftarrow> st_pop (m_stack m); (offset, st2) \<leftarrow> st_pop st1; (sz, st3) \<leftarrow> st_pop st2;
        input \<leftarrow> mem_GetCopy (m_mem m) (U_Uint64 U offset) (U_Uint64 U sz);
        Some (val, input, st3) }))
      (\<lambda>(val, input, st).
        let (gas, m1) = spend_for_create m in
        and_then (create_1 E run (f_Account (m_contract m)) input gas (U_ToBig U val) (m_evm m)) (finish_create E st m1)))"

definition opCreate2 :: "evm_env \<Rightarrow> executionFunc" where
  "opCreate2 E run m =
     (let U = env_U E in
      and_then (or_panic (do {
        (endowment, st1) \<leftarrow> st_pop (m_stack m); (offset, st2) \<leftarrow> st_pop st1; (sz, st3) \<leftarrow> st_pop st2; (salt, st4) \<leftarrow> st_pop st3;
        input \<leftarrow> mem_GetCopy (m_mem m) (U_Uint64 U offset) (U_Uint64 U sz);
        Some (endowment, input, salt, st4) }))
      (\<lambda>(endowment, input, salt, st).
        let (gas, m1) = spend_for_create m in
        and_then (create_2 E run (f_Account (m_contract m)) input gas (U_ToBig U endowment)
            (word_of_int (U_ToBig U salt)) (m_evm m)) (finish_create E st m1)))"

end
