(* ===== verification/Evm_Run.thy ===== *)
theory Evm_Run
  imports Evm_Interpreter
begin

section \<open>The instruction set, the loop and transactions\<close>

record operation =
  op_execute :: executionFunc
  op_gasCost :: gasFunc
  op_validateStack :: "stack \<Rightarrow> evm_error option"
  op_memorySize :: "memorySizeFunc option"
  op_halts :: bool
  op_jumps :: bool
  op_writes :: bool
  op_reverts :: bool
  op_returns :: bool

text \<open>An entry of the table, without memory and with all flags off.\<close>

definition entry :: "executionFunc \<Rightarrow> gasFunc \<Rightarrow> (stack \<Rightarrow> evm_error option) \<Rightarrow> operation" where
  "entry execute gasCost validateStack = \<lparr>op_execute = execute, op_gasCost = gasCost, op_validateStack = validateStack,
     op_memorySize = None, op_halts = False, op_jumps = False, op_writes = False, op_reverts = False, op_returns = False\<rparr>"

definition local_op :: "(machine \<Rightarrow> op_result) \<Rightarrow> executionFunc" where
  "local_op f run m = or_panic (f m)"

abbreviation simple :: "(machine \<Rightarrow> op_result) \<Rightarrow> gasFunc \<Rightarrow> nat \<Rightarrow> nat \<Rightarrow> operation" where
  "simple f gasCost pop push \<equiv> entry (local_op f) gasCost (makeStackFunc pop push)"

abbreviation with_memory :: "(machine \<Rightarrow> op_result) \<Rightarrow> gasFunc \<Rightarrow> nat \<Rightarrow> nat \<Rightarrow> memorySizeFunc \<Rightarrow> operation" where
  "with_memory f gasCost pop push msize \<equiv> (simple f gasCost pop push)\<lparr>op_memorySize := Some msize\<rparr>"

subsection \<open>The table\<close>

definition table_byzantium :: "evm_env \<Rightarrow> (byte \<times> operation) list" where
  "table_byzantium E =
    [(0x1b, \<comment> \<open>SHL\<close> simple (opSHL E) (constGasFunc GasFastestStep) 2 1),
     (0x1c, \<comment> \<open>SHR\<close> simple (opSHR E) (constGasFunc GasFastestStep) 2 1),
     (0x1d, \<comment> \<open>SAR\<close> simple (opSAR E) (constGasFunc GasFastestStep) 2 1),
     (0x3f, \<comment> \<open>EXTCODEHASH\<close> simple (opExtCodeHash E) (gasExtCodeHash E) 1 1),
     (0xf5, \<comment> \<open>CREATE2\<close> (entry (opCreate2 E) (gasCreate2 E) (makeStackFunc 4 1))
              \<lparr>op_memorySize := Some (memoryCreate2 (env_U E)), op_writes := True, op_returns := True\<rparr>),
     (0xfa, \<comment> \<open>STATICCALL\<close> (entry (opStaticCall E) (gasStaticCall E) (makeStackFunc 6 1))
              \<lparr>op_memorySize := Some (memoryStaticCall (env_U E)), op_returns := True\<rparr>),
     (0x3d, \<comment> \<open>RETURNDATASIZE\<close> simple (opReturnDataSize E) (constGasFunc GasQuickStep) 0 1),
     (0x3e, \<comment> \<open>RETURNDATACOPY\<close> with_memory (opReturnDataCopy E) (gasReturnDataCopy E) 3 0 (memoryReturnDataCopy (env_U E))),
     (0xfd, \<comment> \<open>REVERT\<close> (with_memory (opRevert E) gasRevert 2 0 (memoryRevert (env_U E)))
              \<lparr>op_reverts := True, op_returns := True\<rparr>),
     (0xf4, \<comment> \<open>DELEGATECALL\<close> (entry (opDelegateCall E) (gasDelegateCall E) (makeStackFunc 6 1))
              \<lparr>op_memorySize := Some (memoryDelegateCall (env_U E)), op_returns := True\<rparr>)]"

definition table_arithmetic :: "evm_env \<Rightarrow> (byte \<times> operation) list" where
  "table_arithmetic E =
    [(0x00, \<comment> \<open>STOP\<close> (simple opStop (constGasFunc 0) 0 0)\<lparr>op_halts := True\<rparr>),
     (0x01, \<comment> \<open>ADD\<close> simple (opAdd E) (constGasFunc GasFastestStep) 2 1),
     (0x02, \<comment> \<open>MUL\<close> simple (opMul E) (constGasFunc GasFastStep) 2 1),
     (0x03, \<comment> \<open>SUB\<close> simple (opSub E) (constGasFunc GasFastestStep) 2 1),
     (0x04, \<comment> \<open>DIV\<close> simple (opDiv E) (constGasFunc GasFastStep) 2 1),
     (0x05, \<comment> \<open>SDIV\<close> simple (opSdiv E) (constGasFunc GasFastStep) 2 1),
     (0x06, \<comment> \<open>MOD\<close> simple (opMod E) (constGasFunc GasFastStep) 2 1),
     (0x07, \<comment> \<open>SMOD\<close> simple (opSmod E) (constGasFunc GasFastStep) 2 1),
     (0x08, \<comment> \<open>ADDMOD\<close> simple (opAddmod E) (constGasFunc GasMidStep) 3 1),
     (0x09, \<comment> \<open>MULMOD\<close> simple (opMulmod E) (constGasFunc GasMidStep) 3 1),
     (0x0a, \<comment> \<open>EXP\<close> simple (opExp E) (gasExp E) 2 1),
     (0x0b, \<comment> \<open>SIGNEXTEND\<close> simple (opSignExtend E) (constGasFunc GasFastStep) 2 1),
     (0x10, \<comment> \<open>LT\<close> simple (opLt E) (constGasFunc GasFastestStep) 2 1),
     (0x11, \<comment> \<open>GT\<close> simple (opGt E) (constGasFunc GasFastestStep) 2 1),
     (0x12, \<comment> \<open>SLT\<close> simple (opSlt E) (constGasFunc GasFastestStep) 2 1),
     (0x13, \<comment> \<open>SGT\<close> simple (opSgt E) (constGasFunc GasFastestStep) 2 1),
     (0x14, \<comment> \<open>EQ\<close> simple (opEq E) (constGasFunc GasFastestStep) 2 1),
     (0x15, \<comment> \<open>ISZERO\<close> simple (opIszero E) (constGasFunc GasFastestStep) 1 1),
     (0x16, \<comment> \<open>and\<close> simple (opAnd E) (constGasFunc GasFastestStep) 2 1),
     (0x18, \<comment> \<open>xor\<close> simple (opXor E) (constGasFunc GasFastestStep) 2 1),
     (0x17, \<comment> \<open>or\<close> simple (opOr E) (constGasFunc GasFastestStep) 2 1),
     (0x19, \<comment> \<open>not\<close> simple (opNot E) (constGasFunc GasFastestStep) 1 1),
     (0x1a, \<comment> \<open>BYTE\<close> simple (opByte E) (constGasFunc GasFastestStep) 2 1)]"

definition table_environment :: "evm_env \<Rightarrow> (byte \<times> operation) list" where
  "table_environment E =
    [(0x20, \<comment> \<open>KECCAK256\<close> with_memory (opKeccak256 E) (gasKeccak256 E) 2 1 (memoryKeccak256 (env_U E))),
     (0x30, \<comment> \<open>ADDRESS\<close> simple (opAddress E) (constGasFunc GasQuickStep) 0 1),
     (0x31, \<comment> \<open>BALANCE\<close> simple (opBalance E) (gasBalance E) 1 1),
     (0x32, \<comment> \<open>ORIGIN\<close> simple (opOrigin E) (constGasFunc GasQuickStep) 0 1),
     (0x33, \<comment> \<open>CALLER\<close> simple (opCaller E) (constGasFunc GasQuickStep) 0 1),
     (0x34, \<comment> \<open>CALLVALUE\<close> simple (opCallValue E) (constGasFunc GasQuickStep) 0 1),
     (0x35, \<comment> \<open>CALLDATALOAD\<close> simple (opCallDataLoad E) (constGasFunc GasFastestStep) 1 1),
     (0x36, \<comment> \<open>CALLDATASIZE\<close> simple (opCallDataSize E) (constGasFunc GasQuickStep) 0 1),
     (0x37, \<comment> \<open>CALLDATACOPY\<close> with_memory (opCallDataCopy E) (gasCallDataCopy E) 3 0 (memoryCallDataCopy (env_U E))),
     (0x38, \<comment> \<open>CODESIZE\<close> simple (opCodeSize E) (constGasFunc GasQuickStep) 0 1),
     (0x39, \<comment> \<open>CODECOPY\<close> with_memory (opCodeCopy E) (gasCodeCopy E) 3 0 (memoryCodeCopy (env_U E))),
     (0x3a, \<comment> \<open>GASPRICE\<close> simple (opGasprice E) (constGasFunc GasQuickStep) 0 1),
     (0x3b, \<comment> \<open>EXTCODESIZE\<close> simple (opExtCodeSize E) (gasExtCodeSize E) 1 1),
     (0x3c, \<comment> \<open>EXTCODECOPY\<close> with_memory (opExtCodeCopy E) (gasExtCodeCopy E) 4 0 (memoryExtCodeCopy (env_U E))),
     (0x40, \<comment> \<open>BLOCKHASH\<close> simple (opBlockhash E) (constGasFunc GasExtStep) 1 1),
     (0x41, \<comment> \<open>COINBASE\<close> simple (opCoinbase E) (constGasFunc GasQuickStep) 0 1),
     (0x42, \<comment> \<open>TIMESTAMP\<close> simple (opTimestamp E) (constGasFunc GasQuickStep) 0 1),
     (0x43, \<comment> \<open>NUMBER\<close> simple (opNumber E) (constGasFunc GasQuickStep) 0 1),
     (0x44, \<comment> \<open>DIFFICULTY\<close> simple (opDifficulty E) (constGasFunc GasQuickStep) 0 1),
     (0x45, \<comment> \<open>GASLIMIT\<close> simple (opGasLimit E) (constGasFunc GasQuickStep) 0 1),
     (0x46, \<comment> \<open>CHAINID\<close> simple (opChainID E) (constGasFunc GasQuickStep) 0 1),
     (0x47, \<comment> \<open>SELFBALANCE\<close> simple (opSelfBalance E) (constGasFunc GasFastStep) 0 1)]"

definition table_storage :: "evm_env \<Rightarrow> (byte \<times> operation) list" where
  "table_storage E =
    [(0x50, \<comment> \<open>POP\<close> simple opPop (constGasFunc GasQuickStep) 1 0),
     (0x51, \<comment> \<open>MLOAD\<close> with_memory (opMload E) gasMLoad 1 1 (memoryMLoad (env_U E))),
     (0x52, \<comment> \<open>MSTORE\<close> with_memory (opMstore E) gasMStore 2 0 (memoryMStore (env_U E))),
     (0x53, \<comment> \<open>MSTORE8\<close> with_memory (opMstore8 E) gasMStore8 2 0 (memoryMStore8 (env_U E))),
     (0x54, \<comment> \<open>SLOAD\<close> simple (opSload E) (gasSLoad E) 1 1),
     (0x55, \<comment> \<open>SSTORE\<close> (simple (opSstore E) (gasSStore E) 2 0)\<lparr>op_writes := True\<rparr>),
     (0x56, \<comment> \<open>JUMP\<close> (simple (opJump E) (constGasFunc GasMidStep) 1 0)\<lparr>op_jumps := True\<rparr>),
     (0x57, \<comment> \<open>JUMPI\<close> (simple (opJumpi E) (constGasFunc GasSlowStep) 2 0)\<lparr>op_jumps := True\<rparr>),
     (0x58, \<comment> \<open>PC\<close> simple (opPc E) (constGasFunc GasQuickStep) 0 1),
     (0x59, \<comment> \<open>MSIZE\<close> simple (opMsize E) (constGasFunc GasQuickStep) 0 1),
     (0x5a, \<comment> \<open>GAS\<close> simple (opGas E) (constGasFunc GasQuickStep) 0 1),
     (0x5b, \<comment> \<open>JUMPDEST\<close> simple opJumpdest (constGasFunc JumpdestGas) 0 0),
     (0x5f, \<comment> \<open>PUSH0\<close> simple opPush0 (constGasFunc GasQuickStep) 0 1)]"

definition table_push :: "evm_env \<Rightarrow> (byte \<times> operation) list" where
  "table_push E = map (\<lambda>n. (0x5f + of_nat n, simple (makePush E (of_nat n) n) gasPush 0 1)) [1..<33]"

definition table_dup :: "(byte \<times> operation) list" where
  "table_dup = map (\<lambda>n. (0x7f + of_nat n, entry (local_op (makeDup n)) gasDup (makeDupStackFunc n))) [1..<17]"

definition table_swap :: "(byte \<times> operation) list" where
  "table_swap = map (\<lambda>n. (0x8f + of_nat n, entry (local_op (makeSwap n)) gasSwap (makeSwapStackFunc (n + 1)))) [1..<17]"

definition table_log :: "evm_env \<Rightarrow> (byte \<times> operation) list" where
  "table_log E = map (\<lambda>n. (0xa0 + of_nat n,
     (with_memory (makeLog E n) (makeGasLog E (of_nat n)) (n + 2) 0 (memoryLog (env_U E)))\<lparr>op_writes := True\<rparr>)) [0..<5]"

definition table_system :: "evm_env \<Rightarrow> (byte \<times> operation) list" where
  "table_system E =
    [(0xb3, \<comment> \<open>TLOAD\<close> simple (opTload E) (gasTLoad E) 1 1),
     (0xb4, \<comment> \<open>TSTORE\<close> simple (opTstore E) (gasTLoad E) 2 0),
     (0xf0, \<comment> \<open>CREATE\<close> (entry (opCreate E) gasCreate (makeStackFunc 3 1))
              \<lparr>op_memorySize := Some (memoryCreate (env_U E)), op_writes := True, op_returns := True\<rparr>),
     (0xf1, \<comment> \<open>CALL\<close> (entry (opCall E) (gasCall E) (makeStackFunc 7 1))
              \<lparr>op_memorySize := Some (memoryCall (env_U E)), op_returns := True\<rparr>),
     (0xf2, \<comment> \<open>CALLCODE\<close> (entry (opCallCode E) (gasCallCode E) (makeStackFunc 7 1))
              \<lparr>op_memorySize := Some (memoryCall (env_U E)), op_returns := True\<rparr>),
     (0xf3, \<comment> \<open>RETURN\<close> (with_memory (opReturn E) gasReturn 2 0 (memoryReturn (env_U E)))\<lparr>op_halts := True\<rparr>),
     (0xff, \<comment> \<open>SELFDESTRUCT\<close> (simple (opSuicide E) (gasSuicide E) 1 0)\<lparr>op_halts := True, op_writes := True\<rparr>)]"

definition newCalifornicumInstructionSet :: "evm_env \<Rightarrow> (byte \<times> operation) list" where
  "newCalifornicumInstructionSet E =
     table_byzantium E @ table_arithmetic E @ table_environment E @ table_storage E @ table_push E @ table_dup @ table_swap @
     table_log E @ table_system E"

definition enable5656 :: "evm_env \<Rightarrow> (byte \<times> operation) list \<Rightarrow> (byte \<times> operation) list" where
  "enable5656 E jt = (0x5e, \<comment> \<open>MCOPY\<close> with_memory (opMcopy E) (gasMcopy E) 3 0 (memoryMcopy (env_U E))) # jt"

definition newFicusInstructionSet :: "evm_env \<Rightarrow> (byte \<times> operation) list" where
  "newFicusInstructionSet E = enable5656 E (newCalifornicumInstructionSet E)"

text \<open>What \<open>SetBlock\<close> chooses.\<close>

definition instruction_set :: "evm_env \<Rightarrow> byte \<Rightarrow> operation option" where
  "instruction_set E = map_of (if env_IsFicus E then newFicusInstructionSet E else newCalifornicumInstructionSet E)"

subsection \<open>The loop\<close>

datatype step_result = Continue machine | Halt bytes "evm_error option" machine

text \<open>The size of the memory that the instruction needs, in whole words; the inner \<^const>\<open>None\<close> is \<open>errGasUintOverflow\<close>.\<close>

definition memory_request :: "evm_env \<Rightarrow> operation \<Rightarrow> machine \<Rightarrow> u64 option option" where
  "memory_request E o1 m =
     (case op_memorySize o1 of
        None \<Rightarrow> Some (Some 0)
      | Some msize \<Rightarrow> do {
          need \<leftarrow> msize (m_stack m);
          Some (do { memSize \<leftarrow> no_overflow (U_Uint64WithOverflow (env_U E) need); safe_mul (toWordSize memSize) 32 }) })"

definition resize_memory :: "evm_env \<Rightarrow> u64 \<Rightarrow> machine \<Rightarrow> machine" where
  "resize_memory E memorySize m =
     (if memorySize > 0 then
        let (mem, reserved) = mem_Resize (env_buf_len E) (pool_reserved (m_evm m)) memorySize (m_mem m) in
        m\<lparr>m_mem := mem, m_evm := (m_evm m)\<lparr>pool_reserved := reserved\<rparr>\<rparr>
      else m)"

definition write_protected :: "evm_env \<Rightarrow> byte \<Rightarrow> operation \<Rightarrow> machine \<Rightarrow> bool option" where
  "write_protected E op o1 m =
     (if \<not> evm_read_only (m_evm m) then Some False
      else if op_writes o1 then Some True
      else if op = 0xf1 then do { val \<leftarrow> Back 2 (m_stack m); Some (U_BitLen (env_U E) val > 0) }
      else Some False)"

text \<open>An instruction, paid for, with its memory.\<close>

definition exec_step :: "runner \<Rightarrow> operation \<Rightarrow> machine \<Rightarrow> step_result outcome" where
  "exec_step run o1 m =
     and_then (op_execute o1 run m) (\<lambda>(res, err, m1).
       let m2 = (if op_returns o1 then m1\<lparr>m_evm := (m_evm m1)\<lparr>last_retval := res\<rparr>\<rparr> else m1) in
       Done (if err \<noteq> None then Halt [] err m2
             else if op_reverts o1 then Halt res (Some ErrExecutionReverted) m2
             else if op_halts o1 then Halt res None m2
             else if \<not> op_jumps o1 then Continue (m2\<lparr>m_pc := m_pc m2 + 1\<rparr>)
             else Continue m2))"

definition pay_step :: "evm_env \<Rightarrow> runner \<Rightarrow> operation \<Rightarrow> u64 \<Rightarrow> machine \<Rightarrow> step_result outcome" where
  "pay_step E run o1 memorySize m =
     and_then (or_panic (op_gasCost o1 m memorySize)) (\<lambda>(cost, m1).
       case cost \<bind> (\<lambda>c. UseGas c (m_contract m1)) of
         None \<Rightarrow> Done (Halt [] (Some ErrOutOfGas) m1)
       | Some contract \<Rightarrow> exec_step run o1 (resize_memory E memorySize (m1\<lparr>m_contract := contract\<rparr>)))"

definition step :: "evm_env \<Rightarrow> runner \<Rightarrow> machine \<Rightarrow> step_result outcome" where
  "step E run m =
     (let op = GetOp (m_pc m) (m_contract m) in
      case instruction_set E op of
        None \<Rightarrow> Done (Halt [] (Some (ErrInvalidOpcode op)) m)
      | Some o1 \<Rightarrow>
          (case op_validateStack o1 (m_stack m) of
             Some err \<Rightarrow> Done (Halt [] (Some err) m)
           | None \<Rightarrow>
               and_then (or_panic (write_protected E op o1 m)) (\<lambda>protected.
                 if protected then Done (Halt [] (Some ErrWriteProtection) m)
                 else
                   and_then (or_panic (memory_request E o1 m)) (\<lambda>request.
                     case request of
                       None \<Rightarrow> Done (Halt [] (Some ErrGasUintOverflow) m)
                     | Some memorySize \<Rightarrow> pay_step E run o1 memorySize m))))"

text \<open>\<open>run\<close> around the loop: a new stack and memory, the depth and the read-only mode, and everything back at the end.\<close>

definition run_frame :: "(machine \<Rightarrow> (bytes \<times> evm_error option \<times> machine) outcome) \<Rightarrow> runner" where
  "run_frame loop contract readOnly evm =
     (let m = \<lparr>m_pc = 0,
               m_evm = evm\<lparr>evm_depth := evm_depth evm + 1, evm_read_only := evm_read_only evm \<or> readOnly, last_retval := []\<rparr>,
               m_contract = contract, m_mem = mem_Init (pool_reserved evm), m_stack = []\<rparr> in
      and_then (loop m) (\<lambda>(ret, err, m1).
        let evm1 = m_evm m1 in
        Done (ret, err, f_Gas (m_contract m1),
              evm1\<lparr>evm_depth := evm_depth evm1 - 1,
                   evm_read_only := (if readOnly \<and> \<not> evm_read_only evm then False else evm_read_only evm1),
                   pool_reserved := mem_Release (m_mem m1) (pool_reserved evm1)\<rparr>)))"

fun run_loop :: "evm_env \<Rightarrow> nat \<Rightarrow> machine \<Rightarrow> (bytes \<times> evm_error option \<times> machine) outcome" where
  "run_loop E 0 m = NoFuel"
| "run_loop E (Suc fuel) m =
     and_then (step E (run_frame (run_loop E fuel)) m) (\<lambda>r.
       case r of Continue m1 \<Rightarrow> run_loop E fuel m1 | Halt ret err m1 \<Rightarrow> Done (ret, err, m1))"

definition evm_run :: "evm_env \<Rightarrow> nat \<Rightarrow> runner" where
  "evm_run E fuel = run_frame (run_loop E fuel)"

subsection \<open>Transactions\<close>

record Transaction =
  t_From :: address
  t_GasPrice :: int
  t_To :: "address option"
  t_Nonce :: int
  t_Value :: int
  t_Gas :: u64
  t_Input :: bytes

record ExecutionResult =
  r_CodeRetval :: bytes
  r_NewContractAddr :: address
  r_Logs :: "LogRecord list"
  r_GasUsed :: u64
  r_ExecutionErr :: "evm_error option"
  r_ConsensusErr :: "evm_error option"

definition no_result :: ExecutionResult where
  "no_result = \<lparr>r_CodeRetval = [], r_NewContractAddr = 0, r_Logs = [], r_GasUsed = 0, r_ExecutionErr = None, r_ConsensusErr = None\<rparr>"

definition consensusErr :: "ExecutionResult \<Rightarrow> u64 \<Rightarrow> evm_error \<Rightarrow> ExecutionResult" where
  "consensusErr result trxGas err = result\<lparr>r_GasUsed := trxGas, r_ConsensusErr := Some err\<rparr>"

definition MinU64 :: "u64 \<Rightarrow> u64 \<Rightarrow> u64" where "MinU64 x y = (if x < y then x else y)"

text \<open>A nonce that a failed transaction still sets, from the Cornus hardfork on.\<close>

definition bump_nonce :: "evm_env \<Rightarrow> Transaction \<Rightarrow> EVM \<Rightarrow> EVM option" where
  "bump_nonce E trx evm =
     (if env_IsCornus E then map_option (\<lambda>s. evm\<lparr>evm_state := s\<rparr>) (acc_SetNonce (t_From trx) (t_Nonce trx + 1) (evm_state evm))
      else Some evm)"

definition finish_trx :: "Transaction \<Rightarrow> ExecutionResult \<Rightarrow> evm_error option \<Rightarrow> u64 \<Rightarrow> EVM \<Rightarrow> ExecutionResult \<times> EVM" where
  "finish_trx trx ret err gas_left0 evm =
     (if err = Some ErrInsufficientBalanceForTransfer then (consensusErr ret (t_Gas trx) ErrInsufficientBalanceForTransfer, evm)
      else
        let gas_left = gas_left0 + MinU64 (ts_refund (evm_state evm)) ((t_Gas trx - gas_left0) div 2) in
        (ret\<lparr>r_ExecutionErr := err, r_GasUsed := t_Gas trx - gas_left, r_Logs := ts_logs (evm_state evm)\<rparr>,
         upd_ts (acc_AddBalance (t_From trx) (uint gas_left * t_GasPrice trx)) evm))"

definition start_trx :: "evm_env \<Rightarrow> runner \<Rightarrow> Transaction \<Rightarrow> u64 \<Rightarrow> EVM \<Rightarrow> (ExecutionResult \<times> EVM) outcome" where
  "start_trx E run trx gas_left evm =
     (case t_To trx of
        None \<Rightarrow>
          and_then (or_panic (acc_SetNonce (t_From trx) (t_Nonce trx) (evm_state evm))) (\<lambda>s.
          and_then (create_1 E run (t_From trx) (t_Input trx) gas_left (t_Value trx) (evm\<lparr>evm_state := s\<rparr>))
            (\<lambda>(ret, addr, gas_left1, err, evm1).
               Done (finish_trx trx (no_result\<lparr>r_CodeRetval := ret, r_NewContractAddr := addr\<rparr>) err gas_left1 evm1)))
      | Some to_addr \<Rightarrow>
          and_then (or_panic (acc_SetNonce (t_From trx) (t_Nonce trx + 1) (evm_state evm))) (\<lambda>s.
          and_then (evm_call E run CALL (ContractAccWrapper (t_From trx)) to_addr (t_Input trx) gas_left (t_Value trx)
              (evm\<lparr>evm_state := s\<rparr>))
            (\<lambda>(ret, gas_left1, err, evm1).
               Done (finish_trx trx (no_result\<lparr>r_CodeRetval := (case ret of RetFresh b \<Rightarrow> b | RetInput \<Rightarrow> t_Input trx)\<rparr>)
                       err gas_left1 evm1))))"

definition evm_Main :: "evm_env \<Rightarrow> nat \<Rightarrow> Transaction \<Rightarrow> EVM \<Rightarrow> (ExecutionResult \<times> EVM) outcome" where
  "evm_Main E0 fuel trx evm =
     (let E = E0\<lparr>env_From := t_From trx, env_GasPrice := t_GasPrice trx\<rparr>;
          caller = evm_account (t_From trx) evm; sender_nonce = acc_GetNonce caller;
          gas_cap = t_Gas trx; gas_fee = uint gas_cap * t_GasPrice trx in
      if t_From trx \<noteq> 0 \<and> \<not> BalanceGTE caller gas_fee then
        or_panic (do {
          available_funds_gas \<leftarrow> big_div (acc_GetBalance caller) (t_GasPrice trx);
          let evm1 = upd_ts (acc_SubBalance (t_From trx) (available_funds_gas * t_GasPrice trx)) evm;
          evm2 \<leftarrow> (if t_Nonce trx \<ge> sender_nonce then bump_nonce E trx evm1 else Some evm1);
          Some (consensusErr no_result (word_of_int available_funds_gas) ErrInsufficientBalanceForGas, evm2) })
      else
        let evm1 = upd_ts (acc_SubBalance (t_From trx) gas_fee) evm in
        if t_Nonce trx < sender_nonce then Done (consensusErr no_result gas_cap ErrNonceTooLow, evm1)
        else
          (case IntrinsicGas (t_Input trx) (t_To trx = None) of
             Inl err \<Rightarrow> or_panic (do { evm2 \<leftarrow> bump_nonce E trx evm1; Some (consensusErr no_result gas_cap err, evm2) })
           | Inr gas_intrinsic \<Rightarrow>
               if gas_cap < gas_intrinsic
               then or_panic (do { evm2 \<leftarrow> bump_nonce E trx evm1; Some (consensusErr no_result gas_cap ErrIntrinsicGas, evm2) })
               else start_trx E (evm_run E fuel) trx (gas_cap - gas_intrinsic) evm1))"

end
