(* ===== verification/Evm_Journal.thy ===== *)
theory Evm_Journal
  imports Evm_State
begin

section \<open>Reverting to a snapshot\<close>

text \<open>
  The journal records, for every change, a function that undoes it. Reverting to a snapshot runs them
  backwards. What comes out is the state at the snapshot, except for bookkeeping that nothing reads: a storage slot
  once written stays in the map of dirty slots with its old value.
\<close>

subsection \<open>Undo logs\<close>

text \<open>
  A state with a log whose entries undo changes up to an equivalence that undoing respects. Steps
  that log what undoes them compose.
\<close>

locale undo_log =
  fixes undo1 :: "'r \<Rightarrow> 's \<Rightarrow> 's"
    and log :: "'s \<Rightarrow> 'r list"
    and eqv :: "'s \<Rightarrow> 's \<Rightarrow> bool"
  assumes eqv_refl: "eqv s s"
    and eqv_trans: "eqv s t \<Longrightarrow> eqv t u \<Longrightarrow> eqv s u"
    and undo_cong: "eqv s t \<Longrightarrow> eqv (undo1 r s) (undo1 r t)"
begin

fun undos :: "'r list \<Rightarrow> 's \<Rightarrow> 's" where
  "undos [] s = s"
| "undos (r # rs) s = undos rs (undo1 r s)"

definition reversible :: "'s \<Rightarrow> 's \<Rightarrow> bool" where
  "reversible s s' \<longleftrightarrow> (\<exists>rs. log s' = rs @ log s \<and> eqv (undos rs s') s)"

lemma undos_cong: "eqv s t \<Longrightarrow> eqv (undos rs s) (undos rs t)"
  by (induction rs arbitrary: s t) (auto dest: undo_cong)

lemma undos_append: "undos (rs @ rs') s = undos rs' (undos rs s)"
  by (induction rs arbitrary: s) auto

lemma reversible_refl: "reversible s s"
  unfolding reversible_def using eqv_refl by (intro exI [of _ "[]"]) simp

lemma reversible_step:
  assumes "log s' = r # log s" and "eqv (undo1 r s') s"
  shows "reversible s s'"
  unfolding reversible_def using assms by (intro exI [of _ "[r]"]) simp

lemma reversible_silent:
  assumes "log s' = log s" and "eqv s' s"
  shows "reversible s s'"
  unfolding reversible_def using assms by (intro exI [of _ "[]"]) simp

lemma reversible_trans:
  assumes "reversible s t" and "reversible t u"
  shows "reversible s u"
proof -
  obtain rs where rs: "log t = rs @ log s" "eqv (undos rs t) s" using assms(1) by (auto simp: reversible_def)
  obtain rs' where rs': "log u = rs' @ log t" "eqv (undos rs' u) t" using assms(2) by (auto simp: reversible_def)
  have "eqv (undos (rs' @ rs) u) s"
    using eqv_trans [OF undos_cong [OF rs'(2)] rs(2)] by (simp add: undos_append)
  then show ?thesis unfolding reversible_def using rs(1) rs'(1) by (intro exI [of _ "rs' @ rs"]) simp
qed

lemma rollback:
  assumes "reversible s s'"
  shows "eqv (undos (take (length (log s') - length (log s)) (log s')) s') s"
    and "drop (length (log s') - length (log s)) (log s') = log s"
  using assms by (auto simp: reversible_def)

end

subsection \<open>The same state, as far as anybody can see\<close>

definition same_body :: "(int \<Rightarrow> int) \<Rightarrow> AccountBody \<Rightarrow> AccountBody \<Rightarrow> bool" where
  "same_body db b c \<longleftrightarrow>
     ab_Nonce b = ab_Nonce c \<and> ab_Balance b = ab_Balance c \<and> ab_Code b = ab_Code c \<and>
     ab_StorageRoot b = ab_StorageRoot c \<and> ab_CodeDirty b = ab_CodeDirty c \<and> ab_suicided b = ab_suicided c \<and>
     ab_storage_origin b = ab_storage_origin c \<and> body_state db b = body_state db c"

definition same_account :: "(int \<Rightarrow> int) \<Rightarrow> Account \<Rightarrow> Account \<Rightarrow> bool" where
  "same_account db x y \<longleftrightarrow> acc_deleted x = acc_deleted y \<and> rel_option (same_body db) (acc_body x) (acc_body y)"

definition same_state :: "TransitionState \<Rightarrow> TransitionState \<Rightarrow> bool" where
  "same_state s t \<longleftrightarrow>
     ts_db s = ts_db t \<and> ts_logs s = ts_logs t \<and> ts_refund s = ts_refund t \<and>
     (\<forall>a. same_account (ts_db s a) (ts_accounts s a) (ts_accounts t a))"

lemma same_body_refl [simp]: "same_body db b b"
  by (simp add: same_body_def)

lemma same_account_refl [simp]: "same_account db x x"
  by (simp add: same_account_def option.rel_refl)

lemma same_state_refl [simp]: "same_state s s"
  by (simp add: same_state_def)

lemma same_body_trans: "same_body db b c \<Longrightarrow> same_body db c d \<Longrightarrow> same_body db b d"
  by (simp add: same_body_def)

lemma same_account_trans: "same_account db x y \<Longrightarrow> same_account db y z \<Longrightarrow> same_account db x z"
  by (cases "acc_body x"; cases "acc_body y"; cases "acc_body z") (auto simp: same_account_def intro: same_body_trans)

lemma same_state_trans: "same_state s t \<Longrightarrow> same_state t u \<Longrightarrow> same_state s u"
  unfolding same_state_def using same_account_trans by metis

text \<open>Nothing can be read that tells equivalent accounts apart.\<close>

lemma same_account_reads:
  assumes "same_account db x y"
  shows "IsNIL x = IsNIL y" "acc_GetBalance x = acc_GetBalance y" "acc_GetNonce x = acc_GetNonce y"
    "acc_GetCode x = acc_GetCode y" "IsEIP161Empty x = IsEIP161Empty y" "acc_GetState db x = acc_GetState db y"
    "acc_GetCommittedState db x = acc_GetCommittedState db y" "acc_GetCodeHash H x = acc_GetCodeHash H y"
    "HasSuicided x = HasSuicided y"
  using assms
  by (cases "acc_body x"; cases "acc_body y";
      auto split: option.split simp: same_account_def same_body_def IsNIL_def acc_GetBalance_def acc_GetNonce_def acc_GetCode_def
        IsEIP161Empty_def acc_GetState_def acc_GetCommittedState_def acc_GetCodeHash_def HasSuicided_def
        body_committed_def fun_eq_iff)+

lemma upd_account_same:
  assumes "same_state s t" and "same_account (ts_db s a) (f (ts_accounts s a)) (g (ts_accounts t a))"
  shows "same_state (upd_account a f s) (upd_account a g t)"
  using assms by (auto simp: same_state_def upd_account_def)

lemma upd_body_same:
  assumes "same_state s t" and "\<And>b c. same_body (ts_db s a) b c \<Longrightarrow> same_body (ts_db s a) (f b) (f c)"
  shows "same_state (upd_body a f s) (upd_body a f t)"
proof -
  have "same_account (ts_db s a) (ts_accounts s a) (ts_accounts t a)" using assms(1) by (auto simp: same_state_def)
  then show ?thesis
    unfolding upd_body_def using assms(2)
    by (intro upd_account_same [OF assms(1)])
      (cases "acc_body (ts_accounts s a)"; cases "acc_body (ts_accounts t a)"; simp add: same_account_def)
qed

lemma body_state_upd [simp]:
  "body_state db (b\<lparr>ab_StorageDirty := (ab_StorageDirty b)(k \<mapsto> v)\<rparr>) = (body_state db b)(k := v)"
  by (auto simp: body_state_def body_committed_def fun_eq_iff split: option.split)

lemma body_state_other [simp]:
  "body_state db (b\<lparr>ab_Nonce := i\<rparr>) = body_state db b" "body_state db (b\<lparr>ab_Balance := j\<rparr>) = body_state db b"
  "body_state db (b\<lparr>ab_Code := code\<rparr>) = body_state db b" "body_state db (b\<lparr>ab_CodeDirty := c\<rparr>) = body_state db b"
  "body_state db (b\<lparr>ab_suicided := d\<rparr>) = body_state db b"
  "body_state db (b\<lparr>ab_times_touched := m\<rparr>) = body_state db b"
  "body_state db (b\<lparr>ab_mod_count := n\<rparr>) = body_state db b"
  "body_state db (b\<lparr>ab_RawStorageDirty := r\<rparr>) = body_state db b"
  "body_state db (uncount b) = body_state db b"
  by (auto simp: body_state_def body_committed_def fun_eq_iff uncount_def split: option.split)

lemma uncount_sels [simp]:
  "ab_Nonce (uncount b) = ab_Nonce b" "ab_Balance (uncount b) = ab_Balance b" "ab_Code (uncount b) = ab_Code b"
  "ab_StorageRoot (uncount b) = ab_StorageRoot b" "ab_CodeDirty (uncount b) = ab_CodeDirty b"
  "ab_suicided (uncount b) = ab_suicided b" "ab_storage_origin (uncount b) = ab_storage_origin b"
  "ab_StorageDirty (uncount b) = ab_StorageDirty b"
  by (simp_all add: uncount_def)

lemma body_state_undo [simp]:
  "body_state db ((uncount b)\<lparr>ab_StorageDirty := (ab_StorageDirty b)(k \<mapsto> v)\<rparr>) = (body_state db b)(k := v)"
  using body_state_upd [of db "uncount b" k v] by simp

lemma undo_same: "same_state s t \<Longrightarrow> same_state (undo r s) (undo r t)"
proof (cases r)
  case (R_exists a d)
  then show "same_state s t \<Longrightarrow> ?thesis" by (auto intro!: upd_account_same simp: same_account_def)
next
  case (R_logs n)
  then show "same_state s t \<Longrightarrow> ?thesis" by (auto simp: same_state_def)
next
  case (R_refund n)
  then show "same_state s t \<Longrightarrow> ?thesis" by (auto simp: same_state_def)
qed (auto intro!: upd_body_same simp: same_body_def)

interpretation journal: undo_log undo ts_reverts same_state
  by unfold_locales (auto intro: same_state_trans undo_same)


lemma journal_undos: "journal.undos rs s = undo_all rs s"
  by (induction rs arbitrary: s) simp_all

abbreviation reversible_change :: "TransitionState \<Rightarrow> TransitionState \<Rightarrow> bool" where
  "reversible_change \<equiv> journal.reversible"

subsection \<open>Every change is journaled\<close>

lemma ts_upd_sels [simp]:
  "ts_reverts (upd_account a f s) = ts_reverts s" "ts_reverts (upd_body a g s) = ts_reverts s"
  "ts_reverts (RegisterChange r s) = r # ts_reverts s" "ts_reverts (register_change a r s) = r # ts_reverts s"
  "ts_db (upd_account a f s) = ts_db s" "ts_db (upd_body a g s) = ts_db s" "ts_db (RegisterChange r s) = ts_db s"
  "ts_db (register_change a r s) = ts_db s"
  by (simp_all add: upd_account_def upd_body_def RegisterChange_def register_change_def)

lemma body_step:
  assumes r: "\<And>s. undo r s = upd_body a g s"
    and g: "\<And>b. acc_body (ts_accounts s a) = Some b \<Longrightarrow>
      same_body (ts_db s a) (g (f (b\<lparr>ab_mod_count := ab_mod_count b + 1\<rparr>))) b"
  shows "reversible_change s (upd_body a f (register_change a r s))"
proof (rule journal.reversible_step)
  show "ts_reverts (upd_body a f (register_change a r s)) = r # ts_reverts s" by simp
  show "same_state (undo r (upd_body a f (register_change a r s))) s"
    unfolding r using g
    by (cases "acc_body (ts_accounts s a)")
      (auto simp: same_state_def upd_body_def upd_account_def register_change_def RegisterChange_def same_account_def
        option.rel_refl)
qed

lemma body_step':
  assumes r: "\<And>s. undo r s = upd_body a g s"
    and g: "\<And>b. acc_body (ts_accounts s a) = Some b \<Longrightarrow>
      same_body (ts_db s a) (g ((f b)\<lparr>ab_mod_count := ab_mod_count (f b) + 1\<rparr>)) b"
  shows "reversible_change s (register_change a r (upd_body a f s))"
proof (rule journal.reversible_step)
  show "ts_reverts (register_change a r (upd_body a f s)) = r # ts_reverts s" by simp
  show "same_state (undo r (register_change a r (upd_body a f s))) s"
    unfolding r using g
    by (cases "acc_body (ts_accounts s a)")
      (auto simp: same_state_def upd_body_def upd_account_def register_change_def RegisterChange_def same_account_def
        option.rel_refl)
qed

lemma ensure_exists_reversible: "reversible_change s (ensure_exists a s)"
proof (cases "IsNIL (ts_accounts s a)")
  case True
  then have "acc_body (ts_accounts s a) = None" by (simp add: IsNIL_def)
  with True show ?thesis
    by (intro journal.reversible_step [where r = "R_exists a (acc_deleted (ts_accounts s a))"])
      (auto simp: ensure_exists_def register_change_def RegisterChange_def upd_body_def upd_account_def same_state_def
        same_account_def intro!: option.rel_refl)
qed (simp add: ensure_exists_def journal.reversible_refl)

lemma set_balance_reversible: "reversible_change s (set_balance a x s)"
  unfolding set_balance_def
  by (rule body_step') (auto simp: same_body_def uncount_def acc_GetBalance_def)

lemma AddBalance_reversible: "reversible_change s (acc_AddBalance a x s)"
proof -
  note e = ensure_exists_reversible [of s a]
  let ?s = "ensure_exists a s"
  have t: "reversible_change ?s (register_change a (R_touched a)
      (upd_body a (\<lambda>b. b\<lparr>ab_times_touched := ab_times_touched b + 1\<rparr>) ?s))" (is "reversible_change _ ?t")
    by (rule body_step') (auto simp: same_body_def uncount_def)
  have u: "reversible_change ?t (upd_body a (\<lambda>b. b\<lparr>ab_mod_count := ab_mod_count b + 1\<rparr>) ?t)"
    by (rule journal.reversible_silent)
      (auto simp: same_state_def upd_body_def upd_account_def same_account_def same_body_def option.rel_map option.rel_refl)
  show ?thesis
    unfolding acc_AddBalance_def Let_def
    unfolding if_split [of "reversible_change s"]
    by (intro conjI impI e journal.reversible_trans [OF e set_balance_reversible] journal.reversible_trans [OF e t]
        journal.reversible_trans [OF journal.reversible_trans [OF e t] u])
qed

lemma SubBalance_reversible: "reversible_change s (acc_SubBalance a x s)"
  unfolding acc_SubBalance_def Let_def
  using ensure_exists_reversible journal.reversible_trans [OF ensure_exists_reversible set_balance_reversible] by simp

lemma put_nonce_reversible: "reversible_change s (put_nonce a x s)"
  unfolding put_nonce_def
  by (rule body_step') (auto simp: same_body_def uncount_def acc_GetNonce_def)

lemma nonce_reversible:
  "reversible_change s (acc_IncrementNonce a s)" "acc_SetNonce a x s = Some s' \<Longrightarrow> reversible_change s s'"
  unfolding acc_IncrementNonce_def acc_SetNonce_def Let_def
  using journal.reversible_trans [OF ensure_exists_reversible put_nonce_reversible] by (auto split: if_splits)

text \<open>\<open>SetCode\<close> is undone by removing the code, which is right since it is called for accounts without code only.\<close>

lemma SetCode_reversible:
  assumes "acc_GetCode (ts_accounts s a) = []" "\<And>b. acc_body (ts_accounts s a) = Some b \<Longrightarrow> \<not> ab_CodeDirty b"
  shows "reversible_change s (acc_SetCode a code s)"
proof -
  let ?s = "ensure_exists a s"
  have "ab_Code b = [] \<and> \<not> ab_CodeDirty b" if "acc_body (ts_accounts ?s a) = Some b" for b
  proof (cases "acc_body (ts_accounts s a)")
    case None
    with that show ?thesis
      by (auto simp: ensure_exists_def IsNIL_def register_change_def RegisterChange_def upd_body_def upd_account_def
          fresh_body_def)
  qed (use that assms in \<open>simp_all add: ensure_exists_def IsNIL_def acc_GetCode_def\<close>)
  then have "reversible_change ?s (upd_body a (\<lambda>b. b\<lparr>ab_CodeDirty := True, ab_Code := code\<rparr>) (register_change a (R_code a) ?s))"
    by (intro body_step) (auto simp: same_body_def uncount_def)
  then show ?thesis
    unfolding acc_SetCode_def Let_def
    using ensure_exists_reversible journal.reversible_trans [OF ensure_exists_reversible] by simp
qed

lemma state_undone:
  assumes "acc_body acc = Some b"
  shows "same_body db ((uncount (b\<lparr>ab_mod_count := n, ab_StorageDirty := d(k \<mapsto> v)\<rparr>))
      \<lparr>ab_StorageDirty := (ab_StorageDirty b)(k \<mapsto> acc_GetState db acc k)\<rparr>) b"
proof -
  have "(uncount (b\<lparr>ab_mod_count := n, ab_StorageDirty := d(k \<mapsto> v)\<rparr>))
      \<lparr>ab_StorageDirty := (ab_StorageDirty b)(k \<mapsto> acc_GetState db acc k)\<rparr> =
    (b\<lparr>ab_mod_count := n - 1\<rparr>)\<lparr>ab_StorageDirty := (ab_StorageDirty (b\<lparr>ab_mod_count := n - 1\<rparr>))(k \<mapsto> acc_GetState db acc k)\<rparr>"
    by (simp add: uncount_def)
  then show ?thesis using assms by (simp only: same_body_def body_state_upd) (simp add: acc_GetState_def fun_upd_idem)
qed

lemma SetState_reversible: "reversible_change s (acc_SetState a k v s)"
proof -
  let ?s = "ensure_exists a s"
  let ?prev = "acc_GetState (ts_db ?s a) (ts_accounts ?s a) k"
  have "reversible_change ?s (upd_body a (\<lambda>b. b\<lparr>ab_StorageDirty := (ab_StorageDirty b)(k \<mapsto> v)\<rparr>)
      (register_change a (R_state a k ?prev) ?s))"
    by (rule body_step) (use state_undone in \<open>auto\<close>)
  then show ?thesis
    unfolding acc_SetState_def Let_def
    using ensure_exists_reversible journal.reversible_trans [OF ensure_exists_reversible] by simp
qed

lemma Suicide_reversible: "reversible_change s (acc_Suicide a c s)"
proof (cases "IsNIL (ts_accounts s a)")
  case True
  then show ?thesis by (simp add: acc_Suicide_def AddBalance_reversible)
next
  case False
  let ?s = "acc_AddBalance c (acc_GetBalance (ts_accounts s a)) s"
  have "reversible_change ?s (upd_body a (\<lambda>b. b\<lparr>ab_suicided := True, ab_Balance := 0\<rparr>)
     (register_change a (R_suicide a (case acc_body (ts_accounts ?s a) of None \<Rightarrow> False | Some b \<Rightarrow> ab_suicided b)
        (acc_GetBalance (ts_accounts ?s a))) ?s))"
    by (rule body_step) (auto simp: same_body_def uncount_def acc_GetBalance_def)
  then show ?thesis
    using False journal.reversible_trans [OF AddBalance_reversible] by (simp add: acc_Suicide_def Let_def)
qed

lemma state_reversible:
  "reversible_change s (ts_AddLog l s)" "reversible_change s (AddRefund g s)"
  "SubRefund g s = Some s' \<Longrightarrow> reversible_change s s'"
  by (auto intro!: journal.reversible_step
      simp: ts_AddLog_def AddRefund_def SubRefund_def RegisterChange_def same_state_def split: if_splits)

lemma SetTransientState_reversible: "reversible_change s (SetTransientState a k v s)"
  by (rule journal.reversible_silent) (simp_all add: SetTransientState_def same_state_def)

lemma RevertToSnapshot_restores:
  assumes "reversible_change s s'"
  shows "same_state (RevertToSnapshot (Snapshot s) s') s" "ts_reverts (RevertToSnapshot (Snapshot s) s') = ts_reverts s"
  using journal.rollback [OF assms]
  by (auto simp: RevertToSnapshot_def Snapshot_def Let_def journal_undos same_state_def)

subsection \<open>Runs of the state\<close>

text \<open>
  What a transaction does to the state: the operations of the interface \<open>vm.State\<close>, and calls that take a snapshot and go
  back to it. \<open>create\<close> sets code for an account that has none.
\<close>

inductive state_step :: "TransitionState \<Rightarrow> TransitionState \<Rightarrow> bool" where
  step_AddBalance: "state_step s (acc_AddBalance a x s)"
| step_SubBalance: "state_step s (acc_SubBalance a x s)"
| step_IncrementNonce: "state_step s (acc_IncrementNonce a s)"
| step_SetNonce: "acc_SetNonce a x s = Some s' \<Longrightarrow> state_step s s'"
| step_SetCode: "acc_GetCode (ts_accounts s a) = [] \<Longrightarrow>
    \<not> (\<exists>b. acc_body (ts_accounts s a) = Some b \<and> ab_CodeDirty b) \<Longrightarrow> state_step s (acc_SetCode a code s)"
| step_SetState: "state_step s (acc_SetState a k v s)"
| step_Suicide: "state_step s (acc_Suicide a c s)"
| step_AddLog: "state_step s (ts_AddLog l s)"
| step_AddRefund: "state_step s (AddRefund g s)"
| step_SubRefund: "SubRefund g s = Some s' \<Longrightarrow> state_step s s'"
| step_SetTransientState: "state_step s (SetTransientState a h w s)"

inductive state_run :: "TransitionState \<Rightarrow> TransitionState \<Rightarrow> bool" where
  run_done: "state_run s s"
| run_step: "state_run s t \<Longrightarrow> state_step t u \<Longrightarrow> state_run s u"
| run_reverted: "state_run s t \<Longrightarrow> state_run t u \<Longrightarrow> state_run s (RevertToSnapshot (Snapshot t) u)"

lemma state_step_reversible: "state_step s s' \<Longrightarrow> reversible_change s s'"
  by (induction rule: state_step.induct)
    (blast intro: AddBalance_reversible SubBalance_reversible nonce_reversible SetCode_reversible SetState_reversible
      Suicide_reversible state_reversible SetTransientState_reversible)+

lemma state_run_reversible: "state_run s s' \<Longrightarrow> reversible_change s s'"
proof (induction rule: state_run.induct)
  case (run_reverted s t u)
  have "reversible_change t (RevertToSnapshot (Snapshot t) u)"
    using RevertToSnapshot_restores [OF run_reverted.IH(2)] by (intro journal.reversible_silent)
  then show ?case using run_reverted.IH(1) journal.reversible_trans by blast
qed (auto intro: journal.reversible_refl journal.reversible_trans state_step_reversible)

lemma same_state_sym: "same_state s t \<Longrightarrow> same_state t s"
proof -
  have "same_body db b c \<Longrightarrow> same_body db c b" for db b c by (auto simp: same_body_def)
  then have "same_account db x y \<Longrightarrow> same_account db y x" for db x y
    by (cases "acc_body x"; cases "acc_body y") (auto simp: same_account_def)
  then show "same_state s t \<Longrightarrow> same_state t s" by (auto simp: same_state_def)
qed

subsection \<open>Committing\<close>

text \<open>
  A storage without root that was never committed reads as zero without asking the database; after the first commit the
  database is asked. \<open>storage_base\<close> says that this makes no difference, which holds for accounts that the block did not
  delete before it made them again.
\<close>

definition storage_base :: "(int \<Rightarrow> int) \<Rightarrow> AccountBody \<Rightarrow> bool" where
  "storage_base db b \<longleftrightarrow> ab_StorageRoot b \<or> ab_storage_origin b \<noteq> None \<or> (\<forall>k. db k = 0)"

lemma commit_account_cases:
  assumes "acc_body acc = Some b" and "\<not> acc_deleted acc" and c: "acc' = commit_account acc"
  shows commit_deletes: "ab_mod_count b \<noteq> 0 \<Longrightarrow> ab_suicided b \<or> IsEIP161Empty acc \<Longrightarrow> IsNIL acc' \<and> acc_deleted acc'"
    and commit_keeps: "ab_mod_count b = 0 \<or> \<not> (ab_suicided b \<or> IsEIP161Empty acc) \<Longrightarrow>
      acc_GetBalance acc' = acc_GetBalance acc \<and> acc_GetNonce acc' = acc_GetNonce acc \<and>
      acc_GetCode acc' = acc_GetCode acc \<and> \<not> acc_deleted acc'"
    and commit_keeps_state: "ab_mod_count b = 0 \<or> \<not> (ab_suicided b \<or> IsEIP161Empty acc) \<Longrightarrow> storage_base db b \<Longrightarrow>
      acc_GetState db acc' = acc_GetState db acc"
    and commit_commits_state: "ab_mod_count b \<noteq> 0 \<Longrightarrow> ab_mod_count b \<noteq> ab_times_touched b \<Longrightarrow>
      \<not> (ab_suicided b \<or> IsEIP161Empty acc) \<Longrightarrow> storage_base db b \<Longrightarrow>
      acc_GetCommittedState db acc' = acc_GetState db acc"
  using assms(1,2) unfolding c
  by (auto simp: commit_account_def flush_def Let_def IsNIL_def IsEIP161Empty_def acc_GetBalance_def acc_GetNonce_def
      acc_GetCode_def acc_GetState_def acc_GetCommittedState_def body_state_def body_committed_def fun_eq_iff map_add_def
      storage_base_def split: option.splits if_splits)

end
