(* ===== verification/Evm_Facts.thy ===== *)
theory Evm_Facts
  imports Evm_Run Evm_Journal
begin

section \<open>What single instructions do\<close>

text \<open>
  Facts that hold for every entry of the instruction table, proved instruction by instruction and then for the table: the
  effect on the stack, what an instruction leaves alone, the least gas that it costs.
\<close>

named_theorems op_facts \<open>facts about single instructions\<close>

lemma or_panic_Done [simp]: "or_panic r = Done x \<longleftrightarrow> r = Some x" "or_panic r \<noteq> NoFuel" "(or_panic r = Panic) \<longleftrightarrow> r = None"
  by (cases r; simp add: or_panic_def)+

lemma and_then_Done: "and_then r f = Done y \<longleftrightarrow> (\<exists>x. r = Done x \<and> f x = Done y)"
  by (cases r) simp_all

lemma and_then_NoFuel: "and_then r f = NoFuel \<longleftrightarrow> r = NoFuel \<or> (\<exists>x. r = Done x \<and> f x = NoFuel)"
  by (cases r) simp_all

lemma st_pop_Some [simp]: "st_pop st = Some (x, st') \<longleftrightarrow> st = x # st'"
  by (cases st) (auto simp: st_pop_def)

subsection \<open>The ways of a call and a creation\<close>

lemma evm_call_cases:
  obtains (early) e where "evm_call E run ct caller callee input gas val evm = Done (RetFresh [], gas, e, evm)"
  | (body) "evm_call E run ct caller callee input gas val evm =
      and_then (call_body E run (ct = STATICCALL) (call_frame ct caller callee input gas val) callee
        (enter_call ct (f_Account caller) callee val evm)) (leave_call E (Snapshot (evm_state evm)) callee)"
    "ct = CALL \<Longrightarrow> f_Account caller = 0 \<or> BalanceGTE (evm_account (f_Account caller) evm) val"
proof (cases "evm_depth evm > CallCreateDepth")
  case True
  then show thesis by (intro early [of "Some ErrDepth"]) (simp only: evm_call_def Let_def if_True)
next
  case d: False
  show thesis
  proof (cases "(ct = CALL \<or> ct = CALLCODE) \<and> f_Account caller \<noteq> 0 \<and> \<not> BalanceGTE (evm_account (f_Account caller) evm) val")
    case True
    show thesis
      by (intro early [of "Some ErrInsufficientBalanceForTransfer"]) (simp only: evm_call_def Let_def if_not_P [OF d] if_P [OF True])
  next
    case b: False
    show thesis
    proof (cases "ct = CALL \<and> val = 0 \<and> IsNIL (evm_account callee evm) \<and> env_precompiles E callee = None")
      case True
      show thesis by (intro early [of None]) (simp only: evm_call_def Let_def if_not_P [OF d] if_not_P [OF b] if_P [OF True])
    next
      case False
      show thesis
      proof (rule body)
        show "evm_call E run ct caller callee input gas val evm =
            and_then (call_body E run (ct = STATICCALL) (call_frame ct caller callee input gas val) callee
              (enter_call ct (f_Account caller) callee val evm)) (leave_call E (Snapshot (evm_state evm)) callee)"
          by (simp only: evm_call_def Let_def if_not_P [OF d] if_not_P [OF b] if_not_P [OF False])
      qed (use b in blast)
    qed
  qed
qed

lemma evm_create_cases:
  obtains (early) e where "evm_create E run caller code gas val addr evm = Done ([], gas, Some e, evm)"
  | (collision) "evm_create E run caller code gas val addr evm =
      Done ([], 0, Some ErrContractAddressCollision, upd_ts (acc_IncrementNonce caller) evm)"
  | (body) evm1 where "evm1 = upd_ts (acc_IncrementNonce caller) evm"
    "evm_create E run caller code gas val addr evm =
      and_then (run (NewContract \<lparr>f_CallerAccount = caller, f_Account = addr, f_Input = [], f_Gas = gas, f_Value = val\<rparr> code) False
          (upd_ts (transfer caller addr val) (upd_ts (acc_IncrementNonce addr) evm1)))
        (finish_creation (Snapshot (evm_state evm1)) addr)"
    "acc_GetNonce (evm_account addr evm1) = 0" "acc_GetCodeSize (evm_account addr evm1) = 0"
    "caller = 0 \<or> BalanceGTE (evm_account caller evm) val"
proof (cases "evm_depth evm > CallCreateDepth")
  case True
  then show thesis by (intro early [of ErrDepth]) (simp only: evm_create_def if_True)
next
  case d: False
  show thesis
  proof (cases "caller \<noteq> 0 \<and> \<not> BalanceGTE (evm_account caller evm) val")
    case True
    show thesis
      by (intro early [of ErrInsufficientBalanceForTransfer]) (simp only: evm_create_def if_not_P [OF d] if_P [OF True])
  next
    case b: False
    let ?evm1 = "upd_ts (acc_IncrementNonce caller) evm"
    show thesis
    proof (cases "acc_GetNonce (evm_account addr ?evm1) \<noteq> 0 \<or> acc_GetCodeSize (evm_account addr ?evm1) \<noteq> 0")
      case True
      show thesis by (intro collision) (simp only: evm_create_def Let_def if_not_P [OF d] if_not_P [OF b] if_P [OF True])
    next
      case False
      show thesis
      proof (rule body [OF refl])
        show "evm_create E run caller code gas val addr evm =
            and_then (run (NewContract \<lparr>f_CallerAccount = caller, f_Account = addr, f_Input = [], f_Gas = gas, f_Value = val\<rparr> code) False
                (upd_ts (transfer caller addr val) (upd_ts (acc_IncrementNonce addr) ?evm1)))
              (finish_creation (Snapshot (evm_state ?evm1)) addr)"
          by (simp only: evm_create_def Let_def if_not_P [OF d] if_not_P [OF b] if_not_P [OF False])
      qed (use b False in blast)+
    qed
  qed
qed

subsection \<open>Instructions that stay in their frame\<close>

text \<open>
  \<open>writes\<close> tells whether the instruction may change the state. On an error the stack does not matter any more.
\<close>

definition local_fact :: "bool \<Rightarrow> nat \<Rightarrow> nat \<Rightarrow> (machine \<Rightarrow> op_result) \<Rightarrow> bool" where
  "local_fact writes pop push f \<longleftrightarrow>
     (\<forall>m res err m'. f m = Some (res, err, m') \<longrightarrow>
        m_contract m' = m_contract m \<and>
        (err = None \<longrightarrow> length (m_stack m') + pop = length (m_stack m) + push) \<and>
        m_evm m' = (m_evm m)\<lparr>evm_state := evm_state (m_evm m')\<rparr> \<and>
        (\<not> writes \<longrightarrow> evm_state (m_evm m') = evm_state (m_evm m)))"

lemma local_factI:
  assumes "\<And>m res err m'. f m = Some (res, err, m') \<Longrightarrow>
    m_contract m' = m_contract m \<and> (err = None \<longrightarrow> length (m_stack m') + pop = length (m_stack m) + push) \<and>
    m_evm m' = (m_evm m)\<lparr>evm_state := evm_state (m_evm m')\<rparr> \<and> (\<not> writes \<longrightarrow> evm_state (m_evm m') = evm_state (m_evm m))"
  shows "local_fact writes pop push f"
  using assms by (simp add: local_fact_def)

lemma local_generic [op_facts]:
  "local_fact w 1 1 (unop g)" "local_fact w 2 1 (binop h)" "local_fact w 3 1 (ternop k)" "local_fact w 0 1 (pushop v)"
  by (auto intro!: local_factI simp: unop_def binop_def ternop_def pushop_def op_done_def bind_Some_iff)

lemma local_pointwise: "(\<And>m. f m = g m m) \<Longrightarrow> (\<And>m0. local_fact w pop push (\<lambda>m. g m0 m)) \<Longrightarrow> local_fact w pop push f"
  unfolding local_fact_def by metis

lemmas unop_like = local_pointwise [where pop = 1 and push = 1, OF _ local_generic(1)]
lemmas pushop_like = local_pointwise [where pop = 0 and push = 1, OF _ local_generic(4)]

lemma local_arithmetic [op_facts]:
  "local_fact w 2 1 (opAdd E)" "local_fact w 2 1 (opSub E)" "local_fact w 2 1 (opMul E)" "local_fact w 2 1 (opDiv E)"
  "local_fact w 2 1 (opSdiv E)" "local_fact w 2 1 (opMod E)" "local_fact w 2 1 (opSmod E)" "local_fact w 2 1 (opExp E)"
  "local_fact w 2 1 (opSignExtend E)" "local_fact w 1 1 (opNot E)" "local_fact w 2 1 (opLt E)" "local_fact w 2 1 (opGt E)"
  "local_fact w 2 1 (opSlt E)" "local_fact w 2 1 (opSgt E)" "local_fact w 2 1 (opEq E)" "local_fact w 1 1 (opIszero E)"
  "local_fact w 2 1 (opAnd E)" "local_fact w 2 1 (opOr E)" "local_fact w 2 1 (opXor E)" "local_fact w 2 1 (opByte E)"
  "local_fact w 3 1 (opAddmod E)" "local_fact w 3 1 (opMulmod E)" "local_fact w 2 1 (opSHL E)" "local_fact w 2 1 (opSHR E)"
  "local_fact w 2 1 (opSAR E)" "local_fact w 1 1 (opBlockhash E)" "local_fact w 0 1 opPush0"
  unfolding opAdd_def opSub_def opMul_def opDiv_def opSdiv_def opMod_def opSmod_def opExp_def opSignExtend_def opNot_def
    opLt_def opGt_def opSlt_def opSgt_def opEq_def opIszero_def opAnd_def opOr_def opXor_def opByte_def opAddmod_def opMulmod_def
    opSHL_def opSHR_def opSAR_def opBlockhash_def opPush0_def
  by (rule op_facts)+

lemma local_environment [op_facts]:
  "local_fact w 0 1 (opAddress E)" "local_fact w 1 1 (opBalance E)" "local_fact w 0 1 (opOrigin E)" "local_fact w 0 1 (opCaller E)"
  "local_fact w 0 1 (opCallValue E)" "local_fact w 0 1 (opCallDataSize E)" "local_fact w 0 1 (opReturnDataSize E)"
  "local_fact w 1 1 (opExtCodeSize E)" "local_fact w 0 1 (opCodeSize E)" "local_fact w 0 1 (opGasprice E)"
  "local_fact w 0 1 (opCoinbase E)" "local_fact w 0 1 (opTimestamp E)" "local_fact w 0 1 (opNumber E)"
  "local_fact w 0 1 (opDifficulty E)" "local_fact w 0 1 (opGasLimit E)" "local_fact w 0 1 (opChainID E)"
  "local_fact w 0 1 (opSelfBalance E)" "local_fact w 0 1 (opPc E)" "local_fact w 0 1 (opMsize E)" "local_fact w 0 1 (opGas E)"
  "local_fact w 1 1 (opSload E)" "local_fact w 1 1 (opTload E)"
  by (rule unop_like pushop_like,
      simp only: opAddress_def opBalance_def opOrigin_def opCaller_def opCallValue_def opCallDataSize_def opReturnDataSize_def
        opExtCodeSize_def opCodeSize_def opGasprice_def opCoinbase_def opTimestamp_def opNumber_def opDifficulty_def opGasLimit_def
        opChainID_def opSelfBalance_def opPc_def opMsize_def opGas_def opSload_def opTload_def)+

lemma copy_data_fact:
  "copy_data E data st m = Some (res, err, m') \<Longrightarrow>
    m_contract m' = m_contract m \<and> length (m_stack m') + 3 = length st \<and> m_evm m' = m_evm m"
  by (auto simp: copy_data_def op_done_def bind_Some_iff split_beta Let_def)

lemma local_memory [op_facts]:
  "local_fact w 2 1 (opKeccak256 E)" "local_fact w 1 1 (opCallDataLoad E)" "local_fact w 3 0 (opCallDataCopy E)"
  "local_fact w 3 0 (opReturnDataCopy E)" "local_fact w 3 0 (opCodeCopy E)" "local_fact w 4 0 (opExtCodeCopy E)"
  "local_fact w 1 1 (opExtCodeHash E)" "local_fact w 1 0 opPop" "local_fact w 1 1 (opMload E)" "local_fact w 2 0 (opMstore E)"
  "local_fact w 2 0 (opMstore8 E)" "local_fact w 3 0 (opMcopy E)" "local_fact w 0 0 opJumpdest" "local_fact w 0 0 opStop"
  "local_fact w 2 0 (opReturn E)" "local_fact w 2 0 (opRevert E)" "local_fact w 0 1 (makePush E k n)"
  "local_fact w n (n + 1) (makeDup n)" "local_fact w (n + 1) (n + 1) (makeSwap n)"
  unfolding opKeccak256_def opCallDataLoad_def opCallDataCopy_def opReturnDataCopy_def opCodeCopy_def opExtCodeCopy_def
    opExtCodeHash_def opPop_def opMload_def opMstore_def opMstore8_def opMcopy_def opJumpdest_def opStop_def opReturn_def
    opRevert_def makePush_def makeDup_def makeSwap_def
  by (rule local_factI; auto simp: op_done_def bind_Some_iff st_dup_def st_swap_def Let_def split_beta dest!: copy_data_fact
      split: if_splits)+

lemma jump_to_fact:
  "jump_to E pos m = Some (res, err, m') \<Longrightarrow>
    m_contract m' = m_contract m \<and> m_stack m' = m_stack m \<and> m_evm m' = m_evm m"
  by (auto simp: jump_to_def bind_Some_iff split: if_splits)

lemma local_jump [op_facts]: "local_fact w 1 0 (opJump E)" "local_fact w 2 0 (opJumpi E)"
  unfolding opJump_def opJumpi_def
  by (rule local_factI; auto simp: bind_Some_iff dest!: jump_to_fact split: if_splits)+

lemma pop_topics_length: "pop_topics E n st = Some (ts, st') \<Longrightarrow> length st = length st' + n"
  by (induction n arbitrary: st ts) (auto simp: bind_Some_iff split: prod.splits)

lemma local_write [op_facts]:
  "local_fact True 2 0 (opSstore E)" "local_fact True 2 0 (opTstore E)" "local_fact True (n + 2) 0 (makeLog E n)"
  "local_fact True 1 0 (opSuicide E)"
  unfolding opSstore_def opTstore_def makeLog_def opSuicide_def
  by (rule local_factI; auto simp: op_done_def upd_state_def bind_Some_iff dest!: pop_topics_length split: prod.splits if_splits)+

subsection \<open>Gas\<close>

lemma safe_add_Some: "safe_add x y = Some z \<Longrightarrow> unat z = unat x + unat y"
proof -
  assume a: "safe_add x y = Some z"
  then have z: "z = x + y" and le: "y \<le> MaxUint64 - x"
    by (auto simp: safe_add_def no_overflow_def SafeAdd_def not_less split: if_splits)
  have "unat (MaxUint64 - x) = 2 ^ 64 - 1 - unat x"
    unfolding MaxUint64_def by (subst unat_sub) (simp_all add: word_order.extremum unsigned_minus_1_eq_mask mask_eq_exp_minus_1)
  then have "unat x + unat y < 2 ^ 64" using le unat_bound [of x] by (simp add: word_le_nat_alt)
  then show ?thesis unfolding z by (intro unat_add_small) simp
qed

definition gas_fact :: "bool \<Rightarrow> gasFunc \<Rightarrow> bool" where
  "gas_fact free g \<longleftrightarrow>
     (\<forall>m ms c m1. g m ms = Some (c, m1) \<longrightarrow>
        m_contract m1 = m_contract m \<and> m_stack m1 = m_stack m \<and> m_pc m1 = m_pc m \<and>
        m_evm m1 = (m_evm m)\<lparr>evm_state := evm_state (m_evm m1), call_gas_tmp := call_gas_tmp (m_evm m1)\<rparr> \<and>
        (\<forall>cost. c = Some cost \<and> \<not> free \<longrightarrow> 1 \<le> unat cost))"

lemma gas_factI:
  assumes "\<And>m ms c m1. g m ms = Some (c, m1) \<Longrightarrow>
    m_contract m1 = m_contract m \<and> m_stack m1 = m_stack m \<and> m_pc m1 = m_pc m \<and>
    m_evm m1 = (m_evm m)\<lparr>evm_state := evm_state (m_evm m1), call_gas_tmp := call_gas_tmp (m_evm m1)\<rparr> \<and>
    (\<forall>cost. c = Some cost \<and> \<not> free \<longrightarrow> 1 \<le> unat cost)"
  shows "gas_fact free g"
  using assms by (simp add: gas_fact_def)

lemma gas_fact_priced:
  assumes "gas_fact True g" and "\<And>m ms cost m1. g m ms = Some (Some cost, m1) \<Longrightarrow> 1 \<le> unat cost"
  shows "gas_fact w g"
  using assms unfolding gas_fact_def by blast

lemma gas_const [op_facts]: "0 < gas \<or> free \<Longrightarrow> gas_fact free (constGasFunc gas)"
  by (rule gas_factI) (auto simp: constGasFunc_def word_less_nat_alt)

lemma mem_gas_fact:
  assumes "mem_gas rest m ms = Some (c, m1)" and "\<And>g cost. rest g = Some cost \<Longrightarrow> free \<or> 1 \<le> unat cost"
  shows "m_contract m1 = m_contract m \<and> m_stack m1 = m_stack m \<and> m_pc m1 = m_pc m \<and>
    m_evm m1 = m_evm m \<and> (\<forall>cost. c = Some cost \<and> \<not> free \<longrightarrow> 1 \<le> unat cost)"
  using assms by (auto simp: mem_gas_def split_beta bind_Some_iff)

lemma word_gas_ge: "word_gas U price sz gas = Some cost \<Longrightarrow> unat gas \<le> unat cost"
  by (auto simp: word_gas_def bind_Some_iff dest!: safe_add_Some)

lemma positive_prices:
  "0 < unat GasQuickStep" "0 < unat GasFastestStep" "0 < unat GasFastStep" "0 < unat GasMidStep" "0 < unat GasSlowStep"
  "0 < unat GasExtStep" "0 < unat JumpdestGas" "0 < unat LogGas" "0 < unat Keccak256WordGas" "0 < unat CreateGas" "0 < unat Create2Gas"
  "0 < unat ExpGas"
  by (simp_all add: GasQuickStep_def GasFastestStep_def GasFastStep_def GasMidStep_def GasSlowStep_def GasExtStep_def JumpdestGas_def
      LogGas_def Keccak256WordGas_def CreateGas_def Create2Gas_def ExpGas_def)

definition gas_table_ok :: "evm_env \<Rightarrow> bool" where
  "gas_table_ok E \<longleftrightarrow> env_gas_table E = GasTableCalifornicum"

text \<open>A gas function that charges for memory and then something more.\<close>

definition priced :: "bool \<Rightarrow> (u64 \<Rightarrow> u64 option) \<Rightarrow> bool" where
  "priced free rest \<longleftrightarrow> (\<forall>a cost. rest a = Some cost \<longrightarrow> free \<or> 1 \<le> unat cost)"

lemma priced_simps [op_facts]:
  "priced True rest" "0 < unat k \<Longrightarrow> priced free (\<lambda>gas. safe_add gas k)"
  "0 < unat k \<Longrightarrow> priced free (\<lambda>gas. do { gas1 \<leftarrow> safe_add gas k; word_gas U p sz gas1 })"
  "0 < unat k \<Longrightarrow> priced free (\<lambda>gas. do { gas1 \<leftarrow> safe_add gas k; gas2 \<leftarrow> safe_add gas1 l; n \<leftarrow> q; safe_add gas2 n })"
  by (auto simp: priced_def bind_Some_iff dest!: safe_add_Some word_gas_ge)

lemma gas_mem [op_facts]: "priced free rest \<Longrightarrow> gas_fact free (mem_gas rest)"
  by (rule gas_factI) (auto simp: priced_def dest!: mem_gas_fact [where free = free])

lemma gas_Back: "(\<And>x. gas_fact free (g x)) \<Longrightarrow> gas_fact free (\<lambda>m ms. do { x \<leftarrow> Back i (m_stack m); g x m ms })"
  unfolding gas_fact_def by (simp add: bind_Some_iff) blast

lemma gas_of_memory [op_facts]:
  "gas_fact w (gasCallDataCopy E)" "gas_fact w (gasCodeCopy E)" "gas_fact w (gasMcopy E)" "gas_fact w (gasReturnDataCopy E)"
  "gas_fact w (gasKeccak256 E)" "gas_fact w gasMLoad" "gas_fact w gasMStore8"
  "gas_fact w gasMStore" "gas_fact w gasCreate" "gas_fact w (gasCreate2 E)" "gas_fact True gasReturn" "gas_fact True gasRevert"
  unfolding gasCallDataCopy_def gasCodeCopy_def gasMcopy_def gasReturnDataCopy_def memoryCopierGas_def gasKeccak256_def
    gasMLoad_def gasMStore8_def gasMStore_def gasCreate_def gasCreate2_def gasReturn_def gasRevert_def
  by (intro gas_Back op_facts positive_prices)+

lemma gas_log [op_facts]: "gas_fact w (makeGasLog E n)"
proof -
  have "gas_fact w (\<lambda>m ms. case no_overflow (U_Uint64WithOverflow (env_U E) sz) of
       None \<Rightarrow> Some (None, m)
     | Some requestedSize \<Rightarrow>
         mem_gas (\<lambda>gas. do {
           gas1 \<leftarrow> safe_add gas LogGas;
           gas2 \<leftarrow> safe_add gas1 (n * LogTopicGas);
           memorySizeGas \<leftarrow> safe_mul requestedSize LogDataGas;
           safe_add gas2 memorySizeGas }) m ms)" for sz
    by (cases "no_overflow (U_Uint64WithOverflow (env_U E) sz)")
      (simp_all add: gas_fact_def [where g = "\<lambda>m ms. Some (None, m)"] gas_mem priced_simps positive_prices)
  then show ?thesis unfolding makeGasLog_def by (rule gas_Back)
qed

lemma gas_of_table [op_facts]:
  assumes "gas_table_ok E"
  shows "gas_fact w (gasExtCodeCopy E)" "gas_fact w (gasExtCodeHash E)" "gas_fact w (gasBalance E)" "gas_fact w (gasExtCodeSize E)"
    "gas_fact w (gasSLoad E)" "gas_fact w (gasTLoad E)" "gas_fact w (gasExp E)"
proof -
  have t: "env_gas_table E = GasTableCalifornicum" using assms by (simp add: gas_table_ok_def)
  note d = t GasTableCalifornicum_def
  show "gas_fact w (gasExtCodeHash E)" "gas_fact w (gasBalance E)" "gas_fact w (gasExtCodeSize E)" "gas_fact w (gasSLoad E)"
    "gas_fact w (gasTLoad E)"
    by (rule gas_factI; auto simp: gasExtCodeHash_def gasBalance_def gasExtCodeSize_def gasSLoad_def gasTLoad_def d)+
  show "gas_fact w (gasExtCodeCopy E)" unfolding gasExtCodeCopy_def by (intro gas_Back op_facts) (simp add: d)
  show "gas_fact w (gasExp E)"
    by (rule gas_factI) (auto simp: gasExp_def bind_Some_iff Let_def dest!: safe_add_Some simp: positive_prices Suc_le_eq add_gr_0)
qed

lemma gas_steps [op_facts]: "gas_fact w gasPush" "gas_fact w gasDup" "gas_fact w gasSwap"
  by (simp_all add: gasPush_def gasDup_def gasSwap_def gas_const GasFastestStep_def)

lemma gas_refund:
  "m_contract (upd_state f m) = m_contract m" "m_stack (upd_state f m) = m_stack m" "m_pc (upd_state f m) = m_pc m"
  "m_evm (upd_state f m) = (m_evm m)\<lparr>evm_state := f (evm_state (m_evm m))\<rparr>" "m_mem (upd_state f m) = m_mem m"
  by (simp_all add: upd_state_def)

lemma gas_of_state [op_facts]:
  "gas_fact w (gasSStore E)" "gas_table_ok E \<Longrightarrow> gas_fact w (gasSuicide E)"
proof -
  have n: "1 \<le> unat NetSstoreNoopGas" "1 \<le> unat NetSstoreInitGas" "1 \<le> unat NetSstoreCleanGas" "1 \<le> unat NetSstoreDirtyGas"
    by (simp_all add: NetSstoreNoopGas_def NetSstoreInitGas_def NetSstoreCleanGas_def NetSstoreDirtyGas_def)
  show "gas_fact w (gasSStore E)"
    unfolding gasSStore_def
    by (rule gas_factI) (use n in \<open>auto simp: bind_Some_iff Let_def gas_refund sub_refund_def split: if_splits\<close>)
  assume "gas_table_ok E"
  then show "gas_fact w (gasSuicide E)"
    unfolding gasSuicide_def
    by (intro gas_factI)
      (auto simp: bind_Some_iff Let_def gas_refund gas_table_ok_def GasTableCalifornicum_def split: if_splits)
qed

lemma call_cost_fact:
  assumes "call_cost E base m ms = Some (c, m1)"
  shows "m_contract m1 = m_contract m \<and> m_stack m1 = m_stack m \<and> m_pc m1 = m_pc m \<and>
    (\<exists>t. m_evm m1 = (m_evm m)\<lparr>call_gas_tmp := t\<rparr>) \<and>
    (\<forall>cost. c = Some cost \<longrightarrow> unat base + unat (call_gas_tmp (m_evm m1)) \<le> unat cost)"
proof (cases "fst (memoryGasCost (m_mem m) ms) \<bind> safe_add base")
  case None
  with assms show ?thesis by (auto simp: call_cost_def bind_Some_iff Let_def split_beta intro!: exI [of _ "call_gas_tmp (m_evm m)"])
next
  case (Some gas)
  then have "unat base \<le> unat gas" by (auto simp: bind_Some_iff dest!: safe_add_Some)
  with Some assms show ?thesis
    by (auto simp: call_cost_def bind_Some_iff Let_def split_beta dest!: safe_add_Some split: option.splits)
qed

definition call_base :: "evm_env \<Rightarrow> bool \<Rightarrow> nat" where
  "call_base E transfers = 700 + (if transfers then 9000 else 0)"

lemma gas_call:
  assumes "gas_table_ok E" and "uint256_conversions (env_U E)"
  shows "gasCall E m ms = Some (Some cost, m1) \<Longrightarrow>
      call_base E (m_stack m ! 2 \<noteq> 0) + unat (call_gas_tmp (m_evm m1)) \<le> unat cost"
    and "gasCallCode E m ms = Some (Some cost, m1) \<Longrightarrow>
      call_base E (m_stack m ! 2 \<noteq> 0) + unat (call_gas_tmp (m_evm m1)) \<le> unat cost"
    and "gasDelegateCall E m ms = Some (Some cost, m1) \<Longrightarrow> call_base E False + unat (call_gas_tmp (m_evm m1)) \<le> unat cost"
    and "gasStaticCall E m ms = Some (Some cost, m1) \<Longrightarrow> call_base E False + unat (call_gas_tmp (m_evm m1)) \<le> unat cost"
proof -
  note u = uint256_conversionsD [OF assms(2)]
  have t: "gt_Calls (env_gas_table E) = 700" using assms(1) by (simp add: gas_table_ok_def GasTableCalifornicum_def)
  note d = CallNewAccountGas_def CallValueTransferGas_def call_base_def
  show "gasCall E m ms = Some (Some cost, m1) \<Longrightarrow>
      call_base E (m_stack m ! 2 \<noteq> 0) + unat (call_gas_tmp (m_evm m1)) \<le> unat cost"
    by (auto simp: gasCall_def bind_Some_iff Let_def t u d Back_def dest!: call_cost_fact split: if_splits)
  show "gasCallCode E m ms = Some (Some cost, m1) \<Longrightarrow>
      call_base E (m_stack m ! 2 \<noteq> 0) + unat (call_gas_tmp (m_evm m1)) \<le> unat cost"
    by (auto simp: gasCallCode_def bind_Some_iff Let_def t u d Back_def dest!: call_cost_fact split: if_splits)
  show "gasDelegateCall E m ms = Some (Some cost, m1) \<Longrightarrow> call_base E False + unat (call_gas_tmp (m_evm m1)) \<le> unat cost"
    "gasStaticCall E m ms = Some (Some cost, m1) \<Longrightarrow> call_base E False + unat (call_gas_tmp (m_evm m1)) \<le> unat cost"
    by (auto simp: gasDelegateCall_def gasStaticCall_def t d dest!: call_cost_fact)
qed

lemma gas_calls [op_facts]:
  assumes "gas_table_ok E" and "uint256_conversions (env_U E)"
  shows "gas_fact w (gasCall E)" "gas_fact w (gasCallCode E)" "gas_fact w (gasDelegateCall E)" "gas_fact w (gasStaticCall E)"
proof -
  have call_cost: "gas_fact True (call_cost E base)" for base
    by (rule gas_factI) (auto dest!: call_cost_fact)
  have "gas_fact True (gasCall E)" "gas_fact True (gasCallCode E)" "gas_fact True (gasDelegateCall E)" "gas_fact True (gasStaticCall E)"
    unfolding gasCall_def gasCallCode_def gasDelegateCall_def gasStaticCall_def gas_fact_def Let_def
    using call_cost unfolding gas_fact_def by (auto simp: bind_Some_iff)
  moreover have "1 \<le> unat cost" if "call_base E t + x \<le> unat cost" for t x cost
    using that by (simp add: call_base_def)
  ultimately show "gas_fact w (gasCall E)" "gas_fact w (gasCallCode E)" "gas_fact w (gasDelegateCall E)" "gas_fact w (gasStaticCall E)"
    using gas_call [OF assms] by (metis (no_types, lifting) gas_fact_priced)+
qed

end
