(* ===== verification/Evm_Termination.thy ===== *)
theory Evm_Termination
  imports Evm_Facts
begin

section \<open>Gas is fuel\<close>

text \<open>
  Every instruction that does not end its frame costs gas, and a frame never gives back more gas than it got, so a run with
  more fuel than gas ends by itself: with its result, an error or a panic, but never for lack of fuel.
\<close>

abbreviation gas_of :: "machine \<Rightarrow> nat" where "gas_of m \<equiv> unat (f_Gas (m_contract m))"

definition runner_bounded :: "nat \<Rightarrow> runner \<Rightarrow> bool" where
  "runner_bounded N run \<longleftrightarrow>
     (\<forall>c ro evm. unat (f_Gas c) < N \<longrightarrow>
        run c ro evm \<noteq> NoFuel \<and> (\<forall>ret err g evm'. run c ro evm = Done (ret, err, g, evm') \<longrightarrow> unat g \<le> unat (f_Gas c)))"

lemma runner_boundedD:
  assumes "runner_bounded N run" and "unat (f_Gas c) < N"
  shows "run c ro evm \<noteq> NoFuel" "run c ro evm = Done (ret, err, g, evm') \<Longrightarrow> unat g \<le> unat (f_Gas c)"
  using assms unfolding runner_bounded_def by blast+

subsection \<open>Calls and creations\<close>

lemma NewContract_gas [simp]: "f_Gas (NewContract frame code) = f_Gas frame"
  by (simp add: NewContract_def)

lemma sub_gas: "x \<le> gas \<Longrightarrow> unat (gas - x) \<le> unat (gas :: u64)"
  by (simp add: unat_sub)

lemma call_frame_gas [simp]: "f_Gas (call_frame ct caller callee input gas val) = gas"
  by (simp add: call_frame_def Let_def split: call_type.split)

lemma call_body_gas:
  assumes run: "runner_bounded N run" and g: "unat (f_Gas frame) < N"
  shows "call_body E run ro frame callee evm \<noteq> NoFuel"
    and "call_body E run ro frame callee evm = Done (ret, left, err, evm') \<Longrightarrow> unat left \<le> unat (f_Gas frame)"
  using runner_boundedD [OF run, of "NewContract frame (acc_GetCode (evm_account callee evm))"] g sub_gas
  unfolding call_body_def Let_def
  by (auto simp: and_then_NoFuel and_then_Done split: option.splits if_splits)

lemma leave_call_gas:
  "leave_call E snap callee r \<noteq> NoFuel"
  "leave_call E snap callee (ret, g, err, evm) = Done (ret', left, err', evm') \<Longrightarrow> unat left \<le> unat g"
  by (auto simp: leave_call_def split_beta split: if_splits)

lemma evm_call_gas:
  assumes run: "runner_bounded N run" and g: "unat gas < N"
  shows "evm_call E run ct caller callee input gas val evm \<noteq> NoFuel"
    and "evm_call E run ct caller callee input gas val evm = Done (ret, left, err, evm') \<Longrightarrow> unat left \<le> unat gas"
proof -
  let ?frame = "call_frame ct caller callee input gas val"
  have g': "unat (f_Gas ?frame) < N" using g by simp
  show "evm_call E run ct caller callee input gas val evm \<noteq> NoFuel"
    using call_body_gas(1) [OF run g'] leave_call_gas(1)
    by (cases rule: evm_call_cases [of E run ct caller callee input gas val evm]) (simp_all add: and_then_NoFuel)
  assume a: "evm_call E run ct caller callee input gas val evm = Done (ret, left, err, evm')"
  show "unat left \<le> unat gas"
  proof (cases rule: evm_call_cases [of E run ct caller callee input gas val evm])
    case body
    with a obtain ret0 g0 err0 evm0 where
      r: "call_body E run (ct = STATICCALL) ?frame callee (enter_call ct (f_Account caller) callee val evm) = Done (ret0, g0, err0, evm0)"
      "leave_call E (Snapshot (evm_state evm)) callee (ret0, g0, err0, evm0) = Done (ret, left, err, evm')"
      by (auto simp: and_then_Done)
    show ?thesis using call_body_gas(2) [OF run g' r(1)] leave_call_gas(2) [OF r(2)] by simp
  qed (use a in simp)
qed

lemma finish_creation_gas:
  "finish_creation snap addr r \<noteq> NoFuel"
  "finish_creation snap addr (ret, err, g, evm) = Done (ret', left, err', evm') \<Longrightarrow> unat left \<le> unat g"
  by (auto simp: finish_creation_def store_code_def Let_def split_beta not_less sub_gas split: if_splits)

lemma evm_create_gas:
  assumes run: "runner_bounded N run" and g: "unat gas < N"
  shows "evm_create E run caller code gas val addr evm \<noteq> NoFuel"
    and "evm_create E run caller code gas val addr evm = Done (ret, left, err, evm') \<Longrightarrow> unat left \<le> unat gas"
proof -
  let ?c = "NewContract \<lparr>f_CallerAccount = caller, f_Account = addr, f_Input = [], f_Gas = gas, f_Value = val\<rparr> code"
  have g': "unat (f_Gas ?c) < N" using g by simp
  note r = runner_boundedD [OF run g']
  show "evm_create E run caller code gas val addr evm \<noteq> NoFuel"
    using r(1) finish_creation_gas(1)
    by (cases rule: evm_create_cases [of E run caller code gas val addr evm]) (simp_all add: and_then_NoFuel)
  assume a: "evm_create E run caller code gas val addr evm = Done (ret, left, err, evm')"
  show "unat left \<le> unat gas"
  proof (cases rule: evm_create_cases [of E run caller code gas val addr evm])
    case (body evm1)
    with a obtain ret0 err0 g0 evm0 where
      r': "run ?c False (upd_ts (transfer caller addr val) (upd_ts (acc_IncrementNonce addr) evm1)) = Done (ret0, err0, g0, evm0)"
      "finish_creation (Snapshot (evm_state evm1)) addr (ret0, err0, g0, evm0) = Done (ret, left, err, evm')"
      by (auto simp: and_then_Done)
    show ?thesis using r(2) [OF r'(1)] finish_creation_gas(2) [OF r'(2)] by simp
  qed (use a in simp_all)
qed

lemma create_gas:
  assumes "runner_bounded N run" and "unat gas < N"
  shows "create_1 E run caller code gas val evm \<noteq> NoFuel"
    and "create_1 E run caller code gas val evm = Done (ret, addr, left, err, evm') \<Longrightarrow> unat left \<le> unat gas"
    and "create_2 E run caller code gas val salt evm \<noteq> NoFuel"
    and "create_2 E run caller code gas val salt evm = Done (ret, addr, left, err, evm') \<Longrightarrow> unat left \<le> unat gas"
  using evm_create_gas [OF assms] by (auto simp: create_1_def create_2_def Let_def and_then_NoFuel and_then_Done)

subsection \<open>Instructions\<close>

text \<open>The result of an instruction that was started with the machine \<open>m\<close>, its price included.\<close>

definition spends :: "machine \<Rightarrow> bool \<Rightarrow> (bytes \<times> evm_error option \<times> machine) outcome \<Rightarrow> bool" where
  "spends m stops r \<longleftrightarrow> r \<noteq> NoFuel \<and>
     (\<forall>res err m3. r = Done (res, err, m3) \<longrightarrow> gas_of m3 \<le> gas_of m \<and> (stops \<or> gas_of m3 < gas_of m))"

lemma spendsI: "r \<noteq> NoFuel \<Longrightarrow> (\<And>res err m3. r = Done (res, err, m3) \<Longrightarrow> gas_of m3 < gas_of m) \<Longrightarrow> spends m stops r"
  by (auto simp: spends_def intro: less_imp_le)

lemma spends_Panic [simp]: "spends m stops Panic"
  by (simp add: spends_def)

definition gas_sound :: "executionFunc \<Rightarrow> gasFunc \<Rightarrow> bool \<Rightarrow> bool" where
  "gas_sound exec g stops \<longleftrightarrow>
     (\<forall>N run m ms cost m1 m2.
        runner_bounded N run \<and> g m ms = Some (Some cost, m1) \<and> cost \<le> f_Gas (m_contract m) \<and> gas_of m \<le> N \<and>
        f_Gas (m_contract m2) = f_Gas (m_contract m) - cost \<and> m_stack m2 = m_stack m \<and>
        call_gas_tmp (m_evm m2) = call_gas_tmp (m_evm m1) \<longrightarrow>
        spends m stops (exec run m2))"

lemma gas_soundI:
  assumes "\<And>N run m ms cost m1 m2.
    runner_bounded N run \<Longrightarrow> g m ms = Some (Some cost, m1) \<Longrightarrow> unat cost \<le> gas_of m \<Longrightarrow> gas_of m \<le> N \<Longrightarrow>
    gas_of m2 = gas_of m - unat cost \<Longrightarrow> m_stack m2 = m_stack m \<Longrightarrow> call_gas_tmp (m_evm m2) = call_gas_tmp (m_evm m1) \<Longrightarrow>
    spends m stops (exec run m2)"
  shows "gas_sound exec g stops"
  unfolding gas_sound_def by (intro allI impI assms; elim conjE; (assumption | simp add: word_le_nat_alt unat_sub))

lemma sound_local [op_facts]:
  assumes "local_fact w pop push f" and "gas_fact stops g"
  shows "gas_sound (local_op f) g stops"
proof (rule gas_soundI)
  fix N run m ms cost m1 m2
  assume a: "g m ms = Some (Some cost, m1)" "unat cost \<le> gas_of m" "gas_of m2 = gas_of m - unat cost"
  have "stops \<or> 1 \<le> unat cost" using assms(2) a(1) unfolding gas_fact_def by blast
  then show "spends m stops (local_op f run m2)"
    using assms(1) a(2,3) by (auto simp: spends_def local_op_def local_fact_def)
qed

lemma finish_call_gas:
  assumes "finish_call E st inPos args retPos m (ret, left, err, evm) = Done (res, err', m3)"
    and "gas_of m + unat left < 2 ^ 64"
  shows "gas_of m3 = gas_of m + unat left"
  using assms by (auto simp: finish_call_def bind_Some_iff Let_def unat_add_small)

lemma finish_call_fuel: "finish_call E st inPos args retPos m r \<noteq> NoFuel"
  by (simp add: finish_call_def)

lemma value_call_cases:
  obtains (panic) "value_call ct E run m = Panic"
  | (calls) addr val inPos args retPos st where "val = m_stack m ! 2"
    "value_call ct E run m =
       and_then (evm_call E run ct (m_contract m) (U_Bytes20 (env_U E) addr) args
           (if \<not> U_IsZero (env_U E) val then call_gas_tmp (m_evm m) + CallStipend else call_gas_tmp (m_evm m))
           (U_ToBig (env_U E) val) (m_evm m))
         (finish_call E st inPos args retPos m)"
proof -
  let ?U = "env_U E"
  define r where "r = do {
        (x, st1) \<leftarrow> st_pop (m_stack m); (addr, st2) \<leftarrow> st_pop st1; (val, st3) \<leftarrow> st_pop st2;
        (inOffset, st4) \<leftarrow> st_pop st3; (inSize, st5) \<leftarrow> st_pop st4; (retOffset, st6) \<leftarrow> st_pop st5; (retSize, st7) \<leftarrow> st_pop st6;
        args \<leftarrow> mem_GetPtr (m_mem m) (U_Uint64 ?U inOffset) (U_Uint64 ?U inSize);
        Some (addr, val, (inOffset, inSize), args, (retOffset, retSize), st7) }"
  have v: "value_call ct E run m = and_then (or_panic r) (\<lambda>(addr, val, inPos, args, retPos, st).
       and_then (evm_call E run ct (m_contract m) (U_Bytes20 ?U addr) args
           (if \<not> U_IsZero ?U val then call_gas_tmp (m_evm m) + CallStipend else call_gas_tmp (m_evm m))
           (U_ToBig ?U val) (m_evm m))
         (finish_call E st inPos args retPos m))"
    by (simp only: value_call_def r_def Let_def)
  show thesis
  proof (cases r)
    case None
    with v show thesis by (intro panic) (simp add: or_panic_def)
  next
    case (Some t)
    obtain addr val inPos args retPos st where t: "t = (addr, val, inPos, args, retPos, st)" by (cases t)
    have "val = m_stack m ! 2" using Some unfolding t r_def by (auto simp: bind_Some_iff)
    then show thesis using v Some t by (intro calls) (auto simp: or_panic_def)
  qed
qed

lemma plain_call_cases:
  obtains (panic) "plain_call ct E run m = Panic"
  | (calls) addr inPos args retPos st where
    "plain_call ct E run m =
       and_then (evm_call E run ct (m_contract m) (U_Bytes20 (env_U E) addr) args (call_gas_tmp (m_evm m)) 0 (m_evm m))
         (finish_call E st inPos args retPos m)"
proof -
  let ?U = "env_U E"
  define r where "r = do {
        (x, st1) \<leftarrow> st_pop (m_stack m); (addr, st2) \<leftarrow> st_pop st1;
        (inOffset, st3) \<leftarrow> st_pop st2; (inSize, st4) \<leftarrow> st_pop st3; (retOffset, st5) \<leftarrow> st_pop st4; (retSize, st6) \<leftarrow> st_pop st5;
        args \<leftarrow> mem_GetPtr (m_mem m) (U_Uint64 ?U inOffset) (U_Uint64 ?U inSize);
        Some (addr, (inOffset, inSize), args, (retOffset, retSize), st6) }"
  have v: "plain_call ct E run m = and_then (or_panic r) (\<lambda>(addr, inPos, args, retPos, st).
       and_then (evm_call E run ct (m_contract m) (U_Bytes20 ?U addr) args (call_gas_tmp (m_evm m)) 0 (m_evm m))
         (finish_call E st inPos args retPos m))"
    by (simp only: plain_call_def r_def Let_def)
  show thesis
  proof (cases r)
    case None
    with v show thesis by (intro panic) (simp add: or_panic_def)
  next
    case (Some t)
    then show thesis using v by (cases t) (auto simp: or_panic_def intro: calls)
  qed
qed

lemma sound_after_call:
  assumes run: "runner_bounded N run" and c: "unat gas < unat c" "unat c \<le> gas_of m" "gas_of m \<le> N" "gas_of m2 = gas_of m - unat c"
    and d: "and_then (evm_call E run ct (m_contract m2) addr args gas val evm) (finish_call E st inPos args retPos m2) = r"
  shows "spends m stops r"
proof -
  have lt: "unat gas < N" using c by simp
  note call = evm_call_gas [OF run lt]
  have "gas_of m3 < gas_of m" if "r = Done (res, err, m3)" for res err m3
  proof -
    from that d obtain ret left err0 evm0 where
      r: "evm_call E run ct (m_contract m2) addr args gas val evm = Done (ret, left, err0, evm0)"
      "finish_call E st inPos args retPos m2 (ret, left, err0, evm0) = Done (res, err, m3)"
      by (auto simp: and_then_Done)
    have "gas_of m2 + unat left < gas_of m" using call(2) [OF r(1)] c by simp
    then show ?thesis using finish_call_gas [OF r(2)] unat_bound [of "f_Gas (m_contract m)"] by simp
  qed
  moreover have "r \<noteq> NoFuel" unfolding d [symmetric] and_then_NoFuel using call(1) finish_call_fuel by blast
  ultimately show ?thesis by (intro spendsI)
qed

lemma sound_value_call:
  assumes U: "uint256_conversions (env_U E)"
    and cost: "\<And>m ms cost m1. g m ms = Some (Some cost, m1) \<Longrightarrow>
      call_base E (m_stack m ! 2 \<noteq> 0) + unat (call_gas_tmp (m_evm m1)) \<le> unat cost"
  shows "gas_sound (value_call ct E) g stops"
proof (rule gas_soundI)
  fix N run m ms c m1 m2
  assume run: "runner_bounded N run" and a: "g m ms = Some (Some c, m1)" "unat c \<le> gas_of m" "gas_of m \<le> N"
    "gas_of m2 = gas_of m - unat c" "m_stack m2 = m_stack m" "call_gas_tmp (m_evm m2) = call_gas_tmp (m_evm m1)"
  let ?tmp = "call_gas_tmp (m_evm m2)" and ?val = "m_stack m2 ! 2"
  have c: "call_base E (?val \<noteq> 0) + unat ?tmp \<le> unat c" using cost [OF a(1)] a(5,6) by simp
  have le: "unat (if \<not> U_IsZero (env_U E) ?val then ?tmp + CallStipend else ?tmp) < unat c"
  proof (cases "?val = 0")
    case False
    then have t: "9700 + unat ?tmp \<le> unat c" using c by (simp add: call_base_def)
    then have "unat (?tmp + CallStipend) = unat ?tmp + 2300"
      using unat_bound [of c] by (subst unat_add_small) (simp_all add: CallStipend_def)
    with t False show ?thesis by (simp add: uint256_conversionsD [OF U])
  qed (use c in \<open>simp add: uint256_conversionsD [OF U] call_base_def\<close>)
  show "spends m stops (value_call ct E run m2)"
  proof (cases rule: value_call_cases [of ct E run m2])
    case (calls addr val inPos args retPos st)
    show ?thesis by (rule sound_after_call [OF run le a(2,3,4)]) (simp only: calls)
  qed simp
qed

lemma sound_plain_call:
  assumes cost: "\<And>m ms cost m1. g m ms = Some (Some cost, m1) \<Longrightarrow> call_base E False + unat (call_gas_tmp (m_evm m1)) \<le> unat cost"
  shows "gas_sound (plain_call ct E) g stops"
proof (rule gas_soundI)
  fix N run m ms c m1 m2
  assume run: "runner_bounded N run" and a: "g m ms = Some (Some c, m1)" "unat c \<le> gas_of m" "gas_of m \<le> N"
    "gas_of m2 = gas_of m - unat c" "m_stack m2 = m_stack m" "call_gas_tmp (m_evm m2) = call_gas_tmp (m_evm m1)"
  have le: "unat (call_gas_tmp (m_evm m2)) < unat c" using cost [OF a(1)] a(6) by (simp add: call_base_def)
  show "spends m stops (plain_call ct E run m2)"
  proof (cases rule: plain_call_cases [of ct E run m2])
    case (calls addr inPos args retPos st)
    show ?thesis by (rule sound_after_call [OF run le a(2,3,4)]) (simp only: calls)
  qed simp
qed

lemma spend_for_create_gas:
  assumes "spend_for_create m = (gas, m1)"
  shows "unat gas \<le> gas_of m" "gas_of m1 = gas_of m - unat gas"
proof -
  let ?g = "f_Gas (m_contract m)"
  have le: "?g - ?g div 64 \<le> ?g" by (simp add: word_le_nat_alt unat_sub unat_div)
  then have "UseGas (?g - ?g div 64) (m_contract m) = Some ((m_contract m)\<lparr>f_Gas := ?g - (?g - ?g div 64)\<rparr>)"
    by (simp add: UseGas_def)
  with assms have g: "gas = ?g - ?g div 64" "f_Gas (m_contract m1) = ?g - gas" by (auto simp: spend_for_create_def Let_def)
  show "unat gas \<le> gas_of m" using le g(1) by (simp only: word_le_nat_alt)
  then show "gas_of m1 = gas_of m - unat gas" unfolding g(2) by (simp add: unat_sub word_le_nat_alt)
qed

lemma sound_after_create:
  assumes r: "r0 \<noteq> NoFuel" "\<And>ret addr left err evm. r0 = Done (ret, addr, left, err, evm) \<Longrightarrow> unat left \<le> unat gas"
    and s: "spend_for_create m2 = (gas, m1)" and m: "gas_of m2 < gas_of m"
    and d: "r = and_then r0 (finish_create E st m1)"
  shows "spends m stops r"
proof -
  note sp = spend_for_create_gas [OF s]
  have "gas_of m3 < gas_of m" if "r = Done (res, err, m3)" for res err m3
  proof -
    from that d obtain ret addr left err0 evm0 where r0: "r0 = Done (ret, addr, left, err0, evm0)"
      and f: "finish_create E st m1 (ret, addr, left, err0, evm0) = Done (res, err, m3)"
      by (auto simp: and_then_Done)
    from f have g: "f_Gas (m_contract m3) = f_Gas (m_contract m1) + left" by (auto simp: finish_create_def Let_def)
    have "gas_of m1 + unat left \<le> gas_of m2" using r(2) [OF r0] sp by simp
    then have "gas_of m3 = gas_of m1 + unat left"
      unfolding g using unat_bound [of "f_Gas (m_contract m2)"] by (intro unat_add_small) simp
    then show ?thesis using \<open>gas_of m1 + unat left \<le> gas_of m2\<close> m by simp
  qed
  moreover have "r \<noteq> NoFuel" using r(1) unfolding d by (auto simp: and_then_NoFuel finish_create_def Let_def split: prod.splits)
  ultimately show ?thesis by (intro spendsI)
qed

lemma opCreate_cases:
  obtains (panic) "opCreate E run m = Panic"
  | (creates) input gas v st m1 where "spend_for_create m = (gas, m1)"
    "opCreate E run m = and_then (create_1 E run (f_Account (m_contract m)) input gas (U_ToBig (env_U E) v) (m_evm m)) (finish_create E st m1)"
  unfolding opCreate_def Let_def
  by (cases "spend_for_create m") (force simp: or_panic_def split: option.splits prod.splits)

lemma opCreate2_cases:
  obtains (panic) "opCreate2 E run m = Panic"
  | (creates) input gas v salt st m1 where "spend_for_create m = (gas, m1)"
    "opCreate2 E run m = and_then (create_2 E run (f_Account (m_contract m)) input gas (U_ToBig (env_U E) v) salt (m_evm m)) (finish_create E st m1)"
  unfolding opCreate2_def Let_def
  by (cases "spend_for_create m") (force simp: or_panic_def split: option.splits prod.splits)

lemma sound_create [op_facts]:
  assumes g: "gas_fact False g"
  shows "gas_sound (opCreate E) g stops" "gas_sound (opCreate2 E) g stops"
proof -
  have lt: "gas_of m2 < gas_of m \<and> gas_of m2 < N"
    if "g m ms = Some (Some c, m1)" "unat c \<le> gas_of m" "gas_of m \<le> N" "gas_of m2 = gas_of m - unat c" for m ms c m1 m2 N
    using g that unfolding gas_fact_def by fastforce
  show "gas_sound (opCreate E) g stops"
  proof (rule gas_soundI)
    fix N run m ms c m1 m2
    assume run: "runner_bounded N run" and a: "g m ms = Some (Some c, m1)" "unat c \<le> gas_of m" "gas_of m \<le> N" "gas_of m2 = gas_of m - unat c"
    show "spends m stops (opCreate E run m2)"
    proof (cases rule: opCreate_cases [of E run m2])
      case (creates input gas v st m4)
      have b: "unat gas < N" using spend_for_create_gas(1) [OF creates(1)] lt [OF a] by simp
      show ?thesis
        by (rule sound_after_create [OF create_gas(1) [OF run b] create_gas(2) [OF run b] creates(1) _ creates(2)]) (use lt [OF a] in auto)
    qed simp
  qed
  show "gas_sound (opCreate2 E) g stops"
  proof (rule gas_soundI)
    fix N run m ms c m1 m2
    assume run: "runner_bounded N run" and a: "g m ms = Some (Some c, m1)" "unat c \<le> gas_of m" "gas_of m \<le> N" "gas_of m2 = gas_of m - unat c"
    show "spends m stops (opCreate2 E run m2)"
    proof (cases rule: opCreate2_cases [of E run m2])
      case (creates input gas v salt st m4)
      have b: "unat gas < N" using spend_for_create_gas(1) [OF creates(1)] lt [OF a] by simp
      show ?thesis
        by (rule sound_after_create [OF create_gas(3) [OF run b] create_gas(4) [OF run b] creates(1) _ creates(2)]) (use lt [OF a] in auto)
    qed simp
  qed
qed

subsection \<open>The table\<close>

definition op_sound :: "operation \<Rightarrow> bool" where
  "op_sound o1 \<longleftrightarrow> gas_sound (op_execute o1) (op_gasCost o1) (op_halts o1 \<or> op_reverts o1) \<and> gas_fact True (op_gasCost o1)"

lemma op_sound_flags [simp]:
  "op_sound (o1\<lparr>op_memorySize := x\<rparr>) = op_sound o1" "op_sound (o1\<lparr>op_writes := b\<rparr>) = op_sound o1"
  "op_sound (o1\<lparr>op_returns := b\<rparr>) = op_sound o1" "op_sound (o1\<lparr>op_jumps := b\<rparr>) = op_sound o1"
  "op_sound (o1\<lparr>op_halts := True\<rparr>) \<longleftrightarrow> gas_sound (op_execute o1) (op_gasCost o1) True \<and> gas_fact True (op_gasCost o1)"
  "op_sound (o1\<lparr>op_reverts := True\<rparr>) \<longleftrightarrow> gas_sound (op_execute o1) (op_gasCost o1) True \<and> gas_fact True (op_gasCost o1)"
  by (simp_all add: op_sound_def)

lemma op_sound_entry [simp]:
  "op_sound (entry ex g v) \<longleftrightarrow> gas_sound ex g False \<and> gas_fact True g"
  "op_execute (entry ex g v) = ex" "op_gasCost (entry ex g v) = g"
  "op_execute ((entry ex g v)\<lparr>op_memorySize := x\<rparr>) = ex" "op_gasCost ((entry ex g v)\<lparr>op_memorySize := x\<rparr>) = g"
  by (simp_all add: op_sound_def entry_def)

lemma gas_const_steps [op_facts]:
  "gas_fact w (constGasFunc GasQuickStep)" "gas_fact w (constGasFunc GasFastestStep)" "gas_fact w (constGasFunc GasFastStep)"
  "gas_fact w (constGasFunc GasMidStep)" "gas_fact w (constGasFunc GasSlowStep)" "gas_fact w (constGasFunc GasExtStep)"
  "gas_fact w (constGasFunc JumpdestGas)" "gas_fact True (constGasFunc 0)"
  by (rule gas_const; simp add: GasQuickStep_def GasFastestStep_def GasFastStep_def GasMidStep_def GasSlowStep_def GasExtStep_def JumpdestGas_def)+

lemma sound_calls [op_facts]:
  assumes "gas_table_ok E" and "uint256_conversions (env_U E)"
  shows "gas_sound (opCall E) (gasCall E) w" "gas_sound (opCallCode E) (gasCallCode E) w"
    "gas_sound (opDelegateCall E) (gasDelegateCall E) w" "gas_sound (opStaticCall E) (gasStaticCall E) w"
  unfolding opCall_def opCallCode_def opDelegateCall_def opStaticCall_def
  by (rule sound_value_call [OF assms(2)] sound_plain_call, erule gas_call [OF assms])+

abbreviation table_sound :: "(byte \<times> operation) list \<Rightarrow> bool" where
  "table_sound t \<equiv> list_all (\<lambda>(b, o1). op_sound o1) t"

lemma table_sound:
  assumes "gas_table_ok E" and "uint256_conversions (env_U E)"
  shows "table_sound (table_byzantium E)" "table_sound (table_arithmetic E)" "table_sound (table_environment E)"
    "table_sound (table_storage E)" "table_sound (table_system E)"
  unfolding table_byzantium_def table_arithmetic_def table_environment_def table_storage_def table_system_def
  by (simp_all only: list.pred_inject prod.case op_sound_flags op_sound_entry simp_thms)
    (rule conjI op_facts assms)+

lemma table_sound_families:
  "table_sound (table_push E)" "table_sound table_dup" "table_sound table_swap" "table_sound (table_log E)"
proof -
  have "gas_sound (local_op (makePush E k n)) gasPush w" "gas_sound (local_op (makeDup n)) gasDup w"
    "gas_sound (local_op (makeSwap n)) gasSwap w" "gas_sound (local_op (makeLog E n)) (makeGasLog E k) w" for n k w
    by (rule op_facts)+
  then show "table_sound (table_push E)" "table_sound table_dup" "table_sound table_swap" "table_sound (table_log E)"
    by (auto simp: table_push_def table_dup_def table_swap_def table_log_def list_all_iff op_facts)
qed

lemma instruction_sound:
  assumes E: "gas_table_ok E" "uint256_conversions (env_U E)" and "instruction_set E op = Some o1"
  shows "op_sound o1"
proof -
  have mcopy: "gas_sound (local_op (opMcopy E)) (gasMcopy E) False" by (rule op_facts)+
  have all: "table_sound (newCalifornicumInstructionSet E)"
    using table_sound [OF E] table_sound_families by (simp add: newCalifornicumInstructionSet_def)
  then have "table_sound (newFicusInstructionSet E)"
    using mcopy by (simp add: newFicusInstructionSet_def enable5656_def op_facts)
  with all have "table_sound (if env_IsFicus E then newFicusInstructionSet E else newCalifornicumInstructionSet E)" by simp
  moreover have "(op, o1) \<in> set (if env_IsFicus E then newFicusInstructionSet E else newCalifornicumInstructionSet E)"
    using assms(3) unfolding instruction_set_def by (rule map_of_SomeD)
  ultimately show ?thesis unfolding list_all_iff by fast
qed

subsection \<open>The loop\<close>

definition step_spends :: "machine \<Rightarrow> step_result outcome \<Rightarrow> bool" where
  "step_spends m r \<longleftrightarrow> r \<noteq> NoFuel \<and> (\<forall>m1. r = Done (Continue m1) \<longrightarrow> gas_of m1 < gas_of m) \<and>
     (\<forall>ret err m1. r = Done (Halt ret err m1) \<longrightarrow> gas_of m1 \<le> gas_of m)"

lemma step_spends_Halt: "gas_of m1 = gas_of m \<Longrightarrow> step_spends m (Done (Halt ret err m1))" "step_spends m Panic"
  by (simp_all add: step_spends_def)

lemma exec_step_spends:
  assumes "spends m (op_halts o1 \<or> op_reverts o1) (op_execute o1 run m2)"
  shows "step_spends m (exec_step run o1 m2)"
proof (cases "op_execute o1 run m2")
  case (Done x)
  obtain res err m3 where x: "x = (res, err, m3)" by (cases x)
  have "gas_of m3 \<le> gas_of m" "op_halts o1 \<or> op_reverts o1 \<or> gas_of m3 < gas_of m"
    using assms Done x by (auto simp: spends_def)
  then show ?thesis by (simp add: step_spends_def exec_step_def Done x Let_def) blast
qed (use assms in \<open>simp_all add: spends_def step_spends_def exec_step_def\<close>)

lemma resize_memory_keeps [simp]:
  "m_contract (resize_memory E ms m) = m_contract m" "m_stack (resize_memory E ms m) = m_stack m"
  "m_pc (resize_memory E ms m) = m_pc m" "call_gas_tmp (m_evm (resize_memory E ms m)) = call_gas_tmp (m_evm m)"
  "evm_state (m_evm (resize_memory E ms m)) = evm_state (m_evm m)"
  "evm_depth (m_evm (resize_memory E ms m)) = evm_depth (m_evm m)"
  "evm_read_only (m_evm (resize_memory E ms m)) = evm_read_only (m_evm m)"
  by (simp_all add: resize_memory_def split_beta)

lemma pay_step_spends:
  assumes o1: "op_sound o1" and run: "runner_bounded N run" and N: "gas_of m \<le> N"
  shows "step_spends m (pay_step E run o1 ms m)"
proof (cases "op_gasCost o1 m ms")
  case None
  then show ?thesis by (simp add: pay_step_def or_panic_def step_spends_Halt)
next
  case (Some a)
  obtain cost m1 where a: "a = (cost, m1)" by (cases a)
  have keep: "m_contract m1 = m_contract m" "m_stack m1 = m_stack m"
    using o1 Some a unfolding op_sound_def gas_fact_def by blast+
  show ?thesis
  proof (cases "cost \<bind> (\<lambda>c. UseGas c (m_contract m1))")
    case None
    then show ?thesis using Some a keep by (simp add: pay_step_def or_panic_def step_spends_Halt)
  next
    case paid: (Some contract)
    then obtain c where c: "cost = Some c" "c \<le> f_Gas (m_contract m)" "contract = (m_contract m)\<lparr>f_Gas := f_Gas (m_contract m) - c\<rparr>"
      by (auto simp: bind_Some_iff UseGas_def keep split: if_splits)
    let ?m2 = "resize_memory E ms (m1\<lparr>m_contract := contract\<rparr>)"
    have "spends m (op_halts o1 \<or> op_reverts o1) (op_execute o1 run ?m2)"
      using o1 run N Some c keep unfolding op_sound_def gas_sound_def a by simp
    then show ?thesis using Some a paid by (simp add: pay_step_def or_panic_def exec_step_spends)
  qed
qed

lemma step_spends_step:
  assumes E: "gas_table_ok E" "uint256_conversions (env_U E)" and run: "runner_bounded N run" and N: "gas_of m \<le> N"
  shows "step_spends m (step E run m)"
  unfolding step_def Let_def
  using pay_step_spends [OF instruction_sound [OF E] run N]
  by (auto simp: or_panic_def step_spends_Halt split: option.split)

lemma run_frame_bounded:
  assumes "\<And>m. gas_of m < N \<Longrightarrow> loop m \<noteq> NoFuel"
    and "\<And>m ret err m1. gas_of m < N \<Longrightarrow> loop m = Done (ret, err, m1) \<Longrightarrow> gas_of m1 \<le> gas_of m"
  shows "runner_bounded N (run_frame loop)"
  unfolding runner_bounded_def
proof (intro allI impI)
  fix c :: Contract and ro evm
  assume g: "unat (f_Gas c) < N"
  let ?m = "\<lparr>m_pc = 0, m_evm = evm\<lparr>evm_depth := evm_depth evm + 1, evm_read_only := evm_read_only evm \<or> ro, last_retval := []\<rparr>,
     m_contract = c, m_mem = mem_Init (pool_reserved evm), m_stack = []\<rparr>"
  have m: "gas_of ?m < N" using g by simp
  show "run_frame loop c ro evm \<noteq> NoFuel \<and>
      (\<forall>ret err g evm'. run_frame loop c ro evm = Done (ret, err, g, evm') \<longrightarrow> unat g \<le> unat (f_Gas c))"
    using assms(1) [OF m] assms(2) [OF m] unfolding run_frame_def Let_def
    by (auto simp: and_then_NoFuel and_then_Done)
qed

lemma run_loop_gas:
  assumes E: "gas_table_ok E" "uint256_conversions (env_U E)"
  shows "gas_of m < fuel \<Longrightarrow> run_loop E fuel m \<noteq> NoFuel"
    and "gas_of m < fuel \<Longrightarrow> run_loop E fuel m = Done (ret, err, m1) \<Longrightarrow> gas_of m1 \<le> gas_of m"
proof (induction fuel arbitrary: m ret err m1)
  case (Suc fuel)
  have run: "runner_bounded fuel (run_frame (run_loop E fuel))" by (rule run_frame_bounded [OF Suc.IH])
  have st: "step_spends m (step E (run_frame (run_loop E fuel)) m)" if "gas_of m < Suc fuel" for m
    using that by (intro step_spends_step [OF E run]) simp
  {
    case 1
    then show ?case using st [OF 1] Suc.IH(1)
      by (cases "step E (run_frame (run_loop E fuel)) m") (auto simp: step_spends_def split: step_result.split)
  next
    case 2
    show ?case
    proof (cases "step E (run_frame (run_loop E fuel)) m")
      case (Done r)
      show ?thesis
      proof (cases r)
        case (Continue m2)
        then have "gas_of m2 < gas_of m" using st [OF 2(1)] Done by (simp add: step_spends_def)
        moreover have "gas_of m1 \<le> gas_of m2"
          using 2 Done Continue \<open>gas_of m2 < gas_of m\<close> by (intro Suc.IH(2)) simp_all
        ultimately show ?thesis by simp
      qed (use st [OF 2(1)] Done 2(2) in \<open>auto simp: step_spends_def\<close>)
    qed (use 2(2) in simp_all)
  }
qed simp_all

lemma evm_run_bounded:
  assumes "gas_table_ok E" "uint256_conversions (env_U E)"
  shows "runner_bounded fuel (evm_run E fuel)"
  unfolding evm_run_def by (rule run_frame_bounded [OF run_loop_gas [OF assms]])

subsection \<open>More fuel changes nothing\<close>

definition fuel_le :: "'a outcome \<Rightarrow> 'a outcome \<Rightarrow> bool" where
  "fuel_le r r' \<longleftrightarrow> r = NoFuel \<or> r' = r"

named_theorems fuel_mono \<open>monotonicity in the fuel\<close>

lemma fuel_le_refl [fuel_mono]: "fuel_le r r" by (simp add: fuel_le_def)

lemma fuel_le_and_then [fuel_mono]:
  "fuel_le r r' \<Longrightarrow> (\<And>x. fuel_le (f x) (f' x)) \<Longrightarrow> fuel_le (and_then r f) (and_then r' f')"
  by (cases r) (auto simp: fuel_le_def)

definition runner_le :: "runner \<Rightarrow> runner \<Rightarrow> bool" where
  "runner_le run run' \<longleftrightarrow> (\<forall>c ro evm. fuel_le (run c ro evm) (run' c ro evm))"

lemma runner_leD [fuel_mono]: "runner_le run run' \<Longrightarrow> fuel_le (run c ro evm) (run' c ro evm)"
  by (simp add: runner_le_def)

lemma fuel_le_split [fuel_mono]:
  "(b \<Longrightarrow> fuel_le x x') \<Longrightarrow> (\<not> b \<Longrightarrow> fuel_le y y') \<Longrightarrow> fuel_le (if b then x else y) (if b then x' else y')"
  "(v = None \<Longrightarrow> fuel_le x x') \<Longrightarrow> (\<And>a. v = Some a \<Longrightarrow> fuel_le (h a) (h' a)) \<Longrightarrow>
     fuel_le (case v of None \<Rightarrow> x | Some a \<Rightarrow> h a) (case v of None \<Rightarrow> x' | Some a \<Rightarrow> h' a)"
  "(\<And>a b. p = (a, b) \<Longrightarrow> fuel_le (k a b) (k' a b)) \<Longrightarrow> fuel_le (case p of (a, b) \<Rightarrow> k a b) (case p of (a, b) \<Rightarrow> k' a b)"
  by (simp_all split: option.split prod.split)

lemma evm_call_le [fuel_mono]:
  assumes "runner_le run run'"
  shows "fuel_le (evm_call E run ct caller callee input gas val evm) (evm_call E run' ct caller callee input gas val evm)"
  unfolding evm_call_def call_body_def Let_def by (intro fuel_mono assms)

lemma create_le [fuel_mono]:
  assumes "runner_le run run'"
  shows "fuel_le (create_1 E run caller code gas val evm) (create_1 E run' caller code gas val evm)"
    "fuel_le (create_2 E run caller code gas val salt evm) (create_2 E run' caller code gas val salt evm)"
  unfolding create_1_def create_2_def evm_create_def Let_def by (intro fuel_mono assms)+

definition exec_mono :: "executionFunc \<Rightarrow> bool" where
  "exec_mono ex \<longleftrightarrow> (\<forall>run run' m. runner_le run run' \<longrightarrow> fuel_le (ex run m) (ex run' m))"

lemma exec_mono [op_facts]:
  "exec_mono (local_op f)" "exec_mono (opCall E)" "exec_mono (opCallCode E)" "exec_mono (opDelegateCall E)" "exec_mono (opStaticCall E)"
  "exec_mono (opCreate E)" "exec_mono (opCreate2 E)"
  unfolding exec_mono_def local_op_def opCall_def opCallCode_def opDelegateCall_def opStaticCall_def value_call_def plain_call_def
    opCreate_def opCreate2_def Let_def
  by (intro allI impI fuel_mono; assumption)+

abbreviation table_mono :: "(byte \<times> operation) list \<Rightarrow> bool" where
  "table_mono t \<equiv> list_all (\<lambda>(b, o1). exec_mono (op_execute o1)) t"

lemma table_mono:
  "table_mono (table_byzantium E)" "table_mono (table_arithmetic E)" "table_mono (table_environment E)" "table_mono (table_storage E)"
  "table_mono (table_push E)" "table_mono table_dup" "table_mono table_swap" "table_mono (table_log E)" "table_mono (table_system E)"
  by (simp_all add: table_byzantium_def table_arithmetic_def table_environment_def table_storage_def table_push_def table_dup_def
      table_swap_def table_log_def table_system_def list_all_iff entry_def op_facts)

lemma instruction_mono:
  assumes "instruction_set E op = Some o1"
  shows "exec_mono (op_execute o1)"
proof -
  have "table_mono (if env_IsFicus E then newFicusInstructionSet E else newCalifornicumInstructionSet E)"
    by (simp add: newFicusInstructionSet_def enable5656_def newCalifornicumInstructionSet_def table_mono entry_def op_facts)
  moreover have "(op, o1) \<in> set (if env_IsFicus E then newFicusInstructionSet E else newCalifornicumInstructionSet E)"
    using assms unfolding instruction_set_def by (rule map_of_SomeD)
  ultimately show ?thesis unfolding list_all_iff by fast
qed

lemma step_le:
  assumes "runner_le run run'"
  shows "fuel_le (step E run m) (step E run' m)"
proof -
  have ex: "fuel_le (op_execute o1 run m2) (op_execute o1 run' m2)" if "instruction_set E op = Some o1" for op o1 m2
    using instruction_mono [OF that] assms by (simp add: exec_mono_def)
  show ?thesis unfolding step_def pay_step_def exec_step_def Let_def by (intro fuel_mono ex)
qed

lemma run_frame_le: "(\<And>m. fuel_le (loop m) (loop' m)) \<Longrightarrow> runner_le (run_frame loop) (run_frame loop')"
  unfolding runner_le_def run_frame_def Let_def by (intro allI fuel_mono)

lemma run_loop_le: "fuel_le (run_loop E fuel m) (run_loop E (fuel + k) m)"
proof (induction fuel arbitrary: m)
  case 0
  then show ?case by (simp add: fuel_le_def)
next
  case (Suc fuel)
  have r: "runner_le (run_frame (run_loop E fuel)) (run_frame (run_loop E (fuel + k)))" by (rule run_frame_le) (rule Suc.IH)
  have "fuel_le (case r of Continue m1 \<Rightarrow> run_loop E fuel m1 | Halt ret err m1 \<Rightarrow> Done (ret, err, m1))
      (case r of Continue m1 \<Rightarrow> run_loop E (fuel + k) m1 | Halt ret err m1 \<Rightarrow> Done (ret, err, m1))" for r
    using Suc.IH by (simp add: fuel_le_refl split: step_result.split)
  then show ?case using step_le [OF r] by (simp add: fuel_le_and_then)
qed

lemma evm_run_le: "fuel \<le> fuel' \<Longrightarrow> runner_le (evm_run E fuel) (evm_run E fuel')"
  unfolding evm_run_def using run_loop_le [of E fuel _ "fuel' - fuel"] by (intro run_frame_le) simp

subsection \<open>Transactions\<close>

lemma charge_no_overflow:
  assumes "\<not> (MaxUint64 - g) div k < z" and "0 < k"
  shows "unat (g + z * k) = unat g + unat z * unat k"
proof -
  have m: "unat (MaxUint64 - g) = 2 ^ 64 - 1 - unat g"
    unfolding MaxUint64_def by (subst unat_sub) (simp_all add: word_order.extremum unsigned_minus_1_eq_mask mask_eq_exp_minus_1)
  have "unat z \<le> (2 ^ 64 - 1 - unat g) div unat k" using assms(1) by (simp add: word_le_nat_alt not_less unat_div m)
  then have "unat z * unat k \<le> 2 ^ 64 - 1 - unat g"
    using assms(2) by (metis div_times_less_eq_dividend le_trans mult_le_mono1)
  then have le: "unat g + unat z * unat k < 2 ^ 64" using unat_bound [of g] by simp
  then have "unat (z * k) = unat z * unat k" by (simp add: unat_word_ariths)
  with le show ?thesis by (subst unat_add_small) simp_all
qed

lemma IntrinsicGas_val:
  assumes "IntrinsicGas data creation = Inr g" and "length data < 2 ^ 64"
  shows "unat g = (if creation then 53000 else 21000) + 68 * length (filter (\<lambda>b. b \<noteq> 0) data) + 4 * length (filter (\<lambda>b. b = 0) data)"
proof (cases "data = []")
  case True
  then show ?thesis using assms by (auto simp: IntrinsicGas_def TxGasContractCreation_def TxGas_def Let_def)
next
  case False
  define g0 where "g0 = (if creation then TxGasContractCreation else TxGas)"
  define n where "n = length (filter (\<lambda>b. b \<noteq> 0) data)"
  define nz where "nz = (of_nat n :: u64)"
  define z where "z = (of_nat (length data) :: u64) - nz"
  let ?g1 = "g0 + nz * TxDataNonZeroGas"
  have l: "length data = n + length (filter (\<lambda>b. b = 0) data)"
    using sum_length_filter_compl [of "\<lambda>b. b = 0" data] by (simp add: n_def)
  have a: "\<not> (MaxUint64 - g0) div TxDataNonZeroGas < nz" "\<not> (MaxUint64 - ?g1) div TxDataZeroGas < z" "g = ?g1 + z * TxDataZeroGas"
    using assms(1) False unfolding IntrinsicGas_def Let_def g0_def z_def nz_def n_def by (auto split: if_splits)
  have u: "unat nz = n" unfolding nz_def using assms(2) l by (intro unat_of_nat_small) simp
  have "z = of_nat (length (filter (\<lambda>b. b = 0) data))" unfolding z_def nz_def l by simp
  then have v: "unat z = length (filter (\<lambda>b. b = 0) data)" using assms(2) l by (simp add: unat_of_nat_small)
  have "unat g = unat ?g1 + unat z * unat TxDataZeroGas" unfolding a(3) by (rule charge_no_overflow [OF a(2)]) (simp add: TxDataZeroGas_def)
  also have "unat ?g1 = unat g0 + unat nz * unat TxDataNonZeroGas" by (rule charge_no_overflow [OF a(1)]) (simp add: TxDataNonZeroGas_def)
  finally show ?thesis
    by (simp add: u v g0_def n_def TxDataZeroGas_def TxDataNonZeroGas_def TxGasContractCreation_def TxGas_def)
qed

lemma finish_trx_gas:
  assumes "gas_left \<le> t_Gas trx" and "finish_trx trx ret err gas_left evm = (res, evm')"
  shows "r_GasUsed res \<le> t_Gas trx"
    and "r_ConsensusErr ret = None \<Longrightarrow> r_ConsensusErr res = None \<Longrightarrow> unat (t_Gas trx) - unat gas_left \<le> 2 * unat (r_GasUsed res)"
proof -
  let ?half = "(t_Gas trx - gas_left) div 2"
  let ?bk = "MinU64 (ts_refund (evm_state evm)) ?half"
  have bk: "unat ?bk \<le> (unat (t_Gas trx) - unat gas_left) div 2"
  proof -
    have "?bk \<le> ?half" by (simp add: MinU64_def less_imp_le)
    then have "unat ?bk \<le> unat ?half" by (simp only: word_le_nat_alt)
    then show ?thesis using assms(1) by (simp add: unat_div unat_sub)
  qed
  have le: "unat gas_left \<le> unat (t_Gas trx)" using assms(1) by (simp add: word_le_nat_alt)
  have sum: "unat (gas_left + ?bk) = unat gas_left + unat ?bk"
    using bk le unat_bound [of "t_Gas trx"] by (intro unat_add_small) simp
  then have l: "gas_left + ?bk \<le> t_Gas trx" using bk le by (simp add: word_le_nat_alt)
  have used: "unat (t_Gas trx - (gas_left + ?bk)) = unat (t_Gas trx) - (unat gas_left + unat ?bk)"
    using l sum by (simp add: unat_sub)
  show "r_GasUsed res \<le> t_Gas trx"
    using assms(2) used by (auto simp: finish_trx_def consensusErr_def Let_def word_le_nat_alt split: if_splits)
  show "unat (t_Gas trx) - unat gas_left \<le> 2 * unat (r_GasUsed res)" if "r_ConsensusErr ret = None" "r_ConsensusErr res = None"
    using assms(2) that used bk by (auto simp: finish_trx_def consensusErr_def Let_def split: if_splits)
qed

lemma start_trx_gas:
  assumes run: "runner_bounded N run" and N: "unat g < N" and g: "g \<le> t_Gas trx"
  shows "start_trx E run trx g evm \<noteq> NoFuel"
    and "start_trx E run trx g evm = Done (res, evm') \<Longrightarrow> r_GasUsed res \<le> t_Gas trx \<and>
      (r_ConsensusErr res = None \<longrightarrow> unat (t_Gas trx) - unat g \<le> 2 * unat (r_GasUsed res))"
proof -
  show "start_trx E run trx g evm \<noteq> NoFuel"
    using evm_call_gas(1) [OF run N] create_gas(1) [OF run N]
    by (simp add: start_trx_def and_then_NoFuel split: option.split prod.split)
  have fin: "r_GasUsed res \<le> t_Gas trx \<and> (r_ConsensusErr res = None \<longrightarrow> unat (t_Gas trx) - unat g \<le> 2 * unat (r_GasUsed res))"
    if "unat left \<le> unat g" "finish_trx trx ret err left evm1 = (res, evm')" "r_ConsensusErr ret = None" for left ret err evm1
  proof -
    have le: "left \<le> t_Gas trx" using that(1) g by (simp add: word_le_nat_alt)
    show ?thesis using finish_trx_gas [OF le that(2)] that(1,3) by auto
  qed
  have none: "r_ConsensusErr no_result = None" by (simp add: no_result_def)
  assume a: "start_trx E run trx g evm = Done (res, evm')"
  show "r_GasUsed res \<le> t_Gas trx \<and> (r_ConsensusErr res = None \<longrightarrow> unat (t_Gas trx) - unat g \<le> 2 * unat (r_GasUsed res))"
  proof (cases "t_To trx")
    case None
    with a obtain s ret addr left err evm1 where
      c: "create_1 E run (t_From trx) (t_Input trx) g (t_Value trx) (evm\<lparr>evm_state := s\<rparr>) = Done (ret, addr, left, err, evm1)"
      "finish_trx trx (no_result\<lparr>r_CodeRetval := ret, r_NewContractAddr := addr\<rparr>) err left evm1 = (res, evm')"
      by (auto simp: start_trx_def and_then_Done)
    show ?thesis by (rule fin [OF create_gas(2) [OF run N c(1)] c(2)]) (simp add: none)
  next
    case (Some to_addr)
    with a obtain s ret left err evm1 where
      c: "evm_call E run CALL (ContractAccWrapper (t_From trx)) to_addr (t_Input trx) g (t_Value trx) (evm\<lparr>evm_state := s\<rparr>) =
        Done (ret, left, err, evm1)"
      "finish_trx trx (no_result\<lparr>r_CodeRetval := (case ret of RetFresh b \<Rightarrow> b | RetInput \<Rightarrow> t_Input trx)\<rparr>) err left evm1 = (res, evm')"
      by (auto simp: start_trx_def and_then_Done)
    show ?thesis by (rule fin [OF evm_call_gas(2) [OF run N c(1)] c(2)]) (simp add: none)
  qed
qed

lemma start_trx_le:
  assumes "runner_le run run'"
  shows "fuel_le (start_trx E run trx g evm) (start_trx E run' trx g evm)"
  unfolding start_trx_def by (intro fuel_mono assms)

text \<open>
  The ways of a transaction: it cannot pay for its gas; it fails before anything runs and pays for all its gas; or it calls or
  creates with what the intrinsic gas leaves.
\<close>

lemma evm_Main_cases:
  fixes E trx evm
  defines "E' \<equiv> E\<lparr>env_From := t_From trx, env_GasPrice := t_GasPrice trx\<rparr>" and "fee \<equiv> uint (t_Gas trx) * t_GasPrice trx"
  obtains (poor) b available where "big_div (acc_GetBalance (evm_account (t_From trx) evm)) (t_GasPrice trx) = Some available"
    "acc_GetBalance (evm_account (t_From trx) evm) < fee" "t_GasPrice trx \<noteq> 0" "t_From trx \<noteq> 0"
    "\<And>fuel. evm_Main E fuel trx evm = or_panic (do {
       evm2 \<leftarrow> (if b then bump_nonce E' trx else Some) (upd_ts (acc_SubBalance (t_From trx) (available * t_GasPrice trx)) evm);
       Some (consensusErr no_result (word_of_int available) ErrInsufficientBalanceForGas, evm2) })"
  | (fails) b err where "t_From trx = 0 \<or> BalanceGTE (evm_account (t_From trx) evm) fee"
    "\<And>fuel. evm_Main E fuel trx evm = or_panic (do {
       evm2 \<leftarrow> (if b then bump_nonce E' trx else Some) (upd_ts (acc_SubBalance (t_From trx) fee) evm);
       Some (consensusErr no_result (t_Gas trx) err, evm2) })"
  | (runs) g where "IntrinsicGas (t_Input trx) (t_To trx = None) = Inr g" "g \<le> t_Gas trx" "t_Nonce trx \<ge> acc_GetNonce (evm_account (t_From trx) evm)"
    "t_From trx = 0 \<or> BalanceGTE (evm_account (t_From trx) evm) fee"
    "\<And>fuel. evm_Main E fuel trx evm = start_trx E' (evm_run E' fuel) trx (t_Gas trx - g) (upd_ts (acc_SubBalance (t_From trx) fee) evm)"
proof -
  let ?caller = "evm_account (t_From trx) evm"
  let ?evm1 = "upd_ts (acc_SubBalance (t_From trx) fee) evm"
  show thesis
  proof (cases "t_From trx \<noteq> 0 \<and> \<not> BalanceGTE ?caller fee")
    case p: True
    then have p': "acc_GetBalance ?caller < fee" "t_GasPrice trx \<noteq> 0" "t_From trx \<noteq> 0" by (auto simp: BalanceGTE_def fee_def)
    then obtain available where d: "big_div (acc_GetBalance ?caller) (t_GasPrice trx) = Some available" by (auto simp: big_div_def)
    show thesis
    proof (rule poor [OF d p'])
      show "evm_Main E fuel trx evm = or_panic (do {
          evm2 \<leftarrow> (if t_Nonce trx \<ge> acc_GetNonce ?caller then bump_nonce E' trx else Some)
            (upd_ts (acc_SubBalance (t_From trx) (available * t_GasPrice trx)) evm);
          Some (consensusErr no_result (word_of_int available) ErrInsufficientBalanceForGas, evm2) })" for fuel
        using p d unfolding evm_Main_def Let_def E'_def fee_def by (simp del: add_uminus_conv_diff split: if_split)
    qed
  next
    case rich: False
    then have rich': "t_From trx = 0 \<or> BalanceGTE ?caller fee" by blast
    note main = evm_Main_def [of E _ trx evm, unfolded Let_def, folded fee_def, unfolded if_not_P [OF rich]]
    show thesis
    proof (cases "t_Nonce trx < acc_GetNonce ?caller")
      case True
      show thesis by (rule fails [OF rich', of False ErrNonceTooLow]) (simp add: main True or_panic_def)
    next
      case nonce: False
      show thesis
      proof (cases "IntrinsicGas (t_Input trx) (t_To trx = None)")
        case (Inl err)
        show thesis by (rule fails [OF rich', of True err]) (simp add: main nonce Inl E'_def)
      next
        case (Inr g)
        show thesis
        proof (cases "t_Gas trx < g")
          case True
          show thesis by (rule fails [OF rich', of True ErrIntrinsicGas]) (simp add: main nonce Inr True E'_def)
        next
          case False
          have "g \<le> t_Gas trx" "acc_GetNonce ?caller \<le> t_Nonce trx" using False nonce by auto
          then show thesis by (rule runs [OF Inr _ _ rich']) (simp add: main nonce Inr False E'_def)
        qed
      qed
    qed
  qed
qed

lemma evm_Main_fuel:
  assumes E: "gas_table_ok E" "uint256_conversions (env_U E)" and "unat (t_Gas trx) < fuel" "fuel \<le> fuel'"
  shows "evm_Main E fuel trx evm \<noteq> NoFuel" "evm_Main E fuel' trx evm = evm_Main E fuel trx evm"
proof -
  let ?E = "E\<lparr>env_From := t_From trx, env_GasPrice := t_GasPrice trx\<rparr>"
  have E': "gas_table_ok ?E" "uint256_conversions (env_U ?E)" using E by (simp_all add: gas_table_ok_def)
  have "evm_Main E fuel trx evm \<noteq> NoFuel \<and> fuel_le (evm_Main E fuel trx evm) (evm_Main E fuel' trx evm)"
  proof (cases rule: evm_Main_cases [where E = E and trx = trx and evm = evm])
    case (runs g)
    have "unat (t_Gas trx - g) < fuel" using sub_gas [OF runs(2)] assms(3) by simp
    then show ?thesis unfolding runs(5)
      using start_trx_gas(1) [OF evm_run_bounded [OF E'] _ word_sub_le] start_trx_le [OF evm_run_le [OF assms(4)]] runs(2)
      by (auto simp: word_le_nat_alt sub_gas)
  qed (simp_all add: fuel_le_refl)
  then show "evm_Main E fuel trx evm \<noteq> NoFuel" "evm_Main E fuel' trx evm = evm_Main E fuel trx evm"
    by (auto simp: fuel_le_def)
qed

lemma evm_Main_gas:
  assumes E: "gas_table_ok E" "uint256_conversions (env_U E)" and fuel: "unat (t_Gas trx) < fuel"
    and pos: "0 \<le> acc_GetBalance (evm_account (t_From trx) evm)" "0 \<le> t_GasPrice trx"
    and r: "evm_Main E fuel trx evm = Done (res, evm')"
  shows "r_GasUsed res \<le> t_Gas trx"
    and "r_ConsensusErr res = None \<Longrightarrow> IntrinsicGas (t_Input trx) (t_To trx = None) = Inr g \<Longrightarrow> unat g \<le> 2 * unat (r_GasUsed res)"
proof -
  let ?E = "E\<lparr>env_From := t_From trx, env_GasPrice := t_GasPrice trx\<rparr>"
  have E': "gas_table_ok ?E" "uint256_conversions (env_U ?E)" using E by (simp_all add: gas_table_ok_def)
  have "r_GasUsed res \<le> t_Gas trx \<and> (r_ConsensusErr res = None \<longrightarrow>
      IntrinsicGas (t_Input trx) (t_To trx = None) = Inr g \<longrightarrow> unat g \<le> 2 * unat (r_GasUsed res))"
  proof (cases rule: evm_Main_cases [where E = E and trx = trx and evm = evm])
    case (poor b available)
    let ?b = "acc_GetBalance (evm_account (t_From trx) evm)"
    have p: "0 < t_GasPrice trx" using pos(2) poor(3) by simp
    then have av: "available = ?b div t_GasPrice trx" using poor(1) by simp
    have "?b div t_GasPrice trx * t_GasPrice trx \<le> ?b"
      using pos_mod_sign [OF p, of ?b] div_mult_mod_eq [of ?b "t_GasPrice trx"] by linarith
    then have "available * t_GasPrice trx < uint (t_Gas trx) * t_GasPrice trx" using poor(2) av by simp
    then have lt: "available < uint (t_Gas trx)" using p by (simp add: mult_less_cancel_right_disj)
    moreover have "0 \<le> available" using pos p av by (simp add: pos_imp_zdiv_nonneg_iff)
    ultimately have "uint (word_of_int available :: u64) = available"
      using uint_bounded [of "t_Gas trx"] by (simp add: uint_word_of_int)
    then have "word_of_int available \<le> t_Gas trx" using lt by (simp add: word_le_def)
    then show ?thesis using r poor(5) by (auto simp: bind_Some_iff consensusErr_def)
  next
    case (fails b err)
    then show ?thesis using r by (auto simp: bind_Some_iff consensusErr_def)
  next
    case (runs g')
    have N: "unat (t_Gas trx - g') < fuel" using sub_gas [OF runs(2)] fuel by simp
    have le: "t_Gas trx - g' \<le> t_Gas trx" using sub_gas [OF runs(2)] by (simp only: word_le_nat_alt)
    have "unat (t_Gas trx) - unat (t_Gas trx - g') = unat g'" using runs(2) by (simp add: unat_sub word_le_nat_alt)
    then show ?thesis
      using start_trx_gas(2) [OF evm_run_bounded [OF E'] N le r [unfolded runs(5)]] runs(1) by auto
  qed
  then show "r_GasUsed res \<le> t_Gas trx"
    "r_ConsensusErr res = None \<Longrightarrow> IntrinsicGas (t_Input trx) (t_To trx = None) = Inr g \<Longrightarrow> unat g \<le> 2 * unat (r_GasUsed res)" by simp_all
qed

end
