(* ===== verification/Evm_World.thy ===== *)
theory Evm_World
  imports Evm_Termination
begin

section \<open>What execution can do to the state\<close>

text \<open>
  The interpreter changes the state through few operations. \<open>world_relation\<close> is the interface: a relation between states that
  is reflexive and transitive and that each of these operations, used the way the interpreter uses it, respects. Then every
  run, call and creation respects it. With \<open>ro\<close> the relation has to hold only for what is possible in read-only mode.
\<close>

subsection \<open>Gas functions that leave the state alone\<close>

definition gas_pure :: "gasFunc \<Rightarrow> bool" where
  "gas_pure g \<longleftrightarrow> (\<forall>m ms c m1. g m ms = Some (c, m1) \<longrightarrow> evm_state (m_evm m1) = evm_state (m_evm m))"

lemma gas_pure_generic:
  "gas_pure (constGasFunc k)" "gas_pure (mem_gas rest)" "gas_pure (call_cost E base)"
  "(\<And>x. gas_pure (g x)) \<Longrightarrow> gas_pure (\<lambda>m ms. do { x \<leftarrow> Back i (m_stack m); g x m ms })"
  unfolding gas_pure_def
  by (auto simp: constGasFunc_def bind_Some_iff dest!: mem_gas_fact [where free = True] call_cost_fact)

lemma gas_pure [op_facts]:
  "gas_pure (gasCallDataCopy E)" "gas_pure (gasCodeCopy E)" "gas_pure (gasMcopy E)" "gas_pure (gasReturnDataCopy E)"
  "gas_pure (gasKeccak256 E)" "gas_pure gasMLoad" "gas_pure gasMStore8" "gas_pure gasMStore" "gas_pure gasCreate"
  "gas_pure (gasCreate2 E)" "gas_pure gasReturn" "gas_pure gasRevert" "gas_pure (gasExtCodeCopy E)"
  "gas_pure gasPush" "gas_pure gasDup" "gas_pure gasSwap" "gas_pure (constGasFunc k)"
  unfolding gasCallDataCopy_def gasCodeCopy_def gasMcopy_def gasReturnDataCopy_def memoryCopierGas_def gasKeccak256_def
    gasMLoad_def gasMStore8_def gasMStore_def gasCreate_def gasCreate2_def gasReturn_def gasRevert_def gasExtCodeCopy_def
    gasPush_def gasDup_def gasSwap_def
  by (intro gas_pure_generic)+

lemma gas_pure_more [op_facts]:
  "gas_pure (gasExtCodeHash E)" "gas_pure (gasBalance E)" "gas_pure (gasExtCodeSize E)" "gas_pure (gasSLoad E)" "gas_pure (gasTLoad E)"
  "gas_pure (gasExp E)" "gas_pure (gasCall E)" "gas_pure (gasCallCode E)" "gas_pure (gasDelegateCall E)" "gas_pure (gasStaticCall E)"
  "gas_pure (makeGasLog E n)"
  using gas_pure_generic(2,3)
  by (auto simp: gas_pure_def gasExtCodeHash_def gasBalance_def gasExtCodeSize_def gasSLoad_def gasTLoad_def gasExp_def gasCall_def
      gasCallCode_def gasDelegateCall_def gasStaticCall_def makeGasLog_def bind_Some_iff Let_def split: option.splits)

lemma IncrementNonce_balance [simp]: "acc_GetBalance (ts_accounts (acc_IncrementNonce a s) b) = acc_GetBalance (ts_accounts s b)"
  by (auto simp: acc_IncrementNonce_def put_nonce_def ensure_exists_def register_change_def RegisterChange_def upd_body_def
      upd_account_def acc_GetBalance_def IsNIL_def fresh_body_def Let_def split: option.split)

subsection \<open>The interface\<close>

locale world_relation =
  fixes ro :: bool and I :: "TransitionState \<Rightarrow> bool" and actor :: "address \<Rightarrow> bool"
    and R :: "TransitionState \<Rightarrow> TransitionState \<Rightarrow> bool"
  assumes R_refl: "R s s"
    and R_trans: "I s \<Longrightarrow> R s t \<Longrightarrow> R t u \<Longrightarrow> R s u"
    and R_inv: "I s \<Longrightarrow> R s t \<Longrightarrow> I t"
    and actor_code: "I s \<Longrightarrow> acc_GetCode (ts_accounts s a) \<noteq> [] \<Longrightarrow> actor a"
    and R_touch: "I s \<Longrightarrow> R s (acc_AddBalance a 0 s)"
    and R_transfer: "I s \<Longrightarrow> actor a \<Longrightarrow> 0 \<le> val \<Longrightarrow> (ro \<longrightarrow> val = 0) \<Longrightarrow> a = 0 \<or> BalanceGTE (ts_accounts s a) val \<Longrightarrow>
      R s (transfer a b val s)"
    and R_revert: "I s \<Longrightarrow> R s t \<Longrightarrow> R s (RevertToSnapshot (Snapshot s) t)"
    and R_write: "\<not> ro \<Longrightarrow> I s \<Longrightarrow> R s (acc_SetState a k v s)" "\<not> ro \<Longrightarrow> I s \<Longrightarrow> R s (ts_AddLog l s)"
      "\<not> ro \<Longrightarrow> I s \<Longrightarrow> R s (AddRefund g s)" "\<not> ro \<Longrightarrow> I s \<Longrightarrow> SubRefund g s = Some s' \<Longrightarrow> R s s'"
      "\<not> ro \<Longrightarrow> I s \<Longrightarrow> actor a \<Longrightarrow> R s (acc_Suicide a b s)" "\<not> ro \<Longrightarrow> I s \<Longrightarrow> R s (SetTransientState a h w s)"
      "\<not> ro \<Longrightarrow> I s \<Longrightarrow> R s (acc_IncrementNonce a s)"
    and R_create: "\<not> ro \<Longrightarrow> I s \<Longrightarrow> actor a \<Longrightarrow> acc_GetNonce (ts_accounts s a) = 0 \<Longrightarrow> acc_GetCodeSize (ts_accounts s a) = 0 \<Longrightarrow>
      R (transfer c a val (acc_IncrementNonce a s)) t \<Longrightarrow> R s t \<Longrightarrow> R s (acc_SetCode a code t)"
begin

text \<open>The state that a machine must be in for the relation to say something.\<close>

definition ready :: "bool \<Rightarrow> EVM \<Rightarrow> bool" where
  "ready b evm \<longleftrightarrow> (ro \<longrightarrow> evm_read_only evm \<or> b) \<and> I (evm_state evm)"

definition rel_evm :: "EVM \<Rightarrow> EVM \<Rightarrow> bool" where
  "rel_evm evm evm' \<longleftrightarrow> evm_read_only evm' = evm_read_only evm \<and> evm_depth evm' = evm_depth evm \<and> R (evm_state evm) (evm_state evm')"

lemma rel_evm_refl: "rel_evm evm evm" by (simp add: rel_evm_def R_refl)

lemma rel_evm_trans: "I (evm_state a) \<Longrightarrow> rel_evm a b \<Longrightarrow> rel_evm b c \<Longrightarrow> rel_evm a c"
  by (auto simp: rel_evm_def intro: R_trans)

lemma rel_evm_inv: "I (evm_state a) \<Longrightarrow> rel_evm a b \<Longrightarrow> I (evm_state b)"
  by (auto simp: rel_evm_def intro: R_inv)

lemma rel_evm_ready: "ready x a \<Longrightarrow> rel_evm a b \<Longrightarrow> ready x b"
  using rel_evm_inv by (auto simp: ready_def rel_evm_def)

lemma rel_evm_upd_ts: "R (evm_state evm) (f (evm_state evm)) \<Longrightarrow> rel_evm evm (upd_ts f evm)"
  by (simp add: rel_evm_def upd_ts_def)

lemma rel_evm_revert: "I (evm_state evm) \<Longrightarrow> rel_evm evm evm' \<Longrightarrow> rel_evm evm (upd_ts (RevertToSnapshot (Snapshot (evm_state evm))) evm')"
  by (simp add: rel_evm_def upd_ts_def R_revert)

definition rel_runner :: "runner \<Rightarrow> bool" where
  "rel_runner run \<longleftrightarrow> (\<forall>c b evm ret err g evm'. ready b evm \<longrightarrow> actor (f_Account c) \<longrightarrow> run c b evm = Done (ret, err, g, evm') \<longrightarrow> rel_evm evm evm')"

lemma rel_runnerD: "rel_runner run \<Longrightarrow> ready b evm \<Longrightarrow> actor (f_Account c) \<Longrightarrow> run c b evm = Done (ret, err, g, evm') \<Longrightarrow> rel_evm evm evm'"
  unfolding rel_runner_def by blast

definition rel_precompiles :: "evm_env \<Rightarrow> bool" where
  "rel_precompiles E \<longleftrightarrow> (\<forall>a p frame evm ret err evm'. env_precompiles E a = Some p \<longrightarrow> I (evm_state evm) \<longrightarrow>
     pc_Run p frame evm = Some (ret, err, evm') \<longrightarrow> rel_evm evm evm')"

text \<open>The addresses of new contracts are acceptable.\<close>

definition rel_creates :: "evm_env \<Rightarrow> bool" where
  "rel_creates E \<longleftrightarrow> (\<forall>caller nonce a. CreateAddress (env_keccak E) caller nonce = Some a \<longrightarrow> actor a) \<and>
     (\<forall>caller salt h. actor (CreateAddress2 (env_keccak E) caller salt h))"

lemma call_body_rel:
  assumes "rel_runner run" "rel_precompiles E" and m: "ready b evm"
    and frame: "f_Account frame = callee \<or> actor (f_Account frame)"
    and r: "call_body E run b frame callee evm = Done (ret, g, err, evm')"
  shows "rel_evm evm evm'"
proof (cases "env_precompiles E callee")
  case None
  have I: "I (evm_state evm)" using m by (simp add: ready_def)
  have a: "actor (f_Account frame)" if "acc_GetCode (evm_account callee evm) \<noteq> []" using frame actor_code [OF I that] by auto
  show ?thesis
  proof (cases "acc_GetCode (evm_account callee evm) = []")
    case True
    with r None show ?thesis by (simp add: call_body_def Let_def rel_evm_refl)
  next
    case False
    with r None obtain ret0 where "run (NewContract frame (acc_GetCode (evm_account callee evm))) b evm = Done (ret0, err, g, evm')"
      by (auto simp: call_body_def Let_def and_then_Done)
    then show ?thesis using a False by (intro rel_runnerD [OF assms(1) m]) (simp_all add: NewContract_def)
  qed
next
  case (Some p)
  then show ?thesis using assms unfolding rel_precompiles_def ready_def
    by (auto simp: call_body_def Let_def and_then_Done rel_evm_refl split: if_splits)
qed

lemma call_frame_account:
  "f_Account (call_frame ct caller callee input gas val) = callee \<or> f_Account (call_frame ct caller callee input gas val) = f_Account caller"
  by (simp add: call_frame_def Let_def split: call_type.split)

text \<open>In read-only mode a call must not carry a value. A call that fails ends with a rollback, or did nothing.\<close>

lemma evm_call_rel:
  assumes run: "rel_runner run" "rel_precompiles E" and m: "ready (ct = STATICCALL) evm" and c: "actor (f_Account caller)"
    and val: "0 \<le> val" "ro \<Longrightarrow> ct = CALL \<Longrightarrow> val = 0"
    and r: "evm_call E run ct caller callee input gas val evm = Done (ret, g, err, evm')"
  shows "rel_evm evm evm'"
    and "err \<noteq> None \<Longrightarrow> evm_state evm' = evm_state evm \<or>
      (\<exists>t. R (evm_state evm) t \<and> evm_state evm' = RevertToSnapshot (Snapshot (evm_state evm)) t)"
proof -
  let ?frame = "call_frame ct caller callee input gas val"
  let ?evm1 = "enter_call ct (f_Account caller) callee val evm"
  have I: "I (evm_state evm)" using m by (simp add: ready_def)
  have "rel_evm evm evm' \<and> (err \<noteq> None \<longrightarrow> evm_state evm' = evm_state evm \<or>
      (\<exists>t. R (evm_state evm) t \<and> evm_state evm' = RevertToSnapshot (Snapshot (evm_state evm)) t))"
  proof (cases rule: evm_call_cases [of E run ct caller callee input gas val evm])
    case (early e)
    with r show ?thesis by (auto simp: rel_evm_refl)
  next
    case body
    with r obtain ret0 g0 err0 evm0 where
      b: "call_body E run (ct = STATICCALL) ?frame callee ?evm1 = Done (ret0, g0, err0, evm0)"
      and l: "leave_call E (Snapshot (evm_state evm)) callee (ret0, g0, err0, evm0) = Done (ret, g, err, evm')"
      by (auto simp: and_then_Done)
    have 1: "rel_evm evm ?evm1"
      using body(2) val R_touch [OF I] R_transfer [OF I c]
      by (cases ct) (auto simp: enter_call_def rel_evm_refl intro!: rel_evm_upd_ts)
    have frame: "f_Account ?frame = callee \<or> actor (f_Account ?frame)" using call_frame_account [of ct caller callee input gas val] c by auto
    have "rel_evm ?evm1 evm0" by (rule call_body_rel [OF run rel_evm_ready [OF m 1] frame b])
    then have "rel_evm evm evm0" by (rule rel_evm_trans [OF I 1])
    then show ?thesis using l R_revert [OF I]
      by (auto simp: leave_call_def rel_evm_def upd_ts_def split: if_splits)
  qed
  then show "rel_evm evm evm'"
    and "err \<noteq> None \<Longrightarrow> evm_state evm' = evm_state evm \<or>
      (\<exists>t. R (evm_state evm) t \<and> evm_state evm' = RevertToSnapshot (Snapshot (evm_state evm)) t)" by blast+
qed

lemma evm_create_rel:
  assumes w: "\<not> ro" and run: "rel_runner run" and val: "0 \<le> val" and I: "I (evm_state evm)" and act: "actor caller" "actor addr"
    and r: "evm_create E run caller code gas val addr evm = Done (ret, g, err, evm')"
  shows "rel_evm evm evm'"
proof (cases rule: evm_create_cases [of E run caller code gas val addr evm])
  case (early e)
  with r show ?thesis by (simp add: rel_evm_refl)
next
  case collision
  with r w I show ?thesis by (auto intro: rel_evm_upd_ts R_write)
next
  case (body evm1)
  let ?c = "NewContract \<lparr>f_CallerAccount = caller, f_Account = addr, f_Input = [], f_Gas = gas, f_Value = val\<rparr> code"
  let ?s1 = "evm_state evm1" and ?evm2 = "upd_ts (transfer caller addr val) (upd_ts (acc_IncrementNonce addr) evm1)"
  from r body(2) obtain ret0 err0 g0 evm3 where
    c: "run ?c False ?evm2 = Done (ret0, err0, g0, evm3)"
    and f: "finish_creation (Snapshot ?s1) addr (ret0, err0, g0, evm3) = Done (ret, g, err, evm')"
    by (auto simp: and_then_Done)
  have 1: "rel_evm evm evm1" unfolding body(1) using w I by (intro rel_evm_upd_ts R_write)
  have I1: "I ?s1" by (rule rel_evm_inv [OF I 1])
  have i: "rel_evm evm1 (upd_ts (acc_IncrementNonce addr) evm1)" using w I1 by (intro rel_evm_upd_ts R_write)
  have I2: "I (acc_IncrementNonce addr ?s1)" using rel_evm_inv [OF I1 i] by (simp add: upd_ts_def)
  have guard: "caller = 0 \<or> BalanceGTE (ts_accounts (acc_IncrementNonce addr ?s1) caller) val"
    using body(5) by (simp add: body(1) BalanceGTE_def IncrementNonce_balance upd_ts_def)
  have "rel_evm (upd_ts (acc_IncrementNonce addr) evm1) ?evm2"
    using R_transfer [OF I2 act(1) val _ guard] w by (intro rel_evm_upd_ts) (simp add: upd_ts_def)
  with i have 2: "rel_evm evm1 ?evm2" by (rule rel_evm_trans [OF I1])
  have "ready False ?evm2" unfolding ready_def using w rel_evm_inv [OF I1 2] by blast
  moreover have "actor (f_Account ?c)" using act by (simp add: NewContract_def)
  ultimately have 3: "rel_evm ?evm2 evm3" using c by (rule rel_runnerD [OF run])
  have 4: "rel_evm evm1 evm3" by (rule rel_evm_trans [OF I1 2 3])
  have "R ?s1 (acc_SetCode addr ret0 (evm_state evm3))"
    using R_create [OF w I1 act(2) body(3,4), of caller val "evm_state evm3"] 3 4 by (simp add: rel_evm_def upd_ts_def)
  then have "rel_evm evm1 (upd_ts (acc_SetCode addr ret0) evm3)" using 4 by (simp add: rel_evm_def upd_ts_def)
  then have "rel_evm evm1 evm'"
    using f rel_evm_revert [OF I1 4] by (auto simp: finish_creation_def store_code_def Let_def split: if_splits)
  with 1 show ?thesis by (rule rel_evm_trans [OF I])
qed

lemma create_rel:
  assumes "\<not> ro" "rel_runner run" "0 \<le> val" "I (evm_state evm)" "actor caller" "rel_creates E"
  shows "create_1 E run caller code gas val evm = Done (ret, a, g, err, evm') \<Longrightarrow> rel_evm evm evm'"
    and "create_2 E run caller code gas val salt evm = Done (ret, a, g, err, evm') \<Longrightarrow> rel_evm evm evm'"
proof -
  note create = evm_create_rel [OF assms(1-5)]
  show "create_1 E run caller code gas val evm = Done (ret, a, g, err, evm') \<Longrightarrow> rel_evm evm evm'"
    using assms(6) by (auto simp: create_1_def and_then_Done rel_creates_def intro: create)
  show "create_2 E run caller code gas val salt evm = Done (ret, a, g, err, evm') \<Longrightarrow> rel_evm evm evm'"
    using assms(6) create [of "CreateAddress2 (env_keccak E) caller salt (env_keccak E code)"]
    by (auto simp: create_2_def Let_def and_then_Done rel_creates_def)
qed

subsection \<open>Instructions\<close>

definition rel_machine :: "machine \<Rightarrow> machine \<Rightarrow> bool" where
  "rel_machine m m1 \<longleftrightarrow> rel_evm (m_evm m) (m_evm m1) \<and> f_Account (m_contract m1) = f_Account (m_contract m)"

text \<open>\<open>zero\<close> says that the third operand is a value, which must be 0 in read-only mode.\<close>

definition rel_env :: "evm_env \<Rightarrow> bool" where
  "rel_env E \<longleftrightarrow> rel_precompiles E \<and> rel_creates E \<and> uint256_conversions (env_U E) \<and> gas_table_ok E"

definition start :: "machine \<Rightarrow> bool" where
  "start m \<longleftrightarrow> ready False (m_evm m) \<and> actor (f_Account (m_contract m))"

definition rel_exec :: "evm_env \<Rightarrow> bool \<Rightarrow> bool \<Rightarrow> executionFunc \<Rightarrow> bool" where
  "rel_exec E w zero ex \<longleftrightarrow> (\<forall>run m res err m1. rel_runner run \<longrightarrow> rel_env E \<longrightarrow> start m \<longrightarrow>
     (ro \<longrightarrow> \<not> w) \<longrightarrow> (ro \<longrightarrow> zero \<longrightarrow> m_stack m ! 2 = 0) \<longrightarrow> ex run m = Done (res, err, m1) \<longrightarrow> rel_machine m m1)"

lemma rel_execI:
  assumes "\<And>run m res err m1. rel_runner run \<Longrightarrow> rel_env E \<Longrightarrow> start m \<Longrightarrow> (ro \<Longrightarrow> \<not> w) \<Longrightarrow> (ro \<Longrightarrow> zero \<Longrightarrow> m_stack m ! 2 = 0) \<Longrightarrow>
    ex run m = Done (res, err, m1) \<Longrightarrow> rel_machine m m1"
  shows "rel_exec E w zero ex"
  using assms by (simp add: rel_exec_def)

definition rel_gas :: "bool \<Rightarrow> gasFunc \<Rightarrow> bool" where
  "rel_gas w g \<longleftrightarrow> (\<forall>m ms c m1. g m ms = Some (c, m1) \<longrightarrow> I (evm_state (m_evm m)) \<longrightarrow> (ro \<longrightarrow> \<not> w) \<longrightarrow>
     R (evm_state (m_evm m)) (evm_state (m_evm m1)))"

lemma rel_gas_pure: "gas_pure g \<Longrightarrow> rel_gas w g"
  by (simp add: rel_gas_def gas_pure_def R_refl)

lemma rel_gas_writes: "rel_gas True (gasSStore E)" "rel_gas True (gasSuicide E)"
proof -
  show "rel_gas True (gasSStore E)"
    unfolding rel_gas_def
  proof (intro allI impI)
    fix m ms c m1
    assume "gasSStore E m ms = Some (c, m1)" and "ro \<longrightarrow> \<not> True" and I: "I (evm_state (m_evm m))"
    then have w: "\<not> ro" and e: "gasSStore E m ms = Some (c, m1)" by simp_all
    let ?s = "evm_state (m_evm m)"
    define P where "P t \<longleftrightarrow> R ?s t" for t
    have add: "P (AddRefund y s')" if "P s'" for s' y
      using that R_trans [OF I that [unfolded P_def] R_write(3) [OF w R_inv [OF I that [unfolded P_def]]]] by (simp add: P_def)
    have P: "P ?s" "P (AddRefund x ?s)" "P (AddRefund x (AddRefund y ?s))" for x y
      using add by (auto simp: P_def R_refl)
    have sub: "P s' \<and> (\<forall>y. P (AddRefund y s'))" if "SubRefund x ?s = Some s'" for x s'
      using R_write(4) [OF w I that] add by (auto simp: P_def)
    have "P (evm_state (m_evm m1))"
      using e P unfolding gasSStore_def
      by (auto simp: bind_Some_iff Let_def gas_refund sub_refund_def dest!: sub split: if_splits)
    then show "R ?s (evm_state (m_evm m1))" by (simp add: P_def)
  qed
  show "rel_gas True (gasSuicide E)"
    unfolding rel_gas_def gasSuicide_def by (auto simp: bind_Some_iff Let_def gas_refund intro: R_refl R_write(3) split: if_splits)
qed

lemma rel_local:
  assumes "local_fact False pop push f"
  shows "rel_exec E w zero (local_op f)"
proof (rule rel_execI)
  fix run m res err m1
  assume "local_op f run m = Done (res, err, m1)"
  then have "f m = Some (res, err, m1)" by (simp add: local_op_def)
  with assms have f: "m_contract m1 = m_contract m" "m_evm m1 = (m_evm m)\<lparr>evm_state := evm_state (m_evm m1)\<rparr>"
    "evm_state (m_evm m1) = evm_state (m_evm m)" unfolding local_fact_def by blast+
  have "m_evm m1 = m_evm m" by (subst f(2)) (simp add: f(3))
  then show "rel_machine m m1" by (simp add: rel_machine_def rel_evm_refl f(1))
qed

lemma rel_local_writes:
  "rel_exec E True zero (local_op (opSstore E))" "rel_exec E False zero (local_op (opTstore E))"
  "rel_exec E True zero (local_op (makeLog E n))" "rel_exec E True zero (local_op (opSuicide E))"
  unfolding rel_exec_def rel_machine_def rel_evm_def start_def ready_def local_op_def or_panic_Done opSstore_def opTstore_def makeLog_def opSuicide_def
  by (auto simp: bind_Some_iff op_done_def gas_refund intro: R_refl R_write(1,2,5,6) split: prod.splits if_splits)

lemma finish_call_evm: "finish_call E st inPos args retPos m (ret, g, err, evm) = Done (res, err', m1) \<Longrightarrow>
    m_evm m1 = evm \<and> f_Account (m_contract m1) = f_Account (m_contract m)"
  by (auto simp: finish_call_def bind_Some_iff Let_def)

lemma finish_create_evm: "finish_create E st m (ret, a, g, err, evm) = Done (res, err', m1) \<Longrightarrow>
    m_evm m1 = evm \<and> f_Account (m_contract m1) = f_Account (m_contract m)"
  by (auto simp: finish_create_def Let_def)

lemma rel_value_call:
  assumes z: "ct = CALL \<Longrightarrow> zero"
  shows "rel_exec E w zero (value_call ct E)"
proof (rule rel_execI)
  fix run m res err m1
  assume a: "rel_runner run" "rel_env E" "start m" "ro \<Longrightarrow> zero \<Longrightarrow> m_stack m ! 2 = 0" "value_call ct E run m = Done (res, err, m1)"
  show "rel_machine m m1"
  proof (cases rule: value_call_cases [of ct E run m])
    case panic
    with a show ?thesis by simp
  next
    case (calls addr val inPos args retPos st)
    have E: "rel_precompiles E" "uint256_conversions (env_U E)" using a(2) by (simp_all add: rel_env_def)
    have v: "0 \<le> U_ToBig (env_U E) val" "ro \<Longrightarrow> ct = CALL \<Longrightarrow> U_ToBig (env_U E) val = 0"
      using a(4) calls(1) z by (simp_all add: uint256_conversionsD [OF E(2)])
    have m: "ready (ct = STATICCALL) (m_evm m)" "actor (f_Account (m_contract m))" using a(3) by (auto simp: start_def ready_def)
    show ?thesis using a(5) unfolding calls(2) rel_machine_def
      by (auto simp: and_then_Done dest!: finish_call_evm intro!: evm_call_rel(1) [OF a(1) E(1) m v])
  qed
qed

lemma rel_plain_call: "rel_exec E w zero (plain_call DELEGATECALL E)" "rel_exec E w zero (plain_call STATICCALL E)"
proof -
  have "rel_exec E w zero (plain_call ct E)" if ct: "ct \<noteq> CALL" for ct
  proof (rule rel_execI)
    fix run m res err m1
    assume a: "rel_runner run" "rel_env E" "start m" "plain_call ct E run m = Done (res, err, m1)"
    have E: "rel_precompiles E" using a(2) by (simp add: rel_env_def)
    have m: "ready (ct = STATICCALL) (m_evm m)" "actor (f_Account (m_contract m))" using a(3) by (auto simp: start_def ready_def)
    show "rel_machine m m1"
    proof (cases rule: plain_call_cases [of ct E run m])
      case panic
      with a show ?thesis by simp
    next
      case (calls addr inPos args retPos st)
      show ?thesis using a(4) unfolding calls(1) rel_machine_def
        by (auto simp: and_then_Done dest!: finish_call_evm intro!: evm_call_rel(1) [OF a(1) E m order_refl])
    qed
  qed
  then show "rel_exec E w zero (plain_call DELEGATECALL E)" "rel_exec E w zero (plain_call STATICCALL E)" by simp_all
qed

lemma spend_for_create_account: "spend_for_create m = (gas, m1) \<Longrightarrow> f_Account (m_contract m1) = f_Account (m_contract m)"
  by (auto simp: spend_for_create_def Let_def UseGas_def split: option.splits if_splits)

lemma rel_create_ops: "rel_exec E True zero (opCreate E)" "rel_exec E True zero (opCreate2 E)"
proof -
  show "rel_exec E True zero (opCreate E)"
  proof (rule rel_execI)
    fix run m res err m1
    assume a: "rel_runner run" "rel_env E" "start m" "ro \<Longrightarrow> \<not> True" "opCreate E run m = Done (res, err, m1)"
    have p: "\<not> ro" "I (evm_state (m_evm m))" "actor (f_Account (m_contract m))" "rel_creates E" "0 \<le> U_ToBig (env_U E) v" for v
      using a(2-4) by (auto simp: start_def ready_def rel_env_def uint256_conversionsD)
    show "rel_machine m m1"
    proof (cases rule: opCreate_cases [of E run m])
      case (creates input gas v st m4)
      from a(5) creates(2) obtain ret addr g0 err0 evm0 where
        c: "create_1 E run (f_Account (m_contract m)) input gas (U_ToBig (env_U E) v) (m_evm m) = Done (ret, addr, g0, err0, evm0)"
        and f: "finish_create E st m4 (ret, addr, g0, err0, evm0) = Done (res, err, m1)"
        by (auto simp: and_then_Done)
      show ?thesis using create_rel(1) [OF p(1) a(1) p(5,2,3,4) c] finish_create_evm [OF f] spend_for_create_account [OF creates(1)]
        by (simp add: rel_machine_def)
    qed (use a in simp)
  qed
  show "rel_exec E True zero (opCreate2 E)"
  proof (rule rel_execI)
    fix run m res err m1
    assume a: "rel_runner run" "rel_env E" "start m" "ro \<Longrightarrow> \<not> True" "opCreate2 E run m = Done (res, err, m1)"
    have p: "\<not> ro" "I (evm_state (m_evm m))" "actor (f_Account (m_contract m))" "rel_creates E" "0 \<le> U_ToBig (env_U E) v" for v
      using a(2-4) by (auto simp: start_def ready_def rel_env_def uint256_conversionsD)
    show "rel_machine m m1"
    proof (cases rule: opCreate2_cases [of E run m])
      case (creates input gas v salt st m4)
      from a(5) creates(2) obtain ret addr g0 err0 evm0 where
        c: "create_2 E run (f_Account (m_contract m)) input gas (U_ToBig (env_U E) v) salt (m_evm m) = Done (ret, addr, g0, err0, evm0)"
        and f: "finish_create E st m4 (ret, addr, g0, err0, evm0) = Done (res, err, m1)"
        by (auto simp: and_then_Done)
      show ?thesis using create_rel(2) [OF p(1) a(1) p(5,2,3,4) c] finish_create_evm [OF f] spend_for_create_account [OF creates(1)]
        by (simp add: rel_machine_def)
    qed (use a in simp)
  qed
qed

lemma rel_value_calls: "rel_exec E w True (value_call CALL E)" "rel_exec E w zero (value_call CALLCODE E)"
  by (rule rel_value_call; simp)+

lemmas rel_facts = rel_local_writes rel_create_ops rel_gas_writes rel_plain_call
  rel_value_calls rel_local rel_gas_pure

definition rel_op :: "evm_env \<Rightarrow> byte \<times> operation \<Rightarrow> bool" where
  "rel_op E p = (case p of (b, o1) \<Rightarrow> rel_exec E (op_writes o1) (b = 0xf1) (op_execute o1) \<and> rel_gas (op_writes o1) (op_gasCost o1))"

lemma rel_op_simps:
  "rel_op E (b, entry ex g v) \<longleftrightarrow> rel_exec E False (b = 0xf1) ex \<and> rel_gas False g"
  "rel_op E (b, o1\<lparr>op_writes := w\<rparr>) \<longleftrightarrow> rel_exec E w (b = 0xf1) (op_execute o1) \<and> rel_gas w (op_gasCost o1)"
  "rel_op E (b, o1\<lparr>op_memorySize := x\<rparr>) = rel_op E (b, o1)" "rel_op E (b, o1\<lparr>op_halts := x'\<rparr>) = rel_op E (b, o1)"
  "rel_op E (b, o1\<lparr>op_reverts := x'\<rparr>) = rel_op E (b, o1)" "rel_op E (b, o1\<lparr>op_returns := x'\<rparr>) = rel_op E (b, o1)"
  "rel_op E (b, o1\<lparr>op_jumps := x'\<rparr>) = rel_op E (b, o1)"
  by (simp_all add: rel_op_def entry_def)

lemma op_sels:
  "op_execute (entry ex g v) = ex" "op_gasCost (entry ex g v) = g" "op_execute (o1\<lparr>op_memorySize := x\<rparr>) = op_execute o1"
  "op_gasCost (o1\<lparr>op_memorySize := x\<rparr>) = op_gasCost o1" "op_execute (o1\<lparr>op_halts := x'\<rparr>) = op_execute o1"
  "op_gasCost (o1\<lparr>op_halts := x'\<rparr>) = op_gasCost o1"
  by (simp_all add: entry_def)

lemma table_rel:
  "list_all (rel_op E) (table_byzantium E)" "list_all (rel_op E) (table_arithmetic E)" "list_all (rel_op E) (table_environment E)"
  "list_all (rel_op E) (table_storage E)" "list_all (rel_op E) (table_system E)"
  unfolding table_byzantium_def table_arithmetic_def table_environment_def table_storage_def table_system_def
    opCall_def opCallCode_def opDelegateCall_def opStaticCall_def
  by (simp_all only: list.pred_inject rel_op_simps op_sels simp_thms)
    (rule conjI rel_facts op_facts)+

lemma table_rel_families:
  "list_all (rel_op E) (table_push E)" "list_all (rel_op E) table_dup" "list_all (rel_op E) table_swap" "list_all (rel_op E) (table_log E)"
proof -
  have f: "rel_exec E w z (local_op (makePush E k n))" "rel_exec E w z (local_op (makeDup n))" "rel_exec E w z (local_op (makeSwap n))"
    "rel_exec E True z (local_op (makeLog E n))" for k n w z
    by (rule rel_facts op_facts)+
  then show "list_all (rel_op E) (table_push E)" "list_all (rel_op E) table_dup" "list_all (rel_op E) table_swap"
    "list_all (rel_op E) (table_log E)"
    by (auto simp: table_push_def table_dup_def table_swap_def table_log_def list_all_iff rel_op_simps op_sels rel_gas_pure op_facts)
qed

lemma instruction_rel:
  assumes "instruction_set E op = Some o1"
  shows "rel_op E (op, o1)"
proof -
  have mcopy: "rel_exec E False z (local_op (opMcopy E))" for z by (rule rel_facts op_facts)+
  have "list_all (rel_op E) (if env_IsFicus E then newFicusInstructionSet E else newCalifornicumInstructionSet E)"
    using table_rel [of E] table_rel_families [of E] mcopy
    by (simp add: newFicusInstructionSet_def enable5656_def newCalifornicumInstructionSet_def rel_op_simps rel_gas_pure op_facts)
  moreover have "(op, o1) \<in> set (if env_IsFicus E then newFicusInstructionSet E else newCalifornicumInstructionSet E)"
    using assms unfolding instruction_set_def by (rule map_of_SomeD)
  ultimately show ?thesis unfolding list_all_iff by fast
qed

subsection \<open>The loop\<close>

definition result_machine :: "step_result \<Rightarrow> machine" where
  "result_machine r = (case r of Continue m \<Rightarrow> m | Halt ret err m \<Rightarrow> m)"

lemma exec_step_machine:
  assumes "exec_step run o1 m = Done r"
  obtains res err m1 where "op_execute o1 run m = Done (res, err, m1)" "rel_machine m1 (result_machine r)"
  using assms unfolding exec_step_def and_then_Done Let_def
  by (auto simp: result_machine_def rel_machine_def rel_evm_def R_refl split: if_splits)

lemma rel_machine_trans: "I (evm_state (m_evm a)) \<Longrightarrow> rel_machine a b \<Longrightarrow> rel_machine b c \<Longrightarrow> rel_machine a c"
  by (auto simp: rel_machine_def intro: rel_evm_trans)

lemma rel_machine_start: "start m \<Longrightarrow> rel_machine m m1 \<Longrightarrow> start m1"
  by (auto simp: start_def rel_machine_def intro: rel_evm_ready)

lemma pay_step_rel:
  assumes run: "rel_runner run" and E: "rel_env E" and o1: "instruction_set E op = Some o1" and m: "start m"
    and w: "ro \<longrightarrow> \<not> op_writes o1" "ro \<longrightarrow> op = 0xf1 \<longrightarrow> m_stack m ! 2 = 0" and r: "pay_step E run o1 ms m = Done r"
  shows "rel_machine m (result_machine r)"
proof -
  have I: "I (evm_state (m_evm m))" using m by (simp add: start_def ready_def)
  have rel: "rel_exec E (op_writes o1) (op = 0xf1) (op_execute o1)" "rel_gas (op_writes o1) (op_gasCost o1)"
    using instruction_rel [OF o1] by (simp_all add: rel_op_def)
  from r obtain cost m1 where g: "op_gasCost o1 m ms = Some (cost, m1)" by (auto simp: pay_step_def and_then_Done)
  have "op_sound o1" using E o1 by (auto simp: rel_env_def intro: instruction_sound)
  then have keep: "m_stack m1 = m_stack m" "m_contract m1 = m_contract m"
    "m_evm m1 = (m_evm m)\<lparr>evm_state := evm_state (m_evm m1), call_gas_tmp := call_gas_tmp (m_evm m1)\<rparr>"
    using g unfolding op_sound_def gas_fact_def by blast+
  have flags: "evm_read_only (m_evm m1) = evm_read_only (m_evm m)" "evm_depth (m_evm m1) = evm_depth (m_evm m)"
    by (subst keep(3), simp)+
  have 1: "rel_machine m m1"
    using rel(2) g w(1) flags I keep(2) unfolding rel_gas_def rel_evm_def rel_machine_def by simp
  show ?thesis
  proof (cases "cost \<bind> (\<lambda>c. UseGas c (m_contract m1))")
    case None
    with r g have "r = Halt [] (Some ErrOutOfGas) m1" by (simp add: pay_step_def or_panic_def)
    with 1 show ?thesis by (simp add: result_machine_def)
  next
    case (Some contract)
    let ?m2 = "resize_memory E ms (m1\<lparr>m_contract := contract\<rparr>)"
    from r g Some have "exec_step run o1 ?m2 = Done r" by (simp add: pay_step_def or_panic_def)
    then obtain res err m3 where x: "op_execute o1 run ?m2 = Done (res, err, m3)" "rel_machine m3 (result_machine r)"
      by (rule exec_step_machine)
    have "f_Account contract = f_Account (m_contract m1)" using Some by (auto simp: bind_Some_iff UseGas_def split: if_splits)
    then have "rel_machine m1 ?m2" by (simp add: rel_machine_def rel_evm_def R_refl)
    with 1 have 2: "rel_machine m ?m2" by (rule rel_machine_trans [OF I])
    have "rel_machine ?m2 m3"
      using rel(1) [unfolded rel_exec_def, rule_format, OF run E rel_machine_start [OF m 2] _ _ x(1)] w keep(1) by simp
    then show ?thesis using 2 x(2) rel_machine_trans [OF I] by blast
  qed
qed

lemma step_rel:
  assumes run: "rel_runner run" and E: "rel_env E" and m: "start m" and r: "step E run m = Done r"
  shows "rel_machine m (result_machine r)"
proof (cases "\<exists>ret err. r = Halt ret err m")
  case True
  then show ?thesis by (auto simp: result_machine_def rel_machine_def rel_evm_refl)
next
  case False
  let ?op = "GetOp (m_pc m) (m_contract m)"
  have U: "uint256_conversions (env_U E)" using E by (simp add: rel_env_def)
  from r False obtain o1 ms where o1: "instruction_set E ?op = Some o1" and p: "write_protected E ?op o1 m = Some False"
    and "pay_step E run o1 ms m = Done r"
    unfolding step_def Let_def by (auto simp: and_then_Done split: option.splits if_splits)
  moreover have "ro \<longrightarrow> \<not> op_writes o1" "ro \<longrightarrow> ?op = 0xf1 \<longrightarrow> m_stack m ! 2 = 0"
    using p m by (auto simp: write_protected_def start_def ready_def bind_Some_iff Back_def uint256_conversionsD [OF U] split: if_splits)
  ultimately show ?thesis using pay_step_rel [OF run E o1 m] by blast
qed

lemma run_frame_rel:
  assumes "\<And>m ret err m1. start m \<Longrightarrow> loop m = Done (ret, err, m1) \<Longrightarrow> rel_machine m m1"
  shows "rel_runner (run_frame loop)"
  unfolding rel_runner_def
proof (intro allI impI)
  fix c :: Contract and b evm ret err g evm'
  let ?m = "\<lparr>m_pc = 0, m_evm = evm\<lparr>evm_depth := evm_depth evm + 1, evm_read_only := evm_read_only evm \<or> b, last_retval := []\<rparr>,
     m_contract = c, m_mem = mem_Init (pool_reserved evm), m_stack = []\<rparr>"
  assume m: "ready b evm" "actor (f_Account c)" and "run_frame loop c b evm = Done (ret, err, g, evm')"
  then obtain m1 where l: "loop ?m = Done (ret, err, m1)"
    and e: "evm' = (m_evm m1)\<lparr>evm_depth := evm_depth (m_evm m1) - 1,
      evm_read_only := (if b \<and> \<not> evm_read_only evm then False else evm_read_only (m_evm m1)),
      pool_reserved := mem_Release (m_mem m1) (pool_reserved (m_evm m1))\<rparr>"
    by (auto simp: run_frame_def Let_def and_then_Done)
  have "rel_machine ?m m1" by (rule assms [OF _ l]) (use m in \<open>simp add: start_def ready_def\<close>)
  then show "rel_evm evm evm'" by (auto simp: e rel_machine_def rel_evm_def)
qed

lemma run_loop_rel:
  assumes E: "rel_env E"
  shows "start m \<Longrightarrow> run_loop E fuel m = Done (ret, err, m1) \<Longrightarrow> rel_machine m m1"
proof (induction fuel arbitrary: m ret err m1)
  case (Suc fuel)
  have run: "rel_runner (run_frame (run_loop E fuel))" by (rule run_frame_rel [OF Suc.IH])
  from Suc.prems(2) obtain r where r: "step E (run_frame (run_loop E fuel)) m = Done r"
    and c: "(case r of Continue m1 \<Rightarrow> run_loop E fuel m1 | Halt ret err m1 \<Rightarrow> Done (ret, err, m1)) = Done (ret, err, m1)"
    by (auto simp: and_then_Done)
  have 1: "rel_machine m (result_machine r)" by (rule step_rel [OF run E Suc.prems(1) r])
  show ?case
  proof (cases r)
    case (Continue m2)
    then have 2: "rel_machine m m2" using 1 by (simp add: result_machine_def)
    have "rel_machine m2 m1" using c Continue by (intro Suc.IH rel_machine_start [OF Suc.prems(1) 2]) simp
    with 2 show ?thesis using Suc.prems(1) by (auto simp: start_def ready_def intro: rel_machine_trans)
  qed (use 1 c in \<open>simp add: result_machine_def\<close>)
qed simp

lemma evm_run_rel: "rel_env E \<Longrightarrow> rel_runner (evm_run E fuel)"
  unfolding evm_run_def by (rule run_frame_rel [OF run_loop_rel])

end

end
