(* ===== verification/Evm_Effects.thy ===== *)
theory Evm_Effects
  imports Evm_World
begin

section \<open>The effects of execution\<close>

text \<open>
  Three instances of \<open>world_relation\<close>: everything that execution does can be undone; only the zero address can be overdrawn; in
  read-only mode nothing that a contract can see changes.
\<close>

subsection \<open>What is left alone\<close>

lemmas state_defs = upd_body_def upd_account_def register_change_def RegisterChange_def ensure_exists_def IsNIL_def fresh_body_def

lemma ts_accounts_simps [simp]:
  "ts_accounts (RegisterChange r s) = ts_accounts s" "ts_accounts (AddRefund g s) = ts_accounts s" "ts_accounts (ts_AddLog l s) = ts_accounts s"
  "ts_accounts (SetTransientState a h w s) = ts_accounts s"
  by (simp_all add: RegisterChange_def AddRefund_def ts_AddLog_def SetTransientState_def)

lemma SubRefund_accounts: "SubRefund g s = Some s' \<Longrightarrow> ts_accounts s' = ts_accounts s"
  by (auto simp: SubRefund_def RegisterChange_def split: if_splits)

text \<open>A projection of bodies that the bookkeeping of the journal does not touch.\<close>

definition proj :: "(AccountBody \<Rightarrow> 'a) \<Rightarrow> TransitionState \<Rightarrow> address \<Rightarrow> 'a" where
  "proj f s a = (case acc_body (ts_accounts s a) of None \<Rightarrow> f fresh_body | Some b \<Rightarrow> f b)"

lemma balance_proj: "acc_GetBalance (ts_accounts s a) = proj ab_Balance s a"
  by (simp add: proj_def fresh_body_def acc_GetBalance_def split: option.split)

lemma nonce_proj: "acc_GetNonce (ts_accounts s a) = proj ab_Nonce s a"
  by (simp add: proj_def fresh_body_def acc_GetNonce_def split: option.split)

lemma proj_upd_body:
  "(\<And>b. f (g b) = f b) \<Longrightarrow> proj f (upd_body a g s) = proj f s"
  by (auto simp: proj_def upd_body_def upd_account_def fun_eq_iff split: option.split)

lemma proj_RegisterChange [simp]: "proj f (RegisterChange r s) = proj f s"
  by (simp add: proj_def fun_eq_iff)

definition counts :: "(AccountBody \<Rightarrow> 'a) \<Rightarrow> bool" where
  "counts f \<longleftrightarrow> (\<forall>b n. f (b\<lparr>ab_mod_count := n\<rparr>) = f b) \<and> (\<forall>b n. f (b\<lparr>ab_times_touched := n\<rparr>) = f b)"

lemma proj_register [simp]: "counts f \<Longrightarrow> proj f (register_change a r s) = proj f s"
  by (simp add: register_change_def proj_upd_body counts_def)

lemma proj_fresh: "acc_body (ts_accounts s a) = None \<Longrightarrow>
    proj f (upd_account a (\<lambda>acc. acc\<lparr>acc_body := Some fresh_body, acc_deleted := d\<rparr>) s) = proj f s"
  by (auto simp: proj_def upd_account_def fun_eq_iff)

lemma proj_ensure_exists [simp]: "counts f \<Longrightarrow> proj f (ensure_exists a s) = proj f s"
  by (simp add: ensure_exists_def IsNIL_def proj_fresh)

lemma ensure_exists_body [simp]: "acc_body (ts_accounts (ensure_exists a s) a) \<noteq> None"
  by (auto simp: state_defs)

lemma register_change_body [simp]: "acc_body (ts_accounts (register_change a r s) b) = None \<longleftrightarrow> acc_body (ts_accounts s b) = None"
  by (auto simp: state_defs)

lemma proj_const [simp]: "proj (\<lambda>_. x) s a = x"
  by (simp add: proj_def split: option.split)

lemma proj_upd_at:
  "acc_body (ts_accounts s a) \<noteq> None \<Longrightarrow> proj f (upd_body a g s) = (proj f s)(a := proj (\<lambda>b. f (g b)) s a)"
  by (auto simp: proj_def upd_body_def upd_account_def fun_eq_iff split: option.split)

lemma code_proj: "acc_GetCode (ts_accounts s a) = proj ab_Code s a"
  by (simp add: proj_def fresh_body_def acc_GetCode_def split: option.split)

lemma dirty_proj: "(\<exists>b. acc_body (ts_accounts s a) = Some b \<and> ab_CodeDirty b) \<longleftrightarrow> proj ab_CodeDirty s a"
  by (simp add: proj_def fresh_body_def split: option.split)

lemma counts_fields [simp]:
  "counts ab_Balance" "counts ab_Nonce" "counts ab_Code" "counts ab_CodeDirty" "counts ab_suicided" "counts (body_state db)" "counts (\<lambda>_. x)"
  by (simp_all add: counts_def)

subsection \<open>Projections of the operations\<close>

lemma proj_set_balance:
  "counts f \<Longrightarrow> (\<And>b x. f (b\<lparr>ab_Balance := x\<rparr>) = f b) \<Longrightarrow> proj f (set_balance a x s) = proj f s"
  "acc_body (ts_accounts s a) \<noteq> None \<Longrightarrow> proj ab_Balance (set_balance a x s) = (proj ab_Balance s)(a := x)"
  by (simp_all add: set_balance_def proj_upd_body) (simp add: proj_upd_at)

lemma proj_Balance:
  assumes "counts f" and "\<And>b x. f (b\<lparr>ab_Balance := x\<rparr>) = f b"
  shows "proj f (acc_AddBalance a x s) = proj f s" "proj f (acc_SubBalance a x s) = proj f s" "proj f (transfer a c x s) = proj f s"
proof -
  have t: "proj f (upd_body a (\<lambda>b. b\<lparr>ab_times_touched := ab_times_touched b + 1\<rparr>) s) = proj f s"
    "proj f (upd_body a (\<lambda>b. b\<lparr>ab_mod_count := ab_mod_count b + 1\<rparr>) s) = proj f s" for a s
    using assms(1) by (auto intro!: proj_upd_body simp: counts_def)
  show *: "proj f (acc_AddBalance a x s) = proj f s" "proj f (acc_SubBalance a x s) = proj f s" for a x s
    by (simp_all add: acc_AddBalance_def acc_SubBalance_def Let_def proj_set_balance assms t)
  show "proj f (transfer a c x s) = proj f s" by (simp add: transfer_def *)
qed

lemma balance_Balance:
  "proj ab_Balance (acc_AddBalance a x s) = (proj ab_Balance s)(a := proj ab_Balance s a + x)"
  "proj ab_Balance (acc_SubBalance a x s) = (proj ab_Balance s)(a := proj ab_Balance s a - x)"
proof -
  have t: "proj ab_Balance (upd_body a (\<lambda>b. b\<lparr>ab_times_touched := ab_times_touched b + 1\<rparr>) s) = proj ab_Balance s"
    "proj ab_Balance (upd_body a (\<lambda>b. b\<lparr>ab_mod_count := ab_mod_count b + 1\<rparr>) s) = proj ab_Balance s" for a s
    by (auto intro!: proj_upd_body)
  show "proj ab_Balance (acc_AddBalance a x s) = (proj ab_Balance s)(a := proj ab_Balance s a + x)"
    by (simp add: acc_AddBalance_def Let_def proj_set_balance(2) t balance_proj fun_upd_idem)
  show "proj ab_Balance (acc_SubBalance a x s) = (proj ab_Balance s)(a := proj ab_Balance s a - x)"
    by (simp add: acc_SubBalance_def Let_def proj_set_balance(2) balance_proj fun_upd_idem)
qed

lemma proj_nonce:
  "counts f \<Longrightarrow> (\<And>b x. f (b\<lparr>ab_Nonce := x\<rparr>) = f b) \<Longrightarrow> proj f (acc_IncrementNonce a s) = proj f s"
  "proj ab_Nonce (acc_IncrementNonce a s) = (proj ab_Nonce s)(a := proj ab_Nonce s a + 1)"
  by (simp_all add: acc_IncrementNonce_def put_nonce_def Let_def proj_upd_body proj_upd_at nonce_proj)

lemma proj_SetState:
  assumes "counts f" and "\<And>b x. f (b\<lparr>ab_StorageDirty := x\<rparr>) = f b"
  shows "proj f (acc_SetState a k v s) = proj f s"
  using assms by (simp add: acc_SetState_def Let_def proj_upd_body)

lemma proj_Suicide:
  assumes "counts f" "\<And>b x. f (b\<lparr>ab_Balance := x\<rparr>) = f b" "\<And>b x. f (b\<lparr>ab_suicided := x\<rparr>) = f b"
  shows "proj f (acc_Suicide a c s) = proj f s"
proof -
  have "f (b\<lparr>ab_suicided := True, ab_Balance := 0\<rparr>) = f b" for b using assms(2,3) by metis
  then show ?thesis using assms by (simp add: acc_Suicide_def Let_def proj_upd_body proj_Balance)
qed

lemma balance_Suicide:
  "proj ab_Balance (acc_Suicide a c s) = (if IsNIL (ts_accounts s a) then proj ab_Balance s
     else (proj ab_Balance s)(c := proj ab_Balance s c + proj ab_Balance s a, a := 0))"
proof (cases "IsNIL (ts_accounts s a)")
  case False
  let ?s1 = "acc_AddBalance c (acc_GetBalance (ts_accounts s a)) s"
  have "acc_body (ts_accounts ?s1 a) \<noteq> None" using False by (auto simp: acc_AddBalance_def set_balance_def Let_def state_defs)
  then show ?thesis using False by (simp add: acc_Suicide_def Let_def proj_upd_at balance_Balance balance_proj)
qed (simp add: acc_Suicide_def balance_Balance)

lemma proj_SetCode:
  "counts f \<Longrightarrow> (\<And>b x y. f (b\<lparr>ab_CodeDirty := x, ab_Code := y\<rparr>) = f b) \<Longrightarrow> proj f (acc_SetCode a code s) = proj f s"
  "proj ab_Code (acc_SetCode a code s) = (if code = [] then proj ab_Code s else (proj ab_Code s)(a := code))"
  "proj ab_CodeDirty (acc_SetCode a code s) = (if code = [] then proj ab_CodeDirty s else (proj ab_CodeDirty s)(a := True))"
  by (simp_all add: acc_SetCode_def Let_def proj_upd_body proj_upd_at)

lemma same_state_at:
  assumes "same_state s t" and "\<And>b c. same_body (ts_db s a) b c \<Longrightarrow> f b = f c"
  shows "proj f s a = proj f t a"
proof -
  have "rel_option (same_body (ts_db s a)) (acc_body (ts_accounts s a)) (acc_body (ts_accounts t a))"
    using assms(1) unfolding same_state_def same_account_def by blast
  then show ?thesis using assms(2) by (auto simp: proj_def split: option.split)
qed

lemma same_state_proj:
  assumes "same_state s t"
  shows "proj ab_Balance s = proj ab_Balance t" "proj ab_Nonce s = proj ab_Nonce t" "proj ab_Code s = proj ab_Code t"
    "proj ab_CodeDirty s = proj ab_CodeDirty t" "proj (body_state (ts_db s a)) s a = proj (body_state (ts_db t a)) t a"
proof -
  show "proj ab_Balance s = proj ab_Balance t" "proj ab_Nonce s = proj ab_Nonce t" "proj ab_Code s = proj ab_Code t"
    "proj ab_CodeDirty s = proj ab_CodeDirty t"
    by (intro ext same_state_at [OF assms]; simp add: same_body_def)+
  have "ts_db s = ts_db t" using assms by (simp add: same_state_def)
  moreover have "proj (body_state (ts_db s a)) s a = proj (body_state (ts_db s a)) t a"
    by (rule same_state_at [OF assms]) (simp add: same_body_def)
  ultimately show "proj (body_state (ts_db s a)) s a = proj (body_state (ts_db t a)) t a" by simp
qed

subsection \<open>Everything can be undone\<close>

text \<open>
  An account without a transaction or creation has no code that was set in this transaction, and the size of its code fits in 64 bits.
  \<open>SetCode\<close> can only be undone for an account without code: \<open>create\<close> checks this before the code of the creation runs, and an
  account with a nonce keeps its code.
\<close>

definition code_ok :: "TransitionState \<Rightarrow> bool" where
  "code_ok s \<longleftrightarrow> (\<forall>a. proj ab_Nonce s a \<le> 0 \<longrightarrow> \<not> proj ab_CodeDirty s a \<and> length (proj ab_Code s a) < 2 ^ 64)"

definition keeps_code :: "TransitionState \<Rightarrow> TransitionState \<Rightarrow> bool" where
  "keeps_code s t \<longleftrightarrow> (\<forall>a. 0 < proj ab_Nonce s a \<longrightarrow>
     0 < proj ab_Nonce t a \<and> proj ab_Code t a = proj ab_Code s a \<and> proj ab_CodeDirty t a = proj ab_CodeDirty s a)"

definition undoable :: "TransitionState \<Rightarrow> TransitionState \<Rightarrow> bool" where
  "undoable s t \<longleftrightarrow> (code_ok s \<longrightarrow> reversible_change s t \<and> code_ok t \<and> keeps_code s t)"

lemma undoable_refl: "undoable s s"
  by (simp add: undoable_def keeps_code_def journal.reversible_refl)

lemma undoable_trans: "undoable s t \<Longrightarrow> undoable t u \<Longrightarrow> undoable s u"
  unfolding undoable_def keeps_code_def by (auto intro: journal.reversible_trans)

lemma undoable_same:
  assumes "reversible_change s t" "proj ab_Nonce t = proj ab_Nonce s" "proj ab_Code t = proj ab_Code s"
    "proj ab_CodeDirty t = proj ab_CodeDirty s"
  shows "undoable s t"
  using assms by (simp add: undoable_def code_ok_def keeps_code_def)

lemma proj_accounts: "ts_accounts t = ts_accounts s \<Longrightarrow> proj f t = proj f s"
  by (simp add: proj_def fun_eq_iff)

lemma undoable_ops:
  "undoable s (acc_AddBalance a x s)" "undoable s (acc_SubBalance a x s)" "undoable s (transfer a b x s)"
  "undoable s (acc_SetState a k v s)" "undoable s (ts_AddLog l s)" "undoable s (AddRefund g s)" "SubRefund g s = Some s' \<Longrightarrow> undoable s s'"
  "undoable s (acc_Suicide a b s)" "undoable s (SetTransientState a h w s)"
proof -
  show "undoable s (acc_AddBalance a x s)" "undoable s (acc_SubBalance a x s)" for a x s
    by (rule undoable_same; simp add: AddBalance_reversible SubBalance_reversible proj_Balance)+
  then show "undoable s (transfer a b x s)" unfolding transfer_def by (rule undoable_trans [rotated])
  show "undoable s (acc_SetState a k v s)" by (rule undoable_same; simp add: SetState_reversible proj_SetState)
  show "undoable s (acc_Suicide a b s)" by (rule undoable_same; simp add: Suicide_reversible proj_Suicide)
  show "undoable s (ts_AddLog l s)" "undoable s (AddRefund g s)" "undoable s (SetTransientState a h w s)"
    by (intro undoable_same proj_accounts; simp add: state_reversible SetTransientState_reversible)+
  show "SubRefund g s = Some s' \<Longrightarrow> undoable s s'"
    by (intro undoable_same proj_accounts; simp add: state_reversible SubRefund_accounts)
qed

lemma undoable_nonce: "undoable s (acc_IncrementNonce a s)"
  by (auto simp: undoable_def nonce_reversible code_ok_def keeps_code_def proj_nonce)

lemma revert_same:
  assumes "undoable s t" "code_ok s"
  shows "same_state (RevertToSnapshot (Snapshot s) t) s" "ts_reverts (RevertToSnapshot (Snapshot s) t) = ts_reverts s"
  using assms by (simp_all add: undoable_def RevertToSnapshot_restores)

lemma undoable_revert:
  assumes "undoable s t"
  shows "undoable s (RevertToSnapshot (Snapshot s) t)"
proof (cases "code_ok s")
  case True
  note r = revert_same [OF assms True]
  show ?thesis using journal.reversible_silent [OF r(2,1)] same_state_proj [OF r(1)] by (intro undoable_same)
qed (simp add: undoable_def)

lemma undoable_create:
  assumes n: "acc_GetNonce (ts_accounts s a) = 0" "acc_GetCodeSize (ts_accounts s a) = 0"
    and t: "undoable (transfer c a val (acc_IncrementNonce a s)) t" and st: "undoable s t"
  shows "undoable s (acc_SetCode a code t)"
proof (cases "code_ok s")
  case ok: True
  let ?u = "transfer c a val (acc_IncrementNonce a s)"
  have u: "code_ok ?u" using undoable_trans [OF undoable_nonce undoable_ops(3)] ok unfolding undoable_def by blast
  have p: "proj ab_Nonce ?u a = 1" "proj ab_Code ?u = proj ab_Code s" "proj ab_CodeDirty ?u = proj ab_CodeDirty s"
    using n(1) by (simp_all add: proj_Balance proj_nonce nonce_proj)
  have s: "\<not> proj ab_CodeDirty s a" "proj ab_Code s a = []"
  proof -
    have "length (proj ab_Code s a) < 2 ^ 64" "\<not> proj ab_CodeDirty s a" using ok n(1) by (auto simp: code_ok_def nonce_proj)
    then show "\<not> proj ab_CodeDirty s a" "proj ab_Code s a = []"
      using n(2) unat_of_nat_small [of "length (proj ab_Code s a)", where 'a = 64] by (auto simp: acc_GetCodeSize_def code_proj)
  qed
  have t': "code_ok t" "0 < proj ab_Nonce t a" "proj ab_Code t a = []" "\<not> proj ab_CodeDirty t a"
    using t u p s unfolding undoable_def keeps_code_def by auto
  have "reversible_change t (acc_SetCode a code t)"
    using t'(3,4) by (intro SetCode_reversible) (auto simp: code_proj dirty_proj [symmetric])
  then have rev: "reversible_change s (acc_SetCode a code t)"
    using st ok journal.reversible_trans unfolding undoable_def by blast
  have nonce: "proj ab_Nonce (acc_SetCode a code t) = proj ab_Nonce t" by (simp add: proj_SetCode)
  have "proj ab_Nonce s a = 0" using n(1) by (simp add: nonce_proj)
  then show ?thesis
    using rev st ok t' nonce unfolding undoable_def keeps_code_def code_ok_def by (auto simp: proj_SetCode)
qed (simp add: undoable_def)

lemmas undoable_intros = undoable_refl undoable_trans undoable_ops undoable_nonce undoable_revert undoable_create

interpretation undo_world: world_relation False code_ok "\<lambda>_. True" undoable
  by unfold_locales
    (blast intro: undoable_intros | simp add: undoable_def)+

subsection \<open>No coin is made\<close>

definition total_balance :: "TransitionState \<Rightarrow> int" where
  "total_balance s = sum (proj ab_Balance s) UNIV"

definition funds_ok :: "TransitionState \<Rightarrow> bool" where
  "funds_ok s \<longleftrightarrow> code_ok s \<and> (\<forall>a. 0 \<le> proj ab_Balance s a) \<and> proj ab_Code s 0 = []"

definition keeps_funds :: "TransitionState \<Rightarrow> TransitionState \<Rightarrow> bool" where
  "keeps_funds s t \<longleftrightarrow> undoable s t \<and> (funds_ok s \<longrightarrow> funds_ok t \<and> total_balance t \<le> total_balance s)"

lemma sum_update: "sum (f(x := y)) UNIV = sum f UNIV - f x + (y :: int)" for f :: "address \<Rightarrow> int"
proof -
  have "sum (f(x := y)) (UNIV - {x}) = sum f (UNIV - {x})" by (intro sum.cong) auto
  then show ?thesis using sum.remove [of UNIV x f] sum.remove [of UNIV x "f(x := y)"] by simp
qed

lemma total_ops:
  "total_balance (acc_AddBalance a x s) = total_balance s + x" "total_balance (acc_SubBalance a x s) = total_balance s - x" "total_balance (transfer a b x s) = total_balance s"
  by (simp_all add: total_balance_def transfer_def balance_Balance sum_update del: fun_upd_apply)

lemma keeps_funds_same:
  assumes "undoable s t" "proj ab_Balance t = proj ab_Balance s" "proj ab_Code t = proj ab_Code s"
  shows "keeps_funds s t"
  using assms by (auto simp: keeps_funds_def funds_ok_def total_balance_def undoable_def)

lemma keeps_funds_trans: "keeps_funds s t \<Longrightarrow> keeps_funds t u \<Longrightarrow> keeps_funds s u"
  unfolding keeps_funds_def using undoable_trans by fastforce

lemma keeps_funds_transfer:
  assumes "a \<noteq> 0" "0 \<le> x" "a = 0 \<or> BalanceGTE (ts_accounts s a) x"
  shows "keeps_funds s (transfer a b x s)"
proof -
  have "0 \<le> proj ab_Balance (transfer a b x s) c" if "\<forall>a. 0 \<le> proj ab_Balance s a" for c
    using that assms by (auto simp: transfer_def balance_Balance BalanceGTE_def balance_proj)
  then show ?thesis
    using undoable_ops(3) [of s a b x] by (auto simp: keeps_funds_def funds_ok_def total_ops undoable_def proj_Balance)
qed

lemma keeps_funds_Suicide: "keeps_funds s (acc_Suicide a b s)"
proof -
  have t: "total_balance (acc_Suicide a b s) \<le> total_balance s" if "\<forall>a. 0 \<le> proj ab_Balance s a"
  proof (cases "IsNIL (ts_accounts s a)")
    case False
    have "0 \<le> proj ab_Balance s a" "0 \<le> proj ab_Balance s b" using that by blast+
    then show ?thesis using False unfolding total_balance_def balance_Suicide if_not_P [OF False] sum_update by simp
  qed (simp add: total_balance_def balance_Suicide)
  have "0 \<le> proj ab_Balance (acc_Suicide a b s) c" if "\<forall>a. 0 \<le> proj ab_Balance s a" for c
    using that by (auto simp: balance_Suicide)
  then show ?thesis
    using undoable_ops(8) [of s a b] t by (auto simp: keeps_funds_def funds_ok_def undoable_def proj_Suicide)
qed

lemma keeps_funds_create:
  assumes "a \<noteq> 0" "undoable s (acc_SetCode a code t)" "keeps_funds s t"
  shows "keeps_funds s (acc_SetCode a code t)"
  using assms by (auto simp: keeps_funds_def funds_ok_def undoable_def total_balance_def proj_SetCode)

lemma keeps_funds_revert:
  assumes "code_ok s" "keeps_funds s t"
  shows "keeps_funds s (RevertToSnapshot (Snapshot s) t)"
proof -
  have u: "undoable s t" using assms by (simp add: keeps_funds_def)
  show ?thesis using same_state_proj [OF revert_same(1) [OF u assms(1)]] by (intro keeps_funds_same undoable_revert u)
qed

interpretation fund_world: world_relation False funds_ok "\<lambda>a. a \<noteq> 0" keeps_funds
proof
  show "keeps_funds s s" for s by (intro keeps_funds_same undoable_refl) simp_all
  show "keeps_funds s t \<Longrightarrow> keeps_funds t u \<Longrightarrow> keeps_funds s u" for s t u by (rule keeps_funds_trans)
  show "funds_ok s \<Longrightarrow> keeps_funds s t \<Longrightarrow> funds_ok t" for s t by (simp add: keeps_funds_def)
  show "funds_ok s \<Longrightarrow> acc_GetCode (ts_accounts s a) \<noteq> [] \<Longrightarrow> a \<noteq> 0" for s a by (auto simp: funds_ok_def code_proj)
  show "keeps_funds s (acc_AddBalance a 0 s)" for s a
    by (intro keeps_funds_same undoable_ops) (simp_all add: balance_Balance proj_Balance)
  show "funds_ok s \<Longrightarrow> keeps_funds s t \<Longrightarrow> keeps_funds s (RevertToSnapshot (Snapshot s) t)" for s t
    by (intro keeps_funds_revert) (simp add: funds_ok_def)
  show "keeps_funds s (acc_SetState a k v s)" for s a k v
    by (intro keeps_funds_same undoable_ops) (simp_all add: proj_SetState)
  show "keeps_funds s (ts_AddLog l s)" "keeps_funds s (AddRefund g s)" "keeps_funds s (SetTransientState a h w s)" for s l g a h w
    by (intro keeps_funds_same undoable_ops proj_accounts; simp)+
  show "SubRefund g s = Some s' \<Longrightarrow> keeps_funds s s'" for g s s'
    by (intro keeps_funds_same undoable_ops(7) proj_accounts SubRefund_accounts)
  show "keeps_funds s (acc_IncrementNonce a s)" for s a
    by (intro keeps_funds_same undoable_nonce) (simp_all add: proj_nonce)
  show "keeps_funds s (acc_Suicide a b s)" for s a b by (rule keeps_funds_Suicide)
  show "a \<noteq> 0 \<Longrightarrow> 0 \<le> val \<Longrightarrow> a = 0 \<or> BalanceGTE (ts_accounts s a) val \<Longrightarrow> keeps_funds s (transfer a b val s)" for s a b val
    by (rule keeps_funds_transfer)
  show "keeps_funds s (acc_SetCode a code t)" if "a \<noteq> 0" "acc_GetNonce (ts_accounts s a) = 0" "acc_GetCodeSize (ts_accounts s a) = 0"
    "keeps_funds (transfer c a val (acc_IncrementNonce a s)) t" "keeps_funds s t" for s a c val t code
  proof (rule keeps_funds_create [OF that(1) _ that(5)])
    show "undoable s (acc_SetCode a code t)" by (rule undoable_create [OF that(2,3), of c val]) (use that in \<open>simp_all add: keeps_funds_def\<close>)
  qed
qed

subsection \<open>Read-only mode\<close>

text \<open>
  What contracts can see of the state. A touch may give an account without a body an empty one, which reads the same.
\<close>

definition same_view :: "TransitionState \<Rightarrow> TransitionState \<Rightarrow> bool" where
  "same_view s t \<longleftrightarrow> proj ab_Balance t = proj ab_Balance s \<and> proj ab_Nonce t = proj ab_Nonce s \<and> proj ab_Code t = proj ab_Code s \<and>
     (\<forall>a. proj (body_state (ts_db t a)) t a = proj (body_state (ts_db s a)) s a) \<and> ts_logs t = ts_logs s \<and> ts_refund t = ts_refund s \<and>
     ts_transientStorage t = ts_transientStorage s"

definition only_reads :: "TransitionState \<Rightarrow> TransitionState \<Rightarrow> bool" where
  "only_reads s t \<longleftrightarrow> undoable s t \<and> (code_ok s \<longrightarrow> same_view s t)"

lemma state_proj: "acc_GetState (ts_db s a) (ts_accounts s a) k = proj (body_state (ts_db s a)) s a k"
  by (simp add: proj_def acc_GetState_def fresh_body_def body_state_def body_committed_def split: option.split)

lemma ts_same [simp]:
  "ts_logs (upd_body a g s) = ts_logs s" "ts_refund (upd_body a g s) = ts_refund s" "ts_transientStorage (upd_body a g s) = ts_transientStorage s"
  "ts_logs (register_change a r s) = ts_logs s" "ts_refund (register_change a r s) = ts_refund s"
  "ts_transientStorage (register_change a r s) = ts_transientStorage s"
  "ts_logs (ensure_exists a s) = ts_logs s" "ts_refund (ensure_exists a s) = ts_refund s" "ts_transientStorage (ensure_exists a s) = ts_transientStorage s"
  "ts_db (ensure_exists a s) = ts_db s"
  by (simp_all add: state_defs)

lemma touch_view: "same_view s (acc_AddBalance a 0 s)" "same_view s (acc_SubBalance a 0 s)"
proof -
  have db: "ts_db (acc_AddBalance a 0 s) = ts_db s" "ts_db (acc_SubBalance a 0 s) = ts_db s"
    by (simp_all add: acc_AddBalance_def acc_SubBalance_def Let_def)
  show "same_view s (acc_AddBalance a 0 s)" "same_view s (acc_SubBalance a 0 s)"
    by (simp_all add: same_view_def db proj_Balance balance_Balance) (simp_all add: acc_AddBalance_def acc_SubBalance_def Let_def)
qed

lemma same_view_trans: "same_view s t \<Longrightarrow> same_view t u \<Longrightarrow> same_view s u"
  by (simp add: same_view_def)

lemma undo_transient: "ts_transientStorage (undo r s) = ts_transientStorage s"
  by (cases r) (simp_all add: upd_account_def)

lemma revert_transient: "ts_transientStorage (RevertToSnapshot n s) = ts_transientStorage s"
proof -
  have "ts_transientStorage (undo_all rs s) = ts_transientStorage s" for rs s
    by (induction rs arbitrary: s) (simp_all add: undo_transient)
  then show ?thesis by (simp add: RevertToSnapshot_def Let_def)
qed

lemma same_state_view:
  "same_state s t \<Longrightarrow> ts_transientStorage s = ts_transientStorage t \<Longrightarrow> same_view s t"
  using same_state_proj [of s t] by (simp add: same_view_def) (simp add: same_state_def)

lemma only_reads_revert:
  assumes "code_ok s" "only_reads s t"
  shows "only_reads s (RevertToSnapshot (Snapshot s) t)"
proof -
  have u: "undoable s t" and v: "ts_transientStorage t = ts_transientStorage s"
    using assms by (simp_all add: only_reads_def same_view_def)
  show ?thesis
    using same_state_view [OF same_state_sym [OF revert_same(1) [OF u assms(1)]]] v undoable_revert [OF u]
    by (simp add: only_reads_def revert_transient)
qed

interpretation read_world: world_relation True code_ok "\<lambda>_. True" only_reads
proof
  show "only_reads s s" for s by (simp add: only_reads_def undoable_refl same_view_def)
  show "code_ok s \<Longrightarrow> only_reads s t \<Longrightarrow> only_reads t u \<Longrightarrow> only_reads s u" for s t u
    unfolding only_reads_def by (meson undoable_def undoable_trans same_view_trans)
  show "code_ok s \<Longrightarrow> only_reads s t \<Longrightarrow> code_ok t" for s t by (simp add: only_reads_def undoable_def)
  show "only_reads s (acc_AddBalance a 0 s)" for s a by (simp add: only_reads_def undoable_ops touch_view)
  show "(True \<longrightarrow> val = 0) \<Longrightarrow> only_reads s (transfer a b val s)" for s a b val
    using undoable_ops(3) [of s a b val] same_view_trans [OF touch_view(2) touch_view(1), of s b a]
    by (simp add: only_reads_def transfer_def)
  show "code_ok s \<Longrightarrow> only_reads s t \<Longrightarrow> only_reads s (RevertToSnapshot (Snapshot s) t)" for s t by (rule only_reads_revert)
qed simp_all

end
