(* ===== verification/Evm_Transaction.thy ===== *)
theory Evm_Transaction
  imports Evm_Effects
begin

section \<open>What a transaction costs\<close>

text \<open>
  \<open>EVM.Main\<close>: the sender pays for the gas, the rest of the gas is paid back, and nothing else makes or destroys coins but
  an account that kills itself in its own favour.
\<close>

lemma SetNonce_funds:
  assumes "acc_SetNonce a x s = Some s'"
  shows "keeps_funds s s'"
proof -
  let ?s = "ensure_exists a s"
  from assms have x: "proj ab_Nonce s a \<le> x" and s': "s' = put_nonce a x ?s"
    by (auto simp: acc_SetNonce_def Let_def nonce_proj split: if_splits)
  have n: "proj ab_Nonce s' = (proj ab_Nonce s)(a := x)" unfolding s' put_nonce_def by (simp add: proj_upd_at)
  have same: "proj f s' = proj f s" if "counts f" "\<And>b y. f (b\<lparr>ab_Nonce := y\<rparr>) = f b" for f :: "AccountBody \<Rightarrow> 'x"
    unfolding s' put_nonce_def using that by (simp add: proj_upd_body)
  have "undoable s s'"
    using nonce_reversible(2) [OF assms] x unfolding undoable_def code_ok_def keeps_code_def n by (auto simp: same)
  then show ?thesis by (rule keeps_funds_same) (simp_all add: same)
qed

lemma SubBalance_funds:
  assumes "funds_ok s" "x \<le> proj ab_Balance s a"
  shows "funds_ok (acc_SubBalance a x s)" "total_balance (acc_SubBalance a x s) = total_balance s - x"
  using assms undoable_ops(2) [of s a x] by (auto simp: funds_ok_def undoable_def total_ops balance_Balance proj_Balance)

lemma AddBalance_funds:
  assumes "funds_ok s" "0 \<le> x"
  shows "funds_ok (acc_AddBalance a x s)" "total_balance (acc_AddBalance a x s) = total_balance s + x"
  using assms undoable_ops(1) [of s a x] by (auto simp: funds_ok_def undoable_def total_ops balance_Balance proj_Balance)

lemma finish_trx_funds:
  assumes f: "funds_ok (evm_state evm)" and p: "0 \<le> t_GasPrice trx" and left: "left \<le> t_Gas trx"
    and r: "finish_trx trx ret err left evm = (res, evm')"
  shows "funds_ok (evm_state evm')"
    "total_balance (evm_state evm') \<le> total_balance (evm_state evm) + (uint (t_Gas trx) - uint (r_GasUsed res)) * t_GasPrice trx"
proof -
  let ?l = "left + MinU64 (ts_refund (evm_state evm)) ((t_Gas trx - left) div 2)"
  have "funds_ok (evm_state evm') \<and>
    total_balance (evm_state evm') \<le> total_balance (evm_state evm) + (uint (t_Gas trx) - uint (r_GasUsed res)) * t_GasPrice trx"
  proof (cases "err = Some ErrInsufficientBalanceForTransfer")
    case True
    then show ?thesis using r f by (auto simp: finish_trx_def consensusErr_def)
  next
    case False
    then have res: "r_GasUsed res = t_Gas trx - ?l" "evm' = upd_ts (acc_AddBalance (t_From trx) (uint ?l * t_GasPrice trx)) evm"
      using r by (auto simp: finish_trx_def Let_def)
    have "r_GasUsed res \<le> t_Gas trx" by (rule finish_trx_gas(1) [OF left r])
    then have "?l \<le> t_Gas trx" unfolding res(1) by (simp add: word_sub_le_iff)
    then have u: "uint (t_Gas trx) - uint (r_GasUsed res) = uint ?l" unfolding res(1) by (simp add: uint_sub_if' word_le_def)
    have "0 \<le> uint ?l * t_GasPrice trx" using p by simp
    then show ?thesis unfolding u res(2) using AddBalance_funds [OF f] by (simp add: upd_ts_def)
  qed
  then show "funds_ok (evm_state evm')"
    "total_balance (evm_state evm') \<le> total_balance (evm_state evm) + (uint (t_Gas trx) - uint (r_GasUsed res)) * t_GasPrice trx" by simp_all
qed

lemma start_trx_funds:
  assumes E: "fund_world.rel_env E" and N: "unat g < fuel" and g: "g \<le> t_Gas trx"
    and p: "0 \<le> t_GasPrice trx" "0 \<le> t_Value trx" "t_From trx \<noteq> 0" and f: "funds_ok (evm_state evm)"
    and r: "start_trx E (evm_run E fuel) trx g evm = Done (res, evm')"
  shows "funds_ok (evm_state evm')"
    "total_balance (evm_state evm') \<le> total_balance (evm_state evm) + (uint (t_Gas trx) - uint (r_GasUsed res)) * t_GasPrice trx"
proof -
  have E': "gas_table_ok E" "uint256_conversions (env_U E)" "fund_world.rel_precompiles E" "fund_world.rel_creates E"
    using E by (simp_all add: fund_world.rel_env_def)
  note run = fund_world.evm_run_rel [OF E] and gas = evm_run_bounded [OF E'(1,2)]
  have fin: "funds_ok (evm_state evm') \<and> total_balance (evm_state evm') \<le>
      total_balance (evm_state evm) + (uint (t_Gas trx) - uint (r_GasUsed res)) * t_GasPrice trx"
    if "acc_SetNonce (t_From trx) x (evm_state evm) = Some s" "unat left \<le> unat g" "fund_world.rel_evm (evm\<lparr>evm_state := s\<rparr>) evm1"
      "finish_trx trx ret err left evm1 = (res, evm')" for x s left evm1 ret err
  proof -
    have k: "funds_ok s" "total_balance s \<le> total_balance (evm_state evm)"
      using SetNonce_funds [OF that(1)] f by (simp_all add: keeps_funds_def)
    then have k1: "funds_ok (evm_state evm1)" "total_balance (evm_state evm1) \<le> total_balance s"
      using that(3) by (simp_all add: fund_world.rel_evm_def keeps_funds_def)
    have "left \<le> t_Gas trx" using that(2) g by (simp add: word_le_nat_alt)
    from finish_trx_funds [OF k1(1) p(1) this that(4)] show ?thesis using k k1 by simp
  qed
  have ok: "funds_ok s" if "acc_SetNonce (t_From trx) x (evm_state evm) = Some s" for x s
    using SetNonce_funds [OF that] f by (simp add: keeps_funds_def)
  have "funds_ok (evm_state evm') \<and> total_balance (evm_state evm') \<le>
      total_balance (evm_state evm) + (uint (t_Gas trx) - uint (r_GasUsed res)) * t_GasPrice trx"
  proof (cases "t_To trx")
    case None
    with r obtain s ret addr left err evm1 where
      c: "acc_SetNonce (t_From trx) (t_Nonce trx) (evm_state evm) = Some s"
      "create_1 E (evm_run E fuel) (t_From trx) (t_Input trx) g (t_Value trx) (evm\<lparr>evm_state := s\<rparr>) = Done (ret, addr, left, err, evm1)"
      "finish_trx trx (no_result\<lparr>r_CodeRetval := ret, r_NewContractAddr := addr\<rparr>) err left evm1 = (res, evm')"
      by (auto simp: start_trx_def and_then_Done)
    have "fund_world.rel_evm (evm\<lparr>evm_state := s\<rparr>) evm1"
      by (rule fund_world.create_rel(1) [OF _ run p(2) _ p(3) E'(4) c(2)]) (use ok [OF c(1)] in simp_all)
    then show ?thesis by (rule fin [OF c(1) create_gas(2) [OF gas N c(2)] _ c(3)])
  next
    case (Some to_addr)
    with r obtain s ret left err evm1 where
      c: "acc_SetNonce (t_From trx) (t_Nonce trx + 1) (evm_state evm) = Some s"
      "evm_call E (evm_run E fuel) CALL (ContractAccWrapper (t_From trx)) to_addr (t_Input trx) g (t_Value trx) (evm\<lparr>evm_state := s\<rparr>) =
        Done (ret, left, err, evm1)"
      "finish_trx trx (no_result\<lparr>r_CodeRetval := (case ret of RetFresh b \<Rightarrow> b | RetInput \<Rightarrow> t_Input trx)\<rparr>) err left evm1 = (res, evm')"
      by (auto simp: start_trx_def and_then_Done)
    have "fund_world.rel_evm (evm\<lparr>evm_state := s\<rparr>) evm1"
      by (rule fund_world.evm_call_rel(1) [OF run E'(3) _ _ p(2) _ c(2)])
        (use ok [OF c(1)] p(3) in \<open>simp_all add: fund_world.ready_def ContractAccWrapper_def\<close>)
    then show ?thesis by (rule fin [OF c(1) evm_call_gas(2) [OF gas N c(2)] _ c(3)])
  qed
  then show "funds_ok (evm_state evm')"
    "total_balance (evm_state evm') \<le> total_balance (evm_state evm) + (uint (t_Gas trx) - uint (r_GasUsed res)) * t_GasPrice trx"
    by simp_all
qed

lemma bump_nonce_funds:
  assumes "(if b then bump_nonce E trx else Some) evm = Some evm'" and "funds_ok (evm_state evm)"
  shows "funds_ok (evm_state evm') \<and> total_balance (evm_state evm') \<le> total_balance (evm_state evm)"
  using assms by (auto simp: bump_nonce_def keeps_funds_def dest!: SetNonce_funds split: if_splits)

lemma evm_Main_funds:
  assumes E: "fund_world.rel_env E" and fuel: "unat (t_Gas trx) < fuel"
    and p: "0 \<le> t_GasPrice trx" "0 \<le> t_Value trx" "t_From trx \<noteq> 0" and f: "funds_ok (evm_state evm)"
    and r: "evm_Main E fuel trx evm = Done (res, evm')"
  shows "funds_ok (evm_state evm')"
    "total_balance (evm_state evm') \<le> total_balance (evm_state evm) - uint (r_GasUsed res) * t_GasPrice trx"
proof -
  let ?E = "E\<lparr>env_From := t_From trx, env_GasPrice := t_GasPrice trx\<rparr>"
  let ?b = "acc_GetBalance (evm_account (t_From trx) evm)" and ?fee = "uint (t_Gas trx) * t_GasPrice trx"
  have E': "fund_world.rel_env ?E"
    using E unfolding fund_world.rel_env_def fund_world.rel_precompiles_def fund_world.rel_creates_def gas_table_ok_def
    by simp
  have sub: "funds_ok (evm_state (upd_ts (acc_SubBalance (t_From trx) x) evm)) \<and>
      total_balance (evm_state (upd_ts (acc_SubBalance (t_From trx) x) evm)) = total_balance (evm_state evm) - x" if "x \<le> ?b" for x
    using SubBalance_funds [OF f, of x "t_From trx"] that by (simp add: upd_ts_def balance_proj)
  have nonneg: "0 \<le> ?b" using f by (simp add: funds_ok_def balance_proj)
  have rich: "?fee \<le> ?b" if "t_From trx = 0 \<or> BalanceGTE (evm_account (t_From trx) evm) ?fee"
    using that p(3) nonneg by (auto simp: BalanceGTE_def)
  have "funds_ok (evm_state evm') \<and> total_balance (evm_state evm') \<le> total_balance (evm_state evm) - uint (r_GasUsed res) * t_GasPrice trx"
  proof (cases rule: evm_Main_cases [where E = E and trx = trx and evm = evm])
    case (poor b available)
    have p0: "0 < t_GasPrice trx" using p(1) poor(3) by simp
    then have av: "available = ?b div t_GasPrice trx" using poor(1) by simp
    have le: "available * t_GasPrice trx \<le> ?b"
      unfolding av using pos_mod_sign [OF p0, of ?b] div_mult_mod_eq [of ?b "t_GasPrice trx"] by linarith
    have "available * t_GasPrice trx < ?fee" using le poor(2) by simp
    then have "available < uint (t_Gas trx)" using p0 by (simp add: mult_less_cancel_right_disj)
    moreover have "0 \<le> available" using nonneg p0 av by (simp add: pos_imp_zdiv_nonneg_iff)
    ultimately have u: "uint (word_of_int available :: u64) = available"
      using uint_bounded [of "t_Gas trx"] by (simp add: uint_word_of_int)
    show ?thesis using r poor(5) u sub [OF le]
      by (auto simp: bind_Some_iff consensusErr_def dest!: bump_nonce_funds)
  next
    case (fails b err)
    show ?thesis using r fails(2) sub [OF rich [OF fails(1)]]
      by (auto simp: bind_Some_iff consensusErr_def dest!: bump_nonce_funds)
  next
    case (runs g)
    have N: "unat (t_Gas trx - g) < fuel" using sub_gas [OF runs(2)] fuel by simp
    have le: "t_Gas trx - g \<le> t_Gas trx" using sub_gas [OF runs(2)] by (simp only: word_le_nat_alt)
    note s = sub [OF rich [OF runs(4)]]
    show ?thesis using start_trx_funds [OF E' N le p conjunct1 [OF s] r [unfolded runs(5)]] conjunct2 [OF s]
      by (simp add: left_diff_distrib)
  qed
  then show "funds_ok (evm_state evm')"
    "total_balance (evm_state evm') \<le> total_balance (evm_state evm) - uint (r_GasUsed res) * t_GasPrice trx" by simp_all
qed

end
