(* ===== verification/Evm_Demo.thy ===== *)
theory Evm_Demo
  imports Evm_Run
begin

section \<open>A concrete machine\<close>

text \<open>
  The package \<open>uint256\<close> as its documentation describes it, a chain with one precompiled contract, which returns its input, and an empty state:
  what the witnesses of the properties run on.
\<close>

unbundle bit_operations_syntax

definition signed_op :: "(int \<Rightarrow> int \<Rightarrow> int) \<Rightarrow> u256 \<Rightarrow> u256 \<Rightarrow> u256" where
  "signed_op f a b = (if b = 0 then 0 else word_of_int (f (sint a) (sint b)))"

definition bit_length :: "u256 \<Rightarrow> int" where
  "bit_length a = int (length (dropWhile (\<lambda>i. \<not> bit a i) (rev [0..<256])))"

definition evm_std :: evm_uint256 where
  "evm_std = uint256_ops.extend uint256_std (evm_uint256.fields
     (signed_op (\<lambda>x y. sgn x * sgn y * (\<bar>x\<bar> div \<bar>y\<bar>)))
     (\<lambda>a b. if b = 0 then 0 else a mod b)
     (signed_op (\<lambda>x y. sgn x * (\<bar>x\<bar> mod \<bar>y\<bar>)))
     (\<lambda>a b. a ^ unat b)
     (\<lambda>a b. if a < 31 then word_of_int (signed_take_bit (8 * unat a + 7) (uint b)) else b)
     (\<lambda>a. NOT a) (\<lambda>a b. a < b) (\<lambda>a b. b < a) (\<lambda>a b. sint a < sint b) (\<lambda>a b. sint b < sint a) (\<lambda>a b. a = b) (\<lambda>a. a = 0)
     (\<lambda>a b. a AND b) (\<lambda>a b. a OR b) (\<lambda>a b. a XOR b)
     (\<lambda>a b. if b < 32 then drop_bit (8 * (31 - unat b)) a AND 0xff else 0)
     (\<lambda>a b c. if c = 0 then 0 else word_of_int ((uint a + uint b) mod uint c))
     (\<lambda>a b c. if c = 0 then 0 else word_of_int ((uint a * uint b) mod uint c))
     (\<lambda>a n. a < ucast n) (\<lambda>a n. ucast n < a)
     (\<lambda>a n. push_bit (unat n) a) (\<lambda>a n. drop_bit (unat n) a) (\<lambda>a n. word_of_int (drop_bit (unat n) (sint a)))
     (\<lambda>a. sgn (sint a)) bit_length ucast (\<lambda>a. (ucast a, \<not> unat a < 2 ^ 64)) (\<lambda>a. unat a < 2 ^ 64)
     ucast be_decode ucast (\<lambda>a. a) uint (be_encode 32))"

lemma bit_length_pos: "0 < bit_length a \<longleftrightarrow> a \<noteq> 0"
proof -
  have "(\<forall>i < 256. \<not> bit a i) \<longleftrightarrow> a = 0" by (auto simp: bit_eq_iff bit_imp_le_length)
  then show ?thesis by (auto simp: bit_length_def dropWhile_eq_Nil_conv)
qed

lemma evm_std_conversions [simp]: "uint256_conversions evm_std"
proof -
  have "sgn (sint a) = 0 \<longleftrightarrow> a = 0" for a :: u256 by (simp add: sgn_eq_0_iff signed_eq_0_iff)
  then show ?thesis
    by (simp add: uint256_conversions_def evm_std_def uint256_ops.defs evm_uint256.defs uint256_std_def bit_length_pos)
qed

definition demo_identity :: precompiled where
  "demo_identity = \<lparr>pc_RequiredGas = (\<lambda>_ _. 15), pc_Run = (\<lambda>_ evm. Some (RetInput, None, evm))\<rparr>"

definition demo_env :: evm_env where
  "demo_env = \<lparr>env_U = evm_std, env_keccak = (\<lambda>_. 1), env_precompiles = [4 \<mapsto> demo_identity], env_get_hash = (\<lambda>_. 0), env_Number = 7,
     env_Author = 3, env_GasLimit = 1000000, env_Time = 0, env_Difficulty = 0, env_From = 0, env_GasPrice = 0, env_ChainId = 841,
     env_IsFicus = True, env_IsCornus = True, env_gas_table = GasTableCalifornicum, env_buf_len = 1024\<rparr>"

definition demo_state :: TransitionState where
  "demo_state = \<lparr>ts_db = (\<lambda>_ _. 0), ts_accounts = (\<lambda>a. \<lparr>acc_body = None, acc_deleted = False\<rparr>), ts_reverts = [], ts_logs = [],
     ts_refund = 0, ts_transientStorage = (\<lambda>_. 0)\<rparr>"

definition demo_evm :: EVM where
  "demo_evm = \<lparr>evm_state = demo_state, evm_depth = 0, call_gas_tmp = 0, evm_read_only = False, last_retval = [], pool_reserved = 0\<rparr>"

definition demo_trx :: Transaction where
  "demo_trx = \<lparr>t_From = 1, t_GasPrice = 0, t_To = Some 2, t_Nonce = 0, t_Value = 0, t_Gas = 100000, t_Input = [1, 0]\<rparr>"

text \<open>Account 1 has coins, account 2 has code that is no instruction.\<close>

definition demo_funded :: TransitionState where
  "demo_funded = demo_state\<lparr>ts_accounts := (ts_accounts demo_state)
     (1 := \<lparr>acc_body = Some (fresh_body\<lparr>ab_Balance := 1000000\<rparr>), acc_deleted = False\<rparr>,
      2 := \<lparr>acc_body = Some (fresh_body\<lparr>ab_Nonce := 1, ab_Code := [0xfe]\<rparr>), acc_deleted = False\<rparr>)\<rparr>"

lemma demo_env_sels [simp]:
  "env_U demo_env = evm_std" "env_gas_table demo_env = GasTableCalifornicum"
  by (simp_all add: demo_env_def)

lemma demo_no_instruction: "instruction_set demo_env 0xfe = None"
proof -
  let ?f = "\<lambda>t. map fst (t :: (byte \<times> operation) list)"
  have "0xfe \<notin> set (?f (table_byzantium E))" "0xfe \<notin> set (?f (table_arithmetic E))" "0xfe \<notin> set (?f (table_environment E))"
    "0xfe \<notin> set (?f (table_storage E))" "0xfe \<notin> set (?f (table_system E))" for E
    by (simp_all add: table_byzantium_def table_arithmetic_def table_environment_def table_storage_def table_system_def)
  moreover have families: "?f (table_push E) = map (\<lambda>n. 0x5f + of_nat n) [1..<33]" "?f table_dup = map (\<lambda>n. 0x7f + of_nat n) [1..<17]"
    "?f table_swap = map (\<lambda>n. 0x8f + of_nat n) [1..<17]" "?f (table_log E) = map (\<lambda>n. 0xa0 + of_nat n) [0..<5]" for E
    by (simp_all add: table_push_def table_dup_def table_swap_def table_log_def)
  moreover have "0xfe \<notin> set (map (\<lambda>n. 0x5f + of_nat n :: byte) [1..<33])" "0xfe \<notin> set (map (\<lambda>n. 0x7f + of_nat n :: byte) [1..<17])"
    "0xfe \<notin> set (map (\<lambda>n. 0x8f + of_nat n :: byte) [1..<17])" "0xfe \<notin> set (map (\<lambda>n. 0xa0 + of_nat n :: byte) [0..<5])"
    by code_simp+
  ultimately have "0xfe \<notin> set (map fst (newFicusInstructionSet demo_env))"
    unfolding newFicusInstructionSet_def newCalifornicumInstructionSet_def enable5656_def list.map map_append set_append list.set families
    by simp
  then show ?thesis by (simp add: instruction_set_def map_of_eq_None_iff demo_env_def)
qed

definition demo_start :: EVM where
  "demo_start = demo_evm\<lparr>evm_state := demo_funded\<rparr>"

text \<open>Account 1 sends 5 coins to account 2, whose code fails.\<close>

lemma demo_failure:
  "\<exists>evm'. evm_call demo_env (evm_run demo_env 10) CALL (ContractAccWrapper 1) 2 [] 9 5 demo_start =
     Done (RetFresh [], 0, Some (ErrInvalidOpcode 0xfe), evm')"
proof -
  let ?evm1 = "upd_ts (transfer 1 2 5) demo_start"
  have ten: "(10 :: nat) = Suc 9" by simp
  have code: "acc_GetCode (evm_account 2 ?evm1) = [0xfe]"
    by (simp add: upd_ts_def demo_start_def demo_funded_def demo_state_def demo_evm_def transfer_def acc_AddBalance_def acc_SubBalance_def
        ensure_exists_def IsNIL_def set_balance_def register_change_def RegisterChange_def upd_body_def upd_account_def acc_GetCode_def)
  have "step demo_env run m = Done (Halt [] (Some (ErrInvalidOpcode 0xfe)) m)" if "m_pc m = 0" "c_code (m_contract m) = [0xfe]" for run m
    using that by (simp add: step_def GetOp_def demo_no_instruction)
  then have "\<exists>evm'. evm_run demo_env (Suc n) (NewContract frame [0xfe]) b evm = Done ([], Some (ErrInvalidOpcode 0xfe), f_Gas frame, evm')"
    for frame b evm n
    by (simp add: evm_run_def run_frame_def Let_def NewContract_def)
  then have run: "\<exists>evm'. evm_run demo_env 10 (NewContract frame [0xfe]) b evm = Done ([], Some (ErrInvalidOpcode 0xfe), f_Gas frame, evm')"
    for frame b evm
    by (subst ten) blast
  let ?frame = "\<lparr>f_CallerAccount = 1, f_Account = 2, f_Input = [], f_Gas = 9, f_Value = 5\<rparr>"
  obtain evm' where r: "evm_run demo_env 10 (NewContract ?frame [0xfe]) False ?evm1 = Done ([], Some (ErrInvalidOpcode 0xfe), f_Gas ?frame, evm')"
    using run by blast
  have pre: "env_precompiles demo_env 2 = None" by (simp add: demo_env_def)
  have "BalanceGTE (evm_account 1 demo_start) 5" "evm_depth demo_start = 0" "\<not> IsNIL (evm_account 2 demo_start)"
    by (simp_all add: demo_start_def demo_funded_def demo_evm_def BalanceGTE_def acc_GetBalance_def IsNIL_def)
  then show ?thesis
    using code r pre
    by (simp add: evm_call_def Let_def CallCreateDepth_def ContractAccWrapper_def call_body_def enter_call_def leave_call_def call_frame_def)
qed

text \<open>Account 1 pays 5 coins to account 7, which does not exist, with two bytes of data and 30000 gas at the price 2.\<close>

definition demo_payment :: Transaction where
  "demo_payment = \<lparr>t_From = 1, t_GasPrice = 2, t_To = Some 7, t_Nonce = 0, t_Value = 5, t_Gas = 30000, t_Input = [1, 0]\<rparr>"

lemma demo_payment_result:
  "\<exists>res evm'. evm_Main demo_env fuel demo_payment demo_start = Done (res, evm') \<and> r_GasUsed res = 21072 \<and> r_ConsensusErr res = None"
proof -
  note s = upd_ts_def demo_start_def demo_funded_def demo_state_def demo_evm_def transfer_def acc_AddBalance_def acc_SubBalance_def
    ensure_exists_def IsNIL_def set_balance_def register_change_def RegisterChange_def upd_body_def upd_account_def acc_GetCode_def
    acc_GetBalance_def acc_GetNonce_def acc_SetNonce_def put_nonce_def Let_def BalanceGTE_def fresh_body_def
  have g: "IntrinsicGas [1, 0] False = Inr 21072"
    by (simp add: IntrinsicGas_def Let_def TxGas_def TxDataNonZeroGas_def TxDataZeroGas_def MaxUint64_def)
  let ?evm1 = "upd_ts (acc_SubBalance 1 60000) demo_start"
  obtain s1 where s1: "acc_SetNonce 1 1 (evm_state ?evm1) = Some s1" "acc_GetBalance (ts_accounts s1 1) = 940000"
    "acc_body (ts_accounts s1 7) = None" "ts_refund s1 = 0"
    by (simp add: s)
  have pre: "env_precompiles demo_env 7 = None" by (simp add: demo_env_def)
  let ?E = "demo_env\<lparr>env_From := 1, env_GasPrice := 2\<rparr>" and ?evm2 = "?evm1\<lparr>evm_state := s1\<rparr>"
  have "acc_GetCode (ts_accounts (transfer 1 7 5 s1) 7) = [] \<and> ts_refund (transfer 1 7 5 s1) = 0"
    using s1(3,4) by (simp add: s split: option.split)
  then have call: "evm_call ?E run CALL (ContractAccWrapper 1) 7 [1, 0] 8928 5 ?evm2 = Done (RetFresh [], 8928, None, upd_ts (transfer 1 7 5) ?evm2)" for run
    using s1(2,3) pre
    by (simp add: evm_call_def Let_def CallCreateDepth_def ContractAccWrapper_def call_body_def enter_call_def leave_call_def call_frame_def
        BalanceGTE_def IsNIL_def) (simp add: upd_ts_def demo_start_def demo_evm_def)
  have "\<not> (acc_GetBalance (evm_account 1 demo_start) < 60000)" "acc_GetNonce (evm_account 1 demo_start) = 0" by (simp_all add: s)
  then have "evm_Main demo_env fuel demo_payment demo_start = start_trx ?E (evm_run ?E fuel) demo_payment 8928 ?evm1"
    by (simp add: evm_Main_def Let_def demo_payment_def g BalanceGTE_def)
  also have "\<dots> = Done (finish_trx demo_payment (no_result\<lparr>r_CodeRetval := []\<rparr>) None 8928 (upd_ts (transfer 1 7 5) ?evm2))"
    using s1(1) call by (simp add: start_trx_def demo_payment_def or_panic_def)
  finally show ?thesis
    using s1(4) \<open>acc_GetCode (ts_accounts (transfer 1 7 5 s1) 7) = [] \<and> ts_refund (transfer 1 7 5 s1) = 0\<close>
    by (simp add: finish_trx_def Let_def demo_payment_def upd_ts_def MinU64_def no_result_def)
qed

end
