(* ===== verification/Evm_Properties.thy ===== *)
theory Evm_Properties
  imports Evm_Transaction Evm_Demo
begin

section \<open>Properties of the virtual machine and its state\<close>

subsection \<open>The journal\<close>

text \<open>C30: Going back to a snapshot undoes whatever happened since, through any operations on accounts, logs and refunds and any
  calls that were themselves rolled back: balances, nonces, code and storage of every account, whether it exists, the logs and
  the refund counter are those of the time of the snapshot, and so is the journal.\<close>

theorem revert_restores:
  assumes "state_run s s'"
  defines "t \<equiv> RevertToSnapshot (Snapshot s) s'"
  shows "acc_GetBalance (ts_accounts t a) = acc_GetBalance (ts_accounts s a) \<and>
    acc_GetNonce (ts_accounts t a) = acc_GetNonce (ts_accounts s a) \<and>
    acc_GetCode (ts_accounts t a) = acc_GetCode (ts_accounts s a) \<and>
    acc_GetState (ts_db t a) (ts_accounts t a) k = acc_GetState (ts_db s a) (ts_accounts s a) k \<and>
    IsNIL (ts_accounts t a) = IsNIL (ts_accounts s a) \<and>
    ts_logs t = ts_logs s \<and> ts_refund t = ts_refund s \<and> ts_reverts t = ts_reverts s"
proof -
  note r = RevertToSnapshot_restores [OF state_run_reversible [OF assms(1)]]
  have "same_account (ts_db s a) (ts_accounts t a) (ts_accounts s a)" and "ts_db t = ts_db s"
    using r(1) unfolding t_def same_state_def by metis+
  then show ?thesis using r same_account_reads [of "ts_db s a" "ts_accounts t a" "ts_accounts s a"]
    unfolding t_def same_state_def by (metis fun_cong)
qed

text \<open>A balance, a storage slot and a refund, written and rolled back.\<close>

theorem revert_restores_witness:
  "acc_GetBalance (ts_accounts (RevertToSnapshot 0 (AddRefund 5 (acc_SetState 7 1 2 (acc_AddBalance 7 10 demo_state)))) 7) = 0 \<and>
   acc_GetBalance (ts_accounts (AddRefund 5 (acc_SetState 7 1 2 (acc_AddBalance 7 10 demo_state))) 7) = 10"
proof -
  have run: "state_run demo_state (AddRefund 5 (acc_SetState 7 1 2 (acc_AddBalance 7 10 demo_state)))"
    by (rule run_step, rule run_step, rule run_step, rule run_done) (rule state_step.intros)+
  have "acc_GetBalance (ts_accounts (AddRefund 5 (acc_SetState 7 1 2 (acc_AddBalance 7 10 demo_state))) 7) = 10"
    by code_simp
  with revert_restores [OF run, of 7 1] show ?thesis by (simp add: Snapshot_def demo_state_def acc_GetBalance_def)
qed



subsection \<open>Jump destinations\<close>


subsection \<open>Gas\<close>

text \<open>C25: The execution of a transaction ends: with more fuel than the transaction has gas, the loops of all its nested calls come to
  their ends (with a result, an error or a panic of Go), and more fuel gives the same result. This holds for every code, every state and
  all precompiled contracts, since each instruction costs gas and a call never gives back more gas than it got.\<close>

theorem transaction_ends:
  assumes "gas_table_ok E" and "uint256_conversions (env_U E)" and "unat (t_Gas trx) < fuel" and "fuel \<le> fuel'"
  shows "evm_Main E fuel trx evm \<noteq> NoFuel \<and> evm_Main E fuel' trx evm = evm_Main E fuel trx evm"
  using evm_Main_fuel [OF assms] by blast

theorem transaction_ends_witness:
  "evm_Main demo_env 100001 demo_trx demo_evm \<noteq> NoFuel \<and> evm_Main demo_env 200000 demo_trx demo_evm = evm_Main demo_env 100001 demo_trx demo_evm"
  by (rule transaction_ends) (simp_all add: gas_table_ok_def demo_trx_def)

text \<open>C28: A transaction never uses more gas than it offers, whatever happens; and if it is accepted, refunds give back at most half of what
  was used, so that at least half of the intrinsic gas is paid for.\<close>

theorem transaction_gas_bounds:
  assumes "gas_table_ok E" and "uint256_conversions (env_U E)" and "unat (t_Gas trx) < fuel"
    and "0 \<le> acc_GetBalance (evm_account (t_From trx) evm)" and "0 \<le> t_GasPrice trx"
    and "evm_Main E fuel trx evm = Done (res, evm')"
  shows "r_GasUsed res \<le> t_Gas trx \<and> (\<forall>g. r_ConsensusErr res = None \<longrightarrow> IntrinsicGas (t_Input trx) (t_To trx = None) = Inr g \<longrightarrow>
    unat g \<le> 2 * unat (r_GasUsed res))"
  using evm_Main_gas [OF assms] by blast

theorem transaction_gas_bounds_witness:
  "\<exists>res evm'. evm_Main demo_env 30001 demo_payment demo_start = Done (res, evm') \<and> r_GasUsed res \<le> 30000 \<and>
     unat (21072 :: u64) \<le> 2 * unat (r_GasUsed res)"
proof -
  obtain res evm' where r: "evm_Main demo_env 30001 demo_payment demo_start = Done (res, evm')" "r_ConsensusErr res = None"
    using demo_payment_result by blast
  have g: "IntrinsicGas (t_Input demo_payment) (t_To demo_payment = None) = Inr 21072"
    by (simp add: demo_payment_def IntrinsicGas_def Let_def TxGas_def TxDataNonZeroGas_def TxDataZeroGas_def MaxUint64_def)
  have p: "unat (t_Gas demo_payment) < 30001" "0 \<le> acc_GetBalance (evm_account (t_From demo_payment) demo_start)" "0 \<le> t_GasPrice demo_payment"
    by (simp_all add: demo_payment_def demo_start_def demo_funded_def acc_GetBalance_def)
  have "gas_table_ok demo_env" "uint256_conversions (env_U demo_env)" by (simp_all add: gas_table_ok_def)
  from transaction_gas_bounds [OF this p r(1)] show ?thesis using r g by (auto simp: demo_payment_def)
qed



subsection \<open>Effects\<close>


lemma demo_rel_env: "undo_world.rel_env demo_env" "read_world.rel_env demo_env" "fund_world.rel_env demo_env"
proof -
  have p: "evm' = evm" if "env_precompiles demo_env a = Some p" "pc_Run p frame evm = Some (ret, err, evm')" for a p frame evm ret err evm'
    using that by (auto simp: demo_env_def demo_identity_def split: if_splits)
  have k: "env_keccak demo_env = (\<lambda>_. 1)" by (simp add: demo_env_def)
  show "undo_world.rel_env demo_env" "read_world.rel_env demo_env" "fund_world.rel_env demo_env"
    unfolding undo_world.rel_env_def read_world.rel_env_def fund_world.rel_env_def undo_world.rel_precompiles_def
      read_world.rel_precompiles_def fund_world.rel_precompiles_def undo_world.rel_creates_def read_world.rel_creates_def fund_world.rel_creates_def
    using undo_world.rel_evm_refl read_world.rel_evm_refl fund_world.rel_evm_refl
    by (auto simp: gas_table_ok_def k CreateAddress_def CreateAddress2_def bind_Some_iff dest!: p)
qed

lemma demo_code_ok: "code_ok demo_funded" "funds_ok demo_funded"
proof -
  have p: "proj f demo_funded a = f (if a = 1 then fresh_body\<lparr>ab_Balance := 1000000\<rparr> else if a = 2 then fresh_body\<lparr>ab_Nonce := 1, ab_Code := [0xfe]\<rparr> else fresh_body)"
    for f :: "AccountBody \<Rightarrow> 'x" and a
    by (simp add: proj_def demo_funded_def demo_state_def)
  show "code_ok demo_funded" by (simp add: code_ok_def p fresh_body_def)
  then show "funds_ok demo_funded" by (simp add: funds_ok_def p fresh_body_def)
qed




text \<open>C24: A transaction makes no coins: afterwards no balance is negative, and the sum of all balances has gone down at least by the gas used
  times its price. The sender is not the zero address, which may spend what it does not have; no contract has that address.\<close>

theorem transaction_makes_no_coins:
  assumes "fund_world.rel_env E" and "unat (t_Gas trx) < fuel" and "0 \<le> t_GasPrice trx" and "0 \<le> t_Value trx" and "t_From trx \<noteq> 0"
    and "funds_ok (evm_state evm)" and "evm_Main E fuel trx evm = Done (res, evm')"
  shows "(\<forall>a. 0 \<le> acc_GetBalance (evm_account a evm')) \<and>
    total_balance (evm_state evm') \<le> total_balance (evm_state evm) - uint (r_GasUsed res) * t_GasPrice trx"
  using evm_Main_funds [OF assms] by (simp add: funds_ok_def balance_proj)

theorem transaction_makes_no_coins_witness:
  "\<exists>res evm'. evm_Main demo_env 30001 demo_payment demo_start = Done (res, evm') \<and>
     total_balance (evm_state evm') \<le> total_balance demo_funded - 21072 * 2"
proof -
  obtain res evm' where r: "evm_Main demo_env 30001 demo_payment demo_start = Done (res, evm')" "r_GasUsed res = 21072"
    using demo_payment_result by blast
  have s: "evm_state demo_start = demo_funded" by (simp add: demo_start_def)
  have p: "unat (t_Gas demo_payment) < 30001" "0 \<le> t_GasPrice demo_payment" "0 \<le> t_Value demo_payment" "t_From demo_payment \<noteq> 0"
    "t_GasPrice demo_payment = 2"
    by (simp_all add: demo_payment_def)
  have "funds_ok (evm_state demo_start)" using demo_code_ok by (simp add: s)
  from transaction_makes_no_coins [OF demo_rel_env(3) p(1-4) this r(1)] show ?thesis using r p(5) by (auto simp: s)
qed

end
