(* ===== verification/Map_Writer.thy ===== *)
theory Map_Writer
  imports Prelude "HOL-Library.Multiset" "HOL-Library.Monad_Syntax"
begin

section \<open>A writer of key and value pairs\<close>

text \<open>
  The interface of a store that is written key by key, where nothing for a value means that the key is deleted: each write
  succeeds and changes the map that the store holds at that key. A row of writes then changes the map by \<open>updates\<close>, and
  where no key is written twice the order of the writes does not matter.
\<close>

type_synonym ('k, 'x) slot_write = "'k \<times> 'x option"

fun write_all ::
  "('k \<Rightarrow> 'x \<Rightarrow> 's \<Rightarrow> 's option) \<Rightarrow> ('k \<Rightarrow> 's \<Rightarrow> 's option) \<Rightarrow> ('k, 'x) slot_write list \<Rightarrow> 's \<Rightarrow> 's option" where
  "write_all put delete [] s = Some s"
| "write_all put delete ((k, x) # ops) s =
     Option.bind (case x of None \<Rightarrow> delete k s | Some v \<Rightarrow> put k v s) (write_all put delete ops)"

fun updates :: "('x \<Rightarrow> 'v) \<Rightarrow> ('k, 'x) slot_write list \<Rightarrow> ('k \<rightharpoonup> 'v) \<Rightarrow> 'k \<rightharpoonup> 'v" where
  "updates enc [] m = m"
| "updates enc ((k, x) # ops) m = updates enc ops (m(k := map_option enc x))"

lemma updates_append [simp]: "updates enc (a @ b) m = updates enc b (updates enc a m)"
  by (induction a arbitrary: m) auto

lemma updates_at:
  "distinct (map fst ops) \<Longrightarrow>
     updates enc ops m k = (case map_of ops k of None \<Rightarrow> m k | Some x \<Rightarrow> map_option enc x)"
proof (induction ops arbitrary: m)
  case (Cons kx ops)
  obtain l x where kx: "kx = (l, x)" by (cases kx)
  then have "map_of ops l = None" using Cons.prems by (simp add: map_of_eq_None_iff)
  then show ?case using Cons kx by (auto split: option.split)
qed simp

lemma updates_order:
  assumes "distinct (map fst ops)" "mset ops = mset ops'"
  shows "updates enc ops m = updates enc ops' m"
proof -
  have d: "distinct (map fst ops')" using assms by (metis mset_eq_imp_distinct_iff mset_map)
  have "map_of ops = map_of ops'" using assms d map_of_inject_set [of ops ops'] mset_eq_setD by blast
  then show ?thesis by (intro ext) (simp add: updates_at [OF assms(1)] updates_at [OF d])
qed

lemma ran_updates: "ran (updates enc ops m) \<subseteq> ran m \<union> {enc x |k x. (k, Some x) \<in> set ops}"
proof (induction ops arbitrary: m)
  case (Cons kx ops)
  obtain l x where kx: "kx = (l, x)" by (cases kx)
  have "ran (m(l := map_option enc x)) \<subseteq> ran m \<union> {enc y |y. x = Some y}" by (auto simp: ran_def split: if_splits)
  then have "ran (updates enc ops (m(l := map_option enc x))) \<subseteq> ran m \<union> {enc y |y. x = Some y} \<union> {enc x |k x. (k, Some x) \<in> set ops}"
    using Cons [of "m(l := map_option enc x)"] by blast
  then show ?case unfolding kx updates.simps by fastforce
qed simp

locale map_writer =
  fixes put :: "'k \<Rightarrow> 'x \<Rightarrow> 's \<Rightarrow> 's option"
    and delete :: "'k \<Rightarrow> 's \<Rightarrow> 's option"
    and holds :: "'s \<Rightarrow> ('k \<rightharpoonup> 'v) \<Rightarrow> bool"
    and enc :: "'x \<Rightarrow> 'v"
    and key_ok :: "'k \<Rightarrow> bool"
    and val_ok :: "'x \<Rightarrow> bool"
  assumes put_law: "holds s m \<Longrightarrow> key_ok k \<Longrightarrow> val_ok x \<Longrightarrow> \<exists>s'. put k x s = Some s' \<and> holds s' (m(k \<mapsto> enc x))"
    and delete_law: "holds s m \<Longrightarrow> key_ok k \<Longrightarrow> \<exists>s'. delete k s = Some s' \<and> holds s' (m(k := None))"
begin

lemma write_all_holds:
  "holds s m \<Longrightarrow> \<forall>(k, x)\<in>set ops. key_ok k \<and> (\<forall>v. x = Some v \<longrightarrow> val_ok v) \<Longrightarrow>
     \<exists>s'. write_all put delete ops s = Some s' \<and> holds s' (updates enc ops m)"
proof (induction ops arbitrary: s m)
  case (Cons kx ops)
  obtain k x where kx: "kx = (k, x)" by (cases kx)
  have "\<exists>s1. (case x of None \<Rightarrow> delete k s | Some v \<Rightarrow> put k v s) = Some s1 \<and> holds s1 (m(k := map_option enc x))"
    using put_law [OF Cons.prems(1), of k] delete_law [OF Cons.prems(1), of k] Cons.prems(2) kx by (cases x) auto
  then obtain s1 where s1: "(case x of None \<Rightarrow> delete k s | Some v \<Rightarrow> put k v s) = Some s1"
    "holds s1 (m(k := map_option enc x))" by blast
  have "\<forall>(k, x)\<in>set ops. key_ok k \<and> (\<forall>v. x = Some v \<longrightarrow> val_ok v)" using Cons.prems(2) by simp
  from Cons.IH [OF s1(2) this] show ?case unfolding kx write_all.simps updates.simps s1(1) bind.bind_lunit .
qed simp

lemma write_order:
  assumes "holds s m" "\<forall>(k, x)\<in>set ops. key_ok k \<and> (\<forall>v. x = Some v \<longrightarrow> val_ok v)"
    "distinct (map fst ops)" "mset ops = mset ops'"
  shows "\<exists>s1 s2. write_all put delete ops s = Some s1 \<and> write_all put delete ops' s = Some s2 \<and>
    holds s1 (updates enc ops m) \<and> holds s2 (updates enc ops m)"
proof -
  have "\<forall>(k, x)\<in>set ops'. key_ok k \<and> (\<forall>v. x = Some v \<longrightarrow> val_ok v)" using assms(2,4) mset_eq_setD by blast
  from write_all_holds [OF assms(1) this] write_all_holds [OF assms(1,2)] updates_order [OF assms(3,4), of enc m]
  show ?thesis by auto
qed

end

end
