(* ===== verification/Trie_Encoding.thy ===== *)
theory Trie_Encoding
  imports Word_Facts
begin

section \<open>Keys of the Merkle Patricia trie\<close>

text \<open>
  \<open>src/taraxa/trie/encoding.go\<close>: a key is a string of bytes, or of nibbles with the terminator 16 where a value ends
  it, or nibbles packed for a node's encoding behind a flag for the terminator and for an odd length. A slice that is
  indexed out of its bounds panics (\<^const>\<open>None\<close>).
\<close>

unbundle bit_operations_syntax

subsection \<open>The functions\<close>

definition HashLength :: nat where "HashLength = 32"
definition MaxDepth :: nat where "MaxDepth = HashLength * 2"
definition HexKeyLen :: nat where "HexKeyLen = MaxDepth + 1"
definition HexKeyCompactLen :: nat where "HexKeyCompactLen = HashLength + 1"

lemmas key_lengths = HashLength_def MaxDepth_def HexKeyLen_def HexKeyCompactLen_def

definition hasTerm :: "bytes \<Rightarrow> bool" where
  "hasTerm s \<longleftrightarrow> s \<noteq> [] \<and> s ! (length s - 1) = 16"

fun decodeNibbles :: "bytes \<Rightarrow> bytes option" where
  "decodeNibbles [] = Some []"
| "decodeNibbles [x] = None"
| "decodeNibbles (x # y # zs) = map_option (\<lambda>bs. (push_bit 4 x OR y) # bs) (decodeNibbles zs)"

definition hex_to_compact :: "bytes \<Rightarrow> bytes option" where
  "hex_to_compact inp =
     (let terminator = (if hasTerm inp then 1 else 0) :: byte;
          in1 = (if hasTerm inp then take (length inp - 1) inp else inp);
          flag = push_bit 5 terminator in
      if length in1 div 2 + 1 > HexKeyCompactLen then None
      else if length in1 mod 2 = 1 then
        map_option (\<lambda>bs. (flag OR push_bit 4 1 OR in1 ! 0) # bs) (decodeNibbles (drop 1 in1))
      else map_option (\<lambda>bs. flag # bs) (decodeNibbles in1))"

definition keybytes_to_hex :: "bytes \<Rightarrow> bytes \<Rightarrow> bytes option" where
  "keybytes_to_hex inp out =
     (if 2 * length inp \<le> length out \<and> out \<noteq> [] then
        Some ((concat (map (\<lambda>b. [b div 16, b mod 16]) inp) @ drop (2 * length inp) out)[length out - 1 := 16])
      else None)"

definition keybytesToHex :: "bytes \<Rightarrow> bytes option" where
  "keybytesToHex str = keybytes_to_hex str (replicate (length str * 2 + 1) 0)"

definition compact_to_hex :: "bytes \<Rightarrow> bytes option" where
  "compact_to_hex compact = do {
     ret \<leftarrow> keybytesToHex compact;
     let ret1 = (if ret ! 0 < 2 then take (length ret - 1) ret else ret);
     let chop = unat (2 - (ret1 ! 0 AND 1));
     if chop \<le> length ret1 then Some (drop chop ret1) else None }"

definition hex_to_keybytes :: "bytes \<Rightarrow> bytes \<Rightarrow> bytes option" where
  "hex_to_keybytes inp out =
     (let in1 = (if hasTerm inp then take (length inp - 1) inp else inp) in
      if length in1 mod 2 \<noteq> 0 then None
      else do {
        bs \<leftarrow> decodeNibbles in1;
        if length bs \<le> length out then Some (bs @ drop (length bs) out) else None })"

fun prefixLen :: "bytes \<Rightarrow> bytes \<Rightarrow> nat" where
  "prefixLen (x # xs) (y # ys) = (if x \<noteq> y then 0 else Suc (prefixLen xs ys))"
| "prefixLen _ _ = 0"

subsection \<open>Nibbles and bytes\<close>

definition nibble :: "byte \<Rightarrow> bool" where
  "nibble x \<longleftrightarrow> x < 16"

definition nibbles_of :: "bytes \<Rightarrow> bytes" where
  "nibbles_of bs = concat (map (\<lambda>b. [b div 16, b mod 16]) bs)"

lemma nibbles_of_simps [simp]: "nibbles_of [] = []" "nibbles_of (b # bs) = b div 16 # b mod 16 # nibbles_of bs"
  by (simp_all add: nibbles_of_def)

lemma length_nibbles_of [simp]: "length (nibbles_of bs) = 2 * length bs"
  by (induction bs) simp_all

lemma byte_div_16 [simp]: "nibble (b div 16)" "nibble (b mod 16)"
  by (simp_all add: nibble_def word_less_nat_alt unat_div unat_mod unat_bound [of b, simplified] less_mult_imp_div_less)

lemma nibbles_of_nibbles [simp]: "\<forall>x\<in>set (nibbles_of bs). nibble x"
  by (induction bs) simp_all

lemma pack_unat:
  assumes "nibble x" "nibble y"
  shows "unat (push_bit 4 x OR y) = 16 * unat x + unat y"
proof -
  have x: "unat x < 16" "unat y < 16" using assms by (simp_all add: nibble_def word_less_nat_alt)
  have "push_bit 4 x AND y = 0"
  proof (rule bit_word_eqI)
    fix n
    show "bit (push_bit 4 x AND y) n \<longleftrightarrow> bit (0 :: byte) n"
    proof (cases "n < 4")
      case True
      then show ?thesis by (simp add: bit_and_iff bit_push_bit_iff)
    next
      case False
      have "\<not> bit y n"
      proof -
        have "take_bit 4 y = y" using x(2)
          by (simp add: word_unat_eq_iff take_bit_eq_mod unat_mod)
        then show ?thesis using False by (metis bit_take_bit_iff)
      qed
      then show ?thesis by (simp add: bit_and_iff)
    qed
  qed
  then have "push_bit 4 x OR y = push_bit 4 x + y" by (simp add: disjunctive_add_eq_or)
  moreover have "push_bit 4 x = 16 * x" by (simp add: push_bit_eq_mult mult.commute)
  ultimately have "push_bit 4 x OR y = 16 * x + y" by simp
  then show ?thesis using x by (simp only: unat_word_ariths) simp
qed

lemma unpack_pack [simp]:
  assumes "nibble x" "nibble y"
  shows "(push_bit 4 x OR y) div 16 = x" "(push_bit 4 x OR y) mod 16 = y"
  using assms pack_unat [OF assms]
  by (simp_all add: word_unat_eq_iff unat_div unat_mod nibble_def word_less_nat_alt)

lemma pack_unpack [simp]: "push_bit 4 (b div 16) OR b mod 16 = (b :: byte)"
  by (simp add: word_unat_eq_iff pack_unat unat_div unat_mod)

lemma decodeNibbles_nibbles_of [simp]: "decodeNibbles (nibbles_of bs) = Some bs"
  by (induction bs) simp_all

lemma decodeNibbles_total:
  "even (length ns) \<Longrightarrow> \<forall>x\<in>set ns. nibble x \<Longrightarrow> \<exists>bs. decodeNibbles ns = Some bs \<and> nibbles_of bs = ns"
  by (induction ns rule: decodeNibbles.induct) auto

lemma keybytesToHex_eq: "keybytesToHex str = Some (nibbles_of str @ [16])"
proof -
  have "drop (2 * length str) (replicate (length str * 2 + 1) (0 :: byte)) = [0]"
    by (subst drop_replicate) (simp add: algebra_simps)
  then show ?thesis
    by (simp add: keybytesToHex_def keybytes_to_hex_def nibbles_of_def [symmetric] list_update_append)
qed

subsection \<open>Packed keys\<close>

text \<open>A key part of a node: nibbles, with the terminator at the end or nowhere.\<close>

definition hex_string :: "bytes \<Rightarrow> bool" where
  "hex_string h \<longleftrightarrow> (\<forall>x\<in>set (butlast h). nibble x) \<and> (h \<noteq> [] \<longrightarrow> nibble (last h) \<or> last h = 16)"

lemma hasTerm_last: "hasTerm s \<longleftrightarrow> s \<noteq> [] \<and> last s = 16"
  by (auto simp: hasTerm_def last_conv_nth)

lemma nibble_16 [simp]: "\<not> nibble 16"
  by (simp add: nibble_def)

lemma hex_string_cases:
  assumes "hex_string h"
  obtains ns where "h = ns" "\<forall>x\<in>set ns. nibble x" | ns where "h = ns @ [16]" "\<forall>x\<in>set ns. nibble x"
  using assms by (cases h rule: rev_cases) (auto simp: hex_string_def)

lemma hasTerm_simps [simp]: "hasTerm (ns @ [16])" "\<forall>x\<in>set ns. nibble x \<Longrightarrow> \<not> hasTerm ns"
  using nibble_16 by (auto simp: hasTerm_last dest!: last_in_set)

definition flag_nibble :: "bool \<Rightarrow> bool \<Rightarrow> byte" where
  "flag_nibble t odd_length = (if t then 2 else 0) + (if odd_length then 1 else 0)"

lemma compact_bytes:
  assumes "\<forall>x\<in>set ns. nibble x" "length ns \<le> MaxDepth" and h: "h = ns @ (if t then [16] else [])"
  shows "\<exists>c. hex_to_compact h = Some c \<and>
    nibbles_of c = flag_nibble t (odd (length ns)) # (if odd (length ns) then ns else 0 # ns)"
proof -
  have term_h: "hasTerm h \<longleftrightarrow> t" using assms(1) h by auto
  have small: "\<not> length ns div 2 + 1 > HexKeyCompactLen" using assms(2) by (simp add: key_lengths)
  show ?thesis
  proof (cases "odd (length ns)")
    case True
    then obtain x xs where ns: "ns = x # xs" by (cases ns) auto
    then obtain bs where bs: "decodeNibbles xs = Some bs" "nibbles_of bs = xs"
      using decodeNibbles_total [of xs] assms(1) True by auto
    have x: "nibble x" using assms(1) ns by simp
    have "(if t then 32 else 0) OR 16 OR x = push_bit 4 (flag_nibble t True) OR x"
      by (cases t) (simp_all add: flag_nibble_def or.assoc [symmetric])
    moreover have "nibble (flag_nibble t True)" by (simp add: flag_nibble_def nibble_def)
    ultimately show ?thesis using True bs x small ns term_h h
      by (auto simp: hex_to_compact_def Let_def odd_iff_mod_2_eq_one push_bit_of_1)
  next
    case False
    then obtain bs where bs: "decodeNibbles ns = Some bs" "nibbles_of bs = ns"
      using decodeNibbles_total [of ns] assms(1) by auto
    have "(if t then 32 else 0 :: byte) div 16 = flag_nibble t False" "(if t then 32 else 0 :: byte) mod 16 = 0"
      by (simp_all add: flag_nibble_def)
    then show ?thesis using False bs small term_h h
      by (auto simp: hex_to_compact_def Let_def even_iff_mod_2_eq_zero push_bit_of_1)
  qed
qed

lemma compact_roundtrip:
  assumes "hex_string h" "length h \<le> MaxDepth \<or> length h \<le> HexKeyLen \<and> hasTerm h"
  shows "\<exists>c. hex_to_compact h = Some c \<and> c \<noteq> [] \<and> length c \<le> HexKeyCompactLen \<and> compact_to_hex c = Some h"
proof -
  obtain ns t where h: "h = ns @ (if t then [16] else [])" "\<forall>x\<in>set ns. nibble x"
  proof (rule hex_string_cases [OF assms(1)])
    fix ns assume "h = ns" "\<forall>x\<in>set ns. nibble x"
    then show thesis using that [of ns False] by simp
  next
    fix ns assume "h = ns @ [16]" "\<forall>x\<in>set ns. nibble x"
    then show thesis using that [of ns True] by simp
  qed
  have l: "length ns \<le> MaxDepth" using assms(2) h by (auto simp: key_lengths split: if_splits)
  obtain c where c: "hex_to_compact h = Some c"
    "nibbles_of c = flag_nibble t (odd (length ns)) # (if odd (length ns) then ns else 0 # ns)"
    using compact_bytes [OF h(2) l h(1)] by blast
  have "2 * length c = length (nibbles_of c)" by simp
  with c(2) l have len: "c \<noteq> []" "length c \<le> HexKeyCompactLen" by (auto simp: key_lengths split: if_splits)
  have "compact_to_hex c = Some h"
    by (cases t; cases "odd (length ns)") (simp_all add: compact_to_hex_def keybytesToHex_eq c(2) flag_nibble_def h(1) Let_def)
  with c(1) len show ?thesis by blast
qed

subsection \<open>Keys of the trie\<close>

definition hex_key :: "bytes \<Rightarrow> bytes" where
  "hex_key k = nibbles_of k @ [16]"

lemma keybytes_to_hex_key: "length out = 2 * length k + 1 \<Longrightarrow> keybytes_to_hex k out = Some (hex_key k)"
  by (cases "drop (2 * length k) out")
    (auto simp: keybytes_to_hex_def hex_key_def nibbles_of_def [symmetric] list_update_append dest: arg_cong [of _ _ length])

lemma hex_to_keybytes_key: "length out = length k \<Longrightarrow> hex_to_keybytes (hex_key k) out = Some k"
  by (simp add: hex_to_keybytes_def hex_key_def Let_def)

lemma hex_key_inj: "hex_key k = hex_key k' \<longleftrightarrow> k = k'"
  by (auto simp: hex_key_def dest: arg_cong [of _ _ decodeNibbles])

lemma prefixLen_le: "prefixLen a b \<le> length a" "prefixLen a b \<le> length b"
  by (induction a b rule: prefixLen.induct) auto

lemma prefixLen_take: "take (prefixLen a b) a = take (prefixLen a b) b"
  by (induction a b rule: prefixLen.induct) auto

lemma prefixLen_differs: "prefixLen a b < length a \<Longrightarrow> prefixLen a b < length b \<Longrightarrow> a ! prefixLen a b \<noteq> b ! prefixLen a b"
  by (induction a b rule: prefixLen.induct) (auto split: if_splits)

end
