(* ===== verification/Trie.thy ===== *)
theory Trie
  imports Rlp Trie_Encoding "HOL-Library.Monad_Syntax"
begin

section \<open>The Merkle Patricia trie\<close>

text \<open>
  \<open>src/taraxa/trie\<close>: the nodes of \<open>layout.go\<close>, the reader, the writer and the commit. A nil \<open>node\<close> is \<^const>\<open>None\<close>; a
  pointer to a node is owned by the node above it, so that an update in place is an update of the value. \<open>value_node\<close>
  holds a \<open>Value\<close>: one that was put (of type \<open>'v\<close>, encoded by \<open>EncodeForTrie\<close>, which is called at the commit and not
  before), the \<open>internal_value\<close> of one that was read or written, or nil for one that is only in the database.
  \<open>Schema\<close> and the reading half of \<open>IO\<close> are records of functions; what is put to \<open>IO\<close> is collected in a list, since
  the database shows it only after it commits the block. Results are \<^const>\<open>None\<close> for a panic.
\<close>

subsection \<open>Nodes\<close>

datatype 'v trie_val = Put_Value 'v | Internal_Value bytes bytes

datatype 'v node =
    Short (key_part: bytes) (short_val: "'v node option") (short_hash: "bytes option")
  | Full (full_children: "'v node option list") (full_hash: "bytes option")
  | Node_Hash bytes
  | Value_Node "'v trie_val option"

definition full_node_child_cnt :: nat where "full_node_child_cnt = 16"

definition nil_val_node :: "'v node" where "nil_val_node = Value_Node None"

text \<open>\<open>get_hash\<close> panics on a value.\<close>

fun get_hash :: "'v node \<Rightarrow> bytes option option" where
  "get_hash (Short _ _ h) = Some h"
| "get_hash (Full _ h) = Some h"
| "get_hash (Node_Hash h) = Some (Some h)"
| "get_hash (Value_Node _) = None"

record trie_schema =
  ValueStorageToHashEncoding :: "bytes \<Rightarrow> bytes option"
  MaxValueSizeToStoreInTrie :: nat

record trie_input =
  GetValue :: "bytes \<Rightarrow> bytes option"
  GetNode :: "bytes \<Rightarrow> bytes option"

datatype trie_put = PutValue bytes bytes | PutNode bytes bytes

record trie_env =
  keccak :: "bytes \<Rightarrow> bytes"
  schema :: trie_schema
  input :: trie_input

subsection \<open>Reader\<close>

definition zero_hash :: bytes where "zero_hash = replicate HashLength 0"

definition resolve_val_n :: "trie_env \<Rightarrow> bytes \<Rightarrow> 'v node option" where
  "resolve_val_n E key = do {
     enc_storage \<leftarrow> GetValue (input E) key;
     enc_hash \<leftarrow> ValueStorageToHashEncoding (schema E) enc_storage;
     Some (Value_Node (Some (Internal_Value enc_storage enc_hash))) }"

definition resolve_val_n_by_hex_k :: "trie_env \<Rightarrow> bytes \<Rightarrow> 'v node option" where
  "resolve_val_n_by_hex_k E hex_k = do {
     key \<leftarrow> hex_to_keybytes hex_k zero_hash;
     resolve_val_n E key }"

definition from_error :: "'e + 'a \<Rightarrow> 'a option" where
  "from_error r = (case r of Inl _ \<Rightarrow> None | Inr x \<Rightarrow> Some x)"

text \<open>
  \<open>dec_node\<close> reads one value from a buffer and returns the rest. It calls \<open>dec_short\<close> and \<open>dec_full\<close>, which call it for the
  values inside: they take it as their argument. Each level of nesting has fewer bytes than the one around it, which
  the fuel counts.
\<close>

type_synonym 'v decoder = "bytes \<Rightarrow> bytes option \<Rightarrow> bytes \<Rightarrow> ('v node option \<times> bytes) option"

definition dec_short :: "'v decoder \<Rightarrow> trie_env \<Rightarrow> bytes \<Rightarrow> bytes option \<Rightarrow> bytes \<Rightarrow> nat \<Rightarrow> 'v node option" where
  "dec_short dec E key_prefix db_hash buf payload_start = do {
     (key_packed, content) \<leftarrow> from_error (SplitString (drop payload_start buf));
     key_ext \<leftarrow> compact_to_hex key_packed;
     if hasTerm key_ext then
       if length content = 0 then do {
         v \<leftarrow> resolve_val_n_by_hex_k E (key_prefix @ key_ext);
         Some (Short key_ext (Some v) db_hash) }
       else do {
         (content1, _) \<leftarrow> from_error (SplitString content);
         if length content1 = HashLength then Some (Short key_ext (Some nil_val_node) (Some content1))
         else if 0 < length content1 \<and> length content1 \<le> MaxValueSizeToStoreInTrie (schema E) then do {
           enc_hash \<leftarrow> ValueStorageToHashEncoding (schema E) content1;
           Some (Short key_ext (Some (Value_Node (Some (Internal_Value content1 enc_hash)))) db_hash) }
         else None }
     else do {
       (val, _) \<leftarrow> dec (key_prefix @ key_ext) None content;
       let hash = (case val of Some (Node_Hash _) \<Rightarrow> if db_hash = None then Some (keccak E buf) else db_hash | _ \<Rightarrow> db_hash);
       Some (Short key_ext val hash) } }"

fun dec_children :: "'v decoder \<Rightarrow> bytes \<Rightarrow> nat \<Rightarrow> nat \<Rightarrow> bytes \<Rightarrow> 'v node option list option" where
  "dec_children dec key_prefix i 0 enc = Some []"
| "dec_children dec key_prefix i (Suc n) enc = do {
     (child, enc1) \<leftarrow> dec (key_prefix @ [of_nat i]) None enc;
     children \<leftarrow> dec_children dec key_prefix (Suc i) n enc1;
     Some (child # children) }"

definition dec_full :: "'v decoder \<Rightarrow> bytes \<Rightarrow> bytes option \<Rightarrow> bytes \<Rightarrow> 'v node option" where
  "dec_full dec key_prefix db_hash enc =
     map_option (\<lambda>children. Full children db_hash) (dec_children dec key_prefix 0 full_node_child_cnt enc)"

primrec dec_node :: "nat \<Rightarrow> trie_env \<Rightarrow> 'v decoder" where
  "dec_node 0 E = (\<lambda>key_prefix db_hash buf. None)"
| "dec_node (Suc fuel) E = (\<lambda>key_prefix db_hash buf. do {
     (kind, tagsize, total_size) \<leftarrow> from_error (ReadKind buf);
     let payload = drop (unat tagsize) (take (unat total_size) buf);
     let rest = drop (unat total_size) buf;
     case kind of
       KList \<Rightarrow> do {
         size \<leftarrow> from_error (CountValues payload);
         if size = 1 \<or> size = 2 then do {
           n \<leftarrow> dec_short (dec_node fuel E) E key_prefix db_hash (take (unat total_size) buf) (unat tagsize);
           Some (Some n, rest) }
         else if size = full_node_child_cnt then do {
           n \<leftarrow> dec_full (dec_node fuel E) key_prefix db_hash payload;
           Some (Some n, rest) }
         else None }
     | KString \<Rightarrow>
         if length payload = 0 then Some (None, rest)
         else if length payload = HashLength then Some (Some (Node_Hash payload), rest)
         else None
     | KByte \<Rightarrow> None })"

definition resolve :: "trie_env \<Rightarrow> bytes \<Rightarrow> bytes \<Rightarrow> 'v node option" where
  "resolve E h key_prefix = do {
     buf \<leftarrow> GetNode (input E) h;
     (ret, _) \<leftarrow> dec_node (length buf) E key_prefix (Some h) buf;
     ret }"

text \<open>
  \<open>for_each\<close> and \<open>for_each_node_hash\<close>: the calls of the callback, in their order. The walk goes down at most one
  hash and one node for each nibble of a key, which is what the fuel \<open>trie_fuel\<close> allows.
\<close>

definition trie_fuel :: nat where "trie_fuel = 2 * HexKeyLen + 2"

fun collect :: "('a \<Rightarrow> 'b list option) \<Rightarrow> 'a list \<Rightarrow> 'b list option" where
  "collect f [] = Some []"
| "collect f (x # xs) = do { a \<leftarrow> f x; b \<leftarrow> collect f xs; Some (a @ b) }"

definition children_of :: "'v node option list \<Rightarrow> (byte \<times> 'v node) list" where
  "children_of cs = [(of_nat i, n). (i, c) \<leftarrow> enumerate 0 cs, n \<leftarrow> (case c of None \<Rightarrow> [] | Some n \<Rightarrow> [n])]"

primrec for_each :: "nat \<Rightarrow> trie_env \<Rightarrow> bool \<Rightarrow> 'v node option \<Rightarrow> bytes \<Rightarrow> (bytes \<times> 'v trie_val option) list option" where
  "for_each 0 E with_values n key_prefix = None"
| "for_each (Suc fuel) E with_values n key_prefix =
     (case n of
        Some (Node_Hash h) \<Rightarrow> do {
          ret_node \<leftarrow> resolve E h key_prefix;
          for_each fuel E with_values (Some ret_node) key_prefix }
      | Some (Short kp val _) \<Rightarrow>
          let key_extended = key_prefix @ kp in
          (case val of
             Some (Value_Node val_n) \<Rightarrow> do {
               key \<leftarrow> hex_to_keybytes key_extended zero_hash;
               val_n1 \<leftarrow> (if val_n = None \<and> with_values then resolve_val_n E key else Some (Value_Node val_n));
               (case val_n1 of Value_Node v \<Rightarrow> Some [(key, v)] | _ \<Rightarrow> None) }
           | _ \<Rightarrow> for_each fuel E with_values val key_extended)
      | Some (Full children _) \<Rightarrow>
          collect (\<lambda>(i, c). for_each fuel E with_values (Some c) (key_prefix @ [i])) (children_of children)
      | _ \<Rightarrow> None)"

definition ForEach :: "trie_env \<Rightarrow> bytes \<Rightarrow> bool \<Rightarrow> (bytes \<times> 'v trie_val option) list option" where
  "ForEach E root_hash with_values = for_each trie_fuel E with_values (Some (Node_Hash root_hash)) []"

primrec for_each_node_hash :: "nat \<Rightarrow> trie_env \<Rightarrow> unit node option \<Rightarrow> bytes \<Rightarrow> (bytes \<times> bytes) list option" where
  "for_each_node_hash 0 E n key_prefix = None"
| "for_each_node_hash (Suc fuel) E n key_prefix =
     (case n of
        Some (Node_Hash h) \<Rightarrow> do {
          ret_node \<leftarrow> resolve E h key_prefix;
          ret_bytes \<leftarrow> GetNode (input E) h;
          calls \<leftarrow> for_each_node_hash fuel E (Some ret_node) key_prefix;
          Some ((h, ret_bytes) # calls) }
      | Some (Short kp val _) \<Rightarrow>
          (case val of
             Some (Value_Node _) \<Rightarrow> Some []
           | _ \<Rightarrow> for_each_node_hash fuel E val (key_prefix @ kp))
      | Some (Full children _) \<Rightarrow>
          collect (\<lambda>(i, c). for_each_node_hash fuel E (Some c) (key_prefix @ [i])) (children_of children)
      | _ \<Rightarrow> None)"

definition ForEachNodeHash :: "trie_env \<Rightarrow> bytes \<Rightarrow> (bytes \<times> bytes) list option" where
  "ForEachNodeHash E root_hash = for_each_node_hash trie_fuel E (Some (Node_Hash root_hash)) []"

subsection \<open>Writer\<close>

record 'v Writer =
  root :: "'v node option"
  FullNodeLevelsToCache :: byte

definition Writer_Init :: "bytes option \<Rightarrow> byte \<Rightarrow> 'v Writer option" where
  "Writer_Init root_hash levels_to_cache =
     (if unat levels_to_cache \<le> MaxDepth
      then Some \<lparr>root = map_option Node_Hash root_hash, FullNodeLevelsToCache = levels_to_cache\<rparr>
      else None)"

text \<open>\<open>shift\<close> moves a short node up or down; a value that is only in the database is read first, for its hash is lost.\<close>

definition shift :: "trie_env \<Rightarrow> 'v node \<Rightarrow> bytes \<Rightarrow> byte \<Rightarrow> bytes \<Rightarrow> bool \<Rightarrow> 'v node option option" where
  "shift E n new_prefix pivot new_suffix up =
     (case n of
        Short kp val h \<Rightarrow> do {
          val1 \<leftarrow> (if val = Some nil_val_node
                  then map_option Some (resolve_val_n_by_hex_k E (new_prefix @ pivot # new_suffix)) else Some val);
          if up then Some (Some (Short (pivot # new_suffix) val1 h))
          else if length new_suffix = 0 then Some val1
          else Some (Some (Short new_suffix val1 h)) }
      | _ \<Rightarrow> None)"

text \<open>\<open>k\<close> is \<open>kbuf_0\<close>, the key that is written, in nibbles.\<close>

primrec mpt_insert :: "nat \<Rightarrow> trie_env \<Rightarrow> bytes \<Rightarrow> 'v node option \<Rightarrow> nat \<Rightarrow> 'v node \<Rightarrow> 'v node option" where
  "mpt_insert 0 E k n keypos val = None"
| "mpt_insert (Suc fuel) E k n keypos val =
     (case n of
        Some (Short kp v h) \<Rightarrow>
          let matchlen = prefixLen (drop keypos k) kp;
              keypos_after_match = keypos + matchlen in
          if keypos_after_match = HexKeyLen then Some (Short kp (Some val) None)
          else if matchlen = length kp then do {
            v1 \<leftarrow> mpt_insert fuel E k v keypos_after_match val;
            Some (Short kp (Some v1) None) }
          else
            let new_pivot = kp ! matchlen;
                key_nibble = k ! keypos_after_match in do {
            shifted \<leftarrow> shift E (Short kp v None) (take keypos_after_match k) new_pivot (drop (matchlen + 1) kp) False;
            _ \<leftarrow> holds (unat new_pivot < full_node_child_cnt \<and> unat key_nibble < full_node_child_cnt);
            let junction = Full ((replicate full_node_child_cnt None)
                [unat new_pivot := shifted,
                 unat key_nibble := Some (Short (drop (keypos_after_match + 1) k) (Some val) None)]) None;
            if matchlen = 0 then Some junction
            else Some (Short (drop keypos (take keypos_after_match k)) (Some junction) None) }
      | Some (Full children h) \<Rightarrow> do {
          _ \<leftarrow> holds (keypos < HexKeyLen \<and> unat (k ! keypos) < length children);
          c \<leftarrow> mpt_insert fuel E k (children ! unat (k ! keypos)) (keypos + 1) val;
          Some (Full (children[unat (k ! keypos) := Some c]) None) }
      | Some (Node_Hash h) \<Rightarrow> do {
          n1 \<leftarrow> resolve E h (take keypos k);
          mpt_insert fuel E k (Some n1) keypos val }
      | None \<Rightarrow> Some (Short (drop keypos k) (Some val) None)
      | Some (Value_Node _) \<Rightarrow> None)"

text \<open>
  \<open>mpt_del\<close> panics with \<open>mpt_del_not_found\<close> when the key is not there, and \<open>write\<close> recovers: what was assigned to nodes
  on the way stays, which is the node that \<open>Not_Found\<close> carries.
\<close>

datatype 'v del_result = Deleted "'v node option" | Not_Found "'v node option"

fun only_child_loop :: "'v node option list \<Rightarrow> nat \<Rightarrow> nat \<Rightarrow> nat option \<Rightarrow> nat option" where
  "only_child_loop [] i deletion_nibble found = found"
| "only_child_loop (c # cs) i deletion_nibble found =
     (if c \<noteq> None \<and> i \<noteq> deletion_nibble then
        (if found \<noteq> None then None else only_child_loop cs (Suc i) deletion_nibble (Some i))
      else only_child_loop cs (Suc i) deletion_nibble found)"

primrec mpt_del :: "nat \<Rightarrow> trie_env \<Rightarrow> bytes \<Rightarrow> 'v node option \<Rightarrow> nat \<Rightarrow> 'v del_result option" where
  "mpt_del 0 E k n keypos = None"
| "mpt_del (Suc fuel) E k n keypos =
     (case n of
        Some (Short kp v h) \<Rightarrow>
          let matchlen = prefixLen (drop keypos k) kp;
              keypos1 = keypos + matchlen in
          if matchlen \<noteq> length kp then Some (Not_Found n)
          else if keypos1 = length k then Some (Deleted None)
          else do {
            r \<leftarrow> mpt_del fuel E k v keypos1;
            (case r of
               Not_Found v1 \<Rightarrow> Some (Not_Found (Some (Short kp v1 None)))
             | Deleted (Some (Short kp2 v2 _)) \<Rightarrow> Some (Deleted (Some (Short (kp @ kp2) v2 None)))
             | Deleted child \<Rightarrow> Some (Deleted (Some (Short kp child None)))) }
      | Some (Full children h) \<Rightarrow> do {
          _ \<leftarrow> holds (keypos < length k \<and> unat (k ! keypos) < length children);
          let deletion_nibble = unat (k ! keypos);
          r \<leftarrow> mpt_del fuel E k (children ! deletion_nibble) (keypos + 1);
          (case r of
             Not_Found c \<Rightarrow> Some (Not_Found (Some (Full (children[deletion_nibble := c]) h)))
           | Deleted deletion_child \<Rightarrow>
               (case (if deletion_child = None then only_child_loop children 0 deletion_nibble None else None) of
                  None \<Rightarrow> Some (Deleted (Some (Full (children[deletion_nibble := deletion_child]) None)))
                | Some only_child_nibble \<Rightarrow> do {
                    let nibble_b = of_nat only_child_nibble;
                    only_child \<leftarrow> (case children ! only_child_nibble of
                        Some (Node_Hash hash_n) \<Rightarrow> map_option Some (resolve E hash_n (take keypos k @ [nibble_b]))
                      | c \<Rightarrow> Some c);
                    (case only_child of
                       Some (Short kp v _) \<Rightarrow>
                         map_option Deleted (shift E (Short kp v None) (take keypos k) nibble_b kp True)
                     | _ \<Rightarrow> Some (Deleted (Some (Short [nibble_b] only_child None)))) })) }
      | Some (Node_Hash h) \<Rightarrow> do {
          n1 \<leftarrow> resolve E h (take keypos k);
          r \<leftarrow> mpt_del fuel E k (Some n1) keypos;
          (case r of Not_Found _ \<Rightarrow> Some (Not_Found n) | Deleted c \<Rightarrow> Some (Deleted c)) }
      | None \<Rightarrow> Some (Not_Found None)
      | Some (Value_Node _) \<Rightarrow> None)"

text \<open>\<open>write\<close>: the value is nil for a deletion. It returns what is put to the database, too.\<close>

definition trie_write :: "trie_env \<Rightarrow> bytes \<Rightarrow> 'v option \<Rightarrow> 'v Writer \<Rightarrow> ('v Writer \<times> trie_put list) option" where
  "trie_write E k v w = do {
     kbuf \<leftarrow> keybytes_to_hex k (replicate HexKeyLen 0);
     (case v of
        Some x \<Rightarrow> do {
          n \<leftarrow> mpt_insert trie_fuel E kbuf (root w) 0 (Value_Node (Some (Put_Value x)));
          Some (w\<lparr>root := Some n\<rparr>, []) }
      | None \<Rightarrow> do {
          r \<leftarrow> mpt_del trie_fuel E kbuf (root w) 0;
          (case r of
             Deleted n \<Rightarrow> Some (w\<lparr>root := n\<rparr>, [PutValue k []])
           | Not_Found n \<Rightarrow> Some (w\<lparr>root := n\<rparr>, [])) }) }"

definition trie_Put :: "trie_env \<Rightarrow> bytes \<Rightarrow> 'v \<Rightarrow> 'v Writer \<Rightarrow> ('v Writer \<times> trie_put list) option" where
  "trie_Put E k v w = trie_write E k (Some v) w"

definition trie_Delete :: "trie_env \<Rightarrow> bytes \<Rightarrow> 'v Writer \<Rightarrow> ('v Writer \<times> trie_put list) option" where
  "trie_Delete E k w = trie_write E k None w"

end
