(* ===== verification/Trie_Commit.thy ===== *)
theory Trie_Commit
  imports Trie
begin

section \<open>Commit of the Merkle Patricia trie\<close>

text \<open>
  \<open>hash_encoder.go\<close>, \<open>commit_context.go\<close> and \<open>Commit\<close> of \<open>writer.go\<close>. One walk over the changed nodes writes two
  encodings at once, one to be hashed and one to be stored: a node whose hashed encoding has 32 bytes or more is
  replaced by its hash there; in the stored encoding a branch is replaced by its hash and stored under it, and a
  short node stays inside the node above it.
\<close>

subsection \<open>\<open>hash_encoder\<close>\<close>

record hash_encoder =
  encoder :: Encoder
  disabled :: bool

definition he_Reset :: "hash_encoder \<Rightarrow> hash_encoder" where
  "he_Reset he = he\<lparr>encoder := enc_Reset (encoder he), disabled := False\<rparr>"

definition he_Toggle :: "hash_encoder \<Rightarrow> hash_encoder" where
  "he_Toggle he = he\<lparr>disabled := \<not> disabled he\<rparr>"

definition he_AppendString :: "bytes \<Rightarrow> hash_encoder \<Rightarrow> hash_encoder option" where
  "he_AppendString str he =
     (if \<not> disabled he then map_option (\<lambda>e. he\<lparr>encoder := e\<rparr>) (AppendString str (encoder he)) else Some he)"

definition he_ListStart :: "hash_encoder \<Rightarrow> int \<times> hash_encoder" where
  "he_ListStart he =
     (if \<not> disabled he then let (pos, e) = enc_ListStart (encoder he) in (int pos, he\<lparr>encoder := e\<rparr>) else (-1, he))"

text \<open>\<open>out\<close> is the hash of the node, which is assigned when the list is hashed.\<close>

definition he_ListEnd ::
  "(bytes \<Rightarrow> bytes) \<Rightarrow> int \<Rightarrow> bool \<Rightarrow> bytes option \<Rightarrow> hash_encoder \<Rightarrow> (bytes option \<times> hash_encoder) option" where
  "he_ListEnd kec list_pos is_root out he =
     (if disabled he then Some (out, he)
      else do {
        _ \<leftarrow> holds (0 \<le> list_pos);
        e1 \<leftarrow> enc_ListEnd (nat list_pos) (encoder he);
        size \<leftarrow> enc_ListSize (nat list_pos) e1;
        if size < of_nat HashLength \<and> \<not> is_root then Some (out, he\<lparr>encoder := e1\<rparr>)
        else do {
          bs \<leftarrow> enc_Flush list_pos e1;
          let h = kec bs;
          if \<not> is_root then do {
            e2 \<leftarrow> enc_RevertToListStart (nat list_pos) e1;
            e3 \<leftarrow> AppendString h e2;
            Some (Some h, he\<lparr>encoder := e3\<rparr>) }
          else Some (Some h, he\<lparr>encoder := e1\<rparr>) } })"

subsection \<open>\<open>commit\<close>\<close>

record commit_context =
  enc_hash :: hash_encoder
  enc_storage :: Encoder

definition ctx_Reset :: "commit_context \<Rightarrow> commit_context" where
  "ctx_Reset ctx = ctx\<lparr>enc_hash := he_Reset (enc_hash ctx), enc_storage := enc_Reset (enc_storage ctx)\<rparr>"

definition both_AppendString :: "bytes \<Rightarrow> commit_context \<Rightarrow> commit_context option" where
  "both_AppendString str ctx = do {
     he \<leftarrow> he_AppendString str (enc_hash ctx);
     es \<leftarrow> AppendString str (enc_storage ctx);
     Some (ctx\<lparr>enc_hash := he, enc_storage := es\<rparr>) }"

text \<open>
  The value of a leaf: \<open>EncodeForTrie\<close> is called unless the value is internal, and the value is put under its key. The
  assignment to \<open>val_n.val\<close> that follows changes a copy of the \<open>value_node\<close> and has no effect on the node.
\<close>

definition commit_value ::
  "('v \<Rightarrow> bytes \<times> bytes) \<Rightarrow> bytes \<Rightarrow> 'v trie_val \<Rightarrow> (bytes \<times> bytes \<times> trie_put list) option" where
  "commit_value EncodeForTrie hex_k v =
     (case v of
        Internal_Value val_enc_storage val_enc_hash \<Rightarrow> Some (val_enc_storage, val_enc_hash, [])
      | Put_Value x \<Rightarrow>
          let (val_enc_storage, val_enc_hash) = EncodeForTrie x in do {
          key \<leftarrow> hex_to_keybytes hex_k zero_hash;
          Some (val_enc_storage, val_enc_hash, [PutValue key val_enc_storage]) })"

type_synonym 'v committed = "('v node \<times> commit_context \<times> trie_put list) option"

text \<open>\<open>short_open\<close> is what \<open>commit\<close> does for a short node before its value or child, \<open>short_close\<close> what it does after.\<close>

definition short_open :: "bytes \<Rightarrow> bytes option \<Rightarrow> commit_context \<Rightarrow> (nat \<times> int \<times> commit_context) option" where
  "short_open kp h ctx = do {
     ctx1 \<leftarrow> (case h of
         None \<Rightarrow> Some ctx
       | Some hash \<Rightarrow> map_option (\<lambda>he. ctx\<lparr>enc_hash := he_Toggle he\<rparr>) (he_AppendString hash (enc_hash ctx)));
     let (storage_list_start, es) = enc_ListStart (enc_storage ctx1);
     let (hash_list_start, he) = he_ListStart (enc_hash ctx1);
     hashed_key_ext \<leftarrow> hex_to_compact kp;
     ctx2 \<leftarrow> both_AppendString hashed_key_ext (ctx1\<lparr>enc_hash := he, enc_storage := es\<rparr>);
     Some (storage_list_start, hash_list_start, ctx2) }"

definition short_close ::
  "trie_env \<Rightarrow> bytes \<Rightarrow> 'v node option \<Rightarrow> bytes option \<Rightarrow> bool \<Rightarrow> bytes option \<Rightarrow> nat \<Rightarrow> int \<Rightarrow> commit_context
     \<Rightarrow> trie_put list \<Rightarrow> 'v committed" where
  "short_close E kp v h is_root val storage_list_start hash_list_start ctx puts = do {
     (hash, he) \<leftarrow> he_ListEnd (keccak E) hash_list_start is_root h (enc_hash ctx);
     es \<leftarrow> (case val of
         None \<Rightarrow> Some (enc_storage ctx)
       | Some val_enc_storage \<Rightarrow>
           (case hash of
              Some hh \<Rightarrow> AppendString hh (enc_storage ctx)
            | None \<Rightarrow>
                if length val_enc_storage \<le> MaxValueSizeToStoreInTrie (schema E)
                then AppendString val_enc_storage (enc_storage ctx) else Some (enc_storage ctx)));
     es1 \<leftarrow> enc_ListEnd storage_list_start es;
     node_put \<leftarrow> (if is_root then do {
         hh \<leftarrow> hash;
         bs \<leftarrow> enc_ToBytes (int storage_list_start) es1;
         Some [PutNode hh bs] } else Some []);
     let he1 = (if h \<noteq> None then he_Toggle he else he);
     Some (Short kp v hash, ctx\<lparr>enc_hash := he1, enc_storage := es1\<rparr>, puts @ node_put) }"

definition full_close ::
  "trie_env \<Rightarrow> byte \<Rightarrow> byte \<Rightarrow> 'v node option list \<Rightarrow> bool \<Rightarrow> nat \<Rightarrow> int \<Rightarrow> commit_context \<Rightarrow> trie_put list
     \<Rightarrow> 'v committed" where
  "full_close E levels full_nodes_above cs is_root storage_list_start hash_list_start ctx puts = do {
     es \<leftarrow> enc_ListEnd storage_list_start (enc_storage ctx);
     he \<leftarrow> he_AppendString [] (enc_hash ctx);
     (hash, he1) \<leftarrow> he_ListEnd (keccak E) hash_list_start is_root None he;
     (case hash of
        None \<Rightarrow> Some (Full cs None, ctx\<lparr>enc_hash := he1, enc_storage := es\<rparr>, puts)
      | Some hh \<Rightarrow> do {
          bs \<leftarrow> enc_ToBytes (int storage_list_start) es;
          es1 \<leftarrow> (if \<not> is_root then do {
              e \<leftarrow> enc_RevertToListStart storage_list_start es;
              AppendString hh e } else Some es);
          Some (if levels \<le> full_nodes_above then Node_Hash hh else Full cs (Some hh),
            ctx\<lparr>enc_hash := he1, enc_storage := es1\<rparr>, puts @ [PutNode hh bs]) }) }"

fun commit ::
  "('v \<Rightarrow> bytes \<times> bytes) \<Rightarrow> trie_env \<Rightarrow> byte \<Rightarrow> commit_context \<Rightarrow> byte \<Rightarrow> bytes \<Rightarrow> 'v node \<Rightarrow> 'v committed"
and commit_children ::
  "('v \<Rightarrow> bytes \<times> bytes) \<Rightarrow> trie_env \<Rightarrow> byte \<Rightarrow> commit_context \<Rightarrow> byte \<Rightarrow> bytes \<Rightarrow> nat \<Rightarrow> 'v node option list
     \<Rightarrow> ('v node option list \<times> commit_context \<times> trie_put list) option" where
  "commit X E levels ctx full_nodes_above key_prefix (Node_Hash h) = do {
     ctx1 \<leftarrow> both_AppendString h ctx;
     Some (Node_Hash h, ctx1, []) }"
| "commit X E levels ctx full_nodes_above key_prefix (Short kp (Some (Value_Node vn)) h) = do {
     (storage_list_start, hash_list_start, ctx1) \<leftarrow> short_open kp h ctx;
     (val, ctx2, puts) \<leftarrow> (case vn of
         None \<Rightarrow> do { _ \<leftarrow> holds (h \<noteq> None); Some ([], ctx1, []) }
       | Some x \<Rightarrow> do {
           (val_enc_storage, val_enc_hash, puts) \<leftarrow> commit_value X (key_prefix @ kp) x;
           he \<leftarrow> he_AppendString val_enc_hash (enc_hash ctx1);
           Some (val_enc_storage, ctx1\<lparr>enc_hash := he\<rparr>, puts) });
     short_close E kp (Some (Value_Node vn)) h (key_prefix = []) (Some val) storage_list_start hash_list_start ctx2 puts }"
| "commit X E levels ctx full_nodes_above key_prefix (Short kp (Some c) h) = do {
     (storage_list_start, hash_list_start, ctx1) \<leftarrow> short_open kp h ctx;
     (c1, ctx2, puts) \<leftarrow> commit X E levels ctx1 full_nodes_above (key_prefix @ kp) c;
     short_close E kp (Some c1) h (key_prefix = []) None storage_list_start hash_list_start ctx2 puts }"
| "commit X E levels ctx full_nodes_above key_prefix (Full cs (Some h)) = do {
     ctx1 \<leftarrow> both_AppendString h ctx;
     Some (if levels \<le> full_nodes_above then Node_Hash h else Full cs (Some h), ctx1, []) }"
| "commit X E levels ctx full_nodes_above key_prefix (Full cs None) = do {
     let (hash_list_start, he) = he_ListStart (enc_hash ctx);
     let (storage_list_start, es) = enc_ListStart (enc_storage ctx);
     (cs1, ctx1, puts) \<leftarrow> commit_children X E levels (ctx\<lparr>enc_hash := he, enc_storage := es\<rparr>) full_nodes_above key_prefix 0 cs;
     full_close E levels full_nodes_above cs1 (key_prefix = []) storage_list_start hash_list_start ctx1 puts }"
| "commit X E levels ctx full_nodes_above key_prefix _ = None"
| "commit_children X E levels ctx full_nodes_above key_prefix i [] = Some ([], ctx, [])"
| "commit_children X E levels ctx full_nodes_above key_prefix i (None # cs) = do {
     ctx1 \<leftarrow> both_AppendString [] ctx;
     (cs1, ctx2, puts) \<leftarrow> commit_children X E levels ctx1 full_nodes_above key_prefix (Suc i) cs;
     Some (None # cs1, ctx2, puts) }"
| "commit_children X E levels ctx full_nodes_above key_prefix i (Some c # cs) = do {
     (c1, ctx1, puts1) \<leftarrow> commit X E levels ctx (full_nodes_above + 1) (key_prefix @ [of_nat i]) c;
     (cs1, ctx2, puts2) \<leftarrow> commit_children X E levels ctx1 full_nodes_above key_prefix (Suc i) cs;
     Some (Some c1 # cs1, ctx2, puts1 @ puts2) }"

text \<open>The encoders are kept between commits and reset at the start of one.\<close>

definition empty_context :: commit_context where
  "empty_context = \<lparr>enc_hash = \<lparr>encoder = empty_encoder, disabled = False\<rparr>, enc_storage = empty_encoder\<rparr>"

definition trie_Commit ::
  "('v \<Rightarrow> bytes \<times> bytes) \<Rightarrow> trie_env \<Rightarrow> 'v Writer \<Rightarrow> (bytes option \<times> 'v Writer \<times> trie_put list) option" where
  "trie_Commit X E w =
     (case root w of
        None \<Rightarrow> Some (None, w, [])
      | Some n \<Rightarrow> do {
          h \<leftarrow> get_hash n;
          (case h of
             Some hh \<Rightarrow> Some (Some hh, w, [])
           | None \<Rightarrow> do {
               (n1, _, puts) \<leftarrow> commit X E (FullNodeLevelsToCache w) empty_context 0 [] n;
               h1 \<leftarrow> get_hash n1;
               hh \<leftarrow> h1;
               Some (Some hh, w\<lparr>root := Some n1\<rparr>, puts) }) })"

end
