(* ===== verification/Trie_Spec.thy ===== *)
theory Trie_Spec
  imports Trie_Encoding
begin

section \<open>Patricia trees without hashes\<close>

text \<open>
  What the nodes of the trie stand for once every hash is replaced by the node it is the hash of: a tree of leaves,
  extensions and branches over nibbles. \<open>tree_ok\<close> is the shape that the trie keeps: an extension has a branch below it, a branch
  has at least two children, a leaf ends its key with the terminator. A tree of this shape is determined by its
  content, so that the tree, and with it the root hash, does not depend on the order of the writes.
\<close>

datatype 'a mpt = Leaf bytes 'a | Ext bytes "'a mpt" | Branch "'a mpt option list"

fun is_branch :: "'a mpt \<Rightarrow> bool" where
  "is_branch (Branch _) = True"
| "is_branch _ = False"

definition branch_at :: "'b option list \<Rightarrow> byte \<Rightarrow> 'b option" where
  "branch_at ts x = (if unat x < length ts then ts ! unat x else None)"

lemma branch_at_member: "branch_at ts x = Some t \<Longrightarrow> Some t \<in> set ts"
  by (auto simp: branch_at_def split: if_splits dest: nth_mem)

lemma size_member: "Some t \<in> set ts \<Longrightarrow> size t < Suc (size_list (size_option size) ts)"
  by (induction ts) auto

lemma size_branch_at [termination_simp]: "branch_at ts x = Some t \<Longrightarrow> size t < Suc (size_list (size_option size) ts)"
  by (rule size_member) (rule branch_at_member)

fun lookup :: "'a mpt \<Rightarrow> bytes \<Rightarrow> 'a option" where
  "lookup (Leaf kp v) k = (if k = kp then Some v else None)"
| "lookup (Ext kp t) k = (if take (length kp) k = kp then lookup t (drop (length kp) k) else None)"
| "lookup (Branch ts) [] = None"
| "lookup (Branch ts) (x # k) = (case branch_at ts x of None \<Rightarrow> None | Some t \<Rightarrow> lookup t k)"

text \<open>The tree at depth \<open>d\<close>: keys have \<open>HexKeyLen - d\<close> nibbles left, the terminator among them.\<close>

fun tree_ok :: "nat \<Rightarrow> 'a mpt \<Rightarrow> bool" where
  "tree_ok d (Leaf kp v) \<longleftrightarrow> d + length kp = HexKeyLen \<and> (\<exists>ns. kp = ns @ [16] \<and> (\<forall>x\<in>set ns. nibble x))"
| "tree_ok d (Ext kp t) \<longleftrightarrow> kp \<noteq> [] \<and> (\<forall>x\<in>set kp. nibble x) \<and> is_branch t \<and> tree_ok (d + length kp) t"
| "tree_ok d (Branch ts) \<longleftrightarrow>
     length ts = 16 \<and> (\<exists>i<16. \<exists>j<16. i \<noteq> j \<and> ts ! i \<noteq> None \<and> ts ! j \<noteq> None) \<and>
     (\<forall>t. Some t \<in> set ts \<longrightarrow> tree_ok (Suc d) t)"

subsection \<open>Writes\<close>

definition lower :: "'a mpt \<Rightarrow> bytes \<Rightarrow> 'a mpt" where
  "lower t s = (case t of Leaf _ v \<Rightarrow> Leaf s v | Ext _ c \<Rightarrow> if s = [] then c else Ext s c | Branch ts \<Rightarrow> Branch ts)"

definition fork :: "byte \<Rightarrow> 'a mpt \<Rightarrow> byte \<Rightarrow> 'a mpt \<Rightarrow> 'a mpt" where
  "fork x s y t = Branch ((replicate 16 None)[unat x := Some s, unat y := Some t])"

definition prolong :: "bytes \<Rightarrow> 'a mpt \<Rightarrow> 'a mpt" where
  "prolong p t = (case t of Leaf kp v \<Rightarrow> Leaf (p @ kp) v | Ext kp c \<Rightarrow> Ext (p @ kp) c
     | Branch ts \<Rightarrow> if p = [] then Branch ts else Ext p (Branch ts))"

definition split_short :: "bytes \<Rightarrow> 'a \<Rightarrow> bytes \<Rightarrow> 'a mpt \<Rightarrow> 'a mpt" where
  "split_short k v kp t =
     (let m = prefixLen k kp in
      prolong (take m k) (fork (kp ! m) (lower t (drop (Suc m) kp)) (k ! m) (Leaf (drop (Suc m) k) v)))"

fun ins :: "bytes \<Rightarrow> 'a \<Rightarrow> 'a mpt \<Rightarrow> 'a mpt" where
  "ins k v (Leaf kp u) = (if k = kp then Leaf kp v else split_short k v kp (Leaf kp u))"
| "ins k v (Ext kp t) =
     (if prefixLen k kp = length kp then Ext kp (ins (drop (length kp) k) v t) else split_short k v kp (Ext kp t))"
| "ins [] v (Branch ts) = Branch ts"
| "ins (x # k) v (Branch ts) =
     Branch (ts[unat x := Some (case branch_at ts x of None \<Rightarrow> Leaf k v | Some t \<Rightarrow> ins k v t)])"

text \<open>\<open>del\<close> of a key that is there; the result is empty when it was the only one.\<close>

definition others :: "'b option list \<Rightarrow> nat \<Rightarrow> nat list" where
  "others ts i = map fst (filter (\<lambda>(j, c). j \<noteq> i \<and> c \<noteq> None) (enumerate 0 ts))"

definition unbranch :: "'a mpt option list \<Rightarrow> nat \<Rightarrow> 'a mpt" where
  "unbranch ts i =
     (case others ts i of
        [j] \<Rightarrow> prolong [of_nat j] (the (ts ! j))
      | _ \<Rightarrow> Branch (ts[i := None]))"

fun del :: "bytes \<Rightarrow> 'a mpt \<Rightarrow> 'a mpt option" where
  "del k (Leaf kp v) = None"
| "del k (Ext kp t) = map_option (prolong kp) (del (drop (length kp) k) t)"
| "del [] (Branch ts) = Some (Branch ts)"
| "del (x # k) (Branch ts) =
     (case branch_at ts x of
        None \<Rightarrow> Some (Branch ts)
      | Some t \<Rightarrow>
          (case del k t of
             Some t1 \<Rightarrow> Some (Branch (ts[unat x := Some t1]))
           | None \<Rightarrow> Some (unbranch ts (unat x))))"

subsection \<open>Keys\<close>

definition key_at :: "nat \<Rightarrow> bytes \<Rightarrow> bool" where
  "key_at d k \<longleftrightarrow> d + length k = HexKeyLen \<and> (\<exists>ns. k = ns @ [16] \<and> (\<forall>x\<in>set ns. nibble x))"

lemma key_at_nonempty: "key_at d k \<Longrightarrow> k \<noteq> []"
  by (auto simp: key_at_def)

lemma key_at_drop: "key_at d k \<Longrightarrow> n < length k \<Longrightarrow> key_at (d + n) (drop n k)"
  unfolding key_at_def by (clarsimp simp: less_Suc_eq_le) (metis in_set_dropD)

lemma key_at_tl: "key_at d (x # k) \<Longrightarrow> k \<noteq> [] \<Longrightarrow> key_at (Suc d) k"
  using key_at_drop [of d "x # k" 1] by simp

lemma key_at_nth: "key_at d k \<Longrightarrow> i < length k \<Longrightarrow> nibble (k ! i) \<longleftrightarrow> Suc i < length k"
  unfolding key_at_def by (auto simp: nth_append less_Suc_eq)

lemma key_at_last: "key_at d k \<Longrightarrow> Suc i = length k \<Longrightarrow> k ! i = 16"
  unfolding key_at_def by (auto simp: nth_append)

lemma tree_ok_Leaf: "tree_ok d (Leaf kp v) \<longleftrightarrow> key_at d kp"
  by (simp add: key_at_def)

declare tree_ok.simps(1) [simp del] tree_ok_Leaf [simp]

lemma ex_child: "tree_ok d (Branch ts) \<Longrightarrow> \<exists>i t. i < 16 \<and> ts ! i = Some t \<and> tree_ok (Suc d) t"
  by auto (metis nth_mem option.exhaust)

lemma tree_ok_depth: "tree_ok d t \<Longrightarrow> d < HexKeyLen"
proof (induction t arbitrary: d rule: measure_induct_rule [of size])
  case (less t)
  show ?case
  proof (cases t)
    case (Leaf kp v)
    with less.prems show ?thesis by (auto simp: key_at_def)
  next
    case (Ext kp c)
    with less.prems less.IH [of c "d + length kp"] show ?thesis by simp
  next
    case (Branch ts)
    with less.prems obtain i c where "i < 16" "ts ! i = Some c" "tree_ok (Suc d) c" using ex_child by blast
    moreover from this have "Some c \<in> set ts" using less.prems Branch by (auto intro: nth_mem simp flip: \<open>ts ! i = Some c\<close>)
    ultimately show ?thesis using less.IH [of c "Suc d"] size_member [of c ts] Branch by simp
  qed
qed

lemma branch_depth: "tree_ok d t \<Longrightarrow> is_branch t \<Longrightarrow> Suc d < HexKeyLen"
  by (cases t) (auto dest!: tree_ok_depth ex_child simp del: tree_ok.simps)

lemma branch_at_ok: "tree_ok d (Branch ts) \<Longrightarrow> branch_at ts x = Some t \<Longrightarrow> tree_ok (Suc d) t"
  using branch_at_member by fastforce

text \<open>Where a key leaves the key of a short node, both go on with a nibble.\<close>

lemma diverge_leaf:
  assumes "key_at d k" "key_at d kp" "k \<noteq> kp"
  shows "prefixLen k kp < length k \<and> prefixLen k kp < length kp \<and> nibble (k ! prefixLen k kp) \<and>
    nibble (kp ! prefixLen k kp) \<and> Suc (prefixLen k kp) < length k"
proof -
  let ?m = "prefixLen k kp"
  have len: "length k = length kp" using assms(1,2) by (simp add: key_at_def)
  have "?m \<noteq> length k"
  proof
    assume "?m = length k"
    with prefixLen_take [of k kp] len have "k = kp" by simp
    with assms(3) show False by simp
  qed
  with prefixLen_le(1) [of k kp] have m: "?m < length k" by simp
  with len prefixLen_differs [of k kp] have ne: "k ! ?m \<noteq> kp ! ?m" by simp
  have "Suc ?m \<noteq> length k" using ne key_at_last [OF assms(1)] key_at_last [OF assms(2)] len by metis
  with m key_at_nth [OF assms(1) m] key_at_nth [OF assms(2), of ?m] len show ?thesis by simp
qed

lemma diverge_ext:
  assumes "key_at d k" "tree_ok d (Ext kp t)" "prefixLen k kp \<noteq> length kp"
  shows "prefixLen k kp < length k \<and> prefixLen k kp < length kp \<and> nibble (k ! prefixLen k kp) \<and>
    nibble (kp ! prefixLen k kp) \<and> Suc (prefixLen k kp) < length k"
proof -
  let ?m = "prefixLen k kp"
  have m: "?m < length kp" using assms(3) prefixLen_le(2) [of k kp] by simp
  have "Suc (d + length kp) < HexKeyLen" using assms(2) branch_depth by auto
  then have l: "Suc (length kp) < length k" using assms(1) by (auto simp: key_at_def)
  with m key_at_nth [OF assms(1), of ?m] assms(2) show ?thesis by simp
qed

lemma ext_shorter: "key_at d k \<Longrightarrow> tree_ok d (Ext kp t) \<Longrightarrow> Suc (length kp) < length k"
  using branch_depth [of "d + length kp" t] by (auto simp: key_at_def)

subsection \<open>What a write does to the content\<close>

lemma take_prefix_iff: "take (length p) k = p \<longleftrightarrow> (\<exists>r. k = p @ r)"
  by (metis append_eq_conv_conj append_take_drop_id)

lemma lookup_Ext: "lookup (Ext kp t) (kp @ r) = lookup t r" "\<nexists>r. k = kp @ r \<Longrightarrow> lookup (Ext kp t) k = None"
  by (auto simp: take_prefix_iff)

declare lookup.simps(2) [simp del] lookup_Ext(1) [simp]

lemma lookup_Ext_append: "lookup (Ext (p @ q) t) (p @ r) = lookup (Ext q t) r"
  by (simp add: lookup.simps(2))

lemma lookup_prolong: "lookup (prolong p t) (p @ k) = lookup t k" "\<nexists>r. k' = p @ r \<Longrightarrow> lookup (prolong p t) k' = None"
proof -
  show "lookup (prolong p t) (p @ k) = lookup t k" by (cases t) (auto simp: prolong_def lookup_Ext_append)
  show "lookup (prolong p t) k' = None" if "\<nexists>r. k' = p @ r"
    using that by (cases t) (auto simp: prolong_def intro!: lookup_Ext(2))
qed

definition short_key :: "'a mpt \<Rightarrow> bytes \<Rightarrow> bool" where
  "short_key t kp \<longleftrightarrow> (\<exists>v. t = Leaf kp v) \<or> (\<exists>c. t = Ext kp c)"

lemma lookup_lower:
  assumes "short_key t (q @ x # s)"
  shows "lookup t (q @ x # r) = lookup (lower t s) r" "\<nexists>r. k = q @ x # r \<Longrightarrow> lookup t k = None"
proof -
  show "lookup t (q @ x # r) = lookup (lower t s) r"
    using assms lookup_Ext_append [of "q @ [x]" s] by (auto simp: short_key_def lower_def lookup.simps(2))
  show "lookup t k = None" if "\<nexists>r. k = q @ x # r"
    using assms that by (auto simp: short_key_def intro!: lookup_Ext(2))
qed

lemma lookup_fork:
  assumes "unat x < 16" "unat y < 16" "x \<noteq> y"
  shows "lookup (fork x s y t) [] = None"
    "lookup (fork x s y t) (z # k) = (if z = x then lookup s k else if z = y then lookup t k else None)"
  using assms by (auto simp: fork_def branch_at_def nth_list_update word_unat_eq_iff split: if_splits)

lemma lookup_split_short:
  assumes "short_key t kp" and m: "prefixLen k kp < length k" "prefixLen k kp < length kp"
    and "nibble (k ! prefixLen k kp)" "nibble (kp ! prefixLen k kp)"
  shows "lookup (split_short k v kp t) k' = (if k' = k then Some v else lookup t k')"
proof -
  let ?m = "prefixLen k kp"
  define q x y s r where "q = take ?m k" and "x = kp ! ?m" and "y = k ! ?m" and "s = drop (Suc ?m) kp" and "r = drop (Suc ?m) k"
  have k: "k = q @ y # r" using m(1) by (simp add: q_def y_def r_def id_take_nth_drop)
  have "take ?m k = take ?m kp" by (rule prefixLen_take)
  then have kp: "kp = q @ x # s" using m(2) by (simp add: q_def x_def s_def id_take_nth_drop)
  have xy: "unat x < 16" "unat y < 16" "x \<noteq> y" using assms(4,5) prefixLen_differs [OF m]
    by (auto simp: nibble_def word_less_nat_alt x_def y_def)
  have split: "split_short k v kp t = prolong q (fork x (lower t s) y (Leaf r v))"
    by (simp add: split_short_def Let_def q_def x_def y_def s_def r_def)
  note low = lookup_lower [of t q x s, folded kp, OF assms(1)]
  show ?thesis
  proof (cases "\<exists>u. k' = q @ u")
    case True
    then obtain u where u: "k' = q @ u" by blast
    show ?thesis
    proof (cases u)
      case Nil
      then show ?thesis using u k low(2) [of k'] unfolding split
        by (simp add: lookup_fork(1) [OF xy] lookup_prolong(1) [of q _ "[]", simplified])
    next
      case (Cons z u')
      show ?thesis
      proof (cases "z = x")
        case True
        then show ?thesis using u k Cons low(1) [of u'] xy(3) unfolding split
          by (simp add: lookup_prolong(1) lookup_fork(2) [OF xy])
      next
        case False
        then show ?thesis using u k Cons low(2) [of k'] unfolding split
          by (auto simp: lookup_prolong(1) lookup_fork(2) [OF xy])
      qed
    qed
  next
    case False
    then show ?thesis using k low(2) [of k'] unfolding split by (auto simp: lookup_prolong(2) [OF False])
  qed
qed

lemma lookup_ins:
  assumes "tree_ok d t" "key_at d k"
  shows "lookup (ins k v t) k' = (if k' = k then Some v else lookup t k')"
  using assms
proof (induction k v t arbitrary: d k' rule: ins.induct)
  case (1 k v kp u)
  show ?case
  proof (cases "k = kp")
    case False
    with 1 diverge_leaf [of d k kp] lookup_split_short [of "Leaf kp u" kp k v k'] show ?thesis
      by (simp add: short_key_def)
  qed simp
next
  case (2 k v kp t)
  show ?case
  proof (cases "prefixLen k kp = length kp")
    case True
    have l: "length kp < length k" using ext_shorter 2(3,2) by fastforce
    obtain r where r: "k = kp @ r" using prefixLen_take [of k kp] True take_prefix_iff [of kp k] by auto
    have "key_at (d + length kp) r" using key_at_drop [OF 2(3) l] r by simp
    with 2(1) [OF True, of "d + length kp"] 2(2) r
    have IH: "lookup (ins r v t) k'' = (if k'' = r then Some v else lookup t k'')" for k'' by simp
    show ?thesis
    proof (cases "\<exists>u. k' = kp @ u")
      case u: True
      then obtain u where "k' = kp @ u" by blast
      then show ?thesis using True r IH by simp
    next
      case False
      then show ?thesis using True r by (auto simp: lookup_Ext(2) [OF False])
    qed
  next
    case False
    with 2 diverge_ext [OF 2(3,2) False] lookup_split_short [of "Ext kp t" kp k v k'] show ?thesis
      by (simp add: short_key_def)
  qed
next
  case (3 v ts)
  then show ?case by (simp add: key_at_def)
next
  case (4 x k v ts)
  have d: "Suc d < HexKeyLen" using branch_depth [OF 4(2)] by simp
  then have k: "k \<noteq> []" using 4(3) by (auto simp: key_at_def)
  then have x: "unat x < length ts" using key_at_nth [OF 4(3), of 0] 4(2) by (simp add: nibble_def word_less_nat_alt)
  have kk: "key_at (Suc d) k" using key_at_tl [OF 4(3) k] .
  show ?case
  proof (cases k')
    case (Cons y r)
    show ?thesis
    proof (cases "y = x")
      case True
      show ?thesis
      proof (cases "branch_at ts x")
        case (Some t)
        then show ?thesis using Cons True x 4(1) [OF Some branch_at_ok [OF 4(2) Some] kk, of r] by (simp add: branch_at_def)
      qed (use Cons True x in \<open>simp add: branch_at_def\<close>)
    next
      case False
      then have "unat y \<noteq> unat x" by (simp add: word_unat_eq_iff)
      then show ?thesis using Cons False by (simp add: branch_at_def)
    qed
  qed simp
qed

lemma short_ok:
  assumes "short_key t kp" "tree_ok d t" "n < length kp" "nibble (kp ! n)"
  shows "tree_ok (d + Suc n) (lower t (drop (Suc n) kp))"
proof (cases t)
  case (Leaf kp' v)
  then have kp: "key_at d kp" using assms(1,2) by (simp add: short_key_def)
  with key_at_nth [OF kp assms(3)] assms(4) key_at_drop [OF kp, of "Suc n"] Leaf show ?thesis by (simp add: lower_def)
next
  case (Ext kp' c)
  then have kp: "kp' = kp" "\<forall>x\<in>set kp. nibble x" "is_branch c" "tree_ok (d + length kp) c"
    using assms(1,2) by (auto simp: short_key_def)
  show ?thesis
  proof (cases "drop (Suc n) kp = []")
    case True
    then have "length kp = Suc n" using assms(3) by simp
    then show ?thesis using Ext kp True by (simp add: lower_def)
  next
    case False
    have "d + Suc n + length (drop (Suc n) kp) = d + length kp" using assms(3) by simp
    then have "tree_ok (d + Suc n + length (drop (Suc n) kp)) c" using kp(4) by (simp only:)
    with False show ?thesis using Ext kp(1-3) by (auto simp: lower_def dest: in_set_dropD simp del: length_drop)
  qed
qed (use assms in \<open>simp add: short_key_def\<close>)

lemma fork_ok:
  assumes "nibble x" "nibble y" "x \<noteq> y" "tree_ok (Suc d) s" "tree_ok (Suc d) t"
  shows "tree_ok d (fork x s y t)"
proof -
  have xy: "unat x < 16" "unat y < 16" "unat x \<noteq> unat y"
    using assms by (auto simp: nibble_def word_less_nat_alt word_unat_eq_iff)
  then have "\<exists>i<16. \<exists>j<16. i \<noteq> j \<and> (replicate 16 None)[unat x := Some s, unat y := Some t] ! i \<noteq> None \<and>
      (replicate 16 None)[unat x := Some s, unat y := Some t] ! j \<noteq> None"
    by (intro exI [of _ "unat x"] exI [of _ "unat y"] conjI) auto
  moreover have "tree_ok (Suc d) u" if "Some u \<in> set ((replicate 16 None)[unat x := Some s, unat y := Some t])" for u
    using that assms(4,5) by (auto dest!: set_update_subset_insert [THEN subsetD])
  ultimately show ?thesis unfolding fork_def by simp
qed

lemma prolong_ok:
  assumes "tree_ok (d + length p) t" "\<forall>x\<in>set p. nibble x"
  shows "tree_ok d (prolong p t)"
  using assms by (cases t) (auto simp: prolong_def add.assoc key_at_def)

lemma split_short_ok:
  assumes "short_key t kp" "tree_ok d t" "key_at d k" and m: "prefixLen k kp < length k" "prefixLen k kp < length kp"
    and "nibble (k ! prefixLen k kp)" "nibble (kp ! prefixLen k kp)"
  shows "tree_ok d (split_short k v kp t)"
proof -
  let ?m = "prefixLen k kp"
  have l: "Suc ?m < length k" using key_at_nth [OF assms(3) m(1)] assms(6) by simp
  have low: "tree_ok (Suc (d + ?m)) (lower t (drop (Suc ?m) kp))" using short_ok [OF assms(1,2) m(2) assms(7)] by simp
  have leaf: "tree_ok (Suc (d + ?m)) (Leaf (drop (Suc ?m) k) v)" using key_at_drop [OF assms(3) l] by simp
  have ne: "kp ! ?m \<noteq> k ! ?m" using prefixLen_differs [OF m] by simp
  have "tree_ok (d + length (take ?m k)) (fork (kp ! ?m) (lower t (drop (Suc ?m) kp)) (k ! ?m) (Leaf (drop (Suc ?m) k) v))"
    using fork_ok [OF assms(7,6) ne low leaf] m(1) by simp
  moreover have "\<forall>x\<in>set (take ?m k). nibble x"
    using key_at_nth [OF assms(3)] m(1) l by (auto simp: in_set_conv_nth)
  ultimately show ?thesis by (simp add: split_short_def Let_def prolong_ok)
qed

lemma ins_ok:
  assumes "tree_ok d t" "key_at d k"
  shows "tree_ok d (ins k v t) \<and> (is_branch t \<longrightarrow> is_branch (ins k v t))"
  using assms
proof (induction k v t arbitrary: d rule: ins.induct)
  case (1 k v kp u)
  show ?case
  proof (cases "k = kp")
    case False
    with 1 diverge_leaf [of d k kp] split_short_ok [of "Leaf kp u" kp d k v] show ?thesis by (simp add: short_key_def)
  qed (use 1 in simp)
next
  case (2 k v kp t)
  show ?case
  proof (cases "prefixLen k kp = length kp")
    case True
    have l: "length kp < length k" using ext_shorter 2(3,2) by fastforce
    with 2(1) [OF True, of "d + length kp"] 2(2) key_at_drop [OF 2(3) l] True show ?thesis by simp
  next
    case False
    with 2 diverge_ext [OF 2(3,2) False] split_short_ok [of "Ext kp t" kp d k v] show ?thesis by (simp add: short_key_def)
  qed
next
  case (3 v ts)
  then show ?case by (simp add: key_at_def)
next
  case (4 x k v ts)
  have d: "Suc d < HexKeyLen" using branch_depth [OF 4(2)] by simp
  then have k: "k \<noteq> []" using 4(3) by (auto simp: key_at_def)
  then have x: "unat x < 16" using key_at_nth [OF 4(3), of 0] by (simp add: nibble_def word_less_nat_alt)
  have kk: "key_at (Suc d) k" using key_at_tl [OF 4(3) k] .
  let ?c = "case branch_at ts x of None \<Rightarrow> Leaf k v | Some t \<Rightarrow> ins k v t"
  have c: "tree_ok (Suc d) ?c"
    using kk 4(1) [OF _ _ kk] branch_at_ok [OF 4(2)] by (auto split: option.split)
  have len: "length ts = 16" using 4(2) by simp
  obtain i j where ij: "i < 16" "j < 16" "i \<noteq> j" "ts ! i \<noteq> None" "ts ! j \<noteq> None" using 4(2) by auto
  then have "ts[unat x := Some ?c] ! i \<noteq> None" "ts[unat x := Some ?c] ! j \<noteq> None" using len x
    by (simp_all add: nth_list_update)
  with ij have two: "\<exists>i<16. \<exists>j<16. i \<noteq> j \<and> ts[unat x := Some ?c] ! i \<noteq> None \<and> ts[unat x := Some ?c] ! j \<noteq> None"
    by blast
  have "tree_ok (Suc d) t" if "Some t \<in> set (ts[unat x := Some ?c])" for t
    using set_update_subset_insert [of ts "unat x" "Some ?c"] that c 4(2) by auto
  with two len show ?case by simp
qed

lemma others_set: "j \<in> set (others ts i) \<longleftrightarrow> j < length ts \<and> j \<noteq> i \<and> ts ! j \<noteq> None"
  by (auto simp: others_def in_set_enumerate_eq image_iff)

lemma others_distinct: "distinct (others ts i)"
  unfolding others_def by (intro distinct_map_filter) (simp add: map_fst_enumerate)

lemma unat_nibble: "j < 16 \<Longrightarrow> unat (of_nat j :: byte) = j"
  by (intro unat_of_nat_small) simp

lemma nibble_of_nat: "j < 16 \<Longrightarrow> nibble (of_nat j)"
  by (simp add: nibble_def word_less_nat_alt unat_nibble)

lemma lookup_Branch_update:
  assumes "i < length ts"
  shows "lookup (Branch (ts[i := c])) (y # r) =
    (if unat y = i then (case c of None \<Rightarrow> None | Some t \<Rightarrow> lookup t r) else lookup (Branch ts) (y # r))"
  using assms by (auto simp: branch_at_def)

lemma unbranch_spec:
  assumes ok: "tree_ok d (Branch ts)" and i: "i < 16"
  shows "tree_ok d (unbranch ts i)" "lookup (unbranch ts i) k = lookup (Branch (ts[i := None])) k"
proof -
  have len: "length ts = 16" using ok by simp
  have child: "tree_ok (Suc d) t" if "ts ! j = Some t" "j < 16" for j t
    using ok that len by (auto simp: in_set_conv_nth)
  have ne: "others ts i \<noteq> []"
  proof -
    obtain a b where "a < 16" "b < 16" "a \<noteq> b" "ts ! a \<noteq> None" "ts ! b \<noteq> None" using ok by auto
    then have "a \<in> set (others ts i) \<or> b \<in> set (others ts i)" using len by (auto simp: others_set)
    then show ?thesis by auto
  qed
  show "tree_ok d (unbranch ts i)"
  proof (cases "\<exists>j. others ts i = [j]")
    case True
    then obtain j where j: "others ts i = [j]" by blast
    then have "j < 16 \<and> ts ! j \<noteq> None" using others_set [of j ts i] len by simp
    then obtain t where t: "j < 16" "ts ! j = Some t" by blast
    then show ?thesis using j child [OF t(2,1)] prolong_ok [of d "[of_nat j]" t] nibble_of_nat [of j] by (simp add: unbranch_def)
  next
    case False
    then have "unbranch ts i = Branch (ts[i := None])" by (auto simp: unbranch_def split: list.split)
    moreover obtain a b xs where ab: "others ts i = a # b # xs" using ne False by (metis neq_Nil_conv)
    have "a \<noteq> b" using others_distinct [of ts i] ab by simp
    moreover have "a < 16" "a \<noteq> i" "ts ! a \<noteq> None" "b < 16" "b \<noteq> i" "ts ! b \<noteq> None"
      using others_set [of a ts i] others_set [of b ts i] ab len by auto
    ultimately have "\<exists>a<16. \<exists>b<16. a \<noteq> b \<and> ts[i := None] ! a \<noteq> None \<and> ts[i := None] ! b \<noteq> None" by (metis nth_list_update_neq)
    moreover have "tree_ok (Suc d) t" if "Some t \<in> set (ts[i := None])" for t
      using that ok by (auto dest!: set_update_subset_insert [THEN subsetD])
    ultimately show ?thesis using len \<open>unbranch ts i = _\<close> by simp
  qed
  show "lookup (unbranch ts i) k = lookup (Branch (ts[i := None])) k"
  proof (cases "\<exists>j. others ts i = [j]")
    case True
    then obtain j where j: "others ts i = [j]" by blast
    then have only: "l < 16 \<and> l \<noteq> i \<and> ts ! l \<noteq> None \<longleftrightarrow> l = j" for l using others_set [of l ts i] len by simp
    then obtain t where t: "j < 16" "j \<noteq> i" "ts ! j = Some t" by blast
    have un: "unbranch ts i = prolong [of_nat j] t" using j t by (simp add: unbranch_def)
    show ?thesis
    proof (cases k)
      case Nil
      then show ?thesis by (simp add: un lookup_prolong(2))
    next
      case (Cons y r)
      show ?thesis
      proof (cases "unat y = j")
        case True
        then have "y = of_nat j" by auto
        then show ?thesis using Cons t True len lookup_prolong(1) [of "[of_nat j]" t r] by (simp add: un branch_at_def)
      next
        case False
        then have "y \<noteq> of_nat j" using t(1) unat_nibble by auto
        then have "lookup (unbranch ts i) k = None" using Cons by (auto simp: un intro!: lookup_prolong(2))
        then show ?thesis using Cons False only [of "unat y"] len i by (auto simp: branch_at_def nth_list_update)
      qed
    qed
  next
    case False
    then show ?thesis by (auto simp: unbranch_def split: list.split)
  qed
qed

definition lookup_opt :: "'a mpt option \<Rightarrow> bytes \<Rightarrow> 'a option" where
  "lookup_opt t k = (case t of None \<Rightarrow> None | Some t \<Rightarrow> lookup t k)"

lemma lookup_opt_simps [simp]: "lookup_opt None k = None" "lookup_opt (Some t) k = lookup t k"
  by (simp_all add: lookup_opt_def)

definition tree_opt_ok :: "nat \<Rightarrow> 'a mpt option \<Rightarrow> bool" where
  "tree_opt_ok d t \<longleftrightarrow> (case t of None \<Rightarrow> True | Some t \<Rightarrow> tree_ok d t)"

lemma tree_opt_ok_simps [simp]: "tree_opt_ok d None" "tree_opt_ok d (Some t) \<longleftrightarrow> tree_ok d t"
  by (simp_all add: tree_opt_ok_def)

lemma del_spec:
  assumes "tree_ok d t" "lookup t k \<noteq> None"
  shows "tree_opt_ok d (del k t) \<and> lookup_opt (del k t) k' = (if k' = k then None else lookup t k')"
  using assms
proof (induction k t arbitrary: d k' rule: del.induct)
  case (1 k kp v)
  then show ?case by (simp split: if_splits)
next
  case (2 k kp t)
  obtain r where r: "k = kp @ r" using lookup_Ext(2) [of k kp t] 2(3) by auto
  have IH: "tree_opt_ok (d + length kp) (del r t) \<and> lookup_opt (del r t) k'' = (if k'' = r then None else lookup t k'')" for k''
    using 2(1) [of "d + length kp" k''] 2(2,3) r by simp
  have "tree_opt_ok d (map_option (prolong kp) (del r t))" using IH 2(2) prolong_ok [of d kp] by (cases "del r t") auto
  moreover have "lookup_opt (map_option (prolong kp) (del r t)) k' = (if k' = k then None else lookup (Ext kp t) k')"
  proof (cases "\<exists>u. k' = kp @ u")
    case True
    then obtain u where "k' = kp @ u" by blast
    then show ?thesis using IH [of u] r by (cases "del r t") (auto simp: lookup_prolong(1))
  next
    case False
    then show ?thesis using lookup_Ext(2) [OF False, of t] lookup_prolong(2) [OF False] by (cases "del r t") auto
  qed
  ultimately show ?case using r by simp
next
  case (3 ts)
  then show ?case by simp
next
  case (4 x k ts)
  obtain c where c: "branch_at ts x = Some c" "lookup c k \<noteq> None" using 4(3) by (auto split: option.splits)
  have len: "length ts = 16" using 4(2) by simp
  have x: "unat x < 16" using c(1) len by (simp add: branch_at_def split: if_splits)
  have okc: "tree_ok (Suc d) c" using branch_at_ok [OF 4(2) c(1)] .
  have IH: "tree_opt_ok (Suc d) (del k c) \<and> lookup_opt (del k c) k'' = (if k'' = k then None else lookup c k'')" for k''
    using 4(1) [OF c(1) okc c(2)] .
  have upd: "lookup (Branch (ts[unat x := del k c])) k' = (if k' = x # k then None else lookup (Branch ts) k')"
  proof (cases k')
    case (Cons y r)
    then show ?thesis using IH [of r] c(1) x len lookup_Branch_update [of "unat x" ts "del k c" y r]
      by (auto simp: lookup_opt_def branch_at_def word_unat_eq_iff)
  qed simp
  show ?case
  proof (cases "del k c")
    case None
    then show ?thesis using c upd unbranch_spec [OF 4(2) x] by simp
  next
    case (Some c1)
    obtain i j where ij: "i < 16" "j < 16" "i \<noteq> j" "ts ! i \<noteq> None" "ts ! j \<noteq> None" using 4(2) by auto
    then have "ts[unat x := Some c1] ! i \<noteq> None" "ts[unat x := Some c1] ! j \<noteq> None"
      using len x by (simp_all add: nth_list_update)
    with ij have two: "\<exists>i<16. \<exists>j<16. i \<noteq> j \<and> ts[unat x := Some c1] ! i \<noteq> None \<and> ts[unat x := Some c1] ! j \<noteq> None"
      by blast
    have "tree_ok (Suc d) t" if "Some t \<in> set (ts[unat x := Some c1])" for t
      using that IH 4(2) Some by (auto dest!: set_update_subset_insert [THEN subsetD])
    with two len have "tree_ok d (Branch (ts[unat x := Some c1]))" by simp
    then show ?thesis using c upd Some by simp
  qed
qed

subsection \<open>The content determines the tree\<close>

lemma lookup_child: "i < length ts \<Longrightarrow> i < 256 \<Longrightarrow> lookup (Branch ts) (of_nat i # k) = lookup_opt (ts ! i) k"
  by (simp add: branch_at_def unat_of_nat_small lookup_opt_def)

lemma has_key: "tree_ok d t \<Longrightarrow> \<exists>k. lookup t k \<noteq> None"
proof (induction t arbitrary: d rule: measure_induct_rule [of size])
  case (less t)
  show ?case
  proof (cases t)
    case (Leaf kp v)
    then show ?thesis by auto
  next
    case (Ext kp c)
    with less.prems less.IH [of c "d + length kp"] obtain k where "lookup c k \<noteq> None" by auto
    with Ext show ?thesis by (intro exI [of _ "kp @ k"]) simp
  next
    case (Branch ts)
    with less.prems obtain i c where c: "i < 16" "ts ! i = Some c" "tree_ok (Suc d) c" using ex_child by blast
    have len: "length ts = 16" using less.prems Branch by simp
    have "Some c \<in> set ts" using c len by (metis nth_mem)
    with less.IH [of c "Suc d"] size_member [of c ts] Branch c obtain k where "lookup c k \<noteq> None" by auto
    with c Branch len lookup_child [of i ts k] show ?thesis by (intro exI [of _ "of_nat i # k"]) simp
  qed
qed

lemma branch_two_keys:
  assumes "tree_ok d (Branch ts)"
  obtains x y k l where "x \<noteq> y" "lookup (Branch ts) (x # k) \<noteq> None" "lookup (Branch ts) (y # l) \<noteq> None"
proof -
  obtain i j where ij: "i < 16" "j < 16" "i \<noteq> j" "ts ! i \<noteq> None" "ts ! j \<noteq> None" using assms by auto
  have len: "length ts = 16" using assms by simp
  have key: "\<exists>k. lookup (Branch ts) (of_nat a # k) \<noteq> None" if a: "a < 16" "ts ! a \<noteq> None" for a
  proof -
    obtain c where c: "ts ! a = Some c" using a by blast
    then have "tree_ok (Suc d) c" using assms a(1) len by (auto simp: in_set_conv_nth)
    then obtain k where "lookup c k \<noteq> None" using has_key by blast
    then have "lookup (Branch ts) (of_nat a # k) \<noteq> None" using c a len lookup_child [of a ts k] by simp
    then show ?thesis by blast
  qed
  moreover have "(of_nat i :: byte) \<noteq> of_nat j" using ij unat_nibble by metis
  ultimately show thesis using that [of "of_nat i" "of_nat j"] key [OF ij(1,4)] key [OF ij(2,5)] by blast
qed

lemma ext_two_keys:
  assumes "tree_ok d (Ext kp c)"
  obtains x y k l where "x \<noteq> y" "lookup (Ext kp c) (kp @ x # k) \<noteq> None" "lookup (Ext kp c) (kp @ y # l) \<noteq> None"
proof -
  obtain ts where "c = Branch ts" "tree_ok (d + length kp) (Branch ts)" using assms by (cases c) auto
  then show thesis using branch_two_keys [of "d + length kp" ts] that by (metis lookup_Ext(1))
qed

lemma common_prefix_shorter:
  assumes "x \<noteq> y" "p @ x # k = q @ r" "p @ y # l = q @ s"
  shows "length q \<le> length p"
proof (rule ccontr)
  assume "\<not> length q \<le> length p"
  then have "q ! length p = x" "q ! length p = y"
    using assms(2,3) by (metis nth_append nth_append_length linorder_not_le)+
  with assms(1) show False by simp
qed

lemma canonical_children:
  assumes "tree_ok d (Branch ts)" "tree_ok d (Branch ts')" "lookup (Branch ts) = lookup (Branch ts')"
    and IH: "\<And>c c'. Some c \<in> set ts \<Longrightarrow> tree_ok (Suc d) c \<Longrightarrow> tree_ok (Suc d) c' \<Longrightarrow> lookup c = lookup c' \<Longrightarrow> c = c'"
  shows "ts = ts'"
proof (rule nth_equalityI)
  have len: "length ts = 16" "length ts' = 16" using assms(1,2) by simp_all
  then show "length ts = length ts'" by simp
  fix i assume i: "i < length ts"
  have eq: "lookup_opt (ts ! i) k = lookup_opt (ts' ! i) k" for k
    using lookup_child [of i ts k] lookup_child [of i ts' k] assms(3) i len by simp
  have ok: "tree_ok (Suc d) c" if "ts ! i = Some c \<or> ts' ! i = Some c" for c
    using that assms(1,2) i len by (auto simp: in_set_conv_nth)
  show "ts ! i = ts' ! i"
  proof (cases "ts ! i")
    case None
    then show ?thesis using eq ok has_key by (cases "ts' ! i") fastforce+
  next
    case (Some c)
    then obtain c' where c': "ts' ! i = Some c'" using eq ok [of c] has_key [of "Suc d" c] by (cases "ts' ! i") auto
    then have "lookup c = lookup c'" using eq Some by auto
    moreover have "Some c \<in> set ts" using Some i by (metis nth_mem)
    ultimately show ?thesis using IH [of c c'] ok Some c' by auto
  qed
qed

lemma tree_canonical:
  assumes "tree_ok d t" "tree_ok d t'" "lookup t = lookup t'"
  shows "t = t'"
  using assms
proof (induction t arbitrary: d t' rule: measure_induct_rule [of size])
  case (less t)
  have one: False if "lookup (Leaf kp v) = lookup s" "lookup s k \<noteq> None" "lookup s l \<noteq> None" "k \<noteq> l" for kp v s k l
    using that by (metis lookup.simps(1))
  have heads: False if ext: "lookup (Ext kp c) = lookup (Branch ts)" "tree_ok d (Ext kp c)" "tree_ok d (Branch ts)" for kp c ts
  proof -
    obtain a q where a: "kp = a # q" using ext(2) by (cases kp) auto
    obtain x y k l where xy: "x \<noteq> y" "lookup (Branch ts) (x # k) \<noteq> None" "lookup (Branch ts) (y # l) \<noteq> None"
      using branch_two_keys [OF ext(3)] .
    then have "\<exists>r. x # k = kp @ r" "\<exists>r. y # l = kp @ r" using ext(1) lookup_Ext(2) by metis+
    with a xy(1) show False by auto
  qed
  show ?case
  proof (cases t)
    case (Leaf kp v)
    show ?thesis
    proof (cases t')
      case (Leaf kp' v')
      then show ?thesis using less.prems(3) \<open>t = Leaf kp v\<close> by (metis lookup.simps(1) option.inject option.distinct(1))
    next
      case (Ext kp' c')
      then obtain x y k l where "x \<noteq> y" "lookup t' (kp' @ x # k) \<noteq> None" "lookup t' (kp' @ y # l) \<noteq> None"
        using ext_two_keys [of d kp' c'] less.prems(2) by blast
      then show ?thesis using one [of kp v t' "kp' @ x # k" "kp' @ y # l"] less.prems(3) Leaf by (simp del: lookup.simps)
    next
      case (Branch ts')
      then obtain x y k l where "x \<noteq> y" "lookup t' (x # k) \<noteq> None" "lookup t' (y # l) \<noteq> None"
        using branch_two_keys [of d ts'] less.prems(2) by blast
      then show ?thesis using one [of kp v t' "x # k" "y # l"] less.prems(3) Leaf by (simp del: lookup.simps)
    qed
  next
    case t: (Ext kp c)
    then obtain ts where c: "c = Branch ts" "tree_ok (d + length kp) (Branch ts)" using less.prems(1) by (cases c) auto
    show ?thesis
    proof (cases t')
      case (Leaf kp' v')
      obtain x y k l where "x \<noteq> y" "lookup t (kp @ x # k) \<noteq> None" "lookup t (kp @ y # l) \<noteq> None"
        using ext_two_keys [of d kp c] less.prems(1) t by blast
      then show ?thesis using one [of kp' v' t "kp @ x # k" "kp @ y # l"] less.prems(3) Leaf by (simp del: lookup.simps)
    next
      case (Branch ts')
      then show ?thesis using heads [of kp c ts'] less.prems t by simp
    next
      case t': (Ext kp' c')
      then obtain ts' where c': "c' = Branch ts'" "tree_ok (d + length kp') (Branch ts')" using less.prems(2) by (cases c') auto
      have shorter: "length b \<le> length a \<and> (\<exists>r s. a @ r = b @ s)"
        if ab: "tree_ok d (Ext a e)" "lookup (Ext a e) = lookup (Ext b f)" for a b e f
      proof -
        obtain x y k l where xy: "x \<noteq> y" "lookup (Ext a e) (a @ x # k) \<noteq> None" "lookup (Ext a e) (a @ y # l) \<noteq> None"
          using ext_two_keys [OF ab(1)] .
        then obtain r s where rs: "a @ x # k = b @ r" "a @ y # l = b @ s" using ab(2) lookup_Ext(2) by metis
        then have "length b \<le> length a" using common_prefix_shorter [OF xy(1)] by blast
        with rs show ?thesis by blast
      qed
      have "length kp' \<le> length kp \<and> (\<exists>r s. kp @ r = kp' @ s)" "length kp \<le> length kp' \<and> (\<exists>r s. kp' @ r = kp @ s)"
        using less.prems unfolding t t' by (intro shorter [of kp c kp' c'] shorter [of kp' c' kp c]; simp)+
      then have kp: "kp = kp'" by (metis append_eq_append_conv le_antisym)
      have "lookup c r = lookup c' r" for r
        using fun_cong [OF less.prems(3), of "kp @ r"] t t' kp by simp
      then have "lookup c = lookup c'" by (rule ext)
      with less.IH [of c "d + length kp" c'] c c' kp t t' show ?thesis by simp
    qed
  next
    case t: (Branch ts)
    show ?thesis
    proof (cases t')
      case (Leaf kp' v')
      obtain x y k l where "x \<noteq> y" "lookup t (x # k) \<noteq> None" "lookup t (y # l) \<noteq> None"
        using branch_two_keys [of d ts] less.prems(1) t by blast
      then show ?thesis using one [of kp' v' t "x # k" "y # l"] less.prems(3) Leaf by (simp del: lookup.simps)
    next
      case (Ext kp' c')
      then show ?thesis using heads [of kp' c' ts] less.prems t by simp
    next
      case t': (Branch ts')
      have "ts = ts'"
      proof (rule canonical_children)
        show "tree_ok d (Branch ts)" "tree_ok d (Branch ts')" "lookup (Branch ts) = lookup (Branch ts')"
          using less.prems t t' by simp_all
        show "b = b'" if "Some b \<in> set ts" "tree_ok (Suc d) b" "tree_ok (Suc d) b'" "lookup b = lookup b'" for b b'
          using less.IH [of b "Suc d" b'] that size_member [of b ts] t by simp
      qed
      then show ?thesis using t t' by simp
    qed
  qed
qed

end
