(* ===== verification/Trie_Reference.thy ===== *)
theory Trie_Reference
  imports Rlp_Split Trie Trie_Spec
begin

section \<open>What the trie stores and hashes\<close>

text \<open>
  The encodings of a tree, as functions of the tree: \<open>ref_enc\<close> is the one that the root hash is taken from (the
  structural composition of the Merkle Patricia trie, with a node of fewer than 32 bytes in place and a longer one
  replaced by its hash), \<open>stor_enc\<close> the one that the database keeps. \<open>rep\<close> says which nodes in memory, with the hashes they
  cache and what the database has, stand for a tree.
\<close>

subsection \<open>Values in a row\<close>

lemma ReadKind_encodes:
  assumes "encodes k c enc" and "length (enc @ r) < 2 ^ 64"
  obtains tag total where "ReadKind (enc @ r) = Inr (k, tag, total)" "drop (unat tag) (take (unat total) (enc @ r)) = c"
    "drop (unat total) (enc @ r) = r" "take (unat total) (enc @ r) = enc"
proof -
  have "Split (enc @ r) = Inr (k, c, r)" by (rule Split_encodes [OF assms])
  then obtain tag total where rk: "ReadKind (enc @ r) = Inr (k, tag, total)" "drop (unat tag) (take (unat total) (enc @ r)) = c"
    "drop (unat total) (enc @ r) = r" by (auto simp: Split_def split: sum.splits)
  have "take (unat total) (enc @ r) @ r = enc @ r" using append_take_drop_id [of "unat total" "enc @ r"] rk(3) by simp
  then have "take (unat total) (enc @ r) = enc" by (rule append_same_eq [THEN iffD1])
  with rk show thesis by (rule that)
qed

definition is_value :: "bytes \<Rightarrow> bool" where
  "is_value enc \<longleftrightarrow> (\<exists>k c. encodes k c enc)"

lemma encodes_nonempty: "encodes k c enc \<Longrightarrow> enc \<noteq> []"
  by (auto simp: encodes_def puthead_def putint_SizeInBytes split: Kind.splits if_splits)

lemma count_values_concat:
  assumes "\<forall>x\<in>set xs. is_value x" "length (concat xs) < 2 ^ 64" "length (concat xs) \<le> fuel"
  shows "count_values fuel (concat xs) i = Inr (i + length xs)"
  using assms
proof (induction xs arbitrary: i fuel)
  case Nil
  then show ?case by (cases fuel) simp_all
next
  case (Cons x xs)
  obtain k c where e: "encodes k c x" using Cons.prems(1) by (auto simp: is_value_def)
  obtain tag total where rk: "ReadKind (x @ concat xs) = Inr (k, tag, total)" "drop (unat total) (x @ concat xs) = concat xs"
    using ReadKind_encodes [OF e, of "concat xs"] Cons.prems(2) by (metis concat.simps(2))
  obtain b bs where b: "x = b # bs" using encodes_nonempty [OF e] by (cases x) auto
  obtain f where f: "fuel = Suc f" "length (concat xs) \<le> f" using Cons.prems(3) b by (cases fuel) auto
  have "count_values f (concat xs) (i + 1) = Inr (i + 1 + length xs)" using Cons.IH [of f "i + 1"] Cons.prems f by simp
  with rk f b show ?case by simp
qed

lemma CountValues_concat:
  "\<forall>x\<in>set xs. is_value x \<Longrightarrow> length (concat xs) < 2 ^ 64 \<Longrightarrow> CountValues (concat xs) = Inr (length xs)"
  using count_values_concat [of xs "length (concat xs)" 0] by (simp add: CountValues_def)

definition rlp_list :: "bytes \<Rightarrow> bytes" where
  "rlp_list payload = puthead 0xC0 0xF7 (of_nat (length payload)) @ payload"

lemma rlp_list_encodes: "encodes KList c (rlp_list c)"
  by (simp add: encodes_def rlp_list_def)

lemma ToRLPString_encodes:
  "length b < 2 ^ 64 \<Longrightarrow> encodes (if length b = 1 \<and> b ! 0 < 0x80 then KByte else KString) b (ToRLPString b)"
  using rlp_encode_encodes [of b] by simp

lemma is_value_simps [simp]: "is_value (rlp_list c)" "length b < 2 ^ 64 \<Longrightarrow> is_value (ToRLPString b)"
  using rlp_list_encodes ToRLPString_encodes by (auto simp: is_value_def)

lemma SplitString_append:
  assumes "length (ToRLPString b @ r) < 2 ^ 64" "length b < 2 ^ 64"
  shows "SplitString (ToRLPString b @ r) = Inr (b, r)"
  using Split_encodes [OF ToRLPString_encodes [OF assms(2)] assms(1)] by (simp add: SplitString_def)

lemma length_ToRLPString: "length b < 56 \<Longrightarrow> length (ToRLPString b) \<le> Suc (length b)"
  "1 < length b \<Longrightarrow> length b < 56 \<Longrightarrow> length (ToRLPString b) = Suc (length b)"
  by (auto simp: ToRLPString_def Let_def)

lemma length_ToRLPString_le: "length (ToRLPString b) \<le> length b + 9"
  using SizeInBytes_le [of "of_nat (length b)"] by (simp add: ToRLPString_def Let_def putint_SizeInBytes)

lemma length_rlp_list: "length c < length (rlp_list c)" "length (rlp_list c) \<le> length c + 9"
  using SizeInBytes_le [of "of_nat (length c)"] by (simp_all add: rlp_list_def length_puthead headsize_small)

subsection \<open>The encodings of a tree\<close>

type_synonym trie_value = "bytes \<times> bytes"

definition compact :: "bytes \<Rightarrow> bytes" where
  "compact kp = the (hex_to_compact kp)"

definition node_ref :: "(bytes \<Rightarrow> bytes) \<Rightarrow> bytes \<Rightarrow> bytes" where
  "node_ref K enc = (if length enc < HashLength then enc else ToRLPString (K enc))"

fun ref_enc :: "(bytes \<Rightarrow> bytes) \<Rightarrow> trie_value mpt \<Rightarrow> bytes" where
  "ref_enc K (Leaf kp v) = rlp_list (ToRLPString (compact kp) @ ToRLPString (snd v))"
| "ref_enc K (Ext kp t) = rlp_list (ToRLPString (compact kp) @ node_ref K (ref_enc K t))"
| "ref_enc K (Branch ts) =
     rlp_list (concat (map (\<lambda>c. case c of None \<Rightarrow> ToRLPString [] | Some t \<Rightarrow> node_ref K (ref_enc K t)) ts) @ ToRLPString [])"

definition root_hash :: "(bytes \<Rightarrow> bytes) \<Rightarrow> trie_value mpt \<Rightarrow> bytes" where
  "root_hash K t = K (ref_enc K t)"

definition is_big :: "(bytes \<Rightarrow> bytes) \<Rightarrow> trie_value mpt \<Rightarrow> bool" where
  "is_big K t \<longleftrightarrow> HashLength \<le> length (ref_enc K t)"

fun stor_enc :: "(bytes \<Rightarrow> bytes) \<Rightarrow> nat \<Rightarrow> bool \<Rightarrow> trie_value mpt \<Rightarrow> bytes" where
  "stor_enc K mx atop (Leaf kp v) =
     rlp_list (ToRLPString (compact kp) @
       (if atop \<or> is_big K (Leaf kp v) then ToRLPString (root_hash K (Leaf kp v))
        else if length (fst v) \<le> mx then ToRLPString (fst v) else []))"
| "stor_enc K mx atop (Ext kp t) =
     rlp_list (ToRLPString (compact kp) @
       (if is_branch t \<and> is_big K t then ToRLPString (root_hash K t) else stor_enc K mx False t))"
| "stor_enc K mx atop (Branch ts) =
     rlp_list (concat (map (\<lambda>c. case c of None \<Rightarrow> ToRLPString []
       | Some t \<Rightarrow> if is_branch t \<and> is_big K t then ToRLPString (root_hash K t) else stor_enc K mx False t) ts))"

definition stor_item :: "(bytes \<Rightarrow> bytes) \<Rightarrow> nat \<Rightarrow> trie_value mpt \<Rightarrow> bytes" where
  "stor_item K mx t = (if is_branch t \<and> is_big K t then ToRLPString (root_hash K t) else stor_enc K mx False t)"

definition stor_child :: "(bytes \<Rightarrow> bytes) \<Rightarrow> nat \<Rightarrow> trie_value mpt option \<Rightarrow> bytes" where
  "stor_child K mx c = (case c of None \<Rightarrow> ToRLPString [] | Some t \<Rightarrow> stor_item K mx t)"

lemma stor_enc_Ext: "stor_enc K mx atop (Ext kp t) = rlp_list (ToRLPString (compact kp) @ stor_item K mx t)"
  by (simp add: stor_item_def)

lemma stor_enc_Branch: "stor_enc K mx atop (Branch ts) = rlp_list (concat (map (stor_child K mx) ts))"
  by (simp add: stor_child_def [abs_def] stor_item_def [abs_def] stor_enc.simps(3))

declare stor_enc.simps(2,3) [simp del]

definition ref_child :: "(bytes \<Rightarrow> bytes) \<Rightarrow> trie_value mpt option \<Rightarrow> bytes" where
  "ref_child K c = (case c of None \<Rightarrow> ToRLPString [] | Some t \<Rightarrow> node_ref K (ref_enc K t))"

lemma ref_enc_Branch: "ref_enc K (Branch ts) = rlp_list (concat (map (ref_child K) ts) @ ToRLPString [])"
  by (simp add: ref_child_def [abs_def])

declare ref_enc.simps(3) [simp del]

subsection \<open>Sizes\<close>

text \<open>The hash has 32 bytes; values are not empty, fit the counters of the encoder, and are shorter than a hash where they are stored in place.\<close>

definition value_ok :: "trie_value \<Rightarrow> bool" where
  "value_ok v \<longleftrightarrow> fst v \<noteq> [] \<and> length (snd v) < 2 ^ 31"

definition values_ok :: "trie_value mpt \<Rightarrow> bool" where
  "values_ok t \<longleftrightarrow> (\<forall>v\<in>set_mpt t. value_ok v)"

lemma values_ok_simps [simp]:
  "values_ok (Leaf kp v) \<longleftrightarrow> value_ok v"
  "values_ok (Ext kp t) \<longleftrightarrow> values_ok t"
  "values_ok (Branch ts) \<longleftrightarrow> (\<forall>t. Some t \<in> set ts \<longrightarrow> values_ok t)"
  by (auto simp: values_ok_def)

definition hash_like :: "(bytes \<Rightarrow> bytes) \<Rightarrow> bool" where
  "hash_like K \<longleftrightarrow> (\<forall>x. length (K x) = HashLength)"

lemma length_root_hash [simp]: "hash_like K \<Longrightarrow> length (root_hash K t) = 32"
  by (simp add: hash_like_def root_hash_def HashLength_def)

lemma length_hash_string [simp]: "hash_like K \<Longrightarrow> length (ToRLPString (K x)) = 33"
  using length_ToRLPString(2) [of "K x"] by (simp add: hash_like_def HashLength_def)

lemma length_root_string [simp]: "hash_like K \<Longrightarrow> length (ToRLPString (root_hash K t)) = 33"
  by (simp add: root_hash_def)

lemma node_ref_le: "hash_like K \<Longrightarrow> length (node_ref K x) \<le> 33"
  by (simp add: node_ref_def HashLength_def)

lemma ref_child_le: "hash_like K \<Longrightarrow> length (ref_child K c) \<le> 33"
  by (auto simp: ref_child_def node_ref_le ToRLPString_def split: option.split)

lemma compact_ok:
  assumes "short_key t kp" "tree_ok d t"
  shows "hex_to_compact kp = Some (compact kp)" "compact_to_hex (compact kp) = Some kp" "compact kp \<noteq> []"
    "length (compact kp) \<le> 33"
proof -
  have "hex_string kp \<and> (length kp \<le> MaxDepth \<or> length kp \<le> HexKeyLen \<and> hasTerm kp)"
  proof (cases t)
    case (Leaf kp' v)
    then obtain ns where "kp = ns @ [16]" "\<forall>x\<in>set ns. nibble x" "length kp \<le> HexKeyLen"
      using assms by (auto simp: short_key_def key_at_def)
    then show ?thesis by (auto simp: hex_string_def)
  next
    case (Ext kp' c)
    then have kp: "\<forall>x\<in>set kp. nibble x" "d + length kp < HexKeyLen"
      using assms tree_ok_depth [of "d + length kp" c] by (auto simp: short_key_def)
    then have "hex_string kp" by (auto simp: hex_string_def dest: in_set_butlastD)
    with kp(2) show ?thesis by (simp add: key_lengths)
  qed (use assms in \<open>simp add: short_key_def\<close>)
  then obtain c where "hex_to_compact kp = Some c" "c \<noteq> []" "length c \<le> HexKeyCompactLen" "compact_to_hex c = Some kp"
    using compact_roundtrip [of kp] by blast
  then show "hex_to_compact kp = Some (compact kp)" "compact_to_hex (compact kp) = Some kp" "compact kp \<noteq> []"
    "length (compact kp) \<le> 33" by (simp_all add: compact_def HexKeyCompactLen_def HashLength_def)
qed

lemma short_key_simps [simp]: "short_key (Leaf kp v) kp' \<longleftrightarrow> kp' = kp" "short_key (Ext kp c) kp' \<longleftrightarrow> kp' = kp"
  "\<not> short_key (Branch ts) kp"
  by (auto simp: short_key_def)

lemma compact_string_le:
  assumes "short_key t kp" "tree_ok d t"
  shows "length (ToRLPString (compact kp)) \<le> 34"
  using compact_ok [OF assms] length_ToRLPString(1) [of "compact kp"] by simp

lemma concat_map_le: "(\<And>x. x \<in> set xs \<Longrightarrow> length (f x) \<le> b) \<Longrightarrow> length (concat (map f xs)) \<le> length xs * b"
  by (induction xs) (auto simp: add_mono)

lemma ref_enc_le:
  assumes "hash_like K" "tree_ok d t" "values_ok t"
  shows "length (ref_enc K t) < 2 ^ 31 + 1000"
proof (cases t)
  case (Leaf kp v)
  then show ?thesis using assms(3) compact_string_le [OF _ assms(2), of kp] length_ToRLPString_le [of "snd v"]
      length_rlp_list(2) [of "ToRLPString (compact kp) @ ToRLPString (snd v)"] by (simp add: value_ok_def)
next
  case (Ext kp c)
  then show ?thesis using compact_string_le [OF _ assms(2), of kp] node_ref_le [OF assms(1), of "ref_enc K c"]
      length_rlp_list(2) [of "ToRLPString (compact kp) @ node_ref K (ref_enc K c)"] by simp
next
  case (Branch ts)
  have "length (concat (map (ref_child K) ts)) \<le> 16 * 33"
    using concat_map_le [of ts "ref_child K" 33] ref_child_le [OF assms(1)] assms(2) Branch by simp
  then show ?thesis using length_rlp_list(2) [of "concat (map (ref_child K) ts) @ ToRLPString []"]
    by (simp add: Branch ref_enc_Branch ToRLPString_def)
qed

end
