(* ===== verification/Trie_Rep.thy ===== *)
theory Trie_Rep
  imports Trie_Reference
begin

section \<open>Nodes that stand for a tree\<close>

subsection \<open>Sizes of what is stored\<close>

lemma ToRLPString_nonempty: "1 \<le> length (ToRLPString b)"
  by (auto simp: ToRLPString_def Let_def putint_SizeInBytes)

lemma big_child_string: "hash_like K \<Longrightarrow> is_big K t \<Longrightarrow> length (node_ref K (ref_enc K t)) = 33"
  by (simp add: node_ref_def is_big_def HashLength_def)

lemma small_child_string: "\<not> is_big K t \<Longrightarrow> node_ref K (ref_enc K t) = ref_enc K t"
  by (simp add: node_ref_def is_big_def)

lemma small_ext: "hash_like K \<Longrightarrow> \<not> is_big K (Ext kp t) \<Longrightarrow> \<not> is_big K t"
  using length_rlp_list(1) [of "ToRLPString (compact kp) @ node_ref K (ref_enc K t)"] big_child_string [of K t]
  by (auto simp: is_big_def HashLength_def)

lemma length_concat_member: "x \<in> set xs \<Longrightarrow> length (f x) \<le> length (concat (map f xs))"
  by (induction xs) auto

lemma small_branch: "hash_like K \<Longrightarrow> \<not> is_big K (Branch ts) \<Longrightarrow> Some t \<in> set ts \<Longrightarrow> \<not> is_big K t"
  using length_rlp_list(1) [of "concat (map (ref_child K) ts) @ ToRLPString []"] big_child_string [of K t]
    length_concat_member [of "Some t" ts "ref_child K"]
  by (auto simp: is_big_def HashLength_def ref_enc_Branch ref_child_def)

lemma concat_map_le_mult:
  "(\<And>x. x \<in> set xs \<Longrightarrow> length (f x) \<le> b * length (g x)) \<Longrightarrow> length (concat (map f xs)) \<le> b * length (concat (map g xs))"
  by (induction xs) (auto simp: algebra_simps intro: add_mono)

lemma stor_small:
  assumes "hash_like K" "mx < 32"
  shows "tree_ok d t \<Longrightarrow> \<not> is_big K t \<Longrightarrow> length (stor_enc K mx False t) \<le> 40 * length (ref_enc K t)"
proof (induction t arbitrary: d rule: measure_induct_rule [of size])
  case (less t)
  show ?case
  proof (cases t)
    case (Leaf kp v)
    let ?c = "if length (fst v) \<le> mx then ToRLPString (fst v) else []"
    have "length ?c \<le> 32" using assms(2) length_ToRLPString(1) [of "fst v"] by auto
    then have "length (stor_enc K mx False t) \<le> 75"
      using length_rlp_list(2) [of "ToRLPString (compact kp) @ ?c"] compact_string_le [OF _ less.prems(1), of kp] Leaf less.prems(2) by simp
    moreover have "3 \<le> length (ref_enc K t)"
      using length_rlp_list(1) [of "ToRLPString (compact kp) @ ToRLPString (snd v)"] ToRLPString_nonempty [of "compact kp"]
        ToRLPString_nonempty [of "snd v"] Leaf by simp
    ultimately show ?thesis by simp
  next
    case (Ext kp c)
    have c: "\<not> is_big K c" "tree_ok (d + length kp) c" using small_ext [OF assms(1)] less.prems Ext by auto
    have "length (stor_enc K mx False c) \<le> 40 * length (ref_enc K c)" using less.IH [OF _ c(2,1)] Ext by simp
    then show ?thesis
      using length_rlp_list(2) [of "ToRLPString (compact kp) @ stor_item K mx c"] c(1)
        length_rlp_list(1) [of "ToRLPString (compact kp) @ node_ref K (ref_enc K c)"]
      by (simp add: Ext stor_enc_Ext stor_item_def small_child_string)
  next
    case (Branch ts)
    have "length (stor_child K mx c) \<le> 40 * length (ref_child K c)" if c: "c \<in> set ts" for c
    proof (cases c)
      case (Some u)
      then have u: "\<not> is_big K u" "tree_ok (Suc d) u" using small_branch [OF assms(1), of ts u] c less.prems Branch by auto
      moreover have "length (stor_enc K mx False u) \<le> 40 * length (ref_enc K u)"
        using less.IH [OF _ u(2,1)] size_member [of u ts] c Some Branch by simp
      ultimately show ?thesis using Some by (simp add: stor_child_def ref_child_def stor_item_def small_child_string)
    qed (simp add: stor_child_def ref_child_def)
    then have "length (concat (map (stor_child K mx) ts)) \<le> 40 * length (concat (map (ref_child K) ts))"
      by (rule concat_map_le_mult)
    then show ?thesis
      using length_rlp_list(2) [of "concat (map (stor_child K mx) ts)"]
        length_rlp_list(1) [of "concat (map (ref_child K) ts) @ ToRLPString []"]
      by (simp add: Branch stor_enc_Branch ref_enc_Branch)
  qed
qed

lemma stor_leaf_le:
  assumes "hash_like K" "mx < 32" "tree_ok d (Leaf kp v)"
  shows "length (stor_enc K mx atop (Leaf kp v)) \<le> 76"
proof -
  let ?c = "if atop \<or> is_big K (Leaf kp v) then ToRLPString (root_hash K (Leaf kp v))
        else if length (fst v) \<le> mx then ToRLPString (fst v) else []"
  have "length ?c \<le> 33" using assms(1,2) length_ToRLPString(1) [of "fst v"] by (auto simp: root_hash_def)
  then show ?thesis
    using length_rlp_list(2) [of "ToRLPString (compact kp) @ ?c"] compact_string_le [OF _ assms(3), of kp] by simp
qed

lemma stor_branch_item_le:
  assumes "hash_like K" "mx < 32" "tree_ok d t" "is_branch t"
  shows "length (stor_item K mx t) \<le> 1240"
  using stor_small [OF assms(1-3)] assms(1,4) by (auto simp: stor_item_def is_big_def HashLength_def)

lemma stor_ext_le:
  assumes "hash_like K" "mx < 32" "tree_ok d (Ext kp c)"
  shows "length (stor_enc K mx atop (Ext kp c)) \<le> 1283"
  using stor_branch_item_le [OF assms(1,2), of "d + length kp" c] assms(3) compact_string_le [OF _ assms(3), of kp]
    length_rlp_list(2) [of "ToRLPString (compact kp) @ stor_item K mx c"]
  by (simp add: stor_enc_Ext)

lemma stor_item_le:
  assumes "hash_like K" "mx < 32" "tree_ok d t"
  shows "length (stor_item K mx t) \<le> 1283"
proof (cases t)
  case (Leaf kp v)
  then show ?thesis using stor_leaf_le [of K mx d kp v False] assms by (simp add: stor_item_def del: stor_enc.simps)
next
  case (Ext kp c)
  then show ?thesis using stor_ext_le [of K mx d kp c False] assms by (simp add: stor_item_def)
next
  case (Branch ts)
  then show ?thesis using stor_branch_item_le [OF assms] by simp
qed

lemma stor_child_le:
  assumes "hash_like K" "mx < 32" "tree_ok d (Branch ts)" "c \<in> set ts"
  shows "length (stor_child K mx c) \<le> 1283"
  using stor_item_le [OF assms(1,2), of "Suc d"] assms(3,4)
  by (cases c) (auto simp: stor_child_def ToRLPString_def)

lemma stor_enc_le:
  assumes "hash_like K" "mx < 32" "tree_ok d t"
  shows "length (stor_enc K mx atop t) \<le> 20537"
proof (cases t)
  case (Leaf kp v)
  then show ?thesis using stor_leaf_le [of K mx d kp v atop] assms by (simp del: stor_enc.simps)
next
  case (Ext kp c)
  then show ?thesis using stor_ext_le [of K mx d kp c atop] assms by simp
next
  case (Branch ts)
  then have "length (concat (map (stor_child K mx) ts)) \<le> 16 * 1283"
    using concat_map_le [of ts "stor_child K mx" 1283] stor_child_le [OF assms(1,2)] assms(3) by auto
  then show ?thesis using length_rlp_list(2) [of "concat (map (stor_child K mx) ts)"] by (simp add: Branch stor_enc_Branch)
qed

lemma stor_item_value: "hash_like K \<Longrightarrow> is_value (stor_item K mx t)"
  by (cases t) (simp_all add: stor_item_def stor_enc_Ext stor_enc_Branch)

lemma stor_child_value: "hash_like K \<Longrightarrow> is_value (stor_child K mx c)"
  by (cases c) (simp_all add: stor_child_def stor_item_value)

subsection \<open>Representation\<close>

text \<open>
  \<open>X\<close> encodes values that were put, \<open>E\<close> is what is read, \<open>D\<close> the keys whose values in the database were given up.
  A value that was not put is in the database under its key; so is everything below a branch with a known hash.
\<close>

definition max_stored :: "trie_env \<Rightarrow> nat" where
  "max_stored E = MaxValueSizeToStoreInTrie (schema E)"

definition stored_value :: "trie_env \<Rightarrow> bytes set \<Rightarrow> bytes \<Rightarrow> trie_value \<Rightarrow> bool" where
  "stored_value E D hk v \<longleftrightarrow>
     (\<exists>k. hk = hex_key k \<and> k \<notin> D \<and> GetValue (input E) k = Some (fst v) \<and>
        ValueStorageToHashEncoding (schema E) (fst v) = Some (snd v))"

fun in_db :: "trie_env \<Rightarrow> bytes set \<Rightarrow> bytes \<Rightarrow> trie_value mpt \<Rightarrow> bool" where
  "in_db E D p (Leaf kp v) \<longleftrightarrow> stored_value E D (p @ kp) v"
| "in_db E D p (Ext kp t) \<longleftrightarrow> in_db E D (p @ kp) t"
| "in_db E D p (Branch ts) \<longleftrightarrow>
     (is_big (keccak E) (Branch ts) \<longrightarrow>
        GetNode (input E) (root_hash (keccak E) (Branch ts)) = Some (stor_enc (keccak E) (max_stored E) False (Branch ts))) \<and>
     (\<forall>x t. branch_at ts x = Some t \<longrightarrow> in_db E D (p @ [x]) t)"

text \<open>The node at prefix \<open>p\<close> can be read again by its hash: as a branch, or because it is the root.\<close>

definition saved :: "trie_env \<Rightarrow> bytes set \<Rightarrow> bytes \<Rightarrow> trie_value mpt \<Rightarrow> bool" where
  "saved E D p t \<longleftrightarrow> in_db E D p t \<and>
     (if p = [] then GetNode (input E) (root_hash (keccak E) t) = Some (stor_enc (keccak E) (max_stored E) True t)
      else is_branch t \<and> is_big (keccak E) t)"

definition hash_ok :: "trie_env \<Rightarrow> bytes \<Rightarrow> trie_value mpt \<Rightarrow> bytes option \<Rightarrow> bool" where
  "hash_ok E p t h \<longleftrightarrow>
     (case h of None \<Rightarrow> True | Some hh \<Rightarrow> hh = root_hash (keccak E) t \<and> (p \<noteq> [] \<longrightarrow> is_big (keccak E) t))"

text \<open>A root whose hash is known is in the database.\<close>

definition top_saved :: "trie_env \<Rightarrow> bytes set \<Rightarrow> bytes \<Rightarrow> trie_value mpt \<Rightarrow> bytes option \<Rightarrow> bool" where
  "top_saved E D p t h \<longleftrightarrow> (p = [] \<and> h \<noteq> None \<longrightarrow> saved E D p t)"

lemma top_saved_None [simp]: "top_saved E D p t None"
  by (simp add: top_saved_def)

definition hash_node :: "trie_env \<Rightarrow> bytes set \<Rightarrow> bytes \<Rightarrow> 'v node \<Rightarrow> trie_value mpt \<Rightarrow> bool" where
  "hash_node E D p n t \<longleftrightarrow> n = Node_Hash (root_hash (keccak E) t) \<and> saved E D p t"

definition value_rep ::
  "('v \<Rightarrow> trie_value) \<Rightarrow> trie_env \<Rightarrow> bytes set \<Rightarrow> bytes \<Rightarrow> 'v trie_val option \<Rightarrow> bytes option \<Rightarrow> trie_value \<Rightarrow> bool" where
  "value_rep X E D hk vn h v \<longleftrightarrow>
     (case vn of
        Some (Put_Value x) \<Rightarrow> X x = v
      | Some (Internal_Value es eh) \<Rightarrow> v = (es, eh) \<and> stored_value E D hk v
      | None \<Rightarrow> h \<noteq> None \<and> stored_value E D hk v)"

text \<open>Under a short node with a known hash there is no branch that is yet to be hashed.\<close>

definition child_hashed :: "trie_env \<Rightarrow> 'v node \<Rightarrow> trie_value mpt \<Rightarrow> bool" where
  "child_hashed E c t \<longleftrightarrow> (case c of Full _ None \<Rightarrow> \<not> is_big (keccak E) t | _ \<Rightarrow> True)"

fun rep :: "('v \<Rightarrow> trie_value) \<Rightarrow> trie_env \<Rightarrow> bytes set \<Rightarrow> bytes \<Rightarrow> 'v node \<Rightarrow> trie_value mpt \<Rightarrow> bool" where
  "rep X E D p n (Leaf kp v) \<longleftrightarrow> hash_node E D p n (Leaf kp v) \<or>
     (\<exists>vn h. n = Short kp (Some (Value_Node vn)) h \<and> value_rep X E D (p @ kp) vn h v \<and> hash_ok E p (Leaf kp v) h \<and>
        top_saved E D p (Leaf kp v) h)"
| "rep X E D p n (Ext kp t) \<longleftrightarrow> hash_node E D p n (Ext kp t) \<or>
     (\<exists>c h. n = Short kp (Some c) h \<and> rep X E D (p @ kp) c t \<and> hash_ok E p (Ext kp t) h \<and>
        top_saved E D p (Ext kp t) h \<and> (h \<noteq> None \<longrightarrow> child_hashed E c t))"
| "rep X E D p n (Branch ts) \<longleftrightarrow> hash_node E D p n (Branch ts) \<or>
     (\<exists>cs h. n = Full cs h \<and> length cs = length ts \<and> hash_ok E p (Branch ts) h \<and> (h \<noteq> None \<longrightarrow> saved E D p (Branch ts)) \<and>
        (\<forall>x. branch_at ts x = None \<longrightarrow> branch_at cs x = None) \<and>
        (\<forall>x t. branch_at ts x = Some t \<longrightarrow> (\<exists>c. branch_at cs x = Some c \<and> rep X E D (p @ [x]) c t)))"

text \<open>What the theorems rely on: the hash function yields 32 bytes, and values in place are shorter than that.\<close>

definition env_ok :: "trie_env \<Rightarrow> bool" where
  "env_ok E \<longleftrightarrow> hash_like (keccak E) \<and> max_stored E < HashLength"

end
