(* ===== verification/Trie_Decode.thy ===== *)
theory Trie_Decode
  imports Trie_Rep
begin

section \<open>Reading a stored node back\<close>

text \<open>\<open>dec_node\<close> on the stored encoding of a tree yields nodes that stand for the tree.\<close>

lemma from_error_simps [simp]: "from_error (Inr x) = Some x" "from_error (Inl e) = None"
  by (simp_all add: from_error_def)

lemma dec_node_list:
  assumes "length (rlp_list c @ rest) < 2 ^ 64" "CountValues c = Inr cnt"
  obtains tag where "drop tag (rlp_list c) = c"
    "dec_node (Suc f) E p h (rlp_list c @ rest) =
       (if cnt = 1 \<or> cnt = 2 then map_option (\<lambda>n. (Some n, rest)) (dec_short (dec_node f E) E p h (rlp_list c) tag)
        else if cnt = full_node_child_cnt then map_option (\<lambda>n. (Some n, rest)) (dec_full (dec_node f E) p h c)
        else None)"
proof -
  obtain tag total where rk: "ReadKind (rlp_list c @ rest) = Inr (KList, tag, total)"
    "drop (unat tag) (take (unat total) (rlp_list c @ rest)) = c"
    "drop (unat total) (rlp_list c @ rest) = rest" "take (unat total) (rlp_list c @ rest) = rlp_list c"
    by (rule ReadKind_encodes [OF rlp_list_encodes assms(1)])
  have d: "drop (unat tag) (rlp_list c) = c" using rk(2) unfolding rk(4) .
  moreover have "dec_node (Suc f) E p h (rlp_list c @ rest) =
       (if cnt = 1 \<or> cnt = 2 then map_option (\<lambda>n. (Some n, rest)) (dec_short (dec_node f E) E p h (rlp_list c) (unat tag))
        else if cnt = full_node_child_cnt then map_option (\<lambda>n. (Some n, rest)) (dec_full (dec_node f E) p h c)
        else None)"
    unfolding dec_node.simps rk(1) from_error_simps Option.bind.simps(2) prod.case Let_def rk(3) rk(4) d Kind.case assms(2)
    by (auto simp: map_option_case bind_split split: option.split)
  ultimately show thesis by (rule that)
qed

lemma dec_node_string:
  assumes "length (ToRLPString b @ rest) < 2 ^ 64" "length b = 0 \<or> length b = HashLength"
  shows "dec_node (Suc f) E p h (ToRLPString b @ rest) = Some (if length b = 0 then None else Some (Node_Hash b), rest)"
proof -
  have k: "encodes KString b (ToRLPString b)" using ToRLPString_encodes [of b] assms(2) by (auto simp: HashLength_def)
  obtain tag total where rk: "ReadKind (ToRLPString b @ rest) = Inr (KString, tag, total)"
    "drop (unat tag) (take (unat total) (ToRLPString b @ rest)) = b"
    "drop (unat total) (ToRLPString b @ rest) = rest" "take (unat total) (ToRLPString b @ rest) = ToRLPString b"
    by (rule ReadKind_encodes [OF k assms(1)])
  show ?thesis
    unfolding dec_node.simps rk(1) from_error_simps Option.bind.simps(2) prod.case Let_def rk(2) rk(3) Kind.case
    using assms(2) by (auto simp: HashLength_def)
qed

declare dec_node.simps [simp del]

lemma hex_key_key:
  assumes "hex_key k = p @ kp" "length p + length kp = HexKeyLen"
  shows "hex_to_keybytes (p @ kp) zero_hash = Some k"
proof -
  have "length (hex_key k) = HexKeyLen" using assms by simp
  then have "length zero_hash = length k" by (simp add: hex_key_def zero_hash_def key_lengths)
  from hex_to_keybytes_key [OF this] show ?thesis by (simp add: assms(1) [symmetric])
qed

lemma stored_value_read:
  assumes "stored_value E D (p @ kp) v" "length p + length kp = HexKeyLen"
  shows "resolve_val_n_by_hex_k E (p @ kp) = Some (Value_Node (Some (Internal_Value (fst v) (snd v))))"
proof -
  obtain k where k: "hex_key k = p @ kp" "GetValue (input E) k = Some (fst v)"
    "ValueStorageToHashEncoding (schema E) (fst v) = Some (snd v)" using assms(1) by (auto simp: stored_value_def)
  with hex_key_key [OF k(1) assms(2)] show ?thesis by (simp add: resolve_val_n_by_hex_k_def resolve_val_n_def)
qed

lemma dec_short_leaf:
  assumes "drop tag buf = ToRLPString kc @ content" "length (ToRLPString kc @ content) < 2 ^ 64" "length kc < 2 ^ 64"
    "compact_to_hex kc = Some kp" "hasTerm kp"
  shows "dec_short dec E p h buf tag =
    (if content = [] then map_option (\<lambda>v. Short kp (Some v) h) (resolve_val_n_by_hex_k E (p @ kp))
     else do {
       (content1, _) \<leftarrow> from_error (SplitString content);
       if length content1 = HashLength then Some (Short kp (Some nil_val_node) (Some content1))
       else if 0 < length content1 \<and> length content1 \<le> max_stored E then
         map_option (\<lambda>eh. Short kp (Some (Value_Node (Some (Internal_Value content1 eh)))) h)
           (ValueStorageToHashEncoding (schema E) content1)
       else None })"
  using assms SplitString_append [OF assms(2,3)]
  by (cases "SplitString content")
    (auto simp: dec_short_def max_stored_def map_option_case bind_split from_error_def split: option.split)

lemma dec_short_ext:
  assumes "drop tag buf = ToRLPString kc @ content" "length (ToRLPString kc @ content) < 2 ^ 64" "length kc < 2 ^ 64"
    "compact_to_hex kc = Some kp" "\<not> hasTerm kp" "dec (p @ kp) None content = Some (val, r)"
  shows "dec_short dec E p h buf tag =
    Some (Short kp val (case val of Some (Node_Hash _) \<Rightarrow> if h = None then Some (keccak E buf) else h | _ \<Rightarrow> h))"
  using assms SplitString_append [OF assms(2,3)] by (simp add: dec_short_def Let_def)

text \<open>How a node is stored: inside another one, or under its hash.\<close>

definition read_as :: "trie_env \<Rightarrow> bytes set \<Rightarrow> bytes \<Rightarrow> bytes option \<Rightarrow> bool \<Rightarrow> trie_value mpt \<Rightarrow> bool" where
  "read_as E D p h atop t \<longleftrightarrow>
     (case h of
        None \<Rightarrow> \<not> atop \<and> p \<noteq> [] \<and> \<not> (is_branch t \<and> is_big (keccak E) t)
      | Some hh \<Rightarrow> hh = root_hash (keccak E) t \<and> saved E D p t \<and> atop = (p = []))"

lemma dec_leaf:
  fixes X :: "'v \<Rightarrow> trie_value"
  assumes E: "env_ok E" and ok: "tree_ok (length p) (Leaf kp v)" "value_ok v" "in_db E D p (Leaf kp v)"
    and len: "length (stor_enc (keccak E) (max_stored E) atop (Leaf kp v) @ rest) < 2 ^ 64"
    and how: "read_as E D p h atop (Leaf kp v)"
  shows "\<exists>n. dec_node (Suc f) E p h (stor_enc (keccak E) (max_stored E) atop (Leaf kp v) @ rest) = Some (Some n, rest) \<and>
    rep X E D p n (Leaf kp v) \<and> (\<exists>vn h. n = Short kp (Some (Value_Node vn)) h)"
proof -
  let ?t = "Leaf kp v" and ?K = "keccak E"
  define content where "content = (if atop \<or> is_big ?K ?t then ToRLPString (root_hash ?K ?t)
        else if length (fst v) \<le> max_stored E then ToRLPString (fst v) else [])"
  have K: "hash_like ?K" "max_stored E < 32" using E by (simp_all add: env_ok_def HashLength_def)
  note key = compact_ok [OF _ ok(1), of kp, simplified]
  have sv: "stored_value E D (p @ kp) v" using ok(3) by simp
  have kl: "length p + length kp = HexKeyLen" "hasTerm kp" using ok(1) by (auto simp: key_at_def)
  have enc: "stor_enc ?K (max_stored E) atop ?t = rlp_list (ToRLPString (compact kp) @ content)" by (simp add: content_def)
  have clen: "length content \<le> 33"
    using K length_ToRLPString(1) [of "fst v"] by (auto simp: content_def)
  have plen: "length (ToRLPString (compact kp) @ content) < 2 ^ 64"
    using clen compact_string_le [OF _ ok(1), of kp] by simp
  have cv: "CountValues (ToRLPString (compact kp) @ content) = Inr (if content = [] then 1 else 2)"
  proof (cases "content = []")
    case True
    then show ?thesis using CountValues_concat [of "[ToRLPString (compact kp)]"] key plen by simp
  next
    case False
    then have "is_value content" using K by (auto simp: content_def split: if_splits)
    then show ?thesis using False CountValues_concat [of "[ToRLPString (compact kp), content]"] key plen by simp
  qed
  obtain tag where tag: "drop tag (rlp_list (ToRLPString (compact kp) @ content)) = ToRLPString (compact kp) @ content"
    and dec: "(dec_node (Suc f) E p h (rlp_list (ToRLPString (compact kp) @ content) @ rest) :: ('v node option \<times> bytes) option) =
      (if (if content = [] then 1 else 2 :: nat) = 1 \<or> (if content = [] then 1 else 2 :: nat) = 2
       then map_option (\<lambda>n. (Some n, rest)) (dec_short (dec_node f E) E p h (rlp_list (ToRLPString (compact kp) @ content)) tag)
       else if (if content = [] then 1 else 2 :: nat) = full_node_child_cnt
       then map_option (\<lambda>n. (Some n, rest)) (dec_full (dec_node f E) p h (ToRLPString (compact kp) @ content))
       else None)"
    using dec_node_list [OF len [unfolded enc] cv] by blast
  note ds = dec_short_leaf [OF tag plen _ key(2) kl(2), of "dec_node f E" E p]
  have ck: "length (compact kp) < 2 ^ 64" using key(4) by simp
  have "\<exists>vn h'. dec_short (dec_node f E) E p h (rlp_list (ToRLPString (compact kp) @ content)) tag = Some (Short kp (Some (Value_Node vn)) h') \<and>
      value_rep X E D (p @ kp) vn h' v \<and> hash_ok E p ?t h' \<and> top_saved E D p ?t h'"
  proof (cases "atop \<or> is_big ?K ?t")
    case True
    then have c: "content = ToRLPString (root_hash ?K ?t)" by (simp add: content_def)
    have "content \<noteq> []" using c K(1) length_root_string [of ?K ?t] by (metis list.size(3) zero_neq_numeral)
    moreover have "SplitString content = Inr (root_hash ?K ?t, [])"
      using SplitString_append [of "root_hash ?K ?t" "[]"] K(1) clen c by simp
    moreover have "hash_ok E p ?t (Some (root_hash ?K ?t))" "top_saved E D p ?t (Some (root_hash ?K ?t))"
      using True how by (auto simp: hash_ok_def top_saved_def read_as_def split: option.splits)
    ultimately show ?thesis using key kl K(1) sv
      by (simp add: ds [OF ck] nil_val_node_def value_rep_def HashLength_def)
  next
    case False
    have h: "h = None" using False how by (auto simp: read_as_def saved_def split: option.splits if_splits)
    show ?thesis
    proof (cases "length (fst v) \<le> max_stored E")
      case True
      then have c: "content = ToRLPString (fst v)" using False by (simp add: content_def)
      have "content \<noteq> []" using ToRLPString_nonempty [of "fst v"] c by auto
      moreover have "SplitString content = Inr (fst v, [])"
        using SplitString_append [of "fst v" "[]"] K True clen c by simp
      moreover have "ValueStorageToHashEncoding (schema E) (fst v) = Some (snd v)" using sv by (auto simp: stored_value_def)
      ultimately show ?thesis using key kl True K(2) sv ok(2) h
        by (simp add: ds [OF ck] value_rep_def HashLength_def value_ok_def hash_ok_def)
    next
      case False
      then have "content = []" using \<open>\<not> (atop \<or> is_big ?K ?t)\<close> by (simp add: content_def)
      then show ?thesis unfolding ds [OF ck] using key kl sv h
        by (simp add: value_rep_def hash_ok_def stored_value_read [OF sv kl(1)])
    qed
  qed
  then obtain vn h' where "dec_short (dec_node f E) E p h (rlp_list (ToRLPString (compact kp) @ content)) tag = Some (Short kp (Some (Value_Node vn)) h')"
    "value_rep X E D (p @ kp) vn h' v" "hash_ok E p ?t h'" "top_saved E D p ?t h'" by blast
  then show ?thesis using dec by (auto simp: enc simp del: stor_enc.simps dec_node.simps)
qed

lemma dec_children_ok:
  assumes "\<And>j r. j < length us \<Longrightarrow> length (stor_child K mx (us ! j) @ r) \<le> length (concat (map (stor_child K mx) us)) \<Longrightarrow>
    \<exists>c. dec (p @ [of_nat (i + j)]) None (stor_child K mx (us ! j) @ r) = Some (c, r) \<and> Q (i + j) c (us ! j)"
  shows "\<exists>cs. dec_children dec p i (length us) (concat (map (stor_child K mx) us)) = Some cs \<and> length cs = length us \<and>
    (\<forall>j<length us. Q (i + j) (cs ! j) (us ! j))"
  using assms
proof (induction us arbitrary: i)
  case (Cons u us)
  obtain c where c: "dec (p @ [of_nat i]) None (stor_child K mx u @ concat (map (stor_child K mx) us)) =
      Some (c, concat (map (stor_child K mx) us))" "Q i c u"
    using Cons.prems [of 0 "concat (map (stor_child K mx) us)"] by auto
  have "\<exists>cs. dec_children dec p (Suc i) (length us) (concat (map (stor_child K mx) us)) = Some cs \<and> length cs = length us \<and>
    (\<forall>j<length us. Q (Suc i + j) (cs ! j) (us ! j))"
    using Cons.prems [of "Suc j" for j] by (intro Cons.IH) fastforce
  then obtain cs where "dec_children dec p (Suc i) (length us) (concat (map (stor_child K mx) us)) = Some cs"
    "length cs = length us" "\<forall>j<length us. Q (Suc i + j) (cs ! j) (us ! j)" by blast
  with c show ?case by (auto simp: nth_Cons split: nat.split)
qed simp

lemma hash_node_Node [simp]: "hash_node E D p (Short a b c) t = False" "hash_node E D p (Full x y) t = False"
  by (simp_all add: hash_node_def)

text \<open>A value inside a node: a hash that is read later, or the node itself.\<close>

definition item_node :: "trie_env \<Rightarrow> 'v node \<Rightarrow> trie_value mpt \<Rightarrow> bool" where
  "item_node E n t \<longleftrightarrow> (if is_branch t \<and> is_big (keccak E) t then n = Node_Hash (root_hash (keccak E) t)
     else (\<forall>h. n \<noteq> Node_Hash h) \<and> (is_branch t \<longrightarrow> (\<exists>cs. n = Full cs None)))"

text \<open>What \<open>dec_node\<close> has to do for the encoding of a tree, as a statement that the induction hands down.\<close>

definition decodes :: "('v \<Rightarrow> trie_value) \<Rightarrow> trie_env \<Rightarrow> bytes set \<Rightarrow> trie_value mpt \<Rightarrow> bool" where
  "decodes X E D t \<longleftrightarrow>
     (\<forall>p h atop f rest. tree_ok (length p) t \<longrightarrow> values_ok t \<longrightarrow> in_db E D p t \<longrightarrow>
        length (stor_enc (keccak E) (max_stored E) atop t @ rest) < 2 ^ 64 \<longrightarrow>
        length (stor_enc (keccak E) (max_stored E) atop t) \<le> f \<longrightarrow> read_as E D p h atop t \<longrightarrow>
        (\<exists>n. dec_node f E p h (stor_enc (keccak E) (max_stored E) atop t @ rest) = Some (Some n, rest) \<and> rep X E D p n t \<and>
          (\<forall>hh. n \<noteq> Node_Hash hh) \<and> (is_branch t \<longrightarrow> (\<exists>cs. n = Full cs h))))"

lemma decodesD:
  assumes "decodes X E D t" "tree_ok (length p) t" "values_ok t" "in_db E D p t"
    "length (stor_enc (keccak E) (max_stored E) atop t @ rest) < 2 ^ 64"
    "length (stor_enc (keccak E) (max_stored E) atop t) \<le> f" "read_as E D p h atop t"
  shows "\<exists>n. dec_node f E p h (stor_enc (keccak E) (max_stored E) atop t @ rest) = Some (Some n, rest) \<and> rep X E D p n t \<and>
    (\<forall>hh. n \<noteq> Node_Hash hh) \<and> (is_branch t \<longrightarrow> (\<exists>cs. n = Full cs h))"
  using assms unfolding decodes_def by blast

lemma decodes_item:
  assumes "env_ok E" "decodes X E D t" "tree_ok (length p) t" "values_ok t" "in_db E D p t" "p \<noteq> []"
    "length (stor_item (keccak E) (max_stored E) t @ rest) < 2 ^ 64" "length (stor_item (keccak E) (max_stored E) t) \<le> f"
  shows "\<exists>n. dec_node f E p None (stor_item (keccak E) (max_stored E) t @ rest) = Some (Some n, rest) \<and> rep X E D p n t \<and>
    item_node E n t"
proof (cases "is_branch t \<and> is_big (keccak E) t")
  case True
  have K: "hash_like (keccak E)" using assms(1) by (simp add: env_ok_def)
  obtain f' where f: "f = Suc f'" using assms(8) True K by (cases f) (simp_all add: stor_item_def)
  have "dec_node f E p None (stor_item (keccak E) (max_stored E) t @ rest) = Some (Some (Node_Hash (root_hash (keccak E) t)), rest)"
    unfolding f using dec_node_string [of "root_hash (keccak E) t" rest f' E p None] True assms(7) K
    by (simp add: stor_item_def HashLength_def)
  moreover have "rep X E D p (Node_Hash (root_hash (keccak E) t)) t"
    using True assms(5,6) by (cases t) (simp_all add: hash_node_def saved_def)
  ultimately show ?thesis using True by (auto simp: item_node_def)
next
  case False
  then have "stor_item (keccak E) (max_stored E) t = stor_enc (keccak E) (max_stored E) False t" "read_as E D p None False t"
    using assms(6) by (auto simp: stor_item_def read_as_def)
  with assms False show ?thesis unfolding decodes_def item_node_def by (metis (no_types, lifting))
qed

lemma decodes_ext:
  fixes X :: "'v \<Rightarrow> trie_value"
  assumes E: "env_ok E" and c: "decodes X E D c"
  shows "decodes X E D (Ext kp c)"
  unfolding decodes_def
proof (intro allI impI)
  fix p h atop f rest
  let ?t = "Ext kp c" and ?K = "keccak E" and ?mx = "max_stored E"
  assume ok: "tree_ok (length p) ?t" "values_ok ?t" "in_db E D p ?t"
    and len: "length (stor_enc ?K ?mx atop ?t @ rest) < 2 ^ 64" "length (stor_enc ?K ?mx atop ?t) \<le> f"
    and how: "read_as E D p h atop ?t"
  let ?c = "ToRLPString (compact kp) @ stor_item ?K ?mx c"
  have K: "hash_like ?K" "?mx < 32" using E by (simp_all add: env_ok_def HashLength_def)
  note key = compact_ok [OF _ ok(1), of kp, simplified]
  have okc: "tree_ok (length (p @ kp)) c" "values_ok c" "in_db E D (p @ kp) c" "p @ kp \<noteq> []" "is_branch c" "\<not> hasTerm kp"
    using ok by auto
  have il: "length (stor_item ?K ?mx c) \<le> 1283" using stor_item_le [OF K okc(1)] .
  have plen: "length ?c < 2 ^ 64" using il compact_string_le [OF _ ok(1), of kp] by simp
  have cv: "CountValues ?c = Inr 2"
    using CountValues_concat [of "[ToRLPString (compact kp), stor_item ?K ?mx c]"] key plen stor_item_value [OF K(1)] by simp
  obtain f' where f: "f = Suc f'" using len(2) length_rlp_list(1) [of ?c] by (cases f) (simp_all add: stor_enc_Ext)
  have "length (stor_item ?K ?mx c) \<le> f'" using len(2) length_rlp_list(1) [of ?c] by (simp add: stor_enc_Ext f)
  with decodes_item [OF E c okc(1-4), of "[]" f'] il obtain n where n: "dec_node f' E (p @ kp) None (stor_item ?K ?mx c) = Some (Some n, [])"
    "rep X E D (p @ kp) n c" "item_node E n c" by auto
  obtain tag where tag: "drop tag (rlp_list ?c) = ?c"
    and dec: "(dec_node f E p h (rlp_list ?c @ rest) :: ('v node option \<times> bytes) option) =
      (if (2 :: nat) = 1 \<or> (2 :: nat) = 2 then map_option (\<lambda>n. (Some n, rest)) (dec_short (dec_node f' E) E p h (rlp_list ?c) tag)
       else if 2 = full_node_child_cnt then map_option (\<lambda>n. (Some n, rest)) (dec_full (dec_node f' E) p h ?c) else None)"
    using dec_node_list [OF len(1) [unfolded stor_enc_Ext] cv] unfolding f by blast
  let ?h = "case Some n of Some (Node_Hash _) \<Rightarrow> if h = None then Some (?K (rlp_list ?c)) else h | _ \<Rightarrow> h"
  have ck: "length (compact kp) < 2 ^ 64" using key(4) by simp
  have ds: "dec_short (dec_node f' E) E p h (rlp_list ?c) tag = Some (Short kp (Some n) ?h)"
    using tag plen ck key(2) okc(6) n(1) by (rule dec_short_ext)
  have hok: "hash_ok E p ?t ?h"
  proof (cases h)
    case None
    show ?thesis
    proof (cases "is_big ?K c")
      case True
      then have "rlp_list ?c = ref_enc ?K ?t" using okc(5)
        by (simp add: stor_item_def node_ref_def is_big_def root_hash_def)
      moreover have "is_big ?K ?t" using small_ext [OF K(1)] True by blast
      ultimately show ?thesis using None True n(3) okc(5) by (simp add: item_node_def hash_ok_def root_hash_def)
    next
      case False
      then show ?thesis using None n(3) by (auto simp: item_node_def hash_ok_def split: node.split)
    qed
  next
    case (Some hh)
    then have "?h = h" by (auto split: node.split)
    moreover have "p = [] \<and> hh = root_hash ?K ?t" using how Some by (auto simp: read_as_def saved_def split: if_splits)
    ultimately show ?thesis using Some by (simp add: hash_ok_def)
  qed
  have "child_hashed E n c" using n(3) okc(5) by (auto simp: child_hashed_def item_node_def split: node.split option.split if_splits)
  moreover have "top_saved E D p ?t ?h"
    using how by (auto simp: top_saved_def read_as_def split: option.splits)
  ultimately have "rep X E D p (Short kp (Some n) ?h) ?t" using n(2) hok by simp
  with dec ds show "\<exists>n. dec_node f E p h (stor_enc ?K ?mx atop ?t @ rest) = Some (Some n, rest) \<and> rep X E D p n ?t \<and>
          (\<forall>hh. n \<noteq> Node_Hash hh) \<and> (is_branch ?t \<longrightarrow> (\<exists>cs. n = Full cs h))" by (simp add: stor_enc_Ext)
qed

lemma decodes_branch:
  fixes X :: "'v \<Rightarrow> trie_value"
  assumes E: "env_ok E" and cs: "\<And>c. Some c \<in> set ts \<Longrightarrow> decodes X E D c"
  shows "decodes X E D (Branch ts)"
  unfolding decodes_def
proof (intro allI impI)
  fix p h atop f rest
  let ?t = "Branch ts" and ?K = "keccak E" and ?mx = "max_stored E"
  assume ok: "tree_ok (length p) ?t" "values_ok ?t" "in_db E D p ?t"
    and len: "length (stor_enc ?K ?mx atop ?t @ rest) < 2 ^ 64" "length (stor_enc ?K ?mx atop ?t) \<le> f"
    and how: "read_as E D p h atop ?t"
  let ?c = "concat (map (stor_child ?K ?mx) ts)"
  have K: "hash_like ?K" "?mx < 32" using E by (simp_all add: env_ok_def HashLength_def)
  have ts: "length ts = 16" using ok(1) by simp
  have plen: "length ?c < 2 ^ 64" using len(1) length_rlp_list(1) [of ?c] by (simp add: stor_enc_Branch)
  have cv: "CountValues ?c = Inr 16"
    using CountValues_concat [of "map (stor_child ?K ?mx) ts"] plen stor_child_value [OF K(1)] ts by simp
  obtain f' where f: "f = Suc f'" using len(2) length_rlp_list(1) [of ?c] by (cases f) (simp_all add: stor_enc_Branch)
  have f': "length ?c \<le> f'" using len(2) length_rlp_list(1) [of ?c] by (simp add: stor_enc_Branch f)
  let ?Q = "\<lambda>j c u. case u of None \<Rightarrow> c = None | Some t \<Rightarrow> \<exists>n. c = Some n \<and> rep X E D (p @ [of_nat j]) n t"
  have step: "\<exists>c. dec_node f' E (p @ [of_nat (0 + j)]) None (stor_child ?K ?mx (ts ! j) @ r) = Some (c, r) \<and> ?Q (0 + j) c (ts ! j)"
    if j: "j < length ts" and r: "length (stor_child ?K ?mx (ts ! j) @ r) \<le> length ?c" for j r
  proof (cases "ts ! j")
    case None
    have "1 \<le> f'" using r f' None ToRLPString_nonempty [of "[]"] by (simp add: stor_child_def)
    then obtain f'' where "f' = Suc f''" by (cases f') auto
    then show ?thesis using None dec_node_string [of "[]" r f'' E "p @ [of_nat j]" None] r plen by (simp add: stor_child_def)
  next
    case (Some u)
    have m: "Some u \<in> set ts" using Some j by (metis nth_mem)
    have at: "branch_at ts (of_nat j) = Some u" using Some j ts by (simp add: branch_at_def unat_nibble)
    have "\<exists>n. dec_node f' E (p @ [of_nat j]) None (stor_item ?K ?mx u @ r) = Some (Some n, r) \<and>
        rep X E D (p @ [of_nat j]) n u \<and> item_node E n u"
    proof (rule decodes_item [OF E cs [OF m]])
      show "tree_ok (length (p @ [of_nat j])) u" "values_ok u" using ok(1,2) m by auto
      show "in_db E D (p @ [of_nat j]) u" using ok(3) at by simp
      show "length (stor_item ?K ?mx u @ r) < 2 ^ 64" "length (stor_item ?K ?mx u) \<le> f'"
        using r plen f' Some by (simp_all add: stor_child_def)
    qed simp
    then show ?thesis using Some by (auto simp: stor_child_def)
  qed
  obtain ns where ns: "dec_children (dec_node f' E) p 0 (length ts) ?c = Some ns" "length ns = length ts"
    "\<forall>j<length ts. ?Q (0 + j) (ns ! j) (ts ! j)"
    using dec_children_ok [of ts ?K ?mx "dec_node f' E" p 0 ?Q, OF step] by blast
  obtain tag where "(dec_node f E p h (rlp_list ?c @ rest) :: ('v node option \<times> bytes) option) =
      (if (16 :: nat) = 1 \<or> (16 :: nat) = 2 then map_option (\<lambda>n. (Some n, rest)) (dec_short (dec_node f' E) E p h (rlp_list ?c) tag)
       else if 16 = full_node_child_cnt then map_option (\<lambda>n. (Some n, rest)) (dec_full (dec_node f' E) p h ?c) else None)"
    using dec_node_list [OF len(1) [unfolded stor_enc_Branch] cv] unfolding f by blast
  then have dec: "dec_node f E p h (stor_enc ?K ?mx atop ?t @ rest) = Some (Some (Full ns h), rest)"
    using ns(1) ts by (simp add: full_node_child_cnt_def dec_full_def stor_enc_Branch)
  have at: "branch_at ns x = (if unat x < 16 then ns ! unat x else None)" "branch_at ts x = (if unat x < 16 then ts ! unat x else None)"
    for x using ns(2) ts by (simp_all add: branch_at_def)
  have "hash_ok E p ?t h \<and> (h \<noteq> None \<longrightarrow> saved E D p ?t)"
    using how by (auto simp: read_as_def hash_ok_def saved_def split: option.splits if_splits)
  moreover have "branch_at ns x = None" if "branch_at ts x = None" for x
    using that ns(3) ts by (auto simp: at split: if_splits)
  moreover have "\<exists>c. branch_at ns x = Some c \<and> rep X E D (p @ [x]) c t" if "branch_at ts x = Some t" for x t
    using that ns(3) [rule_format, of "unat x"] ts by (auto simp: at split: if_splits)
  ultimately have "rep X E D p (Full ns h) ?t" using ns(2) by simp
  with dec show "\<exists>n. dec_node f E p h (stor_enc ?K ?mx atop ?t @ rest) = Some (Some n, rest) \<and> rep X E D p n ?t \<and>
          (\<forall>hh. n \<noteq> Node_Hash hh) \<and> (is_branch ?t \<longrightarrow> (\<exists>cs. n = Full cs h))" by simp
qed

lemma decodes_all: "env_ok E \<Longrightarrow> decodes X E D t"
proof (induction t rule: measure_induct_rule [of size])
  case (less t)
  show ?case
  proof (cases t)
    case (Leaf kp v)
    show ?thesis unfolding decodes_def Leaf
    proof (intro allI impI)
      fix p h atop f rest
      let ?e = "stor_enc (keccak E) (max_stored E) atop (Leaf kp v)"
      assume a: "tree_ok (length p) (Leaf kp v)" "values_ok (Leaf kp v)" "in_db E D p (Leaf kp v)" "length (?e @ rest) < 2 ^ 64"
        "length ?e \<le> f" "read_as E D p h atop (Leaf kp v)"
      then have "0 < length ?e" using length_rlp_list(1) by (auto simp: rlp_list_def puthead_def putint_SizeInBytes)
      then obtain f' where f: "f = Suc f'" using a(5) by (cases f) auto
      show "\<exists>n. dec_node f E p h (?e @ rest) = Some (Some n, rest) \<and> rep X E D p n (Leaf kp v) \<and>
          (\<forall>hh. n \<noteq> Node_Hash hh) \<and> (is_branch (Leaf kp v) \<longrightarrow> (\<exists>cs. n = Full cs h))"
        using dec_leaf [OF less.prems a(1) _ a(3,4,6), of f' X] a(2) unfolding f by auto
    qed
  next
    case (Ext kp c)
    with less show ?thesis by (simp add: decodes_ext)
  next
    case (Branch ts)
    show ?thesis unfolding Branch using less size_member [of _ ts] Branch by (intro decodes_branch) simp_all
  qed
qed

text \<open>\<open>resolve\<close> finds the node whose hash it is given.\<close>

lemma resolve_saved:
  assumes "env_ok E" "tree_ok (length p) t" "values_ok t" "saved E D p t"
  obtains n where "resolve E (root_hash (keccak E) t) p = Some n" "rep X E D p n t" "\<And>h. n \<noteq> Node_Hash h"
proof -
  let ?h = "root_hash (keccak E) t" and ?e = "stor_enc (keccak E) (max_stored E) (p = []) t"
  have get: "GetNode (input E) ?h = Some ?e"
    using assms(4) by (cases t) (auto simp: saved_def split: if_splits)
  have "length ?e < 2 ^ 64" using stor_enc_le [of "keccak E" "max_stored E" "length p" t "p = []"] assms(1,2)
    by (simp add: env_ok_def HashLength_def)
  moreover have "read_as E D p (Some ?h) (p = []) t" using assms(4) by (simp add: read_as_def)
  moreover have "in_db E D p t" using assms(4) by (simp add: saved_def)
  ultimately obtain n where "dec_node (length ?e) E p (Some ?h) ?e = Some (Some n, [])" "rep X E D p n t" "\<forall>hh. n \<noteq> Node_Hash hh"
    using decodesD [OF decodes_all [OF assms(1)] assms(2,3), of D "p = []" "[]" "length ?e" "Some ?h" X] by auto
  with get show thesis by (intro that [of n]) (auto simp: resolve_def)
qed

end
