(* ===== verification/Trie_Writes.thy ===== *)
theory Trie_Writes
  imports Trie_Decode
begin

section \<open>Writes refine the tree\<close>

text \<open>
  \<open>mpt_insert\<close> and \<open>mpt_del\<close>, which read the nodes they pass from the database, do to the tree that the nodes stand
  for what \<open>ins\<close> and \<open>del\<close> do.
\<close>

subsection \<open>Representation\<close>

definition is_hash :: "'v node \<Rightarrow> bool" where
  "is_hash n \<longleftrightarrow> (\<exists>h. n = Node_Hash h)"

lemma is_hash_simps [simp]: "is_hash (Node_Hash h)" "\<not> is_hash (Short a b c)" "\<not> is_hash (Full x y)" "\<not> is_hash (Value_Node v)"
  by (simp_all add: is_hash_def)

lemma hash_node_is_hash: "hash_node E D p n t \<Longrightarrow> is_hash n"
  by (auto simp: hash_node_def)

lemma rep_hash: "is_hash n \<Longrightarrow> rep X E D p n t \<longleftrightarrow> hash_node E D p n t"
  by (cases t) (auto simp: is_hash_def)

lemma rep_resolve:
  assumes "env_ok E" "tree_ok (length p) t" "values_ok t" "rep X E D p (Node_Hash h) t"
  obtains n where "resolve E h p = Some n" "rep X E D p n t" "\<not> is_hash n"
proof -
  have "hash_node E D p (Node_Hash h :: 'a node) t" using assms(4) rep_hash [of "Node_Hash h" X E D p t] by simp
  then have "h = root_hash (keccak E) t" "saved E D p t" by (simp_all add: hash_node_def)
  with resolve_saved [OF assms(1-3), of D X] that show thesis by (metis is_hash_def)
qed

lemma rep_Branch_Full:
  "rep X E D p (Full cs h) (Branch ts) \<longleftrightarrow>
     length cs = length ts \<and> hash_ok E p (Branch ts) h \<and> (h \<noteq> None \<longrightarrow> saved E D p (Branch ts)) \<and>
     (\<forall>x. branch_at ts x = None \<longrightarrow> branch_at cs x = None) \<and>
     (\<forall>x t. branch_at ts x = Some t \<longrightarrow> (\<exists>c. branch_at cs x = Some c \<and> rep X E D (p @ [x]) c t))"
  by auto

lemma rep_child:
  assumes "rep X E D p (Full cs h) (Branch ts)" "branch_at ts x = Some t"
  obtains c where "branch_at cs x = Some c" "rep X E D (p @ [x]) c t"
  using assms unfolding rep_Branch_Full by blast

lemma rep_no_child: "rep X E D p (Full cs h) (Branch ts) \<Longrightarrow> branch_at ts x = None \<Longrightarrow> branch_at cs x = None"
  unfolding rep_Branch_Full by blast

lemma rep_not_value: "rep X E D p n t \<Longrightarrow> n \<noteq> Value_Node v"
  by (cases t) (auto simp: hash_node_def)

lemma branch_at_update:
  "i < length cs \<Longrightarrow> i < 256 \<Longrightarrow> branch_at (cs[i := c]) x = (if x = of_nat i then c else branch_at cs x)"
  by (auto simp: branch_at_def nth_list_update unat_of_nat_small)

text \<open>A branch whose hash is forgotten and one child is replaced.\<close>

lemma rep_update:
  assumes "rep X E D p (Full cs h) (Branch ts)" "length ts = 16" "i < 16"
    and "case (c, t) of (None, None) \<Rightarrow> True | (Some n, Some u) \<Rightarrow> rep X E D (p @ [of_nat i]) n u | _ \<Rightarrow> False"
  shows "rep X E D p (Full (cs[i := c]) None) (Branch (ts[i := t]))"
proof -
  have l: "length cs = 16" using assms(1,2) by (simp add: rep_Branch_Full)
  have at: "branch_at (cs[i := c]) x = (if x = of_nat i then c else branch_at cs x)"
    "branch_at (ts[i := t]) x = (if x = of_nat i then t else branch_at ts x)" for x
    using l assms(2,3) by (simp_all add: branch_at_update)
  show ?thesis using assms unfolding rep_Branch_Full at by (auto simp: hash_ok_def split: option.splits)
qed

text \<open>\<open>fresh\<close>: a node that was just built, with no hash.\<close>

fun fresh :: "'v node \<Rightarrow> bool" where
  "fresh (Short _ _ h) \<longleftrightarrow> h = None"
| "fresh (Full _ h) \<longleftrightarrow> h = None"
| "fresh _ \<longleftrightarrow> False"

lemma fresh_not_hash: "fresh n \<Longrightarrow> \<not> is_hash n"
  by (cases n) auto

lemma rep_leaf_new:
  "X x = v \<Longrightarrow> rep X E D p (Short kp (Some (Value_Node (Some (Put_Value x)))) None) (Leaf kp v)"
  by (simp add: value_rep_def hash_ok_def)

lemma branch_at_fork:
  assumes "nibble x" "nibble y" "x \<noteq> y"
  shows "branch_at ((replicate 16 None)[unat x := Some a, unat y := Some b]) z =
    (if z = y then Some b else if z = x then Some a else None)"
  using assms by (simp add: branch_at_update nibble_def word_less_nat_alt) (simp add: branch_at_def)

lemma rep_fork:
  assumes "nibble x" "nibble y" "x \<noteq> y" "rep X E D (p @ [x]) n s" "rep X E D (p @ [y]) m t"
  shows "rep X E D p (Full ((replicate 16 None)[unat x := Some n, unat y := Some m]) None) (fork x s y t)"
  using assms(4,5)
  by (simp add: fork_def rep_Branch_Full hash_ok_def branch_at_fork [OF assms(1-3)] del: rep.simps)

lemma rep_prolong_branch:
  assumes "rep X E D (p @ q) n t" "is_branch t"
  shows "rep X E D p (if q = [] then n else Short q (Some n) None) (prolong q t)"
proof (cases "q = []")
  case True
  then show ?thesis using assms by (cases t) (simp_all add: prolong_def)
next
  case False
  then show ?thesis using assms by (cases t) (simp_all add: prolong_def hash_ok_def rep.simps(2) del: rep.simps(3))
qed

subsection \<open>Moving a short node\<close>

lemma value_rep_stored: "value_rep X E D hk None h v \<Longrightarrow> stored_value E D hk v"
  by (simp add: value_rep_def)

lemma shift_down:
  assumes ok: "tree_ok (length p) t" "short_key t kp" "m < length kp" "nibble (kp ! m)"
    and rep: "rep X E D p (Short kp val h) t"
  obtains n where "shift E (Short kp val None) (p @ take m kp) (kp ! m) (drop (Suc m) kp) False = Some (Some n)"
    "rep X E D (p @ take m kp @ [kp ! m]) n (lower t (drop (Suc m) kp))"
proof -
  have kp: "take m kp @ kp ! m # drop (Suc m) kp = kp" using ok(3) by (simp add: id_take_nth_drop [symmetric])
  show thesis
  proof (cases t)
    case (Leaf kp' v)
    then have t: "t = Leaf kp v" using ok(2) by simp
    then obtain vn where vn: "val = Some (Value_Node vn)" "value_rep X E D (p @ kp) vn h v" using rep by auto
    have len: "length p + length kp = HexKeyLen" "drop (Suc m) kp \<noteq> []"
      using ok(1,3,4) t key_at_nth [of "length p" kp m] by (auto simp: key_at_def)
    define vn' where "vn' = (case vn of None \<Rightarrow> Some (Internal_Value (fst v) (snd v)) | Some x \<Rightarrow> Some x)"
    have "shift E (Short kp val None) (p @ take m kp) (kp ! m) (drop (Suc m) kp) False =
        Some (Some (Short (drop (Suc m) kp) (Some (Value_Node vn')) None))"
      using vn len kp
      by (cases vn) (auto simp: shift_def nil_val_node_def vn'_def stored_value_read [OF value_rep_stored])
    moreover have "value_rep X E D (p @ kp) vn' None v"
      using vn(2) by (cases vn) (auto simp: vn'_def value_rep_def split: trie_val.splits)
    ultimately show thesis using t kp by (intro that) (auto simp: lower_def hash_ok_def)
  next
    case (Ext kp' c)
    then have t: "t = Ext kp c" using ok(2) by simp
    then obtain n where n: "val = Some n" "rep X E D (p @ kp) n c" using rep by auto
    then have "shift E (Short kp val None) (p @ take m kp) (kp ! m) (drop (Suc m) kp) False =
        Some (Some (if drop (Suc m) kp = [] then n else Short (drop (Suc m) kp) (Some n) None))"
      using rep_not_value [OF n(2)] by (auto simp: shift_def nil_val_node_def)
    moreover have "(p @ take m kp @ [kp ! m]) @ drop (Suc m) kp = p @ kp" using kp by simp
    moreover have "take m kp @ [kp ! m] = kp" if "drop (Suc m) kp = []" using kp that by simp
    ultimately show thesis using t n(2) by (intro that) (auto simp: lower_def hash_ok_def)
  qed (use ok(2) in simp)
qed

lemma shift_up:
  assumes ok: "tree_ok (length p + 1) t" "short_key t kp" and rep: "rep X E D (p @ [x]) (Short kp val h) t"
  obtains n where "shift E (Short kp val None) p x kp True = Some (Some n)" "rep X E D p n (prolong [x] t)" "fresh n"
proof (cases t)
  case (Leaf kp' v)
  then have t: "t = Leaf kp v" using ok(2) by simp
  then obtain vn where vn: "val = Some (Value_Node vn)" "value_rep X E D (p @ x # kp) vn h v" using rep by auto
  have len: "length p + length (x # kp) = HexKeyLen" using ok(1) t by (auto simp: key_at_def)
  define vn' where "vn' = (case vn of None \<Rightarrow> Some (Internal_Value (fst v) (snd v)) | Some x \<Rightarrow> Some x)"
  have "shift E (Short kp val None) p x kp True = Some (Some (Short (x # kp) (Some (Value_Node vn')) None))"
    using vn len by (cases vn) (auto simp: shift_def nil_val_node_def vn'_def stored_value_read [OF value_rep_stored])
  moreover have "value_rep X E D (p @ x # kp) vn' None v"
    using vn(2) by (cases vn) (auto simp: vn'_def value_rep_def split: trie_val.splits)
  ultimately show thesis using t by (intro that) (auto simp: prolong_def hash_ok_def)
next
  case (Ext kp' c)
  then have t: "t = Ext kp c" using ok(2) by simp
  then obtain n where n: "val = Some n" "rep X E D (p @ x # kp) n c" using rep by auto
  then have "shift E (Short kp val None) p x kp True = Some (Some (Short (x # kp) (Some n) None))"
    using rep_not_value [OF n(2)] by (auto simp: shift_def nil_val_node_def)
  then show thesis using t n(2) by (intro that) (auto simp: prolong_def hash_ok_def)
qed (use ok(2) in simp)

subsection \<open>Insertion\<close>

lemma prefixLen_same: "prefixLen k k = length k"
  by (induction k) simp_all

lemma take_Suc_prefix: "d < length k \<Longrightarrow> take (Suc d) k = take d k @ [k ! d]"
  by (simp add: take_Suc_conv_app_nth)

text \<open>A short node whose key part the written key leaves at \<open>m\<close>.\<close>

lemma insert_split:
  assumes ok: "tree_ok d t" "short_key t kp" "length k = HexKeyLen" "d < HexKeyLen"
    and m: "m = prefixLen (drop d k) kp" "m < length (drop d k)" "m < length kp" "nibble (drop d k ! m)" "nibble (kp ! m)"
      "Suc m < length (drop d k)"
    and rep: "rep X E D (take d k) (Short kp val h) t" and v: "X x = v"
  shows "\<exists>n. mpt_insert (Suc f) E k (Some (Short kp val h)) d (Value_Node (Some (Put_Value x))) = Some n \<and>
    rep X E D (take d k) n (split_short (drop d k) v kp t) \<and> fresh n"
proof -
  let ?p = "take d k" and ?k = "drop d k"
  have lp: "length ?p = d" using ok(3,4) by simp
  have tk: "take m ?k = take m kp" using m(1) prefixLen_take by blast
  have pre: "take (d + m) k = ?p @ take m kp" using tk by (simp add: take_add)
  have ok': "tree_ok (length ?p) t" using ok(1) lp by simp
  obtain n where n: "shift E (Short kp val None) (?p @ take m kp) (kp ! m) (drop (Suc m) kp) False = Some (Some n)"
    "rep X E D (?p @ take m kp @ [kp ! m]) n (lower t (drop (Suc m) kp))"
    by (rule shift_down [OF ok' ok(2) m(3,5) rep])
  have ne: "kp ! m \<noteq> ?k ! m" using prefixLen_differs [of ?k kp] m(1,2,3) by auto
  have x16: "unat (kp ! m) < 16" "unat (?k ! m) < 16" using m(4,5) by (simp_all add: nibble_def word_less_nat_alt)
  let ?leaf = "Short (drop (Suc m) ?k) (Some (Value_Node (Some (Put_Value x)))) None"
  let ?j = "Full ((replicate 16 None)[unat (kp ! m) := Some n, unat (?k ! m) := Some ?leaf]) None"
  have j: "rep X E D (?p @ take m ?k) ?j (fork (kp ! m) (lower t (drop (Suc m) kp)) (?k ! m) (Leaf (drop (Suc m) ?k) v))"
  proof (rule rep_fork [OF m(5,4) ne])
    show "rep X E D ((?p @ take m ?k) @ [kp ! m]) n (lower t (drop (Suc m) kp))" using n(2) tk by simp
    show "rep X E D ((?p @ take m ?k) @ [?k ! m]) ?leaf (Leaf (drop (Suc m) ?k) v)" using v by (rule rep_leaf_new)
  qed
  have "rep X E D ?p (if take m ?k = [] then ?j else Short (take m ?k) (Some ?j) None) (split_short ?k v kp t)"
    using rep_prolong_branch [OF j] m(1) by (simp add: split_short_def Let_def fork_def)
  moreover have "mpt_insert (Suc f) E k (Some (Short kp val h)) d (Value_Node (Some (Put_Value x))) =
      Some (if m = 0 then ?j else Short (drop d (take (d + m) k)) (Some ?j) None)"
  proof -
    have "d + m \<noteq> HexKeyLen" "m \<noteq> length kp" "?k ! m = k ! (d + m)" "drop (Suc m) ?k = drop (Suc (d + m)) k"
      using m(2,3) ok(3,4) by (auto simp: add.commute)
    then show ?thesis using n(1) x16 ok(4) ok(3) by (cases "m = 0") (simp_all add: Let_def full_node_child_cnt_def pre holds_def flip: m(1))
  qed
  moreover have "take m ?k = [] \<longleftrightarrow> m = 0" "drop d (take (d + m) k) = take m ?k" using m(2) by (auto simp: drop_take)
  ultimately show ?thesis by (auto split: if_splits)
qed

lemma nonhash_cases:
  assumes "rep X E D p n t" "\<not> is_hash n"
  shows "(\<exists>kp v vn h. t = Leaf kp v \<and> n = Short kp (Some (Value_Node vn)) h) \<or> (\<exists>kp c m h. t = Ext kp c \<and> n = Short kp (Some m) h) \<or>
    (\<exists>ts cs h. t = Branch ts \<and> n = Full cs h)"
  using assms by (cases t) (auto dest: hash_node_is_hash)

definition inserts :: "('v \<Rightarrow> trie_value) \<Rightarrow> trie_env \<Rightarrow> bytes set \<Rightarrow> bytes \<Rightarrow> 'v \<Rightarrow> trie_value mpt \<Rightarrow> bool" where
  "inserts X E D k x t \<longleftrightarrow>
     (\<forall>n d f. tree_ok d t \<longrightarrow> values_ok t \<longrightarrow> key_at d (drop d k) \<longrightarrow> rep X E D (take d k) n t \<longrightarrow>
        2 * (HexKeyLen - d) + (if is_hash n then 1 else 0) \<le> f \<longrightarrow>
        (\<exists>n'. mpt_insert f E k (Some n) d (Value_Node (Some (Put_Value x))) = Some n' \<and>
           rep X E D (take d k) n' (ins (drop d k) (X x) t) \<and> fresh n'))"

lemma insertsD:
  assumes "inserts X E D k x t" "tree_ok d t" "values_ok t" "key_at d (drop d k)" "rep X E D (take d k) n t"
    "2 * (HexKeyLen - d) + 1 \<le> f"
  obtains n' where "mpt_insert f E k (Some n) d (Value_Node (Some (Put_Value x))) = Some n'"
    "rep X E D (take d k) n' (ins (drop d k) (X x) t)" "fresh n'"
proof -
  have "2 * (HexKeyLen - d) + (if is_hash n then 1 else 0) \<le> f" using assms(6) by simp
  with assms(1-5) that show thesis unfolding inserts_def by blast
qed

lemma insert_branch:
  assumes ok: "tree_ok d (Branch ts)" "values_ok (Branch ts)" "length k = HexKeyLen" "key_at d (drop d k)"
    and rep: "rep X E D (take d k) (Full cs h) (Branch ts)" and f: "2 * (HexKeyLen - d) \<le> Suc f"
    and IH: "\<And>t. Some t \<in> set ts \<Longrightarrow> inserts X E D k x t"
  shows "\<exists>n. mpt_insert (Suc f) E k (Some (Full cs h)) d (Value_Node (Some (Put_Value x))) = Some n \<and>
    rep X E D (take d k) n (ins (drop d k) (X x) (Branch ts)) \<and> fresh n"
proof -
  have d: "Suc d < HexKeyLen" using branch_depth [OF ok(1)] by simp
  have ts: "length ts = 16" "length cs = 16" using ok(1) rep by (simp_all add: rep_Branch_Full)
  have k: "drop d k = k ! d # drop (Suc d) k" using d ok(3) by (simp add: Cons_nth_drop_Suc)
  have x: "unat (k ! d) < 16" using key_at_nth [OF ok(4), of 0] d ok(3) k by (simp add: nibble_def word_less_nat_alt)
  have kk: "key_at (Suc d) (drop (Suc d) k)" using key_at_tl [of d "k ! d"] ok(4) k d ok(3) by auto
  have pre: "take (Suc d) k = take d k @ [k ! d]" using d ok(3) by (simp add: take_Suc_prefix)
  have at: "branch_at ts (k ! d) = ts ! unat (k ! d)" "branch_at cs (k ! d) = cs ! unat (k ! d)"
    using ts x by (simp_all add: branch_at_def)
  let ?v = "Value_Node (Some (Put_Value x))"
  have "\<exists>c. mpt_insert f E k (cs ! unat (k ! d)) (Suc d) ?v = Some c \<and>
      rep X E D (take d k @ [k ! d]) c (case branch_at ts (k ! d) of None \<Rightarrow> Leaf (drop (Suc d) k) (X x) | Some t \<Rightarrow> ins (drop (Suc d) k) (X x) t)"
  proof (cases "branch_at ts (k ! d)")
    case None
    then have "cs ! unat (k ! d) = None" using rep at by (simp add: rep_Branch_Full)
    moreover obtain f' where "f = Suc f'" using f d by (cases f) auto
    ultimately show ?thesis using None rep_leaf_new [of X x "X x" E D] by (auto simp del: rep.simps)
  next
    case (Some t)
    then obtain c where c: "cs ! unat (k ! d) = Some c" "rep X E D (take d k @ [k ! d]) c t"
      using rep_child [OF rep Some] at by metis
    have mem: "Some t \<in> set ts" using Some by (rule branch_at_member)
    have vt: "values_ok t" using ok(2) mem by simp
    have rc: "rep X E D (take (Suc d) k) c t" using c pre by simp
    have ff: "2 * (HexKeyLen - Suc d) + 1 \<le> f" using f d by simp
    from insertsD [OF IH [OF mem] branch_at_ok [OF ok(1) Some] vt kk rc ff] pre obtain n' where "mpt_insert f E k (Some c) (Suc d) ?v = Some n'" "rep X E D (take d k @ [k ! d]) n' (ins (drop (Suc d) k) (X x) t)"
      by metis
    then show ?thesis using c Some by auto
  qed
  then obtain c where c: "mpt_insert f E k (cs ! unat (k ! d)) (Suc d) ?v = Some c"
    "rep X E D (take d k @ [k ! d]) c (case branch_at ts (k ! d) of None \<Rightarrow> Leaf (drop (Suc d) k) (X x) | Some t \<Rightarrow> ins (drop (Suc d) k) (X x) t)"
    by blast
  from rep_update [OF rep ts(1) x, of "Some c" "Some _"] c(2)
  have "rep X E D (take d k) (Full (cs[unat (k ! d) := Some c]) None) (ins (drop d k) (X x) (Branch ts))"
    unfolding k by (simp del: rep.simps)
  with c(1) x ts d show ?thesis by (simp add: holds_def)
qed

lemma insert_nonhash:
  assumes ok: "tree_ok d t" "values_ok t" "length k = HexKeyLen" "key_at d (drop d k)"
    and rep: "rep X E D (take d k) n t" "\<not> is_hash n" and f: "2 * (HexKeyLen - d) \<le> f"
    and IH: "\<And>s. size s < size t \<Longrightarrow> inserts X E D k x s"
  shows "\<exists>n'. mpt_insert f E k (Some n) d (Value_Node (Some (Put_Value x))) = Some n' \<and>
    rep X E D (take d k) n' (ins (drop d k) (X x) t) \<and> fresh n'"
proof -
  let ?k = "drop d k" and ?v = "Value_Node (Some (Put_Value x))"
  have d: "d < HexKeyLen" using tree_ok_depth [OF ok(1)] .
  obtain f' where f': "f = Suc f'" using f d by (cases f) auto
  consider (leaf) kp v vn h where "t = Leaf kp v" "n = Short kp (Some (Value_Node vn)) h"
    | (ext) kp c m h where "t = Ext kp c" "n = Short kp (Some m) h" | (branch) ts cs h where "t = Branch ts" "n = Full cs h"
    using nonhash_cases [OF rep] by blast
  then show ?thesis
  proof cases
    case leaf
    show ?thesis
    proof (cases "?k = kp")
      case True
      have "prefixLen ?k kp = length kp" by (simp add: True prefixLen_same)
      moreover have "d + length kp = HexKeyLen" using ok(1) leaf by (simp add: key_at_def)
      ultimately have "mpt_insert f E k (Some n) d ?v = Some (Short kp (Some ?v) None)" using leaf f' True by (simp add: Let_def)
      then show ?thesis using leaf True rep_leaf_new [of X x "X x" E D "take d k" kp] by (simp del: rep.simps)
    next
      case False
      have kp: "key_at d kp" using ok(1) leaf by simp
      have r: "short_key t kp" "rep X E D (take d k) (Short kp (Some (Value_Node vn)) h) t" using leaf rep(1) by simp_all
      have "\<exists>n'. mpt_insert f E k (Some n) d ?v = Some n' \<and> rep X E D (take d k) n' (split_short ?k (X x) kp t) \<and> fresh n'"
        unfolding f' leaf(2) using diverge_leaf [OF ok(4) kp False] by (intro insert_split [OF ok(1) r(1) ok(3) d refl _ _ _ _ _ r(2) refl]) blast+
      then show ?thesis using leaf(1) False by simp
    qed
  next
    case ext
    show ?thesis
    proof (cases "prefixLen ?k kp = length kp")
      case True
      have l: "Suc (length kp) < length ?k" using ext_shorter [OF ok(4)] ok(1) ext by blast
      have kp: "take (length kp) ?k = kp" using prefixLen_take [of ?k kp] True by simp
      have pre: "take (d + length kp) k = take d k @ kp" using kp by (simp add: take_add)
      have m: "rep X E D (take d k @ kp) m c" using rep ext by auto
      have c: "tree_ok (d + length kp) c" "values_ok c" "kp \<noteq> []" "is_branch c" using ok(1,2) ext by auto
      have kk: "key_at (d + length kp) (drop (d + length kp) k)" using key_at_drop [OF ok(4), of "length kp"] l by (simp add: add.commute)
      obtain n' where n': "mpt_insert f' E k (Some m) (d + length kp) ?v = Some n'"
        "rep X E D (take (d + length kp) k) n' (ins (drop (d + length kp) k) (X x) c)"
      proof -
        have i: "inserts X E D k x c" using IH [of c] ext by simp
        have r: "rep X E D (take (d + length kp) k) m c" using m pre by simp
        have g: "2 * (HexKeyLen - (d + length kp)) + 1 \<le> f'" using f f' c(3) d by (cases kp) auto
        show thesis by (rule insertsD [OF i c(1,2) kk r g]) (rule that)
      qed
      have "d + length kp \<noteq> HexKeyLen" using l ok(3) by simp
      then have "mpt_insert f E k (Some n) d ?v = Some (Short kp (Some n') None)"
        using n'(1) True ext f' by (simp add: Let_def)
      moreover have "rep X E D (take d k) (Short kp (Some n') None) (ins ?k (X x) t)"
        using n'(2) True ext pre by (simp add: hash_ok_def add.commute)
      ultimately show ?thesis by simp
    next
      case False
      have e: "tree_ok d (Ext kp c)" using ok(1) ext by simp
      have r: "short_key t kp" "rep X E D (take d k) (Short kp (Some m) h) t" using ext rep(1) by simp_all
      have "\<exists>n'. mpt_insert f E k (Some n) d ?v = Some n' \<and> rep X E D (take d k) n' (split_short ?k (X x) kp t) \<and> fresh n'"
        unfolding f' ext(2) using diverge_ext [OF ok(4) e False] by (intro insert_split [OF ok(1) r(1) ok(3) d refl _ _ _ _ _ r(2) refl]) blast+
      then show ?thesis using ext(1) False by simp
    qed
  next
    case branch
    have "inserts X E D k x s" if "Some s \<in> set ts" for s using IH [of s] size_member [OF that] branch by simp
    then show ?thesis using insert_branch [of d ts k X E D cs h f'] ok rep f branch unfolding f' by blast
  qed
qed

lemma inserts_all: "env_ok E \<Longrightarrow> length k = HexKeyLen \<Longrightarrow> inserts X E D k x t"
proof (induction t rule: measure_induct_rule [of size])
  case (less t)
  show ?case unfolding inserts_def
  proof (intro allI impI)
    fix n d f
    assume ok: "tree_ok d t" "values_ok t" "key_at d (drop d k)" "rep X E D (take d k) n t"
      and f: "2 * (HexKeyLen - d) + (if is_hash n then 1 else 0) \<le> f"
    have IH: "inserts X E D k x s" if "size s < size t" for s using less that by blast
    show "\<exists>n'. mpt_insert f E k (Some n) d (Value_Node (Some (Put_Value x))) = Some n' \<and>
        rep X E D (take d k) n' (ins (drop d k) (X x) t) \<and> fresh n'"
    proof (cases "is_hash n")
      case True
      then obtain h where h: "n = Node_Hash h" by (auto simp: is_hash_def)
      have lp: "tree_ok (length (take d k)) t" using ok(1) tree_ok_depth [OF ok(1)] less.prems(2) by simp
      obtain m where m: "resolve E h (take d k) = Some m" "rep X E D (take d k) m t" "\<not> is_hash m"
        using rep_resolve [OF less.prems(1) lp ok(2)] ok(4) h by metis
      obtain f' where f': "f = Suc f'" using f True by (cases f) auto
      have "\<exists>n'. mpt_insert f' E k (Some m) d (Value_Node (Some (Put_Value x))) = Some n' \<and>
        rep X E D (take d k) n' (ins (drop d k) (X x) t) \<and> fresh n'"
        using insert_nonhash [OF ok(1,2) less.prems(2) ok(3) m(2,3) _ IH] f f' True by simp
      with m(1) h f' show ?thesis by simp
    next
      case False
      then show ?thesis using insert_nonhash [OF ok(1,2) less.prems(2) ok(3,4) False _ IH] f by simp
    qed
  qed
qed

end
