(* ===== verification/Trie_Deletes.thy ===== *)
theory Trie_Deletes
  imports Trie_Writes
begin

section \<open>Deletions refine the tree\<close>

subsection \<open>The only child left\<close>

lemma only_child_loop_enumerate:
  "only_child_loop cs i j found =
     (let js = map fst (filter (\<lambda>(l, c). l \<noteq> j \<and> c \<noteq> None) (enumerate i cs)) in
      case found of None \<Rightarrow> (case js of [l] \<Rightarrow> Some l | _ \<Rightarrow> None) | Some l \<Rightarrow> if js = [] then Some l else None)"
proof (induction cs i j found rule: only_child_loop.induct)
  case (2 c cs i j found)
  then show ?case by (cases "c \<noteq> None \<and> i \<noteq> j"; cases found) (auto simp: Let_def split: list.splits)
qed (simp split: option.split)

lemma only_child_loop_others: "only_child_loop cs 0 j None = (case others cs j of [l] \<Rightarrow> Some l | _ \<Rightarrow> None)"
  by (simp add: only_child_loop_enumerate others_def)

lemma filter_enumerate_cong:
  assumes "length cs = length ts" "\<forall>i<length ts. cs ! i = None \<longleftrightarrow> ts ! i = None"
  shows "map fst (filter (\<lambda>(j, c). j \<noteq> i \<and> c \<noteq> None) (enumerate n cs)) = map fst (filter (\<lambda>(j, c). j \<noteq> i \<and> c \<noteq> None) (enumerate n ts))"
  using assms
proof (induction cs ts arbitrary: n rule: list_induct2)
  case (Cons c cs t ts)
  then have "(c = None) = (t = None)" "\<forall>i<length ts. cs ! i = None \<longleftrightarrow> ts ! i = None" by fastforce+
  with Cons.IH [of "Suc n"] show ?case by (cases c; cases t; cases "n = i"; simp)
qed simp

lemma fresh_hash_node: "fresh n \<Longrightarrow> hash_node E D p n t = False"
  by (auto simp: hash_node_def)

lemma del_branch_Some: "is_branch t \<Longrightarrow> \<exists>u. del k t = Some u"
  by (cases t; cases k) (auto split: option.split)

lemma rep_others:
  assumes "rep X E D p (Full cs h) (Branch ts)" "length ts = 16"
  shows "others cs i = others ts i"
proof -
  have l: "length cs = length ts" using assms by (simp add: rep_Branch_Full)
  have "cs ! j = None \<longleftrightarrow> ts ! j = None" if "j < length ts" for j
  proof -
    have at: "branch_at cs (of_nat j) = cs ! j" "branch_at ts (of_nat j) = ts ! j"
      using that assms(2) l by (simp_all add: branch_at_def unat_nibble)
    show ?thesis
    proof (cases "ts ! j")
      case None
      then show ?thesis using rep_no_child [OF assms(1), of "of_nat j"] at by simp
    next
      case (Some t)
      then show ?thesis using rep_child [OF assms(1), of "of_nat j" t] at by fastforce
    qed
  qed
  with l show ?thesis unfolding others_def by (intro filter_enumerate_cong) auto
qed

subsection \<open>Deletion\<close>

definition rep_fresh :: "('v \<Rightarrow> trie_value) \<Rightarrow> trie_env \<Rightarrow> bytes set \<Rightarrow> bytes \<Rightarrow> 'v node option \<Rightarrow> trie_value mpt option \<Rightarrow> bool" where
  "rep_fresh X E D p r t \<longleftrightarrow>
     (case t of None \<Rightarrow> r = None | Some u \<Rightarrow> (\<exists>n. r = Some n \<and> rep X E D p n u \<and> fresh n))"

definition deletes :: "('v \<Rightarrow> trie_value) \<Rightarrow> trie_env \<Rightarrow> bytes set \<Rightarrow> bytes \<Rightarrow> trie_value mpt \<Rightarrow> nat \<Rightarrow> 'v node \<Rightarrow> nat \<Rightarrow> bool" where
  "deletes X E D k t d n f \<longleftrightarrow>
     (lookup t (drop d k) = None \<longrightarrow>
        (\<exists>n'. mpt_del f E k (Some n) d = Some (Not_Found (Some n')) \<and> rep X E D (take d k) n' t)) \<and>
     (lookup t (drop d k) \<noteq> None \<longrightarrow>
        (\<exists>r. mpt_del f E k (Some n) d = Some (Deleted r) \<and> rep_fresh X E D (take d k) r (del (drop d k) t)))"

definition deletes_from :: "('v \<Rightarrow> trie_value) \<Rightarrow> trie_env \<Rightarrow> bytes set \<Rightarrow> bytes \<Rightarrow> trie_value mpt \<Rightarrow> bool" where
  "deletes_from X E D k t \<longleftrightarrow>
     (\<forall>n d f. tree_ok d t \<longrightarrow> values_ok t \<longrightarrow> key_at d (drop d k) \<longrightarrow> rep X E D (take d k) n t \<longrightarrow>
        2 * (HexKeyLen - d) + (if is_hash n then 1 else 0) \<le> f \<longrightarrow> deletes X E D k t d n f)"

lemma deletes_fromD:
  assumes "deletes_from X E D k t" "tree_ok d t" "values_ok t" "key_at d (drop d k)" "rep X E D (take d k) n t"
    "2 * (HexKeyLen - d) + 1 \<le> f"
  shows "deletes X E D k t d n f"
proof -
  have "2 * (HexKeyLen - d) + (if is_hash n then 1 else 0) \<le> f" using assms(6) by simp
  with assms(1-5) show ?thesis unfolding deletes_from_def by blast
qed

lemma prefixLen_append: "prefixLen (kp @ r) kp = length kp"
  by (induction kp) simp_all

lemma delete_leaf:
  assumes ok: "tree_ok d (Leaf kp v)" "length k = HexKeyLen" "key_at d (drop d k)"
    and rep: "rep X E D (take d k) (Short kp val h) (Leaf kp v)"
  shows "deletes X E D k (Leaf kp v) d (Short kp val h) (Suc f)"
proof (cases "drop d k = kp")
  case True
  have "d + length kp = length k" using ok(1,2) by (simp add: key_at_def)
  then show ?thesis using True by (simp add: deletes_def rep_fresh_def prefixLen_same Let_def)
next
  case False
  have "prefixLen (drop d k) kp \<noteq> length kp" using diverge_leaf [OF ok(3) _ False] ok(1) by auto
  then show ?thesis using False rep by (simp add: deletes_def Let_def del: rep.simps)
qed

lemma delete_ext:
  assumes ok: "tree_ok d (Ext kp c)" "values_ok c" "length k = HexKeyLen" "key_at d (drop d k)"
    and rep: "rep X E D (take d k) (Short kp (Some m) h) (Ext kp c)" and f: "2 * (HexKeyLen - d) \<le> Suc f"
    and IH: "deletes_from X E D k c"
  shows "deletes X E D k (Ext kp c) d (Short kp (Some m) h) (Suc f)"
proof (cases "prefixLen (drop d k) kp = length kp")
  case True
  let ?d = "d + length kp"
  have l: "Suc (length kp) < length (drop d k)" using ext_shorter [OF ok(4) ok(1)] .
  have kp: "drop d k = kp @ drop ?d k"
    using prefixLen_take [of "drop d k" kp] True append_take_drop_id [of "length kp" "drop d k"] by (simp add: add.commute)
  have pre: "take ?d k = take d k @ kp" using kp by (simp add: take_add)
  have c: "tree_ok ?d c" "kp \<noteq> []" "is_branch c" using ok(1) by auto
  have m: "rep X E D (take ?d k) m c" using rep pre by simp
  have kk: "key_at ?d (drop ?d k)" using key_at_drop [OF ok(4), of "length kp"] l by (simp add: add.commute)
  have "2 * (HexKeyLen - ?d) + 1 \<le> f" using f c(2) tree_ok_depth [OF ok(1)] by (cases kp) auto
  from deletes_fromD [OF IH c(1) ok(2) kk m this] have d: "deletes X E D k c ?d m f" .
  have ne: "?d \<noteq> length k" using l by simp
  have look: "lookup (Ext kp c) (drop d k) = lookup c (drop ?d k)" by (subst kp) simp
  have de: "del (drop d k) (Ext kp c) = map_option (prolong kp) (del (drop ?d k) c)" by (simp add: add.commute)
  show ?thesis
  proof (cases "lookup c (drop ?d k)")
    case None
    then obtain n' where "mpt_del f E k (Some m) ?d = Some (Not_Found (Some n'))" "rep X E D (take d k @ kp) n' c"
      using d pre by (auto simp: deletes_def)
    then show ?thesis using None look True ne by (simp add: deletes_def Let_def hash_ok_def)
  next
    case (Some v)
    then obtain r where r: "mpt_del f E k (Some m) ?d = Some (Deleted r)" "rep_fresh X E D (take d k @ kp) r (del (drop ?d k) c)"
      using d pre by (auto simp: deletes_def)
    have "tree_opt_ok ?d (del (drop ?d k) c)" using del_spec [OF c(1)] Some by blast
    moreover obtain t1 where t1: "del (drop ?d k) c = Some t1" using del_branch_Some [OF c(3)] by blast
    ultimately obtain n1 where n1: "r = Some n1" "rep X E D (take d k @ kp) n1 t1" "fresh n1" using r(2) by (auto simp: rep_fresh_def)
    have "\<exists>n. mpt_del (Suc f) E k (Some (Short kp (Some m) h)) d = Some (Deleted (Some n)) \<and> rep X E D (take d k) n (prolong kp t1) \<and> fresh n"
    proof (cases t1)
      case (Leaf kp2 u)
      then obtain vn where "n1 = Short kp2 (Some (Value_Node vn)) None" "value_rep X E D (take d k @ kp @ kp2) vn None u"
        using n1(2,3) by (auto simp: fresh_hash_node)
      then show ?thesis using r(1) n1(1) True ne Leaf by (simp add: Let_def prolong_def hash_ok_def)
    next
      case (Ext kp2 c2)
      then obtain m2 where "n1 = Short kp2 (Some m2) None" "rep X E D (take d k @ kp @ kp2) m2 c2"
        using n1(2,3) by (auto simp: fresh_hash_node)
      then show ?thesis using r(1) n1(1) True ne Ext by (simp add: Let_def prolong_def hash_ok_def)
    next
      case (Branch ts)
      then obtain cs where "n1 = Full cs None" using n1(2,3) by (auto simp: fresh_hash_node)
      moreover have "rep X E D (take d k) (Short kp (Some n1) None) (prolong kp t1)"
        using rep_prolong_branch [OF n1(2)] Branch c(2) by simp
      ultimately show ?thesis using r(1) n1(1) True ne by (simp add: Let_def del: rep.simps)
    qed
    then show ?thesis using Some look de t1 by (auto simp: deletes_def rep_fresh_def simp del: rep.simps mpt_del.simps del.simps)
  qed
next
  case False
  then have "lookup (Ext kp c) (drop d k) = None" using lookup_Ext(2) [of "drop d k" kp c] prefixLen_append [of kp] by metis
  then show ?thesis using False rep by (simp add: deletes_def Let_def del: rep.simps)
qed

lemma rep_short_or_full:
  assumes "rep X E D p n t" "\<not> is_hash n"
  shows "(\<exists>kp val h. n = Short kp val h \<and> short_key t kp) \<or> (\<exists>cs h. n = Full cs h \<and> is_branch t)"
  using nonhash_cases [OF assms] by auto

text \<open>The branch loses a child and has one left: what is left moves up, read from the database if need be.\<close>

lemma delete_unbranch:
  assumes E: "env_ok E" and ok: "tree_ok d (Branch ts)" "values_ok (Branch ts)" "length p = d"
    and rep: "rep X E D p (Full cs h) (Branch ts)" and j: "others ts i = [j]"
  obtains c n where "(case cs ! j of Some (Node_Hash hash_n) \<Rightarrow> map_option Some (resolve E hash_n (p @ [of_nat j])) | c \<Rightarrow> Some c) = Some (Some c)"
    "(case Some c of
       Some (Short kp v _) \<Rightarrow> map_option Deleted (shift E (Short kp v None) p (of_nat j) kp True)
     | _ \<Rightarrow> Some (Deleted (Some (Short [of_nat j] (Some c) None)))) = Some (Deleted (Some n))"
    "rep X E D p n (unbranch ts i)" "fresh n"
proof -
  have ts: "length ts = 16" "length cs = 16" using ok(1) rep by (simp_all add: rep_Branch_Full)
  have "j < 16 \<and> ts ! j \<noteq> None" using others_set [of j ts i] j ts by simp
  then obtain t where t: "j < 16" "ts ! j = Some t" by blast
  then have at: "branch_at ts (of_nat j) = Some t" "branch_at cs (of_nat j) = cs ! j" using ts by (simp_all add: branch_at_def unat_nibble)
  obtain c0 where c0: "cs ! j = Some c0" "rep X E D (p @ [of_nat j]) c0 t" using rep_child [OF rep at(1)] at(2) by metis
  have okt: "tree_ok (length (p @ [of_nat j])) t" "tree_ok (length p + 1) t" "values_ok t"
    using branch_at_ok [OF ok(1) at(1)] branch_at_member [OF at(1)] ok(2,3) by auto
  obtain c where c: "(case cs ! j of Some (Node_Hash hash_n) \<Rightarrow> map_option Some (resolve E hash_n (p @ [of_nat j])) | c \<Rightarrow> Some c) = Some (Some c)"
    "rep X E D (p @ [of_nat j]) c t" "\<not> is_hash c"
  proof (cases "is_hash c0")
    case True
    then obtain hn where hn: "c0 = Node_Hash hn" by (auto simp: is_hash_def)
    then obtain m where m: "resolve E hn (p @ [of_nat j]) = Some m" "rep X E D (p @ [of_nat j]) m t" "\<not> is_hash m"
      using rep_resolve [OF E okt(1,3)] c0(2) by metis
    then show thesis using that [of m] c0(1) hn by simp
  next
    case False
    then show thesis using that [of c0] c0 by (cases c0) simp_all
  qed
  have un: "unbranch ts i = prolong [of_nat j] t" using j t by (simp add: unbranch_def)
  from rep_short_or_full [OF c(2,3)] show thesis
  proof (elim disjE exE conjE)
    fix kp val h' assume c': "c = Short kp val h'" "short_key t kp"
    then obtain n where "shift E (Short kp val None) p (of_nat j) kp True = Some (Some n)" "rep X E D p n (prolong [of_nat j] t)" "fresh n"
      using shift_up [OF okt(2) c'(2)] c(2) by metis
    then show thesis using that [of c n] c(1) c' un by simp
  next
    fix cs' h' assume c': "c = Full cs' h'" "is_branch t"
    have "rep X E D p (Short [of_nat j] (Some c) None) (prolong [of_nat j] t)" using rep_prolong_branch [OF c(2) c'(2)] by simp
    then show thesis using that [of c "Short [of_nat j] (Some c) None"] c(1) c' un by (simp del: rep.simps)
  qed
qed

lemma rep_replace:
  assumes "rep X E D p (Full cs h) (Branch ts)" "length ts = 16" "i < 16"
    and "ts ! i = None \<and> c = None \<or> (\<exists>n t. c = Some n \<and> ts ! i = Some t \<and> rep X E D (p @ [of_nat i]) n t)"
  shows "rep X E D p (Full (cs[i := c]) h) (Branch ts)"
proof -
  have l: "length cs = 16" using assms(1,2) by (simp add: rep_Branch_Full)
  have at: "branch_at (cs[i := c]) x = (if x = of_nat i then c else branch_at cs x)" for x
    using l assms(3) by (simp add: branch_at_update)
  have ti: "branch_at ts (of_nat i) = ts ! i" using assms(2,3) by (simp add: branch_at_def unat_nibble)
  show ?thesis using assms unfolding rep_Branch_Full at by (auto simp: ti)
qed

lemma mpt_del_only_child:
  assumes "d < length k \<and> unat (k ! d) < length cs" "mpt_del f E k (cs ! unat (k ! d)) (Suc d) = Some (Deleted None)"
    "only_child_loop cs 0 (unat (k ! d)) None = Some j"
    "(case cs ! j of Some (Node_Hash hash_n) \<Rightarrow> map_option Some (resolve E hash_n (take d k @ [of_nat j])) | c \<Rightarrow> Some c) = Some oc"
    "(case oc of
       Some (Short kp v _) \<Rightarrow> map_option Deleted (shift E (Short kp v None) (take d k) (of_nat j) kp True)
     | _ \<Rightarrow> Some (Deleted (Some (Short [of_nat j] oc None)))) = Some z"
  shows "mpt_del (Suc f) E k (Some (Full cs h)) d = Some z"
  using assms by (simp add: holds_def Let_def)

lemma delete_branch:
  assumes E: "env_ok E" and ok: "tree_ok d (Branch ts)" "values_ok (Branch ts)" "length k = HexKeyLen" "key_at d (drop d k)"
    and rep: "rep X E D (take d k) (Full cs h) (Branch ts)" and f: "2 * (HexKeyLen - d) \<le> Suc f"
    and IH: "\<And>t. Some t \<in> set ts \<Longrightarrow> deletes_from X E D k t"
  shows "deletes X E D k (Branch ts) d (Full cs h) (Suc f)"
proof -
  let ?i = "unat (k ! d)"
  have d: "Suc d < HexKeyLen" using branch_depth [OF ok(1)] by simp
  have lp: "length (take d k) = d" using d ok(3) by simp
  have ts: "length ts = 16" "length cs = 16" using ok(1) rep by (simp_all add: rep_Branch_Full)
  have k: "drop d k = k ! d # drop (Suc d) k" using d ok(3) by (simp add: Cons_nth_drop_Suc)
  have i: "?i < 16" using key_at_nth [OF ok(4), of 0] d ok(3) k by (simp add: nibble_def word_less_nat_alt)
  have kk: "key_at (Suc d) (drop (Suc d) k)" using key_at_tl [of d "k ! d"] ok(4) k d ok(3) by auto
  have pre: "take (Suc d) k = take d k @ [k ! d]" using d ok(3) by (simp add: take_Suc_prefix)
  have at: "branch_at ts (k ! d) = ts ! ?i" "branch_at cs (k ! d) = cs ! ?i" using ts i by (simp_all add: branch_at_def)
  have guard: "d < length k \<and> ?i < length cs" using d ok(3) i ts by simp
  obtain f' where f': "f = Suc f'" using f d by (cases f) auto
  show ?thesis
  proof (cases "ts ! ?i")
    case None
    then have c: "cs ! ?i = None" using rep_no_child [OF rep, of "k ! d"] at by simp
    then have "mpt_del (Suc f) E k (Some (Full cs h)) d = Some (Not_Found (Some (Full cs h)))"
      using guard f' list_update_id [of cs ?i] by (simp add: holds_def Let_def)
    moreover have "lookup (Branch ts) (drop d k) = None" unfolding k using None at by simp
    ultimately show ?thesis using rep by (simp add: deletes_def del: rep.simps mpt_del.simps)
  next
    case (Some t)
    then have bt: "branch_at ts (k ! d) = Some t" using at by simp
    obtain c where c: "cs ! ?i = Some c" "rep X E D (take (Suc d) k) c t" using rep_child [OF rep bt] at pre by metis
    have mem: "Some t \<in> set ts" using bt by (rule branch_at_member)
    have vt: "values_ok t" using ok(2) mem by simp
    have "2 * (HexKeyLen - Suc d) + 1 \<le> f" using f d by simp
    from deletes_fromD [OF IH [OF mem] branch_at_ok [OF ok(1) bt] vt kk c(2) this]
    have dt: "deletes X E D k t (Suc d) c f" .
    have look: "lookup (Branch ts) (drop d k) = lookup t (drop (Suc d) k)" unfolding k using bt by simp
    have of: "of_nat ?i = k ! d" by simp
    show ?thesis
    proof (cases "lookup t (drop (Suc d) k)")
      case None
      then obtain n' where n': "mpt_del f E k (Some c) (Suc d) = Some (Not_Found (Some n'))" "rep X E D (take d k @ [k ! d]) n' t"
        using dt pre by (auto simp: deletes_def)
      then have "mpt_del (Suc f) E k (Some (Full cs h)) d = Some (Not_Found (Some (Full (cs[?i := Some n']) h)))"
        using guard c(1) by (simp add: holds_def Let_def)
      moreover have "rep X E D (take d k) (Full (cs[?i := Some n']) h) (Branch ts)"
        using rep_replace [OF rep ts(1) i, of "Some n'"] n'(2) Some by simp
      ultimately show ?thesis using None look by (simp add: deletes_def del: rep.simps mpt_del.simps)
    next
      case v: (Some v)
      then obtain r where r: "mpt_del f E k (Some c) (Suc d) = Some (Deleted r)"
        "rep_fresh X E D (take d k @ [k ! d]) r (del (drop (Suc d) k) t)" using dt pre by (auto simp: deletes_def)
      have "\<exists>n. mpt_del (Suc f) E k (Some (Full cs h)) d = Some (Deleted (Some n)) \<and>
          rep X E D (take d k) n (case del (drop (Suc d) k) t of Some t1 \<Rightarrow> Branch (ts[?i := Some t1]) | None \<Rightarrow> unbranch ts ?i) \<and> fresh n"
      proof (cases "del (drop (Suc d) k) t")
        case (Some t1)
        then obtain n1 where n1: "r = Some n1" "rep X E D (take d k @ [k ! d]) n1 t1" using r(2) by (auto simp: rep_fresh_def)
        have "mpt_del (Suc f) E k (Some (Full cs h)) d = Some (Deleted (Some (Full (cs[?i := Some n1]) None)))"
          using guard c(1) r(1) n1(1) by (simp add: holds_def Let_def)
        moreover have "rep X E D (take d k) (Full (cs[?i := Some n1]) None) (Branch (ts[?i := Some t1]))"
          using rep_update [OF rep ts(1) i, of "Some n1" "Some t1"] n1(2) by simp
        ultimately show ?thesis using Some by (simp del: rep.simps mpt_del.simps)
      next
        case None
        then have rn: "r = None" using r(2) by (simp add: rep_fresh_def)
        have oc: "only_child_loop cs 0 ?i None = (case others ts ?i of [l] \<Rightarrow> Some l | _ \<Rightarrow> None)"
          using only_child_loop_others [of cs ?i] rep_others [OF rep ts(1)] by simp
        show ?thesis
        proof (cases "\<exists>j. others ts ?i = [j]")
          case True
          then obtain j where j: "others ts ?i = [j]" by blast
          then have oj: "only_child_loop cs 0 ?i None = Some j" using oc by simp
          obtain c1 n where cn: "(case cs ! j of Some (Node_Hash hash_n) \<Rightarrow> map_option Some (resolve E hash_n (take d k @ [of_nat j])) | c \<Rightarrow> Some c) = Some (Some c1)"
            "(case Some c1 of
               Some (Short kp v _) \<Rightarrow> map_option Deleted (shift E (Short kp v None) (take d k) (of_nat j) kp True)
             | _ \<Rightarrow> Some (Deleted (Some (Short [of_nat j] (Some c1) None)))) = Some (Deleted (Some n))"
            "rep X E D (take d k) n (unbranch ts ?i)" "fresh n"
            by (rule delete_unbranch [OF E ok(1,2) lp rep j])
          have "mpt_del (Suc f) E k (Some (Full cs h)) d = Some (Deleted (Some n))"
            using r(1) unfolding rn c(1) [symmetric] by (rule mpt_del_only_child [OF guard _ oj cn(1,2)])
          with cn(3,4) None show ?thesis by (simp del: rep.simps mpt_del.simps)
        next
          case False
          then have on: "only_child_loop cs 0 ?i None = None" using oc by (auto split: list.splits)
          have "mpt_del (Suc f) E k (Some (Full cs h)) d = Some (Deleted (Some (Full (cs[?i := None]) None)))"
            using guard c(1) r(1) rn on by (simp add: holds_def Let_def)
          moreover have "unbranch ts ?i = Branch (ts[?i := None])" using False by (auto simp: unbranch_def split: list.split)
          moreover have "rep X E D (take d k) (Full (cs[?i := None]) None) (Branch (ts[?i := None]))"
            using rep_update [OF rep ts(1) i, of None None] by simp
          ultimately show ?thesis using None by (simp del: rep.simps mpt_del.simps)
        qed
      qed
      moreover have "del (drop d k) (Branch ts) =
          Some (case del (drop (Suc d) k) t of Some t1 \<Rightarrow> Branch (ts[?i := Some t1]) | None \<Rightarrow> unbranch ts ?i)"
        unfolding k using bt by (simp split: option.split)
      ultimately show ?thesis using v look by (auto simp: deletes_def rep_fresh_def simp del: rep.simps mpt_del.simps del.simps)
    qed
  qed
qed

lemma deletes_from_all: "env_ok E \<Longrightarrow> length k = HexKeyLen \<Longrightarrow> deletes_from X E D k t"
proof (induction t rule: measure_induct_rule [of size])
  case (less t)
  have nonhash: "deletes X E D k t d n f"
    if ok: "tree_ok d t" "values_ok t" "key_at d (drop d k)" and rep: "rep X E D (take d k) n t" "\<not> is_hash n"
      and f: "2 * (HexKeyLen - d) \<le> f" for n d f
  proof -
    obtain f' where f': "f = Suc f'" using f tree_ok_depth [OF ok(1)] by (cases f) auto
    consider (leaf) kp v vn h where "t = Leaf kp v" "n = Short kp (Some (Value_Node vn)) h"
      | (ext) kp c m h where "t = Ext kp c" "n = Short kp (Some m) h" | (branch) ts cs h where "t = Branch ts" "n = Full cs h"
      using nonhash_cases [OF rep] by blast
    then show ?thesis
    proof cases
      case leaf
      then show ?thesis using delete_leaf [of d kp v k X E D _ h f'] ok(1,3) rep(1) less.prems(2) f' by blast
    next
      case ext
      have "deletes_from X E D k c" using less.IH [of c] less.prems ext by simp
      then show ?thesis using delete_ext [of d kp c k X E D m h f'] ok rep(1) less.prems(2) f f' ext by simp
    next
      case branch
      have "deletes_from X E D k s" if "Some s \<in> set ts" for s using less.IH [of s] less.prems size_member [OF that] branch by simp
      then show ?thesis using delete_branch [OF less.prems(1), of d ts k X D cs h f'] ok rep(1) less.prems(2) f f' branch by blast
    qed
  qed
  show ?case unfolding deletes_from_def
  proof (intro allI impI)
    fix n d f
    assume ok: "tree_ok d t" "values_ok t" "key_at d (drop d k)" "rep X E D (take d k) n t"
      and f: "2 * (HexKeyLen - d) + (if is_hash n then 1 else 0) \<le> f"
    show "deletes X E D k t d n f"
    proof (cases "is_hash n")
      case True
      then obtain h where h: "n = Node_Hash h" by (auto simp: is_hash_def)
      have lp: "tree_ok (length (take d k)) t" using ok(1) tree_ok_depth [OF ok(1)] less.prems(2) by simp
      obtain m where m: "resolve E h (take d k) = Some m" "rep X E D (take d k) m t" "\<not> is_hash m"
        using rep_resolve [OF less.prems(1) lp ok(2)] ok(4) h by metis
      obtain f' where f': "f = Suc f'" using f True by (cases f) auto
      have "deletes X E D k t d m f'" using nonhash [OF ok(1-3) m(2,3)] f f' True by simp
      then show ?thesis using m(1) h f' ok(4) by (auto simp: deletes_def simp del: rep.simps)
    qed (use nonhash [OF ok] f in simp)
  qed
qed

end
