(* ===== verification/Trie_Map.thy ===== *)
theory Trie_Map
  imports Trie_Deletes
begin

section \<open>The writer as a map\<close>

text \<open>
  A writer holds a map from keys of 32 bytes to values. Writes update the map; the map determines the tree, and with it
  the root hash, whatever the order of the writes was.
\<close>

subsection \<open>Keys and values of a tree\<close>

lemma lookup_key_at: "tree_ok d t \<Longrightarrow> lookup t k \<noteq> None \<Longrightarrow> key_at d k"
proof (induction t arbitrary: d k rule: measure_induct_rule [of size])
  case (less t)
  show ?case
  proof (cases t)
    case (Leaf kp v)
    then show ?thesis using less.prems by (auto split: if_splits)
  next
    case (Ext kp c)
    have "\<not> (\<nexists>r. k = kp @ r)" using lookup_Ext(2) [of k kp c] less.prems(2) unfolding Ext by blast
    then obtain r where r: "k = kp @ r" by blast
    then have "key_at (d + length kp) r" using less.IH [of c "d + length kp" r] less.prems Ext by simp
    then show ?thesis using r less.prems(1) Ext by (auto simp: key_at_def)
  next
    case (Branch ts)
    then obtain x r where k: "k = x # r" using less.prems(2) by (cases k) auto
    then obtain c where c: "branch_at ts x = Some c" "lookup c r \<noteq> None" using less.prems(2) Branch by (auto split: option.splits)
    have "unat x < 16" using c(1) less.prems(1) Branch by (simp add: branch_at_def split: if_splits)
    then have x: "nibble x" by (simp add: nibble_def word_less_nat_alt)
    have "tree_ok d (Branch ts)" using less.prems(1) Branch by simp
    then have "key_at (Suc d) r"
      using less.IH [of c "Suc d" r] c branch_at_ok [of d ts x c] size_branch_at [OF c(1)] Branch by simp
    then obtain ns where "r = ns @ [16]" "\<forall>y\<in>set ns. nibble y" "Suc d + length r = HexKeyLen" by (auto simp: key_at_def)
    then show ?thesis using k x unfolding key_at_def by (intro conjI exI [of _ "x # ns"]) auto
  qed
qed

lemma key_at_0_hex_key: "key_at 0 k \<longleftrightarrow> (\<exists>b. length b = HashLength \<and> k = hex_key b)"
proof
  assume "key_at 0 k"
  then obtain ns where ns: "k = ns @ [16]" "\<forall>x\<in>set ns. nibble x" "length ns = 64" by (auto simp: key_at_def key_lengths)
  then obtain b where "nibbles_of b = ns" using decodeNibbles_total [of ns] by auto
  with ns length_nibbles_of [of b] show "\<exists>b. length b = HashLength \<and> k = hex_key b" by (auto simp: hex_key_def HashLength_def)
next
  assume "\<exists>b. length b = HashLength \<and> k = hex_key b"
  then show "key_at 0 k" using nibbles_of_nibbles by (auto simp: key_at_def hex_key_def key_lengths)
qed

lemma member_branch_at: "tree_ok d (Branch ts) \<Longrightarrow> Some t \<in> set ts \<Longrightarrow> \<exists>x. branch_at ts x = Some t"
  by (auto simp: in_set_conv_nth branch_at_def) (metis unat_nibble)

lemma values_ok_lookup: "tree_ok d t \<Longrightarrow> values_ok t \<longleftrightarrow> (\<forall>k v. lookup t k = Some v \<longrightarrow> value_ok v)"
proof (induction t arbitrary: d rule: measure_induct_rule [of size])
  case (less t)
  show ?case
  proof (cases t)
    case (Leaf kp v)
    then show ?thesis by (cases v) auto
  next
    case (Ext kp c)
    have "(\<forall>k v. lookup (Ext kp c) k = Some v \<longrightarrow> value_ok v) \<longleftrightarrow> (\<forall>k v. lookup c k = Some v \<longrightarrow> value_ok v)"
      using lookup_Ext(1) [of kp c] lookup_Ext(2) [of _ kp c] by (metis option.distinct(1))
    then show ?thesis using less.IH [of c "d + length kp"] less.prems Ext by simp
  next
    case (Branch ts)
    have ok: "tree_ok d (Branch ts)" using less.prems Branch by simp
    have IH: "values_ok c \<longleftrightarrow> (\<forall>k v. lookup c k = Some v \<longrightarrow> value_ok v)" if "Some c \<in> set ts" for c
      using less.IH [of c "Suc d"] size_member [OF that] Branch ok that by simp
    show ?thesis
    proof
      assume v: "values_ok t"
      show "\<forall>k v. lookup t k = Some v \<longrightarrow> value_ok v"
      proof (intro allI impI)
        fix k v assume l: "lookup t k = Some v"
        then obtain x r c where "k = x # r" "branch_at ts x = Some c" "lookup c r = Some v"
          using Branch by (cases k) (auto split: option.splits)
        moreover from this have "Some c \<in> set ts" by (intro branch_at_member)
        ultimately show "value_ok v" using IH [of c] v Branch values_ok_simps(3) by metis
      qed
    next
      assume l: "\<forall>k v. lookup t k = Some v \<longrightarrow> value_ok v"
      have "values_ok c" if c: "Some c \<in> set ts" for c
      proof -
        obtain x where x: "branch_at ts x = Some c" using member_branch_at [OF ok c] by blast
        have "value_ok v" if "lookup c k = Some v" for k v
          using l [rule_format, of "x # k" v] that x Branch by simp
        then show ?thesis using IH [OF c] by blast
      qed
      then show "values_ok t" using Branch by simp
    qed
  qed
qed

subsection \<open>Another database\<close>

text \<open>A database that has the nodes of another one, and the values of the tree that are stored there.\<close>

definition world_le :: "trie_env \<Rightarrow> bytes set \<Rightarrow> trie_env \<Rightarrow> bytes set \<Rightarrow> bytes \<Rightarrow> trie_value mpt \<Rightarrow> bool" where
  "world_le E D E' D' p t \<longleftrightarrow> keccak E' = keccak E \<and> schema E' = schema E \<and>
     (\<forall>h b. GetNode (input E) h = Some b \<longrightarrow> GetNode (input E') h = Some b) \<and>
     (\<forall>r v. lookup t r = Some v \<longrightarrow> stored_value E D (p @ r) v \<longrightarrow> stored_value E' D' (p @ r) v)"

lemma world_leD:
  "world_le E D E' D' p t \<Longrightarrow> lookup t r = Some v \<Longrightarrow> stored_value E D (p @ r) v \<Longrightarrow> stored_value E' D' (p @ r) v"
  unfolding world_le_def by blast

lemma world_le_env: "world_le E D E' D' p t \<Longrightarrow> keccak E' = keccak E \<and> max_stored E' = max_stored E"
  by (simp add: world_le_def max_stored_def)

lemma world_le_ext: "world_le E D E' D' p (Ext kp c) \<Longrightarrow> world_le E D E' D' (p @ kp) c"
  unfolding world_le_def by (metis append_assoc lookup_Ext(1))

lemma world_le_branch:
  assumes "world_le E D E' D' p (Branch ts)" "branch_at ts x = Some c"
  shows "world_le E D E' D' (p @ [x]) c"
proof -
  have "lookup (Branch ts) (x # r) = lookup c r" for r using assms(2) by simp
  with assms(1) show ?thesis unfolding world_le_def by (metis append_Cons append_Nil append_assoc)
qed

lemma in_db_change: "in_db E D p t \<Longrightarrow> world_le E D E' D' p t \<Longrightarrow> in_db E' D' p t"
proof (induction t arbitrary: p rule: measure_induct_rule [of size])
  case (less t)
  show ?case
  proof (cases t)
    case (Leaf kp v)
    then show ?thesis using world_leD [OF less.prems(2), of kp v] less.prems(1) by simp
  next
    case (Ext kp c)
    then show ?thesis using less.IH [of c "p @ kp"] less.prems world_le_ext by auto
  next
    case (Branch ts)
    have "in_db E' D' (p @ [x]) c" if c: "branch_at ts x = Some c" for x c
    proof (rule less.IH)
      show "size c < size t" using size_branch_at [OF c] Branch by simp
      show "in_db E D (p @ [x]) c" using less.prems(1) Branch c by simp
      show "world_le E D E' D' (p @ [x]) c" using world_le_branch less.prems(2) Branch c by blast
    qed
    then show ?thesis using less.prems world_le_env [OF less.prems(2)] unfolding Branch by (simp add: world_le_def)
  qed
qed

lemma saved_change: "saved E D p t \<Longrightarrow> world_le E D E' D' p t \<Longrightarrow> saved E' D' p t"
  using in_db_change world_le_env [of E D E' D' p t] unfolding saved_def by (auto simp: world_le_def)

lemma hash_ok_change: "keccak E' = keccak E \<Longrightarrow> hash_ok E' p t h = hash_ok E p t h"
  by (simp add: hash_ok_def split: option.split)

lemma child_hashed_change: "keccak E' = keccak E \<Longrightarrow> child_hashed E' n t = child_hashed E n t"
  by (simp add: child_hashed_def split: node.split option.split)

lemma rep_change: "rep X E D p n t \<Longrightarrow> world_le E D E' D' p t \<Longrightarrow> rep X E' D' p n t"
proof (induction t arbitrary: p n rule: measure_induct_rule [of size])
  case (less t)
  note ke = world_le_env [OF less.prems(2), THEN conjunct1]
  show ?case
  proof (cases "is_hash n")
    case True
    then show ?thesis using less.prems(1) saved_change [OF _ less.prems(2)] ke by (simp add: rep_hash hash_node_def)
  next
    case False
    show ?thesis
    proof (cases t)
      case (Leaf kp v)
      then obtain vn h where "n = Short kp (Some (Value_Node vn)) h" "value_rep X E D (p @ kp) vn h v" "hash_ok E p (Leaf kp v) h"
        "top_saved E D p (Leaf kp v) h"
        using less.prems(1) False by (auto dest: hash_node_is_hash)
      moreover have "stored_value E D (p @ kp) v \<Longrightarrow> stored_value E' D' (p @ kp) v" using world_leD [OF less.prems(2)] Leaf by simp
      moreover have "top_saved E D p (Leaf kp v) h \<Longrightarrow> top_saved E' D' p (Leaf kp v) h"
        using saved_change less.prems(2) Leaf unfolding top_saved_def by blast
      ultimately show ?thesis using Leaf hash_ok_change [OF ke]
        by (auto simp: value_rep_def split: option.splits trie_val.splits)
    next
      case (Ext kp c)
      then obtain m h where m: "n = Short kp (Some m) h" "rep X E D (p @ kp) m c" "hash_ok E p (Ext kp c) h" "h \<noteq> None \<longrightarrow> child_hashed E m c"
        "top_saved E D p (Ext kp c) h" using less.prems(1) False by (auto dest: hash_node_is_hash)
      have "rep X E' D' (p @ kp) m c" using less.IH [of c "p @ kp" m] m(2) Ext less.prems(2) world_le_ext by auto
      moreover have "top_saved E' D' p (Ext kp c) h" using m(5) saved_change less.prems(2) Ext unfolding top_saved_def by blast
      ultimately show ?thesis using m Ext by (auto simp: hash_ok_change [OF ke] child_hashed_change [OF ke])
    next
      case (Branch ts)
      then obtain cs h where n: "n = Full cs h" and r: "rep X E D p (Full cs h) (Branch ts)"
        using less.prems(1) False by (auto dest: hash_node_is_hash)
      have "\<exists>m. branch_at cs x = Some m \<and> rep X E' D' (p @ [x]) m c" if c: "branch_at ts x = Some c" for x c
      proof -
        obtain m where m: "branch_at cs x = Some m" "rep X E D (p @ [x]) m c" using rep_child [OF r c] .
        have "rep X E' D' (p @ [x]) m c"
        proof (rule less.IH [OF _ m(2)])
          show "size c < size t" using size_branch_at [OF c] Branch by simp
          show "world_le E D E' D' (p @ [x]) c" using world_le_branch less.prems(2) Branch c by blast
        qed
        with m show ?thesis by blast
      qed
      moreover have "saved E D p (Branch ts) \<Longrightarrow> saved E' D' p (Branch ts)" using saved_change less.prems(2) Branch by blast
      ultimately show ?thesis using r unfolding n Branch rep_Branch_Full hash_ok_change [OF ke] by blast
    qed
  qed
qed

text \<open>A key that is not in the tree can be given up.\<close>

lemma rep_more:
  assumes "rep X E D p n t" "\<And>r. lookup t r \<noteq> None \<Longrightarrow> p @ r \<noteq> hex_key k"
  shows "rep X E (insert k D) p n t"
  using assms(1)
proof (rule rep_change)
  show "world_le E D E (insert k D) p t" using assms(2) by (fastforce simp: world_le_def stored_value_def)
qed

subsection \<open>The map\<close>

definition tree_map :: "trie_value mpt \<Rightarrow> bytes \<rightharpoonup> trie_value" where
  "tree_map t k = (if length k = HashLength then lookup t (hex_key k) else None)"

definition tree_holds ::
  "('v \<Rightarrow> trie_value) \<Rightarrow> trie_env \<Rightarrow> bytes set \<Rightarrow> 'v Writer \<Rightarrow> trie_value mpt option \<Rightarrow> bool" where
  "tree_holds X E D w t \<longleftrightarrow>
     (case (root w, t) of
        (None, None) \<Rightarrow> True
      | (Some n, Some u) \<Rightarrow> tree_ok 0 u \<and> values_ok u \<and> rep X E D [] n u
      | _ \<Rightarrow> False)"

definition writer_holds ::
  "('v \<Rightarrow> trie_value) \<Rightarrow> trie_env \<Rightarrow> bytes set \<Rightarrow> 'v Writer \<Rightarrow> (bytes \<rightharpoonup> trie_value) \<Rightarrow> bool" where
  "writer_holds X E D w m \<longleftrightarrow>
     (\<exists>t. tree_holds X E D w t \<and> m = (case t of None \<Rightarrow> Map.empty | Some u \<Rightarrow> tree_map u))"

lemma tree_map_canonical:
  assumes "tree_ok 0 t" "tree_ok 0 u" "tree_map t = tree_map u"
  shows "t = u"
proof (rule tree_canonical [OF assms(1,2)], rule ext)
  fix k
  show "lookup t k = lookup u k"
  proof (cases "key_at 0 k")
    case True
    then obtain b where "length b = HashLength" "k = hex_key b" using key_at_0_hex_key by blast
    then show ?thesis using fun_cong [OF assms(3), of b] by (simp add: tree_map_def)
  next
    case False
    then show ?thesis using lookup_key_at [OF assms(1)] lookup_key_at [OF assms(2)] by metis
  qed
qed

lemma tree_map_nonempty: "tree_ok 0 t \<Longrightarrow> tree_map t \<noteq> Map.empty"
proof
  assume ok: "tree_ok 0 t" and e: "tree_map t = Map.empty"
  obtain k where k: "lookup t k \<noteq> None" using has_key [OF ok] by blast
  then obtain b where "length b = HashLength" "k = hex_key b" using lookup_key_at [OF ok] key_at_0_hex_key by blast
  then show False using k fun_cong [OF e, of b] by (simp add: tree_map_def)
qed

lemma hex_key_at: "length k = HashLength \<Longrightarrow> key_at 0 (hex_key k)" "length k = HashLength \<Longrightarrow> length (hex_key k) = HexKeyLen"
  using key_at_0_hex_key [of "hex_key k"] by (auto simp: hex_key_def key_lengths)

lemma write_empty:
  "mpt_insert trie_fuel E k None d v = Some (Short (drop d k) (Some v) None)" "mpt_del trie_fuel E k None d = Some (Not_Found None)"
  by (simp_all add: trie_fuel_def)

lemma Put_holds:
  assumes E: "env_ok E" and w: "writer_holds X E D w m" and k: "length k = HashLength" and x: "value_ok (X x)"
  shows "\<exists>w'. trie_Put E k x w = Some (w', []) \<and> writer_holds X E D w' (m(k \<mapsto> X x)) \<and>
    FullNodeLevelsToCache w' = FullNodeLevelsToCache w"
proof -
  let ?k = "hex_key k" and ?v = "Value_Node (Some (Put_Value x)) :: 'a node"
  have kb: "keybytes_to_hex k (replicate HexKeyLen 0) = Some ?k" using k by (intro keybytes_to_hex_key) (simp add: key_lengths)
  note key = hex_key_at [OF k]
  have "\<exists>n u. mpt_insert trie_fuel E ?k (root w) 0 ?v = Some n \<and> tree_ok 0 u \<and> values_ok u \<and> rep X E D [] n u \<and>
      m(k \<mapsto> X x) = tree_map u"
  proof (cases "root w")
    case None
    then have "m = Map.empty" using w by (auto simp: writer_holds_def tree_holds_def split: option.splits)
    moreover have "tree_map (Leaf ?k (X x)) = [k \<mapsto> X x]" using k by (auto simp: tree_map_def hex_key_inj fun_eq_iff)
    ultimately show ?thesis using None key x rep_leaf_new [of X x "X x" E D "[]" ?k]
      by (intro exI [of _ "Short ?k (Some ?v) None"] exI [of _ "Leaf ?k (X x)"]) (simp add: write_empty del: rep.simps)
  next
    case (Some n0)
    then obtain t where t: "tree_ok 0 t" "values_ok t" "rep X E D [] n0 t" "m = tree_map t"
      using w by (auto simp: writer_holds_def tree_holds_def split: option.splits)
    obtain n where n: "mpt_insert trie_fuel E ?k (Some n0) 0 ?v = Some n" "rep X E D [] n (ins ?k (X x) t)"
      using insertsD [OF inserts_all [OF E key(2)] t(1,2), of X D n0 trie_fuel x] key(1) t(3) by (auto simp: trie_fuel_def)
    have ok: "tree_ok 0 (ins ?k (X x) t)" using ins_ok [OF t(1) key(1)] by blast
    have look: "lookup (ins ?k (X x) t) k' = (if k' = ?k then Some (X x) else lookup t k')" for k'
      using lookup_ins [OF t(1) key(1)] .
    have "values_ok (ins ?k (X x) t)"
      using values_ok_lookup [OF ok] values_ok_lookup [OF t(1)] t(2) x unfolding look by (auto split: if_splits)
    moreover have "m(k \<mapsto> X x) = tree_map (ins ?k (X x) t)"
      using t(4) k by (auto simp: tree_map_def look hex_key_inj fun_eq_iff)
    ultimately show ?thesis using n ok Some by auto
  qed
  then obtain n u where n: "mpt_insert trie_fuel E ?k (root w) 0 ?v = Some n" "tree_ok 0 u" "values_ok u" "rep X E D [] n u"
    "m(k \<mapsto> X x) = tree_map u" by blast
  have "writer_holds X E D (w\<lparr>root := Some n\<rparr>) (m(k \<mapsto> X x))"
    unfolding writer_holds_def using n(2-5) by (intro exI [of _ "Some u"]) (simp add: tree_holds_def)
  with n(1) kb show ?thesis by (simp add: trie_Put_def trie_write_def)
qed

lemma Delete_holds:
  assumes E: "env_ok E" and w: "writer_holds X E D w m" and k: "length k = HashLength"
  shows "\<exists>w'. trie_Delete E k w = Some (w', if m k = None then [] else [PutValue k []]) \<and>
    writer_holds X E (if m k = None then D else insert k D) w' (m(k := None)) \<and>
    FullNodeLevelsToCache w' = FullNodeLevelsToCache w"
proof -
  let ?k = "hex_key k"
  have kb: "keybytes_to_hex k (replicate HexKeyLen 0) = Some ?k" using k by (intro keybytes_to_hex_key) (simp add: key_lengths)
  note key = hex_key_at [OF k]
  show ?thesis
  proof (cases "root w")
    case None
    then have m: "m = Map.empty" using w by (auto simp: writer_holds_def tree_holds_def split: option.splits)
    have "writer_holds X E D (w\<lparr>root := None\<rparr>) m" using w None by (cases w) simp
    then show ?thesis using m None kb by (simp add: trie_Delete_def trie_write_def write_empty)
  next
    case (Some n0)
    then obtain t where t: "tree_ok 0 t" "values_ok t" "rep X E D [] n0 t" "m = tree_map t"
      using w by (auto simp: writer_holds_def tree_holds_def split: option.splits)
    have "deletes X E D ?k t 0 n0 trie_fuel"
      by (rule deletes_fromD [OF deletes_from_all [OF E key(2)] t(1,2)]) (use key(1) t(3) in \<open>simp_all add: trie_fuel_def\<close>)
    then have d: "lookup t ?k = None \<Longrightarrow> \<exists>n'. mpt_del trie_fuel E ?k (Some n0) 0 = Some (Not_Found (Some n')) \<and> rep X E D [] n' t"
      "lookup t ?k \<noteq> None \<Longrightarrow> \<exists>r. mpt_del trie_fuel E ?k (Some n0) 0 = Some (Deleted r) \<and> rep_fresh X E D [] r (del ?k t)"
      by (simp_all add: deletes_def)
    have mk: "m k = lookup t ?k" using t(4) k by (simp add: tree_map_def)
    show ?thesis
    proof (cases "m k = None")
      case True
      then obtain n' where n': "mpt_del trie_fuel E ?k (Some n0) 0 = Some (Not_Found (Some n'))" "rep X E D [] n' t" using d(1) mk by auto
      have "m(k := None) = m" using True by auto
      then have "writer_holds X E D (w\<lparr>root := Some n'\<rparr>) (m(k := None))"
        unfolding writer_holds_def using t(1,2,4) n'(2) by (intro exI [of _ "Some t"]) (simp add: tree_holds_def)
      with n'(1) True Some kb show ?thesis by (simp add: trie_Delete_def trie_write_def)
    next
      case False
      then obtain r where r: "mpt_del trie_fuel E ?k (Some n0) 0 = Some (Deleted r)" "rep_fresh X E D [] r (del ?k t)" using d(2) mk by auto
      have sp: "tree_opt_ok 0 (del ?k t)" "lookup_opt (del ?k t) k' = (if k' = ?k then None else lookup t k')" for k'
        using del_spec [OF t(1), of ?k k'] False mk by auto
      have "tree_holds X E (insert k D) (w\<lparr>root := r\<rparr>) (del ?k t)"
      proof (cases "del ?k t")
        case None
        then show ?thesis using r(2) by (simp add: tree_holds_def rep_fresh_def)
      next
        case (Some u)
        then obtain n where n: "r = Some n" "rep X E D [] n u" using r(2) by (auto simp: rep_fresh_def)
        have look: "lookup u k' = (if k' = ?k then None else lookup t k')" for k' using sp(2) Some by simp
        have ok: "tree_ok 0 u" using sp(1) Some by simp
        have "values_ok u" using values_ok_lookup [OF ok] values_ok_lookup [OF t(1)] t(2) unfolding look by (auto split: if_splits)
        moreover have "rep X E (insert k D) [] n u" using n(2) by (rule rep_more) (auto simp: look split: if_splits)
        ultimately show ?thesis using n(1) ok Some by (simp add: tree_holds_def)
      qed
      moreover have "m(k := None) = (case del ?k t of None \<Rightarrow> Map.empty | Some u \<Rightarrow> tree_map u)"
      proof (rule ext)
        fix b
        show "(m(k := None)) b = (case del ?k t of None \<Rightarrow> Map.empty | Some u \<Rightarrow> tree_map u) b"
          using sp(2) [of "hex_key b"] t(4) by (auto simp: tree_map_def hex_key_inj lookup_opt_def split: option.splits)
      qed
      ultimately have "writer_holds X E (insert k D) (w\<lparr>root := r\<rparr>) (m(k := None))" unfolding writer_holds_def by blast
      with r(1) False Some kb show ?thesis by (simp add: trie_Delete_def trie_write_def)
    qed
  qed
qed

end
