(* ===== verification/Trie_Encoders.thy ===== *)
theory Trie_Encoders
  imports Trie_Commit Trie_Map
begin

section \<open>The two encoders of a commit\<close>

text \<open>What a list that is started, filled and ended leaves in the encoder, and how it is taken back.\<close>

subsection \<open>Lists of the encoder\<close>

lemma AppendString_writes:
  "length (enc_str e) + length (ToRLPString b) < 2 ^ 32 - 1 \<Longrightarrow> \<exists>e'. AppendString b e = Some e' \<and> writes (ToRLPString b) e e'"
  using AppendRaw_total [of e "ToRLPString b"] writes_raw [of "ToRLPString b" e] by (auto simp: AppendString_raw)

lemma enc_ListStart_str: "enc_ListStart e = (pos, e1) \<Longrightarrow> enc_str e1 = enc_str e"
  by (auto simp: enc_ListStart_def)

lemma list_end:
  assumes s: "enc_ListStart e = (pos, e1)" and w: "writes out e1 e2"
    and l: "length (enc_str e) < 2 ^ 32" "length out + 9 < 2 ^ 32"
  obtains e3 where "enc_ListEnd pos e2 = Some e3" "writes (rlp_list out) e e3"
    "enc_ListSize pos e3 = Some (of_nat (length (rlp_list out)))" "enc_Flush (int pos) e3 = Some (rlp_list out)"
    "enc_RevertToListStart pos e3 = Some e"
proof -
  let ?h = "\<lparr>lh_strpos = of_nat (length (enc_str e)), base_lhsize = lhsize e, elems_size = 0, closed = False\<rparr> :: ListHead"
  have e1: "pos = length (lheads e)" "enc_str e1 = enc_str e" "lheads e1 = lheads e @ [?h]" "lhsize e1 = lhsize e"
    using s by (auto simp: enc_ListStart_def)
  obtain e3 where e3: "enc_ListEnd pos e2 = Some e3" "writes (rlp_list out) e e3"
    using writes_list [OF s w] l by (auto simp: rlp_list_def)
  obtain str hs n where w': "enc_str e2 = enc_str e1 @ str" "lheads e2 = lheads e1 @ hs" "lhsize e2 = lhsize e1 + of_nat n"
    "length str + n = length out" using w by (rule writesE)
  have sz: "enc_Size e2 - of_nat (length (enc_str e)) - lhsize e = of_nat (length out)"
    using w'(1,3,4) e1 by (simp add: enc_Size_def flip: w'(4))
  let ?h' = "?h\<lparr>elems_size := of_nat (length out), closed := True\<rparr>"
  have h3: "lheads e3 = lheads e @ ?h' # hs" "enc_str e3 = enc_str e @ str"
    using e3(1) e1 w'(1,2) sz by (auto simp: enc_ListEnd_def Let_def list_update_append)
  have p: "unat (of_nat (length (enc_str e)) :: u32) = length (enc_str e)" using l(1) by (intro unat_of_nat_small) simp
  have c: "(ucast (of_nat (length out) :: u32) :: u64) = of_nat (length out)"
    using l(2) by (intro ucast_of_nat_small) simp
  have "length (rlp_list out) = unat (headsize (of_nat (length out))) + length out"
    by (simp add: rlp_list_def length_puthead)
  moreover have "(ucast (headsize (of_nat (length out))) :: u32) = of_nat (unat (headsize (of_nat (length out))))" by simp
  ultimately have size: "enc_ListSize pos e3 = Some (of_nat (length (rlp_list out)))"
    using h3(1) e1(1) c by (simp add: enc_ListSize_def Let_def add.commute)
  obtain str' hs' n' where w3: "lheads e3 = lheads e @ hs'"
    "\<And>post hs2. \<forall>h\<in>set hs2. length (enc_str e3) \<le> unat (lh_strpos h) \<Longrightarrow>
       flush_heads (length (enc_str e)) (hs' @ hs2) (enc_str e3 @ post) =
       prepend (rlp_list out) (flush_heads (length (enc_str e3)) hs2 (enc_str e3 @ post))"
    using e3(2) by (rule writesE) blast
  have "hs' = ?h' # hs" using w3(1) h3(1) by simp
  with w3(2) [of "[]" "[]"] have fl: "enc_Flush (int pos) e3 = Some (rlp_list out)"
    using h3(1) e1(1) p by (simp add: enc_Flush_def)
  have "enc_RevertToListStart pos e3 = Some e"
    using h3 e1(1) p by (simp add: enc_RevertToListStart_def Let_def)
  with e3 size fl show thesis by (rule that)
qed

lemma list_small: "length (rlp_list out) < 2 ^ 32 \<Longrightarrow> (of_nat (length (rlp_list out)) :: u32) < of_nat HashLength \<longleftrightarrow> length (rlp_list out) < HashLength"
  by (simp add: word_less_nat_alt unat_of_nat_small HashLength_def)

subsection \<open>The encoder of hashes\<close>

text \<open>\<open>he_writes\<close>: the encoder took in \<open>out\<close>, unless it is disabled.\<close>

definition he_writes :: "bytes \<Rightarrow> hash_encoder \<Rightarrow> hash_encoder \<Rightarrow> bool" where
  "he_writes out he he' \<longleftrightarrow> disabled he' = disabled he \<and>
     (if disabled he then encoder he' = encoder he else writes out (encoder he) (encoder he'))"

definition he_len :: "hash_encoder \<Rightarrow> nat" where
  "he_len he = length (enc_str (encoder he))"

lemma he_writes_append: "he_writes a he he1 \<Longrightarrow> he_writes b he1 he2 \<Longrightarrow> he_writes (a @ b) he he2"
  by (auto simp: he_writes_def intro: writes_append split: if_splits)

lemma he_writes_nil: "he_writes [] he he"
  by (simp add: he_writes_def writes_nil)

lemma he_writes_len: "he_writes out he he' \<Longrightarrow> he_len he' \<le> he_len he + length out"
  using writes_length by (auto simp: he_writes_def he_len_def split: if_splits)

lemma he_AppendString_writes:
  assumes "he_len he + length (ToRLPString b) < 2 ^ 32 - 1"
  obtains he' where "he_AppendString b he = Some he'" "he_writes (ToRLPString b) he he'"
proof (cases "disabled he")
  case True
  then show thesis using that [of he] by (simp add: he_AppendString_def he_writes_def)
next
  case False
  obtain e' where "AppendString b (encoder he) = Some e'" "writes (ToRLPString b) (encoder he) e'"
    using AppendString_writes [of "encoder he" b] assms by (auto simp: he_len_def)
  then show thesis using that [of "he\<lparr>encoder := e'\<rparr>"] False by (simp add: he_AppendString_def he_writes_def)
qed

lemma he_ListStart_len: "he_ListStart he = (pos, he1) \<Longrightarrow> he_len he1 = he_len he \<and> disabled he1 = disabled he"
  by (auto simp: he_ListStart_def he_len_def enc_ListStart_def Let_def split: if_splits)

lemma he_ListEnd_disabled:
  assumes "he_ListStart he = (pos, he1)" "he_writes out he1 he2" "disabled he"
  shows "he_ListEnd K pos r h he2 = Some (h, he2) \<and> he2 = he"
  using assms by (cases he; cases he2) (auto simp: he_ListStart_def he_ListEnd_def he_writes_def)

lemma he_ListEnd_enabled:
  assumes s: "he_ListStart he = (pos, he1)" and w: "he_writes out he1 he2" and d: "\<not> disabled he" and K: "hash_like K"
    and l: "he_len he + 34 < 2 ^ 32 - 1" "length out + 9 < 2 ^ 32"
  obtains he3 where "he_ListEnd K pos r h he2 =
      Some (if length (rlp_list out) < HashLength \<and> \<not> r then h else Some (K (rlp_list out)), he3)"
    "\<not> r \<Longrightarrow> he_writes (node_ref K (rlp_list out)) he he3" "disabled he3 = disabled he"
proof -
  obtain ps e1 where e1: "enc_ListStart (encoder he) = (ps, e1)" by (cases "enc_ListStart (encoder he)")
  have he1: "pos = int ps" "he1 = he\<lparr>encoder := e1\<rparr>" using s d e1 by (auto simp: he_ListStart_def)
  have he2: "\<not> disabled he2" "writes out e1 (encoder he2)" using w d he1 by (auto simp: he_writes_def)
  have "length (enc_str (encoder he)) < 2 ^ 32" using l(1) by (simp add: he_len_def)
  then obtain e3 where e3: "enc_ListEnd ps (encoder he2) = Some e3" "writes (rlp_list out) (encoder he) e3"
    "enc_ListSize ps e3 = Some (of_nat (length (rlp_list out)))" "enc_Flush (int ps) e3 = Some (rlp_list out)"
    "enc_RevertToListStart ps e3 = Some (encoder he)"
    by (rule list_end [OF e1 he2(2) _ l(2)])
  have small: "(of_nat (length (rlp_list out)) :: u32) < of_nat HashLength \<longleftrightarrow> length (rlp_list out) < HashLength"
    using length_rlp_list(2) [of out] l(2) by (intro list_small) simp
  show thesis
  proof (cases "length (rlp_list out) < HashLength \<and> \<not> r")
    case True
    then show thesis using that [of "he2\<lparr>encoder := e3\<rparr>"] e3 he2(1) he1(1) small d
      by (simp add: he_ListEnd_def he_writes_def node_ref_def holds_def)
  next
    case False
    show thesis
    proof (cases r)
      case True
      then show thesis using that [of "he2\<lparr>encoder := e3\<rparr>"] e3 he2(1) he1(1) d
        by (simp add: he_ListEnd_def holds_def)
    next
      case nr: False
      obtain e4 where "AppendString (K (rlp_list out)) (encoder he) = Some e4" "writes (ToRLPString (K (rlp_list out))) (encoder he) e4"
        using AppendString_writes [of "encoder he" "K (rlp_list out)"] l(1) K by (auto simp: he_len_def)
      then show thesis using that [of "he2\<lparr>encoder := e4\<rparr>"] False nr e3 he2(1) he1(1) small d
        by (simp add: he_ListEnd_def he_writes_def node_ref_def holds_def)
    qed
  qed
qed

end
