(* ===== verification/Trie_Short.thy ===== *)
theory Trie_Short
  imports Trie_Encoders
begin

section \<open>Short nodes in a commit\<close>

text \<open>What \<open>commit\<close> writes around the value or the child of a short node, with the hash known before or not.\<close>

definition ctx_writes :: "bytes \<Rightarrow> bytes \<Rightarrow> commit_context \<Rightarrow> commit_context \<Rightarrow> bool" where
  "ctx_writes hout sout ctx ctx' \<longleftrightarrow>
     he_writes hout (enc_hash ctx) (enc_hash ctx') \<and> writes sout (enc_storage ctx) (enc_storage ctx')"

lemma ctx_writes_append: "ctx_writes a b c c1 \<Longrightarrow> ctx_writes a' b' c1 c2 \<Longrightarrow> ctx_writes (a @ a') (b @ b') c c2"
  by (auto simp: ctx_writes_def intro: he_writes_append writes_append)

lemma ctx_writes_nil: "ctx_writes [] [] c c"
  by (simp add: ctx_writes_def he_writes_nil writes_nil)

text \<open>\<open>ctx_room\<close>: the buffers have fewer than \<open>n\<close> bytes.\<close>

definition ctx_room :: "nat \<Rightarrow> commit_context \<Rightarrow> bool" where
  "ctx_room n ctx \<longleftrightarrow> he_len (enc_hash ctx) \<le> n \<and> length (enc_str (enc_storage ctx)) \<le> n"

lemma ctx_writes_room:
  "ctx_writes a b c c' \<Longrightarrow> ctx_room n c \<Longrightarrow> length a \<le> l \<Longrightarrow> length b \<le> l \<Longrightarrow> ctx_room (n + l) c'"
  using he_writes_len [of a "enc_hash c" "enc_hash c'"] writes_length [of b "enc_storage c" "enc_storage c'"]
  by (auto simp: ctx_writes_def ctx_room_def)

lemma both_AppendString_writes:
  assumes "ctx_room n ctx" "n + length (ToRLPString b) < 2 ^ 32 - 1"
  obtains ctx' where "both_AppendString b ctx = Some ctx'" "ctx_writes (ToRLPString b) (ToRLPString b) ctx ctx'"
proof -
  have l: "he_len (enc_hash ctx) + length (ToRLPString b) < 2 ^ 32 - 1" "length (enc_str (enc_storage ctx)) + length (ToRLPString b) < 2 ^ 32 - 1"
    using assms by (auto simp: ctx_room_def)
  obtain he where he: "he_AppendString b (enc_hash ctx) = Some he" "he_writes (ToRLPString b) (enc_hash ctx) he"
    by (rule he_AppendString_writes [OF l(1)])
  obtain es where "AppendString b (enc_storage ctx) = Some es" "writes (ToRLPString b) (enc_storage ctx) es"
    using AppendString_writes [OF l(2)] by blast
  with he show thesis by (intro that [of "ctx\<lparr>enc_hash := he, enc_storage := es\<rparr>"]) (simp_all add: both_AppendString_def ctx_writes_def)
qed

definition both_start :: "commit_context \<Rightarrow> nat \<Rightarrow> int \<Rightarrow> commit_context \<Rightarrow> bool" where
  "both_start ctx pos hpos ctx0 \<longleftrightarrow> enc_ListStart (enc_storage ctx) = (pos, enc_storage ctx0) \<and>
     he_ListStart (enc_hash ctx) = (hpos, enc_hash ctx0)"

lemma both_start_room: "both_start ctx pos hpos ctx0 \<Longrightarrow> ctx_room n ctx0 = ctx_room n ctx"
  using enc_ListStart_str he_ListStart_len by (fastforce simp: both_start_def ctx_room_def)

lemma both_start_ex: "\<exists>pos hpos ctx0. both_start ctx pos hpos ctx0"
proof -
  obtain pos es hpos he where "enc_ListStart (enc_storage ctx) = (pos, es)" "he_ListStart (enc_hash ctx) = (hpos, he)"
    by (metis surj_pair)
  then show ?thesis
    by (intro exI [of _ pos] exI [of _ hpos] exI [of _ "\<lparr>enc_hash = he, enc_storage = es\<rparr>"]) (simp add: both_start_def)
qed

subsection \<open>Opening\<close>

lemma short_open_plain:
  assumes "hex_to_compact kp = Some kc" "ctx_room n ctx" "n + length (ToRLPString kc) < 2 ^ 32 - 1"
  obtains pos hpos ctx0 ctx1 where "short_open kp None ctx = Some (pos, hpos, ctx1)" "both_start ctx pos hpos ctx0"
    "ctx_writes (ToRLPString kc) (ToRLPString kc) ctx0 ctx1"
proof -
  obtain pos es where es: "enc_ListStart (enc_storage ctx) = (pos, es)" by (cases "enc_ListStart (enc_storage ctx)")
  obtain hpos he where he: "he_ListStart (enc_hash ctx) = (hpos, he)" by (cases "he_ListStart (enc_hash ctx)")
  let ?ctx0 = "ctx\<lparr>enc_hash := he, enc_storage := es\<rparr>"
  have bs: "both_start ctx pos hpos ?ctx0" using es he by (simp add: both_start_def)
  then have "ctx_room n ?ctx0" using assms(2) both_start_room by blast
  then obtain ctx1 where "both_AppendString kc ?ctx0 = Some ctx1" "ctx_writes (ToRLPString kc) (ToRLPString kc) ?ctx0 ctx1"
    by (rule both_AppendString_writes [OF _ assms(3)])
  with bs es he assms(1) show thesis by (intro that) (simp_all add: short_open_def)
qed

text \<open>With a known hash the encoder of hashes takes it in and is switched off.\<close>

definition known :: "bytes option \<Rightarrow> commit_context \<Rightarrow> commit_context option" where
  "known h ctx = (case h of None \<Rightarrow> Some ctx
     | Some hash \<Rightarrow> map_option (\<lambda>he. ctx\<lparr>enc_hash := he_Toggle he\<rparr>) (he_AppendString hash (enc_hash ctx)))"

lemma short_open_known: "short_open kp h ctx = Option.bind (known h ctx) (short_open kp None)"
  by (cases h; cases "he_AppendString (the h) (enc_hash ctx)") (simp_all add: short_open_def known_def)

lemma known_Some:
  assumes "ctx_room n ctx" "n + 33 < 2 ^ 32 - 1" "length h = 32" "\<not> disabled (enc_hash ctx)"
  obtains he where "known (Some h) ctx = Some (ctx\<lparr>enc_hash := he_Toggle he\<rparr>)" "he_writes (ToRLPString h) (enc_hash ctx) he"
    "ctx_room (n + 33) (ctx\<lparr>enc_hash := he_Toggle he\<rparr>)" "disabled (he_Toggle he)"
proof -
  have l: "length (ToRLPString h) = 33" using length_ToRLPString(2) [of h] assms(3) by simp
  have "he_len (enc_hash ctx) + length (ToRLPString h) < 2 ^ 32 - 1" using assms(1,2) l by (simp add: ctx_room_def)
  then obtain he where he: "he_AppendString h (enc_hash ctx) = Some he" "he_writes (ToRLPString h) (enc_hash ctx) he"
    by (rule he_AppendString_writes)
  have "he_len (he_Toggle he) = he_len he" by (simp add: he_len_def he_Toggle_def)
  then have "ctx_room (n + 33) (ctx\<lparr>enc_hash := he_Toggle he\<rparr>)" using he_writes_len [OF he(2)] l assms(1) by (simp add: ctx_room_def)
  moreover have "disabled (he_Toggle he)" using he(2) assms(4) by (simp add: he_Toggle_def he_writes_def)
  ultimately show thesis using he by (intro that) (simp_all add: known_def)
qed

subsection \<open>Closing\<close>

definition short_tail :: "trie_env \<Rightarrow> bytes option \<Rightarrow> bytes option \<Rightarrow> bytes" where
  "short_tail E hash val =
     (case val of
        None \<Rightarrow> []
      | Some ves \<Rightarrow> (case hash of Some hh \<Rightarrow> ToRLPString hh | None \<Rightarrow> if length ves \<le> max_stored E then ToRLPString ves else []))"

lemma short_close_storage:
  assumes b: "both_start ctx pos hpos ctx0" and s: "writes sout (enc_storage ctx0) (enc_storage ctx2)"
    and hl: "he_ListEnd (keccak E) hpos r h (enc_hash ctx2) = Some (hash, he3)"
    and l: "length (enc_str (enc_storage ctx)) \<le> n" "length sout \<le> 2000" "n + 3000 < 2 ^ 32 - 1" "length (short_tail E hash val) \<le> 41"
    and root: "r \<Longrightarrow> hash \<noteq> None"
  obtains es3 where
    "short_close E kp v h r val pos hpos ctx2 puts =
       Some (Short kp v hash, ctx2\<lparr>enc_hash := (if h \<noteq> None then he_Toggle he3 else he3), enc_storage := es3\<rparr>,
         puts @ (if r then [PutNode (the hash) (rlp_list (sout @ short_tail E hash val))] else []))"
    "writes (rlp_list (sout @ short_tail E hash val)) (enc_storage ctx) es3"
proof -
  have es0: "enc_ListStart (enc_storage ctx) = (pos, enc_storage ctx0)" using b by (simp add: both_start_def)
  have l2: "length (enc_str (enc_storage ctx2)) \<le> n + 2000"
    using writes_length [OF s] l(1,2) enc_ListStart_str [OF es0] by simp
  have "\<exists>es. (case val of None \<Rightarrow> Some (enc_storage ctx2)
       | Some ves \<Rightarrow> (case hash of Some hh \<Rightarrow> AppendString hh (enc_storage ctx2)
            | None \<Rightarrow> if length ves \<le> MaxValueSizeToStoreInTrie (schema E) then AppendString ves (enc_storage ctx2)
                else Some (enc_storage ctx2))) = Some es \<and> writes (short_tail E hash val) (enc_storage ctx2) es"
    using l(3,4) l2 AppendString_writes [of "enc_storage ctx2"]
    by (auto simp: short_tail_def max_stored_def writes_nil split: option.split)
  then obtain es where es: "(case val of None \<Rightarrow> Some (enc_storage ctx2)
       | Some ves \<Rightarrow> (case hash of Some hh \<Rightarrow> AppendString hh (enc_storage ctx2)
            | None \<Rightarrow> if length ves \<le> MaxValueSizeToStoreInTrie (schema E) then AppendString ves (enc_storage ctx2)
                else Some (enc_storage ctx2))) = Some es" "writes (short_tail E hash val) (enc_storage ctx2) es" by blast
  have w: "writes (sout @ short_tail E hash val) (enc_storage ctx0) es" by (rule writes_append [OF s es(2)])
  have "length (enc_str (enc_storage ctx)) < 2 ^ 32" "length (sout @ short_tail E hash val) + 9 < 2 ^ 32" using l by auto
  then obtain es3 where es3: "enc_ListEnd pos es = Some es3" "writes (rlp_list (sout @ short_tail E hash val)) (enc_storage ctx) es3"
    "enc_Flush (int pos) es3 = Some (rlp_list (sout @ short_tail E hash val))"
    by (rule list_end [OF es0 w])
  then show thesis using es(1) hl root
    by (intro that [of es3]) (auto simp: short_close_def enc_ToBytes_def)
qed

subsection \<open>The whole node\<close>

definition short_hash_after :: "trie_env \<Rightarrow> bytes option \<Rightarrow> bool \<Rightarrow> bool \<Rightarrow> bytes \<Rightarrow> bytes option" where
  "short_hash_after E h off r hout =
     (if h \<noteq> None \<or> off then h
      else if length (rlp_list hout) < HashLength \<and> \<not> r then None else Some (keccak E (rlp_list hout)))"

definition short_frame ::
  "trie_env \<Rightarrow> bytes \<Rightarrow> bytes option \<Rightarrow> bool \<Rightarrow> commit_context \<Rightarrow> (commit_context \<Rightarrow> ('x \<times> commit_context \<times> trie_put list) option)
     \<Rightarrow> ('x \<Rightarrow> 'v node option) \<Rightarrow> ('x \<Rightarrow> bytes option) \<Rightarrow> 'v committed" where
  "short_frame E kp h r ctx mid v val = do {
     (pos, hpos, ctx1) \<leftarrow> short_open kp h ctx;
     (x, ctx2, puts) \<leftarrow> mid ctx1;
     short_close E kp (v x) h r (val x) pos hpos ctx2 puts }"

lemma he_Toggle_Toggle: "he_Toggle (he_Toggle he) = he"
  by (simp add: he_Toggle_def)

lemma short_frame_ok:
  assumes E: "env_ok E" and kc: "hex_to_compact kp = Some kc" "length (ToRLPString kc) \<le> 34"
    and rm: "ctx_room n ctx" "n \<le> 2 ^ 30"
    and h: "\<And>hh. h = Some hh \<Longrightarrow> length hh = 32 \<and> \<not> disabled (enc_hash ctx) \<and> \<not> r" and r: "r \<Longrightarrow> \<not> disabled (enc_hash ctx)"
    and mid: "\<And>ctx1. ctx_room (n + 67) ctx1 \<Longrightarrow> disabled (enc_hash ctx1) = (h \<noteq> None \<or> disabled (enc_hash ctx)) \<Longrightarrow>
      \<exists>x ctx2 puts. mid ctx1 = Some (x, ctx2, puts) \<and> ctx_writes hc sc ctx1 ctx2 \<and> Q x puts"
    and len: "length hc \<le> 2 ^ 31 + 9" "length sc \<le> 1283"
    and hash: "hash = short_hash_after E h (disabled (enc_hash ctx)) r (ToRLPString kc @ hc)"
    and tl: "\<And>x puts. Q x puts \<Longrightarrow> length (short_tail E hash (val x)) \<le> 41"
  shows "\<exists>x puts ctx3. short_frame E kp h r ctx mid v val =
      Some (Short kp (v x) hash, ctx3, puts @ (if r then [PutNode (the hash) (rlp_list ((ToRLPString kc @ sc) @ short_tail E hash (val x)))] else [])) \<and>
    Q x puts \<and> writes (rlp_list ((ToRLPString kc @ sc) @ short_tail E hash (val x))) (enc_storage ctx) (enc_storage ctx3) \<and>
    (\<not> r \<longrightarrow> he_writes (case h of None \<Rightarrow> node_ref (keccak E) (rlp_list (ToRLPString kc @ hc)) | Some hh \<Rightarrow> ToRLPString hh)
      (enc_hash ctx) (enc_hash ctx3))"
proof -
  have K: "hash_like (keccak E)" using E by (simp add: env_ok_def)
  obtain ctxk where ck: "known h ctx = Some ctxk" "ctx_room (n + 33) ctxk" "disabled (enc_hash ctxk) = (h \<noteq> None \<or> disabled (enc_hash ctx))"
    "enc_storage ctxk = enc_storage ctx" "h = None \<Longrightarrow> ctxk = ctx"
    "\<And>hh. h = Some hh \<Longrightarrow> he_writes (ToRLPString hh) (enc_hash ctx) (he_Toggle (enc_hash ctxk))"
  proof (cases h)
    case None
    then show thesis using that [of ctx] rm by (auto simp: known_def ctx_room_def)
  next
    case (Some hh)
    have hl: "length hh = 32" "\<not> disabled (enc_hash ctx)" using h [OF Some] by auto
    have n33: "n + 33 < 2 ^ 32 - 1" using rm(2) by simp
    obtain he where "known (Some hh) ctx = Some (ctx\<lparr>enc_hash := he_Toggle he\<rparr>)" "he_writes (ToRLPString hh) (enc_hash ctx) he"
      "ctx_room (n + 33) (ctx\<lparr>enc_hash := he_Toggle he\<rparr>)" "disabled (he_Toggle he)"
      by (rule known_Some [OF rm(1) n33 hl])
    then show thesis using that [of "ctx\<lparr>enc_hash := he_Toggle he\<rparr>"] Some by (simp add: he_Toggle_Toggle)
  qed
  have "n + 33 + length (ToRLPString kc) < 2 ^ 32 - 1" using rm(2) kc(2) by simp
  then obtain pos hpos ctx0 ctx1 where op: "short_open kp None ctxk = Some (pos, hpos, ctx1)" "both_start ctxk pos hpos ctx0"
    "ctx_writes (ToRLPString kc) (ToRLPString kc) ctx0 ctx1" by (rule short_open_plain [OF kc(1) ck(2)])
  have dis0: "disabled (enc_hash ctx0) = disabled (enc_hash ctxk)" using op(2) he_ListStart_len by (auto simp: both_start_def)
  have "ctx_room (n + 33) ctx0" using both_start_room [OF op(2)] ck(2) by simp
  from ctx_writes_room [OF op(3) this kc(2) kc(2)] have "ctx_room (n + 67) ctx1" by (simp add: add.commute)
  moreover have "disabled (enc_hash ctx1) = (h \<noteq> None \<or> disabled (enc_hash ctx))"
    using op(3) dis0 ck(3) by (simp add: ctx_writes_def he_writes_def)
  ultimately obtain x ctx2 puts where m: "mid ctx1 = Some (x, ctx2, puts)" "ctx_writes hc sc ctx1 ctx2" "Q x puts" using mid by blast
  have w: "he_writes (ToRLPString kc @ hc) (enc_hash ctx0) (enc_hash ctx2)" "writes (ToRLPString kc @ sc) (enc_storage ctx0) (enc_storage ctx2)"
    using ctx_writes_append [OF op(3) m(2)] by (simp_all add: ctx_writes_def)
  have hs: "he_ListStart (enc_hash ctxk) = (hpos, enc_hash ctx0)" using op(2) by (simp add: both_start_def)
  obtain he3 where he3: "he_ListEnd (keccak E) hpos r h (enc_hash ctx2) = Some (hash, he3)"
    "\<not> r \<Longrightarrow> he_writes (node_ref (keccak E) (rlp_list (ToRLPString kc @ hc))) (enc_hash ctxk) he3"
    "disabled (enc_hash ctxk) \<Longrightarrow> he3 = enc_hash ctxk"
  proof (cases "disabled (enc_hash ctxk)")
    case True
    then have "he_ListEnd (keccak E) hpos r h (enc_hash ctx2) = Some (h, enc_hash ctx2)" "enc_hash ctx2 = enc_hash ctxk"
      using he_ListEnd_disabled [OF hs w(1) True] by blast+
    moreover have "hash = h" using True ck(3) hash by (simp add: short_hash_after_def)
    ultimately show thesis using that [of "enc_hash ctxk"] True by (simp add: he_writes_def)
  next
    case False
    then have hn: "h = None" "\<not> disabled (enc_hash ctx)" using ck(3) by auto
    have l: "he_len (enc_hash ctxk) + 34 < 2 ^ 32 - 1" "length (ToRLPString kc @ hc) + 9 < 2 ^ 32"
      using ck(2) rm(2) kc(2) len(1) by (auto simp: ctx_room_def)
    obtain he3 where "he_ListEnd (keccak E) hpos r h (enc_hash ctx2) =
        Some (if length (rlp_list (ToRLPString kc @ hc)) < HashLength \<and> \<not> r then h else Some (keccak E (rlp_list (ToRLPString kc @ hc))), he3)"
      "\<not> r \<Longrightarrow> he_writes (node_ref (keccak E) (rlp_list (ToRLPString kc @ hc))) (enc_hash ctxk) he3"
      using he_ListEnd_enabled [OF hs w(1) False K l, of r h] by blast
    then show thesis using that [of he3] False hash hn by (simp add: short_hash_after_def)
  qed
  have root: "r \<Longrightarrow> hash \<noteq> None" using h r hash by (cases h) (auto simp: short_hash_after_def)
  have sl: "length (enc_str (enc_storage ctxk)) \<le> n + 33" "length (ToRLPString kc @ sc) \<le> 2000" "n + 33 + 3000 < 2 ^ 32 - 1"
    using ck(2) rm(2) kc(2) len(2) by (auto simp: ctx_room_def)
  obtain es3 where cl: "short_close E kp (v x) h r (val x) pos hpos ctx2 puts =
       Some (Short kp (v x) hash, ctx2\<lparr>enc_hash := (if h \<noteq> None then he_Toggle he3 else he3), enc_storage := es3\<rparr>,
         puts @ (if r then [PutNode (the hash) (rlp_list ((ToRLPString kc @ sc) @ short_tail E hash (val x)))] else []))"
    "writes (rlp_list ((ToRLPString kc @ sc) @ short_tail E hash (val x))) (enc_storage ctxk) es3"
    by (rule short_close_storage [OF op(2) w(2) he3(1) sl tl [OF m(3)] root])
  have fr: "short_frame E kp h r ctx mid v val = short_close E kp (v x) h r (val x) pos hpos ctx2 puts"
    using ck(1) op(1) m(1) by (simp add: short_frame_def short_open_known)
  have "\<not> r \<longrightarrow> he_writes (case h of None \<Rightarrow> node_ref (keccak E) (rlp_list (ToRLPString kc @ hc)) | Some hh \<Rightarrow> ToRLPString hh)
      (enc_hash ctx) (if h \<noteq> None then he_Toggle he3 else he3)"
    using he3(2,3) ck(3,5,6) by (cases h) auto
  with fr cl m(3) ck(4) show ?thesis
    by (intro exI [of _ x] exI [of _ puts] exI [of _ "ctx2\<lparr>enc_hash := (if h \<noteq> None then he_Toggle he3 else he3), enc_storage := es3\<rparr>"]) simp
qed

end
