(* ===== verification/Trie_Committed.thy ===== *)
theory Trie_Committed
  imports Trie_Short
begin

section \<open>The commit writes the reference encodings\<close>

text \<open>
  The walk of \<open>commit\<close> writes for every node the encodings that \<open>ref_enc\<close> and \<open>stor_enc\<close> define, whether the hash of a
  node is known from before or computed, and puts to the database what is needed to read the nodes back.
\<close>

subsection \<open>The database after the commit\<close>

text \<open>\<open>after\<close>: a database that has the old nodes, the nodes that are put, and all the values of the tree.\<close>

definition after :: "trie_env \<Rightarrow> trie_put list \<Rightarrow> trie_env \<Rightarrow> bytes set \<Rightarrow> bytes \<Rightarrow> trie_value mpt \<Rightarrow> bool" where
  "after E puts E' D' p t \<longleftrightarrow> keccak E' = keccak E \<and> schema E' = schema E \<and>
     (\<forall>h b. GetNode (input E) h = Some b \<longrightarrow> GetNode (input E') h = Some b) \<and>
     (\<forall>h b. PutNode h b \<in> set puts \<longrightarrow> GetNode (input E') h = Some b) \<and>
     (\<forall>r v. lookup t r = Some v \<longrightarrow> stored_value E' D' (p @ r) v)"

lemma after_world_le: "after E puts E' D' p t \<Longrightarrow> world_le E D E' D' p t"
  by (simp add: after_def world_le_def)

lemma after_env: "after E puts E' D' p t \<Longrightarrow> keccak E' = keccak E \<and> max_stored E' = max_stored E"
  by (simp add: after_def max_stored_def)

lemma after_less: "after E puts E' D' p t \<Longrightarrow> set puts' \<subseteq> set puts \<Longrightarrow> after E puts' E' D' p t"
  by (auto simp: after_def)

lemma after_ext: "after E puts E' D' p (Ext kp c) \<Longrightarrow> after E puts E' D' (p @ kp) c"
  unfolding after_def by (metis append_assoc lookup_Ext(1))

lemma after_branch:
  assumes "after E puts E' D' p (Branch ts)" "branch_at ts x = Some c"
  shows "after E puts E' D' (p @ [x]) c"
proof -
  have "lookup (Branch ts) (x # r) = lookup c r" for r using assms(2) by simp
  with assms(1) show ?thesis unfolding after_def by (metis append_Cons append_Nil append_assoc)
qed

text \<open>What the puts of a commit are good for: they are values of the tree, they have all that was not stored, and the nodes can be read.\<close>

definition puts_values :: "bytes \<Rightarrow> trie_value mpt \<Rightarrow> trie_put list \<Rightarrow> bool" where
  "puts_values p t puts \<longleftrightarrow>
     (\<forall>k b. PutValue k b \<in> set puts \<longrightarrow> (\<exists>r v. lookup t r = Some v \<and> hex_key k = p @ r \<and> b = fst v))"

definition has_values :: "trie_env \<Rightarrow> bytes set \<Rightarrow> bytes \<Rightarrow> trie_value mpt \<Rightarrow> trie_put list \<Rightarrow> bool" where
  "has_values E D p t puts \<longleftrightarrow>
     (\<forall>r v. lookup t r = Some v \<longrightarrow> (\<exists>k. hex_key k = p @ r \<and> PutValue k (fst v) \<in> set puts) \<or> stored_value E D (p @ r) v)"

definition nodes_full :: "trie_put list \<Rightarrow> bool" where
  "nodes_full puts \<longleftrightarrow> (\<forall>h b. PutNode h b \<in> set puts \<longrightarrow> b \<noteq> [])"

lemma nodes_full_simps [simp]:
  "nodes_full []" "nodes_full (ps @ qs) \<longleftrightarrow> nodes_full ps \<and> nodes_full qs" "nodes_full [PutNode h b] \<longleftrightarrow> b \<noteq> []"
  by (auto simp: nodes_full_def)

lemma rlp_list_full: "rlp_list c \<noteq> []"
  using length_rlp_list(1) [of c] by auto

lemma stor_enc_full [simp]: "stor_enc K mx atop t \<noteq> []"
  by (cases t) (simp_all add: stor_enc_Ext stor_enc_Branch rlp_list_full)

definition db_after ::
  "('v \<Rightarrow> trie_value) \<Rightarrow> trie_env \<Rightarrow> bytes set \<Rightarrow> bytes \<Rightarrow> 'v node \<Rightarrow> trie_value mpt \<Rightarrow> trie_put list \<Rightarrow> bool" where
  "db_after X E D p n t puts \<longleftrightarrow> puts_values p t puts \<and> has_values E D p t puts \<and> nodes_full puts \<and>
     (\<forall>E' D'. after E puts E' D' p t \<longrightarrow> rep X E' D' p n t \<and> in_db E' D' p t)"

text \<open>The root is put.\<close>

lemma root_put:
  assumes "after E puts E' D' p t" "in_db E' D' p t"
    "p = [] \<Longrightarrow> PutNode (root_hash (keccak E) t) (stor_enc (keccak E) (max_stored E) True t) \<in> set puts"
  shows "top_saved E' D' p t h"
  using assms after_env [OF assms(1)] unfolding top_saved_def saved_def after_def by auto

lemma in_db_lookup: "in_db E D p t \<Longrightarrow> lookup t r = Some v \<Longrightarrow> stored_value E D (p @ r) v"
proof (induction t arbitrary: p r rule: measure_induct_rule [of size])
  case (less t)
  show ?case
  proof (cases t)
    case (Leaf kp u)
    then show ?thesis using less.prems by (auto split: if_splits)
  next
    case (Ext kp c)
    have "\<not> (\<nexists>s. r = kp @ s)" using lookup_Ext(2) [of r kp c] less.prems(2) unfolding Ext by auto
    then obtain s where "r = kp @ s" by blast
    then show ?thesis using less.IH [of c "p @ kp" s] less.prems Ext by simp
  next
    case (Branch ts)
    then obtain x s c where r: "r = x # s" "branch_at ts x = Some c" "lookup c s = Some v"
      using less.prems(2) by (cases r) (auto split: option.splits)
    then show ?thesis using less.IH [of c "p @ [x]" s] size_branch_at [OF r(2)] less.prems(1) Branch by simp
  qed
qed

lemma db_after_unchanged:
  assumes "rep X E D p n t" "in_db E D p t"
  shows "db_after X E D p n t []"
  using rep_change [OF assms(1)] in_db_change [OF assms(2)] in_db_lookup [OF assms(2)] after_world_le
  unfolding db_after_def puts_values_def has_values_def by (metis empty_iff empty_set nodes_full_simps(1))

subsection \<open>What a commit of a node has to do\<close>

definition node_settled :: "trie_env \<Rightarrow> 'v node \<Rightarrow> trie_value mpt \<Rightarrow> bool" where
  "node_settled E n t \<longleftrightarrow> is_hash n \<or> (\<exists>cs h. n = Full cs (Some h)) \<or> \<not> is_big (keccak E) t"

definition level_room :: "bytes \<Rightarrow> nat" where
  "level_room p = length p * 21000"

definition commits ::
  "('v \<Rightarrow> trie_value) \<Rightarrow> trie_env \<Rightarrow> bytes set \<Rightarrow> byte \<Rightarrow> trie_value mpt \<Rightarrow> bool" where
  "commits X E D lv t \<longleftrightarrow>
     (\<forall>p n ctx fna. list_all nibble p \<longrightarrow> tree_ok (length p) t \<longrightarrow> values_ok t \<longrightarrow> rep X E D p n t \<longrightarrow> p \<noteq> [] \<longrightarrow> ctx_room (level_room p) ctx \<longrightarrow>
        (disabled (enc_hash ctx) \<longrightarrow> node_settled E n t) \<longrightarrow>
        (\<exists>n' ctx' puts. commit X E lv ctx fna p n = Some (n', ctx', puts) \<and>
           ctx_writes (node_ref (keccak E) (ref_enc (keccak E) t)) (stor_item (keccak E) (max_stored E) t) ctx ctx' \<and>
           db_after X E D p n' t puts \<and> (is_branch t \<longrightarrow> node_settled E n' t)))"

lemma commitsD:
  assumes "commits X E D lv t" "list_all nibble p" "tree_ok (length p) t" "values_ok t" "rep X E D p n t" "p \<noteq> []" "ctx_room (level_room p) ctx"
    "disabled (enc_hash ctx) \<Longrightarrow> node_settled E n t"
  shows "\<exists>n' ctx' puts. commit X E lv ctx fna p n = Some (n', ctx', puts) \<and>
    ctx_writes (node_ref (keccak E) (ref_enc (keccak E) t)) (stor_item (keccak E) (max_stored E) t) ctx ctx' \<and>
    db_after X E D p n' t puts \<and> (is_branch t \<longrightarrow> node_settled E n' t)"
  using assms unfolding commits_def by blast

lemma level_room_le: "length p \<le> HexKeyLen \<Longrightarrow> level_room p \<le> 2 ^ 30"
  by (simp add: level_room_def key_lengths)

lemma depth_room: "tree_ok (length p) t \<Longrightarrow> level_room p \<le> 2 ^ 30"
  using tree_ok_depth [of "length p" t] by (intro level_room_le) simp

lemma hash_item:
  assumes "is_branch t" "is_big (keccak E) t"
  shows "node_ref (keccak E) (ref_enc (keccak E) t) = ToRLPString (root_hash (keccak E) t)"
    "stor_item (keccak E) (max_stored E) t = ToRLPString (root_hash (keccak E) t)"
  using assms by (simp_all add: node_ref_def is_big_def stor_item_def root_hash_def)

lemma commit_hash_string:
  assumes E: "env_ok E" and ok: "tree_ok (length p) t" "ctx_room (level_room p) ctx" "is_branch t" "is_big (keccak E) t"
  obtains ctx' where "both_AppendString (root_hash (keccak E) t) ctx = Some ctx'"
    "ctx_writes (node_ref (keccak E) (ref_enc (keccak E) t)) (stor_item (keccak E) (max_stored E) t) ctx ctx'"
proof -
  have "level_room p + length (ToRLPString (root_hash (keccak E) t)) < 2 ^ 32 - 1"
    using depth_room [OF ok(1)] E by (simp add: env_ok_def)
  then obtain ctx' where "both_AppendString (root_hash (keccak E) t) ctx = Some ctx'"
    "ctx_writes (ToRLPString (root_hash (keccak E) t)) (ToRLPString (root_hash (keccak E) t)) ctx ctx'"
    by (rule both_AppendString_writes [OF ok(2)])
  then show thesis using hash_item [OF ok(3,4)] by (intro that) simp_all
qed

lemma commits_known:
  assumes E: "env_ok E" and ok: "tree_ok (length p) t" "ctx_room (level_room p) ctx" "rep X E D p n t" "p \<noteq> []"
    and n: "n = Node_Hash h \<or> n = Full cs (Some h)"
  shows "\<exists>n' ctx' puts. commit X E lv ctx fna p n = Some (n', ctx', puts) \<and>
    ctx_writes (node_ref (keccak E) (ref_enc (keccak E) t)) (stor_item (keccak E) (max_stored E) t) ctx ctx' \<and>
    db_after X E D p n' t puts \<and> (is_branch t \<longrightarrow> node_settled E n' t)"
proof -
  have t: "h = root_hash (keccak E) t" "saved E D p t"
    using n ok(3) rep_hash [of n X E D p t] by (auto simp: hash_node_def hash_ok_def) (cases t; auto simp: hash_ok_def)+
  then have b: "is_branch t" "is_big (keccak E) t" "in_db E D p t" using ok(4) by (auto simp: saved_def)
  obtain ctx' where ctx': "both_AppendString h ctx = Some ctx'"
    "ctx_writes (node_ref (keccak E) (ref_enc (keccak E) t)) (stor_item (keccak E) (max_stored E) t) ctx ctx'"
    using commit_hash_string [OF E ok(1,2) b(1,2)] t(1) by blast
  have hn: "rep X E D p (Node_Hash h) t" using t by (simp add: rep_hash hash_node_def)
  let ?n' = "if \<exists>cs. n = Full cs (Some h) \<and> \<not> lv \<le> fna then n else Node_Hash h"
  have "commit X E lv ctx fna p n = Some (?n', ctx', [])" using n ctx'(1) by auto
  moreover have "db_after X E D p ?n' t []" using db_after_unchanged [OF hn b(3)] db_after_unchanged [OF ok(3) b(3)] by simp
  moreover have "node_settled E ?n' t" using n by (auto simp: node_settled_def)
  ultimately show ?thesis using ctx'(2) by blast
qed

subsection \<open>Leaves\<close>

text \<open>\<open>done_node\<close>: the result of a commit, at the root or below it.\<close>

definition done_node ::
  "('v \<Rightarrow> trie_value) \<Rightarrow> trie_env \<Rightarrow> bytes set \<Rightarrow> bytes \<Rightarrow> trie_value mpt \<Rightarrow> commit_context \<Rightarrow> 'v committed \<Rightarrow> bool" where
  "done_node X E D p t ctx res \<longleftrightarrow>
     (\<exists>n' ctx' puts. res = Some (n', ctx', puts) \<and> db_after X E D p n' t puts \<and> (is_branch t \<and> p \<noteq> [] \<longrightarrow> node_settled E n' t) \<and>
        (p \<noteq> [] \<longrightarrow> ctx_writes (node_ref (keccak E) (ref_enc (keccak E) t)) (stor_item (keccak E) (max_stored E) t) ctx ctx') \<and>
        (p = [] \<longrightarrow> get_hash n' = Some (Some (root_hash (keccak E) t)) \<and>
           PutNode (root_hash (keccak E) t) (stor_enc (keccak E) (max_stored E) True t) \<in> set puts))"

text \<open>A node that can be committed: at the root nothing is hashed yet; where hashing is off, nothing has to be hashed.\<close>

definition node_ready :: "trie_env \<Rightarrow> bytes \<Rightarrow> 'v node \<Rightarrow> trie_value mpt \<Rightarrow> commit_context \<Rightarrow> bool" where
  "node_ready E p n t ctx \<longleftrightarrow> ctx_room (level_room p) ctx \<and>
     (if p = [] then fresh n \<and> \<not> disabled (enc_hash ctx) else disabled (enc_hash ctx) \<longrightarrow> node_settled E n t)"

definition hash_after :: "trie_env \<Rightarrow> bytes \<Rightarrow> trie_value mpt \<Rightarrow> bytes option" where
  "hash_after E p t = (if p = [] \<or> is_big (keccak E) t then Some (root_hash (keccak E) t) else None)"

lemma short_hash:
  assumes "node_ready E p (Short kp v h) t ctx" "hash_ok E p t h" "rlp_list hout = ref_enc (keccak E) t"
  shows "short_hash_after E h (disabled (enc_hash ctx)) (p = []) hout = hash_after E p t"
  using assms by (auto simp: node_ready_def hash_ok_def short_hash_after_def hash_after_def node_settled_def is_big_def root_hash_def not_less
      split: if_splits option.splits)

lemma short_known:
  assumes "env_ok E" "node_ready E p (Short kp v h) t ctx" "hash_ok E p t h" "h = Some hh"
  shows "length hh = 32 \<and> \<not> disabled (enc_hash ctx) \<and> p \<noteq> []" "ToRLPString hh = node_ref (keccak E) (ref_enc (keccak E) t)"
  using assms by (auto simp: node_ready_def hash_ok_def env_ok_def node_settled_def node_ref_def is_big_def root_hash_def hash_like_def HashLength_def
      split: if_splits)

definition value_mid ::
  "('v \<Rightarrow> trie_value) \<Rightarrow> bytes \<Rightarrow> 'v trie_val option \<Rightarrow> bytes option \<Rightarrow> commit_context \<Rightarrow> (bytes \<times> commit_context \<times> trie_put list) option" where
  "value_mid X hk vn h ctx1 = (case vn of
     None \<Rightarrow> do { _ \<leftarrow> holds (h \<noteq> None); Some ([], ctx1, []) }
   | Some x \<Rightarrow> do {
       (val_enc_storage, val_enc_hash, puts) \<leftarrow> commit_value X hk x;
       he \<leftarrow> he_AppendString val_enc_hash (enc_hash ctx1);
       Some (val_enc_storage, ctx1\<lparr>enc_hash := he\<rparr>, puts) })"

lemma commit_leaf_frame:
  "commit X E lv ctx fna p (Short kp (Some (Value_Node vn)) h) =
     short_frame E kp h (p = []) ctx (value_mid X (p @ kp) vn h) (\<lambda>x. Some (Value_Node vn)) Some"
  by (simp add: short_frame_def value_mid_def)

lemma value_mid_ok:
  assumes "value_rep X E D (p @ kp) vn h v" "key_at (length p) kp" "\<exists>k. hex_key k = p @ kp" "value_ok v"
    "ctx_room n ctx1" "n \<le> 2 ^ 30 + 1000" "h \<noteq> None \<longrightarrow> disabled (enc_hash ctx1)"
  shows "\<exists>x ctx2 puts. value_mid X (p @ kp) vn h ctx1 = Some (x, ctx2, puts) \<and> ctx_writes (ToRLPString (snd v)) [] ctx1 ctx2 \<and>
    (vn \<noteq> None \<longrightarrow> x = fst v) \<and> puts_values p (Leaf kp v) puts \<and> has_values E D p (Leaf kp v) puts \<and>
    (\<forall>hh b. PutNode hh b \<notin> set puts)"
proof (cases vn)
  case None
  then have "h \<noteq> None" "stored_value E D (p @ kp) v" using assms(1) by (simp_all add: value_rep_def)
  then show ?thesis using None assms(7)
    by (auto simp: value_mid_def holds_def ctx_writes_def he_writes_def writes_nil puts_values_def has_values_def)
next
  case (Some x)
  have "length (ToRLPString (snd v)) \<le> 2 ^ 31 + 8" using length_ToRLPString_le [of "snd v"] assms(4) by (simp add: value_ok_def)
  then have "he_len (enc_hash ctx1) + length (ToRLPString (snd v)) < 2 ^ 32 - 1" using assms(5,6) by (simp add: ctx_room_def)
  then obtain he where he: "he_AppendString (snd v) (enc_hash ctx1) = Some he" "he_writes (ToRLPString (snd v)) (enc_hash ctx1) he"
    by (rule he_AppendString_writes)
  have w: "ctx_writes (ToRLPString (snd v)) [] ctx1 (ctx1\<lparr>enc_hash := he\<rparr>)" using he(2) by (simp add: ctx_writes_def writes_nil)
  obtain k where k: "hex_key k = p @ kp" using assms(3) by blast
  show ?thesis
  proof (cases x)
    case (Internal_Value es eh)
    then have "v = (es, eh)" "stored_value E D (p @ kp) v" using assms(1) Some by (auto simp: value_rep_def)
    then show ?thesis using Some Internal_Value he(1) w
      by (auto simp: value_mid_def commit_value_def puts_values_def has_values_def)
  next
    case (Put_Value y)
    then have "X y = v" using assms(1) Some by (simp add: value_rep_def)
    moreover have "hex_to_keybytes (p @ kp) zero_hash = Some k" using hex_key_key [OF k] assms(2) by (simp add: key_at_def)
    ultimately show ?thesis using Some Put_Value he(1) w k
      by (cases v) (auto simp: value_mid_def commit_value_def puts_values_def has_values_def hex_key_inj)
  qed
qed

lemma leaf_done:
  assumes E: "env_ok E" and ok: "tree_ok (length p) (Leaf kp v)" "value_ok v" "\<exists>k. hex_key k = p @ kp"
    and rep: "rep X E D p (Short kp (Some (Value_Node vn)) h) (Leaf kp v)"
    and node_ready: "node_ready E p (Short kp (Some (Value_Node vn)) h) (Leaf kp v) ctx"
  shows "done_node X E D p (Leaf kp v) ctx (commit X E lv ctx fna p (Short kp (Some (Value_Node vn)) h))"
proof -
  let ?t = "Leaf kp v" and ?K = "keccak E"
  have K: "hash_like ?K" "max_stored E < 32" using E by (simp_all add: env_ok_def HashLength_def)
  have r: "value_rep X E D (p @ kp) vn h v" "hash_ok E p ?t h" using rep by auto
  note key = compact_ok [OF _ ok(1), of kp, simplified]
  have kl: "length (ToRLPString (compact kp)) \<le> 34" using compact_string_le [OF _ ok(1), of kp] by simp
  let ?hc = "ToRLPString (snd v)" and ?n = "level_room p" and ?hash = "hash_after E p ?t"
  have enc: "rlp_list (ToRLPString (compact kp) @ ?hc) = ref_enc ?K ?t" by simp
  let ?Q = "\<lambda>x puts. (vn \<noteq> None \<longrightarrow> x = fst v) \<and> puts_values p ?t puts \<and> has_values E D p ?t puts \<and> (\<forall>hh b. PutNode hh b \<notin> set puts)"
  have tail: "rlp_list ((ToRLPString (compact kp) @ []) @ short_tail E ?hash (Some x)) = stor_enc ?K (max_stored E) (p = []) ?t"
    "length (short_tail E ?hash (Some x)) \<le> 41" if q: "?Q x puts" for x puts
  proof -
    have "vn \<noteq> None" if "?hash = None" using that r node_ready
      by (auto simp: hash_after_def value_rep_def hash_ok_def node_ready_def split: if_splits option.splits)
    then have "?hash = None \<Longrightarrow> x = fst v" using q by blast
    then show "rlp_list ((ToRLPString (compact kp) @ []) @ short_tail E ?hash (Some x)) = stor_enc ?K (max_stored E) (p = []) ?t"
      "length (short_tail E ?hash (Some x)) \<le> 41"
      using K length_ToRLPString(1) [of "fst v"] by (auto simp: short_tail_def hash_after_def split: if_splits)
  qed
  have fr: "\<exists>x puts ctx3. commit X E lv ctx fna p (Short kp (Some (Value_Node vn)) h) =
      Some (Short kp (Some (Value_Node vn)) ?hash, ctx3,
        puts @ (if p = [] then [PutNode (the ?hash) (rlp_list ((ToRLPString (compact kp) @ []) @ short_tail E ?hash (Some x)))] else [])) \<and>
    ?Q x puts \<and> writes (rlp_list ((ToRLPString (compact kp) @ []) @ short_tail E ?hash (Some x))) (enc_storage ctx) (enc_storage ctx3) \<and>
    (p \<noteq> [] \<longrightarrow> he_writes (case h of None \<Rightarrow> node_ref ?K (rlp_list (ToRLPString (compact kp) @ ?hc)) | Some hh \<Rightarrow> ToRLPString hh)
      (enc_hash ctx) (enc_hash ctx3))"
    unfolding commit_leaf_frame
  proof (rule short_frame_ok [OF E key(1) kl])
    show "ctx_room ?n ctx" "?n \<le> 2 ^ 30" using node_ready depth_room [OF ok(1)] by (simp_all add: node_ready_def)
    show "length hh = 32 \<and> \<not> disabled (enc_hash ctx) \<and> p \<noteq> []" if "h = Some hh" for hh
      using short_known(1) [OF E node_ready r(2) that] .
    show "\<not> disabled (enc_hash ctx)" if "p = []" using node_ready that by (simp add: node_ready_def)
    show "\<exists>x ctx2 puts. value_mid X (p @ kp) vn h ctx1 = Some (x, ctx2, puts) \<and> ctx_writes ?hc [] ctx1 ctx2 \<and> ?Q x puts"
      if "ctx_room (?n + 67) ctx1" "disabled (enc_hash ctx1) = (h \<noteq> None \<or> disabled (enc_hash ctx))" for ctx1
      using value_mid_ok [OF r(1) _ ok(3,2) that(1)] ok(1) depth_room [OF ok(1)] that(2) by simp
    show "length ?hc \<le> 2 ^ 31 + 9" using length_ToRLPString_le [of "snd v"] ok(2) by (simp add: value_ok_def)
    show "?hash = short_hash_after E h (disabled (enc_hash ctx)) (p = []) (ToRLPString (compact kp) @ ?hc)"
      using short_hash [OF node_ready r(2) enc] by simp
    show "length (short_tail E ?hash (Some x)) \<le> 41" if "?Q x puts" for x puts using tail(2) that by blast
  qed simp
  then obtain x puts ctx3 where c: "commit X E lv ctx fna p (Short kp (Some (Value_Node vn)) h) =
      Some (Short kp (Some (Value_Node vn)) ?hash, ctx3, puts @ (if p = [] then [PutNode (the ?hash) (stor_enc ?K (max_stored E) (p = []) ?t)] else []))"
    "?Q x puts" "writes (stor_enc ?K (max_stored E) (p = []) ?t) (enc_storage ctx) (enc_storage ctx3)"
    "p \<noteq> [] \<longrightarrow> he_writes (case h of None \<Rightarrow> node_ref ?K (ref_enc ?K ?t) | Some hh \<Rightarrow> ToRLPString hh) (enc_hash ctx) (enc_hash ctx3)"
    using tail(1) unfolding enc by metis
  let ?n' = "Short kp (Some (Value_Node vn)) ?hash"
  let ?puts = "puts @ (if p = [] then [PutNode (the ?hash) (stor_enc ?K (max_stored E) (p = []) ?t)] else [])"
  have hs: "p \<noteq> [] \<longrightarrow> he_writes (node_ref ?K (ref_enc ?K ?t)) (enc_hash ctx) (enc_hash ctx3)"
    using c(4) short_known(2) [OF E node_ready r(2)] by (cases h) simp_all
  have h': "hash_ok E p ?t ?hash" by (simp add: hash_ok_def hash_after_def)
  have hn: "h \<noteq> None \<Longrightarrow> ?hash \<noteq> None" using r(2) by (auto simp: hash_ok_def hash_after_def)
  have put: "PutNode (root_hash ?K ?t) (stor_enc ?K (max_stored E) True ?t) \<in> set ?puts" if "p = []"
    using that by (simp add: hash_after_def)
  have "rep X E' D' p ?n' ?t \<and> in_db E' D' p ?t" if a: "after E ?puts E' D' p ?t" for E' D'
  proof -
    have st: "stored_value E' D' (p @ kp) v" using a by (cases v) (auto simp: after_def)
    have "value_rep X E' D' (p @ kp) vn ?hash v" using r(1) st hn by (auto simp: value_rep_def split: option.splits trie_val.splits)
    moreover have "hash_ok E' p ?t ?hash" using h' hash_ok_change after_env [OF a] by blast
    moreover have "top_saved E' D' p ?t ?hash" using root_put [OF a _ put] st by simp
    ultimately show ?thesis using st by simp
  qed
  moreover have "puts_values p ?t ?puts" "has_values E D p ?t ?puts" using c(2) by (auto simp: puts_values_def has_values_def)
  moreover have "nodes_full ?puts" using c(2) by (auto simp: nodes_full_def simp del: stor_enc.simps)
  ultimately have "db_after X E D p ?n' ?t ?puts" by (simp add: db_after_def del: rep.simps in_db.simps)
  with c hs show ?thesis unfolding done_node_def
    by (auto simp: hash_after_def ctx_writes_def stor_item_def simp del: stor_enc.simps ref_enc.simps)
qed

subsection \<open>Extensions\<close>

lemma commit_ext_frame:
  assumes "\<And>v. c \<noteq> Value_Node v"
  shows "commit X E lv ctx fna p (Short kp (Some c) h) =
     short_frame E kp h (p = []) ctx (\<lambda>ctx1. commit X E lv ctx1 fna (p @ kp) c) Some (\<lambda>_. None)"
proof (cases c)
  case (Value_Node v)
  with assms show ?thesis by blast
qed (simp_all add: short_frame_def)

lemma settled_child: "node_settled E c t \<Longrightarrow> child_hashed E c t"
  by (auto simp: node_settled_def child_hashed_def split: node.split option.split)

lemma db_after_ext:
  assumes "db_after X E D (p @ kp) c t puts" "node_settled E c t" "hash_ok E p (Ext kp t) h" "set puts \<subseteq> set puts'" "nodes_full puts'"
    "\<And>k b. PutValue k b \<in> set puts' \<Longrightarrow> PutValue k b \<in> set puts"
    "p = [] \<Longrightarrow> PutNode (root_hash (keccak E) (Ext kp t)) (stor_enc (keccak E) (max_stored E) True (Ext kp t)) \<in> set puts'"
  shows "db_after X E D p (Short kp (Some c) h) (Ext kp t) puts'"
proof -
  have pv: "puts_values p (Ext kp t) puts'"
    unfolding puts_values_def
  proof (intro allI impI)
    fix k b assume "PutValue k b \<in> set puts'"
    then obtain r v where "lookup t r = Some v" "hex_key k = (p @ kp) @ r" "b = fst v"
      using assms(1,6) unfolding db_after_def puts_values_def by blast
    then show "\<exists>r v. lookup (Ext kp t) r = Some v \<and> hex_key k = p @ r \<and> b = fst v"
      by (intro exI [of _ "kp @ r"] exI [of _ v]) simp
  qed
  have hv: "has_values E D p (Ext kp t) puts'"
    unfolding has_values_def
  proof (intro allI impI)
    fix r v assume l: "lookup (Ext kp t) r = Some v"
    then have "\<not> (\<nexists>s. r = kp @ s)" using lookup_Ext(2) [of r kp t] by auto
    then obtain s where "r = kp @ s" by blast
    then show "(\<exists>k. hex_key k = p @ r \<and> PutValue k (fst v) \<in> set puts') \<or> stored_value E D (p @ r) v"
      using l assms(1,4) unfolding db_after_def has_values_def by (metis append_assoc lookup_Ext(1) subsetD)
  qed
  have "rep X E' D' p (Short kp (Some c) h) (Ext kp t) \<and> in_db E' D' p (Ext kp t)" if a: "after E puts' E' D' p (Ext kp t)" for E' D'
  proof -
    have "after E puts E' D' (p @ kp) t" using after_ext [OF after_less [OF a assms(4)]] .
    then have "rep X E' D' (p @ kp) c t" "in_db E' D' (p @ kp) t" using assms(1) unfolding db_after_def by blast+
    moreover from this have "top_saved E' D' p (Ext kp t) h" using root_put [OF a _ assms(7)] by simp
    ultimately show ?thesis using assms(3) hash_ok_change [of E' E] child_hashed_change [of E' E c t] after_env [OF a] settled_child [OF assms(2)]
      by auto
  qed
  with pv hv assms(5) show ?thesis unfolding db_after_def by blast
qed

lemma ext_done:
  assumes E: "env_ok E" and ok: "tree_ok (length p) (Ext kp t)" "values_ok t" and IH: "commits X E D lv t" and nib: "list_all nibble p"
    and rep: "rep X E D p (Short kp (Some c) h) (Ext kp t)" and node_ready: "node_ready E p (Short kp (Some c) h) (Ext kp t) ctx"
  shows "done_node X E D p (Ext kp t) ctx (commit X E lv ctx fna p (Short kp (Some c) h))"
proof -
  let ?t = "Ext kp t" and ?K = "keccak E"
  have K: "hash_like ?K" "max_stored E < 32" using E by (simp_all add: env_ok_def HashLength_def)
  have r: "rep X E D (p @ kp) c t" "hash_ok E p ?t h" "h \<noteq> None \<longrightarrow> child_hashed E c t" using rep by auto
  have okc: "tree_ok (length (p @ kp)) t" "is_branch t" "kp \<noteq> []" "list_all nibble (p @ kp)" using ok(1) nib by (auto simp: list_all_iff)
  note key = compact_ok [OF _ ok(1), of kp, simplified]
  have kl: "length (ToRLPString (compact kp)) \<le> 34" using compact_string_le [OF _ ok(1), of kp] by simp
  let ?hc = "node_ref ?K (ref_enc ?K t)" and ?sc = "stor_item ?K (max_stored E) t" and ?n = "level_room p" and ?hash = "hash_after E p ?t"
  have enc: "rlp_list (ToRLPString (compact kp) @ ?hc) = ref_enc ?K ?t" by simp
  have stor: "rlp_list ((ToRLPString (compact kp) @ ?sc) @ short_tail E ?hash None) = stor_enc ?K (max_stored E) atop ?t" for atop
    by (simp add: short_tail_def stor_enc_Ext)
  let ?Q = "\<lambda>c1 puts. db_after X E D (p @ kp) c1 t puts \<and> node_settled E c1 t"
  have ctx_room': "ctx_room (level_room (p @ kp)) ctx1" if "ctx_room (?n + 67) ctx1" for ctx1
    using that okc(3) by (cases kp) (auto simp: ctx_room_def level_room_def)
  have "\<exists>x puts ctx3. commit X E lv ctx fna p (Short kp (Some c) h) =
      Some (Short kp (Some x) ?hash, ctx3,
        puts @ (if p = [] then [PutNode (the ?hash) (rlp_list ((ToRLPString (compact kp) @ ?sc) @ short_tail E ?hash None))] else [])) \<and>
    ?Q x puts \<and> writes (rlp_list ((ToRLPString (compact kp) @ ?sc) @ short_tail E ?hash None)) (enc_storage ctx) (enc_storage ctx3) \<and>
    (p \<noteq> [] \<longrightarrow> he_writes (case h of None \<Rightarrow> node_ref ?K (rlp_list (ToRLPString (compact kp) @ ?hc)) | Some hh \<Rightarrow> ToRLPString hh)
      (enc_hash ctx) (enc_hash ctx3))"
    unfolding commit_ext_frame [OF rep_not_value [OF r(1)]]
  proof (rule short_frame_ok [OF E key(1) kl])
    show "ctx_room ?n ctx" "?n \<le> 2 ^ 30" using node_ready depth_room [OF ok(1)] by (simp_all add: node_ready_def)
    show "length hh = 32 \<and> \<not> disabled (enc_hash ctx) \<and> p \<noteq> []" if "h = Some hh" for hh
      using short_known(1) [OF E node_ready r(2) that] .
    show "\<not> disabled (enc_hash ctx)" if "p = []" using node_ready that by (simp add: node_ready_def)
    show "\<exists>x ctx2 puts. commit X E lv ctx1 fna (p @ kp) c = Some (x, ctx2, puts) \<and> ctx_writes ?hc ?sc ctx1 ctx2 \<and> ?Q x puts"
      if a: "ctx_room (?n + 67) ctx1" "disabled (enc_hash ctx1) = (h \<noteq> None \<or> disabled (enc_hash ctx))" for ctx1
    proof -
      have "node_settled E c t" if "disabled (enc_hash ctx1)"
      proof (cases "h = None")
        case True
        then have "\<not> is_big ?K ?t" using that a(2) node_ready by (auto simp: node_ready_def node_settled_def split: if_splits)
        then show ?thesis using small_ext [OF K(1)] by (simp add: node_settled_def)
      next
        case False
        then show ?thesis using r(1,3) okc(2)
          by (cases t) (auto simp: node_settled_def child_hashed_def hash_node_def split: option.splits)
      qed
      then show ?thesis using commitsD [OF IH okc(4,1) ok(2) r(1) _ ctx_room' [OF a(1)]] okc(2,3) by simp
    qed
    show "length ?hc \<le> 2 ^ 31 + 9" using node_ref_le [OF K(1), of "ref_enc ?K t"] by simp
    show "length ?sc \<le> 1283" using stor_item_le [OF K okc(1)] .
    show "?hash = short_hash_after E h (disabled (enc_hash ctx)) (p = []) (ToRLPString (compact kp) @ ?hc)"
      using short_hash [OF node_ready r(2) enc] by simp
  qed (simp add: short_tail_def)
  then obtain c1 puts ctx3 where c: "commit X E lv ctx fna p (Short kp (Some c) h) =
      Some (Short kp (Some c1) ?hash, ctx3, puts @ (if p = [] then [PutNode (the ?hash) (stor_enc ?K (max_stored E) True ?t)] else []))"
    "?Q c1 puts" "writes (stor_enc ?K (max_stored E) False ?t) (enc_storage ctx) (enc_storage ctx3)"
    "p \<noteq> [] \<longrightarrow> he_writes (case h of None \<Rightarrow> node_ref ?K (ref_enc ?K ?t) | Some hh \<Rightarrow> ToRLPString hh) (enc_hash ctx) (enc_hash ctx3)"
    using stor [of True] stor [of False] unfolding enc by metis
  have hs: "p \<noteq> [] \<longrightarrow> he_writes (node_ref ?K (ref_enc ?K ?t)) (enc_hash ctx) (enc_hash ctx3)"
    using c(4) short_known(2) [OF E node_ready r(2)] by (cases h) simp_all
  let ?puts = "puts @ (if p = [] then [PutNode (the ?hash) (stor_enc ?K (max_stored E) True ?t)] else [])"
  have "hash_ok E p ?t ?hash" by (simp add: hash_ok_def hash_after_def)
  then have "db_after X E D p (Short kp (Some c1) ?hash) ?t ?puts"
    using c(2) by (intro db_after_ext [of X E D p kp c1 t puts]) (auto simp: hash_after_def db_after_def)
  with c(1,3) hs show ?thesis unfolding done_node_def
    by (auto simp: hash_after_def ctx_writes_def stor_item_def simp del: ref_enc.simps)
qed

subsection \<open>Branches\<close>

definition child_ready ::
  "('v \<Rightarrow> trie_value) \<Rightarrow> trie_env \<Rightarrow> bytes set \<Rightarrow> byte \<Rightarrow> bytes \<Rightarrow> bool \<Rightarrow> 'v node option \<Rightarrow> trie_value mpt option \<Rightarrow> bool" where
  "child_ready X E D lv q off c t \<longleftrightarrow>
     (case t of
        None \<Rightarrow> c = None
      | Some u \<Rightarrow> (\<exists>n. c = Some n \<and> commits X E D lv u \<and> tree_ok (length q) u \<and> values_ok u \<and> rep X E D q n u \<and> (off \<longrightarrow> node_settled E n u)))"

definition child_done ::
  "('v \<Rightarrow> trie_value) \<Rightarrow> trie_env \<Rightarrow> bytes set \<Rightarrow> bytes \<Rightarrow> trie_put list \<Rightarrow> 'v node option \<Rightarrow> trie_value mpt option \<Rightarrow> bool" where
  "child_done X E D q puts c t \<longleftrightarrow>
     (case t of
        None \<Rightarrow> c = None
      | Some u \<Rightarrow> (\<exists>n ps. c = Some n \<and> set ps \<subseteq> set puts \<and> db_after X E D q n u ps))"

lemma child_done_more: "child_done X E D q puts c t \<Longrightarrow> set puts \<subseteq> set puts' \<Longrightarrow> child_done X E D q puts' c t"
  by (auto simp: child_done_def split: option.splits)

definition child_puts :: "bytes \<Rightarrow> nat \<Rightarrow> trie_value mpt option list \<Rightarrow> trie_put list \<Rightarrow> bool" where
  "child_puts p i ts puts \<longleftrightarrow> nodes_full puts \<and>
     (\<forall>k b. PutValue k b \<in> set puts \<longrightarrow>
        (\<exists>j u r v. j < length ts \<and> ts ! j = Some u \<and> lookup u r = Some v \<and> hex_key k = p @ of_nat (i + j) # r \<and> b = fst v))"

lemma child_puts_later: "child_puts p (Suc i) ts puts \<Longrightarrow> child_puts p i (t # ts) puts"
  unfolding child_puts_def by (metis add_Suc_shift length_Cons not_less_eq nth_Cons_Suc)

lemma child_puts_append: "child_puts p i ts a \<Longrightarrow> child_puts p i ts b \<Longrightarrow> child_puts p i ts (a @ b)"
  unfolding child_puts_def by auto

lemma children_ok:
  assumes E: "env_ok E" and n: "n \<le> 2 ^ 30" "n \<le> level_room p" and nib: "list_all nibble p"
  shows "length cs = length ts \<Longrightarrow> i + length ts \<le> 16 \<Longrightarrow> ctx_room (n + i * 1283) ctx \<Longrightarrow>
    (\<And>j. j < length ts \<Longrightarrow> child_ready X E D lv (p @ [of_nat (i + j)]) (disabled (enc_hash ctx)) (cs ! j) (ts ! j)) \<Longrightarrow>
    \<exists>cs' ctx' puts. commit_children X E lv ctx fna p i cs = Some (cs', ctx', puts) \<and> length cs' = length ts \<and>
      ctx_writes (concat (map (ref_child (keccak E)) ts)) (concat (map (stor_child (keccak E) (max_stored E)) ts)) ctx ctx' \<and>
      (\<forall>j<length ts. child_done X E D (p @ [of_nat (i + j)]) puts (cs' ! j) (ts ! j)) \<and> child_puts p i ts puts"
proof (induction ts arbitrary: cs i ctx)
  case Nil
  then show ?case by (simp add: ctx_writes_nil child_puts_def)
next
  case (Cons t ts)
  have K: "hash_like (keccak E)" "max_stored E < 32" using E by (simp_all add: env_ok_def HashLength_def)
  let ?q = "p @ [of_nat i]"
  obtain c cs0 where cs: "cs = c # cs0" "length cs0 = length ts" using Cons.prems(1) by (cases cs) auto
  have cr: "child_ready X E D lv ?q (disabled (enc_hash ctx)) c t" using Cons.prems(4) [of 0] cs by simp
  have i: "i < 16" using Cons.prems(2) by simp
  have first: "\<exists>c1 ctx1 ps. (case c of
        None \<Rightarrow> map_option (\<lambda>ctx1. (None, ctx1, [])) (both_AppendString [] ctx)
      | Some m \<Rightarrow> map_option (\<lambda>(c1, ctx1, ps). (Some c1, ctx1, ps)) (commit X E lv ctx (fna + 1) ?q m)) = Some (c1, ctx1, ps) \<and>
      ctx_writes (ref_child (keccak E) t) (stor_child (keccak E) (max_stored E) t) ctx ctx1 \<and>
      child_done X E D ?q ps c1 t \<and> child_puts p i (t # ts) ps"
  proof (cases t)
    case None
    then have "c = None" using cr by (simp add: child_ready_def)
    moreover have "n + i * 1283 + length (ToRLPString []) < 2 ^ 32 - 1" using n(1) i by (simp add: ToRLPString_def)
    then obtain ctx1 where "both_AppendString [] ctx = Some ctx1" "ctx_writes (ToRLPString []) (ToRLPString []) ctx ctx1"
      by (rule both_AppendString_writes [OF Cons.prems(3)])
    ultimately show ?thesis using None by (simp add: ref_child_def stor_child_def child_done_def child_puts_def)
  next
    case (Some u)
    then obtain m where m: "c = Some m" "commits X E D lv u" "tree_ok (length ?q) u" "values_ok u" "rep X E D ?q m u"
      "disabled (enc_hash ctx) \<longrightarrow> node_settled E m u" using cr by (auto simp: child_ready_def)
    have rm: "ctx_room (level_room ?q) ctx" using Cons.prems(3) n(2) i by (auto simp: ctx_room_def level_room_def)
    have qn: "?q \<noteq> []" by simp
    have qnib: "list_all nibble ?q" using nib nibble_of_nat [OF i] by simp
    have dis: "disabled (enc_hash ctx) \<Longrightarrow> node_settled E m u" using m(6) by blast
    obtain c1 ctx1 ps where c1: "commit X E lv ctx (fna + 1) ?q m = Some (c1, ctx1, ps)"
      "ctx_writes (node_ref (keccak E) (ref_enc (keccak E) u)) (stor_item (keccak E) (max_stored E) u) ctx ctx1" "db_after X E D ?q c1 u ps"
      using commitsD [OF m(2) qnib m(3-5) qn rm dis] by blast
    have "child_puts p i (t # ts) ps"
      unfolding child_puts_def
    proof (intro conjI allI impI)
      show "nodes_full ps" using c1(3) by (simp add: db_after_def)
    next
      fix k b assume "PutValue k b \<in> set ps"
      then obtain r v where "lookup u r = Some v" "hex_key k = ?q @ r" "b = fst v"
        using c1(3) unfolding db_after_def puts_values_def by blast
      then show "\<exists>j w r v. j < length (t # ts) \<and> (t # ts) ! j = Some w \<and> lookup w r = Some v \<and> hex_key k = p @ of_nat (i + j) # r \<and> b = fst v"
        using Some by (intro exI [of _ 0] exI [of _ u] exI [of _ r] exI [of _ v]) simp
    qed
    then show ?thesis using Some m(1) c1 by (auto simp: ref_child_def stor_child_def child_done_def)
  qed
  then obtain c1 ctx1 ps where f: "(case c of
        None \<Rightarrow> map_option (\<lambda>ctx1. (None, ctx1, [])) (both_AppendString [] ctx)
      | Some m \<Rightarrow> map_option (\<lambda>(c1, ctx1, ps). (Some c1, ctx1, ps)) (commit X E lv ctx (fna + 1) ?q m)) = Some (c1, ctx1, ps)"
    "ctx_writes (ref_child (keccak E) t) (stor_child (keccak E) (max_stored E) t) ctx ctx1" "child_done X E D ?q ps c1 t"
    "child_puts p i (t # ts) ps" by blast
  have sl: "length (stor_child (keccak E) (max_stored E) t) \<le> 1283"
    using cr stor_item_le [OF K] by (cases t) (auto simp: stor_child_def ToRLPString_def child_ready_def)
  have "length (ref_child (keccak E) t) \<le> 1283" using ref_child_le [OF K(1), of t] by simp
  from ctx_writes_room [OF f(2) Cons.prems(3) this sl] have rm: "ctx_room (n + Suc i * 1283) ctx1" by (simp add: algebra_simps)
  have dis: "disabled (enc_hash ctx1) = disabled (enc_hash ctx)" using f(2) by (simp add: ctx_writes_def he_writes_def)
  have "child_ready X E D lv (p @ [of_nat (Suc i + j)]) (disabled (enc_hash ctx1)) (cs0 ! j) (ts ! j)" if "j < length ts" for j
    using Cons.prems(4) [of "Suc j"] that cs(1) dis by simp
  then obtain cs' ctx' puts where g: "commit_children X E lv ctx1 fna p (Suc i) cs0 = Some (cs', ctx', puts)" "length cs' = length ts"
    "ctx_writes (concat (map (ref_child (keccak E)) ts)) (concat (map (stor_child (keccak E) (max_stored E)) ts)) ctx1 ctx'"
    "\<forall>j<length ts. child_done X E D (p @ [of_nat (Suc i + j)]) puts (cs' ! j) (ts ! j)" "child_puts p (Suc i) ts puts"
    using Cons.IH [OF cs(2) _ rm] Cons.prems(2) by auto
  have eq: "commit_children X E lv ctx fna p i cs = Some (c1 # cs', ctx', ps @ puts)"
    using f(1) g(1) cs(1) by (cases c) auto
  have "child_done X E D (p @ [of_nat (i + j)]) (ps @ puts) ((c1 # cs') ! j) ((t # ts) ! j)" if "j < length (t # ts)" for j
  proof (cases j)
    case 0
    then show ?thesis using child_done_more [OF f(3)] by simp
  next
    case (Suc l)
    then show ?thesis using child_done_more [of X E D _ puts "cs' ! l" "ts ! l" "ps @ puts"] g(4) that by simp
  qed
  moreover have "child_puts p i (t # ts) (ps @ puts)" using child_puts_append [OF f(4) child_puts_later [OF g(5)]] .
  ultimately show ?case using eq g(2) ctx_writes_append [OF f(2) g(3)] by auto
qed

lemma db_after_branch:
  assumes ts: "length ts = 16" "length cs' = 16" and h: "hash_ok E p (Branch ts) h" "p = [] \<or> is_big (keccak E) (Branch ts) \<Longrightarrow> h \<noteq> None"
    and ch: "\<forall>j<16. child_done X E D (p @ [of_nat j]) puts (cs' ! j) (ts ! j)" "child_puts p 0 ts puts"
    and puts': "puts' = puts @ (case h of None \<Rightarrow> [] | Some hh \<Rightarrow> [PutNode hh (stor_enc (keccak E) (max_stored E) True (Branch ts))])"
    and n': "n' = Full cs' h \<or> h \<noteq> None \<and> n' = Node_Hash (the h)"
  shows "db_after X E D p n' (Branch ts) puts'"
proof -
  let ?t = "Branch ts" and ?K = "keccak E"
  have at: "branch_at ts x = (if unat x < 16 then ts ! unat x else None)" "branch_at cs' x = (if unat x < 16 then cs' ! unat x else None)" for x
    using ts by (simp_all add: branch_at_def)
  have cd: "\<exists>n ps. branch_at cs' x = Some n \<and> set ps \<subseteq> set puts \<and> db_after X E D (p @ [x]) n u ps" if u: "branch_at ts x = Some u" for x u
  proof -
    have "unat x < 16" "ts ! unat x = Some u" using u by (auto simp: at split: if_splits)
    then show ?thesis using ch(1) [rule_format, of "unat x"] by (auto simp: child_done_def at)
  qed
  have no: "branch_at cs' x = None" if "branch_at ts x = None" for x
    using that ch(1) [rule_format, of "unat x"] by (auto simp: child_done_def at split: if_splits)
  have pv: "puts_values p ?t puts'"
    unfolding puts_values_def
  proof (intro allI impI)
    fix k b assume "PutValue k b \<in> set puts'"
    then have "PutValue k b \<in> set puts" by (auto simp: puts' split: option.splits)
    then obtain j u r v where j: "j < 16" "ts ! j = Some u" "lookup u r = Some v" "hex_key k = p @ of_nat j # r" "b = fst v"
      using ch(2) [unfolded child_puts_def, THEN conjunct2, rule_format, of k b] ts(1) by (auto simp del: split_paired_Ex)
    then have "lookup ?t (of_nat j # r) = Some v" by (simp add: at unat_nibble)
    then show "\<exists>r v. lookup ?t r = Some v \<and> hex_key k = p @ r \<and> b = fst v" using j(4,5) by blast
  qed
  have hv: "has_values E D p ?t puts'"
    unfolding has_values_def
  proof (intro allI impI)
    fix r v assume "lookup ?t r = Some v"
    then obtain x s u where r: "r = x # s" "branch_at ts x = Some u" "lookup u s = Some v" by (cases r) (auto split: option.splits)
    obtain m ps where m: "set ps \<subseteq> set puts" "db_after X E D (p @ [x]) m u ps" using cd [OF r(2)] by blast
    from m(2) r(3) have "(\<exists>k. hex_key k = (p @ [x]) @ s \<and> PutValue k (fst v) \<in> set ps) \<or> stored_value E D ((p @ [x]) @ s) v"
      unfolding db_after_def has_values_def by blast
    then show "(\<exists>k. hex_key k = p @ r \<and> PutValue k (fst v) \<in> set puts') \<or> stored_value E D (p @ r) v"
      using r(1) m(1) by (auto simp: puts')
  qed
  have "rep X E' D' p n' ?t \<and> in_db E' D' p ?t" if a: "after E puts' E' D' p ?t" for E' D'
  proof -
    note env = after_env [OF a]
    have sub: "set puts \<subseteq> set puts'" by (simp add: puts')
    have child: "\<exists>n. branch_at cs' x = Some n \<and> rep X E' D' (p @ [x]) n u \<and> in_db E' D' (p @ [x]) u" if u: "branch_at ts x = Some u" for x u
    proof -
      obtain m ps where m: "branch_at cs' x = Some m" "set ps \<subseteq> set puts" "db_after X E D (p @ [x]) m u ps" using cd [OF u] by blast
      have "after E ps E' D' (p @ [x]) u" using after_branch [OF after_less [OF a] u] m(2) sub by blast
      then show ?thesis using m(1,3) unfolding db_after_def by blast
    qed
    have get: "GetNode (input E') (root_hash ?K ?t) = Some (stor_enc ?K (max_stored E) atop ?t)" if "h \<noteq> None" for atop
    proof -
      have "h = Some (root_hash ?K ?t)" using that h(1) by (auto simp: hash_ok_def)
      then have "PutNode (root_hash ?K ?t) (stor_enc ?K (max_stored E) True ?t) \<in> set puts'" by (simp add: puts')
      then show ?thesis using a unfolding after_def by (simp add: stor_enc_Branch)
    qed
    have idb: "in_db E' D' p ?t" using child env get h(2) by auto
    have sv: "saved E' D' p ?t" if "h \<noteq> None" using idb get [OF that] env h(1) that by (auto simp: saved_def hash_ok_def)
    have "\<forall>x u. branch_at ts x = Some u \<longrightarrow> (\<exists>c. branch_at cs' x = Some c \<and> rep X E' D' (p @ [x]) c u)" using child by blast
    then have "rep X E' D' p (Full cs' h) ?t"
      unfolding rep_Branch_Full using ts h(1) hash_ok_change [of E' E] env sv no by simp
    moreover have "rep X E' D' p (Node_Hash (the h)) ?t" if "h \<noteq> None"
      using that sv h(1) env by (auto simp: rep_hash hash_node_def hash_ok_def simp del: rep.simps)
    ultimately show ?thesis using n' idb by blast
  qed
  moreover have "nodes_full puts'" using ch(2) by (simp add: puts' child_puts_def split: option.split)
  ultimately show ?thesis using pv hv unfolding db_after_def by blast
qed

lemma branch_done:
  assumes E: "env_ok E" and ok: "tree_ok (length p) (Branch ts)" "values_ok (Branch ts)"
    and IH: "\<And>u. Some u \<in> set ts \<Longrightarrow> commits X E D lv u" and nib: "list_all nibble p"
    and rep: "rep X E D p (Full cs None) (Branch ts)" and node_ready: "node_ready E p (Full cs None) (Branch ts) ctx"
  shows "done_node X E D p (Branch ts) ctx (commit X E lv ctx fna p (Full cs None))"
proof -
  let ?t = "Branch ts" and ?K = "keccak E" and ?mx = "max_stored E" and ?hash = "hash_after E p (Branch ts)"
  have K: "hash_like ?K" "?mx < 32" using E by (simp_all add: env_ok_def HashLength_def)
  have ts: "length ts = 16" "length cs = 16" using ok(1) rep by (simp_all add: rep_Branch_Full)
  have lr: "level_room p \<le> 2 ^ 30" using depth_room [OF ok(1)] .
  have rm: "ctx_room (level_room p) ctx" using node_ready by (simp add: node_ready_def)
  have off: "disabled (enc_hash ctx) \<Longrightarrow> \<not> is_big ?K ?t \<and> p \<noteq> []" using node_ready by (auto simp: node_ready_def node_settled_def split: if_splits)
  obtain pos hpos ctx0 where bs: "both_start ctx pos hpos ctx0" using both_start_ex by blast
  have st: "enc_ListStart (enc_storage ctx) = (pos, enc_storage ctx0)" "he_ListStart (enc_hash ctx) = (hpos, enc_hash ctx0)"
    using bs by (simp_all add: both_start_def)
  have c0: "ctx\<lparr>enc_hash := enc_hash ctx0, enc_storage := enc_storage ctx0\<rparr> = ctx0" by simp
  have dis0: "disabled (enc_hash ctx0) = disabled (enc_hash ctx)" using he_ListStart_len [OF st(2)] by simp
  have rm0: "ctx_room (level_room p + 0 * 1283) ctx0" using both_start_room [OF bs] rm by simp
  have cr: "child_ready X E D lv (p @ [of_nat (0 + j)]) (disabled (enc_hash ctx0)) (cs ! j) (ts ! j)" if j: "j < length ts" for j
  proof -
    have at: "branch_at ts (of_nat j) = ts ! j" "branch_at cs (of_nat j) = cs ! j" using j ts by (simp_all add: branch_at_def unat_nibble)
    show ?thesis
    proof (cases "ts ! j")
      case None
      then show ?thesis using rep_no_child [OF rep, of "of_nat j"] at by (simp add: child_ready_def)
    next
      case (Some u)
      then have m: "Some u \<in> set ts" using j by (metis nth_mem)
      obtain n where n: "cs ! j = Some n" "rep X E D (p @ [of_nat j]) n u" using rep_child [OF rep, of "of_nat j" u] at Some by metis
      have "node_settled E n u" if "disabled (enc_hash ctx0)" using off dis0 that small_branch [OF K(1) _ m] by (simp add: node_settled_def)
      then show ?thesis using Some n IH [OF m] ok m by (simp add: child_ready_def)
    qed
  qed
  obtain cs' ctx2 puts where g: "commit_children X E lv ctx0 fna p 0 cs = Some (cs', ctx2, puts)" "length cs' = length ts"
    "ctx_writes (concat (map (ref_child ?K) ts)) (concat (map (stor_child ?K ?mx) ts)) ctx0 ctx2"
    "\<forall>j<length ts. child_done X E D (p @ [of_nat (0 + j)]) puts (cs' ! j) (ts ! j)" "child_puts p 0 ts puts"
    using children_ok [OF E lr order_refl nib, of cs ts 0 ctx0 X D lv fna] cr ts rm0 by auto
  let ?sout = "concat (map (stor_child ?K ?mx) ts)" and ?hout = "concat (map (ref_child ?K) ts) @ ToRLPString []"
  have enc: "rlp_list ?hout = ref_enc ?K ?t" "rlp_list ?sout = stor_enc ?K ?mx atop ?t" for atop
    by (simp_all add: ref_enc_Branch stor_enc_Branch)
  have sl: "length ?sout \<le> 20528" "length (concat (map (ref_child ?K) ts)) \<le> 528"
    using concat_map_le [of ts "stor_child ?K ?mx" 1283] stor_child_le [OF K ok(1)]
      concat_map_le [of ts "ref_child ?K" 33] ref_child_le [OF K(1)] ts(1) by auto
  have hl: "length ?hout \<le> 529" using sl(2) by (simp add: ToRLPString_def)
  have l: "length (enc_str (enc_storage ctx)) < 2 ^ 32" "length ?sout + 9 < 2 ^ 32" "he_len (enc_hash ctx) + 34 < 2 ^ 32 - 1"
    "length ?hout + 9 < 2 ^ 32" using rm lr sl hl by (auto simp: ctx_room_def)
  have ws: "writes ?sout (enc_storage ctx0) (enc_storage ctx2)" using g(3) by (simp add: ctx_writes_def)
  obtain es where es: "enc_ListEnd pos (enc_storage ctx2) = Some es" "writes (rlp_list ?sout) (enc_storage ctx) es"
    "enc_Flush (int pos) es = Some (rlp_list ?sout)" "enc_RevertToListStart pos es = Some (enc_storage ctx)"
    by (rule list_end [OF st(1) ws l(1,2)])
  have wh0: "he_writes (concat (map (ref_child ?K) ts)) (enc_hash ctx0) (enc_hash ctx2)" using g(3) by (simp add: ctx_writes_def)
  have "he_len (enc_hash ctx2) + length (ToRLPString []) < 2 ^ 32 - 1"
    using he_writes_len [OF wh0] sl(2) rm lr he_ListStart_len [OF st(2)] by (simp add: ctx_room_def ToRLPString_def)
  then obtain he where he: "he_AppendString [] (enc_hash ctx2) = Some he" "he_writes (ToRLPString []) (enc_hash ctx2) he"
    by (rule he_AppendString_writes)
  have wh: "he_writes ?hout (enc_hash ctx0) he" by (rule he_writes_append [OF wh0 he(2)])
  obtain he1 where he1: "he_ListEnd ?K hpos (p = []) None he = Some (?hash, he1)"
    "p \<noteq> [] \<Longrightarrow> he_writes (node_ref ?K (ref_enc ?K ?t)) (enc_hash ctx) he1"
  proof (cases "disabled (enc_hash ctx)")
    case True
    then have "he_ListEnd ?K hpos (p = []) None he = Some (None, he)" "he = enc_hash ctx"
      using he_ListEnd_disabled [OF st(2) wh True] by blast+
    moreover have "?hash = None" using off [OF True] by (simp add: hash_after_def)
    ultimately show thesis using that [of "enc_hash ctx"] True by (simp add: he_writes_def)
  next
    case False
    obtain he3 where "he_ListEnd ?K hpos (p = []) None he =
        Some (if length (rlp_list ?hout) < HashLength \<and> p \<noteq> [] then None else Some (?K (rlp_list ?hout)), he3)"
      "p \<noteq> [] \<Longrightarrow> he_writes (node_ref ?K (rlp_list ?hout)) (enc_hash ctx) he3"
      using he_ListEnd_enabled [OF st(2) wh False K(1) l(3,4), of "p = []" None] by blast
    then show thesis using that [of he3] unfolding enc(1)
      by (auto simp: hash_after_def is_big_def root_hash_def not_less split: if_splits)
  qed
  have com: "commit X E lv ctx fna p (Full cs None) = full_close E lv fna cs' (p = []) pos hpos ctx2 puts"
    unfolding commit.simps st Let_def prod.case c0 using g(1) by simp
  have hok: "hash_ok E p ?t ?hash" "p = [] \<or> is_big ?K ?t \<Longrightarrow> ?hash \<noteq> None" by (simp_all add: hash_ok_def hash_after_def)
  have dba: "db_after X E D p n' ?t (puts @ (case ?hash of None \<Rightarrow> [] | Some hh \<Rightarrow> [PutNode hh (stor_enc ?K ?mx True ?t)]))"
    if "n' = Full cs' ?hash \<or> ?hash \<noteq> None \<and> n' = Node_Hash (the ?hash)" for n'
    using db_after_branch [OF ts(1) _ hok _ g(5) refl that] g(2,4) ts(1) by simp
  show ?thesis
  proof (cases "p = [] \<or> is_big ?K ?t")
    case False
    then have hn: "?hash = None" by (simp add: hash_after_def)
    then have "commit X E lv ctx fna p (Full cs None) = Some (Full cs' None, ctx2\<lparr>enc_hash := he1, enc_storage := es\<rparr>, puts)"
      using com es(1) he(1) he1(1) by (simp add: full_close_def)
    moreover have "ctx_writes (node_ref ?K (ref_enc ?K ?t)) (stor_item ?K ?mx ?t) ctx (ctx2\<lparr>enc_hash := he1, enc_storage := es\<rparr>)"
      using he1(2) es(2) False enc(2) [of False] by (simp add: ctx_writes_def stor_item_def)
    ultimately show ?thesis using dba [of "Full cs' None"] hn False by (auto simp: done_node_def node_settled_def simp del: commit.simps)
  next
    case True
    then have hs: "?hash = Some (root_hash ?K ?t)" by (simp add: hash_after_def)
    have "\<exists>es1. (if p \<noteq> [] then Option.bind (enc_RevertToListStart pos es) (AppendString (root_hash ?K ?t)) else Some es) = Some es1 \<and>
        (p \<noteq> [] \<longrightarrow> writes (ToRLPString (root_hash ?K ?t)) (enc_storage ctx) es1)"
    proof (cases "p = []")
      case False
      then show ?thesis using es(4) AppendString_writes [of "enc_storage ctx" "root_hash ?K ?t"] rm lr K(1) by (auto simp: ctx_room_def)
    qed simp
    then obtain es1 where es1: "(if p \<noteq> [] then Option.bind (enc_RevertToListStart pos es) (AppendString (root_hash ?K ?t)) else Some es) = Some es1"
      "p \<noteq> [] \<longrightarrow> writes (ToRLPString (root_hash ?K ?t)) (enc_storage ctx) es1" by blast
    let ?n' = "if lv \<le> fna then Node_Hash (root_hash ?K ?t) else Full cs' (Some (root_hash ?K ?t))"
    let ?ctx' = "ctx2\<lparr>enc_hash := he1, enc_storage := es1\<rparr>"
    have c: "commit X E lv ctx fna p (Full cs None) = Some (?n', ?ctx', puts @ [PutNode (root_hash ?K ?t) (stor_enc ?K ?mx True ?t)])"
      using com es(1,3) he(1) he1(1) es1(1) hs enc(2) [of True] by (auto simp: full_close_def enc_ToBytes_def split: if_splits)
    have w: "p \<noteq> [] \<longrightarrow> ctx_writes (node_ref ?K (ref_enc ?K ?t)) (stor_item ?K ?mx ?t) ctx ?ctx'"
      using he1(2) es1(2) True by (auto simp: ctx_writes_def stor_item_def)
    show ?thesis using c w dba [of ?n'] hs by (auto simp: done_node_def node_settled_def simp del: commit.simps)
  qed
qed

subsection \<open>All nodes\<close>

lemma leaf_full_key:
  assumes "list_all nibble p" "key_at (length p) kp"
  shows "\<exists>k. hex_key k = p @ kp"
proof -
  obtain ns where "kp = ns @ [16]" "\<forall>x\<in>set ns. nibble x" "length p + length kp = HexKeyLen" using assms(2) by (auto simp: key_at_def)
  then have "key_at 0 (p @ kp)" using assms(1) unfolding key_at_def by (intro conjI exI [of _ "p @ ns"]) (auto simp: list_all_iff)
  then show ?thesis using key_at_0_hex_key by metis
qed

lemma node_done:
  assumes E: "env_ok E" and ok: "list_all nibble p" "tree_ok (length p) t" "values_ok t" and rep: "rep X E D p n t" "\<not> is_hash n"
    and nf: "\<And>cs h. n \<noteq> Full cs (Some h)" and node_ready: "node_ready E p n t ctx" and IH: "\<And>u. size u < size t \<Longrightarrow> commits X E D lv u"
  shows "done_node X E D p t ctx (commit X E lv ctx fna p n)"
proof -
  consider (leaf) kp v vn h where "t = Leaf kp v" "n = Short kp (Some (Value_Node vn)) h"
    | (ext) kp u c h where "t = Ext kp u" "n = Short kp (Some c) h" | (branch) ts cs h where "t = Branch ts" "n = Full cs h"
    using nonhash_cases [OF rep] by blast
  then show ?thesis
  proof cases
    case leaf
    have "\<exists>k. hex_key k = p @ kp" using leaf_full_key ok(1,2) leaf(1) by simp
    then show ?thesis using leaf_done [OF E _ _ _ _ ] ok rep(1) node_ready unfolding leaf by simp
  next
    case ext
    have "commits X E D lv u" using IH [of u] ext(1) by simp
    then show ?thesis using ext_done [OF E _ _ _ ok(1)] ok rep(1) node_ready unfolding ext by simp
  next
    case branch
    have "h = None" using nf [of cs] branch(2) by (cases h) auto
    moreover have "commits X E D lv u" if "Some u \<in> set ts" for u using IH [of u] size_member [OF that] branch(1) by simp
    ultimately show ?thesis using branch_done [OF E _ _ _ ok(1)] ok rep(1) node_ready unfolding branch by blast
  qed
qed

lemma commits_all: "env_ok E \<Longrightarrow> commits X E D lv t"
proof (induction t rule: measure_induct_rule [of size])
  case (less t)
  show ?case unfolding commits_def
  proof (intro allI impI)
    fix p n ctx fna
    assume a: "list_all nibble p" "tree_ok (length p) t" "values_ok t" "rep X E D p n t" "p \<noteq> []" "ctx_room (level_room p) ctx"
      and s: "disabled (enc_hash ctx) \<longrightarrow> node_settled E n t"
    show "\<exists>n' ctx' puts. commit X E lv ctx fna p n = Some (n', ctx', puts) \<and>
        ctx_writes (node_ref (keccak E) (ref_enc (keccak E) t)) (stor_item (keccak E) (max_stored E) t) ctx ctx' \<and>
        db_after X E D p n' t puts \<and> (is_branch t \<longrightarrow> node_settled E n' t)"
    proof (cases "\<exists>h cs. n = Node_Hash h \<or> n = Full cs (Some h)")
      case True
      then obtain h cs where "n = Node_Hash h \<or> n = Full cs (Some h)" by blast
      then show ?thesis by (rule commits_known [OF less.prems a(2,6,4,5)])
    next
      case False
      have "node_ready E p n t ctx" using a(5,6) s by (simp add: node_ready_def)
      then have "done_node X E D p t ctx (commit X E lv ctx fna p n)"
        using node_done [OF less.prems a(1-4)] False less by (auto simp: is_hash_def)
      then show ?thesis using a(5) unfolding done_node_def by blast
    qed
  qed
qed

lemma root_done:
  assumes "env_ok E" "tree_ok 0 t" "values_ok t" "rep X E D [] n t" "get_hash n = Some None"
  shows "done_node X E D [] t empty_context (commit X E lv empty_context fna [] n)"
proof -
  have n: "fresh n" "\<not> is_hash n" "\<And>cs h. n \<noteq> Full cs (Some h)" using assms(5) by (cases n; auto simp: is_hash_def)+
  have "node_ready E [] n t empty_context"
    using n(1) by (simp add: node_ready_def ctx_room_def he_len_def empty_context_def empty_encoder_def)
  then show ?thesis using node_done [OF assms(1), of "[]" t X D n] assms(2-4) n commits_all [OF assms(1), of X D lv] by simp
qed

end
