(* ===== verification/Trie_Block.thy ===== *)
theory Trie_Block
  imports Trie_Committed
begin

section \<open>A block of writes and its commit\<close>

text \<open>
  What is put during a block goes to a batch that is written when the database commits the block
  (\<open>LatestState.Commit\<close>); until then the trie reads the state before the block. An empty value is read as no value.
\<close>

subsection \<open>The batch\<close>

definition read_bytes :: "bytes \<Rightarrow> bytes option" where
  "read_bytes v = (if v = [] then None else Some v)"

fun write_put :: "trie_input \<Rightarrow> trie_put \<Rightarrow> trie_input" where
  "write_put d (PutValue k v) = d\<lparr>GetValue := (GetValue d)(k := read_bytes v)\<rparr>"
| "write_put d (PutNode h b) = d\<lparr>GetNode := (GetNode d)(h := read_bytes b)\<rparr>"

definition write_batch :: "trie_input \<Rightarrow> trie_put list \<Rightarrow> trie_input" where
  "write_batch d puts = foldl write_put d puts"

definition put_keys :: "trie_put list \<Rightarrow> bytes set" where
  "put_keys puts = {k. \<exists>v. PutValue k v \<in> set puts}"

lemma write_batch_snoc: "write_batch d (puts @ [p]) = write_put (write_batch d puts) p"
  by (simp add: write_batch_def)

lemma write_batch_append: "write_batch d (a @ b) = write_batch (write_batch d a) b"
  by (simp add: write_batch_def)

lemma batch_value_kept: "k \<notin> put_keys puts \<Longrightarrow> GetValue (write_batch d puts) k = GetValue d k"
proof (induction puts rule: rev_induct)
  case Nil
  then show ?case by (simp add: write_batch_def)
next
  case (snoc p ps)
  then show ?case by (cases p) (auto simp: put_keys_def write_batch_snoc)
qed

lemma batch_value_put:
  assumes "PutValue k v \<in> set puts" "\<forall>u. PutValue k u \<in> set puts \<longrightarrow> u = v"
  shows "GetValue (write_batch d puts) k = read_bytes v"
  using assms
proof (induction puts rule: rev_induct)
  case (snoc p ps)
  show ?case
  proof (cases "\<exists>u. p = PutValue k u")
    case True
    then obtain u where p: "p = PutValue k u" by blast
    then have "u = v" using snoc.prems(2) by simp
    with p show ?thesis by (simp add: write_batch_snoc)
  next
    case False
    then have "PutValue k v \<in> set ps" "\<forall>u. PutValue k u \<in> set ps \<longrightarrow> u = v" using snoc.prems by auto
    then have "GetValue (write_batch d ps) k = read_bytes v" by (rule snoc.IH)
    then show ?thesis using False by (cases p) (auto simp: write_batch_snoc)
  qed
qed simp

lemma batch_node_kept: "\<forall>b. PutNode h b \<notin> set puts \<Longrightarrow> GetNode (write_batch d puts) h = GetNode d h"
proof (induction puts rule: rev_induct)
  case Nil
  then show ?case by (simp add: write_batch_def)
next
  case (snoc p ps)
  then show ?case by (cases p) (auto simp: write_batch_snoc)
qed

lemma batch_node_put:
  assumes "PutNode h b \<in> set puts" "\<forall>c. PutNode h c \<in> set puts \<longrightarrow> c = b"
  shows "GetNode (write_batch d puts) h = read_bytes b"
  using assms
proof (induction puts rule: rev_induct)
  case (snoc p ps)
  show ?case
  proof (cases "\<exists>u. p = PutNode h u")
    case True
    then obtain u where p: "p = PutNode h u" by blast
    then have "u = b" using snoc.prems(2) by simp
    with p show ?thesis by (simp add: write_batch_snoc)
  next
    case False
    then have "PutNode h b \<in> set ps" "\<forall>u. PutNode h u \<in> set ps \<longrightarrow> u = b" using snoc.prems by auto
    then have "GetNode (write_batch d ps) h = read_bytes b" by (rule snoc.IH)
    then show ?thesis using False by (cases p) (auto simp: write_batch_snoc)
  qed
qed simp

text \<open>No hash is put with two encodings, nor with another one than the database has: no collision is met.\<close>

definition nodes_agree :: "trie_input \<Rightarrow> trie_put list \<Rightarrow> bool" where
  "nodes_agree d puts \<longleftrightarrow>
     (\<forall>h b. PutNode h b \<in> set puts \<longrightarrow> GetNode d h = None \<or> GetNode d h = Some b) \<and>
     (\<forall>h b b'. PutNode h b \<in> set puts \<longrightarrow> PutNode h b' \<in> set puts \<longrightarrow> b = b')"

lemma agree_put:
  assumes "nodes_agree d puts" "PutNode h b \<in> set puts" "b \<noteq> []"
  shows "GetNode (write_batch d puts) h = Some b"
proof -
  have "\<forall>c. PutNode h c \<in> set puts \<longrightarrow> c = b" using assms(1,2) unfolding nodes_agree_def by blast
  from batch_node_put [OF assms(2) this] assms(3) show ?thesis by (simp add: read_bytes_def)
qed

lemma agree_kept:
  assumes "nodes_agree d puts" "\<And>h b. PutNode h b \<in> set puts \<Longrightarrow> b \<noteq> []" "GetNode d h = Some b"
  shows "GetNode (write_batch d puts) h = Some b"
proof (cases "\<exists>c. PutNode h c \<in> set puts")
  case True
  then obtain c where c: "PutNode h c \<in> set puts" by blast
  then have "c = b" using assms(1,3) unfolding nodes_agree_def by fastforce
  then show ?thesis using agree_put [OF assms(1) c assms(2) [OF c]] by simp
next
  case False
  then show ?thesis using batch_node_kept [of h puts d] assms(3) by simp
qed

subsection \<open>The reference root\<close>

text \<open>The root hash of a list of keys and values, by inserting them one after the other into a tree without hashes.\<close>

fun build :: "(bytes \<times> trie_value) list \<Rightarrow> trie_value mpt option" where
  "build [] = None"
| "build ((k, v) # kvs) = Some (case build kvs of None \<Rightarrow> Leaf (hex_key k) v | Some t \<Rightarrow> ins (hex_key k) v t)"

definition ref_root :: "(bytes \<Rightarrow> bytes) \<Rightarrow> (bytes \<times> trie_value) list \<Rightarrow> bytes option" where
  "ref_root K kvs = map_option (root_hash K) (build kvs)"

definition map_of_tree :: "trie_value mpt option \<Rightarrow> bytes \<rightharpoonup> trie_value" where
  "map_of_tree t = (case t of None \<Rightarrow> Map.empty | Some u \<Rightarrow> tree_map u)"

lemma build_ok:
  "\<forall>(k, v)\<in>set kvs. length k = HashLength \<Longrightarrow> tree_opt_ok 0 (build kvs) \<and> map_of_tree (build kvs) = map_of kvs"
proof (induction kvs)
  case Nil
  then show ?case by (simp add: map_of_tree_def)
next
  case (Cons kv kvs)
  obtain k v where kv: "kv = (k, v)" by (cases kv)
  have k: "length k = HashLength" using Cons.prems kv by simp
  note key = hex_key_at [OF k]
  have IH: "tree_opt_ok 0 (build kvs)" "map_of_tree (build kvs) = map_of kvs" using Cons by auto
  show ?case
  proof (cases "build kvs")
    case None
    then have "map_of kvs = Map.empty" using IH(2) by (simp add: map_of_tree_def)
    then show ?thesis using None kv key(1) k by (auto simp: map_of_tree_def tree_map_def hex_key_inj fun_eq_iff)
  next
    case (Some t)
    then have ok: "tree_ok 0 t" "map_of kvs = tree_map t" using IH by (simp_all add: map_of_tree_def)
    have "tree_map (ins (hex_key k) v t) = (tree_map t)(k \<mapsto> v)"
      using k by (auto simp: tree_map_def lookup_ins [OF ok(1) key(1)] hex_key_inj fun_eq_iff)
    then show ?thesis using Some kv ok ins_ok [OF ok(1) key(1)] by (simp add: map_of_tree_def)
  qed
qed

lemma tree_determined:
  assumes "tree_opt_ok 0 t" "tree_opt_ok 0 u" "map_of_tree t = map_of_tree u"
  shows "t = u"
proof (cases t)
  case None
  then show ?thesis using assms tree_map_nonempty by (cases u) (auto simp: map_of_tree_def)
next
  case (Some a)
  then show ?thesis using assms tree_map_nonempty tree_map_canonical by (cases u) (auto simp: map_of_tree_def)
qed

subsection \<open>The commit of a block\<close>

text \<open>The database after the block: the puts of its writes, then those of the commit.\<close>

definition block_env :: "trie_env \<Rightarrow> trie_put list \<Rightarrow> trie_env" where
  "block_env E puts = E\<lparr>input := write_batch (input E) puts\<rparr>"

lemma block_env_simps [simp]:
  "keccak (block_env E puts) = keccak E" "schema (block_env E puts) = schema E"
  "input (block_env E puts) = write_batch (input E) puts" "max_stored (block_env E puts) = max_stored E"
  "env_ok (block_env E puts) = env_ok E"
  by (simp_all add: block_env_def max_stored_def env_ok_def)

definition only_values :: "trie_put list \<Rightarrow> bool" where
  "only_values puts \<longleftrightarrow> (\<forall>h b. PutNode h b \<notin> set puts)"

definition encoded_as :: "trie_env \<Rightarrow> trie_value \<Rightarrow> bool" where
  "encoded_as E v \<longleftrightarrow> ValueStorageToHashEncoding (schema E) (fst v) = Some (snd v)"

lemma block_value:
  assumes "puts_values [] t puts" "has_values E (put_keys bp) [] t puts" "lookup t (hex_key k) = Some v" "value_ok v"
  shows "GetValue (write_batch (input E) (bp @ puts)) k = Some (fst v)"
proof (cases "k \<in> put_keys puts")
  case True
  then obtain u where u: "PutValue k u \<in> set puts" by (auto simp: put_keys_def)
  have "\<forall>b. PutValue k b \<in> set puts \<longrightarrow> b = fst v"
    using assms(1,3) unfolding puts_values_def by (metis append_Nil option.inject)
  then have "GetValue (write_batch (write_batch (input E) bp) puts) k = read_bytes (fst v)"
    using batch_value_put [of k "fst v" puts "write_batch (input E) bp"] u by auto
  then show ?thesis using assms(4) by (simp add: write_batch_append read_bytes_def value_ok_def)
next
  case False
  then have "\<not> (\<exists>l. hex_key l = hex_key k \<and> PutValue l (fst v) \<in> set puts)" by (auto simp: hex_key_inj put_keys_def)
  then have "stored_value E (put_keys bp) (hex_key k) v" using assms(2,3) unfolding has_values_def by (metis append_Nil)
  then have "k \<notin> put_keys bp" "GetValue (input E) k = Some (fst v)" by (auto simp: stored_value_def hex_key_inj)
  then show ?thesis using False batch_value_kept by (simp add: write_batch_append)
qed

lemma only_values_node: "only_values bp \<Longrightarrow> GetNode (write_batch d bp) h = GetNode d h"
  using batch_node_kept by (simp add: only_values_def)

lemma tree_key:
  assumes "tree_ok 0 t" "lookup t r = Some v"
  obtains k where "length k = HashLength" "r = hex_key k"
  using lookup_key_at [OF assms(1), of r] assms(2) key_at_0_hex_key by auto

lemma tree_values:
  assumes "tree_ok 0 t" "lookup t (hex_key k) = Some v"
  shows "tree_map t k = Some v"
  using tree_key [OF assms] assms(2) by (metis hex_key_inj tree_map_def)

lemma after_block:
  assumes t: "tree_ok 0 t" "values_ok t" and enc: "\<forall>v\<in>ran (tree_map t). encoded_as E v"
    and puts: "puts_values [] t puts" "has_values E (put_keys bp) [] t puts" "nodes_full puts" "only_values bp" "nodes_agree (input E) puts"
  shows "after E puts (block_env E (bp @ puts)) {} [] t"
  unfolding after_def
proof (intro conjI allI impI)
  have bp: "GetNode (write_batch (input E) bp) h = GetNode (input E) h" for h using only_values_node [OF puts(4)] .
  then have ag: "nodes_agree (write_batch (input E) bp) puts" using puts(5) by (simp add: nodes_agree_def)
  have full: "\<And>h b. PutNode h b \<in> set puts \<Longrightarrow> b \<noteq> []" using puts(3) by (simp add: nodes_full_def)
  show "GetNode (input (block_env E (bp @ puts))) h = Some b" if "GetNode (input E) h = Some b" for h b
    using agree_kept [OF ag full] that bp by (simp add: write_batch_append)
  show "GetNode (input (block_env E (bp @ puts))) h = Some b" if "PutNode h b \<in> set puts" for h b
    using agree_put [OF ag that full [OF that]] by (simp add: write_batch_append)
next
  fix r v assume l: "lookup t r = Some v"
  then obtain k where k: "r = hex_key k" by (rule tree_key [OF t(1)])
  have "value_ok v" using values_ok_lookup [OF t(1)] t(2) l by blast
  then have "GetValue (write_batch (input E) (bp @ puts)) k = Some (fst v)" using block_value [OF puts(1,2)] l k by blast
  moreover have "encoded_as E v" using enc ranI [of "tree_map t" k v] tree_values [OF t(1), of k v] l k by blast
  ultimately show "stored_value (block_env E (bp @ puts)) {} ([] @ r) v" using k by (auto simp: stored_value_def encoded_as_def)
qed simp_all

text \<open>The trie that is opened at a root hash (\<open>Reader\<close> or \<open>Writer.Init\<close> with that hash).\<close>

lemma opened_rep: "saved E D [] t \<Longrightarrow> rep X E D [] (Node_Hash (root_hash (keccak E) t)) t"
  by (simp add: rep_hash hash_node_def del: rep.simps)

lemma rep_root_hash: "rep X E D [] n t \<Longrightarrow> \<exists>h. get_hash n = Some h \<and> (\<forall>hh. h = Some hh \<longrightarrow> hh = root_hash (keccak E) t \<and> saved E D [] t)"
  by (cases t) (auto simp: hash_node_def hash_ok_def top_saved_def)

lemma unchanged_block:
  assumes "tree_ok 0 t" "only_values bp"
  shows "world_le E (put_keys bp) (block_env E bp) {} [] t"
  using only_values_node [OF assms(2)] batch_value_kept
  by (fastforce simp: world_le_def stored_value_def)

text \<open>What a commit gives: the root hash of the tree, and a trie that holds the same when the batch is written, in memory and opened at its hash.\<close>

definition commit_result ::
  "('v \<Rightarrow> trie_value) \<Rightarrow> trie_env \<Rightarrow> trie_put list \<Rightarrow> 'v Writer \<Rightarrow> trie_value mpt option \<Rightarrow> bytes option \<Rightarrow> 'v Writer \<Rightarrow> trie_put list \<Rightarrow> bool" where
  "commit_result X E bp w t hash w' puts \<longleftrightarrow> hash = map_option (root_hash (keccak E)) t \<and>
     FullNodeLevelsToCache w' = FullNodeLevelsToCache w \<and>
     tree_holds X (block_env E (bp @ puts)) {} w' t \<and>
     (\<forall>lv. tree_holds X (block_env E (bp @ puts)) {} (\<lparr>root = map_option Node_Hash hash, FullNodeLevelsToCache = lv\<rparr> :: 'v Writer) t)"

lemma commit_root:
  assumes E: "env_ok E" and t: "tree_ok 0 t" "values_ok t" "rep X E (put_keys bp) [] n t" and w: "root w = Some n"
    and enc: "\<forall>v\<in>ran (tree_map t). encoded_as E v" and bp: "only_values bp"
    and agree: "\<And>hash w' puts. trie_Commit X E w = Some (hash, w', puts) \<Longrightarrow> nodes_agree (input E) puts"
  shows "\<exists>hash w' puts. trie_Commit X E w = Some (hash, w', puts) \<and> commit_result X E bp w (Some t) hash w' puts"
proof -
  obtain h where h: "get_hash n = Some h" "\<And>hh. h = Some hh \<Longrightarrow> hh = root_hash (keccak E) t \<and> saved E (put_keys bp) [] t"
    using rep_root_hash [OF t(3)] by blast
  show ?thesis
  proof (cases h)
    case (Some hh)
    then have hh: "hh = root_hash (keccak E) t" "saved E (put_keys bp) [] t" using h(2) by auto
    have c: "trie_Commit X E w = Some (Some hh, w, [])" using w h(1) Some by (simp add: trie_Commit_def)
    note le = unchanged_block [OF t(1) bp, of E]
    have "rep X (block_env E bp) {} [] (Node_Hash hh) t"
      using opened_rep [OF saved_change [OF hh(2) le], of X] hh(1) by simp
    then have "commit_result X E bp w (Some t) (Some hh) w []"
      using hh(1) w t(1,2) rep_change [OF t(3) le] by (simp add: commit_result_def tree_holds_def)
    with c show ?thesis by blast
  next
    case None
    then obtain n' ctx' puts where c: "commit X E (FullNodeLevelsToCache w) empty_context 0 [] n = Some (n', ctx', puts)"
      and db: "db_after X E (put_keys bp) [] n' t puts" and hn: "get_hash n' = Some (Some (root_hash (keccak E) t))"
      and root: "PutNode (root_hash (keccak E) t) (stor_enc (keccak E) (max_stored E) True t) \<in> set puts"
      using root_done [OF E t(1-3), of "FullNodeLevelsToCache w" 0] h(1) unfolding done_node_def by auto
    let ?w = "w\<lparr>root := Some n'\<rparr>" and ?E = "block_env E (bp @ puts)"
    have com: "trie_Commit X E w = Some (Some (root_hash (keccak E) t), ?w, puts)" using w h(1) None c hn by (simp add: trie_Commit_def)
    have a: "after E puts ?E {} [] t"
      using after_block [OF t(1,2) enc _ _ _ bp agree [OF com]] db unfolding db_after_def by blast
    then have r: "rep X ?E {} [] n' t" "in_db ?E {} [] t" using db unfolding db_after_def by blast+
    have "saved ?E {} [] t" using r(2) a root after_env [OF a] by (auto simp: saved_def after_def)
    then have "rep X ?E {} [] (Node_Hash (root_hash (keccak E) t)) t" using opened_rep by (metis block_env_simps(1))
    then have "commit_result X E bp w (Some t) (Some (root_hash (keccak E) t)) ?w puts"
      using t(1,2) r(1) by (simp add: commit_result_def tree_holds_def)
    with com show ?thesis by blast
  qed
qed

lemma ref_root_tree:
  assumes "tree_opt_ok 0 t" "\<forall>(k, v)\<in>set kvs. length k = HashLength" "map_of kvs = map_of_tree t"
  shows "ref_root K kvs = map_option (root_hash K) t"
  using tree_determined [OF assms(1), of "build kvs"] build_ok [OF assms(2)] assms(3) by (simp add: ref_root_def)

lemma writer_holds_tree: "writer_holds X E D w m \<longleftrightarrow> (\<exists>t. tree_holds X E D w t \<and> m = map_of_tree t)"
  by (simp add: writer_holds_def map_of_tree_def)

lemma Commit_holds:
  assumes E: "env_ok E" and w: "writer_holds X E (put_keys bp) w m" and bp: "only_values bp"
    and enc: "\<forall>v\<in>ran m. encoded_as E v"
    and agree: "\<And>hash w' puts. trie_Commit X E w = Some (hash, w', puts) \<Longrightarrow> nodes_agree (input E) puts"
  shows "\<exists>hash w' puts. trie_Commit X E w = Some (hash, w', puts) \<and> FullNodeLevelsToCache w' = FullNodeLevelsToCache w \<and>
    writer_holds X (block_env E (bp @ puts)) {} w' m \<and>
    (\<forall>lv. writer_holds X (block_env E (bp @ puts)) {} (\<lparr>root = map_option Node_Hash hash, FullNodeLevelsToCache = lv\<rparr> :: 'a Writer) m) \<and>
    (\<forall>kvs. (\<forall>(k, v)\<in>set kvs. length k = HashLength) \<longrightarrow> map_of kvs = m \<longrightarrow> hash = ref_root (keccak E) kvs)"
proof -
  obtain t where t: "tree_holds X E (put_keys bp) w t" "m = map_of_tree t" using w by (auto simp: writer_holds_tree)
  have "\<exists>hash w' puts. trie_Commit X E w = Some (hash, w', puts) \<and> commit_result X E bp w t hash w' puts"
  proof (cases t)
    case None
    then have "root w = None" using t(1) by (simp add: tree_holds_def split: option.splits)
    then show ?thesis using None by (simp add: trie_Commit_def commit_result_def tree_holds_def)
  next
    case (Some u)
    then obtain n where "root w = Some n" "tree_ok 0 u" "values_ok u" "rep X E (put_keys bp) [] n u"
      using t(1) by (auto simp: tree_holds_def split: option.splits)
    then show ?thesis using commit_root [OF E, of u X bp n w] enc bp agree Some t(2) by (auto simp: map_of_tree_def)
  qed
  then obtain hash w' puts where c: "trie_Commit X E w = Some (hash, w', puts)" "commit_result X E bp w t hash w' puts" by blast
  have "tree_opt_ok 0 t" using t(1) by (auto simp: tree_holds_def split: option.splits)
  then have "hash = ref_root (keccak E) kvs" if "\<forall>(k, v)\<in>set kvs. length k = HashLength" "map_of kvs = m" for kvs
    using ref_root_tree [of t kvs "keccak E"] that t(2) c(2) by (simp add: commit_result_def)
  then show ?thesis using c t(2) unfolding commit_result_def writer_holds_tree by blast
qed

end
