(* ===== verification/State_Db.thy ===== *)
theory State_Db
  imports Trie_Block
begin

section \<open>Accounts in the database\<close>

text \<open>
  \<open>src/taraxa/state/state_db\<close>: how an account is encoded for the main trie (\<open>main_trie.go\<close>), the schemas of the main trie
  and of the storage tries of the accounts (\<open>account_trie.go\<close>), the columns that the tries read and write, and the reader of
  a block's state (\<open>block_reader.go\<close>). A hash is a list of 32 bytes; reading a column is a function that gives nothing where
  the callback is not called. A panic is \<open>None\<close>.
\<close>

subsection \<open>Helpers\<close>

definition EmptyRLPListHash :: "(bytes \<Rightarrow> bytes) \<Rightarrow> bytes" where
  "EmptyRLPListHash K = K (ToRLPString [])"

definition EmptyBytesKeccak256 :: "(bytes \<Rightarrow> bytes) \<Rightarrow> bytes" where
  "EmptyBytesKeccak256 K = K []"

definition IsEmptyStateRoot :: "(bytes \<Rightarrow> bytes) \<Rightarrow> bytes option \<Rightarrow> bool" where
  "IsEmptyStateRoot K state_root \<longleftrightarrow> state_root = None \<or> state_root = Some (EmptyRLPListHash K) \<or> state_root = Some zero_hash"

text \<open>\<open>Hash.SetBytes\<close>: a longer slice is cropped from the left, a shorter one is padded there.\<close>

definition Hash_SetBytes :: "bytes \<Rightarrow> bytes" where
  "Hash_SetBytes b =
     (if HashLength < length b then drop (length b - HashLength) b else replicate (HashLength - length b) 0 @ b)"

definition bytes_nat :: "bytes \<Rightarrow> nat" where
  "bytes_nat b = foldl (\<lambda>a x. 256 * a + unat x) 0 b"

definition big_FromBytes :: "bytes \<Rightarrow> int" where
  "big_FromBytes b = int (bytes_nat b)"

definition BigConv_ToHash :: "int \<Rightarrow> bytes" where
  "BigConv_ToHash b = Hash_SetBytes (big_Bytes b)"

definition HashView :: "bytes \<Rightarrow> bytes option option" where
  "HashView b = (if length b = 0 then Some None else if length b = HashLength then Some (Some b) else None)"

fun rlp_list_at :: "nat \<Rightarrow> bytes \<Rightarrow> bytes option" where
  "rlp_list_at 0 rest = do { (_, ret, _) \<leftarrow> from_error (Split rest); Some ret }"
| "rlp_list_at (Suc pos) rest = do { (_, _, rest1) \<leftarrow> from_error (Split rest); rlp_list_at pos rest1 }"

definition RLPListAt :: "bytes \<Rightarrow> nat \<Rightarrow> bytes option" where
  "RLPListAt list pos = do { (_, rest, _) \<leftarrow> from_error (Split list); rlp_list_at pos rest }"

subsection \<open>Accounts\<close>

record DbAccount =
  db_Nonce :: int
  db_Balance :: int
  db_StorageRootHash :: "bytes option"
  db_CodeHash :: "bytes option"
  db_CodeSize :: u64

definition DecodeAccountFromTrie :: "bytes \<Rightarrow> DbAccount option" where
  "DecodeAccountFromTrie enc_st = do {
     (rest, _) \<leftarrow> from_error (SplitList enc_st);
     (nonce, rest) \<leftarrow> from_error (SplitString rest);
     (balance, rest) \<leftarrow> from_error (SplitString rest);
     (storage_root, rest) \<leftarrow> from_error (SplitString rest);
     (code_hash, rest) \<leftarrow> from_error (SplitString rest);
     (code_size, rest) \<leftarrow> from_error (SplitString rest);
     size \<leftarrow> DEC_b_endian_compact_64 code_size;
     Some \<lparr>db_Nonce = big_FromBytes nonce, db_Balance = big_FromBytes balance,
       db_StorageRootHash = (if length storage_root \<noteq> 0 then Some (Hash_SetBytes storage_root) else None),
       db_CodeHash = (if length code_hash \<noteq> 0 then Some (Hash_SetBytes code_hash) else None),
       db_CodeSize = size\<rparr> }"

text \<open>The error that \<open>AppendBigInt\<close> returns for a negative number is dropped; nothing is appended then.\<close>

definition append_big :: "int \<Rightarrow> Encoder \<Rightarrow> Encoder option" where
  "append_big i e = map_option fst (AppendBigInt i e)"

definition append_hash :: "bytes option \<Rightarrow> bytes \<Rightarrow> Encoder \<Rightarrow> Encoder option" where
  "append_hash h dflt e = (case h of Some hh \<Rightarrow> AppendString hh e | None \<Rightarrow> AppendString dflt e)"

definition Account_EncodeForTrie :: "(bytes \<Rightarrow> bytes) \<Rightarrow> DbAccount \<Rightarrow> (bytes \<times> bytes) option" where
  "Account_EncodeForTrie K a = do {
     let (storage_rlp_list, e) = enc_ListStart empty_encoder;
     e \<leftarrow> append_big (db_Nonce a) e;
     e \<leftarrow> append_big (db_Balance a) e;
     e \<leftarrow> (case db_StorageRootHash a of Some h \<Rightarrow> AppendString h e | None \<Rightarrow> AppendEmptyString e);
     e \<leftarrow> (case db_CodeHash a of Some h \<Rightarrow> AppendString h e | None \<Rightarrow> AppendEmptyString e);
     e \<leftarrow> AppendUint (db_CodeSize a) e;
     e \<leftarrow> enc_ListEnd storage_rlp_list e;
     enc_st \<leftarrow> enc_ToBytes (-1) e;
     let (hash_rlp_list, e) = enc_ListStart (enc_Reset e);
     e \<leftarrow> append_big (db_Nonce a) e;
     e \<leftarrow> append_big (db_Balance a) e;
     e \<leftarrow> append_hash (db_StorageRootHash a) (EmptyRLPListHash K) e;
     e \<leftarrow> append_hash (db_CodeHash a) (EmptyBytesKeccak256 K) e;
     e \<leftarrow> enc_ListEnd hash_rlp_list e;
     enc_hs \<leftarrow> enc_ToBytes (-1) e;
     Some (enc_st, enc_hs) }"

definition main_value_to_hash :: "(bytes \<Rightarrow> bytes) \<Rightarrow> bytes \<Rightarrow> bytes option" where
  "main_value_to_hash K enc_st = do {
     let (list_start, e) = enc_ListStart empty_encoder;
     (nxt, _) \<leftarrow> from_error (SplitList enc_st);
     (curr, nxt) \<leftarrow> from_error (SplitString nxt);
     e \<leftarrow> AppendString curr e;
     (curr, nxt) \<leftarrow> from_error (SplitString nxt);
     e \<leftarrow> AppendString curr e;
     (curr, nxt) \<leftarrow> from_error (SplitString nxt);
     e \<leftarrow> AppendString (if length curr \<noteq> 0 then curr else EmptyRLPListHash K) e;
     (curr, nxt) \<leftarrow> from_error (SplitString nxt);
     e \<leftarrow> AppendString (if length curr \<noteq> 0 then curr else EmptyBytesKeccak256 K) e;
     e \<leftarrow> enc_ListEnd list_start e;
     enc_ToBytes (-1) e }"

definition MainTrieSchema :: "(bytes \<Rightarrow> bytes) \<Rightarrow> trie_schema" where
  "MainTrieSchema K = \<lparr>ValueStorageToHashEncoding = main_value_to_hash K, MaxValueSizeToStoreInTrie = 8\<rparr>"

definition StorageRoot :: "bytes \<Rightarrow> bytes option option" where
  "StorageRoot acc_enc_storage = do { b \<leftarrow> RLPListAt acc_enc_storage 2; HashView b }"

definition db_acc_CodeHash :: "bytes \<Rightarrow> bytes option option" where
  "db_acc_CodeHash acc_enc_storage = do { b \<leftarrow> RLPListAt acc_enc_storage 3; HashView b }"

subsection \<open>Storage of an account\<close>

definition AccountTrieSchema :: trie_schema where
  "AccountTrieSchema = \<lparr>ValueStorageToHashEncoding = (\<lambda>enc_st. Some (ToRLPStringSimple enc_st)), MaxValueSizeToStoreInTrie = 8\<rparr>"

definition NewAccStorageTrieValue :: "bytes \<Rightarrow> bytes \<times> bytes" where
  "NewAccStorageTrieValue enc_st = (enc_st, ToRLPStringSimple enc_st)"

subsection \<open>Columns\<close>

datatype Column = COL_code | COL_main_trie_node | COL_main_trie_value | COL_acc_trie_node | COL_acc_trie_value

type_synonym db_reader = "Column \<Rightarrow> bytes \<Rightarrow> bytes option"

definition acc_trie_db_key :: "(bytes \<Rightarrow> bytes) \<Rightarrow> address \<Rightarrow> bytes \<Rightarrow> bytes" where
  "acc_trie_db_key K addr key = K (address_Bytes addr @ key)"

definition MainTrieInputAdapter :: "db_reader \<Rightarrow> trie_input" where
  "MainTrieInputAdapter get = \<lparr>GetValue = get COL_main_trie_value, GetNode = get COL_main_trie_node\<rparr>"

fun MainTrieIOAdapter_put :: "trie_put \<Rightarrow> Column \<times> bytes \<times> bytes" where
  "MainTrieIOAdapter_put (PutValue key v) = (COL_main_trie_value, key, v)"
| "MainTrieIOAdapter_put (PutNode node_hash node) = (COL_main_trie_node, node_hash, node)"

definition AccountTrieInputAdapter :: "(bytes \<Rightarrow> bytes) \<Rightarrow> address \<Rightarrow> db_reader \<Rightarrow> trie_input" where
  "AccountTrieInputAdapter K addr get =
     \<lparr>GetValue = (\<lambda>key. get COL_acc_trie_value (acc_trie_db_key K addr key)), GetNode = get COL_acc_trie_node\<rparr>"

fun AccountTrieIOAdapter_put :: "(bytes \<Rightarrow> bytes) \<Rightarrow> address \<Rightarrow> trie_put \<Rightarrow> Column \<times> bytes \<times> bytes" where
  "AccountTrieIOAdapter_put K addr (PutValue key v) = (COL_acc_trie_value, acc_trie_db_key K addr key, v)"
| "AccountTrieIOAdapter_put K addr (PutNode node_hash node) = (COL_acc_trie_node, node_hash, node)"

definition account_trie_env :: "(bytes \<Rightarrow> bytes) \<Rightarrow> address \<Rightarrow> db_reader \<Rightarrow> trie_env" where
  "account_trie_env K addr get = \<lparr>keccak = K, schema = AccountTrieSchema, input = AccountTrieInputAdapter K addr get\<rparr>"

definition main_trie_env :: "(bytes \<Rightarrow> bytes) \<Rightarrow> db_reader \<Rightarrow> trie_env" where
  "main_trie_env K get = \<lparr>keccak = K, schema = MainTrieSchema K, input = MainTrieInputAdapter get\<rparr>"

subsection \<open>Reading the state of a block\<close>

definition GetCode :: "db_reader \<Rightarrow> bytes \<Rightarrow> bytes" where
  "GetCode get h = (case get COL_code h of None \<Rightarrow> [] | Some b \<Rightarrow> b)"

definition GetAccountStorage :: "(bytes \<Rightarrow> bytes) \<Rightarrow> db_reader \<Rightarrow> address \<Rightarrow> bytes \<Rightarrow> bytes option" where
  "GetAccountStorage K get addr key = GetValue (AccountTrieInputAdapter K addr get) (K key)"

definition GetRawAccount :: "(bytes \<Rightarrow> bytes) \<Rightarrow> db_reader \<Rightarrow> address \<Rightarrow> bytes option" where
  "GetRawAccount K get addr = GetValue (MainTrieInputAdapter get) (K (address_Bytes addr))"

definition db_GetAccount :: "(bytes \<Rightarrow> bytes) \<Rightarrow> db_reader \<Rightarrow> address \<Rightarrow> DbAccount option option" where
  "db_GetAccount K get addr =
     (case GetRawAccount K get addr of None \<Rightarrow> Some None | Some v \<Rightarrow> map_option Some (DecodeAccountFromTrie v))"

definition GetCodeByAddress :: "(bytes \<Rightarrow> bytes) \<Rightarrow> db_reader \<Rightarrow> address \<Rightarrow> bytes option" where
  "GetCodeByAddress K get addr =
     (case GetRawAccount K get addr of
        None \<Rightarrow> Some []
      | Some acc \<Rightarrow> do {
          code_hash \<leftarrow> db_acc_CodeHash acc;
          Some (case code_hash of None \<Rightarrow> [] | Some h \<Rightarrow> GetCode get h) })"

fun enc_storage_of :: "bytes \<times> (bytes \<times> bytes) trie_val option \<Rightarrow> (bytes \<times> bytes) option" where
  "enc_storage_of (key, None) = None"
| "enc_storage_of (key, Some (Internal_Value enc_st enc_hs)) = Some (key, enc_st)"
| "enc_storage_of (key, Some (Put_Value v)) = Some (key, fst v)"

definition ForEachStorage :: "(bytes \<Rightarrow> bytes) \<Rightarrow> db_reader \<Rightarrow> address \<Rightarrow> (bytes \<times> bytes) list option" where
  "ForEachStorage K get addr =
     (case GetRawAccount K get addr of
        None \<Rightarrow> Some []
      | Some acc \<Rightarrow> do {
          storage_root \<leftarrow> StorageRoot acc;
          (case storage_root of
             None \<Rightarrow> Some []
           | Some h \<Rightarrow> do {
               calls \<leftarrow> ForEach (account_trie_env K addr get) h True;
               those (map enc_storage_of calls) }) })"

definition ForEachAccountNodeHashByRoot :: "(bytes \<Rightarrow> bytes) \<Rightarrow> db_reader \<Rightarrow> bytes option \<Rightarrow> (bytes \<times> bytes) list option" where
  "ForEachAccountNodeHashByRoot K get storage_root =
     (case storage_root of None \<Rightarrow> Some [] | Some h \<Rightarrow> ForEachNodeHash (account_trie_env K 0 get) h)"

definition ForEachMainNodeHashByRoot :: "(bytes \<Rightarrow> bytes) \<Rightarrow> db_reader \<Rightarrow> bytes option \<Rightarrow> (bytes \<times> bytes) list option" where
  "ForEachMainNodeHashByRoot K get storage_root =
     (case storage_root of None \<Rightarrow> Some [] | Some h \<Rightarrow> ForEachNodeHash (main_trie_env K get) h)"

end
