(* ===== verification/State_Db_Facts.thy ===== *)
theory State_Db_Facts
  imports State_Db
begin

section \<open>Accounts survive the database\<close>

text \<open>
  What \<open>EncodeForTrie\<close> stores can be decoded to the same account, and the hash encoding that the schema of the main trie
  computes from the stored bytes is the one that \<open>EncodeForTrie\<close> gives.
\<close>

subsection \<open>Numbers\<close>

lemma bytes_nat_snoc: "bytes_nat (b @ [x]) = 256 * bytes_nat b + unat x"
  by (simp add: bytes_nat_def)

lemma bytes_nat_bytes [simp]: "bytes_nat (nat_bytes n) = n"
proof (induction n rule: nat_bytes.induct)
  case (1 n)
  show ?case
  proof (cases "n = 0")
    case True
    then show ?thesis by (simp add: nat_bytes.simps bytes_nat_def)
  next
    case False
    then have "bytes_nat (nat_bytes n) = 256 * (n div 256) + unat (of_nat (n mod 256) :: byte)"
      using 1 by (subst nat_bytes.simps) (simp add: bytes_nat_snoc)
    also have "unat (of_nat (n mod 256) :: byte) = n mod 256" by (intro unat_of_nat_small) simp
    finally show ?thesis by simp
  qed
qed

lemma big_roundtrip: "0 \<le> i \<Longrightarrow> big_FromBytes (big_Bytes i) = i"
  by (simp add: big_FromBytes_def big_Bytes_def)

lemma SetBytes_id: "length h = HashLength \<Longrightarrow> Hash_SetBytes h = h"
  by (simp add: Hash_SetBytes_def)

lemma length_SetBytes: "length (Hash_SetBytes b) = HashLength"
  by (simp add: Hash_SetBytes_def)

subsection \<open>What is appended\<close>

definition app :: "bytes \<Rightarrow> (Encoder \<Rightarrow> Encoder option) \<Rightarrow> bool" where
  "app out f \<longleftrightarrow> (\<forall>e. length (enc_str e) + length out < 2 ^ 32 - 1 \<longrightarrow> (\<exists>e'. f e = Some e' \<and> writes out e e'))"

lemma app_string: "app (ToRLPString b) (AppendString b)"
  using AppendString_writes by (simp add: app_def)

lemma app_empty: "app (ToRLPString []) AppendEmptyString"
  using AppendString_writes [of _ "[]"] by (simp add: app_def AppendString_def)

lemma app_big: "0 \<le> i \<Longrightarrow> app (ToRLPString (big_Bytes i)) (append_big i)"
  using app_empty app_string [of "big_Bytes i"]
  by (auto simp: app_def append_big_def AppendBigInt_def big_Bytes_def nat_bytes.simps [of 0] option.map_comp o_def)

lemma uint_string: "i \<noteq> 0 \<Longrightarrow> ToRLPString (BlockToBytes i) = (if i < 128 then [ucast i] else putint i EmptyString)"
proof -
  assume i: "i \<noteq> 0"
  show ?thesis
  proof (cases "i < 256")
    case True
    then have s: "SizeInBytes i = 1" by (simp add: SizeInBytes_def)
    have "(ucast i :: byte) \<le> 0x7F \<longleftrightarrow> i < 128"
      using True by (simp add: word_le_nat_alt word_less_nat_alt unsigned_ucast_eq take_bit_nat_eq_self) linarith
    then show ?thesis using i s by (simp add: BlockToBytes_def ToRLPString_def putint_SizeInBytes be_encode_Suc be_encode_def)
  next
    case False
    then have "2 \<le> SizeInBytes i" by (simp add: SizeInBytes_def)
    moreover have "\<not> i < 128" using False by (simp add: word_less_nat_alt)
    ultimately show ?thesis using i SizeInBytes_le [of i]
      by (simp add: BlockToBytes_def ToRLPString_def putint_SizeInBytes Let_def add.commute)
  qed
qed

lemma app_uint: "app (ToRLPString (BlockToBytes i)) (AppendUint i)"
  using app_empty writes_raw AppendRaw_total uint_string [of i]
  by (auto simp: app_def AppendUint_def BlockToBytes_def)

lemma app_bind:
  assumes "app out1 f" "app out2 g"
  shows "app (out1 @ out2) (\<lambda>e. Option.bind (f e) g)"
  unfolding app_def
proof (intro allI impI)
  fix e :: Encoder assume l: "length (enc_str e) + length (out1 @ out2) < 2 ^ 32 - 1"
  then obtain e1 where e1: "f e = Some e1" "writes out1 e e1" using assms(1) unfolding app_def by force
  then obtain e2 where "g e1 = Some e2" "writes out2 e1 e2"
    using assms(2) l writes_length [OF e1(2)] unfolding app_def by force
  with e1 writes_append show "\<exists>e'. Option.bind (f e) g = Some e' \<and> writes (out1 @ out2) e e'" by auto
qed

lemma list_bytes:
  assumes "app out f" "length out + 9 < 2 ^ 32 - 1" "enc_ListStart empty_encoder = (pos, e1)"
  obtains e2 e3 where "f e1 = Some e2" "enc_ListEnd pos e2 = Some e3" "enc_ToBytes (-1) e3 = Some (rlp_list out)"
proof -
  have e: "enc_str e1 = []" "enc_str empty_encoder = []" "lheads empty_encoder = []"
    using assms(3) by (auto simp: enc_ListStart_def empty_encoder_def)
  then obtain e2 where e2: "f e1 = Some e2" "writes out e1 e2" using assms(1,2) unfolding app_def by force
  obtain e3 where e3: "enc_ListEnd pos e2 = Some e3" "writes (rlp_list out) empty_encoder e3"
    using list_end [OF assms(3) e2(2)] assms(2) e by auto
  obtain s hs n where "lheads e3 = lheads empty_encoder @ hs"
    "\<And>post hs2. \<forall>h\<in>set hs2. length (enc_str e3) \<le> unat (lh_strpos h) \<Longrightarrow>
       flush_heads (length (enc_str empty_encoder)) (hs @ hs2) (enc_str e3 @ post) =
       prepend (rlp_list out) (flush_heads (length (enc_str e3)) hs2 (enc_str e3 @ post))"
    using e3(2) by (rule writesE) blast
  from this(1) this(2) [of "[]" "[]"] have "enc_ToBytes (-1) e3 = Some (rlp_list out)"
    using e by (simp add: enc_ToBytes_def enc_Flush_def)
  with e2(1) e3(1) show thesis by (rule that)
qed

subsection \<open>The encodings of an account\<close>

definition account_ok :: "DbAccount \<Rightarrow> bool" where
  "account_ok a \<longleftrightarrow> 0 \<le> db_Nonce a \<and> 0 \<le> db_Balance a \<and>
     length (big_Bytes (db_Nonce a)) < 2 ^ 24 \<and> length (big_Bytes (db_Balance a)) < 2 ^ 24 \<and>
     (case db_StorageRootHash a of None \<Rightarrow> True | Some h \<Rightarrow> length h = HashLength) \<and>
     (case db_CodeHash a of None \<Rightarrow> True | Some h \<Rightarrow> length h = HashLength)"

definition hash_bytes :: "bytes option \<Rightarrow> bytes \<Rightarrow> bytes" where
  "hash_bytes h dflt = (case h of None \<Rightarrow> dflt | Some b \<Rightarrow> b)"

definition strings :: "bytes list \<Rightarrow> bytes" where
  "strings bs = concat (map ToRLPString bs)"

definition storage_items :: "DbAccount \<Rightarrow> bytes list" where
  "storage_items a = [big_Bytes (db_Nonce a), big_Bytes (db_Balance a), hash_bytes (db_StorageRootHash a) [],
     hash_bytes (db_CodeHash a) [], BlockToBytes (db_CodeSize a)]"

definition hash_items :: "(bytes \<Rightarrow> bytes) \<Rightarrow> DbAccount \<Rightarrow> bytes list" where
  "hash_items K a = [big_Bytes (db_Nonce a), big_Bytes (db_Balance a), hash_bytes (db_StorageRootHash a) (EmptyRLPListHash K),
     hash_bytes (db_CodeHash a) (EmptyBytesKeccak256 K)]"

lemma strings_simps [simp]: "strings [] = []" "strings (b # bs) = ToRLPString b @ strings bs"
  by (simp_all add: strings_def)

lemma length_strings_le: "\<forall>b\<in>set bs. length b \<le> n \<Longrightarrow> length (strings bs) \<le> length bs * (n + 9)"
  unfolding strings_def by (rule concat_map_le) (meson add_right_mono length_ToRLPString_le order_trans)

lemma app_hash: "app (ToRLPString (hash_bytes h dflt)) (append_hash h dflt)"
  using app_string by (cases h) (simp_all add: append_hash_def [abs_def] hash_bytes_def)

lemma app_hash_empty: "app (ToRLPString (hash_bytes h [])) (\<lambda>e. case h of Some hh \<Rightarrow> AppendString hh e | None \<Rightarrow> AppendEmptyString e)"
  using app_string app_empty by (cases h) (simp_all add: hash_bytes_def)

lemma items_le:
  assumes "account_ok a" "hash_like K"
  shows "\<forall>b\<in>set (storage_items a). length b \<le> 2 ^ 24" "\<forall>b\<in>set (hash_items K a). length b \<le> 2 ^ 24"
  using assms length_BlockToBytes [of "db_CodeSize a"]
  by (auto simp: storage_items_def hash_items_def account_ok_def hash_bytes_def hash_like_def HashLength_def EmptyRLPListHash_def
      EmptyBytesKeccak256_def split: option.splits)

lemma items_bytes_le:
  assumes "account_ok a" "hash_like K"
  shows "length (strings (storage_items a)) + 9 < 2 ^ 31" "length (strings (hash_items K a)) + 9 < 2 ^ 31"
  using length_strings_le [OF items_le(1) [OF assms]] length_strings_le [OF items_le(2) [OF assms]]
  by (simp_all add: storage_items_def hash_items_def del: strings_simps)

lemma EncodeForTrie_eq:
  assumes "account_ok a" "hash_like K"
  shows "Account_EncodeForTrie K a = Some (rlp_list (strings (storage_items a)), rlp_list (strings (hash_items K a)))"
proof -
  have nn: "0 \<le> db_Nonce a" "0 \<le> db_Balance a" using assms(1) by (simp_all add: account_ok_def)
  obtain pos e1 where s: "enc_ListStart empty_encoder = (pos, e1)" by (cases "enc_ListStart empty_encoder")
  note a1 = app_bind [OF app_big [OF nn(1)] app_bind [OF app_big [OF nn(2)] app_bind [OF app_hash_empty [of "db_StorageRootHash a"]
        app_bind [OF app_hash_empty [of "db_CodeHash a"] app_uint [of "db_CodeSize a"]]]]]
  note a2 = app_bind [OF app_big [OF nn(1)] app_bind [OF app_big [OF nn(2)] app_bind [OF app_hash [of "db_StorageRootHash a"]
        app_hash [of "db_CodeHash a" "EmptyBytesKeccak256 K"]]]]
  obtain e2 e3 where st: "Option.bind (append_big (db_Nonce a) e1) (\<lambda>e. Option.bind (append_big (db_Balance a) e) (\<lambda>e.
      Option.bind (case db_StorageRootHash a of Some hh \<Rightarrow> AppendString hh e | None \<Rightarrow> AppendEmptyString e) (\<lambda>e.
      Option.bind (case db_CodeHash a of Some hh \<Rightarrow> AppendString hh e | None \<Rightarrow> AppendEmptyString e) (AppendUint (db_CodeSize a))))) = Some e2"
    "enc_ListEnd pos e2 = Some e3" "enc_ToBytes (-1) e3 = Some (rlp_list (strings (storage_items a)))"
    by (rule list_bytes [OF a1 _ s]) (use items_bytes_le(1) [OF assms] in \<open>auto simp: storage_items_def\<close>)
  obtain e4 e5 where hs: "Option.bind (append_big (db_Nonce a) e1) (\<lambda>e. Option.bind (append_big (db_Balance a) e) (\<lambda>e.
      Option.bind (append_hash (db_StorageRootHash a) (EmptyRLPListHash K) e) (append_hash (db_CodeHash a) (EmptyBytesKeccak256 K)))) = Some e4"
    "enc_ListEnd pos e4 = Some e5" "enc_ToBytes (-1) e5 = Some (rlp_list (strings (hash_items K a)))"
    by (rule list_bytes [OF a2 _ s]) (use items_bytes_le(2) [OF assms] in \<open>auto simp: hash_items_def\<close>)
  have r: "enc_Reset e = empty_encoder" for e by (cases e) (simp add: enc_Reset_def empty_encoder_def)
  obtain x1 x2 x3 x4 where x: "append_big (db_Nonce a) e1 = Some x1" "append_big (db_Balance a) x1 = Some x2"
    "(case db_StorageRootHash a of Some hh \<Rightarrow> AppendString hh x2 | None \<Rightarrow> AppendEmptyString x2) = Some x3"
    "(case db_CodeHash a of Some hh \<Rightarrow> AppendString hh x3 | None \<Rightarrow> AppendEmptyString x3) = Some x4" "AppendUint (db_CodeSize a) x4 = Some e2"
    using st(1) unfolding bind_eq_Some_conv by blast
  moreover obtain y3 where "append_hash (db_StorageRootHash a) (EmptyRLPListHash K) x2 = Some y3"
    "append_hash (db_CodeHash a) (EmptyBytesKeccak256 K) y3 = Some e4"
    using hs(1) x(1,2) unfolding bind_eq_Some_conv by auto
  ultimately show ?thesis
    using st(2,3) hs(2,3) by (simp add: Account_EncodeForTrie_def s r Let_def)
qed

subsection \<open>Decoding\<close>

lemma length_le_string: "length b \<le> length (ToRLPString b)"
  by (auto simp: ToRLPString_def Let_def putint_SizeInBytes)

lemma split_strings:
  assumes "length (strings (b # bs)) < 2 ^ 64"
  shows "\<exists>k. Split (strings (b # bs)) = Inr (k, b, strings bs)" "SplitString (strings (b # bs)) = Inr (b, strings bs)"
proof -
  have l: "length (ToRLPString b @ strings bs) < 2 ^ 64" "length b < 2 ^ 64" using assms length_le_string [of b] by simp_all
  show "\<exists>k. Split (strings (b # bs)) = Inr (k, b, strings bs)" using Split_encodes [OF ToRLPString_encodes [OF l(2)] l(1)] by simp
  show "SplitString (strings (b # bs)) = Inr (b, strings bs)" using SplitString_append [OF l] by simp
qed

lemma split_list:
  assumes "length c + 9 < 2 ^ 64"
  shows "Split (rlp_list c) = Inr (KList, c, [])" "SplitList (rlp_list c) = Inr (c, [])"
proof -
  have "length (rlp_list c @ []) < 2 ^ 64" using length_rlp_list(2) [of c] assms by simp
  from Split_encodes [OF rlp_list_encodes this] show "Split (rlp_list c) = Inr (KList, c, [])" by simp
  then show "SplitList (rlp_list c) = Inr (c, [])" by (simp add: SplitList_def)
qed

lemma items_split:
  assumes "account_ok a" "storage_items a = [n, b, h, c, z]"
  shows "SplitList (rlp_list (strings (storage_items a))) = Inr (strings [n, b, h, c, z], [])"
    "SplitString (strings [n, b, h, c, z]) = Inr (n, strings [b, h, c, z])" "SplitString (strings [b, h, c, z]) = Inr (b, strings [h, c, z])"
    "SplitString (strings [h, c, z]) = Inr (h, strings [c, z])" "SplitString (strings [c, z]) = Inr (c, strings [z])"
    "SplitString (strings [z]) = Inr (z, [])"
proof -
  have "length (strings [n, b, h, c, z]) + 9 < 2 ^ 31" using items_bytes_le(1) [OF assms(1), of "\<lambda>_. replicate 32 0"] assms(2)
    by (simp add: hash_like_def HashLength_def)
  then have l: "length (strings [n, b, h, c, z]) + 9 < 2 ^ 64" "length (strings [n, b, h, c, z]) < 2 ^ 64" "length (strings [b, h, c, z]) < 2 ^ 64"
    "length (strings [h, c, z]) < 2 ^ 64" "length (strings [c, z]) < 2 ^ 64" "length (strings [z]) < 2 ^ 64" by simp_all
  show "SplitList (rlp_list (strings (storage_items a))) = Inr (strings [n, b, h, c, z], [])" using split_list(2) [OF l(1)] assms(2) by simp
  show "SplitString (strings [n, b, h, c, z]) = Inr (n, strings [b, h, c, z])" "SplitString (strings [b, h, c, z]) = Inr (b, strings [h, c, z])"
    "SplitString (strings [h, c, z]) = Inr (h, strings [c, z])" "SplitString (strings [c, z]) = Inr (c, strings [z])"
    by (rule split_strings(2); fact)+
  show "SplitString (strings [z]) = Inr (z, [])" using split_strings(2) [OF l(6)] by simp
qed

lemmas split_account = items_split [OF _ storage_items_def]

lemma hash_again: "(case h of None \<Rightarrow> True | Some b \<Rightarrow> length b = HashLength) \<Longrightarrow>
    (if hash_bytes h [] \<noteq> [] then Some (Hash_SetBytes (hash_bytes h [])) else None) = h"
  "(case h of None \<Rightarrow> True | Some b \<Rightarrow> length b = HashLength) \<Longrightarrow> (if hash_bytes h [] \<noteq> [] then hash_bytes h [] else d) = hash_bytes h d"
  "(case h of None \<Rightarrow> True | Some b \<Rightarrow> length b = HashLength) \<Longrightarrow> HashView (hash_bytes h []) = Some h"
  by (auto simp: hash_bytes_def SetBytes_id HashLength_def HashView_def split: option.splits)

lemma decode_items:
  assumes "account_ok a"
  shows "DecodeAccountFromTrie (rlp_list (strings (storage_items a))) = Some a"
proof -
  have sz: "DEC_b_endian_compact_64 (BlockToBytes n) = Some n" for n
    using length_BlockToBytes [of n] by (simp add: DEC_b_endian_compact_64_def BlockToBytes_decode not_less)
  have ok: "0 \<le> db_Nonce a" "0 \<le> db_Balance a" using assms by (simp_all add: account_ok_def)
  show ?thesis
    unfolding DecodeAccountFromTrie_def split_account [OF assms] from_error_def
    using assms by (simp add: split_account(2-) [OF assms] sz big_roundtrip ok hash_again account_ok_def del: strings_simps)
qed

lemma hash_encoding_items:
  assumes "account_ok a" "hash_like K"
  shows "main_value_to_hash K (rlp_list (strings (storage_items a))) = Some (rlp_list (strings (hash_items K a)))"
proof -
  let ?s = "hash_bytes (db_StorageRootHash a) (EmptyRLPListHash K)" and ?c = "hash_bytes (db_CodeHash a) (EmptyBytesKeccak256 K)"
  obtain pos e0 where s: "enc_ListStart empty_encoder = (pos, e0)" by (cases "enc_ListStart empty_encoder")
  note a = app_bind [OF app_string [of "big_Bytes (db_Nonce a)"] app_bind [OF app_string [of "big_Bytes (db_Balance a)"]
        app_bind [OF app_string [of ?s] app_string [of ?c]]]]
  obtain e4 e5 where e: "Option.bind (AppendString (big_Bytes (db_Nonce a)) e0) (\<lambda>e. Option.bind (AppendString (big_Bytes (db_Balance a)) e) (\<lambda>e.
      Option.bind (AppendString ?s e) (AppendString ?c))) = Some e4"
    "enc_ListEnd pos e4 = Some e5" "enc_ToBytes (-1) e5 = Some (rlp_list (strings (hash_items K a)))"
    by (rule list_bytes [OF a _ s]) (use items_bytes_le(2) [OF assms] in \<open>auto simp: hash_items_def\<close>)
  then obtain e1 e2 e3 where "AppendString (big_Bytes (db_Nonce a)) e0 = Some e1" "AppendString (big_Bytes (db_Balance a)) e1 = Some e2"
    "AppendString ?s e2 = Some e3" "AppendString ?c e3 = Some e4"
    unfolding bind_eq_Some_conv by blast
  then show ?thesis
    unfolding main_value_to_hash_def split_account(1) [OF assms(1)] from_error_def
    using e(2,3) assms(1) by (simp add: s split_account(2-) [OF assms(1)] hash_again account_ok_def del: strings_simps)
qed

lemma split_rest: "length (strings bs) < 2 ^ 64 \<Longrightarrow> i < length bs \<Longrightarrow> rlp_list_at i (strings bs) = Some (bs ! i)"
proof (induction i arbitrary: bs)
  case 0
  then show ?case using split_strings(1) [of "hd bs" "tl bs"] by (cases bs) (auto simp: from_error_def simp del: strings_simps)
next
  case (Suc i)
  then obtain b bs' where b: "bs = b # bs'" by (cases bs) auto
  then have "rlp_list_at i (strings bs') = Some (bs' ! i)" using Suc by simp
  then show ?case using split_strings(1) [of b bs'] Suc.prems b by (auto simp: from_error_def simp del: strings_simps)
qed

lemma account_views:
  assumes "account_ok a"
  shows "StorageRoot (rlp_list (strings (storage_items a))) = Some (db_StorageRootHash a)"
    "db_acc_CodeHash (rlp_list (strings (storage_items a))) = Some (db_CodeHash a)"
proof -
  have l: "length (strings (storage_items a)) + 9 < 2 ^ 64"
    using items_bytes_le(1) [OF assms, of "\<lambda>_. replicate 32 0"] by (simp add: hash_like_def HashLength_def)
  then have "RLPListAt (rlp_list (strings (storage_items a))) i = Some (storage_items a ! i)" if "i < 5" for i
    using that split_list(1) [OF l] split_rest [of "storage_items a" i]
    by (simp add: RLPListAt_def from_error_def storage_items_def del: strings_simps)
  from this [of 2] this [of 3] show "StorageRoot (rlp_list (strings (storage_items a))) = Some (db_StorageRootHash a)"
    "db_acc_CodeHash (rlp_list (strings (storage_items a))) = Some (db_CodeHash a)"
    using assms by (simp_all add: StorageRoot_def db_acc_CodeHash_def hash_again(3) account_ok_def)
      (simp_all add: storage_items_def hash_again(3))
qed

end
