(* ===== verification/Trie_Sink.thy ===== *)
theory Trie_Sink
  imports Map_Writer State_Db_Facts
begin

section \<open>Where account changes go\<close>

text \<open>
  \<open>src/taraxa/state/state_transition/trie_sink.go\<close>. The tasks that are submitted to the threads of one account, and to the
  thread of the main trie, run one after the other in the order of the calls: an operation of the model does what its
  task does. A Go map that is iterated is a list here, in the order of the iteration, with no key twice. The value that the
  main trie holds for an account is the mutation, whose encodings are read when the trie is committed; they are then what
  \<open>Commit\<close> of the mutation left there.
\<close>

subsection \<open>Changes of an account\<close>

record AccountChange =
  ac_Account :: DbAccount
  StorageDirty :: "(int \<times> int) list"
  RawStorageDirty :: "(bytes \<times> bytes) list"
  ac_Code :: bytes
  CodeDirty :: bool

text \<open>\<open>mu_puts\<close> is what the trie of the account has put to the pending block.\<close>

record AccountMutation =
  mu_acc :: DbAccount
  mu_pending :: bool
  mu_enc :: "bytes \<times> bytes"
  mu_writer :: "(bytes \<times> bytes) Writer option"
  mu_puts :: "trie_put list"

definition StartMutation :: AccountMutation where
  "StartMutation = \<lparr>mu_acc = \<lparr>db_Nonce = 0, db_Balance = 0, db_StorageRootHash = None, db_CodeHash = None, db_CodeSize = 0\<rparr>,
     mu_pending = False, mu_enc = ([], []), mu_writer = None, mu_puts = []\<rparr>"

type_synonym 'v slot_state = "'v Writer \<times> trie_put list"

definition slot_put :: "trie_env \<Rightarrow> bytes \<Rightarrow> 'v \<Rightarrow> 'v slot_state \<Rightarrow> 'v slot_state option" where
  "slot_put E k v s = map_option (\<lambda>(w, ps). (w, snd s @ ps)) (trie_Put E k v (fst s))"

definition slot_delete :: "trie_env \<Rightarrow> bytes \<Rightarrow> 'v slot_state \<Rightarrow> 'v slot_state option" where
  "slot_delete E k s = map_option (\<lambda>(w, ps). (w, snd s @ ps)) (trie_Delete E k (fst s))"

definition storage_writes :: "(bytes \<Rightarrow> bytes) \<Rightarrow> (int \<times> int) list \<Rightarrow> (bytes, bytes \<times> bytes) slot_write list" where
  "storage_writes K dirty =
     map (\<lambda>(k, v). (K (BigConv_ToHash k), if v = 0 then None else Some (NewAccStorageTrieValue (big_Bytes v)))) dirty"

definition raw_storage_writes :: "(bytes \<Rightarrow> bytes) \<Rightarrow> (bytes \<times> bytes) list \<Rightarrow> (bytes, bytes \<times> bytes) slot_write list" where
  "raw_storage_writes K dirty =
     map (\<lambda>(k, v). (K k, if length v = 0 then None else Some (NewAccStorageTrieValue v))) dirty"

text \<open>\<open>Update\<close> returns the mutation, the code that is put, and whether the mutation is put to the main trie.\<close>

definition mu_Update ::
  "trie_env \<Rightarrow> AccountChange \<Rightarrow> AccountMutation \<Rightarrow> (AccountMutation \<times> (Column \<times> bytes \<times> bytes) list \<times> bool) option" where
  "mu_Update E upd mu = do {
     code_puts \<leftarrow> (if CodeDirty upd
       then map_option (\<lambda>h. [(COL_code, h, ac_Code upd)]) (db_CodeHash (ac_Account upd)) else Some []);
     let to_main = \<not> mu_pending mu;
     let mu1 = mu\<lparr>mu_pending := True, mu_acc := ac_Account upd\<rparr>;
     if length (StorageDirty upd) = 0 \<and> length (RawStorageDirty upd) = 0 then Some (mu1, code_puts, to_main)
     else do {
       w \<leftarrow> (case mu_writer mu of None \<Rightarrow> Writer_Init (db_StorageRootHash (ac_Account upd)) 0 | Some w \<Rightarrow> Some w);
       s1 \<leftarrow> write_all (slot_put E) (slot_delete E) (storage_writes (keccak E) (StorageDirty upd)) (w, mu_puts mu);
       s2 \<leftarrow> write_all (slot_put E) (slot_delete E) (raw_storage_writes (keccak E) (RawStorageDirty upd)) s1;
       Some (mu1\<lparr>mu_writer := Some (fst s2), mu_puts := snd s2\<rparr>, code_puts, to_main) } }"

definition mu_Commit :: "trie_env \<Rightarrow> AccountMutation \<Rightarrow> AccountMutation option" where
  "mu_Commit E mu =
     (if \<not> mu_pending mu then Some mu
      else do {
        mu1 \<leftarrow> (case mu_writer mu of
            None \<Rightarrow> Some mu
          | Some w \<Rightarrow> do {
              (h, w1, ps) \<leftarrow> trie_Commit (\<lambda>v. v) E w;
              Some (mu\<lparr>mu_acc := (mu_acc mu)\<lparr>db_StorageRootHash := h\<rparr>, mu_writer := Some w1, mu_puts := mu_puts mu @ ps\<rparr>) });
        enc \<leftarrow> Account_EncodeForTrie (keccak E) (mu_acc mu1);
        Some (mu1\<lparr>mu_pending := False, mu_enc := enc\<rparr>) })"

subsection \<open>The main trie\<close>

definition sink_Init :: "(bytes \<Rightarrow> bytes) \<Rightarrow> bytes option \<Rightarrow> byte \<Rightarrow> AccountMutation Writer option" where
  "sink_Init K state_root levels = Writer_Init (if IsEmptyStateRoot K state_root then None else state_root) levels"

definition sink_Delete :: "trie_env \<Rightarrow> address \<Rightarrow> AccountMutation slot_state \<Rightarrow> AccountMutation slot_state option" where
  "sink_Delete E addr s = slot_delete E (keccak E (address_Bytes addr)) s"

definition sink_Put ::
  "trie_env \<Rightarrow> address \<Rightarrow> AccountMutation \<Rightarrow> AccountMutation slot_state \<Rightarrow> AccountMutation slot_state option" where
  "sink_Put E addr mu s = slot_put E (keccak E (address_Bytes addr)) mu s"

definition sink_Commit :: "trie_env \<Rightarrow> AccountMutation slot_state \<Rightarrow> (bytes \<times> AccountMutation slot_state) option" where
  "sink_Commit E s = do {
     (state_root, w, ps) \<leftarrow> trie_Commit mu_enc E (fst s);
     Some (case state_root of None \<Rightarrow> EmptyRLPListHash (keccak E) | Some h \<Rightarrow> h, w, snd s @ ps) }"

text \<open>The calls that change the main trie in a block: an account that was updated, or one that was deleted.\<close>

definition sink_writes :: "trie_env \<Rightarrow> (address, AccountMutation) slot_write list \<Rightarrow> AccountMutation slot_state \<Rightarrow> AccountMutation slot_state option" where
  "sink_writes E calls s = write_all (sink_Put E) (sink_Delete E) calls s"

subsection \<open>The storage of an account over a block\<close>

definition slots_hold :: "('v \<Rightarrow> trie_value) \<Rightarrow> trie_env \<Rightarrow> 'v slot_state \<Rightarrow> (bytes \<rightharpoonup> trie_value) \<Rightarrow> bool" where
  "slots_hold X E s m \<longleftrightarrow> env_ok E \<and> writer_holds X E (put_keys (snd s)) (fst s) m \<and> only_values (snd s)"

lemma put_keys_append [simp]: "put_keys (a @ b) = put_keys a \<union> put_keys b"
  by (auto simp: put_keys_def)

lemma put_keys_simps [simp]: "put_keys [] = {}" "put_keys [PutValue k v] = {k}"
  by (auto simp: put_keys_def)

lemma only_values_simps [simp]: "only_values []" "only_values (a @ b) \<longleftrightarrow> only_values a \<and> only_values b" "only_values [PutValue k v]"
  by (auto simp: only_values_def)

interpretation slots: map_writer "slot_put E" "slot_delete E" "slots_hold X E" X "\<lambda>k. length k = HashLength" "\<lambda>v. value_ok (X v)"
  for E :: trie_env and X :: "'v \<Rightarrow> trie_value"
proof unfold_locales
  fix s m and k :: bytes and x :: 'v
  assume h: "slots_hold X E s m" and k: "length k = HashLength"
  then have E: "env_ok E" "writer_holds X E (put_keys (snd s)) (fst s) m" "only_values (snd s)" by (simp_all add: slots_hold_def)
  show "\<exists>s'. slot_put E k x s = Some s' \<and> slots_hold X E s' (m(k \<mapsto> X x))" if "value_ok (X x)"
    using Put_holds [OF E(1,2) k that] E by (auto simp: slot_put_def slots_hold_def)
  show "\<exists>s'. slot_delete E k s = Some s' \<and> slots_hold X E s' (m(k := None))"
    using Delete_holds [OF E(1,2) k] E by (cases "m k = None") (auto simp: slot_delete_def slots_hold_def)
qed

definition change_ok :: "bytes option \<Rightarrow> AccountChange \<Rightarrow> bool" where
  "change_ok h upd \<longleftrightarrow> account_ok (ac_Account upd) \<and> db_StorageRootHash (ac_Account upd) = h \<and>
     (CodeDirty upd \<longrightarrow> db_CodeHash (ac_Account upd) \<noteq> None) \<and>
     (\<forall>(k, v)\<in>set (StorageDirty upd). length (big_Bytes v) < 2 ^ 30) \<and>
     (\<forall>(k, v)\<in>set (RawStorageDirty upd). length v < 2 ^ 30)"

definition change_writes :: "(bytes \<Rightarrow> bytes) \<Rightarrow> AccountChange \<Rightarrow> (bytes, bytes \<times> bytes) slot_write list" where
  "change_writes K upd = storage_writes K (StorageDirty upd) @ raw_storage_writes K (RawStorageDirty upd)"

definition opened :: "bytes option \<Rightarrow> 'v Writer" where
  "opened h = \<lparr>root = map_option Node_Hash h, FullNodeLevelsToCache = 0\<rparr>"

definition mu_holds :: "trie_env \<Rightarrow> bytes option \<Rightarrow> AccountMutation \<Rightarrow> (bytes \<rightharpoonup> trie_value) \<Rightarrow> bool" where
  "mu_holds E h mu m \<longleftrightarrow>
     (case mu_writer mu of
        None \<Rightarrow> mu_puts mu = [] \<and> slots_hold (\<lambda>v. v) E (opened h, []) m
      | Some w \<Rightarrow> slots_hold (\<lambda>v. v) E (w, mu_puts mu) m)"

lemma slot_value_ok: "b \<noteq> [] \<Longrightarrow> length b < 2 ^ 30 \<Longrightarrow> value_ok (NewAccStorageTrieValue b)"
  using length_ToRLPString_le [of b] by (simp add: value_ok_def NewAccStorageTrieValue_def ToRLPStringSimple_def)

lemma big_Bytes_nonempty: "v \<noteq> 0 \<Longrightarrow> big_Bytes v \<noteq> []"
  by (simp add: big_Bytes_def nat_bytes.simps [of "nat \<bar>v\<bar>"])

lemma writes_ok:
  assumes "hash_like K" "change_ok h upd" "(k, x) \<in> set (change_writes K upd)"
  shows "length k = HashLength" "x = Some v \<Longrightarrow> value_ok v \<and> snd v = ToRLPStringSimple (fst v)"
  using assms slot_value_ok big_Bytes_nonempty
  by (auto simp: change_writes_def storage_writes_def raw_storage_writes_def hash_like_def change_ok_def NewAccStorageTrieValue_def split: if_splits)

lemma write_all_append: "write_all p d (a @ b) s = Option.bind (write_all p d a s) (write_all p d b)"
proof (induction a arbitrary: s)
  case (Cons kx a)
  obtain k x where "kx = (k, x)" by (cases kx)
  then show ?case using Cons by (simp add: bind_assoc) (cases "case x of None \<Rightarrow> d k s | Some v \<Rightarrow> p k v s"; simp)
qed simp

lemma hash_like_env: "env_ok E \<Longrightarrow> hash_like (keccak E)"
  by (simp add: env_ok_def)

lemma slots_hold_env: "slots_hold X E s m \<Longrightarrow> env_ok E"
  by (simp add: slots_hold_def)

lemma mu_holds_env: "mu_holds E h mu m \<Longrightarrow> env_ok E"
  by (auto simp: mu_holds_def slots_hold_def split: option.splits)

lemma Update_holds:
  assumes m: "mu_holds E h mu m" and c: "change_ok h upd"
  shows "\<exists>mu' cs. mu_Update E upd mu = Some (mu', cs, \<not> mu_pending mu) \<and>
    mu_holds E h mu' (updates (\<lambda>v. v) (change_writes (keccak E) upd) m) \<and> mu_acc mu' = ac_Account upd \<and> mu_pending mu'"
proof -
  let ?K = "keccak E" and ?ops = "change_writes (keccak E) upd"
  have K: "hash_like ?K" using hash_like_env [OF mu_holds_env [OF m]] .
  have "(if CodeDirty upd then map_option (\<lambda>h. [(COL_code, h, ac_Code upd)]) (db_CodeHash (ac_Account upd)) else Some []) \<noteq> None"
    using c by (auto simp: change_ok_def)
  then obtain cs where cs:
    "(if CodeDirty upd then map_option (\<lambda>h. [(COL_code, h, ac_Code upd)]) (db_CodeHash (ac_Account upd)) else Some []) = Some cs" by blast
  show ?thesis
  proof (cases "length (StorageDirty upd) = 0 \<and> length (RawStorageDirty upd) = 0")
    case True
    then have "?ops = []" by (simp add: change_writes_def storage_writes_def raw_storage_writes_def)
    then show ?thesis using True cs m by (simp add: mu_Update_def Let_def mu_holds_def cong: option.case_cong)
  next
    case False
    have "\<exists>w. (case mu_writer mu of None \<Rightarrow> Writer_Init (db_StorageRootHash (ac_Account upd)) 0 | Some w \<Rightarrow> Some w) = Some w \<and>
        slots_hold (\<lambda>v. v) E (w, mu_puts mu) m"
      using m c by (cases "mu_writer mu") (simp_all add: mu_holds_def Writer_Init_def opened_def change_ok_def)
    then obtain w where w: "(case mu_writer mu of None \<Rightarrow> Writer_Init (db_StorageRootHash (ac_Account upd)) 0 | Some w \<Rightarrow> Some w) = Some w"
      "slots_hold (\<lambda>v. v) E (w, mu_puts mu) m" by blast
    have "\<forall>(k, x)\<in>set ?ops. length k = HashLength \<and> (\<forall>v. x = Some v \<longrightarrow> value_ok v)" using writes_ok [OF K c] by blast
    from slots.write_all_holds [OF w(2) this] obtain s2 where s2: "write_all (slot_put E) (slot_delete E) ?ops (w, mu_puts mu) = Some s2"
      "slots_hold (\<lambda>v. v) E s2 (updates (\<lambda>v. v) ?ops m)" by blast
    then obtain s1 where "write_all (slot_put E) (slot_delete E) (storage_writes ?K (StorageDirty upd)) (w, mu_puts mu) = Some s1"
      "write_all (slot_put E) (slot_delete E) (raw_storage_writes ?K (RawStorageDirty upd)) s1 = Some s2"
      unfolding change_writes_def write_all_append bind_eq_Some_conv by blast
    then have "mu_Update E upd mu =
        Some (mu\<lparr>mu_pending := True, mu_acc := ac_Account upd, mu_writer := Some (fst s2), mu_puts := snd s2\<rparr>, cs, \<not> mu_pending mu)"
      using cs w(1) unfolding mu_Update_def Let_def if_not_P [OF False] by simp
    then show ?thesis using s2(2) by (simp add: mu_holds_def)
  qed
qed

text \<open>The changes of one account in a block, and the commit of the block.\<close>

fun mu_Updates :: "trie_env \<Rightarrow> AccountChange list \<Rightarrow> AccountMutation \<Rightarrow> AccountMutation option" where
  "mu_Updates E [] mu = Some mu"
| "mu_Updates E (upd # upds) mu = do { (mu1, _, _) \<leftarrow> mu_Update E upd mu; mu_Updates E upds mu1 }"

definition account_block :: "trie_env \<Rightarrow> AccountChange list \<Rightarrow> AccountMutation option" where
  "account_block E upds = do { mu \<leftarrow> mu_Updates E upds StartMutation; mu_Commit E mu }"

definition block_writes :: "(bytes \<Rightarrow> bytes) \<Rightarrow> AccountChange list \<Rightarrow> (bytes, bytes \<times> bytes) slot_write list" where
  "block_writes K upds = concat (map (change_writes K) upds)"

lemma Updates_hold:
  "mu_holds E h mu m \<Longrightarrow> \<forall>upd\<in>set upds. change_ok h upd \<Longrightarrow>
     \<exists>mu'. mu_Updates E upds mu = Some mu' \<and> mu_holds E h mu' (updates (\<lambda>v. v) (block_writes (keccak E) upds) m) \<and>
       (upds \<noteq> [] \<longrightarrow> mu_acc mu' = ac_Account (last upds) \<and> mu_pending mu')"
proof (induction upds arbitrary: mu m)
  case (Cons upd upds)
  have c: "change_ok h upd" using Cons.prems(2) by simp
  obtain mu1 cs b where mu1: "mu_Update E upd mu = Some (mu1, cs, b)"
    "mu_holds E h mu1 (updates (\<lambda>v. v) (change_writes (keccak E) upd) m)" "mu_acc mu1 = ac_Account upd" "mu_pending mu1"
    using Update_holds [OF Cons.prems(1) c] by blast
  from Cons.IH [OF mu1(2)] Cons.prems(2) obtain mu' where "mu_Updates E upds mu1 = Some mu'"
    "mu_holds E h mu' (updates (\<lambda>v. v) (block_writes (keccak E) upds) (updates (\<lambda>v. v) (change_writes (keccak E) upd) m))"
    "upds \<noteq> [] \<longrightarrow> mu_acc mu' = ac_Account (last upds) \<and> mu_pending mu'" by auto
  then show ?case using mu1 by (cases upds) (simp_all add: block_writes_def)
qed (simp add: block_writes_def)

text \<open>The commit of an account's mutation: the root of its storage, the account with that root, and what the trie holds then.\<close>

definition account_done ::
  "trie_env \<Rightarrow> DbAccount \<Rightarrow> (bytes \<rightharpoonup> trie_value) \<Rightarrow> AccountMutation \<Rightarrow> bool" where
  "account_done E a m mu \<longleftrightarrow>
     mu_acc mu = a\<lparr>db_StorageRootHash := db_StorageRootHash (mu_acc mu)\<rparr> \<and>
     Account_EncodeForTrie (keccak E) (mu_acc mu) = Some (mu_enc mu) \<and>
     writer_holds (\<lambda>v. v) (block_env E (mu_puts mu)) {} (opened (db_StorageRootHash (mu_acc mu))) m"

lemma opened_root:
  assumes "writer_holds X E D (opened h) m" "\<forall>(k, v)\<in>set kvs. length k = HashLength" "map_of kvs = m"
  shows "h = ref_root (keccak E) kvs"
proof -
  obtain t where t: "tree_holds X E D (opened h) t" "m = map_of_tree t" using assms(1) by (auto simp: writer_holds_tree)
  then have "h = map_option (root_hash (keccak E)) t" "tree_opt_ok 0 t"
    by (cases h; cases t; simp add: tree_holds_def opened_def rep_hash hash_node_def)+
  then show ?thesis using ref_root_tree [of t kvs "keccak E"] assms(2,3) t(2) by simp
qed

lemma opened_length:
  assumes "env_ok E" "writer_holds X E D (opened (Some h)) m"
  shows "length h = HashLength"
proof -
  obtain t where "tree_holds X E D (opened (Some h)) t" using assms(2) by (auto simp: writer_holds_tree)
  then show ?thesis using assms(1)
    by (cases t) (simp_all add: tree_holds_def opened_def rep_hash hash_node_def env_ok_def HashLength_def)
qed

lemma Commit_hash:
  assumes E: "env_ok E" and t: "tree_holds X E D w t"
  shows "\<exists>w' puts. trie_Commit X E w = Some (map_option (root_hash (keccak E)) t, w', puts)"
proof (cases t)
  case None
  then have "root w = None" using t by (simp add: tree_holds_def split: option.splits)
  then show ?thesis using None by (simp add: trie_Commit_def)
next
  case (Some u)
  then obtain n where n: "root w = Some n" "tree_ok 0 u" "values_ok u" "rep X E D [] n u"
    using t by (auto simp: tree_holds_def split: option.splits)
  obtain h where h: "get_hash n = Some h" "\<And>hh. h = Some hh \<Longrightarrow> hh = root_hash (keccak E) u" using rep_root_hash [OF n(4)] by blast
  show ?thesis
  proof (cases h)
    case (Some hh)
    then show ?thesis using n(1) h \<open>t = Some u\<close> by (simp add: trie_Commit_def)
  next
    case None
    then show ?thesis using root_done [OF E n(2-4), of "FullNodeLevelsToCache w" 0] h(1) n(1) \<open>t = Some u\<close>
      by (auto simp: done_node_def trie_Commit_def)
  qed
qed

lemma Commit_total:
  assumes "env_ok E" "writer_holds X E D w m"
  shows "\<exists>hash w' puts. trie_Commit X E w = Some (hash, w', puts) \<and> (\<forall>h. hash = Some h \<longrightarrow> length h = HashLength)"
proof -
  obtain t where "tree_holds X E D w t" using assms(2) by (auto simp: writer_holds_tree)
  from Commit_hash [OF assms(1) this] show ?thesis using assms(1) by (auto simp: env_ok_def HashLength_def)
qed

lemma tree_holds_ok: "tree_holds X E D w t \<Longrightarrow> tree_opt_ok 0 t"
  by (auto simp: tree_holds_def split: option.splits)

text \<open>Two writers that hold the same map commit to the same root, whatever they have in memory.\<close>

lemma Commit_same:
  assumes "env_ok E" "writer_holds X E D w m" "env_ok E'" "writer_holds X' E' D' w' m" "keccak E' = keccak E"
  shows "\<exists>hash w1 ps w1' ps'. trie_Commit X E w = Some (hash, w1, ps) \<and> trie_Commit X' E' w' = Some (hash, w1', ps')"
proof -
  obtain t t' where t: "tree_holds X E D w t" "m = map_of_tree t" "tree_holds X' E' D' w' t'" "m = map_of_tree t'"
    using assms(2,4) by (auto simp: writer_holds_tree)
  have "t' = t" using tree_determined [OF tree_holds_ok [OF t(3)] tree_holds_ok [OF t(1)]] t(2,4) by simp
  then show ?thesis using Commit_hash [OF assms(1) t(1)] Commit_hash [OF assms(3) t(3)] assms(5) by auto
qed

lemma opened_same:
  assumes "env_ok E" "writer_holds X E D (opened h) m" "env_ok E'" "writer_holds X' E' D' (opened h') m" "keccak E' = keccak E"
  shows "h' = h"
proof -
  have "trie_Commit X E (opened h) = Some (h, opened h, [])" "trie_Commit X' E' (opened h') = Some (h', opened h', [])"
    by (cases h; cases h'; simp add: trie_Commit_def opened_def)+
  then show ?thesis using Commit_same [OF assms] by auto
qed

lemma Commit_account:
  assumes m: "mu_holds E h mu m" and a: "mu_pending mu" "mu_acc mu = a" "account_ok a" "db_StorageRootHash a = h"
    and enc: "\<forall>v\<in>ran m. encoded_as E v"
    and agree: "\<And>mu'. mu_Commit E mu = Some mu' \<Longrightarrow> nodes_agree (input E) (mu_puts mu')"
  shows "\<exists>mu'. mu_Commit E mu = Some mu' \<and> account_done E a m mu'"
proof -
  have E: "env_ok E" using mu_holds_env [OF m] .
  show ?thesis
  proof (cases "mu_writer mu")
    case None
    then have o: "writer_holds (\<lambda>v. v) E {} (opened h) m" "mu_puts mu = []" using m by (simp_all add: mu_holds_def slots_hold_def)
    have "a\<lparr>db_StorageRootHash := h\<rparr> = a" using a(4) by simp
    moreover have "block_env E [] = E" by (cases E) (simp add: block_env_def write_batch_def)
    ultimately show ?thesis using None a o EncodeForTrie_eq [OF a(3) hash_like_env [OF E]]
      by (auto simp: mu_Commit_def account_done_def)
  next
    case (Some w)
    then have w: "writer_holds (\<lambda>v. v) E (put_keys (mu_puts mu)) w m" "only_values (mu_puts mu)"
      using m by (simp_all add: mu_holds_def slots_hold_def)
    have c: "mu_Commit E mu = (case trie_Commit (\<lambda>v. v) E w of
        None \<Rightarrow> None
      | Some (h, w1, ps) \<Rightarrow> map_option (\<lambda>enc. mu\<lparr>mu_acc := a\<lparr>db_StorageRootHash := h\<rparr>, mu_writer := Some w1, mu_puts := mu_puts mu @ ps,
          mu_pending := False, mu_enc := enc\<rparr>) (Account_EncodeForTrie (keccak E) (a\<lparr>db_StorageRootHash := h\<rparr>)))"
      using Some a(1,2) by (auto simp: mu_Commit_def map_option_case split: option.split)
    obtain hash w1 ps where tc: "trie_Commit (\<lambda>v. v) E w = Some (hash, w1, ps)" "\<And>hh. hash = Some hh \<Longrightarrow> length hh = HashLength"
      using Commit_total [OF E w(1)] by blast
    let ?a = "a\<lparr>db_StorageRootHash := hash\<rparr>"
    have "account_ok ?a" using a(3) tc(2) by (auto simp: account_ok_def split: option.split)
    then obtain enc where e: "Account_EncodeForTrie (keccak E) ?a = Some enc" using EncodeForTrie_eq hash_like_env [OF E] by blast
    let ?mu = "mu\<lparr>mu_acc := ?a, mu_writer := Some w1, mu_puts := mu_puts mu @ ps, mu_pending := False, mu_enc := enc\<rparr>"
    have c1: "mu_Commit E mu = Some ?mu" using c tc(1) e by simp
    then have "nodes_agree (input E) ps" using agree [of ?mu] by (simp add: nodes_agree_def)
    then have ch: "writer_holds (\<lambda>v. v) (block_env E (mu_puts mu @ ps)) {} (opened hash) m"
      using Commit_holds [OF E w enc] tc(1) unfolding opened_def by force
    then have "account_done E a m ?mu" using e by (simp add: account_done_def)
    with c1 show ?thesis by blast
  qed
qed

lemma start_holds: "env_ok E \<Longrightarrow> writer_holds (\<lambda>v. v) E {} (opened h) m \<Longrightarrow> mu_holds E h StartMutation m"
  by (simp add: mu_holds_def StartMutation_def slots_hold_def)

definition storage_schema :: "trie_env \<Rightarrow> bool" where
  "storage_schema E \<longleftrightarrow> schema E = AccountTrieSchema \<and> hash_like (keccak E)"

lemma storage_schema_ok: "storage_schema E \<Longrightarrow> env_ok E"
  by (simp add: storage_schema_def env_ok_def max_stored_def AccountTrieSchema_def HashLength_def)

lemma storage_encoded: "storage_schema E \<Longrightarrow> encoded_as E v \<longleftrightarrow> snd v = ToRLPStringSimple (fst v)"
  by (auto simp: storage_schema_def encoded_as_def AccountTrieSchema_def)

lemma block_writes_encoded:
  assumes "hash_like K" "\<forall>upd\<in>set upds. change_ok h upd" "(k, Some v) \<in> set (block_writes K upds)"
  shows "snd v = ToRLPStringSimple (fst v)"
  using assms writes_ok(2) [OF assms(1)] by (fastforce simp: block_writes_def)

lemma account_block_done:
  assumes E: "storage_schema E" and o: "writer_holds (\<lambda>v. v) E {} (opened h) m" "\<forall>v\<in>ran m. snd v = ToRLPStringSimple (fst v)"
    and u: "upds \<noteq> []" "\<forall>upd\<in>set upds. change_ok h upd"
    and agree: "\<And>mu. account_block E upds = Some mu \<Longrightarrow> nodes_agree (input E) (mu_puts mu)"
  shows "\<exists>mu. account_block E upds = Some mu \<and> account_done E (ac_Account (last upds)) (updates (\<lambda>v. v) (block_writes (keccak E) upds) m) mu"
proof -
  let ?m = "updates (\<lambda>v. v) (block_writes (keccak E) upds) m" and ?a = "ac_Account (last upds)"
  have K: "hash_like (keccak E)" using E by (simp add: storage_schema_def)
  obtain mu where mu: "mu_Updates E upds StartMutation = Some mu" "mu_holds E h mu ?m" "mu_acc mu = ?a" "mu_pending mu"
    using Updates_hold [OF start_holds [OF storage_schema_ok [OF E] o(1)] u(2)] u(1) by auto
  have a: "account_ok ?a" "db_StorageRootHash ?a = h" using u last_in_set [of upds] by (auto simp: change_ok_def)
  have "snd v = ToRLPStringSimple (fst v)" if "v \<in> ran ?m" for v
    using that ran_updates [of "\<lambda>v. v" "block_writes (keccak E) upds" m] o(2) block_writes_encoded [OF K u(2)] by auto
  then have "\<forall>v\<in>ran ?m. encoded_as E v" using storage_encoded [OF E] by blast
  moreover have "mu_Commit E mu = account_block E upds" using mu(1) by (simp add: account_block_def)
  ultimately show ?thesis using Commit_account [OF mu(2,4,3) a] agree by simp
qed

lemma account_block_total:
  assumes E: "storage_schema E" and o: "writer_holds (\<lambda>v. v) E {} (opened h) m" and u: "\<forall>upd\<in>set upds. change_ok h upd"
  shows "mu_Updates E upds StartMutation \<noteq> None"
  using Updates_hold [OF start_holds [OF storage_schema_ok [OF E] o] u] by auto

subsection \<open>The accounts of a block\<close>

definition hashed_calls :: "(bytes \<Rightarrow> bytes) \<Rightarrow> (address, AccountMutation) slot_write list \<Rightarrow> (bytes, AccountMutation) slot_write list" where
  "hashed_calls K calls = map (\<lambda>(addr, x). (K (address_Bytes addr), x)) calls"

lemma sink_writes_slots: "sink_writes E calls s = write_all (slot_put E) (slot_delete E) (hashed_calls (keccak E) calls) s"
proof (induction calls arbitrary: s)
  case (Cons c calls)
  obtain a x where "c = (a, x)" by (cases c)
  then show ?case using Cons
    by (cases "case x of None \<Rightarrow> sink_Delete E a s | Some v \<Rightarrow> sink_Put E a v s"; cases x)
      (simp_all add: sink_writes_def hashed_calls_def sink_Put_def sink_Delete_def)
qed (simp add: sink_writes_def hashed_calls_def)

text \<open>Every value of the main trie is an account, in both encodings.\<close>

definition main_schema :: "trie_env \<Rightarrow> bool" where
  "main_schema E \<longleftrightarrow> schema E = MainTrieSchema (keccak E) \<and> hash_like (keccak E)"

definition account_value :: "(bytes \<Rightarrow> bytes) \<Rightarrow> trie_value \<Rightarrow> bool" where
  "account_value K v \<longleftrightarrow> (\<exists>a. account_ok a \<and> Account_EncodeForTrie K a = Some v)"

lemma main_schema_ok: "main_schema E \<Longrightarrow> env_ok E"
  by (simp add: main_schema_def env_ok_def max_stored_def MainTrieSchema_def HashLength_def)

lemma account_value_ok:
  assumes "main_schema E" "account_value (keccak E) v"
  shows "value_ok v" "encoded_as E v"
proof -
  have K: "hash_like (keccak E)" using assms(1) by (simp add: main_schema_def)
  obtain a where a: "account_ok a" "v = (rlp_list (strings (storage_items a)), rlp_list (strings (hash_items (keccak E) a)))"
    using assms(2) EncodeForTrie_eq [OF _ K] by (auto simp: account_value_def)
  have "length (rlp_list (strings (hash_items (keccak E) a))) < 2 ^ 31"
    using items_bytes_le(2) [OF a(1) K] length_rlp_list(2) [of "strings (hash_items (keccak E) a)"] by linarith
  then show "value_ok v" using a(2) rlp_list_full by (simp add: value_ok_def)
  show "encoded_as E v" using hash_encoding_items [OF a(1) K] a(2) assms(1) by (simp add: encoded_as_def main_schema_def MainTrieSchema_def)
qed

definition state_root_of :: "(bytes \<Rightarrow> bytes) \<Rightarrow> (bytes \<times> trie_value) list \<Rightarrow> bytes" where
  "state_root_of K kvs = (case ref_root K kvs of None \<Rightarrow> EmptyRLPListHash K | Some h \<Rightarrow> h)"

lemma sink_block_done:
  assumes E: "main_schema E" and s: "slots_hold mu_enc E s m" "\<forall>v\<in>ran m. account_value (keccak E) v"
    and calls: "\<forall>(addr, x)\<in>set calls. \<forall>mu. x = Some mu \<longrightarrow> account_value (keccak E) (mu_enc mu)"
    and agree: "\<And>s1 root s2. sink_writes E calls s = Some s1 \<Longrightarrow> sink_Commit E s1 = Some (root, s2) \<Longrightarrow> nodes_agree (input E) (snd s2)"
    and kvs: "\<forall>(k, v)\<in>set kvs. length k = HashLength" "map_of kvs = updates mu_enc (hashed_calls (keccak E) calls) m"
  shows "\<exists>s1 s2. sink_writes E calls s = Some s1 \<and> sink_Commit E s1 = Some (state_root_of (keccak E) kvs, s2) \<and>
    slots_hold mu_enc (block_env E (snd s2)) (fst s2, []) (map_of kvs)"
proof -
  let ?ops = "hashed_calls (keccak E) calls" and ?K = "keccak E"
  have K: "hash_like ?K" using E by (simp add: main_schema_def)
  have ops: "\<forall>(k, x)\<in>set ?ops. length k = HashLength \<and> (\<forall>v. x = Some v \<longrightarrow> value_ok (mu_enc v))"
  proof (intro ballI, clarify, intro conjI allI impI)
    fix k x assume k: "(k, x) \<in> set ?ops"
    then obtain a where a: "(a, x) \<in> set calls" "k = ?K (address_Bytes a)" by (auto simp: hashed_calls_def)
    show "length k = HashLength" using a(2) K by (simp add: hash_like_def)
    show "value_ok (mu_enc v)" if "x = Some v" for v using a(1) that calls by (intro account_value_ok(1) [OF E]) auto
  qed
  obtain s1 where s1: "sink_writes E calls s = Some s1" "slots_hold mu_enc E s1 (map_of kvs)"
    using slots.write_all_holds [OF s(1) ops] kvs(2) by (auto simp: sink_writes_slots)
  then have w: "env_ok E" "writer_holds mu_enc E (put_keys (snd s1)) (fst s1) (map_of kvs)" "only_values (snd s1)"
    by (simp_all add: slots_hold_def)
  have "account_value ?K v" if "v \<in> ran (map_of kvs)" for v
  proof -
    have "v \<in> ran m \<union> {mu_enc x |k x. (k, Some x) \<in> set ?ops}" using that ran_updates [of mu_enc ?ops m] unfolding kvs(2) by blast
    then consider "v \<in> ran m" | a mu where "v = mu_enc mu" "(a, Some mu) \<in> set calls" by (auto simp: hashed_calls_def)
    then show ?thesis using s(2) calls by cases auto
  qed
  then have enc: "\<forall>v\<in>ran (map_of kvs). encoded_as E v" using account_value_ok(2) [OF E] by blast
  obtain hash w' puts where tc: "trie_Commit mu_enc E (fst s1) = Some (hash, w', puts)" using Commit_total [OF w(1,2)] by blast
  then have "nodes_agree (input E) puts" using agree [OF s1(1)] by (auto simp: sink_Commit_def nodes_agree_def)
  then have "hash = ref_root ?K kvs" "writer_holds mu_enc (block_env E (snd s1 @ puts)) {} w' (map_of kvs)"
    using Commit_holds [OF w enc] tc kvs(1) by force+
  with tc s1(1) w(1) show ?thesis by (auto simp: sink_Commit_def state_root_of_def slots_hold_def)
qed

end
