(* ===== verification/Trie_Typed.thy ===== *)
theory Trie_Typed
  imports Trie_Sink
begin

section \<open>The shape of the nodes in memory\<close>

text \<open>
  \<open>node_typed d\<close>: the shape that the type switches of the trie rely on, for a node that \<open>d\<close> nibbles lead to. A value stands
  only below a short node whose key ends with the terminator and completes the key of 64 nibbles; any other short node has a
  branch or a hash below it; a branch has sixteen children, and more than one of them; hashes have 32 bytes.
\<close>

definition hash_typed :: "bytes option \<Rightarrow> bool" where
  "hash_typed h \<longleftrightarrow> (case h of None \<Rightarrow> True | Some b \<Rightarrow> length b = HashLength)"

fun node_typed :: "nat \<Rightarrow> 'v node \<Rightarrow> bool" where
  "node_typed d (Node_Hash h) \<longleftrightarrow> length h = HashLength"
| "node_typed d (Short kp (Some (Value_Node v)) h) \<longleftrightarrow>
     kp \<noteq> [] \<and> last kp = 16 \<and> (\<forall>x\<in>set (butlast kp). nibble x) \<and> d + length kp = HexKeyLen \<and> hash_typed h \<and> (v = None \<longrightarrow> h \<noteq> None)"
| "node_typed d (Short kp (Some (Short kp' v' h')) h) \<longleftrightarrow> False"
| "node_typed d (Short kp (Some c) h) \<longleftrightarrow>
     kp \<noteq> [] \<and> (\<forall>x\<in>set kp. nibble x) \<and> hash_typed h \<and> node_typed (d + length kp) c"
| "node_typed d (Full cs h) \<longleftrightarrow>
     length cs = full_node_child_cnt \<and> hash_typed h \<and> 2 \<le> length (filter (\<lambda>c. c \<noteq> None) cs) \<and>
     (\<forall>c\<in>set cs. case c of None \<Rightarrow> True | Some n \<Rightarrow> node_typed (Suc d) n)"
| "node_typed d _ \<longleftrightarrow> False"

definition writer_typed :: "'v Writer \<Rightarrow> bool" where
  "writer_typed w \<longleftrightarrow> (case root w of None \<Rightarrow> True | Some n \<Rightarrow> node_typed 0 n)"

lemma hash_ok_typed: "hash_like (keccak E) \<Longrightarrow> hash_ok E p t h \<Longrightarrow> hash_typed h"
  by (auto simp: hash_ok_def hash_typed_def HashLength_def split: option.split)

lemma two_members:
  assumes "i < length xs" "j < length xs" "i \<noteq> j" "P (xs ! i)" "P (xs ! j)"
  shows "2 \<le> length (filter P xs)"
proof -
  have "{i, j} \<subseteq> {k. k < length xs \<and> P (xs ! k)}" using assms by auto
  then have "card {i, j} \<le> card {k. k < length xs \<and> P (xs ! k)}" by (intro card_mono) auto
  then show ?thesis using assms(3) by (simp add: length_filter_conv_card)
qed

lemma branch_two:
  assumes "tree_ok d (Branch ts)" "length cs = length ts" "\<And>x t. branch_at ts x = Some t \<Longrightarrow> \<exists>c. branch_at cs x = Some c"
  shows "2 \<le> length (filter (\<lambda>c. c \<noteq> None) cs)"
proof -
  obtain i j where ij: "i < 16" "j < 16" "i \<noteq> j" "ts ! i \<noteq> None" "ts ! j \<noteq> None" and l: "length ts = 16" using assms(1) by auto
  have "cs ! k \<noteq> None" if "k < 16" "ts ! k \<noteq> None" for k
    using assms(3) [of "of_nat k"] that l assms(2) unat_nibble [of k] by (auto simp: branch_at_def)
  then show ?thesis using two_members [of i cs j "\<lambda>c. c \<noteq> None"] ij l assms(2) by simp
qed

lemma rep_typed:
  assumes "hash_like (keccak E)"
  shows "tree_ok (length p) t \<Longrightarrow> rep X E D p n t \<Longrightarrow> node_typed (length p) n"
proof (induction t arbitrary: p n rule: measure_induct_rule [of size])
  case (less t)
  show ?case
  proof (cases "is_hash n")
    case True
    then show ?thesis using less.prems(2) assms by (auto simp: rep_hash hash_node_def HashLength_def)
  next
    case False
    show ?thesis
    proof (cases t)
      case (Leaf kp v)
      then obtain vn h where n: "n = Short kp (Some (Value_Node vn)) h" "hash_ok E p t h" "value_rep X E D (p @ kp) vn h v"
        using less.prems(2) False by (auto dest: hash_node_is_hash)
      moreover have "vn = None \<longrightarrow> h \<noteq> None" using n(3) by (auto simp: value_rep_def split: option.splits)
      ultimately show ?thesis using less.prems(1) Leaf hash_ok_typed [OF assms] by (auto simp: key_at_def)
    next
      case (Ext kp c)
      then obtain m h where m: "n = Short kp (Some m) h" "rep X E D (p @ kp) m c" "hash_ok E p t h"
        using less.prems(2) False by (auto dest: hash_node_is_hash)
      have "node_typed (length p + length kp) m" using less.IH [of c "p @ kp" m] m(2) Ext less.prems(1) by simp
      moreover have "is_hash m \<or> (\<exists>cs h. m = Full cs h)" using m(2) Ext less.prems(1) by (cases c) (auto dest: hash_node_is_hash)
      ultimately show ?thesis using m less.prems(1) Ext hash_ok_typed [OF assms] by (auto simp: is_hash_def)
    next
      case (Branch ts)
      then obtain cs h where n: "n = Full cs h" and r: "rep X E D p (Full cs h) (Branch ts)"
        using less.prems(2) False by (auto dest: hash_node_is_hash)
      have l: "length cs = 16" "length ts = 16" using r less.prems(1) Branch by (simp_all add: rep_Branch_Full)
      have "node_typed (Suc (length p)) m" if m: "Some m \<in> set cs" for m
      proof -
        obtain i where i: "i < 16" "cs ! i = Some m" using m l by (auto simp: in_set_conv_nth)
        then have at: "branch_at cs (of_nat i) = Some m" using l unat_nibble [of i] by (simp add: branch_at_def)
        then have "branch_at ts (of_nat i) \<noteq> None" using r unfolding rep_Branch_Full by (metis option.distinct(1))
        then obtain u where u: "branch_at ts (of_nat i) = Some u" by blast
        have "rep X E D (p @ [of_nat i]) m u" using rep_child [OF r u] at by auto
        moreover have "tree_ok (length (p @ [of_nat i])) u" using branch_at_ok [OF _ u] less.prems(1) Branch by simp
        ultimately show ?thesis using less.IH [of u "p @ [of_nat i]" m] size_branch_at [OF u] Branch by simp
      qed
      moreover have "2 \<le> length (filter (\<lambda>c. c \<noteq> None) cs)"
        using branch_two [of "length p" ts cs] less.prems(1) Branch l rep_child [OF r] by metis
      ultimately show ?thesis using n l hash_ok_typed [OF assms] r
        by (auto simp: full_node_child_cnt_def rep_Branch_Full simp del: rep.simps split: option.split)
    qed
  qed
qed

lemma holds_typed: "env_ok E \<Longrightarrow> writer_holds X E D w m \<Longrightarrow> writer_typed w"
  using rep_typed [of E "[]"]
  by (auto simp: writer_holds_def tree_holds_def writer_typed_def env_ok_def split: option.splits)

end
