(* ===== verification/Trie_Walk.thy ===== *)
theory Trie_Walk
  imports Trie_Typed
begin

section \<open>Reading a whole trie\<close>

text \<open>\<open>ForEach\<close> calls back once for every key of the trie, with its value, and for nothing else.\<close>

definition call_value :: "('v \<Rightarrow> trie_value) \<Rightarrow> 'v trie_val option \<Rightarrow> trie_value option" where
  "call_value X v = (case v of None \<Rightarrow> None | Some (Put_Value x) \<Rightarrow> Some (X x) | Some (Internal_Value es eh) \<Rightarrow> Some (es, eh))"

definition walked :: "('v \<Rightarrow> trie_value) \<Rightarrow> bytes \<Rightarrow> trie_value mpt \<Rightarrow> (bytes \<times> 'v trie_val option) list \<Rightarrow> bool" where
  "walked X p t calls \<longleftrightarrow> distinct (map fst calls) \<and>
     (\<forall>k v. (k, v) \<in> set calls \<longrightarrow> (\<exists>r u. hex_key k = p @ r \<and> lookup t r = Some u \<and> call_value X v = Some u)) \<and>
     (\<forall>r u. lookup t r = Some u \<longrightarrow> (\<exists>k v. (k, v) \<in> set calls \<and> hex_key k = p @ r))"

definition walks :: "('v \<Rightarrow> trie_value) \<Rightarrow> trie_env \<Rightarrow> bytes set \<Rightarrow> trie_value mpt \<Rightarrow> bool" where
  "walks X E D t \<longleftrightarrow>
     (\<forall>p n f. list_all nibble p \<longrightarrow> tree_ok (length p) t \<longrightarrow> values_ok t \<longrightarrow> rep X E D p n t \<longrightarrow>
        2 * (HexKeyLen - length p) + (if is_hash n then 1 else 0) \<le> f \<longrightarrow>
        (\<exists>calls. for_each f E True (Some n) p = Some calls \<and> walked X p t calls))"

lemma walksD:
  assumes "walks X E D t" "list_all nibble p" "tree_ok (length p) t" "values_ok t" "rep X E D p n t" "2 * (HexKeyLen - length p) + 1 \<le> f"
  shows "\<exists>calls. for_each f E True (Some n) p = Some calls \<and> walked X p t calls"
  using assms(1) [unfolded walks_def, rule_format, of p n f] assms(2-) by (auto split: if_splits)

subsection \<open>Children\<close>

lemma children_from:
  assumes "s + length cs \<le> 256"
  defines "L \<equiv> [(of_nat i, n). (i, c) \<leftarrow> enumerate s cs, n \<leftarrow> (case c of None \<Rightarrow> [] | Some n \<Rightarrow> [n])] :: (byte \<times> 'v node) list"
  shows "set L = {(of_nat (s + i), n) |i n. i < length cs \<and> cs ! i = Some n} \<and> distinct (map fst L)"
  using assms(1) unfolding L_def
proof (induction cs arbitrary: s)
  case (Cons c cs)
  let ?L = "[(of_nat i, n). (i, c) \<leftarrow> enumerate (Suc s) cs, n \<leftarrow> (case c of None \<Rightarrow> [] | Some n \<Rightarrow> [n])] :: (byte \<times> 'v node) list"
  have IH: "set ?L = {(of_nat (Suc s + i), n) |i n. i < length cs \<and> cs ! i = Some n}" "distinct (map fst ?L)"
    using Cons.IH [of "Suc s"] Cons.prems by auto
  have "{(of_nat (s + i) :: byte, n) |i n. i < length (c # cs) \<and> (c # cs) ! i = Some n} =
      (case c of None \<Rightarrow> {} | Some n \<Rightarrow> {(of_nat s, n)}) \<union> {(of_nat (Suc s + i), n) |i n. i < length cs \<and> cs ! i = Some n}"
    by (auto simp: less_Suc_eq_0_disj nth_Cons' split: option.split)
  moreover have "of_nat s \<noteq> (of_nat (Suc s + i) :: byte)" if "i < length cs" for i
  proof -
    have "unat (of_nat s :: byte) = s" "unat (of_nat (Suc s + i) :: byte) = Suc s + i"
      using that Cons.prems by (intro unat_of_nat_small; simp)+
    then show ?thesis by (metis add_Suc less_add_Suc1 less_irrefl)
  qed
  then have "of_nat s \<notin> fst ` set ?L" using IH(1) by auto
  ultimately show ?case using IH by (cases c) auto
qed simp

lemma children_spec:
  assumes "length cs = 16"
  shows "(x, c) \<in> set (children_of cs) \<longleftrightarrow> branch_at cs x = Some c" "distinct (map fst (children_of cs))"
proof -
  have "(x, c) \<in> set (children_of cs) \<longleftrightarrow> (\<exists>i<16. x = of_nat i \<and> cs ! i = Some c)"
    using children_from [of 0 cs] assms by (auto simp: children_of_def)
  also have "\<dots> \<longleftrightarrow> branch_at cs x = Some c"
  proof
    assume "\<exists>i<16. x = of_nat i \<and> cs ! i = Some c"
    then show "branch_at cs x = Some c" using assms by (auto simp: branch_at_def unat_nibble)
  next
    assume "branch_at cs x = Some c"
    then have "unat x < 16 \<and> x = of_nat (unat x) \<and> cs ! unat x = Some c" using assms by (auto simp: branch_at_def split: if_splits)
    then show "\<exists>i<16. x = of_nat i \<and> cs ! i = Some c" by blast
  qed
  finally show "(x, c) \<in> set (children_of cs) \<longleftrightarrow> branch_at cs x = Some c" .
  show "distinct (map fst (children_of cs))" using children_from [of 0 cs] assms by (simp add: children_of_def)
qed

lemma collect_all:
  "(\<And>x. x \<in> set xs \<Longrightarrow> \<exists>y. f x = Some y \<and> P x y) \<Longrightarrow> \<exists>ys. collect f xs = Some (concat ys) \<and> list_all2 P xs ys"
proof (induction xs)
  case (Cons x xs)
  obtain y where "f x = Some y" "P x y" using Cons.prems [of x] by auto
  moreover obtain ys where "collect f xs = Some (concat ys)" "list_all2 P xs ys" using Cons.IH Cons.prems by auto
  ultimately show ?case by (intro exI [of _ "y # ys"]) simp
qed simp

lemma distinct_parts:
  assumes "list_all2 (\<lambda>x y. distinct (map fst y) \<and> (\<forall>k\<in>fst ` set y. Q (fst x) k)) xs ys" "distinct (map fst xs)"
    "\<And>x x' k. Q x k \<Longrightarrow> Q x' k \<Longrightarrow> x = x'"
  shows "distinct (map fst (concat ys)) \<and> (\<forall>k\<in>fst ` set (concat ys). \<exists>x\<in>set xs. Q (fst x) k)"
  using assms(1,2)
proof (induction rule: list_all2_induct)
  case (Cons x xs y ys)
  have IH: "distinct (map fst (concat ys))" "\<forall>k\<in>fst ` set (concat ys). \<exists>x\<in>set xs. Q (fst x) k"
    using Cons.IH Cons.prems by simp_all
  have "fst ` set y \<inter> fst ` set (concat ys) = {}"
  proof (rule ccontr)
    assume "fst ` set y \<inter> fst ` set (concat ys) \<noteq> {}"
    then obtain k where k: "k \<in> fst ` set y" "k \<in> fst ` set (concat ys)" by blast
    then obtain x' where "x' \<in> set xs" "Q (fst x') k" using IH(2) by blast
    then have "fst x = fst x'" using Cons.hyps(1) k(1) assms(3) by blast
    then show False using Cons.prems \<open>x' \<in> set xs\<close> by (metis distinct.simps(2) image_eqI list.simps(9) set_map)
  qed
  moreover have "\<forall>k\<in>fst ` set (concat (y # ys)). \<exists>x'\<in>set (x # xs). Q (fst x') k"
    using IH(2) Cons.hyps(1) by (fastforce simp: image_Un)
  ultimately show ?case using IH(1) Cons.hyps(1) by (auto simp: image_Un)
qed simp

subsection \<open>The walk\<close>

lemma walked_branch:
  assumes ts: "length ts = 16" "length cs = 16"
    and rep: "\<And>x c. branch_at cs x = Some c \<Longrightarrow> \<exists>u. branch_at ts x = Some u" "\<And>x u. branch_at ts x = Some u \<Longrightarrow> \<exists>c. branch_at cs x = Some c"
    and w: "\<And>x c u. branch_at cs x = Some c \<Longrightarrow> branch_at ts x = Some u \<Longrightarrow> \<exists>calls. g (x, c) = Some calls \<and> walked X (p @ [x]) u calls"
  shows "\<exists>calls. collect g (children_of cs) = Some calls \<and> walked X p (Branch ts) calls"
proof -
  let ?P = "\<lambda>xc y. \<exists>u. branch_at ts (fst xc) = Some u \<and> walked X (p @ [fst xc]) u y"
  note ch = children_spec [OF ts(2)]
  have "\<exists>y. g xc = Some y \<and> ?P xc y" if "xc \<in> set (children_of cs)" for xc
  proof -
    obtain x c where xc: "xc = (x, c)" by (cases xc)
    then have c: "branch_at cs x = Some c" using that ch(1) by simp
    then obtain u where "branch_at ts x = Some u" using rep(1) by blast
    with w [OF c this] xc show ?thesis by auto
  qed
  then obtain ys where ys: "collect g (children_of cs) = Some (concat ys)" "list_all2 ?P (children_of cs) ys"
    using collect_all [of "children_of cs" g ?P] by blast
  let ?Q = "\<lambda>x k. \<exists>r. hex_key k = p @ x # r"
  have "list_all2 (\<lambda>x y. distinct (map fst y) \<and> (\<forall>k\<in>fst ` set y. ?Q (fst x) k)) (children_of cs) ys"
    using ys(2) by (rule list_all2_mono) (fastforce simp: walked_def)
  moreover have "x = x'" if "?Q x k" "?Q x' k" for x x' k using that by auto
  ultimately have d: "distinct (map fst (concat ys))" using distinct_parts [where Q = ?Q, OF _ ch(2)] by blast
  have mem: "\<exists>x c u. branch_at cs x = Some c \<and> branch_at ts x = Some u \<and> walked X (p @ [x]) u y" if y: "y \<in> set ys" for y
  proof -
    obtain i where i: "i < length ys" "y = ys ! i" using y by (auto simp: in_set_conv_nth)
    then have "?P (children_of cs ! i) y" "children_of cs ! i \<in> set (children_of cs)"
      using ys(2) by (auto simp: list_all2_conv_all_nth)
    then show ?thesis using ch(1) by (metis prod.collapse)
  qed
  have all: "\<exists>y\<in>set ys. walked X (p @ [x]) u y" if u: "branch_at ts x = Some u" for x u
  proof -
    obtain c where "branch_at cs x = Some c" using rep(2) [OF u] by blast
    then have "(x, c) \<in> set (children_of cs)" using ch(1) by simp
    then obtain i where "i < length ys" "children_of cs ! i = (x, c)" using ys(2) by (auto simp: in_set_conv_nth list_all2_lengthD)
    then show ?thesis using ys(2) u list_all2_nthD2 [OF ys(2), of i] by auto
  qed
  have "\<exists>r v'. hex_key k = p @ r \<and> lookup (Branch ts) r = Some v' \<and> call_value X v = Some v'" if kv: "(k, v) \<in> set (concat ys)" for k v
  proof -
    obtain y where y: "y \<in> set ys" "(k, v) \<in> set y" using kv by auto
    obtain x c u where "branch_at ts x = Some u" "walked X (p @ [x]) u y" using mem [OF y(1)] by blast
    then obtain r v' where "hex_key k = (p @ [x]) @ r" "lookup u r = Some v'" "call_value X v = Some v'" "branch_at ts x = Some u"
      using y(2) unfolding walked_def by blast
    then show ?thesis by (intro exI [of _ "x # r"] exI [of _ v']) simp
  qed
  moreover have "\<exists>k v. (k, v) \<in> set (concat ys) \<and> hex_key k = p @ r" if l: "lookup (Branch ts) r = Some v'" for r v'
  proof -
    obtain x s u where r: "r = x # s" "branch_at ts x = Some u" "lookup u s = Some v'" using l by (cases r) (auto split: option.splits)
    obtain y where "y \<in> set ys" "walked X (p @ [x]) u y" using all [OF r(2)] by blast
    then obtain k v where "y \<in> set ys" "(k, v) \<in> set y" "hex_key k = (p @ [x]) @ s" using r(3) unfolding walked_def by blast
    then show ?thesis using r(1) by auto
  qed
  ultimately show ?thesis using ys(1) d unfolding walked_def by blast
qed

lemma walked_leaf:
  assumes "hex_key k = p @ kp" "call_value X v = Some u"
  shows "walked X p (Leaf kp u) [(k, v)]"
  using assms by (simp add: walked_def)

lemma walked_ext: "walked X (p @ kp) t calls \<Longrightarrow> walked X p (Ext kp t) calls"
  unfolding walked_def
proof (elim conjE, intro conjI allI impI)
  fix k v
  assume "\<forall>k v. (k, v) \<in> set calls \<longrightarrow> (\<exists>r u. hex_key k = (p @ kp) @ r \<and> lookup t r = Some u \<and> call_value X v = Some u)" "(k, v) \<in> set calls"
  then obtain r u where "hex_key k = (p @ kp) @ r" "lookup t r = Some u" "call_value X v = Some u" by blast
  then show "\<exists>r u. hex_key k = p @ r \<and> lookup (Ext kp t) r = Some u \<and> call_value X v = Some u"
    by (intro exI [of _ "kp @ r"] exI [of _ u]) simp
next
  fix r u
  assume *: "\<forall>r u. lookup t r = Some u \<longrightarrow> (\<exists>k v. (k, v) \<in> set calls \<and> hex_key k = (p @ kp) @ r)" "lookup (Ext kp t) r = Some u"
  obtain s where "r = kp @ s" using lookup_Ext(2) [of r kp t] *(2) by fastforce
  with * have "r = kp @ s" "lookup t s = Some u" by (simp_all add: lookup_Ext(1))
  with *(1) show "\<exists>k v. (k, v) \<in> set calls \<and> hex_key k = p @ r" by (metis append.assoc)
qed

lemma walk_leaf:
  assumes "list_all nibble p" "tree_ok (length p) (Leaf kp u)" "value_rep X E D (p @ kp) vn h u"
  shows "\<exists>calls. for_each (Suc f) E True (Some (Short kp (Some (Value_Node vn)) h)) p = Some calls \<and> walked X p (Leaf kp u) calls"
proof -
  have kl: "key_at (length p) kp" "length p + length kp = HexKeyLen" using assms(2) by (simp_all add: key_at_def)
  obtain k where k: "hex_key k = p @ kp" using leaf_full_key [OF assms(1) kl(1)] by blast
  have key: "hex_to_keybytes (p @ kp) zero_hash = Some k" using hex_key_key [OF k kl(2)] .
  show ?thesis
  proof (cases vn)
    case None
    then have "resolve_val_n E k = Some (Value_Node (Some (Internal_Value (fst u) (snd u))) :: 'a node)"
      using stored_value_read [OF _ kl(2)] assms(3) key by (fastforce simp: value_rep_def resolve_val_n_by_hex_k_def)
    then show ?thesis using None key walked_leaf [OF k, of X "Some (Internal_Value (fst u) (snd u))" u] by (simp add: call_value_def)
  next
    case (Some v)
    then have "call_value X vn = Some u" using assms(3) by (auto simp: value_rep_def call_value_def split: trie_val.splits)
    then show ?thesis using key Some walked_leaf [OF k] by simp
  qed
qed

lemma walks_all:
  assumes E: "env_ok E"
  shows "walks X E D t"
proof (induction t rule: measure_induct_rule [of size])
  case (less t)
  have nonhash: "\<exists>calls. for_each f E True (Some n) p = Some calls \<and> walked X p t calls"
    if ok: "list_all nibble p" "tree_ok (length p) t" "values_ok t" and rep: "rep X E D p n t" "\<not> is_hash n"
      and f: "2 * (HexKeyLen - length p) \<le> f" for p n f
  proof -
    have "length p < HexKeyLen" using tree_ok_depth [OF ok(2)] by simp
    then obtain f' where f': "f = Suc f'" "2 * (HexKeyLen - Suc (length p)) + 1 \<le> f'" using f by (cases f) auto
    show ?thesis
    proof (cases t)
      case (Leaf kp u)
      then obtain vn h where "n = Short kp (Some (Value_Node vn)) h" "value_rep X E D (p @ kp) vn h u"
        using rep by (auto dest: hash_node_is_hash)
      then show ?thesis using walk_leaf [of p kp u X E D vn h f'] ok(1,2) Leaf f'(1) by simp
    next
      case (Ext kp c)
      then obtain m h where m: "n = Short kp (Some m) h" "rep X E D (p @ kp) m c" using rep by (auto dest: hash_node_is_hash)
      have "1 \<le> length kp" "list_all nibble (p @ kp)" "tree_ok (length (p @ kp)) c" "values_ok c" "walks X E D c"
        using ok less.IH [of c] Ext by (auto simp: list_all_iff Suc_le_eq)
      then obtain calls where "for_each f' E True (Some m) (p @ kp) = Some calls" "walked X (p @ kp) c calls"
        using walksD [of X E D c "p @ kp" m f'] m(2) f'(2) by fastforce
      moreover have "is_hash m \<or> (\<exists>cs h. m = Full cs h)" using m(2) Ext ok(2) by (cases c) (auto dest: hash_node_is_hash)
      ultimately show ?thesis using m(1) f'(1) walked_ext [of X p kp c calls] Ext by (auto simp: is_hash_def)
    next
      case (Branch ts)
      then obtain cs h where n: "n = Full cs h" and r: "rep X E D p (Full cs h) (Branch ts)" using rep by (auto dest: hash_node_is_hash)
      have "\<exists>calls. collect (\<lambda>(i, c). for_each f' E True (Some c) (p @ [i])) (children_of cs) = Some calls \<and> walked X p (Branch ts) calls"
      proof (rule walked_branch)
        show "length ts = 16" "length cs = 16" using ok(2) Branch r by (simp_all add: rep_Branch_Full)
        show "\<exists>u. branch_at ts x = Some u" if "branch_at cs x = Some c" for x c
          using r that unfolding rep_Branch_Full by (cases "branch_at ts x") auto
        show "\<exists>c. branch_at cs x = Some c" if "branch_at ts x = Some u" for x u
          using r that unfolding rep_Branch_Full by blast
        fix x c u
        assume c: "branch_at cs x = Some c" "branch_at ts x = Some u"
        then have "rep X E D (p @ [x]) c u" using r unfolding rep_Branch_Full by (metis option.inject)
        moreover have "nibble x" using c(2) ok(2) Branch by (auto simp: branch_at_def nibble_def word_less_nat_alt split: if_splits)
        moreover have "tree_ok (length (p @ [x])) u" "values_ok u" "walks X E D u"
          using branch_at_ok [of "length p" ts x u] c(2) ok(2,3) Branch branch_at_member [OF c(2)] less.IH [of u] size_member [of u ts] by auto
        ultimately show "\<exists>calls. (case (x, c) of (i, c) \<Rightarrow> for_each f' E True (Some c) (p @ [i])) = Some calls \<and> walked X (p @ [x]) u calls"
          using walksD [of X E D u "p @ [x]" c f'] ok(1) f'(2) by simp
      qed
      then show ?thesis using n f'(1) Branch by simp
    qed
  qed
  show ?case unfolding walks_def
  proof (intro allI impI)
    fix p n f
    assume ok: "list_all nibble p" "tree_ok (length p) t" "values_ok t" "rep X E D p n t"
      and f: "2 * (HexKeyLen - length p) + (if is_hash n then 1 else 0) \<le> f"
    show "\<exists>calls. for_each f E True (Some n) p = Some calls \<and> walked X p t calls"
    proof (cases "is_hash n")
      case True
      then obtain h where h: "n = Node_Hash h" by (auto simp: is_hash_def)
      obtain m where m: "resolve E h p = Some m" "rep X E D p m t" "\<not> is_hash m"
        using rep_resolve [OF E ok(2,3)] ok(4) h by metis
      obtain f' where f': "f = Suc f'" using f True by (cases f) auto
      show ?thesis using nonhash [OF ok(1-3) m(2,3), of f'] f f' True m(1) h by simp
    qed (use nonhash [OF ok] f in simp)
  qed
qed

subsection \<open>Reading an opened trie\<close>

lemma those_map: "(\<And>x. x \<in> set xs \<Longrightarrow> f x = Some (g x)) \<Longrightarrow> those (map f xs) = Some (map g xs)"
  by (induction xs) auto

lemma ForEach_reads:
  assumes "env_ok E" "writer_holds (\<lambda>v. v) E D (opened (Some h)) m"
  shows "\<exists>calls slots. ForEach E h True = Some calls \<and> those (map enc_storage_of calls) = Some slots \<and> distinct (map fst slots) \<and>
    map_of slots = map_option fst \<circ> m"
proof -
  obtain t where t: "tree_ok 0 t" "values_ok t" "rep (\<lambda>v. v) E D [] (Node_Hash h) t" and m: "m = tree_map t"
    using assms(2) by (auto simp: writer_holds_def tree_holds_def opened_def split: option.splits)
  have "\<exists>calls. for_each trie_fuel E True (Some (Node_Hash h)) [] = Some calls \<and> walked (\<lambda>v. v) [] t calls"
    by (rule walksD [OF walks_all [OF assms(1)]]) (use t in \<open>simp_all add: trie_fuel_def\<close>)
  then obtain calls where calls: "ForEach E h True = Some calls" "walked (\<lambda>v. v) [] t calls" by (auto simp: ForEach_def)
  define g where "g = (\<lambda>kv. (fst kv :: bytes, fst (the (call_value (\<lambda>v. v) (snd kv)))))"
  have at: "call_value (\<lambda>v. v) v = lookup t (hex_key k) \<and> lookup t (hex_key k) \<noteq> None" if "(k, v) \<in> set calls" for k v
    using calls(2) that by (fastforce simp: walked_def)
  have "enc_storage_of kv = Some (g kv)" if "kv \<in> set calls" for kv
  proof -
    have "call_value (\<lambda>v. v) (snd kv) \<noteq> None" using at [of "fst kv" "snd kv"] that by simp
    then show ?thesis by (cases kv rule: enc_storage_of.cases) (simp_all add: g_def call_value_def)
  qed
  then have slots: "those (map enc_storage_of calls) = Some (map g calls)" by (rule those_map)
  have fst_g: "map fst (map g calls) = map fst calls" by (simp add: g_def comp_def)
  have d: "distinct (map fst (map g calls))" using calls(2) unfolding fst_g by (simp add: walked_def)
  have "map_of (map g calls) k = map_option fst (m k)" for k
  proof (cases "m k")
    case (Some u)
    then have "lookup t (hex_key k) = Some u" by (simp add: m tree_map_def split: if_splits)
    then obtain v where v: "(k, v) \<in> set calls" using calls(2) unfolding walked_def by (metis append_Nil hex_key_inj)
    then have "g (k, v) = (k, fst u)" using at [OF v] \<open>lookup t (hex_key k) = Some u\<close> by (simp add: g_def)
    then have "(k, fst u) \<in> set (map g calls)" using v by (metis image_eqI set_map)
    then show ?thesis using d Some by simp
  next
    case None
    have "k \<notin> fst ` set calls"
    proof
      assume "k \<in> fst ` set calls"
      then obtain v where "(k, v) \<in> set calls" by auto
      from at [OF this] have l: "lookup t (hex_key k) \<noteq> None" by simp
      then have "length (hex_key k) = HexKeyLen" using lookup_key_at [OF t(1)] by (simp add: key_at_def)
      then show False using l None by (simp add: m tree_map_def hex_key_def key_lengths)
    qed
    then have "k \<notin> fst ` set (map g calls)" by (simp add: g_def image_image)
    then show ?thesis using None by (simp add: map_of_eq_None_iff)
  qed
  then show ?thesis using calls(1) slots d by (intro exI [of _ calls] exI [of _ "map g calls"]) (auto simp: comp_def)
qed

text \<open>What the walk of a trie opened at \<open>h\<close> hands to the callback of \<open>ForEachStorage\<close>: each slot once, with the stored bytes.\<close>

definition reads_slots :: "trie_env \<Rightarrow> bytes option \<Rightarrow> (bytes \<rightharpoonup> bytes) \<Rightarrow> bool" where
  "reads_slots E h m \<longleftrightarrow>
     (case h of
        None \<Rightarrow> m = Map.empty
      | Some r \<Rightarrow> \<exists>calls slots. ForEach E r True = Some calls \<and> those (map enc_storage_of calls) = Some slots \<and>
          distinct (map fst slots) \<and> map_of slots = m)"

lemma holds_reads_slots:
  assumes "env_ok E" "writer_holds (\<lambda>v. v) E D (opened h) m"
  shows "reads_slots E h (map_option fst \<circ> m)"
proof (cases h)
  case None
  then have "m = Map.empty" using assms(2) by (auto simp: writer_holds_def tree_holds_def opened_def split: option.splits)
  then show ?thesis using None by (auto simp: reads_slots_def)
qed (use assms ForEach_reads in \<open>simp add: reads_slots_def\<close>)

end
