(* ===== verification/Trie_Properties.thy ===== *)
theory Trie_Properties
  imports Trie_Typed Trie_Walk
begin

section \<open>Properties of the state trie\<close>

text \<open>
  What the trie, the encoding of accounts and the sink of account changes guarantee, with the run of a small trie as their
  witness. Keccak256 is a function that yields 32 bytes; the witnesses take the first 32 bytes of the input.
\<close>

subsection \<open>A small trie\<close>

lemma AppendRaw_code [code]:
  "AppendRaw b e = (if 4294967295 - int (length (enc_str e)) > int (length b) then Some (e\<lparr>enc_str := enc_str e @ b\<rparr>) else None)"
  by (simp add: AppendRaw_def)

definition demo_hash :: "bytes \<Rightarrow> bytes" where
  "demo_hash b = take 32 (b @ replicate 32 0)"

definition demo_storage :: trie_env where
  "demo_storage = account_trie_env demo_hash 7 (\<lambda>_ _. None)"

definition demo_main :: trie_env where
  "demo_main = main_trie_env demo_hash (\<lambda>_ _. None)"

definition demo_account :: DbAccount where
  "demo_account = \<lparr>db_Nonce = 3, db_Balance = 1000, db_StorageRootHash = None, db_CodeHash = None, db_CodeSize = 0\<rparr>"

definition demo_change :: "(int \<times> int) list \<Rightarrow> AccountChange" where
  "demo_change dirty = \<lparr>ac_Account = demo_account, StorageDirty = dirty, RawStorageDirty = [], ac_Code = [], CodeDirty = False\<rparr>"

definition demo_mutation :: AccountMutation where
  "demo_mutation = StartMutation\<lparr>mu_acc := demo_account, mu_enc := the (Account_EncodeForTrie demo_hash demo_account)\<rparr>"

fun is_put_node :: "trie_put \<Rightarrow> bool" where
  "is_put_node (PutNode h b) = True"
| "is_put_node (PutValue k v) = False"

lemma one_node_agrees:
  assumes "\<And>h. GetNode d h = None" "length (filter is_put_node puts) \<le> 1"
  shows "nodes_agree d puts"
proof -
  have "b = c" if "PutNode h b \<in> set puts" "PutNode h c \<in> set puts" for h b c
  proof -
    have "PutNode h b \<in> set (filter is_put_node puts)" "PutNode h c \<in> set (filter is_put_node puts)" using that by simp_all
    then show ?thesis using assms(2) by (cases "filter is_put_node puts") auto
  qed
  then show ?thesis using assms(1) by (auto simp: nodes_agree_def)
qed

lemma demo_hash_like [simp]: "hash_like demo_hash"
  by (auto simp: hash_like_def demo_hash_def HashLength_def)

lemma demo_simps [simp]:
  "keccak demo_storage = demo_hash" "storage_schema demo_storage" "GetNode (input demo_storage) h = None"
  "main_schema demo_main" "keccak demo_main = demo_hash" "GetNode (input demo_main) h = None" "account_ok demo_account"
  by (simp_all add: storage_schema_def demo_storage_def account_trie_env_def main_schema_def demo_main_def main_trie_env_def
      AccountTrieInputAdapter_def MainTrieInputAdapter_def account_ok_def demo_account_def)
    (simp_all add: big_Bytes_def nat_bytes.simps)

lemma empty_holds [simp]: "writer_holds X E D (opened None) Map.empty"
  unfolding writer_holds_def by (intro exI [of _ None]) (simp add: tree_holds_def opened_def)

lemma demo_change_ok: "\<forall>(k, v)\<in>set dirty. length (big_Bytes v) < 2 ^ 30 \<Longrightarrow> change_ok None (demo_change dirty)"
  by (simp add: change_ok_def demo_change_def) (simp add: demo_account_def)

lemma demo_bytes: "big_Bytes 5 = [5]" "big_Bytes 700 = [2, 188]"
  by (simp_all add: big_Bytes_def nat_bytes.simps)

lemma demo_agrees:
  "case account_block demo_storage [demo_change [(1, 5), (2, 700)]] of
     None \<Rightarrow> False | Some mu \<Rightarrow> length (filter is_put_node (mu_puts mu)) \<le> 1"
  "case account_block demo_storage [demo_change [(2, 700), (1, 5)]] of
     None \<Rightarrow> False | Some mu \<Rightarrow> length (filter is_put_node (mu_puts mu)) \<le> 1"
  by code_simp+

subsection \<open>Keys\<close>

text \<open>C39: a path of nibbles, with or without the terminator, of at most the length of a key is packed by \<open>hex_to_compact\<close> without
  a panic, into at most 33 bytes, and \<open>compact_to_hex\<close> gives the path back; a key of 32 bytes is recovered from the path that
  \<open>keybytes_to_hex\<close> makes of it.
\<close>

theorem trie_keys_roundtrip:
  assumes "hex_string path" "length path \<le> MaxDepth \<or> length path \<le> HexKeyLen \<and> hasTerm path" "length k = HashLength"
  shows "(\<exists>c. hex_to_compact path = Some c \<and> length c \<le> HexKeyCompactLen \<and> compact_to_hex c = Some path) \<and>
    (\<exists>h. keybytes_to_hex k (replicate HexKeyLen 0) = Some h \<and> hex_to_keybytes h zero_hash = Some k)"
  using compact_roundtrip [OF assms(1,2)] keybytes_to_hex_key [of "replicate HexKeyLen 0" k] hex_to_keybytes_key [of zero_hash k] assms(3)
  by (auto simp: key_lengths zero_hash_def HashLength_def)

theorem trie_keys_roundtrip_witness:
  "(\<exists>c. hex_to_compact [1, 10, 3, 16] = Some c \<and> length c \<le> HexKeyCompactLen \<and> compact_to_hex c = Some [1, 10, 3, 16]) \<and>
   (\<exists>h. keybytes_to_hex (replicate 32 7) (replicate HexKeyLen 0) = Some h \<and> hex_to_keybytes h zero_hash = Some (replicate 32 7))"
  using trie_keys_roundtrip [of "[1, 10, 3, 16]" "replicate 32 7"]
  by (simp add: hex_string_def nibble_def hasTerm_def key_lengths HashLength_def)

subsection \<open>Accounts\<close>

text \<open>C38: \<open>EncodeForTrie\<close> of an account whose nonce and balance are not negative does not panic; \<open>DecodeAccountFromTrie\<close> gives the
  account back from the stored bytes, \<open>StorageRoot\<close> and \<open>CodeHash\<close> read its hashes there, and
  \<open>MainTrieSchema.ValueStorageToHashEncoding\<close> computes from them the very bytes that \<open>EncodeForTrie\<close> gives for the hash.
\<close>

theorem account_encoding_roundtrip:
  assumes "account_ok a" "hash_like K"
  shows "\<exists>s h. Account_EncodeForTrie K a = Some (s, h) \<and> DecodeAccountFromTrie s = Some a \<and> main_value_to_hash K s = Some h \<and>
    StorageRoot s = Some (db_StorageRootHash a) \<and> db_acc_CodeHash s = Some (db_CodeHash a)"
  using EncodeForTrie_eq [OF assms] decode_items [OF assms(1)] hash_encoding_items [OF assms] account_views [OF assms(1)] by simp

theorem account_encoding_roundtrip_witness:
  "\<exists>s h. Account_EncodeForTrie demo_hash demo_account = Some (s, h) \<and> DecodeAccountFromTrie s = Some demo_account \<and>
    main_value_to_hash demo_hash s = Some h \<and> StorageRoot s = Some (db_StorageRootHash demo_account) \<and>
    db_acc_CodeHash s = Some (db_CodeHash demo_account)"
  using account_encoding_roundtrip [of demo_account demo_hash] by simp

subsection \<open>Writes\<close>

text \<open>C36: a trie that holds a map of keys of 32 bytes, with whatever nodes it has in memory and in the database, goes through any
  row of \<open>Put\<close> and \<open>Delete\<close> without a panic and holds the updated map afterwards.
\<close>

theorem trie_writes_refine_map:
  assumes "slots_hold X E s m" "\<forall>(k, x)\<in>set ops. length k = HashLength \<and> (\<forall>v. x = Some v \<longrightarrow> value_ok (X v))"
  shows "\<exists>s'. write_all (slot_put E) (slot_delete E) ops s = Some s' \<and> slots_hold X E s' (updates X ops m)"
  using assms by (rule slots.write_all_holds)

definition demo_ops :: "(bytes, bytes \<times> bytes) slot_write list" where
  "demo_ops = [(replicate 32 1, Some (NewAccStorageTrieValue [5])), (replicate 32 2, Some (NewAccStorageTrieValue [6])), (replicate 32 1, None)]"

lemma demo_ops_ok: "\<forall>(k, x)\<in>set demo_ops. length k = HashLength \<and> (\<forall>v. x = Some v \<longrightarrow> value_ok v)"
  using slot_value_ok by (simp add: demo_ops_def HashLength_def del: split_paired_All)

lemma demo_slots: "slots_hold X demo_storage (opened None, []) Map.empty"
  using storage_schema_ok [of demo_storage] by (simp add: slots_hold_def)

theorem trie_writes_refine_map_witness:
  "\<exists>s'. write_all (slot_put demo_storage) (slot_delete demo_storage) demo_ops (opened None, []) = Some s' \<and>
    slots_hold (\<lambda>v. v) demo_storage s' (updates (\<lambda>v. v) demo_ops Map.empty)"
  using trie_writes_refine_map [OF demo_slots, of demo_ops "\<lambda>v. v"] demo_ops_ok by simp

text \<open>C37: every row of writes keeps the shape of the nodes: from a trie that holds a map, the nodes in memory after the writes, and
  again after the commit, are typed: values below terminated keys of full length only, sixteen children of which at least two
  are there, no short node below a short node, hashes of 32 bytes.\<close>

theorem trie_nodes_typed:
  assumes "slots_hold X E s m" "\<forall>(k, x)\<in>set ops. length k = HashLength \<and> (\<forall>v. x = Some v \<longrightarrow> value_ok (X v))"
    "\<forall>v\<in>ran (updates X ops m). encoded_as E v"
    "\<forall>s' h w ps. write_all (slot_put E) (slot_delete E) ops s = Some s' \<longrightarrow> trie_Commit X E (fst s') = Some (h, w, ps) \<longrightarrow>
       nodes_agree (input E) ps"
  shows "\<exists>s' h w ps. write_all (slot_put E) (slot_delete E) ops s = Some s' \<and> writer_typed (fst s') \<and>
    trie_Commit X E (fst s') = Some (h, w, ps) \<and> writer_typed w"
proof -
  obtain s' where s': "write_all (slot_put E) (slot_delete E) ops s = Some s'" "slots_hold X E s' (updates X ops m)"
    using slots.write_all_holds [OF assms(1,2)] by blast
  then have w: "env_ok E" "writer_holds X E (put_keys (snd s')) (fst s') (updates X ops m)" "only_values (snd s')"
    by (simp_all add: slots_hold_def)
  obtain h w' ps where c: "trie_Commit X E (fst s') = Some (h, w', ps)" using Commit_total [OF w(1,2)] by blast
  then have "writer_holds X (block_env E (snd s' @ ps)) {} w' (updates X ops m)"
    using Commit_holds [OF w assms(3)] assms(4) s'(1) by force
  then have "writer_typed w'" using holds_typed [of "block_env E (snd s' @ ps)"] w(1) by simp
  with s'(1) c holds_typed [OF w(1,2)] show ?thesis by blast
qed

lemma demo_ops_agree:
  "case Option.bind (write_all (slot_put demo_storage) (slot_delete demo_storage) demo_ops (opened None, [])) (\<lambda>s. trie_Commit (\<lambda>v. v) demo_storage (fst s)) of
     None \<Rightarrow> False | Some (h, w, ps) \<Rightarrow> length (filter is_put_node ps) \<le> 1"
  by code_simp

theorem trie_nodes_typed_witness:
  "\<exists>s' h w ps. write_all (slot_put demo_storage) (slot_delete demo_storage) demo_ops (opened None, []) = Some s' \<and> writer_typed (fst s') \<and>
    trie_Commit (\<lambda>v. v) demo_storage (fst s') = Some (h, w, ps) \<and> writer_typed w"
proof (rule trie_nodes_typed [OF demo_slots])
  show "\<forall>(k, x)\<in>set demo_ops. length k = HashLength \<and> (\<forall>v. x = Some v \<longrightarrow> value_ok v)" by (rule demo_ops_ok)
  show "\<forall>v\<in>ran (updates (\<lambda>v. v) demo_ops Map.empty). encoded_as demo_storage v"
    by (auto simp: storage_encoded demo_ops_def NewAccStorageTrieValue_def ran_def split: if_splits)
  show "\<forall>s' h w ps. write_all (slot_put demo_storage) (slot_delete demo_storage) demo_ops (opened None, []) = Some s' \<longrightarrow>
      trie_Commit (\<lambda>v. v) demo_storage (fst s') = Some (h, w, ps) \<longrightarrow> nodes_agree (input demo_storage) ps"
    using demo_ops_agree by (auto intro: one_node_agrees)
qed

text \<open>C35: what a trie has in memory is invisible. Two writers that hold the same map, such as one that kept its nodes from the
  blocks before and one that is opened at the root hash, commit after the same writes to the same root hash: that of
  the reference tree of the updated map.\<close>

theorem trie_cache_invisible:
  assumes "slots_hold X E s m" "slots_hold X E s' m"
    and ops: "\<forall>(k, x)\<in>set ops. length k = HashLength \<and> (\<forall>v. x = Some v \<longrightarrow> value_ok (X v))"
    and kvs: "\<forall>(k, v)\<in>set kvs. length k = HashLength" "map_of kvs = updates X ops m"
  shows "\<exists>s1 s2 w1 w2 ps1 ps2. write_all (slot_put E) (slot_delete E) ops s = Some s1 \<and> write_all (slot_put E) (slot_delete E) ops s' = Some s2 \<and>
    trie_Commit X E (fst s1) = Some (ref_root (keccak E) kvs, w1, ps1) \<and> trie_Commit X E (fst s2) = Some (ref_root (keccak E) kvs, w2, ps2)"
proof -
  obtain s1 s2 where s: "write_all (slot_put E) (slot_delete E) ops s = Some s1" "slots_hold X E s1 (updates X ops m)"
    "write_all (slot_put E) (slot_delete E) ops s' = Some s2" "slots_hold X E s2 (updates X ops m)"
    using slots.write_all_holds [OF assms(1) ops] slots.write_all_holds [OF assms(2) ops] by blast
  have "\<exists>w ps. trie_Commit X E (fst r) = Some (ref_root (keccak E) kvs, w, ps)" if r: "slots_hold X E r (updates X ops m)" for r
  proof -
    obtain t where t: "tree_holds X E (put_keys (snd r)) (fst r) t" "updates X ops m = map_of_tree t"
      using r by (auto simp: slots_hold_def writer_holds_tree)
    then show ?thesis using Commit_hash [OF slots_hold_env [OF r] t(1)] ref_root_tree [OF tree_holds_ok [OF t(1)] kvs(1), of "keccak E"] kvs(2) by simp
  qed
  then show ?thesis using s by blast
qed

theorem trie_cache_invisible_witness:
  "\<exists>s1 s2 w1 w2 ps1 ps2. write_all (slot_put demo_storage) (slot_delete demo_storage) demo_ops (opened None, []) = Some s1 \<and>
    write_all (slot_put demo_storage) (slot_delete demo_storage) demo_ops (\<lparr>root = None, FullNodeLevelsToCache = 3\<rparr>, []) = Some s2 \<and>
    trie_Commit (\<lambda>v. v) demo_storage (fst s1) = Some (ref_root demo_hash [(replicate 32 2, NewAccStorageTrieValue [6])], w1, ps1) \<and>
    trie_Commit (\<lambda>v. v) demo_storage (fst s2) = Some (ref_root demo_hash [(replicate 32 2, NewAccStorageTrieValue [6])], w2, ps2)"
proof -
  have "replicate 32 (1 :: byte) \<noteq> replicate 32 2" by (simp add: numeral_eq_Suc)
  then have "map_of [(replicate 32 2, NewAccStorageTrieValue [6])] = updates (\<lambda>v. v) demo_ops Map.empty"
    by (auto simp: demo_ops_def fun_eq_iff)
  moreover have "slots_hold (\<lambda>v. v) demo_storage (\<lparr>root = None, FullNodeLevelsToCache = 3\<rparr>, []) Map.empty"
    using demo_slots [of "\<lambda>v. v"] by (simp add: slots_hold_def writer_holds_def tree_holds_def opened_def)
  ultimately show ?thesis
    using trie_cache_invisible [OF demo_slots _ demo_ops_ok, of "(\<lparr>root = None, FullNodeLevelsToCache = 3\<rparr>, [])"
        "[(replicate 32 2, NewAccStorageTrieValue [6])]"]
    by (simp add: HashLength_def del: split_paired_Ex)
qed

subsection \<open>A block of changes\<close>

text \<open>C4: the mutation of an account goes through the changes of a block and the commit without a panic. The account that it
  encodes for the main trie is the last one given, with the root hash of the reference tree of its storage, and once
  the batch of the block is written, a trie opened at that root holds exactly the storage after the block: walking it
  calls back once for each of its slots, with the bytes stored there.\<close>

theorem account_storage_root:
  assumes "storage_schema E" "writer_holds (\<lambda>v. v) E {} (opened h) m" "\<forall>v\<in>ran m. snd v = ToRLPStringSimple (fst v)"
    and "upds \<noteq> []" "\<forall>upd\<in>set upds. change_ok h upd"
    and "\<forall>mu. account_block E upds = Some mu \<longrightarrow> nodes_agree (input E) (mu_puts mu)"
    and kvs: "\<forall>(k, v)\<in>set kvs. length k = HashLength" "map_of kvs = updates (\<lambda>v. v) (block_writes (keccak E) upds) m"
  shows "\<exists>mu. account_block E upds = Some mu \<and>
    mu_acc mu = (ac_Account (last upds))\<lparr>db_StorageRootHash := ref_root (keccak E) kvs\<rparr> \<and>
    Account_EncodeForTrie (keccak E) (mu_acc mu) = Some (mu_enc mu) \<and>
    writer_holds (\<lambda>v. v) (block_env E (mu_puts mu)) {} (opened (ref_root (keccak E) kvs)) (map_of kvs) \<and>
    reads_slots (block_env E (mu_puts mu)) (ref_root (keccak E) kvs) (map_option fst \<circ> map_of kvs)"
proof -
  obtain mu where mu: "account_block E upds = Some mu" "account_done E (ac_Account (last upds)) (map_of kvs) mu"
    using account_block_done [OF assms(1-5)] assms(6) kvs(2) by auto
  then have "writer_holds (\<lambda>v. v) (block_env E (mu_puts mu)) {} (opened (db_StorageRootHash (mu_acc mu))) (map_of kvs)"
    by (simp add: account_done_def)
  from opened_root [OF this kvs(1) refl] have "db_StorageRootHash (mu_acc mu) = ref_root (keccak E) kvs" by simp
  with mu show ?thesis
    using holds_reads_slots [of "block_env E (mu_puts mu)"] storage_schema_ok [OF assms(1)] by (auto simp: account_done_def)
qed

definition demo_slots_after :: "(bytes \<times> trie_value) list" where
  "demo_slots_after = [(demo_hash (BigConv_ToHash 2), NewAccStorageTrieValue (big_Bytes 700)), (demo_hash (BigConv_ToHash 1), NewAccStorageTrieValue (big_Bytes 5))]"

lemma demo_slots_after_ok: "\<forall>(k, v)\<in>set demo_slots_after. length k = HashLength"
  using demo_hash_like by (simp add: demo_slots_after_def hash_like_def)

lemma demo_block_writes: "updates (\<lambda>v. v) (block_writes demo_hash [demo_change [(1, 5), (2, 700)]]) Map.empty = map_of demo_slots_after"
  by (simp add: block_writes_def change_writes_def storage_writes_def raw_storage_writes_def demo_change_def demo_slots_after_def)

lemma demo_changes_ok: "change_ok None (demo_change [(1, 5), (2, 700)])" "change_ok None (demo_change [(2, 700), (1, 5)])"
  by (rule demo_change_ok; simp add: demo_bytes)+

theorem account_storage_root_witness:
  "\<exists>mu. account_block demo_storage [demo_change [(1, 5), (2, 700)]] = Some mu \<and>
    mu_acc mu = (ac_Account (last [demo_change [(1, 5), (2, 700)]]))\<lparr>db_StorageRootHash := ref_root (keccak demo_storage) demo_slots_after\<rparr> \<and>
    Account_EncodeForTrie (keccak demo_storage) (mu_acc mu) = Some (mu_enc mu) \<and>
    writer_holds (\<lambda>v. v) (block_env demo_storage (mu_puts mu)) {} (opened (ref_root (keccak demo_storage) demo_slots_after)) (map_of demo_slots_after) \<and>
    reads_slots (block_env demo_storage (mu_puts mu)) (ref_root (keccak demo_storage) demo_slots_after) (map_option fst \<circ> map_of demo_slots_after)"
proof (rule account_storage_root [where h = None and m = Map.empty])
  show "\<forall>mu. account_block demo_storage [demo_change [(1, 5), (2, 700)]] = Some mu \<longrightarrow> nodes_agree (input demo_storage) (mu_puts mu)"
    using demo_agrees(1) by (auto intro: one_node_agrees)
qed (use demo_slots_after_ok demo_block_writes demo_changes_ok in simp_all)

definition reordered :: "(bytes \<Rightarrow> bytes) \<Rightarrow> AccountChange \<Rightarrow> AccountChange \<Rightarrow> bool" where
  "reordered K u u' \<longleftrightarrow> ac_Account u' = ac_Account u \<and>
     mset (StorageDirty u') = mset (StorageDirty u) \<and> mset (RawStorageDirty u') = mset (RawStorageDirty u) \<and>
     distinct (map fst (storage_writes K (StorageDirty u))) \<and> distinct (map fst (raw_storage_writes K (RawStorageDirty u)))"

lemma reordered_updates:
  assumes "reordered K u u'"
  shows "updates enc (change_writes K u) m = updates enc (change_writes K u') m"
proof -
  have "mset (storage_writes K (StorageDirty u)) = mset (storage_writes K (StorageDirty u'))"
    "mset (raw_storage_writes K (RawStorageDirty u)) = mset (raw_storage_writes K (RawStorageDirty u'))"
    using assms by (simp_all add: reordered_def storage_writes_def raw_storage_writes_def)
  then show ?thesis using assms
    updates_order [of "storage_writes K (StorageDirty u)" "storage_writes K (StorageDirty u')" enc]
    updates_order [of "raw_storage_writes K (RawStorageDirty u)" "raw_storage_writes K (RawStorageDirty u')" enc]
    by (simp add: reordered_def change_writes_def)
qed

lemma reordered_blocks:
  "list_all2 (reordered K) us us' \<Longrightarrow> updates enc (block_writes K us) m = updates enc (block_writes K us') m"
proof (induction arbitrary: m rule: list_all2_induct)
  case (Cons u us u' us')
  then show ?case using reordered_updates [OF Cons.hyps(1), of enc m] by (simp add: block_writes_def)
qed (simp add: block_writes_def)

text \<open>C5: the order in which Go iterates over the maps of changed slots does not matter: mutations that are given the same changes
  with the slots in another order, where no two slots have the same hashed key, end with the same account and the same
  encodings for the main trie.\<close>

theorem slot_order_irrelevant:
  assumes E: "storage_schema E" and m: "writer_holds (\<lambda>v. v) E {} (opened h) m" "\<forall>v\<in>ran m. snd v = ToRLPStringSimple (fst v)"
    and us: "us \<noteq> []" "\<forall>upd\<in>set us \<union> set us'. change_ok h upd" "list_all2 (reordered (keccak E)) us us'"
    and agree: "\<forall>mu. account_block E us = Some mu \<or> account_block E us' = Some mu \<longrightarrow> nodes_agree (input E) (mu_puts mu)"
  shows "\<exists>mu mu'. account_block E us = Some mu \<and> account_block E us' = Some mu' \<and> mu_acc mu' = mu_acc mu \<and> mu_enc mu' = mu_enc mu"
proof -
  let ?m = "updates (\<lambda>v. v) (block_writes (keccak E) us) m"
  have l1: "us' \<noteq> []" using us(1,3) by auto
  have "reordered (keccak E) (last us) (last us')"
    using list_all2_nthD [OF us(3), of "length us - 1"] list_all2_lengthD [OF us(3)] us(1) l1 by (simp add: last_conv_nth)
  then have l: "us' \<noteq> []" "ac_Account (last us') = ac_Account (last us)" using l1 by (simp_all add: reordered_def)
  have u1: "\<forall>upd\<in>set us. change_ok h upd" "\<forall>upd\<in>set us'. change_ok h upd" using us(2) by auto
  obtain mu where mu: "account_block E us = Some mu" "account_done E (ac_Account (last us)) ?m mu"
    using account_block_done [OF E m us(1) u1(1)] agree by auto
  obtain mu' where mu': "account_block E us' = Some mu'" "account_done E (ac_Account (last us)) ?m mu'"
    using account_block_done [OF E m l(1) u1(2)] agree l(2) reordered_blocks [OF us(3), of "\<lambda>v. v" m] by auto
  have "db_StorageRootHash (mu_acc mu') = db_StorageRootHash (mu_acc mu)"
  proof (rule opened_same)
    show "writer_holds (\<lambda>v. v) (block_env E (mu_puts mu)) {} (opened (db_StorageRootHash (mu_acc mu))) ?m"
      "writer_holds (\<lambda>v. v) (block_env E (mu_puts mu')) {} (opened (db_StorageRootHash (mu_acc mu'))) ?m"
      using mu(2) mu'(2) by (simp_all add: account_done_def)
  qed (use storage_schema_ok [OF E] in simp_all)
  then have "mu_acc mu' = mu_acc mu" using mu(2) mu'(2) unfolding account_done_def by metis
  then show ?thesis using mu mu' by (auto simp: account_done_def)
qed

lemma demo_keys: "demo_hash (BigConv_ToHash 1) \<noteq> demo_hash (BigConv_ToHash 2)"
  by code_simp

theorem slot_order_irrelevant_witness:
  "\<exists>mu mu'. account_block demo_storage [demo_change [(1, 5), (2, 700)]] = Some mu \<and>
    account_block demo_storage [demo_change [(2, 700), (1, 5)]] = Some mu' \<and> mu_acc mu' = mu_acc mu \<and> mu_enc mu' = mu_enc mu"
proof (rule slot_order_irrelevant [where h = None and m = Map.empty])
  show "\<forall>mu. account_block demo_storage [demo_change [(1, 5), (2, 700)]] = Some mu \<or>
      account_block demo_storage [demo_change [(2, 700), (1, 5)]] = Some mu \<longrightarrow> nodes_agree (input demo_storage) (mu_puts mu)"
    using demo_agrees by (auto intro: one_node_agrees)
  show "list_all2 (reordered (keccak demo_storage)) [demo_change [(1, 5), (2, 700)]] [demo_change [(2, 700), (1, 5)]]"
    using demo_keys by (simp add: reordered_def demo_change_def storage_writes_def raw_storage_writes_def)
qed (use demo_changes_ok in simp_all)

text \<open>C3: a block of account updates and deletions goes through the main trie without a panic, and the state root that the sink
  returns is the root hash of the reference tree of all accounts after the block (the hash of the empty trie when there
  are none); once the batch is written, the trie that is kept in memory for the next block holds those accounts.\<close>

theorem state_root_is_reference:
  assumes "main_schema E" "slots_hold mu_enc E s m" "\<forall>v\<in>ran m. account_value (keccak E) v"
    and "\<forall>(addr, x)\<in>set calls. \<forall>mu. x = Some mu \<longrightarrow> account_value (keccak E) (mu_enc mu)"
    and agree: "\<forall>s1 root s2. sink_writes E calls s = Some s1 \<longrightarrow> sink_Commit E s1 = Some (root, s2) \<longrightarrow> nodes_agree (input E) (snd s2)"
    and "\<forall>(k, v)\<in>set kvs. length k = HashLength" "map_of kvs = updates mu_enc (hashed_calls (keccak E) calls) m"
  shows "\<exists>s1 s2. sink_writes E calls s = Some s1 \<and> sink_Commit E s1 = Some (state_root_of (keccak E) kvs, s2) \<and>
    slots_hold mu_enc (block_env E (snd s2)) (fst s2, []) (map_of kvs)"
  by (rule sink_block_done [OF assms(1-4) _ assms(6,7)]) (use agree in blast)

lemma demo_account_value: "account_value demo_hash (mu_enc demo_mutation)"
  using EncodeForTrie_eq [of demo_account demo_hash]
  by (auto simp: account_value_def demo_mutation_def intro!: exI [of _ demo_account])

lemma demo_sink_agrees:
  "case Option.bind (sink_writes demo_main [(5, Some demo_mutation), (6, None)] (opened None, [])) (sink_Commit demo_main) of
     None \<Rightarrow> False | Some (r, s) \<Rightarrow> length (filter is_put_node (snd s)) \<le> 1"
  by code_simp

theorem state_root_is_reference_witness:
  "\<exists>s1 s2. sink_writes demo_main [(5, Some demo_mutation), (6, None)] (opened None, []) = Some s1 \<and>
    sink_Commit demo_main s1 = Some (state_root_of (keccak demo_main) [(demo_hash (address_Bytes 5), mu_enc demo_mutation)], s2) \<and>
    slots_hold mu_enc (block_env demo_main (snd s2)) (fst s2, []) (map_of [(demo_hash (address_Bytes 5), mu_enc demo_mutation)])"
proof (rule state_root_is_reference [where m = Map.empty])
  show "\<forall>s1 root s2. sink_writes demo_main [(5, Some demo_mutation), (6, None)] (opened None, []) = Some s1 \<longrightarrow>
      sink_Commit demo_main s1 = Some (root, s2) \<longrightarrow> nodes_agree (input demo_main) (snd s2)"
    using demo_sink_agrees by (auto intro: one_node_agrees)
  have "demo_hash (address_Bytes 5) \<noteq> demo_hash (address_Bytes 6)" by code_simp
  then show "map_of [(demo_hash (address_Bytes 5), mu_enc demo_mutation)] =
      updates mu_enc (hashed_calls (keccak demo_main) [(5, Some demo_mutation), (6, None)]) Map.empty"
    by (auto simp: hashed_calls_def fun_eq_iff)
  show "slots_hold mu_enc demo_main (opened None, []) Map.empty" using main_schema_ok [of demo_main] by (simp add: slots_hold_def)
qed (use demo_account_value demo_hash_like in \<open>simp_all add: hash_like_def\<close>)

end
