(* ===== verification/Versioned_Db.thy ===== *)
theory Versioned_Db
  imports State_Db Chain_Config
begin

section \<open>The versioned database\<close>

text \<open>
  \<open>src/taraxa/state/state_db_rocksdb\<close>: \<open>latest_state.go\<close>, \<open>misc.go\<close> and \<open>block_state_reader\<close> of \<open>db.go\<close>. Values of the tries are
  stored under their key and the number of the block that put them, so that the state after every block can be read;
  code and nodes are stored under their hash. RocksDB is a parameter: \<open>rocks_ok\<close> says what is documented of a column family
  (bytes under keys, ordered byte by byte, and the position that \<open>SeekForPrev\<close> finds). Iterators are kept in pools that a
  commit invalidates; a read sees the state of the last commit here.
\<close>

subsection \<open>Column families\<close>

record 'c rocks =
  rk_put :: "bytes \<Rightarrow> bytes \<Rightarrow> 'c \<Rightarrow> 'c"
  rk_get :: "bytes \<Rightarrow> 'c \<Rightarrow> bytes option"
  rk_seek_for_prev :: "bytes \<Rightarrow> 'c \<Rightarrow> (bytes \<times> bytes) option"

fun key_le :: "bytes \<Rightarrow> bytes \<Rightarrow> bool" where
  "key_le [] b = True"
| "key_le (x # a) [] = False"
| "key_le (x # a) (y # b) = (x < y \<or> x = y \<and> key_le a b)"

definition rocks_ok :: "'c rocks \<Rightarrow> bool" where
  "rocks_ok R \<longleftrightarrow>
     (\<forall>k v l c. rk_get R l (rk_put R k v c) = (if l = k then Some v else rk_get R l c)) \<and>
     (\<forall>k l v c. rk_seek_for_prev R k c = Some (l, v) \<longrightarrow>
        rk_get R l c = Some v \<and> key_le l k \<and> (\<forall>l'. rk_get R l' c \<noteq> None \<longrightarrow> key_le l' k \<longrightarrow> key_le l' l)) \<and>
     (\<forall>k c. rk_seek_for_prev R k c = None \<longrightarrow> (\<forall>l. rk_get R l c \<noteq> None \<longrightarrow> \<not> key_le l k))"

subsection \<open>The latest state\<close>

datatype db_col = DCol Column | col_main_trie_value_latest | col_acc_trie_value_latest

text \<open>\<open>VersionedKey\<close>: \<open>SetKey\<close> copies the hash to the front, \<open>SetVersion\<close> the block number, the highest byte first, behind it.\<close>

definition VersionedKey :: "bytes \<Rightarrow> block_num \<Rightarrow> bytes" where
  "VersionedKey k n = k @ be_encode 8 n"

record 'c LatestState =
  ls_cfs :: "db_col \<Rightarrow> 'c"
  ls_batch :: "(db_col \<times> bytes \<times> bytes) list"
  ls_BlockNum :: block_num
  ls_StateRoot :: bytes
  ls_pending :: block_num
  ls_views_disabled :: bool

definition versioned_column :: "db_col \<Rightarrow> bool" where
  "versioned_column col \<longleftrightarrow> col = DCol COL_acc_trie_value \<or> col = DCol COL_main_trie_value"

definition nonempty_data :: "bytes option \<Rightarrow> bytes option" where
  "nonempty_data v = (case v of None \<Rightarrow> None | Some b \<Rightarrow> if length b \<noteq> 0 then Some b else None)"

definition block_state_reader_Get :: "'c rocks \<Rightarrow> (db_col \<Rightarrow> 'c) \<Rightarrow> block_num \<Rightarrow> db_col \<Rightarrow> bytes \<Rightarrow> bytes option" where
  "block_state_reader_Get R cfs blk_n col k =
     (if blk_n = BlockNumberNIL then None
      else if versioned_column col then
        (case rk_seek_for_prev R (VersionedKey k blk_n) (cfs col) of
           None \<Rightarrow> None
         | Some (key, v) \<Rightarrow> if take (length k) key = k then nonempty_data (Some v) else None)
      else nonempty_data (rk_get R k (cfs col)))"

text \<open>\<open>state_db.GetBlockStateReader\<close> panics for a block that is not committed yet.\<close>

definition GetBlockStateReader :: "'c rocks \<Rightarrow> 'c LatestState \<Rightarrow> block_num \<Rightarrow> (Column \<Rightarrow> bytes \<Rightarrow> bytes option) option" where
  "GetBlockStateReader R ls blk_n =
     (if ls_BlockNum ls < blk_n then None else Some (\<lambda>col k. block_state_reader_Get R (ls_cfs ls) blk_n (DCol col) k))"

definition BeginPendingBlock :: "'c LatestState \<Rightarrow> 'c LatestState" where
  "BeginPendingBlock ls = ls\<lparr>ls_pending := ls_pending ls + 1\<rparr>"

definition PendingBlockState_Get :: "'c rocks \<Rightarrow> 'c LatestState \<Rightarrow> Column \<Rightarrow> bytes \<Rightarrow> bytes option" where
  "PendingBlockState_Get R ls col k =
     (let c = (if \<not> ls_views_disabled ls then
                 if col = COL_acc_trie_value then col_acc_trie_value_latest
                 else if col = COL_main_trie_value then col_main_trie_value_latest else DCol col
               else DCol col)
      in block_state_reader_Get R (ls_cfs ls) (ls_BlockNum ls) c k)"

definition PendingBlockState_Put :: "Column \<Rightarrow> bytes \<Rightarrow> bytes \<Rightarrow> 'c LatestState \<Rightarrow> 'c LatestState" where
  "PendingBlockState_Put col k v ls =
     ls\<lparr>ls_batch := ls_batch ls @
       (if col \<noteq> COL_acc_trie_value \<and> col \<noteq> COL_main_trie_value then [(DCol col, k, v)]
        else (DCol col, VersionedKey k (ls_pending ls), v) #
          (if ls_views_disabled ls then []
           else if col = COL_acc_trie_value then [(col_acc_trie_value_latest, k, v)]
           else [(col_main_trie_value_latest, k, v)]))\<rparr>"

definition write_cf :: "'c rocks \<Rightarrow> (db_col \<Rightarrow> 'c) \<Rightarrow> db_col \<times> bytes \<times> bytes \<Rightarrow> db_col \<Rightarrow> 'c" where
  "write_cf R cfs p = (case p of (col, k, v) \<Rightarrow> cfs(col := rk_put R k v (cfs col)))"

definition LatestState_Commit :: "'c rocks \<Rightarrow> bytes \<Rightarrow> 'c LatestState \<Rightarrow> 'c LatestState" where
  "LatestState_Commit R state_root ls =
     ls\<lparr>ls_cfs := foldl (write_cf R) (ls_cfs ls) (ls_batch ls), ls_BlockNum := ls_pending ls, ls_StateRoot := state_root,
        ls_batch := []\<rparr>"

subsection \<open>Blocks\<close>

type_synonym block_puts = "(Column \<times> bytes \<times> bytes) list"

definition write_block :: "'c rocks \<Rightarrow> bytes \<times> block_puts \<Rightarrow> 'c LatestState \<Rightarrow> 'c LatestState" where
  "write_block R b ls =
     LatestState_Commit R (fst b) (foldl (\<lambda>s (col, k, v). PendingBlockState_Put col k v s) (BeginPendingBlock ls) (snd b))"

text \<open>What a plain store has after a row of puts.\<close>

definition plain_store :: "block_puts \<Rightarrow> Column \<Rightarrow> bytes \<Rightarrow> bytes option" where
  "plain_store puts col k = nonempty_data (map_of (rev (map (\<lambda>(c, l, v). ((c, l), v)) puts)) (col, k))"

definition fresh_db :: "'c rocks \<Rightarrow> 'c LatestState \<Rightarrow> bool" where
  "fresh_db R ls \<longleftrightarrow> (\<forall>col k. rk_get R k (ls_cfs ls col) = None) \<and> ls_batch ls = [] \<and>
     ls_BlockNum ls = BlockNumberNIL \<and> ls_pending ls = BlockNumberNIL"

subsection \<open>The order of versions\<close>

lemma key_le_refl: "key_le a a"
  by (induction a) auto

lemma key_le_antisym: "key_le a b \<Longrightarrow> key_le b a \<Longrightarrow> a = b"
  by (induction a b rule: key_le.induct) (auto elim: key_le.elims)

lemma key_le_append:
  "length k = length k' \<Longrightarrow> key_le (k @ a) (k' @ b) \<longleftrightarrow> (k \<noteq> k' \<and> key_le k k') \<or> (k = k' \<and> key_le a b)"
proof (induction k k' rule: list_induct2)
  case (Cons x xs y ys)
  then show ?case by (cases "x = y") auto
qed simp

lemma split_le: "r < m \<Longrightarrow> s < m \<Longrightarrow> a * m + r \<le> b * m + s \<longleftrightarrow> a < b \<or> a = b \<and> r \<le> (s::nat)"
proof (cases "a < b")
  case True
  assume "r < m"
  have "Suc a * m \<le> b * m" using True by (intro mult_right_mono) auto
  then show ?thesis using True \<open>r < m\<close> by simp
next
  case False
  assume "s < m"
  show ?thesis
  proof (cases "a = b")
    case True
    then show ?thesis by simp
  next
    case n: False
    then have "Suc b * m \<le> a * m" using False by (intro mult_right_mono) auto
    then show ?thesis using False n \<open>s < m\<close> by simp
  qed
qed

lemma be_encode_le: "key_le (be_encode n (v :: u64)) (be_encode n w) \<longleftrightarrow> unat v mod 2 ^ (8 * n) \<le> unat (w :: u64) mod 2 ^ (8 * n)"
proof (induction n)
  case 0
  then show ?case by (simp add: be_encode_def)
next
  case (Suc n)
  let ?m = "2 ^ (8 * n) :: nat"
  have byte: "unat (ucast (drop_bit (8 * n) u) :: byte) = unat u div ?m mod 256" for u :: u64
    using unat_bound [of u] by (simp add: unsigned_ucast_eq unsigned_drop_bit_eq take_bit_eq_mod drop_bit_eq_div [where 'a = nat])
  have sp: "unat u mod 2 ^ (8 * Suc n) = (unat u div ?m mod 256) * ?m + unat u mod ?m" for u :: u64
    using mod_mult2_eq [of "unat u" ?m 256] by (simp add: power_add mult.commute)
  show ?case
    unfolding be_encode_Suc key_le.simps Suc word_less_nat_alt word_unat_eq_iff byte sp
    by (subst split_le) auto
qed

lemma version_le: "key_le (be_encode 8 v) (be_encode 8 w) \<longleftrightarrow> v \<le> (w :: u64)"
  using be_encode_le [of 8 v w] unat_bound [of v] unat_bound [of w] by (simp add: word_le_nat_alt)

lemma VersionedKey_le:
  "length k = length k' \<Longrightarrow> key_le (VersionedKey k n) (VersionedKey k' n') \<longleftrightarrow> (k \<noteq> k' \<and> key_le k k') \<or> (k = k' \<and> n \<le> n')"
  by (simp add: VersionedKey_def key_le_append version_le)

subsection \<open>What a commit writes\<close>

definition last_put :: "('c \<times> bytes \<times> bytes) list \<Rightarrow> 'c \<Rightarrow> bytes \<Rightarrow> bytes option" where
  "last_put puts col k = map_of (rev (map (\<lambda>(c, l, v). ((c, l), v)) puts)) (col, k)"

lemma last_put_simps [simp]: "last_put [] col k = None"
  by (simp add: last_put_def)

lemma last_put_append:
  "last_put (a @ b) col k = (case last_put b col k of None \<Rightarrow> last_put a col k | Some v \<Rightarrow> Some v)"
  by (simp add: last_put_def map_add_def split: option.split)

lemma last_put_single: "last_put [(c, l, v)] col k = (if c = col \<and> l = k then Some v else None)"
  by (auto simp: last_put_def)

lemma plain_store_last: "plain_store puts col k = nonempty_data (last_put puts col k)"
  by (simp add: plain_store_def last_put_def)

lemma write_cfs:
  assumes "rocks_ok R"
  shows "rk_get R k (foldl (write_cf R) cfs ps col) = (case last_put ps col k of None \<Rightarrow> rk_get R k (cfs col) | Some v \<Rightarrow> Some v)"
proof (induction ps rule: rev_induct)
  case (snoc p ps)
  obtain c l v where p: "p = (c, l, v)" by (cases p)
  have "rk_get R k (rk_put R l v d) = (if k = l then Some v else rk_get R k d)" for d using assms by (simp add: rocks_ok_def)
  then show ?case using snoc p by (auto simp: write_cf_def last_put_append last_put_single)
qed simp

definition batch_of :: "bool \<Rightarrow> block_num \<Rightarrow> Column \<times> bytes \<times> bytes \<Rightarrow> (db_col \<times> bytes \<times> bytes) list" where
  "batch_of off n p = (case p of (col, k, v) \<Rightarrow>
     (if col \<noteq> COL_acc_trie_value \<and> col \<noteq> COL_main_trie_value then [(DCol col, k, v)]
      else (DCol col, VersionedKey k n, v) #
        (if off then [] else if col = COL_acc_trie_value then [(col_acc_trie_value_latest, k, v)]
         else [(col_main_trie_value_latest, k, v)])))"

lemma put_batch:
  "foldl (\<lambda>s (col, k, v). PendingBlockState_Put col k v s) ls puts =
     ls\<lparr>ls_batch := ls_batch ls @ concat (map (batch_of (ls_views_disabled ls) (ls_pending ls)) puts)\<rparr>"
proof (induction puts arbitrary: ls)
  case (Cons p puts)
  obtain c k v where p: "p = (c, k, v)" by (cases p)
  then show ?case using Cons [of "PendingBlockState_Put c k v ls"] by (simp add: PendingBlockState_Put_def batch_of_def)
qed simp

definition trie_values :: "Column \<Rightarrow> bool" where
  "trie_values c \<longleftrightarrow> c = COL_acc_trie_value \<or> c = COL_main_trie_value"

definition latest_col :: "Column \<Rightarrow> db_col" where
  "latest_col c = (if c = COL_acc_trie_value then col_acc_trie_value_latest else col_main_trie_value_latest)"

lemma VersionedKey_inject: "length k = length l \<Longrightarrow> VersionedKey k n = VersionedKey l i \<longleftrightarrow> k = l \<and> n = i"
  using version_le [of n i] version_le [of i n] key_le_refl by (auto simp: VersionedKey_def)

lemma one_batch:
  "last_put (batch_of off n (d, l, v)) (DCol c) key = (if d = c \<and> key = (if trie_values c then VersionedKey l n else l) then Some v else None)"
  "trie_values c \<Longrightarrow> last_put (batch_of off n (d, l, v)) (latest_col c) key = (if d = c \<and> \<not> off \<and> key = l then Some v else None)"
  by (cases d; simp add: batch_of_def last_put_def trie_values_def latest_col_def; auto)+

lemma batches_snoc:
  "last_put (concat (map (batch_of off n) (puts @ [(d, l, v)]))) col key =
     (case last_put (batch_of off n (d, l, v)) col key of None \<Rightarrow> last_put (concat (map (batch_of off n) puts)) col key | Some u \<Rightarrow> Some u)"
  "last_put (puts @ [(d, l, v)]) c k = (if d = c \<and> k = l then Some v else last_put puts c k)"
  by (simp_all add: last_put_append last_put_single)

lemma batch_plain:
  assumes "\<not> trie_values c"
  shows "last_put (concat (map (batch_of off n) puts)) (DCol c) k = last_put puts c k"
proof (induction puts rule: rev_induct)
  case (snoc p puts)
  obtain d l v where p: "p = (d, l, v)" by (cases p)
  show ?case using snoc assms unfolding p batches_snoc one_batch(1) by simp
qed simp

lemma batch_latest:
  assumes "trie_values c" "\<not> off"
  shows "last_put (concat (map (batch_of off n) puts)) (latest_col c) k = last_put puts c k"
proof (induction puts rule: rev_induct)
  case (snoc p puts)
  obtain d l v where p: "p = (d, l, v)" by (cases p)
  show ?case using snoc assms(2) unfolding p batches_snoc one_batch(2) [OF assms(1)] by simp
qed simp

lemma batch_version:
  assumes "trie_values c" "\<forall>(c, l, v)\<in>set puts. length l = HashLength"
  shows "last_put (concat (map (batch_of off n) puts)) (DCol c) key =
    (if \<exists>k. length k = HashLength \<and> key = VersionedKey k n then last_put puts c (take HashLength key) else None)"
  using assms(2)
proof (induction puts rule: rev_induct)
  case (snoc p puts)
  obtain d l v where p: "p = (d, l, v)" by (cases p)
  have l: "length l = HashLength" using snoc.prems p by simp
  then have "key = VersionedKey l n \<longleftrightarrow> (\<exists>k. length k = HashLength \<and> key = VersionedKey k n) \<and> take HashLength key = l"
    by (auto simp: VersionedKey_def)
  moreover have "last_put (concat (map (batch_of off n) puts)) (DCol c) key =
      (if \<exists>k. length k = HashLength \<and> key = VersionedKey k n then last_put puts c (take HashLength key) else None)"
    using snoc by simp
  ultimately show ?case using assms(1) unfolding p batches_snoc one_batch(1)
    by (cases "\<exists>k. length k = HashLength \<and> key = VersionedKey k n") auto
qed simp

subsection \<open>The database after a row of blocks\<close>

definition all_puts :: "(bytes \<times> block_puts) list \<Rightarrow> block_puts" where
  "all_puts blocks = concat (map snd blocks)"

definition db_has :: "'c rocks \<Rightarrow> (bytes \<times> block_puts) list \<Rightarrow> 'c LatestState \<Rightarrow> bool" where
  "db_has R blocks ls \<longleftrightarrow>
     ls_batch ls = [] \<and> ls_BlockNum ls = of_nat (length blocks) - 1 \<and> ls_pending ls = of_nat (length blocks) - 1 \<and>
     (\<forall>c k. \<not> trie_values c \<longrightarrow> rk_get R k (ls_cfs ls (DCol c)) = last_put (all_puts blocks) c k) \<and>
     (\<forall>c k. trie_values c \<longrightarrow> \<not> ls_views_disabled ls \<longrightarrow> rk_get R k (ls_cfs ls (latest_col c)) = last_put (all_puts blocks) c k) \<and>
     (\<forall>c k i. trie_values c \<longrightarrow> length k = HashLength \<longrightarrow> i < length blocks \<longrightarrow>
        rk_get R (VersionedKey k (of_nat i)) (ls_cfs ls (DCol c)) = last_put (snd (blocks ! i)) c k) \<and>
     (\<forall>c key. trie_values c \<longrightarrow> rk_get R key (ls_cfs ls (DCol c)) \<noteq> None \<longrightarrow>
        (\<exists>k i. length k = HashLength \<and> i < length blocks \<and> key = VersionedKey k (of_nat i)))"

definition blocks_ok :: "(bytes \<times> block_puts) list \<Rightarrow> bool" where
  "blocks_ok blocks \<longleftrightarrow> length blocks < 2 ^ 64 \<and> (\<forall>b\<in>set blocks. \<forall>(c, l, v)\<in>set (snd b). length l = HashLength)"

lemma fresh_has: "fresh_db R ls \<Longrightarrow> db_has R [] ls"
  by (simp add: fresh_db_def db_has_def all_puts_def BlockNumberNIL_def)

lemma unat_block: "i < 2 ^ 64 \<Longrightarrow> unat (of_nat i :: u64) = i"
  by (rule unat_of_nat_small) simp

lemma word_of_nat_eq: "i < 2 ^ 64 \<Longrightarrow> j < 2 ^ 64 \<Longrightarrow> (of_nat i :: u64) = of_nat j \<longleftrightarrow> i = j"
  by (simp add: word_unat_eq_iff unat_block)

lemma word_of_nat_le: "i < 2 ^ 64 \<Longrightarrow> j < 2 ^ 64 \<Longrightarrow> (of_nat i :: u64) \<le> of_nat j \<longleftrightarrow> i \<le> j"
  by (simp add: word_le_nat_alt unat_block)

lemma block_not_nil: "n < 2 ^ 64 - 1 \<Longrightarrow> (of_nat n :: block_num) \<noteq> BlockNumberNIL"
proof
  assume n: "n < 2 ^ 64 - 1" and "(of_nat n :: block_num) = BlockNumberNIL"
  then have "(of_nat (Suc n) :: block_num) = 0" by (simp add: BlockNumberNIL_def)
  then show False using n unat_block [of "Suc n"] by simp
qed

lemma block_has:
  assumes R: "rocks_ok R" and d: "db_has R blocks ls" and b: "blocks_ok (blocks @ [b])"
  shows "db_has R (blocks @ [b]) (write_block R b ls)"
proof -
  let ?n = "of_nat (length blocks) :: block_num" and ?off = "ls_views_disabled ls" and ?ls = "write_block R b ls"
  let ?batch = "concat (map (batch_of ?off ?n) (snd b))"
  have num: "ls_pending ls + 1 = ?n" "ls_batch ls = []" using d by (simp_all add: db_has_def)
  have keys: "\<forall>(c, l, v)\<in>set (snd b). length l = HashLength" using b by (simp add: blocks_ok_def)
  have ls: "?ls = ls\<lparr>ls_pending := ?n, ls_cfs := foldl (write_cf R) (ls_cfs ls) ?batch, ls_BlockNum := ?n, ls_StateRoot := fst b, ls_batch := []\<rparr>"
    using num by (simp add: write_block_def BeginPendingBlock_def put_batch LatestState_Commit_def)
  have get: "rk_get R k (ls_cfs ?ls col) = (case last_put ?batch col k of None \<Rightarrow> rk_get R k (ls_cfs ls col) | Some v \<Rightarrow> Some v)" for k col
    using write_cfs [OF R] ls by simp
  have all: "last_put (all_puts (blocks @ [b])) c k = (case last_put (snd b) c k of None \<Rightarrow> last_put (all_puts blocks) c k | Some v \<Rightarrow> Some v)" for c k
    by (simp add: all_puts_def last_put_append split: option.split)
  have ver: "length k = HashLength \<Longrightarrow> take HashLength (VersionedKey k i) = k" for k i by (simp add: VersionedKey_def)
  have vk: "(\<exists>l. length l = HashLength \<and> VersionedKey k (of_nat i) = VersionedKey l ?n) \<longleftrightarrow> i = length blocks"
    if "length k = HashLength" "i < length (blocks @ [b])" for k i
    using that b VersionedKey_inject [of k] word_of_nat_eq [of i "length blocks"] by (auto simp: blocks_ok_def)
  have bv: "last_put ?batch (DCol c) (VersionedKey k (of_nat i)) = (if i = length blocks then last_put (snd b) c k else None)"
    if "trie_values c" "length k = HashLength" "i < length (blocks @ [b])" for c k i
    unfolding batch_version [OF that(1) keys] vk [OF that(2,3)] ver [OF that(2)] ..
  have "rk_get R (VersionedKey k (of_nat i)) (ls_cfs ?ls (DCol c)) = last_put (snd ((blocks @ [b]) ! i)) c k"
    if c: "trie_values c" "length k = HashLength" "i < length (blocks @ [b])" for c k i
  proof (cases "i = length blocks")
    case True
    have "rk_get R (VersionedKey k ?n) (ls_cfs ls (DCol c)) = None"
    proof (rule ccontr)
      assume "rk_get R (VersionedKey k ?n) (ls_cfs ls (DCol c)) \<noteq> None"
      then obtain l j where "length l = HashLength" "j < length blocks" "VersionedKey k ?n = VersionedKey l (of_nat j)"
        using d c(1) unfolding db_has_def by blast
      then show False using VersionedKey_inject [of k l] c(2) word_of_nat_eq [of j "length blocks"] b by (simp add: blocks_ok_def)
    qed
    then show ?thesis using True get [of "VersionedKey k (of_nat i)" "DCol c"] bv [OF c] by (simp split: option.split)
  next
    case False
    moreover from this have "rk_get R (VersionedKey k (of_nat i)) (ls_cfs ls (DCol c)) = last_put (snd (blocks ! i)) c k"
      using d c unfolding db_has_def by simp
    ultimately show ?thesis using get [of "VersionedKey k (of_nat i)" "DCol c"] bv [OF c] c(3) by (simp add: nth_append)
  qed
  moreover have "\<exists>k i. length k = HashLength \<and> i < length (blocks @ [b]) \<and> key = VersionedKey k (of_nat i)"
    if c: "trie_values c" "rk_get R key (ls_cfs ?ls (DCol c)) \<noteq> None" for c key
  proof (cases "\<exists>k. length k = HashLength \<and> key = VersionedKey k ?n")
    case True
    then show ?thesis by (metis length_append_singleton lessI)
  next
    case False
    have "last_put ?batch (DCol c) key = None" using batch_version [OF c(1) keys, of ?off ?n key] unfolding if_not_P [OF False] .
    then have "rk_get R key (ls_cfs ls (DCol c)) \<noteq> None" using c(2) get by simp
    then obtain k i where "length k = HashLength" "i < length blocks" "key = VersionedKey k (of_nat i)"
      using d c(1) unfolding db_has_def by blast
    then show ?thesis by (auto intro: less_SucI)
  qed
  moreover have "rk_get R k (ls_cfs ?ls (DCol c)) = last_put (all_puts (blocks @ [b])) c k" if "\<not> trie_values c" for c k
    using get batch_plain [OF that] d that all by (simp add: db_has_def split: option.split)
  moreover have "rk_get R k (ls_cfs ?ls (latest_col c)) = last_put (all_puts (blocks @ [b])) c k" if "trie_values c" "\<not> ?off" for c k
    using get batch_latest [OF that] d that all by (simp add: db_has_def split: option.split)
  ultimately show ?thesis unfolding db_has_def by (simp add: ls)
qed

lemma blocks_have: "rocks_ok R \<Longrightarrow> fresh_db R ls \<Longrightarrow> blocks_ok blocks \<Longrightarrow> db_has R blocks (foldl (\<lambda>s b. write_block R b s) ls blocks)"
proof (induction blocks rule: rev_induct)
  case (snoc b blocks)
  then have "blocks_ok blocks" by (simp add: blocks_ok_def)
  then show ?case using snoc block_has [of R blocks _ b] by simp
qed (simp add: fresh_has)

subsection \<open>Reading\<close>

lemma last_block:
  assumes "i \<le> b" "b < length blocks" "last_put (snd (blocks ! i)) c k = Some v" "\<And>j. j \<le> b \<Longrightarrow> last_put (snd (blocks ! j)) c k \<noteq> None \<Longrightarrow> j \<le> i"
  shows "last_put (all_puts (take (Suc b) blocks)) c k = Some v"
  using assms
proof (induction b)
  case 0
  then show ?case by (simp add: all_puts_def take_Suc_conv_app_nth last_put_append)
next
  case (Suc b)
  have eq: "last_put (all_puts (take (Suc (Suc b)) blocks)) c k =
      (case last_put (snd (blocks ! Suc b)) c k of None \<Rightarrow> last_put (all_puts (take (Suc b) blocks)) c k | Some v \<Rightarrow> Some v)"
    using Suc.prems(2) by (simp add: take_Suc_conv_app_nth [of "Suc b"] all_puts_def last_put_append split: option.split)
  show ?case
  proof (cases "i = Suc b")
    case True
    then show ?thesis using eq Suc.prems(3) by simp
  next
    case False
    then have "last_put (snd (blocks ! Suc b)) c k = None" using Suc.prems(1) Suc.prems(4) [of "Suc b"]
      by (cases "last_put (snd (blocks ! Suc b)) c k") auto
    moreover have "last_put (all_puts (take (Suc b) blocks)) c k = Some v"
      by (rule Suc.IH) (use False Suc.prems in auto)
    ultimately show ?thesis using eq by simp
  qed
qed

lemma no_block:
  assumes "b < length blocks" "\<And>j. j \<le> b \<Longrightarrow> last_put (snd (blocks ! j)) c k = None"
  shows "last_put (all_puts (take (Suc b) blocks)) c k = None"
  using assms
proof (induction b)
  case (Suc b)
  then show ?case by (simp add: take_Suc_conv_app_nth [of "Suc b"] all_puts_def last_put_append)
qed (simp add: all_puts_def take_Suc_conv_app_nth last_put_append)

lemma versioned_read:
  assumes R: "rocks_ok R" and d: "db_has R blocks ls" and b: "blocks_ok blocks" "n < length blocks" "length blocks < 2 ^ 64"
    and c: "trie_values c" and k: "length k = HashLength"
  shows "block_state_reader_Get R (ls_cfs ls) (of_nat n) (DCol c) k = plain_store (all_puts (take (Suc n) blocks)) c k"
proof -
  let ?cf = "ls_cfs ls (DCol c)" and ?t = "VersionedKey k (of_nat n)" and ?P = "\<lambda>i. last_put (snd (blocks ! i)) c k"
  have get: "rk_get R (VersionedKey k (of_nat i)) ?cf = ?P i" if "i < length blocks" for i using d c k that by (simp add: db_has_def)
  have le: "key_le (VersionedKey k (of_nat i)) ?t \<longleftrightarrow> i \<le> n" if "i < length blocks" for i
    using that b VersionedKey_le [of k k "of_nat i" "of_nat n"] word_of_nat_le [of i n] by simp
  have vc: "versioned_column (DCol c)" using c by (auto simp: trie_values_def versioned_column_def)
  have nil: "(of_nat n :: block_num) \<noteq> BlockNumberNIL" using block_not_nil b by simp
  show ?thesis
  proof (cases "rk_seek_for_prev R ?t ?cf")
    case None
    then have none: "\<not> key_le l ?t" if "rk_get R l ?cf \<noteq> None" for l using R that unfolding rocks_ok_def by blast
    have "?P i = None" if "i \<le> n" for i using none [of "VersionedKey k (of_nat i)"] get [of i] le [of i] that b(2)
      by (cases "?P i") auto
    then show ?thesis using no_block [OF b(2)] None vc nil
      by (simp add: block_state_reader_Get_def plain_store_last nonempty_data_def)
  next
    case (Some lv)
    obtain l v where lv: "lv = (l, v)" by (cases lv)
    have s: "rk_get R l ?cf = Some v" "key_le l ?t" "\<And>l'. rk_get R l' ?cf \<noteq> None \<Longrightarrow> key_le l' ?t \<Longrightarrow> key_le l' l"
      using R Some unfolding lv rocks_ok_def by blast+
    obtain k' i where l: "length k' = HashLength" "i < length blocks" "l = VersionedKey k' (of_nat i)"
      using d c s(1) unfolding db_has_def by (metis option.distinct(1))
    have tk: "take (length k) l = k'" using l k by (simp add: VersionedKey_def)
    have read: "block_state_reader_Get R (ls_cfs ls) (of_nat n) (DCol c) k = (if k' = k then nonempty_data (Some v) else None)"
      using Some lv tk vc nil by (simp add: block_state_reader_Get_def)
    have len: "length k = length k'" "length k' = length k" using k l(1) by simp_all
    show ?thesis
    proof (cases "k' = k")
      case True
      then have i: "i \<le> n" "?P i = Some v" using s l le get by simp_all
      have "j \<le> i" if j: "j \<le> n" "?P j \<noteq> None" for j
      proof -
        have "j < length blocks" using j(1) b(2) by simp
        then have "key_le (VersionedKey k (of_nat j)) (VersionedKey k (of_nat i))"
          using s(3) [of "VersionedKey k (of_nat j)"] get [of j] le [of j] j l(3) True by simp
        then show ?thesis using VersionedKey_le [of k k "of_nat j" "of_nat i"] word_of_nat_le [of j i] b(3) l(2) \<open>j < length blocks\<close> by simp
      qed
      then have "last_put (all_puts (take (Suc n) blocks)) c k = Some v" using last_block [OF i(1) b(2) i(2)] by blast
      then show ?thesis using read True by (simp add: plain_store_last)
    next
      case False
      have "?P i = None" if "i \<le> n" for i
      proof (rule ccontr)
        assume p: "?P i \<noteq> None"
        have "i < length blocks" using that b(2) by simp
        then have "key_le (VersionedKey k (of_nat i)) l" using s(3) [of "VersionedKey k (of_nat i)"] get le that p by simp
        then have "key_le k k'" using l(3) VersionedKey_le [OF len(1)] False by simp
        moreover have "key_le k' k" using s(2) l(3) VersionedKey_le [OF len(2)] False by simp
        ultimately show False using key_le_antisym False by blast
      qed
      then show ?thesis using no_block [OF b(2)] read False by (simp add: plain_store_last nonempty_data_def)
    qed
  qed
qed

lemma pending_read:
  assumes R: "rocks_ok R" and d: "db_has R blocks ls" and b: "blocks_ok blocks" "blocks \<noteq> []" "length blocks < 2 ^ 64" and k: "length k = HashLength"
  shows "PendingBlockState_Get R ls c k = plain_store (all_puts blocks) c k"
proof -
  obtain n where n: "length blocks = Suc n" using b(2) by (cases blocks) auto
  have num: "ls_BlockNum ls = of_nat n" using d n by (simp add: db_has_def)
  have nil: "ls_BlockNum ls \<noteq> BlockNumberNIL" using block_not_nil [of n] num b(3) n by simp
  show ?thesis
  proof (cases "trie_values c \<and> ls_views_disabled ls")
    case True
    then show ?thesis using versioned_read [OF R d b(1) _ b(3) _ k, of n c] n num
      by (simp add: PendingBlockState_Get_def trie_values_def)
  next
    case False
    then show ?thesis using d nil
      by (auto simp: PendingBlockState_Get_def block_state_reader_Get_def db_has_def plain_store_last trie_values_def versioned_column_def
          latest_col_def Let_def)
  qed
qed

subsection \<open>The state of every block can be read\<close>

text \<open>C40: in a database that started empty and committed a row of blocks, the reader of a committed block finds under a key of the
  tries what a plain store has after the puts up to that block, whatever was put later; a reader of a later block is
  refused; and the pending block reads, through the latest views or without them, the state after all the committed blocks.\<close>

theorem every_block_can_be_read:
  assumes "rocks_ok R" "fresh_db R ls" "blocks_ok blocks" "n < length blocks" "trie_values c" "length k = HashLength"
  shows "(\<exists>get. GetBlockStateReader R (foldl (\<lambda>s b. write_block R b s) ls blocks) (of_nat n) = Some get \<and>
      get c k = plain_store (all_puts (take (Suc n) blocks)) c k) \<and>
    GetBlockStateReader R (foldl (\<lambda>s b. write_block R b s) ls blocks) (of_nat (length blocks)) = None \<and>
    PendingBlockState_Get R (foldl (\<lambda>s b. write_block R b s) ls blocks) col k = plain_store (all_puts blocks) col k"
proof -
  let ?ls = "foldl (\<lambda>s b. write_block R b s) ls blocks"
  have d: "db_has R blocks ?ls" using blocks_have [OF assms(1-3)] .
  have l: "length blocks < 2 ^ 64" using assms(3) by (simp add: blocks_ok_def)
  obtain m where m: "length blocks = Suc m" using assms(4) by (cases blocks) auto
  have num: "ls_BlockNum ?ls = of_nat m" using d m by (simp add: db_has_def)
  have "\<not> ls_BlockNum ?ls < of_nat n" using num m assms(4) l word_of_nat_le [of n m] by (simp add: not_less)
  then have "\<exists>get. GetBlockStateReader R ?ls (of_nat n) = Some get \<and> get c k = plain_store (all_puts (take (Suc n) blocks)) c k"
    using versioned_read [OF assms(1) d assms(3,4) l assms(5,6)] by (simp add: GetBlockStateReader_def)
  moreover have "GetBlockStateReader R ?ls (of_nat (length blocks)) = None"
    using num m l word_of_nat_le [of "Suc m" m] by (simp add: GetBlockStateReader_def not_le)
  moreover have "PendingBlockState_Get R ?ls col k = plain_store (all_puts blocks) col k"
    by (rule pending_read [OF assms(1) d assms(3) _ l assms(6)]) (use m in auto)
  ultimately show ?thesis by blast
qed

text \<open>A column family as a list, for the witness.\<close>

fun max_key :: "bytes \<Rightarrow> bytes list \<Rightarrow> bytes option" where
  "max_key k [] = None"
| "max_key k (l # ls) =
     (case max_key k ls of
        None \<Rightarrow> if key_le l k then Some l else None
      | Some m \<Rightarrow> if key_le l k \<and> key_le m l then Some l else Some m)"

definition list_rocks :: "(bytes \<times> bytes) list rocks" where
  "list_rocks = \<lparr>rk_put = (\<lambda>k v c. (k, v) # c), rk_get = (\<lambda>k c. map_of c k),
     rk_seek_for_prev = (\<lambda>k c. map_option (\<lambda>l. (l, the (map_of c l))) (max_key k (map fst c)))\<rparr>"

lemma key_le_total: "key_le a b \<or> key_le b a"
  by (induction a b rule: key_le.induct) auto

lemma key_le_trans: "key_le a b \<Longrightarrow> key_le b c \<Longrightarrow> key_le a c"
  by (induction a b arbitrary: c rule: key_le.induct) (auto elim!: key_le.elims(2) [of "_ # _"])

lemma max_key_None: "max_key k ls = None \<Longrightarrow> l \<in> set ls \<Longrightarrow> \<not> key_le l k"
  by (induction ls) (auto split: option.splits if_splits)

lemma max_key_Some: "max_key k ls = Some m \<Longrightarrow> m \<in> set ls \<and> key_le m k \<and> (\<forall>l\<in>set ls. key_le l k \<longrightarrow> key_le l m)"
proof (induction ls arbitrary: m)
  case (Cons x ls)
  show ?case
  proof (cases "max_key k ls")
    case None
    then show ?thesis using Cons.prems max_key_None [OF None] key_le_refl by (auto split: if_splits)
  next
    case (Some y)
    note y = Cons.IH [OF Some]
    show ?thesis
    proof (cases "key_le x k \<and> key_le y x")
      case True
      then have "m = x" using Cons.prems Some by simp
      moreover have "key_le l x" if "l \<in> set ls" "key_le l k" for l using key_le_trans [of l y x] y True that by blast
      ultimately show ?thesis using True key_le_refl by auto
    next
      case False
      then have "m = y" using Cons.prems Some by auto
      then show ?thesis using y False key_le_total [of x y] by auto
    qed
  qed
qed simp

lemma list_rocks_ok: "rocks_ok list_rocks"
proof -
  have "rk_get list_rocks l c = Some v \<and> key_le l k \<and> (\<forall>l'. rk_get list_rocks l' c \<noteq> None \<longrightarrow> key_le l' k \<longrightarrow> key_le l' l)"
    if s: "rk_seek_for_prev list_rocks k c = Some (l, v)" for k l v c
  proof -
    have m: "max_key k (map fst c) = Some l" "v = the (map_of c l)" using s by (auto simp: list_rocks_def)
    note ls = max_key_Some [OF m(1)]
    then have "map_of c l = Some v" using m(2) by (metis image_set map_of_eq_None_iff option.collapse)
    then show ?thesis using ls by (auto simp: list_rocks_def dest!: map_of_SomeD)
  qed
  moreover have "\<forall>l. rk_get list_rocks l c \<noteq> None \<longrightarrow> \<not> key_le l k" if "rk_seek_for_prev list_rocks k c = None" for k c
    using that max_key_None [of k "map fst c"] by (force simp: list_rocks_def dest!: map_of_SomeD)
  ultimately show ?thesis unfolding rocks_ok_def by (auto simp: list_rocks_def)
qed

definition demo_db :: "(bytes \<times> bytes) list LatestState" where
  "demo_db = \<lparr>ls_cfs = (\<lambda>_. []), ls_batch = [], ls_BlockNum = BlockNumberNIL, ls_StateRoot = [], ls_pending = BlockNumberNIL, ls_views_disabled = False\<rparr>"

definition demo_blocks :: "(bytes \<times> block_puts) list" where
  "demo_blocks = [([1], [(COL_acc_trie_value, replicate 32 7, [1])]), ([2], [(COL_acc_trie_value, replicate 32 7, [2])]), ([3], [])]"

lemma demo_db_ok: "fresh_db list_rocks demo_db" "blocks_ok demo_blocks"
  by (simp_all add: fresh_db_def demo_db_def list_rocks_def blocks_ok_def demo_blocks_def HashLength_def)

theorem every_block_can_be_read_witness:
  "(\<exists>get. GetBlockStateReader list_rocks (foldl (\<lambda>s b. write_block list_rocks b s) demo_db demo_blocks) (of_nat 1) = Some get \<and>
      get COL_acc_trie_value (replicate 32 7) = plain_store (all_puts (take (Suc 1) demo_blocks)) COL_acc_trie_value (replicate 32 7)) \<and>
    GetBlockStateReader list_rocks (foldl (\<lambda>s b. write_block list_rocks b s) demo_db demo_blocks) (of_nat (length demo_blocks)) = None \<and>
    PendingBlockState_Get list_rocks (foldl (\<lambda>s b. write_block list_rocks b s) demo_db demo_blocks) COL_acc_trie_value (replicate 32 7) =
      plain_store (all_puts demo_blocks) COL_acc_trie_value (replicate 32 7)"
  by (rule every_block_can_be_read [OF list_rocks_ok demo_db_ok]) (simp_all add: demo_blocks_def trie_values_def HashLength_def)

end
