(* ===== verification/Spec2Isabelle.thy ===== *)
theory Spec2Isabelle
  imports Chain_Config Storage_Properties Dpos_Properties Slashing_Facts Rlp_Properties Evm_Properties Trie_Properties Versioned_Db
begin

text \<open>
  A verification of taraxa-evm: its virtual machine, the trie and the database of its state, and the on-chain staking.

  \<^bold>\<open>The program.\<close> taraxa-evm is the execution layer of the Taraxa chain: an EVM, whose state lives in a
  Merkle Patricia trie, and two contracts written in Go and called through the EVM at fixed addresses: the
  DPOS contract (\<open>src/taraxa/state/contracts/dpos\<close>), which keeps the stakes, the rewards and the validators
  that may vote, and the slashing contract (\<open>src/taraxa/state/contracts/slashing\<close>), which jails validators
  that voted twice. Both keep their data in the storage of their account through
  \<open>src/taraxa/state/contracts/storage\<close>; which rules apply in a block is decided by the hard forks of
  \<open>src/taraxa/state/chain_config\<close>.

  \<^bold>\<open>The theories\<close>, from the bottom.

  \<^item> \<open>Prelude\<close>: the types of machine integers and bytes, \<open>big.Int\<close> division, the package \<open>uint256\<close> as a parameter
    with its documented laws, panics as the option monad.
  \<^item> \<open>Chain_Config\<close>: \<open>chain_config.go\<close>.
  \<^item> \<open>Byte_Codecs\<close>, \<open>Contract_Storage\<close>, \<open>Iterable_Map\<close>, \<open>Iterable_Map_Refinement\<close>: the integer encodings,
    the caching storage wrapper, and the iterable map, as bytes under keys that a hash function makes and as a list;
    the interfaces are the locales \<open>kv_store\<close> and \<open>iterable_set\<close>, interpreted on the wrapper, on lists and
    on the bytes.
  \<^item> \<open>Dpos_Store\<close>, \<open>Dpos_Contract\<close>, \<open>Dpos_Rewards\<close>, \<open>Dpos_Queries\<close>, \<open>Dpos_Reader\<close>, \<open>Dpos_Dispatch\<close>: the DPOS
    contract, file by file: \<open>validators.go\<close>, \<open>delegations.go\<close> and \<open>undelegations.go\<close>; the methods of
    \<open>dpos_contract.go\<close> that change state; \<open>DistributeRewards\<close>, \<open>yield_curve.go\<close>, genesis and the end of a
    block; the queries; \<open>reader.go\<close> and \<open>api.go\<close>; \<open>RequiredGas\<close> and \<open>Run\<close>. The state is the record \<open>dpos\<close>:
    the storage fields (prefix \<open>s\<close>), the values the Go object holds in memory (\<open>c\<close>) and the balances, nonces, logs
    and block number of the EVM (\<open>w\<close>). A method returns \<^const>\<open>None\<close> for a panic, and the state with Go's error otherwise.
  \<^item> \<open>Dpos_Ledger\<close>, \<open>Dpos_Invariant\<close>, \<open>Dpos_Booking\<close>, \<open>Dpos_Undelegations\<close>, \<open>Dpos_Safety\<close>, \<open>Dpos_Claims\<close>,
    \<open>Dpos_Redelegate\<close>: the invariant of the ledger and its preservation by every operation. The stakes of a validator
    sum up to its total, every state that a validator or a delegation refers to exists and counts at least its
    references, the indexes agree with the records, the votes are those of the stakes, and the balance of the
    contract covers stakes, undelegations, unclaimed rewards and commissions (\<open>solvent\<close>).
  \<^item> \<open>Dpos_Frame\<close>, \<open>Dpos_Effects\<close>: rules to walk through an operation, with which commissions stay within 100 percent
    and the effect of each operation on stakes and requests is shown.
  \<^item> \<open>Dpos_Query_Facts\<close>, \<open>Dpos_Reward_Facts\<close>: the batch queries are slices of lists; the rewards distributed are
    within the reward of the block and do not depend on the order of a Go map.
  \<^item> \<open>Dpos_Machine\<close>: \<open>EVM.call\<close> of \<open>src/core/vm/evm.go\<close> for the contract, the contract over many blocks (locale
    \<open>total_machine\<close>) and restarts of the node.
  \<^item> \<open>Slashing\<close>, \<open>Slashing_Facts\<close>: the slashing contract.
  \<^item> \<open>Word_Facts\<close>, \<open>Rlp\<close>, \<open>Rlp_Facts\<close>, \<open>Rlp_Split\<close>: the encoder of \<open>src/rlp/encode.go\<close> with its buffers and the splitting of
    encodings of \<open>raw.go\<close>; the encoder writes the recursive definition \<open>rlp_encode\<close>, and exactly the canonical encodings are split.
  \<^item> \<open>Evm_State\<close>, \<open>Evm_Journal\<close>: the accounts and the journal of \<open>src/taraxa/state/state_evm\<close>. The interface of the journal is the
    locale \<open>undo_log\<close>, interpreted on the accounts: each operation registers what undoes it, so that going back to a
    snapshot restores the state that the machine can observe.
  \<^item> \<open>Evm_Base\<close>, \<open>Evm_Gas\<close>, \<open>Evm_Analysis\<close>, \<open>Evm_Instructions\<close>, \<open>Evm_Interpreter\<close>, \<open>Evm_Run\<close>: the machine of \<open>src/core/vm\<close>: stack,
    memory and gas; the bitmap of jump destinations; the instructions; calls and creations; the tables of instructions, the
    loop and \<open>Main\<close>, the execution of a transaction. A Go panic is \<^const>\<open>None\<close>, or \<open>Panic\<close> where calls are nested.
  \<^item> \<open>Evm_Facts\<close>, \<open>Evm_Termination\<close>: facts about each instruction, for the whole table; every instruction that goes on costs gas and no
    call returns more than it got, so a transaction ends.
  \<^item> \<open>Evm_World\<close>, \<open>Evm_Effects\<close>, \<open>Evm_Transaction\<close>: the locale \<open>world_relation\<close> collects what the interpreter needs of a relation between
    states for all runs to respect it. Its three interpretations say that every run can be undone, that no run makes coins, and
    that in read-only mode nothing visible changes.
  \<^item> \<open>Trie_Encoding\<close>, \<open>Trie\<close>, \<open>Trie_Commit\<close>: \<open>src/taraxa/trie\<close>: the encodings of keys, the nodes in memory with the hashes they
    cache, reading and decoding nodes, insertion and deletion, and the commit, which walks the changed nodes with one
    encoder for what is hashed and one for what is stored. What is put to the database is a list of \<open>trie_put\<close>.
  \<^item> \<open>Trie_Spec\<close>, \<open>Trie_Reference\<close>: the abstract trie, a tree without hashes with \<open>lookup\<close>, \<open>ins\<close> and \<open>del\<close>, which the map of its
    keys determines; and what is hashed and stored of it, as functions of the tree. \<open>root_hash\<close> is the definition of the
    Merkle Patricia root; \<open>ref_root\<close> builds the tree of a list of keys and values.
  \<^item> \<open>Trie_Rep\<close>, \<open>Trie_Decode\<close>, \<open>Trie_Writes\<close>, \<open>Trie_Deletes\<close>, \<open>Trie_Map\<close>: the relation \<open>rep\<close> between nodes, a database and a tree, and that
    resolving, inserting and deleting respect it. \<open>writer_holds\<close> says which map of keys a writer holds.
  \<^item> \<open>Trie_Encoders\<close>, \<open>Trie_Short\<close>, \<open>Trie_Committed\<close>, \<open>Trie_Block\<close>: the commit writes the reference encodings and computes the reference
    root; when the batch of the block is written, the trie in memory and the one opened at the root hold the map.
  \<^item> \<open>State_Db\<close>, \<open>State_Db_Facts\<close>: \<open>src/taraxa/state/state_db\<close>: the encodings of an account, the schemas of the two tries, the
    columns and the reader of a block's state.
  \<^item> \<open>Map_Writer\<close>, \<open>Trie_Sink\<close>, \<open>Trie_Typed\<close>, \<open>Trie_Properties\<close>: \<open>trie_sink.go\<close>, which writes the changes of accounts to their
    storage tries and to the main trie. Its interface to the trie is the locale \<open>map_writer\<close>, interpreted on \<open>Put\<close> and
    \<open>Delete\<close>. \<open>Trie_Typed\<close> has the shape of the nodes.
  \<^item> \<open>Versioned_Db\<close>: \<open>src/taraxa/state/state_db_rocksdb\<close>: the versioned keys, the pending block, its commit and the readers.
  \<^item> \<open>Evm_Demo\<close>: a concrete machine for the witnesses.
  \<^item> \<open>Dpos_Demo\<close>: a concrete ledger; \<open>Storage_Properties\<close>, \<open>Dpos_Properties\<close>, \<open>Rlp_Properties\<close>, \<open>Evm_Properties\<close> and this
    theory: the properties.

  \<^bold>\<open>Bounds.\<close> The loops of \<open>getUndelegationsV2\<close> and of the storage-read counter take fuel, one more than the
  number of validators of the delegator, and are shown to need no more. Counters keep their widths; the properties
  assume that lists and reference counts stay below \<open>2 ^ 30\<close> and \<open>2 ^ 31\<close> (\<open>within_limits\<close>).

  The loop of the machine takes fuel, one unit per instruction; more than the gas of the transaction is enough, and more changes nothing.
  The walks of the trie take the fuel \<open>trie_fuel\<close>, a node and a hash for each of the 65 nibbles of a key, and decoding takes the
  length of the encoding; the theorems about the trie show that both are enough. Encoded values stay below \<open>2 ^ 31\<close> bytes (\<open>value_ok\<close>).

  \<^bold>\<open>Parameters.\<close> The package \<open>uint256\<close>, the ABI decoder (reflection over Go types), keccak256, the recovery of
  public keys, for the machine the precompiled contracts, and RocksDB (\<open>rocks_ok\<close>). Of keccak256 the trie needs that it yields 32
  bytes; that no two nodes that a block writes, nor one of them and one in the database, have the same hash is the assumption
  \<open>nodes_agree\<close> of the properties that read the trie again. The threads of the sink and of the database run their tasks
  in the order of submission, which is the order of the model.

  \<^bold>\<open>Not modelled.\<close> The stream decoder and the reflection of \<open>src/rlp\<close>, opening, copying and pruning the database, the
  state transition and the API that call the modelled parts, tracing, the C interface and the cryptographic primitives.
\<close>

section \<open>The contract as seen by the chain\<close>










end
